(* ===== verification/Prelude.thy ===== *)
theory Prelude
  imports Main "HOL-Library.Word"
begin

text \<open>
  What the components share: the parts of the Go language and of its standard library that
  the gateway uses (byte strings and package \<open>strings\<close>, \<open>time.Time\<close> and
  \<open>time.Duration\<close>, fixed-width integers, slices that may be nil), the update of the first
  matching element of a slice, and the collections of rewrite rules the component theories
  extend.

  Conventions.
  \<^item> A Go string is its list of bytes (\<open>string\<close>, a \<open>char\<close> is a byte), so \<open>len\<close> is
    \<open>length\<close>.
  \<^item> A \<open>time.Time\<close> is the number of nanoseconds since the zero time (year 1, UTC), so that
    \<open>t.IsZero()\<close> is \<open>t = 0\<close>; a \<open>time.Duration\<close> is a number of nanoseconds.
  \<^item> A method that locks its receiver for its whole body is one atomic step of the state it
    returns. A method is modelled on a non-nil receiver; what it does on a nil receiver is
    one early return, stated where a component relies on it.
  \<^item> Logging and metrics have no effect on the modelled state.
\<close>

section \<open>Rule collections\<close>

named_theorems go_string_simps \<open>evaluation of the string functions\<close>
named_theorems op_defs \<open>definitions of a component's operations\<close>
named_theorems inv_intros \<open>invariant preservation, one rule per operation\<close>

section \<open>Strings\<close>

text \<open>\<open>strings.HasPrefix\<close>, \<open>TrimPrefix\<close>, \<open>HasSuffix\<close> and \<open>TrimSuffix\<close>, with Go's argument order.\<close>

definition has_prefix :: "string \<Rightarrow> string \<Rightarrow> bool" where
  "has_prefix s p \<longleftrightarrow> take (length p) s = p"

definition trim_prefix :: "string \<Rightarrow> string \<Rightarrow> string" where
  "trim_prefix s p = (if has_prefix s p then drop (length p) s else s)"

text \<open>\<open>strings.Join\<close>.\<close>

fun join_with :: "string \<Rightarrow> string list \<Rightarrow> string" where
  "join_with sep [] = []"
| "join_with sep [x] = x"
| "join_with sep (x # y # ys) = x @ sep @ join_with sep (y # ys)"

text \<open>\<open>strings.TrimRight(s, "/")\<close>.\<close>

definition trim_slashes :: "string \<Rightarrow> string" where
  "trim_slashes s = rev (dropWhile (\<lambda>c. c = CHR ''/'') (rev s))"

definition has_suffix :: "string \<Rightarrow> string \<Rightarrow> bool" where
  "has_suffix s p \<longleftrightarrow> has_prefix (rev s) (rev p)"

definition trim_suffix :: "string \<Rightarrow> string \<Rightarrow> string" where
  "trim_suffix s p = (if has_suffix s p then take (length s - length p) s else s)"

text \<open>\<open>strings.Index\<close>: the offset of the first occurrence, \<open>None\<close> for Go's -1.\<close>

fun str_index :: "string \<Rightarrow> string \<Rightarrow> nat option" where
  "str_index [] p = (if p = [] then Some 0 else None)"
| "str_index (c # s) p =
     (if has_prefix (c # s) p then Some 0 else map_option Suc (str_index s p))"

definition str_contains :: "string \<Rightarrow> string \<Rightarrow> bool" where
  "str_contains s p \<longleftrightarrow> str_index s p \<noteq> None"

lemma has_prefix_iff: "has_prefix s p \<longleftrightarrow> (\<exists>t. s = p @ t)"
  by (auto simp: has_prefix_def) (metis append_take_drop_id)

lemma has_prefix_append [simp]: "has_prefix (p @ t) p"
  by (simp add: has_prefix_def)

lemma has_prefix_Nil [simp]: "has_prefix s []"
  by (simp add: has_prefix_def)

lemma has_prefix_refl [simp]: "has_prefix s s"
  by (simp add: has_prefix_def)

lemma has_prefix_Cons [go_string_simps]:
  "has_prefix (c # s) (d # p) \<longleftrightarrow> c = d \<and> has_prefix s p"
  "\<not> has_prefix [] (d # p)"
  by (auto simp: has_prefix_def)

lemma str_index_at: "has_prefix s p \<Longrightarrow> str_index s p = Some 0"
  by (cases s; cases p) (simp_all add: has_prefix_Cons)

lemma str_contains_middle: "str_contains (u @ p @ v) p"
  using str_index_at [of "p @ v" p] by (induction u) (auto simp: str_contains_def)

lemma has_prefix_length: "has_prefix s p \<Longrightarrow> length p \<le> length s"
  by (auto simp: has_prefix_iff)

lemma has_prefix_trans: "has_prefix s p \<Longrightarrow> has_prefix p q \<Longrightarrow> has_prefix s q"
  by (auto simp: has_prefix_iff)

text \<open>Two prefixes of one string that are equally long are the same string.\<close>

lemma has_prefix_unique:
  "has_prefix s p \<Longrightarrow> has_prefix s q \<Longrightarrow> length p = length q \<Longrightarrow> p = q"
  by (simp add: has_prefix_def)

lemma trim_prefix_append [simp]: "trim_prefix (p @ s) p = s"
  by (simp add: trim_prefix_def)

lemma trim_prefix_no: "\<not> has_prefix s p \<Longrightarrow> trim_prefix s p = s"
  by (simp add: trim_prefix_def)

lemma append_trim_prefix: "has_prefix s p \<Longrightarrow> p @ trim_prefix s p = s"
  by (auto simp: has_prefix_iff)

lemma has_suffix_iff: "has_suffix s p \<longleftrightarrow> (\<exists>t. s = t @ p)"
  by (simp add: has_suffix_def has_prefix_iff) (metis rev_append rev_rev_ident)

lemma trim_suffix_append [simp]: "trim_suffix (s @ p) p = s"
  by (simp add: trim_suffix_def has_suffix_iff)

lemma has_suffix_snoc [simp]: "has_suffix (s @ p) p"
  by (auto simp: has_suffix_iff)

text \<open>
  \<open>strings.TrimSpace\<close> cuts the longest run of Unicode white space at either end: the
  encodings below are exactly \<open>unicode.IsSpace\<close>. A byte sequence that is no encoding of
  white space ends the cut, as it does in Go.
\<close>

definition space_encodings :: "string list" where
  "space_encodings =
     [[CHR 9], [CHR 10], [CHR 11], [CHR 12], [CHR 13], [CHR 32],
      [CHR 0xC2, CHR 0x85], [CHR 0xC2, CHR 0xA0],
      [CHR 0xE1, CHR 0x9A, CHR 0x80],
      [CHR 0xE2, CHR 0x80, CHR 0x80], [CHR 0xE2, CHR 0x80, CHR 0x81],
      [CHR 0xE2, CHR 0x80, CHR 0x82], [CHR 0xE2, CHR 0x80, CHR 0x83],
      [CHR 0xE2, CHR 0x80, CHR 0x84], [CHR 0xE2, CHR 0x80, CHR 0x85],
      [CHR 0xE2, CHR 0x80, CHR 0x86], [CHR 0xE2, CHR 0x80, CHR 0x87],
      [CHR 0xE2, CHR 0x80, CHR 0x88], [CHR 0xE2, CHR 0x80, CHR 0x89],
      [CHR 0xE2, CHR 0x80, CHR 0x8A],
      [CHR 0xE2, CHR 0x80, CHR 0xA8], [CHR 0xE2, CHR 0x80, CHR 0xA9],
      [CHR 0xE2, CHR 0x80, CHR 0xAF], [CHR 0xE2, CHR 0x81, CHR 0x9F],
      [CHR 0xE3, CHR 0x80, CHR 0x80]]"

function strip_front :: "string list \<Rightarrow> string \<Rightarrow> string" where
  "strip_front ws s =
     (case find (\<lambda>w. w \<noteq> [] \<and> has_prefix s w) ws of
        None \<Rightarrow> s
      | Some w \<Rightarrow> strip_front ws (drop (length w) s))"
  by pat_completeness auto
termination
  by (relation "measure (\<lambda>(ws, s). length s)")
     (auto simp: find_Some_iff has_prefix_iff)

declare strip_front.simps [simp del]

definition trim_space :: "string \<Rightarrow> string" where
  "trim_space s =
     rev (strip_front (map rev space_encodings) (rev (strip_front space_encodings s)))"

text \<open>\<open>strings.ToLower\<close> on ASCII; bytes from 128 on are left alone.\<close>

definition lower_char :: "char \<Rightarrow> char" where
  "lower_char c =
     (let n = (of_char c :: nat) in if 65 \<le> n \<and> n \<le> 90 then char_of (n + 32) else c)"

definition to_lower :: "string \<Rightarrow> string" where
  "to_lower s = map lower_char s"

lemma lower_char_idem [simp]: "lower_char (lower_char c) = lower_char c"
  by (auto simp: lower_char_def Let_def)

lemma to_lower_idem [simp]: "to_lower (to_lower s) = to_lower s"
  by (simp add: to_lower_def)

lemma length_to_lower [simp]: "length (to_lower s) = length s"
  by (simp add: to_lower_def)

lemma to_lower_append: "to_lower (s @ t) = to_lower s @ to_lower t"
  by (simp add: to_lower_def)

text \<open>Trimming leaves a string that begins and ends with no white space, and is idempotent.\<close>

definition strip_done :: "string list \<Rightarrow> string \<Rightarrow> bool" where
  "strip_done ws s \<longleftrightarrow> (\<forall>w \<in> set ws. w \<noteq> [] \<longrightarrow> \<not> has_prefix s w)"

lemma strip_front_id: "strip_done ws s \<Longrightarrow> strip_front ws s = s"
  by (subst strip_front.simps) (auto simp: strip_done_def find_None_iff split: option.split
      dest!: find_Some_iff [THEN iffD1] intro: nth_mem)

lemma strip_front_done: "strip_done ws (strip_front ws s)"
proof (induction ws s rule: strip_front.induct)
  case (1 ws s)
  show ?case
  proof (cases "find (\<lambda>w. w \<noteq> [] \<and> has_prefix s w) ws")
    case None
    then have "strip_front ws s = s" by (subst strip_front.simps) simp
    with None show ?thesis by (auto simp: strip_done_def find_None_iff)
  next
    case (Some w)
    with 1 show ?thesis by (subst strip_front.simps) simp
  qed
qed

lemma strip_front_suffix: "\<exists>t. s = t @ strip_front ws s"
proof (induction ws s rule: strip_front.induct)
  case (1 ws s)
  show ?case
  proof (cases "find (\<lambda>w. w \<noteq> [] \<and> has_prefix s w) ws")
    case None
    then show ?thesis by (subst strip_front.simps) simp
  next
    case (Some w)
    with 1 obtain t where "drop (length w) s = t @ strip_front ws (drop (length w) s)" by blast
    then have "s = (take (length w) s @ t) @ strip_front ws (drop (length w) s)"
      by (metis append.assoc append_take_drop_id)
    with Some show ?thesis by (subst strip_front.simps) (auto simp only: option.case)
  qed
qed

lemma strip_done_prefix: "strip_done ws (s @ t) \<Longrightarrow> strip_done ws s"
  by (auto simp: strip_done_def has_prefix_iff)

lemma trim_space_prefix_of_stripped:
  "\<exists>t. strip_front space_encodings s = trim_space s @ t"
proof -
  let ?u = "rev (strip_front space_encodings s)"
  obtain t where "?u = t @ strip_front (map rev space_encodings) ?u"
    using strip_front_suffix by blast
  then have "strip_front space_encodings s = rev (strip_front (map rev space_encodings) ?u) @ rev t"
    by (metis rev_append rev_rev_ident)
  then show ?thesis by (auto simp: trim_space_def)
qed

lemma trim_space_done_front: "strip_done space_encodings (trim_space s)"
  using trim_space_prefix_of_stripped [of s] strip_front_done [of space_encodings s]
  by (metis strip_done_prefix)

lemma trim_space_idem [simp]: "trim_space (trim_space s) = trim_space s"
proof -
  have "strip_front space_encodings (trim_space s) = trim_space s"
    by (rule strip_front_id [OF trim_space_done_front])
  moreover have "strip_done (map rev space_encodings) (rev (trim_space s))"
    by (simp add: trim_space_def strip_front_done)
  ultimately show ?thesis
    by (subst trim_space_def) (simp add: strip_front_id)
qed

lemma length_strip_front: "length (strip_front ws s) \<le> length s"
  using strip_front_suffix [of s ws] by (metis le_add2 length_append)

lemma length_trim_space: "length (trim_space s) \<le> length s"
  using length_strip_front [of space_encodings s]
    length_strip_front [of "map rev space_encodings" "rev (strip_front space_encodings s)"]
  by (simp add: trim_space_def)

text \<open>A blank in front and a carriage return behind are cut off like any white space.\<close>

lemma trim_space_lead: "trim_space (CHR '' '' # s) = trim_space s"
proof -
  have "find (\<lambda>w. w \<noteq> [] \<and> has_prefix (CHR '' '' # s) w) space_encodings = Some '' ''"
    by (simp add: space_encodings_def has_prefix_def)
  then have "strip_front space_encodings (CHR '' '' # s) = strip_front space_encodings s"
    by (subst strip_front.simps) simp
  then show ?thesis by (simp add: trim_space_def)
qed

lemma space_cr: "w \<in> set space_encodings \<Longrightarrow> CHR 13 \<in> set w \<Longrightarrow> w = [CHR 13]"
  by (auto simp: space_encodings_def)

lemma space_prefix_cr:
  assumes "s \<noteq> []" "w \<in> set space_encodings"
  shows "has_prefix (s @ [CHR 13]) w \<longleftrightarrow> has_prefix s w"
proof
  assume "has_prefix (s @ [CHR 13]) w"
  then obtain t where t: "s @ [CHR 13] = w @ t" by (auto simp: has_prefix_iff)
  show "has_prefix s w"
  proof (cases t rule: rev_cases)
    case Nil
    with t have "CHR 13 \<in> set w" by (metis append_Nil2 in_set_conv_decomp)
    with space_cr [OF assms(2)] t Nil assms(1) show ?thesis by simp
  next
    case (snoc t' c)
    with t show ?thesis by (auto simp: has_prefix_iff)
  qed
qed (auto simp: has_prefix_iff)

lemma strip_front_cr:
  "strip_front space_encodings (s @ [CHR 13]) =
     (let t = strip_front space_encodings s in if t = [] then [] else t @ [CHR 13])"
proof (induction "length s" arbitrary: s rule: less_induct)
  case less
  have one: "find (\<lambda>w. w \<noteq> [] \<and> has_prefix [CHR 13] w) space_encodings = Some [CHR 13]"
    "find (\<lambda>w. w \<noteq> [] \<and> has_prefix [] w) space_encodings = None"
    by (simp_all add: space_encodings_def has_prefix_def)
  have empty: "strip_front space_encodings [] = []" by (subst strip_front.simps) (simp add: one)
  show ?case
  proof (cases "s = []")
    case True
    then show ?thesis by (subst strip_front.simps) (simp add: one empty)
  next
    case False
    have same: "find (\<lambda>w. w \<noteq> [] \<and> has_prefix (s @ [CHR 13]) w) space_encodings =
        find (\<lambda>w. w \<noteq> [] \<and> has_prefix s w) space_encodings"
      by (rule find_cong) (simp_all add: space_prefix_cr [OF False])
    show ?thesis
    proof (cases "find (\<lambda>w. w \<noteq> [] \<and> has_prefix s w) space_encodings")
      case None
      then have "strip_front space_encodings (s @ [CHR 13]) = s @ [CHR 13]" "strip_front space_encodings s = s"
        by (subst strip_front.simps, simp add: same)+
      with False show ?thesis by simp
    next
      case (Some w)
      then have w: "w \<noteq> []" "has_prefix s w" by (auto simp: find_Some_iff)
      then have "length w \<le> length s" by (auto simp: has_prefix_iff)
      moreover from this w(1) have "length (drop (length w) s) < length s" using False by (cases w) auto
      moreover have "strip_front space_encodings (s @ [CHR 13]) = strip_front space_encodings (drop (length w) (s @ [CHR 13]))"
        "strip_front space_encodings s = strip_front space_encodings (drop (length w) s)"
        by (subst strip_front.simps, simp add: same Some)+
      ultimately show ?thesis using less [of "drop (length w) s"] by simp
    qed
  qed
qed

lemma trim_space_cr: "trim_space (s @ [CHR 13]) = trim_space s"
proof -
  have "find (\<lambda>w. w \<noteq> [] \<and> has_prefix (CHR 13 # s) w) (map rev space_encodings) = Some [CHR 13]" for s
    by (simp add: space_encodings_def has_prefix_def)
  then have "strip_front (map rev space_encodings) (CHR 13 # s) = strip_front (map rev space_encodings) s" for s
    by (subst strip_front.simps) simp
  then show ?thesis by (simp add: trim_space_def strip_front_cr Let_def)
qed

text \<open>The characters from one to another.\<close>

definition char_range :: "char \<Rightarrow> char \<Rightarrow> char \<Rightarrow> bool" where
  "char_range a b c \<longleftrightarrow> (of_char a :: nat) \<le> of_char c \<and> of_char c \<le> (of_char b :: nat)"

text \<open>White space holds no letter, so trimming and lower-casing commute.\<close>

definition is_letter :: "char \<Rightarrow> bool" where
  "is_letter c =
     (let n = (of_char c :: nat) in 65 \<le> n \<and> n \<le> 90 \<or> 97 \<le> n \<and> n \<le> 122)"

lemma lower_char_eq_iff: "\<not> is_letter d \<Longrightarrow> lower_char c = d \<longleftrightarrow> c = d"
  by (auto simp: lower_char_def is_letter_def Let_def)

lemma space_no_letter: "\<forall>w \<in> set space_encodings. \<forall>d \<in> set w. \<not> is_letter d"
  by (simp add: space_encodings_def is_letter_def Let_def)

lemma has_prefix_to_lower:
  "\<forall>d \<in> set w. \<not> is_letter d \<Longrightarrow> has_prefix (to_lower s) w = has_prefix s w"
proof (induction w arbitrary: s)
  case (Cons d w)
  then show ?case
    by (cases s) (simp_all add: go_string_simps to_lower_def lower_char_eq_iff)
qed simp

lemma strip_front_to_lower:
  "\<forall>w \<in> set ws. \<forall>d \<in> set w. \<not> is_letter d \<Longrightarrow>
   strip_front ws (to_lower s) = to_lower (strip_front ws s)"
proof (induction ws s rule: strip_front.induct)
  case (1 ws s)
  have eq: "find (\<lambda>w. w \<noteq> [] \<and> has_prefix (to_lower s) w) ws = find (\<lambda>w. w \<noteq> [] \<and> has_prefix s w) ws"
    using 1(2) by (intro find_cong) (auto simp: has_prefix_to_lower)
  show ?case
  proof (cases "find (\<lambda>w. w \<noteq> [] \<and> has_prefix s w) ws")
    case None
    then show ?thesis
      by (simp add: strip_front.simps [of ws s] strip_front.simps [of ws "to_lower s"] eq)
  next
    case (Some w)
    moreover have "drop (length w) (to_lower s) = to_lower (drop (length w) s)"
      by (simp add: to_lower_def drop_map)
    ultimately show ?thesis using 1
      by (simp add: strip_front.simps [of ws s] strip_front.simps [of ws "to_lower s"] eq)
  qed
qed

lemma trim_space_to_lower: "trim_space (to_lower s) = to_lower (trim_space s)"
proof -
  have rev_lower: "rev (to_lower t) = to_lower (rev t)" for t
    by (simp add: to_lower_def rev_map)
  have "\<forall>w \<in> set (map rev space_encodings). \<forall>d \<in> set w. \<not> is_letter d"
    using space_no_letter by simp
  then show ?thesis
    by (simp add: trim_space_def strip_front_to_lower space_no_letter rev_lower del: set_map)
qed

section \<open>Integers and time\<close>

text \<open>
  Go's \<open>int\<close> and \<open>int64\<close> are two's complement on 64 bits, its remainder takes the sign of
  the dividend, and \<open>t.Sub(u)\<close> saturates at the ends of the \<open>int64\<close> range.
\<close>

definition wrap64 :: "int \<Rightarrow> int" where
  "wrap64 x = (x + 2 ^ 63) mod 2 ^ 64 - 2 ^ 63"

definition fits64 :: "int \<Rightarrow> bool" where
  "fits64 x \<longleftrightarrow> - (2 ^ 63) \<le> x \<and> x < 2 ^ 63"

definition go_rem :: "int \<Rightarrow> int \<Rightarrow> int" where
  "go_rem a b = sgn a * (\<bar>a\<bar> mod \<bar>b\<bar>)"

type_synonym gotime = int
type_synonym duration = int

definition second :: duration where "second = 10 ^ 9"
definition minute :: duration where "minute = 60 * second"
definition hour :: duration where "hour = 60 * minute"

definition time_sub :: "gotime \<Rightarrow> gotime \<Rightarrow> duration" where
  "time_sub t u = max (- (2 ^ 63)) (min (2 ^ 63 - 1) (t - u))"

lemma wrap64_id: "- (2 ^ 63) \<le> x \<Longrightarrow> x < 2 ^ 63 \<Longrightarrow> wrap64 x = x"
  by (simp add: wrap64_def)

lemma go_rem_bounds: "0 < b \<Longrightarrow> - b < go_rem a b \<and> go_rem a b < b"
proof -
  assume b: "0 < b"
  then have "0 \<le> \<bar>a\<bar> mod b" and "\<bar>a\<bar> mod b < b" by simp_all
  with b show ?thesis by (cases a "0 :: int" rule: linorder_cases) (simp_all add: go_rem_def)
qed

lemma go_rem_nonneg: "0 \<le> a \<Longrightarrow> 0 < b \<Longrightarrow> go_rem a b = a mod b"
  by (cases "a = 0") (simp_all add: go_rem_def)

lemma time_sub_le: "d < 2 ^ 63 \<Longrightarrow> - (2 ^ 63) < d \<Longrightarrow> d \<le> time_sub t u \<longleftrightarrow> d \<le> t - u"
  by (auto simp: time_sub_def)

lemma time_sub_less: "d < 2 ^ 63 - 1 \<Longrightarrow> - (2 ^ 63) < d \<Longrightarrow> d < time_sub t u \<longleftrightarrow> d < t - u"
  by (auto simp: time_sub_def)

text \<open>The decimal rendering of an integer (\<open>%d\<close>, \<open>strconv.Itoa\<close>).\<close>

fun show_nat :: "nat \<Rightarrow> string" where
  "show_nat n = (if n < 10 then [char_of (n + 48)] else show_nat (n div 10) @ [char_of (n mod 10 + 48)])"

declare show_nat.simps [simp del]

definition show_int :: "int \<Rightarrow> string" where
  "show_int i = (if i < 0 then CHR ''-'' # show_nat (nat (- i)) else show_nat (nat i))"

text \<open>A text cut for the log.\<close>

definition truncateLog :: "string \<Rightarrow> nat \<Rightarrow> string" where
  "truncateLog s maxLen = (if length s \<le> maxLen then s else take maxLen s @ ''...'')"

section \<open>Slices\<close>

text \<open>
  A slice that may be nil is an option; \<open>elems\<close> is what a loop over it sees. The index of
  the first element with a property is what the code's search loops compute
  (\<open>idx := -1; for i, e := range ... { if ... { idx = i; break } }\<close>).
\<close>

definition elems :: "'a list option \<Rightarrow> 'a list" where
  "elems s = (case s of None \<Rightarrow> [] | Some xs \<Rightarrow> xs)"

lemma elems_simps [simp]: "elems None = []" "elems (Some xs) = xs"
  by (simp_all add: elems_def)

fun find_idx :: "('a \<Rightarrow> bool) \<Rightarrow> 'a list \<Rightarrow> nat option" where
  "find_idx P [] = None"
| "find_idx P (x # xs) = (if P x then Some 0 else map_option Suc (find_idx P xs))"

lemma find_idx_None [simp]: "find_idx P xs = None \<longleftrightarrow> (\<forall>x \<in> set xs. \<not> P x)"
  by (induction xs) auto

lemma find_idx_Some:
  "find_idx P xs = Some i \<longleftrightarrow> i < length xs \<and> P (xs ! i) \<and> (\<forall>j < i. \<not> P (xs ! j))"
proof (induction xs arbitrary: i)
  case (Cons x xs)
  then show ?case by (cases i) (auto simp: less_Suc_eq_0_disj)
qed simp

lemma find_idx_SomeD: "find_idx P xs = Some i \<Longrightarrow> i < length xs \<and> P (xs ! i)"
  by (simp add: find_idx_Some)

lemma find_idx_cong_map:
  "map f xs = map f ys \<Longrightarrow> (\<And>x. P x = Q (f x)) \<Longrightarrow> find_idx P xs = find_idx P ys"
proof (induction xs arbitrary: ys)
  case (Cons x xs)
  then obtain y ys' where "ys = y # ys'" "f x = f y" "map f xs = map f ys'"
    by (auto simp: Cons_eq_map_conv)
  with Cons show ?case by simp
qed simp

lemma map_update_same: "i < length xs \<Longrightarrow> f v = f (xs ! i) \<Longrightarrow> map f (xs[i := v]) = map f xs"
  by (metis list_update_id map_update)

lemma all_set_update:
  "(\<forall>x \<in> set xs. P x) \<Longrightarrow> P v \<Longrightarrow> (\<forall>x \<in> set (xs[i := v]). P x)"
  using set_update_subset_insert [of xs i v] by auto

lemma filter_update_map:
  assumes "f v = f (xs ! i)" and "P v = P (xs ! i)" and "i < length xs"
  shows "map f (filter P (xs[i := v])) = map f (filter P xs)"
proof -
  have xs: "xs = take i xs @ xs ! i # drop (Suc i) xs"
    using assms(3) by (rule id_take_nth_drop)
  have "xs[i := v] = take i xs @ v # drop (Suc i) xs"
    using assms(3) by (simp add: upd_conv_take_nth_drop)
  then show ?thesis using assms(1,2) by (subst (2) xs) simp
qed

section \<open>The store\<close>

text \<open>
  What the Redis store answers to a write (there may be no store at all) and to the increment
  of a counter. A write that fails leaves the store as it was.
\<close>

datatype store_reply = No_store | Store_ok | Store_err string
datatype rr_reply = No_counter | Incr_ok int | Incr_err

section \<open>Repeated calls\<close>

text \<open>
  Calls in turn, each passing its result state to the next: \<open>iterate f n s\<close> is the list of
  the \<open>n\<close> values and the last state.
\<close>

fun iterate :: "('s \<Rightarrow> 'a \<times> 's) \<Rightarrow> nat \<Rightarrow> 's \<Rightarrow> 'a list \<times> 's" where
  "iterate f 0 s = ([], s)"
| "iterate f (Suc n) s =
     (let (a, s') = f s; (as, s'') = iterate f n s' in (a # as, s''))"

end
