(* ===== verification/ProxyPool.thy ===== *)
theory ProxyPool
  imports Prelude
begin

text \<open>
  The proxy pool of \<open>internal/proxy/pool.go\<close>: the entries an operator manages in the
  dashboard, the cache of enabled entries the hot path reads, the round-robin cursor and the
  cache of transports. An operation returns its result, the new pool and the calls it makes
  to the store (\<open>internal/db\<close>); what the store answers, the clock and the random id are
  arguments. The pool is the state between two critical sections of its mutex.
\<close>

section \<open>Entries\<close>

record proxy_entry =
  pe_id :: string
  pe_protocol :: string
  pe_host :: string
  pe_port :: int
  pe_username :: string
  pe_password :: string
  pe_enabled :: bool
  pe_label :: string
  pe_upstreams :: "string list option"
  pe_created_at :: gotime
  pe_last_used_at :: gotime
  pe_fail_count :: int

definition PROXY_FAIL_THRESHOLD :: int where "PROXY_FAIL_THRESHOLD = 5"

definition UpstreamAll :: string where "UpstreamAll = ''all''"
definition UpstreamGrok :: string where "UpstreamGrok = ''grok''"
definition UpstreamCodeBuddy :: string where "UpstreamCodeBuddy = ''codebuddy''"

definition validUpstreams :: "string list" where
  "validUpstreams = [UpstreamAll, UpstreamGrok, UpstreamCodeBuddy]"

lemmas upstream_names = UpstreamAll_def UpstreamGrok_def UpstreamCodeBuddy_def

definition AppliesTo :: "proxy_entry \<Rightarrow> string \<Rightarrow> bool" where
  "AppliesTo p upstream =
     (let us = elems (pe_upstreams p) in
      if length us = 0 then True
      else list_ex (\<lambda>u. u = UpstreamAll \<or> u = upstream) us)"

text \<open>
  \<open>net/url.QueryEscape\<close>, which \<open>URL\<close> uses: a letter, a
  digit or one of \<open>-_.~\<close> stands for itself, a space becomes \<open>+\<close>, any other byte \<open>%XX\<close>.
\<close>

definition hex_digit :: "nat \<Rightarrow> char" where
  "hex_digit n = (if n < 10 then char_of (n + 48) else char_of (n + 55))"

definition unreserved :: "char \<Rightarrow> bool" where
  "unreserved c =
     (let n = (of_char c :: nat) in
      48 \<le> n \<and> n \<le> 57 \<or> 65 \<le> n \<and> n \<le> 90 \<or> 97 \<le> n \<and> n \<le> 122 \<or>
      c \<in> {CHR ''-'', CHR ''_'', CHR ''.'', CHR ''~''})"

definition escape_char :: "char \<Rightarrow> string" where
  "escape_char c =
     (if unreserved c then [c]
      else if c = CHR '' '' then ''+''
      else [CHR ''%'', hex_digit (of_char c div 16), hex_digit (of_char c mod 16)])"

definition QueryEscape :: "string \<Rightarrow> string" where
  "QueryEscape s = concat (map escape_char s)"

definition proxyURL :: "proxy_entry \<Rightarrow> string" where
  "proxyURL p =
     (if pe_host p = [] \<or> pe_port p = 0 then []
      else if pe_username p \<noteq> [] then
        pe_protocol p @ ''://'' @ QueryEscape (pe_username p) @ '':'' @
        QueryEscape (pe_password p) @ ''@'' @ pe_host p @ '':'' @ show_int (pe_port p)
      else pe_protocol p @ ''://'' @ pe_host p @ '':'' @ show_int (pe_port p))"

definition masked :: "proxy_entry \<Rightarrow> proxy_entry" where
  "masked p = (if pe_password p \<noteq> [] then p\<lparr>pe_password := ''***''\<rparr> else p)"

section \<open>Validation\<close>

datatype pool_error =
    Upstream_invalid string
  | Protocol_invalid string
  | Host_required
  | Host_too_long
  | Host_invalid_chars
  | Port_out_of_range int
  | Label_too_long
  | Credentials_too_long
  | Id_gen_failed
  | Id_required
  | Proxy_not_found string
  | No_proxies_enabled string
  | Store_failed string
  | Unsupported_protocol string
  | Url_parse_failed
  | Socks5_failed
  | Probe_request_failed
  | Probe_http_status int

text \<open>The loop of \<open>normaliseUpstreams\<close>; \<open>seen\<close> holds exactly the values of \<open>out\<close>.\<close>

fun normalise_loop :: "string list \<Rightarrow> bool \<Rightarrow> string list \<Rightarrow> string list \<times> bool" where
  "normalise_loop out hasAll [] = (out, hasAll)"
| "normalise_loop out hasAll (s # ss) =
     (let v = to_lower (trim_space s) in
      if v = [] then normalise_loop out hasAll ss
      else if v \<in> set out then normalise_loop out hasAll ss
      else normalise_loop (out @ [v]) (if v = UpstreamAll then True else hasAll) ss)"

definition normaliseUpstreams :: "string list option \<Rightarrow> string list" where
  "normaliseUpstreams inp =
     (if length (elems inp) = 0 then [UpstreamAll]
      else
        let (out, hasAll) = normalise_loop [] False (elems inp) in
        if length out = 0 then [UpstreamAll]
        else if hasAll then [UpstreamAll]
        else out)"

definition host_bad_chars :: string where
  "host_bad_chars = [CHR '' '', CHR 9, CHR 13, CHR 10, CHR ''/'', CHR 92]"

definition validateEntry :: "proxy_entry \<Rightarrow> pool_error + proxy_entry" where
  "validateEntry e0 =
     (let e = e0\<lparr>pe_protocol := to_lower (trim_space (pe_protocol e0)),
                 pe_host := trim_space (pe_host e0),
                 pe_label := trim_space (pe_label e0),
                 pe_username := trim_space (pe_username e0),
                 pe_upstreams := Some (normaliseUpstreams (pe_upstreams e0))\<rparr>
      in
      case find (\<lambda>u. u \<notin> set validUpstreams) (elems (pe_upstreams e)) of
        Some u \<Rightarrow> Inl (Upstream_invalid u)
      | None \<Rightarrow>
        if pe_protocol e \<noteq> ''http'' \<and> pe_protocol e \<noteq> ''socks5'' then Inl (Protocol_invalid (pe_protocol e))
        else if pe_host e = [] then Inl Host_required
        else if length (pe_host e) > 253 then Inl Host_too_long
        else if list_ex (\<lambda>c. c \<in> set host_bad_chars) (pe_host e) then Inl Host_invalid_chars
        else if pe_port e < 1 \<or> pe_port e > 65535 then Inl (Port_out_of_range (pe_port e))
        else if length (pe_label e) > 64 then Inl Label_too_long
        else if length (pe_username e) > 256 \<or> length (pe_password e) > 256 then Inl Credentials_too_long
        else Inr e)"

section \<open>Persisted form\<close>

record proxy_dto =
  pd_id :: string
  pd_protocol :: string
  pd_host :: string
  pd_port :: int
  pd_username :: string
  pd_password :: string
  pd_enabled :: bool
  pd_label :: string
  pd_upstreams :: "string list option"
  pd_created_at :: gotime
  pd_last_used_at :: gotime
  pd_fail_count :: int

definition entryToDTO :: "proxy_entry \<Rightarrow> proxy_dto" where
  "entryToDTO e =
     \<lparr>pd_id = pe_id e, pd_protocol = pe_protocol e, pd_host = pe_host e, pd_port = pe_port e,
      pd_username = pe_username e, pd_password = pe_password e, pd_enabled = pe_enabled e,
      pd_label = pe_label e, pd_upstreams = pe_upstreams e, pd_created_at = pe_created_at e,
      pd_last_used_at = pe_last_used_at e, pd_fail_count = pe_fail_count e\<rparr>"

definition dtoToEntry :: "proxy_dto \<Rightarrow> proxy_entry" where
  "dtoToEntry d =
     (let upstreams = (if length (elems (pd_upstreams d)) = 0 then Some [UpstreamAll] else pd_upstreams d) in
     \<lparr>pe_id = pd_id d, pe_protocol = pd_protocol d, pe_host = pd_host d, pe_port = pd_port d,
      pe_username = pd_username d, pe_password = pd_password d, pe_enabled = pd_enabled d,
      pe_label = pd_label d, pe_upstreams = upstreams, pe_created_at = pd_created_at d,
      pe_last_used_at = pd_last_used_at d, pe_fail_count = pd_fail_count d\<rparr>)"

section \<open>The pool\<close>

text \<open>
  A transport is what \<open>buildTransport\<close> makes of an entry: the proxy URL for an HTTP proxy, the
  dialer's address and credentials for a SOCKS5 one. Whether \<open>net/url.Parse\<close> accepts a URL
  and whether the SOCKS5 dialer can be constructed are parameters.
\<close>

datatype transport =
    Http_transport string
  | Socks5_transport string "(string \<times> string) option"

record net_env =
  url_parses :: "string \<Rightarrow> bool"
  socks5_builds :: "string \<Rightarrow> bool"

record proxy_pool =
  pp_entries :: "proxy_entry list"
  pp_enabled :: "proxy_entry list"
  pp_rrIndex :: "64 word"
  pp_transports :: "string \<Rightarrow> transport option"

definition NewProxyPool :: proxy_pool where
  "NewProxyPool =
     \<lparr>pp_entries = [], pp_enabled = [], pp_rrIndex = 0, pp_transports = (\<lambda>_. None)\<rparr>"

text \<open>
  The calls an operation makes to the store, in order.
\<close>

datatype store_call =
    Save_proxy proxy_dto
  | Delete_proxy string
  | Update_fail_count string int
  | Update_last_used string gotime

definition rebuildEnabledLocked :: "proxy_pool \<Rightarrow> proxy_pool" where
  "rebuildEnabledLocked p = p\<lparr>pp_enabled := filter pe_enabled (pp_entries p)\<rparr>"

definition ProxyPool_Load :: "(string + proxy_dto list) option \<Rightarrow> proxy_pool \<Rightarrow> pool_error option \<times> proxy_pool" where
  "ProxyPool_Load loaded p =
     (case loaded of
        None \<Rightarrow> (None, rebuildEnabledLocked (p\<lparr>pp_entries := []\<rparr>))
      | Some (Inl err) \<Rightarrow> (Some (Store_failed err), p)
      | Some (Inr dtos) \<Rightarrow> (None, rebuildEnabledLocked (p\<lparr>pp_entries := map dtoToEntry dtos\<rparr>)))"

definition ProxyPool_List :: "proxy_pool \<Rightarrow> proxy_entry list" where
  "ProxyPool_List p = map masked (pp_entries p)"

definition ProxyPool_Get :: "string \<Rightarrow> proxy_pool \<Rightarrow> proxy_entry option" where
  "ProxyPool_Get i p =
     (if i = [] then None
      else map_option masked (find (\<lambda>e. pe_id e = i) (pp_entries p)))"

definition ProxyPool_Len :: "proxy_pool \<Rightarrow> nat" where
  "ProxyPool_Len p = length (pp_entries p)"

definition ProxyPool_EnabledLen :: "proxy_pool \<Rightarrow> nat" where
  "ProxyPool_EnabledLen p = length (pp_enabled p)"

definition ProxyPool_Add ::
  "store_reply \<Rightarrow> string option \<Rightarrow> gotime \<Rightarrow> proxy_entry \<Rightarrow> proxy_pool \<Rightarrow>
   (pool_error + proxy_entry) \<times> proxy_pool \<times> store_call list" where
  "ProxyPool_Add st newid now e0 p =
     (case validateEntry e0 of
        Inl err \<Rightarrow> (Inl err, p, [])
      | Inr e1 \<Rightarrow>
        (case newid of
           None \<Rightarrow> (Inl Id_gen_failed, p, [])
         | Some i \<Rightarrow>
           (let e = e1\<lparr>pe_id := i, pe_created_at := now, pe_fail_count := 0\<rparr>;
                p' = rebuildEnabledLocked (p\<lparr>pp_entries := pp_entries p @ [e]\<rparr>)
            in case st of
                 No_store \<Rightarrow> (Inr e, p', [])
               | Store_err m \<Rightarrow> (Inl (Store_failed m), p, [Save_proxy (entryToDTO e)])
               | Store_ok \<Rightarrow> (Inr e, p', [Save_proxy (entryToDTO e)]))))"

text \<open>\<open>Update\<close> merges the input into the current entry; the merge is named on its own.\<close>

definition merge_update :: "proxy_entry \<Rightarrow> proxy_entry \<Rightarrow> proxy_entry" where
  "merge_update inp current =
     current\<lparr>pe_protocol := (if pe_protocol inp \<noteq> [] then pe_protocol inp else pe_protocol current),
             pe_host := (if pe_host inp \<noteq> [] then pe_host inp else pe_host current),
             pe_port := (if pe_port inp \<noteq> 0 then pe_port inp else pe_port current),
             pe_username := pe_username inp,
             pe_label := pe_label inp,
             pe_password := (if pe_password inp \<noteq> ''***'' then pe_password inp else pe_password current),
             pe_enabled := pe_enabled inp,
             pe_upstreams := (case pe_upstreams inp of None \<Rightarrow> pe_upstreams current | Some us \<Rightarrow> Some us)\<rparr>"

text \<open>
  The results of \<open>Update\<close> and \<open>Toggle\<close> are pairs, as in Go: a failed write returns the value
  and the error, and the value is already in the pool. \<open>None\<close> is the zero value.
\<close>

definition save_result :: "store_reply \<Rightarrow> pool_error option" where
  "save_result st = (case st of Store_err m \<Rightarrow> Some (Store_failed m) | _ \<Rightarrow> None)"

definition save_calls :: "store_reply \<Rightarrow> store_call \<Rightarrow> store_call list" where
  "save_calls st c = (case st of No_store \<Rightarrow> [] | _ \<Rightarrow> [c])"

definition ProxyPool_Update ::
  "store_reply \<Rightarrow> string \<Rightarrow> proxy_entry \<Rightarrow> proxy_pool \<Rightarrow>
   (proxy_entry option \<times> pool_error option) \<times> proxy_pool \<times> store_call list" where
  "ProxyPool_Update st i inp p =
     (if i = [] then ((None, Some Id_required), p, [])
      else
        case find_idx (\<lambda>e. pe_id e = i) (pp_entries p) of
          None \<Rightarrow> ((None, Some (Proxy_not_found i)), p, [])
        | Some idx \<Rightarrow>
          (case validateEntry (merge_update inp (pp_entries p ! idx)) of
             Inl err \<Rightarrow> ((None, Some err), p, [])
           | Inr v \<Rightarrow>
             (let current = v\<lparr>pe_fail_count := 0\<rparr>;
                  p1 = rebuildEnabledLocked (p\<lparr>pp_entries := (pp_entries p)[idx := current]\<rparr>);
                  p2 = p1\<lparr>pp_transports := (pp_transports p1)(i := None)\<rparr>
              in ((Some current, save_result st), p2, save_calls st (Save_proxy (entryToDTO current))))))"

definition ProxyPool_Delete ::
  "store_reply \<Rightarrow> string \<Rightarrow> proxy_pool \<Rightarrow> pool_error option \<times> proxy_pool \<times> store_call list" where
  "ProxyPool_Delete st i p =
     (if i = [] then (Some Id_required, p, [])
      else
        let kept = filter (\<lambda>e. pe_id e \<noteq> i) (pp_entries p);
            found = list_ex (\<lambda>e. pe_id e = i) (pp_entries p)
        in if \<not> found then (Some (Proxy_not_found i), p, [])
           else
             let p1 = rebuildEnabledLocked (p\<lparr>pp_entries := kept\<rparr>);
                 p2 = p1\<lparr>pp_transports := (pp_transports p1)(i := None)\<rparr>
             in (save_result st, p2, save_calls st (Delete_proxy i)))"

definition ProxyPool_Toggle ::
  "store_reply \<Rightarrow> string \<Rightarrow> proxy_pool \<Rightarrow>
   (bool \<times> pool_error option) \<times> proxy_pool \<times> store_call list" where
  "ProxyPool_Toggle st i p =
     (case find_idx (\<lambda>e. pe_id e = i) (pp_entries p) of
        None \<Rightarrow> ((False, Some (Proxy_not_found i)), p, [])
      | Some idx \<Rightarrow>
        (let e0 = pp_entries p ! idx;
             e1 = e0\<lparr>pe_enabled := \<not> pe_enabled e0\<rparr>;
             updated = (if pe_enabled e1 then e1\<lparr>pe_fail_count := 0\<rparr> else e1);
             p1 = rebuildEnabledLocked (p\<lparr>pp_entries := (pp_entries p)[idx := updated]\<rparr>)
         in ((pe_enabled updated, save_result st), p1, save_calls st (Save_proxy (entryToDTO updated)))))"

text \<open>
  The index \<open>Next\<close> picks among \<open>n\<close> candidates and the new in-process counter. The Redis
  counter is a signed 64-bit value, the in-process one an unsigned one.
\<close>

definition rr_pick :: "rr_reply \<Rightarrow> nat \<Rightarrow> 64 word \<Rightarrow> nat \<times> 64 word" where
  "rr_pick reply n rr =
     (case reply of
        Incr_ok v \<Rightarrow>
          (let idx = go_rem (wrap64 (v - 1)) (int n);
               idx' = (if idx < 0 then idx + int n else idx)
           in (nat idx', rr))
      | _ \<Rightarrow> (let v = rr + 1 in (unat (v - 1) mod n, v)))"

definition scoped :: "string \<Rightarrow> proxy_pool \<Rightarrow> proxy_entry list" where
  "scoped upstream p = filter (\<lambda>e. AppliesTo e upstream) (pp_enabled p)"

definition ProxyPool_Next ::
  "rr_reply \<Rightarrow> gotime \<Rightarrow> string \<Rightarrow> proxy_pool \<Rightarrow>
   (pool_error + proxy_entry) \<times> proxy_pool \<times> store_call list" where
  "ProxyPool_Next reply now upstream p =
     (let cands = scoped upstream p; n = length cands in
      if n = 0 then (Inl (No_proxies_enabled upstream), p, [])
      else
        let (idx, rr') = rr_pick reply n (pp_rrIndex p);
            entry = cands ! idx
        in (Inr entry, p\<lparr>pp_rrIndex := rr'\<rparr>,
            case reply of No_counter \<Rightarrow> [] | _ \<Rightarrow> [Update_last_used (pe_id entry) now]))"

definition ProxyPool_MarkFailed ::
  "store_reply \<Rightarrow> string \<Rightarrow> proxy_pool \<Rightarrow> proxy_pool \<times> store_call list" where
  "ProxyPool_MarkFailed st i p =
     (if i = [] then (p, [])
      else
        case find_idx (\<lambda>e. pe_id e = i) (pp_entries p) of
          None \<Rightarrow> (p, [])
        | Some idx \<Rightarrow>
          (let e0 = pp_entries p ! idx;
               fc = pe_fail_count e0 + 1;
               e1 = e0\<lparr>pe_fail_count := fc\<rparr>;
               autoDisabled = (fc \<ge> PROXY_FAIL_THRESHOLD \<and> pe_enabled e1)
           in if autoDisabled then
                let updated = e1\<lparr>pe_enabled := False\<rparr>;
                    p1 = rebuildEnabledLocked (p\<lparr>pp_entries := (pp_entries p)[idx := updated]\<rparr>);
                    p2 = p1\<lparr>pp_transports := (pp_transports p1)(i := None)\<rparr>
                in (p2, save_calls st (Save_proxy (entryToDTO updated)))
              else
                (p\<lparr>pp_entries := (pp_entries p)[idx := e1]\<rparr>, save_calls st (Update_fail_count i fc))))"

definition ProxyPool_MarkSuccess ::
  "store_reply \<Rightarrow> string \<Rightarrow> proxy_pool \<Rightarrow> proxy_pool \<times> store_call list" where
  "ProxyPool_MarkSuccess st i p =
     (if i = [] then (p, [])
      else
        case find_idx (\<lambda>e. pe_id e = i) (pp_entries p) of
          None \<Rightarrow> (p, [])
        | Some idx \<Rightarrow>
          (if pe_fail_count (pp_entries p ! idx) \<noteq> 0 then
             (p\<lparr>pp_entries := (pp_entries p)[idx := (pp_entries p ! idx)\<lparr>pe_fail_count := 0\<rparr>]\<rparr>,
              save_calls st (Update_fail_count i 0))
           else (p, [])))"

definition buildTransport :: "net_env \<Rightarrow> proxy_entry \<Rightarrow> pool_error + transport" where
  "buildTransport env entry =
     (if pe_protocol entry = ''http'' then
        if \<not> url_parses env (proxyURL entry) then Inl Url_parse_failed
        else Inr (Http_transport (proxyURL entry))
      else if pe_protocol entry = ''socks5'' then
        let auth = (if pe_username entry \<noteq> [] then Some (pe_username entry, pe_password entry) else None);
            addr = pe_host entry @ '':'' @ show_int (pe_port entry)
        in if \<not> socks5_builds env addr then Inl Socks5_failed
           else Inr (Socks5_transport addr auth)
      else Inl (Unsupported_protocol (pe_protocol entry)))"

definition ProxyPool_Transport ::
  "net_env \<Rightarrow> proxy_entry \<Rightarrow> proxy_pool \<Rightarrow> (pool_error + transport) \<times> proxy_pool" where
  "ProxyPool_Transport env entry p =
     (case pp_transports p (pe_id entry) of
        Some t \<Rightarrow> (Inr t, p)
      | None \<Rightarrow>
        (case buildTransport env entry of
           Inl err \<Rightarrow> (Inl err, p)
         | Inr t \<Rightarrow> (Inr t, p\<lparr>pp_transports := (pp_transports p)(pe_id entry := Some t)\<rparr>)))"

text \<open>
  \<open>Test\<close>: the probe through a throw-away transport; \<open>probe\<close> is the network, which answers an
  error or a status and a body. The pool is only read.
\<close>

definition ProxyPool_Test ::
  "net_env \<Rightarrow> (transport \<Rightarrow> (int \<times> string) option) \<Rightarrow> string \<Rightarrow> proxy_pool \<Rightarrow> pool_error + string" where
  "ProxyPool_Test env probe i p =
     (case find (\<lambda>e. pe_id e = i) (pp_entries p) of
        None \<Rightarrow> Inl (Proxy_not_found i)
      | Some target \<Rightarrow>
        (case buildTransport env target of
           Inl err \<Rightarrow> Inl err
         | Inr t \<Rightarrow>
           (case probe t of
              None \<Rightarrow> Inl Probe_request_failed
            | Some (status, body) \<Rightarrow>
              (if status < 200 \<or> status \<ge> 400 then Inl (Probe_http_status status)
               else Inr (trim_space body)))))"

section \<open>Invariant\<close>

text \<open>
  \<open>MarkFailed\<close> and \<open>MarkSuccess\<close> write the failure count of an entry without rebuilding the
  enabled cache, so the cache agrees with the entries up to that count. An enabled entry has
  failed fewer than \<open>PROXY_FAIL_THRESHOLD\<close> times in a row.
\<close>

definition strip_fc :: "proxy_entry \<Rightarrow> proxy_entry" where
  "strip_fc e = e\<lparr>pe_fail_count := 0\<rparr>"

definition fails_bounded :: "proxy_entry \<Rightarrow> bool" where
  "fails_bounded e \<longleftrightarrow> (pe_enabled e \<longrightarrow> pe_fail_count e < PROXY_FAIL_THRESHOLD)"

definition pool_inv :: "proxy_pool \<Rightarrow> bool" where
  "pool_inv p \<longleftrightarrow>
     map strip_fc (pp_enabled p) = map strip_fc (filter pe_enabled (pp_entries p)) \<and>
     (\<forall>e \<in> set (pp_entries p). fails_bounded e)"

lemma strip_fc_simps [simp]:
  "pe_id (strip_fc e) = pe_id e" "pe_enabled (strip_fc e) = pe_enabled e"
  "pe_upstreams (strip_fc e) = pe_upstreams e" "pe_fail_count (strip_fc e) = 0"
  "strip_fc (strip_fc e) = strip_fc e" "strip_fc (e\<lparr>pe_fail_count := n\<rparr>) = strip_fc e"
  by (simp_all add: strip_fc_def)

lemma AppliesTo_strip [simp]: "AppliesTo (strip_fc e) u = AppliesTo e u"
  by (simp add: AppliesTo_def)

lemma rebuild_simps [simp]:
  "pp_entries (rebuildEnabledLocked p) = pp_entries p"
  "pp_enabled (rebuildEnabledLocked p) = filter pe_enabled (pp_entries p)"
  "pp_rrIndex (rebuildEnabledLocked p) = pp_rrIndex p"
  "pp_transports (rebuildEnabledLocked p) = pp_transports p"
  by (simp_all add: rebuildEnabledLocked_def)

lemma pool_inv_rebuild:
  "pool_inv (rebuildEnabledLocked p) \<longleftrightarrow> (\<forall>e \<in> set (pp_entries p). fails_bounded e)"
  by (simp add: pool_inv_def)

lemma pool_inv_transports [simp]: "pool_inv (p\<lparr>pp_transports := t\<rparr>) = pool_inv p"
  by (simp add: pool_inv_def)

lemma pool_inv_rrIndex [simp]: "pool_inv (p\<lparr>pp_rrIndex := r\<rparr>) = pool_inv p"
  by (simp add: pool_inv_def)

lemma pool_inv_bounded: "pool_inv p \<Longrightarrow> e \<in> set (pp_entries p) \<Longrightarrow> fails_bounded e"
  by (simp add: pool_inv_def)

lemma pool_inv_New [inv_intros]: "pool_inv NewProxyPool"
  by (simp add: pool_inv_def NewProxyPool_def)

text \<open>Replacing one entry by a bounded one and rebuilding keeps the invariant.\<close>

lemma pool_inv_replace:
  "pool_inv p \<Longrightarrow> fails_bounded e \<Longrightarrow>
   pool_inv (rebuildEnabledLocked (p\<lparr>pp_entries := (pp_entries p)[i := e]\<rparr>))"
  using all_set_update [of "pp_entries p" fails_bounded e i]
  by (simp add: pool_inv_rebuild pool_inv_def)

text \<open>Changing only a failure count, within the bound, keeps it without a rebuild.\<close>

lemma pool_inv_recount:
  assumes "pool_inv p" and "i < length (pp_entries p)"
    and "fails_bounded ((pp_entries p ! i)\<lparr>pe_fail_count := n\<rparr>)"
  shows "pool_inv (p\<lparr>pp_entries := (pp_entries p)[i := (pp_entries p ! i)\<lparr>pe_fail_count := n\<rparr>]\<rparr>)"
proof -
  let ?e = "(pp_entries p ! i)\<lparr>pe_fail_count := n\<rparr>"
  have "map strip_fc (filter pe_enabled ((pp_entries p)[i := ?e]))
      = map strip_fc (filter pe_enabled (pp_entries p))"
    by (rule filter_update_map) (simp_all add: assms(2))
  moreover have "\<forall>e \<in> set ((pp_entries p)[i := ?e]). fails_bounded e"
    using assms(1,3) by (intro all_set_update) (auto simp: pool_inv_def)
  ultimately show ?thesis using assms(1) by (simp add: pool_inv_def)
qed

lemma validateEntry_keeps:
  "validateEntry e = Inr v \<Longrightarrow>
   pe_id v = pe_id e \<and> pe_enabled v = pe_enabled e \<and> pe_password v = pe_password e"
  by (auto simp: validateEntry_def Let_def split: option.splits if_splits)

lemma fails_bounded_zero [simp]: "fails_bounded (e\<lparr>pe_fail_count := 0\<rparr>)"
  by (simp add: fails_bounded_def PROXY_FAIL_THRESHOLD_def)

lemma pool_inv_Add [inv_intros]:
  "pool_inv p \<Longrightarrow> pool_inv (fst (snd (ProxyPool_Add st newid now e p)))"
  by (auto simp: ProxyPool_Add_def Let_def pool_inv_rebuild pool_inv_bounded
        fails_bounded_def PROXY_FAIL_THRESHOLD_def
      dest: pool_inv_bounded
      split: sum.splits option.splits store_reply.splits)

lemma pool_inv_Update [inv_intros]:
  "pool_inv p \<Longrightarrow> pool_inv (fst (snd (ProxyPool_Update st i inp p)))"
  by (auto simp: ProxyPool_Update_def Let_def pool_inv_replace simp del: find_idx_None
      split: sum.splits option.splits)

lemma pool_inv_Delete [inv_intros]:
  "pool_inv p \<Longrightarrow> pool_inv (fst (snd (ProxyPool_Delete st i p)))"
  by (auto simp: ProxyPool_Delete_def Let_def pool_inv_rebuild dest: pool_inv_bounded)

lemma pool_inv_Toggle [inv_intros]:
  "pool_inv p \<Longrightarrow> pool_inv (fst (snd (ProxyPool_Toggle st i p)))"
  by (auto simp: ProxyPool_Toggle_def Let_def fails_bounded_def PROXY_FAIL_THRESHOLD_def
        simp del: find_idx_None intro!: pool_inv_replace split: option.splits)

lemma pool_inv_Next [inv_intros]:
  "pool_inv p \<Longrightarrow> pool_inv (fst (snd (ProxyPool_Next reply now u p)))"
  by (auto simp: ProxyPool_Next_def Let_def split: prod.splits)

lemma pool_inv_MarkFailed [inv_intros]:
  "pool_inv p \<Longrightarrow> pool_inv (fst (ProxyPool_MarkFailed st i p))"
  by (auto simp: ProxyPool_MarkFailed_def Let_def fails_bounded_def simp del: find_idx_None
      intro!: pool_inv_replace pool_inv_recount dest: find_idx_SomeD split: option.splits)

lemma pool_inv_MarkSuccess [inv_intros]:
  "pool_inv p \<Longrightarrow> pool_inv (fst (ProxyPool_MarkSuccess st i p))"
  by (auto simp: ProxyPool_MarkSuccess_def simp del: find_idx_None
      intro!: pool_inv_recount dest: find_idx_SomeD split: option.splits)

lemma pool_inv_Transport [inv_intros]:
  "pool_inv p \<Longrightarrow> pool_inv (snd (ProxyPool_Transport env e p))"
  by (auto simp: ProxyPool_Transport_def split: option.splits sum.splits)

definition load_ok :: "(string + proxy_dto list) option \<Rightarrow> bool" where
  "load_ok l \<longleftrightarrow>
     (case l of Some (Inr dtos) \<Rightarrow>
        list_all (\<lambda>d. pd_enabled d \<longrightarrow> pd_fail_count d < PROXY_FAIL_THRESHOLD) dtos
      | _ \<Rightarrow> True)"

lemma pool_inv_Load [inv_intros]:
  "pool_inv p \<Longrightarrow> load_ok l \<Longrightarrow> pool_inv (snd (ProxyPool_Load l p))"
  by (auto simp: ProxyPool_Load_def load_ok_def pool_inv_rebuild fails_bounded_def
        list_all_iff dtoToEntry_def Let_def split: option.splits sum.splits)

section \<open>Histories\<close>

text \<open>The critical sections of the pool as steps; a history is any interleaving of them.\<close>

datatype pool_op =
    Op_load "(string + proxy_dto list) option"
  | Op_add store_reply "string option" gotime proxy_entry
  | Op_update store_reply string proxy_entry
  | Op_delete store_reply string
  | Op_toggle store_reply string
  | Op_next rr_reply gotime string
  | Op_failed store_reply string
  | Op_success store_reply string
  | Op_transport net_env proxy_entry

fun pool_step :: "pool_op \<Rightarrow> proxy_pool \<Rightarrow> proxy_pool" where
  "pool_step (Op_load l) p = snd (ProxyPool_Load l p)"
| "pool_step (Op_add st newid now e) p = fst (snd (ProxyPool_Add st newid now e p))"
| "pool_step (Op_update st i inp) p = fst (snd (ProxyPool_Update st i inp p))"
| "pool_step (Op_delete st i) p = fst (snd (ProxyPool_Delete st i p))"
| "pool_step (Op_toggle st i) p = fst (snd (ProxyPool_Toggle st i p))"
| "pool_step (Op_next reply now u) p = fst (snd (ProxyPool_Next reply now u p))"
| "pool_step (Op_failed st i) p = fst (ProxyPool_MarkFailed st i p)"
| "pool_step (Op_success st i) p = fst (ProxyPool_MarkSuccess st i p)"
| "pool_step (Op_transport env e) p = snd (ProxyPool_Transport env e p)"

fun op_ok :: "pool_op \<Rightarrow> bool" where
  "op_ok (Op_load l) = load_ok l"
| "op_ok _ = True"

lemma pool_step_inv: "pool_inv p \<Longrightarrow> op_ok x \<Longrightarrow> pool_inv (pool_step x p)"
  by (cases x) (simp_all add: inv_intros)

lemma pool_history_inv: "pool_inv p \<Longrightarrow> list_all op_ok xs \<Longrightarrow> pool_inv (fold pool_step xs p)"
  by (induction xs arbitrary: p) (simp_all add: pool_step_inv)

section \<open>What validation guarantees\<close>

text \<open>A value \<open>normaliseUpstreams\<close> leaves alone.\<close>

definition norm_fixed :: "string \<Rightarrow> bool" where
  "norm_fixed v \<longleftrightarrow> to_lower (trim_space v) = v \<and> v \<noteq> []"

lemma norm_fixed_step: "to_lower (trim_space s) \<noteq> [] \<Longrightarrow> norm_fixed (to_lower (trim_space s))"
  by (simp add: norm_fixed_def trim_space_to_lower)

lemma normalise_loop_facts:
  "normalise_loop out h xs = (out', h') \<Longrightarrow> distinct out \<Longrightarrow> list_all norm_fixed out \<Longrightarrow>
   (h \<longleftrightarrow> UpstreamAll \<in> set out) \<Longrightarrow>
   distinct out' \<and> list_all norm_fixed out' \<and> (h' \<longleftrightarrow> UpstreamAll \<in> set out')"
proof (induction out h xs rule: normalise_loop.induct)
  case (2 out h s ss)
  let ?v = "to_lower (trim_space s)"
  consider (empty) "?v = []" | (dup) "?v \<noteq> []" "?v \<in> set out" | (new) "?v \<noteq> []" "?v \<notin> set out"
    by blast
  then show ?case
  proof cases
    case empty
    from 2(1) [OF refl empty] 2(4-) empty show ?thesis by (simp add: Let_def)
  next
    case dup
    from 2(2) [OF refl dup] 2(4-) dup show ?thesis by (simp add: Let_def)
  next
    case new
    have fixed: "norm_fixed ?v" using new(1) by (rule norm_fixed_step)
    show ?thesis
    proof (rule 2(3) [OF refl new])
      show "normalise_loop (out @ [?v]) (if ?v = UpstreamAll then True else h) ss = (out', h')"
        using 2(4) new by (simp add: Let_def)
    qed (use 2(5-) new fixed in \<open>auto\<close>)
  qed
qed simp

lemma normalise_loop_fixed:
  "list_all norm_fixed xs \<Longrightarrow> distinct (out @ xs) \<Longrightarrow> UpstreamAll \<notin> set xs \<Longrightarrow>
   normalise_loop out h xs = (out @ xs, h)"
proof (induction xs arbitrary: out)
  case (Cons x xs)
  then show ?case by (auto simp: norm_fixed_def Let_def)
qed simp

lemma normaliseUpstreams_all: "normaliseUpstreams (Some [UpstreamAll]) = [UpstreamAll]"
  by (simp add: UpstreamAll_def) code_simp

definition upstreams_canonical :: "string list \<Rightarrow> bool" where
  "upstreams_canonical us \<longleftrightarrow>
     us \<noteq> [] \<and> distinct us \<and> (UpstreamAll \<in> set us \<longrightarrow> us = [UpstreamAll])"

lemma normaliseUpstreams_cases:
  obtains "normaliseUpstreams x = [UpstreamAll]"
  | "list_all norm_fixed (normaliseUpstreams x)" "distinct (normaliseUpstreams x)"
    "UpstreamAll \<notin> set (normaliseUpstreams x)" "normaliseUpstreams x \<noteq> []"
proof (cases "normalise_loop [] False (elems x)")
  case (Pair out h)
  with normalise_loop_facts [OF Pair]
  have facts: "distinct out" "list_all norm_fixed out" "h \<longleftrightarrow> UpstreamAll \<in> set out" by simp_all
  show ?thesis
  proof (cases "elems x = [] \<or> out = [] \<or> h")
    case True
    then have "normaliseUpstreams x = [UpstreamAll]" by (auto simp: normaliseUpstreams_def Pair)
    then show ?thesis by (rule that(1))
  next
    case False
    then have "normaliseUpstreams x = out" by (simp add: normaliseUpstreams_def Pair)
    with False facts show ?thesis by (intro that(2)) simp_all
  qed
qed

lemma normaliseUpstreams_canonical: "upstreams_canonical (normaliseUpstreams x)"
  by (rule normaliseUpstreams_cases [of x]) (auto simp: upstreams_canonical_def)

lemma normaliseUpstreams_idem:
  "normaliseUpstreams (Some (normaliseUpstreams x)) = normaliseUpstreams x"
proof (rule normaliseUpstreams_cases [of x])
  assume "normaliseUpstreams x = [UpstreamAll]"
  then show ?thesis by (simp only: normaliseUpstreams_all)
next
  assume *: "list_all norm_fixed (normaliseUpstreams x)" "distinct (normaliseUpstreams x)"
    "UpstreamAll \<notin> set (normaliseUpstreams x)" "normaliseUpstreams x \<noteq> []"
  then have "normalise_loop [] False (normaliseUpstreams x) = (normaliseUpstreams x, False)"
    using normalise_loop_fixed [of "normaliseUpstreams x" "[]" False] by simp
  with *(4) show ?thesis by (subst normaliseUpstreams_def) simp
qed

text \<open>The entries that pass validation, stated without the order of the checks.\<close>

definition entry_valid :: "proxy_entry \<Rightarrow> bool" where
  "entry_valid e \<longleftrightarrow>
     pe_protocol e \<in> {''http'', ''socks5''} \<and>
     0 < length (pe_host e) \<and> length (pe_host e) \<le> 253 \<and>
     set (pe_host e) \<inter> set host_bad_chars = {} \<and>
     1 \<le> pe_port e \<and> pe_port e \<le> 65535 \<and>
     length (pe_label e) \<le> 64 \<and> length (pe_username e) \<le> 256 \<and> length (pe_password e) \<le> 256 \<and>
     (\<exists>us. pe_upstreams e = Some us \<and> upstreams_canonical us \<and> set us \<subseteq> set validUpstreams)"

lemma validateEntry_valid: "validateEntry e = Inr v \<Longrightarrow> entry_valid v"
  using normaliseUpstreams_canonical [of "pe_upstreams e"]
  by (auto simp: validateEntry_def entry_valid_def Let_def find_None_iff list_ex_iff
      split: option.splits if_splits)

definition entry_trimmed :: "proxy_entry \<Rightarrow> bool" where
  "entry_trimmed v \<longleftrightarrow>
     trim_space (pe_host v) = pe_host v \<and> trim_space (pe_label v) = pe_label v \<and>
     trim_space (pe_username v) = pe_username v \<and>
     to_lower (trim_space (pe_protocol v)) = pe_protocol v \<and>
     pe_upstreams v = Some (normaliseUpstreams (pe_upstreams v))"

lemma protocol_names_fixed [simp]:
  "to_lower (trim_space ''http'') = ''http''" "to_lower (trim_space ''socks5'') = ''socks5''"
  by code_simp+

lemma validateEntry_trimmed: "validateEntry e = Inr v \<Longrightarrow> entry_trimmed v"
  by (auto simp: validateEntry_def Let_def trim_space_to_lower normaliseUpstreams_idem entry_trimmed_def
      split: option.splits if_splits)

lemma validateEntry_fixed:
  assumes v: "entry_valid v" and t: "entry_trimmed v"
  shows "validateEntry v = Inr v"
proof -
  have "v\<lparr>pe_protocol := to_lower (trim_space (pe_protocol v)), pe_host := trim_space (pe_host v),
          pe_label := trim_space (pe_label v), pe_username := trim_space (pe_username v),
          pe_upstreams := Some (normaliseUpstreams (pe_upstreams v))\<rparr> = v"
    using t by (simp add: entry_trimmed_def)
  moreover have "find (\<lambda>u. u \<notin> set validUpstreams) (elems (pe_upstreams v)) = None"
    using v by (auto simp: entry_valid_def find_None_iff)
  ultimately show ?thesis
    using v by (auto simp: validateEntry_def Let_def entry_valid_def list_ex_iff)
qed

section \<open>Properties\<close>

text \<open>Every entry that did not come from the store is a fixed point of validation.\<close>

definition well_formed :: "proxy_entry \<Rightarrow> bool" where
  "well_formed e \<longleftrightarrow> entry_valid e \<and> entry_trimmed e"

lemma well_formed_validated: "validateEntry e = Inr v \<Longrightarrow> well_formed v"
  by (simp add: well_formed_def validateEntry_valid validateEntry_trimmed)

lemma well_formed_ignores [simp]:
  "well_formed (e\<lparr>pe_fail_count := n\<rparr>) = well_formed e"
  "well_formed (e\<lparr>pe_enabled := b\<rparr>) = well_formed e"
  "well_formed (e\<lparr>pe_id := i\<rparr>) = well_formed e"
  "well_formed (e\<lparr>pe_created_at := t\<rparr>) = well_formed e"
  by (simp_all add: well_formed_def entry_valid_def entry_trimmed_def)

fun no_load :: "pool_op \<Rightarrow> bool" where
  "no_load (Op_load l) = False"
| "no_load _ = True"

lemma well_formed_step:
  assumes wf: "\<forall>e \<in> set (pp_entries p). well_formed e" and "no_load x"
  shows "\<forall>e \<in> set (pp_entries (pool_step x p)). well_formed e"
proof -
  have repl: "well_formed e" if "e \<in> set ((pp_entries p)[i := v])" "well_formed v" for e i v
    using all_set_update [OF wf that(2)] that(1) by blast
  have nth: "well_formed (pp_entries p ! i)" if "find_idx P (pp_entries p) = Some i" for P i
    using wf find_idx_SomeD [OF that] by simp
  show ?thesis
  proof (cases x)
    case (Op_add st newid now e)
    with wf show ?thesis
      by (auto simp: ProxyPool_Add_def Let_def dest: well_formed_validated
          split: sum.splits option.splits store_reply.splits)
  next
    case (Op_update st i inp)
    with wf repl show ?thesis
      by (auto simp: ProxyPool_Update_def Let_def simp del: find_idx_None
          dest: well_formed_validated split: sum.splits option.splits)
  next
    case (Op_delete st i)
    with wf show ?thesis by (auto simp: ProxyPool_Delete_def Let_def)
  next
    case (Op_toggle st i)
    with wf repl nth show ?thesis
      by (auto simp: ProxyPool_Toggle_def Let_def simp del: find_idx_None split: option.splits)
  next
    case (Op_next reply now u)
    with wf show ?thesis by (auto simp: ProxyPool_Next_def Let_def split: prod.splits)
  next
    case (Op_failed st i)
    with wf repl nth show ?thesis
      by (auto simp: ProxyPool_MarkFailed_def Let_def simp del: find_idx_None split: option.splits)
  next
    case (Op_success st i)
    with wf repl nth show ?thesis
      by (auto simp: ProxyPool_MarkSuccess_def Let_def simp del: find_idx_None split: option.splits)
  next
    case (Op_transport env e)
    with wf show ?thesis by (auto simp: ProxyPool_Transport_def split: option.splits sum.splits)
  qed (use assms in simp)
qed

lemma well_formed_history:
  "(\<forall>e \<in> set (pp_entries p). well_formed e) \<Longrightarrow> list_all no_load xs \<Longrightarrow>
   (\<forall>e \<in> set (pp_entries (fold pool_step xs p)). well_formed e)"
proof (induction xs arbitrary: p)
  case (Cons x xs)
  then show ?case using well_formed_step [of p x] by simp
qed simp

lemma rr_pick_less:
  assumes "rr_pick reply n r = (idx, r')" and "0 < n"
  shows "idx < n"
proof (cases reply)
  case (Incr_ok v)
  let ?k = "go_rem (wrap64 (v - 1)) (int n)"
  have "- int n < ?k \<and> ?k < int n" using assms(2) by (intro go_rem_bounds) simp
  with assms Incr_ok show ?thesis by (auto simp: rr_pick_def Let_def split: if_splits)
qed (use assms in \<open>auto simp: rr_pick_def Let_def\<close>)

text \<open>The entry \<open>Next\<close> answers with is the snapshot of a current, enabled, scoped entry.\<close>

lemma Next_from_entries:
  assumes "pool_inv p" and "fst (ProxyPool_Next reply now u p) = Inr e"
  shows "\<exists>e' \<in> set (pp_entries p). strip_fc e' = strip_fc e \<and> pe_enabled e' \<and>
           AppliesTo e' u \<and> pe_fail_count e' < PROXY_FAIL_THRESHOLD"
proof -
  have "e \<in> set (scoped u p)"
    using assms(2)
    by (auto simp: ProxyPool_Next_def Let_def split: prod.splits if_splits dest: rr_pick_less)
  then have e: "e \<in> set (pp_enabled p)" "AppliesTo e u" by (simp_all add: scoped_def)
  then have "strip_fc e \<in> set (map strip_fc (filter pe_enabled (pp_entries p)))"
    using assms(1) by (metis image_eqI list.set_map pool_inv_def)
  then obtain e' where "e' \<in> set (pp_entries p)" "pe_enabled e'" "strip_fc e' = strip_fc e" by auto
  moreover from this have "AppliesTo e' u" using e(2) by (metis AppliesTo_strip)
  moreover have "pe_fail_count e' < PROXY_FAIL_THRESHOLD"
    using assms(1) calculation by (auto simp: pool_inv_def fails_bounded_def)
  ultimately show ?thesis by blast
qed

text \<open>
  C1: The hot path never serves a disabled proxy. After any interleaving of the pool's
  operations on a fresh pool (the store only has to load enabled entries below the failure
  threshold), an entry returned by \<open>Next\<close> is, up to its failure count, an entry of the pool
  that is enabled now, is scoped to the requested upstream and has failed fewer than five
  times in a row, although the enabled cache is not rebuilt by every operation.
\<close>

theorem next_serves_enabled:
  assumes "list_all op_ok xs"
    and "fst (ProxyPool_Next reply now u (fold pool_step xs NewProxyPool)) = Inr e"
  shows "\<exists>e' \<in> set (pp_entries (fold pool_step xs NewProxyPool)).
           strip_fc e' = strip_fc e \<and> pe_enabled e' \<and> AppliesTo e' u \<and>
           pe_fail_count e' < PROXY_FAIL_THRESHOLD"
  using Next_from_entries [OF pool_history_inv [OF pool_inv_New assms(1)] assms(2)] .

definition demo_entry :: "string \<Rightarrow> proxy_entry" where
  "demo_entry i =
     \<lparr>pe_id = i, pe_protocol = ''http'', pe_host = ''10.0.0.1'', pe_port = 8080,
      pe_username = [], pe_password = ''pw'', pe_enabled = True, pe_label = ''eu'',
      pe_upstreams = Some [''all''], pe_created_at = 0, pe_last_used_at = 0, pe_fail_count = 0\<rparr>"

lemma demo_entry_validates: "validateEntry (demo_entry i) = Inr (demo_entry i)"
proof -
  have "normaliseUpstreams (Some [''all'']) = [''all'']"
    using normaliseUpstreams_all by (simp add: UpstreamAll_def)
  moreover have "trim_space ''10.0.0.1'' = ''10.0.0.1''" "trim_space ''eu'' = ''eu''" "trim_space [] = []"
    by code_simp+
  ultimately show ?thesis
    by (simp add: validateEntry_def demo_entry_def validUpstreams_def upstream_names host_bad_chars_def)
qed

definition demo_pool :: "string list \<Rightarrow> proxy_pool" where
  "demo_pool ids = rebuildEnabledLocked (NewProxyPool\<lparr>pp_entries := map demo_entry ids\<rparr>)"

lemma demo_pool_inv: "pool_inv (demo_pool ids)"
  by (auto simp: demo_pool_def pool_inv_rebuild demo_entry_def fails_bounded_def PROXY_FAIL_THRESHOLD_def)

lemma demo_pool_Add:
  "fst (snd (ProxyPool_Add Store_ok (Some i) 0 (demo_entry []) (demo_pool ids))) = demo_pool (ids @ [i])"
  by (simp add: ProxyPool_Add_def demo_entry_validates demo_pool_def Let_def rebuildEnabledLocked_def)
     (simp add: demo_entry_def)

lemma demo_pool_Nil: "demo_pool [] = NewProxyPool"
  by (simp add: demo_pool_def rebuildEnabledLocked_def NewProxyPool_def)

theorem next_serves_enabled_witness:
  "let xs = [Op_add Store_ok (Some ''a'') 0 (demo_entry []), Op_failed Store_ok ''a''] in
   \<exists>e' \<in> set (pp_entries (fold pool_step xs NewProxyPool)).
     strip_fc e' = strip_fc (demo_entry ''a'') \<and> pe_enabled e' \<and> AppliesTo e' ''grok'' \<and>
     pe_fail_count e' < PROXY_FAIL_THRESHOLD"
proof -
  let ?xs = "[Op_add Store_ok (Some ''a'') 0 (demo_entry []), Op_failed Store_ok ''a'']"
  have "fst (ProxyPool_Next (Incr_ok 7) 0 ''grok'' (fold pool_step ?xs NewProxyPool)) = Inr (demo_entry ''a'')"
    using demo_pool_Add [of "''a''" "[]"]
    by (simp add: demo_pool_Nil)
       (simp add: demo_pool_def demo_entry_def ProxyPool_MarkFailed_def rebuildEnabledLocked_def
         NewProxyPool_def ProxyPool_Next_def scoped_def AppliesTo_def upstream_names
         PROXY_FAIL_THRESHOLD_def rr_pick_def go_rem_def wrap64_def Let_def)
  then show ?thesis
    unfolding Let_def by (intro next_serves_enabled) simp_all
qed

definition local_next :: "string \<Rightarrow> proxy_pool \<Rightarrow> (pool_error + proxy_entry) \<times> proxy_pool" where
  "local_next u p = (let (r, p', _) = ProxyPool_Next No_counter 0 u p in (r, p'))"

lemma scoped_rrIndex [simp]: "scoped u (p\<lparr>pp_rrIndex := r\<rparr>) = scoped u p"
  by (simp add: scoped_def)

lemma local_next_eq:
  "scoped u p \<noteq> [] \<Longrightarrow>
   local_next u p =
     (Inr (scoped u p ! (unat (pp_rrIndex p) mod length (scoped u p))),
      p\<lparr>pp_rrIndex := pp_rrIndex p + 1\<rparr>)"
  by (simp add: local_next_def ProxyPool_Next_def rr_pick_def Let_def)

lemma unat_Suc_bound: "unat (r :: 64 word) + Suc k < 2 ^ 64 \<Longrightarrow> unat (r + 1) = Suc (unat r)"
  by (simp add: unat_word_ariths)

lemma unat_parity: "even (unat (r + 1)) \<longleftrightarrow> odd (unat (r :: 64 word))"
  by (simp add: unat_word_ariths dvd_mod_iff)

lemma iterate_local_next:
  "scoped u p \<noteq> [] \<Longrightarrow> unat (pp_rrIndex p) + k < 2 ^ 64 \<Longrightarrow>
   fst (iterate (local_next u) k p) =
     map (\<lambda>i. Inr (scoped u p ! ((unat (pp_rrIndex p) + i) mod length (scoped u p)))) [0..<k]"
proof (induction k arbitrary: p)
  case (Suc k)
  let ?p = "p\<lparr>pp_rrIndex := pp_rrIndex p + 1\<rparr>"
  have r: "unat (pp_rrIndex p + 1) = Suc (unat (pp_rrIndex p))"
    using Suc.prems(2) by (rule unat_Suc_bound)
  have "fst (iterate (local_next u) k ?p) =
      map (\<lambda>i. Inr (scoped u p ! ((Suc (unat (pp_rrIndex p)) + i) mod length (scoped u p)))) [0..<k]"
    using Suc.IH [of ?p] Suc.prems r by simp
  then show ?case
    using Suc.prems(1)
    by (simp add: local_next_eq Let_def split_beta upt_conv_Cons map_Suc_upt [symmetric] del: upt_Suc)
qed simp

text \<open>
  Round-robin is fair within one scope. While nothing else moves the cursor, as many calls
  of \<open>Next\<close> as there are candidates serve each of them exactly once, in rotation from the
  cursor (in-process counter, up to its wrap-around).
\<close>

theorem next_round_robin:
  assumes "unat (pp_rrIndex p) + length (scoped u p) < 2 ^ 64"
  shows "fst (iterate (local_next u) (length (scoped u p)) p) =
           map Inr (rotate (unat (pp_rrIndex p)) (scoped u p))"
proof (cases "scoped u p = []")
  case False
  with assms show ?thesis
    by (simp add: iterate_local_next) (intro nth_equalityI; simp add: nth_rotate)
qed simp

theorem next_round_robin_witness:
  "fst (iterate (local_next ''grok'') 2 (demo_pool [''a'', ''b''])) =
     map Inr (rotate 0 [demo_entry ''a'', demo_entry ''b''])"
proof -
  let ?p = "demo_pool [''a'', ''b'']"
  have s: "scoped ''grok'' ?p = [demo_entry ''a'', demo_entry ''b'']"
    by (simp add: demo_pool_def scoped_def rebuildEnabledLocked_def demo_entry_def AppliesTo_def upstream_names)
  have r: "pp_rrIndex ?p = 0" by (simp add: demo_pool_def NewProxyPool_def)
  have "unat (pp_rrIndex ?p) + length (scoped ''grok'' ?p) < 2 ^ 64" by (simp add: s r)
  from next_round_robin [OF this] show ?thesis by (simp add: s r numeral_2_eq_2 del: iterate.simps)
qed

definition alternate :: "string \<Rightarrow> string \<Rightarrow> proxy_pool \<Rightarrow>
    ((pool_error + proxy_entry) \<times> (pool_error + proxy_entry)) \<times> proxy_pool" where
  "alternate u1 u2 p = (let (r1, p1) = local_next u1 p; (r2, p2) = local_next u2 p1 in ((r1, r2), p2))"

text \<open>
  The comment on the shared cursor ("still yields fair rotation within each scope over
  time") is wrong. With two proxies that serve both upstreams, traffic that alternates between
  \<open>grok\<close> and \<open>codebuddy\<close> sends every Grok request through the first proxy and every CodeBuddy
  request through the second, for ever.
\<close>

theorem shared_cursor_starves:
  assumes "scoped UpstreamGrok p = [a, b]" and "scoped UpstreamCodeBuddy p = [a, b]"
    and "even (unat (pp_rrIndex p))"
  shows "fst (iterate (alternate UpstreamGrok UpstreamCodeBuddy) k p) = replicate k (Inr a, Inr b)"
  using assms
proof (induction k arbitrary: p)
  case (Suc k)
  let ?p = "p\<lparr>pp_rrIndex := pp_rrIndex p + 2\<rparr>"
  have "unat (pp_rrIndex p) mod 2 = 0" "unat (pp_rrIndex p + 1) mod 2 = 1"
    using Suc.prems(3) unat_parity [of "pp_rrIndex p"] by presburger+
  then have "alternate UpstreamGrok UpstreamCodeBuddy p = ((Inr a, Inr b), ?p)"
    using Suc.prems by (simp add: alternate_def local_next_eq numeral_2_eq_2 add.assoc)
  moreover have "fst (iterate (alternate UpstreamGrok UpstreamCodeBuddy) k ?p) = replicate k (Inr a, Inr b)"
    using Suc.prems unat_parity [of "pp_rrIndex p"] unat_parity [of "pp_rrIndex p + 1"]
    by (intro Suc.IH) (simp_all add: add.assoc)
  ultimately show ?case by (simp add: Let_def split_beta)
qed simp

theorem shared_cursor_starves_witness:
  "fst (iterate (alternate UpstreamGrok UpstreamCodeBuddy) 1000 (demo_pool [''a'', ''b''])) =
     replicate 1000 (Inr (demo_entry ''a''), Inr (demo_entry ''b''))"
  by (rule shared_cursor_starves)
     (simp_all add: demo_pool_def scoped_def rebuildEnabledLocked_def demo_entry_def AppliesTo_def
       upstream_names NewProxyPool_def)

lemma MarkFailed_below:
  assumes "i \<noteq> []" and "find_idx (\<lambda>e. pe_id e = i) (pp_entries p) = Some idx"
    and "pp_entries p ! idx = e" and "pe_fail_count e + 1 < PROXY_FAIL_THRESHOLD"
  shows "fst (ProxyPool_MarkFailed st i p) =
    p\<lparr>pp_entries := (pp_entries p)[idx := e\<lparr>pe_fail_count := pe_fail_count e + 1\<rparr>]\<rparr>"
  using assms by (simp add: ProxyPool_MarkFailed_def Let_def del: find_idx_None)

lemma find_idx_update_same:
  assumes "find_idx P xs = Some i" and "P v"
  shows "find_idx P (xs[i := v]) = Some i"
  using assms by (auto simp: find_idx_Some)

lemma MarkFailed_run:
  assumes "i \<noteq> []" and "find_idx (\<lambda>e. pe_id e = i) (pp_entries p) = Some idx"
    and "pp_entries p ! idx = e" and "pe_fail_count e = 0" and "int k < PROXY_FAIL_THRESHOLD"
  shows "((\<lambda>p. fst (ProxyPool_MarkFailed st i p)) ^^ k) p =
    p\<lparr>pp_entries := (pp_entries p)[idx := e\<lparr>pe_fail_count := int k\<rparr>]\<rparr>"
  using assms(5)
proof (induction k)
  case 0
  from assms have "e\<lparr>pe_fail_count := int 0\<rparr> = e" by simp
  with assms show ?case by (metis funpow_0 list_update_id proxy_pool.unfold_congs(1) proxy_pool.surjective
        proxy_pool.update_convs(1))
next
  case (Suc k)
  let ?q = "p\<lparr>pp_entries := (pp_entries p)[idx := e\<lparr>pe_fail_count := int k\<rparr>]\<rparr>"
  have idx: "idx < length (pp_entries p)" and "pe_id e = i"
    using find_idx_SomeD [OF assms(2)] assms(3) by simp_all
  then have "find_idx (\<lambda>e. pe_id e = i) (pp_entries ?q) = Some idx"
    using assms(2) by (simp add: find_idx_update_same)
  moreover have "pp_entries ?q ! idx = e\<lparr>pe_fail_count := int k\<rparr>" using idx by simp
  ultimately show ?case
    using Suc MarkFailed_below [OF assms(1), of ?q idx "e\<lparr>pe_fail_count := int k\<rparr>" st]
    by (simp add: add.commute)
qed

lemma five_failures:
  fixes st :: store_reply
  assumes "i \<noteq> []" and "distinct (map pe_id (pp_entries p))"
    and "find_idx (\<lambda>e. pe_id e = i) (pp_entries p) = Some idx"
    and "pp_entries p ! idx = e" and "pe_enabled e" and "pe_fail_count e = 0"
  defines "fail \<equiv> \<lambda>p. fst (ProxyPool_MarkFailed st i p)"
  shows "\<forall>k < 5. (fail ^^ k) p = p\<lparr>pp_entries := (pp_entries p)[idx := e\<lparr>pe_fail_count := int k\<rparr>]\<rparr> \<and>
           scoped u ((fail ^^ k) p) = scoped u p"
    and "pp_entries ((fail ^^ 5) p) =
           (pp_entries p)[idx := e\<lparr>pe_fail_count := 5, pe_enabled := False\<rparr>] \<and>
         pp_transports ((fail ^^ 5) p) i = None \<and>
         i \<notin> pe_id ` set (scoped u ((fail ^^ 5) p))"
proof -
  have run: "(fail ^^ k) p = p\<lparr>pp_entries := (pp_entries p)[idx := e\<lparr>pe_fail_count := int k\<rparr>]\<rparr>"
    if "k < 5" for k
    unfolding fail_def using MarkFailed_run [OF assms(1,3,4,6), of k st] that
    by (simp add: PROXY_FAIL_THRESHOLD_def)
  then show "\<forall>k < 5. (fail ^^ k) p = p\<lparr>pp_entries := (pp_entries p)[idx := e\<lparr>pe_fail_count := int k\<rparr>]\<rparr> \<and>
      scoped u ((fail ^^ k) p) = scoped u p"
    by (simp add: scoped_def)
  let ?q = "p\<lparr>pp_entries := (pp_entries p)[idx := e\<lparr>pe_fail_count := 4\<rparr>]\<rparr>"
  let ?d = "e\<lparr>pe_fail_count := 5, pe_enabled := False\<rparr>"
  have idx: "idx < length (pp_entries p)" and pid: "pe_id e = i"
    using find_idx_SomeD [OF assms(3)] assms(4) by simp_all
  have "(fail ^^ 5) p = fail ((fail ^^ 4) p)"
    by (simp add: numeral_eq_Suc)
  then have five: "(fail ^^ 5) p = fail ?q" using run [of 4] by simp
  have "find_idx (\<lambda>e. pe_id e = i) ((pp_entries p)[idx := e\<lparr>pe_fail_count := 4\<rparr>]) = Some idx"
    using assms(3) pid by (simp add: find_idx_update_same)
  then have "fail ?q =
      (rebuildEnabledLocked (p\<lparr>pp_entries := (pp_entries p)[idx := ?d]\<rparr>))
        \<lparr>pp_transports := (pp_transports p)(i := None)\<rparr>"
    using assms(1,5) idx
    by (simp add: fail_def ProxyPool_MarkFailed_def Let_def PROXY_FAIL_THRESHOLD_def
        rebuildEnabledLocked_def del: find_idx_None)
  with five have p5: "(fail ^^ 5) p =
      (rebuildEnabledLocked (p\<lparr>pp_entries := (pp_entries p)[idx := ?d]\<rparr>))
        \<lparr>pp_transports := (pp_transports p)(i := None)\<rparr>" by simp
  have "i \<notin> pe_id ` {x \<in> set ((pp_entries p)[idx := ?d]). pe_enabled x}"
  proof
    assume "i \<in> pe_id ` {x \<in> set ((pp_entries p)[idx := ?d]). pe_enabled x}"
    then obtain j where j: "j < length (pp_entries p)" "pe_id ((pp_entries p)[idx := ?d] ! j) = i"
        "pe_enabled ((pp_entries p)[idx := ?d] ! j)"
      by (auto simp: in_set_conv_nth)
    then have "j \<noteq> idx" using idx by auto
    then have "pe_id (pp_entries p ! j) = pe_id (pp_entries p ! idx)" using j pid assms(4) by simp
    with assms(2) j(1) idx \<open>j \<noteq> idx\<close> show False
      by (auto simp: distinct_conv_nth)
  qed
  then show "pp_entries ((fail ^^ 5) p) = (pp_entries p)[idx := ?d] \<and>
         pp_transports ((fail ^^ 5) p) i = None \<and> i \<notin> pe_id ` set (scoped u ((fail ^^ 5) p))"
    by (auto simp: p5 scoped_def)
qed

text \<open>
  C2: Five consecutive failures, and no fewer, take a proxy out. Starting from an enabled entry
  with a clean count, after \<open>k < 5\<close> calls of \<open>MarkFailed\<close> the entry is as before with count \<open>k\<close>
  and the candidates of every upstream are unchanged; the fifth call disables it, drops its cached transport
  and removes it from the candidates of every upstream.
\<close>

theorem five_failures_disable:
  fixes st :: store_reply
  assumes "i \<noteq> []" and "distinct (map pe_id (pp_entries p))"
    and "find_idx (\<lambda>e. pe_id e = i) (pp_entries p) = Some idx"
    and "pp_entries p ! idx = e" and "pe_enabled e" and "pe_fail_count e = 0"
  defines "fail \<equiv> \<lambda>p. fst (ProxyPool_MarkFailed st i p)"
  shows "(\<forall>k < 5. (fail ^^ k) p = p\<lparr>pp_entries := (pp_entries p)[idx := e\<lparr>pe_fail_count := int k\<rparr>]\<rparr> \<and>
            scoped u ((fail ^^ k) p) = scoped u p) \<and>
         pp_entries ((fail ^^ 5) p) =
           (pp_entries p)[idx := e\<lparr>pe_fail_count := 5, pe_enabled := False\<rparr>] \<and>
         pp_transports ((fail ^^ 5) p) i = None \<and>
         i \<notin> pe_id ` set (scoped u ((fail ^^ 5) p))"
  using five_failures [OF assms(1-6)] unfolding fail_def by blast

theorem five_failures_disable_witness:
  "\<not> pe_enabled (pp_entries (((\<lambda>p. fst (ProxyPool_MarkFailed Store_ok ''b'' p)) ^^ 5)
        (demo_pool [''a'', ''b''])) ! 1)"
proof -
  let ?p = "demo_pool [''a'', ''b'']" and ?e = "demo_entry ''b''"
  have "find_idx (\<lambda>e. pe_id e = ''b'') (pp_entries ?p) = Some 1" "pp_entries ?p ! 1 = ?e"
    "distinct (map pe_id (pp_entries ?p))" "pe_enabled ?e" "pe_fail_count ?e = 0"
    by (simp_all add: demo_pool_def demo_entry_def)
  from five_failures_disable [OF _ this(3,1,2,4,5), of Store_ok "''grok''"]
  show ?thesis by (simp add: demo_pool_def)
qed

text \<open>
  Whatever sequence of operations (other than a reload from the store) an operator and the
  request path perform on a fresh pool, every entry has passed validation: a known protocol, a
  host of 1 to 253 bytes without separators, a port in range, bounded strings and a canonical
  upstream list ("all" alone, or a duplicate-free non-empty list of known names); and
  validating it again changes nothing.
\<close>

theorem pool_entries_well_formed:
  assumes "list_all no_load xs" and "e \<in> set (pp_entries (fold pool_step xs NewProxyPool))"
  shows "entry_valid e \<and> validateEntry e = Inr e"
proof -
  have "well_formed e"
    using well_formed_history [of NewProxyPool xs] assms by (simp add: NewProxyPool_def)
  then show ?thesis by (simp add: well_formed_def validateEntry_fixed)
qed

theorem pool_entries_well_formed_witness:
  "validateEntry (demo_entry ''a'') = Inr (demo_entry ''a'')"
proof -
  let ?xs = "[Op_add Store_ok (Some ''a'') 0 (demo_entry [])]"
  have "pp_entries (fold pool_step ?xs NewProxyPool) = [demo_entry ''a'']"
    using demo_pool_Add [of "''a''" "[]"] by (simp add: demo_pool_Nil) (simp add: demo_pool_def)
  then show ?thesis
    using pool_entries_well_formed [of ?xs "demo_entry ''a''"] by simp
qed

lemma merge_update_masked: "merge_update (masked e) e = e"
  by (simp add: merge_update_def masked_def split: option.split)

lemma Get_idx:
  assumes "ProxyPool_Get i p = Some shown"
  obtains idx where "i \<noteq> []" "find_idx (\<lambda>e. pe_id e = i) (pp_entries p) = Some idx"
    "shown = masked (pp_entries p ! idx)"
proof -
  from assms obtain e where "i \<noteq> []" and f: "find (\<lambda>e. pe_id e = i) (pp_entries p) = Some e"
    and "shown = masked e"
    by (auto simp: ProxyPool_Get_def split: if_splits)
  moreover from f obtain idx where "find_idx (\<lambda>e. pe_id e = i) (pp_entries p) = Some idx"
      "pp_entries p ! idx = e"
    unfolding find_Some_iff find_idx_Some by blast
  ultimately show ?thesis using that by blast
qed

text \<open>
  The dashboard never sees a password, and saving the form it was shown changes nothing:
  what \<open>Get\<close> returns has an empty or a masked password, and \<open>Update\<close> with exactly that value
  succeeds and leaves the entry as it was (the failure count is reset), the password included.
\<close>

theorem edit_form_round_trip:
  assumes "ProxyPool_Get i p = Some shown" and "\<forall>e \<in> set (pp_entries p). well_formed e"
  shows "pe_password shown \<in> {[], ''***''} \<and>
         (\<exists>idx < length (pp_entries p).
           fst (ProxyPool_Update st i shown p) =
             (Some ((pp_entries p ! idx)\<lparr>pe_fail_count := 0\<rparr>), save_result st) \<and>
           pp_entries (fst (snd (ProxyPool_Update st i shown p))) =
             (pp_entries p)[idx := (pp_entries p ! idx)\<lparr>pe_fail_count := 0\<rparr>])"
proof (intro conjI)
  from assms(1) obtain idx where idx: "i \<noteq> []" "find_idx (\<lambda>e. pe_id e = i) (pp_entries p) = Some idx"
      "shown = masked (pp_entries p ! idx)"
    by (rule Get_idx)
  then show "pe_password shown \<in> {[], ''***''}" by (simp add: masked_def)
  have len: "idx < length (pp_entries p)" using find_idx_SomeD [OF idx(2)] by simp
  then have "well_formed (pp_entries p ! idx)" using assms(2) by simp
  then have "validateEntry (merge_update shown (pp_entries p ! idx)) = Inr (pp_entries p ! idx)"
    by (simp add: idx(3) merge_update_masked well_formed_def validateEntry_fixed)
  then show "\<exists>idx < length (pp_entries p).
      fst (ProxyPool_Update st i shown p) =
        (Some ((pp_entries p ! idx)\<lparr>pe_fail_count := 0\<rparr>), save_result st) \<and>
      pp_entries (fst (snd (ProxyPool_Update st i shown p))) =
        (pp_entries p)[idx := (pp_entries p ! idx)\<lparr>pe_fail_count := 0\<rparr>]"
    using idx(1,2) len by (auto simp: ProxyPool_Update_def Let_def simp del: find_idx_None)
qed

theorem edit_form_round_trip_witness:
  "let p = demo_pool [''a'', ''b''] in
   pp_entries (fst (snd (ProxyPool_Update Store_ok ''b'' (masked (demo_entry ''b'')) p))) = pp_entries p"
proof -
  let ?p = "demo_pool [''a'', ''b'']"
  have "ProxyPool_Get ''b'' ?p = Some (masked (demo_entry ''b''))"
    by (simp add: ProxyPool_Get_def demo_pool_def demo_entry_def)
  moreover have "\<forall>e \<in> set (pp_entries ?p). well_formed e"
    using well_formed_validated [OF demo_entry_validates] by (simp add: demo_pool_def)
  ultimately obtain idx where "pp_entries (fst (snd (ProxyPool_Update Store_ok ''b'' (masked (demo_entry ''b'')) ?p))) =
      (pp_entries ?p)[idx := (pp_entries ?p ! idx)\<lparr>pe_fail_count := 0\<rparr>]" and "idx < length (pp_entries ?p)"
    using edit_form_round_trip by meson
  moreover have "(pp_entries ?p ! idx)\<lparr>pe_fail_count := 0\<rparr> = pp_entries ?p ! idx" if "idx < 2"
    using that by (auto simp: demo_pool_def demo_entry_def less_Suc_eq numeral_eq_Suc)
  ultimately show ?thesis
    by (simp add: Let_def) (simp add: demo_pool_def)
qed

lemma Update_keeps_id:
  assumes "fst (ProxyPool_Update st i inp p) = (Some e1, err)"
  shows "pe_id e1 = i"
proof -
  from assms obtain idx v where "find_idx (\<lambda>e. pe_id e = i) (pp_entries p) = Some idx"
      "validateEntry (merge_update inp (pp_entries p ! idx)) = Inr v" "e1 = v\<lparr>pe_fail_count := 0\<rparr>"
    by (auto simp: ProxyPool_Update_def Let_def simp del: find_idx_None
        split: if_splits option.splits sum.splits)
  then show ?thesis
    using find_idx_SomeD validateEntry_keeps by (fastforce simp: merge_update_def)
qed

lemma Update_drops_transport:
  assumes "fst (ProxyPool_Update st i inp p) = (Some e1, err)"
  shows "pp_transports (fst (snd (ProxyPool_Update st i inp p))) i = None"
  using assms by (auto simp: ProxyPool_Update_def Let_def simp del: find_idx_None
      split: if_splits option.splits sum.splits)

text \<open>
  A late transport outlives an update. \<open>Update\<close> drops the cached transport of the entry, but
  a request that took its snapshot before the update and builds the transport after it puts the
  old one back, and every later request of the updated entry goes through it: the cache is
  keyed by id alone.
\<close>

theorem late_transport_wins:
  assumes "fst (ProxyPool_Update st i inp p) = (Some e1, err)"
    and "pe_id e0 = i" and "buildTransport env e0 = Inr t0"
  defines "p1 \<equiv> fst (snd (ProxyPool_Update st i inp p))"
  shows "fst (ProxyPool_Transport env' e1 (snd (ProxyPool_Transport env e0 p1))) = Inr t0"
  using Update_keeps_id [OF assms(1)] Update_drops_transport [OF assms(1)] assms(2,3)
  by (simp add: p1_def ProxyPool_Transport_def)

theorem late_transport_wins_witness:
  "let env = \<lparr>url_parses = (\<lambda>_. True), socks5_builds = (\<lambda>_. True)\<rparr>;
       e0 = demo_entry ''a''; e1 = e0\<lparr>pe_port := 9090\<rparr>;
       p1 = fst (snd (ProxyPool_Update Store_ok ''a'' e1 (demo_pool [''a''])))
   in fst (ProxyPool_Transport env e1 (snd (ProxyPool_Transport env e0 p1))) =
        Inr (Http_transport (proxyURL e0)) \<and> proxyURL e0 \<noteq> proxyURL e1"
proof -
  let ?env = "\<lparr>url_parses = (\<lambda>_. True), socks5_builds = (\<lambda>_. True)\<rparr>"
  let ?e0 = "demo_entry ''a''" let ?e1 = "?e0\<lparr>pe_port := 9090\<rparr>"
  have "entry_valid ?e1" and "entry_trimmed ?e1"
    using well_formed_validated [OF demo_entry_validates, of "''a''"]
    by (simp_all add: well_formed_def entry_valid_def entry_trimmed_def demo_entry_def)
  then have "validateEntry (merge_update ?e1 ?e0) = Inr ?e1"
    using validateEntry_fixed [of ?e1] by (simp add: merge_update_def demo_entry_def)
  then have "fst (ProxyPool_Update Store_ok ''a'' ?e1 (demo_pool [''a''])) = (Some ?e1, None)"
    by (simp add: ProxyPool_Update_def demo_pool_def save_result_def Let_def) (simp add: demo_entry_def)
  moreover have "buildTransport ?env ?e0 = Inr (Http_transport (proxyURL ?e0))"
    by (simp add: buildTransport_def demo_entry_def)
  moreover have "pe_id ?e0 = ''a''" by (simp add: demo_entry_def)
  moreover have "proxyURL ?e0 \<noteq> proxyURL ?e1"
    by (simp add: proxyURL_def demo_entry_def show_int_def show_nat.simps)
  ultimately show ?thesis
    unfolding Let_def using late_transport_wins by blast
qed

end
