(* ===== verification/Health.thy ===== *)
theory Health
  imports Complex_Main Prelude
begin

text \<open>
  The circuit breaker and the health checker of \<open>internal/upstream/health.go\<close>, one record per
  upstream. The mutex-protected fields and the counters form one state; every method is one
  step. The gauge is the Prometheus value that \<open>setCircuitState\<close> publishes. Averages and
  rates (\<open>float64\<close> in Go) are exact rationals here.
\<close>

section \<open>State\<close>

definition HealthStatusOK :: "int \<Rightarrow> bool" where
  "HealthStatusOK code \<longleftrightarrow> code \<ge> 200 \<and> code < 400"

datatype CircuitState = CircuitClosed | CircuitOpen | CircuitHalfOpen

definition CircuitState_String :: "CircuitState \<Rightarrow> string" where
  "CircuitState_String s =
     (case s of CircuitClosed \<Rightarrow> ''closed'' | CircuitOpen \<Rightarrow> ''open'' | CircuitHalfOpen \<Rightarrow> ''half-open'')"

definition CB_OPEN_THRESHOLD :: int where "CB_OPEN_THRESHOLD = 5"
definition CB_OPEN_DURATION :: duration where "CB_OPEN_DURATION = 60 * second"
definition CB_HALF_OPEN_PROBES :: int where "CB_HALF_OPEN_PROBES = 1"

lemmas breaker_consts = CB_OPEN_THRESHOLD_def CB_OPEN_DURATION_def CB_HALF_OPEN_PROBES_def second_def

record UpstreamHealth =
  uh_Name :: string
  uh_state :: CircuitState
  uh_consecutiveErrs :: int
  uh_openedAt :: gotime
  uh_halfOpenProbes :: int
  uh_totalRequests :: int
  uh_totalErrors :: int
  uh_totalLatencyMs :: int
  uh_lastRequestAt :: gotime
  uh_lastErrorAt :: gotime
  uh_lastErrorMsg :: "string option"
  uh_lastCheckAt :: gotime
  uh_lastCheckLatMs :: int
  uh_lastCheckOK :: bool
  uh_gauge :: int

definition unix_epoch :: gotime where "unix_epoch = 62135596800 * second"

definition Milliseconds :: "duration \<Rightarrow> int" where
  "Milliseconds d = sgn d * (\<bar>d\<bar> div 10 ^ 6)"

text \<open>The stamps of the atomic counters are Unix nanoseconds, so an unset one reads as the epoch.\<close>

definition NewUpstreamHealth :: "string \<Rightarrow> UpstreamHealth" where
  "NewUpstreamHealth name =
     \<lparr>uh_Name = name, uh_state = CircuitClosed, uh_consecutiveErrs = 0, uh_openedAt = 0,
      uh_halfOpenProbes = 0, uh_totalRequests = 0, uh_totalErrors = 0, uh_totalLatencyMs = 0,
      uh_lastRequestAt = unix_epoch, uh_lastErrorAt = unix_epoch, uh_lastErrorMsg = None,
      uh_lastCheckAt = 0, uh_lastCheckLatMs = 0, uh_lastCheckOK = False, uh_gauge = 0\<rparr>"

definition setCircuitState :: "CircuitState \<Rightarrow> UpstreamHealth \<Rightarrow> UpstreamHealth" where
  "setCircuitState s h =
     h\<lparr>uh_gauge := (case s of CircuitClosed \<Rightarrow> 0 | CircuitOpen \<Rightarrow> 1 | CircuitHalfOpen \<Rightarrow> 2)\<rparr>"

section \<open>Passive health and admission\<close>

definition RecordRequest :: "gotime \<Rightarrow> duration \<Rightarrow> string option \<Rightarrow> UpstreamHealth \<Rightarrow> UpstreamHealth" where
  "RecordRequest now latency err h0 =
     (let h = h0\<lparr>uh_totalRequests := uh_totalRequests h0 + 1,
                 uh_totalLatencyMs := uh_totalLatencyMs h0 + Milliseconds latency,
                 uh_lastRequestAt := now\<rparr>
      in case err of
           Some msg \<Rightarrow>
             (let h1 = h\<lparr>uh_totalErrors := uh_totalErrors h + 1, uh_lastErrorAt := now,
                         uh_lastErrorMsg := Some msg,
                         uh_consecutiveErrs := uh_consecutiveErrs h + 1\<rparr>
              in if uh_consecutiveErrs h1 \<ge> CB_OPEN_THRESHOLD \<and> uh_state h1 = CircuitClosed
                 then setCircuitState CircuitOpen (h1\<lparr>uh_state := CircuitOpen, uh_openedAt := now\<rparr>)
                 else h1)
         | None \<Rightarrow>
             (if uh_state h = CircuitHalfOpen
              then setCircuitState CircuitClosed
                     (h\<lparr>uh_state := CircuitClosed, uh_consecutiveErrs := 0, uh_halfOpenProbes := 0\<rparr>)
              else if uh_state h = CircuitClosed then h\<lparr>uh_consecutiveErrs := 0\<rparr>
              else h))"

definition CanRequest :: "gotime \<Rightarrow> UpstreamHealth \<Rightarrow> bool \<times> UpstreamHealth" where
  "CanRequest now h =
     (case uh_state h of
        CircuitClosed \<Rightarrow> (True, h)
      | CircuitOpen \<Rightarrow>
          (if time_sub now (uh_openedAt h) \<ge> CB_OPEN_DURATION
           then (True, setCircuitState CircuitHalfOpen (h\<lparr>uh_state := CircuitHalfOpen, uh_halfOpenProbes := 0\<rparr>))
           else (False, h))
      | CircuitHalfOpen \<Rightarrow>
          (if uh_halfOpenProbes h < CB_HALF_OPEN_PROBES
           then (True, h\<lparr>uh_halfOpenProbes := uh_halfOpenProbes h + 1\<rparr>)
           else (False, h)))"

text \<open>The figures of \<open>Stats\<close> that routing reads, and \<open>round2\<close>.\<close>

definition trunc_rat :: "rat \<Rightarrow> int" where
  "trunc_rat x = (if x < 0 then - \<lfloor>- x\<rfloor> else \<lfloor>x\<rfloor>)"

definition round2 :: "rat \<Rightarrow> rat" where
  "round2 f = of_int (trunc_rat (f * 100 + 1/2)) / 100"

definition Stats_avg_latency_ms :: "UpstreamHealth \<Rightarrow> rat" where
  "Stats_avg_latency_ms h =
     round2 (if uh_totalRequests h > 0
             then of_int (uh_totalLatencyMs h) / of_int (uh_totalRequests h) else 0)"

definition Stats_error_rate_pct :: "UpstreamHealth \<Rightarrow> rat" where
  "Stats_error_rate_pct h =
     round2 (if uh_totalRequests h > 0
             then of_int (uh_totalErrors h) / of_int (uh_totalRequests h) * 100 else 0)"

section \<open>Active checks\<close>

text \<open>
  The three checks differ in the pool they read and in what an empty pool means. An account is
  given by whether it is disabled; \<open>probe\<close> is the request to the upstream through the first
  enabled account: a transport error or a status. A check returns, beside the new state, what
  it reports to the proxy pool (\<open>markProxyResult\<close>): nothing when it made no request.
\<close>

datatype probe_outcome = Probe_error string | Probe_status int

definition check_skipped :: "gotime \<Rightarrow> string \<Rightarrow> UpstreamHealth \<Rightarrow> UpstreamHealth" where
  "check_skipped now msg h =
     h\<lparr>uh_lastCheckAt := now, uh_lastCheckOK := False, uh_lastCheckLatMs := 0, uh_lastErrorMsg := Some msg\<rparr>"

definition count_check_error :: "gotime \<Rightarrow> UpstreamHealth \<Rightarrow> UpstreamHealth" where
  "count_check_error now h0 =
     (let h = h0\<lparr>uh_consecutiveErrs := uh_consecutiveErrs h0 + 1\<rparr>
      in if uh_consecutiveErrs h \<ge> CB_OPEN_THRESHOLD \<and> uh_state h = CircuitClosed
         then h\<lparr>uh_state := CircuitOpen, uh_openedAt := now\<rparr> else h)"

definition status_msg :: "int \<Rightarrow> string" where
  "status_msg code = ''LLM test status '' @ show_int code"

definition apply_probe :: "gotime \<Rightarrow> duration \<Rightarrow> probe_outcome \<Rightarrow> UpstreamHealth \<Rightarrow> UpstreamHealth" where
  "apply_probe now latency outcome h0 =
     (let h = h0\<lparr>uh_lastCheckAt := now, uh_lastCheckLatMs := Milliseconds latency\<rparr>
      in case outcome of
           Probe_error msg \<Rightarrow>
             count_check_error now (h\<lparr>uh_lastCheckOK := False, uh_lastErrorMsg := Some msg\<rparr>)
         | Probe_status code \<Rightarrow>
             (let h1 = h\<lparr>uh_lastCheckOK := HealthStatusOK code\<rparr>
              in if uh_lastCheckOK h1 then
                   let h2 = h1\<lparr>uh_lastErrorMsg := Some []\<rparr>
                   in if uh_state h2 = CircuitHalfOpen
                      then h2\<lparr>uh_state := CircuitClosed, uh_consecutiveErrs := 0\<rparr>
                      else if uh_state h2 = CircuitClosed then h2\<lparr>uh_consecutiveErrs := 0\<rparr>
                      else h2
                 else count_check_error now (h1\<lparr>uh_lastErrorMsg := Some (status_msg code)\<rparr>)))"

definition run_check ::
  "('a \<Rightarrow> bool) \<Rightarrow> ('a \<Rightarrow> probe_outcome \<times> duration) \<Rightarrow> string \<Rightarrow> gotime \<Rightarrow> 'a list \<Rightarrow>
   UpstreamHealth \<Rightarrow> UpstreamHealth \<times> probe_outcome option" where
  "run_check disabled probe disabled_msg now accounts h =
     (case find (\<lambda>a. \<not> disabled a) accounts of
        None \<Rightarrow> (check_skipped now disabled_msg h, None)
      | Some acc \<Rightarrow>
        (let (outcome, latency) = probe acc in (apply_probe now latency outcome h, Some outcome)))"

definition checkGrok ::
  "('a \<Rightarrow> bool) \<Rightarrow> ('a \<Rightarrow> probe_outcome \<times> duration) \<Rightarrow> gotime \<Rightarrow> 'a list \<Rightarrow>
   UpstreamHealth \<Rightarrow> UpstreamHealth \<times> probe_outcome option" where
  "checkGrok disabled probe now accounts h =
     (if length accounts = 0
      then (count_check_error now (check_skipped now ''no grok accounts loaded'' h), None)
      else run_check disabled probe ''all grok accounts disabled'' now accounts h)"

definition checkCB ::
  "('a \<Rightarrow> bool) \<Rightarrow> ('a \<Rightarrow> probe_outcome \<times> duration) \<Rightarrow> gotime \<Rightarrow> 'a list \<Rightarrow>
   UpstreamHealth \<Rightarrow> UpstreamHealth \<times> probe_outcome option" where
  "checkCB disabled probe now keys h =
     (if length keys = 0
      then (count_check_error now (check_skipped now ''no cb keys loaded'' h), None)
      else run_check disabled probe ''all cb keys disabled'' now keys h)"

definition checkCF ::
  "('a \<Rightarrow> bool) \<Rightarrow> ('a \<Rightarrow> probe_outcome \<times> duration) \<Rightarrow> gotime \<Rightarrow> 'a list \<Rightarrow>
   UpstreamHealth \<Rightarrow> UpstreamHealth \<times> probe_outcome option" where
  "checkCF disabled probe now keys h =
     (if length keys = 0 then (check_skipped now ''no cf keys loaded'' h, None)
      else run_check disabled probe ''all cf keys disabled'' now keys h)"

section \<open>Histories\<close>

text \<open>
  Whatever happens to a breaker is a sequence of these events; \<open>run_events\<close> collects what the
  \<open>CanRequest\<close> calls answered.
\<close>

datatype health_event =
    Ev_can gotime
  | Ev_record gotime duration "string option"
  | Ev_probe gotime duration probe_outcome
  | Ev_no_accounts gotime string
  | Ev_skip gotime string

fun health_step :: "health_event \<Rightarrow> UpstreamHealth \<Rightarrow> bool list \<times> UpstreamHealth" where
  "health_step (Ev_can now) h = (let (ok, h') = CanRequest now h in ([ok], h'))"
| "health_step (Ev_record now latency err) h = ([], RecordRequest now latency err h)"
| "health_step (Ev_probe now latency outcome) h = ([], apply_probe now latency outcome h)"
| "health_step (Ev_no_accounts now msg) h = ([], count_check_error now (check_skipped now msg h))"
| "health_step (Ev_skip now msg) h = ([], check_skipped now msg h)"

fun run_events :: "health_event list \<Rightarrow> UpstreamHealth \<Rightarrow> bool list \<times> UpstreamHealth" where
  "run_events [] h = ([], h)"
| "run_events (e # es) h =
     (let (oks, h1) = health_step e h; (oks', h2) = run_events es h1 in (oks @ oks', h2))"

lemma run_events_Cons:
  "fst (run_events (e # es) h) = fst (health_step e h) @ fst (run_events es (snd (health_step e h)))"
  "snd (run_events (e # es) h) = snd (run_events es (snd (health_step e h)))"
  by (simp_all add: Let_def split_beta)

lemma health_step_can:
  "health_step (Ev_can now) h = ([fst (CanRequest now h)], snd (CanRequest now h))"
  by (simp add: split_beta)

declare run_events.simps(2) [simp del] run_events_Cons [simp]
declare health_step.simps(1) [simp del] health_step_can [simp]

text \<open>
  Each of the three checks is one of these events. An upstream without accounts counts as a
  failure for Grok and CodeBuddy and is only skipped for Cloudflare.
\<close>

definition check_event ::
  "('a \<Rightarrow> bool) \<Rightarrow> ('a \<Rightarrow> probe_outcome \<times> duration) \<Rightarrow> string \<Rightarrow> gotime \<Rightarrow> 'a list \<Rightarrow> health_event" where
  "check_event disabled probe disabled_msg now accounts =
     (case find (\<lambda>a. \<not> disabled a) accounts of
        None \<Rightarrow> Ev_skip now disabled_msg
      | Some a \<Rightarrow> Ev_probe now (snd (probe a)) (fst (probe a)))"

lemma run_check_is_event:
  "fst (run_check disabled probe msg now accounts h) =
     snd (health_step (check_event disabled probe msg now accounts) h)"
  by (simp add: run_check_def check_event_def split_beta Let_def split: option.split)

lemma checks_are_events:
  "fst (checkGrok disabled probe now accounts h) =
     snd (health_step (if accounts = [] then Ev_no_accounts now ''no grok accounts loaded''
       else check_event disabled probe ''all grok accounts disabled'' now accounts) h)"
  "fst (checkCB disabled probe now accounts h) =
     snd (health_step (if accounts = [] then Ev_no_accounts now ''no cb keys loaded''
       else check_event disabled probe ''all cb keys disabled'' now accounts) h)"
  "fst (checkCF disabled probe now accounts h) =
     snd (health_step (if accounts = [] then Ev_skip now ''no cf keys loaded''
       else check_event disabled probe ''all cf keys disabled'' now accounts) h)"
  by (simp_all add: checkGrok_def checkCB_def checkCF_def run_check_is_event)

text \<open>The events other than a success: what an upstream that is down can still cause.\<close>

fun failing :: "health_event \<Rightarrow> bool" where
  "failing (Ev_can now) = True"
| "failing (Ev_record now latency err) = (err \<noteq> None)"
| "failing (Ev_probe now latency outcome) =
     (case outcome of Probe_error msg \<Rightarrow> True | Probe_status code \<Rightarrow> \<not> HealthStatusOK code)"
| "failing (Ev_no_accounts now msg) = True"
| "failing (Ev_skip now msg) = True"

lemma setCircuitState_simps [simp]:
  "uh_state (setCircuitState s h) = uh_state h"
  "uh_halfOpenProbes (setCircuitState s h) = uh_halfOpenProbes h"
  "uh_consecutiveErrs (setCircuitState s h) = uh_consecutiveErrs h"
  "uh_openedAt (setCircuitState s h) = uh_openedAt h"
  by (simp_all add: setCircuitState_def)

lemma count_check_error_simps [simp]:
  "uh_halfOpenProbes (count_check_error now h) = uh_halfOpenProbes h"
  "uh_state h \<noteq> CircuitClosed \<Longrightarrow> uh_state (count_check_error now h) = uh_state h"
  "uh_state h \<noteq> CircuitClosed \<Longrightarrow> uh_openedAt (count_check_error now h) = uh_openedAt h"
  by (simp_all add: count_check_error_def Let_def)

lemma check_skipped_simps [simp]:
  "uh_state (check_skipped now msg h) = uh_state h"
  "uh_halfOpenProbes (check_skipped now msg h) = uh_halfOpenProbes h"
  "uh_openedAt (check_skipped now msg h) = uh_openedAt h"
  by (simp_all add: check_skipped_def)

text \<open>An event other than \<open>CanRequest\<close> and a success leaves a breaker that is not closed as it is.\<close>

lemma failing_keeps:
  assumes "failing e" and "\<And>now. e \<noteq> Ev_can now" and "uh_state h \<noteq> CircuitClosed"
  shows "fst (health_step e h) = [] \<and> uh_state (snd (health_step e h)) = uh_state h \<and>
         uh_openedAt (snd (health_step e h)) = uh_openedAt h \<and>
         uh_halfOpenProbes (snd (health_step e h)) = uh_halfOpenProbes h"
  using assms by (cases e) (auto simp: RecordRequest_def apply_probe_def Let_def
      split: probe_outcome.splits)

lemma wedged_step:
  assumes "failing e" and "uh_state h = CircuitHalfOpen" and "1 \<le> uh_halfOpenProbes h"
  shows "set (fst (health_step e h)) \<subseteq> {False} \<and>
         uh_state (snd (health_step e h)) = CircuitHalfOpen \<and> 1 \<le> uh_halfOpenProbes (snd (health_step e h))"
proof (cases "\<exists>now. e = Ev_can now")
  case True
  with assms show ?thesis by (auto simp: CanRequest_def breaker_consts)
next
  case False
  with failing_keeps [of e h] assms show ?thesis by auto
qed

lemma wedged_run:
  "list_all failing es \<Longrightarrow> uh_state h = CircuitHalfOpen \<Longrightarrow> 1 \<le> uh_halfOpenProbes h \<Longrightarrow>
   set (fst (run_events es h)) \<subseteq> {False} \<and> uh_state (snd (run_events es h)) = CircuitHalfOpen"
proof (induction es arbitrary: h)
  case (Cons e es)
  then show ?case using wedged_step [of e h] by auto
qed simp

text \<open>How many requests a breaker that is not closed may still let through without a success.\<close>

definition admissions_left :: "UpstreamHealth \<Rightarrow> nat" where
  "admissions_left h =
     (case uh_state h of
        CircuitOpen \<Rightarrow> 2
      | CircuitHalfOpen \<Rightarrow> (if uh_halfOpenProbes h < CB_HALF_OPEN_PROBES then 1 else 0)
      | CircuitClosed \<Rightarrow> 0)"

lemma admissions_step:
  assumes "failing e" and "uh_state h \<noteq> CircuitClosed" and "0 \<le> uh_halfOpenProbes h"
  shows "uh_state (snd (health_step e h)) \<noteq> CircuitClosed \<and> 0 \<le> uh_halfOpenProbes (snd (health_step e h)) \<and>
         count_list (fst (health_step e h)) True + admissions_left (snd (health_step e h)) \<le> admissions_left h"
proof (cases "\<exists>now. e = Ev_can now")
  case True
  with assms show ?thesis
    by (auto simp: CanRequest_def admissions_left_def breaker_consts
        split: CircuitState.splits if_splits)
next
  case False
  with failing_keeps [of e h] assms show ?thesis by (auto simp: admissions_left_def)
qed

lemma admissions_run:
  "list_all failing es \<Longrightarrow> uh_state h \<noteq> CircuitClosed \<Longrightarrow> 0 \<le> uh_halfOpenProbes h \<Longrightarrow>
   count_list (fst (run_events es h)) True \<le> admissions_left h"
proof (induction es arbitrary: h)
  case (Cons e es)
  let ?h = "snd (health_step e h)"
  have "count_list (fst (run_events es ?h)) True \<le> admissions_left ?h"
    using admissions_step [of e h] Cons by simp
  with admissions_step [of e h] Cons.prems show ?case by simp
qed simp

section \<open>Properties\<close>

definition record_all :: "(gotime \<times> duration \<times> string option) list \<Rightarrow> UpstreamHealth \<Rightarrow> UpstreamHealth" where
  "record_all = fold (\<lambda>(now, latency, err). RecordRequest now latency err)"

text \<open>The reading of the events that the transitions depend on.\<close>

fun success :: "health_event \<Rightarrow> bool" where
  "success (Ev_record now latency err) = (err = None)"
| "success (Ev_probe now latency outcome) =
     (case outcome of Probe_error msg \<Rightarrow> False | Probe_status code \<Rightarrow> HealthStatusOK code)"
| "success _ = False"

fun failure :: "health_event \<Rightarrow> bool" where
  "failure (Ev_record now latency err) = (err \<noteq> None)"
| "failure (Ev_probe now latency outcome) =
     (case outcome of Probe_error msg \<Rightarrow> True | Probe_status code \<Rightarrow> \<not> HealthStatusOK code)"
| "failure (Ev_no_accounts now msg) = True"
| "failure _ = False"

fun happened_at :: "health_event \<Rightarrow> gotime" where
  "happened_at (Ev_can now) = now"
| "happened_at (Ev_record now latency err) = now"
| "happened_at (Ev_probe now latency outcome) = now"
| "happened_at (Ev_no_accounts now msg) = now"
| "happened_at (Ev_skip now msg) = now"

fun asks_from :: "gotime \<Rightarrow> health_event \<Rightarrow> bool" where
  "asks_from t (Ev_can now) = (t \<le> now)"
| "asks_from t _ = False"

text \<open>The failures since the last success; requests for admission and skipped checks do not count.\<close>

definition count_failure :: "health_event \<Rightarrow> nat \<Rightarrow> nat" where
  "count_failure e n = (if success e then 0 else if failure e then Suc n else n)"

definition streak :: "health_event list \<Rightarrow> nat" where
  "streak es = fold count_failure es 0"

lemma streak_simps [simp]: "streak [] = 0" "streak (es @ [e]) = count_failure e (streak es)"
  by (simp_all add: streak_def)

lemma run_events_snoc: "snd (run_events (es @ [e]) h) = snd (health_step e (snd (run_events es h)))"
  by (induction es arbitrary: h) simp_all

lemma closed_step:
  assumes "uh_state h = CircuitClosed" and "uh_consecutiveErrs h = int n" and "n < 5"
  shows "uh_state (snd (health_step e h)) = (if failure e \<and> n = 4 then CircuitOpen else CircuitClosed)"
    and "uh_openedAt (snd (health_step e h)) = (if failure e \<and> n = 4 then happened_at e else uh_openedAt h)"
    and "uh_consecutiveErrs (snd (health_step e h)) = int (count_failure e n)"
  using assms
  by (cases e; force simp: CanRequest_def RecordRequest_def apply_probe_def count_check_error_def
      check_skipped_def setCircuitState_def count_failure_def breaker_consts Let_def
      split: probe_outcome.splits option.splits if_splits)+

lemma tripped_step:
  assumes "uh_state h \<noteq> CircuitClosed"
  shows "uh_state (snd (health_step e h)) =
      (if uh_state h = CircuitOpen
       then (if asks_from (uh_openedAt h + CB_OPEN_DURATION) e then CircuitHalfOpen else CircuitOpen)
       else (if success e then CircuitClosed else CircuitHalfOpen))"
    and "uh_openedAt (snd (health_step e h)) = uh_openedAt h"
    and "uh_state (snd (health_step e h)) = CircuitClosed \<longrightarrow> uh_consecutiveErrs (snd (health_step e h)) = 0"
  using assms
  by (cases e; cases "uh_state h"; force simp: CanRequest_def RecordRequest_def apply_probe_def
      count_check_error_def check_skipped_def setCircuitState_def breaker_consts Let_def time_sub_le
      split: probe_outcome.splits option.splits if_splits)+

text \<open>A closed circuit has counted exactly the failures since the last success, and they are fewer than five.\<close>

lemma closed_counts:
  "uh_state (snd (run_events es (NewUpstreamHealth name))) = CircuitClosed \<longrightarrow>
     streak es < 5 \<and> uh_consecutiveErrs (snd (run_events es (NewUpstreamHealth name))) = int (streak es)"
proof (induction es rule: rev_induct)
  case Nil
  then show ?case by (simp add: NewUpstreamHealth_def)
next
  case (snoc e es)
  let ?h = "snd (run_events es (NewUpstreamHealth name))"
  show ?case
  proof (cases "uh_state ?h = CircuitClosed")
    case True
    with snoc closed_step [of ?h "streak es" e] show ?thesis
      by (auto simp: run_events_snoc count_failure_def split: if_splits)
  next
    case False
    with tripped_step [of ?h e] show ?thesis
      by (auto simp: run_events_snoc count_failure_def split: if_splits)
  qed
qed

text \<open>
  C3: The circuit breaker's transitions, at every event (a request for admission, a recorded
  request, a finished health check, a check that found no account to probe) of every history
  of a new breaker. A closed circuit opens exactly at the fifth failure, of
  requests or health checks, since the last success, and notes the time; an open one ignores
  successes and failures and becomes half-open exactly when admission is asked for 60 seconds
  or more after it opened; a half-open one closes exactly at a success, and no failure reopens it.
\<close>

theorem breaker_opens_iff:
  "let h = snd (run_events es (NewUpstreamHealth name));
       h' = snd (run_events (es @ [e]) (NewUpstreamHealth name))
   in uh_state h' =
        (case uh_state h of
           CircuitClosed \<Rightarrow> (if failure e \<and> streak (es @ [e]) = 5 then CircuitOpen else CircuitClosed)
         | CircuitOpen \<Rightarrow>
             (if asks_from (uh_openedAt h + CB_OPEN_DURATION) e then CircuitHalfOpen else CircuitOpen)
         | CircuitHalfOpen \<Rightarrow> (if success e then CircuitClosed else CircuitHalfOpen)) \<and>
      uh_openedAt h' = (if uh_state h = CircuitClosed \<and> uh_state h' = CircuitOpen
                        then happened_at e else uh_openedAt h)"
proof -
  let ?h = "snd (run_events es (NewUpstreamHealth name))"
  have five: "failure e \<and> streak (es @ [e]) = 5 \<longleftrightarrow> failure e \<and> streak es = 4"
    by (cases e) (auto simp: count_failure_def split: probe_outcome.splits)
  show ?thesis
  proof (cases "uh_state ?h = CircuitClosed")
    case True
    with closed_counts [of es name] closed_step [of ?h "streak es" e] show ?thesis
      unfolding five by (simp add: run_events_snoc Let_def)
  next
    case False
    with tripped_step [of ?h e] show ?thesis
      by (simp add: run_events_snoc Let_def split: CircuitState.split)
  qed
qed

fun open_event :: "gotime \<Rightarrow> health_event \<Rightarrow> bool" where
  "open_event until (Ev_can now) = (now < until)"
| "open_event until (Ev_record now latency err) = True"
| "open_event until (Ev_probe now latency outcome) = True"
| "open_event until (Ev_no_accounts now msg) = True"
| "open_event until (Ev_skip now msg) = True"

lemma open_step:
  assumes "open_event (uh_openedAt h + CB_OPEN_DURATION) e" and "uh_state h = CircuitOpen"
  shows "set (fst (health_step e h)) \<subseteq> {False} \<and> uh_state (snd (health_step e h)) = CircuitOpen \<and>
         uh_openedAt (snd (health_step e h)) = uh_openedAt h"
  using assms
  by (cases e) (auto simp: CanRequest_def RecordRequest_def apply_probe_def Let_def breaker_consts
      time_sub_le split: probe_outcome.splits option.splits)

text \<open>
  While it is open, the breaker admits nothing for 60 seconds, whatever else happens
  (errors, late successes, failing health checks); the first request asked for after that is
  let through and makes the circuit half-open.
\<close>

theorem open_window:
  assumes "uh_state h = CircuitOpen"
    and "list_all (open_event (uh_openedAt h + CB_OPEN_DURATION)) es"
    and "uh_openedAt h + CB_OPEN_DURATION \<le> now"
  shows "set (fst (run_events es h)) \<subseteq> {False} \<and>
         fst (CanRequest now (snd (run_events es h))) \<and>
         uh_state (snd (CanRequest now (snd (run_events es h)))) = CircuitHalfOpen"
proof -
  have run: "set (fst (run_events es h)) \<subseteq> {False} \<and> uh_state (snd (run_events es h)) = CircuitOpen \<and>
      uh_openedAt (snd (run_events es h)) = uh_openedAt h"
    using assms(1,2)
  proof (induction es arbitrary: h)
    case (Cons e es)
    then show ?case using open_step [of h e] by auto
  qed simp
  with assms(3) show ?thesis
    by (auto simp: CanRequest_def breaker_consts time_sub_le)
qed

definition opened_at_zero :: UpstreamHealth where
  "opened_at_zero = record_all (replicate 5 (0, 0, Some ''timeout'')) (NewUpstreamHealth ''grok'')"

lemma opened_at_zero: "uh_state opened_at_zero = CircuitOpen" "uh_openedAt opened_at_zero = 0"
    "uh_halfOpenProbes opened_at_zero = 0"
  by (simp_all add: opened_at_zero_def record_all_def RecordRequest_def NewUpstreamHealth_def
      setCircuitState_def breaker_consts Let_def numeral_eq_Suc)

theorem open_window_witness:
  "fst (CanRequest (60 * second) (snd (run_events [Ev_can 5, Ev_record 7 1 None] opened_at_zero)))"
  using open_window [of opened_at_zero "[Ev_can 5, Ev_record 7 1 None]" "60 * second"]
  by (simp add: opened_at_zero breaker_consts)

text \<open>
  C4: An upstream that stays down wedges the breaker. Once the circuit has left the closed
  state, and as long as no request or health check succeeds, at most two requests are ever
  admitted again (the one that makes it half-open and one probe, though the configured number
  of probes is one): a failed probe neither reopens the circuit nor resets the probe counter,
  so no lapse of time lets another request through.
\<close>

theorem half_open_wedge:
  assumes "uh_state h \<noteq> CircuitClosed" and "0 \<le> uh_halfOpenProbes h" and "list_all failing es"
  shows "count_list (fst (run_events es h)) True \<le> 2 \<and>
         (uh_state h = CircuitHalfOpen \<and> CB_HALF_OPEN_PROBES \<le> uh_halfOpenProbes h \<longrightarrow>
           set (fst (run_events es h)) \<subseteq> {False})"
proof (intro conjI impI)
  have "admissions_left h \<le> 2" by (simp add: admissions_left_def split: CircuitState.split)
  with admissions_run [OF assms(3,1,2)] show "count_list (fst (run_events es h)) True \<le> 2" by simp
  assume "uh_state h = CircuitHalfOpen \<and> CB_HALF_OPEN_PROBES \<le> uh_halfOpenProbes h"
  with wedged_run [OF assms(3)] show "set (fst (run_events es h)) \<subseteq> {False}"
    by (simp add: CB_HALF_OPEN_PROBES_def)
qed

theorem half_open_wedge_witness:
  "fst (run_events [Ev_can (60 * second), Ev_can (61 * second)] opened_at_zero) = [True, True] \<and>
   count_list (fst (run_events [Ev_can (60 * second), Ev_record (62 * second) 1 (Some ''timeout''),
     Ev_can (63 * second), Ev_record (64 * second) 1 (Some ''timeout''), Ev_can (3600 * second),
     Ev_probe (3601 * second) 1 (Probe_status 503), Ev_can (86400 * second)] opened_at_zero)) True \<le> 2"
proof
  show "fst (run_events [Ev_can (60 * second), Ev_can (61 * second)] opened_at_zero) = [True, True]"
    by (simp add: CanRequest_def opened_at_zero breaker_consts time_sub_def)
qed (rule half_open_wedge [THEN conjunct1], simp_all add: opened_at_zero HealthStatusOK_def)

text \<open>The active checks change the circuit without publishing it, so the gauge can be stale.\<close>

lemma probe_leaves_gauge: "uh_gauge (apply_probe now latency outcome h) = uh_gauge h"
  by (simp add: apply_probe_def count_check_error_def Let_def split: probe_outcome.split)

lemma passive_health_publishes:
  "uh_gauge h = (case uh_state h of CircuitClosed \<Rightarrow> 0 | CircuitOpen \<Rightarrow> 1 | CircuitHalfOpen \<Rightarrow> 2) \<Longrightarrow>
   uh_gauge (RecordRequest now latency err h) =
     (case uh_state (RecordRequest now latency err h) of CircuitClosed \<Rightarrow> 0 | CircuitOpen \<Rightarrow> 1 | CircuitHalfOpen \<Rightarrow> 2)"
  by (simp add: RecordRequest_def setCircuitState_def Let_def split: option.split)

end
