(* ===== verification/Upstream.thy ===== *)
theory Upstream
  imports ProxyPool Health
begin

text \<open>
  \<open>internal/upstream/upstream.go\<close>: how an upstream call picks its HTTP client and reports back
  to the proxy pool, and how a model name selects an upstream. The package sees the pool only
  through the interface \<open>ProxyPool\<close>; here that interface is the locale \<open>proxy_pool_api\<close>, what
  the client proves over it is proved in the locale, and the pool of \<open>internal/proxy\<close>, behind
  the adapter of \<open>proxy_adapter.go\<close>, is its interpretation.
\<close>

section \<open>The client of the pool\<close>

text \<open>
  A client is the default one (direct connection) or one over a proxy's transport with the
  default client's timeout. The pool is \<open>None\<close> until \<open>SetProxyPool\<close> registers one.
\<close>

datatype 't client = Direct | Via 't duration

definition getClient ::
  "(string \<Rightarrow> 's \<Rightarrow> 'e option \<times> 's) \<Rightarrow> ('e \<Rightarrow> 's \<Rightarrow> 't option \<times> 's) \<Rightarrow> (string \<Rightarrow> 's \<Rightarrow> 's) \<Rightarrow>
   ('e \<Rightarrow> string) \<Rightarrow> duration \<Rightarrow> string \<Rightarrow> 's option \<Rightarrow> ('t client \<times> string) \<times> 's option" where
  "getClient next transport markFailed ident defaultTimeout upstream pool =
     (case pool of
        None \<Rightarrow> ((Direct, []), None)
      | Some s \<Rightarrow>
        (case next upstream s of
           (None, s1) \<Rightarrow> ((Direct, []), Some s1)
         | (Some entry, s1) \<Rightarrow>
           (case transport entry s1 of
              (None, s2) \<Rightarrow> ((Direct, []), Some (markFailed (ident entry) s2))
            | (Some t, s2) \<Rightarrow>
              (let timeout = (if defaultTimeout > 0 then defaultTimeout else 300 * second)
               in ((Via t timeout, ident entry), Some s2)))))"

definition markProxyResult ::
  "(string \<Rightarrow> 's \<Rightarrow> 's) \<Rightarrow> (string \<Rightarrow> 's \<Rightarrow> 's) \<Rightarrow> string \<Rightarrow> bool \<Rightarrow> int \<Rightarrow> 's option \<Rightarrow> 's option" where
  "markProxyResult markFailed markSuccess proxyID err statusCode pool =
     (if proxyID = [] then pool
      else
        case pool of
          None \<Rightarrow> None
        | Some s \<Rightarrow>
          (if err \<or> statusCode = 502 \<or> statusCode = 503 \<or> statusCode = 504
           then Some (markFailed proxyID s)
           else Some (markSuccess proxyID s)))"

text \<open>
  The interface. Each call has an input \<open>'i\<close> of its environment (what the store and the
  network answer). \<open>serving\<close> says that an entry is one the pool may answer with now, and
  \<open>budget\<close> bounds the failures the pool still absorbs.
\<close>

locale proxy_pool_api =
  fixes nextp :: "'i \<Rightarrow> string \<Rightarrow> 's \<Rightarrow> 'e option \<times> 's"
    and transp :: "'i \<Rightarrow> 'e \<Rightarrow> 's \<Rightarrow> 't option \<times> 's"
    and failed :: "'i \<Rightarrow> string \<Rightarrow> 's \<Rightarrow> 's"
    and success :: "'i \<Rightarrow> string \<Rightarrow> 's \<Rightarrow> 's"
    and ident :: "'e \<Rightarrow> string"
    and invar :: "'s \<Rightarrow> bool"
    and serving :: "'s \<Rightarrow> 'e \<Rightarrow> bool"
    and budget :: "'s \<Rightarrow> nat"
  assumes invar_next: "invar s \<Longrightarrow> invar (snd (nextp x u s))"
    and invar_transp: "invar s \<Longrightarrow> invar (snd (transp x e s))"
    and invar_failed: "invar s \<Longrightarrow> invar (failed x i s)"
    and next_serving: "invar s \<Longrightarrow> nextp x u s = (Some e, s') \<Longrightarrow> serving s' e"
    and transp_serving: "serving s e \<Longrightarrow> serving (snd (transp x e' s)) e"
    and serving_ident: "invar s \<Longrightarrow> serving s e \<Longrightarrow> ident e \<noteq> []"
    and budget_next: "budget (snd (nextp x u s)) = budget s"
    and budget_transp: "budget (snd (transp x e s)) = budget s"
    and budget_failed: "invar s \<Longrightarrow> serving s e \<Longrightarrow> budget (failed x (ident e) s) < budget s"
begin

text \<open>One upstream call over a dead network: the client, and a transport error reported back.\<close>

lemma dead_call:
  assumes "invar s"
    and "getClient (nextp x) (transp x) (failed x) ident tmo u (Some s) = ((cl, pid), s1)"
    and "s2 = markProxyResult (failed x) (success x) pid True 0 s1"
  shows "\<exists>s'. s2 = Some s' \<and> invar s' \<and> budget s' + (if cl = Direct then 0 else 1) \<le> budget s"
proof (cases "nextp x u s")
  case (Pair r a)
  have a: "invar a" "budget a = budget s"
    using invar_next [OF assms(1), of x u] budget_next [of x u s] Pair by simp_all
  show ?thesis
  proof (cases r)
    case None
    with Pair assms(2,3) a show ?thesis by (auto simp: getClient_def markProxyResult_def)
  next
    case (Some e)
    obtain t b where t: "transp x e a = (t, b)" by fastforce
    have sa: "serving a e" using next_serving [OF assms(1)] Pair Some by simp
    have b: "invar b" "budget b = budget s" "serving b e"
      using invar_transp [OF a(1), of x e] budget_transp [of x e a] transp_serving [OF sa, of x e] t a
      by simp_all
    have f: "invar (failed x (ident e) b)" "budget (failed x (ident e) b) < budget s"
      using invar_failed [OF b(1)] budget_failed [OF b(1,3)] b(2) by simp_all
    from serving_ident [OF b(1,3)] f show ?thesis
      using assms(2,3) Pair Some t
      by (cases t) (auto simp: getClient_def markProxyResult_def Let_def)
  qed
qed

lemma dead_calls_bounded:
  assumes "invar s"
  defines "call \<equiv> \<lambda>(x, tmo, u) (n, pool).
      (let ((cl, pid), s1) = getClient (nextp x) (transp x) (failed x) ident tmo u pool
       in (if cl = Direct then n else Suc n, markProxyResult (failed x) (success x) pid True 0 s1))"
  shows "\<exists>s'. snd (fold call xs (n, Some s)) = Some s' \<and> invar s' \<and>
           fst (fold call xs (n, Some s)) + budget s' \<le> n + budget s"
  using assms(1)
proof (induction xs arbitrary: n s)
  case (Cons y xs)
  obtain x tmo u where y: "y = (x, tmo, u)" by (cases y)
  obtain cl pid s1 where g: "getClient (nextp x) (transp x) (failed x) ident tmo u (Some s) = ((cl, pid), s1)"
    by (metis prod.exhaust)
  from dead_call [OF Cons.prems g refl] obtain s' where
    s': "markProxyResult (failed x) (success x) pid True 0 s1 = Some s'" "invar s'"
      "budget s' + (if cl = Direct then 0 else 1) \<le> budget s" by blast
  have "call y (n, Some s) = (if cl = Direct then n else Suc n, Some s')"
    using g s'(1) by (simp add: call_def y)
  with Cons.IH [OF s'(2), of "if cl = Direct then n else Suc n"] s'(3) show ?case
    by (auto split: if_splits)
qed simp

end

section \<open>The adapter and its interpretation\<close>

record upstream_proxy_entry =
  up_ID :: string
  up_Protocol :: string
  up_Host :: string
  up_Port :: int
  up_Username :: string
  up_Password :: string

definition to_upstream_entry :: "proxy_entry \<Rightarrow> upstream_proxy_entry" where
  "to_upstream_entry e =
     \<lparr>up_ID = pe_id e, up_Protocol = pe_protocol e, up_Host = pe_host e, up_Port = pe_port e,
      up_Username = pe_username e, up_Password = pe_password e\<rparr>"

definition from_upstream_entry :: "upstream_proxy_entry \<Rightarrow> proxy_entry" where
  "from_upstream_entry e =
     \<lparr>pe_id = up_ID e, pe_protocol = up_Protocol e, pe_host = up_Host e, pe_port = up_Port e,
      pe_username = up_Username e, pe_password = up_Password e, pe_enabled = False, pe_label = [],
      pe_upstreams = None, pe_created_at = 0, pe_last_used_at = 0, pe_fail_count = 0\<rparr>"

text \<open>What the store and the network answer during one call.\<close>

record call_env =
  ce_counter :: rr_reply
  ce_store :: store_reply
  ce_now :: gotime
  ce_net :: net_env

definition adapter_Next :: "call_env \<Rightarrow> string \<Rightarrow> proxy_pool \<Rightarrow> upstream_proxy_entry option \<times> proxy_pool" where
  "adapter_Next x u p =
     (let (r, p', _) = ProxyPool_Next (ce_counter x) (ce_now x) u p
      in (case r of Inl _ \<Rightarrow> None | Inr e \<Rightarrow> Some (to_upstream_entry e), p'))"

definition adapter_Transport ::
  "call_env \<Rightarrow> upstream_proxy_entry \<Rightarrow> proxy_pool \<Rightarrow> transport option \<times> proxy_pool" where
  "adapter_Transport x e p =
     (let (r, p') = ProxyPool_Transport (ce_net x) (from_upstream_entry e) p
      in (case r of Inl _ \<Rightarrow> None | Inr t \<Rightarrow> Some t, p'))"

definition adapter_MarkFailed :: "call_env \<Rightarrow> string \<Rightarrow> proxy_pool \<Rightarrow> proxy_pool" where
  "adapter_MarkFailed x i p = fst (ProxyPool_MarkFailed (ce_store x) i p)"

definition adapter_MarkSuccess :: "call_env \<Rightarrow> string \<Rightarrow> proxy_pool \<Rightarrow> proxy_pool" where
  "adapter_MarkSuccess x i p = fst (ProxyPool_MarkSuccess (ce_store x) i p)"

text \<open>The adapter loses no field a transport is built from.\<close>

lemma buildTransport_adapter:
  "buildTransport env (from_upstream_entry (to_upstream_entry e)) = buildTransport env e"
proof -
  let ?e = "from_upstream_entry (to_upstream_entry e)"
  have f: "pe_protocol ?e = pe_protocol e" "pe_host ?e = pe_host e" "pe_port ?e = pe_port e"
    "pe_username ?e = pe_username e" "pe_password ?e = pe_password e"
    by (simp_all add: from_upstream_entry_def to_upstream_entry_def)
  show ?thesis by (simp only: buildTransport_def proxyURL_def Let_def f)
qed

definition ids_ok :: "proxy_pool \<Rightarrow> bool" where
  "ids_ok p \<longleftrightarrow> distinct (map pe_id (pp_entries p)) \<and> [] \<notin> pe_id ` set (pp_entries p)"

definition pool_ready :: "proxy_pool \<Rightarrow> bool" where
  "pool_ready p \<longleftrightarrow> pool_inv p \<and> ids_ok p"

definition pool_serving :: "proxy_pool \<Rightarrow> upstream_proxy_entry \<Rightarrow> bool" where
  "pool_serving p e \<longleftrightarrow> (\<exists>e' \<in> set (pp_entries p). pe_id e' = up_ID e \<and> pe_enabled e')"

definition failures_left :: "proxy_entry \<Rightarrow> nat" where
  "failures_left e = (if pe_enabled e then nat (PROXY_FAIL_THRESHOLD - pe_fail_count e) else 0)"

definition pool_budget :: "proxy_pool \<Rightarrow> nat" where
  "pool_budget p = sum_list (map failures_left (pp_entries p))"

lemma Next_entries [simp]: "pp_entries (fst (snd (ProxyPool_Next r now u p))) = pp_entries p"
  by (auto simp: ProxyPool_Next_def Let_def split: prod.split)

lemma Transport_entries [simp]: "pp_entries (snd (ProxyPool_Transport env e p)) = pp_entries p"
  by (auto simp: ProxyPool_Transport_def split: option.split sum.split)

lemma MarkFailed_ids [simp]:
  "map pe_id (pp_entries (fst (ProxyPool_MarkFailed st i p))) = map pe_id (pp_entries p)"
proof -
  have "map pe_id ((pp_entries p)[idx := v]) = map pe_id (pp_entries p)"
    if "find_idx (\<lambda>e. pe_id e = i) (pp_entries p) = Some idx" "pe_id v = pe_id (pp_entries p ! idx)" for idx v
    using find_idx_SomeD [OF that(1)] that(2) by (intro map_update_same) simp_all
  then show ?thesis
    by (auto simp: ProxyPool_MarkFailed_def Let_def simp del: find_idx_None split: option.split)
qed

lemma ids_ok_MarkFailed: "ids_ok p \<Longrightarrow> ids_ok (fst (ProxyPool_MarkFailed st i p))"
  by (metis MarkFailed_ids ids_ok_def list.set_map)

lemma pool_budget_MarkFailed:
  assumes "pool_inv p" and "ids_ok p" and "e \<in> set (pp_entries p)" and "pe_enabled e"
  shows "pool_budget (fst (ProxyPool_MarkFailed st (pe_id e) p)) < pool_budget p"
proof -
  obtain idx where idx: "idx < length (pp_entries p)" "pp_entries p ! idx = e"
    using assms(3) by (auto simp: in_set_conv_nth)
  have "pe_id (pp_entries p ! j) \<noteq> pe_id e" if "j < idx" for j
    using assms(2) idx that nth_eq_iff_index_eq [of "map pe_id (pp_entries p)" j idx]
    by (auto simp: ids_ok_def)
  then have f: "find_idx (\<lambda>x. pe_id x = pe_id e) (pp_entries p) = Some idx"
    using idx by (simp add: find_idx_Some)
  have fc: "pe_fail_count e < PROXY_FAIL_THRESHOLD"
    using pool_inv_bounded [OF assms(1,3)] assms(4) by (simp add: fails_bounded_def)
  have "pe_id e \<noteq> []" using assms(2,3) by (force simp: ids_ok_def)
  moreover have "sum_list ((map failures_left (pp_entries p))[idx := w]) < sum_list (map failures_left (pp_entries p))"
    if "w < failures_left e" for w
  proof -
    have "failures_left e \<le> sum_list (map failures_left (pp_entries p))"
      using idx by (metis elem_le_sum_list length_map nth_map)
    then show ?thesis using idx that by (simp add: sum_list_update)
  qed
  ultimately show ?thesis
    using f idx fc assms(4)
    by (auto simp: ProxyPool_MarkFailed_def Let_def pool_budget_def map_update failures_left_def
        simp del: find_idx_None)
qed

interpretation pool_api: proxy_pool_api
  adapter_Next adapter_Transport adapter_MarkFailed adapter_MarkSuccess up_ID
  pool_ready pool_serving pool_budget
proof
  fix s :: proxy_pool and x :: call_env and u i :: string and e e' :: upstream_proxy_entry and s'
  show "pool_ready s \<Longrightarrow> pool_ready (snd (adapter_Next x u s))"
    by (auto simp: pool_ready_def adapter_Next_def split_beta ids_ok_def pool_inv_Next)
  show "pool_ready s \<Longrightarrow> pool_ready (snd (adapter_Transport x e s))"
    by (auto simp: pool_ready_def adapter_Transport_def split_beta ids_ok_def pool_inv_Transport)
  show "pool_ready s \<Longrightarrow> pool_ready (adapter_MarkFailed x i s)"
    by (simp add: pool_ready_def adapter_MarkFailed_def ids_ok_MarkFailed pool_inv_MarkFailed)
  show "pool_ready s \<Longrightarrow> adapter_Next x u s = (Some e, s') \<Longrightarrow> pool_serving s' e"
  proof -
    assume *: "pool_ready s" "adapter_Next x u s = (Some e, s')"
    then obtain e1 where "fst (ProxyPool_Next (ce_counter x) (ce_now x) u s) = Inr e1"
        and e: "e = to_upstream_entry e1" and s': "s' = fst (snd (ProxyPool_Next (ce_counter x) (ce_now x) u s))"
      by (auto simp: adapter_Next_def split_beta split: sum.splits)
    with Next_from_entries [of s] *(1) obtain e2 where "e2 \<in> set (pp_entries s)"
        "strip_fc e2 = strip_fc e1" "pe_enabled e2"
      unfolding pool_ready_def by blast
    moreover from this have "pe_id e2 = pe_id e1" by (metis strip_fc_simps(1))
    ultimately show "pool_serving s' e"
      by (auto simp: pool_serving_def e s' to_upstream_entry_def)
  qed
  show "pool_serving s e \<Longrightarrow> pool_serving (snd (adapter_Transport x e' s)) e"
    by (simp add: pool_serving_def adapter_Transport_def split_beta)
  show "pool_ready s \<Longrightarrow> pool_serving s e \<Longrightarrow> up_ID e \<noteq> []"
    by (force simp: pool_ready_def pool_serving_def ids_ok_def)
  show "pool_budget (snd (adapter_Next x u s)) = pool_budget s"
    by (simp add: pool_budget_def adapter_Next_def split_beta)
  show "pool_budget (snd (adapter_Transport x e s)) = pool_budget s"
    by (simp add: pool_budget_def adapter_Transport_def split_beta)
  show "pool_ready s \<Longrightarrow> pool_serving s e \<Longrightarrow> pool_budget (adapter_MarkFailed x (up_ID e) s) < pool_budget s"
    unfolding pool_ready_def pool_serving_def adapter_MarkFailed_def
    by (metis pool_budget_MarkFailed)
qed

lemma failures_left_sum:
  "\<forall>e \<in> set es. 0 \<le> pe_fail_count e \<Longrightarrow>
   sum_list (map failures_left es) \<le> 5 * length (filter pe_enabled es)"
  by (induction es) (auto simp: failures_left_def PROXY_FAIL_THRESHOLD_def)

definition dead_call_step ::
  "call_env \<times> duration \<times> string \<Rightarrow> nat \<times> proxy_pool option \<Rightarrow> nat \<times> proxy_pool option" where
  "dead_call_step = (\<lambda>(x, tmo, u) (n, pool).
     (let ((cl, pid), s1) =
        getClient (adapter_Next x) (adapter_Transport x) (adapter_MarkFailed x) up_ID tmo u pool
      in (if cl = Direct then n else Suc n,
          markProxyResult (adapter_MarkFailed x) (adapter_MarkSuccess x) pid True 0 s1)))"

text \<open>
  Dead proxies cost a bounded number of requests. Run any sequence of upstream calls, for
  any upstreams, whose connections all fail and are reported to the pool: whatever the Redis
  counter answers, at most five calls per enabled proxy go through a proxy; every other call
  uses the direct connection.
\<close>

theorem dead_proxies_drain:
  assumes "pool_inv p" and "distinct (map pe_id (pp_entries p))" and "\<forall>e \<in> set (pp_entries p). pe_id e \<noteq> []"
    and "\<forall>e \<in> set (pp_entries p). 0 \<le> pe_fail_count e"
  shows "fst (fold dead_call_step xs (0, Some p)) \<le> 5 * length (filter pe_enabled (pp_entries p))"
proof -
  have "pool_ready p" using assms(1-3) by (auto simp: pool_ready_def ids_ok_def)
  from pool_api.dead_calls_bounded [OF this, of xs 0]
  have "fst (fold dead_call_step xs (0, Some p)) \<le> pool_budget p"
    unfolding dead_call_step_def by auto
  also have "pool_budget p \<le> 5 * length (filter pe_enabled (pp_entries p))"
    using assms(4) unfolding pool_budget_def by (rule failures_left_sum)
  finally show ?thesis .
qed

theorem dead_proxies_drain_witness:
  "fst (fold dead_call_step
     (replicate 100 (\<lparr>ce_counter = Incr_err, ce_store = Store_ok, ce_now = 0,
        ce_net = \<lparr>url_parses = (\<lambda>_. True), socks5_builds = (\<lambda>_. True)\<rparr>\<rparr>, 0, ''grok''))
     (0, Some (demo_pool [''a'', ''b'']))) \<le> 5 * 2"
proof -
  have l: "length (filter pe_enabled (pp_entries (demo_pool [''a'', ''b'']))) = 2"
    by (simp add: demo_pool_def demo_entry_def)
  show ?thesis unfolding l [symmetric]
    by (rule dead_proxies_drain [OF demo_pool_inv]) (simp_all add: demo_pool_def demo_entry_def)
qed

end
