(* ===== verification/ModelNames.thy ===== *)
theory ModelNames
  imports Prelude
begin

text \<open>
  How a model name selects an upstream: the predicates and alias tables of
  \<open>internal/upstream/upstream.go\<close> and \<open>internal/upstream/grok.go\<close>. A Go map with constant
  keys is its association list.
\<close>

definition IsGrokModel :: "string \<Rightarrow> bool" where
  "IsGrokModel model \<longleftrightarrow> has_prefix model ''grok-''"

definition ExpandGrokAlias :: "string \<Rightarrow> string option" where
  "ExpandGrokAlias model =
     (if model = ''grok-4.5-high'' \<or> model = ''grok-4.5-xhigh'' then Some ''high''
      else if model = ''grok-4.5-medium'' then Some ''medium''
      else if model = ''grok-4.5-low'' then Some ''low''
      else if model = ''grok-4.5-auto'' then Some ''auto''
      else if model = ''grok-4.5-none'' then Some ''none''
      else None)"

definition IsCFModel :: "string \<Rightarrow> bool" where
  "IsCFModel model \<longleftrightarrow>
     (if has_prefix model ''cf/'' then True
      else has_prefix model ''@cf/'' \<or> has_prefix model ''@hf/'' \<or> has_prefix model ''llama-'' \<or>
           has_prefix model ''deepseek-'' \<or> has_prefix model ''qwen-'')"

definition CF_MODEL_ALIASES :: "(string \<times> string) list" where
  "CF_MODEL_ALIASES =
     [(''llama-70b'', ''@cf/meta/llama-3.3-70b-instruct-fp8-fast''),
      (''llama-8b'', ''@cf/meta/llama-3.1-8b-instruct-fp8-fast''),
      (''llama-3.1-8b'', ''@cf/meta/llama-3.1-8b-instruct''),
      (''deepseek-r1'', ''@cf/deepseek-ai/deepseek-r1-distill-qwen-32b''),
      (''deepseek-70b'', ''@cf/deepseek-ai/deepseek-r1-distill-qwen-32b''),
      (''qwen-32b'', ''@cf/qwen/qwen2.5-coder-32b-instruct''),
      (''qwen-14b'', ''@cf/qwen/qwen3-30b-a3b-fp8''),
      (''mistral-7b'', ''@cf/mistral/mistral-7b-instruct-v0.1''),
      (''kimi-k2.5'', ''@cf/moonshotai/kimi-k2.5''),
      (''kimi-k2.6'', ''@cf/moonshotai/kimi-k2.6''),
      (''kimi-k2.7-code'', ''@cf/moonshotai/kimi-k2.7-code''),
      (''kimi-k2.7'', ''@cf/moonshotai/kimi-k2.7-code''),
      (''glm-4.7-flash'', ''@cf/zai-org/glm-4.7-flash''),
      (''glm-5.2'', ''@cf/zai-org/glm-5.2''),
      (''gpt-oss-120b'', ''@cf/openai/gpt-oss-120b''),
      (''gpt-oss-20b'', ''@cf/openai/gpt-oss-20b''),
      (''llama-4-scout'', ''@cf/meta/llama-4-scout-17b-16e-instruct''),
      (''gemma-4'', ''@cf/google/gemma-4-26b-a4b-it''),
      (''nemotron-3'', ''@cf/nvidia/nemotron-3-120b-a12b'')]"

definition ExpandCFAlias :: "string \<Rightarrow> string option" where
  "ExpandCFAlias model =
     (if model = [] then None
      else if has_prefix model ''@cf/'' \<or> has_prefix model ''@hf/'' then Some model
      else
        (let key = trim_prefix model ''cf/'' in
         case map_of CF_MODEL_ALIASES key of
           Some m \<Rightarrow> Some m
         | None \<Rightarrow> if str_contains key ''/'' then Some (''@cf/'' @ key) else None))"

text \<open>What every alias stands for is a Workers AI id.\<close>

definition workers_id :: "string \<Rightarrow> bool" where
  "workers_id m \<longleftrightarrow> has_prefix m ''@cf/'' \<or> has_prefix m ''@hf/''"

lemma workers_id_cf [simp]: "workers_id (CHR ''@'' # CHR ''c'' # CHR ''f'' # CHR ''/'' # s)"
  by (simp add: workers_id_def has_prefix_def)

lemma aliases_workers_ids: "list_all (\<lambda>x. workers_id (snd x)) CF_MODEL_ALIASES"
  by code_simp

lemma alias_workers_id: "map_of CF_MODEL_ALIASES k = Some m \<Longrightarrow> workers_id m"
  using aliases_workers_ids by (auto simp: list_all_iff dest!: map_of_SomeD)

lemma workers_id_nonempty: "workers_id m \<Longrightarrow> m \<noteq> []"
  by (auto simp: workers_id_def has_prefix_def)

lemma ExpandCFAlias_workers_id: "workers_id m \<Longrightarrow> ExpandCFAlias m = Some m"
  using workers_id_nonempty by (simp add: ExpandCFAlias_def workers_id_def)

text \<open>
  Cloudflare aliases expand to one canonical form. What \<open>ExpandCFAlias\<close> returns is a
  Workers AI id, which it returns unchanged when asked again and which routes to Cloudflare;
  it refuses exactly the empty name and the names without a slash that are not in the table.
  The prefix \<open>cf/\<close> makes no difference to a short name.
\<close>

theorem cf_alias_canonical:
  "case ExpandCFAlias m of
     Some x \<Rightarrow> (has_prefix x ''@cf/'' \<or> has_prefix x ''@hf/'') \<and> ExpandCFAlias x = Some x \<and> IsCFModel x
   | None \<Rightarrow> m = [] \<or> trim_prefix m ''cf/'' \<notin> fst ` set CF_MODEL_ALIASES \<and>
             \<not> str_contains (trim_prefix m ''cf/'') ''/''"
proof (cases "ExpandCFAlias m")
  case None
  then show ?thesis
    by (auto simp: ExpandCFAlias_def Let_def map_of_eq_None_iff [symmetric]
        split: option.splits if_splits)
next
  case (Some x)
  then have "workers_id x"
    by (auto simp: ExpandCFAlias_def Let_def alias_workers_id workers_id_def has_prefix_def
        dest: alias_workers_id split: option.splits if_splits)
  with Some show ?thesis
    using ExpandCFAlias_workers_id by (auto simp: IsCFModel_def workers_id_def)
qed

lemma cf_prefix_optional:
  "\<forall>m \<in> set (map fst CF_MODEL_ALIASES). ExpandCFAlias (''cf/'' @ m) = ExpandCFAlias m"
  by code_simp

text \<open>Some aliases of the table are names that \<open>IsCFModel\<close> does not route to Cloudflare.\<close>

lemma unrouted_alias: "ExpandCFAlias ''mistral-7b'' \<noteq> None" "\<not> IsCFModel ''mistral-7b''"
  by code_simp+

end
