(* ===== verification/Cost.thy ===== *)
theory Cost
  imports Complex_Main ModelNames "HOL-Library.Multiset"
begin

text \<open>
  The price table of \<open>internal/cost/cost.go\<close>. Go iterates over the table in an order it does
  not define, appends the entries to \<open>lookup\<close> and sorts them by decreasing prefix length with
  an exchange sort; the iteration order is an argument here. Prices and costs (\<open>float64\<close>) are
  exact rationals.
\<close>

record Price =
  In :: rat
  Out :: rat

definition price :: "rat \<Rightarrow> rat \<Rightarrow> Price" where
  "price i out = \<lparr>In = i, Out = out\<rparr>"

definition price_table :: "(string \<times> Price) list" where
  "price_table =
     [(''grok-4.5'', price (3000 / 1000) (15000 / 1000)),
      (''grok-4.1'', price (500 / 1000) (1500 / 1000)),
      (''grok-4'', price (5000 / 1000) (15000 / 1000)),
      (''grok-3'', price (300 / 1000) (750 / 1000)),
      (''grok-3-mini'', price (100 / 1000) (400 / 1000)),
      (''grok-code'', price (500 / 1000) (1500 / 1000)),
      (''grok-2'', price (2000 / 1000) (10000 / 1000)),
      (''cb/'', price (350 / 1000) (1050 / 1000)),
      (''gpt-5'', price (1250 / 1000) (10000 / 1000)),
      (''gpt-4.1'', price (2000 / 1000) (8000 / 1000)),
      (''gpt-4o'', price (2500 / 1000) (10000 / 1000)),
      (''o3'', price (10000 / 1000) (40000 / 1000)),
      (''o4'', price (5000 / 1000) (20000 / 1000)),
      (''gpt-4o-mini'', price (150 / 1000) (600 / 1000)),
      (''claude-opus-4'', price (15000 / 1000) (75000 / 1000)),
      (''claude-sonnet-4'', price (3000 / 1000) (15000 / 1000)),
      (''claude-haiku-4'', price (800 / 1000) (4000 / 1000)),
      (''gemini-2.5-pro'', price (1250 / 1000) (10000 / 1000)),
      (''gemini-2.5-flash'', price (300 / 1000) (2500 / 1000)),
      (''gemini-2.0-flash'', price (100 / 1000) (400 / 1000)),
      (''deepseek-reasoner'', price (550 / 1000) (2190 / 1000)),
      (''deepseek-chat'', price (270 / 1000) (1100 / 1000)),
      (''@cf/meta/llama-3.2-1b-instruct'', price (27 / 1000) (201 / 1000)),
      (''@cf/meta/llama-3.2-3b-instruct'', price (51 / 1000) (335 / 1000)),
      (''@cf/meta/llama-3.1-8b-instruct-fp8-fast'', price (45 / 1000) (384 / 1000)),
      (''@cf/meta/llama-3.2-11b-vision-instruct'', price (49 / 1000) (676 / 1000)),
      (''@cf/meta/llama-3.1-70b-instruct-fp8-fast'', price (293 / 1000) (2253 / 1000)),
      (''@cf/meta/llama-3.3-70b-instruct-fp8-fast'', price (293 / 1000) (2253 / 1000)),
      (''@cf/deepseek-ai/deepseek-r1-distill-qwen-32b'', price (497 / 1000) (4881 / 1000)),
      (''@cf/mistral/mistral-7b-instruct-v0.1'', price (110 / 1000) (190 / 1000)),
      (''@cf/mistralai/mistral-small-3.1-24b-instruct'', price (351 / 1000) (555 / 1000)),
      (''@cf/meta/llama-3.1-8b-instruct-fp8'', price (152 / 1000) (287 / 1000)),
      (''@cf/meta/llama-3.1-8b-instruct-awq'', price (123 / 1000) (266 / 1000)),
      (''@cf/meta/llama-3.1-8b-instruct'', price (282 / 1000) (827 / 1000)),
      (''@cf/meta/llama-3-8b-instruct-awq'', price (123 / 1000) (266 / 1000)),
      (''@cf/meta/llama-3-8b-instruct'', price (282 / 1000) (827 / 1000)),
      (''@cf/meta/llama-2-7b-chat-fp16'', price (556 / 1000) (6667 / 1000)),
      (''@cf/meta/llama-guard-3-8b'', price (484 / 1000) (30 / 1000)),
      (''@cf/meta/llama-4-scout-17b-16e-instruct'', price (270 / 1000) (850 / 1000)),
      (''@cf/google/gemma-3-12b-it'', price (345 / 1000) (556 / 1000)),
      (''@cf/google/gemma-4-26b-a4b-it'', price (100 / 1000) (300 / 1000)),
      (''@cf/qwen/qwq-32b'', price (660 / 1000) (1000 / 1000)),
      (''@cf/qwen/qwen2.5-coder-32b-instruct'', price (660 / 1000) (1000 / 1000)),
      (''@cf/qwen/qwen3-30b-a3b-fp8'', price (51 / 1000) (335 / 1000)),
      (''@cf/openai/gpt-oss-120b'', price (350 / 1000) (750 / 1000)),
      (''@cf/openai/gpt-oss-20b'', price (200 / 1000) (300 / 1000)),
      (''@cf/aisingapore/gemma-sea-lion-v4-27b-it'', price (351 / 1000) (555 / 1000)),
      (''@cf/ibm-granite/granite-4.0-h-micro'', price (17 / 1000) (112 / 1000)),
      (''@cf/zai-org/glm-4.7-flash'', price (60 / 1000) (400 / 1000)),
      (''@cf/zai-org/glm-5.2'', price (1400 / 1000) (4400 / 1000)),
      (''@cf/nvidia/nemotron-3-120b-a12b'', price (500 / 1000) (1500 / 1000)),
      (''@cf/moonshotai/kimi-k2.5'', price (600 / 1000) (3000 / 1000)),
      (''@cf/moonshotai/kimi-k2.6'', price (950 / 1000) (4000 / 1000)),
      (''@cf/moonshotai/kimi-k2.7-code'', price (950 / 1000) (4000 / 1000)),
      (''cf/llama-70b'', price (293 / 1000) (2253 / 1000)),
      (''cf/llama-8b'', price (45 / 1000) (384 / 1000)),
      (''cf/deepseek-r1'', price (497 / 1000) (4881 / 1000)),
      (''cf/kimi-k2.5'', price (600 / 1000) (3000 / 1000)),
      (''cf/kimi-k2.6'', price (950 / 1000) (4000 / 1000)),
      (''cf/kimi-k2.7-code'', price (950 / 1000) (4000 / 1000)),
      (''cf/glm-4.7-flash'', price (60 / 1000) (400 / 1000)),
      (''cf/glm-5.2'', price (1400 / 1000) (4400 / 1000)),
      (''cf/gpt-oss-120b'', price (350 / 1000) (750 / 1000)),
      (''cf/gpt-oss-20b'', price (200 / 1000) (300 / 1000)),
      (''@cf/'', price (0) (0)),
      (''cf/'', price (0) (0)),
      (''combo/'', price (1000 / 1000) (5000 / 1000))]"

text \<open>
  The exchange sort of \<open>ensureBuilt\<close>, loop by loop: the inner loop swaps the elements \<open>i\<close> and
  \<open>j\<close> whenever the later one has the longer prefix.
\<close>

type_synonym lookup = "(string \<times> Price) list"

definition swap :: "nat \<Rightarrow> nat \<Rightarrow> 'a list \<Rightarrow> 'a list" where
  "swap i j xs = xs[i := xs ! j, j := xs ! i]"

function inner_loop :: "('a \<Rightarrow> nat) \<Rightarrow> nat \<Rightarrow> nat \<Rightarrow> 'a list \<Rightarrow> 'a list" where
  "inner_loop key i j xs =
     (if j < length xs
      then inner_loop key i (j + 1) (if key (xs ! j) > key (xs ! i) then swap i j xs else xs)
      else xs)"
  by pat_completeness auto
termination by (relation "measure (\<lambda>(key, i, j, xs). length xs - j)") (auto simp: swap_def)

lemma length_swap [simp]: "length (swap i j xs) = length xs"
  by (simp add: swap_def)

declare inner_loop.simps [simp del]

lemma length_inner_loop [simp]: "length (inner_loop key i j xs) = length xs"
proof (induction key i j xs rule: inner_loop.induct)
  case (1 key i j xs)
  then show ?case by (subst inner_loop.simps) auto
qed

function outer_loop :: "('a \<Rightarrow> nat) \<Rightarrow> nat \<Rightarrow> 'a list \<Rightarrow> 'a list" where
  "outer_loop key i xs =
     (if i < length xs then outer_loop key (i + 1) (inner_loop key i (i + 1) xs) else xs)"
  by pat_completeness auto
termination by (relation "measure (\<lambda>(key, i, xs). length xs - i)") auto

declare outer_loop.simps [simp del]

definition ensureBuilt :: "lookup \<Rightarrow> lookup" where
  "ensureBuilt iteration = outer_loop (\<lambda>e. length (fst e)) 0 iteration"

definition default_price :: Price where "default_price = price 1 5"

definition PriceFor :: "lookup \<Rightarrow> string \<Rightarrow> Price" where
  "PriceFor iteration model =
     (let m = to_lower model in
      case find (\<lambda>e. has_prefix m (fst e)) (ensureBuilt iteration) of
        Some e \<Rightarrow> snd e
      | None \<Rightarrow> default_price)"

definition USD :: "lookup \<Rightarrow> string \<Rightarrow> int \<Rightarrow> int \<Rightarrow> rat" where
  "USD iteration model tokensIn tokensOut =
     (let p = PriceFor iteration model;
          i = of_int tokensIn / 1000000 * In p;
          out = of_int tokensOut / 1000000 * Out p
      in i + out)"

definition CFNeuronRate :: rat where "CFNeuronRate = 11 / 1000"

definition USDNeurons :: "rat \<Rightarrow> rat" where
  "USDNeurons neurons = neurons / 1000000 * CFNeuronRate"

section \<open>The sort\<close>

lemma mset_swap [simp]: "i < length xs \<Longrightarrow> j < length xs \<Longrightarrow> mset (swap i j xs) = mset xs"
  by (simp add: swap_def Multiset.mset_swap)

lemma mset_inner_loop [simp]: "i < length xs \<Longrightarrow> mset (inner_loop key i j xs) = mset xs"
proof (induction key i j xs rule: inner_loop.induct)
  case (1 key i j xs)
  then show ?case by (subst inner_loop.simps) auto
qed

lemma mset_outer_loop [simp]: "mset (outer_loop key i xs) = mset xs"
proof (induction key i xs rule: outer_loop.induct)
  case (1 key i xs)
  then show ?case by (subst outer_loop.simps) auto
qed

text \<open>The inner loop leaves the elements before \<open>i\<close> and puts the largest of the rest at \<open>i\<close>.\<close>

lemma take_inner_loop: "i < j \<Longrightarrow> take i (inner_loop key i j xs) = take i xs"
proof (induction key i j xs rule: inner_loop.induct)
  case (1 key i j xs)
  then show ?case by (subst inner_loop.simps) (auto simp: swap_def)
qed

lemma set_drop_inner_loop:
  assumes "i < j" "i < length xs"
  shows "set (drop i (inner_loop key i j xs)) = set (drop i xs)"
proof -
  have "mset (take i xs) + mset (drop i (inner_loop key i j xs)) = mset (take i xs) + mset (drop i xs)"
    using mset_inner_loop [OF assms(2), of key j] take_inner_loop [OF assms(1), of key xs]
    by (metis append_take_drop_id mset_append)
  then show ?thesis by (metis add_left_cancel mset_eq_setD)
qed

lemma inner_loop_max:
  assumes "i < j" "i < length xs" "\<And>k. i \<le> k \<Longrightarrow> k < j \<Longrightarrow> k < length xs \<Longrightarrow> key (xs ! k) \<le> key (xs ! i)"
    and "i \<le> k" "k < length xs"
  shows "key (inner_loop key i j xs ! k) \<le> key (inner_loop key i j xs ! i)"
  using assms
proof (induction key i j xs rule: inner_loop.induct)
  case (1 key i j xs)
  show ?case
  proof (cases "j < length xs")
    case True
    let ?ys = "if key (xs ! j) > key (xs ! i) then swap i j xs else xs"
    have "key (?ys ! k') \<le> key (?ys ! i)" if "i \<le> k'" "k' < j + 1" "k' < length ?ys" for k'
    proof (cases "k' = i \<or> k' = j")
      case True
      with "1.prems"(1,2) \<open>j < length xs\<close> show ?thesis
        by (cases "key (xs ! j) > key (xs ! i)") (auto simp: swap_def nth_list_update not_less)
    next
      case False
      have "k' < length xs" using that(3) by (simp split: if_splits)
      with False have "key (xs ! k') \<le> key (xs ! i)" using "1.prems"(3) [of k'] that by simp
      with False "1.prems"(1,2) \<open>j < length xs\<close> show ?thesis by (auto simp: swap_def nth_list_update)
    qed
    with "1.IH" [OF True] "1.prems" True show ?thesis
      by (subst (1 2) inner_loop.simps) (simp add: swap_def)
  next
    case False
    with "1.prems" show ?thesis by (subst (1 2) inner_loop.simps) simp
  qed
qed

definition sorted_upto :: "('a \<Rightarrow> nat) \<Rightarrow> nat \<Rightarrow> 'a list \<Rightarrow> bool" where
  "sorted_upto key i xs \<longleftrightarrow>
     sorted_wrt (\<lambda>x y. key y \<le> key x) (take i xs) \<and>
     (\<forall>x \<in> set (take i xs). \<forall>y \<in> set (drop i xs). key y \<le> key x)"

lemma sorted_upto_step:
  assumes "sorted_upto key i xs" and "i < length xs"
  shows "sorted_upto key (i + 1) (inner_loop key i (i + 1) xs)"
proof -
  let ?ys = "inner_loop key i (i + 1) xs"
  have t: "take i ?ys = take i xs" and d: "set (drop i ?ys) = set (drop i xs)"
    using assms(2) by (simp_all add: take_inner_loop set_drop_inner_loop)
  have "key (?ys ! k) \<le> key (?ys ! i)" if "i \<le> k" "k < length xs" for k
    using inner_loop_max [of i "i + 1" xs key k] assms(2) that by (auto simp: less_Suc_eq_le le_antisym)
  then have max: "\<forall>y \<in> set (drop i ?ys). key y \<le> key (?ys ! i)"
    by (auto simp: in_set_conv_nth)
  have split: "take (i + 1) ?ys = take i xs @ [?ys ! i]" and "drop i ?ys = ?ys ! i # drop (i + 1) ?ys"
    using assms(2) t by (simp_all add: take_Suc_conv_app_nth Cons_nth_drop_Suc)
  then have "?ys ! i \<in> set (drop i xs)" "set (drop (i + 1) ?ys) \<subseteq> set (drop i xs)"
    using d by (metis list.set_intros(1), metis d set_subset_Cons)
  with assms(1) max show ?thesis
    unfolding sorted_upto_def split \<open>drop i ?ys = _\<close> [symmetric]
    by (auto simp: sorted_wrt_append dest: in_set_dropD) (use \<open>drop i ?ys = _\<close> in auto)
qed

lemma outer_loop_sorted:
  "sorted_upto key i xs \<Longrightarrow> sorted_wrt (\<lambda>x y. key y \<le> key x) (outer_loop key i xs)"
proof (induction key i xs rule: outer_loop.induct)
  case (1 key i xs)
  then show ?case
    using sorted_upto_step [of key i xs] by (subst outer_loop.simps) (auto simp: sorted_upto_def)
qed

lemma ensureBuilt_sorted: "sorted_wrt (\<lambda>x y. length (fst y) \<le> length (fst x)) (ensureBuilt iteration)"
  unfolding ensureBuilt_def by (rule outer_loop_sorted) (simp add: sorted_upto_def)

lemma set_ensureBuilt: "set (ensureBuilt iteration) = set iteration"
  unfolding ensureBuilt_def by (metis mset_eq_setD mset_outer_loop)

section \<open>Properties\<close>

lemma price_table_keys: "distinct (map fst price_table)"
  by code_simp

lemma find_longest:
  assumes "sorted_wrt (\<lambda>x y. length (fst y) \<le> length (fst x)) es" and "find P es = Some e"
    and "e' \<in> set es" and "P e'"
  shows "length (fst e') \<le> length (fst e)"
  using assms by (induction es) (auto split: if_splits)

text \<open>The entry a lookup finds, as a relation that mentions no order.\<close>

definition longest_match :: "lookup \<Rightarrow> string \<Rightarrow> string \<times> Price \<Rightarrow> bool" where
  "longest_match table m e \<longleftrightarrow>
     e \<in> set table \<and> has_prefix m (fst e) \<and>
     (\<forall>e' \<in> set table. has_prefix m (fst e') \<longrightarrow> length (fst e') \<le> length (fst e))"

lemma longest_match_unique:
  assumes "distinct (map fst table)" and "longest_match table m e" and "longest_match table m e'"
  shows "e = e'"
proof -
  have "length (fst e) = length (fst e')" using assms(2,3) by (auto simp: longest_match_def le_antisym)
  then have "fst e = fst e'" using assms(2,3) by (metis has_prefix_unique longest_match_def)
  with assms show ?thesis by (metis eq_key_imp_eq_value longest_match_def prod.collapse)
qed

lemma PriceFor_longest_match:
  assumes "find (\<lambda>e. has_prefix (to_lower model) (fst e)) (ensureBuilt iteration) = Some e"
  shows "longest_match iteration (to_lower model) e"
proof -
  have "e \<in> set iteration \<and> has_prefix (to_lower model) (fst e)"
    using assms unfolding set_ensureBuilt [of iteration, symmetric] by (auto simp: find_Some_iff)
  moreover have "length (fst e') \<le> length (fst e)" if "e' \<in> set iteration" "has_prefix (to_lower model) (fst e')" for e'
    using find_longest [OF ensureBuilt_sorted assms] that by (simp add: set_ensureBuilt)
  ultimately show ?thesis by (simp add: longest_match_def)
qed

text \<open>
  The price of a model is the one of the longest prefix in the table that its lower-cased
  name starts with, and one dollar in and five out per million tokens if there is none. This
  holds for every order in which Go may iterate over the table, so the price does not depend
  on that order.
\<close>

theorem price_of_longest_prefix:
  assumes "mset iteration = mset price_table"
  shows "(if \<exists>e \<in> set price_table. has_prefix (to_lower model) (fst e)
          then \<exists>e. longest_match price_table (to_lower model) e \<and> PriceFor iteration model = snd e
          else PriceFor iteration model = \<lparr>In = 1, Out = 5\<rparr>) \<and>
         PriceFor iteration model = PriceFor price_table model"
proof (rule conjI)
  have set: "set iteration = set price_table" using assms by (rule mset_eq_setD)
  have "(\<exists>e \<in> set price_table. has_prefix (to_lower model) (fst e)) \<longleftrightarrow>
      find (\<lambda>e. has_prefix (to_lower model) (fst e)) (ensureBuilt it) \<noteq> None"
    if "set it = set price_table" for it
    using that by (force simp: find_None_iff set_ensureBuilt)
  note found = this [OF set] this [OF refl]
  have match: "longest_match price_table (to_lower model) e"
    if "find (\<lambda>e. has_prefix (to_lower model) (fst e)) (ensureBuilt it) = Some e" "set it = set price_table" for it e
    using PriceFor_longest_match [OF that(1)] that(2) by (simp add: longest_match_def)
  show "if \<exists>e \<in> set price_table. has_prefix (to_lower model) (fst e)
         then \<exists>e. longest_match price_table (to_lower model) e \<and> PriceFor iteration model = snd e
         else PriceFor iteration model = \<lparr>In = 1, Out = 5\<rparr>"
    using found(1) match [OF _ set]
    by (auto simp: PriceFor_def Let_def default_price_def price_def split: option.split)
  show "PriceFor iteration model = PriceFor price_table model"
    using found match [OF _ set] match [OF _ refl] longest_match_unique [OF price_table_keys]
    unfolding PriceFor_def Let_def
    by (cases "find (\<lambda>e. has_prefix (to_lower model) (fst e)) (ensureBuilt iteration)";
        cases "find (\<lambda>e. has_prefix (to_lower model) (fst e)) (ensureBuilt price_table)") (simp; blast)+
qed

lemma grok_4_5_longest: "longest_match price_table (to_lower ''GROK-4.5-high'') (''grok-4.5'', price 3 15)"
proof -
  have "(''grok-4.5'', price (3000 / 1000) (15000 / 1000)) \<in> set price_table"
    by (simp add: price_table_def)
  moreover have "list_all (\<lambda>e. has_prefix (to_lower ''GROK-4.5-high'') (fst e) \<longrightarrow> length (fst e) \<le> 8) price_table"
    by code_simp
  moreover have "has_prefix (to_lower ''GROK-4.5-high'') ''grok-4.5''" by code_simp
  ultimately show ?thesis by (auto simp: longest_match_def list_all_iff)
qed

theorem price_of_longest_prefix_witness:
  "PriceFor (rev price_table) ''GROK-4.5-high'' = \<lparr>In = 3, Out = 15\<rparr>"
proof -
  have "mset (rev price_table) = mset price_table" by simp
  note price_of_longest_prefix [OF this, of "''GROK-4.5-high''", THEN conjunct1]
  moreover have "\<exists>e \<in> set price_table. has_prefix (to_lower ''GROK-4.5-high'') (fst e)"
    using grok_4_5_longest unfolding longest_match_def by blast
  ultimately obtain e where "longest_match price_table (to_lower ''GROK-4.5-high'') e"
      and "PriceFor (rev price_table) ''GROK-4.5-high'' = snd e"
    by (simp only: if_True) blast
  with longest_match_unique [OF price_table_keys grok_4_5_longest] show ?thesis
    by (metis price_def snd_conv)
qed

end
