(* ===== verification/Registry.thy ===== *)
theory Registry
  imports Prelude
begin

text \<open>
  What the two runtime registries of \<open>internal/proxy\<close> (custom models and aliases, combos)
  share: the names they accept (\<open>validate.go\<close>) and the discipline of writing to Redis first
  and to the in-memory cache only when that worked, as the locale \<open>write_through\<close>.
\<close>

section \<open>Names\<close>

datatype registry_error =
    Name_required string
  | Name_too_long string
  | Name_dotdot string
  | Name_bad_chars string
  | Upstream_unknown
  | Alias_to_itself
  | Combo_prefix
  | Strategy_unknown
  | Combo_too_long nat
  | Combo_no_models
  | Registry_store string

definition name_char :: "char \<Rightarrow> bool" where
  "name_char c =
     (let n = (of_char c :: nat) in
      65 \<le> n \<and> n \<le> 90 \<or> 97 \<le> n \<and> n \<le> 122 \<or> 48 \<le> n \<and> n \<le> 57 \<or>
      c \<in> {CHR ''.'', CHR ''_'', CHR ''/'', CHR ''-''})"

definition validNameRegex :: "string \<Rightarrow> bool" where
  "validNameRegex name \<longleftrightarrow> 1 \<le> length name \<and> length name \<le> 64 \<and> list_all name_char name"

definition validateName :: "string \<Rightarrow> string \<Rightarrow> registry_error option" where
  "validateName name field =
     (if name = [] then Some (Name_required field)
      else if length name > 64 then Some (Name_too_long field)
      else if str_contains name ''..'' then Some (Name_dotdot field)
      else if \<not> validNameRegex name then Some (Name_bad_chars field)
      else None)"

text \<open>A valid name is short, made of the allowed bytes and climbs no directory.\<close>

definition safe_name :: "string \<Rightarrow> bool" where
  "safe_name name \<longleftrightarrow>
     name \<noteq> [] \<and> length name \<le> 64 \<and> (\<forall>c \<in> set name. name_char c) \<and> \<not> str_contains name ''..''"

lemma validateName_None [simp]: "validateName name field = None \<longleftrightarrow> safe_name name"
  by (auto simp: validateName_def validNameRegex_def safe_name_def list_all_iff Suc_le_eq)

lemma validateName_safe [simp]: "safe_name name \<Longrightarrow> validateName name field = None"
  by simp

section \<open>Write-through caches\<close>

text \<open>The end of every mutation: one write to the store if there is one, then the cache.\<close>

definition write_then ::
  "store_reply \<Rightarrow> 'c \<Rightarrow> 's \<Rightarrow> 's \<Rightarrow> registry_error option \<times> 's \<times> 'c list" where
  "write_then st c old new =
     (case st of
        No_store \<Rightarrow> (None, new, [])
      | Store_err m \<Rightarrow> (Some (Registry_store m), old, [c])
      | Store_ok \<Rightarrow> (None, new, [c]))"

lemma write_then_snd:
  "snd (write_then st c old new) =
     (case st of No_store \<Rightarrow> (new, []) | Store_err m \<Rightarrow> (old, [c]) | Store_ok \<Rightarrow> (new, [c]))"
  by (simp add: write_then_def split: store_reply.split)

text \<open>
  \<open>step x r s\<close> runs the operation \<open>x\<close> when the store answers \<open>r\<close> to the write it makes, and
  returns the new registry and the writes made; \<open>effect\<close> is a write's effect on the stored map.
\<close>

locale write_through =
  fixes view :: "'s \<Rightarrow> 'k \<Rightarrow> 'v option"
    and step :: "'op \<Rightarrow> store_reply \<Rightarrow> 's \<Rightarrow> 's \<times> 'c list"
    and effect :: "'c \<Rightarrow> ('k \<Rightarrow> 'v option) \<Rightarrow> 'k \<Rightarrow> 'v option"
  assumes refused: "r \<noteq> No_store \<Longrightarrow> snd (step x r s) = [] \<Longrightarrow> view (fst (step x r s)) = view s"
    and failed: "view (fst (step x (Store_err m) s)) = view s"
    and written: "snd (step x Store_ok s) = [c] \<Longrightarrow> view (fst (step x Store_ok s)) = effect c (view s)"
    and one_write: "length (snd (step x r s)) \<le> 1"
begin

definition serve :: "'op \<times> store_reply \<Rightarrow> 's \<times> ('k \<Rightarrow> 'v option) \<Rightarrow> 's \<times> ('k \<Rightarrow> 'v option)" where
  "serve = (\<lambda>(x, r) (s, db).
     (let (s', cs) = step x r s in (s', if r = Store_ok then fold effect cs db else db)))"

lemma serve_agrees:
  assumes "view s = db" and "r \<noteq> No_store"
  shows "view (fst (serve (x, r) (s, db))) = snd (serve (x, r) (s, db))"
proof -
  obtain s' cs where sc: "step x r s = (s', cs)" by fastforce
  consider "cs = []" | c where "cs = [c]"
    using one_write [of x r s] sc by (cases cs) auto
  then show ?thesis
  proof cases
    case 1
    then show ?thesis using refused [OF assms(2), of x s] sc assms(1) by (simp add: serve_def)
  next
    case 2
    then show ?thesis
      using written [of x s c] failed [of x _ s] sc assms
      by (cases r) (auto simp: serve_def, metis fst_conv)
  qed
qed

lemma history_agrees:
  "view s = db \<Longrightarrow> \<forall>(x, r) \<in> set ops. r \<noteq> No_store \<Longrightarrow>
   view (fst (fold serve ops (s, db))) = snd (fold serve ops (s, db))"
proof (induction ops arbitrary: s db)
  case (Cons op ops)
  obtain x r where op: "op = (x, r)" by (cases op)
  obtain s' db' where step: "serve (x, r) (s, db) = (s', db')" by fastforce
  have "r \<noteq> No_store" using Cons.prems(2) op by simp
  then have "view s' = db'" using serve_agrees [of s db r x] Cons.prems(1) step by simp
  with Cons.IH [of s' db'] Cons.prems(2) show ?case by (simp add: op step)
qed simp

end

end
