(* ===== verification/Custom.thy ===== *)
theory Custom
  imports Registry
begin

text \<open>
  The custom models and aliases of \<open>internal/proxy/custom.go\<close>: a cache of two maps in front of
  Redis. Operations return the error, the new registry and the writes they make.
\<close>

record custom_model =
  cm_upstream :: string
  cm_model_name :: string
  cm_owned_by :: string
  cm_capabilities :: "string list option"

record custom_registry =
  cr_models :: "string \<Rightarrow> custom_model option"
  cr_aliases :: "string \<Rightarrow> string option"

definition NewCustomRegistry :: custom_registry where
  "NewCustomRegistry = \<lparr>cr_models = (\<lambda>_. None), cr_aliases = (\<lambda>_. None)\<rparr>"

datatype custom_call =
    Save_model string custom_model
  | Delete_model string
  | Save_alias string string
  | Delete_alias string

text \<open>What loading the two hashes gave: \<open>None\<close> is a registry without a store.\<close>

definition CustomRegistry_Load ::
  "(string + (string \<Rightarrow> custom_model option)) option \<Rightarrow> string + (string \<Rightarrow> string option) \<Rightarrow>
   custom_registry \<Rightarrow> registry_error option \<times> custom_registry" where
  "CustomRegistry_Load models aliases r =
     (case models of
        None \<Rightarrow> (None, r)
      | Some (Inl err) \<Rightarrow> (Some (Registry_store err), r)
      | Some (Inr ms) \<Rightarrow>
        (case aliases of
           Inl err \<Rightarrow> (Some (Registry_store err), r)
         | Inr as \<Rightarrow> (None, r\<lparr>cr_models := ms, cr_aliases := as\<rparr>)))"

definition CustomRegistry_Resolve :: "string \<Rightarrow> custom_registry \<Rightarrow> string \<times> string \<times> string" where
  "CustomRegistry_Resolve model r =
     (let resolvedModel = (case cr_aliases r model of
            Some target \<Rightarrow> if target \<noteq> [] then target else model
          | None \<Rightarrow> model)
      in case cr_models r resolvedModel of
           Some cm \<Rightarrow> (resolvedModel, cm_upstream cm, cm_model_name cm)
         | None \<Rightarrow> (resolvedModel, [], []))"

definition complete_model :: "string \<Rightarrow> custom_model \<Rightarrow> custom_model" where
  "complete_model i cm0 =
     (let cm = (if cm_model_name cm0 = [] then
                  cm0\<lparr>cm_model_name :=
                    (if cm_upstream cm0 = ''codebuddy'' then trim_prefix i ''cb/''
                     else if cm_upstream cm0 = ''cloudflare'' then trim_prefix (trim_prefix i ''cf/'') ''@''
                     else i)\<rparr>
                else cm0)
      in if cm_owned_by cm = [] then cm\<lparr>cm_owned_by := cm_upstream cm\<rparr> else cm)"

definition CustomRegistry_AddModel ::
  "store_reply \<Rightarrow> string \<Rightarrow> custom_model \<Rightarrow> custom_registry \<Rightarrow>
   registry_error option \<times> custom_registry \<times> custom_call list" where
  "CustomRegistry_AddModel st id0 cm0 r =
     (let i = trim_space id0;
          cm = cm0\<lparr>cm_upstream := trim_space (cm_upstream cm0), cm_model_name := trim_space (cm_model_name cm0),
                   cm_owned_by := trim_space (cm_owned_by cm0)\<rparr>
      in case validateName i ''id'' of
           Some err \<Rightarrow> (Some err, r, [])
         | None \<Rightarrow>
           if cm_upstream cm \<notin> {''codebuddy'', ''grok'', ''cloudflare''} then (Some Upstream_unknown, r, [])
           else
             let cm' = complete_model i cm
             in write_then st (Save_model i cm') r (r\<lparr>cr_models := (cr_models r)(i \<mapsto> cm')\<rparr>))"

definition CustomRegistry_DeleteModel ::
  "store_reply \<Rightarrow> string \<Rightarrow> custom_registry \<Rightarrow> registry_error option \<times> custom_registry \<times> custom_call list" where
  "CustomRegistry_DeleteModel st i r =
     write_then st (Delete_model i) r (r\<lparr>cr_models := (cr_models r)(i := None)\<rparr>)"

definition CustomRegistry_AddAlias ::
  "store_reply \<Rightarrow> string \<Rightarrow> string \<Rightarrow> custom_registry \<Rightarrow>
   registry_error option \<times> custom_registry \<times> custom_call list" where
  "CustomRegistry_AddAlias st alias0 target0 r =
     (let alias = trim_space alias0; target = trim_space target0 in
      case validateName alias ''alias'' of
        Some err \<Rightarrow> (Some err, r, [])
      | None \<Rightarrow>
        case validateName target ''target'' of
          Some err \<Rightarrow> (Some err, r, [])
        | None \<Rightarrow>
          if alias = target then (Some Alias_to_itself, r, [])
          else write_then st (Save_alias alias target) r (r\<lparr>cr_aliases := (cr_aliases r)(alias \<mapsto> target)\<rparr>))"

definition CustomRegistry_DeleteAlias ::
  "store_reply \<Rightarrow> string \<Rightarrow> custom_registry \<Rightarrow> registry_error option \<times> custom_registry \<times> custom_call list" where
  "CustomRegistry_DeleteAlias st alias r =
     write_then st (Delete_alias alias) r (r\<lparr>cr_aliases := (cr_aliases r)(alias := None)\<rparr>)"

text \<open>The owner \<open>ListModels\<close> shows for an entry.\<close>

definition list_owner :: "custom_model \<Rightarrow> string" where
  "list_owner cm = (if cm_owned_by cm = [] then cm_upstream cm else cm_owned_by cm)"

section \<open>Histories\<close>

datatype custom_op =
    Op_add_model string custom_model
  | Op_delete_model string
  | Op_add_alias string string
  | Op_delete_alias string

fun custom_step :: "custom_op \<Rightarrow> store_reply \<Rightarrow> custom_registry \<Rightarrow> custom_registry \<times> custom_call list" where
  "custom_step (Op_add_model i cm) st r = snd (CustomRegistry_AddModel st i cm r)"
| "custom_step (Op_delete_model i) st r = snd (CustomRegistry_DeleteModel st i r)"
| "custom_step (Op_add_alias a t) st r = snd (CustomRegistry_AddAlias st a t r)"
| "custom_step (Op_delete_alias a) st r = snd (CustomRegistry_DeleteAlias st a r)"

lemmas custom_ops = CustomRegistry_AddModel_def CustomRegistry_DeleteModel_def
  CustomRegistry_AddAlias_def CustomRegistry_DeleteAlias_def

text \<open>The two hashes seen as one map: a key is a model id or an alias.\<close>

datatype custom_value = Model_value custom_model | Alias_value string

definition custom_view :: "custom_registry \<Rightarrow> string + string \<Rightarrow> custom_value option" where
  "custom_view r k =
     (case k of
        Inl i \<Rightarrow> map_option Model_value (cr_models r i)
      | Inr a \<Rightarrow> map_option Alias_value (cr_aliases r a))"

fun custom_write ::
  "custom_call \<Rightarrow> (string + string \<Rightarrow> custom_value option) \<Rightarrow> string + string \<Rightarrow> custom_value option" where
  "custom_write (Save_model i cm) db = db(Inl i \<mapsto> Model_value cm)"
| "custom_write (Delete_model i) db = db(Inl i := None)"
| "custom_write (Save_alias a t) db = db(Inr a \<mapsto> Alias_value t)"
| "custom_write (Delete_alias a) db = db(Inr a := None)"

text \<open>
  Every operation either refuses, leaving the registry alone and writing nothing, or ends in
  one write-through step whose effect on the cache is that of the write.
\<close>

definition write_through_result ::
  "store_reply \<Rightarrow> custom_registry \<Rightarrow> custom_registry \<times> custom_call list \<Rightarrow> bool" where
  "write_through_result st r res \<longleftrightarrow>
     res = (r, []) \<or>
     (\<exists>c new. res = snd (write_then st c r new) \<and> custom_view new = custom_write c (custom_view r))"

lemma result_write:
  "custom_view new = custom_write c (custom_view r) \<Longrightarrow> write_through_result st r (snd (write_then st c r new))"
  by (auto simp: write_through_result_def)

lemma result_refuse: "write_through_result st r (r, [])"
  by (simp add: write_through_result_def)

lemma custom_view_update:
  "custom_view (r\<lparr>cr_models := (cr_models r)(i := v)\<rparr>) = (custom_view r)(Inl i := map_option Model_value v)"
  "custom_view (r\<lparr>cr_aliases := (cr_aliases r)(a := w)\<rparr>) = (custom_view r)(Inr a := map_option Alias_value w)"
  by (auto simp: custom_view_def fun_eq_iff split: sum.split)

lemma custom_step_result: "write_through_result st r (custom_step x st r)"
  by (cases x)
     (auto simp: custom_ops Let_def custom_view_update result_refuse simp del: validateName_None
       intro!: result_write split: option.split)

interpretation custom_cache: write_through custom_view custom_step custom_write
proof
  fix x st r m c
  note res = custom_step_result [of _ r x, unfolded write_through_result_def]
  show "st \<noteq> No_store \<Longrightarrow> snd (custom_step x st r) = [] \<Longrightarrow> custom_view (fst (custom_step x st r)) = custom_view r"
    using res [of st] by (cases st) (auto simp: write_then_snd)
  show "custom_view (fst (custom_step x (Store_err m) r)) = custom_view r"
    using res [of "Store_err m"] by (auto simp: write_then_snd)
  show "snd (custom_step x Store_ok r) = [c] \<Longrightarrow>
      custom_view (fst (custom_step x Store_ok r)) = custom_write c (custom_view r)"
    using res [of Store_ok] by (auto simp: write_then_snd)
  show "length (snd (custom_step x st r)) \<le> 1"
    using res [of st] by (cases st) (auto simp: write_then_snd)
qed

section \<open>Aliases\<close>

text \<open>What every history keeps: alias names and targets are safe names, and no alias names itself.\<close>

definition aliases_ok :: "custom_registry \<Rightarrow> bool" where
  "aliases_ok r \<longleftrightarrow>
     (\<forall>a t. cr_aliases r a = Some t \<longrightarrow> safe_name a \<and> safe_name t \<and> a \<noteq> t)"

lemma aliases_ok_step: "aliases_ok r \<Longrightarrow> aliases_ok (fst (custom_step x st r))"
  by (cases x) (auto simp: aliases_ok_def custom_ops Let_def write_then_def split: store_reply.splits option.splits)

lemma aliases_ok_history: "aliases_ok r \<Longrightarrow> aliases_ok (fold (\<lambda>(x, st) r. fst (custom_step x st r)) ops r)"
  by (induction ops arbitrary: r) (auto simp: aliases_ok_step)

lemma Resolve_simps:
  "fst (CustomRegistry_Resolve m r) =
     (case cr_aliases r m of Some t \<Rightarrow> if t \<noteq> [] then t else m | None \<Rightarrow> m)"
  by (simp add: CustomRegistry_Resolve_def Let_def split: option.split)

section \<open>Properties\<close>

text \<open>One operation served: the registry, and the two hashes of the store as one map.\<close>

definition custom_serve ::
  "custom_op \<times> store_reply \<Rightarrow> custom_registry \<times> (string + string \<Rightarrow> custom_value option) \<Rightarrow>
   custom_registry \<times> (string + string \<Rightarrow> custom_value option)" where
  "custom_serve = (\<lambda>(x, st) (r, db).
     (let (r', cs) = custom_step x st r in (r', if st = Store_ok then fold custom_write cs db else db)))"

text \<open>
  The cache of custom models and aliases never diverges from Redis. Serve any sequence of
  additions and deletions, valid or refused, over a store that accepts or fails each write:
  the registry always holds exactly what the two hashes hold, so a failed write is never
  visible in memory and an accepted one always is.
\<close>

theorem custom_cache_agrees:
  assumes "\<forall>(x, st) \<in> set ops. st \<noteq> No_store"
  shows "custom_view (fst (fold custom_serve ops (NewCustomRegistry, \<lambda>_. None))) =
         snd (fold custom_serve ops (NewCustomRegistry, \<lambda>_. None))"
proof -
  have eq: "custom_serve = custom_cache.serve"
    by (simp add: custom_serve_def custom_cache.serve_def)
  have "custom_view NewCustomRegistry = (\<lambda>_. None)"
    by (auto simp: custom_view_def NewCustomRegistry_def fun_eq_iff split: sum.split)
  then show ?thesis unfolding eq by (rule custom_cache.history_agrees [OF _ assms])
qed

lemma custom_demo:
  "fold custom_serve
     [(Op_add_alias '' my-claude '' ''cb/claude'', Store_ok), (Op_add_alias ''a'' ''b'', Store_err ''down''),
      (Op_add_alias ''x y'' ''b'', Store_ok)] (NewCustomRegistry, \<lambda>_. None) =
   (NewCustomRegistry\<lparr>cr_aliases := [''my-claude'' \<mapsto> ''cb/claude'']\<rparr>, [Inr ''my-claude'' \<mapsto> Alias_value ''cb/claude''])"
proof -
  have t: "trim_space '' my-claude '' = ''my-claude''" "trim_space ''cb/claude'' = ''cb/claude''"
    "trim_space ''a'' = ''a''" "trim_space ''b'' = ''b''" "trim_space ''x y'' = ''x y''"
    by code_simp+
  have v: "safe_name ''my-claude''" "safe_name ''cb/claude''" "safe_name ''a''" "safe_name ''b''" "\<not> safe_name ''x y''"
    by code_simp+
  then obtain err where err: "validateName ''x y'' ''alias'' = Some err"
    by (metis not_None_eq validateName_None)
  show ?thesis
    by (simp add: custom_serve_def CustomRegistry_AddAlias_def write_then_def Let_def t v err NewCustomRegistry_def
        del: validateName_None)
qed

theorem custom_cache_agrees_witness:
  "custom_view (NewCustomRegistry\<lparr>cr_aliases := [''my-claude'' \<mapsto> ''cb/claude'']\<rparr>) =
     [Inr ''my-claude'' \<mapsto> Alias_value ''cb/claude'']"
  using custom_cache_agrees [of "[(Op_add_alias '' my-claude '' ''cb/claude'', Store_ok),
      (Op_add_alias ''a'' ''b'', Store_err ''down''), (Op_add_alias ''x y'' ''b'', Store_ok)]"]
  unfolding custom_demo by simp

end
