(* ===== verification/Combo.thy ===== *)
theory Combo
  imports Registry Health Cost
begin

text \<open>
  The combos of \<open>internal/proxy/combo.go\<close>: named lists of models with a routing strategy. The
  health checker, the price table and what Redis answers to an increment are arguments; the
  two process-wide counter maps are state. The counters start at zero and only grow, so they
  are unbounded here; the Redis counter is any 64-bit value.
\<close>

section \<open>State\<close>

record combo =
  cb_Name :: string
  cb_Strategy :: string
  cb_Models :: "string list"
  cb_Description :: string
  cb_CompressionMode :: string

type_synonym combo_registry = "string \<Rightarrow> combo option"

record health_checker =
  hc_Grok :: "UpstreamHealth option"
  hc_CB :: "UpstreamHealth option"
  hc_CF :: "UpstreamHealth option"

record combo_counters =
  fallbackSeq :: "string \<Rightarrow> int"
  usageN :: "string \<Rightarrow> int"

datatype combo_call = Save_combo combo | Delete_combo string

definition NewComboRegistry :: combo_registry where
  "NewComboRegistry = (\<lambda>_. None)"

definition ComboRegistry_Load ::
  "(string + combo_registry) option \<Rightarrow> combo_registry \<Rightarrow> registry_error option \<times> combo_registry" where
  "ComboRegistry_Load loaded r =
     (case loaded of
        None \<Rightarrow> (None, r)
      | Some (Inl err) \<Rightarrow> (Some (Registry_store err), r)
      | Some (Inr combos) \<Rightarrow> (None, combos))"

definition fallbackCounter :: "string \<Rightarrow> combo_counters \<Rightarrow> int \<times> combo_counters" where
  "fallbackCounter name k =
     (let n = fallbackSeq k name + 1 in (n, k\<lparr>fallbackSeq := (fallbackSeq k)(name := n)\<rparr>))"

definition bumpUsage :: "string \<Rightarrow> combo_counters \<Rightarrow> combo_counters" where
  "bumpUsage model k = k\<lparr>usageN := (usageN k)(model := usageN k model + 1)\<rparr>"

section \<open>Live health\<close>

text \<open>The switch that \<open>upstreamOpen\<close> and \<open>avgLatencyMs\<close> share; \<open>None\<close> is an unknown upstream.\<close>

definition combo_health :: "health_checker option \<Rightarrow> string \<Rightarrow> UpstreamHealth option" where
  "combo_health hc model =
     (case hc of
        None \<Rightarrow> None
      | Some c \<Rightarrow>
        if has_prefix model ''@cf/'' \<or> str_contains model ''cloudflare'' then hc_CF c
        else if has_prefix model ''cb/'' \<or> str_contains model ''codebuddy'' then hc_CB c
        else if has_prefix model ''grok'' then hc_Grok c
        else None)"

definition upstreamOpen :: "health_checker option \<Rightarrow> string \<Rightarrow> bool" where
  "upstreamOpen hc model =
     (case combo_health hc model of None \<Rightarrow> False | Some h \<Rightarrow> uh_state h = CircuitOpen)"

definition avgLatencyMs :: "health_checker option \<Rightarrow> string \<Rightarrow> rat" where
  "avgLatencyMs hc model =
     (case combo_health hc model of None \<Rightarrow> 0 | Some h \<Rightarrow> Stats_avg_latency_ms h)"

section \<open>Resolution\<close>

text \<open>The selection loops: the first element with the smallest score.\<close>

definition pick_min :: "('a \<Rightarrow> 'b :: linorder) \<Rightarrow> 'a list \<Rightarrow> 'a" where
  "pick_min score xs = foldl (\<lambda>best m. if score m < score best then m else best) (hd xs) (tl xs)"

definition smart_auto :: "string list \<Rightarrow> string" where
  "smart_auto healthy =
     (let isCF = (\<lambda>m. has_prefix m ''@cf/'' \<or> has_prefix m ''cf/'');
          tier1 = filter (\<lambda>m. \<not> isCF m) healthy;
          tier2 = filter (\<lambda>m. isCF m \<and> USD price_table m 1 1 > 0) healthy;
          tier3 = filter (\<lambda>m. isCF m \<and> \<not> USD price_table m 1 1 > 0) healthy
      in if length tier1 > 0 then hd tier1
         else if length tier2 > 0 then hd tier2
         else if length tier3 > 0 then hd tier3
         else hd healthy)"

definition smart_throughput :: "health_checker option \<Rightarrow> string list \<Rightarrow> string" where
  "smart_throughput hc healthy =
     fst (foldl (\<lambda>(best, bestTps) m.
            let lat = avgLatencyMs hc m in
            if lat > 0 \<and> 1000 / lat > bestTps then (m, 1000 / lat) else (best, bestTps))
          (hd healthy, 0) healthy)"

definition resolveSmart ::
  "health_checker option \<Rightarrow> combo \<Rightarrow> string \<Rightarrow> combo_counters \<Rightarrow> string \<times> combo_counters" where
  "resolveSmart hc c strategy k =
     (let healthy = filter (\<lambda>m. \<not> upstreamOpen hc m) (cb_Models c) in
      if length healthy = 0 then (cb_Models c ! 0, k)
      else if strategy = ''fill_first'' \<or> strategy = ''priority'' then (healthy ! 0, k)
      else if strategy = ''auto'' then (smart_auto healthy, k)
      else if strategy = ''random'' then
        (let (n, k') = fallbackCounter (cb_Name c @ '':rnd'') k
         in (healthy ! nat (\<bar>n\<bar> mod int (length healthy)), k'))
      else if strategy = ''least_used'' then
        (let best = pick_min (usageN k) healthy in (best, bumpUsage best k))
      else if strategy = ''latency'' then (pick_min (avgLatencyMs hc) healthy, k)
      else if strategy = ''cost'' then (pick_min (\<lambda>m. USD price_table m 1000000 1000000) healthy, k)
      else if strategy = ''cost_latency_balanced'' then
        (pick_min (\<lambda>m. avgLatencyMs hc m * (4 / 10) + USD price_table m 1000 1000 * (6 / 10)) healthy, k)
      else if strategy = ''throughput'' then (smart_throughput hc healthy, k)
      else (healthy ! 0, k))"

definition smart_strategies :: "string list" where
  "smart_strategies = [''latency'', ''cost'', ''fill_first'', ''least_used'', ''random'', ''auto'', ''priority'']"

definition rr_index :: "int \<Rightarrow> nat \<Rightarrow> nat" where
  "rr_index counter n =
     (let idx = go_rem (wrap64 (counter - 1)) (int n) in nat (if idx < 0 then idx + int n else idx))"

text \<open>\<open>Resolve\<close>, with what it does for a combo it found named on its own.\<close>

definition resolve_entry ::
  "rr_reply \<Rightarrow> health_checker option \<Rightarrow> string \<Rightarrow> combo \<Rightarrow> combo_counters \<Rightarrow> string option \<times> combo_counters" where
  "resolve_entry reply hc name c k =
     (if length (cb_Models c) = 0 then (None, k)
      else if cb_Strategy c = ''round_robin'' then
        (let counter0 = (case reply of Incr_ok v \<Rightarrow> v | _ \<Rightarrow> 0);
             (counter, k') = (if counter0 = 0 then fallbackCounter name k else (counter0, k))
         in (Some (cb_Models c ! rr_index counter (length (cb_Models c))), k'))
      else if cb_Strategy c \<in> set smart_strategies then
        map_prod Some id (resolveSmart hc c (cb_Strategy c) k)
      else (Some (cb_Models c ! 0), k))"

definition ComboRegistry_Resolve ::
  "rr_reply \<Rightarrow> health_checker option \<Rightarrow> string \<Rightarrow> combo_registry \<Rightarrow> combo_counters \<Rightarrow> string option \<times> combo_counters" where
  "ComboRegistry_Resolve reply hc model r k =
     (if \<not> has_prefix model ''combo/'' then (None, k)
      else
        let name = trim_prefix model ''combo/'' in
        case r name of
          None \<Rightarrow> (None, k)
        | Some c \<Rightarrow> resolve_entry reply hc name c k)"

lemma Resolve_combo:
  assumes "m = ''combo/'' @ name"
  shows "ComboRegistry_Resolve reply hc m r k =
     (case r name of None \<Rightarrow> (None, k) | Some c \<Rightarrow> resolve_entry reply hc name c k)"
proof -
  have "has_prefix m ''combo/''" "trim_prefix m ''combo/'' = name"
    unfolding assms by (rule has_prefix_append, rule trim_prefix_append)
  then show ?thesis by (simp add: ComboRegistry_Resolve_def)
qed

fun next_after :: "string \<Rightarrow> string list \<Rightarrow> string option" where
  "next_after failedModel (m # m' # ms) =
     (if m = failedModel then Some m' else next_after failedModel (m' # ms))"
| "next_after failedModel ms = None"

definition NextInFallback :: "string \<Rightarrow> string \<Rightarrow> combo_registry \<Rightarrow> string option" where
  "NextInFallback name failedModel r =
     (case r name of
        None \<Rightarrow> None
      | Some c \<Rightarrow>
        if cb_Strategy c \<noteq> ''fallback'' \<or> length (cb_Models c) = 0 then None
        else next_after failedModel (cb_Models c))"

definition GetCombo :: "string \<Rightarrow> combo_registry \<Rightarrow> combo option" where
  "GetCombo name r = r name"

section \<open>Mutation\<close>

definition known_strategies :: "string list" where
  "known_strategies =
     [''fallback'', ''round_robin'', ''latency'', ''cost'', ''priority'', ''fill_first'', ''least_used'',
      ''random'', ''auto'', ''cost_latency_balanced'', ''throughput'', ''success_rate'']"

definition clean_models :: "string list \<Rightarrow> string list" where
  "clean_models ms = filter (\<lambda>m. m \<noteq> []) (map trim_space ms)"

definition AddCombo ::
  "store_reply \<Rightarrow> combo \<Rightarrow> combo_registry \<Rightarrow> registry_error option \<times> combo_registry \<times> combo_call list" where
  "AddCombo st c0 r =
     (let c = c0\<lparr>cb_Name := trim_space (cb_Name c0), cb_Strategy := trim_space (cb_Strategy c0)\<rparr> in
      case validateName (cb_Name c) ''name'' of
        Some err \<Rightarrow> (Some err, r, [])
      | None \<Rightarrow>
        if has_prefix (cb_Name c) ''combo/'' then (Some Combo_prefix, r, [])
        else if cb_Strategy c \<noteq> [] \<and> cb_Strategy c \<notin> set known_strategies then (Some Strategy_unknown, r, [])
        else
          let c1 = (if cb_Strategy c = [] then c\<lparr>cb_Strategy := ''fallback''\<rparr> else c);
              cleaned = clean_models (cb_Models c1) in
          if length cleaned > 32 then (Some (Combo_too_long (length cleaned)), r, [])
          else if length cleaned = 0 then (Some Combo_no_models, r, [])
          else
            let c2 = c1\<lparr>cb_Models := cleaned, cb_Description := trim_space (cb_Description c1)\<rparr>
            in write_then st (Save_combo c2) r (r(cb_Name c2 \<mapsto> c2)))"

definition DeleteCombo ::
  "store_reply \<Rightarrow> string \<Rightarrow> combo_registry \<Rightarrow> registry_error option \<times> combo_registry \<times> combo_call list" where
  "DeleteCombo st name0 r =
     (let name = trim_space name0 in
      if name = [] then (Some (Name_required ''name''), r, [])
      else write_then st (Delete_combo name) r (r(name := None)))"

text \<open>What one pass of the self-healer counts for a combo; it changes nothing.\<close>

definition Heal_skipped :: "health_checker option \<Rightarrow> combo \<Rightarrow> nat" where
  "Heal_skipped hc c = length (filter (upstreamOpen hc) (cb_Models c))"

section \<open>Histories\<close>

datatype combo_op = Op_add_combo combo | Op_delete_combo string

fun combo_step :: "combo_op \<Rightarrow> store_reply \<Rightarrow> combo_registry \<Rightarrow> combo_registry \<times> combo_call list" where
  "combo_step (Op_add_combo c) st r = snd (AddCombo st c r)"
| "combo_step (Op_delete_combo name) st r = snd (DeleteCombo st name r)"

fun combo_write :: "combo_call \<Rightarrow> combo_registry \<Rightarrow> combo_registry" where
  "combo_write (Save_combo c) db = db(cb_Name c \<mapsto> c)"
| "combo_write (Delete_combo name) db = db(name := None)"

lemma AddCombo_cases:
  assumes "AddCombo st c0 r = res"
  obtains err where "res = (Some err, r, [])"
  | c where "res = write_then st (Save_combo c) r (r(cb_Name c \<mapsto> c))" "safe_name (cb_Name c)"
      "cb_Name c = trim_space (cb_Name c0)"
      "\<not> has_prefix (cb_Name c) ''combo/''" "cb_Strategy c \<in> set known_strategies"
      "cb_Models c = clean_models (cb_Models c0)" "cb_Models c \<noteq> []" "length (cb_Models c) \<le> 32"
      "cb_Strategy c = (if trim_space (cb_Strategy c0) = [] then ''fallback'' else trim_space (cb_Strategy c0))"
proof -
  let ?c = "c0\<lparr>cb_Name := trim_space (cb_Name c0), cb_Strategy := trim_space (cb_Strategy c0)\<rparr>"
  let ?c1 = "if cb_Strategy ?c = [] then ?c\<lparr>cb_Strategy := ''fallback''\<rparr> else ?c"
  let ?c2 = "?c1\<lparr>cb_Models := clean_models (cb_Models c0), cb_Description := trim_space (cb_Description c0)\<rparr>"
  have f: "cb_Models ?c1 = cb_Models c0" "cb_Description ?c1 = cb_Description c0" "cb_Name ?c2 = trim_space (cb_Name c0)"
    "cb_Models ?c2 = clean_models (cb_Models c0)"
    "cb_Strategy ?c2 = (if trim_space (cb_Strategy c0) = [] then ''fallback'' else trim_space (cb_Strategy c0))"
    by simp_all
  consider err where "res = (Some err, r, [])"
    | "res = write_then st (Save_combo ?c2) r (r(cb_Name ?c2 \<mapsto> ?c2))" "validateName (cb_Name ?c2) ''name'' = None"
      "\<not> has_prefix (cb_Name ?c2) ''combo/''" "cb_Strategy ?c \<noteq> [] \<longrightarrow> cb_Strategy ?c \<in> set known_strategies"
      "length (cb_Models ?c2) \<le> 32" "length (cb_Models ?c2) \<noteq> 0"
    using assms [symmetric] unfolding AddCombo_def Let_def f
    by (auto split: option.splits if_splits)
  then show ?thesis
  proof cases
    case 1
    then show ?thesis using that(1) by blast
  next
    case 2
    have "''fallback'' \<in> set known_strategies" by (simp add: known_strategies_def)
    then have "cb_Strategy ?c2 \<in> set known_strategies" using 2(4) by auto
    with 2 show ?thesis by (intro that(2) [of ?c2]) (auto simp del: validateName_safe)
  qed
qed

lemma combo_step_result:
  "combo_step x st r = (r, []) \<or>
   (\<exists>c new. combo_step x st r = snd (write_then st c r new) \<and> new = combo_write c r)"
proof (cases x)
  case (Op_add_combo c0)
  then show ?thesis
  proof (cases rule: AddCombo_cases [of st c0 r, OF refl])
    case (2 c)
    then show ?thesis using Op_add_combo by (intro disjI2 exI [of _ "Save_combo c"]) simp
  qed simp
next
  case (Op_delete_combo name)
  then show ?thesis
    by (auto simp: DeleteCombo_def Let_def intro: exI [of _ "Delete_combo _"])
qed

interpretation combo_cache: write_through "\<lambda>r. r" combo_step combo_write
proof
  fix x st r m c
  note res = combo_step_result [of x _ r]
  show "st \<noteq> No_store \<Longrightarrow> snd (combo_step x st r) = [] \<Longrightarrow> fst (combo_step x st r) = r"
    using res [of st] by (cases st) (auto simp: write_then_snd)
  show "fst (combo_step x (Store_err m) r) = r"
    using res [of "Store_err m"] by (auto simp: write_then_snd)
  show "snd (combo_step x Store_ok r) = [c] \<Longrightarrow> fst (combo_step x Store_ok r) = combo_write c r"
    using res [of Store_ok] by (auto simp: write_then_snd)
  show "length (snd (combo_step x st r)) \<le> 1"
    using res [of st] by (cases st) (auto simp: write_then_snd)
qed

text \<open>What an addition guarantees of the combos in the registry.\<close>

definition combo_ok :: "string \<Rightarrow> combo \<Rightarrow> bool" where
  "combo_ok name c \<longleftrightarrow>
     cb_Name c = name \<and> safe_name name \<and> \<not> has_prefix name ''combo/'' \<and> cb_Strategy c \<in> set known_strategies \<and>
     cb_Models c \<noteq> [] \<and> length (cb_Models c) \<le> 32 \<and> (\<forall>m \<in> set (cb_Models c). m \<noteq> [] \<and> trim_space m = m)"

definition combos_ok :: "combo_registry \<Rightarrow> bool" where
  "combos_ok r \<longleftrightarrow> (\<forall>name c. r name = Some c \<longrightarrow> combo_ok name c)"

lemma clean_models_ok: "m \<in> set (clean_models ms) \<Longrightarrow> m \<noteq> [] \<and> trim_space m = m"
  by (auto simp: clean_models_def)

lemma combos_ok_step: "combos_ok r \<Longrightarrow> combos_ok (fst (combo_step x st r))"
proof (cases x)
  case (Op_add_combo c0)
  assume ok: "combos_ok r"
  show ?thesis
  proof (cases rule: AddCombo_cases [of st c0 r, OF refl])
    case (1 err)
    with ok Op_add_combo show ?thesis by simp
  next
    case (2 c)
    then have "combo_ok (cb_Name c) c" using clean_models_ok by (auto simp: combo_ok_def)
    with 2(1) ok Op_add_combo show ?thesis
      by (auto simp: combos_ok_def write_then_snd split: store_reply.split)
  qed
qed (auto simp: combos_ok_def DeleteCombo_def write_then_snd Let_def split: store_reply.splits if_splits)

lemma combos_ok_history: "combos_ok r \<Longrightarrow> combos_ok (fold (\<lambda>(x, st) r. fst (combo_step x st r)) ops r)"
  by (induction ops arbitrary: r) (auto simp: combos_ok_step)

section \<open>Selection\<close>

lemma pick_min_foldl:
  fixes score :: "'a \<Rightarrow> 'b :: linorder"
  shows "foldl (\<lambda>best m. if score m < score best then m else best) b xs \<in> insert b (set xs) \<and>
   (\<forall>y \<in> insert b (set xs). score (foldl (\<lambda>best m. if score m < score best then m else best) b xs) \<le> score y)"
proof (induction xs arbitrary: b)
  case (Cons x xs)
  let ?b = "if score x < score b then x else b"
  have "score ?b \<le> score x" "score ?b \<le> score b" by auto
  with Cons [of ?b] show ?case by (auto split: if_splits dest: order.trans)
qed simp

lemma pick_min_in: "xs \<noteq> [] \<Longrightarrow> pick_min score xs \<in> set xs"
  and pick_min_least: "y \<in> set xs \<Longrightarrow> score (pick_min score xs) \<le> score y"
  using pick_min_foldl [of score "hd xs" "tl xs"] by (cases xs; auto simp: pick_min_def)+

lemma smart_auto_in: "healthy \<noteq> [] \<Longrightarrow> smart_auto healthy \<in> set healthy"
proof -
  have "hd (filter P healthy) \<in> set healthy" if "filter P healthy \<noteq> []" for P
    using hd_in_set [OF that] by auto
  then show "healthy \<noteq> [] \<Longrightarrow> smart_auto healthy \<in> set healthy"
    by (auto simp: smart_auto_def Let_def)
qed

lemma smart_throughput_in: "healthy \<noteq> [] \<Longrightarrow> smart_throughput hc healthy \<in> set healthy"
proof -
  have "fst (foldl (\<lambda>(best, bestTps) m. let lat = avgLatencyMs hc m in
      if lat > 0 \<and> 1000 / lat > bestTps then (m, 1000 / lat) else (best, bestTps)) (b, t) xs) \<in> insert b (set xs)"
    for b xs and t :: rat
  proof (induction xs arbitrary: b t)
    case (Cons x xs)
    from Cons [of x] Cons [of b] show ?case by (auto simp: Let_def)
  qed simp
  from this [of "hd healthy" 0 healthy] show "healthy \<noteq> [] \<Longrightarrow> smart_throughput hc healthy \<in> set healthy"
    by (auto simp: smart_throughput_def insert_absorb)
qed

lemma resolveSmart_in:
  assumes "cb_Models c \<noteq> []"
  shows "fst (resolveSmart hc c strategy k) \<in> set (cb_Models c) \<and>
         (upstreamOpen hc (fst (resolveSmart hc c strategy k)) \<longrightarrow> (\<forall>m \<in> set (cb_Models c). upstreamOpen hc m))"
proof -
  let ?h = "filter (\<lambda>m. \<not> upstreamOpen hc m) (cb_Models c)"
  have "fst (resolveSmart hc c strategy k) \<in> set ?h" if "?h \<noteq> []"
  proof -
    have idx: "nat (\<bar>n\<bar> mod int (length ?h)) < length ?h" for n
      using that by (simp add: nat_less_iff)
    note ins = pick_min_in [OF that] smart_auto_in [OF that] smart_throughput_in [OF that] nth_mem [OF idx]
      nth_mem [of 0 ?h]
    show ?thesis
      using that unfolding resolveSmart_def Let_def split_beta
      by (simp only: if_distrib [of fst] fst_conv length_0_conv if_False length_greater_0_conv ins split: if_split)
        (use ins that in auto)
  qed
  moreover have "fst (resolveSmart hc c strategy k) = cb_Models c ! 0" if "?h = []"
    using that by (simp add: resolveSmart_def Let_def del: filter_empty_conv)
  ultimately show ?thesis
    using assms by (cases "?h = []") (auto simp: filter_empty_conv)
qed

lemma rr_index_less: "0 < n \<Longrightarrow> rr_index counter n < n"
  using go_rem_bounds [of "int n" "wrap64 (counter - 1)"] by (auto simp: rr_index_def Let_def nat_less_iff)

lemma rr_index_step:
  assumes "1 \<le> v" and "v + int k < 2 ^ 63" and "0 < n"
  shows "rr_index (v + int k) n = (nat (v - 1) + k) mod n"
proof -
  have "wrap64 (v + int k - 1) = v + int k - 1"
    by (rule wrap64_id) (use assms in auto)
  moreover have "go_rem (v + int k - 1) (int n) = (v + int k - 1) mod int n"
    using assms by (intro go_rem_nonneg) auto
  moreover have "v + int k - 1 = int (nat (v - 1) + k)" using assms(1) by simp
  moreover have "0 \<le> int (nat (v - 1) + k) mod int n" using assms(3) by simp
  ultimately show ?thesis
    unfolding rr_index_def Let_def by (simp only: not_less [symmetric] if_False nat_int flip: of_nat_mod)
qed

lemma resolve_entry_in:
  assumes "cb_Models c \<noteq> []"
  shows "\<exists>x \<in> set (cb_Models c). fst (resolve_entry reply hc name c k) = Some x \<and>
          (cb_Strategy c \<in> set smart_strategies \<and> upstreamOpen hc x \<longrightarrow>
            (\<forall>y \<in> set (cb_Models c). upstreamOpen hc y))"
proof -
  have rr: "''round_robin'' \<notin> set smart_strategies" by code_simp
  consider "cb_Strategy c = ''round_robin''" | "cb_Strategy c \<in> set smart_strategies"
    | "cb_Strategy c \<noteq> ''round_robin''" "cb_Strategy c \<notin> set smart_strategies" by blast
  then show ?thesis
  proof cases
    case 1
    obtain counter k' where "(let counter0 = (case reply of Incr_ok v \<Rightarrow> v | _ \<Rightarrow> 0) in
        if counter0 = 0 then fallbackCounter name k else (counter0, k)) = (counter, k')" by fastforce
    then have "fst (resolve_entry reply hc name c k) = Some (cb_Models c ! rr_index counter (length (cb_Models c)))"
      using assms 1 by (simp add: resolve_entry_def Let_def)
    with 1 rr assms show ?thesis by (simp add: rr_index_less)
  next
    case 2
    then have "cb_Strategy c \<noteq> ''round_robin''" using rr by auto
    then have "fst (resolve_entry reply hc name c k) = Some (fst (resolveSmart hc c (cb_Strategy c) k))"
      using assms 2 by (simp add: resolve_entry_def)
    with resolveSmart_in [OF assms, of hc "cb_Strategy c" k] show ?thesis by blast
  next
    case 3
    with assms show ?thesis by (simp add: resolve_entry_def)
  qed
qed

section \<open>Properties\<close>

definition serve_combo ::
  "combo_op \<times> store_reply \<Rightarrow> combo_registry \<times> combo_registry \<Rightarrow> combo_registry \<times> combo_registry" where
  "serve_combo = (\<lambda>(x, st) (r, db).
     (let (r', cs) = combo_step x st r in (r', if st = Store_ok then fold combo_write cs db else db)))"

lemma fst_serve_combo:
  "fst (fold serve_combo ops (r, db)) = fold (\<lambda>(x, st) r. fst (combo_step x st r)) ops r"
  by (induction ops arbitrary: r db) (auto simp: serve_combo_def split_beta)

text \<open>
  C5: Every combo an operator can create is usable, and memory and Redis agree on it. After
  any sequence of additions and deletions over a store that accepts or fails each write, the
  registry equals the stored hash, and each of its combos has the name it is stored under, a
  safe one without a second \<open>combo/\<close>, a known strategy, and 1 to 32 non-empty trimmed models.
\<close>

theorem combos_stored_and_usable:
  assumes "\<forall>(x, st) \<in> set ops. st \<noteq> No_store"
  shows "fst (fold serve_combo ops (NewComboRegistry, \<lambda>_. None)) =
           snd (fold serve_combo ops (NewComboRegistry, \<lambda>_. None)) \<and>
         combos_ok (fst (fold serve_combo ops (NewComboRegistry, \<lambda>_. None)))"
proof -
  have eq: "serve_combo = combo_cache.serve"
    by (simp add: serve_combo_def combo_cache.serve_def)
  have "fst (fold serve_combo ops (NewComboRegistry, \<lambda>_. None)) =
      snd (fold serve_combo ops (NewComboRegistry, \<lambda>_. None))"
    unfolding eq by (rule combo_cache.history_agrees [OF _ assms]) (simp add: NewComboRegistry_def)
  moreover have "combos_ok NewComboRegistry" by (simp add: combos_ok_def NewComboRegistry_def)
  then have "combos_ok (fst (fold serve_combo ops (NewComboRegistry, \<lambda>_. None)))"
    unfolding fst_serve_combo by (rule combos_ok_history)
  ultimately show ?thesis ..
qed

definition demo_combo :: combo where
  "demo_combo = \<lparr>cb_Name = ''fast'', cb_Strategy = ''round_robin'', cb_Models = [''grok-4'', ''cb/o3'', ''@cf/x''],
     cb_Description = [], cb_CompressionMode = []\<rparr>"

lemma AddCombo_demo:
  "AddCombo Store_ok demo_combo NewComboRegistry =
     (None, [''fast'' \<mapsto> demo_combo], [Save_combo demo_combo])"
proof -
  have t: "trim_space ''fast'' = ''fast''" "trim_space ''round_robin'' = ''round_robin''" "trim_space [] = []"
    "clean_models [''grok-4'', ''cb/o3'', ''@cf/x''] = [''grok-4'', ''cb/o3'', ''@cf/x'']"
    by code_simp+
  have v: "safe_name ''fast''" "\<not> has_prefix ''fast'' ''combo/''" "''round_robin'' \<in> set known_strategies"
    by code_simp+
  show ?thesis
    by (simp add: AddCombo_def demo_combo_def t v write_then_def NewComboRegistry_def Let_def del: validateName_None)
qed

theorem combos_stored_and_usable_witness:
  "combos_ok [''fast'' \<mapsto> demo_combo]"
proof -
  have "fst (fold serve_combo [(Op_add_combo demo_combo, Store_ok)] (NewComboRegistry, \<lambda>_. None)) = [''fast'' \<mapsto> demo_combo]"
    by (simp add: serve_combo_def AddCombo_demo)
  moreover have "\<forall>(x, st) \<in> set [(Op_add_combo demo_combo, Store_ok)]. st \<noteq> No_store" by simp
  ultimately show ?thesis
    using combos_stored_and_usable [THEN conjunct2] by metis
qed

text \<open>
  A combo always resolves to one of its own models, and the self-healer works. A model
  name resolves exactly when it is \<open>combo/\<close> followed by the name of a combo with models; the
  answer is one of them whatever Redis and the counters say, and under a smart strategy it is
  a model whose circuit is open only if every model's is.
\<close>

theorem combo_resolves_to_member:
  "case fst (ComboRegistry_Resolve reply hc m r k) of
     None \<Rightarrow> \<not> (\<exists>name c. m = ''combo/'' @ name \<and> r name = Some c \<and> cb_Models c \<noteq> [])
   | Some x \<Rightarrow> \<exists>name c. m = ''combo/'' @ name \<and> r name = Some c \<and> x \<in> set (cb_Models c) \<and>
       (cb_Strategy c \<in> set smart_strategies \<and> upstreamOpen hc x \<longrightarrow>
         (\<forall>y \<in> set (cb_Models c). upstreamOpen hc y))"
proof (cases "has_prefix m ''combo/''")
  case False
  then show ?thesis by (auto simp: ComboRegistry_Resolve_def has_prefix_iff)
next
  case True
  then obtain name where m: "m = ''combo/'' @ name" by (auto simp: has_prefix_iff)
  have only: "name' = name" if "m = ''combo/'' @ name'" for name' using that m by simp
  show ?thesis
  proof (cases "r name")
    case None
    have "\<not> (\<exists>name c. m = ''combo/'' @ name \<and> r name = Some c \<and> cb_Models c \<noteq> [])"
      using only None by (metis option.distinct(1))
    moreover have "fst (ComboRegistry_Resolve reply hc m r k) = None" by (simp add: Resolve_combo [OF m] None)
    ultimately show ?thesis by (simp only: option.case not_False_eq_True)
  next
    case (Some c)
    show ?thesis
    proof (cases "cb_Models c = []")
      case True
      have "\<not> (\<exists>name c. m = ''combo/'' @ name \<and> r name = Some c \<and> cb_Models c \<noteq> [])"
        using only Some True by (metis option.inject)
      moreover have "fst (ComboRegistry_Resolve reply hc m r k) = None"
        by (simp add: Resolve_combo [OF m] Some resolve_entry_def True)
      ultimately show ?thesis by (simp only: option.case not_False_eq_True)
    next
      case False
      from resolve_entry_in [OF False, of reply hc name k]
      obtain x where x: "x \<in> set (cb_Models c)" "fst (resolve_entry reply hc name c k) = Some x"
          "cb_Strategy c \<in> set smart_strategies \<and> upstreamOpen hc x \<longrightarrow> (\<forall>y \<in> set (cb_Models c). upstreamOpen hc y)"
        by (elim bexE conjE)
      have "fst (ComboRegistry_Resolve reply hc m r k) = Some x"
        by (simp add: Resolve_combo [OF m] Some x(2))
      then show ?thesis unfolding option.case using x(1,3) Some m
        by (simp only: option.case) (intro exI [of _ name] exI [of _ c] conjI; (rule refl | assumption))
    qed
  qed
qed

definition grok_down :: "health_checker option" where
  "grok_down = Some \<lparr>hc_Grok = Some opened_at_zero, hc_CB = None, hc_CF = None\<rparr>"

definition no_counts :: combo_counters where
  "no_counts = \<lparr>fallbackSeq = \<lambda>_. 0, usageN = \<lambda>_. 0\<rparr>"

theorem combo_resolves_to_member_witness:
  "case fst (ComboRegistry_Resolve Incr_err grok_down ''combo/fast''
          [''fast'' \<mapsto> demo_combo\<lparr>cb_Strategy := ''latency''\<rparr>] no_counts) of
     None \<Rightarrow> False | Some x \<Rightarrow> x \<in> {''grok-4'', ''cb/o3'', ''@cf/x''} \<and> \<not> upstreamOpen grok_down x"
proof -
  let ?c = "demo_combo\<lparr>cb_Strategy := ''latency''\<rparr>"
  have "\<not> upstreamOpen grok_down ''cb/o3''"
  proof -
    have "\<not> has_prefix ''cb/o3'' ''@cf/''" "\<not> str_contains ''cb/o3'' ''cloudflare''" "has_prefix ''cb/o3'' ''cb/''"
      by code_simp+
    then show ?thesis by (simp add: upstreamOpen_def combo_health_def grok_down_def)
  qed
  then have open_all: "\<not> upstreamOpen grok_down x" if "x \<in> set (cb_Models ?c)"
      "cb_Strategy ?c \<in> set smart_strategies \<and> upstreamOpen grok_down x \<longrightarrow>
         (\<forall>y \<in> set (cb_Models ?c). upstreamOpen grok_down y)" for x
    using that by (auto simp: demo_combo_def smart_strategies_def)
  let ?r = "[''fast'' \<mapsto> ?c]"
  have ex: "\<exists>name c. ''combo/fast'' = ''combo/'' @ name \<and> ?r name = Some c \<and> cb_Models c \<noteq> []"
    by (intro exI [of _ "''fast''"] exI [of _ ?c]) (simp add: demo_combo_def)
  note member = combo_resolves_to_member [where reply = Incr_err and hc = grok_down and m = "''combo/fast''"
      and r = ?r and k = no_counts]
  show ?thesis
  proof (cases "fst (ComboRegistry_Resolve Incr_err grok_down ''combo/fast'' ?r no_counts)")
    case None
    with member ex show ?thesis by simp
  next
    case (Some x)
    with member obtain name c where nc: "''combo/fast'' = ''combo/'' @ name" "?r name = Some c" "x \<in> set (cb_Models c)"
        "cb_Strategy c \<in> set smart_strategies \<and> upstreamOpen grok_down x \<longrightarrow> (\<forall>y \<in> set (cb_Models c). upstreamOpen grok_down y)"
      by auto
    then have c: "c = ?c" by simp
    from nc(3) have "x \<in> {''grok-4'', ''cb/o3'', ''@cf/x''}" by (simp add: c demo_combo_def)
    moreover have "\<not> upstreamOpen grok_down x" using nc(3,4) unfolding c by (rule open_all)
    ultimately show ?thesis using Some by simp
  qed
qed

text \<open>
  Round robin is exact. As long as the Redis counter does not pass the end of its range,
  as many consecutive requests as a combo has models serve every model of the list once, in
  order, starting where the counter stands.
\<close>

theorem round_robin_rotates:
  assumes "r name = Some c" and "cb_Strategy c = ''round_robin''"
    and "1 \<le> v" and "v + int (length (cb_Models c)) < 2 ^ 63"
  shows "map (\<lambda>i. fst (ComboRegistry_Resolve (Incr_ok (v + int i)) hc (''combo/'' @ name) r k))
           [0..<length (cb_Models c)] =
         map Some (rotate (nat (v - 1)) (cb_Models c))"
proof (rule nth_equalityI)
  fix i assume "i < length (map (\<lambda>i. fst (ComboRegistry_Resolve (Incr_ok (v + int i)) hc (''combo/'' @ name) r k))
           [0..<length (cb_Models c)])"
  then have i: "i < length (cb_Models c)" by simp
  have "fst (ComboRegistry_Resolve (Incr_ok (v + int i)) hc (''combo/'' @ name) r k) =
      Some (rotate (nat (v - 1)) (cb_Models c) ! i)"
    unfolding Resolve_combo [OF refl]
    using assms i by (auto simp: resolve_entry_def rr_index_step nth_rotate)
  with i show "map (\<lambda>i. fst (ComboRegistry_Resolve (Incr_ok (v + int i)) hc (''combo/'' @ name) r k))
           [0..<length (cb_Models c)] ! i = map Some (rotate (nat (v - 1)) (cb_Models c)) ! i"
    by (simp only: length_map length_upt length_rotate nth_map diff_zero nth_upt add_0)
qed simp

theorem round_robin_rotates_witness:
  "map (\<lambda>i. fst (ComboRegistry_Resolve (Incr_ok (5 + int i)) None (''combo/'' @ ''fast'')
      [''fast'' \<mapsto> demo_combo] no_counts)) [0..<3] = [Some ''cb/o3'', Some ''@cf/x'', Some ''grok-4'']"
proof -
  have len: "length (cb_Models demo_combo) = 3" and v: "nat (5 - 1) = 4" by (simp_all add: demo_combo_def)
  have rot: "map Some (rotate 4 (cb_Models demo_combo)) = [Some ''cb/o3'', Some ''@cf/x'', Some ''grok-4'']"
    by (simp add: demo_combo_def numeral_eq_Suc)
  have "[''fast'' \<mapsto> demo_combo] ''fast'' = Some demo_combo" "cb_Strategy demo_combo = ''round_robin''"
    "1 \<le> (5 :: int)" "5 + int (length (cb_Models demo_combo)) < 2 ^ 63"
    by (simp_all add: demo_combo_def)
  note round_robin_rotates [where r = "[''fast'' \<mapsto> demo_combo]" and name = "''fast''" and c = demo_combo
      and v = 5 and hc = None and k = no_counts, OF this]
  then show ?thesis unfolding len v rot .
qed

text \<open>
  Three strategies do nothing. \<open>AddCombo\<close> accepts \<open>cost_latency_balanced\<close>, \<open>throughput\<close>
  and \<open>success_rate\<close>, for which \<open>resolveSmart\<close> has code, but \<open>Resolve\<close> never calls it for
  them: such a combo always answers with its first model, whatever the latencies and prices
  are and even while that model's circuit is open.
\<close>

theorem dead_strategies:
  assumes "AddCombo st c0 r = (None, r', cs)"
    and "trim_space (cb_Strategy c0) \<in> {''cost_latency_balanced'', ''throughput'', ''success_rate''}"
  shows "ComboRegistry_Resolve reply hc (''combo/'' @ trim_space (cb_Name c0)) r' k =
         (Some (hd (clean_models (cb_Models c0))), k)"
proof -
  let ?s = "trim_space (cb_Strategy c0)" let ?n = "trim_space (cb_Name c0)"
  have s: "?s \<noteq> ''round_robin''" "?s \<notin> set smart_strategies" "?s \<noteq> []"
    using assms(2) by (auto simp: smart_strategies_def)
  obtain c where c: "r' ?n = Some c" "cb_Strategy c = ?s" "cb_Models c = clean_models (cb_Models c0)"
      "cb_Models c \<noteq> []"
    using s(3) by (cases rule: AddCombo_cases [OF assms(1)])
      (auto simp: write_then_def split: store_reply.splits)
  then show ?thesis
    unfolding Resolve_combo [OF refl]
    using s by (simp add: resolve_entry_def hd_conv_nth [of "clean_models (cb_Models c0)"])
qed

theorem dead_strategies_witness:
  "ComboRegistry_Resolve No_counter grok_down (''combo/'' @ ''fast'')
       (fst (snd (AddCombo No_store (demo_combo\<lparr>cb_Strategy := ''success_rate''\<rparr>) NewComboRegistry))) no_counts =
     (Some ''grok-4'', no_counts) \<and> upstreamOpen grok_down ''grok-4''"
proof -
  let ?c = "demo_combo\<lparr>cb_Strategy := ''success_rate''\<rparr>"
  have t: "trim_space ''fast'' = ''fast''" "trim_space ''success_rate'' = ''success_rate''" "trim_space [] = []"
    "clean_models [''grok-4'', ''cb/o3'', ''@cf/x''] = [''grok-4'', ''cb/o3'', ''@cf/x'']"
    by code_simp+
  have v: "safe_name ''fast''" "\<not> has_prefix ''fast'' ''combo/''" "''success_rate'' \<in> set known_strategies"
    by code_simp+
  have add: "AddCombo No_store ?c NewComboRegistry = (None, NewComboRegistry(''fast'' \<mapsto> ?c), [])"
    by (simp add: AddCombo_def demo_combo_def t v write_then_def Let_def del: validateName_None)
  have f: "trim_space (cb_Name ?c) = ''fast''" "trim_space (cb_Strategy ?c) = ''success_rate''"
    "clean_models (cb_Models ?c) = [''grok-4'', ''cb/o3'', ''@cf/x'']"
    by (simp_all add: demo_combo_def t)
  have "ComboRegistry_Resolve No_counter grok_down (''combo/'' @ ''fast'') (NewComboRegistry(''fast'' \<mapsto> ?c)) no_counts =
      (Some ''grok-4'', no_counts)"
    using dead_strategies [OF add, of No_counter grok_down no_counts] unfolding f by simp
  moreover have "upstreamOpen grok_down ''grok-4''"
  proof -
    have "\<not> has_prefix ''grok-4'' ''@cf/''" "\<not> str_contains ''grok-4'' ''cloudflare''" "\<not> has_prefix ''grok-4'' ''cb/''"
      "\<not> str_contains ''grok-4'' ''codebuddy''" "has_prefix ''grok-4'' ''grok''"
      by code_simp+
    then show ?thesis by (simp add: upstreamOpen_def combo_health_def grok_down_def opened_at_zero)
  qed
  ultimately show ?thesis unfolding add by simp
qed

end
