(* ===== verification/Db.thy ===== *)
theory Db
  imports Complex_Main Prelude
begin

text \<open>
  The persisted forms of \<open>internal/db/db.go\<close>: the Redis hash of a gateway key, how it is
  written and parsed back, and the decimal conversions of \<open>strconv\<close>. A write hands
  \<open>HSet\<close> Go values; how the Redis client renders a value is the parameter \<open>enc\<close>.
\<close>

section \<open>strconv\<close>

definition is_digit :: "char \<Rightarrow> bool" where
  "is_digit c = (let n = (of_char c :: nat) in 48 \<le> n \<and> n \<le> 57)"

definition digit_val :: "char \<Rightarrow> nat" where
  "digit_val c = (of_char c :: nat) - 48"

definition parse_digits :: "string \<Rightarrow> nat option" where
  "parse_digits s =
     (if s = [] \<or> \<not> list_all is_digit s then None
      else Some (foldl (\<lambda>n c. 10 * n + digit_val c) 0 s))"

text \<open>\<open>strconv.ParseInt(s, 10, 64)\<close> and \<open>Atoi\<close>: an optional sign, digits, and the 64-bit range.\<close>

definition parse_int64 :: "string \<Rightarrow> int option" where
  "parse_int64 s =
     (let (neg, ds) = (case s of
            [] \<Rightarrow> (False, s)
          | c # cs \<Rightarrow> if c = CHR ''-'' then (True, cs) else if c = CHR ''+'' then (False, cs) else (False, s))
      in case parse_digits ds of
           None \<Rightarrow> None
         | Some n \<Rightarrow>
           (let i = (if neg then - int n else int n)
            in if - (2 ^ 63) \<le> i \<and> i < 2 ^ 63 then Some i else None))"

definition atoiSafe :: "string \<Rightarrow> int" where
  "atoiSafe s = (case parse_int64 s of None \<Rightarrow> 0 | Some n \<Rightarrow> n)"

definition atollSafe :: "string \<Rightarrow> int" where
  "atollSafe s = (case parse_int64 s of None \<Rightarrow> 0 | Some n \<Rightarrow> n)"

lemma digit_char: "n < 10 \<Longrightarrow> is_digit (char_of (n + 48)) \<and> digit_val (char_of (n + 48)) = n"
proof -
  assume "n < 10"
  then have "(n + 48) mod 256 = n + 48" by simp
  with \<open>n < 10\<close> show ?thesis by (simp add: is_digit_def digit_val_def)
qed

lemma show_nat_digits: "show_nat n \<noteq> [] \<and> list_all is_digit (show_nat n)"
proof (induction n rule: show_nat.induct)
  case (1 n)
  then show ?case by (subst (1 2) show_nat.simps) (auto simp: digit_char)
qed

lemma foldl_show_nat: "foldl (\<lambda>n c. 10 * n + digit_val c) 0 (show_nat n) = n"
proof (induction n rule: show_nat.induct)
  case (1 n)
  then show ?case by (subst show_nat.simps) (auto simp: digit_char)
qed

lemma parse_show_nat [simp]: "parse_digits (show_nat n) = Some n"
  using show_nat_digits by (simp add: parse_digits_def foldl_show_nat)

lemma show_nat_no_sign: "show_nat n = c # cs \<Longrightarrow> c \<noteq> CHR ''-'' \<and> c \<noteq> CHR ''+''"
  using show_nat_digits [of n] by (auto simp: is_digit_def)

lemma parse_show_int:
  assumes "- (2 ^ 63) \<le> i" and "i < 2 ^ 63"
  shows "parse_int64 (show_int i) = Some i"
proof (cases "i < 0")
  case True
  with assms show ?thesis by (simp add: parse_int64_def show_int_def)
next
  case False
  obtain c cs where c: "show_nat (nat i) = c # cs" using show_nat_digits by (cases "show_nat (nat i)") auto
  then have "parse_digits (c # cs) = Some (nat i)" using parse_show_nat [of "nat i"] by simp
  with False c show_nat_no_sign [OF c] assms show ?thesis by (simp add: parse_int64_def show_int_def)
qed

section \<open>Decimal numbers\<close>

text \<open>
  \<open>strconv.ParseFloat\<close> on decimal notation. Its hexadecimal notation, infinities and NaN are
  not modelled, nor is rounding.
\<close>

definition split_at_char :: "char list \<Rightarrow> string \<Rightarrow> string \<times> string option" where
  "split_at_char cs s =
     (let l = takeWhile (\<lambda>c. c \<notin> set cs) s; r = dropWhile (\<lambda>c. c \<notin> set cs) s
      in (l, case r of [] \<Rightarrow> None | _ # r' \<Rightarrow> Some r'))"

definition digits_val :: "string \<Rightarrow> nat" where
  "digits_val s = foldl (\<lambda>n c. 10 * n + digit_val c) 0 s"

definition shift10 :: "rat \<Rightarrow> int \<Rightarrow> rat" where
  "shift10 x e = (if e \<ge> 0 then x * 10 ^ nat e else x / 10 ^ nat (- e))"

definition parse_float :: "string \<Rightarrow> rat option" where
  "parse_float s =
     (let (neg, u) = (case s of
            [] \<Rightarrow> (False, s)
          | c # cs \<Rightarrow> if c = CHR ''-'' then (True, cs) else if c = CHR ''+'' then (False, cs) else (False, s));
          (m, e) = split_at_char [CHR ''e'', CHR ''E''] u;
          (ip, fp) = split_at_char [CHR ''.''] m;
          fr = (case fp of None \<Rightarrow> [] | Some f \<Rightarrow> f)
      in if ip @ fr = [] \<or> \<not> list_all is_digit (ip @ fr) then None
         else case (case e of None \<Rightarrow> Some 0 | Some x \<Rightarrow> parse_int64 x) of
                None \<Rightarrow> None
              | Some x \<Rightarrow>
                (let v = shift10 (of_nat (digits_val (ip @ fr))) (x - int (length fr))
                 in Some (if neg then - v else v)))"

section \<open>Comma-separated lists\<close>

text \<open>\<open>strings.Join\<close> and \<open>strings.Split\<close> with the separator \<open>,\<close>.\<close>

fun join_comma :: "string list \<Rightarrow> string" where
  "join_comma [] = []"
| "join_comma [x] = x"
| "join_comma (x # xs) = x @ CHR '','' # join_comma xs"

fun split_comma :: "string \<Rightarrow> string list" where
  "split_comma [] = [[]]"
| "split_comma (c # s) =
     (if c = CHR '','' then [] # split_comma s
      else case split_comma s of [] \<Rightarrow> [[c]] | w # ws \<Rightarrow> (c # w) # ws)"

lemma split_comma_nonempty [simp]: "split_comma s \<noteq> []"
  by (induction s) (auto split: list.split)

lemma split_append: "CHR '','' \<notin> set x \<Longrightarrow> split_comma (x @ CHR '','' # s) = x # split_comma s"
  by (induction x) auto

lemma split_plain: "CHR '','' \<notin> set x \<Longrightarrow> split_comma x = [x]"
  by (induction x) auto

lemma split_join: "xs \<noteq> [] \<Longrightarrow> \<forall>x \<in> set xs. CHR '','' \<notin> set x \<Longrightarrow> split_comma (join_comma xs) = xs"
  by (induction xs rule: join_comma.induct) (auto simp: split_plain split_append)

section \<open>Gateway keys\<close>

record gateway_key_dto =
  gd_key :: string
  gd_name :: string
  gd_role :: string
  gd_allowed_models :: "string list option"
  gd_rpm :: int
  gd_burst :: int
  gd_token_quota :: int
  gd_tokens_used :: int
  gd_requests :: int
  gd_created_at :: gotime
  gd_disabled :: bool

text \<open>A time in Unix seconds, rounded down, and back.\<close>

definition unix_seconds :: "gotime \<Rightarrow> int" where
  "unix_seconds t = t div second - 62135596800"

definition from_unix :: "int \<Rightarrow> gotime" where
  "from_unix s = (s + 62135596800) * second"

datatype redis_value = RStr string | RInt int | RBool bool

definition SaveGatewayKey :: "gotime \<Rightarrow> gateway_key_dto \<Rightarrow> (string \<times> redis_value) list" where
  "SaveGatewayKey now dto =
     [(''key'', RStr (gd_key dto)), (''name'', RStr (gd_name dto)), (''role'', RStr (gd_role dto)),
      (''allowed_models'', RStr (join_comma (elems (gd_allowed_models dto)))),
      (''rpm'', RInt (gd_rpm dto)), (''burst'', RInt (gd_burst dto)),
      (''token_quota'', RInt (gd_token_quota dto)), (''tokens_used'', RInt (gd_tokens_used dto)),
      (''requests'', RInt (gd_requests dto)), (''created_at'', RInt (unix_seconds (gd_created_at dto))),
      (''disabled'', RBool (gd_disabled dto)), (''updated_at'', RInt (unix_seconds now))]"

text \<open>A hash field that is missing reads as the empty string.\<close>

definition hash_field :: "(string \<Rightarrow> string option) \<Rightarrow> string \<Rightarrow> string" where
  "hash_field vals f = (case vals f of None \<Rightarrow> [] | Some v \<Rightarrow> v)"

definition parse_models :: "string \<Rightarrow> string list option" where
  "parse_models am =
     (if am \<noteq> [] then
        (let ms = filter (\<lambda>m. m \<noteq> []) (map trim_space (split_comma am))
         in if ms = [] then None else Some ms)
      else None)"

definition parseGatewayKeyFromRedis :: "(string \<Rightarrow> string option) \<Rightarrow> gateway_key_dto option" where
  "parseGatewayKeyFromRedis vals =
     (let key = hash_field vals ''key'' in
      if key = [] then None
      else
        let ts = atollSafe (hash_field vals ''created_at'') in
        Some \<lparr>gd_key = key, gd_name = hash_field vals ''name'', gd_role = hash_field vals ''role'',
              gd_allowed_models = parse_models (hash_field vals ''allowed_models''),
              gd_rpm = atoiSafe (hash_field vals ''rpm''), gd_burst = atoiSafe (hash_field vals ''burst''),
              gd_token_quota = atollSafe (hash_field vals ''token_quota''),
              gd_tokens_used = atollSafe (hash_field vals ''tokens_used''),
              gd_requests = atollSafe (hash_field vals ''requests''),
              gd_created_at = (if ts > 0 then from_unix ts else 0),
              gd_disabled = (hash_field vals ''disabled'' = ''true'' \<or> hash_field vals ''disabled'' = ''1'')\<rparr>)"

text \<open>A time stored in Unix seconds; a field that does not parse, or is not positive, is the zero time.\<close>

definition time_field :: "(string \<Rightarrow> string option) \<Rightarrow> string \<Rightarrow> gotime" where
  "time_field h f =
     (case parse_int64 (hash_field h f) of None \<Rightarrow> 0 | Some n \<Rightarrow> if n > 0 then from_unix n else 0)"

text \<open>\<open>HINCRBY\<close> on a field: a missing field counts as zero.\<close>

definition hincrby :: "string \<Rightarrow> int \<Rightarrow> (string \<Rightarrow> string option) \<Rightarrow> string \<Rightarrow> string option" where
  "hincrby f n vals = vals(f \<mapsto> show_int (atollSafe (hash_field vals f) + n))"

section \<open>The key codec\<close>

text \<open>
  The hash after a write: every field rendered by the Redis client. The client documents that
  it stores a string as it is, an integer in decimal and a boolean as \<open>1\<close> or \<open>0\<close>.
\<close>

definition stored :: "(redis_value \<Rightarrow> string) \<Rightarrow> (string \<times> redis_value) list \<Rightarrow> string \<Rightarrow> string option" where
  "stored enc fvs = map_of (map (map_prod id enc) fvs)"

definition documented_encoding :: "(redis_value \<Rightarrow> string) \<Rightarrow> bool" where
  "documented_encoding enc \<longleftrightarrow>
     (\<forall>s. enc (RStr s) = s) \<and> (\<forall>i. enc (RInt i) = show_int i) \<and>
     enc (RBool True) = ''1'' \<and> enc (RBool False) = ''0''"

text \<open>
  What the codec keeps: patterns without commas and spaces around, and a time down to the second,
  if it is after 1970 (any other time, the zero time among them, comes back as the zero time).
\<close>

definition clean_pattern :: "string \<Rightarrow> bool" where
  "clean_pattern m \<longleftrightarrow> m \<noteq> [] \<and> trim_space m = m \<and> CHR '','' \<notin> set m"

definition codable :: "gateway_key_dto \<Rightarrow> bool" where
  "codable dto \<longleftrightarrow>
     gd_key dto \<noteq> [] \<and> list_all fits64 [gd_rpm dto, gd_burst dto, gd_token_quota dto, gd_tokens_used dto, gd_requests dto] \<and>
     fits64 (unix_seconds (gd_created_at dto))"

definition kept_time :: "gotime \<Rightarrow> gotime" where
  "kept_time t = (if 0 < unix_seconds t then from_unix (unix_seconds t) else 0)"

lemma from_unix_seconds [simp]: "unix_seconds (from_unix s) = s"
  by (simp add: unix_seconds_def from_unix_def second_def)

lemma atoll_show [simp]: "fits64 i \<Longrightarrow> atollSafe (show_int i) = i" "fits64 i \<Longrightarrow> atoiSafe (show_int i) = i"
  by (simp_all add: atollSafe_def atoiSafe_def fits64_def parse_show_int)

text \<open>What a stored time can be: whole seconds after 1970 or no time at all.\<close>

definition storable_time :: "gotime \<Rightarrow> bool" where
  "storable_time t \<longleftrightarrow> t = 0 \<or> (\<exists>s. 0 < s \<and> fits64 s \<and> t = from_unix s)"

lemma time_field_stored:
  assumes "storable_time t" "hash_field h f = show_int (unix_seconds t)"
  shows "time_field h f = t"
proof (cases "t = 0")
  case True
  have "parse_int64 (show_int (- 62135596800)) = Some (- 62135596800)" by (rule parse_show_int) simp_all
  with True assms(2) show ?thesis by (simp add: time_field_def unix_seconds_def second_def)
next
  case False
  then obtain s where "0 < s" "fits64 s" "t = from_unix s" using assms(1) by (auto simp: storable_time_def)
  with assms(2) show ?thesis by (simp add: time_field_def parse_show_int fits64_def)
qed

lemma join_comma_empty: "join_comma xs = [] \<longleftrightarrow> xs = [] \<or> xs = [[]]"
  by (induction xs rule: join_comma.induct) auto

lemma parse_models_join:
  assumes "\<forall>m \<in> set ms. clean_pattern m" and "ms \<noteq> []"
  shows "parse_models (join_comma ms) = Some ms"
proof -
  have "map trim_space ms = ms" using assms(1) by (intro map_idI) (auto simp: clean_pattern_def)
  moreover have "filter (\<lambda>m. m \<noteq> []) ms = ms"
    using assms(1) by (intro filter_True) (auto simp: clean_pattern_def)
  moreover have "split_comma (join_comma ms) = ms"
    using assms by (intro split_join) (auto simp: clean_pattern_def)
  moreover have "join_comma ms \<noteq> []" using assms by (auto simp: join_comma_empty clean_pattern_def)
  ultimately show ?thesis using assms(2) by (simp add: parse_models_def)
qed

lemma stored_fields:
  assumes "documented_encoding enc"
  shows "parseGatewayKeyFromRedis (stored enc (SaveGatewayKey now dto)) =
     (if gd_key dto = [] then None
      else Some (dto\<lparr>gd_allowed_models := parse_models (join_comma (elems (gd_allowed_models dto))),
           gd_rpm := atoiSafe (show_int (gd_rpm dto)), gd_burst := atoiSafe (show_int (gd_burst dto)),
           gd_token_quota := atollSafe (show_int (gd_token_quota dto)),
           gd_tokens_used := atollSafe (show_int (gd_tokens_used dto)),
           gd_requests := atollSafe (show_int (gd_requests dto)),
           gd_created_at := (let ts = atollSafe (show_int (unix_seconds (gd_created_at dto)))
                             in if ts > 0 then from_unix ts else 0)\<rparr>))"
proof -
  have "enc (RBool (gd_disabled dto)) = ''true'' \<or> enc (RBool (gd_disabled dto)) = ''1'' \<longleftrightarrow> gd_disabled dto"
    using assms by (cases "gd_disabled dto") (simp_all add: documented_encoding_def)
  moreover have "enc (RStr s) = s" "enc (RInt i) = show_int i" for s i
    using assms by (simp_all add: documented_encoding_def)
  ultimately show ?thesis
    by (cases dto) (simp add: parseGatewayKeyFromRedis_def SaveGatewayKey_def stored_def hash_field_def Let_def)
qed

text \<open>
  C6: A gateway key survives Redis but for the fraction of the second in which it was created.
  With the rendering the Redis client documents, a key with a clean whitelist (patterns
  non-empty, trimmed and without commas) and figures of 64 bits that is written and read back
  is the same key, with its creation time cut to the second (and a time up to 1970 lost); an
  empty whitelist comes back as no whitelist.
\<close>

theorem gateway_key_round_trip:
  assumes "documented_encoding enc" and "codable dto"
    and "\<forall>m \<in> set (elems (gd_allowed_models dto)). clean_pattern m"
  shows "parseGatewayKeyFromRedis (stored enc (SaveGatewayKey now dto)) =
     Some (dto\<lparr>gd_created_at := kept_time (gd_created_at dto),
       gd_allowed_models :=
         (if elems (gd_allowed_models dto) = [] then None else gd_allowed_models dto)\<rparr>)"
proof -
  have "parse_models (join_comma (elems (gd_allowed_models dto))) =
      (if elems (gd_allowed_models dto) = [] then None else gd_allowed_models dto)"
    using parse_models_join [OF assms(3)]
    by (cases "gd_allowed_models dto") (auto simp: parse_models_def)
  then show ?thesis
    using assms(2) by (simp add: stored_fields [OF assms(1)] codable_def kept_time_def Let_def)
qed

definition go_redis_enc :: "redis_value \<Rightarrow> string" where
  "go_redis_enc v = (case v of RStr s \<Rightarrow> s | RInt i \<Rightarrow> show_int i | RBool b \<Rightarrow> if b then ''1'' else ''0'')"

definition whole_float :: "rat \<Rightarrow> string" where
  "whole_float x = show_int \<lfloor>x\<rfloor>"

lemma go_redis_enc: "documented_encoding go_redis_enc"
  by (simp add: documented_encoding_def go_redis_enc_def)

definition demo_key_dto :: "string list option \<Rightarrow> gateway_key_dto" where
  "demo_key_dto ms =
     \<lparr>gd_key = ''gw-1'', gd_name = ''ci'', gd_role = ''inference'', gd_allowed_models = ms, gd_rpm = 60,
      gd_burst = 0, gd_token_quota = 1000, gd_tokens_used = 12, gd_requests = 3,
      gd_created_at = from_unix 1700000000 + 123456789, gd_disabled = False\<rparr>"

lemma demo_key_codable: "codable (demo_key_dto ms)"
  by (simp add: codable_def demo_key_dto_def fits64_def unix_seconds_def from_unix_def second_def)

theorem gateway_key_round_trip_witness:
  "parseGatewayKeyFromRedis (stored go_redis_enc (SaveGatewayKey 0 (demo_key_dto (Some [''grok-*'', ''cb/*''])))) =
   Some ((demo_key_dto (Some [''grok-*'', ''cb/*'']))\<lparr>gd_created_at := from_unix 1700000000\<rparr>)"
proof -
  have "clean_pattern ''grok-*''" "clean_pattern ''cb/*''"
    unfolding clean_pattern_def by code_simp+
  then have "\<forall>m \<in> set (elems (gd_allowed_models (demo_key_dto (Some [''grok-*'', ''cb/*''])))). clean_pattern m"
    by (simp add: demo_key_dto_def)
  from gateway_key_round_trip [OF go_redis_enc demo_key_codable this] show ?thesis
    by (simp add: demo_key_dto_def kept_time_def unix_seconds_def from_unix_def second_def)
qed

end
