(* ===== verification/Auth.thy ===== *)
theory Auth
  imports Db "HOL-Library.AList"
begin

text \<open>
  Gateway API keys: \<open>internal/auth/auth.go\<close> (whitelists, the key manager, the two middlewares)
  and the key-management handlers of \<open>internal/handlers/handlers.go\<close>. The manager's map is an
  association list, whose order stands for the iteration order Go leaves open. Operations
  return their result, the new manager and the writes to the store.
\<close>

section \<open>Whitelists\<close>

definition MatchModel :: "string \<Rightarrow> string \<Rightarrow> bool" where
  "MatchModel pattern model \<longleftrightarrow>
     (if pattern = model then True
      else if has_suffix pattern ''*'' then has_prefix model (trim_suffix pattern ''*'')
      else if has_suffix pattern ''/*'' then has_prefix model (trim_suffix pattern ''/*'' @ ''/'')
      else False)"

definition IsModelAllowed :: "string list option \<Rightarrow> string \<Rightarrow> bool" where
  "IsModelAllowed allowed model \<longleftrightarrow>
     (if length (elems allowed) = 0 then True
      else list_ex (\<lambda>pattern. MatchModel pattern model) (elems allowed))"

definition MaskKey :: "string \<Rightarrow> string" where
  "MaskKey key =
     (if length key > 12 then take 8 key @ ''...'' @ drop (length key - 4) key else key)"

section \<open>The key manager\<close>

definition RoleInference :: string where "RoleInference = ''inference''"
definition RoleAdmin :: string where "RoleAdmin = ''admin''"

record key_info =
  ki_Key :: string
  ki_KeyMasked :: string
  ki_Name :: string
  ki_Role :: string
  ki_AllowedModels :: "string list option"
  ki_RPM :: int
  ki_Burst :: int
  ki_TokenQuota :: int
  ki_TokensUsed :: int
  ki_Requests :: int
  ki_CreatedAt :: gotime
  ki_Disabled :: bool

type_synonym manager = "(string \<times> key_info) list"

datatype key_call =
    Save_key gateway_key_dto
  | Delete_key string
  | Incr_tokens string int
  | Incr_requests string

definition gatewayKeyDTOFromInfo :: "key_info \<Rightarrow> gateway_key_dto" where
  "gatewayKeyDTOFromInfo info =
     \<lparr>gd_key = ki_Key info, gd_name = ki_Name info, gd_role = ki_Role info,
      gd_allowed_models = ki_AllowedModels info, gd_rpm = ki_RPM info, gd_burst = ki_Burst info,
      gd_token_quota = ki_TokenQuota info, gd_tokens_used = ki_TokensUsed info,
      gd_requests = ki_Requests info, gd_created_at = ki_CreatedAt info, gd_disabled = ki_Disabled info\<rparr>"

definition infoFromDTO :: "gateway_key_dto \<Rightarrow> key_info" where
  "infoFromDTO d =
     \<lparr>ki_Key = gd_key d, ki_KeyMasked = MaskKey (gd_key d), ki_Name = gd_name d,
      ki_Role = (if gd_role d = [] then RoleInference else gd_role d),
      ki_AllowedModels = (if elems (gd_allowed_models d) = [] then None else gd_allowed_models d),
      ki_RPM = gd_rpm d, ki_Burst = gd_burst d, ki_TokenQuota = gd_token_quota d,
      ki_TokensUsed = gd_tokens_used d, ki_Requests = gd_requests d, ki_CreatedAt = gd_created_at d,
      ki_Disabled = gd_disabled d\<rparr>"

definition loadGatewayKeys :: "string + gateway_key_dto list \<Rightarrow> string + key_info list" where
  "loadGatewayKeys loaded = (case loaded of Inl err \<Rightarrow> Inl err | Inr ds \<Rightarrow> Inr (map infoFromDTO ds))"

definition bootstrap_info :: "gotime \<Rightarrow> string \<Rightarrow> key_info" where
  "bootstrap_info now k =
     \<lparr>ki_Key = k, ki_KeyMasked = MaskKey k, ki_Name = ''bootstrap'', ki_Role = RoleAdmin,
      ki_AllowedModels = None, ki_RPM = 0, ki_Burst = 0, ki_TokenQuota = 0, ki_TokensUsed = 0,
      ki_Requests = 0, ki_CreatedAt = now, ki_Disabled = False\<rparr>"

text \<open>
  The constructor: the keys in the store, else the keys of the environment and the key file
  (already split at separators), else a generated one unless the environment forbids it.
\<close>

definition seed_bootstrap :: "gotime \<Rightarrow> string list \<Rightarrow> manager \<Rightarrow> manager" where
  "seed_bootstrap now ks m =
     foldl (\<lambda>m k. case map_of m k of Some _ \<Rightarrow> m | None \<Rightarrow> AList.update k (bootstrap_info now k) m) m ks"

definition NewManager ::
  "gotime \<Rightarrow> (string + gateway_key_dto list) option \<Rightarrow> string list \<Rightarrow> bool \<Rightarrow> bool \<Rightarrow> string \<Rightarrow> manager" where
  "NewManager now loaded pieces auth_disable no_autobootstrap random_key =
     (let m0 = (case map_option loadGatewayKeys loaded of
            Some (Inr infos) \<Rightarrow> foldl (\<lambda>m info. AList.update (ki_Key info) info m) [] infos
          | _ \<Rightarrow> []);
          bootstrapKeys = filter (\<lambda>k. k \<noteq> []) (map trim_space pieces);
          m1 = (if m0 = [] then seed_bootstrap now bootstrapKeys m0 else m0)
      in if m1 = [] then
           (if auth_disable \<or> no_autobootstrap then m1
            else AList.update (''gw-'' @ random_key) (bootstrap_info now (''gw-'' @ random_key)) m1)
         else m1)"

definition Valid :: "string \<Rightarrow> manager \<Rightarrow> bool" where
  "Valid key m \<longleftrightarrow>
     (if m = [] then False
      else case map_of m key of None \<Rightarrow> False | Some info \<Rightarrow> \<not> ki_Disabled info)"

definition LookupKey :: "manager \<Rightarrow> string \<Rightarrow> (int \<times> int) option" where
  "LookupKey m key = map_option (\<lambda>info. (ki_RPM info, ki_Burst info)) (map_of m key)"

definition CountAdmins :: "manager \<Rightarrow> nat" where
  "CountAdmins m = length (filter (\<lambda>(k, info). ki_Role info = RoleAdmin \<and> \<not> ki_Disabled info) m)"

definition db_calls :: "bool \<Rightarrow> key_call list \<Rightarrow> key_call list" where
  "db_calls has_db cs = (if has_db then cs else [])"

definition AddWithRole ::
  "bool \<Rightarrow> gotime \<Rightarrow> string \<Rightarrow> string \<Rightarrow> string \<Rightarrow> string list option \<Rightarrow> int \<Rightarrow> int \<Rightarrow> int \<Rightarrow> manager \<Rightarrow>
   key_info \<times> manager \<times> key_call list" where
  "AddWithRole has_db now key name role allowedModels rpm burst tokenQuota m =
     (let info = \<lparr>ki_Key = key, ki_KeyMasked = MaskKey key, ki_Name = name,
            ki_Role = (if role = [] then RoleInference else role), ki_AllowedModels = allowedModels,
            ki_RPM = rpm, ki_Burst = burst, ki_TokenQuota = tokenQuota, ki_TokensUsed = 0,
            ki_Requests = 0, ki_CreatedAt = now, ki_Disabled = False\<rparr>
      in (info, AList.update key info m, db_calls has_db [Save_key (gatewayKeyDTOFromInfo info)]))"

definition Manager_Remove :: "bool \<Rightarrow> string \<Rightarrow> manager \<Rightarrow> manager \<times> key_call list" where
  "Manager_Remove has_db key m = (AList.delete key m, db_calls has_db [Delete_key key])"

text \<open>\<open>Update\<close>: the empty name, a nil list and negative numbers mean no change.\<close>

definition update_info ::
  "string \<Rightarrow> string \<Rightarrow> string list option \<Rightarrow> int \<Rightarrow> int \<Rightarrow> int \<Rightarrow> bool option \<Rightarrow> key_info \<Rightarrow> key_info" where
  "update_info name role allowedModels rpm burst tokenQuota disabled info =
     info\<lparr>ki_Name := (if name \<noteq> [] then name else ki_Name info),
          ki_Role := (if role = RoleAdmin \<or> role = RoleInference then role else ki_Role info),
          ki_AllowedModels := (case allowedModels of None \<Rightarrow> ki_AllowedModels info | Some ms \<Rightarrow> Some ms),
          ki_RPM := (if rpm \<ge> 0 then rpm else ki_RPM info),
          ki_Burst := (if burst \<ge> 0 then burst else ki_Burst info),
          ki_TokenQuota := (if tokenQuota \<ge> 0 then tokenQuota else ki_TokenQuota info),
          ki_Disabled := (case disabled of None \<Rightarrow> ki_Disabled info | Some b \<Rightarrow> b),
          ki_KeyMasked := MaskKey (ki_Key info)\<rparr>"

definition Manager_Update ::
  "bool \<Rightarrow> string \<Rightarrow> string \<Rightarrow> string \<Rightarrow> string list option \<Rightarrow> int \<Rightarrow> int \<Rightarrow> int \<Rightarrow> bool option \<Rightarrow> manager \<Rightarrow>
   bool \<times> manager \<times> key_call list" where
  "Manager_Update has_db key name role allowedModels rpm burst tokenQuota disabled m =
     (case map_of m key of
        None \<Rightarrow> (False, m, [])
      | Some info0 \<Rightarrow>
        (let info = update_info name role allowedModels rpm burst tokenQuota disabled info0
         in (True, AList.update key info m, db_calls has_db [Save_key (gatewayKeyDTOFromInfo info)])))"

definition IncrementTokens :: "bool \<Rightarrow> string \<Rightarrow> int \<Rightarrow> manager \<Rightarrow> manager \<times> key_call list" where
  "IncrementTokens has_db key amount m =
     (case map_of m key of
        None \<Rightarrow> (m, [])
      | Some info0 \<Rightarrow>
        (let info1 = info0\<lparr>ki_TokensUsed := wrap64 (ki_TokensUsed info0 + amount),
                          ki_Requests := wrap64 (ki_Requests info0 + 1)\<rparr>;
             info = (if ki_TokenQuota info1 > 0 \<and> ki_TokensUsed info1 \<ge> ki_TokenQuota info1
                     then info1\<lparr>ki_Disabled := True\<rparr> else info1)
         in (AList.update key info m,
             db_calls has_db ([Incr_tokens key amount, Incr_requests key] @
               (if ki_Disabled info then [Save_key (gatewayKeyDTOFromInfo info)] else [])))))"

definition IncrementRequests :: "bool \<Rightarrow> string \<Rightarrow> manager \<Rightarrow> manager \<times> key_call list" where
  "IncrementRequests has_db key m =
     (case map_of m key of
        None \<Rightarrow> (m, [])
      | Some info \<Rightarrow> (AList.update key (info\<lparr>ki_Requests := wrap64 (ki_Requests info + 1)\<rparr>) m,
                      db_calls has_db [Incr_requests key]))"

definition ResolveKey :: "string \<Rightarrow> manager \<Rightarrow> string option" where
  "ResolveKey keyOrMasked m =
     (case map_of m keyOrMasked of
        Some _ \<Rightarrow> Some keyOrMasked
      | None \<Rightarrow> map_option fst
          (find (\<lambda>(k, info). ki_KeyMasked info = keyOrMasked \<or> MaskKey k = keyOrMasked) m))"

section \<open>The middlewares\<close>

record http_request =
  rq_path :: string
  rq_authorization :: string
  rq_cookie :: "string option"
  rq_accept :: string

datatype mw_outcome =
    Go_next "string option"
  | Reply_json int
  | Redirect_login

definition public_paths :: "string list" where
  "public_paths = [''/health'', ''/'', ''/dashboard'', ''/login'', ''/logout'', ''/metrics'']"

text \<open>
  The key a request carries; \<open>sl\<close> resolves a session token and threads the session store. A
  cookie that is there but empty carries no key.
\<close>

definition request_key ::
  "(string \<Rightarrow> 's \<Rightarrow> string \<times> 's) option \<Rightarrow> http_request \<Rightarrow> 's \<Rightarrow> string \<times> 's" where
  "request_key sl req s =
     (if has_prefix (rq_authorization req) ''Bearer ''
      then (trim_prefix (rq_authorization req) ''Bearer '', s)
      else case rq_cookie req of
             None \<Rightarrow> ([], s)
           | Some ck \<Rightarrow>
             if ck = [] then ([], s)
             else (case sl of Some lookup \<Rightarrow> lookup ck s | None \<Rightarrow> (ck, s)))"

definition AuthMiddleware ::
  "bool \<Rightarrow> manager \<Rightarrow> (string \<Rightarrow> 's \<Rightarrow> string \<times> 's) option \<Rightarrow> http_request \<Rightarrow> 's \<Rightarrow> mw_outcome \<times> 's" where
  "AuthMiddleware authDisabled m sl req s =
     (let path = rq_path req in
      if path \<in> set public_paths then (Go_next None, s)
      else if authDisabled then (Go_next None, s)
      else if m = [] then (Reply_json 503, s)
      else
        let (key, s') = request_key sl req s in
        if key = [] then
          (if str_contains (rq_accept req) ''text/html'' \<and> \<not> has_prefix path ''/api/''
           then (Redirect_login, s') else (Reply_json 401, s'))
        else if \<not> Valid key m then
          (if rq_cookie req \<noteq> None \<and> str_contains (rq_accept req) ''text/html''
           then (Redirect_login, s') else (Reply_json 401, s'))
        else (Go_next (Some key), s'))"

definition AdminMiddleware :: "bool \<Rightarrow> manager \<Rightarrow> string option \<Rightarrow> mw_outcome" where
  "AdminMiddleware authDisabled m client_key =
     (if authDisabled then Go_next client_key
      else case client_key of
             None \<Rightarrow> Reply_json 401
           | Some k \<Rightarrow>
             (case map_of m k of
                None \<Rightarrow> Reply_json 401
              | Some info \<Rightarrow> if ki_Role info \<noteq> RoleAdmin then Reply_json 403 else Go_next client_key))"

section \<open>The management handlers\<close>

definition control_char :: "char \<Rightarrow> bool" where
  "control_char c \<longleftrightarrow> (of_char c :: nat) < 32 \<or> (of_char c :: nat) = 127"

record create_request =
  cq_name :: string
  cq_role :: string
  cq_models :: "string list option"
  cq_rpm :: int
  cq_burst :: int
  cq_quota :: int

definition HandleCreateKey ::
  "bool \<Rightarrow> gotime \<Rightarrow> string \<Rightarrow> create_request option \<Rightarrow> manager \<Rightarrow> int \<times> manager \<times> key_call list" where
  "HandleCreateKey has_db now newkey body m =
     (case body of
        None \<Rightarrow> (400, m, [])
      | Some req \<Rightarrow>
        (let name = (if cq_name req = [] then ''unnamed'' else cq_name req);
             role = (if cq_role req \<noteq> RoleAdmin \<and> cq_role req \<noteq> RoleInference then RoleInference else cq_role req)
         in if length name > 128 then (400, m, [])
            else if list_ex control_char name then (400, m, [])
            else
              let (_, m', cs) = AddWithRole has_db now newkey name role (cq_models req) (cq_rpm req)
                    (cq_burst req) (cq_quota req) m
              in (201, m', cs)))"

record update_request =
  uq_name :: "string option"
  uq_role :: "string option"
  uq_models :: "string list option option"
  uq_rpm :: "int option"
  uq_burst :: "int option"
  uq_quota :: "int option"
  uq_disabled :: "bool option"

text \<open>
  A deletion or an update goes through the manager's lock several times: it resolves the key,
  looks it up, counts the administrators and only then removes or changes it, and anything may
  happen in between. A job is such a request at the point it has reached; \<open>job_step\<close> is its
  next call on the manager. (\<open>CountAdmins\<close>, which takes the lock of each key in turn, is one call.)
\<close>

datatype key_job =
    Del_resolve string
  | Del_get string
  | Del_count string
  | Del_remove string
  | Upd_resolve string "update_request option"
  | Upd_get string update_request
  | Upd_count string update_request
  | Upd_write string update_request
  | Replied int

definition is_admin_key :: "string \<Rightarrow> manager \<Rightarrow> bool" where
  "is_admin_key k m \<longleftrightarrow> (case map_of m k of Some info \<Rightarrow> ki_Role info = RoleAdmin | None \<Rightarrow> False)"

definition update_start :: "string \<Rightarrow> update_request option \<Rightarrow> key_job" where
  "update_start fullKey body =
     (case body of
        None \<Rightarrow> Replied 400
      | Some req \<Rightarrow>
        (let name = (case uq_name req of None \<Rightarrow> [] | Some n \<Rightarrow> n)
         in if length name > 128 then Replied 400
            else if list_ex control_char name then Replied 400
            else if uq_role req = Some RoleInference then Upd_get fullKey req
            else Upd_write fullKey req))"

definition update_write :: "bool \<Rightarrow> string \<Rightarrow> update_request \<Rightarrow> manager \<Rightarrow> bool \<times> manager \<times> key_call list" where
  "update_write has_db fullKey req m =
     Manager_Update has_db fullKey (case uq_name req of None \<Rightarrow> [] | Some n \<Rightarrow> n)
       (case uq_role req of Some r \<Rightarrow> if r = RoleAdmin \<or> r = RoleInference then r else [] | None \<Rightarrow> [])
       (case uq_models req of None \<Rightarrow> None | Some ms \<Rightarrow> ms)
       (case uq_rpm req of None \<Rightarrow> -1 | Some v \<Rightarrow> v) (case uq_burst req of None \<Rightarrow> -1 | Some v \<Rightarrow> v)
       (case uq_quota req of None \<Rightarrow> -1 | Some v \<Rightarrow> v) (uq_disabled req) m"

fun job_step :: "bool \<Rightarrow> key_job \<Rightarrow> manager \<Rightarrow> key_job \<times> manager \<times> key_call list" where
  "job_step has_db (Del_resolve keyParam) m =
     (case ResolveKey keyParam m of None \<Rightarrow> (Replied 404, m, []) | Some k \<Rightarrow> (Del_get k, m, []))"
| "job_step has_db (Del_get k) m = (if is_admin_key k m then Del_count k else Del_remove k, m, [])"
| "job_step has_db (Del_count k) m = (if CountAdmins m \<le> 1 then Replied 409 else Del_remove k, m, [])"
| "job_step has_db (Del_remove k) m = (let (m', cs) = Manager_Remove has_db k m in (Replied 200, m', cs))"
| "job_step has_db (Upd_resolve keyParam body) m =
     (case ResolveKey keyParam m of None \<Rightarrow> (Replied 404, m, []) | Some k \<Rightarrow> (update_start k body, m, []))"
| "job_step has_db (Upd_get k req) m = (if is_admin_key k m then Upd_count k req else Upd_write k req, m, [])"
| "job_step has_db (Upd_count k req) m =
     (if CountAdmins m \<le> 1 then Replied 409 else Upd_write k req, m, [])"
| "job_step has_db (Upd_write k req) m =
     (let (ok, m', cs) = update_write has_db k req m in (Replied (if ok then 200 else 404), m', cs))"
| "job_step has_db (Replied status) m = (Replied status, m, [])"

text \<open>The handlers when nothing comes in between: four calls, the most there are.\<close>

fun run_job :: "bool \<Rightarrow> nat \<Rightarrow> key_job \<Rightarrow> manager \<Rightarrow> key_job \<times> manager \<times> key_call list" where
  "run_job has_db 0 job m = (job, m, [])"
| "run_job has_db (Suc n) job m =
     (let (job1, m1, cs1) = job_step has_db job m; (job2, m2, cs2) = run_job has_db n job1 m1
      in (job2, m2, cs1 @ cs2))"

definition HandleDeleteKey :: "bool \<Rightarrow> string \<Rightarrow> manager \<Rightarrow> key_job \<times> manager \<times> key_call list" where
  "HandleDeleteKey has_db keyParam m = run_job has_db 4 (Del_resolve keyParam) m"

definition HandleUpdateKey ::
  "bool \<Rightarrow> string \<Rightarrow> update_request option \<Rightarrow> manager \<Rightarrow> key_job \<times> manager \<times> key_call list" where
  "HandleUpdateKey has_db keyParam body m = run_job has_db 4 (Upd_resolve keyParam body) m"

text \<open>
  Requests that overlap: at most \<open>c\<close> deletions and updates are in flight, and between their
  calls keys are created (with a random name that is new) and tokens charged.
\<close>

datatype admin_event =
    Start_delete string
  | Start_update string "update_request option"
  | Advance nat
  | Create gotime string "create_request option"
  | Charge string int

definition is_replied :: "key_job \<Rightarrow> bool" where
  "is_replied job = (case job of Replied status \<Rightarrow> True | _ \<Rightarrow> False)"

fun admin_step :: "bool \<Rightarrow> nat \<Rightarrow> admin_event \<Rightarrow> manager \<times> key_job list \<Rightarrow> manager \<times> key_job list" where
  "admin_step has_db c (Start_delete p) (m, jobs) =
     (m, if length jobs < c then jobs @ [Del_resolve p] else jobs)"
| "admin_step has_db c (Start_update p body) (m, jobs) =
     (m, if length jobs < c then jobs @ [Upd_resolve p body] else jobs)"
| "admin_step has_db c (Advance i) (m, jobs) =
     (if i < length jobs then
        let (job', m', cs) = job_step has_db (jobs ! i) m
        in (m', if is_replied job' then take i jobs @ drop (Suc i) jobs else jobs[i := job'])
      else (m, jobs))"
| "admin_step has_db c (Create now newkey body) (m, jobs) =
     (if map_of m newkey = None then (fst (snd (HandleCreateKey has_db now newkey body m)), jobs)
      else (m, jobs))"
| "admin_step has_db c (Charge key amount) (m, jobs) = (fst (IncrementTokens has_db key amount m), jobs)"

definition admin_run :: "bool \<Rightarrow> nat \<Rightarrow> admin_event list \<Rightarrow> manager \<Rightarrow> manager \<times> key_job list" where
  "admin_run has_db c evs m = fold (admin_step has_db c) evs (m, [])"

section \<open>Lemmas on the manager\<close>

lemma map_of_update [simp]: "map_of (AList.update k v m) = (map_of m)(k \<mapsto> v)"
  by (simp add: update_conv')

lemma map_of_AList_delete [simp]: "map_of (AList.delete k m) = (map_of m)(k := None)"
  by (simp add: delete_conv')

lemma AList_update_nonempty [simp]: "AList.update k v m \<noteq> []"
  by (cases m) auto

lemma count_update:
  "map_of m k = Some old \<Longrightarrow>
   length (filter P (AList.update k v m)) + (if P (k, old) then 1 else 0) =
   length (filter P m) + (if P (k, v) then 1 else 0)"
  by (induction m) (auto split: if_splits)

lemma count_delete:
  "distinct (map fst m) \<Longrightarrow> map_of m k = Some old \<Longrightarrow>
   length (filter P (AList.delete k m)) + (if P (k, old) then 1 else 0) = length (filter P m)"
proof (induction m)
  case (Cons x m)
  have "AList.delete k m = m" if "k \<notin> fst ` set m"
    using that by (induction m) auto
  with Cons show ?case by (auto split: if_splits)
qed simp

definition active_admin :: "key_info \<Rightarrow> bool" where
  "active_admin info \<longleftrightarrow> ki_Role info = RoleAdmin \<and> \<not> ki_Disabled info"

lemma CountAdmins_alt: "CountAdmins m = length (filter (\<lambda>x. active_admin (snd x)) m)"
  by (simp add: CountAdmins_def active_admin_def case_prod_unfold)

lemma CountAdmins_update:
  "map_of m k = Some old \<Longrightarrow>
   CountAdmins (AList.update k v m) + of_bool (active_admin old) = CountAdmins m + of_bool (active_admin v)"
  using count_update [of m k old "\<lambda>x. active_admin (snd x)" v] by (auto simp: CountAdmins_alt)

lemma CountAdmins_delete:
  "distinct (map fst m) \<Longrightarrow> map_of m k = Some old \<Longrightarrow>
   CountAdmins (AList.delete k m) + of_bool (active_admin old) = CountAdmins m"
  using count_delete [of m k old "\<lambda>x. active_admin (snd x)"] by (auto simp: CountAdmins_alt)

lemma CountAdmins_zero: "CountAdmins m = 0 \<Longrightarrow> map_of m k = Some info \<Longrightarrow> \<not> active_admin info"
  by (fastforce simp: CountAdmins_alt filter_empty_conv dest: map_of_SomeD)

lemma ResolveKey_Some:
  assumes "ResolveKey p m = Some k"
  obtains info where "map_of m k = Some info"
proof -
  have "map_of m k \<noteq> None"
  proof (cases "map_of m p")
    case None
    with assms obtain x where "find (\<lambda>(k, info). ki_KeyMasked info = p \<or> MaskKey k = p) m = Some x" "k = fst x"
      by (auto simp: ResolveKey_def)
    then have "x \<in> set m" by (metis (no_types, lifting) find_Some_iff nth_mem)
    then have "k \<in> fst ` set m" using \<open>k = fst x\<close> by blast
    then show ?thesis by (simp add: map_of_eq_None_iff)
  next
    case (Some info)
    with assms show ?thesis by (simp add: ResolveKey_def)
  qed
  with that show ?thesis by blast
qed

lemma request_key_Pair: "request_key sl req s = (fst (request_key sl req s), snd (request_key sl req s))"
  by simp

lemma AuthMiddleware_next:
  assumes "rq_path req \<notin> set public_paths"
  shows "fst (AuthMiddleware False m sl req s) = Go_next ck \<longleftrightarrow>
         ck = Some (fst (request_key sl req s)) \<and> fst (request_key sl req s) \<noteq> [] \<and>
         Valid (fst (request_key sl req s)) m"
  using assms
  by (auto simp: AuthMiddleware_def Let_def split_beta Valid_def)

section \<open>Properties\<close>

text \<open>
  What a whitelist means. A key without a whitelist may use every model; otherwise a
  model is allowed exactly when some pattern is that model or ends in \<open>*\<close> with the rest a
  prefix of the model. (The branch for patterns ending in \<open>/*\<close> adds nothing.)
\<close>

lemma whitelist_semantics:
  "IsModelAllowed allowed model \<longleftrightarrow>
     elems allowed = [] \<or>
     (\<exists>p \<in> set (elems allowed). p = model \<or> (\<exists>q. p = q @ ''*'' \<and> has_prefix model q))"
proof -
  have "MatchModel p model \<longleftrightarrow> p = model \<or> (\<exists>q. p = q @ ''*'' \<and> has_prefix model q)" for p
  proof (cases "has_suffix p ''*''")
    case True
    then obtain q where q: "p = q @ ''*''" by (auto simp: has_suffix_iff)
    then have "trim_suffix p ''*'' = q" using trim_suffix_append by simp
    with True q show ?thesis by (auto simp: MatchModel_def)
  next
    case False
    then have "\<not> has_suffix p ''/*''" by (auto simp: has_suffix_iff)
    with False show ?thesis by (auto simp: MatchModel_def has_suffix_iff)
  qed
  then show ?thesis by (auto simp: IsModelAllowed_def list_ex_iff)
qed

lemma trim_space_blank: "set s \<subseteq> {CHR '' ''} \<Longrightarrow> trim_space s = []"
proof -
  have step: "strip_front space_encodings (CHR '' '' # s) = strip_front space_encodings s" for s
    by (subst strip_front.simps) (simp add: space_encodings_def go_string_simps)
  have nil: "strip_front ws [] = []" for ws
    using strip_front_suffix [of "[]" ws] by simp
  have "set s \<subseteq> {CHR '' ''} \<Longrightarrow> strip_front space_encodings s = []"
    by (induction s) (auto simp: step nil)
  then show "set s \<subseteq> {CHR '' ''} \<Longrightarrow> trim_space s = []" by (simp add: trim_space_def nil)
qed

definition blank :: "string \<Rightarrow> bool" where
  "blank s \<longleftrightarrow> set s \<subseteq> {CHR '' ''}"

lemma parse_models_blank: "\<forall>p \<in> set ms. blank p \<Longrightarrow> parse_models (join_comma ms) = None"
proof (cases "ms = []")
  case False
  assume b: "\<forall>p \<in> set ms. blank p"
  then have "split_comma (join_comma ms) = ms" using False by (intro split_join) (auto simp: blank_def)
  moreover have "map trim_space ms = map (\<lambda>_. []) ms"
    using b by (intro map_cong) (auto simp: blank_def intro: trim_space_blank)
  ultimately show ?thesis by (simp add: parse_models_def)
qed (simp add: parse_models_def)

text \<open>
  A restart can lift a restriction. A key whose whitelist has only blank patterns (which
  the create and update handlers accept) may use no named model; written to Redis and loaded
  again, as the next start of the gateway does, the same key may use every model.
\<close>

theorem whitelist_lost_on_reload:
  assumes "documented_encoding enc" and "ki_Key info \<noteq> []"
    and "ki_AllowedModels info = Some ms" and "ms \<noteq> []" and "\<forall>p \<in> set ms. blank p" and "\<not> blank model"
  shows "\<not> IsModelAllowed (ki_AllowedModels info) model \<and>
         (case parseGatewayKeyFromRedis (stored enc (SaveGatewayKey now (gatewayKeyDTOFromInfo info))) of
            None \<Rightarrow> False
          | Some dto \<Rightarrow> IsModelAllowed (ki_AllowedModels (infoFromDTO dto)) any_model)"
proof
  have "\<not> has_suffix p ''*''" if "blank p" for p using that by (auto simp: has_suffix_iff blank_def)
  moreover have "\<not> has_suffix p ''/*''" if "blank p" for p using that by (auto simp: has_suffix_iff blank_def)
  ultimately show "\<not> IsModelAllowed (ki_AllowedModels info) model"
    using assms(3-6) by (auto simp: IsModelAllowed_def MatchModel_def list_ex_iff)
  show "case parseGatewayKeyFromRedis (stored enc (SaveGatewayKey now (gatewayKeyDTOFromInfo info))) of
      None \<Rightarrow> False | Some dto \<Rightarrow> IsModelAllowed (ki_AllowedModels (infoFromDTO dto)) any_model"
    using assms(2,3) parse_models_blank [OF assms(5)]
    by (simp add: stored_fields [OF assms(1)] gatewayKeyDTOFromInfo_def infoFromDTO_def IsModelAllowed_def)
qed

theorem whitelist_lost_on_reload_witness:
  "\<not> IsModelAllowed (Some ['' '']) ''grok-4'' \<and>
   (case parseGatewayKeyFromRedis (stored go_redis_enc (SaveGatewayKey 0 (gatewayKeyDTOFromInfo
      ((bootstrap_info 0 ''gw-1'')\<lparr>ki_AllowedModels := Some ['' '']\<rparr>)))) of
      None \<Rightarrow> False | Some dto \<Rightarrow> IsModelAllowed (ki_AllowedModels (infoFromDTO dto)) ''grok-4'')"
  using whitelist_lost_on_reload [OF go_redis_enc,
      of "(bootstrap_info 0 ''gw-1'')\<lparr>ki_AllowedModels := Some ['' '']\<rparr>" "['' '']" "''grok-4''" "''grok-4''" 0]
  by (simp add: bootstrap_info_def blank_def)

text \<open>
  C7: Whom the two access middlewares let through to an administration endpoint. A request
  passes both exactly when authentication is switched off, or its path is not public and it
  carries (as a bearer token, or else through its session cookie) a registered key that is
  enabled and has the admin role. It passes the first one alone exactly when its path is
  public, authentication is off, or that key is registered and enabled. (The rate limiter and
  the guard against cross-site changes, which stand in the same chain, are added in the theory
  of the routes.)
\<close>

theorem admin_gate:
  fixes sl :: "(string \<Rightarrow> 's \<Rightarrow> string \<times> 's) option" and s :: 's and req :: http_request
  shows "((\<exists>ck. fst (AuthMiddleware off m sl req s) = Go_next ck \<and> AdminMiddleware off m ck = Go_next ck) \<longleftrightarrow>
          off \<or> (\<exists>info. rq_path req \<notin> set public_paths \<and> fst (request_key sl req s) \<noteq> [] \<and>
                  map_of m (fst (request_key sl req s)) = Some info \<and>
                  \<not> ki_Disabled info \<and> ki_Role info = RoleAdmin)) \<and>
         ((\<exists>ck. fst (AuthMiddleware off m sl req s) = Go_next ck) \<longleftrightarrow>
          rq_path req \<in> set public_paths \<or> off \<or>
          (\<exists>info. fst (request_key sl req s) \<noteq> [] \<and>
             map_of m (fst (request_key sl req s)) = Some info \<and> \<not> ki_Disabled info))"
proof (cases "rq_path req \<in> set public_paths \<or> off")
  case True
  then show ?thesis by (auto simp: AuthMiddleware_def AdminMiddleware_def Let_def)
next
  case False
  then have "off = False" "rq_path req \<notin> set public_paths" by simp_all
  then show ?thesis
    by (auto simp: AuthMiddleware_next AdminMiddleware_def Valid_def split: option.splits)
qed

theorem admin_gate_witness:
  "\<exists>ck. fst (AuthMiddleware False [(''gw-1'', bootstrap_info 0 ''gw-1'')] None
     \<lparr>rq_path = ''/api/keys'', rq_authorization = ''Bearer gw-1'', rq_cookie = None, rq_accept = []\<rparr> ()) = Go_next ck \<and>
     AdminMiddleware False [(''gw-1'', bootstrap_info 0 ''gw-1'')] ck = Go_next ck"
proof -
  let ?req = "\<lparr>rq_path = ''/api/keys'', rq_authorization = ''Bearer gw-1'', rq_cookie = None, rq_accept = []\<rparr>"
  have "has_prefix ''Bearer gw-1'' ''Bearer ''" "trim_prefix ''Bearer gw-1'' ''Bearer '' = ''gw-1''" by code_simp+
  then have k: "fst (request_key None ?req ()) = ''gw-1''" by (simp add: request_key_def)
  have "rq_path ?req \<notin> set public_paths" by (simp add: public_paths_def)
  with admin_gate [where off = False and req = ?req and sl = None and s = "()" and
    m = "[(''gw-1'', bootstrap_info 0 ''gw-1'')]", unfolded k]
  show ?thesis by (simp add: bootstrap_info_def)
qed

text \<open>
  Requests of one key that overlap: one is admitted when the key is valid and fewer than
  \<open>c\<close> are in flight, and is charged when it finishes. The list holds what each will cost.
\<close>

datatype gate_event = Admit int | Finish nat

definition gate_step :: "bool \<Rightarrow> nat \<Rightarrow> string \<Rightarrow> gate_event \<Rightarrow> manager \<times> int list \<Rightarrow> manager \<times> int list" where
  "gate_step has_db c key ev = (\<lambda>(m, flight).
     (case ev of
        Admit a \<Rightarrow> if Valid key m \<and> length flight < c then (m, flight @ [a]) else (m, flight)
      | Finish i \<Rightarrow>
          if i < length flight
          then (fst (IncrementTokens has_db key (flight ! i) m), take i flight @ drop (Suc i) flight)
          else (m, flight)))"

definition quota_inv :: "int \<Rightarrow> int \<Rightarrow> nat \<Rightarrow> string \<Rightarrow> manager \<times> int list \<Rightarrow> bool" where
  "quota_inv q M c key = (\<lambda>(m, flight).
     \<exists>info. map_of m key = Some info \<and> ki_TokenQuota info = q \<and> 0 \<le> ki_TokensUsed info \<and>
       (\<not> ki_Disabled info \<longrightarrow> ki_TokensUsed info < q) \<and> length flight \<le> c \<and>
       (\<forall>a \<in> set flight. 0 \<le> a \<and> a \<le> M) \<and>
       ki_TokensUsed info + sum_list flight \<le> q - 1 + int c * M)"

lemma sum_list_bound: "\<forall>a \<in> set xs. 0 \<le> a \<and> a \<le> (M :: int) \<Longrightarrow> 0 \<le> sum_list xs \<and> sum_list xs \<le> int (length xs) * M"
  by (induction xs) (auto simp: algebra_simps)

lemma sum_list_remove:
  "i < length xs \<Longrightarrow> sum_list (take i xs @ drop (Suc i) xs) = sum_list xs - (xs ! i :: int)"
  by (subst (2) id_take_nth_drop [of i xs]) simp_all

lemma quota_inv_admit:
  assumes "quota_inv q M c key (m, flight)" and "0 \<le> a" "a \<le> M"
  shows "quota_inv q M c key (gate_step has_db c key (Admit a) (m, flight))"
proof (cases "Valid key m \<and> length flight < c")
  case True
  from assms(1) obtain info where i: "map_of m key = Some info" "ki_TokenQuota info = q" "0 \<le> ki_TokensUsed info"
      "\<not> ki_Disabled info \<longrightarrow> ki_TokensUsed info < q" "\<forall>a \<in> set flight. 0 \<le> a \<and> a \<le> M"
    by (auto simp: quota_inv_def)
  have "ki_TokensUsed info < q" using True i by (auto simp: Valid_def split: if_splits)
  moreover have "sum_list (flight @ [a]) \<le> int (length (flight @ [a])) * M"
    using sum_list_bound [of "flight @ [a]" M] i(5) assms(2,3) by auto
  moreover have "int (length (flight @ [a])) * M \<le> int c * M"
    using True assms(2,3) by (intro mult_right_mono) auto
  ultimately have "ki_TokensUsed info + sum_list (flight @ [a]) \<le> q - 1 + int c * M" by linarith
  with True i assms(2,3) show ?thesis by (auto simp: gate_step_def quota_inv_def)
next
  case False
  then show ?thesis using assms(1) by (auto simp: gate_step_def)
qed

lemma quota_inv_finish:
  assumes "quota_inv q M c key (m, flight)" and "0 < q" and "q + int c * M < 2 ^ 63"
  shows "quota_inv q M c key (gate_step has_db c key (Finish i) (m, flight))"
proof (cases "i < length flight")
  case True
  from assms(1) obtain info where f: "map_of m key = Some info" "ki_TokenQuota info = q" "0 \<le> ki_TokensUsed info"
      "\<not> ki_Disabled info \<longrightarrow> ki_TokensUsed info < q" "\<forall>a \<in> set flight. 0 \<le> a \<and> a \<le> M" "length flight \<le> c"
      "ki_TokensUsed info + sum_list flight \<le> q - 1 + int c * M"
    by (auto simp: quota_inv_def)
  let ?rest = "take i flight @ drop (Suc i) flight"
  have rest: "\<forall>a \<in> set ?rest. 0 \<le> a \<and> a \<le> M" using f(5) by (auto dest: in_set_takeD in_set_dropD)
  have sum: "sum_list ?rest = sum_list flight - flight ! i" by (rule sum_list_remove [OF True])
  have "0 \<le> sum_list ?rest" using sum_list_bound [OF rest] by simp
  moreover have "0 \<le> flight ! i" using f(5) True by simp
  ultimately have "wrap64 (ki_TokensUsed info + flight ! i) = ki_TokensUsed info + flight ! i"
    using f(3,7) assms(3) sum by (intro wrap64_id) linarith+
  with f rest sum \<open>0 \<le> flight ! i\<close> True assms(2) show ?thesis
    by (auto simp: gate_step_def quota_inv_def IncrementTokens_def Let_def)
next
  case False
  then show ?thesis using assms(1) by (auto simp: gate_step_def)
qed

text \<open>
  C9: A token quota holds under concurrency, up to the requests in flight. Start with an
  enabled key below its quota \<open>q\<close>, let requests costing at most \<open>M\<close> tokens each be admitted and
  charged in any interleaving with at most \<open>c\<close> in flight: never more than \<open>q - 1 + c * M\<close> tokens
  are consumed, and once the quota is reached the key is disabled.
\<close>

theorem quota_overrun_bounded:
  assumes "map_of m key = Some info" and "ki_TokenQuota info = q" and "0 < q" and "\<not> ki_Disabled info"
    and "0 \<le> ki_TokensUsed info" and "ki_TokensUsed info < q" and "0 \<le> M" and "q + int c * M < 2 ^ 63"
    and "\<forall>a. Admit a \<in> set evs \<longrightarrow> 0 \<le> a \<and> a \<le> M"
  shows "\<exists>info'. map_of (fst (fold (gate_step has_db c key) evs (m, []))) key = Some info' \<and>
           ki_TokensUsed info' \<le> q - 1 + int c * M \<and> (q \<le> ki_TokensUsed info' \<longrightarrow> ki_Disabled info')"
proof -
  have "quota_inv q M c key (fold (gate_step has_db c key) evs s)"
    if "quota_inv q M c key s" "\<forall>a. Admit a \<in> set evs \<longrightarrow> 0 \<le> a \<and> a \<le> M" for s
    using that
  proof (induction evs arbitrary: s)
    case (Cons ev evs)
    obtain m' fl where s: "s = (m', fl)" by (cases s)
    have "quota_inv q M c key (gate_step has_db c key ev s)"
      using Cons.prems quota_inv_admit quota_inv_finish assms(3,8) unfolding s by (cases ev) auto
    with Cons show ?case by simp
  qed simp
  moreover have "quota_inv q M c key (m, [])"
    using assms(1-7) by (auto simp: quota_inv_def intro: add_increasing2)
  ultimately have "quota_inv q M c key (fold (gate_step has_db c key) evs (m, []))" using assms(9) by blast
  then obtain info' fl where "map_of (fst (fold (gate_step has_db c key) evs (m, []))) key = Some info'"
      "\<not> ki_Disabled info' \<longrightarrow> ki_TokensUsed info' < q" "\<forall>a \<in> set fl. 0 \<le> a \<and> a \<le> M"
      "ki_TokensUsed info' + sum_list fl \<le> q - 1 + int c * M"
    by (auto simp: quota_inv_def split: prod.splits)
  moreover from this(3) have "0 \<le> sum_list fl" using sum_list_bound by blast
  ultimately show ?thesis by (intro exI [of _ info']) auto
qed

definition quota_key :: key_info where
  "quota_key = (bootstrap_info 0 ''k'')\<lparr>ki_TokenQuota := 100, ki_TokensUsed := 90\<rparr>"

theorem quota_overrun_bounded_witness:
  "\<exists>info'. map_of (fst (fold (gate_step True 2 ''k'') [Admit 30, Admit 20, Finish 0, Admit 5, Finish 0]
      ([(''k'', quota_key)], []))) ''k'' = Some info' \<and>
     ki_TokensUsed info' \<le> 159 \<and> (100 \<le> ki_TokensUsed info' \<longrightarrow> ki_Disabled info')"
  using quota_overrun_bounded [of "[(''k'', quota_key)]" "''k''" quota_key 100 30 2
      "[Admit 30, Admit 20, Finish 0, Admit 5, Finish 0]" True]
  by (auto simp: quota_key_def bootstrap_info_def)

section \<open>The last administrator\<close>

text \<open>Four steps answer: the handlers as one undisturbed run, written out.\<close>

lemma run_job_simps:
  "run_job has_db 4 job m =
     (let (job1, m1, cs1) = job_step has_db job m; (job2, m2, cs2) = job_step has_db job1 m1;
          (job3, m3, cs3) = job_step has_db job2 m2; (job4, m4, cs4) = job_step has_db job3 m3
      in (job4, m4, cs1 @ cs2 @ cs3 @ cs4))"
  by (simp add: numeral_eq_Suc split_beta Let_def)

lemma undisturbed_delete:
  "HandleDeleteKey has_db p m =
     (case ResolveKey p m of
        None \<Rightarrow> (Replied 404, m, [])
      | Some k \<Rightarrow>
          if is_admin_key k m \<and> CountAdmins m \<le> 1 then (Replied 409, m, [])
          else (Replied 200, AList.delete k m, db_calls has_db [Delete_key k]))"
  by (simp add: HandleDeleteKey_def run_job_simps Manager_Remove_def split: option.split)

lemma undisturbed_update:
  "HandleUpdateKey has_db p body m =
     (case ResolveKey p m of
        None \<Rightarrow> (Replied 404, m, [])
      | Some k \<Rightarrow>
          (case update_start k body of
             Upd_get k req \<Rightarrow>
               if is_admin_key k m \<and> CountAdmins m \<le> 1 then (Replied 409, m, [])
               else let (ok, m', cs) = update_write has_db k req m in (Replied (if ok then 200 else 404), m', cs)
           | Upd_write k req \<Rightarrow>
               let (ok, m', cs) = update_write has_db k req m in (Replied (if ok then 200 else 404), m', cs)
           | job \<Rightarrow> (job, m, [])))"
  by (simp add: HandleUpdateKey_def run_job_simps update_start_def split_beta Let_def split: option.split)

text \<open>An enabled administrator that a step leaves registered but disabled.\<close>

definition disables :: "manager \<Rightarrow> manager \<Rightarrow> bool" where
  "disables m m' \<longleftrightarrow>
     list_ex (\<lambda>(k, info). active_admin info \<and>
       (case map_of m' k of Some i \<Rightarrow> ki_Disabled i | None \<Rightarrow> False)) m"

lemma disablesI:
  "map_of m k = Some info \<Longrightarrow> active_admin info \<Longrightarrow> map_of m' k = Some i \<Longrightarrow> ki_Disabled i \<Longrightarrow> disables m m'"
  unfolding disables_def list_ex_iff by (rule bexI [of _ "(k, info)"]) (auto dest: map_of_SomeD)

text \<open>The key may go without taking the last administrator along.\<close>

definition spare :: "manager \<Rightarrow> string \<Rightarrow> bool" where
  "spare m k \<longleftrightarrow> (\<forall>info. map_of m k = Some info \<longrightarrow> active_admin info \<longrightarrow> 2 \<le> CountAdmins m)"

fun job_ok :: "manager \<Rightarrow> key_job \<Rightarrow> bool" where
  "job_ok m (Del_get k) = (map_of m k \<noteq> None)"
| "job_ok m (Del_count k) = (map_of m k \<noteq> None)"
| "job_ok m (Del_remove k) = (map_of m k \<noteq> None \<and> spare m k)"
| "job_ok m (Upd_get k req) = (map_of m k \<noteq> None \<and> uq_role req = Some RoleInference)"
| "job_ok m (Upd_count k req) = (map_of m k \<noteq> None \<and> uq_role req = Some RoleInference)"
| "job_ok m (Upd_write k req) = (map_of m k \<noteq> None \<and> (uq_role req = Some RoleInference \<longrightarrow> spare m k))"
| "job_ok m job = True"

definition admins_inv :: "manager \<times> key_job list \<Rightarrow> bool" where
  "admins_inv = (\<lambda>(m, jobs). distinct (map fst m) \<and> 1 \<le> CountAdmins m \<and>
     (jobs = [] \<or> (\<exists>job. jobs = [job] \<and> job_ok m job)))"

lemma update_fresh: "map_of m k = None \<Longrightarrow> AList.update k v m = m @ [(k, v)]"
  by (induction m) (auto split: if_splits)

lemma CountAdmins_fresh: "map_of m k = None \<Longrightarrow> CountAdmins m \<le> CountAdmins (AList.update k v m)"
  by (simp add: update_fresh CountAdmins_alt)

text \<open>What the other requests may do to the keys without disturbing a job in flight.\<close>

definition harmless :: "manager \<Rightarrow> manager \<Rightarrow> bool" where
  "harmless m m' \<longleftrightarrow> CountAdmins m \<le> CountAdmins m' \<and>
     (\<forall>k info. map_of m k = Some info \<longrightarrow>
        (\<exists>info'. map_of m' k = Some info' \<and> (active_admin info' \<longrightarrow> active_admin info)))"

lemma harmless_refl: "harmless m m"
  by (auto simp: harmless_def)

lemma harmless_job_ok: "harmless m m' \<Longrightarrow> job_ok m job \<Longrightarrow> job_ok m' job"
  by (cases job) (force simp: harmless_def spare_def)+

lemma harmless_create:
  assumes "map_of m k = None"
  shows "harmless m (AList.update k v m)"
  using assms CountAdmins_fresh [OF assms, of v] by (auto simp: harmless_def)

lemma charge_harmless:
  assumes "\<not> disables m (fst (IncrementTokens has_db key amount m))"
  shows "harmless m (fst (IncrementTokens has_db key amount m))"
proof (cases "map_of m key")
  case None
  then show ?thesis by (simp add: IncrementTokens_def harmless_refl)
next
  case (Some info)
  obtain v where v: "fst (IncrementTokens has_db key amount m) = AList.update key v m"
      "ki_Role v = ki_Role info" "ki_Disabled info \<longrightarrow> ki_Disabled v"
    using Some by (auto simp: IncrementTokens_def Let_def)
  have "active_admin v \<longleftrightarrow> active_admin info"
    using disablesI [OF Some, of "AList.update key v m" v] assms v by (auto simp: active_admin_def)
  with CountAdmins_update [OF Some, of v] Some show ?thesis unfolding v(1) by (auto simp: harmless_def)
qed

lemma IncrementTokens_distinct: "distinct (map fst m) \<Longrightarrow> distinct (map fst (fst (IncrementTokens has_db key amount m)))"
  by (auto simp: IncrementTokens_def Let_def distinct_update split: option.split)

lemma Create_effect:
  "fst (snd (HandleCreateKey has_db now newkey body m)) = m \<or>
   (\<exists>v. fst (snd (HandleCreateKey has_db now newkey body m)) = AList.update newkey v m)"
  by (auto simp: HandleCreateKey_def AddWithRole_def Let_def split: option.split)

text \<open>A job that is alone keeps an administrator at each of its calls.\<close>

lemma update_write_effect:
  assumes "map_of m k = Some info"
  obtains v where "fst (snd (update_write has_db k req m)) = AList.update k v m"
    and "ki_Role v = ki_Role info \<or> uq_role req = Some (ki_Role v) \<and> (ki_Role v = RoleAdmin \<or> ki_Role v = RoleInference)"
proof -
  let ?role = "case uq_role req of Some r \<Rightarrow> if r = RoleAdmin \<or> r = RoleInference then r else [] | None \<Rightarrow> []"
  obtain n ms r b q d where v: "fst (snd (update_write has_db k req m)) =
      AList.update k (update_info n ?role ms r b q d info) m"
    using assms by (simp add: update_write_def Manager_Update_def Let_def)
  show ?thesis
    by (rule that [OF v])
      (auto simp: update_info_def RoleAdmin_def RoleInference_def split: option.split if_splits)
qed

lemma write_keeps:
  assumes "distinct (map fst m)" "1 \<le> CountAdmins m" "job_ok m (Upd_write k req)"
    and "\<not> disables m (fst (snd (update_write has_db k req m)))"
  shows "1 \<le> CountAdmins (fst (snd (update_write has_db k req m)))"
proof -
  obtain info where info: "map_of m k = Some info" using assms(3) by auto
  obtain v where v: "fst (snd (update_write has_db k req m)) = AList.update k v m"
      "ki_Role v = ki_Role info \<or> uq_role req = Some (ki_Role v) \<and> (ki_Role v = RoleAdmin \<or> ki_Role v = RoleInference)"
    by (rule update_write_effect [OF info])
  have "active_admin info \<longrightarrow> active_admin v \<or> 2 \<le> CountAdmins m"
    using disablesI [OF info, of "AList.update k v m" v] assms(3,4) v info
    by (auto simp: active_admin_def spare_def)
  with CountAdmins_update [OF info, of v] assms(2) show ?thesis
    unfolding v(1) by (cases "active_admin info"; cases "active_admin v") auto
qed

lemma remove_keeps:
  assumes "distinct (map fst m)" "1 \<le> CountAdmins m" "job_ok m (Del_remove k)"
  shows "1 \<le> CountAdmins (AList.delete k m)"
proof -
  obtain info where info: "map_of m k = Some info" using assms(3) by auto
  with CountAdmins_delete [OF assms(1) info] assms(2,3) show ?thesis
    by (cases "active_admin info") (auto simp: spare_def)
qed

lemma resolved: "ResolveKey p m = Some k \<Longrightarrow> map_of m k \<noteq> None"
  using ResolveKey_Some by blast

lemma job_keeps:
  assumes "distinct (map fst m)" "1 \<le> CountAdmins m" "job_ok m job"
    and "\<not> disables m (fst (snd (job_step has_db job m)))"
  shows "distinct (map fst (fst (snd (job_step has_db job m)))) \<and>
         1 \<le> CountAdmins (fst (snd (job_step has_db job m))) \<and>
         (is_replied (fst (job_step has_db job m)) \<or>
          fst (snd (job_step has_db job m)) = m \<and> job_ok m (fst (job_step has_db job m)))"
proof (cases job)
  case (Del_remove k)
  with assms remove_keeps [of m k] show ?thesis
    by (simp add: Manager_Remove_def is_replied_def distinct_delete)
next
  case (Upd_write k req)
  then obtain info where "map_of m k = Some info" using assms(3) by auto
  then obtain v where "fst (snd (update_write has_db k req m)) = AList.update k v m"
    by (rule update_write_effect)
  with Upd_write assms write_keeps [of m k req has_db] show ?thesis
    by (simp add: is_replied_def split_beta distinct_update)
next
  case (Upd_resolve p body)
  with assms(1,2) resolved [of p m] show ?thesis
    by (auto simp: update_start_def is_replied_def Let_def simp del: map_of_eq_Some_iff split: option.split)
next
  case (Del_resolve p)
  with assms(1,2) resolved [of p m] show ?thesis
    by (auto simp: is_replied_def simp del: map_of_eq_Some_iff split: option.split)
qed (use assms in \<open>auto simp: is_replied_def is_admin_key_def spare_def active_admin_def
       simp del: map_of_eq_Some_iff split: option.splits\<close>)

lemma admins_inv_step:
  assumes "admins_inv s" and "\<not> disables (fst s) (fst (admin_step has_db 1 e s))"
  shows "admins_inv (admin_step has_db 1 e s)"
proof -
  obtain m jobs where s: "s = (m, jobs)" by (cases s)
  from assms(1) have inv: "distinct (map fst m)" "1 \<le> CountAdmins m"
      "jobs = [] \<or> (\<exists>job. jobs = [job] \<and> job_ok m job)"
    by (auto simp: admins_inv_def s)
  have env: "admins_inv (m', jobs)" if "harmless m m'" "distinct (map fst m')" for m'
    using that inv harmless_job_ok [OF that(1)] by (auto simp: admins_inv_def harmless_def)
  show ?thesis
  proof (cases e)
    case (Advance i)
    show ?thesis
    proof (cases "i < length jobs")
      case True
      then obtain job where "jobs = [job]" "job_ok m job" "i = 0" using inv(3) by auto
      with Advance assms(2) job_keeps [OF inv(1,2), of job has_db] show ?thesis
        by (auto simp: admins_inv_def s split_beta Let_def split: if_splits)
    next
      case False
      with Advance assms(1) show ?thesis by (simp add: s)
    qed
  next
    case (Create now newkey body)
    with inv env [OF harmless_refl] env [OF harmless_create] Create_effect [of has_db now newkey body m]
    show ?thesis by (auto simp: s distinct_update)
  next
    case (Charge key amount)
    with env [OF charge_harmless IncrementTokens_distinct [OF inv(1)]] assms(2) show ?thesis
      by (simp add: s)
  qed (use inv in \<open>auto simp: s admins_inv_def\<close>)
qed

text \<open>
  C10: The last enabled administrator cannot be deleted or demoted, as long as deletions and
  updates come one at a time. Start with an enabled admin key and let at most one deletion or
  update of a key be in flight, each of its calls on the manager a step of its own, with any
  creations of keys and charges of tokens in between: there is always an enabled admin key, or
  some step has disabled one (an update that disables a key, or a charge that exhausts its quota,
  which nothing guards; \<open>last_admin_lockout\<close>). With two in flight this fails
  (\<open>two_deletions_lock_out\<close>).
\<close>

theorem last_admin_kept:
  assumes "distinct (map fst m)" and "1 \<le> CountAdmins m"
  shows "1 \<le> CountAdmins (fst (admin_run has_db 1 evs m)) \<or>
         (\<exists>es e es'. evs = es @ e # es' \<and>
            disables (fst (admin_run has_db 1 es m)) (fst (admin_run has_db 1 (es @ [e]) m)))"
proof -
  have "admins_inv (admin_run has_db 1 evs m)"
    if "\<nexists>es e es'. evs = es @ e # es' \<and>
          disables (fst (admin_run has_db 1 es m)) (fst (admin_run has_db 1 (es @ [e]) m))"
    using that
  proof (induction evs rule: rev_induct)
    case Nil
    then show ?case using assms by (simp add: admin_run_def admins_inv_def)
  next
    case (snoc e evs)
    have "admins_inv (admin_run has_db 1 evs m)" by (rule snoc.IH) (use snoc.prems in fastforce)
    moreover have "\<not> disables (fst (admin_run has_db 1 evs m)) (fst (admin_run has_db 1 (evs @ [e]) m))"
      using snoc.prems by blast
    ultimately show ?case using admins_inv_step by (simp add: admin_run_def)
  qed
  then show ?thesis by (auto simp: admins_inv_def)
qed

definition disable_request :: update_request where
  "disable_request = \<lparr>uq_name = None, uq_role = None, uq_models = None, uq_rpm = None, uq_burst = None,
     uq_quota = None, uq_disabled = Some True\<rparr>"

theorem last_admin_kept_witness:
  "\<exists>es e es'. [Start_delete ''a'', Advance 0, Advance 0, Advance 0, Start_update ''a'' (Some disable_request),
       Advance 0, Charge ''a'' 5, Advance 0] = es @ e # es' \<and>
     disables (fst (admin_run True 1 es [(''a'', bootstrap_info 0 ''a'')]))
       (fst (admin_run True 1 (es @ [e]) [(''a'', bootstrap_info 0 ''a'')]))"
proof -
  have "CountAdmins (fst (admin_run True 1 [Start_delete ''a'', Advance 0, Advance 0, Advance 0,
      Start_update ''a'' (Some disable_request), Advance 0, Charge ''a'' 5, Advance 0]
      [(''a'', bootstrap_info 0 ''a'')])) = 0"
    by code_simp
  with last_admin_kept [of "[(''a'', bootstrap_info 0 ''a'')]" True "[Start_delete ''a'', Advance 0,
      Advance 0, Advance 0, Start_update ''a'' (Some disable_request), Advance 0, Charge ''a'' 5, Advance 0]"]
  show ?thesis by (simp add: CountAdmins_alt active_admin_def bootstrap_info_def)
qed

text \<open>
  Two deletions in flight remove both of the last two administrators: each counts two before
  the other removes.
\<close>

lemma two_deletions_lock_out:
  assumes "distinct (map fst m)" and "a \<noteq> b" and "CountAdmins m = 2"
    and "map_of m a = Some i" "active_admin i" "map_of m b = Some j" "active_admin j"
  shows "CountAdmins (fst (admin_run has_db 2
     [Start_delete a, Start_delete b, Advance 0, Advance 1, Advance 0, Advance 1, Advance 0, Advance 1,
      Advance 0, Advance 0] m)) = 0"
proof -
  have "CountAdmins (AList.delete a m) = 1"
    using CountAdmins_delete [OF assms(1,4)] assms(3,5) by simp
  moreover have "distinct (map fst (AList.delete a m))" "map_of (AList.delete a m) b = Some j"
    using assms(1,2,6) by (simp_all add: distinct_delete)
  ultimately have "CountAdmins (AList.delete b (AList.delete a m)) = 0"
    using CountAdmins_delete [of "AList.delete a m" b j] assms(7) by simp
  moreover have "is_admin_key a m" "is_admin_key b m"
    using assms(4-7) by (simp_all add: is_admin_key_def active_admin_def)
  ultimately show ?thesis
    using assms(3,4,6) by (simp add: admin_run_def ResolveKey_def Manager_Remove_def is_replied_def)
qed

text \<open>
  The last administrator can disable itself for good. An update that disables the only
  enabled admin key is answered with 200; after it no key passes the admin middleware, for any
  request outside the public paths, so no request can undo it.
\<close>

theorem last_admin_lockout:
  fixes sl :: "(string \<Rightarrow> 's \<Rightarrow> string \<times> 's) option" and has_db :: bool and r :: http_request
  assumes "map_of m k = Some info" and "active_admin info" and "CountAdmins m = 1"
  defines "req \<equiv> \<lparr>uq_name = None, uq_role = None, uq_models = None, uq_rpm = None, uq_burst = None,
                 uq_quota = None, uq_disabled = Some True\<rparr>"
  defines "m' \<equiv> fst (snd (HandleUpdateKey has_db k (Some req) m))"
  shows "fst (HandleUpdateKey has_db k (Some req) m) = Replied 200 \<and>
         (rq_path r \<notin> set public_paths \<longrightarrow>
           \<not> (\<exists>ck. fst (AuthMiddleware False m' sl r s) = Go_next ck \<and> AdminMiddleware False m' ck = Go_next ck))"
proof -
  let ?v = "update_info [] [] None (-1) (-1) (-1) (Some True) info"
  have upd: "HandleUpdateKey has_db k (Some req) m =
      (Replied 200, AList.update k ?v m, db_calls has_db [Save_key (gatewayKeyDTOFromInfo ?v)])"
    using assms(1) by (simp add: undisturbed_update ResolveKey_def req_def update_start_def update_write_def
        Manager_Update_def Let_def)
  have "\<not> active_admin ?v" by (simp add: active_admin_def update_info_def)
  with CountAdmins_update [OF assms(1), of ?v] assms(2,3) have "CountAdmins m' = 0"
    by (simp add: m'_def upd)
  then have none: "\<not> (ki_Role i = RoleAdmin \<and> \<not> ki_Disabled i)" if "map_of m' k' = Some i" for k' i
    using CountAdmins_zero that by (auto simp: active_admin_def)
  have "\<not> (\<exists>ck. fst (AuthMiddleware False m' sl r s) = Go_next ck \<and> AdminMiddleware False m' ck = Go_next ck)"
    if "rq_path r \<notin> set public_paths"
    unfolding AuthMiddleware_next [OF that] using none
    by (auto simp: AdminMiddleware_def Valid_def split: option.splits if_splits)
  then show ?thesis by (simp add: upd)
qed

theorem last_admin_lockout_witness:
  "fst (HandleUpdateKey True ''a'' (Some \<lparr>uq_name = None, uq_role = None, uq_models = None, uq_rpm = None,
      uq_burst = None, uq_quota = None, uq_disabled = Some True\<rparr>) [(''a'', bootstrap_info 0 ''a'')]) = Replied 200"
  using last_admin_lockout [of "[(''a'', bootstrap_info 0 ''a'')]" "''a''" "bootstrap_info 0 ''a''" True
      "\<lparr>rq_path = [], rq_authorization = [], rq_cookie = None, rq_accept = []\<rparr>" None "()"]
  by (simp add: CountAdmins_alt active_admin_def bootstrap_info_def)

end
