(* ===== verification/Session.thy ===== *)
theory Session
  imports Auth
begin

text \<open>
  Dashboard sessions: \<open>internal/auth/session_store.go\<close>. A cookie holds a random token, which
  the store maps to the API key it was issued for. The in-memory map is the state; what Redis
  answers (whether a \<open>Set\<close> failed, what a \<open>Get\<close> returned) is an argument, and the commands
  sent to it are part of the result. The middleware of \<open>Auth\<close> sees the store only as its
  lookup function, the locale \<open>session_lookup\<close>.
\<close>

section \<open>The store\<close>

record session =
  se_key :: string
  se_createdAt :: gotime
  se_lastSeen :: gotime

type_synonym session_map = "string \<Rightarrow> session option"

datatype session_cmd =
    Redis_set string string
  | Redis_del string

definition SessionIdleTTL :: duration where "SessionIdleTTL = 30 * 24 * hour"

definition sessionKeyPrefix :: string where "sessionKeyPrefix = ''sess:''"

definition session_val :: "string \<Rightarrow> int \<Rightarrow> int \<Rightarrow> string" where
  "session_val apiKey created prev =
     apiKey @ ''|'' @ show_int created @ ''|'' @ show_int prev"

text \<open>
  \<open>fmt.Sscanf\<close> reading into a string operand: the verbs \<open>s\<close>, \<open>v\<close>, \<open>q\<close>, \<open>x\<close> and \<open>X\<close> scan a token
  (\<open>token\<close>), any other verb is an error and leaves the operand and the ones after it as they
  are. \<open>rest\<close> is what the remaining format gives once the operand has been scanned.
\<close>

definition Sscanf_string :: "(char \<Rightarrow> string \<Rightarrow> string option) \<Rightarrow> char \<Rightarrow> string \<Rightarrow> string option" where
  "Sscanf_string token verb s = (if verb \<in> set ''svqxX'' then token verb s else None)"

definition parseSessionVal ::
  "(char \<Rightarrow> string \<Rightarrow> string option) \<Rightarrow> (string \<Rightarrow> string \<Rightarrow> string \<times> int \<times> int) \<Rightarrow> string \<Rightarrow> string \<times> int \<times> int" where
  "parseSessionVal token rest val =
     (case Sscanf_string token (CHR ''['') val of
        None \<Rightarrow> ([], 0, 0)
      | Some apiKey \<Rightarrow> rest apiKey val)"

text \<open>\<open>redis\<close> is \<open>None\<close> without a client, else whether the \<open>Set\<close> failed.\<close>

definition Session_Create ::
  "bool option \<Rightarrow> string option \<Rightarrow> gotime \<Rightarrow> string \<Rightarrow> session_map \<Rightarrow> string option \<times> session_map \<times> session_cmd list" where
  "Session_Create redis random now apiKey s =
     (case random of
        None \<Rightarrow> (None, s, [])
      | Some token \<Rightarrow>
        (let sess = \<lparr>se_key = apiKey, se_createdAt = now, se_lastSeen = now\<rparr> in
         case redis of
           Some set_failed \<Rightarrow>
             (Some token, if set_failed then s(token \<mapsto> sess) else s,
              [Redis_set (sessionKeyPrefix @ token) (session_val apiKey (unix_seconds now) (unix_seconds now))])
         | None \<Rightarrow> (Some token, s(token \<mapsto> sess), [])))"

definition local_lookup :: "gotime \<Rightarrow> string \<Rightarrow> session_map \<Rightarrow> string \<times> session_map" where
  "local_lookup now token s =
     (if token = [] then ([], s)
      else case s token of
             None \<Rightarrow> ([], s)
           | Some sess \<Rightarrow>
             if time_sub now (se_lastSeen sess) > SessionIdleTTL then ([], s(token := None))
             else (se_key sess, s(token \<mapsto> sess\<lparr>se_lastSeen := now\<rparr>)))"

definition redis_lookup ::
  "(char \<Rightarrow> string \<Rightarrow> string option) \<Rightarrow> (string \<Rightarrow> string \<Rightarrow> string \<times> int \<times> int) \<Rightarrow>
   gotime \<Rightarrow> string option \<Rightarrow> string \<Rightarrow> string \<times> session_cmd list" where
  "redis_lookup tok rest now got token =
     (if token = [] then ([], [])
      else
        let key = sessionKeyPrefix @ token in
        case got of
          None \<Rightarrow> ([], [])
        | Some val \<Rightarrow>
          (let (apiKey, createdAt, lastSeen) = parseSessionVal tok rest val in
           if apiKey = [] then ([], [])
           else if time_sub now (from_unix lastSeen) > SessionIdleTTL then ([], [Redis_del key])
           else (apiKey, [Redis_set key (session_val apiKey createdAt (unix_seconds now))])))"

definition Session_Revoke :: "bool \<Rightarrow> string \<Rightarrow> session_map \<Rightarrow> session_map \<times> session_cmd list" where
  "Session_Revoke has_redis token s =
     (if token = [] then (s, [])
      else if has_redis then (s, [Redis_del (sessionKeyPrefix @ token)])
      else (s(token := None), []))"

definition Session_cleanup :: "gotime \<Rightarrow> session_map \<Rightarrow> session_map" where
  "Session_cleanup now s =
     (\<lambda>token. case s token of
        None \<Rightarrow> None
      | Some sess \<Rightarrow> if time_sub now (se_lastSeen sess) > SessionIdleTTL then None else Some sess)"

lemma parseSessionVal_empty [simp]: "parseSessionVal tok rest val = ([], 0, 0)"
  by (simp add: parseSessionVal_def Sscanf_string_def)

lemma redis_lookup_empty: "redis_lookup tok rest now got token = ([], [])"
  by (simp add: redis_lookup_def Let_def split: option.split)

section \<open>The interface of the middleware\<close>

text \<open>
  What the middleware relies on: a lookup answers with the key a session is bound to or with
  nothing, and creates no binding.
\<close>

locale session_lookup =
  fixes lookup :: "'i \<Rightarrow> string \<Rightarrow> 's \<Rightarrow> string \<times> 's"
    and bound :: "'s \<Rightarrow> string \<Rightarrow> string option"
  assumes lookup_bound: "fst (lookup x token s) \<noteq> [] \<Longrightarrow> bound s token = Some (fst (lookup x token s))"
    and lookup_keeps: "bound (snd (lookup x token s)) token' = Some k \<Longrightarrow> bound s token' = Some k"
begin

text \<open>Who passes without a bearer token came with the token of a session bound to that key.\<close>

lemma cookie_pass:
  assumes "rq_path req \<notin> set public_paths" and "\<not> has_prefix (rq_authorization req) ''Bearer ''"
    and "fst (AuthMiddleware False m (Some (lookup x)) req s) = Go_next ck"
  shows "\<exists>token key. rq_cookie req = Some token \<and> bound s token = Some key \<and> ck = Some key \<and> Valid key m"
  using assms(3) lookup_bound
  unfolding AuthMiddleware_next [OF assms(1)]
  by (auto simp: request_key_def assms(2) split: option.splits if_splits)

end

definition local_bound :: "session_map \<Rightarrow> string \<Rightarrow> string option" where
  "local_bound s token = map_option se_key (s token)"

interpretation local_sessions: session_lookup local_lookup local_bound
  by unfold_locales (auto simp: local_lookup_def local_bound_def split: option.splits if_splits)

interpretation redis_sessions: session_lookup
  "\<lambda>(now, got) token (u :: unit). (fst (redis_lookup tok rest now got token), u)" "\<lambda>u token. None"
  by unfold_locales (auto simp: redis_lookup_empty)

section \<open>Properties\<close>

text \<open>
  C11: With Redis, no cookie ever logs anyone in. \<open>parseSessionVal\<close> uses the verb \<open>%[\<close>, which Go's
  \<open>Sscanf\<close> does not have: whatever Redis returns for the token, \<open>Lookup\<close> answers with the empty
  string and renews nothing, so outside the public paths a request without a bearer token
  never passes the authentication middleware.
\<close>

theorem redis_sessions_never_resolve:
  fixes u :: unit
  assumes "rq_path req \<notin> set public_paths" and "\<not> has_prefix (rq_authorization req) ''Bearer ''"
  shows "redis_lookup tok rest now got token = ([], []) \<and>
         fst (AuthMiddleware False m
           (Some (\<lambda>token u. (fst (redis_lookup tok rest now got token), u))) req u) \<noteq> Go_next ck"
proof
  show "redis_lookup tok rest now got token = ([], [])"
    by (rule redis_lookup_empty)
  show "fst (AuthMiddleware False m (Some (\<lambda>token u. (fst (redis_lookup tok rest now got token), u))) req u) \<noteq> Go_next ck"
    using redis_sessions.cookie_pass [OF assms, of m tok rest "(now, got)" u ck] by auto
qed

theorem redis_sessions_never_resolve_witness:
  "redis_lookup (\<lambda>_ s. Some s) (\<lambda>k _. (k, 0, 0)) 0 (Some (session_val ''gw-1'' 5 5)) ''t'' = ([], [])"
  using redis_sessions_never_resolve
    [of "\<lparr>rq_path = ''/api/keys'', rq_authorization = [], rq_cookie = Some ''t'', rq_accept = []\<rparr>"
      "\<lambda>_ s. Some s" "\<lambda>k _. (k, 0, 0)" 0 "Some (session_val ''gw-1'' 5 5)" "''t''"]
  by (simp add: public_paths_def has_prefix_def)

text \<open>A history of one in-memory session: lookups of its token and runs of the cleanup.\<close>

datatype session_event = Ev_lookup gotime | Ev_cleanup gotime

fun event_time :: "session_event \<Rightarrow> gotime" where
  "event_time (Ev_lookup t) = t"
| "event_time (Ev_cleanup t) = t"

fun run_session :: "string \<Rightarrow> session_event list \<Rightarrow> session_map \<Rightarrow> string list" where
  "run_session token [] s = []"
| "run_session token (Ev_lookup t # es) s =
     (let (k, s') = local_lookup t token s in k # run_session token es s')"
| "run_session token (Ev_cleanup t # es) s = run_session token es (Session_cleanup t s)"

text \<open>The specification: sliding expiry, in which cleanups do not matter.\<close>

fun sliding :: "string \<Rightarrow> gotime \<Rightarrow> session_event list \<Rightarrow> string list" where
  "sliding key prev [] = []"
| "sliding key prev (Ev_lookup t # es) =
     (if t - prev \<le> SessionIdleTTL then key # sliding key t es
      else [] # map (\<lambda>_. []) (filter (\<lambda>e. case e of Ev_lookup _ \<Rightarrow> True | _ \<Rightarrow> False) es))"
| "sliding key prev (Ev_cleanup t # es) = sliding key prev es"

abbreviation lookups_only :: "session_event list \<Rightarrow> session_event list" where
  "lookups_only \<equiv> filter (\<lambda>e. case e of Ev_lookup _ \<Rightarrow> True | _ \<Rightarrow> False)"

lemma run_session_dead:
  "token \<noteq> [] \<Longrightarrow> s token = None \<Longrightarrow> run_session token es s = map (\<lambda>_. []) (lookups_only es)"
proof (induction es arbitrary: s)
  case (Cons e es)
  then show ?case by (cases e) (simp_all add: local_lookup_def Session_cleanup_def)
qed simp

lemma ttl_sub: "time_sub t u > SessionIdleTTL \<longleftrightarrow> t - u > SessionIdleTTL"
  by (rule time_sub_less) (simp_all add: SessionIdleTTL_def hour_def minute_def second_def)

lemma sliding_expired:
  "\<forall>e \<in> set es. c \<le> event_time e \<Longrightarrow> c - prev > SessionIdleTTL \<Longrightarrow>
   sliding key prev es = map (\<lambda>_. []) (lookups_only es)"
proof (induction es)
  case (Cons e es)
  then show ?case by (cases e) auto
qed simp

lemma run_session_sliding:
  "token \<noteq> [] \<Longrightarrow> s token = Some sess \<Longrightarrow> sorted (map event_time es) \<Longrightarrow>
   run_session token es s = sliding (se_key sess) (se_lastSeen sess) es"
proof (induction es arbitrary: s sess)
  case (Cons e es)
  show ?case
  proof (cases e)
    case (Ev_lookup t)
    with Cons run_session_dead [of token "s(token := None)" es] show ?thesis
      by (simp add: local_lookup_def ttl_sub not_less)
  next
    case (Ev_cleanup t)
    show ?thesis
    proof (cases "t - se_lastSeen sess > SessionIdleTTL")
      case True
      then have "Session_cleanup t s token = None" using Cons.prems by (simp add: Session_cleanup_def ttl_sub)
      with True Cons.prems Ev_cleanup sliding_expired [of es t "se_lastSeen sess"] show ?thesis
        by (auto simp: run_session_dead)
    next
      case False
      then have "Session_cleanup t s token = Some sess" using Cons.prems by (simp add: Session_cleanup_def ttl_sub)
      with Cons Ev_cleanup show ?thesis by simp
    qed
  qed
qed simp

text \<open>
  Without Redis, sessions expire by idleness. After a session is created, its token
  resolves to its key at each lookup as long as no two consecutive uses are more than 30 days
  apart, and never again after that; when the periodic cleanup runs makes no difference.
\<close>

theorem sessions_slide:
  assumes "token \<noteq> []" and "sorted (map event_time es)"
  shows "run_session token es (fst (snd (Session_Create None (Some token) now apiKey s))) =
         sliding apiKey now es"
  using run_session_sliding [OF assms(1) _ assms(2)]
  by (simp add: Session_Create_def)

theorem sessions_slide_witness:
  "run_session ''t'' [Ev_lookup (20 * 24 * hour), Ev_cleanup (45 * 24 * hour), Ev_lookup (50 * 24 * hour),
       Ev_lookup (81 * 24 * hour), Ev_lookup (82 * 24 * hour)]
     (fst (snd (Session_Create None (Some ''t'') 0 ''gw-1'' (\<lambda>_. None)))) = [''gw-1'', ''gw-1'', [], []]"
  using sessions_slide [of "''t''" "[Ev_lookup (20 * 24 * hour), Ev_cleanup (45 * 24 * hour),
      Ev_lookup (50 * 24 * hour), Ev_lookup (81 * 24 * hour), Ev_lookup (82 * 24 * hour)]" 0 "''gw-1''" "\<lambda>_. None"]
  by (simp add: hour_def minute_def second_def SessionIdleTTL_def)

end
