(* ===== verification/RateLimit.thy ===== *)
theory RateLimit
  imports Complex_Main Auth
begin

text \<open>
  The token-bucket rate limiter of \<open>internal/ratelimit/ratelimit.go\<close>. The middleware sees the
  key manager only through \<open>AuthLookup\<close>, here a parameter; token counts (\<open>float64\<close>) are exact
  rationals. The cleanup goroutine's tick is a step of its own.
\<close>

section \<open>The limiter\<close>

record bucket =
  bk_tokens :: rat
  bk_lastTime :: gotime

record limiter =
  rl_limit :: int
  rl_burst :: int
  rl_window :: duration
  rl_clients :: "string \<Rightarrow> bucket option"

definition Limiter_New :: "int \<Rightarrow> int \<Rightarrow> duration \<Rightarrow> limiter" where
  "Limiter_New limit burst window =
     \<lparr>rl_limit = limit, rl_burst = burst, rl_window = window, rl_clients = (\<lambda>_. None)\<rparr>"

definition refill :: "duration \<Rightarrow> int \<Rightarrow> duration \<Rightarrow> rat" where
  "refill elapsed rpm window = of_int elapsed * of_int rpm / of_int window"

definition AllowWithLimit :: "gotime \<Rightarrow> string \<Rightarrow> int \<Rightarrow> int \<Rightarrow> limiter \<Rightarrow> bool \<times> limiter" where
  "AllowWithLimit now clientID rpm burst0 rl =
     (if rpm \<le> 0 then (True, rl)
      else
        let burst = (if burst0 \<le> 0 then rpm else burst0) in
        case rl_clients rl clientID of
          None \<Rightarrow>
            (True, rl\<lparr>rl_clients := (rl_clients rl)(clientID \<mapsto>
               \<lparr>bk_tokens = of_int burst - 1, bk_lastTime = now\<rparr>)\<rparr>)
        | Some b \<Rightarrow>
          (let tokens0 = bk_tokens b + refill (time_sub now (bk_lastTime b)) rpm (rl_window rl);
               tokens = (if tokens0 > of_int burst then of_int burst else tokens0);
               ok = tokens \<ge> 1;
               tokens' = (if ok then tokens - 1 else tokens)
           in (ok, rl\<lparr>rl_clients := (rl_clients rl)(clientID \<mapsto>
                 \<lparr>bk_tokens = tokens', bk_lastTime = now\<rparr>)\<rparr>)))"

definition Allow :: "gotime \<Rightarrow> string \<Rightarrow> limiter \<Rightarrow> bool \<times> limiter" where
  "Allow now clientID rl = AllowWithLimit now clientID (rl_limit rl) (rl_burst rl) rl"

definition Limiter_cleanup :: "gotime \<Rightarrow> limiter \<Rightarrow> limiter" where
  "Limiter_cleanup now rl =
     rl\<lparr>rl_clients := (\<lambda>i. case rl_clients rl i of
          None \<Rightarrow> None
        | Some b \<Rightarrow> if bk_lastTime b < now - 10 * minute then None else Some b)\<rparr>"

text \<open>The middleware: \<open>am\<close> is \<open>None\<close> when there is no key manager.\<close>

definition rate_exempt :: "string list" where
  "rate_exempt = [''/health'', ''/'', ''/dashboard'']"

definition effective_limits :: "int \<times> int \<Rightarrow> limiter \<Rightarrow> int \<times> int" where
  "effective_limits k rl =
     (if fst k > 0 then fst k else rl_limit rl, if snd k > 0 then snd k else rl_burst rl)"

definition rate_middleware ::
  "gotime \<Rightarrow> (string \<Rightarrow> (int \<times> int) option) option \<Rightarrow> string \<Rightarrow> string \<Rightarrow> string option \<Rightarrow> limiter \<Rightarrow> bool \<times> limiter" where
  "rate_middleware now am path clientIP client_key rl =
     (if path \<in> set rate_exempt then (True, rl)
      else
        let clientID = (case client_key of Some k \<Rightarrow> k | None \<Rightarrow> clientIP);
            fullKey = (case client_key of Some k \<Rightarrow> k | None \<Rightarrow> []);
            override = (if fullKey \<noteq> [] then (case am of Some lookup \<Rightarrow> lookup fullKey | None \<Rightarrow> None) else None)
        in case override of
             Some k \<Rightarrow>
               (if fst k = 0 then (True, rl)
                else AllowWithLimit now clientID (fst (effective_limits k rl)) (snd (effective_limits k rl)) rl)
           | None \<Rightarrow> AllowWithLimit now clientID (rl_limit rl) (rl_burst rl) rl)"

section \<open>The key manager as a provider of limits\<close>

text \<open>
  The interface's documentation: no answer for a key that is not registered, 0 requests per
  minute for an unlimited one.
\<close>

locale auth_lookup =
  fixes lookup :: "'s \<Rightarrow> string \<Rightarrow> (int \<times> int) option"
    and registered :: "'s \<Rightarrow> string \<Rightarrow> bool"
    and unlimited :: "'s \<Rightarrow> string \<Rightarrow> bool"
  assumes unknown: "\<not> registered s key \<Longrightarrow> lookup s key = None"
    and zero: "registered s key \<Longrightarrow> unlimited s key \<longleftrightarrow> map_option fst (lookup s key) = Some 0"
begin

lemma unlimited_passes:
  assumes "key \<noteq> []" and "registered s key" and "unlimited s key"
  shows "rate_middleware now (Some (lookup s)) path ip (Some key) rl = (True, rl)"
  using assms zero [of s key] by (auto simp: rate_middleware_def)

lemma unknown_global:
  assumes "path \<notin> set rate_exempt" and "\<not> registered s key"
  shows "rate_middleware now (Some (lookup s)) path ip (Some key) rl =
         AllowWithLimit now key (rl_limit rl) (rl_burst rl) rl"
  using assms unknown [OF assms(2)] by (auto simp: rate_middleware_def)

end

interpretation manager_lookup: auth_lookup LookupKey
  "\<lambda>m key. map_of m key \<noteq> None" "\<lambda>m key. map_option ki_RPM (map_of m key) = Some 0"
  by unfold_locales (auto simp: LookupKey_def)

text \<open>
  A key whose burst is 0 (documented as "use RPM") gets the global burst instead.
\<close>

lemma zero_burst_is_global:
  assumes "map_of m key = Some info" and "0 < ki_RPM info" and "ki_Burst info = 0"
    and "path \<notin> set rate_exempt" and "key \<noteq> []"
  shows "rate_middleware now (Some (LookupKey m)) path ip (Some key) rl =
         AllowWithLimit now key (ki_RPM info) (rl_burst rl) rl"
  using assms by (simp add: rate_middleware_def LookupKey_def effective_limits_def)

section \<open>Histories of one client\<close>

datatype rate_event = Ev_request gotime | Ev_tick gotime

fun rate_time :: "rate_event \<Rightarrow> gotime" where
  "rate_time (Ev_request t) = t"
| "rate_time (Ev_tick t) = t"

fun run_client :: "string \<Rightarrow> int \<Rightarrow> int \<Rightarrow> rate_event list \<Rightarrow> limiter \<Rightarrow> bool list \<times> limiter" where
  "run_client i rpm burst [] rl = ([], rl)"
| "run_client i rpm burst (Ev_request t # es) rl =
     (let (ok, rl1) = AllowWithLimit t i rpm burst rl; (oks, rl2) = run_client i rpm burst es rl1
      in (ok # oks, rl2))"
| "run_client i rpm burst (Ev_tick t # es) rl = run_client i rpm burst es (Limiter_cleanup t rl)"

text \<open>The level a client's bucket would have at time \<open>t\<close>; a bucket that is not there is full.\<close>

definition bucket_level :: "string \<Rightarrow> int \<Rightarrow> int \<Rightarrow> gotime \<Rightarrow> limiter \<Rightarrow> rat" where
  "bucket_level i rpm burst t rl =
     (case rl_clients rl i of
        None \<Rightarrow> of_int burst
      | Some b \<Rightarrow> min (of_int burst) (bk_tokens b + refill (t - bk_lastTime b) rpm (rl_window rl)))"

definition client_ok :: "string \<Rightarrow> gotime \<Rightarrow> limiter \<Rightarrow> bool" where
  "client_ok i t rl \<longleftrightarrow>
     (case rl_clients rl i of
        None \<Rightarrow> True
      | Some b \<Rightarrow> 0 \<le> bk_tokens b \<and> bk_lastTime b \<le> t \<and> t - bk_lastTime b < 2 ^ 63)"

lemma refill_mono: "0 < rpm \<Longrightarrow> 0 < w \<Longrightarrow> a \<le> b \<Longrightarrow> refill a rpm w \<le> refill b rpm w"
  by (simp add: refill_def divide_right_mono mult_right_mono)

lemma refill_nonneg: "0 < rpm \<Longrightarrow> 0 < w \<Longrightarrow> 0 \<le> a \<Longrightarrow> 0 \<le> refill a rpm w"
  by (simp add: refill_def)

lemma refill_add: "refill (a + b) rpm w = refill a rpm w + refill b rpm w"
  by (simp add: refill_def algebra_simps add_divide_distrib)

text \<open>The level grows by at most the refill, and a request that is let through costs one.\<close>

lemma bucket_level_later:
  "0 < rpm \<Longrightarrow> 0 < rl_window rl \<Longrightarrow> s \<le> t \<Longrightarrow>
   bucket_level i rpm burst t rl \<le> bucket_level i rpm burst s rl + refill (t - s) rpm (rl_window rl)"
proof (cases "rl_clients rl i")
  case None
  assume "0 < rpm" "0 < rl_window rl" "s \<le> t"
  then show ?thesis using None refill_nonneg by (simp add: bucket_level_def)
next
  case (Some b)
  assume a: "0 < rpm" "0 < rl_window rl" "s \<le> t"
  have "refill (t - bk_lastTime b) rpm (rl_window rl) =
      refill (s - bk_lastTime b) rpm (rl_window rl) + refill (t - s) rpm (rl_window rl)"
    by (simp flip: refill_add)
  moreover have "0 \<le> refill (t - s) rpm (rl_window rl)" using a refill_nonneg by simp
  ultimately show ?thesis using Some by (auto simp: bucket_level_def min_def)
qed

lemma allow_level:
  assumes "0 < rpm" "0 < burst" "0 < rl_window rl" "client_ok i t rl" "AllowWithLimit t i rpm burst rl = (ok, rl')"
  shows "bucket_level i rpm burst t rl' + of_bool ok = bucket_level i rpm burst t rl \<and>
         client_ok i t rl' \<and> rl_window rl' = rl_window rl"
proof (cases "rl_clients rl i")
  case None
  with assms show ?thesis
    by (auto simp: AllowWithLimit_def bucket_level_def client_ok_def refill_def)
next
  case (Some b)
  have sub: "time_sub t (bk_lastTime b) = t - bk_lastTime b"
    using assms(4) Some by (auto simp: client_ok_def time_sub_def)
  have "0 \<le> refill (t - bk_lastTime b) rpm (rl_window rl)"
    using assms Some by (intro refill_nonneg) (auto simp: client_ok_def)
  let ?L = "bucket_level i rpm burst t rl"
  have L: "?L = min (of_int burst) (bk_tokens b + refill (t - bk_lastTime b) rpm (rl_window rl))"
    by (simp add: bucket_level_def Some)
  have "0 \<le> ?L" "?L \<le> of_int burst"
    using assms(2,4) Some \<open>0 \<le> refill _ _ _\<close> by (auto simp: L client_ok_def)
  moreover have M: "(if x > of_int burst then of_int burst else x) = min (of_int burst) x" for x :: rat by simp
  have "AllowWithLimit t i rpm burst rl =
      (?L \<ge> 1, rl\<lparr>rl_clients := (rl_clients rl)(i \<mapsto> \<lparr>bk_tokens = ?L - of_bool (?L \<ge> 1), bk_lastTime = t\<rparr>)\<rparr>)"
    using assms(1,2) by (simp add: AllowWithLimit_def Some Let_def sub M L [symmetric])
  then have run: "ok = (?L \<ge> 1)" "rl' = rl\<lparr>rl_clients := (rl_clients rl)(i \<mapsto> \<lparr>bk_tokens = ?L - of_bool ok, bk_lastTime = t\<rparr>)\<rparr>"
    using assms(5) by auto
  ultimately show ?thesis
    by (auto simp: run(2) bucket_level_def [of _ _ _ _ "rl\<lparr>rl_clients := _\<rparr>"] client_ok_def refill_def [of 0] run(1))
qed

text \<open>Cleaning up loses nothing when an idle bucket would be full anyway.\<close>

lemma cleanup_level:
  assumes "0 < rpm" "0 < burst" "0 < rl_window rl" "client_ok i t rl"
    and "of_int burst \<le> refill (10 * minute) rpm (rl_window rl)"
  shows "bucket_level i rpm burst t (Limiter_cleanup t rl) = bucket_level i rpm burst t rl \<and>
         client_ok i t (Limiter_cleanup t rl) \<and> rl_window (Limiter_cleanup t rl) = rl_window rl"
proof (cases "rl_clients rl i")
  case (Some b)
  have "of_int burst \<le> bk_tokens b + refill (t - bk_lastTime b) rpm (rl_window rl)" if "bk_lastTime b < t - 10 * minute"
  proof -
    have "refill (10 * minute) rpm (rl_window rl) \<le> refill (t - bk_lastTime b) rpm (rl_window rl)"
      using assms(1,3) that by (intro refill_mono) auto
    moreover have "0 \<le> bk_tokens b" using assms(4) Some by (simp add: client_ok_def)
    ultimately show ?thesis using assms(5) by linarith
  qed
  with Some assms(4) show ?thesis
    by (auto simp: Limiter_cleanup_def bucket_level_def client_ok_def)
qed (simp add: Limiter_cleanup_def bucket_level_def client_ok_def)

lemma client_ok_later: "client_ok i s rl \<Longrightarrow> s \<le> t \<Longrightarrow> t < 2 ^ 63 + s0 \<Longrightarrow>
    (\<forall>b. rl_clients rl i = Some b \<longrightarrow> s0 \<le> bk_lastTime b) \<Longrightarrow> client_ok i t rl"
  by (auto simp: client_ok_def split: option.splits)

definition started :: "string \<Rightarrow> gotime \<Rightarrow> limiter \<Rightarrow> bool" where
  "started i t0 rl \<longleftrightarrow> (\<forall>b. rl_clients rl i = Some b \<longrightarrow> t0 \<le> bk_lastTime b)"

lemma started_step:
  "started i t0 rl \<Longrightarrow> t0 \<le> t \<Longrightarrow> started i t0 (snd (AllowWithLimit t i rpm burst rl))"
  "started i t0 rl \<Longrightarrow> started i t0 (Limiter_cleanup t rl)"
  by (auto simp: started_def AllowWithLimit_def Let_def Limiter_cleanup_def split: option.splits if_splits)

lemma run_client_level:
  assumes "0 < rpm" "0 < burst" "0 < rl_window rl" "client_ok i s rl" "started i t0 rl" "t0 \<le> s"
    and "sorted (map rate_time es)" and "\<forall>e \<in> set es. s \<le> rate_time e \<and> rate_time e \<le> t1" and "s \<le> t1"
    and "t1 < 2 ^ 63 + t0" and "of_int burst \<le> refill (10 * minute) rpm (rl_window rl)"
  shows "of_nat (count_list (fst (run_client i rpm burst es rl)) True)
           \<le> bucket_level i rpm burst s rl + refill (t1 - s) rpm (rl_window rl)"
  using assms
proof (induction es arbitrary: rl s)
  case Nil
  have "0 \<le> bucket_level i rpm burst s rl"
    using Nil(1-4) refill_nonneg by (auto simp: bucket_level_def client_ok_def split: option.splits)
  moreover have "0 \<le> refill (t1 - s) rpm (rl_window rl)" using Nil by (simp add: refill_nonneg)
  ultimately show ?case by simp
next
  case (Cons e es)
  let ?t = "rate_time e"
  have t: "s \<le> ?t" "?t \<le> t1" "\<forall>e' \<in> set es. ?t \<le> rate_time e' \<and> rate_time e' \<le> t1" "sorted (map rate_time es)"
    using Cons.prems(7,8) by auto
  have ok: "client_ok i ?t rl"
    by (rule client_ok_later [OF Cons.prems(4) t(1)]) (use Cons.prems(5,10) t(2) in \<open>auto simp: started_def\<close>)
  have later: "bucket_level i rpm burst ?t rl \<le> bucket_level i rpm burst s rl + refill (?t - s) rpm (rl_window rl)"
    using Cons.prems t by (intro bucket_level_later) auto
  have split: "refill (t1 - s) rpm (rl_window rl) = refill (?t - s) rpm (rl_window rl) + refill (t1 - ?t) rpm (rl_window rl)"
    by (simp flip: refill_add)
  show ?case
  proof (cases e)
    case (Ev_request u)
    obtain a rl1 where a: "AllowWithLimit ?t i rpm burst rl = (a, rl1)" by fastforce
    note step = allow_level [OF Cons.prems(1-3) ok a]
    have "started i t0 rl1" using started_step(1) [OF Cons.prems(5), of ?t rpm burst] Cons.prems(6) t(1) a by simp
    with step Cons.IH [of rl1 ?t] Cons.prems t
    have "of_nat (count_list (fst (run_client i rpm burst es rl1)) True)
        \<le> bucket_level i rpm burst ?t rl1 + refill (t1 - ?t) rpm (rl_window rl)" by auto
    moreover have "fst (run_client i rpm burst (e # es) rl) = a # fst (run_client i rpm burst es rl1)"
      using a Ev_request by (simp add: split_beta)
    ultimately show ?thesis using step later split by (cases a) auto
  next
    case (Ev_tick u)
    let ?rl1 = "Limiter_cleanup ?t rl"
    note step = cleanup_level [OF Cons.prems(1-3) ok Cons.prems(11)]
    have "started i t0 ?rl1" using started_step(2) [OF Cons.prems(5)] by simp
    with step Cons.IH [of ?rl1 ?t] Cons.prems t
    have "of_nat (count_list (fst (run_client i rpm burst es ?rl1)) True)
        \<le> bucket_level i rpm burst ?t ?rl1 + refill (t1 - ?t) rpm (rl_window rl)" by auto
    then show ?thesis using step later split Ev_tick by auto
  qed
qed

section \<open>Properties\<close>

text \<open>
  C12: The rate limit holds, cleanup included, when ten minutes refill a bucket. For a client
  with a fixed limit and burst (positive) whose burst is refilled within the ten minutes after
  which the cleanup forgets an idle client, and in any history of its requests and of cleanup
  ticks in the order of time between \<open>t0\<close> and \<open>t1\<close> on a fresh limiter, at most
  \<open>burst + (t1 - t0) * rpm / window\<close> requests are let through. (A larger burst is granted
  anew by the cleanup, \<open>cleanup_refills_burst\<close>.)
\<close>

theorem rate_bounded:
  assumes "0 < rpm" and "0 < burst" and "0 < window" and "t0 \<le> t1" and "t1 < 2 ^ 63 + t0"
    and "sorted (map rate_time es)" and "\<forall>e \<in> set es. t0 \<le> rate_time e \<and> rate_time e \<le> t1"
    and "of_int burst \<le> refill (10 * minute) rpm window"
  shows "of_nat (count_list (fst (run_client i rpm burst es (Limiter_New limit gburst window))) True)
           \<le> of_int burst + refill (t1 - t0) rpm window"
proof -
  let ?rl = "Limiter_New limit gburst window"
  have "rl_window ?rl = window" "bucket_level i rpm burst t0 ?rl = of_int burst" "client_ok i t0 ?rl" "started i t0 ?rl"
    by (simp_all add: Limiter_New_def bucket_level_def client_ok_def started_def)
  with run_client_level [of rpm burst ?rl i t0 t0 es t1] assms show ?thesis by simp
qed

theorem rate_bounded_witness:
  "of_nat (count_list (fst (run_client ''10.0.0.1'' 60 10
      (replicate 50 (Ev_request 0) @ [Ev_tick (5 * minute)] @ replicate 50 (Ev_request (6 * minute)))
      (Limiter_New 60 10 minute))) True) \<le> (370 :: rat)"
proof -
  let ?es = "replicate 50 (Ev_request 0) @ [Ev_tick (5 * minute)] @ replicate 50 (Ev_request (6 * minute))"
  have m: "0 < minute" by (simp add: minute_def second_def)
  then have "sorted (map rate_time ?es)" "\<forall>e \<in> set ?es. 0 \<le> rate_time e \<and> rate_time e \<le> 6 * minute"
    by (auto simp: sorted_append map_replicate sorted_replicate)
  moreover have "of_int 10 \<le> refill (10 * minute) 60 minute" "6 * minute < 2 ^ 63 + 0"
    by (simp_all add: refill_def minute_def second_def)
  ultimately have "of_nat (count_list (fst (run_client ''10.0.0.1'' 60 10 ?es (Limiter_New 60 10 minute))) True)
      \<le> of_int 10 + refill (6 * minute - 0) 60 minute"
    using m by (intro rate_bounded) simp_all
  moreover have "of_int 10 + refill (6 * minute - 0) 60 minute = 370"
    by (simp add: refill_def minute_def second_def)
  ultimately show ?thesis by linarith
qed

text \<open>The requests of one instant: a bucket with \<open>n\<close> tokens lets the next \<open>n\<close> through.\<close>

lemma run_burst:
  assumes "0 < rpm" "0 < burst" "rl_window rl \<noteq> 0"
    and "rl_clients rl i = Some \<lparr>bk_tokens = of_nat n, bk_lastTime = t\<rparr>" and "int n \<le> burst"
  shows "\<exists>rl'. run_client i rpm burst (replicate n (Ev_request t)) rl = (replicate n True, rl') \<and>
           rl_window rl' = rl_window rl \<and> rl_clients rl' i = Some \<lparr>bk_tokens = 0, bk_lastTime = t\<rparr>"
  using assms
proof (induction n arbitrary: rl)
  case (Suc n)
  let ?rl1 = "rl\<lparr>rl_clients := (rl_clients rl)(i \<mapsto> \<lparr>bk_tokens = of_nat n, bk_lastTime = t\<rparr>)\<rparr>"
  have "(1 :: rat) + of_nat n \<le> of_int burst" 
  proof -
    have "of_int (1 + int n) \<le> (of_int burst :: rat)" using Suc.prems(5) by (simp only: of_int_le_iff)
    then show ?thesis by simp
  qed
  then have "AllowWithLimit t i rpm burst rl = (True, ?rl1)"
    using Suc.prems by (simp add: AllowWithLimit_def Let_def time_sub_def refill_def not_le)
  moreover from Suc.IH [of ?rl1] Suc.prems obtain rl' where
    "run_client i rpm burst (replicate n (Ev_request t)) ?rl1 = (replicate n True, rl')"
    "rl_window rl' = rl_window rl" "rl_clients rl' i = Some \<lparr>bk_tokens = 0, bk_lastTime = t\<rparr>" by auto
  ultimately show ?case by simp
qed simp

lemma run_fresh_burst:
  assumes "0 < rpm" "0 < burst" "rl_window rl \<noteq> 0" "rl_clients rl i = None"
  shows "\<exists>rl'. run_client i rpm burst (replicate (nat burst) (Ev_request t)) rl = (replicate (nat burst) True, rl') \<and>
           rl_window rl' = rl_window rl \<and> rl_clients rl' i = Some \<lparr>bk_tokens = 0, bk_lastTime = t\<rparr>"
proof -
  obtain n where n1: "nat burst = Suc n" using assms(2) by (cases "nat burst") auto
  then have "burst = int n + 1" using assms(2) by linarith
  note n = n1 this
  let ?rl1 = "rl\<lparr>rl_clients := (rl_clients rl)(i \<mapsto> \<lparr>bk_tokens = of_nat n, bk_lastTime = t\<rparr>)\<rparr>"
  have "AllowWithLimit t i rpm burst rl = (True, ?rl1)"
    using assms n(2) by (simp add: AllowWithLimit_def)
  moreover from run_burst [of rpm burst ?rl1 i n t] assms n(2) obtain rl' where
    "run_client i rpm burst (replicate n (Ev_request t)) ?rl1 = (replicate n True, rl')"
    "rl_window rl' = rl_window rl" "rl_clients rl' i = Some \<lparr>bk_tokens = 0, bk_lastTime = t\<rparr>" by auto
  ultimately show ?thesis unfolding n(1) by simp
qed

lemma run_client_append:
  "run_client i rpm burst (es @ es') rl =
     (let (oks, rl1) = run_client i rpm burst es rl; (oks', rl2) = run_client i rpm burst es' rl1 in (oks @ oks', rl2))"
proof (induction es arbitrary: rl)
  case (Cons e es)
  then show ?case by (cases e) (simp_all add: split_beta Let_def)
qed simp

text \<open>
  Otherwise the cleanup gives the burst away. A client that spends its whole burst, stays
  idle for more than ten minutes and is forgotten by a cleanup tick may spend the whole burst
  again at once, however small its rate is.
\<close>

theorem cleanup_refills_burst:
  assumes "0 < rpm" and "0 < burst" and "window \<noteq> 0" and "10 * minute < t - t0"
  shows "fst (run_client i rpm burst
           (replicate (nat burst) (Ev_request t0) @ Ev_tick t # replicate (nat burst) (Ev_request t))
           (Limiter_New limit gburst window)) = replicate (2 * nat burst) True"
proof -
  let ?rl = "Limiter_New limit gburst window"
  have "rl_window ?rl \<noteq> 0" "rl_clients ?rl i = None" using assms(3) by (simp_all add: Limiter_New_def)
  from run_fresh_burst [OF assms(1,2) this, of t0] obtain rl1 where
    rl1: "run_client i rpm burst (replicate (nat burst) (Ev_request t0)) ?rl = (replicate (nat burst) True, rl1)"
      "rl_window rl1 = rl_window ?rl" "rl_clients rl1 i = Some \<lparr>bk_tokens = 0, bk_lastTime = t0\<rparr>" by blast
  let ?rl2 = "Limiter_cleanup t rl1"
  have "rl_window ?rl2 \<noteq> 0" "rl_clients ?rl2 i = None"
    using rl1(2,3) assms(3,4) by (simp_all add: Limiter_cleanup_def Limiter_New_def)
  from run_fresh_burst [OF assms(1,2) this, of t] rl1(1) show ?thesis
    by (auto simp: run_client_append mult_2 replicate_add)
qed

theorem cleanup_refills_burst_witness:
  "fst (run_client ''k'' 1 100
     (replicate 100 (Ev_request 0) @ Ev_tick (11 * minute) # replicate 100 (Ev_request (11 * minute)))
     (Limiter_New 60 10 minute)) = replicate 200 True"
  using cleanup_refills_burst [of 1 100 minute "11 * minute" 0 "''k''" 60 10]
  by (simp add: minute_def second_def)

end
