(* ===== verification/LoginLimiter.thy ===== *)
theory LoginLimiter
  imports Prelude
begin

text \<open>
  The limiter of login attempts, \<open>login_limiter.go\<close>: per client address the times of the
  accepted attempts of the last minute and of the last hour. An attempt and a cleanup pass are
  one step each.
\<close>

record login_entry =
  le_minuteWindow :: "gotime list"
  le_hourWindow :: "gotime list"

type_synonym login_limiter = "string \<Rightarrow> login_entry option"

definition newLoginLimiter :: login_limiter where
  "newLoginLimiter = (\<lambda>_. None)"

definition trimBefore :: "gotime list \<Rightarrow> gotime \<Rightarrow> gotime list" where
  "trimBefore ts cutoff = filter (\<lambda>t. t > cutoff) ts"

datatype login_outcome = Login_next | Login_429_minute | Login_429_hour

definition login_attempt :: "string \<Rightarrow> gotime \<Rightarrow> login_limiter \<Rightarrow> login_outcome \<times> login_limiter" where
  "login_attempt ip now l =
     (let e0 = (case l ip of Some e \<Rightarrow> e | None \<Rightarrow> \<lparr>le_minuteWindow = [], le_hourWindow = []\<rparr>);
          e = e0\<lparr>le_minuteWindow := trimBefore (le_minuteWindow e0) (now - minute),
                 le_hourWindow := trimBefore (le_hourWindow e0) (now - hour)\<rparr>
      in if length (le_minuteWindow e) \<ge> 5 then (Login_429_minute, l(ip \<mapsto> e))
         else if length (le_hourWindow e) \<ge> 20 then (Login_429_hour, l(ip \<mapsto> e))
         else (Login_next, l(ip \<mapsto> e\<lparr>le_minuteWindow := le_minuteWindow e @ [now],
                                   le_hourWindow := le_hourWindow e @ [now]\<rparr>)))"

definition login_cleanup :: "gotime \<Rightarrow> login_limiter \<Rightarrow> login_limiter" where
  "login_cleanup now l =
     (\<lambda>ip. case l ip of
        None \<Rightarrow> None
      | Some e0 \<Rightarrow>
        (let e = e0\<lparr>le_minuteWindow := trimBefore (le_minuteWindow e0) (now - minute),
                    le_hourWindow := trimBefore (le_hourWindow e0) (now - hour)\<rparr>
         in if length (le_hourWindow e) = 0 then None else Some e))"

section \<open>Histories\<close>

datatype login_event = Attempt string gotime | Cleanup gotime

fun login_time :: "login_event \<Rightarrow> gotime" where
  "login_time (Attempt ip t) = t"
| "login_time (Cleanup t) = t"

text \<open>The limiter, and the times of the accepted attempts of one address.\<close>

definition login_step :: "string \<Rightarrow> login_event \<Rightarrow> login_limiter \<times> gotime list \<Rightarrow> login_limiter \<times> gotime list" where
  "login_step i e = (\<lambda>(l, acc).
     (case e of
        Attempt ip t \<Rightarrow>
          (let (out, l') = login_attempt ip t l
           in (l', if ip = i \<and> out = Login_next then acc @ [t] else acc))
      | Cleanup t \<Rightarrow> (login_cleanup t l, acc)))"

definition accepted :: "string \<Rightarrow> login_event list \<Rightarrow> gotime list" where
  "accepted i es = snd (fold (login_step i) es (newLoginLimiter, []))"

definition windows :: "login_limiter \<Rightarrow> string \<Rightarrow> gotime list \<times> gotime list" where
  "windows l i = (case l i of None \<Rightarrow> ([], []) | Some e \<Rightarrow> (le_minuteWindow e, le_hourWindow e))"

text \<open>
  From time \<open>now\<close> on, the windows hold what the accepted attempts say they should, and no
  window of the past has seen too many.
\<close>

definition in_window :: "duration \<Rightarrow> gotime \<Rightarrow> gotime list \<Rightarrow> gotime list" where
  "in_window d t xs = filter (\<lambda>x. t - d < x \<and> x \<le> t) xs"

definition login_inv :: "string \<Rightarrow> gotime \<Rightarrow> login_limiter \<times> gotime list \<Rightarrow> bool" where
  "login_inv i now = (\<lambda>(l, acc).
     trimBefore (fst (windows l i)) (now - minute) = trimBefore acc (now - minute) \<and>
     trimBefore (snd (windows l i)) (now - hour) = trimBefore acc (now - hour) \<and>
     (\<forall>x \<in> set acc. x \<le> now) \<and>
     (\<forall>t. length (in_window minute t acc) \<le> 5 \<and> length (in_window hour t acc) \<le> 20))"

lemma trim_Nil [simp]: "trimBefore [] c = []"
  by (simp add: trimBefore_def)

lemma trim_trim: "c \<le> d \<Longrightarrow> trimBefore (trimBefore xs c) d = trimBefore xs d"
  by (auto simp: trimBefore_def intro!: filter_cong)

lemma trim_later: "trimBefore xs c = trimBefore ys c \<Longrightarrow> c \<le> d \<Longrightarrow> trimBefore xs d = trimBefore ys d"
  by (metis trim_trim)

lemma login_inv_later: "login_inv i s st \<Longrightarrow> s \<le> t \<Longrightarrow> login_inv i t st"
  by (fastforce simp: login_inv_def intro: trim_later)

text \<open>An attempt accepted at \<open>t\<close>, after everything before, fills no window over its limit.\<close>

lemma in_window_accept:
  assumes "\<forall>x \<in> set acc. x \<le> t" and "length (trimBefore acc (t - d)) < n"
    and "\<forall>u. length (in_window d u acc) \<le> n"
  shows "length (in_window d u (acc @ [t])) \<le> n"
proof (cases "t \<le> u")
  case True
  have "length (in_window d u acc) \<le> length (trimBefore acc (t - d))"
  proof -
    have "in_window d u acc = filter (\<lambda>x. u - d < x \<and> x \<le> u) (trimBefore acc (t - d))"
      using True by (auto simp: in_window_def trimBefore_def intro!: filter_cong)
    then show ?thesis by simp
  qed
  then show ?thesis using assms(2) by (simp add: in_window_def)
next
  case False
  then show ?thesis using assms(3) by (simp add: in_window_def)
qed

lemma hour_minute: "0 < minute" "minute \<le> hour"
  by (simp_all add: hour_def minute_def second_def)

lemma attempt_inv:
  assumes "login_inv i t (l, acc)"
  shows "login_inv i t (login_step i (Attempt ip t) (l, acc))"
proof (cases "ip = i")
  case False
  then have "windows (snd (login_attempt ip t l)) i = windows l i"
    by (auto simp: login_attempt_def windows_def Let_def)
  with assms False show ?thesis by (auto simp: login_inv_def login_step_def split_beta)
next
  case True
  let ?m = "trimBefore acc (t - minute)" and ?h = "trimBefore acc (t - hour)"
  have w: "trimBefore (fst (windows l i)) (t - minute) = ?m" "trimBefore (snd (windows l i)) (t - hour) = ?h"
    using assms by (simp_all add: login_inv_def)
  have idem: "trimBefore ?m (t - minute) = ?m" "trimBefore ?h (t - hour) = ?h" by (simp_all add: trim_trim)
  have run: "login_attempt i t l =
      (if length ?m \<ge> 5 then (Login_429_minute, l(i \<mapsto> \<lparr>le_minuteWindow = ?m, le_hourWindow = ?h\<rparr>))
       else if length ?h \<ge> 20 then (Login_429_hour, l(i \<mapsto> \<lparr>le_minuteWindow = ?m, le_hourWindow = ?h\<rparr>))
       else (Login_next, l(i \<mapsto> \<lparr>le_minuteWindow = ?m @ [t], le_hourWindow = ?h @ [t]\<rparr>)))"
    using w by (cases "l i") (auto simp: login_attempt_def Let_def windows_def)
  have app: "trimBefore (xs @ [t]) (t - d) = trimBefore xs (t - d) @ [t]" if "0 < d" for xs d
    using that by (simp add: trimBefore_def)
  note inv = assms [unfolded login_inv_def prod.case]
  show ?thesis
  proof (cases "length ?m \<ge> 5 \<or> length ?h \<ge> 20")
    case True
    with \<open>ip = i\<close> inv idem show ?thesis
      by (auto simp: login_step_def login_inv_def run windows_def)
  next
    case False
    then have "length (in_window minute u (acc @ [t])) \<le> 5" "length (in_window hour u (acc @ [t])) \<le> 20" for u
      using inv by (auto intro!: in_window_accept)
    with False \<open>ip = i\<close> inv idem hour_minute show ?thesis
      by (auto simp: login_step_def login_inv_def run windows_def app)
  qed
qed

lemma cleanup_inv:
  assumes "login_inv i t (l, acc)"
  shows "login_inv i t (login_step i (Cleanup t) (l, acc))"
proof -
  have "trimBefore acc (t - minute) = []" if "trimBefore acc (t - hour) = []"
    using trim_trim [of "t - hour" "t - minute" acc] that hour_minute(2)
    by (metis diff_left_mono filter.simps(1) trimBefore_def)
  with assms show ?thesis
    by (cases "l i") (auto simp: login_step_def login_inv_def login_cleanup_def windows_def Let_def trim_trim)
qed

lemma history_inv:
  "login_inv i s st \<Longrightarrow> sorted (map login_time es) \<Longrightarrow> \<forall>e \<in> set es. s \<le> login_time e \<Longrightarrow>
   \<exists>t. login_inv i t (fold (login_step i) es st)"
proof (induction es arbitrary: s st)
  case (Cons e es)
  obtain l acc where st: "st = (l, acc)" by (cases st)
  have "login_inv i (login_time e) st" using login_inv_later Cons.prems by auto
  then have "login_inv i (login_time e) (login_step i e st)"
    unfolding st by (cases e) (auto intro: attempt_inv cleanup_inv)
  from Cons.IH [OF this] Cons.prems show ?case by auto
qed auto

section \<open>Property\<close>

text \<open>
  Brute force is bounded. In any history of login attempts from any addresses and of cleanup
  passes, in time order, at most 5 attempts of one address are let through in any minute and at
  most 20 in any hour; the cleanup forgets nothing that counts.
\<close>

theorem login_attempts_bounded:
  assumes "sorted (map login_time es)"
  shows "length (in_window minute t (accepted i es)) \<le> 5 \<and> length (in_window hour t (accepted i es)) \<le> 20"
proof -
  have "\<exists>s. login_inv i s (newLoginLimiter, []) \<and> (\<forall>e \<in> set es. s \<le> login_time e)"
  proof (cases es)
    case (Cons e es')
    with assms show ?thesis
      by (intro exI [of _ "login_time e"]) (auto simp: login_inv_def newLoginLimiter_def windows_def trimBefore_def in_window_def)
  qed (simp add: login_inv_def newLoginLimiter_def windows_def trimBefore_def in_window_def)
  then obtain s where "login_inv i s (newLoginLimiter, [])" "\<forall>e \<in> set es. s \<le> login_time e" by blast
  from history_inv [OF this(1) assms this(2)] obtain u l acc where
    "fold (login_step i) es (newLoginLimiter, []) = (l, acc)" "login_inv i u (l, acc)"
    by (metis prod.collapse)
  then show ?thesis by (simp add: login_inv_def accepted_def)
qed

theorem login_attempts_bounded_witness:
  "length (in_window minute 100 (accepted ''10.0.0.1'' (replicate 9 (Attempt ''10.0.0.1'' 100)))) \<le> 5 \<and>
   accepted ''10.0.0.1'' (replicate 3 (Attempt ''10.0.0.1'' 100)) = [100, 100, 100]"
proof
  show "length (in_window minute 100 (accepted ''10.0.0.1'' (replicate 9 (Attempt ''10.0.0.1'' 100)))) \<le> 5"
    using login_attempts_bounded [of "replicate 9 (Attempt ''10.0.0.1'' 100)" 100 "''10.0.0.1''"]
    by (simp add: map_replicate sorted_replicate)
  show "accepted ''10.0.0.1'' (replicate 3 (Attempt ''10.0.0.1'' 100)) = [100, 100, 100]"
    by code_simp
qed

end
