(* ===== verification/Cache.thy ===== *)
theory Cache
  imports Prelude "HOL-Library.AList"
begin

text \<open>
  The response cache of \<open>internal/cache/semantic.go\<close>: a map with a time to live, bounded by a
  list of keys in insertion order. The map is an association list. Cache keys are hashes of
  the request (SHA-256 over its JSON), opaque here; JSON and the hash are a parameter.
\<close>

section \<open>The store\<close>

record cache_entry =
  ce_body :: string
  ce_expiresAt :: gotime

record cache_store =
  cs_items :: "(string \<times> cache_entry) list"
  cs_order :: "string list"
  cs_ttl :: duration
  cs_max :: nat
  cs_hits :: int
  cs_misses :: int
  cs_enabled :: bool

definition cache_New :: "duration \<Rightarrow> int \<Rightarrow> cache_store" where
  "cache_New ttl mx =
     \<lparr>cs_items = [], cs_order = [], cs_ttl = (if ttl \<le> 0 then 5 * minute else ttl),
      cs_max = (if mx \<le> 0 then 256 else nat mx), cs_hits = 0, cs_misses = 0, cs_enabled = True\<rparr>"

definition SetEnabled :: "bool \<Rightarrow> cache_store \<Rightarrow> cache_store" where
  "SetEnabled v s = s\<lparr>cs_enabled := v\<rparr>"

text \<open>The key: \<open>digest\<close> is the hash of the model, the messages and the temperature if there is one.\<close>

definition KeyFromChat ::
  "(string \<times> 'j option \<times> 'j option \<Rightarrow> string) \<Rightarrow> string \<Rightarrow> (string \<Rightarrow> 'j option) \<Rightarrow> string" where
  "KeyFromChat digest model body = digest (model, body ''messages'', body ''temperature'')"

definition cache_Get :: "gotime \<Rightarrow> string \<Rightarrow> cache_store \<Rightarrow> string option \<times> cache_store" where
  "cache_Get now key s =
     (if key = [] then (None, s)
      else if \<not> cs_enabled s then (None, s\<lparr>cs_misses := cs_misses s + 1\<rparr>)
      else case map_of (cs_items s) key of
             None \<Rightarrow> (None, s\<lparr>cs_misses := cs_misses s + 1\<rparr>)
           | Some e \<Rightarrow>
             if now > ce_expiresAt e
             then (None, s\<lparr>cs_items := AList.delete key (cs_items s), cs_misses := cs_misses s + 1\<rparr>)
             else (Some (ce_body e), s\<lparr>cs_hits := cs_hits s + 1\<rparr>))"

fun evict :: "nat \<Rightarrow> string list \<Rightarrow> (string \<times> cache_entry) list \<Rightarrow> string list \<times> (string \<times> cache_entry) list" where
  "evict mx [] items = ([], items)"
| "evict mx (old # order) items =
     (if length items > mx then evict mx order (AList.delete old items) else (old # order, items))"

definition cache_Put :: "gotime \<Rightarrow> string \<Rightarrow> string \<Rightarrow> cache_store \<Rightarrow> cache_store" where
  "cache_Put now key body s =
     (if key = [] \<or> length body = 0 then s
      else if \<not> cs_enabled s then s
      else
        let order = (if map_of (cs_items s) key = None then cs_order s @ [key] else cs_order s);
            items = AList.update key \<lparr>ce_body = body, ce_expiresAt = now + cs_ttl s\<rparr> (cs_items s);
            (order', items') = evict (cs_max s) order items
        in s\<lparr>cs_order := order', cs_items := items'\<rparr>)"

section \<open>Invariant\<close>

text \<open>Every entry can be evicted, keys are unique and the bound holds.\<close>

definition cache_inv :: "cache_store \<Rightarrow> bool" where
  "cache_inv s \<longleftrightarrow>
     distinct (map fst (cs_items s)) \<and> fst ` set (cs_items s) \<subseteq> set (cs_order s) \<and>
     length (cs_items s) \<le> cs_max s"

lemma dom_delete: "fst ` set (AList.delete k xs) = fst ` set xs - {k}"
  by (induction xs) (auto split: if_splits)

lemma length_delete_le: "length (AList.delete k xs) \<le> length xs"
  by (simp add: AList.delete_eq)

lemma evict_inv:
  assumes "distinct (map fst items)" and "fst ` set items \<subseteq> set order" and "evict mx order items = (order', items')"
  shows "distinct (map fst items') \<and> fst ` set items' \<subseteq> set order' \<and> length items' \<le> mx \<and> map_of items' \<subseteq>\<^sub>m map_of items"
  using assms
proof (induction mx order items rule: evict.induct)
  case (2 mx old order items)
  show ?case
  proof (cases "length items > mx")
    case True
    have "distinct (map fst (AList.delete old items))" using 2(2) by (rule distinct_delete)
    moreover have "fst ` set (AList.delete old items) \<subseteq> set order" using 2(3) by (auto simp: dom_delete)
    ultimately have "distinct (map fst items') \<and> fst ` set items' \<subseteq> set order' \<and> length items' \<le> mx \<and>
        map_of items' \<subseteq>\<^sub>m map_of (AList.delete old items)"
      using 2(1) [OF True] 2(4) True by simp
    moreover have "map_of (AList.delete old items) \<subseteq>\<^sub>m map_of items"
      by (auto simp: map_le_def delete_conv')
    ultimately show ?thesis using map_le_trans by blast
  next
    case False
    with 2 show ?thesis by auto
  qed
qed auto

lemma cache_inv_New: "cache_inv (cache_New ttl mx)"
  by (simp add: cache_inv_def cache_New_def)

lemma cache_inv_Get: "cache_inv s \<Longrightarrow> cache_inv (snd (cache_Get now key s))"
  using length_delete_le [of key "cs_items s"]
  by (auto simp: cache_inv_def cache_Get_def dom_delete distinct_delete split: option.split)

lemma cache_inv_Put: "cache_inv s \<Longrightarrow> cache_inv (cache_Put now key body s)"
proof (cases "key = [] \<or> length body = 0 \<or> \<not> cs_enabled s")
  case True
  then show "cache_inv s \<Longrightarrow> ?thesis" by (auto simp: cache_Put_def)
next
  case False
  assume inv: "cache_inv s"
  let ?order = "if map_of (cs_items s) key = None then cs_order s @ [key] else cs_order s"
  let ?items = "AList.update key \<lparr>ce_body = body, ce_expiresAt = now + cs_ttl s\<rparr> (cs_items s)"
  obtain order' items' where e: "evict (cs_max s) ?order ?items = (order', items')" by fastforce
  have "distinct (map fst ?items)" using inv by (simp add: cache_inv_def distinct_update)
  moreover have "fst ` set ?items \<subseteq> set ?order"
    using inv by (auto simp: cache_inv_def dom_update map_of_eq_None_iff)
  ultimately have "distinct (map fst items') \<and> fst ` set items' \<subseteq> set order' \<and> length items' \<le> cs_max s"
    using evict_inv [OF _ _ e] by blast
  with False e show ?thesis by (simp add: cache_Put_def cache_inv_def Let_def)
qed

section \<open>Histories\<close>

datatype cache_op = Op_get gotime string | Op_put gotime string string | Op_enable bool

fun cache_step :: "cache_op \<Rightarrow> cache_store \<Rightarrow> cache_store" where
  "cache_step (Op_get t k) s = snd (cache_Get t k s)"
| "cache_step (Op_put t k b) s = cache_Put t k b s"
| "cache_step (Op_enable v) s = SetEnabled v s"

text \<open>The specification: whether the cache is on, and the last body put under each key with its time.\<close>

fun spec_step :: "cache_op \<Rightarrow> bool \<times> (string \<Rightarrow> (string \<times> gotime) option) \<Rightarrow> bool \<times> (string \<Rightarrow> (string \<times> gotime) option)" where
  "spec_step (Op_get t k) (on, puts) = (on, puts)"
| "spec_step (Op_put t k b) (on, puts) = (on, if on \<and> k \<noteq> [] \<and> b \<noteq> [] then puts(k \<mapsto> (b, t)) else puts)"
| "spec_step (Op_enable v) (on, puts) = (v, puts)"

definition latest_puts :: "cache_op list \<Rightarrow> string \<Rightarrow> (string \<times> gotime) option" where
  "latest_puts ops = snd (fold spec_step ops (True, \<lambda>_. None))"

definition agrees :: "cache_store \<Rightarrow> bool \<times> (string \<Rightarrow> (string \<times> gotime) option) \<Rightarrow> bool" where
  "agrees s = (\<lambda>(on, puts).
     cs_enabled s = on \<and>
     (\<forall>k e. map_of (cs_items s) k = Some e \<longrightarrow> (\<exists>t. puts k = Some (ce_body e, t) \<and> ce_expiresAt e = t + cs_ttl s)))"

lemma Put_items:
  assumes "cache_inv s" and "map_of (cs_items (cache_Put now key body s)) k = Some e"
  shows "map_of (cs_items s) k = Some e \<and> (k \<noteq> key \<or> key = [] \<or> body = [] \<or> \<not> cs_enabled s) \<or>
         k = key \<and> e = \<lparr>ce_body = body, ce_expiresAt = now + cs_ttl s\<rparr> \<and> key \<noteq> [] \<and> body \<noteq> [] \<and> cs_enabled s"
proof (cases "key = [] \<or> length body = 0 \<or> \<not> cs_enabled s")
  case True
  then have "cache_Put now key body s = s" by (auto simp: cache_Put_def)
  with True assms(2) show ?thesis by auto
next
  case False
  let ?order = "if map_of (cs_items s) key = None then cs_order s @ [key] else cs_order s"
  let ?items = "AList.update key \<lparr>ce_body = body, ce_expiresAt = now + cs_ttl s\<rparr> (cs_items s)"
  obtain order' items' where e: "evict (cs_max s) ?order ?items = (order', items')" by fastforce
  have "distinct (map fst ?items)" "fst ` set ?items \<subseteq> set ?order"
    using assms(1) by (auto simp: cache_inv_def distinct_update dom_update map_of_eq_None_iff)
  then have "map_of items' \<subseteq>\<^sub>m map_of ?items" using evict_inv [OF _ _ e] by blast
  moreover have "map_of items' k = Some e" using assms(2) False e by (simp add: cache_Put_def Let_def)
  ultimately have "map_of ?items k = Some e" by (metis domI map_le_def)
  with False show ?thesis by (auto simp: update_conv' split: if_splits)
qed

lemma Put_fields [simp]:
  "cs_enabled (cache_Put now key body s) = cs_enabled s" "cs_ttl (cache_Put now key body s) = cs_ttl s"
  "cs_max (cache_Put now key body s) = cs_max s"
  by (simp_all add: cache_Put_def Let_def split_beta)

lemma Get_fields [simp]:
  "cs_enabled (snd (cache_Get now key s)) = cs_enabled s" "cs_ttl (snd (cache_Get now key s)) = cs_ttl s"
  "cs_max (snd (cache_Get now key s)) = cs_max s"
  by (simp_all add: cache_Get_def split: option.split)

lemma Get_items: "map_of (cs_items (snd (cache_Get now key s))) \<subseteq>\<^sub>m map_of (cs_items s)"
  by (auto simp: cache_Get_def map_le_def delete_conv' split: option.split)

lemma cache_step_agrees:
  assumes "cache_inv s" and "agrees s sp"
  shows "cache_inv (cache_step x s) \<and> agrees (cache_step x s) (spec_step x sp)"
proof -
  obtain on puts where sp: "sp = (on, puts)" by (cases sp)
  show ?thesis
  proof (cases x)
    case (Op_get t k)
    with assms sp Get_items [of t k s] show ?thesis
      by (force simp: agrees_def cache_inv_Get map_le_def dom_def)
  next
    case (Op_put t k b)
    have "agrees (cache_Put t k b s) (spec_step x sp)"
      using assms(2) Op_put sp by (auto simp: agrees_def dest!: Put_items [OF assms(1)])
    with Op_put assms(1) show ?thesis by (simp add: cache_inv_Put)
  next
    case (Op_enable v)
    with assms sp show ?thesis by (auto simp: agrees_def SetEnabled_def cache_inv_def)
  qed
qed

lemma cache_history:
  "cache_inv s \<Longrightarrow> agrees s sp \<Longrightarrow> cache_inv (fold cache_step ops s) \<and> agrees (fold cache_step ops s) (fold spec_step ops sp)"
proof (induction ops arbitrary: s sp)
  case (Cons x ops)
  from cache_step_agrees [OF Cons.prems, of x] Cons.IH [of "cache_step x s" "spec_step x sp"] show ?case by simp
qed simp

section \<open>Properties\<close>

text \<open>
  C13: A hit is the last response stored, and fresh. After any history of lookups, insertions and
  switching on and off, the cache holds no more entries than its bound, and a lookup that hits
  returns the body most recently put under that key, not older than the time to live.
\<close>

theorem cache_hits_fresh:
  fixes ops :: "cache_op list" and ttl :: duration and mx :: int
  defines "s \<equiv> fold cache_step ops (cache_New ttl mx)"
  shows "length (cs_items s) \<le> cs_max s \<and>
         (case fst (cache_Get now key s) of
            None \<Rightarrow> True
          | Some body \<Rightarrow> \<exists>t. latest_puts ops key = Some (body, t) \<and> now \<le> t + cs_ttl s)"
proof -
  have "agrees (cache_New ttl mx) (True, \<lambda>_. None)" by (simp add: agrees_def cache_New_def)
  from cache_history [OF cache_inv_New this, of ops]
  have inv: "cache_inv s" "agrees s (fold spec_step ops (True, \<lambda>_. None))" by (simp_all add: s_def)
  obtain on puts where sp: "fold spec_step ops (True, \<lambda>_. None) = (on, puts)" by fastforce
  have "\<exists>t. latest_puts ops key = Some (body, t) \<and> now \<le> t + cs_ttl s"
    if "fst (cache_Get now key s) = Some body" for body
    using that inv(2) unfolding sp
    by (fastforce simp: cache_Get_def agrees_def latest_puts_def sp split: if_splits option.splits)
  with inv(1) show ?thesis by (auto simp: cache_inv_def split: option.split)
qed

theorem cache_hits_fresh_witness:
  "(case fst (cache_Get 20 ''k'' (fold cache_step [Op_put 0 ''k'' ''v1'', Op_put 10 ''k'' ''v2'', Op_get 15 ''k''] (cache_New 60 4))) of
      None \<Rightarrow> True | Some body \<Rightarrow> body = ''v2'') \<and>
   fst (cache_Get 20 ''k'' (fold cache_step [Op_put 0 ''k'' ''v1'', Op_put 10 ''k'' ''v2'', Op_get 15 ''k''] (cache_New 60 4))) = Some ''v2''"
proof
  show "case fst (cache_Get 20 ''k'' (fold cache_step [Op_put 0 ''k'' ''v1'', Op_put 10 ''k'' ''v2'', Op_get 15 ''k''] (cache_New 60 4))) of
      None \<Rightarrow> True | Some body \<Rightarrow> body = ''v2''"
    using cache_hits_fresh [of "[Op_put 0 ''k'' ''v1'', Op_put 10 ''k'' ''v2'', Op_get 15 ''k'']" 60 4 "''k''" 20]
    by (auto simp: latest_puts_def split: option.splits)
qed code_simp

definition expire_cycle :: "gotime \<Rightarrow> string \<Rightarrow> string \<Rightarrow> cache_store \<Rightarrow> cache_store" where
  "expire_cycle t k b s = snd (cache_Get (t + cs_ttl s + 1) k (cache_Put t k b s))"

lemma expire_cycle_step:
  assumes "k \<noteq> []" "b \<noteq> []" "cs_enabled s" "cs_items s = []" "1 \<le> cs_max s"
  shows "cs_items (expire_cycle t k b s) = [] \<and> cs_order (expire_cycle t k b s) = cs_order s @ [k] \<and>
         cs_enabled (expire_cycle t k b s) \<and> cs_max (expire_cycle t k b s) = cs_max s"
proof -
  obtain o1 os where o: "cs_order s @ [k] = o1 # os" by (cases "cs_order s @ [k]") auto
  have "cache_Put t k b s = s\<lparr>cs_order := cs_order s @ [k], cs_items := [(k, \<lparr>ce_body = b, ce_expiresAt = t + cs_ttl s\<rparr>)]\<rparr>"
    using assms by (simp add: cache_Put_def o)
  with assms show ?thesis by (simp add: expire_cycle_def cache_Get_def)
qed

text \<open>
  Expired keys stay in the eviction order. A lookup that finds an expired entry deletes it
  from the map only; putting the key again appends it a second time. So the order grows with
  every such cycle while the map stays empty, and in a cache of two entries a key put a moment
  ago can be the one evicted, in favour of an older one.
\<close>

lemma eviction_order_leaks:
  assumes "k \<noteq> []" and "b \<noteq> []" and "distinct [k, x, y]" and "x \<noteq> []" and "y \<noteq> []"
  shows "length (cs_order ((expire_cycle t k b ^^ n) (cache_New ttl mx))) = n \<and>
         cs_items ((expire_cycle t k b ^^ n) (cache_New ttl mx)) = [] \<and>
         map fst (cs_items (fold cache_step [Op_put t x b, Op_put t k b, Op_put t y b]
           (expire_cycle t k b (cache_New ttl 2)))) = [x, y]"
proof (intro conjI)
  have "let s = (expire_cycle t k b ^^ n) (cache_New ttl mx) in
      cs_items s = [] \<and> length (cs_order s) = n \<and> cs_enabled s \<and> 1 \<le> cs_max s"
  proof (induction n)
    case (Suc n)
    then show ?case using expire_cycle_step [OF assms(1,2)] by (simp add: Let_def)
  next
    case 0
    then show ?case by (simp add: cache_New_def) linarith
  qed
  then show "length (cs_order ((expire_cycle t k b ^^ n) (cache_New ttl mx))) = n"
    "cs_items ((expire_cycle t k b ^^ n) (cache_New ttl mx)) = []" by (simp_all add: Let_def)
  let ?s = "expire_cycle t k b (cache_New ttl 2)"
  have "cs_items ?s = []" "cs_order ?s = [k]" "cs_enabled ?s" "cs_max ?s = 2"
    using expire_cycle_step [OF assms(1,2), of "cache_New ttl 2" t] by (simp_all add: cache_New_def)
  with assms show "map fst (cs_items (fold cache_step [Op_put t x b, Op_put t k b, Op_put t y b] ?s)) = [x, y]"
    by (auto simp: cache_Put_def)
qed

lemma eviction_order_leaks_example:
  "map fst (cs_items (fold cache_step [Op_put 0 ''a'' ''v'', Op_put 0 ''k'' ''v'', Op_put 0 ''b'' ''v'']
     (expire_cycle 0 ''k'' ''v'' (cache_New 60 2)))) = [''a'', ''b'']"
  using eviction_order_leaks [of "''k''" "''v''" "''a''" "''b''" 1 0 60 2] by simp

end
