(* ===== verification/Lines.thy ===== *)
theory Lines
  imports Prelude
begin

text \<open>
  Texts as lines: \<open>strings.Split\<close> and \<open>strings.Join\<close> at a newline, \<open>bufio.Scanner\<close>, and the
  searches and splits of package \<open>strings\<close> that work on lines.
\<close>

text \<open>The lines of a text: those that end with a newline, and what follows the last newline.\<close>

fun split_lines :: "string \<Rightarrow> string list \<times> string" where
  "split_lines [] = ([], [])"
| "split_lines (c # s) =
     (let (ls, r) = split_lines s in
      if c = CHR 10 then ([] # ls, r)
      else case ls of [] \<Rightarrow> ([], c # r) | l # ls' \<Rightarrow> ((c # l) # ls', r))"

lemma split_lines_append:
  "split_lines (xs @ ys) =
     (fst (split_lines xs) @ fst (split_lines (snd (split_lines xs) @ ys)), snd (split_lines (snd (split_lines xs) @ ys)))"
  by (induction xs) (auto simp: Let_def split_beta split: list.split)

lemma split_lines_rest: "fst (split_lines (snd (split_lines xs))) = []"
  by (induction xs) (auto simp: Let_def split_beta split: list.split)

lemma split_lines_none: "fst (split_lines s) = [] \<Longrightarrow> snd (split_lines s) = s"
  by (induction s) (auto simp: Let_def split_beta split: list.splits if_splits)

text \<open>
  \<open>bufio.Scanner\<close> with a buffer limit, 1 MiB for most scanners: the lines without their end (a
  newline or a carriage return and a newline), a last line without newline included. A line that
  does not fit ends the scan without a word.
\<close>

definition drop_cr :: "string \<Rightarrow> string" where
  "drop_cr s = trim_suffix s [CHR 13]"

definition scan_within :: "nat \<Rightarrow> string \<Rightarrow> string list" where
  "scan_within limit s =
     (let (ls, r) = split_lines s
      in map drop_cr (takeWhile (\<lambda>l. length l < limit) (ls @ (if r = [] then [] else [r]))))"

definition scan_lines :: "string \<Rightarrow> string list" where
  "scan_lines s = scan_within (2 ^ 20) s"

text \<open>\<open>strings.Split(s, "\n")\<close> and \<open>strings.Join(ls, "\n")\<close>.\<close>

definition split_nl :: "string \<Rightarrow> string list" where
  "split_nl s = (let (ls, r) = split_lines s in ls @ [r])"

fun join_lines :: "string list \<Rightarrow> string" where
  "join_lines [] = []"
| "join_lines [s] = s"
| "join_lines (s # t # ts) = s @ CHR 10 # join_lines (t # ts)"

lemma split_nl_not_Nil [simp]: "split_nl s \<noteq> []"
  by (simp add: split_nl_def split_beta)

lemma split_nl_simps [simp]:
  "split_nl [] = [[]]"
  "split_nl (c # s) = (if c = CHR 10 then [] # split_nl s else (c # hd (split_nl s)) # tl (split_nl s))"
  by (auto simp: split_nl_def split_beta Let_def split: list.splits)

lemma join_lines_Cons: "join_lines (l # ls) = (if ls = [] then l else l @ CHR 10 # join_lines ls)"
  by (cases ls) simp_all

lemma join_split_nl [simp]: "join_lines (split_nl s) = s"
proof (induction s)
  case (Cons c s)
  obtain l ls where "split_nl s = l # ls" by (metis list.exhaust split_nl_not_Nil)
  with Cons show ?case by (cases "c = CHR 10") (simp_all add: join_lines_Cons split: if_splits)
qed simp

lemma split_nl_no_newline: "l \<in> set (split_nl s) \<Longrightarrow> CHR 10 \<notin> set l"
proof (induction s arbitrary: l)
  case (Cons c s)
  obtain k ks where "split_nl s = k # ks" by (metis list.exhaust split_nl_not_Nil)
  with Cons show ?case by (auto split: if_splits)
qed simp

lemma split_join_lines: "ls \<noteq> [] \<Longrightarrow> \<forall>l \<in> set ls. CHR 10 \<notin> set l \<Longrightarrow> split_nl (join_lines ls) = ls"
proof (induction ls)
  case (Cons l ls)
  have app: "CHR 10 \<notin> set t \<Longrightarrow> split_nl (t @ u) = (t @ hd (split_nl u)) # tl (split_nl u)" for t u
    by (induction t) auto
  have "CHR 10 \<notin> set t \<Longrightarrow> split_nl t = [t]" for t :: string by (induction t) auto
  with Cons show ?case by (auto simp: join_lines_Cons app)
qed simp

end
