(* ===== verification/CredPool.thy ===== *)
theory CredPool
  imports Prelude Lines
begin

text \<open>
  What the three upstream account pools (Grok, CodeBuddy, Cloudflare) share. They are written
  three times in \<open>internal/upstream\<close>, along the same lines: a slice of pointers with a cursor;
  an account out of use is \<open>disabled\<close>, for good when \<open>disabledAt\<close> is the zero time and on
  cooldown otherwise; a worker lifts cooldowns after ten minutes; a cleanup drops the accounts
  disabled for good.

  Here are the scan from the cursor, the state of a pool whose keys live in a heap, and the
  contract of the life of a credential as the locale \<open>credential_pool\<close>. Each pool's theory
  interprets it on its own operations.
\<close>

section \<open>The scan from the cursor\<close>

lemma rotate_past:
  assumes "i < length xs"
  shows "rotate (Suc i) xs = drop (Suc i) xs @ take (Suc i) xs"
  using rotate_append [of "take (Suc i) xs" "drop (Suc i) xs"] assms by simp

lemma nth_from_cursor: "(i :: nat) < length xs \<Longrightarrow> xs ! ((m + i) mod length xs) = rotate m xs ! i"
  by (simp add: nth_rotate)

lemma rotate_scan: "map (\<lambda>i. xs ! ((m + i) mod length xs)) [0..<length xs] = rotate m xs"
  by (rule nth_equalityI) (simp_all add: nth_rotate)

text \<open>
  The loop \<open>for i := 0; i < n; i++ { idx := (next + i) % n; ... }\<close> that takes the first element
  with \<open>P\<close> and leaves the cursor behind it: it yields the head of the selected elements in
  rotated order, and moves it to their end.
\<close>

lemma cursor_scan_none:
  assumes "filter P (rotate m xs) = []"
  shows "find (\<lambda>i. P (xs ! ((m + i) mod length xs))) [0..<length xs] = None"
proof -
  have no: "\<forall>x \<in> set xs. \<not> P x" using assms by (simp add: filter_empty_conv)
  have "(m + i) mod length xs < length xs" if "i < length xs" for i
    using that by (intro mod_less_divisor) (cases xs, simp_all)
  then show ?thesis using no by (auto simp: find_None_iff)
qed

lemma cursor_scan_some:
  fixes m :: nat
  assumes "filter P (rotate m xs) = y # ys"
  obtains i where "i < length xs"
    and "find (\<lambda>i. P (xs ! ((m + i) mod length xs))) [0..<length xs] = Some i"
    and "xs ! ((m + i) mod length xs) = y"
    and "filter P (rotate (((m + i) mod length xs + 1) mod length xs) xs) = ys @ [y]"
proof -
  let ?n = "length xs" and ?r = "rotate m xs"
  have "\<exists>a \<in> set ?r. P a" using assms by (metis filter_empty_conv list.distinct(1))
  then have "\<exists>i < ?n. P (?r ! i)" by (metis in_set_conv_nth length_rotate)
  then have "find (\<lambda>i. P (xs ! ((m + i) mod ?n))) [0..<?n] \<noteq> None"
    by (auto simp: find_None_iff nth_from_cursor)
  then obtain i where f: "find (\<lambda>i. P (xs ! ((m + i) mod ?n))) [0..<?n] = Some i" by blast
  then have i: "i < ?n" "P (?r ! i)" "\<forall>j < i. \<not> P (?r ! j)"
    by (auto simp: find_Some_iff nth_from_cursor)
  have split: "?r = take i ?r @ ?r ! i # drop (Suc i) ?r" using i(1) by (simp add: id_take_nth_drop)
  have none: "filter P (take i ?r) = []"
    using i(1,3) by (auto simp: filter_empty_conv in_set_conv_nth)
  then have "filter P ?r = ?r ! i # filter P (drop (Suc i) ?r)"
    using i(2) by (subst split) simp
  then have y: "y = ?r ! i" "ys = filter P (drop (Suc i) ?r)" using assms by simp_all
  have "rotate (((m + i) mod ?n + 1) mod ?n) xs = rotate (Suc i) ?r"
    by (metis (no_types, lifting) add.commute add_Suc mod_Suc_eq plus_1_eq_Suc rotate_conv_mod rotate_rotate)
  also have "\<dots> = drop (Suc i) ?r @ take (Suc i) ?r" using i(1) by (intro rotate_past) simp
  finally have "filter P (rotate (((m + i) mod ?n + 1) mod ?n) xs) =
      filter P (drop (Suc i) ?r) @ filter P (take (Suc i) ?r)" by simp
  moreover have "filter P (take (Suc i) ?r) = [?r ! i]"
    using i none by (simp add: take_Suc_conv_app_nth)
  ultimately show thesis
    using that [OF i(1) f] y i(1) by (simp add: nth_from_cursor)
qed

text \<open>An operation applied again and again, with its results.\<close>

fun repeat_op :: "nat \<Rightarrow> ('s \<Rightarrow> 'r \<times> 's) \<Rightarrow> 's \<Rightarrow> 'r list \<times> 's" where
  "repeat_op 0 f s = ([], s)"
| "repeat_op (Suc n) f s = (let (r, s1) = f s; (rs, s2) = repeat_op n f s1 in (r # rs, s2))"

text \<open>
  The contract of a rotation: the operation serves the first candidate, which becomes the last.
  Served again and again, the candidates come in turn.
\<close>

locale rotation =
  fixes serve :: "'s \<Rightarrow> 'r \<times> 's" and cands :: "'s \<Rightarrow> 'a list" and out :: "'a \<Rightarrow> 'r"
  assumes serves: "cands s = x # xs \<Longrightarrow> fst (serve s) = out x \<and> cands (snd (serve s)) = xs @ [x]"
begin

lemma in_turn:
  assumes "cands s \<noteq> []"
  shows "fst (repeat_op n serve s) = map (\<lambda>i. out (cands s ! (i mod length (cands s)))) [0..<n]"
  using assms
proof (induction n arbitrary: s)
  case (Suc n)
  obtain x xs where c: "cands s = x # xs" using Suc.prems by (cases "cands s") auto
  have st: "fst (serve s) = out x" "cands (snd (serve s)) = rotate1 (x # xs)" using serves [OF c] by simp_all
  have "fst (repeat_op n serve (snd (serve s))) =
      map (\<lambda>i. out (rotate1 (x # xs) ! (i mod Suc (length xs)))) [0..<n]"
    using Suc.IH [of "snd (serve s)"] by (simp add: st(2))
  also have "\<dots> = map (\<lambda>i. out ((x # xs) ! (Suc i mod Suc (length xs)))) [0..<n]"
    by (intro map_cong refl) (simp add: nth_rotate1 mod_Suc_eq del: rotate1.simps)
  finally show ?case
    by (simp add: split_beta Let_def st(1) c upt_conv_Cons map_Suc_upt [symmetric] del: upt_Suc)
qed simp

end


section \<open>Pools over a heap of keys\<close>

text \<open>
  A pointer to a key is an index into \<open>kp_heap\<close>: requests and workers keep pointers across the
  steps of others, and a key that leaves the pool stays in the heap. All keys of a manager
  share its store handle, so \<open>kp_db\<close> says whether there is a store.
\<close>

record 'k cred_pool =
  kp_heap :: "'k list"
  kp_keys :: "nat list"
  kp_next :: nat
  kp_db :: bool

definition empty_pool :: "bool \<Rightarrow> 'k cred_pool" where
  "empty_pool db = \<lparr>kp_heap = [], kp_keys = [], kp_next = 0, kp_db = db\<rparr>"

definition key_at :: "'k cred_pool \<Rightarrow> nat \<Rightarrow> 'k" where
  "key_at p a = kp_heap p ! a"

definition put_key :: "nat \<Rightarrow> 'k \<Rightarrow> 'k cred_pool \<Rightarrow> 'k cred_pool" where
  "put_key a k p = p\<lparr>kp_heap := (kp_heap p)[a := k]\<rparr>"

definition new_key :: "'k \<Rightarrow> 'k cred_pool \<Rightarrow> 'k cred_pool" where
  "new_key k p = p\<lparr>kp_heap := kp_heap p @ [k], kp_keys := kp_keys p @ [length (kp_heap p)]\<rparr>"

text \<open>The slice without the element at an index: \<open>append(keys[:i], keys[i+1:]...)\<close>.\<close>

definition drop_key :: "nat \<Rightarrow> 'k cred_pool \<Rightarrow> 'k cred_pool" where
  "drop_key i p = p\<lparr>kp_keys := take i (kp_keys p) @ drop (Suc i) (kp_keys p)\<rparr>"

text \<open>Every pointer of the slice is one of the heap.\<close>

definition refs_ok :: "'k cred_pool \<Rightarrow> bool" where
  "refs_ok p \<longleftrightarrow> (\<forall>a \<in> set (kp_keys p). a < length (kp_heap p))"

lemma put_key_simps [simp]:
  "kp_keys (put_key a k p) = kp_keys p" "kp_next (put_key a k p) = kp_next p"
  "kp_db (put_key a k p) = kp_db p" "length (kp_heap (put_key a k p)) = length (kp_heap p)"
  "a < length (kp_heap p) \<Longrightarrow> key_at (put_key a k p) a = k"
  "b \<noteq> a \<Longrightarrow> key_at (put_key a k p) b = key_at p b"
  by (simp_all add: put_key_def key_at_def)

lemma put_key_at: "a < length (kp_heap p) \<Longrightarrow> key_at (put_key b k p) a = (if a = b then k else key_at p a)"
  by simp

lemma new_key_simps [simp]:
  "kp_keys (new_key k p) = kp_keys p @ [length (kp_heap p)]" "kp_db (new_key k p) = kp_db p"
  "kp_next (new_key k p) = kp_next p" "length (kp_heap (new_key k p)) = Suc (length (kp_heap p))"
  "a < length (kp_heap p) \<Longrightarrow> key_at (new_key k p) a = key_at p a"
  "key_at (new_key k p) (length (kp_heap p)) = k"
  by (simp_all add: new_key_def key_at_def nth_append)

lemma key_at_fields [simp]:
  "key_at (p\<lparr>kp_keys := ks\<rparr>) a = key_at p a" "key_at (p\<lparr>kp_next := n\<rparr>) a = key_at p a"
  by (simp_all add: key_at_def)

lemma refs_ok_fields [simp]:
  "refs_ok (p\<lparr>kp_next := n\<rparr>) = refs_ok p" "refs_ok (put_key a k p) = refs_ok p"
  by (simp_all add: refs_ok_def)

lemma refs_ok_new [simp]: "refs_ok p \<Longrightarrow> refs_ok (new_key k p)"
  by (auto simp: refs_ok_def)

lemma refs_ok_sub: "refs_ok p \<Longrightarrow> set ks \<subseteq> set (kp_keys p) \<Longrightarrow> refs_ok (p\<lparr>kp_keys := ks\<rparr>)"
  by (auto simp: refs_ok_def)

lemma drop_key_simps [simp]:
  "key_at (drop_key i p) a = key_at p a" "kp_db (drop_key i p) = kp_db p"
  "length (kp_heap (drop_key i p)) = length (kp_heap p)"
  by (simp_all add: drop_key_def)

lemma refs_ok_drop [simp]: "refs_ok p \<Longrightarrow> refs_ok (drop_key i p)"
  unfolding drop_key_def by (rule refs_ok_sub) (auto dest: in_set_takeD in_set_dropD)

text \<open>Updating each key of a list by a function of the key that is idempotent, one after the other.\<close>

lemma fold_put_key:
  assumes "\<And>k. f (f k) = f k" and "\<forall>a \<in> set as. a < length (kp_heap p)"
  shows "key_at (fold (\<lambda>a q. put_key a (f (key_at q a)) q) as p) b =
           (if b \<in> set as then f (key_at p b) else key_at p b) \<and>
         kp_keys (fold (\<lambda>a q. put_key a (f (key_at q a)) q) as p) = kp_keys p \<and>
         kp_db (fold (\<lambda>a q. put_key a (f (key_at q a)) q) as p) = kp_db p \<and>
         length (kp_heap (fold (\<lambda>a q. put_key a (f (key_at q a)) q) as p)) = length (kp_heap p)"
  using assms(2)
proof (induction as arbitrary: p)
  case (Cons a as)
  then show ?case
    using Cons.IH [of "put_key a (f (key_at p a)) p"] by (cases "b = a") (auto simp: assms(1))
qed simp

section \<open>The life of a credential\<close>

text \<open>How long before its expiry a token is refreshed, on use and in the background.\<close>

definition REFRESH_BUFFER :: duration where "REFRESH_BUFFER = 10 * minute"
definition PRE_WARM_WINDOW :: duration where "PRE_WARM_WINDOW = 30 * minute"

text \<open>Whether a key is disabled, and since when; the zero time stands for ever.\<close>

type_synonym cred_status = "bool \<times> gotime"

definition for_good :: "cred_status \<Rightarrow> bool" where
  "for_good st \<longleftrightarrow> fst st \<and> snd st = 0"

definition cooled :: "gotime \<Rightarrow> cred_status \<Rightarrow> bool" where
  "cooled now st \<longleftrightarrow> fst st \<and> snd st \<noteq> 0 \<and> time_sub now (snd st) > 10 * minute"

text \<open>
  A history of a pool: the calls of \<open>Next\<close>, the ticks of the worker, cleanups, and any other
  operation as the change it makes.
\<close>

datatype 'p pool_event = Pick gotime | Tick gotime | Cleanup | Other "'p \<Rightarrow> 'p"

locale credential_pool =
  fixes status :: "'p \<Rightarrow> nat \<Rightarrow> cred_status"
    and members :: "'p \<Rightarrow> nat list"
    and pick :: "gotime \<Rightarrow> 'p \<Rightarrow> nat option \<times> 'p"
    and tick :: "gotime \<Rightarrow> 'p \<Rightarrow> 'p"
    and cleanup :: "'p \<Rightarrow> 'p"
    and invar :: "'p \<Rightarrow> bool"
  assumes pick_enabled: "invar p \<Longrightarrow> pick now p = (Some a, p') \<Longrightarrow> a \<in> set (members p) \<and> \<not> fst (status p a)"
    and pick_status: "invar p \<Longrightarrow> status (snd (pick now p)) = status p"
    and pick_members: "invar p \<Longrightarrow> members (snd (pick now p)) = members p"
    and tick_status: "invar p \<Longrightarrow> status (tick now p) a =
        (if a \<in> set (members p) \<and> cooled now (status p a) then (False, snd (status p a)) else status p a)"
    and tick_members: "members (tick now p) = members p"
    and cleanup_status: "status (cleanup p) = status p"
    and cleanup_members: "members (cleanup p) = filter (\<lambda>a. \<not> for_good (status p a)) (members p)"
    and pick_invar: "invar p \<Longrightarrow> invar (snd (pick now p))"
    and tick_invar: "invar p \<Longrightarrow> invar (tick now p)"
    and cleanup_invar: "invar p \<Longrightarrow> invar (cleanup p)"
begin

fun event :: "'p pool_event \<Rightarrow> 'p \<Rightarrow> nat option \<times> 'p" where
  "event (Pick now) p = pick now p"
| "event (Tick now) p = (None, tick now p)"
| "event Cleanup p = (None, cleanup p)"
| "event (Other f) p = (None, f p)"

fun run :: "'p pool_event list \<Rightarrow> 'p \<Rightarrow> nat option list \<times> 'p" where
  "run [] p = ([], p)"
| "run (e # es) p = (let (r, q) = event e p; (rs, q') = run es q in (r # rs, q'))"

text \<open>
  Events that keep a property \<open>J\<close> of the state, and the other operations among them lift no
  disablement of \<open>a\<close> for good.
\<close>

definition keeps_ban :: "('p \<Rightarrow> bool) \<Rightarrow> nat \<Rightarrow> 'p pool_event \<Rightarrow> bool" where
  "keeps_ban J a e \<longleftrightarrow>
     (\<forall>p. invar p \<and> J p \<longrightarrow> J (snd (event e p))) \<and>
     (case e of
        Other f \<Rightarrow> \<forall>p. invar p \<and> J p \<longrightarrow> invar (f p) \<and> (for_good (status p a) \<longrightarrow> for_good (status (f p) a))
      | _ \<Rightarrow> True)"

lemma event_keeps_ban:
  assumes "invar p" "J p" "for_good (status p a)" "keeps_ban J a e"
  shows "fst (event e p) \<noteq> Some a \<and> invar (snd (event e p)) \<and> J (snd (event e p)) \<and>
         for_good (status (snd (event e p)) a)"
proof -
  have J: "J (snd (event e p))" using assms by (simp add: keeps_ban_def)
  show ?thesis
  proof (cases e)
    case (Pick now)
    have "fst (pick now p) \<noteq> Some a"
      using pick_enabled [OF assms(1), of now a "snd (pick now p)"] assms(3)
      by (cases "pick now p") (auto simp: for_good_def)
    with Pick J assms show ?thesis by (simp add: pick_status pick_invar)
  next
    case (Tick now)
    with J assms show ?thesis by (simp add: tick_status tick_invar) (auto simp: for_good_def cooled_def)
  next
    case Cleanup
    with J assms show ?thesis by (simp add: cleanup_status cleanup_invar)
  next
    case (Other f)
    with J assms show ?thesis by (simp add: keeps_ban_def)
  qed
qed

lemma ban_is_final:
  assumes "invar p" "J p" "for_good (status p a)" "\<forall>e \<in> set es. keeps_ban J a e"
  shows "Some a \<notin> set (fst (run es p)) \<and> for_good (status (snd (run es p)) a)"
  using assms
proof (induction es arbitrary: p)
  case (Cons e es)
  have step: "fst (event e p) \<noteq> Some a" "invar (snd (event e p))" "J (snd (event e p))"
      "for_good (status (snd (event e p)) a)"
    using event_keeps_ban [of p J a e] Cons.prems by simp_all
  have "Some a \<notin> set (fst (run es (snd (event e p)))) \<and> for_good (status (snd (run es (snd (event e p)))) a)"
    using Cons.IH [OF step(2-4)] Cons.prems(4) by simp
  with step(1) show ?case by (auto simp: Let_def split_beta)
qed simp

text \<open>A cooldown ends with the first tick later than ten minutes after its start.\<close>

lemma cooldown_ends:
  assumes "invar p" "a \<in> set (members p)" "cooled now (status p a)"
  shows "\<not> fst (status (tick now p) a) \<and> a \<in> set (members (tick now p))"
  using assms by (simp add: tick_status tick_members)

lemma cleanup_keeps_cooldowns:
  "a \<in> set (members (cleanup p)) \<longleftrightarrow> a \<in> set (members p) \<and> \<not> for_good (status p a)"
  by (simp add: cleanup_members)

end

section \<open>Answers of an upstream\<close>

text \<open>\<open>client.Do\<close>: an error or a response, of which \<open>hr_sse\<close> says whether it is an event stream.\<close>

record http_response =
  hr_status :: int
  hr_sse :: bool
  hr_body :: string

type_synonym do_result = "string + http_response"

end
