(* ===== verification/GrokPool.thy ===== *)
theory GrokPool
  imports Upstream Db CredPool
begin

text \<open>
  The pool of Grok accounts and the Grok proxy, \<open>internal/upstream/grok.go\<close>. The manager's
  slice holds pointers, and requests and workers keep a pointer across the steps of others, so
  the accounts live in a heap: a pointer is an index into \<open>gp_heap\<close>, an account that leaves the
  pool stays in the heap. All accounts of a manager share its store handle, so one flag
  \<open>gp_db\<close> says whether there is a store.

  The clock, the OAuth endpoint, the upstream and the other goroutines are arguments. What a
  locked section reads of the clock is one instant. \<open>rfc\<close> renders a time as
  \<open>time.RFC3339\<close> in the process's zone and \<open>unrfc\<close> parses it. An operation returns, beside
  the new state, its calls to the store and its reports to the proxy pool, in order.
\<close>

section \<open>Accounts\<close>

record grok_account =
  ga_Email :: string
  ga_AccessToken :: string
  ga_RefreshToken :: string
  ga_IDToken :: string
  ga_ExpiresIn :: int
  ga_Expired :: string
  ga_LastRefresh :: string
  ga_Sub :: string
  ga_expiresAt :: gotime
  ga_disabled :: bool
  ga_disabledAt :: gotime

definition Grok_IsExpired :: "gotime \<Rightarrow> grok_account \<Rightarrow> bool" where
  "Grok_IsExpired now a \<longleftrightarrow> now > ga_expiresAt a - REFRESH_BUFFER"

definition TokenStatus :: "gotime \<Rightarrow> grok_account \<Rightarrow> string" where
  "TokenStatus now a =
     (if ga_disabled a \<and> ga_disabledAt a = 0 then ''banned''
      else if ga_disabled a then ''cooldown''
      else if Grok_IsExpired now a then ''expired''
      else ''active'')"

text \<open>The record that is stored, and its fields in the Redis hash.\<close>

record grok_dto =
  gd_Email :: string
  gd_AccessToken :: string
  gd_RefreshToken :: string
  gd_IDToken :: string
  gd_ExpiresAt :: gotime
  gd_ExpiresIn :: int
  gd_Expired :: string
  gd_LastRefresh :: string
  gd_Sub :: string
  gd_Disabled :: bool
  gd_DisabledAt :: gotime

definition toDTO :: "grok_account \<Rightarrow> grok_dto" where
  "toDTO a =
     \<lparr>gd_Email = ga_Email a, gd_AccessToken = ga_AccessToken a, gd_RefreshToken = ga_RefreshToken a,
      gd_IDToken = ga_IDToken a, gd_ExpiresAt = ga_expiresAt a, gd_ExpiresIn = ga_ExpiresIn a,
      gd_Expired = ga_Expired a, gd_LastRefresh = ga_LastRefresh a, gd_Sub = ga_Sub a,
      gd_Disabled = ga_disabled a, gd_DisabledAt = ga_disabledAt a\<rparr>"

definition SaveGrokAccount :: "grok_dto \<Rightarrow> (string \<times> redis_value) list" where
  "SaveGrokAccount d =
     [(''email'', RStr (gd_Email d)), (''access_token'', RStr (gd_AccessToken d)),
      (''refresh_token'', RStr (gd_RefreshToken d)), (''id_token'', RStr (gd_IDToken d)),
      (''expires_at'', RInt (unix_seconds (gd_ExpiresAt d))), (''expires_in'', RInt (gd_ExpiresIn d)),
      (''expired'', RStr (gd_Expired d)), (''last_refresh'', RStr (gd_LastRefresh d)),
      (''sub'', RStr (gd_Sub d)), (''disabled'', RBool (gd_Disabled d)),
      (''disabled_at'', RInt (unix_seconds (gd_DisabledAt d)))]"

datatype grok_call = Save_grok grok_dto | Delete_grok string | Report_proxy bool int

section \<open>The manager\<close>

record grok_pool =
  gp_heap :: "grok_account list"
  gp_accounts :: "nat list"
  gp_next :: nat
  gp_db :: bool

definition NewGrokAccountManager :: "bool \<Rightarrow> grok_pool" where
  "NewGrokAccountManager db = \<lparr>gp_heap = [], gp_accounts = [], gp_next = 0, gp_db = db\<rparr>"

definition account_at :: "grok_pool \<Rightarrow> nat \<Rightarrow> grok_account" where
  "account_at p a = gp_heap p ! a"

definition put_account :: "nat \<Rightarrow> grok_account \<Rightarrow> grok_pool \<Rightarrow> grok_pool" where
  "put_account a acc p = p\<lparr>gp_heap := (gp_heap p)[a := acc]\<rparr>"

definition new_account :: "grok_account \<Rightarrow> grok_pool \<Rightarrow> grok_pool" where
  "new_account acc p =
     p\<lparr>gp_heap := gp_heap p @ [acc], gp_accounts := gp_accounts p @ [length (gp_heap p)]\<rparr>"

definition save_account :: "grok_pool \<Rightarrow> nat \<Rightarrow> grok_call list" where
  "save_account p a = (if gp_db p then [Save_grok (toDTO (account_at p a))] else [])"

definition AddAccount :: "grok_account \<Rightarrow> grok_pool \<Rightarrow> grok_pool" where
  "AddAccount acc p = new_account acc p"

text \<open>
  Loading. \<open>redis\<close> lists the stored hashes in the order the map iteration happens to take
  them; the error of the scan is a value.
\<close>

definition load_expiry ::
  "(string \<Rightarrow> gotime option) \<Rightarrow> gotime \<Rightarrow> int \<Rightarrow> (string \<Rightarrow> string option) \<Rightarrow> gotime" where
  "load_expiry unrfc now expires_in state =
     (let v = hash_field state ''expired'' in
      if v \<noteq> [] then (case unrfc v of Some t \<Rightarrow> t | None \<Rightarrow> now)
      else if expires_in > 0 then now + wrap64 (expires_in * second)
      else now)"

definition load_account ::
  "(string \<Rightarrow> gotime option) \<Rightarrow> gotime \<Rightarrow> string \<Rightarrow> (string \<Rightarrow> string option) \<Rightarrow> grok_account option" where
  "load_account unrfc now email state =
     (if hash_field state ''access_token'' = [] \<or> hash_field state ''refresh_token'' = [] then None
      else
        let n = atoiSafe (hash_field state ''expires_in'');
            dis = (hash_field state ''disabled'' = ''true'' \<or> hash_field state ''disabled'' = ''1'');
            since = (if dis then
                    (case parse_int64 (hash_field state ''disabled_at'') of
                       Some s \<Rightarrow> if s \<le> 0 then 0 else from_unix s
                     | None \<Rightarrow> 0)
                  else 0)
        in Some \<lparr>ga_Email = email, ga_AccessToken = hash_field state ''access_token'',
             ga_RefreshToken = hash_field state ''refresh_token'', ga_IDToken = hash_field state ''id_token'',
             ga_ExpiresIn = n, ga_Expired = hash_field state ''expired'',
             ga_LastRefresh = hash_field state ''last_refresh'', ga_Sub = hash_field state ''sub'',
             ga_expiresAt = load_expiry unrfc now n state, ga_disabled = dis, ga_disabledAt = since\<rparr>)"

definition Grok_LoadFromRedis ::
  "(string \<Rightarrow> gotime option) \<Rightarrow> gotime \<Rightarrow> string + (string \<times> (string \<Rightarrow> string option)) list \<Rightarrow> grok_pool \<Rightarrow>
   string option \<times> grok_pool" where
  "Grok_LoadFromRedis unrfc now redis p =
     (if \<not> gp_db p then (Some ''redis not available'', p)
      else case redis of
             Inl err \<Rightarrow> (Some err, p)
           | Inr rows \<Rightarrow>
             (None, fold (\<lambda>(email, state) q. case load_account unrfc now email state of
                          None \<Rightarrow> q | Some acc \<Rightarrow> new_account acc q)
                      rows (p\<lparr>gp_accounts := []\<rparr>)))"

text \<open>
  \<open>Next\<close>: the first account from the cursor on whose token is outside the refresh window;
  failing that the enabled account that expires last, with a refresh started in the
  background (the flag).
\<close>

definition fresh_account :: "gotime \<Rightarrow> grok_account \<Rightarrow> bool" where
  "fresh_account now a \<longleftrightarrow> \<not> ga_disabled a \<and> now < ga_expiresAt a - REFRESH_BUFFER"

fun best_expiry :: "grok_account list \<Rightarrow> nat list \<Rightarrow> nat option \<Rightarrow> nat option" where
  "best_expiry h [] best = best"
| "best_expiry h (a # as) best =
     (if ga_disabled (h ! a) then best_expiry h as best
      else case best of
             None \<Rightarrow> best_expiry h as (Some a)
           | Some b \<Rightarrow> best_expiry h as (if ga_expiresAt (h ! a) > ga_expiresAt (h ! b) then Some a else Some b))"

definition Grok_Next :: "gotime \<Rightarrow> grok_pool \<Rightarrow> (string + nat \<times> bool) \<times> grok_pool" where
  "Grok_Next now p =
     (let n = length (gp_accounts p) in
      if n = 0 then (Inl ''no grok accounts'', p)
      else
        case find (\<lambda>i. fresh_account now (account_at p (gp_accounts p ! ((gp_next p + i) mod n)))) [0..<n] of
          Some i \<Rightarrow>
            (let idx = (gp_next p + i) mod n
             in (Inr (gp_accounts p ! idx, False), p\<lparr>gp_next := (idx + 1) mod n\<rparr>))
        | None \<Rightarrow>
            (case best_expiry (gp_heap p) (gp_accounts p) None of
               Some b \<Rightarrow> (Inr (b, True), p\<lparr>gp_next := (gp_next p + 1) mod n\<rparr>)
             | None \<Rightarrow> (Inl ''all grok accounts disabled'', p)))"

definition cooled_down :: "gotime \<Rightarrow> grok_account \<Rightarrow> bool" where
  "cooled_down now a \<longleftrightarrow>
     ga_disabled a \<and> ga_disabledAt a \<noteq> 0 \<and> time_sub now (ga_disabledAt a) > 10 * minute"

definition reenable_one :: "gotime \<Rightarrow> nat \<Rightarrow> grok_pool \<Rightarrow> grok_pool" where
  "reenable_one now a p =
     (if cooled_down now (account_at p a) then put_account a ((account_at p a)\<lparr>ga_disabled := False\<rparr>) p else p)"

definition ReenableCooldowns :: "gotime \<Rightarrow> grok_pool \<Rightarrow> grok_pool \<times> grok_call list" where
  "ReenableCooldowns now p =
     (let reenabled = filter (\<lambda>a. cooled_down now (account_at p a)) (gp_accounts p);
          p' = fold (reenable_one now) (gp_accounts p) p
      in (p', concat (map (save_account p') reenabled)))"

definition ImportAccountRaw ::
  "(gotime \<Rightarrow> string) \<Rightarrow> gotime \<Rightarrow> string \<Rightarrow> string \<Rightarrow> string \<Rightarrow> string \<Rightarrow> int \<Rightarrow> grok_pool \<Rightarrow>
   (nat \<times> bool) \<times> grok_pool" where
  "ImportAccountRaw rfc now email access refresh idtok expiresIn p =
     (case find (\<lambda>a. ga_Email (account_at p a) = email) (gp_accounts p) of
        Some a \<Rightarrow> ((a, False), p)
      | None \<Rightarrow>
        (let t = now + wrap64 (expiresIn * second);
             acc = \<lparr>ga_Email = email, ga_AccessToken = access, ga_RefreshToken = refresh, ga_IDToken = idtok,
                    ga_ExpiresIn = expiresIn, ga_Expired = rfc t, ga_LastRefresh = [], ga_Sub = [],
                    ga_expiresAt = t, ga_disabled = False, ga_disabledAt = 0\<rparr>
         in ((length (gp_heap p), True), new_account acc p)))"

definition UpsertAccount ::
  "(gotime \<Rightarrow> string) \<Rightarrow> gotime \<Rightarrow> string \<Rightarrow> string \<Rightarrow> string \<Rightarrow> string \<Rightarrow> string \<Rightarrow> int \<Rightarrow> grok_pool \<Rightarrow>
   (bool \<times> nat \<times> nat) \<times> grok_pool \<times> grok_call list" where
  "UpsertAccount rfc now email access refresh idtok sub expiresIn0 p =
     (let expiresIn = (if expiresIn0 = 0 then 21600 else expiresIn0);
          t = now + wrap64 (expiresIn * second)
      in case find (\<lambda>a. ga_Email (account_at p a) = email) (gp_accounts p) of
           Some a \<Rightarrow>
             (let acc = (account_at p a)\<lparr>ga_AccessToken := access, ga_RefreshToken := refresh,
                    ga_IDToken := idtok, ga_ExpiresIn := expiresIn, ga_Expired := rfc t,
                    ga_LastRefresh := rfc now, ga_Sub := sub, ga_expiresAt := t,
                    ga_disabled := False, ga_disabledAt := 0\<rparr>;
                  p' = put_account a acc p
              in ((False, length (gp_accounts p), a), p', save_account p' a))
         | None \<Rightarrow>
             (let acc = \<lparr>ga_Email = email, ga_AccessToken = access, ga_RefreshToken = refresh,
                    ga_IDToken = idtok, ga_ExpiresIn = expiresIn, ga_Expired = rfc t,
                    ga_LastRefresh = rfc now, ga_Sub = sub, ga_expiresAt = t,
                    ga_disabled = False, ga_disabledAt = 0\<rparr>;
                  p' = new_account acc p;
                  a = length (gp_heap p)
              in ((True, length (gp_accounts p'), a), p', save_account p' a)))"

definition DeleteAccount :: "string \<Rightarrow> grok_pool \<Rightarrow> bool \<times> grok_pool \<times> grok_call list" where
  "DeleteAccount email p =
     (case find_idx (\<lambda>a. ga_Email (account_at p a) = email) (gp_accounts p) of
        Some i \<Rightarrow>
          (True, p\<lparr>gp_accounts := take i (gp_accounts p) @ drop (Suc i) (gp_accounts p)\<rparr>,
           if gp_db p then [Delete_grok email] else [])
      | None \<Rightarrow> (False, p, []))"

definition cleanupBy :: "(grok_account \<Rightarrow> bool) \<Rightarrow> grok_pool \<Rightarrow> nat \<times> grok_pool \<times> grok_call list" where
  "cleanupBy pred p =
     (let gone = filter (\<lambda>a. pred (account_at p a)) (gp_accounts p)
      in (length gone,
          p\<lparr>gp_accounts := filter (\<lambda>a. \<not> pred (account_at p a)) (gp_accounts p)\<rparr>,
          if gp_db p then map (\<lambda>a. Delete_grok (ga_Email (account_at p a))) gone else []))"

definition banned :: "grok_account \<Rightarrow> bool" where
  "banned a \<longleftrightarrow> ga_disabled a \<and> ga_disabledAt a = 0"

definition Grok_CleanupDisabled :: "grok_pool \<Rightarrow> nat \<times> grok_pool \<times> grok_call list" where
  "Grok_CleanupDisabled = cleanupBy banned"

definition CleanupBanned :: "grok_pool \<Rightarrow> nat \<times> grok_pool \<times> grok_call list" where
  "CleanupBanned = cleanupBy banned"

section \<open>Refreshing tokens\<close>

text \<open>
  The OAuth endpoint answers with a transport error, or with a status, a body and what
  \<open>json.Unmarshal\<close> makes of the body. Concurrent refreshes of one email share one execution
  (\<open>singleflight\<close>), which is this step.
\<close>

record token_set =
  ts_AccessToken :: string
  ts_RefreshToken :: string
  ts_ExpiresIn :: int
  ts_IDToken :: string

datatype token_reply = Token_error string | Token_response int string "string + token_set"

definition apply_tokens :: "(gotime \<Rightarrow> string) \<Rightarrow> gotime \<Rightarrow> token_set \<Rightarrow> grok_account \<Rightarrow> grok_account" where
  "apply_tokens rfc now t a0 =
     (let a = a0\<lparr>ga_AccessToken := ts_AccessToken t,
                 ga_RefreshToken := (if ts_RefreshToken t \<noteq> [] then ts_RefreshToken t else ga_RefreshToken a0),
                 ga_IDToken := (if ts_IDToken t \<noteq> [] then ts_IDToken t else ga_IDToken a0),
                 ga_ExpiresIn := (if ts_ExpiresIn t > 0 then ts_ExpiresIn t else ga_ExpiresIn a0)\<rparr>;
          e = now + wrap64 (ga_ExpiresIn a * second)
      in a\<lparr>ga_expiresAt := e, ga_LastRefresh := rfc now, ga_Expired := rfc e\<rparr>)"

definition refreshLocked ::
  "(gotime \<Rightarrow> string) \<Rightarrow> gotime \<Rightarrow> token_reply \<Rightarrow> nat \<Rightarrow> grok_pool \<Rightarrow> string option \<times> grok_pool \<times> grok_call list" where
  "refreshLocked rfc now reply a p =
     (case reply of
        Token_error err \<Rightarrow> (Some err, p, [Report_proxy True 0])
      | Token_response status body parsed \<Rightarrow>
        if status \<noteq> 200
        then (Some (''refresh ['' @ show_int status @ '']: '' @ body), p, [Report_proxy False status])
        else (case parsed of
                Inl err \<Rightarrow> (Some err, p, [Report_proxy False status])
              | Inr t \<Rightarrow>
                (let p' = put_account a (apply_tokens rfc now t (account_at p a)) p
                 in (None, p', Report_proxy False status # save_account p' a))))"

definition EnsureValid ::
  "(gotime \<Rightarrow> string) \<Rightarrow> gotime \<Rightarrow> token_reply \<Rightarrow> nat \<Rightarrow> grok_pool \<Rightarrow> string option \<times> grok_pool \<times> grok_call list" where
  "EnsureValid rfc now reply a p =
     (if \<not> Grok_IsExpired now (account_at p a) then (None, p, []) else refreshLocked rfc now reply a p)"

definition mark_disabled :: "gotime \<Rightarrow> nat \<Rightarrow> grok_pool \<Rightarrow> grok_pool \<times> grok_call list" where
  "mark_disabled since a p =
     (let p' = put_account a ((account_at p a)\<lparr>ga_disabled := True, ga_disabledAt := since\<rparr>) p
      in (p', save_account p' a))"

text \<open>One account of a tick of \<open>AutoRefreshWorker\<close>.\<close>

definition needs_prewarm :: "gotime \<Rightarrow> grok_account \<Rightarrow> bool" where
  "needs_prewarm now a \<longleftrightarrow> \<not> banned a \<and> now > ga_expiresAt a - PRE_WARM_WINDOW"

definition prewarm_account ::
  "(gotime \<Rightarrow> string) \<Rightarrow> gotime \<Rightarrow> token_reply \<Rightarrow> nat \<Rightarrow> grok_pool \<Rightarrow> grok_pool \<times> grok_call list" where
  "prewarm_account rfc now reply a p =
     (if \<not> needs_prewarm now (account_at p a) then (p, [])
      else case refreshLocked rfc now reply a p of
             (None, p', cs) \<Rightarrow> (p', cs)
           | (Some err, p', cs) \<Rightarrow>
             if str_contains err ''invalid_grant''
             then (let (p'', cs') = mark_disabled 0 a p' in (p'', cs @ cs'))
             else (p', cs))"

section \<open>Lemmas\<close>

lemma put_account_simps [simp]:
  "gp_accounts (put_account a acc p) = gp_accounts p" "gp_next (put_account a acc p) = gp_next p"
  "gp_db (put_account a acc p) = gp_db p" "length (gp_heap (put_account a acc p)) = length (gp_heap p)"
  "a < length (gp_heap p) \<Longrightarrow> account_at (put_account a acc p) a = acc"
  "b \<noteq> a \<Longrightarrow> account_at (put_account a acc p) b = account_at p b"
  by (simp_all add: put_account_def account_at_def)

lemma best_expiry_None: "best_expiry h as best = None \<longleftrightarrow> best = None \<and> (\<forall>a \<in> set as. ga_disabled (h ! a))"
  by (induction as arbitrary: best) (auto split: option.split)

lemma best_expiry_Some:
  "best_expiry h as best = Some b \<Longrightarrow> (\<And>c. best = Some c \<Longrightarrow> \<not> ga_disabled (h ! c)) \<Longrightarrow>
   (b \<in> set as \<or> best = Some b) \<and> \<not> ga_disabled (h ! b) \<and>
   (\<forall>a \<in> set as \<union> set_option best. \<not> ga_disabled (h ! a) \<longrightarrow> ga_expiresAt (h ! a) \<le> ga_expiresAt (h ! b))"
proof (induction as arbitrary: best)
  case (Cons a as)
  show ?case
  proof (cases "ga_disabled (h ! a)")
    case True
    with Cons show ?thesis by fastforce
  next
    case False
    define best' where "best' = (case best of None \<Rightarrow> Some a
        | Some c \<Rightarrow> Some (if ga_expiresAt (h ! a) > ga_expiresAt (h ! c) then a else c))"
    have step: "best_expiry h as best' = Some b"
      using Cons.prems(1) False by (cases best) (auto simp: best'_def split: if_splits)
    have "\<not> ga_disabled (h ! c)" if "best' = Some c" for c
      using that False Cons.prems(2) by (auto simp: best'_def split: option.splits if_splits)
    with Cons.IH [OF step] have IH: "b \<in> set as \<or> best' = Some b" "\<not> ga_disabled (h ! b)"
        "\<forall>a \<in> set as \<union> set_option best'. \<not> ga_disabled (h ! a) \<longrightarrow> ga_expiresAt (h ! a) \<le> ga_expiresAt (h ! b)"
      by blast+
    show ?thesis
    proof (cases best)
      case None
      with IH show ?thesis by (auto simp: best'_def)
    next
      case (Some c)
      with IH False Cons.prems(2) [OF Some] show ?thesis
        by (cases "ga_expiresAt (h ! a) > ga_expiresAt (h ! c)") (auto simp: best'_def)
    qed
  qed
qed auto

text \<open>The candidates of the first pass, in the order of the scan.\<close>

definition fresh_from_cursor :: "gotime \<Rightarrow> grok_pool \<Rightarrow> nat list" where
  "fresh_from_cursor now p = filter (\<lambda>a. fresh_account now (account_at p a)) (rotate (gp_next p) (gp_accounts p))"

lemma Next_fresh:
  assumes "fresh_from_cursor now p = x # xs"
  shows "fst (Grok_Next now p) = Inr (x, False) \<and>
         fresh_from_cursor now (snd (Grok_Next now p)) = xs @ [x] \<and>
         gp_heap (snd (Grok_Next now p)) = gp_heap p \<and> gp_accounts (snd (Grok_Next now p)) = gp_accounts p"
proof -
  have ne: "gp_accounts p \<noteq> []" using assms by (auto simp: fresh_from_cursor_def)
  from assms show ?thesis
    unfolding fresh_from_cursor_def
    by (elim cursor_scan_some) (simp add: ne Grok_Next_def Let_def account_at_def)
qed

lemma Next_stale:
  assumes "fresh_from_cursor now p = []" and "gp_accounts p \<noteq> []"
  shows "fst (Grok_Next now p) =
      (case best_expiry (gp_heap p) (gp_accounts p) None of
         Some b \<Rightarrow> Inr (b, True) | None \<Rightarrow> Inl ''all grok accounts disabled'') \<and>
    gp_heap (snd (Grok_Next now p)) = gp_heap p \<and> gp_accounts (snd (Grok_Next now p)) = gp_accounts p"
proof -
  let ?as = "gp_accounts p" and ?n = "length (gp_accounts p)"
  have "find (\<lambda>i. fresh_account now (account_at p (?as ! ((gp_next p + i) mod ?n)))) [0..<?n] = None"
    using assms(1) unfolding fresh_from_cursor_def by (rule cursor_scan_none)
  with assms(2) show ?thesis by (simp add: Grok_Next_def Let_def split: option.split)
qed

lemma Next_enabled:
  assumes "Grok_Next now p = (Inr (a, bg), p')"
  shows "a \<in> set (gp_accounts p) \<and> \<not> ga_disabled (account_at p a) \<and> gp_heap p' = gp_heap p \<and> gp_accounts p' = gp_accounts p"
proof (cases "fresh_from_cursor now p")
  case Nil
  have ne: "gp_accounts p \<noteq> []" using assms by (auto simp: Grok_Next_def Let_def)
  from Next_stale [OF Nil ne] assms have "best_expiry (gp_heap p) (gp_accounts p) None = Some a"
      "gp_heap p' = gp_heap p" "gp_accounts p' = gp_accounts p"
    by (auto split: option.splits)
  with best_expiry_Some [of "gp_heap p" "gp_accounts p" None a] show ?thesis by (simp add: account_at_def)
next
  case (Cons x xs)
  have "x \<in> set (fresh_from_cursor now p)" by (simp add: Cons)
  then have "x \<in> set (gp_accounts p)" "\<not> ga_disabled (account_at p x)"
    by (simp_all add: fresh_from_cursor_def fresh_account_def)
  with Next_fresh [OF Cons] assms show ?thesis by simp
qed

section \<open>The life of an account\<close>

definition refs_in_heap :: "grok_pool \<Rightarrow> bool" where
  "refs_in_heap p \<longleftrightarrow> (\<forall>a \<in> set (gp_accounts p). a < length (gp_heap p))"

definition grok_status :: "grok_pool \<Rightarrow> nat \<Rightarrow> cred_status" where
  "grok_status p a = (ga_disabled (account_at p a), ga_disabledAt (account_at p a))"

definition grok_pick :: "gotime \<Rightarrow> grok_pool \<Rightarrow> nat option \<times> grok_pool" where
  "grok_pick now p = (case Grok_Next now p of (Inr (a, _), p') \<Rightarrow> (Some a, p') | (Inl _, p') \<Rightarrow> (None, p'))"

lemma Next_frame:
  "gp_heap (snd (Grok_Next now p)) = gp_heap p \<and> gp_accounts (snd (Grok_Next now p)) = gp_accounts p"
  by (auto simp: Grok_Next_def Let_def split: option.split)

lemma reenable_one_status:
  "a < length (gp_heap p) \<Longrightarrow> grok_status (reenable_one now a p) b =
     (if b = a \<and> cooled now (grok_status p b) then (False, snd (grok_status p b)) else grok_status p b)"
  by (cases "b = a") (auto simp: reenable_one_def grok_status_def cooled_down_def cooled_def)

lemma reenable_fold_status:
  "\<forall>a \<in> set as. a < length (gp_heap p) \<Longrightarrow>
   grok_status (fold (reenable_one now) as p) b =
     (if b \<in> set as \<and> cooled now (grok_status p b) then (False, snd (grok_status p b)) else grok_status p b) \<and>
   gp_accounts (fold (reenable_one now) as p) = gp_accounts p \<and>
   length (gp_heap (fold (reenable_one now) as p)) = length (gp_heap p)"
proof (induction as arbitrary: p)
  case (Cons a as)
  have one: "gp_accounts (reenable_one now a p) = gp_accounts p"
    "length (gp_heap (reenable_one now a p)) = length (gp_heap p)"
    by (simp_all add: reenable_one_def)
  with Cons.IH [of "reenable_one now a p"] Cons.prems show ?case
    by (auto simp: reenable_one_status cooled_def)
qed simp

interpretation grok_life: credential_pool grok_status gp_accounts grok_pick
  "\<lambda>now p. fst (ReenableCooldowns now p)" "\<lambda>p. fst (snd (Grok_CleanupDisabled p))" refs_in_heap
proof unfold_locales
  show "grok_pick now p = (Some a, p') \<Longrightarrow> a \<in> set (gp_accounts p) \<and> \<not> fst (grok_status p a)" for now p a p'
    by (auto simp: grok_pick_def grok_status_def split: prod.splits sum.splits dest: Next_enabled)
  have snd_pick: "snd (grok_pick now p) = snd (Grok_Next now p)" for now p
    by (simp add: grok_pick_def split: prod.split sum.split)
  show "grok_status (snd (grok_pick now p)) = grok_status p" for now p
    by (simp add: fun_eq_iff snd_pick grok_status_def account_at_def Next_frame)
  show "gp_accounts (snd (grok_pick now p)) = gp_accounts p" for now p
    by (simp add: snd_pick Next_frame)
  show "refs_in_heap p \<Longrightarrow> refs_in_heap (snd (grok_pick now p))" for now p
    by (simp add: snd_pick refs_in_heap_def Next_frame)
  show "refs_in_heap p \<Longrightarrow> grok_status (fst (ReenableCooldowns now p)) a =
      (if a \<in> set (gp_accounts p) \<and> cooled now (grok_status p a) then (False, snd (grok_status p a))
       else grok_status p a)" for now p a
    by (simp add: ReenableCooldowns_def Let_def refs_in_heap_def reenable_fold_status)
  show "gp_accounts (fst (ReenableCooldowns now p)) = gp_accounts p" for now p
  proof -
    have "gp_accounts (fold (reenable_one now) as q) = gp_accounts q" for as q
      by (induction as arbitrary: q) (simp_all add: reenable_one_def)
    then show ?thesis by (simp add: ReenableCooldowns_def Let_def)
  qed
  show "refs_in_heap p \<Longrightarrow> refs_in_heap (fst (ReenableCooldowns now p))" for now p
    by (simp add: ReenableCooldowns_def Let_def refs_in_heap_def reenable_fold_status)
qed (auto simp: Grok_CleanupDisabled_def cleanupBy_def grok_status_def account_at_def banned_def for_good_def
    refs_in_heap_def Let_def)

section \<open>Properties\<close>

text \<open>Calls of \<open>Next\<close> in a row, at the given times.\<close>

fun next_calls :: "gotime list \<Rightarrow> grok_pool \<Rightarrow> (string + nat \<times> bool) list \<times> grok_pool" where
  "next_calls [] p = ([], p)"
| "next_calls (t # ts) p =
     (let (r, p1) = Grok_Next t p; (rs, p2) = next_calls ts p1 in (r # rs, p2))"

text \<open>
  The pool rotates, unless all tokens are about to expire. As long as the same accounts
  are fresh (enabled, with a token outside the refresh window), consecutive calls serve exactly
  those, in the order of the pool from the cursor on, over and over. When none is fresh, every
  call answers with one and the same account, the cursor having no say.
\<close>

theorem grok_next_rotation:
  assumes "gp_accounts p \<noteq> []"
    and "\<forall>t \<in> set ts. \<forall>a \<in> set (gp_accounts p). fresh_account t (account_at p a) = fresh_account now (account_at p a)"
  shows "fst (next_calls ts p) =
    (let fresh = filter (\<lambda>a. fresh_account now (account_at p a)) (rotate (gp_next p) (gp_accounts p)) in
     if fresh \<noteq> [] then map (\<lambda>i. Inr (fresh ! (i mod length fresh), False)) [0..<length ts]
     else replicate (length ts)
            (case best_expiry (gp_heap p) (gp_accounts p) None of
               Some b \<Rightarrow> Inr (b, True) | None \<Rightarrow> Inl ''all grok accounts disabled''))"
  unfolding fresh_from_cursor_def [symmetric]
  using assms
proof (induction ts arbitrary: p)
  case (Cons t ts)
  let ?p' = "snd (Grok_Next t p)"
  have same: "fresh_from_cursor t p = fresh_from_cursor now p"
    using Cons.prems by (auto simp: fresh_from_cursor_def intro: filter_cong)
  have run: "fst (next_calls (t # ts) p) = fst (Grok_Next t p) # fst (next_calls ts ?p')"
    by (simp add: split_beta Let_def)
  show ?case
  proof (cases "fresh_from_cursor now p")
    case Nil
    with same have nil: "fresh_from_cursor t p = []" by simp
    note st = Next_stale [OF nil Cons.prems(1)]
    have nil': "fresh_from_cursor now ?p' = []"
      using Nil st by (simp add: fresh_from_cursor_def account_at_def filter_empty_conv)
    have "fst (next_calls ts ?p') = replicate (length ts)
        (case best_expiry (gp_heap p) (gp_accounts p) None of
           Some b \<Rightarrow> Inr (b, True) | None \<Rightarrow> Inl ''all grok accounts disabled'')"
      using Cons.IH [of ?p'] Cons.prems st nil' by (simp add: account_at_def Let_def)
    with Nil st show ?thesis unfolding run by (simp add: Let_def)
  next
    case (Cons x xs)
    with same have hd: "fresh_from_cursor t p = x # xs" by simp
    note st = Next_fresh [OF hd]
    have stable: "\<forall>t \<in> set ts. \<forall>a \<in> set (gp_accounts ?p').
        fresh_account t (account_at ?p' a) = fresh_account now (account_at ?p' a)"
      using Cons.prems st by (simp add: account_at_def)
    have "fresh_from_cursor now ?p' = fresh_from_cursor t ?p'"
      using Cons.prems st by (auto simp: fresh_from_cursor_def account_at_def intro: filter_cong)
    then have cyc: "fresh_from_cursor now ?p' = rotate1 (fresh_from_cursor now p)"
      using st \<open>fresh_from_cursor now p = x # xs\<close> by simp
    have "fst (next_calls ts ?p') =
        map (\<lambda>i. Inr (rotate1 (x # xs) ! (i mod Suc (length xs)), False)) [0..<length ts]"
      using Cons.IH [of ?p', OF _ stable] st Cons.prems(1) \<open>fresh_from_cursor now p = x # xs\<close>
      by (simp add: cyc Let_def)
    also have "\<dots> = map (\<lambda>i. Inr ((x # xs) ! (Suc i mod Suc (length xs)), False)) [0..<length ts]"
      by (intro map_cong refl) (simp add: nth_rotate1 mod_Suc_eq del: rotate1.simps)
    finally show ?thesis
      unfolding run using st \<open>fresh_from_cursor now p = x # xs\<close>
      by (simp add: Let_def upt_conv_Cons map_Suc_upt [symmetric] del: upt_Suc)
  qed
qed (simp add: Let_def)

definition demo_account :: "string \<Rightarrow> gotime \<Rightarrow> grok_account" where
  "demo_account email t =
     \<lparr>ga_Email = email, ga_AccessToken = ''at'', ga_RefreshToken = ''rt'', ga_IDToken = [], ga_ExpiresIn = 21600,
      ga_Expired = [], ga_LastRefresh = [], ga_Sub = [], ga_expiresAt = t, ga_disabled = False, ga_disabledAt = 0\<rparr>"

definition demo_grok :: grok_pool where
  "demo_grok =
     \<lparr>gp_heap = [demo_account ''a'' (6 * hour), (demo_account ''b'' (6 * hour))\<lparr>ga_disabled := True\<rparr>,
                 demo_account ''c'' (6 * hour)],
      gp_accounts = [0, 1, 2], gp_next = 1, gp_db = True\<rparr>"

lemmas demo_grok_defs = demo_grok_def demo_account_def account_at_def REFRESH_BUFFER_def hour_def minute_def second_def

lemma demo_grok_fresh:
  "t \<in> {0, 5} \<Longrightarrow> a \<in> {0, 1, 2} \<Longrightarrow> fresh_account t (account_at demo_grok a) \<longleftrightarrow> a \<noteq> 1"
  by (auto simp: demo_grok_defs fresh_account_def)

theorem grok_next_rotation_witness:
  "fst (next_calls [0, 5, 0, 5] demo_grok) = [Inr (2, False), Inr (0, False), Inr (2, False), Inr (0, False)]"
proof -
  have as: "gp_accounts demo_grok = [0, 1, 2]" "gp_next demo_grok = 1" by (simp_all add: demo_grok_def)
  have stable: "\<forall>t \<in> set [0, 5, 0, 5]. \<forall>a \<in> set (gp_accounts demo_grok).
      fresh_account t (account_at demo_grok a) = fresh_account 0 (account_at demo_grok a)"
    by (simp add: as demo_grok_fresh)
  have rot: "rotate 1 [0, 1, 2] = [1, 2, 0 :: nat]" and len: "length [0, 5, 0, 5 :: gotime] = 4"
    and "[0..<4] = [0, 1, 2, 3 :: nat]" and md: "2 mod Suc (Suc 0) = 0" "3 mod Suc (Suc 0) = Suc 0"
    by code_simp+
  from grok_next_rotation [OF _ stable]
  have "fst (next_calls [0, 5, 0, 5] demo_grok) =
      (let fresh = filter (\<lambda>a. fresh_account 0 (account_at demo_grok a)) [1, 2, 0] in
       if fresh \<noteq> [] then map (\<lambda>i. Inr (fresh ! (i mod length fresh), False)) [0..<4]
       else replicate 4 (case best_expiry (gp_heap demo_grok) (gp_accounts demo_grok) None of
               Some b \<Rightarrow> Inr (b, True) | None \<Rightarrow> Inl ''all grok accounts disabled''))"
    unfolding as rot len by simp
  also have "filter (\<lambda>a. fresh_account 0 (account_at demo_grok a)) [1, 2, 0] = [2, 0]"
    by (simp add: demo_grok_fresh)
  finally show ?thesis
    by (simp add: \<open>[0..<4] = [0, 1, 2, 3 :: nat]\<close> Let_def md del: next_calls.simps)
qed

text \<open>
  Redis behind the calls: a write merges the fields into the hash of the email, a deletion
  removes the hash.
\<close>

fun apply_grok_call ::
  "(redis_value \<Rightarrow> string) \<Rightarrow> grok_call \<Rightarrow> (string \<Rightarrow> (string \<Rightarrow> string option) option) \<Rightarrow>
   string \<Rightarrow> (string \<Rightarrow> string option) option" where
  "apply_grok_call enc (Save_grok d) redis =
     redis(gd_Email d \<mapsto>
       (case redis (gd_Email d) of None \<Rightarrow> \<lambda>_. None | Some h \<Rightarrow> h) ++ stored enc (SaveGrokAccount d))"
| "apply_grok_call enc (Delete_grok email) redis = redis(email := None)"
| "apply_grok_call enc (Report_proxy err code) redis = redis"

lemma saved_grok_fields:
  fixes old :: "string \<Rightarrow> string option" and d :: grok_dto
  assumes "documented_encoding enc"
  defines "h \<equiv> old ++ stored enc (SaveGrokAccount d)"
  shows "hash_field h ''access_token'' = gd_AccessToken d" "hash_field h ''refresh_token'' = gd_RefreshToken d"
    "hash_field h ''disabled'' = (if gd_Disabled d then ''1'' else ''0'')"
  using assms(1)
  by (simp_all add: h_def hash_field_def stored_def SaveGrokAccount_def documented_encoding_def)

text \<open>
  A deleted account can come back. An account is deleted from the pool and from Redis while
  a refresh of its token is under way (a worker or a request holds the pointer). When the
  refresh succeeds it stores the account again: Redis has it, the pool does not, and the next
  load of any pool serves it again with the new token, enabled if it was.
\<close>

theorem deleted_account_returns:
  assumes enc: "documented_encoding enc"
    and pool: "gp_db p" "distinct (gp_accounts p)" "a \<in> set (gp_accounts p)" "a < length (gp_heap p)"
      "\<forall>b \<in> set (gp_accounts p). ga_Email (account_at p b) = ga_Email (account_at p a) \<longrightarrow> b = a"
    and tok: "ts_AccessToken t \<noteq> []" "ga_RefreshToken (account_at p a) \<noteq> []"
    and del: "DeleteAccount (ga_Email (account_at p a)) p = (ok, p1, cs1)"
    and ref: "refreshLocked rfc now (Token_response 200 body (Inr t)) a p1 = (err, p2, cs2)"
  shows "a \<notin> set (gp_accounts p2) \<and>
    (\<exists>h acc. fold (apply_grok_call enc) (cs1 @ cs2) redis (ga_Email (account_at p a)) = Some h \<and>
       load_account unrfc later (ga_Email (account_at p a)) h = Some acc \<and>
       ga_Email acc = ga_Email (account_at p a) \<and> ga_AccessToken acc = ts_AccessToken t \<and>
       ga_disabled acc = ga_disabled (account_at p a))"
proof -
  let ?m = "ga_Email (account_at p a)"
  let ?acc = "apply_tokens rfc now t (account_at p a)"
  obtain i where i: "find_idx (\<lambda>b. ga_Email (account_at p b) = ?m) (gp_accounts p) = Some i"
    using pool(3) by (cases "find_idx (\<lambda>b. ga_Email (account_at p b) = ?m) (gp_accounts p)") auto
  then have il: "i < length (gp_accounts p)" and "ga_Email (account_at p (gp_accounts p ! i)) = ?m"
    by (auto dest: find_idx_SomeD)
  with pool(5) have ia: "gp_accounts p ! i = a" by simp
  have p1: "p1 = p\<lparr>gp_accounts := take i (gp_accounts p) @ drop (Suc i) (gp_accounts p)\<rparr>" "cs1 = [Delete_grok ?m]"
    using del i pool(1) by (auto simp: DeleteAccount_def)
  have "gp_accounts p = take i (gp_accounts p) @ a # drop (Suc i) (gp_accounts p)"
    using id_take_nth_drop [OF il] ia by simp
  with pool(2) have out: "a \<notin> set (take i (gp_accounts p) @ drop (Suc i) (gp_accounts p))"
    by (metis distinct.simps(2) distinct_append Un_iff disjoint_iff list.set_intros(1) set_append)
  have at: "account_at p1 a = account_at p a" "gp_db p1" "a < length (gp_heap p1)"
    using pool(1,4) by (simp_all add: p1 account_at_def)
  have p2: "p2 = put_account a ?acc p1" "cs2 = [Report_proxy False 200, Save_grok (toDTO ?acc)]"
    using ref at by (auto simp: refreshLocked_def Let_def save_account_def)
  let ?d = "toDTO ?acc"
  let ?h = "Map.empty ++ stored enc (SaveGrokAccount ?d)"
  have d: "gd_Email ?d = ?m" "gd_AccessToken ?d = ts_AccessToken t" "gd_RefreshToken ?d \<noteq> []"
      "gd_Disabled ?d = ga_disabled (account_at p a)"
    using tok by (simp_all add: toDTO_def apply_tokens_def Let_def)
  have "fold (apply_grok_call enc) (cs1 @ cs2) redis ?m = Some ?h"
    by (simp add: p1 p2 d(1))
  moreover obtain acc where "load_account unrfc later ?m ?h = Some acc" "ga_Email acc = ?m"
      "ga_AccessToken acc = ts_AccessToken t" "ga_disabled acc = ga_disabled (account_at p a)"
    using saved_grok_fields [OF enc, of Map.empty ?d] d tok
    by (auto simp: load_account_def Let_def split: if_splits)
  moreover have "a \<notin> set (gp_accounts p2)" using out by (simp add: p2 p1)
  ultimately show ?thesis by blast
qed

theorem deleted_account_returns_witness:
  "\<exists>h acc. fold (apply_grok_call go_redis_enc)
      ([Delete_grok ''a''] @ snd (snd (refreshLocked (\<lambda>_. ''2026'') 5
          (Token_response 200 [] (Inr \<lparr>ts_AccessToken = ''new'', ts_RefreshToken = [], ts_ExpiresIn = 0, ts_IDToken = []\<rparr>))
          0 (fst (snd (DeleteAccount ''a'' demo_grok)))))) (\<lambda>_. None) ''a'' = Some h \<and>
      load_account (\<lambda>_. None) 9 ''a'' h = Some acc \<and> ga_AccessToken acc = ''new'' \<and> \<not> ga_disabled acc"
proof -
  have e: "ga_Email (account_at demo_grok 0) = ''a''" "ga_Email (account_at demo_grok 1) = ''b''"
    "ga_Email (account_at demo_grok 2) = ''c''" "ga_RefreshToken (account_at demo_grok 0) \<noteq> []"
    "\<not> ga_disabled (account_at demo_grok 0)"
    by (simp_all add: demo_grok_def demo_account_def account_at_def)
  have g: "gp_db demo_grok" "distinct (gp_accounts demo_grok)" "0 \<in> set (gp_accounts demo_grok)"
    "0 < length (gp_heap demo_grok)"
    by (simp_all add: demo_grok_def)
  have u: "\<forall>b \<in> set (gp_accounts demo_grok). ga_Email (account_at demo_grok b) = ga_Email (account_at demo_grok 0) \<longrightarrow> b = 0"
    using e by (auto simp: demo_grok_def [THEN arg_cong, of gp_accounts])
  let ?t = "\<lparr>ts_AccessToken = ''new'', ts_RefreshToken = [], ts_ExpiresIn = 0, ts_IDToken = []\<rparr>"
  have nn: "ts_AccessToken ?t \<noteq> []" by simp
  let ?D = "DeleteAccount (ga_Email (account_at demo_grok 0)) demo_grok"
  let ?R = "refreshLocked (\<lambda>_. ''2026'') 5 (Token_response 200 [] (Inr ?t)) 0 (fst (snd ?D))"
  have cs1: "snd (snd ?D) = [Delete_grok ''a'']"
    unfolding e by (simp add: DeleteAccount_def demo_grok_def demo_account_def account_at_def)
  have D: "?D = (fst ?D, fst (snd ?D), snd (snd ?D))" and R: "?R = (fst ?R, fst (snd ?R), snd (snd ?R))" by simp_all
  from deleted_account_returns [OF go_redis_enc g u nn e(4) D R, of "\<lambda>_. None" "\<lambda>_. None" 9]
  show ?thesis unfolding cs1 using e by auto
qed

end
