(* ===== verification/GrokProxy.thy ===== *)
theory GrokProxy
  imports GrokPool
begin

text \<open>
  \<open>ProxyGrok\<close> of \<open>internal/upstream/grok.go\<close>: a request walks the account pool behind the circuit
  breaker until an account gets an answer for the client. Each attempt has an environment: what
  the other goroutines did to the pool before it and while its request was in flight, the
  answers of the upstream and of the token endpoint, and the clock.
\<close>

section \<open>The request\<close>

record attempt_env =
  at_cancelled :: bool
  at_world :: "grok_pool \<Rightarrow> grok_pool"
  at_now :: gotime
  at_resp :: do_result
  at_flight :: "grok_pool \<Rightarrow> grok_pool"
  at_token :: token_reply
  at_resp2 :: do_result
  at_end :: gotime
  at_latency :: duration

definition permanent_reason :: "int \<Rightarrow> string \<Rightarrow> bool" where
  "permanent_reason status body \<longleftrightarrow>
     status = 402 \<or> str_contains body ''spending-limit'' \<or> str_contains body ''spending_limit'' \<or>
     str_contains body ''personal-team-blocked'' \<or> str_contains body ''banned'' \<or>
     str_contains body ''suspended'' \<or> str_contains body ''permanently''"

text \<open>
  What the loop does with a response other than a 401 that was not retried: disable the account
  and go on, count the error and go on, or deliver.
\<close>

definition grok_classify ::
  "attempt_env \<Rightarrow> nat \<Rightarrow> http_response \<Rightarrow> grok_pool \<Rightarrow> UpstreamHealth \<Rightarrow>
   http_response option \<times> grok_pool \<times> UpstreamHealth \<times> grok_call list" where
  "grok_classify e a r p h =
     (if hr_status r = 402 \<or> hr_status r = 403 then
        (let since = (if permanent_reason (hr_status r) (take 4096 (hr_body r)) then 0 else at_end e);
             (p', cs) = mark_disabled since a p
         in (None, p', h, cs))
      else if hr_status r \<ge> 500 then
        (None, p, RecordRequest (at_end e) (at_latency e) (Some (''upstream '' @ show_int (hr_status r))) h, [])
      else (Some r, p, h, []))"

definition grok_attempt ::
  "(gotime \<Rightarrow> string) \<Rightarrow> attempt_env \<Rightarrow> nat \<Rightarrow> grok_pool \<Rightarrow> UpstreamHealth \<Rightarrow>
   http_response option \<times> grok_pool \<times> UpstreamHealth \<times> grok_call list" where
  "grok_attempt rfc e a p0 h =
     (let p = at_flight e p0 in
      case at_resp e of
        Inl _ \<Rightarrow> (None, p, h, [Report_proxy True 0])
      | Inr r \<Rightarrow>
        if hr_status r = 401 then
          (case refreshLocked rfc (at_end e) (at_token e) a p of
             (Some err, p1, cs1) \<Rightarrow>
               if str_contains err ''invalid_grant''
               then (let (p2, cs2) = mark_disabled 0 a p1
                     in (None, p2, h, [Report_proxy False 401] @ cs1 @ cs2))
               else (None, p1, h, [Report_proxy False 401] @ cs1)
           | (None, p1, cs1) \<Rightarrow>
               (case at_resp2 e of
                  Inl _ \<Rightarrow> (None, p1, h, [Report_proxy False 401] @ cs1 @ [Report_proxy True 0])
                | Inr r2 \<Rightarrow>
                  let cs = [Report_proxy False 401] @ cs1 @ [Report_proxy False (hr_status r2)] in
                  if hr_status r2 = 401
                  then (let (p2, cs2) = mark_disabled 0 a p1 in (None, p2, h, cs @ cs2))
                  else (let (res, p2, h2, cs2) = grok_classify e a r2 p1 h in (res, p2, h2, cs @ cs2))))
        else
          (let (res, p2, h2, cs2) = grok_classify e a r p h
           in (res, p2, h2, [Report_proxy False (hr_status r)] @ cs2)))"

datatype grok_outcome =
    Grok_circuit_open
  | Grok_cancelled
  | Grok_exhausted
  | Grok_deliver http_response string

text \<open>One attempt per element; there are as many as the pool had accounts when the loop began.\<close>

fun grok_loop ::
  "(gotime \<Rightarrow> string) \<Rightarrow> attempt_env list \<Rightarrow> grok_pool \<Rightarrow> UpstreamHealth \<Rightarrow>
   grok_outcome \<times> grok_pool \<times> UpstreamHealth \<times> grok_call list" where
  "grok_loop rfc [] p h = (Grok_exhausted, p, h, [])"
| "grok_loop rfc (e # es) p0 h =
     (let p = at_world e p0 in
      if at_cancelled e then (Grok_cancelled, p, h, [])
      else case Grok_Next (at_now e) p of
             (Inl _, p1) \<Rightarrow> (Grok_exhausted, p1, h, [])
           | (Inr (a, background), p1) \<Rightarrow>
             (case grok_attempt rfc e a p1 h of
                (Some r, p2, h2, cs) \<Rightarrow>
                  (Grok_deliver r (ga_Email (account_at p2 a)), p2,
                   RecordRequest (at_end e) (at_latency e) None h2, cs)
              | (None, p2, h2, cs) \<Rightarrow>
                  (let (out, p3, h3, cs') = grok_loop rfc es p2 h2 in (out, p3, h3, cs @ cs'))))"

definition ProxyGrok ::
  "(gotime \<Rightarrow> string) \<Rightarrow> gotime \<Rightarrow> (nat \<Rightarrow> attempt_env) \<Rightarrow> grok_pool \<Rightarrow> UpstreamHealth \<Rightarrow>
   grok_outcome \<times> grok_pool \<times> UpstreamHealth \<times> grok_call list" where
  "ProxyGrok rfc now envs p h =
     (case CanRequest now h of
        (False, h1) \<Rightarrow> (Grok_circuit_open, p, RecordRequest now 0 (Some ''circuit open'') h1, [])
      | (True, h1) \<Rightarrow> grok_loop rfc (map envs [0..<length (gp_accounts p)]) p h1)"

text \<open>What the client gets: a status, and of a response that is no event stream the first 10 MiB.\<close>

definition grok_reply :: "grok_outcome \<Rightarrow> (int \<times> string) option" where
  "grok_reply out =
     (case out of
        Grok_circuit_open \<Rightarrow> Some (503, ''grok upstream circuit breaker open'')
      | Grok_cancelled \<Rightarrow> None
      | Grok_exhausted \<Rightarrow> Some (503, ''all grok accounts on cooldown'')
      | Grok_deliver r _ \<Rightarrow> Some (hr_status r, if hr_sse r then hr_body r else take (10 * 2 ^ 20) (hr_body r)))"

section \<open>The event stream\<close>

text \<open>
  While a stream is copied to the client its text and its token counts are collected. The bytes
  come in chunks; \<open>carry\<close> is the end of the last chunk after its last newline. \<open>parse\<close> is
  \<open>json.Unmarshal\<close> into \<open>sseChunk\<close>: the content of the first choice if there is one, and the two
  counts of the usage if they are there.
\<close>

type_synonym sse_chunk = "string option \<times> int option \<times> int option"

record sse_state =
  ss_text :: string
  ss_in :: int
  ss_out :: int

definition sse_line :: "(string \<Rightarrow> sse_chunk option) \<Rightarrow> string \<Rightarrow> sse_state \<Rightarrow> sse_state" where
  "sse_line parse line0 s =
     (let line = trim_space line0 in
      if \<not> has_prefix line ''data: '' then s
      else
        let d = trim_prefix line ''data: '' in
        if d = ''[DONE]'' \<or> d = [] then s
        else case parse d of
               None \<Rightarrow> s
             | Some (content, pt, ct) \<Rightarrow>
               s\<lparr>ss_text := ss_text s @ (case content of None \<Rightarrow> [] | Some t \<Rightarrow> t),
                 ss_in := (case pt of None \<Rightarrow> ss_in s | Some n \<Rightarrow> n),
                 ss_out := (case ct of None \<Rightarrow> ss_out s | Some n \<Rightarrow> n)\<rparr>)"

definition sse_chunk_step ::
  "(string \<Rightarrow> sse_chunk option) \<Rightarrow> string \<Rightarrow> string \<times> sse_state \<Rightarrow> string \<times> sse_state" where
  "sse_chunk_step parse bytes cs =
     (let (carry, s) = cs;
          (ls, rest) = split_lines (carry @ bytes)
      in (rest, fold (sse_line parse) ls s))"

definition sse_scan :: "(string \<Rightarrow> sse_chunk option) \<Rightarrow> string list \<Rightarrow> sse_state" where
  "sse_scan parse chunks =
     snd (fold (sse_chunk_step parse) chunks ([], \<lparr>ss_text = [], ss_in = 0, ss_out = 0\<rparr>))"

section \<open>Lemmas\<close>

lemma classify_delivers:
  "fst (grok_classify e a r p h) = Some r' \<Longrightarrow>
   r' = r \<and> hr_status r \<noteq> 402 \<and> hr_status r \<noteq> 403 \<and> hr_status r < 500"
  by (auto simp: grok_classify_def split_beta Let_def split: if_splits)

lemma classify_breaker: "hr_status r < 500 \<Longrightarrow> fst (snd (snd (grok_classify e a r p h))) = h"
  by (auto simp: grok_classify_def split_beta Let_def)

lemma attempt_delivers:
  "fst (grok_attempt rfc e a p h) = Some r \<Longrightarrow> hr_status r \<notin> {401, 402, 403} \<and> hr_status r < 500"
  by (auto simp: grok_attempt_def Let_def split_beta dest!: classify_delivers
      split: sum.splits if_splits option.splits)

text \<open>An attempt changes the breaker only by a response of 500 or above.\<close>

lemma attempt_breaker:
  "\<forall>r. at_resp e = Inr r \<or> at_resp2 e = Inr r \<longrightarrow> hr_status r < 500 \<Longrightarrow>
   fst (snd (snd (grok_attempt rfc e a p h))) = h"
  by (auto simp: grok_attempt_def Let_def split_beta classify_breaker
      split: sum.splits if_splits option.splits)

lemma loop_step:
  "grok_loop rfc (e # es) p h =
     (if at_cancelled e then (Grok_cancelled, at_world e p, h, [])
      else case Grok_Next (at_now e) (at_world e p) of
             (Inl _, p1) \<Rightarrow> (Grok_exhausted, p1, h, [])
           | (Inr (a, b), p1) \<Rightarrow>
             (let (res, p2, h2, cs) = grok_attempt rfc e a p1 h in
              case res of
                Some r \<Rightarrow> (Grok_deliver r (ga_Email (account_at p2 a)), p2, RecordRequest (at_end e) (at_latency e) None h2, cs)
              | None \<Rightarrow> (let (out, p3, h3, cs') = grok_loop rfc es p2 h2 in (out, p3, h3, cs @ cs'))))"
  by (auto simp: Let_def split: sum.splits option.splits prod.splits)

lemma reenable_fold:
  assumes "refs_in_heap p" "a \<in> set (gp_accounts p)" "cooled_down now (account_at p a)"
  shows "\<not> ga_disabled (account_at (fst (ReenableCooldowns now p)) a)"
  using grok_life.cooldown_ends [OF assms(1,2), of now] assms(3)
  by (simp add: grok_status_def cooled_down_def cooled_def)

section \<open>Properties\<close>

text \<open>
  C14: The client sees no account trouble. Whatever the accounts, the upstream, the token
  endpoint and the other goroutines do, the reply is never an upstream 401, 402, 403 or 5xx:
  it is a response with another status, or a 503 of the gateway's own.
\<close>

theorem grok_client_statuses:
  "case grok_reply (fst (ProxyGrok rfc now envs p h)) of
     None \<Rightarrow> True
   | Some (status, body) \<Rightarrow>
       status \<notin> {401, 402, 403} \<and>
       (if status < 500 then True
        else status = 503 \<and>
          body \<in> {''grok upstream circuit breaker open'', ''all grok accounts on cooldown''})"
proof -
  have loop: "hr_status r \<notin> {401, 402, 403} \<and> hr_status r < 500"
    if "fst (grok_loop rfc es p h) = Grok_deliver r m" for es p h r m
    using that
  proof (induction es arbitrary: p h)
    case (Cons e es)
    show ?case
    proof (cases "at_cancelled e")
      case False
      with Cons.prems obtain a b p1 where n: "Grok_Next (at_now e) (at_world e p) = (Inr (a, b), p1)"
        by (auto simp: loop_step simp del: grok_loop.simps split: prod.splits sum.splits)
      obtain res p2 h2 cs where at: "grok_attempt rfc e a p1 h = (res, p2, h2, cs)" by (metis prod_cases4)
      from Cons.prems False n at Cons.IH [of p2 h2] attempt_delivers [of rfc e a p1 h]
      show ?thesis by (cases res) (auto simp: loop_step split_beta simp del: grok_loop.simps)
    qed (use Cons.prems in \<open>simp add: Let_def\<close>)
  qed simp
  show ?thesis
  proof (cases "fst (ProxyGrok rfc now envs p h)")
    case (Grok_deliver r m)
    moreover have "fst (ProxyGrok rfc now envs p h) = Grok_circuit_open \<or>
        (\<exists>es h1. fst (ProxyGrok rfc now envs p h) = fst (grok_loop rfc es p h1))"
      by (auto simp: ProxyGrok_def split: prod.splits bool.splits)
    ultimately have "hr_status r \<notin> {401, 402, 403} \<and> hr_status r < 500" using loop by (metis grok_outcome.distinct(5))
    with Grok_deliver show ?thesis by (simp add: grok_reply_def)
  qed (simp_all add: grok_reply_def)
qed

text \<open>
  A ban can be undone by a race. Request 2 picks an account; while its upstream call is in
  flight, request 1 learns on the same account that it is banned and disables it for good. Then
  request 2 gets an ordinary 403: it overwrites the ban with a cooldown, and after ten minutes
  the worker enables the account again.
\<close>

theorem ban_undone_by_race:
  assumes pick: "Grok_Next t p = (Inr (a, b), p0)" "refs_in_heap p"
    and ban: "at_flight e1 = id" "at_resp e1 = Inr r1" "hr_status r1 = 403"
      "permanent_reason 403 (take 4096 (hr_body r1))"
    and cool: "at_flight e2 = (\<lambda>q. fst (snd (grok_attempt rfc e1 a q h1)))" "at_resp e2 = Inr r2"
      "hr_status r2 = 403" "\<not> permanent_reason 403 (take 4096 (hr_body r2))" "at_end e2 \<noteq> 0"
    and later: "10 * minute < time_sub now (at_end e2)"
  shows "banned (account_at (at_flight e2 p0) a) \<and>
         \<not> ga_disabled (account_at (fst (ReenableCooldowns now (fst (snd (grok_attempt rfc e2 a p0 h2))))) a)"
proof -
  from Next_enabled [OF pick(1)] pick(2)
  have a: "a \<in> set (gp_accounts p0)" "a < length (gp_heap p0)" and p0: "refs_in_heap p0"
    by (auto simp: refs_in_heap_def)
  let ?q = "at_flight e2 p0" and ?q2 = "fst (snd (grok_attempt rfc e2 a p0 h2))"
  have q: "?q = put_account a ((account_at p0 a)\<lparr>ga_disabled := True, ga_disabledAt := 0\<rparr>) p0"
    unfolding cool(1) using ban
    by (simp add: grok_attempt_def grok_classify_def Let_def split_beta mark_disabled_def)
  have q2: "?q2 = put_account a ((account_at ?q a)\<lparr>ga_disabled := True, ga_disabledAt := at_end e2\<rparr>) ?q"
    using cool(2-4) by (simp add: grok_attempt_def grok_classify_def Let_def split_beta mark_disabled_def)
  have "refs_in_heap ?q2" "a \<in> set (gp_accounts ?q2)" using a p0 by (simp_all add: q2 q refs_in_heap_def)
  moreover have "cooled_down now (account_at ?q2 a)"
    using a cool(5) later by (simp add: q2 q cooled_down_def)
  ultimately have "\<not> ga_disabled (account_at (fst (ReenableCooldowns now ?q2)) a)"
    by (rule reenable_fold)
  moreover have "banned (account_at ?q a)" using a by (simp add: q banned_def)
  ultimately show ?thesis by blast
qed

definition demo_env :: "do_result \<Rightarrow> gotime \<Rightarrow> attempt_env" where
  "demo_env r t =
     \<lparr>at_cancelled = False, at_world = id, at_now = t, at_resp = r, at_flight = id,
      at_token = Token_error ''refused'', at_resp2 = Inl ''refused'', at_end = t, at_latency = second\<rparr>"

definition forbidden :: "string \<Rightarrow> do_result" where
  "forbidden body = Inr \<lparr>hr_status = 403, hr_sse = False, hr_body = body\<rparr>"

theorem ban_undone_by_race_witness:
  "let e1 = demo_env (forbidden ''account banned'') 10;
       e2 = (demo_env (forbidden ''try later'') 20)\<lparr>at_flight :=
              \<lambda>q. fst (snd (grok_attempt (\<lambda>_. []) e1 2 q (NewUpstreamHealth ''grok'')))\<rparr>
   in \<not> ga_disabled (account_at (fst (ReenableCooldowns (11 * minute)
        (fst (snd (grok_attempt (\<lambda>_. []) e2 2 (snd (Grok_Next 0 demo_grok)) (NewUpstreamHealth ''grok'')))))) 2)"
proof -
  let ?e1 = "demo_env (forbidden ''account banned'') 10"
  let ?e2 = "(demo_env (forbidden ''try later'') 20)\<lparr>at_flight :=
      \<lambda>q. fst (snd (grok_attempt (\<lambda>_. []) ?e1 2 q (NewUpstreamHealth ''grok'')))\<rparr>"
  let ?r1 = "\<lparr>hr_status = 403, hr_sse = False, hr_body = ''account banned''\<rparr>"
  let ?r2 = "\<lparr>hr_status = 403, hr_sse = False, hr_body = ''try later''\<rparr>"
  have "fst (Grok_Next 0 demo_grok) = Inr (2, False)" by code_simp
  then have pick: "Grok_Next 0 demo_grok = (Inr (2, False), snd (Grok_Next 0 demo_grok))" by (metis prod.collapse)
  have heap: "refs_in_heap demo_grok" by (simp add: demo_grok_def refs_in_heap_def)
  have "permanent_reason 403 (take 4096 ''account banned'')" "\<not> permanent_reason 403 (take 4096 ''try later'')"
    by code_simp+
  then have pr: "permanent_reason 403 (take 4096 (hr_body ?r1))" "\<not> permanent_reason 403 (take 4096 (hr_body ?r2))"
    by simp_all
  have e1: "at_flight ?e1 = id" "at_resp ?e1 = Inr ?r1" and e2: "at_resp ?e2 = Inr ?r2" "at_end ?e2 \<noteq> 0"
    by (simp_all add: demo_env_def forbidden_def)
  have st: "hr_status ?r1 = 403" "hr_status ?r2 = 403" by simp_all
  have late: "10 * minute < time_sub (11 * minute) (at_end ?e2)"
    by (simp add: demo_env_def time_sub_def minute_def second_def)
  have fl: "at_flight ?e2 = (\<lambda>q. fst (snd (grok_attempt (\<lambda>_. []) ?e1 2 q (NewUpstreamHealth ''grok''))))"
    by simp
  from ban_undone_by_race [OF pick heap e1 st(1) pr(1) fl e2(1) st(2) pr(2) e2(2) late]
  show ?thesis unfolding Let_def by blast
qed

definition serve_grok ::
  "(gotime \<Rightarrow> string) \<Rightarrow> gotime \<times> (nat \<Rightarrow> attempt_env) \<Rightarrow> grok_pool \<times> UpstreamHealth \<Rightarrow> grok_pool \<times> UpstreamHealth" where
  "serve_grok rfc req ph =
     (let (_, p', h', _) = ProxyGrok rfc (fst req) (snd req) (fst ph) (snd ph) in (p', h'))"

text \<open>
  An unreachable upstream never trips the breaker. The loop records nothing when the
  connection fails, so any number of requests to a Grok that cannot be reached leave a closed
  breaker exactly as it is; none of them is refused early.
\<close>

theorem unreachable_never_trips:
  assumes "uh_state h = CircuitClosed"
    and "\<forall>(now, envs) \<in> set reqs. \<forall>i. \<exists>err. at_resp (envs i) = Inl err"
  shows "snd (fold (serve_grok rfc) reqs (p, h)) = h"
proof -
  have loop: "fst (snd (snd (grok_loop rfc es p h))) = h"
    if "\<forall>e \<in> set es. \<exists>err. at_resp e = Inl err" for es p h
    using that
  proof (induction es arbitrary: p h)
    case (Cons e es)
    then obtain err where "at_resp e = Inl err" by auto
    then have "grok_attempt rfc e a q h = (None, at_flight e q, h, [Report_proxy True 0])" for a q
      by (simp add: grok_attempt_def Let_def)
    with Cons show ?case
      by (auto simp: loop_step split_beta simp del: grok_loop.simps split: sum.splits prod.splits)
  qed simp
  have one: "snd (serve_grok rfc (now, envs) (q, h)) = h" if "\<forall>i. \<exists>err. at_resp (envs i) = Inl err" for now envs q
  proof -
    have "\<forall>e \<in> set (map envs [0..<length (gp_accounts q)]). \<exists>err. at_resp e = Inl err"
      using that by simp
    from loop [OF this] show ?thesis
      using assms(1) by (simp add: serve_grok_def ProxyGrok_def CanRequest_def split_beta)
  qed
  show ?thesis using assms(2)
  proof (induction reqs arbitrary: p)
    case (Cons req reqs)
    obtain now envs where req: "req = (now, envs)" by (cases req)
    with Cons.prems one [of envs now p] have "snd (serve_grok rfc req (p, h)) = h" by simp
    then have "serve_grok rfc req (p, h) = (fst (serve_grok rfc req (p, h)), h)" by (metis prod.collapse)
    moreover have "snd (fold (serve_grok rfc) reqs (fst (serve_grok rfc req (p, h)), h)) = h"
      using Cons by simp
    ultimately show ?case by simp
  qed simp
qed

theorem unreachable_never_trips_witness:
  "snd (fold (serve_grok (\<lambda>_. [])) (replicate 1000 (5, \<lambda>_. demo_env (Inl ''connection refused'') 5))
     (demo_grok, NewUpstreamHealth ''grok'')) = NewUpstreamHealth ''grok''"
  by (rule unreachable_never_trips) (auto simp: NewUpstreamHealth_def demo_env_def)

text \<open>
  How a stream is cut makes no difference. However the bytes of an event stream arrive in
  chunks, the text and the token counts collected are those of its complete lines, in order;
  what follows the last newline does not count.
\<close>

theorem sse_chunking_irrelevant:
  "sse_scan parse chunks =
     fold (sse_line parse) (fst (split_lines (concat chunks))) \<lparr>ss_text = [], ss_in = 0, ss_out = 0\<rparr>"
proof -
  have "snd (fold (sse_chunk_step parse) chunks (carry, s)) =
        fold (sse_line parse) (fst (split_lines (carry @ concat chunks))) s"
    if "fst (split_lines carry) = []" for carry s
    using that
  proof (induction chunks arbitrary: carry s)
    case (Cons x xs)
    obtain ls rest where sp: "split_lines (carry @ x) = (ls, rest)" by (cases "split_lines (carry @ x)")
    have "fst (split_lines rest) = []" using split_lines_rest [of "carry @ x"] by (simp add: sp)
    from Cons.IH [OF this] show ?case
      using split_lines_append [of "carry @ x" "concat xs"] by (simp add: sse_chunk_step_def sp split_beta)
  qed simp
  from this [of "[]"] show ?thesis by (simp add: sse_scan_def)
qed

end
