(* ===== verification/CBPool.thy ===== *)
theory CBPool
  imports Complex_Main CredPool Db
begin

text \<open>
  The pool of CodeBuddy credentials, the first half of \<open>internal/upstream/codebuddy.go\<close>, with
  its Redis records (\<open>internal/db/db.go\<close>). A credential is an API key or an OAuth account;
  credits are exact rationals. The manager is a \<open>cred_pool\<close>. The clock, Redis, the OAuth
  endpoint and the credit meter are arguments; the replies of the last two carry what
  \<open>json.Unmarshal\<close> makes of their bodies. An operation returns, beside the new state, its calls
  to the store and its reports to the proxy pool, in order.
\<close>

section \<open>Credentials\<close>

definition parseFloatOr :: "string \<Rightarrow> rat \<Rightarrow> rat" where
  "parseFloatOr s0 fallback =
     (let s = trim_space s0 in
      if s = [] then fallback else case parse_float s of None \<Rightarrow> fallback | Some v \<Rightarrow> v)"

definition CBAuthAPIKey :: string where "CBAuthAPIKey = ''api_key''"
definition CBAuthOAuth :: string where "CBAuthOAuth = ''oauth''"
definition CB_CREDIT_LIMIT :: rat where "CB_CREDIT_LIMIT = 240"

record cb_key =
  ck_Key :: string
  ck_CredType :: string
  ck_AccessToken :: string
  ck_RefreshToken :: string
  ck_ExpiresAt :: gotime
  ck_Email :: string
  ck_disabled :: bool
  ck_disabledAt :: gotime
  ck_creditsUsed :: rat
  ck_totalReqs :: int
  ck_creditLimit :: rat
  ck_creditsRemain :: rat
  ck_packageName :: string
  ck_cycleEnd :: string
  ck_meterStatus :: int
  ck_meterSyncedAt :: gotime

text \<open>\<open>CBKey{Key: key, CredType: t}\<close>: the other fields have their zero values.\<close>

definition fresh_key :: "string \<Rightarrow> string \<Rightarrow> cb_key" where
  "fresh_key key t =
     \<lparr>ck_Key = key, ck_CredType = t, ck_AccessToken = [], ck_RefreshToken = [], ck_ExpiresAt = 0,
      ck_Email = [], ck_disabled = False, ck_disabledAt = 0, ck_creditsUsed = 0, ck_totalReqs = 0,
      ck_creditLimit = 0, ck_creditsRemain = 0, ck_packageName = [], ck_cycleEnd = [],
      ck_meterStatus = 0, ck_meterSyncedAt = 0\<rparr>"

definition CreditLimit :: "cb_key \<Rightarrow> rat" where
  "CreditLimit k = (if ck_creditLimit k > 0 then ck_creditLimit k else CB_CREDIT_LIMIT)"

definition GetCredType :: "cb_key \<Rightarrow> string" where
  "GetCredType k = (if ck_CredType k = [] then CBAuthAPIKey else ck_CredType k)"

definition maskCBKey :: "string \<Rightarrow> string" where
  "maskCBKey key = (if length key > 12 then take 8 key @ ''...'' @ drop (length key - 4) key else key)"

definition displayIDLocked :: "cb_key \<Rightarrow> string" where
  "displayIDLocked k =
     (if ck_CredType k = CBAuthOAuth then (if ck_Email k \<noteq> [] then ck_Email k else ck_Key k)
      else maskCBKey (ck_Key k))"

definition CB_AuthHeader :: "cb_key \<Rightarrow> string" where
  "CB_AuthHeader k =
     (if ck_CredType k = CBAuthOAuth then ''Bearer '' @ ck_AccessToken k else ''Bearer '' @ ck_Key k)"

definition CB_IsExpired :: "gotime \<Rightarrow> cb_key \<Rightarrow> bool" where
  "CB_IsExpired now k =
     (if ck_CredType k \<noteq> CBAuthOAuth then False
      else if ck_ExpiresAt k = 0 then False
      else now > ck_ExpiresAt k - REFRESH_BUFFER)"

text \<open>What the dashboard and the metrics see of a key.\<close>

record cb_snapshot =
  cs_Key :: string
  cs_CredType :: string
  cs_Email :: string
  cs_ExpiresAt :: gotime
  cs_CreditsUsed :: rat
  cs_CreditLimit :: rat
  cs_CreditsRemain :: rat
  cs_PackageName :: string
  cs_CycleEnd :: string
  cs_MeterStatus :: int
  cs_MeterSyncedAt :: gotime
  cs_TotalReqs :: int
  cs_Disabled :: bool
  cs_DisabledAt :: gotime

definition CB_Snapshot :: "cb_key \<Rightarrow> cb_snapshot" where
  "CB_Snapshot k =
     (let limit = (if ck_creditLimit k \<le> 0 then CB_CREDIT_LIMIT else ck_creditLimit k) in
      \<lparr>cs_Key = ck_Key k, cs_CredType = (if ck_CredType k = [] then CBAuthAPIKey else ck_CredType k),
       cs_Email = ck_Email k, cs_ExpiresAt = ck_ExpiresAt k, cs_CreditsUsed = ck_creditsUsed k,
       cs_CreditLimit = limit, cs_CreditsRemain = ck_creditsRemain k, cs_PackageName = ck_packageName k,
       cs_CycleEnd = ck_cycleEnd k, cs_MeterStatus = ck_meterStatus k, cs_MeterSyncedAt = ck_meterSyncedAt k,
       cs_TotalReqs = ck_totalReqs k, cs_Disabled = ck_disabled k, cs_DisabledAt = ck_disabledAt k\<rparr>)"

section \<open>Redis records\<close>

record cb_key_dto =
  cd_Key :: string
  cd_CredType :: string
  cd_AccessToken :: string
  cd_RefreshToken :: string
  cd_ExpiresAt :: gotime
  cd_Email :: string
  cd_CreditsUsed :: rat
  cd_TotalReqs :: int
  cd_Disabled :: bool
  cd_DisabledAt :: gotime
  cd_CreditLimit :: rat
  cd_CreditsRemain :: rat
  cd_PackageName :: string
  cd_CycleEnd :: string
  cd_MeterStatus :: int
  cd_MeterSyncedAt :: gotime

definition CB_toDTO :: "cb_key \<Rightarrow> cb_key_dto" where
  "CB_toDTO k =
     \<lparr>cd_Key = ck_Key k, cd_CredType = (if ck_CredType k = [] then CBAuthAPIKey else ck_CredType k),
      cd_AccessToken = ck_AccessToken k, cd_RefreshToken = ck_RefreshToken k, cd_ExpiresAt = ck_ExpiresAt k,
      cd_Email = ck_Email k, cd_CreditsUsed = ck_creditsUsed k, cd_TotalReqs = ck_totalReqs k,
      cd_Disabled = ck_disabled k, cd_DisabledAt = ck_disabledAt k, cd_CreditLimit = ck_creditLimit k,
      cd_CreditsRemain = ck_creditsRemain k, cd_PackageName = ck_packageName k, cd_CycleEnd = ck_cycleEnd k,
      cd_MeterStatus = ck_meterStatus k, cd_MeterSyncedAt = ck_meterSyncedAt k\<rparr>"

text \<open>
  The fields of the hash. \<open>encf\<close> is how the Redis client renders a float; the OAuth fields are
  written for OAuth accounts only.
\<close>

definition SaveCBKey :: "(rat \<Rightarrow> string) \<Rightarrow> gotime \<Rightarrow> cb_key_dto \<Rightarrow> (string \<times> redis_value) list" where
  "SaveCBKey encf now d =
     (let credType = (if cd_CredType d = [] then ''api_key'' else cd_CredType d) in
      [(''cred_type'', RStr credType), (''credits_used'', RStr (encf (cd_CreditsUsed d))),
       (''total_requests'', RInt (cd_TotalReqs d)), (''disabled'', RBool (cd_Disabled d)),
       (''disabled_at'', RInt (unix_seconds (cd_DisabledAt d))), (''updated_at'', RInt (unix_seconds now)),
       (''credit_limit'', RStr (encf (cd_CreditLimit d))), (''credits_remain'', RStr (encf (cd_CreditsRemain d))),
       (''package_name'', RStr (cd_PackageName d)), (''cycle_end'', RStr (cd_CycleEnd d)),
       (''meter_status'', RInt (cd_MeterStatus d)), (''meter_synced_at'', RInt (unix_seconds (cd_MeterSyncedAt d)))] @
      (if credType = ''oauth''
       then [(''access_token'', RStr (cd_AccessToken d)), (''refresh_token'', RStr (cd_RefreshToken d)),
             (''expires_at'', RInt (unix_seconds (cd_ExpiresAt d))), (''email'', RStr (cd_Email d))]
       else []))"

text \<open>A key from its hash.\<close>

definition load_cb_key :: "string \<Rightarrow> (string \<Rightarrow> string option) \<Rightarrow> cb_key" where
  "load_cb_key apiKey h =
     (let k0 = (if hash_field h ''cred_type'' = CBAuthOAuth
                then (fresh_key apiKey CBAuthOAuth)
                       \<lparr>ck_AccessToken := hash_field h ''access_token'',
                        ck_RefreshToken := hash_field h ''refresh_token'',
                        ck_Email := (if hash_field h ''email'' = [] then apiKey else hash_field h ''email''),
                        ck_ExpiresAt := time_field h ''expires_at''\<rparr>
                else fresh_key apiKey CBAuthAPIKey);
          dis = (hash_field h ''disabled'' = ''true'' \<or> hash_field h ''disabled'' = ''1'')
      in k0\<lparr>ck_creditsUsed := (case parse_float (hash_field h ''credits_used'') of None \<Rightarrow> 0 | Some f \<Rightarrow> f),
            ck_totalReqs := atollSafe (hash_field h ''total_requests''),
            ck_disabled := dis,
            ck_disabledAt := (if dis then time_field h ''disabled_at'' else 0),
            ck_creditLimit := (case parse_float (hash_field h ''credit_limit'') of
                None \<Rightarrow> 0 | Some f \<Rightarrow> if f > 0 then f else 0),
            ck_creditsRemain := (case parse_float (hash_field h ''credits_remain'') of None \<Rightarrow> 0 | Some f \<Rightarrow> f),
            ck_packageName := hash_field h ''package_name'', ck_cycleEnd := hash_field h ''cycle_end'',
            ck_meterStatus := atoiSafe (hash_field h ''meter_status''),
            ck_meterSyncedAt := time_field h ''meter_synced_at''\<rparr>)"

section \<open>The manager\<close>

type_synonym cb_pool = "cb_key cred_pool"

datatype cb_call = Save_cb cb_key_dto | Delete_cb string | Cb_proxy bool int

definition NewCBKeyManager :: "bool \<Rightarrow> cb_pool" where
  "NewCBKeyManager db = empty_pool db"

definition save_cb :: "cb_pool \<Rightarrow> nat \<Rightarrow> cb_call list" where
  "save_cb p a = (if kp_db p then [Save_cb (CB_toDTO (key_at p a))] else [])"

text \<open>
  Loading. \<open>rows\<close> lists the stored hashes in the order the map iteration happens to take them.
  When there is none, the keys come from the environment or a file: \<open>getenv\<close> and \<open>readfile\<close>
  are the process's.
\<close>

definition cb_bootstrap_text :: "(string \<Rightarrow> string) \<Rightarrow> (string \<Rightarrow> string option) \<Rightarrow> string" where
  "cb_bootstrap_text getenv readfile =
     (let s0 = getenv ''CB_API_KEYS''; s1 = (if s0 = [] then getenv ''CB_API_KEY'' else s0) in
      if s1 \<noteq> [] then s1
      else
        let v = getenv ''CB_KEY_FILE'' in
        case readfile (if v \<noteq> [] then v else ''./codebuddy-key.txt'') of
          None \<Rightarrow> []
        | Some d \<Rightarrow> trim_space d)"

fun fields_func :: "(char \<Rightarrow> bool) \<Rightarrow> string \<Rightarrow> string \<Rightarrow> string list" where
  "fields_func sep acc [] = (if acc = [] then [] else [acc])"
| "fields_func sep acc (c # s) =
     (if sep c then (if acc = [] then [] else [acc]) @ fields_func sep [] s
      else fields_func sep (acc @ [c]) s)"

definition bootstrap_keys :: "string \<Rightarrow> string list" where
  "bootstrap_keys s =
     filter (\<lambda>k. k \<noteq> []) (map trim_space (fields_func (\<lambda>c. c \<in> {CHR '','', CHR 10, CHR 13}) [] s))"

definition seed_key :: "string \<Rightarrow> cb_pool \<times> cb_call list \<Rightarrow> cb_pool \<times> cb_call list" where
  "seed_key k = (\<lambda>(p, cs).
     let p' = new_key (fresh_key k CBAuthAPIKey) p in (p', cs @ save_cb p' (length (kp_heap p))))"

definition CB_LoadFromRedis ::
  "(string \<Rightarrow> string) \<Rightarrow> (string \<Rightarrow> string option) \<Rightarrow> string + (string \<times> (string \<Rightarrow> string option)) list \<Rightarrow>
   cb_pool \<Rightarrow> string option \<times> cb_pool \<times> cb_call list" where
  "CB_LoadFromRedis getenv readfile redis p =
     (case redis of
        Inl err \<Rightarrow> (Some (''cb keys load: '' @ err), p, [])
      | Inr rows \<Rightarrow>
        if rows \<noteq> [] then (None, fold (\<lambda>(k, h). new_key (load_cb_key k h)) rows p, [])
        else (None, fold seed_key (bootstrap_keys (cb_bootstrap_text getenv readfile)) (p, [])))"

definition CB_Next :: "cb_pool \<Rightarrow> (string + nat) \<times> cb_pool" where
  "CB_Next p =
     (let n = length (kp_keys p) in
      if n = 0 then (Inl ''no cb keys'', p)
      else
        case find (\<lambda>i. \<not> ck_disabled (key_at p (kp_keys p ! ((kp_next p + i) mod n)))) [0..<n] of
          Some i \<Rightarrow>
            (let idx = (kp_next p + i) mod n in (Inr (kp_keys p ! idx), p\<lparr>kp_next := (idx + 1) mod n\<rparr>))
        | None \<Rightarrow> (Inl ''all cb keys disabled'', p))"

definition cb_matches :: "string \<Rightarrow> cb_key \<Rightarrow> bool" where
  "cb_matches q k \<longleftrightarrow>
     ck_Key k = q \<or> ck_CredType k = CBAuthOAuth \<and> ck_Email k = q \<or>
     length (ck_Key k) > 12 \<and> take 8 (ck_Key k) @ ''...'' @ drop (length (ck_Key k) - 4) (ck_Key k) = q"

definition CB_ResolveKey :: "string \<Rightarrow> cb_pool \<Rightarrow> string" where
  "CB_ResolveKey q p =
     (case find (\<lambda>a. cb_matches q (key_at p a)) (kp_keys p) of None \<Rightarrow> [] | Some a \<Rightarrow> ck_Key (key_at p a))"

definition CB_AddKey :: "string \<Rightarrow> cb_pool \<Rightarrow> (bool \<times> nat) \<times> cb_pool \<times> cb_call list" where
  "CB_AddKey apiKey0 p =
     (let apiKey = trim_space apiKey0 in
      if apiKey = [] then ((False, length (kp_keys p)), p, [])
      else if \<exists>a \<in> set (kp_keys p). ck_Key (key_at p a) = apiKey then ((False, length (kp_keys p)), p, [])
      else
        let p' = new_key (fresh_key apiKey CBAuthAPIKey) p
        in ((True, length (kp_keys p')), p', save_cb p' (length (kp_heap p))))"

definition CB_DeleteKey :: "string \<Rightarrow> cb_pool \<Rightarrow> bool \<times> cb_pool \<times> cb_call list" where
  "CB_DeleteKey key p =
     (case find_idx (\<lambda>a. ck_Key (key_at p a) = key) (kp_keys p) of
        Some i \<Rightarrow> (True, drop_key i p, if kp_db p then [Delete_cb key] else [])
      | None \<Rightarrow> (False, p, []))"

definition cb_banned :: "cb_key \<Rightarrow> bool" where
  "cb_banned k \<longleftrightarrow> ck_disabled k \<and> ck_disabledAt k = 0"

definition CB_CleanupDisabled :: "cb_pool \<Rightarrow> nat \<times> cb_pool \<times> cb_call list" where
  "CB_CleanupDisabled p =
     (let gone = filter (\<lambda>a. cb_banned (key_at p a)) (kp_keys p)
      in (length gone, p\<lparr>kp_keys := filter (\<lambda>a. \<not> cb_banned (key_at p a)) (kp_keys p)\<rparr>,
          if kp_db p then map (\<lambda>a. Delete_cb (ck_Key (key_at p a))) gone else []))"

definition cb_cooled :: "gotime \<Rightarrow> cb_key \<Rightarrow> bool" where
  "cb_cooled now k \<longleftrightarrow>
     ck_disabled k \<and> ck_disabledAt k \<noteq> 0 \<and> time_sub now (ck_disabledAt k) > 10 * minute"

definition cb_reenable :: "gotime \<Rightarrow> cb_key \<Rightarrow> cb_key" where
  "cb_reenable now k = (if cb_cooled now k then k\<lparr>ck_disabled := False\<rparr> else k)"

definition CB_ReenableCooldowns :: "gotime \<Rightarrow> cb_pool \<Rightarrow> cb_pool \<times> cb_call list" where
  "CB_ReenableCooldowns now p =
     (let p' = fold (\<lambda>a q. put_key a (cb_reenable now (key_at q a)) q) (kp_keys p) p
      in (p', concat (map (save_cb p') (filter (\<lambda>a. cb_cooled now (key_at p a)) (kp_keys p)))))"

text \<open>The two ways a request takes a key out of use.\<close>

definition permanentDisable :: "nat \<Rightarrow> cb_pool \<Rightarrow> cb_pool \<times> cb_call list" where
  "permanentDisable a p =
     (let p' = put_key a ((key_at p a)\<lparr>ck_disabled := True, ck_disabledAt := 0\<rparr>) p in (p', save_cb p' a))"

definition cooldownDisable :: "gotime \<Rightarrow> nat \<Rightarrow> cb_pool \<Rightarrow> cb_pool \<times> cb_call list" where
  "cooldownDisable now a p =
     (let p' = put_key a ((key_at p a)\<lparr>ck_disabled := True, ck_disabledAt := now\<rparr>) p in (p', save_cb p' a))"

section \<open>Tokens\<close>

text \<open>The body of a refresh: a code, a message, the two tokens and the life time in seconds.\<close>

record cb_token =
  tk_Code :: int
  tk_Msg :: string
  tk_AccessToken :: string
  tk_RefreshToken :: string
  tk_ExpiresIn :: int

datatype cb_token_reply = Cb_token_error string | Cb_token_response int string "string + cb_token"

datatype cb_refresh_error =
    Empty_refresh_token
  | Refresh_transport string
  | Refresh_status int string
  | Refresh_parse string
  | Refresh_code int string
  | Empty_access_token

definition cb_apply_token :: "gotime \<Rightarrow> cb_token \<Rightarrow> cb_key \<Rightarrow> cb_key" where
  "cb_apply_token now t k =
     k\<lparr>ck_AccessToken := tk_AccessToken t,
       ck_RefreshToken := (if tk_RefreshToken t \<noteq> [] then tk_RefreshToken t else ck_RefreshToken k),
       ck_ExpiresAt := (if tk_ExpiresIn t > 0 then now + wrap64 (tk_ExpiresIn t * second)
                        else now + 365 * 24 * hour)\<rparr>"

text \<open>\<open>refreshLocked\<close> on the key itself: the error, the key afterwards, the report to the proxy pool.\<close>

definition cb_refresh_key :: "gotime \<Rightarrow> cb_token_reply \<Rightarrow> cb_key \<Rightarrow> cb_refresh_error option \<times> cb_key \<times> cb_call list" where
  "cb_refresh_key now reply k =
     (if ck_RefreshToken k = [] then (Some Empty_refresh_token, k, [])
      else case reply of
             Cb_token_error e \<Rightarrow> (Some (Refresh_transport e), k, [Cb_proxy True 0])
           | Cb_token_response status body parsed \<Rightarrow>
             (let cs = [Cb_proxy False status] in
              if status \<noteq> 200 then (Some (Refresh_status status body), k, cs)
              else case parsed of
                     Inl e \<Rightarrow> (Some (Refresh_parse e), k, cs)
                   | Inr t \<Rightarrow>
                     if tk_Code t \<noteq> 0 then (Some (Refresh_code (tk_Code t) (tk_Msg t)), k, cs)
                     else if tk_AccessToken t = [] then (Some Empty_access_token, k, cs)
                     else (None, cb_apply_token now t k, cs)))"

definition CB_refreshLocked ::
  "gotime \<Rightarrow> cb_token_reply \<Rightarrow> nat \<Rightarrow> cb_pool \<Rightarrow> cb_refresh_error option \<times> cb_pool \<times> cb_call list" where
  "CB_refreshLocked now reply a p =
     (case cb_refresh_key now reply (key_at p a) of
        (Some e, k, cs) \<Rightarrow> (Some e, p, cs)
      | (None, k, cs) \<Rightarrow> (let p' = put_key a k p in (None, p', cs @ save_cb p' a)))"

definition CB_Refresh ::
  "gotime \<Rightarrow> cb_token_reply \<Rightarrow> nat \<Rightarrow> cb_pool \<Rightarrow> cb_refresh_error option \<times> cb_pool \<times> cb_call list" where
  "CB_Refresh now reply a p =
     (if GetCredType (key_at p a) \<noteq> CBAuthOAuth then (None, p, []) else CB_refreshLocked now reply a p)"

definition CB_EnsureValid ::
  "gotime \<Rightarrow> cb_token_reply \<Rightarrow> nat \<Rightarrow> cb_pool \<Rightarrow> cb_refresh_error option \<times> cb_pool \<times> cb_call list" where
  "CB_EnsureValid now reply a p =
     (if GetCredType (key_at p a) \<noteq> CBAuthOAuth then (None, p, [])
      else if \<not> CB_IsExpired now (key_at p a) then (None, p, [])
      else CB_Refresh now reply a p)"

text \<open>
  Importing an account. Tokens that are expired or about to expire are refreshed first, outside
  the lock, on a key that is not in the pool; when that fails they are stored as they are.
\<close>

definition tryEagerRefresh ::
  "gotime \<Rightarrow> cb_token_reply \<Rightarrow> cb_key \<Rightarrow> (gotime + cb_refresh_error) \<times> cb_key \<times> cb_call list" where
  "tryEagerRefresh now reply probe =
     (if GetCredType probe \<noteq> CBAuthOAuth then (Inl 0, probe, [])
      else case cb_refresh_key now reply probe of
             (Some e, k, cs) \<Rightarrow> (Inr e, k, cs)
           | (None, k, cs) \<Rightarrow>
             if ck_AccessToken k = [] \<or> ck_RefreshToken k = [] then (Inr Empty_access_token, k, cs)
             else (Inl (ck_ExpiresAt k), k, cs))"

definition oauth_key :: "string \<Rightarrow> string \<Rightarrow> string \<Rightarrow> gotime \<Rightarrow> cb_key" where
  "oauth_key email access refresh e =
     (fresh_key email CBAuthOAuth)\<lparr>ck_AccessToken := access, ck_RefreshToken := refresh, ck_ExpiresAt := e, ck_Email := email\<rparr>"

definition eager_tokens ::
  "gotime \<Rightarrow> cb_token_reply \<Rightarrow> string \<Rightarrow> string \<Rightarrow> string \<Rightarrow> gotime \<Rightarrow> (string \<times> string \<times> gotime) \<times> cb_call list" where
  "eager_tokens now reply email access refresh expiresAt =
     (if expiresAt < now + REFRESH_BUFFER then
        (case tryEagerRefresh now reply (oauth_key email access refresh expiresAt) of
           (Inl t, k, cs) \<Rightarrow>
             (if t \<noteq> 0 then ((ck_AccessToken k, ck_RefreshToken k, t), cs) else ((access, refresh, expiresAt), cs))
         | (Inr e, k, cs) \<Rightarrow> ((access, refresh, expiresAt), cs))
      else ((access, refresh, expiresAt), []))"

definition AddOAuthAccount ::
  "gotime \<Rightarrow> cb_token_reply \<Rightarrow> string \<Rightarrow> string \<Rightarrow> string \<Rightarrow> gotime \<Rightarrow> cb_pool \<Rightarrow>
   (bool \<times> nat) \<times> cb_pool \<times> cb_call list" where
  "AddOAuthAccount now reply email0 access0 refresh0 expiresAt0 p =
     (let email = trim_space email0; access1 = trim_space access0; refresh1 = trim_space refresh0 in
      if email = [] \<or> access1 = [] \<or> refresh1 = [] then ((False, length (kp_keys p)), p, [])
      else
        let ((access, refresh, expiresAt), cs) = eager_tokens now reply email access1 refresh1 expiresAt0 in
        case find (\<lambda>a. ck_Key (key_at p a) = email \<or>
                       ck_CredType (key_at p a) = CBAuthOAuth \<and> ck_Email (key_at p a) = email) (kp_keys p) of
          Some a \<Rightarrow>
            (let p' = put_key a ((key_at p a)\<lparr>ck_CredType := CBAuthOAuth, ck_AccessToken := access,
                   ck_RefreshToken := refresh, ck_ExpiresAt := expiresAt, ck_Email := email,
                   ck_disabled := False, ck_disabledAt := 0\<rparr>) p
             in ((False, length (kp_keys p)), p', cs @ save_cb p' a))
        | None \<Rightarrow>
            (let p' = new_key (oauth_key email access refresh expiresAt) p
             in ((True, length (kp_keys p')), p', cs @ save_cb p' (length (kp_heap p)))))"

text \<open>One key of a tick of \<open>CBOAuthRefreshWorker\<close>.\<close>

definition cb_needs_refresh :: "gotime \<Rightarrow> cb_key \<Rightarrow> bool" where
  "cb_needs_refresh now k \<longleftrightarrow>
     ck_CredType k = CBAuthOAuth \<and> \<not> cb_banned k \<and> ck_ExpiresAt k \<noteq> 0 \<and>
     now > ck_ExpiresAt k - PRE_WARM_WINDOW"

definition cb_prewarm :: "gotime \<Rightarrow> cb_token_reply \<Rightarrow> nat \<Rightarrow> cb_pool \<Rightarrow> cb_pool \<times> cb_call list" where
  "cb_prewarm now reply a p =
     (if \<not> cb_needs_refresh now (key_at p a) then (p, [])
      else let (e, p', cs) = CB_Refresh now reply a p in (p', cs))"

section \<open>Credits\<close>

definition add_credits :: "rat \<Rightarrow> cb_key \<Rightarrow> cb_key" where
  "add_credits c k0 =
     (let k1 = k0\<lparr>ck_creditsUsed := ck_creditsUsed k0 + c, ck_totalReqs := wrap64 (ck_totalReqs k0 + 1)\<rparr>;
          limit = (if ck_creditLimit k1 \<le> 0 then CB_CREDIT_LIMIT else ck_creditLimit k1);
          k2 = (if ck_meterSyncedAt k1 > 0 \<and> ck_creditLimit k1 > 0
                then (let r = ck_creditLimit k1 - ck_creditsUsed k1
                      in k1\<lparr>ck_creditsRemain := (if r < 0 then 0 else r)\<rparr>)
                else k1)
      in if ck_creditsUsed k2 \<ge> limit then k2\<lparr>ck_disabled := True, ck_disabledAt := 0\<rparr> else k2)"

definition AddCredits :: "rat \<Rightarrow> nat \<Rightarrow> cb_pool \<Rightarrow> cb_pool \<times> cb_call list" where
  "AddCredits c a p = (let p' = put_key a (add_credits c (key_at p a)) p in (p', save_cb p' a))"

record cbMeterAccount =
  ma_PackageName :: string
  ma_CapacitySize :: int
  ma_CapacityUsed :: int
  ma_CapacityRemain :: int
  ma_CapacitySizePrecise :: string
  ma_CapacityUsedPrecise :: string
  ma_CapacityRemainPrecise :: string
  ma_CycleStartTime :: string
  ma_CycleEndTime :: string
  ma_Status :: int

record cb_meter_body =
  mb_Code :: int
  mb_Msg :: string
  mb_Accounts :: "cbMeterAccount list"

datatype cb_sync_error =
    Sync_ensure_valid cb_refresh_error
  | Sync_transport string
  | Sync_status int string
  | Sync_parse string
  | Sync_code int string
  | Sync_no_account

definition parseCBMeterAccount :: "string + cb_meter_body \<Rightarrow> cb_sync_error + cbMeterAccount" where
  "parseCBMeterAccount body =
     (case body of
        Inl e \<Rightarrow> Inl (Sync_parse e)
      | Inr b \<Rightarrow>
        if mb_Code b \<noteq> 0 then Inl (Sync_code (mb_Code b) (mb_Msg b))
        else case mb_Accounts b of [] \<Rightarrow> Inl Sync_no_account | m # _ \<Rightarrow> Inr m)"

definition apply_meter :: "gotime \<Rightarrow> cbMeterAccount \<Rightarrow> cb_key \<Rightarrow> cb_key" where
  "apply_meter now m k0 =
     (let size = parseFloatOr (ma_CapacitySizePrecise m) (of_int (ma_CapacitySize m));
          used = parseFloatOr (ma_CapacityUsedPrecise m) (of_int (ma_CapacityUsed m));
          remain = parseFloatOr (ma_CapacityRemainPrecise m) (of_int (ma_CapacityRemain m));
          k = k0\<lparr>ck_creditsUsed := used,
                 ck_creditLimit := (if size > 0 then size else ck_creditLimit k0),
                 ck_creditsRemain := remain, ck_packageName := ma_PackageName m,
                 ck_cycleEnd := ma_CycleEndTime m, ck_meterStatus := ma_Status m, ck_meterSyncedAt := now\<rparr>
      in if (ma_Status m = 3 \<or> remain \<le> 0) \<and> (\<not> ck_disabled k \<or> ck_disabledAt k \<noteq> 0)
         then k\<lparr>ck_disabled := True, ck_disabledAt := 0\<rparr> else k)"

datatype cb_meter_reply = Meter_error string | Meter_response int string "string + cb_meter_body"

definition syncCreditsLocked ::
  "gotime \<Rightarrow> cb_token_reply \<Rightarrow> cb_meter_reply \<Rightarrow> nat \<Rightarrow> cb_pool \<Rightarrow> cb_sync_error option \<times> cb_pool \<times> cb_call list" where
  "syncCreditsLocked now tok meter a p0 =
     (case (if GetCredType (key_at p0 a) = CBAuthOAuth then CB_EnsureValid now tok a p0 else (None, p0, [])) of
        (Some e, p, cs) \<Rightarrow> (Some (Sync_ensure_valid e), p, cs)
      | (None, p, cs) \<Rightarrow>
        (case meter of
           Meter_error e \<Rightarrow> (Some (Sync_transport e), p, cs @ [Cb_proxy True 0])
         | Meter_response status body parsed \<Rightarrow>
           if status \<noteq> 200 then (Some (Sync_status status body), p, cs @ [Cb_proxy False status])
           else case parseCBMeterAccount parsed of
                  Inl e \<Rightarrow> (Some e, p, cs @ [Cb_proxy False status])
                | Inr m \<Rightarrow>
                  (let p' = put_key a (apply_meter now m (key_at p a)) p
                   in (None, p', cs @ [Cb_proxy False status] @ save_cb p' a))))"

text \<open>One key of \<open>syncAllCBCredits\<close>.\<close>

definition sync_one ::
  "gotime \<Rightarrow> cb_token_reply \<Rightarrow> cb_meter_reply \<Rightarrow> nat \<Rightarrow> cb_pool \<Rightarrow> cb_pool \<times> cb_call list" where
  "sync_one now tok meter a p =
     (if cb_banned (key_at p a) then (p, [])
      else let (e, p', cs) = syncCreditsLocked now tok meter a p in (p', cs))"

section \<open>The life of a key\<close>

definition cb_status :: "cb_pool \<Rightarrow> nat \<Rightarrow> cred_status" where
  "cb_status p a = (ck_disabled (key_at p a), ck_disabledAt (key_at p a))"

definition cb_pick :: "gotime \<Rightarrow> cb_pool \<Rightarrow> nat option \<times> cb_pool" where
  "cb_pick now p = (case CB_Next p of (Inr a, p') \<Rightarrow> (Some a, p') | (Inl _, p') \<Rightarrow> (None, p'))"

definition enabled_from_cursor :: "cb_pool \<Rightarrow> nat list" where
  "enabled_from_cursor p = filter (\<lambda>a. \<not> ck_disabled (key_at p a)) (rotate (kp_next p) (kp_keys p))"

lemma CB_Next_frame:
  "kp_heap (snd (CB_Next p)) = kp_heap p" "kp_keys (snd (CB_Next p)) = kp_keys p"
  "key_at (snd (CB_Next p)) a = key_at p a" "kp_db (snd (CB_Next p)) = kp_db p"
  by (auto simp: CB_Next_def Let_def key_at_def split: option.split)

lemma CB_Next_some:
  assumes "enabled_from_cursor p = x # xs"
  shows "fst (CB_Next p) = Inr x \<and> enabled_from_cursor (snd (CB_Next p)) = xs @ [x]"
proof -
  have ne: "kp_keys p \<noteq> []" using assms by (auto simp: enabled_from_cursor_def)
  from assms show ?thesis
    unfolding enabled_from_cursor_def
    by (elim cursor_scan_some) (simp add: ne CB_Next_def Let_def)
qed

lemma CB_Next_none:
  assumes "enabled_from_cursor p = []"
  shows "CB_Next p = (Inl (if kp_keys p = [] then ''no cb keys'' else ''all cb keys disabled''), p)"
proof -
  have "find (\<lambda>i. \<not> ck_disabled (key_at p (kp_keys p ! ((kp_next p + i) mod length (kp_keys p)))))
      [0..<length (kp_keys p)] = None"
    using assms unfolding enabled_from_cursor_def by (rule cursor_scan_none)
  then show ?thesis by (simp add: CB_Next_def Let_def)
qed

lemma CB_Next_enabled:
  assumes "CB_Next p = (Inr a, p')"
  shows "a \<in> set (kp_keys p) \<and> \<not> ck_disabled (key_at p a)"
proof (cases "enabled_from_cursor p")
  case Nil
  with assms show ?thesis by (simp add: CB_Next_none)
next
  case (Cons x xs)
  have "x \<in> set (enabled_from_cursor p)" by (simp add: Cons)
  with CB_Next_some [OF Cons] assms show ?thesis by (simp add: enabled_from_cursor_def)
qed

lemma cb_reenable_idem: "cb_reenable now (cb_reenable now k) = cb_reenable now k"
  by (simp add: cb_reenable_def cb_cooled_def)

lemma reenable_status:
  assumes "refs_ok p"
  shows "cb_status (fst (CB_ReenableCooldowns now p)) a =
      (if a \<in> set (kp_keys p) \<and> cooled now (cb_status p a) then (False, snd (cb_status p a)) else cb_status p a)"
proof -
  have "key_at (fst (CB_ReenableCooldowns now p)) a =
      (if a \<in> set (kp_keys p) then cb_reenable now (key_at p a) else key_at p a)"
    using fold_put_key [of "cb_reenable now" "kp_keys p" p a] assms
    by (simp add: CB_ReenableCooldowns_def Let_def cb_reenable_idem refs_ok_def)
  then show ?thesis by (auto simp: cb_status_def cb_reenable_def cb_cooled_def cooled_def)
qed

lemma reenable_frame:
  assumes "refs_ok p"
  shows "refs_ok (fst (CB_ReenableCooldowns now p))"
  using fold_put_key [of "cb_reenable now" "kp_keys p" p] assms
  by (simp add: CB_ReenableCooldowns_def Let_def cb_reenable_idem refs_ok_def)

lemma reenable_keys: "kp_keys (fst (CB_ReenableCooldowns now p)) = kp_keys p"
proof -
  have "kp_keys (fold (\<lambda>a q. put_key a (cb_reenable now (key_at q a)) q) as q) = kp_keys q" for as q
    by (induction as arbitrary: q) simp_all
  then show ?thesis by (simp add: CB_ReenableCooldowns_def Let_def)
qed

lemma cb_pick_snd: "snd (cb_pick now p) = snd (CB_Next p)"
  by (simp add: cb_pick_def split: prod.split sum.split)

interpretation cb_life: credential_pool cb_status kp_keys cb_pick
  "\<lambda>now p. fst (CB_ReenableCooldowns now p)" "\<lambda>p. fst (snd (CB_CleanupDisabled p))" refs_ok
proof unfold_locales
  show "cb_pick now p = (Some a, p') \<Longrightarrow> a \<in> set (kp_keys p) \<and> \<not> fst (cb_status p a)" for now p a p'
    by (auto simp: cb_pick_def cb_status_def split: prod.splits sum.splits dest: CB_Next_enabled)
  show "cb_status (snd (cb_pick now p)) = cb_status p" for now p
    by (simp add: fun_eq_iff cb_pick_snd cb_status_def CB_Next_frame)
  show "kp_keys (snd (cb_pick now p)) = kp_keys p" for now p
    by (simp add: cb_pick_snd CB_Next_frame)
  show "refs_ok p \<Longrightarrow> refs_ok (snd (cb_pick now p))" for now p
    by (simp add: cb_pick_snd refs_ok_def CB_Next_frame)
  show "refs_ok p \<Longrightarrow> refs_ok (fst (snd (CB_CleanupDisabled p)))" for p
    by (simp add: CB_CleanupDisabled_def Let_def refs_ok_sub)
  show "refs_ok p \<Longrightarrow> cb_status (fst (CB_ReenableCooldowns now p)) a =
      (if a \<in> set (kp_keys p) \<and> cooled now (cb_status p a) then (False, snd (cb_status p a)) else cb_status p a)"
    for p now a
    by (rule reenable_status)
qed (simp_all add: reenable_frame reenable_keys CB_CleanupDisabled_def Let_def fun_eq_iff
    cb_status_def cb_banned_def for_good_def)

interpretation cb_rotation: rotation CB_Next enabled_from_cursor Inr
  by unfold_locales (simp add: CB_Next_some)

section \<open>Histories\<close>

text \<open>The operations on the pool, by requests, workers and the administrator.\<close>

datatype cb_event =
    Cb_next
  | Cb_reenable gotime
  | Cb_cleanup
  | Cb_add string
  | Cb_import gotime cb_token_reply string string string gotime
  | Cb_delete string
  | Cb_credits rat nat
  | Cb_ban nat
  | Cb_cooldown gotime nat
  | Cb_refresh gotime cb_token_reply nat
  | Cb_prewarm gotime cb_token_reply nat
  | Cb_sync gotime cb_token_reply cb_meter_reply nat

fun cb_step :: "cb_event \<Rightarrow> cb_pool \<Rightarrow> nat option \<times> cb_pool" where
  "cb_step Cb_next p = cb_pick 0 p"
| "cb_step (Cb_reenable now) p = (None, fst (CB_ReenableCooldowns now p))"
| "cb_step Cb_cleanup p = (None, fst (snd (CB_CleanupDisabled p)))"
| "cb_step (Cb_add k) p = (None, fst (snd (CB_AddKey k p)))"
| "cb_step (Cb_import now reply email access refresh e) p =
     (None, fst (snd (AddOAuthAccount now reply email access refresh e p)))"
| "cb_step (Cb_delete k) p = (None, fst (snd (CB_DeleteKey k p)))"
| "cb_step (Cb_credits c a) p = (None, fst (AddCredits c a p))"
| "cb_step (Cb_ban a) p = (None, fst (permanentDisable a p))"
| "cb_step (Cb_cooldown now a) p = (None, fst (cooldownDisable now a p))"
| "cb_step (Cb_refresh now reply a) p = (None, fst (snd (CB_Refresh now reply a p)))"
| "cb_step (Cb_prewarm now reply a) p = (None, fst (cb_prewarm now reply a p))"
| "cb_step (Cb_sync now tok meter a) p = (None, fst (sync_one now tok meter a p))"

text \<open>The keys that \<open>Next\<close> hands out in a history, and the pool after it.\<close>

fun cb_history :: "cb_event list \<Rightarrow> cb_pool \<Rightarrow> nat option list \<times> cb_pool" where
  "cb_history [] p = ([], p)"
| "cb_history (e # es) p = (let (r, q) = cb_step e p; (rs, q') = cb_history es q in (r # rs, q'))"

fun cb_pool_event :: "cb_event \<Rightarrow> cb_pool pool_event" where
  "cb_pool_event Cb_next = Pick 0"
| "cb_pool_event (Cb_reenable now) = Tick now"
| "cb_pool_event Cb_cleanup = Cleanup"
| "cb_pool_event e = Other (\<lambda>p. snd (cb_step e p))"

lemma cb_event_step: "cb_life.event (cb_pool_event e) p = cb_step e p"
  by (cases e) simp_all

lemma cb_history_run: "cb_history es p = cb_life.run (map cb_pool_event es) p"
  by (induction es arbitrary: p) (simp_all add: cb_event_step split_beta Let_def)

text \<open>What an operation leaves of a key: its names, and its disablement for good.\<close>

definition evolves :: "nat \<Rightarrow> cb_pool \<Rightarrow> cb_pool \<Rightarrow> bool" where
  "evolves a p q \<longleftrightarrow>
     length (kp_heap p) \<le> length (kp_heap q) \<and> (refs_ok p \<longrightarrow> refs_ok q) \<and>
     ck_Key (key_at q a) = ck_Key (key_at p a) \<and> ck_Email (key_at q a) = ck_Email (key_at p a) \<and>
     (cb_banned (key_at p a) \<longrightarrow> cb_banned (key_at q a))"

lemma evolves_refl [simp, intro]: "evolves a p p"
  by (simp add: evolves_def)

lemma evolves_trans: "evolves a p q \<Longrightarrow> evolves a q r \<Longrightarrow> evolves a p r"
  by (auto simp: evolves_def)

lemma evolves_put:
  assumes "a < length (kp_heap p)"
    and "a = b \<Longrightarrow> ck_Key k = ck_Key (key_at p a) \<and> ck_Email k = ck_Email (key_at p a) \<and>
           (cb_banned (key_at p a) \<longrightarrow> cb_banned k)"
  shows "evolves a p (put_key b k p)"
  using assms by (auto simp: evolves_def put_key_at)

lemma evolves_new: "a < length (kp_heap p) \<Longrightarrow> evolves a p (new_key k p)"
  by (simp add: evolves_def)

lemma token_keeps:
  "cb_refresh_key now reply k = (e, k', cs) \<Longrightarrow>
   ck_Key k' = ck_Key k \<and> ck_Email k' = ck_Email k \<and> cb_banned k' = cb_banned k"
  by (auto simp: cb_refresh_key_def cb_apply_token_def cb_banned_def Let_def
      split: if_splits cb_token_reply.splits sum.splits)

lemma refresh_evolves: "a < length (kp_heap p) \<Longrightarrow> evolves a p (fst (snd (CB_refreshLocked now reply b p)))"
  by (auto simp: CB_refreshLocked_def Let_def split: prod.split option.split intro!: evolves_put dest!: token_keeps)

lemma Refresh_evolves: "a < length (kp_heap p) \<Longrightarrow> evolves a p (fst (snd (CB_Refresh now reply b p)))"
  by (simp add: CB_Refresh_def refresh_evolves)

lemma EnsureValid_evolves: "a < length (kp_heap p) \<Longrightarrow> evolves a p (fst (snd (CB_EnsureValid now reply b p)))"
  by (simp add: CB_EnsureValid_def Refresh_evolves)

lemma meter_keeps:
  "ck_Key (apply_meter now m k) = ck_Key k" "ck_Email (apply_meter now m k) = ck_Email k"
  "cb_banned k \<Longrightarrow> cb_banned (apply_meter now m k)"
  by (auto simp: apply_meter_def cb_banned_def Let_def)

lemma credits_keep:
  "ck_Key (add_credits c k) = ck_Key k" "ck_Email (add_credits c k) = ck_Email k"
  "cb_banned k \<Longrightarrow> cb_banned (add_credits c k)"
  by (auto simp: add_credits_def cb_banned_def Let_def)

lemma sync_evolves:
  assumes "a < length (kp_heap p)"
  shows "evolves a p (fst (snd (syncCreditsLocked now tok meter b p)))"
proof -
  define r where "r = (if GetCredType (key_at p b) = CBAuthOAuth then CB_EnsureValid now tok b p else (None, p, []))"
  obtain e q cs where r_eq: "r = (e, q, cs)" by (metis prod_cases3)
  have q: "evolves a p q" using EnsureValid_evolves [OF assms, of now tok b] r_eq by (auto simp: r_def split: if_splits)
  then have aq: "a < length (kp_heap q)" using assms by (simp add: evolves_def)
  have "evolves a q (put_key b (apply_meter now m (key_at q b)) q)" for m
    using aq by (intro evolves_put) (auto simp: meter_keeps)
  with q have step: "evolves a p (put_key b (apply_meter now m (key_at q b)) q)" for m by (blast intro: evolves_trans)
  show ?thesis
    unfolding syncCreditsLocked_def r_def [symmetric] r_eq
    by (auto simp: q step Let_def split: option.split cb_meter_reply.split sum.split)
qed

lemma import_evolves:
  assumes "a < length (kp_heap p)" and "trim_space email \<notin> {ck_Key (key_at p a), ck_Email (key_at p a)}"
  shows "evolves a p (fst (snd (AddOAuthAccount now reply email access refresh e p)))"
proof -
  define m where "m = trim_space email"
  have ne: "a \<noteq> b" if "find (\<lambda>b. ck_Key (key_at p b) = m \<or>
      ck_CredType (key_at p b) = CBAuthOAuth \<and> ck_Email (key_at p b) = m) (kp_keys p) = Some b" for b
    using that assms(2) by (auto simp: find_Some_iff m_def)
  show ?thesis
    unfolding AddOAuthAccount_def m_def [symmetric] Let_def
    using assms(1) ne
    by (auto simp: split_beta evolves_new intro!: evolves_put split: option.split)
qed

text \<open>The events that cannot lift a disablement of \<open>a\<close> for good.\<close>

definition spares :: "nat \<Rightarrow> string \<Rightarrow> string \<Rightarrow> cb_event \<Rightarrow> bool" where
  "spares a key mail e =
     (case e of
        Cb_cooldown _ b \<Rightarrow> b \<noteq> a
      | Cb_import _ _ email _ _ _ \<Rightarrow> trim_space email \<noteq> key \<and> trim_space email \<noteq> mail
      | _ \<Rightarrow> True)"

lemma cb_step_evolves:
  assumes "refs_ok p" "a < length (kp_heap p)" "spares a (ck_Key (key_at p a)) (ck_Email (key_at p a)) e"
  shows "evolves a p (snd (cb_step e p))"
proof (cases e)
  case Cb_next
  then show ?thesis by (simp add: cb_pick_snd evolves_def refs_ok_def CB_Next_frame)
next
  case (Cb_reenable now)
  have "key_at (fst (CB_ReenableCooldowns now p)) a =
      (if a \<in> set (kp_keys p) then cb_reenable now (key_at p a) else key_at p a)"
    "length (kp_heap (fst (CB_ReenableCooldowns now p))) = length (kp_heap p)"
    using fold_put_key [of "cb_reenable now" "kp_keys p" p a] assms(1)
    by (simp_all add: CB_ReenableCooldowns_def Let_def cb_reenable_idem refs_ok_def)
  with Cb_reenable assms(1) show ?thesis
    by (simp add: evolves_def reenable_frame cb_reenable_def cb_cooled_def cb_banned_def)
next
  case Cb_cleanup
  then show ?thesis by (simp add: CB_CleanupDisabled_def Let_def evolves_def refs_ok_sub)
next
  case (Cb_add k)
  with assms(2) show ?thesis by (simp add: CB_AddKey_def Let_def evolves_new)
next
  case (Cb_import now reply email access refresh e')
  with assms show ?thesis by (simp add: import_evolves spares_def)
next
  case (Cb_delete k)
  then show ?thesis by (simp add: CB_DeleteKey_def evolves_def split: option.split)
next
  case (Cb_credits c b)
  with assms(2) show ?thesis by (auto simp: AddCredits_def Let_def credits_keep intro!: evolves_put)
next
  case (Cb_ban b)
  with assms(2) show ?thesis by (auto simp: permanentDisable_def Let_def cb_banned_def intro!: evolves_put)
next
  case (Cb_cooldown now b)
  with assms show ?thesis by (auto simp: cooldownDisable_def Let_def spares_def intro!: evolves_put)
next
  case (Cb_refresh now reply b)
  with assms(2) show ?thesis by (simp add: Refresh_evolves)
next
  case (Cb_prewarm now reply b)
  with assms(2) show ?thesis by (simp add: cb_prewarm_def Refresh_evolves split_beta Let_def)
next
  case (Cb_sync now tok meter b)
  with assms(2) show ?thesis by (simp add: sync_one_def sync_evolves split_beta Let_def)
qed

section \<open>Properties\<close>

text \<open>
  C17: A key disabled for good stays so. In any history of the pool's operations (requests
  taking and disabling keys, refreshes, credit syncs, cleanups, imports, worker ticks) that
  neither puts that key on cooldown nor imports an account under its name, \<open>Next\<close> never hands it
  out again.
\<close>

theorem cb_ban_final:
  assumes "refs_ok p" "a < length (kp_heap p)" "cb_banned (key_at p a)"
    and "\<forall>e \<in> set es. spares a (ck_Key (key_at p a)) (ck_Email (key_at p a)) e"
  shows "Some a \<notin> set (fst (cb_history es p)) \<and> cb_banned (key_at (snd (cb_history es p)) a)"
proof -
  define K M where "K = ck_Key (key_at p a)" and "M = ck_Email (key_at p a)"
  define J where "J q \<longleftrightarrow> a < length (kp_heap q) \<and> ck_Key (key_at q a) = K \<and> ck_Email (key_at q a) = M"
    for q :: cb_pool
  have good: "for_good (cb_status q a) \<longleftrightarrow> cb_banned (key_at q a)" for q
    by (simp add: for_good_def cb_status_def cb_banned_def)
  have keeps: "cb_life.keeps_ban J a (cb_pool_event e)" if e: "spares a K M e" for e
  proof -
    have "refs_ok (snd (cb_step e q)) \<and> J (snd (cb_step e q)) \<and>
        (for_good (cb_status q a) \<longrightarrow> for_good (cb_status (snd (cb_step e q)) a))" if "refs_ok q" "J q" for q
      using cb_step_evolves [of q a e] that e by (auto simp: J_def evolves_def good)
    then show ?thesis
      unfolding cb_life.keeps_ban_def cb_event_step by (cases e) simp_all
  qed
  have "\<forall>e \<in> set (map cb_pool_event es). cb_life.keeps_ban J a e"
    using assms(4) keeps by (auto simp: K_def M_def)
  from cb_life.ban_is_final [where J = J, OF assms(1) _ _ this] assms(2,3) show ?thesis
    by (simp add: cb_history_run J_def K_def M_def good)
qed

definition demo_cb :: cb_pool where
  "demo_cb =
     \<lparr>kp_heap = [fresh_key ''ck_1'' CBAuthAPIKey, (fresh_key ''ck_2'' CBAuthAPIKey)\<lparr>ck_disabled := True\<rparr>,
                 oauth_key ''x@y'' ''at'' ''rt'' (10 ^ 20)],
      kp_keys = [0, 1, 2], kp_next = 1, kp_db = True\<rparr>"

lemma demo_cb_key:
  "key_at demo_cb 0 = fresh_key ''ck_1'' CBAuthAPIKey"
  "key_at demo_cb 1 = (fresh_key ''ck_2'' CBAuthAPIKey)\<lparr>ck_disabled := True\<rparr>"
  "key_at demo_cb 2 = oauth_key ''x@y'' ''at'' ''rt'' (10 ^ 20)"
  by (simp_all add: demo_cb_def key_at_def)

theorem cb_ban_final_witness:
  "Some 1 \<notin> set (fst (cb_history [Cb_next, Cb_cooldown 5 0, Cb_reenable hour, Cb_next, Cb_next] demo_cb))"
proof -
  have "refs_ok demo_cb" "1 < length (kp_heap demo_cb)" by (simp_all add: refs_ok_def demo_cb_def)
  moreover have "cb_banned (key_at demo_cb 1)" unfolding demo_cb_key by (simp add: cb_banned_def fresh_key_def)
  moreover have "\<forall>e \<in> set [Cb_next, Cb_cooldown 5 0, Cb_reenable hour, Cb_next, Cb_next].
      spares 1 (ck_Key (key_at demo_cb 1)) (ck_Email (key_at demo_cb 1)) e"
    by (simp add: spares_def)
  ultimately show ?thesis by (rule cb_ban_final [THEN conjunct1])
qed

text \<open>
  Enabled keys take turns. Called again and again, \<open>Next\<close> serves the enabled keys in the order
  of the pool from the cursor on, over and over; with none enabled it always fails.
\<close>

theorem cb_keys_in_turn:
  "fst (repeat_op n CB_Next p) =
     (let ks = filter (\<lambda>a. \<not> ck_disabled (key_at p a)) (rotate (kp_next p) (kp_keys p)) in
      if ks = [] then replicate n (Inl (if kp_keys p = [] then ''no cb keys'' else ''all cb keys disabled''))
      else map (\<lambda>i. Inr (ks ! (i mod length ks))) [0..<n])"
proof (cases "enabled_from_cursor p = []")
  case True
  have "fst (repeat_op n CB_Next p) =
      replicate n (Inl (if kp_keys p = [] then ''no cb keys'' else ''all cb keys disabled''))"
    by (induction n) (simp_all add: CB_Next_none [OF True] split_beta Let_def)
  with True show ?thesis by (simp add: enabled_from_cursor_def)
next
  case False
  with cb_rotation.in_turn [OF False, of n] show ?thesis by (simp add: enabled_from_cursor_def Let_def)
qed

definition storable_key :: "cb_key \<Rightarrow> bool" where
  "storable_key k \<longleftrightarrow>
     (if ck_CredType k = CBAuthOAuth then ck_Email k \<noteq> []
      else ck_CredType k = CBAuthAPIKey \<and> ck_AccessToken k = [] \<and> ck_RefreshToken k = [] \<and>
        ck_ExpiresAt k = 0 \<and> ck_Email k = []) \<and>
     fits64 (ck_totalReqs k) \<and> fits64 (ck_meterStatus k) \<and> 0 \<le> ck_creditLimit k \<and>
     list_all storable_time [ck_ExpiresAt k, ck_disabledAt k, ck_meterSyncedAt k]"

lemma hash_stored_CB:
  fixes old :: "string \<Rightarrow> string option" and encf :: "rat \<Rightarrow> string" and now :: gotime
  assumes "documented_encoding enc"
  defines "h d \<equiv> old ++ stored enc (SaveCBKey encf now d)"
  shows "hash_field (h d) ''cred_type'' = (if cd_CredType d = [] then ''api_key'' else cd_CredType d)"
    "hash_field (h d) ''credits_used'' = encf (cd_CreditsUsed d)"
    "hash_field (h d) ''total_requests'' = show_int (cd_TotalReqs d)"
    "hash_field (h d) ''disabled'' = (if cd_Disabled d then ''1'' else ''0'')"
    "hash_field (h d) ''disabled_at'' = show_int (unix_seconds (cd_DisabledAt d))"
    "hash_field (h d) ''credit_limit'' = encf (cd_CreditLimit d)"
    "hash_field (h d) ''credits_remain'' = encf (cd_CreditsRemain d)"
    "hash_field (h d) ''package_name'' = cd_PackageName d"
    "hash_field (h d) ''cycle_end'' = cd_CycleEnd d"
    "hash_field (h d) ''meter_status'' = show_int (cd_MeterStatus d)"
    "hash_field (h d) ''meter_synced_at'' = show_int (unix_seconds (cd_MeterSyncedAt d))"
    "cd_CredType d = ''oauth'' \<Longrightarrow> hash_field (h d) ''access_token'' = cd_AccessToken d"
    "cd_CredType d = ''oauth'' \<Longrightarrow> hash_field (h d) ''refresh_token'' = cd_RefreshToken d"
    "cd_CredType d = ''oauth'' \<Longrightarrow> hash_field (h d) ''email'' = cd_Email d"
    "cd_CredType d = ''oauth'' \<Longrightarrow> hash_field (h d) ''expires_at'' = show_int (unix_seconds (cd_ExpiresAt d))"
  using assms(1)
  by (simp_all add: h_def hash_field_def stored_def SaveCBKey_def documented_encoding_def Let_def map_add_def)

text \<open>
  A CodeBuddy key survives Redis. Written over whatever hash was there and loaded again, a
  key of either kind is the same: tokens, credits, meter and the kind of its disablement (for good
  or on cooldown since when). Only the instant of a cooldown that is over is forgotten.
\<close>

theorem cb_key_reload:
  fixes encf :: "rat \<Rightarrow> string" and old :: "string \<Rightarrow> string option"
  assumes "documented_encoding enc" and "storable_key k"
    and "\<forall>x \<in> {ck_creditsUsed k, ck_creditLimit k, ck_creditsRemain k}. parse_float (encf x) = Some x"
  shows "load_cb_key (ck_Key k) (old ++ stored enc (SaveCBKey encf now (CB_toDTO k))) =
     k\<lparr>ck_disabledAt := (if ck_disabled k then ck_disabledAt k else 0)\<rparr>"
proof -
  define h where "h = old ++ stored enc (SaveCBKey encf now (CB_toDTO k))"
  have t: "storable_time (ck_ExpiresAt k)" "storable_time (ck_disabledAt k)" "storable_time (ck_meterSyncedAt k)"
    and i: "fits64 (ck_totalReqs k)" "fits64 (ck_meterStatus k)" and l: "0 \<le> ck_creditLimit k"
    using assms(2) by (simp_all add: storable_key_def)
  note H = hash_stored_CB [where old = old and encf = encf and now = now and d = "CB_toDTO k", OF assms(1), folded h_def]
  have nums: "hash_field h ''credits_used'' = encf (ck_creditsUsed k)"
      "hash_field h ''credit_limit'' = encf (ck_creditLimit k)"
      "hash_field h ''credits_remain'' = encf (ck_creditsRemain k)"
      "hash_field h ''total_requests'' = show_int (ck_totalReqs k)"
      "hash_field h ''meter_status'' = show_int (ck_meterStatus k)"
      "hash_field h ''package_name'' = ck_packageName k" "hash_field h ''cycle_end'' = ck_cycleEnd k"
      "hash_field h ''disabled'' = (if ck_disabled k then ''1'' else ''0'')"
    using H by (simp_all add: CB_toDTO_def)
  have times: "time_field h ''disabled_at'' = ck_disabledAt k" "time_field h ''meter_synced_at'' = ck_meterSyncedAt k"
    using H t by (simp_all add: CB_toDTO_def time_field_stored)
  show ?thesis
  proof (cases "ck_CredType k = CBAuthOAuth")
    case True
    then have o: "hash_field h ''cred_type'' = CBAuthOAuth" "hash_field h ''access_token'' = ck_AccessToken k"
        "hash_field h ''refresh_token'' = ck_RefreshToken k" "hash_field h ''email'' = ck_Email k" "ck_Email k \<noteq> []"
      using H assms(2) by (simp_all add: CB_toDTO_def CBAuthOAuth_def storable_key_def)
    have "time_field h ''expires_at'' = ck_ExpiresAt k"
      using H True t(1) by (simp add: CB_toDTO_def CBAuthOAuth_def time_field_stored)
    with o True show ?thesis
      unfolding h_def [symmetric] load_cb_key_def Let_def nums times
      using assms(3) i l by (cases k) (simp add: fresh_key_def)
  next
    case False
    then have "ck_CredType k = CBAuthAPIKey" "ck_AccessToken k = []" "ck_RefreshToken k = []" "ck_ExpiresAt k = 0" "ck_Email k = []"
      using assms(2) by (simp_all add: storable_key_def)
    moreover have "hash_field h ''cred_type'' = CBAuthAPIKey"
      using H(1) \<open>ck_CredType k = CBAuthAPIKey\<close> by (simp add: CB_toDTO_def CBAuthAPIKey_def)
    ultimately show ?thesis
      unfolding h_def [symmetric] load_cb_key_def Let_def nums times
      using assms(3) i l False by (cases k) (simp add: fresh_key_def)
  qed
qed

theorem cb_key_reload_witness:
  "let k = (oauth_key ''x@y'' ''at'' ''rt'' (from_unix 1800000000))
       \<lparr>ck_creditsUsed := 12, ck_creditLimit := 500, ck_creditsRemain := 488, ck_disabled := True\<rparr>
   in load_cb_key ''x@y'' (stored go_redis_enc (SaveCBKey whole_float 5 (CB_toDTO k))) = k"
proof -
  let ?k = "(oauth_key ''x@y'' ''at'' ''rt'' (from_unix 1800000000))
       \<lparr>ck_creditsUsed := 12, ck_creditLimit := 500, ck_creditsRemain := 488, ck_disabled := True\<rparr>"
  have "storable_time (from_unix 1800000000)"
    unfolding storable_time_def by (intro disjI2 exI [of _ 1800000000]) (simp add: fits64_def)
  then have "storable_key ?k"
    by (simp add: storable_key_def oauth_key_def fresh_key_def storable_time_def [of 0] fits64_def)
  moreover have "parse_float (show_int 12) = Some 12" "parse_float (show_int 500) = Some 500"
      "parse_float (show_int 488) = Some 488"
    by code_simp+
  then have "\<forall>x \<in> {ck_creditsUsed ?k, ck_creditLimit ?k, ck_creditsRemain ?k}. parse_float (whole_float x) = Some x"
    by (simp add: whole_float_def)
  ultimately have "load_cb_key (ck_Key ?k) (Map.empty ++ stored go_redis_enc (SaveCBKey whole_float 5 (CB_toDTO ?k))) =
      ?k\<lparr>ck_disabledAt := (if ck_disabled ?k then ck_disabledAt ?k else 0)\<rparr>"
    by (rule cb_key_reload [OF go_redis_enc])
  then show ?thesis by (simp add: oauth_key_def fresh_key_def Let_def)
qed

end
