(* ===== verification/Json.thy ===== *)
theory Json
  imports Complex_Main Prelude
begin

text \<open>
  Request bodies as \<open>encoding/json\<close> decodes them into \<open>map[string]any\<close>: a JSON value, and an
  object as a map from its keys. Numbers (\<open>float64\<close> in Go) are exact. The accessors are the
  checked type assertions the code uses, with the zero value when they fail.
\<close>

datatype json =
    J_null
  | J_bool bool
  | J_num rat
  | J_str string
  | J_arr "json list"
  | J_obj "(string \<times> json) list"

type_synonym json_map = "string \<Rightarrow> json option"

definition str_field :: "json_map \<Rightarrow> string \<Rightarrow> string" where
  "str_field m f = (case m f of Some (J_str s) \<Rightarrow> s | _ \<Rightarrow> [])"

definition true_field :: "json_map \<Rightarrow> string \<Rightarrow> bool" where
  "true_field m f \<longleftrightarrow> m f = Some (J_bool True)"

definition has_field :: "json_map \<Rightarrow> string \<Rightarrow> bool" where
  "has_field m f \<longleftrightarrow> m f \<noteq> None"

text \<open>An object as a map, and the field of a value that is one.\<close>

definition as_obj :: "json \<Rightarrow> json_map option" where
  "as_obj v = (case v of J_obj kvs \<Rightarrow> Some (map_of kvs) | _ \<Rightarrow> None)"

definition num_field :: "json_map \<Rightarrow> string \<Rightarrow> rat option" where
  "num_field m f = (case m f of Some (J_num x) \<Rightarrow> Some x | _ \<Rightarrow> None)"

definition obj_field :: "json_map \<Rightarrow> string \<Rightarrow> json_map option" where
  "obj_field m f = (case m f of Some v \<Rightarrow> as_obj v | None \<Rightarrow> None)"

definition arr_field :: "json_map \<Rightarrow> string \<Rightarrow> json list option" where
  "arr_field m f = (case m f of Some (J_arr vs) \<Rightarrow> Some vs | _ \<Rightarrow> None)"

text \<open>A field that is a non-empty string (\<open>s, ok := m[f].(string); ok && s != ""\<close>).\<close>

definition text_field :: "json_map \<Rightarrow> string \<Rightarrow> string option" where
  "text_field m f = (case m f of Some (J_str s) \<Rightarrow> if s = [] then None else Some s | _ \<Rightarrow> None)"

text \<open>The first of several attempts that yields something.\<close>

fun first_some :: "'a option list \<Rightarrow> 'a option" where
  "first_some [] = None"
| "first_some (x # xs) = (case x of Some v \<Rightarrow> Some v | None \<Rightarrow> first_some xs)"

text \<open>\<open>int(f)\<close>: towards zero.\<close>

definition float_int :: "rat \<Rightarrow> int" where
  "float_int x = (if x < 0 then \<lceil>x\<rceil> else \<lfloor>x\<rfloor>)"

lemma str_field_upd [simp]:
  "str_field (m(f \<mapsto> J_str s)) f = s"
  "f \<noteq> g \<Longrightarrow> str_field (m(f := v)) g = str_field m g"
  by (simp_all add: str_field_def)

end
