(* ===== verification/CBProxy.thy ===== *)
theory CBProxy
  imports CBPool Health Json
begin

text \<open>
  \<open>ProxyCodeBuddy\<close>, the second half of \<open>internal/upstream/codebuddy.go\<close>: the request that is sent,
  the walk over the keys behind the circuit breaker, and what the answer's event stream is turned
  into and charged. As for Grok, each attempt has an environment: what the other goroutines did
  to the pool before it and while its request was in flight, the answers of the upstream and of
  the token endpoint, and the clock.
\<close>

section \<open>The request\<close>

definition CB_DEFAULT_SYSTEM :: string where "CB_DEFAULT_SYSTEM = ''You are a helpful assistant.''"

definition stripCBPrefix :: "string \<Rightarrow> string" where
  "stripCBPrefix model = trim_prefix model ''cb/''"

definition system_message :: json where
  "system_message = J_obj [(''role'', J_str ''system''), (''content'', J_str CB_DEFAULT_SYSTEM)]"

definition is_system :: "json \<Rightarrow> bool" where
  "is_system v \<longleftrightarrow> (case as_obj v of None \<Rightarrow> False | Some m \<Rightarrow> m ''role'' = Some (J_str ''system''))"

definition cbTransform :: "json_map \<Rightarrow> json_map" where
  "cbTransform m0 =
     (let m1 = m0(''stream'' \<mapsto> J_bool True);
          m2 = (case m1 ''model'' of
                  Some (J_str model) \<Rightarrow> m1(''model'' \<mapsto> J_str (stripCBPrefix model))
                | _ \<Rightarrow> m1);
          m3 = (case m2 ''max_tokens'' of
                  None \<Rightarrow> m2
                | Some mt \<Rightarrow>
                  (if m2 ''max_completion_tokens'' = None then m2(''max_completion_tokens'' \<mapsto> mt) else m2)
                    (''max_tokens'' := None))
      in case m3 ''messages'' of
           Some (J_arr (msg # msgs)) \<Rightarrow>
             (if is_system msg then m3
              else m3(''messages'' \<mapsto> J_arr (system_message # msg # msgs)))
         | _ \<Rightarrow>
             m3(''messages'' \<mapsto> J_arr [system_message,
                J_obj [(''role'', J_str ''user''), (''content'', J_str ''Hello'')]]))"

section \<open>The walk over the keys\<close>

record cb_env =
  ce_cancelled :: bool
  ce_world :: "cb_pool \<Rightarrow> cb_pool"
  ce_now :: gotime
  ce_ensure :: cb_token_reply
  ce_resp :: do_result
  ce_flight :: "cb_pool \<Rightarrow> cb_pool"
  ce_token :: cb_token_reply
  ce_resp2 :: do_result
  ce_end :: gotime
  ce_latency :: duration

text \<open>What becomes of an attempt: the next key, a reply to the client, or an answer to deliver.\<close>

datatype cb_verdict = Next_key | Reply_error int string | Take http_response

definition credits_exhausted :: "string \<Rightarrow> bool" where
  "credits_exhausted body \<longleftrightarrow> str_contains body ''14018'' \<or> str_contains body ''Credits exhausted''"

definition invalid_params :: "string \<Rightarrow> bool" where
  "invalid_params body \<longleftrightarrow> str_contains body ''11133'' \<or> str_contains body ''Invalid request parameters''"

definition model_missing :: "string \<Rightarrow> bool" where
  "model_missing body \<longleftrightarrow>
     str_contains body ''11102'' \<or> str_contains body ''service info not found'' \<or>
     str_contains body ''model ['' \<and> str_contains body ''] service info not found''"

definition disable_and_go :: "cb_pool \<times> cb_call list \<Rightarrow> UpstreamHealth \<Rightarrow>
   cb_verdict \<times> cb_pool \<times> UpstreamHealth \<times> cb_call list" where
  "disable_and_go pc h = (Next_key, fst pc, h, snd pc)"

definition cb_classify ::
  "cb_env \<Rightarrow> nat \<Rightarrow> http_response \<Rightarrow> cb_pool \<Rightarrow> UpstreamHealth \<Rightarrow>
   cb_verdict \<times> cb_pool \<times> UpstreamHealth \<times> cb_call list" where
  "cb_classify e a r p h =
     (let body = take 4096 (hr_body r);
          failed = (\<lambda>msg. RecordRequest (ce_end e) (ce_latency e) (Some msg) h)
      in if hr_status r = 429 then
           (if str_contains body ''14017'' then disable_and_go (permanentDisable a p) h
            else disable_and_go (cooldownDisable (ce_end e) a p) h)
         else if hr_status r \<ge> 400 \<and> hr_status r < 500 then
           (if hr_status r = 403 \<and> str_contains body ''11140'' then disable_and_go (permanentDisable a p) h
            else if credits_exhausted body then disable_and_go (permanentDisable a p) h
            else if hr_status r = 400 \<and> invalid_params body then
              (Reply_error 400 ''CodeBuddy rejected request parameters'', p, failed ''cb 400 invalid params'', [])
            else if hr_status r = 400 \<and> model_missing body then
              (Reply_error 400 ''model not available on CodeBuddy'', p, failed ''cb 400 model not found'', [])
            else disable_and_go (cooldownDisable (ce_end e) a p) h)
         else if hr_status r \<ge> 500 then
           (Next_key, p, failed (''upstream '' @ show_int (hr_status r)), [])
         else (Take r, p, h, []))"

definition cb_unauthorized ::
  "cb_env \<Rightarrow> nat \<Rightarrow> cb_pool \<Rightarrow> UpstreamHealth \<Rightarrow> cb_verdict \<times> cb_pool \<times> UpstreamHealth \<times> cb_call list" where
  "cb_unauthorized e a p h =
     (if GetCredType (key_at p a) \<noteq> CBAuthOAuth then disable_and_go (permanentDisable a p) h
      else case CB_Refresh (ce_end e) (ce_token e) a p of
             (Some err, p1, cs1) \<Rightarrow>
               (let (v, p2, h2, cs2) = disable_and_go (permanentDisable a p1) h in (v, p2, h2, cs1 @ cs2))
           | (None, p1, cs1) \<Rightarrow>
             (case ce_resp2 e of
                Inl _ \<Rightarrow> (Next_key, p1, h, cs1 @ [Cb_proxy True 0])
              | Inr r2 \<Rightarrow>
                (let (v, p2, h2, cs2) =
                   (if hr_status r2 = 401 then disable_and_go (permanentDisable a p1) h
                    else cb_classify e a r2 p1 h)
                 in (v, p2, h2, cs1 @ [Cb_proxy False (hr_status r2)] @ cs2))))"

definition cb_attempt ::
  "cb_env \<Rightarrow> nat \<Rightarrow> cb_pool \<Rightarrow> UpstreamHealth \<Rightarrow> cb_verdict \<times> cb_pool \<times> UpstreamHealth \<times> cb_call list" where
  "cb_attempt e a p0 h =
     (let (ignored, p1, cs1) = CB_EnsureValid (ce_now e) (ce_ensure e) a p0;
          p = ce_flight e p1
      in case ce_resp e of
           Inl _ \<Rightarrow> (Next_key, p, h, cs1 @ [Cb_proxy True 0])
         | Inr r \<Rightarrow>
           (let (v, p2, h2, cs2) =
              (if hr_status r = 401 then cb_unauthorized e a p h else cb_classify e a r p h)
            in (v, p2, h2, cs1 @ [Cb_proxy False (hr_status r)] @ cs2)))"

datatype cb_outcome =
    Cb_circuit_open
  | Cb_bad_body
  | Cb_cancelled
  | Cb_exhausted
  | Cb_refused int string
  | Cb_deliver http_response nat

text \<open>One attempt per element; there are as many as the pool had keys when the loop began.\<close>

fun cb_loop ::
  "cb_env list \<Rightarrow> cb_pool \<Rightarrow> UpstreamHealth \<Rightarrow> cb_outcome \<times> cb_pool \<times> UpstreamHealth \<times> cb_call list" where
  "cb_loop [] p h = (Cb_exhausted, p, h, [])"
| "cb_loop (e # es) p0 h =
     (let p = ce_world e p0 in
      if ce_cancelled e then (Cb_cancelled, p, h, [])
      else case CB_Next p of
             (Inl _, p1) \<Rightarrow> (Cb_exhausted, p1, h, [])
           | (Inr a, p1) \<Rightarrow>
             (case cb_attempt e a p1 h of
                (Take r, p2, h2, cs) \<Rightarrow>
                  (Cb_deliver r a, p2, RecordRequest (ce_end e) (ce_latency e) None h2, cs)
              | (Reply_error st msg, p2, h2, cs) \<Rightarrow> (Cb_refused st msg, p2, h2, cs)
              | (Next_key, p2, h2, cs) \<Rightarrow>
                  (let (out, p3, h3, cs') = cb_loop es p2 h2 in (out, p3, h3, cs @ cs'))))"

definition ProxyCodeBuddy ::
  "gotime \<Rightarrow> json_map option \<Rightarrow> (nat \<Rightarrow> cb_env) \<Rightarrow> cb_pool \<Rightarrow> UpstreamHealth \<Rightarrow>
   cb_outcome \<times> cb_pool \<times> UpstreamHealth \<times> cb_call list" where
  "ProxyCodeBuddy now body envs p h =
     (case CanRequest now h of
        (False, h1) \<Rightarrow> (Cb_circuit_open, p, RecordRequest now 0 (Some ''circuit open'') h1, [])
      | (True, h1) \<Rightarrow>
        if body = None then (Cb_bad_body, p, h1, [])
        else cb_loop (map envs [0..<length (kp_keys p)]) p h1)"

text \<open>The status the client gets.\<close>

definition cb_reply_status :: "cb_outcome \<Rightarrow> int option" where
  "cb_reply_status out =
     (case out of
        Cb_circuit_open \<Rightarrow> Some 503
      | Cb_bad_body \<Rightarrow> Some 400
      | Cb_cancelled \<Rightarrow> None
      | Cb_exhausted \<Rightarrow> Some 503
      | Cb_refused st _ \<Rightarrow> Some st
      | Cb_deliver r _ \<Rightarrow> Some (hr_status r))"

section \<open>The event stream\<close>

text \<open>
  An event as \<open>json.Unmarshal\<close> decodes it: the error re-marshalled, the usage object, and of the
  first choice the content, the reasoning and the finish reason.
\<close>

record cb_chunk =
  cc_error :: "string option"
  cc_usage :: "json_map option"
  cc_choice :: "(string \<times> string \<times> string) option"

definition cb_credit :: "cb_chunk \<Rightarrow> rat option" where
  "cb_credit c =
     (case cc_usage c of
        None \<Rightarrow> None
      | Some u \<Rightarrow> (case num_field u ''credit'' of None \<Rightarrow> None | Some x \<Rightarrow> if x > 0 then Some x else None))"

definition event_data :: "string \<Rightarrow> string option" where
  "event_data line = (if has_prefix line ''data: '' then Some (trim_prefix line ''data: '') else None)"

text \<open>
  For a streaming client each line is passed on; on the way its errors take the key out of use,
  its credits are charged, and its text and token counts are collected. \<open>lines\<close> below are those
  scanned before the stream, the client or the connection ended.
\<close>

record cb_stream =
  st_pool :: cb_pool
  st_text :: string
  st_in :: int
  st_out :: int
  st_calls :: "cb_call list"

definition run_call :: "(cb_pool \<Rightarrow> cb_pool \<times> cb_call list) \<Rightarrow> cb_stream \<Rightarrow> cb_stream" where
  "run_call f s = (let (p, cs) = f (st_pool s) in s\<lparr>st_pool := p, st_calls := st_calls s @ cs\<rparr>)"

definition cb_stream_error :: "nat \<Rightarrow> cb_chunk \<Rightarrow> cb_stream \<Rightarrow> cb_stream" where
  "cb_stream_error a c s =
     (case cc_error c of
        None \<Rightarrow> s
      | Some err \<Rightarrow>
        if credits_exhausted err then run_call (permanentDisable a) s
        else if str_contains err ''14017'' then run_call (permanentDisable a) s
        else s)"

definition cb_stream_usage :: "nat \<Rightarrow> cb_chunk \<Rightarrow> cb_stream \<Rightarrow> cb_stream" where
  "cb_stream_usage a c s0 =
     (case cc_usage c of
        None \<Rightarrow> s0
      | Some u \<Rightarrow>
        (let s = (case cb_credit c of None \<Rightarrow> s0 | Some x \<Rightarrow> run_call (AddCredits x a) s0)
         in s\<lparr>st_in := (case num_field u ''prompt_tokens'' of None \<Rightarrow> st_in s | Some x \<Rightarrow> float_int x),
              st_out := (case num_field u ''completion_tokens'' of None \<Rightarrow> st_out s | Some x \<Rightarrow> float_int x)\<rparr>))"

definition cb_stream_line :: "(string \<Rightarrow> cb_chunk option) \<Rightarrow> nat \<Rightarrow> string \<Rightarrow> cb_stream \<Rightarrow> cb_stream" where
  "cb_stream_line parse a line s =
     (case event_data line of
        None \<Rightarrow> s
      | Some d \<Rightarrow>
        if d = ''[DONE]'' \<or> d = [] then s
        else case parse d of
               None \<Rightarrow> s
             | Some c \<Rightarrow>
               (let s' = cb_stream_usage a c (cb_stream_error a c s) in
                case cc_choice c of
                  None \<Rightarrow> s'
                | Some (content, _, _) \<Rightarrow> s'\<lparr>st_text := st_text s' @ content\<rparr>))"

definition cb_stream_body :: "(string \<Rightarrow> cb_chunk option) \<Rightarrow> nat \<Rightarrow> string list \<Rightarrow> cb_pool \<Rightarrow> cb_stream" where
  "cb_stream_body parse a lines p =
     fold (cb_stream_line parse a) lines
       \<lparr>st_pool = p, st_text = [], st_in = 0, st_out = 0, st_calls = []\<rparr>"

text \<open>For the other clients the stream is read up to \<open>[DONE]\<close> and turned into one reply.\<close>

record cb_collected =
  cl_content :: string
  cl_reasoning :: string
  cl_finish :: string
  cl_usage :: "json_map option"
  cl_credit :: rat

definition cb_collect_chunk :: "cb_chunk \<Rightarrow> cb_collected \<Rightarrow> cb_collected" where
  "cb_collect_chunk c s0 =
     (let s1 = (case cc_choice c of
                  None \<Rightarrow> s0
                | Some (content, reasoning, finish) \<Rightarrow>
                  s0\<lparr>cl_content := cl_content s0 @ content, cl_reasoning := cl_reasoning s0 @ reasoning,
                     cl_finish := (if finish \<noteq> [] then finish else cl_finish s0)\<rparr>)
      in case cc_usage c of
           None \<Rightarrow> s1
         | Some u \<Rightarrow>
           s1\<lparr>cl_usage := Some u, cl_credit := (case cb_credit c of None \<Rightarrow> cl_credit s1 | Some x \<Rightarrow> x)\<rparr>)"

fun cb_collect_lines :: "(string \<Rightarrow> cb_chunk option) \<Rightarrow> string list \<Rightarrow> cb_collected \<Rightarrow> cb_collected" where
  "cb_collect_lines parse [] s = s"
| "cb_collect_lines parse (line # lines) s =
     (case event_data line of
        None \<Rightarrow> cb_collect_lines parse lines s
      | Some d \<Rightarrow>
        if d = ''[DONE]'' then s
        else case parse d of
               None \<Rightarrow> cb_collect_lines parse lines s
             | Some c \<Rightarrow> cb_collect_lines parse lines (cb_collect_chunk c s))"

definition cbCollectStream ::
  "(string \<Rightarrow> cb_chunk option) \<Rightarrow> nat \<Rightarrow> string list \<Rightarrow> cb_pool \<Rightarrow> cb_collected \<times> cb_pool \<times> cb_call list" where
  "cbCollectStream parse a lines p =
     (let s = cb_collect_lines parse lines
                \<lparr>cl_content = [], cl_reasoning = [], cl_finish = [], cl_usage = None, cl_credit = 0\<rparr>;
          (p', cs) = (if cl_credit s > 0 then AddCredits (cl_credit s) a p else (p, []))
      in (s\<lparr>cl_finish := (if cl_finish s = [] then ''stop'' else cl_finish s)\<rparr>, p', cs))"

text \<open>
  One key in one request: the attempt and, if its answer is taken, the answer's stream, of which
  \<open>lines\<close> were read. A streaming client gets it line by line, any other one collected.
\<close>

definition cb_deliver ::
  "(string \<Rightarrow> cb_chunk option) \<Rightarrow> bool \<Rightarrow> string list \<Rightarrow> nat \<Rightarrow> cb_pool \<Rightarrow> cb_pool \<times> cb_call list" where
  "cb_deliver parse clientStream lines a p =
     (if clientStream then let s = cb_stream_body parse a lines p in (st_pool s, st_calls s)
      else snd (cbCollectStream parse a lines p))"

definition cb_use_key ::
  "(string \<Rightarrow> cb_chunk option) \<Rightarrow> bool \<Rightarrow> string list \<Rightarrow> cb_env \<Rightarrow> nat \<Rightarrow> cb_pool \<Rightarrow> UpstreamHealth \<Rightarrow>
   cb_pool \<times> UpstreamHealth \<times> cb_call list" where
  "cb_use_key parse clientStream lines e a p h =
     (case cb_attempt e a p h of
        (Take r, p1, h1, cs) \<Rightarrow>
          (let (p2, cs2) = cb_deliver parse clientStream lines a p1
           in (p2, RecordRequest (ce_end e) (ce_latency e) None h1, cs @ cs2))
      | (_, p1, h1, cs) \<Rightarrow> (p1, h1, cs))"

section \<open>Lemmas\<close>

text \<open>An operation that works on key \<open>a\<close> of the pool and on nothing else.\<close>

definition only_at :: "nat \<Rightarrow> cb_pool \<Rightarrow> cb_pool \<Rightarrow> bool" where
  "only_at a p q \<longleftrightarrow>
     kp_keys q = kp_keys p \<and> kp_next q = kp_next p \<and> length (kp_heap q) = length (kp_heap p) \<and>
     (\<forall>b. b \<noteq> a \<longrightarrow> key_at q b = key_at p b)"

lemma only_at_refl [simp, intro]: "only_at a p p"
  by (simp add: only_at_def)

lemma only_at_trans: "only_at a p q \<Longrightarrow> only_at a q r \<Longrightarrow> only_at a p r"
  by (simp add: only_at_def)

lemma only_at_put [simp, intro]: "only_at a p (put_key a k p)"
  by (simp add: only_at_def)

lemma only_at_disable [simp, intro]:
  "only_at a p (fst (permanentDisable a p))" "only_at a p (fst (cooldownDisable now a p))"
  by (simp_all add: permanentDisable_def cooldownDisable_def Let_def)

lemma only_at_Refresh: "only_at a p (fst (snd (CB_Refresh now reply a p)))"
  by (simp add: CB_Refresh_def CB_refreshLocked_def Let_def split: prod.split option.split)

lemma only_at_EnsureValid: "only_at a p (fst (snd (CB_EnsureValid now reply a p)))"
  by (simp add: CB_EnsureValid_def only_at_Refresh)

lemma only_at_classify: "only_at a p (fst (snd (cb_classify e a r p h)))"
  by (simp add: cb_classify_def disable_and_go_def Let_def)

lemma only_at_unauthorized: "only_at a p (fst (snd (cb_unauthorized e a p h)))"
proof -
  obtain err p1 cs where r: "CB_Refresh (ce_end e) (ce_token e) a p = (err, p1, cs)" by (metis prod_cases3)
  with only_at_Refresh [of a p "ce_end e" "ce_token e"] have p1: "only_at a p p1" by simp
  note only_at_trans [OF p1 only_at_disable(1)] only_at_trans [OF p1 only_at_classify]
  with p1 show ?thesis
    by (simp add: cb_unauthorized_def r disable_and_go_def Let_def split_beta split: option.split sum.split)
qed

lemma only_at_attempt:
  assumes "ce_flight e = id"
  shows "only_at a p (fst (snd (cb_attempt e a p h)))"
proof -
  obtain err p1 cs where r: "CB_EnsureValid (ce_now e) (ce_ensure e) a p = (err, p1, cs)" by (metis prod_cases3)
  with only_at_EnsureValid [of a p "ce_now e" "ce_ensure e"] have p1: "only_at a p p1" by simp
  note only_at_trans [OF p1 only_at_unauthorized] only_at_trans [OF p1 only_at_classify]
  with p1 assms show ?thesis by (simp add: cb_attempt_def r Let_def split_beta split: sum.split)
qed

lemma classify_takes:
  "fst (cb_classify e a r p h) = Take r' \<Longrightarrow> r' = r \<and> hr_status r < 400"
  "fst (cb_classify e a r p h) = Reply_error st msg \<Longrightarrow> st = 400"
  by (auto simp: cb_classify_def disable_and_go_def Let_def split: if_splits)

lemma unauthorized_takes:
  "fst (cb_unauthorized e a p h) = Take r' \<Longrightarrow> hr_status r' < 400"
  "fst (cb_unauthorized e a p h) = Reply_error st msg \<Longrightarrow> st = 400"
  by (auto simp: cb_unauthorized_def disable_and_go_def Let_def split_beta
      split: if_splits option.splits sum.splits prod.splits dest!: classify_takes)

lemma attempt_takes:
  "fst (cb_attempt e a p h) = Take r' \<Longrightarrow> hr_status r' < 400"
  "fst (cb_attempt e a p h) = Reply_error st msg \<Longrightarrow> st = 400"
  by (auto simp: cb_attempt_def Let_def split_beta split: if_splits sum.splits
      dest: unauthorized_takes classify_takes)

section \<open>Properties\<close>

text \<open>
  C18: The client sees no key trouble. Whatever the keys, the upstream, the token endpoint and the
  other goroutines do, the client gets an upstream status below 400, or one of the gateway's own
  400 and 503: never an upstream 401, 403, 429 or 5xx.
\<close>

theorem cb_client_statuses:
  "case cb_reply_status (fst (ProxyCodeBuddy now body envs p h)) of
     None \<Rightarrow> True | Some st \<Rightarrow> st < 400 \<or> st = 400 \<or> st = 503"
proof -
  have loop: "case fst (cb_loop es p h) of
      Cb_deliver r _ \<Rightarrow> hr_status r < 400 | Cb_refused st _ \<Rightarrow> st = 400 | _ \<Rightarrow> True" for es p h
  proof (induction es arbitrary: p h)
    case (Cons e es)
    show ?case
    proof (cases "CB_Next (ce_world e p)")
      case (Pair res p1)
      show ?thesis
      proof (cases res)
        case (Inr a)
        obtain v p2 h2 cs where at: "cb_attempt e a p1 h = (v, p2, h2, cs)" by (metis prod_cases4)
        from Cons.IH [of p2 h2] attempt_takes [of e a p1 h] Pair Inr at show ?thesis
          by (cases v) (auto simp: Let_def split_beta)
      qed (simp add: Pair Let_def)
    qed
  qed simp
  have "case fst (ProxyCodeBuddy now body envs p h) of
      Cb_deliver r _ \<Rightarrow> hr_status r < 400 | Cb_refused st _ \<Rightarrow> st = 400 | _ \<Rightarrow> True"
    using loop by (auto simp: ProxyCodeBuddy_def split: prod.split bool.split)
  then show ?thesis by (auto simp: cb_reply_status_def split: cb_outcome.splits)
qed

text \<open>
  Which answers take a key out of use for good: a refused API key; an OAuth account whose token
  cannot be refreshed, for whatever reason, or is refused again; and the error codes of a trial
  that is not activated, a ban or exhausted credits.
\<close>

definition fatal_answer :: "http_response \<Rightarrow> bool" where
  "fatal_answer r \<longleftrightarrow>
     (let st = hr_status r; body = take 4096 (hr_body r) in
      st = 429 \<and> str_contains body ''14017'' \<or>
      400 \<le> st \<and> st < 500 \<and> st \<noteq> 429 \<and>
        (st = 403 \<and> str_contains body ''11140'' \<or> str_contains body ''14018'' \<or> str_contains body ''Credits exhausted''))"

definition fatal_attempt :: "cb_env \<Rightarrow> cb_key \<Rightarrow> bool" where
  "fatal_attempt e k =
     (case ce_resp e of
        Inl _ \<Rightarrow> False
      | Inr r \<Rightarrow>
        if hr_status r \<noteq> 401 then fatal_answer r
        else if GetCredType k \<noteq> CBAuthOAuth then True
        else if fst (cb_refresh_key (ce_end e) (ce_token e) k) \<noteq> None then True
        else case ce_resp2 e of Inl _ \<Rightarrow> False | Inr r2 \<Rightarrow> hr_status r2 = 401 \<or> fatal_answer r2)"

lemma classify_bans:
  assumes "a < length (kp_heap p)" "\<not> cb_banned (key_at p a)" "ce_end e \<noteq> 0" "hr_status r \<noteq> 401"
  shows "cb_banned (key_at (fst (snd (cb_classify e a r p h))) a) \<longleftrightarrow> fatal_answer r"
  using assms
  by (auto simp: cb_classify_def disable_and_go_def Let_def permanentDisable_def cooldownDisable_def
      fatal_answer_def credits_exhausted_def cb_banned_def)

lemma Refresh_at:
  assumes "GetCredType (key_at p a) = CBAuthOAuth" "a < length (kp_heap p)"
  shows "fst (CB_Refresh now reply a p) = fst (cb_refresh_key now reply (key_at p a)) \<and>
    length (kp_heap (fst (snd (CB_Refresh now reply a p)))) = length (kp_heap p) \<and>
    cb_banned (key_at (fst (snd (CB_Refresh now reply a p))) a) = cb_banned (key_at p a)"
proof -
  obtain err k cs where r: "cb_refresh_key now reply (key_at p a) = (err, k, cs)" by (metis prod_cases3)
  from token_keeps [OF r] assms show ?thesis
    by (cases err) (simp_all add: CB_Refresh_def CB_refreshLocked_def r Let_def)
qed

lemma unauthorized_bans:
  assumes "a < length (kp_heap p)" "\<not> cb_banned (key_at p a)" "ce_end e \<noteq> 0"
    and "ce_resp e = Inr r" "hr_status r = 401"
  shows "cb_banned (key_at (fst (snd (cb_unauthorized e a p h))) a) \<longleftrightarrow> fatal_attempt e (key_at p a)"
proof (cases "GetCredType (key_at p a) = CBAuthOAuth")
  case False
  with assms show ?thesis
    by (simp add: cb_unauthorized_def fatal_attempt_def disable_and_go_def permanentDisable_def Let_def cb_banned_def)
next
  case True
  obtain err p1 cs where r: "CB_Refresh (ce_end e) (ce_token e) a p = (err, p1, cs)" by (metis prod_cases3)
  with Refresh_at [OF True assms(1), of "ce_end e" "ce_token e"] assms(1,2)
  have p1: "a < length (kp_heap p1)" "\<not> cb_banned (key_at p1 a)"
      and err: "fst (cb_refresh_key (ce_end e) (ce_token e) (key_at p a)) = err" by simp_all
  have ban: "cb_banned (key_at (fst (permanentDisable a p1)) a)"
    using p1 by (simp add: permanentDisable_def Let_def cb_banned_def)
  show ?thesis
    using classify_bans [OF p1 assms(3), of _ h] p1 ban assms(4,5) True
    by (auto simp: cb_unauthorized_def fatal_attempt_def err r disable_and_go_def Let_def split_beta
        split: option.split sum.split)
qed

text \<open>An attempt whose answer goes to the client: the answer, or the one after the token refresh, is below 400.\<close>

definition delivered :: "cb_env \<Rightarrow> cb_key \<Rightarrow> bool" where
  "delivered e k =
     (case ce_resp e of
        Inl _ \<Rightarrow> False
      | Inr r \<Rightarrow>
        if hr_status r \<noteq> 401 then hr_status r < 400
        else GetCredType k = CBAuthOAuth \<and> fst (cb_refresh_key (ce_end e) (ce_token e) k) = None \<and>
          (case ce_resp2 e of Inl _ \<Rightarrow> False | Inr r2 \<Rightarrow> hr_status r2 < 400))"

text \<open>An event of the stream that bans the key: an error with one of the three codes.\<close>

definition fatal_line :: "(string \<Rightarrow> cb_chunk option) \<Rightarrow> string \<Rightarrow> bool" where
  "fatal_line parse line =
     (case event_data line of
        None \<Rightarrow> False
      | Some d \<Rightarrow> d \<noteq> ''[DONE]'' \<and> d \<noteq> [] \<and>
          (case parse d of
             None \<Rightarrow> False
           | Some c \<Rightarrow>
             (case cc_error c of
                None \<Rightarrow> False
              | Some err \<Rightarrow> str_contains err ''14018'' \<or> str_contains err ''Credits exhausted'' \<or>
                  str_contains err ''14017'')))"

definition is_take :: "cb_verdict \<Rightarrow> bool" where
  "is_take v = (case v of Take r \<Rightarrow> True | _ \<Rightarrow> False)"

lemma classify_takes_iff: "is_take (fst (cb_classify e a r p h)) \<longleftrightarrow> hr_status r < 400"
  by (simp add: cb_classify_def disable_and_go_def is_take_def Let_def)

lemma unauthorized_takes_iff:
  assumes "a < length (kp_heap p)" "ce_resp e = Inr r" "hr_status r = 401"
  shows "is_take (fst (cb_unauthorized e a p h)) \<longleftrightarrow> delivered e (key_at p a)"
proof (cases "GetCredType (key_at p a) = CBAuthOAuth")
  case False
  with assms(2,3) show ?thesis by (simp add: cb_unauthorized_def delivered_def disable_and_go_def is_take_def)
next
  case True
  obtain err p1 cs where r: "CB_Refresh (ce_end e) (ce_token e) a p = (err, p1, cs)" by (metis prod_cases3)
  with Refresh_at [OF True assms(1), of "ce_end e" "ce_token e"]
  have err: "fst (cb_refresh_key (ce_end e) (ce_token e) (key_at p a)) = err" by simp
  have "is_take (fst (cb_classify e a r2 p1 h)) \<longleftrightarrow> hr_status r2 < 400" for r2
    by (rule classify_takes_iff)
  then show ?thesis
    using assms(2,3) True
    by (auto simp: cb_unauthorized_def delivered_def err r disable_and_go_def is_take_def Let_def split_beta
        split: option.split sum.split)
qed

lemma EnsureValid_at:
  assumes "a < length (kp_heap p)" "CB_EnsureValid now reply a p = (err, p1, cs)"
  shows "a < length (kp_heap p1)" "cb_banned (key_at p1 a) = cb_banned (key_at p a)"
  using assms Refresh_at [of p a now reply] by (auto simp: CB_EnsureValid_def split: if_splits)

lemma attempt_effect:
  assumes "ce_flight e = id" "ce_end e \<noteq> 0" "a < length (kp_heap p)" "\<not> cb_banned (key_at p a)"
  defines "k \<equiv> key_at (fst (snd (CB_EnsureValid (ce_now e) (ce_ensure e) a p))) a"
  shows "cb_banned (key_at (fst (snd (cb_attempt e a p h))) a) \<longleftrightarrow> fatal_attempt e k"
    and "is_take (fst (cb_attempt e a p h)) \<longleftrightarrow> delivered e k"
proof -
  obtain err p1 cs where r: "CB_EnsureValid (ce_now e) (ce_ensure e) a p = (err, p1, cs)" by (metis prod_cases3)
  from EnsureValid_at [OF assms(3) r] assms(4) have p1: "a < length (kp_heap p1)" "\<not> cb_banned (key_at p1 a)"
    by simp_all
  have k: "k = key_at p1 a" by (simp add: k_def r)
  show "cb_banned (key_at (fst (snd (cb_attempt e a p h))) a) \<longleftrightarrow> fatal_attempt e k"
  proof (cases "ce_resp e")
    case (Inl err)
    with p1 assms(1) show ?thesis by (simp add: cb_attempt_def r fatal_attempt_def)
  next
    case (Inr resp)
    with assms(1) classify_bans [OF p1 assms(2), of resp h] unauthorized_bans [OF p1 assms(2) Inr, of h]
    show ?thesis
      by (cases "hr_status resp = 401") (simp_all add: k cb_attempt_def r fatal_attempt_def Let_def split_beta)
  qed
  show "is_take (fst (cb_attempt e a p h)) \<longleftrightarrow> delivered e k"
  proof (cases "ce_resp e")
    case (Inl err)
    with assms(1) show ?thesis by (simp add: cb_attempt_def r delivered_def is_take_def)
  next
    case (Inr resp)
    with assms(1) unauthorized_takes_iff [OF p1(1) Inr, of h] classify_takes_iff [of e a resp p1 h] show ?thesis
      by (cases "hr_status resp = 401") (simp_all add: k cb_attempt_def r delivered_def Let_def split_beta)
  qed
qed

text \<open>
  What a stream charges the key with: a streaming client's every event with a positive credit,
  any other client's the last one before the end mark.
\<close>

definition line_credit :: "(string \<Rightarrow> cb_chunk option) \<Rightarrow> string \<Rightarrow> rat option" where
  "line_credit parse line =
     (case event_data line of
        None \<Rightarrow> None
      | Some d \<Rightarrow> if d = ''[DONE]'' \<or> d = [] then None else Option.bind (parse d) cb_credit)"

definition stream_credits :: "(string \<Rightarrow> cb_chunk option) \<Rightarrow> bool \<Rightarrow> string list \<Rightarrow> rat list" where
  "stream_credits parse clientStream lines =
     (if clientStream then List.map_filter (line_credit parse) lines
      else let c = cl_credit (cb_collect_lines parse lines
                 \<lparr>cl_content = [], cl_reasoning = [], cl_finish = [], cl_usage = None, cl_credit = 0\<rparr>)
           in if c > 0 then [c] else [])"

definition credit_limit :: "cb_key \<Rightarrow> rat" where
  "credit_limit k = (if ck_creditLimit k \<le> 0 then CB_CREDIT_LIMIT else ck_creditLimit k)"

definition uses_up :: "cb_key \<Rightarrow> rat list \<Rightarrow> bool" where
  "uses_up k xs \<longleftrightarrow> xs \<noteq> [] \<and> credit_limit k \<le> ck_creditsUsed k + sum_list xs"

lemma uses_up_simps:
  "\<not> uses_up k []" "uses_up k [x] \<longleftrightarrow> credit_limit k \<le> ck_creditsUsed k + x"
  by (simp_all add: uses_up_def)

lemma add_credits_effect:
  "cb_banned (add_credits c k) \<longleftrightarrow> cb_banned k \<or> uses_up k [c]"
  "ck_creditsUsed (add_credits c k) = ck_creditsUsed k + c" "ck_creditLimit (add_credits c k) = ck_creditLimit k"
  by (auto simp: add_credits_def cb_banned_def uses_up_def credit_limit_def Let_def)

definition same_credits :: "cb_key \<Rightarrow> cb_key \<Rightarrow> bool" where
  "same_credits k k' \<longleftrightarrow> ck_creditsUsed k' = ck_creditsUsed k \<and> ck_creditLimit k' = ck_creditLimit k"

lemma same_credits_uses_up: "same_credits k k' \<Longrightarrow> uses_up k' xs \<longleftrightarrow> uses_up k xs"
  by (simp add: same_credits_def uses_up_def credit_limit_def)

lemma disable_credits:
  "a < length (kp_heap p) \<Longrightarrow> same_credits (key_at p a) (key_at (fst (permanentDisable a p)) a)"
  "a < length (kp_heap p) \<Longrightarrow> same_credits (key_at p a) (key_at (fst (cooldownDisable now a p)) a)"
  by (simp_all add: permanentDisable_def cooldownDisable_def same_credits_def Let_def)

lemma Refresh_credits:
  assumes "a < length (kp_heap p)"
  shows "same_credits (key_at p a) (key_at (fst (snd (CB_Refresh now reply a p))) a)"
  using assms
  by (auto simp: CB_Refresh_def CB_refreshLocked_def cb_refresh_key_def cb_apply_token_def same_credits_def Let_def
      split: prod.split option.split cb_token_reply.split sum.split)

lemma EnsureValid_credits:
  "a < length (kp_heap p) \<Longrightarrow> same_credits (key_at p a) (key_at (fst (snd (CB_EnsureValid now reply a p))) a)"
  by (simp add: CB_EnsureValid_def Refresh_credits) (simp add: same_credits_def)

lemma classify_credits:
  "a < length (kp_heap p) \<Longrightarrow> same_credits (key_at p a) (key_at (fst (snd (cb_classify e a r p h))) a)"
  by (simp add: cb_classify_def disable_and_go_def Let_def disable_credits) (simp add: same_credits_def)

lemma same_credits_trans: "same_credits k k' \<Longrightarrow> same_credits k' k'' \<Longrightarrow> same_credits k k''"
  by (simp add: same_credits_def)

lemma unauthorized_credits:
  assumes "a < length (kp_heap p)"
  shows "same_credits (key_at p a) (key_at (fst (snd (cb_unauthorized e a p h))) a)"
proof -
  obtain err p1 cs where r: "CB_Refresh (ce_end e) (ce_token e) a p = (err, p1, cs)" by (metis prod_cases3)
  have p1: "same_credits (key_at p a) (key_at p1 a)" "a < length (kp_heap p1)"
    using Refresh_credits [OF assms, of "ce_end e" "ce_token e"] only_at_Refresh [of a p "ce_end e" "ce_token e"] assms
    by (simp_all add: r only_at_def)
  note same_credits_trans [OF p1(1) disable_credits(1) [OF p1(2)]] same_credits_trans [OF p1(1) classify_credits [OF p1(2)]]
  with p1(1) disable_credits(1) [OF assms] show ?thesis
    by (simp add: cb_unauthorized_def r disable_and_go_def Let_def split_beta split: option.split sum.split)
qed

lemma attempt_credits:
  assumes "ce_flight e = id" "a < length (kp_heap p)"
  shows "same_credits (key_at p a) (key_at (fst (snd (cb_attempt e a p h))) a)"
proof -
  obtain err p1 cs where r: "CB_EnsureValid (ce_now e) (ce_ensure e) a p = (err, p1, cs)" by (metis prod_cases3)
  have p1: "same_credits (key_at p a) (key_at p1 a)"
    using EnsureValid_credits [OF assms(2), of "ce_now e" "ce_ensure e"] by (simp add: r)
  have len: "a < length (kp_heap p1)" by (rule EnsureValid_at(1) [OF assms(2) r])
  note same_credits_trans [OF p1 unauthorized_credits [OF len]] same_credits_trans [OF p1 classify_credits [OF len]]
  with p1 assms(1) show ?thesis by (simp add: cb_attempt_def r Let_def split_beta split: sum.split)
qed

lemma stream_line_bans:
  assumes "a < length (kp_heap (st_pool s))"
  shows "a < length (kp_heap (st_pool (cb_stream_line parse a line s)))"
    and "cb_banned (key_at (st_pool (cb_stream_line parse a line s)) a) \<longleftrightarrow>
         cb_banned (key_at (st_pool s) a) \<or> fatal_line parse line \<or>
         (case line_credit parse line of None \<Rightarrow> False | Some x \<Rightarrow> uses_up (key_at (st_pool s) a) [x])"
    and "ck_creditsUsed (key_at (st_pool (cb_stream_line parse a line s)) a) =
         ck_creditsUsed (key_at (st_pool s) a) + (case line_credit parse line of None \<Rightarrow> 0 | Some x \<Rightarrow> x)"
    and "ck_creditLimit (key_at (st_pool (cb_stream_line parse a line s)) a) = ck_creditLimit (key_at (st_pool s) a)"
proof -
  define s1 where "s1 c = cb_stream_error a c s" for c
  have e1: "a < length (kp_heap (st_pool (s1 c)))"
    "same_credits (key_at (st_pool s) a) (key_at (st_pool (s1 c)) a)"
    "cb_banned (key_at (st_pool (s1 c)) a) \<longleftrightarrow> cb_banned (key_at (st_pool s) a) \<or>
      (case cc_error c of None \<Rightarrow> False | Some err \<Rightarrow> str_contains err ''14018'' \<or>
        str_contains err ''Credits exhausted'' \<or> str_contains err ''14017'')" for c
    using assms
    by (auto simp: s1_def cb_stream_error_def run_call_def credits_exhausted_def permanentDisable_def
        same_credits_def cb_banned_def Let_def split: option.split)
  define s2 where "s2 c = cb_stream_usage a c (s1 c)" for c
  have e2: "st_pool (s2 c) = (case cb_credit c of None \<Rightarrow> st_pool (s1 c) | Some x \<Rightarrow> fst (AddCredits x a (st_pool (s1 c))))" for c
    by (simp add: s2_def cb_stream_usage_def run_call_def split_beta cb_credit_def Let_def split: option.split)
  have up: "uses_up (key_at (st_pool (s1 c)) a) [x] \<longleftrightarrow> uses_up (key_at (st_pool s) a) [x]" for c x
    by (rule same_credits_uses_up [OF e1(2)])
  have s': "st_pool (cb_stream_line parse a line s) = (case event_data line of
      None \<Rightarrow> st_pool s
    | Some d \<Rightarrow> if d = ''[DONE]'' \<or> d = [] then st_pool s
        else case parse d of None \<Rightarrow> st_pool s | Some c \<Rightarrow> st_pool (s2 c))"
    by (simp add: cb_stream_line_def s1_def s2_def Let_def split: option.split)
  show "a < length (kp_heap (st_pool (cb_stream_line parse a line s)))"
    using assms e1(1) by (simp add: s' e2 AddCredits_def Let_def split: option.split)
  show "cb_banned (key_at (st_pool (cb_stream_line parse a line s)) a) \<longleftrightarrow>
         cb_banned (key_at (st_pool s) a) \<or> fatal_line parse line \<or>
         (case line_credit parse line of None \<Rightarrow> False | Some x \<Rightarrow> uses_up (key_at (st_pool s) a) [x])"
    using assms e1(1,3) up
    by (auto simp: s' e2 AddCredits_def add_credits_effect line_credit_def fatal_line_def Let_def split: option.split)
  show "ck_creditsUsed (key_at (st_pool (cb_stream_line parse a line s)) a) =
         ck_creditsUsed (key_at (st_pool s) a) + (case line_credit parse line of None \<Rightarrow> 0 | Some x \<Rightarrow> x)"
    "ck_creditLimit (key_at (st_pool (cb_stream_line parse a line s)) a) = ck_creditLimit (key_at (st_pool s) a)"
    using assms e1(1,2)
    by (auto simp: s' e2 AddCredits_def add_credits_effect line_credit_def same_credits_def Let_def split: option.split)
qed

lemma line_credit_pos: "line_credit parse line = Some x \<Longrightarrow> 0 < x"
  by (auto simp: line_credit_def cb_credit_def bind_eq_Some_conv split: option.splits if_splits)

lemma credits_nonneg: "0 \<le> sum_list (List.map_filter (line_credit parse) lines)"
proof (induction lines)
  case (Cons line lines)
  then show ?case
    using line_credit_pos [of parse line] by (force simp: map_filter_simps split: option.split)
qed (simp add: map_filter_simps)

lemma stream_lines_ban:
  "a < length (kp_heap (st_pool s)) \<Longrightarrow>
   cb_banned (key_at (st_pool (fold (cb_stream_line parse a) lines s)) a) \<longleftrightarrow>
     cb_banned (key_at (st_pool s) a) \<or> list_ex (fatal_line parse) lines \<or>
     uses_up (key_at (st_pool s) a) (List.map_filter (line_credit parse) lines)"
proof (induction lines arbitrary: s)
  case Nil
  then show ?case by (simp add: map_filter_simps uses_up_simps)
next
  case (Cons line lines)
  let ?s = "cb_stream_line parse a line s" and ?xs = "List.map_filter (line_credit parse) lines"
  note step = stream_line_bans [OF Cons.prems, of parse line]
  have "uses_up (key_at (st_pool ?s) a) ?xs \<or>
        (case line_credit parse line of None \<Rightarrow> False | Some x \<Rightarrow> uses_up (key_at (st_pool s) a) [x]) \<longleftrightarrow>
        uses_up (key_at (st_pool s) a) (List.map_filter (line_credit parse) (line # lines))"
    using credits_nonneg [of parse lines]
    by (auto simp: uses_up_def credit_limit_def step(3,4) map_filter_simps split: option.split)
  with Cons.IH [OF step(1)] step(2) show ?case by auto
qed

lemma deliver_bans:
  assumes "a < length (kp_heap p)"
  shows "cb_banned (key_at (fst (cb_deliver parse clientStream lines a p)) a) \<longleftrightarrow>
         cb_banned (key_at p a) \<or> clientStream \<and> list_ex (fatal_line parse) lines \<or>
         uses_up (key_at p a) (stream_credits parse clientStream lines)"
proof (cases clientStream)
  case True
  with assms show ?thesis
    by (simp add: cb_deliver_def cb_stream_body_def stream_lines_ban stream_credits_def Let_def)
next
  case False
  with assms show ?thesis
    by (simp add: cb_deliver_def cbCollectStream_def AddCredits_def add_credits_effect stream_credits_def
        uses_up_simps Let_def)
qed

text \<open>
  C19: When a key is lost. Used for a request without other requests on the pool meanwhile, a key
  that is not disabled for good becomes so exactly on one of the answers above (judged on the
  key as the refresh of an expiring token left it), or when its answer goes to the client and
  the credits it charges reach the key's limit or, if it is streamed, one of its events is one of
  the errors above (reading the same stream for a client that does not stream pays no attention
  to them). In particular an OAuth account is lost when its access token is refused and the
  token endpoint cannot be reached just then, which says nothing about the account.
\<close>

theorem cb_attempt_bans:
  assumes "ce_flight e = id" "ce_end e \<noteq> 0" "a < length (kp_heap p)" "\<not> cb_banned (key_at p a)"
  shows "let k = key_at (fst (snd (CB_EnsureValid (ce_now e) (ce_ensure e) a p))) a
         in cb_banned (key_at (fst (cb_use_key parse clientStream lines e a p h)) a) \<longleftrightarrow>
            fatal_attempt e k \<or>
            delivered e k \<and> (clientStream \<and> list_ex (fatal_line parse) lines \<or>
              uses_up (key_at p a) (stream_credits parse clientStream lines))"
proof -
  obtain v p1 h1 cs where at: "cb_attempt e a p h = (v, p1, h1, cs)" by (metis prod_cases4)
  have "a < length (kp_heap p1)"
    using only_at_attempt [OF assms(1), of a p h] assms(3) by (simp add: at only_at_def)
  moreover have "uses_up (key_at p1 a) xs \<longleftrightarrow> uses_up (key_at p a) xs" for xs
    using attempt_credits [OF assms(1,3), of h] by (simp add: at same_credits_uses_up)
  ultimately show ?thesis
    using deliver_bans [of a p1 parse clientStream lines] attempt_effect [OF assms, of h]
    by (cases v) (auto simp: cb_use_key_def at is_take_def Let_def split_beta)
qed

text \<open>An attempt with the given answers, in which nobody else does anything.\<close>

definition quiet_env :: "do_result \<Rightarrow> cb_token_reply \<Rightarrow> do_result \<Rightarrow> cb_env" where
  "quiet_env resp token resp2 =
     \<lparr>ce_cancelled = False, ce_world = id, ce_now = 5, ce_ensure = Cb_token_error ''refused'', ce_resp = resp,
      ce_flight = id, ce_token = token, ce_resp2 = resp2, ce_end = 7, ce_latency = 2\<rparr>"

definition answer :: "int \<Rightarrow> string \<Rightarrow> do_result" where
  "answer status body = Inr \<lparr>hr_status = status, hr_sse = True, hr_body = body\<rparr>"

theorem cb_attempt_bans_witness:
  "cb_banned (key_at (fst (cb_use_key (\<lambda>d. None) False []
     (quiet_env (answer 401 []) (Cb_token_error ''timeout'') (Inl [])) 2 demo_cb (NewUpstreamHealth ''codebuddy''))) 2) \<and>
   cb_banned (key_at (fst (cb_use_key
     (\<lambda>d. Some \<lparr>cc_error = Some d, cc_usage = None, cc_choice = None\<rparr>) True [''data: {}'', ''data: 14018'']
     (quiet_env (answer 200 []) (Cb_token_error []) (Inl [])) 2 demo_cb (NewUpstreamHealth ''codebuddy''))) 2)"
proof -
  let ?e = "quiet_env (answer 401 []) (Cb_token_error ''timeout'') (Inl [])"
  let ?f = "quiet_env (answer 200 []) (Cb_token_error []) (Inl [])"
  let ?parse = "\<lambda>d. Some \<lparr>cc_error = Some d, cc_usage = None, cc_choice = None\<rparr>"
  have k: "key_at demo_cb 2 = oauth_key ''x@y'' ''at'' ''rt'' (10 ^ 20)" by (simp add: demo_cb_key)
  have valid: "\<not> CB_IsExpired 5 (key_at demo_cb 2)"
    unfolding k by (simp add: oauth_key_def fresh_key_def CB_IsExpired_def REFRESH_BUFFER_def minute_def second_def)
  then have same: "key_at (fst (snd (CB_EnsureValid 5 reply 2 demo_cb))) 2 = key_at demo_cb 2" for reply
    by (simp add: CB_EnsureValid_def)
  have fatal: "fatal_attempt ?e (key_at demo_cb 2)"
    unfolding k by (simp add: fatal_attempt_def quiet_env_def answer_def oauth_key_def fresh_key_def GetCredType_def
        CBAuthOAuth_def cb_refresh_key_def)
  have good: "delivered ?f (key_at demo_cb 2)" by (simp add: delivered_def quiet_env_def answer_def)
  have bad: "list_ex (fatal_line ?parse) [''data: {}'', ''data: 14018'']" by code_simp
  have heap: "2 < length (kp_heap demo_cb)" by (simp add: demo_cb_def)
  have free: "\<not> cb_banned (key_at demo_cb 2)" unfolding k by (simp add: cb_banned_def oauth_key_def fresh_key_def)
  have env: "ce_flight (quiet_env x y z) = id" "ce_end (quiet_env x y z) \<noteq> 0" "ce_now (quiet_env x y z) = 5" for x y z
    by (simp_all add: quiet_env_def)
  show ?thesis
    using cb_attempt_bans [OF env(1,2) heap free, of "answer 401 []" "Cb_token_error ''timeout''" "Inl []" "\<lambda>d. None" False "[]"]
      cb_attempt_bans [OF env(1,2) heap free, of "answer 200 []" "Cb_token_error []" "Inl []" ?parse True "[''data: {}'', ''data: 14018'']"]
      fatal good bad by (simp only: env(3) same Let_def) blast
qed

text \<open>The keys a request tries, in order.\<close>

fun cb_tried :: "cb_env list \<Rightarrow> cb_pool \<Rightarrow> UpstreamHealth \<Rightarrow> nat list" where
  "cb_tried [] p h = []"
| "cb_tried (e # es) p h =
     (if ce_cancelled e then []
      else case CB_Next (ce_world e p) of
             (Inl _, p1) \<Rightarrow> []
           | (Inr a, p1) \<Rightarrow>
             (case cb_attempt e a p1 h of
                (Next_key, p2, h2, cs) \<Rightarrow> a # cb_tried es p2 h2
              | _ \<Rightarrow> [a]))"

definition undisturbed :: "cb_env \<Rightarrow> bool" where
  "undisturbed e \<longleftrightarrow> \<not> ce_cancelled e \<and> ce_world e = id \<and> ce_flight e = id"

lemma next_candidates:
  assumes "distinct (kp_keys p)" "enabled_from_cursor p = x # xs" "only_at x (snd (CB_Next p)) q"
  shows "enabled_from_cursor q = xs @ (if ck_disabled (key_at q x) then [] else [x])"
proof -
  let ?q0 = "snd (CB_Next p)"
  have q0: "enabled_from_cursor ?q0 = xs @ [x]" using CB_Next_some [OF assms(2)] by simp
  have "distinct (enabled_from_cursor p)" using assms(1) by (simp add: enabled_from_cursor_def)
  then have x: "x \<notin> set xs" by (simp add: assms(2))
  have same: "ck_disabled (key_at q b) = ck_disabled (key_at ?q0 b)" if "b \<noteq> x" for b
    using assms(3) that by (simp add: only_at_def)
  have x0: "\<not> ck_disabled (key_at ?q0 x)" using arg_cong [OF q0, of set] by (auto simp: enabled_from_cursor_def)
  have "enabled_from_cursor q = filter (\<lambda>b. b \<noteq> x \<or> \<not> ck_disabled (key_at q x)) (enabled_from_cursor ?q0)"
    using assms(3) same x0 by (auto simp: enabled_from_cursor_def only_at_def intro!: filter_cong)
  also have "\<dots> = xs @ (if ck_disabled (key_at q x) then [] else [x])"
    using x unfolding q0 by (auto simp: filter_id_conv)
  finally show ?thesis .
qed

lemma exhausted_tries:
  assumes "list_all undisturbed es" "distinct (kp_keys p)" "fst (cb_loop es p h) = Cb_exhausted"
  shows "set (take (length es) (enabled_from_cursor p)) \<subseteq> set (cb_tried es p h)"
  using assms
proof (induction es arbitrary: p h)
  case (Cons e es)
  show ?case
  proof (cases "enabled_from_cursor p")
    case (Cons x xs)
    define p1 where "p1 = snd (CB_Next p)"
    have n: "CB_Next p = (Inr x, p1)" using CB_Next_some [OF Cons] by (metis p1_def prod.collapse)
    obtain v p2 h2 cs where at: "cb_attempt e x p1 h = (v, p2, h2, cs)" by (metis prod_cases4)
    have calm: "\<not> ce_cancelled e" "ce_world e = id" "ce_flight e = id"
      using Cons.prems(1) by (simp_all add: undisturbed_def)
    have v: "v = Next_key" "fst (cb_loop es p2 h2) = Cb_exhausted"
      using Cons.prems(3) calm n at by (auto simp: Let_def split_beta split: cb_verdict.splits)
    have "only_at x p1 p2" using only_at_attempt [OF calm(3), of x p1 h] at by simp
    then have cand: "enabled_from_cursor p2 = xs @ (if ck_disabled (key_at p2 x) then [] else [x])"
      using next_candidates [OF Cons.prems(2) Cons] by (simp add: p1_def)
    have "distinct (kp_keys p2)"
      using \<open>only_at x p1 p2\<close> Cons.prems(2) by (simp add: only_at_def p1_def CB_Next_frame)
    from Cons.IH [OF _ this v(2)] Cons.prems(1)
    have "set (take (length es) (enabled_from_cursor p2)) \<subseteq> set (cb_tried es p2 h2)" by simp
    moreover have "set (take (length es) xs) \<subseteq> set (take (length es) (enabled_from_cursor p2))"
      by (simp add: cand)
    moreover have "cb_tried (e # es) p h = x # cb_tried es p2 h2" using calm n at v by simp
    ultimately show ?thesis using Cons by auto
  qed simp
qed simp

text \<open>
  C20: No key is left out. When a request that nobody disturbs ends with the 503 for want of keys,
  it has tried every key that was enabled when it began.
\<close>

theorem cb_exhausted_tried_all:
  assumes "\<forall>i. undisturbed (envs i)" "distinct (kp_keys p)" "body \<noteq> None" "CanRequest now h = (True, h1)"
    and "fst (ProxyCodeBuddy now body envs p h) = Cb_exhausted"
    and "a \<in> set (kp_keys p)" "\<not> ck_disabled (key_at p a)"
  shows "a \<in> set (cb_tried (map envs [0..<length (kp_keys p)]) p h1)"
proof -
  let ?es = "map envs [0..<length (kp_keys p)]"
  have "fst (cb_loop ?es p h1) = Cb_exhausted" using assms(3-5) by (auto simp: ProxyCodeBuddy_def)
  moreover have "list_all undisturbed ?es" using assms(1) by (simp add: list_all_iff)
  ultimately have "set (take (length ?es) (enabled_from_cursor p)) \<subseteq> set (cb_tried ?es p h1)"
    using exhausted_tries assms(2) by blast
  moreover have "length (enabled_from_cursor p) \<le> length ?es"
    using length_filter_le [of _ "rotate (kp_next p) (kp_keys p)"] by (simp add: enabled_from_cursor_def)
  ultimately have "set (enabled_from_cursor p) \<subseteq> set (cb_tried ?es p h1)" by simp
  with assms(6,7) show ?thesis by (auto simp: enabled_from_cursor_def)
qed

theorem cb_exhausted_tried_all_witness:
  "2 \<in> set (cb_tried (map (\<lambda>_. quiet_env (answer 429 ''slow down'') (Cb_token_error []) (Inl [])) [0..<3])
      demo_cb (snd (CanRequest 5 (NewUpstreamHealth ''codebuddy''))))"
proof -
  let ?envs = "\<lambda>_ :: nat. quiet_env (answer 429 ''slow down'') (Cb_token_error []) (Inl [])"
  let ?h = "NewUpstreamHealth ''codebuddy''"
  have "CanRequest 5 ?h = (True, snd (CanRequest 5 ?h))" by (simp add: CanRequest_def NewUpstreamHealth_def)
  moreover have "\<forall>i. undisturbed (?envs i)" by (simp add: undisturbed_def quiet_env_def)
  moreover have "distinct (kp_keys demo_cb)" "2 \<in> set (kp_keys demo_cb)" by (simp_all add: demo_cb_def)
  moreover have "\<not> ck_disabled (key_at demo_cb 2)" by (simp add: demo_cb_key oauth_key_def fresh_key_def)
  moreover have "(Some Map.empty :: json_map option) \<noteq> None" by simp
  moreover have "fst (ProxyCodeBuddy 5 (Some Map.empty) ?envs demo_cb ?h) = Cb_exhausted" by code_simp
  ultimately have "2 \<in> set (cb_tried (map ?envs [0..<length (kp_keys demo_cb)]) demo_cb (snd (CanRequest 5 ?h)))"
    using cb_exhausted_tried_all [of ?envs demo_cb "Some Map.empty" 5 ?h "snd (CanRequest 5 ?h)" 2] by blast
  moreover have "length (kp_keys demo_cb) = 3" by (simp add: demo_cb_def)
  ultimately show ?thesis by (simp only:)
qed

text \<open>The events of a stream, and the credits they report.\<close>

definition line_event :: "(string \<Rightarrow> cb_chunk option) \<Rightarrow> string \<Rightarrow> cb_chunk option" where
  "line_event parse line = (case event_data line of None \<Rightarrow> None | Some d \<Rightarrow> if d = [] then None else parse d)"

definition reported_credits :: "(string \<Rightarrow> cb_chunk option) \<Rightarrow> string list \<Rightarrow> rat list" where
  "reported_credits parse lines = List.map_filter cb_credit (List.map_filter (line_event parse) lines)"

definition charge :: "cb_key \<Rightarrow> rat \<times> int" where
  "charge k = (ck_creditsUsed k, ck_totalReqs k)"

lemma charge_add: "charge (add_credits c k) = (fst (charge k) + c, wrap64 (snd (charge k) + 1))"
  by (auto simp: charge_def add_credits_def Let_def)

lemma wrap64_step: "wrap64 (wrap64 x + y) = wrap64 (x + y)"
proof -
  have "((x + h) mod m - h + y + h) mod m = (x + y + h) mod m" for h m :: int
    using mod_add_left_eq [of "x + h" m y] by (simp add: ac_simps)
  then show ?thesis by (simp only: wrap64_def)
qed

lemma stream_line_frame:
  fixes parse :: "string \<Rightarrow> cb_chunk option"
  assumes "event_data line \<noteq> Some ''[DONE]''" "a < length (kp_heap (st_pool s))"
  defines "s' \<equiv> cb_stream_line parse a line s"
  shows "length (kp_heap (st_pool s')) = length (kp_heap (st_pool s)) \<and>
    st_text s' = st_text s @ (case line_event parse line of
        Some c \<Rightarrow> (case cc_choice c of Some (t, _, _) \<Rightarrow> t | None \<Rightarrow> []) | None \<Rightarrow> []) \<and>
    charge (key_at (st_pool s') a) =
      (case line_event parse line of
         Some c \<Rightarrow> (case cb_credit c of
             Some x \<Rightarrow> (fst (charge (key_at (st_pool s) a)) + x, wrap64 (snd (charge (key_at (st_pool s) a)) + 1))
           | None \<Rightarrow> charge (key_at (st_pool s) a))
       | None \<Rightarrow> charge (key_at (st_pool s) a))"
proof (cases "line_event parse line")
  case None
  then have "s' = s"
    using assms(1) by (auto simp: s'_def cb_stream_line_def line_event_def split: option.splits if_splits)
  with None show ?thesis by simp
next
  case (Some c)
  then obtain d where d: "event_data line = Some d" "d \<noteq> []" "parse d = Some c"
    by (auto simp: line_event_def split: option.splits if_splits)
  define s1 where "s1 = cb_stream_error a c s"
  have s1: "length (kp_heap (st_pool s1)) = length (kp_heap (st_pool s))" "st_text s1 = st_text s"
      "charge (key_at (st_pool s1) a) = charge (key_at (st_pool s) a)"
    using assms(2)
    by (auto simp: s1_def cb_stream_error_def run_call_def permanentDisable_def Let_def charge_def split: option.split)
  define s2 where "s2 = cb_stream_usage a c s1"
  have s2: "length (kp_heap (st_pool s2)) = length (kp_heap (st_pool s1))" "st_text s2 = st_text s1"
    by (auto simp: s2_def cb_stream_usage_def run_call_def AddCredits_def Let_def split: option.split)
  have ch: "charge (key_at (st_pool s2) a) =
      (case cb_credit c of
         Some x \<Rightarrow> (fst (charge (key_at (st_pool s1) a)) + x, wrap64 (snd (charge (key_at (st_pool s1) a)) + 1))
       | None \<Rightarrow> charge (key_at (st_pool s1) a))"
  proof (cases "cc_usage c")
    case None
    then have "cb_credit c = None" by (simp add: cb_credit_def)
    with None show ?thesis by (simp add: s2_def cb_stream_usage_def)
  next
    case (Some u)
    then show ?thesis
      using assms(2) s1(1)
      by (cases "cb_credit c") (simp_all add: s2_def cb_stream_usage_def run_call_def AddCredits_def Let_def charge_add)
  qed
  have "s' = (case cc_choice c of None \<Rightarrow> s2 | Some (t, _, _) \<Rightarrow> s2\<lparr>st_text := st_text s2 @ t\<rparr>)"
    using d assms(1) unfolding s2_def s1_def s'_def cb_stream_line_def by (auto simp: Let_def)
  with s1 s2 ch Some show ?thesis by (auto split: option.split)
qed

lemma collect_line:
  "event_data line \<noteq> Some ''[DONE]'' \<Longrightarrow> parse [] = None \<Longrightarrow>
   cb_collect_lines parse (line # lines) s =
     cb_collect_lines parse lines (case line_event parse line of None \<Rightarrow> s | Some c \<Rightarrow> cb_collect_chunk c s)"
  by (auto simp: line_event_def split: option.split)

lemma collect_chunk_view:
  "cl_content (cb_collect_chunk c s) = cl_content s @ (case cc_choice c of Some (t, _, _) \<Rightarrow> t | None \<Rightarrow> [])"
  "cl_credit (cb_collect_chunk c s) = (case cb_credit c of Some x \<Rightarrow> x | None \<Rightarrow> cl_credit s)"
  by (auto simp: cb_collect_chunk_def Let_def cb_credit_def split: option.splits)

lemma reported_credits_simps [simp]:
  "reported_credits parse [] = []"
  "reported_credits parse (line # lines) =
     (case line_event parse line of
        None \<Rightarrow> reported_credits parse lines
      | Some c \<Rightarrow> (case cb_credit c of None \<Rightarrow> reported_credits parse lines | Some x \<Rightarrow> x # reported_credits parse lines))"
  by (simp_all add: reported_credits_def map_filter_simps split: option.split)

lemma stream_and_collect:
  assumes "\<forall>line \<in> set lines. event_data line \<noteq> Some ''[DONE]''" "parse [] = None"
    and "a < length (kp_heap (st_pool s))" "st_text s = cl_content l"
  defines "s' \<equiv> fold (cb_stream_line parse a) lines s" and "l' \<equiv> cb_collect_lines parse lines l"
    and "cs \<equiv> reported_credits parse lines"
  shows "a < length (kp_heap (st_pool s')) \<and> st_text s' = cl_content l' \<and>
    cl_credit l' = (if cs = [] then cl_credit l else last cs) \<and>
    charge (key_at (st_pool s') a) =
      (fst (charge (key_at (st_pool s) a)) + sum_list cs,
       if cs = [] then snd (charge (key_at (st_pool s) a))
       else wrap64 (snd (charge (key_at (st_pool s) a)) + int (length cs)))"
  using assms(1,3,4) unfolding s'_def l'_def cs_def
proof (induction lines arbitrary: s l)
  case (Cons line lines)
  let ?s1 = "cb_stream_line parse a line s"
  let ?l1 = "case line_event parse line of None \<Rightarrow> l | Some c \<Rightarrow> cb_collect_chunk c l"
  have nd: "event_data line \<noteq> Some ''[DONE]''" using Cons.prems(1) by simp
  note fr = stream_line_frame [OF nd Cons.prems(2), of parse]
  have a1: "a < length (kp_heap (st_pool ?s1))" using fr Cons.prems(2) by simp
  have t1: "st_text ?s1 = cl_content ?l1" using fr Cons.prems(3) by (auto simp: collect_chunk_view split: option.split)
  from Cons.IH [OF _ a1 t1] Cons.prems(1)
  have IH: "a < length (kp_heap (st_pool (fold (cb_stream_line parse a) lines ?s1)))"
    "st_text (fold (cb_stream_line parse a) lines ?s1) = cl_content (cb_collect_lines parse lines ?l1)"
    "cl_credit (cb_collect_lines parse lines ?l1) =
       (if reported_credits parse lines = [] then cl_credit ?l1 else last (reported_credits parse lines))"
    "charge (key_at (st_pool (fold (cb_stream_line parse a) lines ?s1)) a) =
       (fst (charge (key_at (st_pool ?s1) a)) + sum_list (reported_credits parse lines),
        if reported_credits parse lines = [] then snd (charge (key_at (st_pool ?s1) a))
        else wrap64 (snd (charge (key_at (st_pool ?s1) a)) + int (length (reported_credits parse lines))))"
    by simp_all
  note col = collect_line [where parse = parse and s = l and lines = lines, OF nd assms(2)]
  show ?case
  proof (cases "line_event parse line")
    case None
    with IH fr show ?thesis unfolding col by simp
  next
    case (Some c)
    with IH fr show ?thesis
      unfolding col by (cases "cb_credit c") (simp_all add: collect_chunk_view wrap64_step add.assoc)
  qed
qed simp

text \<open>
  What a reply costs depends on how it is delivered. Streaming and collecting the same events
  yield the same text. But a streaming request charges its key every credit report and counts each
  as a request, whereas the collected one charges the last report only and counts one request (and
  none at all without a report). The two agree exactly when there is at most one report.
\<close>

theorem cb_stream_charges:
  assumes "\<forall>line \<in> set lines. event_data line \<noteq> Some ''[DONE]''" "parse [] = None" "a < length (kp_heap p)"
  shows "let cs = reported_credits parse lines;
             s = cb_stream_body parse a lines p;
             (l, q, calls) = cbCollectStream parse a lines p;
             (used, reqs) = charge (key_at p a)
         in st_text s = cl_content l \<and>
            charge (key_at (st_pool s) a) = (used + sum_list cs, if cs = [] then reqs else wrap64 (reqs + int (length cs))) \<and>
            charge (key_at q a) = (if cs = [] then (used, reqs) else (used + last cs, wrap64 (reqs + 1)))"
proof -
  let ?init = "\<lparr>st_pool = p, st_text = [], st_in = 0, st_out = 0, st_calls = []\<rparr>"
  let ?start = "\<lparr>cl_content = [], cl_reasoning = [], cl_finish = [], cl_usage = None, cl_credit = 0\<rparr>"
  let ?cs = "reported_credits parse lines" and ?l = "cb_collect_lines parse lines ?start"
  have pos: "\<forall>x \<in> set ?cs. 0 < x"
    by (auto simp: reported_credits_def List.map_filter_def cb_credit_def split: option.splits if_splits)
  have "a < length (kp_heap (st_pool ?init))" "st_text ?init = cl_content ?start" using assms(3) by simp_all
  note sc = stream_and_collect [where s = ?init and l = ?start and parse = parse, OF assms(1,2) this]
  have credit: "cl_credit ?l = (if ?cs = [] then 0 else last ?cs)" using sc by simp
  have "charge (key_at (fst (snd (cbCollectStream parse a lines p))) a) =
      (if ?cs = [] then charge (key_at p a)
       else (fst (charge (key_at p a)) + last ?cs, wrap64 (snd (charge (key_at p a)) + 1)))"
    using pos assms(3)
    by (auto simp: cbCollectStream_def Let_def split_beta credit AddCredits_def charge_add)
  moreover have "cl_content (fst (cbCollectStream parse a lines p)) = cl_content ?l"
    by (simp add: cbCollectStream_def Let_def split_beta)
  ultimately show ?thesis using sc by (simp add: cb_stream_body_def split_beta Let_def)
qed

definition demo_parse :: "string \<Rightarrow> cb_chunk option" where
  "demo_parse d =
     (if d = [] then None
      else Some \<lparr>cc_error = None, cc_usage = Some [''credit'' \<mapsto> J_num (of_nat (length d))],
                 cc_choice = Some (d, [], [])\<rparr>)"

theorem cb_stream_charges_witness:
  "let s = cb_stream_body demo_parse 0 [''data: ab'', ''data: c''] demo_cb;
       (l, q, calls) = cbCollectStream demo_parse 0 [''data: ab'', ''data: c''] demo_cb
   in charge (key_at (st_pool s) 0) = (3, 2) \<and> charge (key_at q 0) = (1, 1)"
proof -
  let ?ls = "[''data: ab'', ''data: c'']"
  have "\<forall>line \<in> set ?ls. event_data line \<noteq> Some ''[DONE]''" by code_simp
  moreover have "demo_parse [] = None" by (simp add: demo_parse_def)
  moreover have "0 < length (kp_heap demo_cb)" by (simp add: demo_cb_def)
  ultimately have "let cs = reported_credits demo_parse ?ls;
             s = cb_stream_body demo_parse 0 ?ls demo_cb;
             (l, q, calls) = cbCollectStream demo_parse 0 ?ls demo_cb;
             (used, reqs) = charge (key_at demo_cb 0)
         in st_text s = cl_content l \<and>
            charge (key_at (st_pool s) 0) = (used + sum_list cs, if cs = [] then reqs else wrap64 (reqs + int (length cs))) \<and>
            charge (key_at q 0) = (if cs = [] then (used, reqs) else (used + last cs, wrap64 (reqs + 1)))"
    by (rule cb_stream_charges)
  moreover have "reported_credits demo_parse ?ls = [2, 1]" by code_simp
  moreover have "charge (key_at demo_cb 0) = (0, 0)" by (simp add: demo_cb_key charge_def fresh_key_def)
  ultimately show ?thesis by (simp add: Let_def split_beta wrap64_def)
qed

text \<open>
  What CodeBuddy is sent. The body streams, begins with a system message and has no
  \<open>max_tokens\<close>; the limit the client gave is kept under the other name unless that was given too,
  and every field but those four and the model is untouched.
\<close>

theorem cb_body_shape:
  "let m' = cbTransform m in
   m' ''stream'' = Some (J_bool True) \<and> m' ''max_tokens'' = None \<and>
   (case m' ''messages'' of Some (J_arr (msg # _)) \<Rightarrow> is_system msg | _ \<Rightarrow> False) \<and>
   m' ''max_completion_tokens'' =
     (if m ''max_completion_tokens'' \<noteq> None then m ''max_completion_tokens'' else m ''max_tokens'') \<and>
   (if f \<in> {''stream'', ''max_tokens'', ''max_completion_tokens'', ''messages'', ''model''} then True
    else m' f = m f)"
proof -
  define m1 where "m1 = m(''stream'' \<mapsto> J_bool True)"
  define m2 where "m2 = (case m1 ''model'' of
      Some (J_str model) \<Rightarrow> m1(''model'' \<mapsto> J_str (stripCBPrefix model)) | _ \<Rightarrow> m1)"
  define m3 where "m3 = (case m2 ''max_tokens'' of None \<Rightarrow> m2
      | Some mt \<Rightarrow> (if m2 ''max_completion_tokens'' = None then m2(''max_completion_tokens'' \<mapsto> mt) else m2)
          (''max_tokens'' := None))"
  have m2: "m2 g = (if g = ''stream'' then Some (J_bool True) else m g)" if "g \<noteq> ''model''" for g
    using that by (auto simp: m2_def m1_def split: option.splits json.splits)
  have m3: "m3 ''max_tokens'' = None" "m3 ''max_completion_tokens'' =
        (if m ''max_completion_tokens'' \<noteq> None then m ''max_completion_tokens'' else m ''max_tokens'')"
      "m3 ''stream'' = Some (J_bool True)"
    by (auto simp: m3_def m2 split: option.splits)
  have other: "m3 g = m g" if "g \<notin> {''stream'', ''max_tokens'', ''max_completion_tokens'', ''model''}" for g
    using that by (auto simp: m3_def m2 split: option.splits)
  have sys: "is_system system_message" by (simp add: is_system_def system_message_def as_obj_def)
  have tr: "cbTransform m = (case m3 ''messages'' of
         Some (J_arr (msg # msgs)) \<Rightarrow>
           (if is_system msg then m3 else m3(''messages'' \<mapsto> J_arr (system_message # msg # msgs)))
       | _ \<Rightarrow> m3(''messages'' \<mapsto> J_arr [system_message, J_obj [(''role'', J_str ''user''), (''content'', J_str ''Hello'')]]))"
    by (simp only: cbTransform_def Let_def m1_def m2_def m3_def)
  have "(\<exists>v. cbTransform m = m3(''messages'' \<mapsto> v)) \<or> cbTransform m = m3"
    unfolding tr by (auto split: option.split json.split list.split)
  then have keep: "g \<noteq> ''messages'' \<Longrightarrow> cbTransform m g = m3 g" for g by auto
  have "case cbTransform m ''messages'' of Some (J_arr (msg # _)) \<Rightarrow> is_system msg | _ \<Rightarrow> False"
    unfolding tr by (auto simp: sys split: option.split json.split list.split)
  with m3 keep other show ?thesis by (simp add: Let_def)
qed

end
