(* ===== verification/CFPool.thy ===== *)
theory CFPool
  imports CredPool Db
begin

text \<open>
  The pool of Cloudflare accounts, the first half of \<open>internal/upstream/cloudflare.go\<close>, with its
  Redis records. Quotas are exact rationals; a date is what \<open>Format("2006-01-02")\<close> makes of a time
  in UTC.
\<close>

section \<open>UTC dates\<close>

text \<open>
  The Gregorian date of a time: cycles of 400, 100, 4 and 1 years since the year 1, then the
  months of the year.
\<close>

fun find_month :: "int list \<Rightarrow> int \<Rightarrow> int \<Rightarrow> int \<times> int" where
  "find_month [] m d = (m, d)"
| "find_month (l # ls) m d = (if d < l then (m, d) else find_month ls (m + 1) (d - l))"

definition leap_year :: "int \<Rightarrow> bool" where
  "leap_year y \<longleftrightarrow> y mod 4 = 0 \<and> (y mod 100 \<noteq> 0 \<or> y mod 400 = 0)"

definition civil_date :: "int \<Rightarrow> int \<times> int \<times> int" where
  "civil_date days =
     (let n400 = days div 146097; r400 = days mod 146097;
          n100 = min 3 (r400 div 36524); r100 = r400 - n100 * 36524;
          n4 = r100 div 1461; r4 = r100 mod 1461;
          n1 = min 3 (r4 div 365); yday = r4 - n1 * 365;
          year = 400 * n400 + 100 * n100 + 4 * n4 + n1 + 1;
          (m, d) = find_month [31, if leap_year year then 29 else 28, 31, 30, 31, 30, 31, 31, 30, 31, 30] 1 yday
      in (year, m, d + 1))"

definition pad_int :: "nat \<Rightarrow> int \<Rightarrow> string" where
  "pad_int w n = (let s = show_int n in replicate (w - length s) (CHR ''0'') @ s)"

definition utc_date :: "gotime \<Rightarrow> string" where
  "utc_date t =
     (let (y, m, d) = civil_date (t div (24 * hour))
      in pad_int 4 y @ ''-'' @ pad_int 2 m @ ''-'' @ pad_int 2 d)"

lemma civil_date_examples:
  "civil_date (from_unix 0 div (24 * hour)) = (1970, 1, 1)"
  "civil_date (from_unix 1709251199 div (24 * hour)) = (2024, 2, 29)"
  "civil_date (from_unix 1709251200 div (24 * hour)) = (2024, 3, 1)"
  "civil_date (from_unix 978307199 div (24 * hour)) = (2000, 12, 31)"
  by code_simp+

section \<open>Accounts\<close>

record cf_key =
  fk_AccountID :: string
  fk_Token :: string
  fk_disabled :: bool
  fk_disabledAt :: gotime
  fk_quotaLimit :: rat
  fk_quotaUsed :: rat
  fk_quotaDate :: string
  fk_totalReqs :: int

definition fresh_cf :: "string \<Rightarrow> string \<Rightarrow> cf_key" where
  "fresh_cf accountID token =
     \<lparr>fk_AccountID = accountID, fk_Token = token, fk_disabled = False, fk_disabledAt = 0,
      fk_quotaLimit = 0, fk_quotaUsed = 0, fk_quotaDate = [], fk_totalReqs = 0\<rparr>"

definition QuotaRemaining :: "cf_key \<Rightarrow> rat" where
  "QuotaRemaining k =
     (if fk_quotaLimit k \<le> 0 then 0
      else let rem = fk_quotaLimit k - fk_quotaUsed k in if rem < 0 then 0 else rem)"

definition maskCFToken :: "string \<Rightarrow> string" where
  "maskCFToken tok = (if length tok > 12 then take 8 tok @ ''...'' @ drop (length tok - 4) tok else tok)"

definition CF_AuthHeader :: "cf_key \<Rightarrow> string" where
  "CF_AuthHeader k = ''Bearer '' @ fk_Token k"

record cf_snapshot =
  fs_AccountID :: string
  fs_Token :: string
  fs_QuotaUsed :: rat
  fs_QuotaLimit :: rat
  fs_QuotaRemain :: rat
  fs_TotalReqs :: int
  fs_Disabled :: bool
  fs_DisabledAt :: gotime

definition CF_Snapshot :: "cf_key \<Rightarrow> cf_snapshot" where
  "CF_Snapshot k =
     (let rem = fk_quotaLimit k - fk_quotaUsed k in
      \<lparr>fs_AccountID = fk_AccountID k, fs_Token = maskCFToken (fk_Token k), fs_QuotaUsed = fk_quotaUsed k,
       fs_QuotaLimit = fk_quotaLimit k, fs_QuotaRemain = (if rem < 0 then 0 else rem),
       fs_TotalReqs = fk_totalReqs k, fs_Disabled = fk_disabled k, fs_DisabledAt = fk_disabledAt k\<rparr>)"

section \<open>Redis records\<close>

record cf_key_dto =
  fd_AccountID :: string
  fd_Token :: string
  fd_QuotaUsed :: rat
  fd_QuotaLimit :: rat
  fd_QuotaDate :: string
  fd_TotalReqs :: int
  fd_Disabled :: bool
  fd_DisabledAt :: gotime

definition CF_toDTO :: "cf_key \<Rightarrow> cf_key_dto" where
  "CF_toDTO k =
     \<lparr>fd_AccountID = fk_AccountID k, fd_Token = fk_Token k, fd_QuotaUsed = fk_quotaUsed k,
      fd_QuotaLimit = fk_quotaLimit k, fd_QuotaDate = fk_quotaDate k, fd_TotalReqs = fk_totalReqs k,
      fd_Disabled = fk_disabled k, fd_DisabledAt = fk_disabledAt k\<rparr>"

definition SaveCFKey :: "(rat \<Rightarrow> string) \<Rightarrow> gotime \<Rightarrow> cf_key_dto \<Rightarrow> (string \<times> redis_value) list" where
  "SaveCFKey encf now d =
     [(''account_id'', RStr (fd_AccountID d)), (''token'', RStr (fd_Token d)),
      (''quota_used'', RStr (encf (fd_QuotaUsed d))), (''quota_limit'', RStr (encf (fd_QuotaLimit d))),
      (''quota_date'', RStr (fd_QuotaDate d)), (''total_requests'', RInt (fd_TotalReqs d)),
      (''disabled'', RBool (fd_Disabled d)), (''disabled_at'', RInt (unix_seconds (fd_DisabledAt d))),
      (''updated_at'', RInt (unix_seconds now))]"

definition load_cf_key :: "string \<Rightarrow> (string \<Rightarrow> string option) \<Rightarrow> cf_key option" where
  "load_cf_key accountID h =
     (if hash_field h ''token'' = [] then None
      else
        let dis = (hash_field h ''disabled'' = ''true'' \<or> hash_field h ''disabled'' = ''1'') in
        Some \<lparr>fk_AccountID = accountID, fk_Token = hash_field h ''token'', fk_disabled = dis,
              fk_disabledAt = (if dis then time_field h ''disabled_at'' else 0),
              fk_quotaLimit = (case parse_float (hash_field h ''quota_limit'') of None \<Rightarrow> 0 | Some f \<Rightarrow> f),
              fk_quotaUsed = (case parse_float (hash_field h ''quota_used'') of None \<Rightarrow> 0 | Some f \<Rightarrow> f),
              fk_quotaDate = hash_field h ''quota_date'',
              fk_totalReqs = atollSafe (hash_field h ''total_requests'')\<rparr>)"

section \<open>The manager\<close>

type_synonym cf_pool = "cf_key cred_pool"

datatype cf_call = Save_cf cf_key_dto | Delete_cf string | Cf_proxy bool int

definition NewCFKeyManager :: "bool \<Rightarrow> cf_pool" where
  "NewCFKeyManager db = empty_pool db"

definition save_cf :: "cf_pool \<Rightarrow> nat \<Rightarrow> cf_call list" where
  "save_cf p a = (if kp_db p then [Save_cf (CF_toDTO (key_at p a))] else [])"

definition record_usage :: "string \<Rightarrow> rat \<Rightarrow> cf_key \<Rightarrow> cf_key" where
  "record_usage today amount k0 =
     (let k = (if fk_quotaDate k0 \<noteq> today then k0\<lparr>fk_quotaUsed := 0, fk_quotaDate := today\<rparr> else k0)
      in k\<lparr>fk_quotaUsed := fk_quotaUsed k + amount, fk_totalReqs := wrap64 (fk_totalReqs k + 1)\<rparr>)"

definition recordUsage :: "gotime \<Rightarrow> rat \<Rightarrow> nat \<Rightarrow> cf_pool \<Rightarrow> cf_pool \<times> cf_call list" where
  "recordUsage now amount a p =
     (let p' = put_key a (record_usage (utc_date now) amount (key_at p a)) p in (p', save_cf p' a))"

text \<open>
  Loading, or seeding from the environment or a file when Redis is empty: a line is
  \<open>account:token\<close>, or a token whose first bytes name the account.
\<close>

definition cf_bootstrap_text :: "(string \<Rightarrow> string) \<Rightarrow> (string \<Rightarrow> string option) \<Rightarrow> string" where
  "cf_bootstrap_text getenv readfile =
     (let raw = getenv ''CF_API_TOKENS'' in
      if raw \<noteq> [] then raw
      else
        let v = getenv ''CF_TOKEN_FILE'' in
        case readfile (if v \<noteq> [] then v else ''./cf-tokens.txt'') of
          None \<Rightarrow> []
        | Some d \<Rightarrow> trim_space d)"

definition derived_id :: "string \<Rightarrow> string" where
  "derived_id token = ''acct-'' @ take (min 8 (length token)) token"

definition seed_line :: "string \<Rightarrow> (string \<times> string) option" where
  "seed_line raw =
     (let line = trim_space raw in
      if line = [] then None
      else
        let (accountID, token) = (case split_at_char [CHR '':''] line of
               (l, Some r) \<Rightarrow> (trim_space l, trim_space r)
             | (l, None) \<Rightarrow> (derived_id (trim_space l), trim_space l))
        in if token = [] then None else Some (accountID, token))"

definition seed_cf :: "string \<Rightarrow> cf_pool \<times> cf_call list \<Rightarrow> cf_pool \<times> cf_call list" where
  "seed_cf raw = (\<lambda>(p, cs).
     case seed_line raw of
       None \<Rightarrow> (p, cs)
     | Some (accountID, token) \<Rightarrow>
       (let p' = new_key (fresh_cf accountID token) p in (p', cs @ save_cf p' (length (kp_heap p)))))"

definition all_lines :: "string \<Rightarrow> string list" where
  "all_lines s = (let (ls, r) = split_lines s in ls @ [r])"

definition CF_LoadFromRedis ::
  "(string \<Rightarrow> string) \<Rightarrow> (string \<Rightarrow> string option) \<Rightarrow> string + (string \<times> (string \<Rightarrow> string option)) list \<Rightarrow>
   cf_pool \<Rightarrow> string option \<times> cf_pool \<times> cf_call list" where
  "CF_LoadFromRedis getenv readfile redis p =
     (if \<not> kp_db p then (Some ''redis not available'', p, [])
      else case redis of
             Inl err \<Rightarrow> (Some err, p, [])
           | Inr rows \<Rightarrow>
             if rows \<noteq> []
             then (None, fold (\<lambda>(i, h) q. case load_cf_key i h of None \<Rightarrow> q | Some k \<Rightarrow> new_key k q) rows p, [])
             else
               let raw = cf_bootstrap_text getenv readfile in
               if raw = [] then (None, p, [])
               else (None, fold seed_cf (all_lines raw) (p, [])))"

text \<open>
  \<open>Next\<close> looks at every enabled key from the cursor on, resets its estimate on a new day, and
  keeps the first with the most quota left; a key without a limit counts as having \<open>1e9\<close> left.
\<close>

definition cf_today :: "string \<Rightarrow> cf_key \<Rightarrow> cf_key" where
  "cf_today today k = (if fk_quotaDate k \<noteq> today then k\<lparr>fk_quotaDate := today, fk_quotaUsed := 0\<rparr> else k)"

definition quota_left :: "cf_key \<Rightarrow> rat" where
  "quota_left k = (if fk_quotaLimit k \<le> 0 then 10 ^ 9 else fk_quotaLimit k - fk_quotaUsed k)"

definition cf_visit :: "string \<Rightarrow> nat \<Rightarrow> cf_pool \<times> nat option \<times> rat \<Rightarrow> cf_pool \<times> nat option \<times> rat" where
  "cf_visit today a = (\<lambda>(p, best, bestRemain).
     if fk_disabled (key_at p a) then (p, best, bestRemain)
     else
       let k = cf_today today (key_at p a); p' = put_key a k p; rem = quota_left k in
       if rem \<le> 0 then (p', best, bestRemain)
       else if rem > bestRemain then (p', Some a, rem)
       else (p', best, bestRemain))"

definition CF_Next :: "gotime \<Rightarrow> cf_pool \<Rightarrow> (string + nat) \<times> cf_pool" where
  "CF_Next now p =
     (let n = length (kp_keys p) in
      if n = 0 then (Inl ''no cf keys'', p)
      else
        case fold (cf_visit (utc_date now)) (map (\<lambda>i. kp_keys p ! ((kp_next p + i) mod n)) [0..<n]) (p, None, -1) of
          (p', Some a, _) \<Rightarrow> (Inr a, p'\<lparr>kp_next := (kp_next p' + 1) mod n\<rparr>)
        | (p', None, _) \<Rightarrow> (Inl ''all cf keys disabled or daily-exhausted'', p'))"

definition CF_AddKey :: "string \<Rightarrow> string \<Rightarrow> cf_pool \<Rightarrow> (bool \<times> nat) \<times> cf_pool \<times> cf_call list" where
  "CF_AddKey accountID0 token0 p =
     (let token = trim_space token0;
          accountID = (if trim_space accountID0 = [] then derived_id token else trim_space accountID0)
      in if token = [] then ((False, length (kp_keys p)), p, [])
         else if \<exists>a \<in> set (kp_keys p). fk_AccountID (key_at p a) = accountID
         then ((False, length (kp_keys p)), p, [])
         else
           let p' = new_key (fresh_cf accountID token) p
           in ((True, length (kp_keys p')), p', save_cf p' (length (kp_heap p))))"

definition AddKeyRaw :: "string \<Rightarrow> cf_pool \<Rightarrow> (bool \<times> nat) \<times> cf_pool \<times> cf_call list" where
  "AddKeyRaw raw0 p =
     (let raw = trim_space raw0 in
      if raw = [] then ((False, length (kp_keys p)), p, [])
      else case split_at_char [CHR '':''] raw of
             (l, Some r) \<Rightarrow> CF_AddKey (trim_space l) (trim_space r) p
           | (l, None) \<Rightarrow> CF_AddKey [] raw p)"

definition cf_matches :: "string \<Rightarrow> cf_key \<Rightarrow> bool" where
  "cf_matches q k \<longleftrightarrow>
     fk_AccountID k = q \<or> fk_Token k = q \<or>
     length (fk_Token k) > 12 \<and> take 8 (fk_Token k) @ ''...'' @ drop (length (fk_Token k) - 4) (fk_Token k) = q"

definition CF_ResolveKey :: "string \<Rightarrow> cf_pool \<Rightarrow> string" where
  "CF_ResolveKey q p =
     (case find (\<lambda>a. cf_matches q (key_at p a)) (kp_keys p) of
        None \<Rightarrow> [] | Some a \<Rightarrow> fk_AccountID (key_at p a))"

definition CF_DeleteKey :: "string \<Rightarrow> cf_pool \<Rightarrow> bool \<times> cf_pool \<times> cf_call list" where
  "CF_DeleteKey accountID p =
     (case find_idx (\<lambda>a. fk_AccountID (key_at p a) = accountID) (kp_keys p) of
        Some i \<Rightarrow> (True, drop_key i p, if kp_db p then [Delete_cf accountID] else [])
      | None \<Rightarrow> (False, p, []))"

definition CF_COOLDOWN_DURATION :: duration where "CF_COOLDOWN_DURATION = 10 * minute"

definition cf_cooled :: "gotime \<Rightarrow> cf_key \<Rightarrow> bool" where
  "cf_cooled now k \<longleftrightarrow>
     fk_disabled k \<and> fk_disabledAt k \<noteq> 0 \<and> time_sub now (fk_disabledAt k) > CF_COOLDOWN_DURATION"

definition cf_reenable :: "gotime \<Rightarrow> cf_key \<Rightarrow> cf_key" where
  "cf_reenable now k =
     cf_today (utc_date now) (if cf_cooled now k then k\<lparr>fk_disabled := False\<rparr> else k)"

definition CF_ReenableCooldowns :: "gotime \<Rightarrow> cf_pool \<Rightarrow> cf_pool \<times> cf_call list" where
  "CF_ReenableCooldowns now p =
     (let p' = fold (\<lambda>a q. put_key a (cf_reenable now (key_at q a)) q) (kp_keys p) p;
          changed = filter (\<lambda>a. cf_cooled now (key_at p a) \<or> fk_quotaDate (key_at p a) \<noteq> utc_date now) (kp_keys p)
      in (p', concat (map (save_cf p') changed)))"

definition cf_banned :: "cf_key \<Rightarrow> bool" where
  "cf_banned k \<longleftrightarrow> fk_disabled k \<and> fk_disabledAt k = 0"

definition CF_CleanupDisabled :: "cf_pool \<Rightarrow> nat \<times> cf_pool \<times> cf_call list" where
  "CF_CleanupDisabled p =
     (let gone = filter (\<lambda>a. cf_banned (key_at p a)) (kp_keys p)
      in (length gone, p\<lparr>kp_keys := filter (\<lambda>a. \<not> cf_banned (key_at p a)) (kp_keys p)\<rparr>,
          if kp_db p then map (\<lambda>a. Delete_cf (fk_AccountID (key_at p a))) gone else []))"

definition permanentDisableCF :: "nat \<Rightarrow> cf_pool \<Rightarrow> cf_pool \<times> cf_call list" where
  "permanentDisableCF a p =
     (let p' = put_key a ((key_at p a)\<lparr>fk_disabled := True, fk_disabledAt := 0\<rparr>) p in (p', save_cf p' a))"

definition cooldownDisableCF :: "gotime \<Rightarrow> nat \<Rightarrow> cf_pool \<Rightarrow> cf_pool \<times> cf_call list" where
  "cooldownDisableCF now a p =
     (let p' = put_key a ((key_at p a)\<lparr>fk_disabled := True, fk_disabledAt := now\<rparr>) p in (p', save_cf p' a))"

section \<open>What Next serves\<close>

text \<open>A key that could serve on a day, and the quota it has left then.\<close>

definition usable :: "string \<Rightarrow> cf_pool \<Rightarrow> nat \<Rightarrow> bool" where
  "usable today p a \<longleftrightarrow> \<not> fk_disabled (key_at p a) \<and> 0 < quota_left (cf_today today (key_at p a))"

definition left_at :: "string \<Rightarrow> cf_pool \<Rightarrow> nat \<Rightarrow> rat" where
  "left_at today p a = quota_left (cf_today today (key_at p a))"

definition keep_more :: "(nat \<Rightarrow> bool) \<Rightarrow> (nat \<Rightarrow> rat) \<Rightarrow> nat \<Rightarrow> nat option \<times> rat \<Rightarrow> nat option \<times> rat" where
  "keep_more ok left a = (\<lambda>(best, r). if ok a \<and> left a > r then (Some a, left a) else (best, r))"

lemma keep_more_fold:
  "case fold (keep_more ok left) as (best, r) of (best', r') \<Rightarrow>
     (\<exists>xs a ys. as = xs @ a # ys \<and> ok a \<and> best' = Some a \<and> r' = left a \<and> r < left a \<and>
        (\<forall>x \<in> set xs. ok x \<longrightarrow> left x < left a) \<and> (\<forall>y \<in> set ys. ok y \<longrightarrow> left y \<le> left a)) \<or>
     best' = best \<and> r' = r \<and> (\<forall>a \<in> set as. ok a \<longrightarrow> left a \<le> r)"
proof (induction as arbitrary: best r)
  case (Cons a as)
  show ?case
  proof (cases "ok a \<and> left a > r")
    case True
    obtain best' r' where res: "fold (keep_more ok left) as (Some a, left a) = (best', r')" by fastforce
    from Cons.IH [where best = "Some a" and r = "left a"]
    consider xs b ys where "as = xs @ b # ys" "ok b" "best' = Some b" "r' = left b" "left a < left b"
        "\<forall>x \<in> set xs. ok x \<longrightarrow> left x < left b" "\<forall>y \<in> set ys. ok y \<longrightarrow> left y \<le> left b"
      | "best' = Some a" "r' = left a" "\<forall>b \<in> set as. ok b \<longrightarrow> left b \<le> left a"
      unfolding res by auto
    then have "\<exists>xs b ys. a # as = xs @ b # ys \<and> ok b \<and> best' = Some b \<and> r' = left b \<and> r < left b \<and>
        (\<forall>x \<in> set xs. ok x \<longrightarrow> left x < left b) \<and> (\<forall>y \<in> set ys. ok y \<longrightarrow> left y \<le> left b)"
    proof cases
      case 1
      then show ?thesis using True by (intro exI [of _ "a # xs"] exI [of _ b] exI [of _ ys]) auto
    next
      case 2
      then show ?thesis using True by (intro exI [of _ "[]"] exI [of _ a] exI [of _ as]) auto
    qed
    moreover have "keep_more ok left a (best, r) = (Some a, left a)" using True by (simp add: keep_more_def)
    ultimately show ?thesis using res by simp
  next
    case False
    then have step: "keep_more ok left a (best, r) = (best, r)" by (auto simp: keep_more_def)
    obtain best' r' where res: "fold (keep_more ok left) as (best, r) = (best', r')" by fastforce
    from Cons.IH [where best = best and r = r]
    consider xs b ys where "as = xs @ b # ys" "ok b" "best' = Some b" "r' = left b" "r < left b"
        "\<forall>x \<in> set xs. ok x \<longrightarrow> left x < left b" "\<forall>y \<in> set ys. ok y \<longrightarrow> left y \<le> left b"
      | "best' = best" "r' = r" "\<forall>b \<in> set as. ok b \<longrightarrow> left b \<le> r"
      unfolding res by auto
    then show ?thesis
    proof cases
      case 1
      then have "\<exists>xs b ys. a # as = xs @ b # ys \<and> ok b \<and> best' = Some b \<and> r' = left b \<and> r < left b \<and>
          (\<forall>x \<in> set xs. ok x \<longrightarrow> left x < left b) \<and> (\<forall>y \<in> set ys. ok y \<longrightarrow> left y \<le> left b)"
        using False by (intro exI [of _ "a # xs"] exI [of _ b] exI [of _ ys]) auto
      with res step show ?thesis by auto
    next
      case 2
      with res step False show ?thesis by auto
    qed
  qed
qed simp

lemma cf_today_idem [simp]: "cf_today today (cf_today today k) = cf_today today k"
  by (simp add: cf_today_def)

lemma cf_today_frame [simp]:
  "fk_disabled (cf_today today k) = fk_disabled k" "fk_disabledAt (cf_today today k) = fk_disabledAt k"
  "fk_quotaLimit (cf_today today k) = fk_quotaLimit k"
  by (simp_all add: cf_today_def)

definition reset_enabled :: "string \<Rightarrow> cf_key \<Rightarrow> cf_key" where
  "reset_enabled today k = (if fk_disabled k then k else cf_today today k)"

lemma reset_enabled_frame [simp]:
  "fk_disabled (reset_enabled today k) = fk_disabled k" "fk_disabledAt (reset_enabled today k) = fk_disabledAt k"
  "fk_quotaLimit (reset_enabled today k) = fk_quotaLimit k"
  by (simp_all add: reset_enabled_def)

lemma visit_fold:
  assumes "\<forall>a \<in> set as. a < length (kp_heap p)"
  shows "fold (cf_visit today) as (p, b, r) =
    (fold (\<lambda>a q. if fk_disabled (key_at q a) then q else put_key a (cf_today today (key_at q a)) q) as p,
     fold (keep_more (usable today p) (left_at today p)) as (b, r))"
  using assms
proof (induction as arbitrary: p b r)
  case (Cons a as)
  define q where "q = (if fk_disabled (key_at p a) then p else put_key a (cf_today today (key_at p a)) p)"
  have a: "a < length (kp_heap p)" using Cons.prems by simp
  have same: "usable today q = usable today p" "left_at today q = left_at today p"
  proof -
    have "fk_disabled (key_at q b) = fk_disabled (key_at p b) \<and> cf_today today (key_at q b) = cf_today today (key_at p b)" for b
      using a by (cases "b = a") (simp_all add: q_def)
    then show "usable today q = usable today p" "left_at today q = left_at today p"
      by (simp_all add: fun_eq_iff usable_def left_at_def)
  qed
  have "cf_visit today a (p, b, r) = (q, keep_more (usable today p) (left_at today p) a (b, r))"
    by (auto simp: cf_visit_def keep_more_def usable_def left_at_def q_def Let_def)
  moreover have "\<forall>a \<in> set as. a < length (kp_heap q)" using Cons.prems by (simp add: q_def)
  ultimately show ?case
    using Cons.IH [of q] same
    by (cases "keep_more (usable today p) (left_at today p) a (b, r)") (simp add: q_def)
qed simp

definition reset_pool :: "string \<Rightarrow> cf_pool \<Rightarrow> cf_pool" where
  "reset_pool today p =
     fold (\<lambda>a q. put_key a (reset_enabled today (key_at q a)) q) (rotate (kp_next p) (kp_keys p)) p"

lemma put_same [simp]: "put_key a (key_at p a) p = p"
  by (simp add: put_key_def key_at_def)

lemma reset_pool_at:
  assumes "refs_ok p"
  shows "key_at (reset_pool today p) a =
      (if a \<in> set (kp_keys p) then reset_enabled today (key_at p a) else key_at p a)"
    "kp_keys (reset_pool today p) = kp_keys p" "kp_db (reset_pool today p) = kp_db p"
    "length (kp_heap (reset_pool today p)) = length (kp_heap p)"
  using fold_put_key [of "reset_enabled today" "rotate (kp_next p) (kp_keys p)" p a] assms
  by (simp_all add: reset_pool_def refs_ok_def) (simp_all add: reset_enabled_def)

text \<open>The key that \<open>Next\<close> serves, and the pool it leaves.\<close>

definition most_left :: "string \<Rightarrow> cf_pool \<Rightarrow> nat option" where
  "most_left today p =
     fst (fold (keep_more (usable today p) (left_at today p)) (rotate (kp_next p) (kp_keys p)) (None, -1))"

lemma CF_Next_eq:
  assumes "refs_ok p" "kp_keys p \<noteq> []"
  shows "CF_Next now p =
    (let q = reset_pool (utc_date now) p in
     case most_left (utc_date now) p of
       Some a \<Rightarrow> (Inr a, q\<lparr>kp_next := (kp_next q + 1) mod length (kp_keys p)\<rparr>)
     | None \<Rightarrow> (Inl ''all cf keys disabled or daily-exhausted'', q))"
proof -
  have "(\<lambda>a q. if fk_disabled (key_at q a) then q else put_key a (cf_today (utc_date now) (key_at q a)) q) =
      (\<lambda>a q. put_key a (reset_enabled (utc_date now) (key_at q a)) q)"
    by (simp add: fun_eq_iff reset_enabled_def)
  moreover have "\<forall>a \<in> set (rotate (kp_next p) (kp_keys p)). a < length (kp_heap p)"
    using assms(1) by (simp add: refs_ok_def)
  ultimately show ?thesis
    using assms(2)
    by (auto simp: CF_Next_def Let_def rotate_scan visit_fold most_left_def reset_pool_def
        split: prod.splits option.splits)
qed

lemma most_left_None: "most_left today p = None \<longleftrightarrow> (\<forall>a \<in> set (kp_keys p). \<not> usable today p a)"
proof -
  let ?L = "rotate (kp_next p) (kp_keys p)"
  have pos: "usable today p a \<Longrightarrow> \<not> left_at today p a \<le> - 1" for a
    by (simp add: usable_def left_at_def)
  have "most_left today p = None \<longleftrightarrow> (\<forall>a \<in> set ?L. \<not> usable today p a)"
    using keep_more_fold [where ok = "usable today p" and left = "left_at today p" and as = ?L and best = None and r = "- 1"] pos
    by (auto simp: most_left_def simp del: set_rotate split: prod.splits)
  then show ?thesis by simp
qed

lemma most_left_Some:
  assumes "most_left today p = Some a"
  shows "\<exists>xs ys. rotate (kp_next p) (kp_keys p) = xs @ a # ys \<and> usable today p a \<and>
    (\<forall>x \<in> set xs. usable today p x \<longrightarrow> left_at today p x < left_at today p a) \<and>
    (\<forall>y \<in> set ys. usable today p y \<longrightarrow> left_at today p y \<le> left_at today p a)"
  using keep_more_fold [where ok = "usable today p" and left = "left_at today p"
      and as = "rotate (kp_next p) (kp_keys p)" and best = None and r = "- 1"] assms
  by (auto simp: most_left_def split: prod.splits)

section \<open>The life of an account\<close>

definition cf_status :: "cf_pool \<Rightarrow> nat \<Rightarrow> cred_status" where
  "cf_status p a = (fk_disabled (key_at p a), fk_disabledAt (key_at p a))"

definition cf_pick :: "gotime \<Rightarrow> cf_pool \<Rightarrow> nat option \<times> cf_pool" where
  "cf_pick now p = (case CF_Next now p of (Inr a, p') \<Rightarrow> (Some a, p') | (Inl _, p') \<Rightarrow> (None, p'))"

lemma CF_Next_frame:
  assumes "refs_ok p"
  shows "kp_keys (snd (CF_Next now p)) = kp_keys p" "refs_ok (snd (CF_Next now p))"
    "key_at (snd (CF_Next now p)) a =
      (if a \<in> set (kp_keys p) then reset_enabled (utc_date now) (key_at p a) else key_at p a)"
proof -
  consider "kp_keys p = []" | "kp_keys p \<noteq> []" by blast
  then have "kp_keys (snd (CF_Next now p)) = kp_keys p \<and> refs_ok (snd (CF_Next now p)) \<and>
    key_at (snd (CF_Next now p)) a =
      (if a \<in> set (kp_keys p) then reset_enabled (utc_date now) (key_at p a) else key_at p a)"
  proof cases
    case 1
    with assms show ?thesis by (simp add: CF_Next_def)
  next
    case 2
    with assms show ?thesis
      by (auto simp: CF_Next_eq Let_def reset_pool_at refs_ok_def split: option.split)
  qed
  then show "kp_keys (snd (CF_Next now p)) = kp_keys p" "refs_ok (snd (CF_Next now p))"
    "key_at (snd (CF_Next now p)) a =
      (if a \<in> set (kp_keys p) then reset_enabled (utc_date now) (key_at p a) else key_at p a)"
    by simp_all
qed

lemma cf_reenable_idem: "cf_reenable now (cf_reenable now k) = cf_reenable now k"
  by (auto simp: cf_reenable_def cf_cooled_def cf_today_def)

lemma cf_reenable_frame:
  assumes "refs_ok p"
  shows "key_at (fst (CF_ReenableCooldowns now p)) a =
      (if a \<in> set (kp_keys p) then cf_reenable now (key_at p a) else key_at p a)"
    "refs_ok (fst (CF_ReenableCooldowns now p))"
    "length (kp_heap (fst (CF_ReenableCooldowns now p))) = length (kp_heap p)"
  using fold_put_key [of "cf_reenable now" "kp_keys p" p a] assms
  by (simp_all add: CF_ReenableCooldowns_def Let_def cf_reenable_idem refs_ok_def)

lemma cf_reenable_keys: "kp_keys (fst (CF_ReenableCooldowns now p)) = kp_keys p"
proof -
  have "kp_keys (fold (\<lambda>a q. put_key a (cf_reenable now (key_at q a)) q) as q) = kp_keys q" for as q
    by (induction as arbitrary: q) simp_all
  then show ?thesis by (simp add: CF_ReenableCooldowns_def Let_def)
qed

lemma cf_pick_snd: "snd (cf_pick now p) = snd (CF_Next now p)"
  by (simp add: cf_pick_def split: prod.split sum.split)

interpretation cf_life: credential_pool cf_status kp_keys cf_pick
  "\<lambda>now p. fst (CF_ReenableCooldowns now p)" "\<lambda>p. fst (snd (CF_CleanupDisabled p))" refs_ok
proof unfold_locales
  show "a \<in> set (kp_keys p) \<and> \<not> fst (cf_status p a)" if "refs_ok p" "cf_pick now p = (Some a, p')" for now p a p'
  proof -
    have ne: "kp_keys p \<noteq> []" using that(2) by (auto simp: cf_pick_def CF_Next_def)
    with that have "most_left (utc_date now) p = Some a"
      by (auto simp: cf_pick_def CF_Next_eq Let_def split: option.splits)
    then obtain xs ys where "rotate (kp_next p) (kp_keys p) = xs @ a # ys" "usable (utc_date now) p a"
      using most_left_Some by blast
    then have "a \<in> set (rotate (kp_next p) (kp_keys p))" "usable (utc_date now) p a" by simp_all
    then show ?thesis by (simp add: usable_def cf_status_def)
  qed
  show "refs_ok p \<Longrightarrow> cf_status (snd (cf_pick now p)) = cf_status p" for now p
    by (simp add: fun_eq_iff cf_pick_snd cf_status_def CF_Next_frame)
  show "refs_ok p \<Longrightarrow> kp_keys (snd (cf_pick now p)) = kp_keys p" for now p
    by (simp add: cf_pick_snd CF_Next_frame)
  show "refs_ok p \<Longrightarrow> refs_ok (snd (cf_pick now p))" for now p
    by (simp add: cf_pick_snd CF_Next_frame)
  show "refs_ok p \<Longrightarrow> cf_status (fst (CF_ReenableCooldowns now p)) a =
      (if a \<in> set (kp_keys p) \<and> cooled now (cf_status p a) then (False, snd (cf_status p a)) else cf_status p a)"
    for p now a
    by (auto simp: cf_status_def cf_reenable_frame cf_reenable_def cf_cooled_def cooled_def CF_COOLDOWN_DURATION_def)
  show "refs_ok p \<Longrightarrow> refs_ok (fst (CF_ReenableCooldowns now p))" for p now
    by (simp add: cf_reenable_frame)
  show "refs_ok p \<Longrightarrow> refs_ok (fst (snd (CF_CleanupDisabled p)))" for p
    by (simp add: CF_CleanupDisabled_def Let_def refs_ok_sub)
qed (simp_all add: cf_reenable_keys CF_CleanupDisabled_def Let_def fun_eq_iff cf_status_def cf_banned_def for_good_def)

section \<open>Properties\<close>

text \<open>
  \<open>Next\<close> serves the account with the most quota left that day. Of the enabled accounts with
  quota left (an account without a limit counting as having a billion), it serves the first from
  the cursor among those that have most, and it fails only when there is none.
\<close>

theorem cf_next_most_left:
  assumes "refs_ok p"
  shows "case fst (CF_Next now p) of
      Inr a \<Rightarrow> \<exists>xs ys. rotate (kp_next p) (kp_keys p) = xs @ a # ys \<and> usable (utc_date now) p a \<and>
        (\<forall>x \<in> set xs. usable (utc_date now) p x \<longrightarrow> left_at (utc_date now) p x < left_at (utc_date now) p a) \<and>
        (\<forall>y \<in> set ys. usable (utc_date now) p y \<longrightarrow> left_at (utc_date now) p y \<le> left_at (utc_date now) p a)
    | Inl _ \<Rightarrow> \<forall>a \<in> set (kp_keys p). \<not> usable (utc_date now) p a"
proof (cases "kp_keys p = []")
  case True
  then show ?thesis by (simp add: CF_Next_def)
next
  case False
  show ?thesis
  proof (cases "most_left (utc_date now) p")
    case None
    with assms False show ?thesis by (simp add: CF_Next_eq Let_def) (simp add: most_left_None [symmetric])
  next
    case (Some a)
    with assms False most_left_Some [OF Some] show ?thesis by (simp add: CF_Next_eq Let_def)
  qed
qed

definition demo_cf :: cf_pool where
  "demo_cf =
     \<lparr>kp_heap = [(fresh_cf ''a'' ''t1'')\<lparr>fk_quotaLimit := 100, fk_quotaUsed := 90, fk_quotaDate := utc_date 5\<rparr>,
                 (fresh_cf ''b'' ''t2'')\<lparr>fk_quotaLimit := 100, fk_quotaUsed := 20, fk_quotaDate := utc_date 5\<rparr>],
      kp_keys = [0, 1], kp_next = 0, kp_db = True\<rparr>"

theorem cf_next_most_left_witness: "fst (CF_Next 5 demo_cf) = Inr 1"
proof -
  have ok: "refs_ok demo_cf" by (simp add: refs_ok_def demo_cf_def)
  have u: "usable (utc_date 5) demo_cf 0" "left_at (utc_date 5) demo_cf 0 = 10"
      "usable (utc_date 5) demo_cf 1" "left_at (utc_date 5) demo_cf 1 = 80"
    by (simp_all add: usable_def left_at_def demo_cf_def key_at_def cf_today_def quota_left_def fresh_cf_def)
  have keys: "kp_keys demo_cf = [0, 1]" "kp_next demo_cf = 0" by (simp_all add: demo_cf_def)
  from cf_next_most_left [OF ok, of 5] u show ?thesis
    unfolding keys by (auto split: sum.splits simp: Cons_eq_append_conv)
qed

text \<open>The operations on the pool after it is loaded.\<close>

datatype cf_event =
    Cf_next gotime
  | Cf_reenable gotime
  | Cf_cleanup
  | Cf_add string string
  | Cf_add_raw string
  | Cf_delete string
  | Cf_usage gotime rat nat
  | Cf_ban nat
  | Cf_cooldown gotime nat

fun cf_step :: "cf_event \<Rightarrow> cf_pool \<Rightarrow> cf_pool" where
  "cf_step (Cf_next now) p = snd (CF_Next now p)"
| "cf_step (Cf_reenable now) p = fst (CF_ReenableCooldowns now p)"
| "cf_step Cf_cleanup p = fst (snd (CF_CleanupDisabled p))"
| "cf_step (Cf_add i t) p = fst (snd (CF_AddKey i t p))"
| "cf_step (Cf_add_raw raw) p = fst (snd (AddKeyRaw raw p))"
| "cf_step (Cf_delete i) p = fst (snd (CF_DeleteKey i p))"
| "cf_step (Cf_usage now x a) p = fst (recordUsage now x a p)"
| "cf_step (Cf_ban a) p = fst (permanentDisableCF a p)"
| "cf_step (Cf_cooldown now a) p = fst (cooldownDisableCF now a p)"

text \<open>No account has a limit.\<close>

definition unlimited :: "cf_pool \<Rightarrow> bool" where
  "unlimited p \<longleftrightarrow> refs_ok p \<and> list_all (\<lambda>k. fk_quotaLimit k \<le> 0) (kp_heap p)"

lemma unlimited_put:
  "unlimited p \<Longrightarrow> fk_quotaLimit k = fk_quotaLimit (key_at p a) \<Longrightarrow> unlimited (put_key a k p)"
  by (cases "a < length (kp_heap p)")
    (auto simp: unlimited_def list_all_length put_key_def key_at_def nth_list_update refs_ok_def)

lemma unlimited_new: "unlimited p \<Longrightarrow> fk_quotaLimit k \<le> 0 \<Longrightarrow> unlimited (new_key k p)"
  by (simp add: unlimited_def) (simp add: new_key_def)

lemma unlimited_iff: "unlimited p \<longleftrightarrow> refs_ok p \<and> (\<forall>a < length (kp_heap p). fk_quotaLimit (key_at p a) \<le> 0)"
  by (simp add: unlimited_def list_all_length key_at_def)

lemma unlimited_add: "unlimited p \<Longrightarrow> unlimited (fst (snd (CF_AddKey i t p)))"
  by (simp add: CF_AddKey_def Let_def unlimited_new fresh_cf_def)

lemma length_CF_Next: "refs_ok p \<Longrightarrow> length (kp_heap (snd (CF_Next now p))) = length (kp_heap p)"
proof (cases "kp_keys p = []")
  case True
  then show ?thesis by (simp add: CF_Next_def)
next
  case False
  then show "refs_ok p \<Longrightarrow> ?thesis" by (auto simp: CF_Next_eq Let_def reset_pool_at split: option.split)
qed

lemma unlimited_step:
  assumes "unlimited p"
  shows "unlimited (cf_step e p)"
proof (cases e)
  case (Cf_next now)
  with assms show ?thesis by (simp add: unlimited_iff CF_Next_frame length_CF_Next)
next
  case (Cf_reenable now)
  with assms show ?thesis by (simp add: unlimited_iff cf_reenable_frame cf_reenable_def)
next
  case Cf_cleanup
  with assms show ?thesis by (simp add: unlimited_def CF_CleanupDisabled_def Let_def refs_ok_sub)
next
  case (Cf_add i t)
  with assms show ?thesis by (simp add: unlimited_add)
next
  case (Cf_add_raw raw)
  with assms show ?thesis by (simp add: AddKeyRaw_def Let_def unlimited_add split: prod.split option.split)
next
  case (Cf_delete i)
  with assms show ?thesis by (simp add: CF_DeleteKey_def unlimited_iff split: option.split)
next
  case (Cf_usage now x a)
  with assms show ?thesis by (auto simp: recordUsage_def Let_def record_usage_def intro!: unlimited_put)
next
  case (Cf_ban a)
  with assms show ?thesis by (auto simp: permanentDisableCF_def Let_def intro!: unlimited_put)
next
  case (Cf_cooldown now a)
  with assms show ?thesis by (auto simp: cooldownDisableCF_def Let_def intro!: unlimited_put)
qed

lemma first_of_equals:
  assumes "\<And>a. a \<in> set as \<Longrightarrow> ok a \<Longrightarrow> left a = c" and "r < c"
  shows "fst (fold (keep_more ok left) as (None, r)) = (case filter ok as of [] \<Rightarrow> None | x # _ \<Rightarrow> Some x)"
proof -
  have full: "fold (keep_more ok left) as (Some x, c) = (Some x, c)"
    if "\<And>a. a \<in> set as \<Longrightarrow> ok a \<Longrightarrow> left a = c" for as x
    using that by (induction as) (auto simp: keep_more_def)
  from assms show ?thesis
    by (induction as) (auto simp: full keep_more_def)
qed

text \<open>
  The quota has no say. No operation of the gateway ever gives an account a limit, so unless a
  limit is put into Redis by other means, every account counts as unlimited whatever it has used:
  after any history \<open>Next\<close> simply serves the first enabled account from the cursor.
\<close>

theorem cf_quota_without_effect:
  fixes es :: "cf_event list"
  assumes "unlimited p"
  defines "q \<equiv> fold cf_step es p"
  shows "unlimited q \<and>
    fst (CF_Next now q) =
      (case filter (\<lambda>a. \<not> fk_disabled (key_at q a)) (rotate (kp_next q) (kp_keys q)) of
         [] \<Rightarrow> Inl (if kp_keys q = [] then ''no cf keys'' else ''all cf keys disabled or daily-exhausted'')
       | a # _ \<Rightarrow> Inr a)"
proof -
  have "unlimited (fold cf_step es p)" if "unlimited p" for p
    using that by (induction es arbitrary: p) (simp_all add: unlimited_step)
  then have q: "unlimited q" using assms(1) by (simp add: q_def)
  then have ok: "refs_ok q" by (simp add: unlimited_def)
  let ?L = "rotate (kp_next q) (kp_keys q)"
  have left: "left_at (utc_date now) q a = 10 ^ 9" if "a \<in> set ?L" for a
    using q that by (simp add: unlimited_iff refs_ok_def left_at_def quota_left_def)
  have "filter (usable (utc_date now) q) ?L = filter (\<lambda>a. \<not> fk_disabled (key_at q a)) ?L"
    using left by (intro filter_cong) (auto simp: usable_def left_at_def)
  moreover have "most_left (utc_date now) q = (case filter (usable (utc_date now) q) ?L of [] \<Rightarrow> None | x # _ \<Rightarrow> Some x)"
    unfolding most_left_def by (rule first_of_equals [where c = "10 ^ 9"]) (use left in simp_all)
  ultimately have best: "most_left (utc_date now) q =
      (case filter (\<lambda>a. \<not> fk_disabled (key_at q a)) ?L of [] \<Rightarrow> None | x # _ \<Rightarrow> Some x)"
    by simp
  show ?thesis
  proof (cases "kp_keys q = []")
    case True
    then show ?thesis using q by (simp add: CF_Next_def)
  next
    case False
    with best q ok show ?thesis by (auto simp: CF_Next_eq Let_def split: list.split)
  qed
qed

theorem cf_quota_without_effect_witness:
  "fst (CF_Next 9 (fold cf_step [Cf_add ''a'' ''t1'', Cf_add ''b'' ''t2'', Cf_usage 5 (10 ^ 12) 0] (NewCFKeyManager False))) = Inr 0"
proof -
  let ?es = "[Cf_add ''a'' ''t1'', Cf_add ''b'' ''t2'', Cf_usage 5 (10 ^ 12) 0]"
  let ?p = "NewCFKeyManager False :: cf_pool"
  have "unlimited ?p" by (simp add: unlimited_def refs_ok_def NewCFKeyManager_def empty_pool_def)
  note t = cf_quota_without_effect [OF this, where now = 9 and es = ?es]
  have tr: "trim_space ''a'' = ''a''" "trim_space ''b'' = ''b''" "trim_space ''t1'' = ''t1''" "trim_space ''t2'' = ''t2''"
    by code_simp+
  define q where "q = fold cf_step ?es ?p"
  have "kp_keys q = [0, 1]" "kp_next q = 0" "\<not> fk_disabled (key_at q 0)"
    by (simp_all add: q_def CF_AddKey_def tr NewCFKeyManager_def empty_pool_def new_key_def recordUsage_def put_key_def
        key_at_def record_usage_def fresh_cf_def Let_def)
  with t show ?thesis unfolding q_def [symmetric] by simp
qed

end
