(* ===== verification/CFProxy.thy ===== *)
theory CFProxy
  imports CFPool Health Json
begin

text \<open>
  \<open>ProxyCloudflare\<close>, the second half of \<open>internal/upstream/cloudflare.go\<close>, and the direct calls of
  \<open>internal/upstream/cf_run.go\<close>: the request that is sent, the walk over at most twelve accounts
  behind the circuit breaker, and the translation of the answer. Attempts have environments as
  for Grok and CodeBuddy.
\<close>

section \<open>The request\<close>

definition cf_dropped_fields :: "string list" where
  "cf_dropped_fields =
     [''user'', ''n'', ''logit_bias'', ''logprobs'', ''top_logprobs'', ''response_format'', ''tool_choice'',
      ''parallel_tool_calls'']"

definition cfTransform :: "json_map \<Rightarrow> json_map" where
  "cfTransform m0 =
     (let m1 = (case m0 ''max_completion_tokens'' of
                  None \<Rightarrow> m0
                | Some mt \<Rightarrow>
                  (if m0 ''max_tokens'' = None then m0(''max_tokens'' \<mapsto> mt) else m0)(''max_completion_tokens'' := None));
          m2 = m1(''stream'' \<mapsto> J_bool True)
      in fold (\<lambda>f m. m(f := None)) cf_dropped_fields m2)"

section \<open>Text and usage of an answer\<close>

text \<open>\<open>parse\<close> below is \<open>json.Unmarshal\<close> into a map.\<close>

definition parts_text :: "json list \<Rightarrow> string option" where
  "parts_text ps =
     (let t = concat (map (\<lambda>p. case p of
            J_obj kvs \<Rightarrow> str_field (map_of kvs) ''text'' | J_str s \<Rightarrow> s | _ \<Rightarrow> []) ps)
      in if t = [] then None else Some t)"

definition first_choice :: "json_map \<Rightarrow> json_map option" where
  "first_choice raw = (case arr_field raw ''choices'' of Some (v # _) \<Rightarrow> as_obj v | _ \<Rightarrow> None)"

definition choice_text :: "json_map \<Rightarrow> string option" where
  "choice_text ch =
     first_some
       [case obj_field ch ''delta'' of
          None \<Rightarrow> None
        | Some delta \<Rightarrow> first_some [text_field delta ''content'', text_field delta ''reasoning_content''],
        case obj_field ch ''message'' of
          None \<Rightarrow> None
        | Some msg \<Rightarrow>
          first_some [text_field msg ''content'',
            case arr_field msg ''content'' of None \<Rightarrow> None | Some ps \<Rightarrow> parts_text ps],
        text_field ch ''text'']"

definition cf_text :: "json_map \<Rightarrow> string option" where
  "cf_text raw =
     first_some
       [text_field raw ''response'',
        case obj_field raw ''result'' of
          None \<Rightarrow> None
        | Some res \<Rightarrow> first_some [text_field res ''response'', text_field res ''text''],
        text_field raw ''text'',
        text_field raw ''output'',
        case first_choice raw of None \<Rightarrow> None | Some ch \<Rightarrow> choice_text ch]"

definition extractCFText :: "(string \<Rightarrow> json_map option) \<Rightarrow> string \<Rightarrow> string \<times> json_map option" where
  "extractCFText parse d =
     (case parse d of
        None \<Rightarrow> ([], None)
      | Some raw \<Rightarrow> ((case cf_text raw of None \<Rightarrow> [] | Some s \<Rightarrow> s), obj_field raw ''usage''))"

definition extractCFReasoning :: "(string \<Rightarrow> json_map option) \<Rightarrow> string \<Rightarrow> string" where
  "extractCFReasoning parse d =
     (case parse d of
        None \<Rightarrow> []
      | Some raw \<Rightarrow>
        (case first_choice raw of
           None \<Rightarrow> []
         | Some ch \<Rightarrow> (case obj_field ch ''delta'' of None \<Rightarrow> [] | Some delta \<Rightarrow> str_field delta ''reasoning_content'')))"

text \<open>Usage comes in increments, which are added up.\<close>

record cf_usage =
  cu_prompt :: rat
  cu_completion :: rat
  cu_total :: rat
  cu_neurons :: rat
  cu_seen :: bool

definition no_usage :: cf_usage where
  "no_usage = \<lparr>cu_prompt = 0, cu_completion = 0, cu_total = 0, cu_neurons = 0, cu_seen = False\<rparr>"

definition num_or_zero :: "json_map \<Rightarrow> string \<Rightarrow> rat" where
  "num_or_zero m f = (case num_field m f of None \<Rightarrow> 0 | Some x \<Rightarrow> x)"

definition accumulate_usage :: "json_map option \<Rightarrow> cf_usage \<Rightarrow> cf_usage" where
  "accumulate_usage u acc =
     (case u of
        None \<Rightarrow> acc
      | Some m \<Rightarrow>
        \<lparr>cu_prompt = cu_prompt acc + num_or_zero m ''prompt_tokens'',
         cu_completion = cu_completion acc + num_or_zero m ''completion_tokens'',
         cu_total = cu_total acc + num_or_zero m ''total_tokens'',
         cu_neurons = cu_neurons acc + num_or_zero m ''neurons'', cu_seen = True\<rparr>)"

record cf_collected =
  fl_content :: string
  fl_reasoning :: string
  fl_usage :: cf_usage

definition cf_collect_event :: "(string \<Rightarrow> json_map option) \<Rightarrow> string \<Rightarrow> cf_collected \<Rightarrow> cf_collected" where
  "cf_collect_event parse d s =
     (let (text, u) = extractCFText parse d in
      s\<lparr>fl_content := fl_content s @ text, fl_reasoning := fl_reasoning s @ extractCFReasoning parse d,
        fl_usage := accumulate_usage u (fl_usage s)\<rparr>)"

fun cf_collect_lines :: "(string \<Rightarrow> json_map option) \<Rightarrow> string list \<Rightarrow> cf_collected \<Rightarrow> cf_collected" where
  "cf_collect_lines parse [] s = s"
| "cf_collect_lines parse (line # lines) s =
     (if \<not> has_prefix line ''data: ''
      then cf_collect_lines parse lines
             (if has_prefix (trim_space line) ''{'' then cf_collect_event parse line s else s)
      else
        let d = trim_prefix line ''data: '' in
        if d = ''[DONE]'' then s else cf_collect_lines parse lines (cf_collect_event parse d s))"

text \<open>An answer that is one JSON document.\<close>

definition cf_collect_json :: "(string \<Rightarrow> json_map option) \<Rightarrow> string \<Rightarrow> cf_collected" where
  "cf_collect_json parse raw =
     (let (text, u) = extractCFText parse raw;
          acc = accumulate_usage u no_usage;
          (text', acc') =
            (if text \<noteq> [] then (text, acc)
             else case parse raw of
                    None \<Rightarrow> (text, acc)
                  | Some full \<Rightarrow>
                    ((case first_choice full of
                        None \<Rightarrow> text
                      | Some ch \<Rightarrow>
                        (case obj_field ch ''message'' of None \<Rightarrow> text | Some msg \<Rightarrow> str_field msg ''content'')),
                     accumulate_usage (obj_field full ''usage'') acc))
      in \<lparr>fl_content = text', fl_reasoning = [], fl_usage = acc'\<rparr>)"

text \<open>The reply for a client that does not stream: its text and its usage, if there was any.\<close>

definition cfCollectStream :: "(string \<Rightarrow> json_map option) \<Rightarrow> string \<Rightarrow> string \<Rightarrow> string \<times> cf_usage option" where
  "cfCollectStream parse contentType body0 =
     (let body = take (8 * 2 ^ 20) body0;
          s = (if str_contains contentType ''application/json'' \<and> \<not> str_contains contentType ''event-stream''
               then cf_collect_json parse body
               else cf_collect_lines parse (scan_lines body)
                      \<lparr>fl_content = [], fl_reasoning = [], fl_usage = no_usage\<rparr>);
          final = (if fl_content s = [] \<and> fl_reasoning s \<noteq> [] then fl_reasoning s else fl_content s)
      in (final, if cu_seen (fl_usage s) then Some (fl_usage s) else None))"

text \<open>A streaming client gets the events translated; \<open>lines\<close> are those scanned before the end.\<close>

datatype cf_out = Text_event string | Usage_event json_map | Done_event

fun cf_stream_body :: "(string \<Rightarrow> json_map option) \<Rightarrow> string list \<Rightarrow> cf_out list" where
  "cf_stream_body parse [] = []"
| "cf_stream_body parse (line # lines) =
     (if \<not> has_prefix line ''data: '' then cf_stream_body parse lines
      else
        let d = trim_prefix line ''data: '' in
        if d = ''[DONE]'' then [Done_event]
        else
          let (text, u) = extractCFText parse d in
          (if text = [] then [] else [Text_event text]) @
          (case u of None \<Rightarrow> [] | Some m \<Rightarrow> [Usage_event m]) @ cf_stream_body parse lines)"

fun streamed_text :: "cf_out list \<Rightarrow> string" where
  "streamed_text [] = []"
| "streamed_text (Text_event t # es) = t @ streamed_text es"
| "streamed_text (_ # es) = streamed_text es"

section \<open>The walk over the accounts\<close>

definition parseRetryAfter :: "string \<Rightarrow> (rat \<times> rat) option \<Rightarrow> duration" where
  "parseRetryAfter header body =
     (let secs = (if header = [] then None else parse_int64 (trim_space header)) in
      case secs of
        Some n \<Rightarrow> if n > 0 then wrap64 (n * second)
                  else (case body of None \<Rightarrow> 0 | Some (r1, r2) \<Rightarrow>
                          if r1 > 0 then wrap64 (float_int r1 * second)
                          else if r2 > 0 then wrap64 (float_int r2 * second) else 0)
      | None \<Rightarrow> (case body of None \<Rightarrow> 0 | Some (r1, r2) \<Rightarrow>
                    if r1 > 0 then wrap64 (float_int r1 * second)
                    else if r2 > 0 then wrap64 (float_int r2 * second) else 0))"

record cf_env =
  fe_cancelled :: bool
  fe_world :: "cf_pool \<Rightarrow> cf_pool"
  fe_now :: gotime
  fe_resp :: do_result
  fe_retry_header :: string
  fe_retry_body :: "(rat \<times> rat) option"
  fe_flight :: "cf_pool \<Rightarrow> cf_pool"
  fe_end :: gotime
  fe_latency :: duration

text \<open>What the loop remembers for its error message.\<close>

record cf_seen =
  se_404 :: nat
  se_auth :: bool
  se_429 :: bool
  se_5xx :: bool
  se_net :: bool
  se_last :: int

definition nothing_seen :: cf_seen where
  "nothing_seen = \<lparr>se_404 = 0, se_auth = False, se_429 = False, se_5xx = False, se_net = False, se_last = 0\<rparr>"

datatype cf_verdict = Cf_go_on | Cf_give_up nat | Cf_take http_response

definition cf_attempt ::
  "cf_env \<Rightarrow> nat \<Rightarrow> cf_seen \<Rightarrow> cf_pool \<Rightarrow> UpstreamHealth \<Rightarrow>
   cf_verdict \<times> cf_seen \<times> cf_pool \<times> UpstreamHealth \<times> cf_call list" where
  "cf_attempt e a sn p0 h =
     (let p = fe_flight e p0 in
      case fe_resp e of
        Inl _ \<Rightarrow> (Cf_go_on, sn\<lparr>se_net := True\<rparr>, p, h, [Cf_proxy True 0])
      | Inr r \<Rightarrow>
        (let st = hr_status r; sn1 = sn\<lparr>se_last := st\<rparr>; report = [Cf_proxy False st] in
         if st = 401 \<or> st = 403 then
           (let (p', cs) = permanentDisableCF a p in (Cf_go_on, sn1\<lparr>se_auth := True\<rparr>, p', h, report @ cs))
         else if st = 429 then
           (let (p', cs) = (if parseRetryAfter (fe_retry_header e) (fe_retry_body e) > 0
                            then cooldownDisableCF (fe_end e) a p
                            else cooldownDisableCF (fe_end e) a p)
            in (Cf_go_on, sn1\<lparr>se_429 := True\<rparr>, p', h, report @ cs))
         else if st \<ge> 400 \<and> st < 500 then
           (if st = 404 then
              (let n = se_404 sn1 + 1 in
               if n \<ge> 3 then
                 (Cf_give_up n, sn1\<lparr>se_404 := n\<rparr>, p,
                  RecordRequest (fe_end e) (fe_latency e) (Some ''model 404'') h, report)
               else (Cf_go_on, sn1\<lparr>se_404 := n\<rparr>, p, h, report))
            else (let (p', cs) = cooldownDisableCF (fe_end e) a p in (Cf_go_on, sn1, p', h, report @ cs)))
         else if st \<ge> 500 then
           (Cf_go_on, sn1\<lparr>se_5xx := True\<rparr>, p,
            RecordRequest (fe_end e) (fe_latency e) (Some (''upstream '' @ show_int st)) h, report)
         else (Cf_take r, sn1, p, h, report)))"

datatype cf_outcome =
    Cf_circuit_open
  | Cf_bad_body
  | Cf_no_keys
  | Cf_none_healthy string
  | Cf_no_model nat
  | Cf_failed cf_seen
  | Cf_deliver http_response nat

text \<open>\<open>first\<close>: no attempt has been made yet.\<close>

fun cf_loop ::
  "bool \<Rightarrow> cf_env list \<Rightarrow> cf_seen \<Rightarrow> cf_pool \<Rightarrow> UpstreamHealth \<Rightarrow>
   cf_outcome \<times> cf_pool \<times> UpstreamHealth \<times> cf_call list" where
  "cf_loop first [] sn p h = (Cf_failed sn, p, h, [])"
| "cf_loop first (e # es) sn p0 h =
     (let p = fe_world e p0 in
      if fe_cancelled e then (Cf_failed sn, p, h, [])
      else case CF_Next (fe_now e) p of
             (Inl err, p1) \<Rightarrow> (if first then Cf_none_healthy err else Cf_failed sn, p1, h, [])
           | (Inr a, p1) \<Rightarrow>
             (case cf_attempt e a sn p1 h of
                (Cf_take r, sn2, p2, h2, cs) \<Rightarrow>
                  (let h3 = RecordRequest (fe_end e) (fe_latency e) None h2;
                       (p3, cs') = recordUsage (fe_end e) 1 a p2
                   in (Cf_deliver r a, p3, h3, cs @ cs'))
              | (Cf_give_up n, sn2, p2, h2, cs) \<Rightarrow> (Cf_no_model n, p2, h2, cs)
              | (Cf_go_on, sn2, p2, h2, cs) \<Rightarrow>
                  (let (out, p3, h3, cs') = cf_loop False es sn2 p2 h2 in (out, p3, h3, cs @ cs'))))"

definition maxCFAttempts :: nat where "maxCFAttempts = 12"

definition ProxyCloudflare ::
  "gotime \<Rightarrow> json_map option \<Rightarrow> (nat \<Rightarrow> cf_env) \<Rightarrow> cf_pool \<Rightarrow> UpstreamHealth \<Rightarrow>
   cf_outcome \<times> cf_pool \<times> UpstreamHealth \<times> cf_call list" where
  "ProxyCloudflare now body envs p h =
     (case CanRequest now h of
        (False, h1) \<Rightarrow> (Cf_circuit_open, p, RecordRequest now 0 (Some ''circuit open'') h1, [])
      | (True, h1) \<Rightarrow>
        if body = None then (Cf_bad_body, p, h1, [])
        else
          let maxAttempts = (if length (kp_keys p) < maxCFAttempts then length (kp_keys p) else maxCFAttempts) in
          if maxAttempts < 1 then (Cf_no_keys, p, h1, [])
          else cf_loop True (map envs [0..<maxAttempts]) nothing_seen p h1)"

definition cf_failure_status :: "cf_seen \<Rightarrow> int" where
  "cf_failure_status s =
     (if se_404 s > 0 then 404
      else if se_429 s \<and> \<not> se_auth s then 429
      else if se_auth s \<and> \<not> se_429 s \<and> \<not> se_5xx s then 503
      else if se_5xx s then 502
      else if se_net s then 502
      else 503)"

definition cf_reply_status :: "cf_outcome \<Rightarrow> int" where
  "cf_reply_status out =
     (case out of
        Cf_circuit_open \<Rightarrow> 503
      | Cf_bad_body \<Rightarrow> 400
      | Cf_no_keys \<Rightarrow> 503
      | Cf_none_healthy _ \<Rightarrow> 503
      | Cf_no_model _ \<Rightarrow> 404
      | Cf_failed s \<Rightarrow> cf_failure_status s
      | Cf_deliver r _ \<Rightarrow> hr_status r)"

section \<open>Direct calls\<close>

text \<open>The model id \<open>CFRun\<close> asks for.\<close>

definition cf_run_model :: "string \<Rightarrow> string" where
  "cf_run_model model0 =
     (let model = trim_prefix model0 ''cf/'' in
      if has_prefix model ''@cf/'' \<or> has_prefix model ''@hf/'' then model
      else if \<not> str_contains model ''/'' then ''@cf/'' @ model
      else if \<not> has_prefix model ''@'' then ''@cf/'' @ trim_prefix model ''cf/''
      else model)"

datatype cf_run_error = Run_no_key string | Run_transport string | Run_auth int | Run_429 | Run_failed

fun cf_run_loop ::
  "cf_env list \<Rightarrow> cf_run_error option \<Rightarrow> cf_pool \<Rightarrow> (cf_run_error + int \<times> string \<times> string) \<times> cf_pool \<times> cf_call list" where
  "cf_run_loop [] last_err p = (Inl (case last_err of None \<Rightarrow> Run_failed | Some e \<Rightarrow> e), p, [])"
| "cf_run_loop (e # es) last_err p0 =
     (case CF_Next (fe_now e) (fe_world e p0) of
        (Inl err, p1) \<Rightarrow> (Inl (Run_no_key err), p1, [])
      | (Inr a, p1) \<Rightarrow>
        (let p = fe_flight e p1 in
         case fe_resp e of
           Inl err \<Rightarrow> cf_run_loop es (Some (Run_transport err)) p
         | Inr r \<Rightarrow>
           if hr_status r = 401 \<or> hr_status r = 403 then
             (let (p', cs) = permanentDisableCF a p;
                  (out, p'', cs') = cf_run_loop es (Some (Run_auth (hr_status r))) p'
              in (out, p'', cs @ cs'))
           else if hr_status r = 429 then
             (let (p', cs) = cooldownDisableCF (fe_end e) a p;
                  (out, p'', cs') = cf_run_loop es (Some Run_429) p'
              in (out, p'', cs @ cs'))
           else (Inr (hr_status r, take (8 * 2 ^ 20) (hr_body r), fk_AccountID (key_at p a)), p, [])))"

definition CFRun ::
  "(nat \<Rightarrow> cf_env) \<Rightarrow> cf_pool option \<Rightarrow> (cf_run_error + int \<times> string \<times> string) \<times> cf_pool option \<times> cf_call list" where
  "CFRun envs km =
     (case km of
        None \<Rightarrow> (Inl (Run_no_key ''no cf key manager''), None, [])
      | Some p \<Rightarrow> (let (out, p', cs) = cf_run_loop (map envs [0..<5]) None p in (out, Some p', cs)))"

section \<open>Lemmas\<close>

lemma first_some_mem: "Some x \<in> set xs \<Longrightarrow> first_some xs \<noteq> None"
  by (induction xs) (auto split: option.split)

lemma text_field_nonempty [simp]: "text_field m f \<noteq> Some []" "Some [] \<noteq> text_field m f"
  by (auto simp: text_field_def split: option.splits json.splits if_splits)

lemma parts_text_nonempty [simp]: "parts_text ps \<noteq> Some []" "Some [] \<noteq> parts_text ps"
  by (auto simp: parts_text_def Let_def split: if_splits)

lemma choice_text_nonempty [simp]: "choice_text ch \<noteq> Some []" "Some [] \<noteq> choice_text ch"
  unfolding choice_text_def by (auto split: option.splits)

lemma cf_text_nonempty: "cf_text raw \<noteq> Some []"
  unfolding cf_text_def by (auto split: option.splits)

text \<open>An event with reasoning always has text: its reasoning, if it has no other.\<close>

lemma reasoning_is_text:
  assumes "extractCFReasoning parse d \<noteq> []"
  shows "fst (extractCFText parse d) \<noteq> []"
proof -
  obtain raw ch delta where r: "parse d = Some raw" "first_choice raw = Some ch" "obj_field ch ''delta'' = Some delta"
      "str_field delta ''reasoning_content'' \<noteq> []"
    using assms by (auto simp: extractCFReasoning_def split: option.splits)
  then have "text_field delta ''reasoning_content'' \<noteq> None"
    by (auto simp: text_field_def str_field_def split: option.splits json.splits)
  then have "choice_text ch \<noteq> None" using r(3) by (auto simp: choice_text_def split: option.splits)
  then obtain t where "choice_text ch = Some t" by blast
  then have "cf_text raw \<noteq> None"
    unfolding cf_text_def using r(2) by (intro first_some_mem [of t]) simp
  then show ?thesis using cf_text_nonempty r(1) by (auto simp: extractCFText_def)
qed

lemma collect_and_stream:
  assumes "\<forall>line \<in> set lines. has_prefix line ''data: '' \<or> \<not> has_prefix (trim_space line) ''{''"
    and "fl_reasoning s \<noteq> [] \<longrightarrow> fl_content s \<noteq> []"
  shows "fl_content (cf_collect_lines parse lines s) = fl_content s @ streamed_text (cf_stream_body parse lines) \<and>
    (fl_reasoning (cf_collect_lines parse lines s) \<noteq> [] \<longrightarrow> fl_content (cf_collect_lines parse lines s) \<noteq> [])"
  using assms
proof (induction lines arbitrary: s)
  case (Cons line lines)
  show ?case
  proof (cases "has_prefix line ''data: ''")
    case False
    with Cons.IH [of s] Cons.prems show ?thesis by auto
  next
    case True
    define d where "d = trim_prefix line ''data: ''"
    show ?thesis
    proof (cases "d = ''[DONE]''")
      case True
      with \<open>has_prefix line ''data: ''\<close> Cons.prems show ?thesis by (simp add: Let_def d_def)
    next
      case False
      let ?s = "cf_collect_event parse d s"
      obtain t u where tu: "extractCFText parse d = (t, u)" by fastforce
      have s: "fl_content ?s = fl_content s @ t" "fl_reasoning ?s = fl_reasoning s @ extractCFReasoning parse d"
        by (simp_all add: cf_collect_event_def tu)
      have "fl_reasoning ?s \<noteq> [] \<longrightarrow> fl_content ?s \<noteq> []"
        using Cons.prems(2) reasoning_is_text [of parse d] tu by (auto simp: s)
      with Cons.IH [of ?s] Cons.prems(1)
      have "fl_content (cf_collect_lines parse lines ?s) = fl_content ?s @ streamed_text (cf_stream_body parse lines) \<and>
          (fl_reasoning (cf_collect_lines parse lines ?s) \<noteq> [] \<longrightarrow> fl_content (cf_collect_lines parse lines ?s) \<noteq> [])"
        by auto
      moreover have "cf_collect_lines parse (line # lines) s = cf_collect_lines parse lines ?s"
        using \<open>has_prefix line ''data: ''\<close> False by (simp add: Let_def d_def)
      moreover have "streamed_text (cf_stream_body parse (line # lines)) = t @ streamed_text (cf_stream_body parse lines)"
        using \<open>has_prefix line ''data: ''\<close> False by (auto simp: Let_def d_def [symmetric] tu split: option.split)
      ultimately show ?thesis by (metis append.assoc s(1))
    qed
  qed
qed simp

definition is_report :: "cf_call \<Rightarrow> bool" where
  "is_report c \<longleftrightarrow> (case c of Cf_proxy _ _ \<Rightarrow> True | _ \<Rightarrow> False)"

lemma disable_reports [simp]:
  "filter is_report (snd (permanentDisableCF a p)) = []" "filter is_report (snd (cooldownDisableCF now a p)) = []"
  "filter is_report (snd (recordUsage now x a p)) = []"
  by (simp_all add: permanentDisableCF_def cooldownDisableCF_def recordUsage_def save_cf_def Let_def is_report_def)

lemma cf_attempt_facts:
  assumes "cf_attempt e a sn p h = (v, sn', p', h', cs)"
  shows "length (filter is_report cs) = 1" "v = Cf_take r \<Longrightarrow> hr_status r < 400"
  using assms
  by (auto simp: cf_attempt_def Let_def split_beta is_report_def [of "Cf_proxy b n" for b n]
      split: sum.splits if_splits)

section \<open>Properties\<close>

text \<open>
  C21: A bounded request with a bounded vocabulary. Whatever happens, a Cloudflare request makes at
  most twelve upstream calls, and the client gets an upstream status below 400 or one of the
  gateway's own 400, 404, 429, 502 and 503: never an upstream 401, 403 or 500.
\<close>

theorem cf_client_statuses:
  "let (out, p', h', cs) = ProxyCloudflare now body envs p h in
   (cf_reply_status out < 400 \<or> cf_reply_status out \<in> {400, 404, 429, 502, 503}) \<and>
   length (filter is_report cs) \<le> 12"
proof -
  have loop: "(case fst (cf_loop first es sn p h) of Cf_deliver r _ \<Rightarrow> hr_status r < 400 | _ \<Rightarrow> True) \<and>
      length (filter is_report (snd (snd (snd (cf_loop first es sn p h))))) \<le> length es" for first es sn p h
  proof (induction es arbitrary: first sn p h)
    case (Cons e es)
    show ?case
    proof (cases "CF_Next (fe_now e) (fe_world e p)")
      case (Pair res p1)
      show ?thesis
      proof (cases res)
        case (Inr a)
        obtain v sn2 p2 h2 cs where at: "cf_attempt e a sn p1 h = (v, sn2, p2, h2, cs)" by (metis prod_cases5)
        note f = cf_attempt_facts [OF at]
        show ?thesis
        proof (cases v)
          case Cf_go_on
          with Cons.IH [of False sn2 p2 h2] Pair Inr at f show ?thesis by (auto simp: Let_def split_beta)
        next
          case (Cf_give_up n)
          with Pair Inr at f show ?thesis by (simp add: Let_def)
        next
          case (Cf_take r)
          with Pair Inr at f show ?thesis by (simp add: Let_def split_beta)
        qed
      qed (simp add: Pair Let_def)
    qed
  qed simp
  have "(case fst (ProxyCloudflare now body envs p h) of Cf_deliver r _ \<Rightarrow> hr_status r < 400 | _ \<Rightarrow> True) \<and>
      length (filter is_report (snd (snd (snd (ProxyCloudflare now body envs p h))))) \<le> 12"
  proof (cases "fst (CanRequest now h) \<and> body \<noteq> None \<and> kp_keys p \<noteq> []")
    case True
    obtain h1 where c: "CanRequest now h = (True, h1)" using True by (cases "CanRequest now h") auto
    define m where "m = (if length (kp_keys p) < maxCFAttempts then length (kp_keys p) else maxCFAttempts)"
    have "ProxyCloudflare now body envs p h = cf_loop True (map envs [0..<m]) nothing_seen p h1"
      using True c by (auto simp: ProxyCloudflare_def m_def maxCFAttempts_def)
    moreover have "m \<le> 12" by (simp add: m_def maxCFAttempts_def)
    ultimately show ?thesis using loop [of True "map envs [0..<m]" nothing_seen p h1] by simp
  next
    case False
    then show ?thesis by (auto simp: ProxyCloudflare_def Let_def maxCFAttempts_def split: prod.split bool.split)
  qed
  then show ?thesis
    by (auto simp: cf_reply_status_def cf_failure_status_def split_beta Let_def split: cf_outcome.splits)
qed

text \<open>
  Streaming and collecting give the same text. For an event stream of up to 8 MiB without bare
  JSON lines, the text sent to a streaming client is the text of the collected reply. The fallback
  to the reasoning never comes into play, because an event's reasoning is taken for its text.
\<close>

theorem cf_stream_is_collected:
  assumes "length body \<le> 8 * 2 ^ 20" "\<not> str_contains contentType ''application/json''"
    and "\<forall>line \<in> set (scan_lines body). has_prefix line ''data: '' \<or> \<not> has_prefix (trim_space line) ''{''"
  shows "fst (cfCollectStream parse contentType body) = streamed_text (cf_stream_body parse (scan_lines body))"
  using collect_and_stream [OF assms(3), of "\<lparr>fl_content = [], fl_reasoning = [], fl_usage = no_usage\<rparr>" parse] assms(1,2)
  by (auto simp: cfCollectStream_def Let_def)

definition demo_cf_parse :: "string \<Rightarrow> json_map option" where
  "demo_cf_parse d = Some [''response'' \<mapsto> J_str d]"

theorem cf_stream_is_collected_witness:
  "fst (cfCollectStream demo_cf_parse ''text/event-stream'' (''data: Hi'' @ [CHR 10] @ ''data: [DONE]'' @ [CHR 10])) = ''Hi''"
proof -
  let ?b = "''data: Hi'' @ [CHR 10] @ ''data: [DONE]'' @ [CHR 10]"
  have len: "length ?b \<le> 8 * 2 ^ 20" by simp
  have ct: "\<not> str_contains ''text/event-stream'' ''application/json''" by code_simp
  have ls: "scan_lines ?b = [''data: Hi'', ''data: [DONE]'']" 
    by (simp add: scan_lines_def scan_within_def drop_cr_def trim_suffix_def has_suffix_def has_prefix_def)
  have data: "\<forall>line \<in> set (scan_lines ?b). has_prefix line ''data: '' \<or> \<not> has_prefix (trim_space line) ''{''"
    unfolding ls by (simp add: has_prefix_def)
  have tx: "extractCFText demo_cf_parse ''Hi'' = (''Hi'', None)"
    by (simp add: extractCFText_def demo_cf_parse_def cf_text_def text_field_def obj_field_def)
  from cf_stream_is_collected [OF len ct data, of demo_cf_parse] show ?thesis
    unfolding ls by (simp add: has_prefix_def trim_prefix_def tx)
qed

text \<open>A request whose every answer is a server error, with nobody else about.\<close>

definition server_errors :: "(nat \<Rightarrow> cf_env) \<Rightarrow> bool" where
  "server_errors envs \<longleftrightarrow>
     (\<forall>i. \<not> fe_cancelled (envs i) \<and> fe_world (envs i) = id \<and> fe_flight (envs i) = id \<and>
          (\<exists>r. fe_resp (envs i) = Inr r \<and> 500 \<le> hr_status r))"

text \<open>The breaker after a number of errors in a row.\<close>

definition strained :: "int \<Rightarrow> UpstreamHealth \<Rightarrow> bool" where
  "strained n h \<longleftrightarrow> n \<le> uh_consecutiveErrs h \<and>
     (uh_state h = CircuitOpen \<or> uh_state h = CircuitClosed \<and> uh_consecutiveErrs h < CB_OPEN_THRESHOLD)"

lemma strained_error: "strained n h \<Longrightarrow> strained (n + 1) (RecordRequest now d (Some msg) h)"
  by (auto simp: strained_def RecordRequest_def Let_def setCircuitState_def)

lemma CF_Next_some: "refs_ok p \<Longrightarrow> a \<in> set (kp_keys p) \<Longrightarrow> usable (utc_date now) p a \<Longrightarrow> \<exists>b. fst (CF_Next now p) = Inr b"
  using cf_next_most_left [of p now] by (cases "fst (CF_Next now p)") auto

text \<open>A key that can serve on any day: enabled and without a limit.\<close>

definition always_usable :: "cf_pool \<Rightarrow> nat \<Rightarrow> bool" where
  "always_usable p a \<longleftrightarrow>
     refs_ok p \<and> a \<in> set (kp_keys p) \<and> \<not> fk_disabled (key_at p a) \<and> fk_quotaLimit (key_at p a) \<le> 0"

lemma always_usable_Next: "always_usable p a \<Longrightarrow> always_usable (snd (CF_Next now p)) a"
  by (simp add: always_usable_def CF_Next_frame)

lemma server_errors_strain:
  assumes "\<forall>e \<in> set es. \<not> fe_cancelled e \<and> fe_world e = id \<and> fe_flight e = id \<and> (\<exists>r. fe_resp e = Inr r \<and> 500 \<le> hr_status r)"
    and "always_usable p a" "strained n h"
  shows "strained (n + int (length es)) (fst (snd (snd (cf_loop first es sn p h))))"
  using assms
proof (induction es arbitrary: first sn p h n)
  case (Cons e es)
  obtain r where e: "\<not> fe_cancelled e" "fe_world e = id" "fe_flight e = id" "fe_resp e = Inr r" "500 \<le> hr_status r"
    using Cons.prems(1) by (meson list.set_intros(1))
  have "usable (utc_date (fe_now e)) p a" "refs_ok p" "a \<in> set (kp_keys p)"
    using Cons.prems(2) by (simp_all add: always_usable_def usable_def quota_left_def)
  then obtain b where b: "fst (CF_Next (fe_now e) p) = Inr b" using CF_Next_some by blast
  define p1 where "p1 = snd (CF_Next (fe_now e) p)"
  have n: "CF_Next (fe_now e) p = (Inr b, p1)" using b by (metis p1_def prod.collapse)
  define h' where "h' = RecordRequest (fe_end e) (fe_latency e) (Some (''upstream '' @ show_int (hr_status r))) h"
  define sn' where "sn' = sn\<lparr>se_last := hr_status r, se_5xx := True\<rparr>"
  have at: "cf_attempt e b sn p1 h = (Cf_go_on, sn', p1, h', [Cf_proxy False (hr_status r)])"
    using e by (simp add: cf_attempt_def Let_def h'_def sn'_def)
  have p1: "always_usable p1 a" unfolding p1_def by (rule always_usable_Next [OF Cons.prems(2)])
  have h': "strained (n + 1) h'" unfolding h'_def by (rule strained_error [OF Cons.prems(3)])
  have "\<forall>e \<in> set es. \<not> fe_cancelled e \<and> fe_world e = id \<and> fe_flight e = id \<and> (\<exists>r. fe_resp e = Inr r \<and> 500 \<le> hr_status r)"
    using Cons.prems(1) by (meson list.set_intros(2))
  from Cons.IH [OF this p1 h']
  have "strained (n + 1 + int (length es)) (fst (snd (snd (cf_loop False es sn' p1 h'))))" .
  then show ?case by (simp add: e n at Let_def split_beta add.assoc)
qed simp

text \<open>
  One request can close Cloudflare to everybody. If all answers are server errors, a single
  request over a pool of five accounts or more opens a breaker that had seen no error, since every
  attempt of its walk is recorded as a request of its own.
\<close>

theorem cf_one_request_opens_breaker:
  assumes "server_errors envs" "always_usable p a" "5 \<le> length (kp_keys p)" "body \<noteq> None"
    and "uh_state h = CircuitClosed" "uh_consecutiveErrs h = 0"
  shows "uh_state (fst (snd (snd (ProxyCloudflare now body envs p h)))) = CircuitOpen"
proof -
  define m where "m = (if length (kp_keys p) < maxCFAttempts then length (kp_keys p) else maxCFAttempts)"
  have m: "5 \<le> m" using assms(3) by (simp add: m_def maxCFAttempts_def)
  have "CanRequest now h = (True, h)" using assms(5) by (simp add: CanRequest_def)
  then have run: "ProxyCloudflare now body envs p h = cf_loop True (map envs [0..<m]) nothing_seen p h"
    using assms(3,4) by (auto simp: ProxyCloudflare_def m_def maxCFAttempts_def)
  have "strained 0 h" using assms(5,6) by (simp add: strained_def CB_OPEN_THRESHOLD_def)
  from server_errors_strain [OF _ assms(2) this, of "map envs [0..<m]" True nothing_seen] assms(1)
  have "strained (int m) (fst (snd (snd (ProxyCloudflare now body envs p h))))"
    by (simp add: run server_errors_def)
  with m show ?thesis by (auto simp: strained_def CB_OPEN_THRESHOLD_def)
qed

definition failing_env :: cf_env where
  "failing_env =
     \<lparr>fe_cancelled = False, fe_world = id, fe_now = 5, fe_resp = Inr \<lparr>hr_status = 500, hr_sse = False, hr_body = []\<rparr>,
      fe_retry_header = [], fe_retry_body = None, fe_flight = id, fe_end = 6, fe_latency = 1\<rparr>"

definition five_accounts :: cf_pool where
  "five_accounts = \<lparr>kp_heap = map (\<lambda>i. fresh_cf [i] ''t'') ''abcde'', kp_keys = [0, 1, 2, 3, 4], kp_next = 0, kp_db = False\<rparr>"

theorem cf_one_request_opens_breaker_witness:
  "uh_state (fst (snd (snd (ProxyCloudflare 5 (Some Map.empty) (\<lambda>_. failing_env) five_accounts
     (NewUpstreamHealth ''cloudflare''))))) = CircuitOpen"
proof (rule cf_one_request_opens_breaker)
  show "server_errors (\<lambda>_. failing_env)" by (simp add: server_errors_def failing_env_def)
  show "always_usable five_accounts 0"
    by (auto simp: always_usable_def refs_ok_def five_accounts_def key_at_def fresh_cf_def)
qed (simp_all add: five_accounts_def NewUpstreamHealth_def)

end
