(* ===== verification/Routing.thy ===== *)
theory Routing
  imports Custom Combo Auth Cache Json
begin

text \<open>
  The request handler of \<open>internal/proxy/proxy.go\<close> and the buffered writer of
  \<open>internal/proxy/buffered_writer.go\<close>: how a chat completion passes the response cache, the
  custom aliases, the combos, the Grok aliases and the whitelist of its key, which upstream it is
  dispatched to, the fallback over the models of a combo, and the accounting afterwards.

  The upstream handlers are one function \<open>serve\<close> that answers a dispatched request and may
  change the world (pools, breakers) and the request context; the body transformations between
  parsing and the cache (guardrails, token saver) are one function \<open>stages\<close>. The body is a Go
  map that all steps share; marshalling it gives the bytes that are sent.
\<close>

section \<open>The model list\<close>

definition local_models :: "(string \<times> string) list" where
  "local_models =
    [(''grok-4.5'', ''xai''),
     (''grok-4.5-high'', ''xai''),
     (''grok-4.5-medium'', ''xai''),
     (''grok-4.5-low'', ''xai''),
     (''grok-4.5-xhigh'', ''xai''),
     (''grok-4.5-auto'', ''xai''),
     (''grok-4.5-none'', ''xai''),
     (''grok-4'', ''xai''),
     (''grok-4-fast-reasoning'', ''xai''),
     (''grok-code-fast-1'', ''xai''),
     (''cb/gpt-5.6-sol'', ''codebuddy''),
     (''cb/gpt-5.6-terra'', ''codebuddy''),
     (''cb/gpt-5.6-luna'', ''codebuddy''),
     (''cb/gpt-5.5'', ''codebuddy''),
     (''cb/gpt-5.4'', ''codebuddy''),
     (''cb/gpt-5.2'', ''codebuddy''),
     (''cb/gpt-5.1'', ''codebuddy''),
     (''cb/gpt-5'', ''codebuddy''),
     (''cb/gpt-4.1'', ''codebuddy''),
     (''cb/gpt-5.3-codex'', ''codebuddy''),
     (''cb/gpt-5.1-codex'', ''codebuddy''),
     (''cb/gpt-5.1-codex-mini'', ''codebuddy''),
     (''cb/claude-opus-4.7-1m'', ''codebuddy''),
     (''cb/claude-opus-4.6'', ''codebuddy''),
     (''cb/claude-sonnet-4.6'', ''codebuddy''),
     (''cb/claude-haiku-4.5'', ''codebuddy''),
     (''cb/gemini-3.1-pro'', ''codebuddy''),
     (''cb/gemini-3.5-flash'', ''codebuddy''),
     (''cb/gemini-3.0-flash'', ''codebuddy''),
     (''cb/gemini-2.5-pro'', ''codebuddy''),
     (''cb/gemini-2.5-flash'', ''codebuddy''),
     (''cb/gemini-3.1-flash-lite'', ''codebuddy''),
     (''cb/o3'', ''codebuddy''),
     (''cb/o4-mini'', ''codebuddy''),
     (''cb/glm-5.2'', ''codebuddy''),
     (''cb/glm-5.1'', ''codebuddy''),
     (''cb/glm-5.0'', ''codebuddy''),
     (''cb/glm-4.6'', ''codebuddy''),
     (''cb/deepseek-v3'', ''codebuddy''),
     (''cb/deepseek-v3.2'', ''codebuddy''),
     (''cb/kimi-k2.5'', ''codebuddy''),
     (''cb/kimi-k3'', ''codebuddy''),
     (''cb/default-model'', ''codebuddy''),
     (''@cf/meta/llama-3.2-1b-instruct'', ''cloudflare''),
     (''@cf/meta/llama-3.2-3b-instruct'', ''cloudflare''),
     (''@cf/meta/llama-3.1-8b-instruct-fp8-fast'', ''cloudflare''),
     (''@cf/meta/llama-3.2-11b-vision-instruct'', ''cloudflare''),
     (''@cf/meta/llama-3.1-70b-instruct-fp8-fast'', ''cloudflare''),
     (''@cf/meta/llama-3.3-70b-instruct-fp8-fast'', ''cloudflare''),
     (''@cf/deepseek-ai/deepseek-r1-distill-qwen-32b'', ''cloudflare''),
     (''@cf/mistral/mistral-7b-instruct-v0.1'', ''cloudflare''),
     (''@cf/mistralai/mistral-small-3.1-24b-instruct'', ''cloudflare''),
     (''@cf/meta/llama-3.1-8b-instruct'', ''cloudflare''),
     (''@cf/meta/llama-3.1-8b-instruct-fp8'', ''cloudflare''),
     (''@cf/meta/llama-3.1-8b-instruct-awq'', ''cloudflare''),
     (''@cf/meta/llama-3-8b-instruct'', ''cloudflare''),
     (''@cf/meta/llama-3-8b-instruct-awq'', ''cloudflare''),
     (''@cf/meta/llama-2-7b-chat-fp16'', ''cloudflare''),
     (''@cf/meta/llama-guard-3-8b'', ''cloudflare''),
     (''@cf/meta/llama-4-scout-17b-16e-instruct'', ''cloudflare''),
     (''@cf/google/gemma-3-12b-it'', ''cloudflare''),
     (''@cf/google/gemma-4-26b-a4b-it'', ''cloudflare''),
     (''@cf/qwen/qwq-32b'', ''cloudflare''),
     (''@cf/qwen/qwen2.5-coder-32b-instruct'', ''cloudflare''),
     (''@cf/qwen/qwen3-30b-a3b-fp8'', ''cloudflare''),
     (''@cf/openai/gpt-oss-120b'', ''cloudflare''),
     (''@cf/openai/gpt-oss-20b'', ''cloudflare''),
     (''@cf/aisingapore/gemma-sea-lion-v4-27b-it'', ''cloudflare''),
     (''@cf/ibm-granite/granite-4.0-h-micro'', ''cloudflare''),
     (''@cf/zai-org/glm-4.7-flash'', ''cloudflare''),
     (''@cf/zai-org/glm-5.2'', ''cloudflare''),
     (''@cf/nvidia/nemotron-3-120b-a12b'', ''cloudflare''),
     (''@cf/moonshotai/kimi-k2.5'', ''cloudflare''),
     (''@cf/moonshotai/kimi-k2.6'', ''cloudflare''),
     (''@cf/moonshotai/kimi-k2.7-code'', ''cloudflare''),
     (''cf/llama-70b'', ''cloudflare''),
     (''cf/llama-8b'', ''cloudflare''),
     (''cf/deepseek-r1'', ''cloudflare''),
     (''cf/qwen-32b'', ''cloudflare''),
     (''cf/mistral-7b'', ''cloudflare''),
     (''cf/kimi-k2.5'', ''cloudflare''),
     (''cf/kimi-k2.6'', ''cloudflare''),
     (''cf/kimi-k2.7-code'', ''cloudflare''),
     (''cf/glm-4.7-flash'', ''cloudflare''),
     (''cf/glm-5.2'', ''cloudflare''),
     (''cf/gpt-oss-120b'', ''cloudflare''),
     (''cf/gpt-oss-20b'', ''cloudflare''),
     (''cf/llama-4-scout'', ''cloudflare''),
     (''cf/gemma-4'', ''cloudflare''),
     (''cf/nemotron-3'', ''cloudflare''),
     (''@cf/baai/bge-base-en-v1.5'', ''cloudflare''),
     (''@cf/baai/bge-large-en-v1.5'', ''cloudflare''),
     (''@cf/baai/bge-small-en-v1.5'', ''cloudflare''),
     (''@cf/black-forest-labs/flux-1-schnell'', ''cloudflare'')]"

text \<open>\<open>GET /v1/models\<close>: the local list, custom models, combos, less the hidden ones.\<close>

definition list_models :: "(string \<times> string) list \<Rightarrow> string list \<Rightarrow> string set option \<Rightarrow> (string \<times> string) list" where
  "list_models customs combos hidden =
     (let models = local_models @ customs @ map (\<lambda>name. (''combo/'' @ name, ''combo'')) combos
      in case hidden of
           None \<Rightarrow> models
         | Some h \<Rightarrow> if h = {} then models else filter (\<lambda>(i, _). i \<notin> h) models)"

section \<open>Resolution\<close>

definition resolve_custom :: "custom_registry option \<Rightarrow> string \<Rightarrow> string \<times> string \<times> string" where
  "resolve_custom registry model =
     (case registry of None \<Rightarrow> (model, [], []) | Some r \<Rightarrow> CustomRegistry_Resolve model r)"

record resolution =
  rz_model :: string
  rz_upstream :: string
  rz_model_name :: string
  rz_combo :: string
  rz_strategy :: string

definition resolve_model ::
  "custom_registry option \<Rightarrow> combo_registry option \<Rightarrow> health_checker option \<Rightarrow> rr_reply \<Rightarrow> string \<Rightarrow>
   combo_counters \<Rightarrow> resolution \<times> combo_counters" where
  "resolve_model registry combos hc reply model0 k =
     (let (model, up, mn) = resolve_custom registry model0;
          plain = \<lparr>rz_model = model, rz_upstream = up, rz_model_name = mn, rz_combo = [], rz_strategy = []\<rparr>
      in case combos of
           None \<Rightarrow> (plain, k)
         | Some cr \<Rightarrow>
           (case ComboRegistry_Resolve reply hc model cr k of
              (None, k') \<Rightarrow> (plain, k')
            | (Some nxt, k') \<Rightarrow>
              (let name = (if has_prefix model ''combo/'' then trim_prefix model ''combo/'' else []);
                   strategy = (if has_prefix model ''combo/''
                               then (case GetCombo name cr of Some cb \<Rightarrow> cb_Strategy cb | None \<Rightarrow> []) else []);
                   (model', up', mn') = resolve_custom registry nxt
               in (\<lparr>rz_model = model', rz_upstream = up', rz_model_name = mn', rz_combo = name,
                    rz_strategy = strategy\<rparr>, k'))))"

text \<open>The Grok aliases; the effort is set only if the body has none yet.\<close>

definition expand_effort :: "string \<Rightarrow> string \<Rightarrow> json_map \<Rightarrow> string \<times> json_map" where
  "expand_effort up model bm =
     (if up \<noteq> [] then (model, bm)
      else case ExpandGrokAlias model of
             None \<Rightarrow> (model, bm)
           | Some effort \<Rightarrow>
             (let bm1 = bm(''model'' \<mapsto> J_str ''grok-4.5'')
              in (''grok-4.5'',
                  if \<not> has_field bm1 ''reasoning_effort'' \<and> \<not> has_field bm1 ''reasoning''
                  then bm1(''reasoning_effort'' \<mapsto> J_str effort) else bm1)))"

definition key_allows :: "manager option \<Rightarrow> string \<Rightarrow> string \<Rightarrow> bool" where
  "key_allows mgr key model =
     (case mgr of
        None \<Rightarrow> True
      | Some m \<Rightarrow>
        key = [] \<or>
        (case map_of m key of None \<Rightarrow> True | Some info \<Rightarrow> IsModelAllowed (ki_AllowedModels info) model))"

section \<open>Dispatch\<close>

datatype target =
    To_grok string json_map
  | To_codebuddy json_map
  | To_cloudflare json_map

fun upstream_name :: "target \<Rightarrow> string" where
  "upstream_name (To_grok m bm) = ''grok''"
| "upstream_name (To_codebuddy bm) = ''codebuddy''"
| "upstream_name (To_cloudflare bm) = ''cloudflare''"

fun target_body :: "target \<Rightarrow> json_map" where
  "target_body (To_grok m bm) = bm"
| "target_body (To_codebuddy bm) = bm"
| "target_body (To_cloudflare bm) = bm"

definition dispatch :: "string \<Rightarrow> string \<Rightarrow> string \<Rightarrow> json_map \<Rightarrow> target" where
  "dispatch customUpstream customModelName m bm =
     (if customUpstream = ''grok'' then
        (if customModelName \<noteq> []
         then To_grok customModelName (bm(''model'' \<mapsto> J_str customModelName))
         else To_grok m bm)
      else if customUpstream = ''codebuddy'' then
        To_codebuddy (if customModelName \<noteq> [] then bm(''model'' \<mapsto> J_str (''cb/'' @ customModelName)) else bm)
      else if IsCFModel m then
        To_cloudflare (case ExpandCFAlias m of Some e \<Rightarrow> bm(''model'' \<mapsto> J_str e) | None \<Rightarrow> bm)
      else if IsGrokModel m then To_grok m bm
      else To_codebuddy bm)"

section \<open>The buffered writer\<close>

type_synonym headers = "(string \<times> string) list"

record bufferedWriter =
  bw_buf :: string
  bw_status :: int
  bw_headers :: headers
  bw_written :: bool

definition newBufferedWriter :: bufferedWriter where
  "newBufferedWriter = \<lparr>bw_buf = [], bw_status = 200, bw_headers = [], bw_written = False\<rparr>"

definition bw_WriteHeader :: "int \<Rightarrow> bufferedWriter \<Rightarrow> bufferedWriter" where
  "bw_WriteHeader code b = (if bw_written b then b else b\<lparr>bw_status := code, bw_written := True\<rparr>)"

definition bw_Write :: "string \<Rightarrow> bufferedWriter \<Rightarrow> bufferedWriter" where
  "bw_Write bytes b = b\<lparr>bw_written := True, bw_buf := bw_buf b @ bytes\<rparr>"

text \<open>What a handler does to its writer, and what the client gets when the buffer is flushed.\<close>

datatype writer_op = Add_header string string | Write_status int | Write_bytes string

fun bw_op :: "writer_op \<Rightarrow> bufferedWriter \<Rightarrow> bufferedWriter" where
  "bw_op (Add_header k v) b = b\<lparr>bw_headers := bw_headers b @ [(k, v)]\<rparr>"
| "bw_op (Write_status code) b = bw_WriteHeader code b"
| "bw_op (Write_bytes bytes) b = bw_Write bytes b"

definition buffered :: "writer_op list \<Rightarrow> bufferedWriter" where
  "buffered ops = fold bw_op ops newBufferedWriter"

definition bw_flush :: "bufferedWriter \<Rightarrow> writer_op list" where
  "bw_flush b = map (\<lambda>(k, v). Add_header k v) (bw_headers b) @ [Write_status (bw_status b)] @
     (if length (bw_buf b) > 0 then [Write_bytes (bw_buf b)] else [])"

text \<open>The status the client sees for a handler that writes to the connection itself.\<close>

definition written_status :: "writer_op list \<Rightarrow> int" where
  "written_status ops = bw_status (buffered ops)"

section \<open>The handler\<close>

text \<open>What the steps leave in the request context for the accounting.\<close>

record request_ctx =
  cx_tokens_in :: int
  cx_tokens_out :: int
  cx_neurons :: "rat option"
  cx_error_msg :: "string option"
  cx_response_body :: "string option"
  cx_account :: string

definition empty_ctx :: request_ctx where
  "empty_ctx = \<lparr>cx_tokens_in = 0, cx_tokens_out = 0, cx_neurons = None, cx_error_msg = None,
     cx_response_body = None, cx_account = []\<rparr>"

type_synonym 'w serve = "bool \<Rightarrow> target \<Rightarrow> request_ctx \<Rightarrow> 'w \<Rightarrow> writer_op list \<times> request_ctx \<times> 'w"

text \<open>
  The fallback loop. One body map goes through all candidates; the candidate's model replaces
  the last one's, but an effort that one candidate set stays.
\<close>

definition fallback_candidate :: "custom_registry option \<Rightarrow> string \<Rightarrow> json_map \<Rightarrow> string \<times> json_map \<times> target" where
  "fallback_candidate registry candidate bm =
     (let (m1, up, mn) = resolve_custom registry candidate;
          (m2, bm1) = expand_effort up m1 bm;
          bm2 = bm1(''model'' \<mapsto> J_str m2);
          t = dispatch up mn m2 bm2
      in (m2, target_body t, t))"

definition acceptable :: "int \<Rightarrow> bool" where
  "acceptable status \<longleftrightarrow> status < 500 \<and> status \<noteq> 404"

record 'w loop_result =
  lr_trace :: "(target \<times> bufferedWriter) list"
  lr_model :: string
  lr_body :: json_map
  lr_ctx :: request_ctx
  lr_world :: 'w

fun fallback_loop ::
  "'w serve \<Rightarrow> custom_registry option \<Rightarrow> string list \<Rightarrow> string \<Rightarrow> json_map \<Rightarrow> request_ctx \<Rightarrow> 'w \<Rightarrow> 'w loop_result" where
  "fallback_loop serve registry [] model bm cx w =
     \<lparr>lr_trace = [], lr_model = model, lr_body = bm, lr_ctx = cx, lr_world = w\<rparr>"
| "fallback_loop serve registry (candidate # cs) model bm cx w =
     (let (m, bm', t) = fallback_candidate registry candidate bm;
          (ops, cx', w') = serve False t cx w;
          b = buffered ops
      in if acceptable (bw_status b)
         then \<lparr>lr_trace = [(t, b)], lr_model = m, lr_body = bm', lr_ctx = cx', lr_world = w'\<rparr>
         else (let r = fallback_loop serve registry cs m bm' cx' w'
               in r\<lparr>lr_trace := (t, b) # lr_trace r\<rparr>))"

definition fallback_strategies :: "string list" where
  "fallback_strategies = [''fallback'', ''fill_first'', ''priority'']"

record log_entry =
  le_Model :: string
  le_Upstream :: string
  le_StatusCode :: int
  le_TokensIn :: int
  le_TokensOut :: int
  le_CostUsd :: rat
  le_ErrorMsg :: string

datatype routing_call =
    Key_calls "key_call list"
  | Add_usage string int rat
  | Log_request log_entry

datatype chat_reply =
    Not_found
  | Body_too_large
  | Read_failed
  | Invalid_json
  | Handler_panic
  | Cache_hit string
  | Model_forbidden string
  | Written "writer_op list"

text \<open>
  The body as it is read and decoded. A JSON \<open>null\<close> leaves the map nil, and storing the default
  model in it panics (the recovery middleware then answers 500).
\<close>

datatype body_read = Too_large | Unreadable | Not_json | Null_body | Body json_map

record 'w routing_env =
  re_path :: string
  re_body :: body_read
  re_client_key :: string
  re_accept_sse :: bool
  re_registry :: "custom_registry option"
  re_combos :: "combo_registry option"
  re_hc :: "health_checker option"
  re_incr :: rr_reply
  re_stages :: "string \<Rightarrow> json_map \<Rightarrow> json_map"
  re_digest :: "string \<times> json option \<times> json option \<Rightarrow> string"
  re_get_at :: gotime
  re_put_at :: gotime
  re_serve :: "'w serve"
  re_keys_db :: bool
  re_quota :: bool
  re_log :: bool

record 'w gateway =
  gw_manager :: "manager option"
  gw_cache :: "cache_store option"
  gw_counters :: combo_counters
  gw_world :: 'w

text \<open>The family the cost of a request is booked under, and its cost there and in the log.\<close>

definition usage_cost :: "string \<Rightarrow> request_ctx \<Rightarrow> rat" where
  "usage_cost model cx =
     (if has_prefix model ''@cf/'' \<or> has_prefix model ''cf/''
      then (case cx_neurons cx of Some n \<Rightarrow> USDNeurons n | None \<Rightarrow> 0)
      else USD price_table model (cx_tokens_in cx) (cx_tokens_out cx))"

definition log_cost :: "string \<Rightarrow> request_ctx \<Rightarrow> rat" where
  "log_cost model cx =
     (if has_prefix model ''@cf/'' then USDNeurons (case cx_neurons cx of Some n \<Rightarrow> n | None \<Rightarrow> 0)
      else USD price_table model (cx_tokens_in cx) (cx_tokens_out cx))"

definition charge_key ::
  "bool \<Rightarrow> string \<Rightarrow> request_ctx \<Rightarrow> manager option \<Rightarrow> manager option \<times> key_call list" where
  "charge_key has_db key cx mgr =
     (case mgr of
        None \<Rightarrow> (None, [])
      | Some m \<Rightarrow>
        if key = [] then (Some m, [])
        else
          let total = wrap64 (cx_tokens_in cx + cx_tokens_out cx);
              (m', cs) = (if total > 0 then IncrementTokens has_db key total m else IncrementRequests has_db key m)
          in (Some m', cs))"

text \<open>The accounting once the reply is written.\<close>

definition account_request ::
  "'w routing_env \<Rightarrow> string \<Rightarrow> bool \<Rightarrow> string \<Rightarrow> string \<Rightarrow> int \<Rightarrow> request_ctx \<Rightarrow> 'w gateway \<Rightarrow>
   'w gateway \<times> routing_call list" where
  "account_request env cacheKey streamReq model upstream status cx g =
     (let (mgr', cs) = charge_key (re_keys_db env) (re_client_key env) cx (gw_manager g);
          usage = (if re_quota env
                   then [Add_usage upstream (wrap64 (cx_tokens_in cx + cx_tokens_out cx)) (usage_cost model cx)] else []);
          cache' = (case gw_cache g of
              None \<Rightarrow> None
            | Some s \<Rightarrow>
              if cacheKey \<noteq> [] \<and> status = 200 \<and> \<not> streamReq
              then (case cx_response_body cx of
                      Some body \<Rightarrow> if body \<noteq> [] then Some (cache_Put (re_put_at env) cacheKey body s) else Some s
                    | None \<Rightarrow> Some s)
              else Some s);
          logs = (if re_log env \<and> re_path env = ''/v1/chat/completions''
                  then [Log_request \<lparr>le_Model = model, le_Upstream = upstream, le_StatusCode = status,
                          le_TokensIn = cx_tokens_in cx, le_TokensOut = cx_tokens_out cx,
                          le_CostUsd = log_cost model cx,
                          le_ErrorMsg = (case cx_error_msg cx of Some e \<Rightarrow> e | None \<Rightarrow> [])\<rparr>]
                  else [])
      in (g\<lparr>gw_manager := mgr', gw_cache := cache'\<rparr>, [Key_calls cs] @ usage @ logs))"

text \<open>From the resolved model on: the whitelist, the dispatch, the accounting.\<close>

definition serve_model ::
  "'w routing_env \<Rightarrow> string \<Rightarrow> bool \<Rightarrow> resolution \<Rightarrow> json_map \<Rightarrow> 'w gateway \<Rightarrow>
   chat_reply \<times> target list \<times> 'w gateway \<times> routing_call list" where
  "serve_model env cacheKey streamReq rz bm0 g =
     (let (model, bm) = expand_effort (rz_upstream rz) (rz_model rz) bm0 in
      if \<not> key_allows (gw_manager g) (re_client_key env) model then (Model_forbidden model, [], g, [])
      else
        let clientStream = (true_field bm ''stream'' \<or> re_accept_sse env) in
        if rz_combo rz \<noteq> [] \<and> rz_strategy rz \<in> set fallback_strategies \<and> \<not> clientStream then
          (let candidates = (case re_combos env of
                 None \<Rightarrow> [] | Some cr \<Rightarrow> (case GetCombo (rz_combo rz) cr of Some cb \<Rightarrow> cb_Models cb | None \<Rightarrow> []));
               r = fallback_loop (re_serve env) (re_registry env) candidates model bm empty_ctx (gw_world g);
               trace = map fst (lr_trace r);
               ops = (if lr_trace r = [] then [] else bw_flush (snd (last (lr_trace r))));
               upstream = (if trace = [] then ''codebuddy'' else upstream_name (last trace));
               (g', cs) = account_request env cacheKey streamReq (lr_model r) upstream (written_status ops)
                            (lr_ctx r) (g\<lparr>gw_world := lr_world r\<rparr>)
           in (Written ops, trace, g', cs))
        else
          (let t = dispatch (rz_upstream rz) (rz_model_name rz) model bm;
               (ops, cx, w) = re_serve env clientStream t empty_ctx (gw_world g);
               (g', cs) = account_request env cacheKey streamReq model (upstream_name t) (written_status ops)
                            cx (g\<lparr>gw_world := w\<rparr>)
           in (Written ops, [t], g', cs)))"

definition chat_model :: "json_map \<Rightarrow> string" where
  "chat_model bm = (if str_field bm ''model'' = [] then ''grok-4.5'' else str_field bm ''model'')"

definition ProxyRequest ::
  "'w routing_env \<Rightarrow> 'w gateway \<Rightarrow> chat_reply \<times> target list \<times> 'w gateway \<times> routing_call list" where
  "ProxyRequest env g =
     (if re_path env \<noteq> ''/v1/chat/completions'' \<and> re_path env \<noteq> ''/chat/completions''
      then (Not_found, [], g, [])
      else case re_body env of
             Too_large \<Rightarrow> (Body_too_large, [], g, [])
           | Unreadable \<Rightarrow> (Read_failed, [], g, [])
           | Not_json \<Rightarrow> (Invalid_json, [], g, [])
           | Null_body \<Rightarrow> (Handler_panic, [], g, [])
           | Body bm0 \<Rightarrow>
             (let model = chat_model bm0;
                  bm = re_stages env model (bm0(''model'' \<mapsto> J_str model));
                  streamReq = true_field bm ''stream'';
                  use_cache = (\<not> streamReq \<and> (case gw_cache g of None \<Rightarrow> False | Some s \<Rightarrow> cs_enabled s));
                  cacheKey = (if use_cache then KeyFromChat (re_digest env) model bm else []);
                  (hit, cache') = (case gw_cache g of
                      None \<Rightarrow> (None, None)
                    | Some s \<Rightarrow> if use_cache then map_prod id Some (cache_Get (re_get_at env) cacheKey s) else (None, Some s));
                  g1 = g\<lparr>gw_cache := cache'\<rparr>
              in case hit of
                   Some body \<Rightarrow> (Cache_hit body, [], g1, [])
                 | None \<Rightarrow>
                   (let (rz, k') = resolve_model (re_registry env) (re_combos env) (re_hc env) (re_incr env)
                          model (gw_counters g1);
                        bm' = (if rz_model rz = model \<and> rz_combo rz = [] then bm
                               else bm(''model'' \<mapsto> J_str (rz_model rz)))
                    in serve_model env cacheKey streamReq rz bm' (g1\<lparr>gw_counters := k'\<rparr>))))"

section \<open>Lemmas\<close>

lemma expand_effort_model:
  "fst (expand_effort up m bm) = (if up \<noteq> [] then m else case ExpandGrokAlias m of None \<Rightarrow> m | Some _ \<Rightarrow> ''grok-4.5'')"
  by (simp add: expand_effort_def Let_def split: option.split)

lemma dispatch_upstream:
  "upstream_name (dispatch up mn m bm) =
     (if up = ''grok'' then ''grok'' else if up = ''codebuddy'' then ''codebuddy''
      else if IsCFModel m then ''cloudflare'' else if IsGrokModel m then ''grok'' else ''codebuddy'')"
  by (simp add: dispatch_def)

text \<open>
  What is to be sent for a candidate of a combo, read off the candidate alone: the upstream, the
  model under its name there (a custom model's own name, \<open>grok-4.5\<close> for a Grok alias, the Workers
  AI id for a Cloudflare alias), and the effort a Grok alias stands for.
\<close>

definition candidate_alias :: "custom_registry option \<Rightarrow> string \<Rightarrow> string option" where
  "candidate_alias registry c =
     (let (m, up, mn) = resolve_custom registry c in if up = [] then ExpandGrokAlias m else None)"

definition candidate_name :: "custom_registry option \<Rightarrow> string \<Rightarrow> string" where
  "candidate_name registry c =
     (if candidate_alias registry c = None then fst (resolve_custom registry c) else ''grok-4.5'')"

definition candidate_upstream :: "custom_registry option \<Rightarrow> string \<Rightarrow> string" where
  "candidate_upstream registry c =
     (let up = fst (snd (resolve_custom registry c))
      in if up = ''grok'' \<or> up = ''codebuddy'' then up
         else if IsCFModel (candidate_name registry c) then ''cloudflare''
         else if IsGrokModel (candidate_name registry c) then ''grok'' else ''codebuddy'')"

definition candidate_model :: "custom_registry option \<Rightarrow> string \<Rightarrow> string" where
  "candidate_model registry c =
     (let (m, up, mn) = resolve_custom registry c; name = candidate_name registry c
      in if up = ''grok'' \<and> mn \<noteq> [] then mn
         else if up = ''codebuddy'' \<and> mn \<noteq> [] then ''cb/'' @ mn
         else if up \<noteq> ''grok'' \<and> up \<noteq> ''codebuddy'' \<and> IsCFModel name
         then (case ExpandCFAlias name of Some e \<Rightarrow> e | None \<Rightarrow> name)
         else name)"

definition with_effort :: "string option \<Rightarrow> json_map \<Rightarrow> json_map" where
  "with_effort effort bm =
     (case effort of
        Some e \<Rightarrow>
          if has_field bm ''reasoning_effort'' \<or> has_field bm ''reasoning'' then bm
          else bm(''reasoning_effort'' \<mapsto> J_str e)
      | None \<Rightarrow> bm)"

text \<open>
  The attempts for a list of candidates: the upstream and the body of each. The body is the
  client's with the candidate's model, and with the effort of the first alias so far, if the
  client named none.
\<close>

fun attempts :: "custom_registry option \<Rightarrow> string list \<Rightarrow> json_map \<Rightarrow> (string \<times> json_map) list" where
  "attempts registry [] bm = []"
| "attempts registry (c # cs) bm =
     (let bm' = with_effort (candidate_alias registry c) bm
      in (candidate_upstream registry c, bm'(''model'' \<mapsto> J_str (candidate_model registry c))) #
         attempts registry cs bm')"

text \<open>A Grok request names its model twice, for the call and in the body.\<close>

fun named_alike :: "target \<Rightarrow> bool" where
  "named_alike (To_grok m bm) = (bm ''model'' = Some (J_str m))"
| "named_alike _ = True"

text \<open>The answers when targets are served one after the other.\<close>

fun serve_all :: "'w serve \<Rightarrow> target list \<Rightarrow> request_ctx \<Rightarrow> 'w \<Rightarrow> bufferedWriter list" where
  "serve_all serve [] cx w = []"
| "serve_all serve (t # ts) cx w =
     (let (ops, cx', w') = serve False t cx w in buffered ops # serve_all serve ts cx' w')"

lemma has_field_model [simp]:
  "has_field (bm(''model'' \<mapsto> v)) ''reasoning_effort'' = has_field bm ''reasoning_effort''"
  "has_field (bm(''model'' \<mapsto> v)) ''reasoning'' = has_field bm ''reasoning''"
  by (simp_all add: has_field_def)

lemma with_effort_model: "with_effort e (bm(''model'' \<mapsto> v)) = (with_effort e bm)(''model'' \<mapsto> v)"
  by (simp add: with_effort_def fun_upd_twist split: option.split)

lemma attempts_model: "attempts registry cs (bm(''model'' \<mapsto> v)) = attempts registry cs bm"
  by (induction cs arbitrary: bm) (simp_all add: Let_def with_effort_model)

lemma candidate_sent:
  assumes "fallback_candidate registry c bm = (m, bm', t)"
  shows "bm' = target_body t" and "named_alike t" and "upstream_name t = candidate_upstream registry c"
    and "target_body t =
      (with_effort (candidate_alias registry c) bm)(''model'' \<mapsto> J_str (candidate_model registry c))"
proof -
  obtain m1 up mn where r: "resolve_custom registry c = (m1, up, mn)" by (metis prod_cases3)
  have e: "(snd (expand_effort up m1 bm))(''model'' \<mapsto> v) =
      (with_effort (candidate_alias registry c) bm)(''model'' \<mapsto> v)" for v
    by (simp add: expand_effort_def candidate_alias_def r with_effort_def Let_def fun_upd_twist
        split: option.split)
  have n: "fst (expand_effort up m1 bm) = candidate_name registry c"
    by (simp add: expand_effort_model candidate_name_def candidate_alias_def r split: option.split)
  define d where "d = dispatch up mn (candidate_name registry c)
      ((with_effort (candidate_alias registry c) bm)(''model'' \<mapsto> J_str (candidate_name registry c)))"
  have "t = d \<and> bm' = target_body d"
    using assms by (auto simp: fallback_candidate_def r split_beta Let_def n e d_def)
  then show "bm' = target_body t" "named_alike t" "upstream_name t = candidate_upstream registry c"
    "target_body t =
      (with_effort (candidate_alias registry c) bm)(''model'' \<mapsto> J_str (candidate_model registry c))"
    by (auto simp: d_def dispatch_def candidate_upstream_def candidate_model_def r Let_def split: option.split)
qed

lemma serve_model_trace:
  "fst (snd (serve_model env key s rz bm g)) =
     (if key_allows (gw_manager g) (re_client_key env) (fst (expand_effort (rz_upstream rz) (rz_model rz) bm))
      then fst (snd (serve_model env key s rz bm (g\<lparr>gw_manager := None\<rparr>))) else [])"
  by (simp add: serve_model_def split_beta Let_def key_allows_def)

section \<open>Properties\<close>

text \<open>
  The model list keeps its word. Every model that \<open>GET /v1/models\<close> lists by itself is
  dispatched to the upstream it is listed under, and every Cloudflare model of the list has a
  Workers AI id.
\<close>

theorem advertised_models_route:
  "list_all (\<lambda>(i, owner).
      upstream_name (dispatch [] [] (fst (expand_effort [] i bm)) bm') =
        (if owner = ''xai'' then ''grok'' else owner) \<and>
      (if owner = ''cloudflare'' then ExpandCFAlias i \<noteq> None else True)) local_models"
proof -
  have "list_all (\<lambda>(i, owner).
      (let m = (case ExpandGrokAlias i of None \<Rightarrow> i | Some _ \<Rightarrow> ''grok-4.5'') in
       if IsCFModel m then ''cloudflare'' else if IsGrokModel m then ''grok'' else ''codebuddy'') =
        (if owner = ''xai'' then ''grok'' else owner) \<and>
      (if owner = ''cloudflare'' then ExpandCFAlias i \<noteq> None else True)) local_models"
    by code_simp
  then show ?thesis
    by (simp add: dispatch_upstream expand_effort_model Let_def cong: list.pred_cong)
qed

definition head_model :: "'w routing_env \<Rightarrow> 'w gateway \<Rightarrow> string" where
  "head_model env g =
     (case re_body env of
        Body bm0 \<Rightarrow>
          (let rz = fst (resolve_model (re_registry env) (re_combos env) (re_hc env) (re_incr env)
                 (chat_model bm0) (gw_counters g))
           in fst (expand_effort (rz_upstream rz) (rz_model rz) Map.empty))
      | _ \<Rightarrow> [])"

text \<open>
  C15: The whitelist is checked once, on the head model. Whatever upstream calls a request
  makes, they are those of the same request with the key check switched off, if the key may use
  the model the request resolves to, and none otherwise. In particular the further models of a
  fallback combo are not checked, and a cached response is served to any key.
\<close>

theorem whitelist_checked_once:
  fixes env :: "'w routing_env" and g :: "'w gateway"
  shows "fst (snd (ProxyRequest env g)) =
    (if key_allows (gw_manager g) (re_client_key env) (head_model env g)
     then fst (snd (ProxyRequest env (g\<lparr>gw_manager := None\<rparr>))) else [])"
proof (cases "re_body env")
  case (Body bm0)
  define model where "model = chat_model bm0"
  define bm where "bm = re_stages env model (bm0(''model'' \<mapsto> J_str model))"
  define streamReq where "streamReq = true_field bm ''stream''"
  define use_cache where
    "use_cache = (\<not> streamReq \<and> (case gw_cache g of None \<Rightarrow> False | Some s \<Rightarrow> cs_enabled s))"
  define key where "key = (if use_cache then KeyFromChat (re_digest env) model bm else [])"
  define looked where "looked = (case gw_cache g of
      None \<Rightarrow> (None, None)
    | Some s \<Rightarrow> if use_cache then map_prod id Some (cache_Get (re_get_at env) key s) else (None, Some s))"
  define rk where "rk = resolve_model (re_registry env) (re_combos env) (re_hc env) (re_incr env) model (gw_counters g)"
  define bm' where "bm' = (if rz_model (fst rk) = model \<and> rz_combo (fst rk) = [] then bm
      else bm(''model'' \<mapsto> J_str (rz_model (fst rk))))"
  let ?path = "re_path env = ''/v1/chat/completions'' \<or> re_path env = ''/chat/completions''"
  define S where "S mgr = fst (snd (serve_model env key streamReq (fst rk) bm'
      (g\<lparr>gw_manager := mgr, gw_cache := snd looked, gw_counters := snd rk\<rparr>)))" for mgr
  have run: "fst (snd (ProxyRequest env (g\<lparr>gw_manager := mgr\<rparr>))) =
      (if ?path \<and> fst looked = None then S mgr else [])" for mgr
    unfolding S_def ProxyRequest_def Body body_read.case model_def bm_def streamReq_def use_cache_def key_def looked_def rk_def bm'_def
    by (simp add: split_beta Let_def split: option.split)
  have "fst (expand_effort (rz_upstream (fst rk)) (rz_model (fst rk)) bm') = head_model env g"
    by (simp add: head_model_def Body rk_def model_def expand_effort_model Let_def)
  then have checked: "S mgr = (if key_allows mgr (re_client_key env) (head_model env g) then S None else [])" for mgr
    using serve_model_trace [of env key streamReq "fst rk" bm'
        "g\<lparr>gw_manager := mgr, gw_cache := snd looked, gw_counters := snd rk\<rparr>"] by (cases g) (simp add: S_def)
  have same: "g\<lparr>gw_manager := gw_manager g\<rparr> = g" by simp
  show ?thesis
    using run [of "gw_manager g"] run [of None] checked [of "gw_manager g"] unfolding same by simp
qed (simp_all add: ProxyRequest_def)

definition failed_answer :: "int \<Rightarrow> bool" where
  "failed_answer status \<longleftrightarrow> status \<ge> 500 \<or> status = 404"

lemma acceptable_iff: "acceptable status \<longleftrightarrow> \<not> failed_answer status"
  by (auto simp: acceptable_def failed_answer_def)

text \<open>
  C16: The fallback loop tries the combo's models in order and stops at the first acceptable
  answer. The attempts made are the first ones of the combo's list, each sent to the upstream
  its model belongs to, with the client's body in which \<open>model\<close> is that model under its name
  there (and the effort of the first Grok alias so far, if the client named none); the answers
  are those of serving these attempts one after the other. All but the last are failures (a
  status from 500 or a 404), and the last one is a failure only when the list is exhausted.
\<close>

theorem fallback_first_acceptable:
  fixes serve :: "'w serve" and registry :: "custom_registry option" and m :: string and bm :: json_map
    and cx :: request_ctx and w :: 'w
  assumes "cs \<noteq> []"
  defines "tr \<equiv> lr_trace (fallback_loop serve registry cs m bm cx w)"
  shows "tr \<noteq> [] \<and>
    map (\<lambda>(t, b). (upstream_name t, target_body t)) tr = take (length tr) (attempts registry cs bm) \<and>
    list_all (\<lambda>(t, b). named_alike t) tr \<and>
    map snd tr = serve_all serve (map fst tr) cx w \<and>
    list_all (\<lambda>(t, b). failed_answer (bw_status b)) (butlast tr) \<and>
    (if length tr < length cs then \<not> failed_answer (bw_status (snd (last tr))) else length tr = length cs)"
  unfolding tr_def using assms(1)
proof (induction cs arbitrary: m bm cx w)
  case (Cons c cs)
  obtain m' bm' t where cand: "fallback_candidate registry c bm = (m', bm', t)" by (metis prod_cases3)
  obtain ops cx' w' where sv: "serve False t cx w = (ops, cx', w')" by (metis prod_cases3)
  note sent = candidate_sent [OF cand]
  show ?case
  proof (cases "acceptable (bw_status (buffered ops))")
    case True
    then show ?thesis by (simp add: cand sv Let_def sent acceptable_iff)
  next
    case bad: False
    let ?r = "fallback_loop serve registry cs m' bm' cx' w'"
    have tr: "lr_trace (fallback_loop serve registry (c # cs) m bm cx w) = (t, buffered ops) # lr_trace ?r"
      using bad by (simp add: cand sv Let_def)
    show ?thesis
    proof (cases "cs = []")
      case True
      with bad show ?thesis unfolding tr by (simp add: sv sent acceptable_iff Let_def)
    next
      case False
      have rest: "attempts registry cs bm' = attempts registry cs (with_effort (candidate_alias registry c) bm)"
        by (simp only: sent(1,4) attempts_model)
      from False Cons.IH [of m' bm' cx' w', unfolded rest] bad show ?thesis
        unfolding tr by (simp add: sv sent(2-4) acceptable_iff Let_def)
    qed
  qed
qed simp

definition demo_serve :: "unit serve" where
  "demo_serve stream t cx w =
     ([Write_status (if upstream_name t = ''grok'' then 503 else 200), Write_bytes ''{}''], cx, w)"

theorem fallback_first_acceptable_witness:
  "let tr = lr_trace (fallback_loop demo_serve None [''grok-4.5-high'', ''cb/o3'', ''@cf/x''] [] Map.empty empty_ctx ())
   in map (\<lambda>(t, b). (upstream_name t, target_body t ''model'', target_body t ''reasoning_effort'')) tr =
        [(''grok'', Some (J_str ''grok-4.5''), Some (J_str ''high'')),
         (''codebuddy'', Some (J_str ''cb/o3''), Some (J_str ''high''))] \<and>
      list_all (\<lambda>(t, b). failed_answer (bw_status b)) (butlast tr)"
proof -
  let ?cs = "[''grok-4.5-high'', ''cb/o3'', ''@cf/x'']"
  let ?tr = "lr_trace (fallback_loop demo_serve None ?cs [] Map.empty empty_ctx ())"
  have two: "length ?tr = 2" by code_simp
  have all: "map (\<lambda>(t, b). (upstream_name t, target_body t)) ?tr = take 2 (attempts None ?cs Map.empty)"
    "list_all (\<lambda>(t, b). failed_answer (bw_status b)) (butlast ?tr)"
    using fallback_first_acceptable [OF list.simps(3), of demo_serve None "''grok-4.5-high''" "[''cb/o3'', ''@cf/x'']"
        "[]" Map.empty empty_ctx "()", unfolded two] by blast+
  have "map (\<lambda>(u, bm). (u, bm ''model'', bm ''reasoning_effort'')) (take 2 (attempts None ?cs Map.empty)) =
      [(''grok'', Some (J_str ''grok-4.5''), Some (J_str ''high'')),
       (''codebuddy'', Some (J_str ''cb/o3''), Some (J_str ''high''))]"
    by code_simp
  then have "map (\<lambda>(t, b). (upstream_name t, target_body t ''model'', target_body t ''reasoning_effort'')) ?tr =
      [(''grok'', Some (J_str ''grok-4.5''), Some (J_str ''high'')),
       (''codebuddy'', Some (J_str ''cb/o3''), Some (J_str ''high''))]"
    unfolding all(1) [symmetric] by (simp add: comp_def case_prod_unfold)
  with all(2) show ?thesis unfolding Let_def by blast
qed

text \<open>The client of a fallback combo gets the last answer of the loop.\<close>

lemma fallback_flushes_last:
  fixes env :: "'w routing_env" and g :: "'w gateway" and rz :: resolution and bm :: json_map
  defines "up \<equiv> expand_effort (rz_upstream rz) (rz_model rz) bm"
  assumes "key_allows (gw_manager g) (re_client_key env) (fst up)" and "rz_combo rz \<noteq> []"
    and "rz_strategy rz \<in> set fallback_strategies" and "\<not> true_field (snd up) ''stream''" "\<not> re_accept_sse env"
    and "re_combos env = Some cr" "GetCombo (rz_combo rz) cr = Some cb" "cb_Models cb \<noteq> []"
  shows "fst (serve_model env key s rz bm g) = Written (bw_flush (snd (last
           (lr_trace (fallback_loop (re_serve env) (re_registry env) (cb_Models cb) (fst up) (snd up)
              empty_ctx (gw_world g))))))"
proof -
  have "lr_trace (fallback_loop (re_serve env) (re_registry env) (cb_Models cb) (fst up) (snd up)
      empty_ctx (gw_world g)) \<noteq> []"
    using assms(9) by (cases "cb_Models cb") (simp_all add: split_beta Let_def)
  with assms(2-8) show ?thesis by (simp add: serve_model_def up_def split_beta Let_def)
qed

text \<open>
  A custom Cloudflare model need not reach Cloudflare. The registry accepts the upstream
  \<open>cloudflare\<close>, but the dispatch knows only the other two: a custom model with an id of any shape
  that prefix routing does not take for Cloudflare or Grok is sent to CodeBuddy under its own
  id, and its model name is not used.
\<close>

theorem custom_cloudflare_misrouted:
  assumes add: "CustomRegistry_AddModel st i cm r = (None, r', cs)"
    and cf: "trim_space (cm_upstream cm) = ''cloudflare''"
    and shape: "\<not> IsCFModel (trim_space i)" "\<not> IsGrokModel (trim_space i)"
    and free: "cr_aliases r (trim_space i) = None"
  shows "case resolve_custom (Some r') (trim_space i) of (m, up, mn) \<Rightarrow>
           up = ''cloudflare'' \<and> m = trim_space i \<and> dispatch up mn m bm = To_codebuddy bm"
proof -
  let ?cm = "cm\<lparr>cm_upstream := trim_space (cm_upstream cm), cm_model_name := trim_space (cm_model_name cm),
      cm_owned_by := trim_space (cm_owned_by cm)\<rparr>"
  have r': "cr_models r' (trim_space i) = Some (complete_model (trim_space i) ?cm)" "cr_aliases r' = cr_aliases r"
    using add by (auto simp: CustomRegistry_AddModel_def Let_def write_then_def split: option.splits if_splits store_reply.splits)
  have "cm_upstream (complete_model (trim_space i) ?cm) = ''cloudflare''"
    by (simp add: complete_model_def cf Let_def)
  then have "resolve_custom (Some r') (trim_space i) =
      (trim_space i, ''cloudflare'', cm_model_name (complete_model (trim_space i) ?cm))"
    unfolding resolve_custom_def CustomRegistry_Resolve_def option.case r' free Let_def by (simp only:)
  then show ?thesis using shape by (simp add: dispatch_def)
qed

theorem custom_cloudflare_misrouted_witness:
  "case resolve_custom (Some (fst (snd (CustomRegistry_AddModel Store_ok ''my-llama''
          \<lparr>cm_upstream = ''cloudflare'', cm_model_name = ''@cf/meta/llama-3.1-8b-instruct'', cm_owned_by = [], cm_capabilities = None\<rparr>
          NewCustomRegistry)))) ''my-llama'' of (m, up, mn) \<Rightarrow>
     up = ''cloudflare'' \<and> m = ''my-llama'' \<and> dispatch up mn m Map.empty = To_codebuddy Map.empty"
proof -
  let ?cm = "\<lparr>cm_upstream = ''cloudflare'', cm_model_name = ''@cf/meta/llama-3.1-8b-instruct'', cm_owned_by = [], cm_capabilities = None\<rparr>"
  let ?res = "CustomRegistry_AddModel Store_ok ''my-llama'' ?cm NewCustomRegistry"
  have t: "trim_space ''my-llama'' = ''my-llama''" by code_simp
  have u: "trim_space (cm_upstream ?cm) = ''cloudflare''" by code_simp
  have "fst ?res = None" by code_simp
  then have add: "?res = (None, fst (snd ?res), snd (snd ?res))" by (metis prod.collapse)
  have shape: "\<not> IsCFModel (trim_space ''my-llama'')" "\<not> IsGrokModel (trim_space ''my-llama'')" by code_simp+
  have free: "cr_aliases NewCustomRegistry (trim_space ''my-llama'') = None" by (simp add: NewCustomRegistry_def)
  from custom_cloudflare_misrouted [OF add u shape free, of Map.empty] show ?thesis unfolding t .
qed

end
