(* ===== verification/Decode.thy ===== *)
theory Decode
  imports Json "HOL-Library.Monad_Syntax" "HOL-Library.Countable"
begin

text \<open>
  Typed decoding and encoding of JSON values: what \<open>json.Unmarshal\<close> makes of a value for a field of a
  struct, and what \<open>json.Marshal\<close> writes for one that is \<open>omitempty\<close>. Objects are taken to have each key
  once, spelled as the struct tags are, and an integer to be written without fraction or exponent.
\<close>

section \<open>Decoding\<close>

text \<open>
  Null leaves the zero value and is no error, any other value of the wrong type is one.
\<close>

fun unmarshal_string :: "json \<Rightarrow> string option" where
  "unmarshal_string (J_str s) = Some s"
| "unmarshal_string J_null = Some []"
| "unmarshal_string _ = None"

fun unmarshal_bool :: "json \<Rightarrow> bool option" where
  "unmarshal_bool (J_bool b) = Some b"
| "unmarshal_bool J_null = Some False"
| "unmarshal_bool _ = None"

text \<open>An integer of 64 bits, and a float.\<close>

fun unmarshal_int :: "json \<Rightarrow> int option" where
  "unmarshal_int (J_num x) = (if of_int \<lfloor>x\<rfloor> = x \<and> fits64 \<lfloor>x\<rfloor> then Some \<lfloor>x\<rfloor> else None)"
| "unmarshal_int J_null = Some 0"
| "unmarshal_int _ = None"

fun unmarshal_float :: "json \<Rightarrow> rat option" where
  "unmarshal_float (J_num x) = Some x"
| "unmarshal_float J_null = Some 0"
| "unmarshal_float _ = None"

fun unmarshal_map :: "json \<Rightarrow> json_map option" where
  "unmarshal_map (J_obj kvs) = Some (map_of kvs)"
| "unmarshal_map J_null = Some Map.empty"
| "unmarshal_map _ = None"

fun unmarshal_slice :: "(json \<Rightarrow> 'a option) \<Rightarrow> json \<Rightarrow> 'a list option" where
  "unmarshal_slice f (J_arr vs) = those (map f vs)"
| "unmarshal_slice f J_null = Some []"
| "unmarshal_slice f _ = None"

text \<open>A field: the zero value when it is absent.\<close>

definition tag :: "'a \<Rightarrow> (json \<Rightarrow> 'a option) \<Rightarrow> json_map \<Rightarrow> string \<Rightarrow> 'a option" where
  "tag zero f m k = (case m k of None \<Rightarrow> Some zero | Some v \<Rightarrow> f v)"

definition tag_string :: "json_map \<Rightarrow> string \<Rightarrow> string option" where
  "tag_string m f = (case m f of None \<Rightarrow> Some [] | Some v \<Rightarrow> unmarshal_string v)"

text \<open>A pointer: nil when the field is absent or null.\<close>

definition tag_ptr :: "(json \<Rightarrow> 'a option) \<Rightarrow> json_map \<Rightarrow> string \<Rightarrow> 'a option option" where
  "tag_ptr f m k =
     (case m k of None \<Rightarrow> Some None | Some v \<Rightarrow> if v = J_null then Some None else map_option Some (f v))"

section \<open>Encoding\<close>

definition opt_field :: "string \<Rightarrow> json option \<Rightarrow> (string \<times> json) list" where
  "opt_field f v = (case v of None \<Rightarrow> [] | Some x \<Rightarrow> [(f, x)])"

definition omit_str :: "string \<Rightarrow> string \<Rightarrow> (string \<times> json) list" where
  "omit_str f s = (if s = [] then [] else [(f, J_str s)])"

definition omit_int :: "string \<Rightarrow> int \<Rightarrow> (string \<times> json) list" where
  "omit_int f n = (if n = 0 then [] else [(f, J_num (of_int n))])"

definition omit_list :: "string \<Rightarrow> json list \<Rightarrow> (string \<times> json) list" where
  "omit_list f vs = (if vs = [] then [] else [(f, J_arr vs)])"

section \<open>What was encoded is decoded\<close>

named_theorems decode_simps \<open>lookup of fields in encoded objects\<close>

text \<open>
  A field is looked up in an encoded object piece by piece, each of which mentions one field.
\<close>

declare map_add_def [decode_simps]

lemma map_of_skip [decode_simps]:
  "f \<noteq> g \<Longrightarrow> map_of (opt_field f v) g = None"
  "f \<noteq> g \<Longrightarrow> map_of (omit_str f s) g = None"
  "f \<noteq> g \<Longrightarrow> map_of (omit_int f n) g = None"
  "f \<noteq> g \<Longrightarrow> map_of (omit_list f vs) g = None"
  by (simp_all add: opt_field_def omit_str_def omit_int_def omit_list_def split: option.split)

lemma map_of_hit [decode_simps]:
  "map_of (opt_field f v) f = v"
  "map_of (omit_str f s) f = (if s = [] then None else Some (J_str s))"
  "map_of (omit_int f n) f = (if n = 0 then None else Some (J_num (of_int n)))"
  "map_of (omit_list f vs) f = (if vs = [] then None else Some (J_arr vs))"
  by (simp_all add: opt_field_def omit_str_def omit_int_def omit_list_def split: option.split)

lemma tag_omitted [decode_simps]:
  "(case (if s = [] then None else Some (J_str s)) of None \<Rightarrow> Some [] | Some v \<Rightarrow> unmarshal_string v) = Some s"
  "fits64 n \<Longrightarrow> (case (if n = 0 then None else Some (J_num (of_int n))) of None \<Rightarrow> Some 0 | Some v \<Rightarrow> unmarshal_int v) = Some n"
  by simp_all

lemma unmarshal_int_of_int [simp]: "fits64 n \<Longrightarrow> unmarshal_int (J_num (of_int n)) = Some n"
  by simp

lemma those_map_Some: "(\<And>x. x \<in> set xs \<Longrightarrow> f (g x) = Some (h x)) \<Longrightarrow> those (map f (map g xs)) = Some (map h xs)"
  by (induction xs) simp_all

lemma those_strings [simp]: "those (map (unmarshal_string \<circ> J_str) ss) = Some ss"
  by (induction ss) simp_all

lemma unmarshal_strings [simp]: "unmarshal_slice unmarshal_string (J_arr (map J_str ss)) = Some ss"
  by (induction ss) simp_all

section \<open>A codec\<close>

text \<open>
  The text level of \<open>encoding/json\<close> is an argument where a component stores text. What is assumed of it
  is that a written value is read back; a pair that has it: a value is written as its number, in strokes.
\<close>

instance json :: countable
  by countable_datatype

definition stroke_marshal :: "json \<Rightarrow> string" where
  "stroke_marshal j = replicate (to_nat j) (CHR ''|'')"

definition stroke_parse :: "string \<Rightarrow> json option" where
  "stroke_parse s = Some (from_nat (length s))"

lemma stroke_codec: "stroke_parse (stroke_marshal j) = Some j"
  by (simp add: stroke_parse_def stroke_marshal_def)

end
