(* ===== verification/Anthropic.thy ===== *)
theory Anthropic
  imports Decode Custom Lines
begin

text \<open>
  The adapter for the Anthropic Messages API, \<open>src/internal/handlers/anthropic.go\<close>: how a request
  is turned into the body of a chat completion. A \<open>json.RawMessage\<close> is an optional value, None for
  the empty one of an absent field; where the code uses its bytes, \<open>text_of\<close> stands for the text a
  value was written with.
\<close>

section \<open>Content blocks\<close>

record contentBlockIn =
  bi_type :: string
  bi_text :: string
  bi_id :: string
  bi_name :: string
  bi_input :: "json option"
  bi_tool_use_id :: string
  bi_content :: "json option"
  bi_is_error :: bool

definition unmarshal_block :: "json \<Rightarrow> contentBlockIn option" where
  "unmarshal_block v = do {
     m \<leftarrow> unmarshal_map v;
     ty \<leftarrow> tag_string m ''type'';
     tx \<leftarrow> tag_string m ''text'';
     i \<leftarrow> tag_string m ''id'';
     n \<leftarrow> tag_string m ''name'';
     tu \<leftarrow> tag_string m ''tool_use_id'';
     er \<leftarrow> (case m ''is_error'' of None \<Rightarrow> Some False | Some b \<Rightarrow> unmarshal_bool b);
     Some \<lparr>bi_type = ty, bi_text = tx, bi_id = i, bi_name = n, bi_input = m ''input'',
           bi_tool_use_id = tu, bi_content = m ''content'', bi_is_error = er\<rparr> }"

abbreviation unmarshal_blocks :: "json \<Rightarrow> contentBlockIn list option" where
  "unmarshal_blocks \<equiv> unmarshal_slice unmarshal_block"

section \<open>Messages\<close>

text \<open>The text blocks of a content array that are not empty.\<close>

definition block_texts :: "contentBlockIn list \<Rightarrow> string list" where
  "block_texts bs = map bi_text (filter (\<lambda>b. bi_type b = ''text'' \<and> bi_text b \<noteq> []) bs)"

definition extractText :: "json option \<Rightarrow> string" where
  "extractText raw =
     (case raw of
        None \<Rightarrow> []
      | Some v \<Rightarrow>
        (case unmarshal_string v of
           Some s \<Rightarrow> s
         | None \<Rightarrow> (case unmarshal_blocks v of Some bs \<Rightarrow> join_lines (block_texts bs) | None \<Rightarrow> [])))"

definition extractToolResultContent :: "(json \<Rightarrow> string) \<Rightarrow> json option \<Rightarrow> string" where
  "extractToolResultContent text_of raw =
     (case raw of
        None \<Rightarrow> []
      | Some v \<Rightarrow>
        (case unmarshal_string v of
           Some s \<Rightarrow> s
         | None \<Rightarrow> (case unmarshal_blocks v of Some bs \<Rightarrow> join_lines (block_texts bs) | None \<Rightarrow> text_of v)))"

record anthropicMessage =
  am_role :: string
  am_content :: "json option"

definition tool_message :: "(json \<Rightarrow> string) \<Rightarrow> contentBlockIn \<Rightarrow> json" where
  "tool_message text_of b = J_obj
     [(''role'', J_str ''tool''), (''tool_call_id'', J_str (bi_tool_use_id b)),
      (''content'', J_str (extractToolResultContent text_of (bi_content b)))]"

definition tool_arguments :: "(json \<Rightarrow> string) \<Rightarrow> contentBlockIn \<Rightarrow> string" where
  "tool_arguments text_of b =
     (let args = (case bi_input b of None \<Rightarrow> [] | Some v \<Rightarrow> text_of v)
      in if args = [] then ''{}'' else args)"

definition tool_call :: "(json \<Rightarrow> string) \<Rightarrow> contentBlockIn \<Rightarrow> json" where
  "tool_call text_of b = J_obj
     [(''id'', J_str (bi_id b)), (''type'', J_str ''function''),
      (''function'', J_obj [(''name'', J_str (bi_name b)), (''arguments'', J_str (tool_arguments text_of b))])]"

definition text_message :: "string \<Rightarrow> string \<Rightarrow> json" where
  "text_message role content = J_obj [(''role'', J_str role), (''content'', J_str content)]"

definition user_messages :: "(json \<Rightarrow> string) \<Rightarrow> contentBlockIn list \<Rightarrow> json list" where
  "user_messages text_of bs =
     (let textParts = block_texts bs
      in (if textParts \<noteq> [] then [text_message ''user'' (join_lines textParts)] else []) @
         map (tool_message text_of) (filter (\<lambda>b. bi_type b = ''tool_result'') bs))"

definition assistant_message :: "(json \<Rightarrow> string) \<Rightarrow> contentBlockIn list \<Rightarrow> json" where
  "assistant_message text_of bs =
     (let textParts = block_texts bs;
          toolCalls = map (tool_call text_of) (filter (\<lambda>b. bi_type b = ''tool_use'') bs)
      in J_obj ([(''role'', J_str ''assistant''),
                 (''content'', if textParts \<noteq> [] then J_str (join_lines textParts) else J_null)] @
                (if toolCalls \<noteq> [] then [(''tool_calls'', J_arr toolCalls)] else [])))"

definition translateMessage :: "(json \<Rightarrow> string) \<Rightarrow> anthropicMessage \<Rightarrow> json list" where
  "translateMessage text_of m =
     (case am_content m \<bind> unmarshal_string of
        Some plain \<Rightarrow> [text_message (am_role m) plain]
      | None \<Rightarrow>
        (case am_content m \<bind> unmarshal_blocks of
           None \<Rightarrow> [text_message (am_role m) (extractText (am_content m))]
         | Some bs \<Rightarrow>
           if am_role m = ''user'' then user_messages text_of bs
           else if am_role m = ''assistant'' then [assistant_message text_of bs]
           else [text_message (am_role m) (extractText (am_content m))]))"

definition translateMessages :: "(json \<Rightarrow> string) \<Rightarrow> anthropicMessage list \<Rightarrow> json list" where
  "translateMessages text_of msgs = concat (map (translateMessage text_of) msgs)"

section \<open>Tools\<close>

definition unmarshal_tool :: "json \<Rightarrow> (string \<times> string \<times> json option) option" where
  "unmarshal_tool v = do {
     m \<leftarrow> unmarshal_map v;
     n \<leftarrow> tag_string m ''name'';
     d \<leftarrow> tag_string m ''description'';
     Some (n, d, m ''input_schema'') }"

definition openai_tool :: "string \<times> string \<times> json option \<Rightarrow> json" where
  "openai_tool t =
     (case t of (name, description, schema) \<Rightarrow> J_obj
        [(''type'', J_str ''function''),
         (''function'', J_obj
           ([(''name'', J_str name)] @
            (if description \<noteq> [] then [(''description'', J_str description)] else []) @
            [(''parameters'', case schema of
                Some v \<Rightarrow> v
              | None \<Rightarrow> J_obj [(''type'', J_str ''object''), (''properties'', J_obj [])])]))])"

definition translateTools :: "json option \<Rightarrow> json list" where
  "translateTools raw =
     (case raw \<bind> unmarshal_slice unmarshal_tool of None \<Rightarrow> [] | Some ts \<Rightarrow> map openai_tool ts)"

definition translateToolChoice :: "json option \<Rightarrow> json option" where
  "translateToolChoice raw =
     (case raw of
        None \<Rightarrow> None
      | Some v \<Rightarrow>
        (case unmarshal_string v of
           Some s \<Rightarrow>
             Some (J_str (if s = ''any'' then ''required''
                          else if s = ''auto'' \<or> s = ''none'' then s else ''auto''))
         | None \<Rightarrow> do {
             m \<leftarrow> unmarshal_map v;
             ty \<leftarrow> tag_string m ''type'';
             n \<leftarrow> tag_string m ''name'';
             Some (if ty = ''auto'' then J_str ''auto''
                   else if ty = ''any'' then J_str ''required''
                   else if ty = ''none'' then J_str ''none''
                   else if ty = ''tool'' then
                     if n = [] then J_str ''auto''
                     else J_obj [(''type'', J_str ''function''), (''function'', J_obj [(''name'', J_str n)])]
                   else J_str ''auto'') }))"

section \<open>The request\<close>

record anthropicRequest =
  ar_Model :: string
  ar_MaxTokens :: int
  ar_System :: "json option"
  ar_Messages :: "anthropicMessage list"
  ar_Stream :: bool
  ar_Temperature :: "rat option"
  ar_TopP :: "rat option"
  ar_StopSequences :: "string list"
  ar_Tools :: "json option"
  ar_ToolChoice :: "json option"

text \<open>\<open>env\<close> is the value of \<open>ANTHROPIC_DEFAULT_MODEL\<close>, empty when it is not set.\<close>

definition defaultAnthropicUpstream :: "string \<Rightarrow> string" where
  "defaultAnthropicUpstream env =
     (let v = trim_space env in if v \<noteq> [] then v else ''cb/claude-sonnet-4.6'')"

definition mapAnthropicModel :: "string \<Rightarrow> string \<Rightarrow> custom_registry option \<Rightarrow> string" where
  "mapAnthropicModel env m0 reg =
     (let m = trim_space m0;
          resolved = (case reg of None \<Rightarrow> m | Some r \<Rightarrow> fst (CustomRegistry_Resolve m r))
      in if m = [] then defaultAnthropicUpstream env
         else if resolved \<noteq> m then resolved
         else if has_prefix m ''cb/'' \<or> has_prefix m ''grok-'' then m
         else if str_contains (to_lower m) ''grok'' then ''grok-4.5''
         else defaultAnthropicUpstream env)"

definition buildOpenAIBody ::
  "(json \<Rightarrow> string) \<Rightarrow> string \<Rightarrow> custom_registry option \<Rightarrow> anthropicRequest \<Rightarrow> json \<times> string" where
  "buildOpenAIBody text_of env reg req =
     (let upstreamModel = mapAnthropicModel env (ar_Model req) reg;
          systxt = extractText (ar_System req);
          msgs = (if trim_space systxt \<noteq> [] then [text_message ''system'' systxt] else []) @
                 translateMessages text_of (ar_Messages req);
          tools = translateTools (ar_Tools req)
      in (J_obj ([(''model'', J_str upstreamModel), (''messages'', J_arr msgs), (''stream'', J_bool (ar_Stream req))] @
            (if ar_MaxTokens req > 0 then [(''max_tokens'', J_num (of_int (ar_MaxTokens req)))] else []) @
            opt_field ''temperature'' (map_option J_num (ar_Temperature req)) @
            opt_field ''top_p'' (map_option J_num (ar_TopP req)) @
            (if ar_StopSequences req \<noteq> [] then [(''stop'', J_arr (map J_str (ar_StopSequences req)))] else []) @
            (if tools \<noteq> [] then [(''tools'', J_arr tools)] else []) @
            opt_field ''tool_choice'' (translateToolChoice (ar_ToolChoice req))),
          upstreamModel))"

definition mapStopReason :: "string \<Rightarrow> string" where
  "mapStopReason f =
     (if f = ''stop'' then ''end_turn''
      else if f = ''length'' then ''max_tokens''
      else if f = ''content_filter'' then ''stop_sequence''
      else if f = ''tool_calls'' \<or> f = ''function_call'' then ''tool_use''
      else ''end_turn'')"

text \<open>
  \<open>AnthropicAuthMiddleware\<close>, on the path and the two headers: the key of \<open>x-api-key\<close> becomes
  the bearer token when there is no \<open>Authorization\<close>.
\<close>

definition AnthropicAuthMiddleware :: "string \<Rightarrow> string \<Rightarrow> string \<Rightarrow> string" where
  "AnthropicAuthMiddleware path authorization x_api_key =
     (if \<not> has_prefix path ''/v1/'' then authorization
      else if authorization = [] \<and> x_api_key \<noteq> [] then ''Bearer '' @ x_api_key
      else authorization)"

section \<open>Tool calls and their results\<close>

text \<open>What a message of the request says, and what one of the translated conversation does.\<close>

definition array_blocks :: "anthropicMessage \<Rightarrow> contentBlockIn list" where
  "array_blocks m =
     (if am_content m \<bind> unmarshal_string = None then elems (am_content m \<bind> unmarshal_blocks) else [])"


definition uses_of :: "anthropicMessage \<Rightarrow> string list" where
  "uses_of m = (if am_role m = ''assistant''
     then map bi_id (filter (\<lambda>b. bi_type b = ''tool_use'') (array_blocks m)) else [])"

definition results_of :: "anthropicMessage \<Rightarrow> string list" where
  "results_of m = (if am_role m = ''user''
     then map bi_tool_use_id (filter (\<lambda>b. bi_type b = ''tool_result'') (array_blocks m)) else [])"

definition calls_in :: "json \<Rightarrow> string list" where
  "calls_in v = (case as_obj v of
     None \<Rightarrow> []
   | Some m \<Rightarrow> map (\<lambda>c. case as_obj c of Some k \<Rightarrow> str_field k ''id'' | None \<Rightarrow> []) (elems (arr_field m ''tool_calls'')))"

definition answer_in :: "json \<Rightarrow> string option" where
  "answer_in v = (case as_obj v of
     None \<Rightarrow> None
   | Some m \<Rightarrow> if str_field m ''role'' = ''tool'' then Some (str_field m ''tool_call_id'') else None)"

text \<open>
  The order chat completions ask for: a tool message answers a call of the assistant message that
  it follows, with none but other tool messages between them. The Messages API asks that results
  come in the message right after their calls.
\<close>

fun answers_follow :: "string list \<Rightarrow> json list \<Rightarrow> bool" where
  "answers_follow open_calls [] \<longleftrightarrow> True"
| "answers_follow open_calls (v # vs) \<longleftrightarrow>
     (case answer_in v of
        Some i \<Rightarrow> i \<in> set open_calls \<and> answers_follow open_calls vs
      | None \<Rightarrow> answers_follow (calls_in v) vs)"


lemma answer_in_simps [simp]:
  "answer_in (text_message r c) = (if r = ''tool'' then Some [] else None)"
  "answer_in (tool_message text_of b) = Some (bi_tool_use_id b)"
  "answer_in (assistant_message text_of bs) = None"
  by (simp_all add: answer_in_def text_message_def tool_message_def assistant_message_def as_obj_def str_field_def Let_def)

lemma calls_in_simps [simp]:
  "calls_in (text_message r c) = []"
  "calls_in (tool_message text_of b) = []"
  "calls_in (assistant_message text_of bs) = map bi_id (filter (\<lambda>b. bi_type b = ''tool_use'') bs)"
  by (auto simp: calls_in_def text_message_def tool_message_def assistant_message_def tool_call_def
      as_obj_def arr_field_def str_field_def Let_def o_def)


lemma answers_follow_mono: "answers_follow ids vs \<Longrightarrow> set ids \<subseteq> set jds \<Longrightarrow> answers_follow jds vs"
  by (induction vs) (auto split: option.splits)

lemma translate_user:
  assumes "am_role m = ''user''"
  shows "(\<exists>c. translateMessage text_of m = [text_message ''user'' c] \<and> array_blocks m = []) \<or>
         translateMessage text_of m = user_messages text_of (array_blocks m)"
  using assms by (auto simp: translateMessage_def array_blocks_def split: option.splits)

lemma translate_assistant:
  assumes "am_role m = ''assistant''"
  shows "\<exists>v. translateMessage text_of m = [v] \<and> answer_in v = None \<and> calls_in v = uses_of m"
  using assms by (auto simp: translateMessage_def array_blocks_def uses_of_def split: option.splits)






text \<open>
  Nothing of the tools is lost: the calls and the results of the translated conversation are
  those of the request, with their identifiers, in order.
\<close>

lemma calls_kept:
  assumes "\<forall>m \<in> set ms. am_role m \<in> {''user'', ''assistant''}"
  shows "concat (map calls_in (translateMessages text_of ms)) = concat (map uses_of ms) \<and>
         List.map_filter answer_in (translateMessages text_of ms) = concat (map results_of ms)"
  using assms
proof (induction ms)
  case (Cons m ms)
  have tools: "concat (map calls_in (map (tool_message text_of) bs)) = []"
    "List.map_filter answer_in (map (tool_message text_of) bs) = map bi_tool_use_id bs" for bs
    by (induction bs) (simp_all add: List.map_filter_simps)
  from Cons.prems consider "am_role m = ''assistant''" | "am_role m = ''user''" by auto
  then have "concat (map calls_in (translateMessage text_of m)) = uses_of m \<and>
      List.map_filter answer_in (translateMessage text_of m) = results_of m"
  proof cases
    case 1
    from translate_assistant [OF this, of text_of] 1 show ?thesis
      by (auto simp: results_of_def List.map_filter_simps)
  next
    case 2
    from translate_user [OF this, of text_of] 2 tools show ?thesis
      by (auto simp: results_of_def uses_of_def List.map_filter_simps user_messages_def Let_def
          simp flip: map_map)
  qed
  with Cons show ?case by (simp add: translateMessages_def List.map_filter_def)
qed (simp add: translateMessages_def List.map_filter_simps)

end
