(* ===== verification/AnthropicStream.thy ===== *)
theory AnthropicStream
  imports "HOL-Library.AList" "HOL-Library.Multiset" Anthropic CredPool
begin

text \<open>
  The answers of the Anthropic adapter, \<open>src/internal/handlers/anthropic.go\<close>: the writer that turns
  a stream of chat completion chunks into Anthropic events while it arrives, the collector for the
  answers that do not stream, and the two ends of \<open>HandleMessages\<close>.
\<close>

section \<open>Chunks and events\<close>

text \<open>
  A data line, decoded: the usage, and of the first choice the delta, the whole message if there
  is one, and the finish reason. \<open>parse\<close> is \<open>json.Unmarshal\<close> into the anonymous structs of
  \<open>processLine\<close> and \<open>extractFromCapturedBody\<close>, which differ in that only the first has the usage
  and only the second the message; both are one record here.
\<close>

record tool_delta =
  td_index :: int
  td_id :: string
  td_name :: string
  td_arguments :: string

type_synonym openAIToolCallOut = "string \<times> string \<times> string"

record chunk_choice =
  ch_content :: string
  ch_tool_calls :: "tool_delta list"
  ch_message :: "(string \<times> openAIToolCallOut list) option"
  ch_finish :: "string option"

record openai_chunk =
  oc_usage :: "(int \<times> int) option"
  oc_choice :: "chunk_choice option"

text \<open>The events as \<open>emitEvent\<close> writes them, with what varies in their data.\<close>

datatype anthropic_event =
    Message_start string string
  | Text_block_start int
  | Tool_block_start int string string
  | Text_delta int string
  | Json_delta int string
  | Block_stop int
  | Message_delta string int
  | Message_stop

section \<open>The stream writer\<close>

record streamToolBlock =
  tb_anthropicIdx :: int
  tb_id :: string
  tb_name :: string
  tb_started :: bool
  tb_closed :: bool

text \<open>
  \<open>sw_toolBlocks\<close> is the map from the indices of the calls, in the order the entries were made;
  \<open>sw_events\<close> is what went to the client.
\<close>

record streamWriter =
  sw_msgID :: string
  sw_model :: string
  sw_started :: bool
  sw_textOpen :: bool
  sw_textClosed :: bool
  sw_stopped :: bool
  sw_finish :: string
  sw_inputToks :: int
  sw_outputToks :: int
  sw_textBuf :: string
  sw_carry :: string
  sw_errBuf :: string
  sw_toolBlocks :: "(int \<times> streamToolBlock) list"
  sw_nextBlockIdx :: int
  sw_statusCode :: int
  sw_events :: "anthropic_event list"

definition newStreamWriter :: "string \<Rightarrow> string \<Rightarrow> streamWriter" where
  "newStreamWriter msgID model =
     \<lparr>sw_msgID = msgID, sw_model = model, sw_started = False, sw_textOpen = False, sw_textClosed = False,
      sw_stopped = False, sw_finish = [], sw_inputToks = 0, sw_outputToks = 0, sw_textBuf = [], sw_carry = [],
      sw_errBuf = [], sw_toolBlocks = [], sw_nextBlockIdx = 1, sw_statusCode = 200, sw_events = []\<rparr>"

definition emitEvent :: "anthropic_event \<Rightarrow> streamWriter \<Rightarrow> streamWriter" where
  "emitEvent e w = w\<lparr>sw_events := sw_events w @ [e]\<rparr>"

definition ensureStart :: "streamWriter \<Rightarrow> streamWriter" where
  "ensureStart w =
     (if sw_started w then w
      else emitEvent (Message_start (sw_msgID w) (sw_model w)) (w\<lparr>sw_started := True\<rparr>))"

definition ensureTextBlock :: "streamWriter \<Rightarrow> streamWriter" where
  "ensureTextBlock w =
     (if sw_textOpen w then w else emitEvent (Text_block_start 0) (w\<lparr>sw_textOpen := True\<rparr>))"

definition closeTextBlock :: "streamWriter \<Rightarrow> streamWriter" where
  "closeTextBlock w =
     (if \<not> sw_textOpen w \<or> sw_textClosed w then w
      else emitEvent (Block_stop 0) (w\<lparr>sw_textClosed := True\<rparr>))"

text \<open>The entry of a call, made or completed, and stored again; it starts once it has a name.\<close>

definition tool_entry :: "streamWriter \<Rightarrow> int \<Rightarrow> streamToolBlock" where
  "tool_entry w i =
     (case map_of (sw_toolBlocks w) i of
        Some tb \<Rightarrow> tb
      | None \<Rightarrow> \<lparr>tb_anthropicIdx = sw_nextBlockIdx w, tb_id = [], tb_name = [], tb_started = False, tb_closed = False\<rparr>)"

definition learn :: "string \<Rightarrow> string \<Rightarrow> streamToolBlock \<Rightarrow> streamToolBlock" where
  "learn i n tb =
     (let tb1 = (if i \<noteq> [] \<and> tb_id tb = [] then tb\<lparr>tb_id := i\<rparr> else tb)
      in if n \<noteq> [] \<and> tb_name tb1 = [] then tb1\<lparr>tb_name := n\<rparr> else tb1)"

definition ensureToolBlock ::
  "int \<Rightarrow> string \<Rightarrow> string \<Rightarrow> streamWriter \<Rightarrow> streamToolBlock \<times> streamWriter" where
  "ensureToolBlock openaiIdx i n w =
     (let tb = learn i n (tool_entry w openaiIdx);
          w1 = (if map_of (sw_toolBlocks w) openaiIdx = None
                then w\<lparr>sw_nextBlockIdx := sw_nextBlockIdx w + 1\<rparr> else w)
      in if \<not> tb_started tb \<and> tb_name tb \<noteq> [] then
           let tb' = tb\<lparr>tb_started := True\<rparr>;
               w2 = closeTextBlock w1;
               w3 = w2\<lparr>sw_toolBlocks := AList.update openaiIdx tb' (sw_toolBlocks w2)\<rparr>
           in (tb', emitEvent (Tool_block_start (tb_anthropicIdx tb') (tb_id tb') (tb_name tb')) w3)
         else (tb, w1\<lparr>sw_toolBlocks := AList.update openaiIdx tb (sw_toolBlocks w1)\<rparr>))"

text \<open>
  \<open>closeToolBlock\<close> marks the block closed, which is of no consequence after \<open>finalize\<close> but that it
  is not closed twice.
\<close>

definition closeToolBlock :: "streamToolBlock \<Rightarrow> streamWriter \<Rightarrow> streamWriter" where
  "closeToolBlock tb w =
     (if \<not> tb_started tb \<or> tb_closed tb then w
      else emitEvent (Block_stop (tb_anthropicIdx tb))
        (w\<lparr>sw_toolBlocks := map (\<lambda>(k, t). (k, if t = tb then t\<lparr>tb_closed := True\<rparr> else t)) (sw_toolBlocks w)\<rparr>))"

text \<open>
  The insertion sort of \<open>finalize\<close>, on the reversed front of the slice: an element moves past those
  with a greater index. \<open>rng\<close> is the order in which a loop over the map yields its values.
\<close>

fun move_left :: "streamToolBlock \<Rightarrow> streamToolBlock list \<Rightarrow> streamToolBlock list" where
  "move_left t [] = [t]"
| "move_left t (u # us) =
     (if tb_anthropicIdx u > tb_anthropicIdx t then u # move_left t us else t # u # us)"

definition sort_blocks :: "streamToolBlock list \<Rightarrow> streamToolBlock list" where
  "sort_blocks ts = rev (fold move_left ts [])"

definition finalize ::
  "(streamToolBlock list \<Rightarrow> streamToolBlock list) \<Rightarrow> streamWriter \<Rightarrow> streamWriter" where
  "finalize rng w =
     (if sw_stopped w then w
      else
        let w1 = ensureStart w;
            w2 = (if \<not> sw_textOpen w1 \<and> sw_toolBlocks w1 = [] then ensureTextBlock w1 else w1);
            w3 = closeTextBlock (w2\<lparr>sw_stopped := True\<rparr>);
            w4 = fold closeToolBlock (sort_blocks (rng (map snd (sw_toolBlocks w3)))) w3
        in emitEvent Message_stop (emitEvent (Message_delta (mapStopReason (sw_finish w4)) (sw_outputToks w4)) w4))"

definition tool_delta_step :: "tool_delta \<Rightarrow> streamWriter \<Rightarrow> streamWriter" where
  "tool_delta_step tc w =
     (let (tb, w1) = ensureToolBlock (td_index tc) (td_id tc) (td_name tc) (ensureStart w)
      in if td_arguments tc \<noteq> [] \<and> tb_started tb
         then emitEvent (Json_delta (tb_anthropicIdx tb) (td_arguments tc)) w1 else w1)"

definition text_step :: "string \<Rightarrow> streamWriter \<Rightarrow> streamWriter" where
  "text_step t w =
     (if t = [] then w
      else
        let w1 = ensureTextBlock (ensureStart w)
        in emitEvent (Text_delta 0 t) (w1\<lparr>sw_textBuf := sw_textBuf w1 @ t\<rparr>))"

definition usage_step :: "(int \<times> int) option \<Rightarrow> streamWriter \<Rightarrow> streamWriter" where
  "usage_step u w =
     (case u of None \<Rightarrow> w | Some (p, c) \<Rightarrow> w\<lparr>sw_inputToks := p, sw_outputToks := c\<rparr>)"

definition finish_step :: "string option \<Rightarrow> streamWriter \<Rightarrow> streamWriter" where
  "finish_step f w = (case f of Some s \<Rightarrow> if s \<noteq> [] then w\<lparr>sw_finish := s\<rparr> else w | None \<Rightarrow> w)"

definition chunk_step :: "openai_chunk \<Rightarrow> streamWriter \<Rightarrow> streamWriter" where
  "chunk_step oc w =
     (case oc_choice oc of
        None \<Rightarrow> usage_step (oc_usage oc) w
      | Some ch \<Rightarrow>
        finish_step (ch_finish ch)
          (fold tool_delta_step (ch_tool_calls ch) (text_step (ch_content ch) (usage_step (oc_usage oc) w))))"

text \<open>What a line carries, by the test and the cuts at the head of \<open>processLine\<close>.\<close>

definition line_data :: "string \<Rightarrow> string option" where
  "line_data line =
     (if \<not> has_prefix line ''data: '' \<and> \<not> has_prefix line ''data:'' then None
      else let d = trim_space (trim_prefix (trim_prefix line ''data: '') ''data:'')
           in if d = [] then None else Some d)"

definition processLine ::
  "(string \<Rightarrow> openai_chunk option) \<Rightarrow> (streamToolBlock list \<Rightarrow> streamToolBlock list) \<Rightarrow>
   string \<Rightarrow> streamWriter \<Rightarrow> streamWriter" where
  "processLine parse rng line w =
     (case line_data line of
        None \<Rightarrow> w
      | Some d \<Rightarrow>
        if d = ''[DONE]'' then finalize rng w
        else case parse d of None \<Rightarrow> w | Some oc \<Rightarrow> chunk_step oc w)"

text \<open>\<open>Write\<close>: before the stream starts the body of an error is kept aside.\<close>

definition trim_right_cr :: "string \<Rightarrow> string" where
  "trim_right_cr s = rev (dropWhile (\<lambda>c. c = CHR 13) (rev s))"

definition stream_write ::
  "(string \<Rightarrow> openai_chunk option) \<Rightarrow> (streamToolBlock list \<Rightarrow> streamToolBlock list) \<Rightarrow>
   string \<Rightarrow> streamWriter \<Rightarrow> streamWriter" where
  "stream_write parse rng p w =
     (if \<not> sw_started w \<and> sw_statusCode w \<ge> 400 then w\<lparr>sw_errBuf := sw_errBuf w @ p\<rparr>
      else
        let (ls, rest) = split_lines (sw_carry w @ p)
        in fold (\<lambda>ln. processLine parse rng (trim_right_cr ln)) ls (w\<lparr>sw_carry := rest\<rparr>))"

section \<open>Errors\<close>

text \<open>The keys with a dot are looked up as they are.\<close>

definition error_field :: "json_map \<Rightarrow> string \<Rightarrow> string option" where
  "error_field m k =
     (case m k of
        None \<Rightarrow> None
      | Some v \<Rightarrow>
        (case text_field m k of
           Some s \<Rightarrow> Some s
         | None \<Rightarrow> (case as_obj v of Some sub \<Rightarrow> text_field sub ''message'' | None \<Rightarrow> None)))"

definition extractUpstreamErrorMessage :: "json option \<Rightarrow> string \<Rightarrow> string" where
  "extractUpstreamErrorMessage raw body =
     (case raw \<bind> as_obj of
        Some m \<Rightarrow>
          (case first_some (map (error_field m)
                  [''message'', ''msg'', ''error'', ''detail'', ''detail.message'', ''error.message'']) of
             Some s \<Rightarrow> s
           | None \<Rightarrow> if trim_space body = [] then ''upstream error'' else trim_space body)
      | None \<Rightarrow> if trim_space body = [] then ''upstream error'' else trim_space body)"

section \<open>Answers\<close>

text \<open>
  What the client gets: events, a message, or an error with its status. The input of a tool call
  is the arguments as they came if they are JSON, and else a JSON string of them.
\<close>

datatype tool_input = Raw_input string | String_input string

datatype content_block = Text_block string | Tool_use_block string string tool_input

datatype anthropic_reply =
    Events "anthropic_event list"
  | Message "content_block list" string int int
  | Error_reply int string

text \<open>
  The streaming end of \<open>HandleMessages\<close>: \<open>ProxyRequest\<close> sets \<open>status\<close> and writes its body in
  \<open>pieces\<close>. \<open>unmarshal\<close> is \<open>json.Unmarshal\<close> into any value, \<open>response_body\<close> the context's.
\<close>

definition stream_after ::
  "(string \<Rightarrow> openai_chunk option) \<Rightarrow> (streamToolBlock list \<Rightarrow> streamToolBlock list) \<Rightarrow>
   string \<Rightarrow> string \<Rightarrow> int \<Rightarrow> string list \<Rightarrow> streamWriter" where
  "stream_after parse rng msgID model status pieces =
     (let sw = fold (stream_write parse rng) pieces ((newStreamWriter msgID model)\<lparr>sw_statusCode := status\<rparr>);
          sw1 = (if sw_carry sw \<noteq> []
                 then (processLine parse rng (trim_right_cr (sw_carry sw)) sw)\<lparr>sw_carry := []\<rparr> else sw)
      in if sw_started sw1 \<and> \<not> sw_stopped sw1 then finalize rng sw1 else sw1)"

definition HandleMessages_stream ::
  "(string \<Rightarrow> openai_chunk option) \<Rightarrow> (string \<Rightarrow> json option) \<Rightarrow>
   (streamToolBlock list \<Rightarrow> streamToolBlock list) \<Rightarrow>
   string \<Rightarrow> string \<Rightarrow> int \<Rightarrow> string list \<Rightarrow> string option \<Rightarrow> anthropic_reply" where
  "HandleMessages_stream parse unmarshal rng msgID model status pieces response_body =
     (let sw = stream_after parse rng msgID model status pieces
      in if sw_started sw then Events (sw_events sw)
         else
           let body = (if sw_errBuf sw \<noteq> [] then sw_errBuf sw
                       else case response_body of Some b \<Rightarrow> b | None \<Rightarrow> [])
           in Error_reply (if sw_statusCode sw < 400 then 502 else sw_statusCode sw)
                (extractUpstreamErrorMessage (if body = [] then None else unmarshal body) body))"

text \<open>
  Collecting the calls of a stream. A map from indices with the order in which they were first
  seen; the calls of a whole message are entered under the number of entries so far.
\<close>

record collected =
  co_text :: string
  co_finish :: string
  co_map :: "int \<rightharpoonup> openAIToolCallOut"
  co_order :: "int list"

definition collect_message_call :: "openAIToolCallOut \<Rightarrow> collected \<Rightarrow> collected" where
  "collect_message_call tc s =
     (let idx = int (length (co_order s))
      in s\<lparr>co_map := (co_map s)(idx \<mapsto> tc), co_order := co_order s @ [idx]\<rparr>)"

definition collect_delta :: "tool_delta \<Rightarrow> collected \<Rightarrow> collected" where
  "collect_delta tc s =
     (let i = td_index tc;
          s1 = (if co_map s i = None
                then s\<lparr>co_map := (co_map s)(i \<mapsto> ([], [], [])), co_order := co_order s @ [i]\<rparr> else s)
      in case co_map s1 i of
           None \<Rightarrow> s1
         | Some (k, n, a) \<Rightarrow>
           s1\<lparr>co_map := (co_map s1)(i \<mapsto>
             (if td_id tc \<noteq> [] then td_id tc else k, if td_name tc \<noteq> [] then td_name tc else n, a @ td_arguments tc))\<rparr>)"

definition collect_choice :: "chunk_choice \<Rightarrow> collected \<Rightarrow> collected" where
  "collect_choice ch s =
     (let s1 = (if ch_content ch \<noteq> [] then s\<lparr>co_text := co_text s @ ch_content ch\<rparr>
                else case ch_message ch of
                       None \<Rightarrow> s
                     | Some (t, tcs) \<Rightarrow> fold collect_message_call tcs (s\<lparr>co_text := co_text s @ t\<rparr>));
          s2 = fold collect_delta (ch_tool_calls ch) s1
      in case ch_finish ch of Some f \<Rightarrow> s2\<lparr>co_finish := f\<rparr> | None \<Rightarrow> s2)"

definition collect_line :: "(string \<Rightarrow> openai_chunk option) \<Rightarrow> string \<Rightarrow> collected \<Rightarrow> collected" where
  "collect_line parse line s =
     (if \<not> has_prefix line ''data:'' then s
      else
        let d = trim_space (trim_prefix line ''data:'')
        in if d = [] \<or> d = ''[DONE]'' then s
           else case parse d of
                  None \<Rightarrow> s
                | Some oc \<Rightarrow> (case oc_choice oc of None \<Rightarrow> s | Some ch \<Rightarrow> collect_choice ch s))"

definition collected_calls :: "collected \<Rightarrow> openAIToolCallOut list" where
  "collected_calls s = List.map_filter (co_map s) (co_order s)"

text \<open>
  \<open>completion\<close> is \<open>json.Unmarshal\<close> into a chat completion: the text, the finish reason and the
  calls of its first choice, None if it fails or there is no choice.
\<close>

definition extractFromCapturedBody ::
  "(string \<Rightarrow> openai_chunk option) \<Rightarrow> (string \<Rightarrow> (string \<times> string \<times> openAIToolCallOut list) option) \<Rightarrow>
   string \<Rightarrow> string \<times> string \<times> openAIToolCallOut list" where
  "extractFromCapturedBody parse completion b =
     (let trimmed = trim_space b;
          s = fold (collect_line parse) (scan_within (4 * 2 ^ 20) b)
                \<lparr>co_text = [], co_finish = [], co_map = Map.empty, co_order = []\<rparr>
      in if b = [] then ([], [], [])
         else case (if has_prefix trimmed ''{'' then completion trimmed else None) of
                Some r \<Rightarrow> r
              | None \<Rightarrow> (co_text s, co_finish s, collected_calls s))"

text \<open>A value of the request context, and what \<open>anyToInt\<close> makes of one.\<close>

datatype context_value = V_int int | V_int64 int | V_float64 rat | V_string string | V_other

fun anyToInt :: "context_value \<Rightarrow> int" where
  "anyToInt (V_int n) = n"
| "anyToInt (V_int64 n) = n"
| "anyToInt (V_float64 x) = float_int x"
| "anyToInt _ = 0"

text \<open>The character U+2026 in UTF-8, which \<open>HandleMessages\<close> takes for the mark of a cut text.\<close>

definition ellipsis :: string where
  "ellipsis = [CHR 0xE2, CHR 0x80, CHR 0xA6]"

definition tool_use_block :: "(string \<Rightarrow> bool) \<Rightarrow> openAIToolCallOut \<Rightarrow> content_block" where
  "tool_use_block valid tc =
     (case tc of (i, n, a) \<Rightarrow>
        let args = trim_space a
        in Tool_use_block i n (if args = [] then Raw_input ''{}''
                               else if valid args then Raw_input args else String_input args))"

text \<open>
  The end of \<open>HandleMessages\<close> for answers that do not stream: \<open>status\<close> and \<open>body\<close> are what
  \<open>ProxyRequest\<close> wrote, and the other arguments the values it left in the context.
\<close>

definition HandleMessages_collect ::
  "(string \<Rightarrow> openai_chunk option) \<Rightarrow> (string \<Rightarrow> (string \<times> string \<times> openAIToolCallOut list) option) \<Rightarrow>
   (string \<Rightarrow> json option) \<Rightarrow> int \<Rightarrow> string \<Rightarrow>
   context_value option \<Rightarrow> context_value option \<Rightarrow> context_value option \<Rightarrow> anthropic_reply" where
  "HandleMessages_collect parse completion unmarshal status body output_text tokens_in tokens_out =
     (let valid = (\<lambda>s. unmarshal s \<noteq> None);
          outputText0 = (case output_text of Some (V_string t) \<Rightarrow> t | _ \<Rightarrow> []);
          inputToks = (case tokens_in of Some v \<Rightarrow> anyToInt v | None \<Rightarrow> 0);
          outputToks = (case tokens_out of Some v \<Rightarrow> anyToInt v | None \<Rightarrow> 0);
          (text, finReason, toolCalls) = extractFromCapturedBody parse completion body;
          outputText = (if (outputText0 = [] \<or> has_suffix outputText0 ellipsis) \<and> text \<noteq> [] then text else outputText0);
          blocks = (if outputText \<noteq> [] then [Text_block outputText] else []) @ map (tool_use_block valid) toolCalls;
          finish = (if toolCalls \<noteq> [] \<and> finReason = [] then ''tool_calls'' else finReason)
      in if status \<ge> 400 then Error_reply status (extractUpstreamErrorMessage (unmarshal body) body)
         else Message (if blocks = [] then [Text_block []] else blocks) (mapStopReason finish) inputToks outputToks)"

text \<open>
  \<open>HandleMessages\<close> up to the call of \<open>ProxyRequest\<close>: what it answers itself, or the request it
  goes on with and the model name it will report.
\<close>

datatype message_body = Body_too_large | Body_failed | Body_read string

definition HandleMessages_accept ::
  "(string \<Rightarrow> (string + anthropicRequest)) \<Rightarrow> (json \<Rightarrow> string) \<Rightarrow> string \<Rightarrow> custom_registry option \<Rightarrow>
   message_body \<Rightarrow> (int \<times> string \<times> string) + (json \<times> bool \<times> string)" where
  "HandleMessages_accept decode text_of env reg rd =
     (case rd of
        Body_too_large \<Rightarrow> Inl (413, ''request_too_large'', ''request body too large'')
      | Body_failed \<Rightarrow> Inl (400, ''invalid_request_error'', ''read body failed'')
      | Body_read raw \<Rightarrow>
        (case decode raw of
           Inl err \<Rightarrow> Inl (400, ''invalid_request_error'', ''invalid JSON: '' @ err)
         | Inr req0 \<Rightarrow>
           if ar_Messages req0 = [] then Inl (400, ''invalid_request_error'', ''messages is required'')
           else
             let req = (if ar_MaxTokens req0 = 0 then req0\<lparr>ar_MaxTokens := 4096\<rparr> else req0);
                 (body, upstreamModel) = buildOpenAIBody text_of env reg req
             in Inr (body, ar_Stream req, if ar_Model req = [] then upstreamModel else ar_Model req)))"

section \<open>The writer as a sequence of inputs\<close>

text \<open>
  What a line amounts to: nothing, the end mark, or a chunk. The writer depends on the lines only
  through these.
\<close>

datatype stream_input = Done_mark | Chunk openai_chunk

definition line_input :: "(string \<Rightarrow> openai_chunk option) \<Rightarrow> string \<Rightarrow> stream_input option" where
  "line_input parse line =
     (case line_data line of
        None \<Rightarrow> None
      | Some d \<Rightarrow> if d = ''[DONE]'' then Some Done_mark else map_option Chunk (parse d))"

fun input_step :: "(streamToolBlock list \<Rightarrow> streamToolBlock list) \<Rightarrow> stream_input \<Rightarrow> streamWriter \<Rightarrow> streamWriter" where
  "input_step rng Done_mark w = finalize rng w"
| "input_step rng (Chunk oc) w = chunk_step oc w"

lemma processLine_input:
  "processLine parse rng line w =
     (case line_input parse line of None \<Rightarrow> w | Some x \<Rightarrow> input_step rng x w)"
  by (auto simp: processLine_def line_input_def split: option.splits)

definition inputs_of :: "(string \<Rightarrow> openai_chunk option) \<Rightarrow> string list \<Rightarrow> stream_input list" where
  "inputs_of parse ls = List.map_filter (\<lambda>ln. line_input parse (trim_right_cr ln)) ls"

lemma fold_lines:
  "fold (\<lambda>ln. processLine parse rng (trim_right_cr ln)) ls w = fold (input_step rng) (inputs_of parse ls) w"
  by (induction ls arbitrary: w)
     (auto simp: inputs_of_def List.map_filter_simps processLine_input split: option.split)

lemma inputs_of_append [simp]: "inputs_of parse (ls @ ms) = inputs_of parse ls @ inputs_of parse ms"
  by (simp add: inputs_of_def List.map_filter_def)

lemmas writer_ops = emitEvent_def ensureStart_def ensureTextBlock_def closeTextBlock_def closeToolBlock_def
  ensureToolBlock_def tool_entry_def tool_delta_step_def text_step_def usage_step_def finish_step_def Let_def

text \<open>The carried rest of a line and the status are of no consequence to the events, nor changed by them.\<close>

lemma fold_carry:
  assumes "\<And>x w. f x (w\<lparr>sw_carry := c\<rparr>) = (f x w)\<lparr>sw_carry := c\<rparr>"
  shows "fold f xs (w\<lparr>sw_carry := c\<rparr>) = (fold f xs w)\<lparr>sw_carry := c\<rparr>"
  using assms by (induction xs arbitrary: w) simp_all

lemma fold_same: "(\<And>x w. g (f x w) = g w) \<Longrightarrow> g (fold f xs w) = g w"
  by (induction xs arbitrary: w) simp_all

lemma emit_carry: "emitEvent e (w\<lparr>sw_carry := c\<rparr>) = (emitEvent e w)\<lparr>sw_carry := c\<rparr>"
  by (simp add: emitEvent_def)

lemma ensureStart_carry: "ensureStart (w\<lparr>sw_carry := c\<rparr>) = (ensureStart w)\<lparr>sw_carry := c\<rparr>"
  by (simp add: ensureStart_def emitEvent_def)

lemma closeTextBlock_carry:
  "closeTextBlock (w\<lparr>sw_carry := c\<rparr>) = (closeTextBlock w)\<lparr>sw_carry := c\<rparr>"
  by (simp add: closeTextBlock_def emitEvent_def)

lemma tool_entry_carry: "tool_entry (w\<lparr>sw_carry := c\<rparr>) = tool_entry w"
  by (intro ext) (simp add: tool_entry_def split: option.split)

lemma ensureToolBlock_carry:
  "ensureToolBlock i k n (w\<lparr>sw_carry := c\<rparr>) = map_prod id (\<lambda>w. w\<lparr>sw_carry := c\<rparr>) (ensureToolBlock i k n w)"
proof -
  define tb where "tb = learn k n (tool_entry w i)"
  define w1 where "w1 = (if map_of (sw_toolBlocks w) i = None then w\<lparr>sw_nextBlockIdx := sw_nextBlockIdx w + 1\<rparr> else w)"
  have "(if map_of (sw_toolBlocks (w\<lparr>sw_carry := c\<rparr>)) i = None
         then w\<lparr>sw_carry := c, sw_nextBlockIdx := sw_nextBlockIdx (w\<lparr>sw_carry := c\<rparr>) + 1\<rparr>
         else w\<lparr>sw_carry := c\<rparr>) = w1\<lparr>sw_carry := c\<rparr>"
    by (simp add: w1_def)
  then show ?thesis
    unfolding ensureToolBlock_def Let_def tool_entry_carry tb_def [symmetric] w1_def [symmetric]
    by (simp add: closeTextBlock_carry emitEvent_def del: split_paired_All split_paired_Ex)
qed

lemma tool_delta_carry: "tool_delta_step tc (w\<lparr>sw_carry := c\<rparr>) = (tool_delta_step tc w)\<lparr>sw_carry := c\<rparr>"
  by (simp add: tool_delta_step_def ensureStart_carry ensureToolBlock_carry emit_carry split_beta)

lemma closeToolBlock_carry: "closeToolBlock tb (w\<lparr>sw_carry := c\<rparr>) = (closeToolBlock tb w)\<lparr>sw_carry := c\<rparr>"
  by (simp add: writer_ops)

lemma ensureToolBlock_frame:
  "sw_carry (snd (ensureToolBlock i k n w)) = sw_carry w" "sw_statusCode (snd (ensureToolBlock i k n w)) = sw_statusCode w"
  by (simp_all add: ensureToolBlock_def closeTextBlock_def emitEvent_def Let_def del: split_paired_All)

lemma tool_delta_frame: "sw_carry (tool_delta_step tc w) = sw_carry w" "sw_statusCode (tool_delta_step tc w) = sw_statusCode w"
  by (simp_all add: tool_delta_step_def split_beta ensureToolBlock_frame ensureStart_def emitEvent_def)

lemma closeToolBlock_frame: "sw_carry (closeToolBlock tb w) = sw_carry w" "sw_statusCode (closeToolBlock tb w) = sw_statusCode w"
  by (simp_all add: writer_ops)

lemmas frame_folds =
  fold_carry [where f = tool_delta_step, OF tool_delta_carry]
  fold_carry [where f = closeToolBlock, OF closeToolBlock_carry]
  fold_same [where f = tool_delta_step and g = sw_carry, OF tool_delta_frame(1)]
  fold_same [where f = tool_delta_step and g = sw_statusCode, OF tool_delta_frame(2)]
  fold_same [where f = closeToolBlock and g = sw_carry, OF closeToolBlock_frame(1)]
  fold_same [where f = closeToolBlock and g = sw_statusCode, OF closeToolBlock_frame(2)]

lemma chunk_step_carry: "chunk_step oc (w\<lparr>sw_carry := c\<rparr>) = (chunk_step oc w)\<lparr>sw_carry := c\<rparr>"
proof -
  have "usage_step u (w\<lparr>sw_carry := c\<rparr>) = (usage_step u w)\<lparr>sw_carry := c\<rparr>"
    "text_step t (w\<lparr>sw_carry := c\<rparr>) = (text_step t w)\<lparr>sw_carry := c\<rparr>"
    "finish_step f (w\<lparr>sw_carry := c\<rparr>) = (finish_step f w)\<lparr>sw_carry := c\<rparr>" for w u t f
    by (auto simp: writer_ops split: option.splits prod.splits)
  then show ?thesis by (simp add: chunk_step_def frame_folds split: option.split)
qed

lemma finalize_carry: "finalize rng (w\<lparr>sw_carry := c\<rparr>) = (finalize rng w)\<lparr>sw_carry := c\<rparr>"
proof -
  have "ensureStart (w\<lparr>sw_carry := c\<rparr>) = (ensureStart w)\<lparr>sw_carry := c\<rparr>"
    "ensureTextBlock (w\<lparr>sw_carry := c\<rparr>) = (ensureTextBlock w)\<lparr>sw_carry := c\<rparr>"
    "closeTextBlock (w\<lparr>sw_carry := c\<rparr>) = (closeTextBlock w)\<lparr>sw_carry := c\<rparr>"
    "emitEvent e (w\<lparr>sw_carry := c\<rparr>) = (emitEvent e w)\<lparr>sw_carry := c\<rparr>"
    "closeTextBlock (w\<lparr>sw_carry := c, sw_stopped := True\<rparr>) = (closeTextBlock (w\<lparr>sw_stopped := True\<rparr>))\<lparr>sw_carry := c\<rparr>" for w e
    by (simp_all add: writer_ops)
  then show ?thesis by (simp add: finalize_def Let_def frame_folds)
qed

lemma input_step_carry: "input_step rng x (w\<lparr>sw_carry := c\<rparr>) = (input_step rng x w)\<lparr>sw_carry := c\<rparr>"
  by (cases x) (simp_all add: chunk_step_carry finalize_carry)

lemma chunk_step_frame:
  "sw_carry (chunk_step oc w) = sw_carry w" "sw_statusCode (chunk_step oc w) = sw_statusCode w"
  by (auto simp: chunk_step_def finish_step_def frame_folds text_step_def usage_step_def emitEvent_def
      ensureTextBlock_def ensureStart_def Let_def split: option.splits prod.splits)

lemma finalize_frame:
  "sw_carry (finalize rng w) = sw_carry w" "sw_statusCode (finalize rng w) = sw_statusCode w"
  by (simp_all add: finalize_def frame_folds emitEvent_def closeTextBlock_def
      ensureTextBlock_def ensureStart_def Let_def)

lemma input_step_frame [simp]:
  "sw_carry (input_step rng x w) = sw_carry w" "sw_statusCode (input_step rng x w) = sw_statusCode w"
  by (cases x; simp add: chunk_step_frame finalize_frame)+

lemmas fold_input_frame [simp] =
  fold_same [where f = "input_step rng" and g = sw_carry, OF input_step_frame(1)]
  fold_same [where f = "input_step rng" and g = sw_statusCode, OF input_step_frame(2)] for rng

lemmas fold_input_carry = fold_carry [where f = "input_step rng", OF input_step_carry] for rng

definition all_lines :: "string \<Rightarrow> string list" where
  "all_lines s = (let (ls, r) = split_lines s in ls @ (if r = [] then [] else [r]))"

lemma stream_write_inputs:
  assumes "sw_statusCode w < 400" "fst (split_lines (sw_carry w)) = []"
  shows "fold (stream_write parse rng) pieces w =
     (fold (input_step rng) (inputs_of parse (fst (split_lines (sw_carry w @ concat pieces)))) w)
       \<lparr>sw_carry := snd (split_lines (sw_carry w @ concat pieces))\<rparr>"
  using assms
proof (induction pieces arbitrary: w)
  case Nil
  then show ?case by (simp add: inputs_of_def List.map_filter_simps split_lines_none)
next
  case (Cons p ps)
  obtain ls r where sp: "split_lines (sw_carry w @ p) = (ls, r)" by (cases "split_lines (sw_carry w @ p)")
  let ?w = "(fold (input_step rng) (inputs_of parse ls) w)\<lparr>sw_carry := r\<rparr>"
  have "stream_write parse rng p w = ?w"
    using Cons.prems(1) by (simp add: stream_write_def sp fold_lines fold_input_carry)
  moreover have "fst (split_lines (sw_carry ?w)) = []" using split_lines_rest [of "sw_carry w @ p"] by (simp add: sp)
  ultimately show ?case
    using Cons.IH [of ?w] Cons.prems split_lines_append [of "sw_carry w @ p" "concat ps"]
    by (simp add: sp fold_input_carry)
qed

lemma stream_after_inputs:
  assumes "status < 400"
  shows "stream_after parse rng msgID model status pieces =
     (let w = fold (input_step rng) (inputs_of parse (all_lines (concat pieces)))
                ((newStreamWriter msgID model)\<lparr>sw_statusCode := status\<rparr>)
      in if sw_started w \<and> \<not> sw_stopped w then finalize rng w else w)"
proof -
  let ?new = "(newStreamWriter msgID model)\<lparr>sw_statusCode := status\<rparr>"
  obtain ls r where sp: "split_lines (concat pieces) = (ls, r)" by (cases "split_lines (concat pieces)")
  let ?w = "fold (input_step rng) (inputs_of parse ls) ?new"
  have no_carry [simp]: "sw_carry (newStreamWriter msgID model) = []" by (simp add: newStreamWriter_def)
  have same: "w\<lparr>sw_carry := []\<rparr> = w" if "sw_carry w = []" for w :: streamWriter using that by simp
  have "fold (stream_write parse rng) pieces ?new = ?w\<lparr>sw_carry := r\<rparr>"
    using stream_write_inputs [of ?new parse rng pieces] assms by (simp add: no_carry sp)
  moreover have "(processLine parse rng (trim_right_cr r) (?w\<lparr>sw_carry := r\<rparr>))\<lparr>sw_carry := []\<rparr> =
      fold (input_step rng) (inputs_of parse [r]) ?w"
    by (auto simp: processLine_input input_step_carry inputs_of_def List.map_filter_simps no_carry
        split: option.split)
  moreover have "?w\<lparr>sw_carry := []\<rparr> = ?w" by (rule same) (simp add: no_carry)
  ultimately show ?thesis
    by (cases "r = []") (simp_all add: stream_after_def all_lines_def sp Let_def)
qed

lemma stream_after_error:
  assumes "400 \<le> status"
  shows "stream_after parse rng msgID model status pieces =
     (newStreamWriter msgID model)\<lparr>sw_statusCode := status, sw_errBuf := concat pieces\<rparr>"
proof -
  have "fold (stream_write parse rng) pieces w = w\<lparr>sw_errBuf := sw_errBuf w @ concat pieces\<rparr>"
    if "\<not> sw_started w" "400 \<le> sw_statusCode w" for w
    using that by (induction pieces arbitrary: w) (simp_all add: stream_write_def)
  from this [of "(newStreamWriter msgID model)\<lparr>sw_statusCode := status\<rparr>"] assms show ?thesis
    by (simp add: stream_after_def newStreamWriter_def)
qed

section \<open>The protocol of the events\<close>

text \<open>
  What a client may rely on: one start first, blocks with fresh indices, deltas of the right kind
  only to blocks that are open, all of them stopped before the closing delta, and the stop last.
  A stage has the open blocks, marked whether they are tool blocks, and the indices in use.
\<close>

datatype stage = Idle | Streaming "(int \<times> bool) set" "int set" | Closing | Ended

fun proto_step :: "anthropic_event \<Rightarrow> stage \<Rightarrow> stage option" where
  "proto_step (Message_start _ _) Idle = Some (Streaming {} {})"
| "proto_step (Text_block_start i) (Streaming op us) =
     (if i \<in> us then None else Some (Streaming (insert (i, False) op) (insert i us)))"
| "proto_step (Tool_block_start i _ _) (Streaming op us) =
     (if i \<in> us then None else Some (Streaming (insert (i, True) op) (insert i us)))"
| "proto_step (Text_delta i _) (Streaming op us) = (if (i, False) \<in> op then Some (Streaming op us) else None)"
| "proto_step (Json_delta i _) (Streaming op us) = (if (i, True) \<in> op then Some (Streaming op us) else None)"
| "proto_step (Block_stop i) (Streaming op us) =
     (if i \<in> fst ` op then Some (Streaming {x \<in> op. fst x \<noteq> i} us) else None)"
| "proto_step (Message_delta _ _) (Streaming op us) = (if op = {} then Some Closing else None)"
| "proto_step Message_stop Closing = Some Ended"
| "proto_step _ _ = None"

fun run_with ::
  "(anthropic_event \<Rightarrow> stage \<Rightarrow> stage option) \<Rightarrow> anthropic_event list \<Rightarrow> stage \<Rightarrow> stage option" where
  "run_with step [] st = Some st"
| "run_with step (e # es) st = (case step e st of None \<Rightarrow> None | Some st' \<Rightarrow> run_with step es st')"

abbreviation proto_run :: "anthropic_event list \<Rightarrow> stage \<Rightarrow> stage option" where
  "proto_run \<equiv> run_with proto_step"

lemma run_with_append [simp]:
  "run_with step (es @ fs) st = Option.bind (run_with step es st) (run_with step fs)"
  by (induction es arbitrary: st) (auto split: option.split)

lemma run_with_dead: "run_with step es st = None \<Longrightarrow> run_with step (es @ fs) st = None"
  by simp

text \<open>
  The protocol with strictly ordered blocks, which the adapter means to obey: besides, one block
  is open at a time, and every block has a greater index than those before it.
\<close>

fun block_index :: "anthropic_event \<Rightarrow> int option" where
  "block_index (Text_block_start i) = Some i"
| "block_index (Tool_block_start i k n) = Some i"
| "block_index _ = None"

definition in_turn :: "int \<Rightarrow> stage \<Rightarrow> bool" where
  "in_turn i st = (case st of Streaming op us \<Rightarrow> op = {} \<and> (\<forall>u \<in> us. u < i) | _ \<Rightarrow> True)"

definition strict_step :: "anthropic_event \<Rightarrow> stage \<Rightarrow> stage option" where
  "strict_step e st =
     (case block_index e of
        Some i \<Rightarrow> if in_turn i st then proto_step e st else None
      | None \<Rightarrow> proto_step e st)"

abbreviation strict_run :: "anthropic_event list \<Rightarrow> stage \<Rightarrow> stage option" where
  "strict_run \<equiv> run_with strict_step"

lemma strict_proto: "strict_run es st = Some st' \<Longrightarrow> proto_run es st = Some st'"
  by (induction es arbitrary: st) (auto simp: strict_step_def split: option.splits if_splits)

text \<open>
  When the text of the chunks comes in order: not after a call got its name while a text block
  was open, which closes that block. \<open>S\<close> are the calls that have their name.
\<close>

definition see_tool :: "tool_delta \<Rightarrow> bool \<times> bool \<times> int set \<Rightarrow> bool \<times> bool \<times> int set" where
  "see_tool tc s =
     (let (opened, shut, S) = s
      in if td_name tc \<noteq> [] \<and> td_index tc \<notin> S then (opened, shut \<or> opened, insert (td_index tc) S) else s)"

fun text_in_order :: "bool \<times> bool \<times> int set \<Rightarrow> stream_input list \<Rightarrow> bool" where
  "text_in_order s [] \<longleftrightarrow> True"
| "text_in_order s (Done_mark # xs) \<longleftrightarrow> text_in_order s xs"
| "text_in_order (opened, shut, S) (Chunk oc # xs) \<longleftrightarrow>
     (case oc_choice oc of
        None \<Rightarrow> text_in_order (opened, shut, S) xs
      | Some ch \<Rightarrow> (ch_content ch = [] \<or> \<not> shut) \<and>
          text_in_order (fold see_tool (ch_tool_calls ch) (opened \<or> ch_content ch \<noteq> [], shut, S)) xs)"

text \<open>
  When the blocks come in strict order: at most one call gets its name, and no text comes after
  it. \<open>c\<close> is the call that has its name.
\<close>

fun one_call :: "int option \<Rightarrow> tool_delta list \<Rightarrow> int option option" where
  "one_call c [] = Some c"
| "one_call c (tc # tcs) =
     (if td_name tc = [] \<or> c = Some (td_index tc) then one_call c tcs
      else if c = None then one_call (Some (td_index tc)) tcs
      else None)"

fun blocks_in_order :: "int option \<Rightarrow> stream_input list \<Rightarrow> bool" where
  "blocks_in_order c [] \<longleftrightarrow> True"
| "blocks_in_order c (Done_mark # xs) \<longleftrightarrow> blocks_in_order c xs"
| "blocks_in_order c (Chunk oc # xs) \<longleftrightarrow>
     (case oc_choice oc of
        None \<Rightarrow> blocks_in_order c xs
      | Some ch \<Rightarrow> (ch_content ch = [] \<or> c = None) \<and>
          (case one_call c (ch_tool_calls ch) of None \<Rightarrow> False | Some c' \<Rightarrow> blocks_in_order c' xs))"

text \<open>The blocks of the writer as the client knows them, and the invariant of the writer.\<close>

abbreviation tool_at :: "streamWriter \<Rightarrow> int \<rightharpoonup> streamToolBlock" where
  "tool_at w \<equiv> map_of (sw_toolBlocks w)"

definition started_tools :: "(int \<rightharpoonup> streamToolBlock) \<Rightarrow> int set" where
  "started_tools m = {k. \<exists>t. m k = Some t \<and> tb_started t}"

definition tool_indices :: "(int \<rightharpoonup> streamToolBlock) \<Rightarrow> int set" where
  "tool_indices m = {i. \<exists>k t. m k = Some t \<and> tb_started t \<and> i = tb_anthropicIdx t}"

definition stage_of :: "streamWriter \<Rightarrow> stage" where
  "stage_of w =
     (if sw_started w then Streaming
        ((if sw_textOpen w \<and> \<not> sw_textClosed w then {(0, False)} else {}) \<union> (\<lambda>i. (i, True)) ` tool_indices (tool_at w))
        ((if sw_textOpen w then {0} else {}) \<union> tool_indices (tool_at w))
      else Idle)"

definition tools_ok :: "int \<Rightarrow> (int \<rightharpoonup> streamToolBlock) \<Rightarrow> bool" where
  "tools_ok n m \<longleftrightarrow> 1 \<le> n \<and>
     (\<forall>k t. m k = Some t \<longrightarrow> 1 \<le> tb_anthropicIdx t \<and> tb_anthropicIdx t < n \<and> \<not> tb_closed t \<and>
                (tb_started t \<longleftrightarrow> tb_name t \<noteq> [])) \<and>
     (\<forall>k t k' t'. m k = Some t \<longrightarrow> m k' = Some t' \<longrightarrow> tb_anthropicIdx t = tb_anthropicIdx t' \<longrightarrow> k = k')"

definition follows :: "bool \<times> bool \<times> int set \<Rightarrow> streamWriter \<Rightarrow> bool" where
  "follows s w \<longleftrightarrow>
     s = (sw_textOpen w, sw_textClosed w, started_tools (tool_at w)) \<and>
     \<not> sw_stopped w \<and> (sw_textClosed w \<longrightarrow> sw_textOpen w) \<and>
     (\<not> sw_started w \<longrightarrow> \<not> sw_textOpen w \<and> sw_toolBlocks w = []) \<and>
     distinct (map fst (sw_toolBlocks w)) \<and> tools_ok (sw_nextBlockIdx w) (tool_at w) \<and>
     proto_run (sw_events w) Idle = Some (stage_of w)"

lemma tools_update:
  assumes "m k = None \<or> (\<exists>u. m k = Some u \<and> tb_anthropicIdx u = tb_anthropicIdx t \<and> (tb_started u \<longrightarrow> tb_started t))"
  shows "started_tools (m(k \<mapsto> t)) = (if tb_started t then insert k (started_tools m) else started_tools m)"
    "tool_indices (m(k \<mapsto> t)) = (if tb_started t then insert (tb_anthropicIdx t) (tool_indices m) else tool_indices m)"
proof -
  show "started_tools (m(k \<mapsto> t)) = (if tb_started t then insert k (started_tools m) else started_tools m)"
    using assms by (auto simp: started_tools_def)
  have upd: "(\<exists>k' t'. (m(k \<mapsto> t)) k' = Some t' \<and> P t') \<longleftrightarrow> (\<exists>k' t'. k' \<noteq> k \<and> m k' = Some t' \<and> P t') \<or> P t" for P
    by (metis fun_upd_apply option.inject)
  have old: "(\<exists>k' t'. m k' = Some t' \<and> P t') \<longleftrightarrow>
      (\<exists>k' t'. k' \<noteq> k \<and> m k' = Some t' \<and> P t') \<or> (\<exists>u. m k = Some u \<and> P u)" for P
    by metis
  have "i \<in> tool_indices (m(k \<mapsto> t)) \<longleftrightarrow> (tb_started t \<and> i = tb_anthropicIdx t) \<or> i \<in> tool_indices m" for i
    using assms unfolding tool_indices_def mem_Collect_eq upd old by auto
  then show "tool_indices (m(k \<mapsto> t)) = (if tb_started t then insert (tb_anthropicIdx t) (tool_indices m) else tool_indices m)"
    by auto
qed

lemma follows_start: "follows s w \<Longrightarrow> follows s (ensureStart w) \<and> sw_started (ensureStart w)"
  by (auto simp: follows_def ensureStart_def emitEvent_def stage_of_def started_tools_def tool_indices_def)

lemma follows_text:
  assumes "follows (opened, shut, S) w" "\<not> shut"
  shows "follows (opened \<or> t \<noteq> [], shut, S) (text_step t w)"
proof (cases "t = []")
  case False
  have w: "follows (opened, shut, S) (ensureStart w)" "sw_started (ensureStart w)"
    using follows_start [OF assms(1)] by simp_all
  have "0 \<notin> tool_indices (tool_at (ensureStart w))"
    using w(1) by (fastforce simp: follows_def tools_ok_def tool_indices_def)
  with w assms(2) False show ?thesis
    by (auto simp: follows_def text_step_def ensureTextBlock_def emitEvent_def stage_of_def Let_def)
qed (use assms in \<open>simp add: text_step_def\<close>)

lemma learn_simps [simp]:
  "tb_anthropicIdx (learn i n t) = tb_anthropicIdx t" "tb_started (learn i n t) = tb_started t"
  "tb_closed (learn i n t) = tb_closed t"
  "tb_name (learn i n t) = (if tb_name t = [] then n else tb_name t)"
  by (simp_all add: learn_def Let_def)

text \<open>The start of a tool block, in two steps: the text block is closed, then the entry is put.\<close>

lemma follows_close_text:
  assumes "follows (opened, shut, S) w" "sw_started w"
  shows "follows (opened, shut \<or> opened, S) (closeTextBlock w) \<and> sw_started (closeTextBlock w) \<and>
         sw_toolBlocks (closeTextBlock w) = sw_toolBlocks w \<and> sw_nextBlockIdx (closeTextBlock w) = sw_nextBlockIdx w"
proof -
  have "0 \<notin> tool_indices (tool_at w)"
    using assms(1) by (fastforce simp: follows_def tools_ok_def tool_indices_def)
  moreover have "{x. (x = (0, False) \<or> x \<in> (\<lambda>i. (i, True)) ` I) \<and> fst x \<noteq> 0} = (\<lambda>i. (i, True)) ` I" if "0 \<notin> I" for I :: "int set"
    using that by auto
  ultimately show ?thesis
    using assms by (auto simp: follows_def closeTextBlock_def emitEvent_def stage_of_def)
qed

lemma tool_entry_ok:
  assumes "tools_ok (sw_nextBlockIdx w) (tool_at w)" "tb = tool_entry w k"
  shows "\<not> tb_closed tb" "1 \<le> tb_anthropicIdx tb" "tb_started tb \<longleftrightarrow> tb_name tb \<noteq> []"
    "tool_at w k = None \<and> \<not> tb_started tb \<or> tool_at w k = Some tb"
    "\<And>k' t'. k' \<noteq> k \<Longrightarrow> tool_at w k' = Some t' \<Longrightarrow> tb_anthropicIdx t' \<noteq> tb_anthropicIdx tb"
    "tb_anthropicIdx tb < (if tool_at w k = None then sw_nextBlockIdx w + 1 else sw_nextBlockIdx w)"
  using assms by (auto simp: tools_ok_def tool_entry_def split: option.splits) (metis less_irrefl)

lemma tools_okI:
  assumes "1 \<le> n"
    and "\<And>k t. m k = Some t \<Longrightarrow> 1 \<le> tb_anthropicIdx t \<and> tb_anthropicIdx t < n \<and> \<not> tb_closed t \<and>
                (tb_started t \<longleftrightarrow> tb_name t \<noteq> [])"
    and "\<And>k t k' t'. m k = Some t \<Longrightarrow> m k' = Some t' \<Longrightarrow> tb_anthropicIdx t = tb_anthropicIdx t' \<Longrightarrow> k = k'"
  shows "tools_ok n m"
  using assms unfolding tools_ok_def by meson

lemma tools_ok_put:
  assumes "tools_ok (sw_nextBlockIdx w) (tool_at w)" "tb = tool_entry w k"
    and "tb_anthropicIdx t = tb_anthropicIdx tb" "\<not> tb_closed t" "tb_started t \<longleftrightarrow> tb_name t \<noteq> []"
  shows "tools_ok (if tool_at w k = None then sw_nextBlockIdx w + 1 else sw_nextBlockIdx w) ((tool_at w)(k \<mapsto> t))"
proof -
  note e = tool_entry_ok [OF assms(1,2)]
  have "k1 = k2" if "((tool_at w)(k \<mapsto> t)) k1 = Some t1" "((tool_at w)(k \<mapsto> t)) k2 = Some t2"
    "tb_anthropicIdx t1 = tb_anthropicIdx t2" for k1 k2 t1 t2
    using that assms(1,3) e(5) by (auto simp: tools_ok_def split: if_splits)
  moreover have "1 \<le> tb_anthropicIdx t1 \<and>
      tb_anthropicIdx t1 < (if tool_at w k = None then sw_nextBlockIdx w + 1 else sw_nextBlockIdx w) \<and>
      \<not> tb_closed t1 \<and> (tb_started t1 \<longleftrightarrow> tb_name t1 \<noteq> [])" if "((tool_at w)(k \<mapsto> t)) k1 = Some t1" for k1 t1
  proof (cases "k1 = k")
    case True
    then show ?thesis using that assms(3-5) e(2,6) by simp
  next
    case False
    then have "tool_at w k1 = Some t1" using that by simp
    then have "1 \<le> tb_anthropicIdx t1 \<and> tb_anthropicIdx t1 < sw_nextBlockIdx w \<and> \<not> tb_closed t1 \<and>
        (tb_started t1 \<longleftrightarrow> tb_name t1 \<noteq> [])"
      using assms(1) by (simp add: tools_ok_def)
    then show ?thesis by simp
  qed
  moreover have "1 \<le> (if tool_at w k = None then sw_nextBlockIdx w + 1 else sw_nextBlockIdx w)"
    using assms(1) by (simp add: tools_ok_def)
  ultimately show ?thesis using tools_okI by presburger
qed

definition put_tool :: "int \<Rightarrow> streamToolBlock \<Rightarrow> streamWriter \<Rightarrow> streamWriter" where
  "put_tool k t w = w\<lparr>sw_nextBlockIdx := (if tool_at w k = None then sw_nextBlockIdx w + 1 else sw_nextBlockIdx w),
                       sw_toolBlocks := AList.update k t (sw_toolBlocks w)\<rparr>"

lemma ensureToolBlock_put:
  "ensureToolBlock k i n w =
     (let tb = learn i n (tool_entry w k)
      in if \<not> tb_started tb \<and> tb_name tb \<noteq> []
         then (tb\<lparr>tb_started := True\<rparr>,
               emitEvent (Tool_block_start (tb_anthropicIdx tb) (tb_id tb) (tb_name tb))
                 (put_tool k (tb\<lparr>tb_started := True\<rparr>) (closeTextBlock w)))
         else (tb, put_tool k tb w))"
  by (auto simp: ensureToolBlock_def put_tool_def Let_def closeTextBlock_def emitEvent_def)

lemma follows_put:
  assumes "follows (opened, shut, S) w" "sw_started w" "tb = tool_entry w k" "tb_anthropicIdx t = tb_anthropicIdx tb"
    and "\<not> tb_closed t" "tb_started t \<longleftrightarrow> tb_name t \<noteq> []"
  shows "tb_started t = tb_started tb \<Longrightarrow> follows (opened, shut, S) (put_tool k t w)"
    and "\<not> tb_started tb \<Longrightarrow> tb_started t \<Longrightarrow>
      follows (opened, shut, insert k S) (emitEvent (Tool_block_start (tb_anthropicIdx t) i n) (put_tool k t w))"
proof -
  have ok: "tools_ok (sw_nextBlockIdx w) (tool_at w)" using assms(1) by (simp add: follows_def)
  note e = tool_entry_ok [OF ok assms(3)]
  have "tools_ok (sw_nextBlockIdx (put_tool k t w)) (tool_at (put_tool k t w))"
    using tools_ok_put [OF ok assms(3-6)] by (simp add: put_tool_def AList.update_conv')
  moreover have tools: "started_tools (tool_at (put_tool k t w)) = (if tb_started t then insert k S else S)"
      "tool_indices (tool_at (put_tool k t w)) =
         (if tb_started t then insert (tb_anthropicIdx t) (tool_indices (tool_at w)) else tool_indices (tool_at w))"
    if "tb_started tb \<longrightarrow> tb_started t"
  proof -
    have S: "S = started_tools (tool_at w)" using assms(1) by (simp add: follows_def)
    have m: "tool_at (put_tool k t w) = (tool_at w)(k \<mapsto> t)" by (simp add: put_tool_def AList.update_conv')
    have "tool_at w k = None \<or> (\<exists>u. tool_at w k = Some u \<and> tb_anthropicIdx u = tb_anthropicIdx t \<and>
        (tb_started u \<longrightarrow> tb_started t))"
      using e(4) assms(4) that by metis
    from tools_update [where m = "tool_at w" and k = k and t = t, OF this]
    show "started_tools (tool_at (put_tool k t w)) = (if tb_started t then insert k S else S)"
      "tool_indices (tool_at (put_tool k t w)) =
         (if tb_started t then insert (tb_anthropicIdx t) (tool_indices (tool_at w)) else tool_indices (tool_at w))"
      unfolding S m .
  qed
  moreover have "started_tools (tool_at (put_tool k t w)) = S \<and>
      tool_indices (tool_at (put_tool k t w)) = tool_indices (tool_at w)" if same: "tb_started t = tb_started tb"
  proof (cases "tb_started t")
    case True
    then have "tool_at w k = Some tb" "tb_started tb" using e(4) same by auto
    then have "k \<in> S" "tb_anthropicIdx t \<in> tool_indices (tool_at w)"
      using assms(1,4) by (auto simp: follows_def started_tools_def tool_indices_def)
    then show ?thesis using tools same by (simp add: insert_absorb)
  qed (use tools same in simp)
  ultimately show "follows (opened, shut, S) (put_tool k t w)" if "tb_started t = tb_started tb"
    using assms(1,2) that
    by (simp add: follows_def stage_of_def put_tool_def AList.distinct_update del: map_of_eq_Some_iff)
  show "follows (opened, shut, insert k S) (emitEvent (Tool_block_start (tb_anthropicIdx t) i n) (put_tool k t w))"
    if "\<not> tb_started tb" "tb_started t"
  proof -
    have "tb_anthropicIdx t \<noteq> 0" "tb_anthropicIdx t \<notin> tool_indices (tool_at w)"
      using assms(4) e(2,4,5) that by (auto simp: tool_indices_def) (metis option.inject option.distinct(1))+
    then show ?thesis
      using assms(1,2) that tools \<open>tools_ok (sw_nextBlockIdx (put_tool k t w)) _\<close>
      by (auto simp: follows_def stage_of_def put_tool_def emitEvent_def AList.distinct_update)
  qed
qed

lemma put_tool_simps [simp]:
  "tool_at (put_tool k t w) = (tool_at w)(k \<mapsto> t)" "sw_started (put_tool k t w) = sw_started w"
  by (simp_all add: put_tool_def AList.update_conv')

lemma follows_json:
  assumes "follows s w" "sw_started w" "tool_at w k = Some t" "tb_started t"
  shows "follows s (emitEvent (Json_delta (tb_anthropicIdx t) a) w)"
proof -
  have "tb_anthropicIdx t \<in> tool_indices (tool_at w)" using assms(3,4) by (auto simp: tool_indices_def)
  with assms(1,2) show ?thesis by (auto simp: follows_def stage_of_def emitEvent_def)
qed

lemma follows_ensureToolBlock:
  assumes "follows (opened, shut, S) w" "sw_started w"
  shows "follows (see_tool tc (opened, shut, S)) (snd (ensureToolBlock (td_index tc) (td_id tc) (td_name tc) w)) \<and>
         sw_started (snd (ensureToolBlock (td_index tc) (td_id tc) (td_name tc) w)) \<and>
         tool_at (snd (ensureToolBlock (td_index tc) (td_id tc) (td_name tc) w)) (td_index tc) =
           Some (fst (ensureToolBlock (td_index tc) (td_id tc) (td_name tc) w))"
proof -
  let ?k = "td_index tc" and ?i = "td_id tc" and ?n = "td_name tc"
  define tb where "tb = tool_entry w ?k"
  have ok: "tools_ok (sw_nextBlockIdx w) (tool_at w)" and S: "S = started_tools (tool_at w)"
    using assms(1) by (simp_all add: follows_def)
  note e = tool_entry_ok [OF ok tb_def]
  have k: "?k \<in> S \<longleftrightarrow> tb_started tb" using e(4) S by (auto simp: started_tools_def)
  have v: "follows (opened, shut \<or> opened, S) (closeTextBlock w)" "sw_started (closeTextBlock w)"
      "tool_entry (closeTextBlock w) ?k = tb"
    using follows_close_text [OF assms] by (auto simp: tb_def tool_entry_def split: option.split)
  show ?thesis
  proof (cases "\<not> tb_started tb \<and> tb_name (learn ?i ?n tb) \<noteq> []")
    case True
    let ?t = "(learn ?i ?n tb)\<lparr>tb_started := True\<rparr>"
    have "?n \<noteq> []" using True e(3) by auto
    with follows_put(2) [OF v(1,2) v(3) [symmetric], of ?t "tb_id ?t" "tb_name ?t"] e(1) True k show ?thesis
      by (simp add: ensureToolBlock_put tb_def [symmetric] see_tool_def emitEvent_def v(2) Let_def)
  next
    case False
    let ?t = "learn ?i ?n tb"
    have "tb_started ?t \<longleftrightarrow> tb_name ?t \<noteq> []" using False e(3) by auto
    moreover have "?n = [] \<or> ?k \<in> S" using False e(3) k by (auto split: if_splits)
    ultimately show ?thesis
      using follows_put(1) [OF assms tb_def, of ?t] e(1) False assms(2)
      by (auto simp: ensureToolBlock_put tb_def [symmetric] see_tool_def Let_def)
  qed
qed

lemma follows_tool_delta: "follows s w \<Longrightarrow> follows (see_tool tc s) (tool_delta_step tc w)"
proof -
  assume "follows s w"
  obtain opened shut S where s: "s = (opened, shut, S)" by (cases s)
  from follows_start [OF \<open>follows s w\<close>] have w: "follows s (ensureStart w)" "sw_started (ensureStart w)" by simp_all
  show ?thesis
    using follows_ensureToolBlock [OF w [unfolded s], of tc]
    by (auto simp: tool_delta_step_def split_beta s intro: follows_json [where k = "td_index tc"])
qed

lemma follows_tool_deltas: "follows s w \<Longrightarrow> follows (fold see_tool tcs s) (fold tool_delta_step tcs w)"
  by (induction tcs arbitrary: s w) (simp_all add: follows_tool_delta)

lemma follows_fields:
  "follows s (usage_step u w) \<longleftrightarrow> follows s w" "follows s (finish_step f w) \<longleftrightarrow> follows s w"
  by (simp_all add: follows_def usage_step_def finish_step_def stage_of_def split: option.split prod.split)

lemma follows_chunk:
  assumes "follows (opened, shut, S) w" "oc_choice oc = Some ch" "ch_content ch = [] \<or> \<not> shut"
  shows "follows (fold see_tool (ch_tool_calls ch) (opened \<or> ch_content ch \<noteq> [], shut, S)) (chunk_step oc w)"
proof -
  let ?w = "usage_step (oc_usage oc) w"
  have "follows (opened \<or> ch_content ch \<noteq> [], shut, S) (text_step (ch_content ch) ?w)"
    using follows_text [of opened shut S ?w "ch_content ch"] assms(1,3)
    by (cases "ch_content ch = []") (simp_all add: follows_fields text_step_def)
  with assms(2) show ?thesis by (simp add: chunk_step_def follows_fields follows_tool_deltas)
qed

text \<open>Closing: every open block is stopped, in whatever order the loop over the map yields them.\<close>

lemma mset_move_left: "mset (move_left t us) = add_mset t (mset us)"
  by (induction us) auto

lemma mset_sort_blocks: "mset (sort_blocks ts) = mset ts"
proof -
  have "mset (fold move_left ts us) = mset ts + mset us" for us
    by (induction ts arbitrary: us) (simp_all add: mset_move_left)
  then show ?thesis by (simp add: sort_blocks_def)
qed

lemma close_tools:
  assumes "\<forall>t \<in> set ts. \<not> tb_closed t"
  shows "sw_events (fold closeToolBlock ts w) =
         sw_events w @ map (\<lambda>t. Block_stop (tb_anthropicIdx t)) (filter tb_started ts)"
    and "sw_stopped (fold closeToolBlock ts w) = sw_stopped w" "sw_started (fold closeToolBlock ts w) = sw_started w"
  using assms by (induction ts arbitrary: w) (simp_all add: closeToolBlock_def emitEvent_def)

lemma proto_stops:
  assumes "distinct (map fst xs)"
  shows "proto_run (map (\<lambda>x. Block_stop (fst x)) xs) (Streaming (set xs) us) = Some (Streaming {} us)"
  using assms
proof (induction xs)
  case (Cons x xs)
  from Cons.prems have "fst x \<notin> fst ` set xs" by simp
  then have "{y \<in> set (x # xs). fst y \<noteq> fst x} = set xs" by (auto simp: image_def)
  with Cons show ?case by simp
qed simp

lemma started_values:
  assumes "distinct (map fst al)" "tools_ok n (map_of al)" "mset ts = mset (map snd al)"
  shows "\<forall>t \<in> set ts. \<not> tb_closed t" "distinct (map tb_anthropicIdx (filter tb_started ts))"
    and "tb_anthropicIdx ` set (filter tb_started ts) = tool_indices (map_of al)"
proof -
  have al: "map_of al k = Some t \<longleftrightarrow> (k, t) \<in> set al" for k t using assms(1) by simp
  have ts: "set ts = snd ` set al" using mset_eq_setD [OF assms(3)] by simp
  show "\<forall>t \<in> set ts. \<not> tb_closed t" using assms(2) ts al by (fastforce simp: tools_ok_def)
  have "distinct (map (tb_anthropicIdx \<circ> snd) al)"
    unfolding distinct_map
  proof
    show "distinct al" using assms(1) distinct_map by blast
    show "inj_on (tb_anthropicIdx \<circ> snd) (set al)"
    proof (rule inj_onI)
      fix x y assume "x \<in> set al" "y \<in> set al" "(tb_anthropicIdx \<circ> snd) x = (tb_anthropicIdx \<circ> snd) y"
      moreover obtain k t k' t' where xy: "x = (k, t)" "y = (k', t')" by (cases x, cases y)
      ultimately have "map_of al k = Some t" "map_of al k' = Some t'" "tb_anthropicIdx t = tb_anthropicIdx t'"
        using al by auto
      with assms(2) have "k = k'" unfolding tools_ok_def by meson
      with xy \<open>map_of al k = Some t\<close> \<open>map_of al k' = Some t'\<close> show "x = y" by simp
    qed
  qed
  moreover have "mset (map tb_anthropicIdx ts) = mset (map (tb_anthropicIdx \<circ> snd) al)"
    using assms(3) by (metis map_map mset_map)
  ultimately have "distinct (map tb_anthropicIdx ts)" using mset_eq_imp_distinct_iff by blast
  then show "distinct (map tb_anthropicIdx (filter tb_started ts))"
    by (simp add: distinct_map inj_on_def)
  show "tb_anthropicIdx ` set (filter tb_started ts) = tool_indices (map_of al)"
    using ts al by (fastforce simp: tool_indices_def image_iff)
qed

lemma finalize_ends:
  assumes "follows s w" "\<forall>ts. mset (rng ts) = mset ts"
  shows "proto_run (sw_events (finalize rng w)) Idle = Some Ended \<and>
         sw_stopped (finalize rng w) \<and> sw_started (finalize rng w)"
proof -
  obtain opened shut S where s: "s = (opened, shut, S)" by (cases s)
  let ?w1 = "ensureStart w"
  define w2 where "w2 = (if \<not> sw_textOpen ?w1 \<and> sw_toolBlocks ?w1 = [] then ensureTextBlock ?w1 else ?w1)"
  have w1: "follows s ?w1" "sw_started ?w1" using follows_start [OF assms(1)] by simp_all
  have w2: "\<exists>s2. follows s2 w2" "sw_started w2" "\<not> sw_stopped w2"
    using w1 by (auto simp: w2_def follows_def ensureTextBlock_def emitEvent_def stage_of_def tool_indices_def)
  then obtain opened shut S where "follows (opened, shut, S) w2" by (metis prod_cases3)
  from follows_close_text [OF this w2(2)] obtain c where
    v: "follows (opened, c, S) (closeTextBlock w2)" "sw_started (closeTextBlock w2)" and c: "opened \<longrightarrow> c" by blast
  let ?v = "closeTextBlock w2"
  let ?ts = "sort_blocks (rng (map snd (sw_toolBlocks ?v)))"
  have stop: "closeTextBlock (w2\<lparr>sw_stopped := True\<rparr>) = ?v\<lparr>sw_stopped := True\<rparr>"
    by (simp add: closeTextBlock_def emitEvent_def)
  have ts: "mset ?ts = mset (map snd (sw_toolBlocks ?v))" using assms(2) by (simp add: mset_sort_blocks)
  have ok: "distinct (map fst (sw_toolBlocks ?v))" "tools_ok (sw_nextBlockIdx ?v) (tool_at ?v)"
    using v(1) by (simp_all add: follows_def)
  note sv = started_values [OF ok ts]
  let ?is = "map (\<lambda>t. (tb_anthropicIdx t, True)) (filter tb_started ?ts)"
  have "proto_run (sw_events ?v) Idle = Some (Streaming (set ?is) ((if opened then {0} else {}) \<union> tool_indices (tool_at ?v)))"
    using v c sv(3) by (auto simp: follows_def stage_of_def image_image simp flip: sv(3))
  moreover have "proto_run (map (\<lambda>t. Block_stop (tb_anthropicIdx t)) (filter tb_started ?ts)) (Streaming (set ?is) us) =
      Some (Streaming {} us)" for us
    using proto_stops [of ?is us] sv(2) by (simp add: o_def)
  ultimately have run: "proto_run (sw_events (fold closeToolBlock ?ts (?v\<lparr>sw_stopped := True\<rparr>))) Idle =
      Some (Streaming {} ((if opened then {0} else {}) \<union> tool_indices (tool_at ?v)))"
    using close_tools(1) [OF sv(1), of "?v\<lparr>sw_stopped := True\<rparr>"] by simp
  have "finalize rng w = (let w4 = fold closeToolBlock ?ts (?v\<lparr>sw_stopped := True\<rparr>)
      in emitEvent Message_stop (emitEvent (Message_delta (mapStopReason (sw_finish w4)) (sw_outputToks w4)) w4))"
    using assms(1) by (simp add: finalize_def Let_def stop w2_def [symmetric] follows_def)
  with run close_tools(2,3) [OF sv(1)] v(2) show ?thesis by (simp add: Let_def emitEvent_def)
qed

text \<open>Once the events are out of order nothing that follows puts them right.\<close>

definition rejected :: "(anthropic_event \<Rightarrow> stage \<Rightarrow> stage option) \<Rightarrow> streamWriter \<Rightarrow> bool" where
  "rejected step w \<longleftrightarrow> sw_started w \<and> run_with step (sw_events w) Idle = None"

lemma rejected_emit [simp]: "rejected step w \<Longrightarrow> rejected step (emitEvent e w)"
  by (simp add: rejected_def emitEvent_def)

lemma rejected_fields [simp]:
  "rejected step (w\<lparr>sw_textOpen := b\<rparr>) = rejected step w" "rejected step (w\<lparr>sw_textClosed := b\<rparr>) = rejected step w"
  "rejected step (w\<lparr>sw_stopped := b\<rparr>) = rejected step w" "rejected step (w\<lparr>sw_finish := t\<rparr>) = rejected step w"
  "rejected step (w\<lparr>sw_inputToks := i\<rparr>) = rejected step w" "rejected step (w\<lparr>sw_outputToks := i\<rparr>) = rejected step w"
  "rejected step (w\<lparr>sw_textBuf := t\<rparr>) = rejected step w" "rejected step (w\<lparr>sw_toolBlocks := m\<rparr>) = rejected step w"
  "rejected step (put_tool k tb w) = rejected step w"
  by (simp_all add: rejected_def put_tool_def)

lemma rejected_parts [simp]:
  assumes "rejected step w"
  shows "rejected step (ensureStart w)" "rejected step (ensureTextBlock w)" "rejected step (closeTextBlock w)"
    "rejected step (closeToolBlock tb w)" "rejected step (usage_step u w)" "rejected step (finish_step f w)"
  using assms by (auto simp: ensureStart_def ensureTextBlock_def closeTextBlock_def closeToolBlock_def
      usage_step_def finish_step_def rejected_def [of _ "w\<lparr>sw_started := True\<rparr>"] split: option.splits)
    (simp_all add: rejected_def)

lemma rejected_fold: "(\<And>x w. rejected step w \<Longrightarrow> rejected step (f x w)) \<Longrightarrow> rejected step w \<Longrightarrow> rejected step (fold f xs w)"
  by (induction xs arbitrary: w) simp_all

lemma rejected_tool_delta: "rejected step w \<Longrightarrow> rejected step (tool_delta_step tc w)"
  by (simp add: tool_delta_step_def ensureToolBlock_put Let_def)

lemma rejected_finalize: "rejected step w \<Longrightarrow> rejected step (finalize rng w)"
  by (simp add: finalize_def Let_def rejected_fold)

lemma rejected_chunk: "rejected step w \<Longrightarrow> rejected step (chunk_step oc w)"
  by (simp add: chunk_step_def text_step_def Let_def rejected_fold rejected_tool_delta split: option.split)

lemma rejected_inputs: "rejected step w \<Longrightarrow> rejected step (fold (input_step rng) xs w)"
proof (rule rejected_fold)
  show "rejected step v \<Longrightarrow> rejected step (input_step rng x v)" for x v
    by (cases x) (simp_all add: rejected_chunk rejected_finalize)
qed

lemma late_text_rejected:
  assumes "follows (opened, True, S) w" "oc_choice oc = Some ch" "ch_content ch \<noteq> []"
  shows "rejected proto_step (chunk_step oc w)"
proof -
  let ?w = "usage_step (oc_usage oc) w"
  have "follows (opened, True, S) ?w" using assms(1) by (simp add: follows_fields)
  then have "sw_textOpen ?w" "sw_textClosed ?w" "sw_started ?w" "proto_run (sw_events ?w) Idle = Some (stage_of ?w)"
    by (auto simp: follows_def)
  then have "rejected proto_step (text_step (ch_content ch) ?w)"
    using assms(3) by (auto simp: rejected_def text_step_def ensureStart_def ensureTextBlock_def emitEvent_def
        stage_of_def Let_def)
  with assms(2) show ?thesis by (simp add: chunk_step_def rejected_fold rejected_tool_delta)
qed

lemma inputs_in_order:
  assumes "follows s w" "Done_mark \<notin> set xs"
  shows "if text_in_order s xs then \<exists>s'. follows s' (fold (input_step rng) xs w)
         else rejected proto_step (fold (input_step rng) xs w)"
  using assms
proof (induction s xs arbitrary: w rule: text_in_order.induct)
  case (3 opened shut S oc xs)
  show ?case
  proof (cases "oc_choice oc")
    case None
    then have "follows (opened, shut, S) (chunk_step oc w)"
      using "3.prems"(1) by (simp add: chunk_step_def follows_fields)
    from "3.IH"(1) [OF None this] "3.prems"(2) None show ?thesis by (simp del: split_paired_Ex)
  next
    case (Some ch)
    show ?thesis
    proof (cases "ch_content ch = [] \<or> \<not> shut")
      case True
      from "3.IH"(2) [OF Some follows_chunk [OF "3.prems"(1) Some True]] "3.prems"(2) Some True
      show ?thesis by (simp del: split_paired_Ex)
    next
      case False
      then have "rejected proto_step (chunk_step oc w)" using late_text_rejected "3.prems"(1) Some by simp
      with False Some show ?thesis by (simp add: rejected_inputs)
    qed
  qed
qed auto

lemma follows_new: "follows (False, False, {}) ((newStreamWriter msgID model)\<lparr>sw_statusCode := status\<rparr>)"
  by (simp add: follows_def newStreamWriter_def stage_of_def started_tools_def tools_ok_def)

lemma error_message_nonempty: "extractUpstreamErrorMessage raw body \<noteq> []"
proof -
  have field: "error_field m k \<noteq> Some []" for m k
    by (auto simp: error_field_def text_field_def split: option.splits json.splits if_splits)
  have "first_some (map (error_field m) ks) \<noteq> Some []" for m ks
    using field by (induction ks) (auto split: option.splits)
  then show ?thesis
    by (auto simp: extractUpstreamErrorMessage_def simp del: list.map first_some.simps split: option.splits)
qed

lemma text_in_order_done: "text_in_order s (xs @ [Done_mark]) = text_in_order s xs"
  by (induction s xs rule: text_in_order.induct) (auto split: option.split)

text \<open>A writer whose events are in strict order, and the events that cannot disturb it.\<close>

definition alive :: "streamWriter \<Rightarrow> bool" where
  "alive w \<longleftrightarrow> strict_run (sw_events w) Idle \<noteq> None"

abbreviation quiet :: "anthropic_event list \<Rightarrow> bool" where
  "quiet es \<equiv> list_all (\<lambda>e. block_index e = None) es"

lemma strict_quiet: "quiet es \<Longrightarrow> strict_run es st = proto_run es st"
  by (induction es arbitrary: st) (auto simp: strict_step_def split: option.split)

lemma live_quiet:
  assumes "strict_run es st \<noteq> None" "quiet fs" "proto_run (es @ fs) st = Some x"
  shows "strict_run (es @ fs) st = Some x"
proof -
  obtain st' where st': "strict_run es st = Some st'" using assms(1) by blast
  with assms(3) strict_proto [OF st'] strict_quiet [OF assms(2)] show ?thesis by simp
qed

lemma alive_stage: "alive w \<Longrightarrow> follows s w \<Longrightarrow> strict_run (sw_events w) Idle = Some (stage_of w)"
  unfolding alive_def follows_def using strict_proto by fastforce

lemma alive_quiet:
  assumes "alive w" "sw_events w' = sw_events w @ es" "quiet es" "follows s w'"
  shows "alive w'"
proof -
  have "proto_run (sw_events w @ es) Idle = Some (stage_of w')"
    using assms(4) unfolding follows_def assms(2) by blast
  from live_quiet [OF _ assms(3) this] assms(1) show ?thesis by (simp add: alive_def assms(2))
qed

lemma alive_block:
  assumes "alive w" "follows s w" "block_index e = Some i" "in_turn i (stage_of w)"
    and "quiet es" "proto_run ((sw_events w @ [e]) @ es) Idle = Some x"
  shows "strict_run ((sw_events w @ [e]) @ es) Idle = Some x"
proof (rule live_quiet [OF _ assms(5,6)])
  have "proto_run (sw_events w @ [e]) Idle \<noteq> None" by (metis assms(6) option.distinct(1) run_with_dead)
  then show "strict_run (sw_events w @ [e]) Idle \<noteq> None"
    using alive_stage [OF assms(1,2)] assms(2-4) by (simp add: strict_step_def follows_def split: option.splits)
qed

lemma late_block:
  assumes "follows s w" "block_index e = Some i" "\<not> in_turn i (stage_of w)"
  shows "strict_run (sw_events w @ [e]) Idle = None"
proof (cases "strict_run (sw_events w) Idle")
  case (Some st)
  with strict_proto have "st = stage_of w" using assms(1) by (force simp: follows_def)
  with Some assms(2,3) show ?thesis by (simp add: strict_step_def)
qed simp

text \<open>The invariant: \<open>c\<close> is the one call that has its name; then the text block, if any, is closed.\<close>

definition ordered :: "int option \<Rightarrow> streamWriter \<Rightarrow> bool" where
  "ordered c w \<longleftrightarrow> alive w \<and>
     (\<exists>opened. follows (opened, opened \<and> c \<noteq> None, set_option c) w)"

lemma ordered_start: "ordered c w \<Longrightarrow> ordered c (ensureStart w) \<and> sw_started (ensureStart w)"
proof -
  assume "ordered c w"
  then obtain opened where w: "alive w" "follows (opened, opened \<and> c \<noteq> None, set_option c) w"
    by (auto simp: ordered_def)
  note v = follows_start [OF w(2)]
  have "\<exists>es. sw_events (ensureStart w) = sw_events w @ es \<and> quiet es"
    by (auto simp: ensureStart_def emitEvent_def)
  with alive_quiet [OF w(1) _ _ conjunct1 [OF v]] have "alive (ensureStart w)" by blast
  with v show ?thesis by (auto simp: ordered_def)
qed

lemma ordered_fields [simp]: "ordered c (usage_step u w) \<longleftrightarrow> ordered c w" "ordered c (finish_step f w) \<longleftrightarrow> ordered c w"
proof -
  have "alive (usage_step u w) \<longleftrightarrow> alive w" "alive (finish_step f w) \<longleftrightarrow> alive w"
    by (simp_all add: alive_def usage_step_def finish_step_def split: option.split prod.split)
  then show "ordered c (usage_step u w) \<longleftrightarrow> ordered c w" "ordered c (finish_step f w) \<longleftrightarrow> ordered c w"
    by (simp_all add: ordered_def follows_fields)
qed

lemma no_tools: "follows (opened, shut, {}) w \<Longrightarrow> tool_indices (tool_at w) = {}"
  by (auto simp: follows_def started_tools_def tool_indices_def)

lemma a_tool: "follows (opened, shut, {k}) w \<Longrightarrow> \<exists>i. i \<in> tool_indices (tool_at w)"
proof -
  assume "follows (opened, shut, {k}) w"
  then have "started_tools (tool_at w) = {k}" by (auto simp: follows_def)
  then have "k \<in> started_tools (tool_at w)" by simp
  then show ?thesis by (auto simp: started_tools_def tool_indices_def)
qed

lemma ordered_text: "ordered None w \<Longrightarrow> ordered None (text_step t w)"
proof (cases "t = []")
  case False
  assume "ordered None w"
  with ordered_start have "ordered None (ensureStart w)" and st: "sw_started (ensureStart w)" by simp_all
  then obtain opened where v: "alive (ensureStart w)" "follows (opened, False, {}) (ensureStart w)"
    by (auto simp: ordered_def)
  have o: "opened = sw_textOpen (ensureStart w)" using v(2) by (simp add: follows_def)
  have w: "follows (True, False, {}) (text_step t w)"
  proof -
    have "text_step t (ensureStart w) = text_step t w"
      using False by (simp add: text_step_def ensureStart_def emitEvent_def Let_def)
    with follows_text [OF v(2), of t] False show ?thesis by simp
  qed
  have "alive (text_step t w)"
  proof (cases opened)
    case True
    then have "sw_events (text_step t w) = sw_events (ensureStart w) @ [Text_delta 0 t]"
      using False by (simp add: text_step_def ensureTextBlock_def emitEvent_def Let_def o)
    then show ?thesis by (rule alive_quiet [OF v(1)]) (use w in simp_all)
  next
    case closed: False
    then have ev: "sw_events (text_step t w) = (sw_events (ensureStart w) @ [Text_block_start 0]) @ [Text_delta 0 t]"
      using False by (simp add: text_step_def ensureTextBlock_def emitEvent_def Let_def o)
    have run: "proto_run (sw_events (text_step t w)) Idle = Some (stage_of (text_step t w))"
      using w unfolding follows_def by blast
    have "in_turn 0 (stage_of (ensureStart w))"
      using no_tools [OF v(2)] closed st o by (simp add: in_turn_def stage_of_def)
    from alive_block [OF v _ this _ run [unfolded ev]] show ?thesis unfolding alive_def ev by simp
  qed
  with w show ?thesis by (auto simp: ordered_def)
qed (simp add: text_step_def)

lemma late_text:
  assumes "ordered (Some k) w" "t \<noteq> []"
  shows "rejected strict_step (text_step t w)"
proof -
  obtain opened where v: "alive (ensureStart w)" "follows (opened, opened, {k}) (ensureStart w)"
    and st: "sw_started (ensureStart w)"
    using ordered_start [OF assms(1)] by (auto simp: ordered_def)
  have o: "opened = sw_textOpen (ensureStart w)" "opened = sw_textClosed (ensureStart w)"
    using v(2) unfolding follows_def by blast+
  have st': "sw_started (text_step t w)"
    using assms(2) st by (simp add: text_step_def ensureTextBlock_def emitEvent_def Let_def)
  show ?thesis
  proof (cases opened)
    case True
    have "sw_events (text_step t w) = sw_events (ensureStart w) @ [Text_delta 0 t]"
      using assms(2) True by (simp add: text_step_def ensureTextBlock_def emitEvent_def Let_def o)
    moreover have "strict_run (sw_events (ensureStart w)) Idle = Some (stage_of (ensureStart w))"
      by (rule alive_stage [OF v])
    ultimately show ?thesis
      using True st st' o by (auto simp: rejected_def strict_step_def stage_of_def)
  next
    case False
    have "sw_events (text_step t w) = (sw_events (ensureStart w) @ [Text_block_start 0]) @ [Text_delta 0 t]"
      using assms(2) False by (simp add: text_step_def ensureTextBlock_def emitEvent_def Let_def o)
    moreover have "\<not> in_turn 0 (stage_of (ensureStart w))"
      using a_tool [OF v(2)] st by (auto simp: in_turn_def stage_of_def)
    ultimately have ev: "sw_events (text_step t w) = (sw_events (ensureStart w) @ [Text_block_start 0]) @ [Text_delta 0 t]"
      and "strict_run (sw_events (ensureStart w) @ [Text_block_start 0]) Idle = None"
      using late_block [OF v(2), of "Text_block_start 0" 0] by simp_all
    from run_with_dead [OF this(2)] st' show ?thesis unfolding rejected_def ev by blast
  qed
qed

text \<open>The events of a delta of a call: at most one block starts, and only when the call gets its name.\<close>

lemma tool_delta_events:
  assumes "follows s w"
  obtains i es where "quiet es"
    and "sw_events (tool_delta_step tc w) =
          (if td_name tc = [] \<or> td_index tc \<in> started_tools (tool_at w) then sw_events (ensureStart w)
           else sw_events (closeTextBlock (ensureStart w)) @
             [Tool_block_start (tb_anthropicIdx (tool_entry (ensureStart w) (td_index tc))) i (td_name tc)]) @ es"
proof -
  let ?v = "ensureStart w" and ?k = "td_index tc"
  define tb where "tb = tool_entry ?v ?k"
  have ok: "tools_ok (sw_nextBlockIdx ?v) (tool_at ?v)"
    using follows_start [OF assms] unfolding follows_def by blast
  note e = tool_entry_ok [OF ok tb_def]
  have same: "tool_at ?v = tool_at w" by (simp add: ensureStart_def emitEvent_def)
  have st: "?k \<in> started_tools (tool_at w) \<longleftrightarrow> tb_started tb"
    using e(4) same by (auto simp: started_tools_def)
  have n: "\<not> tb_started tb \<and> tb_name (learn (td_id tc) (td_name tc) tb) \<noteq> [] \<longleftrightarrow>
      \<not> (td_name tc = [] \<or> tb_started tb)"
    using e(3) by auto
  have name: "tb_name (learn (td_id tc) (td_name tc) tb) = td_name tc" if "\<not> tb_started tb"
    using that e(3) by simp
  obtain t w1 where w1: "ensureToolBlock ?k (td_id tc) (td_name tc) ?v = (t, w1)" by (metis prod.exhaust)
  have "sw_events w1 = (if td_name tc = [] \<or> tb_started tb then sw_events ?v
      else sw_events (closeTextBlock ?v) @ [Tool_block_start (tb_anthropicIdx tb) (tb_id (learn (td_id tc) (td_name tc) tb)) (td_name tc)])"
    using w1 name unfolding ensureToolBlock_put tb_def [symmetric] Let_def n
    by (auto simp: emitEvent_def put_tool_def split: if_splits)
  moreover have "\<exists>es. sw_events (tool_delta_step tc w) = sw_events w1 @ es \<and> quiet es"
    by (simp add: tool_delta_step_def w1 emitEvent_def)
  then obtain es where "quiet es" "sw_events (tool_delta_step tc w) = sw_events w1 @ es" by blast
  ultimately show ?thesis by (intro that [of es "tb_id (learn (td_id tc) (td_name tc) tb)"]) (simp_all only: st tb_def)
qed

lemma closeTextBlock_quiet: "\<exists>es. sw_events (closeTextBlock w) = sw_events w @ es \<and> quiet es"
  by (simp add: closeTextBlock_def emitEvent_def)

lemma ordered_tool:
  assumes "ordered c w"
  shows "if td_name tc = [] \<or> c = Some (td_index tc) then ordered c (tool_delta_step tc w)
         else if c = None then ordered (Some (td_index tc)) (tool_delta_step tc w)
         else rejected strict_step (tool_delta_step tc w)"
proof -
  let ?v = "ensureStart w" and ?k = "td_index tc" and ?w = "tool_delta_step tc w"
  obtain opened where w: "alive w" "follows (opened, opened \<and> c \<noteq> None, set_option c) w"
    using assms by (auto simp: ordered_def)
  obtain op' where v: "alive ?v" "follows (op', op' \<and> c \<noteq> None, set_option c) ?v" "sw_started ?v"
    using ordered_start [OF assms] by (auto simp: ordered_def)
  have "op' = opened" using v(2) w(2) by (auto simp: follows_def ensureStart_def emitEvent_def split: if_splits)
  note v = v [unfolded this]
  have S: "started_tools (tool_at w) = set_option c" using w(2) unfolding follows_def by blast
  note fol = follows_tool_delta [OF w(2), of tc]
  obtain i es where es: "quiet es" "sw_events ?w =
          (if td_name tc = [] \<or> ?k \<in> set_option c then sw_events ?v
           else sw_events (closeTextBlock ?v) @
             [Tool_block_start (tb_anthropicIdx (tool_entry ?v ?k)) i (td_name tc)]) @ es"
    by (rule tool_delta_events [OF w(2), of tc, unfolded S])
  show ?thesis
  proof (cases "td_name tc = [] \<or> c = Some ?k")
    case True
    then have "sw_events ?w = sw_events ?v @ es" using es(2) by auto
    moreover have "follows (opened, opened \<and> c \<noteq> None, set_option c) ?w"
      using fol True by (auto simp: see_tool_def)
    ultimately show ?thesis using alive_quiet [OF v(1) _ es(1)] True by (auto simp: ordered_def)
  next
    case False
    let ?u = "closeTextBlock ?v"
    let ?i = "tb_anthropicIdx (tool_entry ?v ?k)"
    have ev: "sw_events ?w = (sw_events ?u @ [Tool_block_start ?i i (td_name tc)]) @ es"
      using es(2) False by auto
    have u: "follows (opened, opened, set_option c) ?u" "sw_started ?u"
      using follows_close_text [OF v(2,3)] by (cases opened; simp)+
    have "alive ?u" using closeTextBlock_quiet [of ?v] alive_quiet [OF v(1) _ _ u(1)] by blast
    have run: "proto_run (sw_events ?w) Idle = Some (stage_of ?w)"
      using fol by (cases "see_tool tc (opened, opened \<and> c \<noteq> None, set_option c)") (simp add: follows_def)
    have ok: "tools_ok (sw_nextBlockIdx ?v) (tool_at ?v)" using v(2) unfolding follows_def by blast
    have i: "1 \<le> ?i" using tool_entry_ok(2) [OF ok refl] .
    show ?thesis
    proof (cases c)
      case None
      have "tool_indices (tool_at ?u) = {}" using u(1) None by (intro no_tools) simp
      moreover have "sw_textOpen ?u = opened" "sw_textClosed ?u = opened"
        using u(1) unfolding follows_def by blast+
      ultimately have "in_turn ?i (stage_of ?u)" using i u(2) by (simp add: in_turn_def stage_of_def)
      from alive_block [OF \<open>alive ?u\<close> u(1) _ this es(1) run [unfolded ev]] have "alive ?w"
        unfolding alive_def ev by simp
      moreover have "follows (opened, opened, {?k}) ?w" using fol False None by (simp add: see_tool_def)
      ultimately show ?thesis using False None by (auto simp: ordered_def)
    next
      case (Some k)
      then have "\<exists>i. i \<in> tool_indices (tool_at ?u)" using u(1) by (intro a_tool) simp
      then have "\<not> in_turn ?i (stage_of ?u)" using u(2) by (auto simp: in_turn_def stage_of_def)
      from run_with_dead [OF late_block [OF u(1) _ this, of "Tool_block_start ?i i (td_name tc)"], of es]
      have "strict_run (sw_events ?w) Idle = None" unfolding ev by simp
      moreover have "sw_started ?w"
        using fol False Some by (auto simp: see_tool_def follows_def started_tools_def)
      ultimately show ?thesis using False Some by (simp add: rejected_def)
    qed
  qed
qed

lemma ordered_tools:
  "ordered c w \<Longrightarrow>
   case one_call c tcs of
     None \<Rightarrow> rejected strict_step (fold tool_delta_step tcs w)
   | Some c' \<Rightarrow> ordered c' (fold tool_delta_step tcs w)"
proof (induction tcs arbitrary: c w)
  case (Cons tc tcs)
  let ?w = "tool_delta_step tc w"
  have next_c: "one_call c (tc # tcs) = one_call c' tcs \<Longrightarrow> ordered c' ?w \<Longrightarrow> ?case" for c'
    using Cons.IH [of c' ?w] unfolding fold_simps by simp
  note step = ordered_tool [OF Cons.prems, of tc]
  consider "td_name tc = [] \<or> c = Some (td_index tc)" | "td_name tc \<noteq> []" "c = None"
    | "td_name tc \<noteq> []" "c \<noteq> Some (td_index tc)" "c \<noteq> None"
    by blast
  then show ?case
  proof cases
    case 1
    with step have "ordered c ?w" by simp
    with 1 show ?thesis by (intro next_c [of c]) simp_all
  next
    case 2
    with step have "ordered (Some (td_index tc)) ?w" by simp
    with 2 show ?thesis by (intro next_c [of "Some (td_index tc)"]) simp_all
  next
    case 3
    with step have "rejected strict_step ?w" by auto
    then have "rejected strict_step (fold tool_delta_step tcs ?w)" by (simp add: rejected_fold rejected_tool_delta)
    with 3 show ?thesis by auto
  qed
qed simp

lemma ordered_chunk:
  assumes "ordered c w" "oc_choice oc = Some ch"
  shows "case (if ch_content ch = [] \<or> c = None then one_call c (ch_tool_calls ch) else None) of
           None \<Rightarrow> rejected strict_step (chunk_step oc w)
         | Some c' \<Rightarrow> ordered c' (chunk_step oc w)"
proof -
  let ?w = "usage_step (oc_usage oc) w"
  have w: "ordered c ?w" using assms(1) by simp
  show ?thesis
  proof (cases "ch_content ch = [] \<or> c = None")
    case True
    then have "ordered c (text_step (ch_content ch) ?w)"
      using w ordered_text [of ?w "ch_content ch"] by (auto simp: text_step_def)
    from ordered_tools [OF this, of "ch_tool_calls ch"] True assms(2) show ?thesis
      by (auto simp: chunk_step_def split: option.splits)
  next
    case False
    then obtain k where "c = Some k" by blast
    with late_text [of k ?w "ch_content ch"] w False assms(2) show ?thesis
      by (simp add: chunk_step_def rejected_fold rejected_tool_delta)
  qed
qed

lemma inputs_in_strict_order:
  assumes "ordered c w" "Done_mark \<notin> set xs"
  shows "if blocks_in_order c xs then \<exists>c'. ordered c' (fold (input_step rng) xs w)
         else rejected strict_step (fold (input_step rng) xs w)"
  using assms
proof (induction c xs arbitrary: w rule: blocks_in_order.induct)
  case (3 c oc xs)
  show ?case
  proof (cases "oc_choice oc")
    case None
    then have "ordered c (chunk_step oc w)" using "3.prems"(1) by (simp add: chunk_step_def)
    from "3.IH"(1) [OF None this] "3.prems"(2) None show ?thesis by simp
  next
    case (Some ch)
    note step = ordered_chunk [OF "3.prems"(1) Some]
    show ?thesis
    proof (cases "if ch_content ch = [] \<or> c = None then one_call c (ch_tool_calls ch) else None")
      case None
      with step have "rejected strict_step (chunk_step oc w)" by simp
      with None Some show ?thesis by (auto simp: rejected_inputs split: if_splits)
    next
      case (Some c')
      with step have w: "ordered c' (chunk_step oc w)" by simp
      have c': "ch_content ch = [] \<or> c = None" "one_call c (ch_tool_calls ch) = Some c'"
        using Some by (simp_all split: if_splits)
      from "3.IH"(2) [OF \<open>oc_choice oc = Some ch\<close> c'(2) w] "3.prems"(2) \<open>oc_choice oc = Some ch\<close> c'
      show ?thesis by simp
    qed
  qed
qed auto

lemma closeTools_quiet: "\<exists>es. sw_events (fold closeToolBlock ts w) = sw_events w @ es \<and> quiet es"
proof (induction ts arbitrary: w)
  case (Cons t ts)
  have "\<exists>es. sw_events (closeToolBlock t w) = sw_events w @ es \<and> quiet es"
    by (simp add: closeToolBlock_def emitEvent_def)
  with Cons.IH [of "closeToolBlock t w"] show ?case by fastforce
qed simp

lemma ordered_finalize:
  assumes "ordered c w" "\<forall>ts. mset (rng ts) = mset ts"
  shows "strict_run (sw_events (finalize rng w)) Idle = Some Ended"
proof -
  let ?w1 = "ensureStart w"
  define w2 where "w2 = (if \<not> sw_textOpen ?w1 \<and> sw_toolBlocks ?w1 = [] then ensureTextBlock ?w1 else ?w1)"
  obtain opened where w1: "alive ?w1" "follows (opened, opened \<and> c \<noteq> None, set_option c) ?w1" "sw_started ?w1"
    using ordered_start [OF assms(1)] by (auto simp: ordered_def)
  obtain s where w: "follows s w" using assms(1) by (auto simp: ordered_def)
  let ?w3 = "closeTextBlock (w2\<lparr>sw_stopped := True\<rparr>)"
  have "\<not> sw_stopped w" using w by (cases s) (simp add: follows_def)
  then obtain m n where fin: "sw_events (finalize rng w) =
      sw_events (fold closeToolBlock (sort_blocks (rng (map snd (sw_toolBlocks ?w3)))) ?w3) @ [Message_delta m n, Message_stop]"
    by (simp add: finalize_def w2_def Let_def emitEvent_def)
  obtain fs where fs: "sw_events ?w3 = sw_events w2 @ fs" "quiet fs"
    using closeTextBlock_quiet [of "w2\<lparr>sw_stopped := True\<rparr>"] by auto
  obtain gs where gs: "sw_events (fold closeToolBlock (sort_blocks (rng (map snd (sw_toolBlocks ?w3)))) ?w3) =
      sw_events ?w3 @ gs" "quiet gs"
    using closeTools_quiet [of "sort_blocks (rng (map snd (sw_toolBlocks ?w3)))" ?w3] by blast
  define es where "es = fs @ gs @ [Message_delta m n, Message_stop]"
  have es: "quiet es" "sw_events (finalize rng w) = sw_events w2 @ es"
    using fin fs gs by (simp_all add: es_def)
  have run: "proto_run (sw_events (finalize rng w)) Idle = Some Ended" using finalize_ends [OF w assms(2)] by blast
  show ?thesis
  proof (cases "\<not> sw_textOpen ?w1 \<and> sw_toolBlocks ?w1 = []")
    case True
    then have ev: "sw_events (finalize rng w) = (sw_events ?w1 @ [Text_block_start 0]) @ es"
      using es(2) by (simp add: w2_def ensureTextBlock_def emitEvent_def)
    have "in_turn 0 (stage_of ?w1)" using True w1(3) by (simp add: in_turn_def stage_of_def tool_indices_def)
    from alive_block [OF w1(1,2) _ this es(1) run [unfolded ev]] show ?thesis unfolding ev by simp
  next
    case False
    then have "w2 = ?w1" by (simp only: w2_def if_False)
    from live_quiet [OF _ es(1) run [unfolded es(2)]] w1(1) show ?thesis
      unfolding es(2) by (simp add: alive_def \<open>w2 = ?w1\<close>)
  qed
qed

text \<open>The verdict on a stream under either protocol, from that on what comes before the end mark.\<close>

lemma stream_after_verdict:
  assumes "status < 400" "xs = inputs_of parse (all_lines (concat pieces))" "Done_mark \<notin> set (butlast xs)"
    and "w = stream_after parse rng msgID model status pieces" "sw_started w"
    and good: "\<And>ys. Done_mark \<notin> set ys \<Longrightarrow> P ys \<Longrightarrow>
      G (fold (input_step rng) ys ((newStreamWriter msgID model)\<lparr>sw_statusCode := status\<rparr>))"
    and bad: "\<And>ys. Done_mark \<notin> set ys \<Longrightarrow> \<not> P ys \<Longrightarrow>
      rejected step (fold (input_step rng) ys ((newStreamWriter msgID model)\<lparr>sw_statusCode := status\<rparr>))"
    and ends: "\<And>v. G v \<Longrightarrow> \<not> sw_stopped v \<and> sw_stopped (finalize rng v) \<and>
      run_with step (sw_events (finalize rng v)) Idle = Some Ended"
    and "\<And>ys. P (ys @ [Done_mark]) = P ys"
  shows "run_with step (sw_events w) Idle = Some Ended \<longleftrightarrow> P xs"
proof -
  let ?new = "(newStreamWriter msgID model)\<lparr>sw_statusCode := status\<rparr>"
  define v where "v = fold (input_step rng) xs ?new"
  have w: "w = (if sw_started v \<and> \<not> sw_stopped v then finalize rng v else v)"
    using stream_after_inputs [OF assms(1)] assms(2,4) by (simp add: v_def Let_def)
  have rej: "rejected step v \<Longrightarrow> run_with step (sw_events w) Idle = None"
    using rejected_finalize [of step v rng] by (auto simp: w rejected_def)
  show ?thesis
  proof (cases "xs \<noteq> [] \<and> last xs = Done_mark")
    case True
    then obtain ys where ys: "xs = ys @ [Done_mark]" by (metis append_butlast_last_id)
    let ?u = "fold (input_step rng) ys ?new"
    have v: "v = finalize rng ?u" by (simp add: v_def ys)
    have no: "Done_mark \<notin> set ys" using assms(3) by (simp add: ys)
    show ?thesis
    proof (cases "P ys")
      case True
      with ends [OF good [OF no True]] assms(9) show ?thesis by (simp add: w v ys)
    next
      case False
      with rejected_finalize [OF bad [OF no False], of rng] rej assms(9) show ?thesis by (simp add: v ys)
    qed
  next
    case False
    then have no: "Done_mark \<notin> set xs"
      using assms(3) by (cases xs rule: rev_cases) auto
    show ?thesis
    proof (cases "P xs")
      case True
      then have "G v" using good [OF no] by (simp add: v_def)
      with ends [OF this] assms(5) True show ?thesis by (auto simp: w split: if_splits)
    next
      case False
      with bad [OF no] rej show ?thesis by (simp add: v_def)
    qed
  qed
qed

lemma blocks_in_order_done: "blocks_in_order c (xs @ [Done_mark]) = blocks_in_order c xs"
  by (induction c xs rule: blocks_in_order.induct) (auto split: option.split)

lemma ordered_new: "ordered None ((newStreamWriter msgID model)\<lparr>sw_statusCode := status\<rparr>)"
  using follows_new [where msgID = msgID and model = model and status = status] by (auto simp: ordered_def alive_def newStreamWriter_def)

lemma stream_after_protocols:
  assumes "status < 400" "\<forall>ts. mset (rng ts) = mset ts"
    and "xs = inputs_of parse (all_lines (concat pieces))" "Done_mark \<notin> set (butlast xs)"
    and "w = stream_after parse rng msgID model status pieces" "sw_started w"
  shows "proto_run (sw_events w) Idle = Some Ended \<longleftrightarrow> text_in_order (False, False, {}) xs"
    and "strict_run (sw_events w) Idle = Some Ended \<longleftrightarrow> blocks_in_order None xs"
proof -
  show "proto_run (sw_events w) Idle = Some Ended \<longleftrightarrow> text_in_order (False, False, {}) xs"
  proof (rule stream_after_verdict [OF assms(1,3-6), where G = "\<lambda>v. \<exists>s. follows s v"])
    fix ys assume no: "Done_mark \<notin> set ys"
    note io = inputs_in_order [OF follows_new [where msgID = msgID and model = model and status = status] no, of rng]
    let ?u = "fold (input_step rng) ys ((newStreamWriter msgID model)\<lparr>sw_statusCode := status\<rparr>)"
    show "\<exists>s. follows s ?u" if "text_in_order (False, False, {}) ys" using io that by (simp del: split_paired_Ex)
    show "rejected proto_step ?u" if "\<not> text_in_order (False, False, {}) ys" using io that by (simp del: split_paired_Ex)
  next
    fix v assume "\<exists>s. follows s v"
    then obtain s where v: "follows s v" by blast
    with finalize_ends [OF v assms(2)] show "\<not> sw_stopped v \<and> sw_stopped (finalize rng v) \<and>
        proto_run (sw_events (finalize rng v)) Idle = Some Ended"
      by (cases s) (simp add: follows_def)
  qed (rule text_in_order_done)
  show "strict_run (sw_events w) Idle = Some Ended \<longleftrightarrow> blocks_in_order None xs"
  proof (rule stream_after_verdict [OF assms(1,3-6), where G = "\<lambda>v. \<exists>c. ordered c v"])
    fix ys assume no: "Done_mark \<notin> set ys"
    note io = inputs_in_strict_order [OF ordered_new [where msgID = msgID and model = model and status = status] no, of rng]
    let ?u = "fold (input_step rng) ys ((newStreamWriter msgID model)\<lparr>sw_statusCode := status\<rparr>)"
    show "\<exists>c. ordered c ?u" if "blocks_in_order None ys" using io that by simp
    show "rejected strict_step ?u" if "\<not> blocks_in_order None ys" using io that by simp
  next
    fix v assume "\<exists>c. ordered c v"
    then obtain c opened where v: "ordered c v" "follows (opened, opened \<and> c \<noteq> None, set_option c) v"
      by (auto simp: ordered_def)
    with finalize_ends [OF v(2) assms(2)] ordered_finalize [OF v(1) assms(2)]
    show "\<not> sw_stopped v \<and> sw_stopped (finalize rng v) \<and>
        strict_run (sw_events (finalize rng v)) Idle = Some Ended"
      by (simp add: follows_def)
  qed (rule blocks_in_order_done)
qed

text \<open>
  C23: What a streaming client of the Messages API gets, for any answer of the proxy, in any
  pieces, in which nothing comes after the end mark. Either an error with a status of at least
  400 and a message that is not empty, or events. These obey the protocol with strictly ordered
  blocks, from the one start to the one stop with every block stopped before the next starts,
  exactly when at most one call of the answer gets a name and no text comes after it: the blocks
  of parallel calls overlap, since none is stopped before the end. They obey the protocol in
  which blocks may overlap exactly when no text comes after a call that closed the text block; a
  text that does is sent to the closed block.
\<close>

theorem event_stream_protocol:
  assumes "\<forall>ts. mset (rng ts) = mset ts"
    and "Done_mark \<notin> set (butlast (inputs_of parse (all_lines (concat pieces))))"
  shows "case HandleMessages_stream parse unmarshal rng msgID model status pieces response_body of
           Events es \<Rightarrow>
             (strict_run es Idle = Some Ended \<longleftrightarrow>
               blocks_in_order None (inputs_of parse (all_lines (concat pieces)))) \<and>
             (proto_run es Idle = Some Ended \<longleftrightarrow>
               text_in_order (False, False, {}) (inputs_of parse (all_lines (concat pieces))))
         | Error_reply st msg \<Rightarrow> 400 \<le> st \<and> msg \<noteq> []
         | Message _ _ _ _ \<Rightarrow> False"
proof (cases "status < 400")
  case True
  from stream_after_protocols [OF this assms(1) refl assms(2) refl] show ?thesis
    by (simp add: HandleMessages_stream_def Let_def error_message_nonempty)
next
  case False
  then show ?thesis
    by (simp add: HandleMessages_stream_def Let_def stream_after_error error_message_nonempty newStreamWriter_def)
qed

definition demo_chunk :: "string \<Rightarrow> openai_chunk option" where
  "demo_chunk d =
     (if d = ''T'' then Some \<lparr>oc_usage = None, oc_choice = Some \<lparr>ch_content = [], ch_tool_calls =
          [\<lparr>td_index = 0, td_id = ''c1'', td_name = ''get'', td_arguments = ''{}''\<rparr>], ch_message = None, ch_finish = None\<rparr>\<rparr>
      else if d = ''U'' then Some \<lparr>oc_usage = None, oc_choice = Some \<lparr>ch_content = [], ch_tool_calls =
          [\<lparr>td_index = 1, td_id = ''c2'', td_name = ''put'', td_arguments = ''{}''\<rparr>], ch_message = None, ch_finish = None\<rparr>\<rparr>
      else Some \<lparr>oc_usage = None, oc_choice = Some \<lparr>ch_content = d, ch_tool_calls = [], ch_message = None, ch_finish = None\<rparr>\<rparr>)"

theorem event_stream_protocol_witness:
  "(case HandleMessages_stream demo_chunk (\<lambda>_. None) rev ''msg_1'' ''claude'' 200
        [''data: Hi'' @ [CHR 10] @ ''dat'', ''a: T'' @ [CHR 10] @ ''data: [DONE]''] None of
      Events es \<Rightarrow> strict_run es Idle = Some Ended | _ \<Rightarrow> False) \<and>
   (case HandleMessages_stream demo_chunk (\<lambda>_. None) rev ''msg_1'' ''claude'' 200
        [''data: T'' @ [CHR 10] @ ''data: U'' @ [CHR 10]] None of
      Events es \<Rightarrow> strict_run es Idle \<noteq> Some Ended \<and> proto_run es Idle = Some Ended | _ \<Rightarrow> False) \<and>
   (case HandleMessages_stream demo_chunk (\<lambda>_. None) rev ''msg_1'' ''claude'' 200
        [''data: Hi'' @ [CHR 10] @ ''data: T'' @ [CHR 10] @ ''data: there''] None of
      Events es \<Rightarrow> proto_run es Idle \<noteq> Some Ended | _ \<Rightarrow> False)"
proof -
  let ?good = "[''data: Hi'' @ [CHR 10] @ ''dat'', ''a: T'' @ [CHR 10] @ ''data: [DONE]'']"
  let ?two = "[''data: T'' @ [CHR 10] @ ''data: U'' @ [CHR 10]]"
  let ?bad = "[''data: Hi'' @ [CHR 10] @ ''data: T'' @ [CHR 10] @ ''data: there'']"
  let ?reply = "\<lambda>p. HandleMessages_stream demo_chunk (\<lambda>_. None) rev ''msg_1'' ''claude'' 200 p None"
  let ?in = "\<lambda>p. inputs_of demo_chunk (all_lines (concat p))"
  have rng: "\<forall>ts. mset (rev ts) = mset ts" by simp
  have last: "Done_mark \<notin> set (butlast (?in ?good))" "Done_mark \<notin> set (butlast (?in ?two))"
    "Done_mark \<notin> set (butlast (?in ?bad))" by code_simp+
  have "blocks_in_order None (?in ?good)" "\<not> blocks_in_order None (?in ?two)"
    "text_in_order (False, False, {}) (?in ?two)" "\<not> text_in_order (False, False, {}) (?in ?bad)"
    "case ?reply ?good of Events es \<Rightarrow> True | _ \<Rightarrow> False" "case ?reply ?two of Events es \<Rightarrow> True | _ \<Rightarrow> False"
    "case ?reply ?bad of Events es \<Rightarrow> True | _ \<Rightarrow> False"
    by code_simp+
  then show ?thesis
    using event_stream_protocol [OF rng last(1), where unmarshal = "\<lambda>_. None" and msgID = "''msg_1''"
        and model = "''claude''" and status = 200 and response_body = None]
      event_stream_protocol [OF rng last(2), where unmarshal = "\<lambda>_. None" and msgID = "''msg_1''"
        and model = "''claude''" and status = 200 and response_body = None]
      event_stream_protocol [OF rng last(3), where unmarshal = "\<lambda>_. None" and msgID = "''msg_1''"
        and model = "''claude''" and status = 200 and response_body = None]
    by (auto split: anthropic_reply.splits)
qed

section \<open>Streaming and collecting\<close>

text \<open>What a client reads off the events: the text, the blocks of the calls, the arguments of one.\<close>

fun text_out :: "anthropic_event list \<Rightarrow> string" where
  "text_out [] = []"
| "text_out (Text_delta _ t # es) = t @ text_out es"
| "text_out (_ # es) = text_out es"

fun tool_starts :: "anthropic_event list \<Rightarrow> (int \<times> string \<times> string) list" where
  "tool_starts [] = []"
| "tool_starts (Tool_block_start i k n # es) = (i, k, n) # tool_starts es"
| "tool_starts (_ # es) = tool_starts es"

fun arguments_out :: "int \<Rightarrow> anthropic_event list \<Rightarrow> string" where
  "arguments_out i [] = []"
| "arguments_out i (Json_delta j a # es) = (if i = j then a else []) @ arguments_out i es"
| "arguments_out i (_ # es) = arguments_out i es"

definition calls_out :: "anthropic_event list \<Rightarrow> openAIToolCallOut list" where
  "calls_out es = map (\<lambda>(i, k, n). (k, n, arguments_out i es)) (tool_starts es)"

lemma text_out_append [simp]: "text_out (es @ fs) = text_out es @ text_out fs"
  by (induction es rule: text_out.induct) simp_all

lemma tool_starts_append [simp]: "tool_starts (es @ fs) = tool_starts es @ tool_starts fs"
  by (induction es rule: tool_starts.induct) simp_all

lemma arguments_out_append [simp]: "arguments_out i (es @ fs) = arguments_out i es @ arguments_out i fs"
  by (induction i es rule: arguments_out.induct) simp_all




text \<open>The writer and the collector after the same chunks.\<close>

definition call_of :: "anthropic_event list \<Rightarrow> streamToolBlock \<Rightarrow> openAIToolCallOut" where
  "call_of es t = (tb_id t, tb_name t, arguments_out (tb_anthropicIdx t) es)"

lemma call_of_quiet [simp]:
  "call_of (es @ [Message_start m n]) = call_of es" "call_of (es @ [Text_delta i t]) = call_of es"
  "call_of (es @ [Text_block_start i, Text_delta i t]) = call_of es" "call_of (es @ [Block_stop i]) = call_of es"
  "call_of (es @ [Message_start m n, Text_delta i t]) = call_of es"
  "call_of (es @ [Message_start m n, Text_block_start i, Text_delta i t]) = call_of es"
  "call_of (es @ [Tool_block_start i m n]) = call_of es" "call_of (es @ [Text_block_start i]) = call_of es"
  "call_of (es @ [Message_start m n, Text_block_start i]) = call_of es"
  by (simp_all add: fun_eq_iff call_of_def)

definition agrees :: "streamWriter \<Rightarrow> collected \<Rightarrow> bool" where
  "agrees w s \<longleftrightarrow>
     distinct (map fst (sw_toolBlocks w)) \<and> distinct (map (tb_anthropicIdx \<circ> snd) (sw_toolBlocks w)) \<and>
     (\<forall>t \<in> snd ` set (sw_toolBlocks w). tb_started t \<and> tb_anthropicIdx t < sw_nextBlockIdx w) \<and>
     (\<forall>i. sw_nextBlockIdx w \<le> i \<longrightarrow> arguments_out i (sw_events w) = []) \<and>
     tool_starts (sw_events w) = map (\<lambda>(k, t). (tb_anthropicIdx t, tb_id t, tb_name t)) (sw_toolBlocks w) \<and>
     text_out (sw_events w) = co_text s \<and> co_order s = map fst (sw_toolBlocks w) \<and>
     co_map s = map_option (call_of (sw_events w)) \<circ> tool_at w"



lemma agrees_fields [simp]:
  "agrees (usage_step u w) s = agrees w s" "agrees (finish_step f w) s = agrees w s"
  "agrees w (s\<lparr>co_finish := g\<rparr>) = agrees w s"
  by (simp_all add: agrees_def usage_step_def finish_step_def split: option.split prod.split)









text \<open>The end of a stream adds neither text nor calls.\<close>

definition read_off :: "anthropic_event list \<Rightarrow> string \<times> openAIToolCallOut list" where
  "read_off es = (text_out es, calls_out es)"

lemma read_off_quiet [simp]:
  "read_off (es @ [Block_stop i]) = read_off es" "read_off (es @ [Message_start m n]) = read_off es"
  "read_off (es @ [Text_block_start i]) = read_off es" "read_off (es @ [Message_delta m i]) = read_off es"
  "read_off (es @ [Message_delta m i, Message_stop]) = read_off es"
  "read_off (es @ [Message_start m n, Text_block_start i]) = read_off es"
  by (simp_all add: read_off_def calls_out_def)















section \<open>The answer that does not stream\<close>

definition reply_text :: "content_block list \<Rightarrow> string" where
  "reply_text bs = concat (map (\<lambda>b. case b of Text_block s \<Rightarrow> s | Tool_use_block _ _ _ \<Rightarrow> []) bs)"

lemma reply_text_tools [simp]: "reply_text (map (tool_use_block valid) tcs) = []"
  by (induction tcs) (auto simp: reply_text_def tool_use_block_def Let_def)

lemma reply_text_Cons [simp]: "reply_text (Text_block s # bs) = s @ reply_text bs"
  by (simp add: reply_text_def)

lemma log_mark_is_no_ellipsis: "\<not> has_suffix (u @ ''...'') ellipsis"
  by (simp add: has_suffix_def ellipsis_def has_prefix_def)

text \<open>
  The text of an answer that does not stream is what the proxy keeps for its log. All three
  upstreams leave \<open>truncateLog\<close> of the text, at 1000 bytes, in the context; the handler reads the
  body instead only when it finds the other mark of a cut text there. So the client gets the text
  of a longer answer cut after 1000 bytes, with three dots, though the body had all of it, while
  the calls, the stop reason and the counts are complete.
\<close>

theorem collected_reply_is_cut:
  assumes "status < 400" "has_prefix (trim_space body) ''{''" "completion (trim_space body) = Some (t, f, tcs)"
  shows "\<exists>bs. HandleMessages_collect parse completion unmarshal status body
                (Some (V_string (truncateLog t 1000))) (Some (V_int64 i)) (Some (V_int64 j)) =
              Message bs (mapStopReason (if tcs \<noteq> [] \<and> f = [] then ''tool_calls'' else f)) i j \<and>
            reply_text bs = (if length t \<le> 1000 then t else take 1000 t @ ''...'')"
proof -
  have "body \<noteq> []"
  proof
    assume "body = []"
    then have "trim_space body = []" using length_trim_space [of body] by simp
    with assms(2) show False by (simp add: has_prefix_iff)
  qed
  with assms(2,3) have "extractFromCapturedBody parse completion body = (t, f, tcs)"
    by (simp add: extractFromCapturedBody_def Let_def)
  moreover have "truncateLog t 1000 = [] \<longleftrightarrow> t = []" by (auto simp: truncateLog_def)
  moreover have "has_suffix (truncateLog t 1000) ellipsis \<Longrightarrow> truncateLog t 1000 = t"
    using log_mark_is_no_ellipsis [of "take 1000 t"] by (auto simp: truncateLog_def split: if_splits)
  ultimately show ?thesis
    using assms(1) unfolding truncateLog_def [symmetric]
    by (auto simp: HandleMessages_collect_def Let_def reply_text_def [of "[]"])
qed

definition long_answer :: "string \<Rightarrow> (string \<times> string \<times> openAIToolCallOut list) option" where
  "long_answer b = Some (replicate 1001 (CHR ''a''), ''stop'', [])"

theorem collected_reply_is_cut_witness:
  "\<exists>bs. HandleMessages_collect demo_chunk long_answer (\<lambda>_. None) 200 ''{}''
          (Some (V_string (truncateLog (replicate 1001 (CHR ''a'')) 1000))) (Some (V_int64 3)) (Some (V_int64 4)) =
        Message bs ''end_turn'' 3 4 \<and> reply_text bs = replicate 1000 (CHR ''a'') @ ''...''"
proof -
  have "has_prefix (trim_space ''{}'') ''{''" by code_simp
  moreover have "mapStopReason ''stop'' = ''end_turn''" by (simp add: mapStopReason_def)
  ultimately show ?thesis
    using collected_reply_is_cut [where completion = long_answer and body = "''{}''" and status = 200
        and t = "replicate 1001 (CHR ''a'')" and f = "''stop''" and tcs = "[]"]
    by (simp add: long_answer_def)
qed

end
