(* ===== verification/Regex.thy ===== *)
theory Regex
  imports Lines
begin

text \<open>
  What the gateway uses of package \<open>regexp\<close>: the expressions as a datatype and their matches in
  the order of preference of a backtracking search, which is the order Go promises
  (leftmost, then as a Perl matcher would choose). Texts are byte strings; the expressions of the
  gateway name no classes that tell the bytes of a longer rune from the rune.
\<close>

datatype regex =
    Eps
  | Class "char \<Rightarrow> bool"
  | Seq regex regex
  | Alt regex regex
  | Star regex
  | Text_start
  | Line_start
  | Line_end
  | Word_edge

definition word_char :: "char \<Rightarrow> bool" where
  "word_char c \<longleftrightarrow> char_range (CHR ''0'') (CHR ''9'') c \<or> is_letter c \<or> c = CHR ''_''"

text \<open>
  All ways to match from a place in the text, best first. A place is the text before it, reversed,
  and the text after it; repetition is greedy and stops at an empty round.
\<close>

type_synonym place = "string \<times> string"

function matches :: "regex \<Rightarrow> place \<Rightarrow> place list" where
  "matches Eps pl = [pl]"
| "matches (Class f) pl = (case snd pl of [] \<Rightarrow> [] | c # s \<Rightarrow> if f c then [(c # fst pl, s)] else [])"
| "matches (Seq a b) pl = concat (map (matches b) (matches a pl))"
| "matches (Alt a b) pl = matches a pl @ matches b pl"
| "matches (Star a) pl =
     concat (map (\<lambda>q. if length (snd q) < length (snd pl) then matches (Star a) q else []) (matches a pl)) @ [pl]"
| "matches Text_start pl = (if fst pl = [] then [pl] else [])"
| "matches Line_start pl = (if fst pl = [] \<or> hd (fst pl) = CHR 10 then [pl] else [])"
| "matches Line_end pl = (if snd pl = [] \<or> hd (snd pl) = CHR 10 then [pl] else [])"
| "matches Word_edge pl =
     (if (fst pl \<noteq> [] \<and> word_char (hd (fst pl))) \<noteq> (snd pl \<noteq> [] \<and> word_char (hd (snd pl))) then [pl] else [])"
  by pat_completeness auto
termination
  by (relation "measures [\<lambda>(r, pl). size r, \<lambda>(r, pl). length (snd pl)]") auto

declare matches.simps(5) [simp del]

text \<open>\<open>FindStringIndex\<close>: the places where the leftmost match starts and ends; \<open>MatchString\<close>.\<close>

fun find_from :: "regex \<Rightarrow> string \<Rightarrow> string \<Rightarrow> (place \<times> place) option" where
  "find_from r p [] = (case matches r (p, []) of [] \<Rightarrow> None | q # _ \<Rightarrow> Some ((p, []), q))"
| "find_from r p (c # s) =
     (case matches r (p, c # s) of
        [] \<Rightarrow> find_from r (c # p) s
      | q # _ \<Rightarrow> Some ((p, c # s), q))"

definition FindString :: "regex \<Rightarrow> string \<Rightarrow> (place \<times> place) option" where
  "FindString r s = find_from r [] s"

definition MatchString :: "regex \<Rightarrow> string \<Rightarrow> bool" where
  "MatchString r s \<longleftrightarrow> FindString r s \<noteq> None"

text \<open>
  \<open>ReplaceAllString\<close> by a text without \<open>$\<close>, for expressions that match no empty text: matches
  that do not overlap, from the left.
\<close>

function replace_from :: "regex \<Rightarrow> string \<Rightarrow> place \<Rightarrow> string" where
  "replace_from r t pl =
     (case matches r pl of
        q # _ \<Rightarrow>
          if length (snd q) < length (snd pl) then t @ replace_from r t q
          else (case snd pl of [] \<Rightarrow> [] | c # s \<Rightarrow> c # replace_from r t (c # fst pl, s))
      | [] \<Rightarrow> (case snd pl of [] \<Rightarrow> [] | c # s \<Rightarrow> c # replace_from r t (c # fst pl, s)))"
  by pat_completeness auto
termination
  by (relation "measure (\<lambda>(r, t, pl). length (snd pl))") auto

declare replace_from.simps [simp del]

definition ReplaceAllString :: "regex \<Rightarrow> string \<Rightarrow> string \<Rightarrow> string" where
  "ReplaceAllString r s t = replace_from r t ([], s)"

section \<open>Building expressions\<close>

definition one_of :: "string \<Rightarrow> regex" where
  "one_of cs = Class (\<lambda>c. c \<in> set cs)"

definition digit :: regex where "digit = Class (char_range (CHR ''0'') (CHR ''9''))"

text \<open>\<open>\s\<close> and \<open>\S\<close>, which mean ASCII in Go.\<close>

definition re_space :: "char \<Rightarrow> bool" where
  "re_space c \<longleftrightarrow> c \<in> set [CHR 9, CHR 10, CHR 12, CHR 13, CHR 32]"

definition re_seq :: "regex list \<Rightarrow> regex" where
  "re_seq rs = foldr Seq rs Eps"

fun re_alt :: "regex list \<Rightarrow> regex" where
  "re_alt [] = Class (\<lambda>_. False)"
| "re_alt [r] = r"
| "re_alt (r # rs) = Alt r (re_alt rs)"

definition literal :: "string \<Rightarrow> regex" where
  "literal s = re_seq (map (\<lambda>c. Class (\<lambda>d. d = c)) s)"

definition re_opt :: "regex \<Rightarrow> regex" where "re_opt r = Alt r Eps"
definition re_plus :: "regex \<Rightarrow> regex" where "re_plus r = Seq r (Star r)"

text \<open>\<open>r{m}\<close>, \<open>r{m,n}\<close> and \<open>r{m,}\<close>, the greedy ones trying more rounds first.\<close>

definition re_times :: "nat \<Rightarrow> regex \<Rightarrow> regex" where "re_times n r = re_seq (replicate n r)"

fun re_up_to :: "nat \<Rightarrow> regex \<Rightarrow> regex" where
  "re_up_to 0 r = Eps"
| "re_up_to (Suc n) r = Alt (Seq r (re_up_to n r)) Eps"

definition re_between :: "nat \<Rightarrow> nat \<Rightarrow> regex \<Rightarrow> regex" where
  "re_between m n r = Seq (re_times m r) (re_up_to (n - m) r)"

text \<open>
  \<open>(?i)\<close>: the letters of either case. Go folds by Unicode, so the letters k and s are also met by
  the Kelvin sign and the long s.
\<close>

definition fold_char :: "char \<Rightarrow> regex" where
  "fold_char c =
     (let both = Class (\<lambda>d. lower_char d = lower_char c)
      in if lower_char c = CHR ''k'' then Alt both (literal [CHR 0xE2, CHR 0x84, CHR 0xAA])
         else if lower_char c = CHR ''s'' then Alt both (literal [CHR 0xC5, CHR 0xBF])
         else both)"

definition literal_ci :: "string \<Rightarrow> regex" where
  "literal_ci s = re_seq (map fold_char s)"

section \<open>Lemmas\<close>

text \<open>A match takes a piece of the text: the text around is what it was.\<close>

lemma matches_place: "q \<in> set (matches r pl) \<Longrightarrow> \<exists>u. snd pl = u @ snd q \<and> fst q = rev u @ fst pl"
proof (induction r pl arbitrary: q rule: matches.induct)
  case (3 a b pl)
  then obtain q' where "q' \<in> set (matches a pl)" "q \<in> set (matches b q')" by auto
  with 3 obtain u v where "snd pl = u @ snd q'" "fst q' = rev u @ fst pl" "snd q' = v @ snd q" "fst q = rev v @ fst q'"
    by metis
  then show ?case by (intro exI [of _ "u @ v"]) simp
next
  case (5 a pl)
  from "5.prems" consider "q = pl" | q' where "q' \<in> set (matches a pl)" "length (snd q') < length (snd pl)"
      "q \<in> set (matches (Star a) q')"
    by (subst (asm) matches.simps(5)) (auto split: if_splits)
  then show ?case
  proof cases
    case 2
    with 5 obtain u v where "snd pl = u @ snd q'" "fst q' = rev u @ fst pl" "snd q' = v @ snd q" "fst q = rev v @ fst q'"
      by metis
    then show ?thesis by (intro exI [of _ "u @ v"]) simp
  qed simp
qed (auto split: list.splits if_splits)

lemma matches_literal: "matches (literal t) (p, s) = (if has_prefix s t then [(rev t @ p, drop (length t) s)] else [])"
proof (induction t arbitrary: p s)
  case Nil
  then show ?case by (simp add: literal_def re_seq_def)
next
  case (Cons c t)
  have "literal (c # t) = Seq (Class (\<lambda>d. d = c)) (literal t)" by (simp add: literal_def re_seq_def)
  then show ?case using Cons by (cases s) (auto simp: has_prefix_Cons)
qed

lemma find_from_Some: "find_from r p s = Some (pl, q) \<Longrightarrow> q \<in> set (matches r pl) \<and> (\<exists>u. s = u @ snd pl \<and> fst pl = rev u @ p)"
proof (induction r p s rule: find_from.induct)
  case (2 r p c s)
  show ?case
  proof (cases "matches r (p, c # s)")
    case Nil
    with 2 obtain u where "s = u @ snd pl" "fst pl = rev u @ c # p" "q \<in> set (matches r pl)" by auto
    then show ?thesis by (auto intro: exI [of _ "c # u"])
  qed (use "2.prems" in auto)
qed (auto split: list.splits)

lemma find_from_None: "find_from r p s = None \<longleftrightarrow> (\<forall>u v. s = u @ v \<longrightarrow> matches r (rev u @ p, v) = [])"
proof (induction r p s rule: find_from.induct)
  case (2 r p c s)
  have "(\<forall>u v. c # s = u @ v \<longrightarrow> matches r (rev u @ p, v) = []) \<longleftrightarrow>
      matches r (p, c # s) = [] \<and> (\<forall>u v. s = u @ v \<longrightarrow> matches r (rev u @ c # p, v) = [])"
    (is "?all \<longleftrightarrow> _")
  proof
    assume all: ?all
    have "matches r (rev u @ c # p, v) = []" if "s = u @ v" for u v
      using all [rule_format, of "c # u" v] that by simp
    then show "matches r (p, c # s) = [] \<and> (\<forall>u v. s = u @ v \<longrightarrow> matches r (rev u @ c # p, v) = [])"
      using all [rule_format, of "[]" "c # s"] by simp
  qed (auto simp: Cons_eq_append_conv)
  with 2 show ?case by (auto split: list.splits)
qed (auto split: list.splits)

lemma MatchString_iff: "MatchString r s \<longleftrightarrow> (\<exists>u v. s = u @ v \<and> matches r (rev u, v) \<noteq> [])"
  using find_from_None [of r "[]" s] by (auto simp: MatchString_def FindString_def)

lemma MatchString_literal: "MatchString (literal t) s \<longleftrightarrow> (\<exists>u v. s = u @ t @ v)"
  by (auto simp: MatchString_iff matches_literal has_prefix_iff)

section \<open>The matcher and the language of an expression\<close>

text \<open>
  An expression without the tests for places has a language, and the matcher finds exactly the
  words of it that the text begins with.
\<close>

fun plain :: "regex \<Rightarrow> bool" where
  "plain (Seq a b) \<longleftrightarrow> plain a \<and> plain b"
| "plain (Alt a b) \<longleftrightarrow> plain a \<and> plain b"
| "plain (Star a) \<longleftrightarrow> plain a"
| "plain r \<longleftrightarrow> r \<notin> {Text_start, Line_start, Line_end, Word_edge}"

inductive word_of :: "regex \<Rightarrow> string \<Rightarrow> bool" where
  "word_of Eps []"
| "f c \<Longrightarrow> word_of (Class f) [c]"
| "word_of a u \<Longrightarrow> word_of b v \<Longrightarrow> word_of (Seq a b) (u @ v)"
| "word_of a u \<Longrightarrow> word_of (Alt a b) u"
| "word_of b u \<Longrightarrow> word_of (Alt a b) u"
| "word_of (Star a) []"
| "word_of a u \<Longrightarrow> u \<noteq> [] \<Longrightarrow> word_of (Star a) v \<Longrightarrow> word_of (Star a) (u @ v)"

inductive_simps word_of_simps:
  "word_of Eps w" "word_of (Class f) w" "word_of (Seq a b) w" "word_of (Alt a b) w"
  "word_of Text_start w" "word_of Line_start w" "word_of Line_end w" "word_of Word_edge w"

inductive_cases word_of_StarE: "word_of (Star a) w"

lemma matches_sound: "plain r \<Longrightarrow> q \<in> set (matches r pl) \<Longrightarrow> \<exists>u. word_of r u \<and> snd pl = u @ snd q"
proof (induction r pl arbitrary: q rule: matches.induct)
  case (3 a b pl)
  then obtain q' where "q' \<in> set (matches a pl)" "q \<in> set (matches b q')" by auto
  with 3 obtain u v where "word_of a u" "snd pl = u @ snd q'" "word_of b v" "snd q' = v @ snd q"
    by (metis plain.simps(1))
  then show ?case by (intro exI [of _ "u @ v"]) (simp add: word_of.intros)
next
  case (4 a b pl)
  then consider "q \<in> set (matches a pl)" | "q \<in> set (matches b pl)" by auto
  then show ?case using 4 word_of.intros(4,5) by (metis plain.simps(2))
next
  case (5 a pl)
  from "5.prems"(2) consider "q = pl" | q' where "q' \<in> set (matches a pl)" "length (snd q') < length (snd pl)"
      "q \<in> set (matches (Star a) q')"
    by (subst (asm) matches.simps(5)) (auto split: if_splits)
  then show ?case
  proof cases
    case 1
    then show ?thesis by (intro exI [of _ "[]"]) (simp add: word_of.intros)
  next
    case 2
    then obtain v where v: "word_of (Star a) v" "snd q' = v @ snd q" using 5 by metis
    moreover obtain u where "word_of a u" "snd pl = u @ snd q'" using 5 2(1) by (metis plain.simps(3))
    ultimately show ?thesis using 2(2) by (intro exI [of _ "u @ v"]) (auto intro: word_of.intros)
  qed
qed (auto simp: word_of_simps split: list.splits)

lemma matches_Star_step:
  assumes "q \<in> set (matches a pl)" "length (snd q) < length (snd pl)" "q' \<in> set (matches (Star a) q)"
  shows "q' \<in> set (matches (Star a) pl)"
proof -
  have "q' \<in> set (if length (snd q) < length (snd pl) then matches (Star a) q else [])"
    using assms(2,3) by (simp only: if_True)
  with assms(1) show ?thesis
    unfolding matches.simps(5) [of a pl] set_append set_concat set_map by blast
qed

lemma matches_complete: "word_of r u \<Longrightarrow> (rev u @ p, v) \<in> set (matches r (p, u @ v))"
proof (induction r u arbitrary: p v rule: word_of.induct)
  case (3 a u b v p w)
  have "(rev u @ p, v @ w) \<in> set (matches a (p, u @ v @ w))" "(rev v @ rev u @ p, w) \<in> set (matches b (rev u @ p, v @ w))"
    using 3 by simp_all
  then have "(rev v @ rev u @ p, w) \<in> set (matches (Seq a b) (p, u @ v @ w))" by auto
  then show ?case by simp
next
  case (6 a)
  have "pl \<in> set (matches (Star a) pl)" for pl
    unfolding matches.simps(5) [of a pl] set_append by (rule UnI2) simp
  then show ?case by (simp only: rev.simps append_Nil)
next
  case (7 a u v p w)
  have "(rev u @ p, v @ w) \<in> set (matches a (p, u @ v @ w))"
    "(rev v @ rev u @ p, w) \<in> set (matches (Star a) (rev u @ p, v @ w))"
    using 7 by simp_all
  moreover have "length (v @ w) < length (u @ v @ w)" using \<open>u \<noteq> []\<close> by simp
  ultimately have "(rev v @ rev u @ p, w) \<in> set (matches (Star a) (p, u @ v @ w))"
    using matches_Star_step [of "(rev u @ p, v @ w)" a "(p, u @ v @ w)"] by (simp only: snd_conv)
  then show ?case by simp
qed simp_all

lemma matches_iff: "plain r \<Longrightarrow> matches r (p, s) \<noteq> [] \<longleftrightarrow> (\<exists>u v. s = u @ v \<and> word_of r u)"
proof
  assume "plain r" "matches r (p, s) \<noteq> []"
  then obtain q where "q \<in> set (matches r (p, s))" by (cases "matches r (p, s)") auto
  from matches_sound [OF \<open>plain r\<close> this] show "\<exists>u v. s = u @ v \<and> word_of r u" by auto
next
  assume "\<exists>u v. s = u @ v \<and> word_of r u"
  then obtain u v where "s = u @ v" "word_of r u" by blast
  from matches_complete [OF this(2), of p v] this(1) show "matches r (p, s) \<noteq> []" by auto
qed

lemma MatchString_word: "plain r \<Longrightarrow> MatchString r s \<longleftrightarrow> (\<exists>x u y. s = x @ u @ y \<and> word_of r u)"
  by (auto simp: MatchString_iff matches_iff)

text \<open>The characters an expression is made of.\<close>

fun uses_only :: "(char \<Rightarrow> bool) \<Rightarrow> regex \<Rightarrow> bool" where
  "uses_only P (Class f) \<longleftrightarrow> (\<forall>c. f c \<longrightarrow> P c)"
| "uses_only P (Seq a b) \<longleftrightarrow> uses_only P a \<and> uses_only P b"
| "uses_only P (Alt a b) \<longleftrightarrow> uses_only P a \<and> uses_only P b"
| "uses_only P (Star a) \<longleftrightarrow> uses_only P a"
| "uses_only P _ \<longleftrightarrow> True"

lemma uses_only_word: "word_of r u \<Longrightarrow> uses_only P r \<Longrightarrow> \<forall>c \<in> set u. P c"
  by (induction rule: word_of.induct) auto

section \<open>What a replacement leaves\<close>

text \<open>
  Let the replacement begin and end with characters that a word \<open>w\<close> does not have, and not contain
  \<open>w\<close>. Then \<open>w\<close> occurs in the result only where it did in the text; and if \<open>w\<close> is of the
  expression that was replaced, it does not occur at all.
\<close>

definition avoids :: "string \<Rightarrow> string \<Rightarrow> bool" where
  "avoids t w \<longleftrightarrow> t \<noteq> [] \<and> w \<noteq> [] \<and> hd t \<notin> set w \<and> last t \<notin> set w \<and> (\<forall>x y. t \<noteq> x @ w @ y)"

lemma avoids_skip:
  assumes "avoids t w" "t @ z = x @ w @ y"
  shows "\<exists>x'. z = x' @ w @ y"
proof (cases "length t \<le> length x")
  case True
  then show ?thesis using assms(2) by (auto simp: append_eq_append_conv_if)
next
  case False
  define t' where "t' = drop (length x) t"
  have "take (length x) (t @ z) = x" using assms(2) by simp
  with False have "t = x @ t'" unfolding t'_def by (metis append_take_drop_id linear not_le take_append take_eq_Nil2 append.right_neutral diff_is_0_eq)
  with assms(2) have t: "t = x @ t'" "t' @ z = w @ y" by auto
  have "t' \<noteq> []" using False t(1) by auto
  have False
  proof (cases "length w \<le> length t'")
    case True
    have "take (length w) (t' @ z) = w" using t(2) by simp
    with True have "take (length w) t' = w" by simp
    then have "t' = w @ drop (length w) t'" by (metis append_take_drop_id)
    with t(1) have "t = x @ w @ drop (length w) t'" by simp
    with assms(1) show False by (auto simp: avoids_def)
  next
    case False
    have "take (length t') (w @ y) = t'" using t(2) by (metis append_eq_conv_conj)
    with False have "take (length t') w = t'" by simp
    then have "set t' \<subseteq> set w" by (metis set_take_subset)
    moreover have "last t \<in> set t'" using t \<open>t' \<noteq> []\<close> by simp
    ultimately show False using assms(1) by (auto simp: avoids_def)
  qed
  then show ?thesis ..
qed

lemma replace_from_cases:
  obtains (hit) q where "q \<in> set (matches r pl)" "length (snd q) < length (snd pl)"
      "replace_from r t pl = t @ replace_from r t q"
  | (copy) c s where "snd pl = c # s" "replace_from r t pl = c # replace_from r t (c # fst pl, s)"
      "matches r pl = [] \<or> length (snd (hd (matches r pl))) \<ge> length (snd pl)"
  | (stop) "snd pl = []" "replace_from r t pl = []"
proof (cases "matches r pl")
  case Nil
  then show ?thesis using copy stop by (cases "snd pl") (simp_all add: replace_from.simps [of r t pl])
next
  case (Cons q qs)
  show ?thesis
  proof (cases "length (snd q) < length (snd pl)")
    case True
    with Cons show ?thesis by (intro hit [of q]) (simp_all add: replace_from.simps [of r t pl])
  next
    case False
    with Cons show ?thesis using copy stop by (cases "snd pl") (simp_all add: replace_from.simps [of r t pl])
  qed
qed

lemma copied_prefix:
  "replace_from r t pl = w @ y \<Longrightarrow> t \<noteq> [] \<Longrightarrow> hd t \<notin> set w \<Longrightarrow> \<exists>z. snd pl = w @ z"
proof (induction pl arbitrary: w rule: measure_induct_rule [of "\<lambda>pl. length (snd pl)"])
  case (less pl)
  show ?case
  proof (cases w)
    case (Cons d w')
    show ?thesis
    proof (cases rule: replace_from_cases [of r pl t])
      case hit
      with less.prems Cons show ?thesis by (cases t) auto
    next
      case (copy c s)
      with less.prems Cons have "replace_from r t (c # fst pl, s) = w' @ y" "hd t \<notin> set w'" "d = c" by auto
      with less.IH [of "(c # fst pl, s)" w'] less.prems(2) copy(1) Cons show ?thesis by auto
    next
      case stop
      with less.prems Cons show ?thesis by simp
    qed
  qed simp
qed

text \<open>A word that avoids the replacement occurs in the result only if it did in the text.\<close>

lemma replace_no_new:
  "replace_from r t pl = x @ w @ y \<Longrightarrow> avoids t w \<Longrightarrow> \<exists>x' y'. snd pl = x' @ w @ y'"
proof (induction pl arbitrary: x rule: measure_induct_rule [of "\<lambda>pl. length (snd pl)"])
  case (less pl)
  show ?case
  proof (cases rule: replace_from_cases [of r pl t])
    case (hit q)
    from less.prems(1) hit(3) have "t @ replace_from r t q = x @ w @ y" by simp
    from avoids_skip [OF less.prems(2) this] obtain x' where "replace_from r t q = x' @ w @ y" by blast
    from less.IH [OF hit(2) this less.prems(2)] obtain x'' y' where "snd q = x'' @ w @ y'" by blast
    moreover obtain u where "snd pl = u @ snd q" using matches_place [OF hit(1)] by blast
    ultimately show ?thesis by (metis append.assoc)
  next
    case (copy c s)
    show ?thesis
    proof (cases x)
      case Nil
      then have "replace_from r t pl = w @ y" using less.prems(1) by simp
      from copied_prefix [OF this] less.prems(2) obtain z where "snd pl = w @ z" by (auto simp: avoids_def)
      then show ?thesis by (intro exI [of _ "[]"] exI [of _ z]) simp
    next
      case (Cons d x')
      with less.prems(1) copy(2) have "c = d \<and> replace_from r t (c # fst pl, s) = x' @ w @ y" by auto
      then have "replace_from r t (c # fst pl, s) = x' @ w @ y" ..
      from less.IH [OF _ this less.prems(2)] copy(1) obtain x'' y' where "s = x'' @ w @ y'" by auto
      with copy(1) show ?thesis by (metis append_Cons)
    qed
  next
    case stop
    with less.prems show ?thesis by (auto simp: avoids_def)
  qed
qed

text \<open>And not at all if it is a word of the expression that was replaced.\<close>

lemma replace_none_left:
  assumes "plain r" "\<not> word_of r []" "word_of r w" "avoids t w"
  shows "replace_from r t pl \<noteq> x @ w @ y"
proof (induction pl arbitrary: x rule: measure_induct_rule [of "\<lambda>pl. length (snd pl)"])
  case (less pl)
  show ?case
  proof
    assume eq: "replace_from r t pl = x @ w @ y"
    show False
    proof (cases rule: replace_from_cases [of r pl t])
      case (hit q)
      from eq hit(3) have "t @ replace_from r t q = x @ w @ y" by simp
      from avoids_skip [OF assms(4) this] obtain x' where "replace_from r t q = x' @ w @ y" by blast
      with less.IH [OF hit(2)] show False by blast
    next
      case (copy c s)
      show False
      proof (cases x)
        case Nil
        then have "replace_from r t pl = w @ y" using eq by simp
        from copied_prefix [OF this] assms(4) obtain z where z: "snd pl = w @ z" by (auto simp: avoids_def)
        then have "matches r pl \<noteq> []" using matches_iff [OF assms(1), of "fst pl" "snd pl"] assms(3)
          by (metis prod.collapse)
        moreover have "length (snd q) < length (snd pl)" if "q \<in> set (matches r pl)" for q
        proof -
          from matches_sound [OF assms(1) that] obtain u where "word_of r u" "snd pl = u @ snd q" by blast
          moreover from this assms(2) have "u \<noteq> []" by auto
          ultimately show ?thesis by simp
        qed
        ultimately show False using copy(3) by (metis list.set_sel(1) not_le)
      next
        case (Cons d x')
        with eq copy(2) have "c = d \<and> replace_from r t (c # fst pl, s) = x' @ w @ y" by auto
        then have "replace_from r t (c # fst pl, s) = x' @ w @ y" ..
        with less.IH [of "(c # fst pl, s)" x'] copy(1) show False by simp
      qed
    next
      case stop
      with eq assms(4) show False by (auto simp: avoids_def)
    qed
  qed
qed

end
