(* ===== verification/RtkFilters.thy ===== *)
theory RtkFilters
  imports Complex_Main "HOL-Library.Multiset" "HOL-Library.Sublist" "HOL-Library.AList" Regex
begin

text \<open>
  The filters of the tool-output compressor, \<open>internal/rtk/detect.go\<close>: how the kind of a text is
  detected from its first kilobyte, and what each filter makes of it. A filter works on lines.
\<close>

section \<open>Constants and expressions\<close>

definition rawCap :: nat where "rawCap = 10 * 1024 * 1024"
definition minCompressSize :: nat where "minCompressSize = 500"
definition detectWindow :: nat where "detectWindow = 1024"
definition gitDiffHunkMax :: nat where "gitDiffHunkMax = 100"
definition gitDiffContext :: nat where "gitDiffContext = 3"
definition gitLogMaxLines :: nat where "gitLogMaxLines = 200"
definition dedupLineMax :: nat where "dedupLineMax = 2000"
definition grepPerFileMax :: nat where "grepPerFileMax = 10"
definition findPerDirMax :: nat where "findPerDirMax = 10"
definition findTotalDirMax :: nat where "findTotalDirMax = 20"
definition statusMaxFiles :: nat where "statusMaxFiles = 10"
definition statusMaxUntracked :: nat where "statusMaxUntracked = 10"
definition lsExtSummaryTop :: nat where "lsExtSummaryTop = 5"
definition treeMaxLines :: nat where "treeMaxLines = 200"
definition searchListPerDir :: nat where "searchListPerDir = 10"
definition searchListTotalDir :: nat where "searchListTotalDir = 20"
definition smartHead :: nat where "smartHead = 120"
definition smartTail :: nat where "smartTail = 60"
definition smartMinLines :: nat where "smartMinLines = 250"

definition spaces :: regex where "spaces = Star (Class re_space)"
definition spaces1 :: regex where "spaces1 = re_plus (Class re_space)"
definition nonspaces1 :: regex where "nonspaces1 = re_plus (Class (\<lambda>c. \<not> re_space c))"

definition reGitLog :: regex where
  "reGitLog = re_seq [Line_start, Star (one_of [CHR ''*'', CHR ''|'', CHR ''/'', CHR 92, CHR '' '']),
     literal ''commit '', re_between 7 40 (Class (\<lambda>c. char_range (CHR ''0'') (CHR ''9'') c \<or> char_range (CHR ''a'') (CHR ''f'') c)),
     Line_end]"

definition reGitDiff :: regex where "reGitDiff = Seq Line_start (literal ''diff --git '')"
definition reGitDiffHunk :: regex where "reGitDiffHunk = Seq Line_start (literal ''@@ '')"

definition reGitStatus :: regex where
  "reGitStatus = Seq Line_start (re_alt [literal ''On branch '', literal ''nothing to commit'',
     Seq (literal ''Changes '') (Alt (literal ''not '') (literal ''to be '')), literal ''Untracked files:''])"

definition rePorcelain :: regex where
  "rePorcelain = re_seq [Text_start, one_of '' MADRCU?!'', one_of '' MADRCU?!'', literal '' '', Class (\<lambda>c. \<not> re_space c)]"

definition reBuildOut :: regex where
  "reBuildOut = Seq Line_start (re_alt
     [Seq (literal_ci ''npm '') (re_alt [literal_ci ''warn'', literal_ci ''error'', literal_ci ''ERR!'']),
      Seq (literal_ci ''yarn '') (Alt (literal_ci ''warn'') (literal_ci ''error'')),
      re_seq [spaces, literal_ci ''Compiling'', spaces1, nonspaces1],
      re_seq [spaces, literal_ci ''Downloading'', spaces1, nonspaces1],
      re_seq [literal_ci ''added '', re_plus digit, literal_ci '' package''],
      literal_ci ''[ERROR]'',
      Seq (literal_ci ''BUILD '') (Alt (literal_ci ''SUCCESS'') (literal_ci ''FAILED'')),
      re_seq [spaces, literal_ci ''Finished'', spaces1],
      Seq (literal_ci ''Successfully '') (Alt (literal_ci ''installed'') (literal_ci ''built'')),
      literal_ci ''ERROR:''])"

text \<open>The box-drawing characters in UTF-8.\<close>

definition reTreeGlyph :: regex where
  "reTreeGlyph = Alt
     (Seq (Alt (literal [CHR 0xE2, CHR 0x94, CHR 0x9C]) (literal [CHR 0xE2, CHR 0x94, CHR 0x94]))
          (re_times 2 (literal [CHR 0xE2, CHR 0x94, CHR 0x80])))
     (literal [CHR 0xE2, CHR 0x94, CHR 0x82, CHR '' '', CHR '' ''])"

definition reLsRow :: regex where
  "reLsRow = re_seq [Line_start, one_of ''-dlbcps'', re_times 9 (one_of ''rwx-'')]"

definition reLsTotal :: regex where
  "reLsTotal = re_seq [Line_start, literal ''total '', re_plus digit, Line_end]"

definition reSearchHdr :: regex where
  "reSearchHdr = Seq Line_start (re_alt [literal ''Result of search'',
     re_seq [literal ''Found '', re_plus digit, literal '' files''],
     literal ''Search results'', literal ''Files found'',
     re_seq [re_plus digit, literal '' '', Alt (literal ''files'') (literal ''results'')]])"

definition reReadNumbered :: regex where
  "reReadNumbered = re_seq [Text_start, spaces, re_plus digit, literal ''|'']"

definition month :: regex where
  "month = re_alt (map literal [''Jan'', ''Feb'', ''Mar'', ''Apr'', ''May'', ''Jun'', ''Jul'', ''Aug'', ''Sep'', ''Oct'', ''Nov'', ''Dec''])"

definition reLsDate :: regex where
  "reLsDate = re_seq [spaces1, month, spaces1, re_between 1 2 digit, spaces1,
     Alt (re_times 4 digit) (re_seq [re_times 2 digit, literal '':'', re_times 2 digit]), spaces1]"

definition reDrive :: regex where
  "reDrive = re_seq [Text_start, Class is_letter, literal '':'', one_of [CHR 92, CHR ''/'']]"

definition lsNoiseDirs :: "string list" where
  "lsNoiseDirs =
     [''node_modules'', ''.git'', ''target'', ''__pycache__'', ''.next'', ''dist'', ''build'', ''.cache'', ''.turbo'',
      ''.vercel'', ''.pytest_cache'', ''.mypy_cache'', ''.tox'', ''.venv'', ''venv'', ''env'', ''coverage'', ''.nyc_output'',
      ''.DS_Store'', ''Thumbs.db'', ''.idea'', ''.vscode'', ''.vs'', ''*.egg-info'', ''.eggs'']"

section \<open>Line tests\<close>

text \<open>\<open>strings.Index\<close> of a character, as the parts before and after it; \<open>LastIndex\<close> likewise.\<close>

definition cut_at :: "char \<Rightarrow> string \<Rightarrow> (string \<times> string) option" where
  "cut_at c s = (case dropWhile (\<lambda>d. d \<noteq> c) s of [] \<Rightarrow> None | _ # t \<Rightarrow> Some (takeWhile (\<lambda>d. d \<noteq> c) s, t))"

definition cut_last :: "char \<Rightarrow> string \<Rightarrow> (string \<times> string) option" where
  "cut_last c s = (case cut_at c (rev s) of None \<Rightarrow> None | Some (t, u) \<Rightarrow> Some (rev u, rev t))"

definition isAllDigits :: "string \<Rightarrow> bool" where
  "isAllDigits s \<longleftrightarrow> s \<noteq> [] \<and> list_all (char_range (CHR ''0'') (CHR ''9'')) s"

definition isGrepLine :: "string \<Rightarrow> bool" where
  "isGrepLine line =
     (case cut_at (CHR '':'') line of
        None \<Rightarrow> False
      | Some (_, rest) \<Rightarrow>
        (case cut_at (CHR '':'') rest of None \<Rightarrow> False | Some (lineno, _) \<Rightarrow> isAllDigits lineno))"

definition isPathLike :: "string \<Rightarrow> bool" where
  "isPathLike line =
     (let t = trim_space line
      in if t = [] then False
         else if MatchString reDrive t then True
         else if str_contains t '':'' then False
         else has_prefix t ''.'' \<or> has_prefix t ''/'' \<or> str_contains t ''/'')"

definition isMostlyPorcelain :: "string \<Rightarrow> bool" where
  "isMostlyPorcelain head =
     (let nonEmpty = filter (\<lambda>l. trim_space l \<noteq> []) (split_nl head);
          hits = length (filter (MatchString rePorcelain) nonEmpty)
      in length nonEmpty \<ge> 3 \<and> 10 * hits \<ge> 6 * length nonEmpty)"

definition isLineNumbered :: "string list \<Rightarrow> bool" where
  "isLineNumbered lines =
     (let nonEmpty = filter (\<lambda>l. l \<noteq> []) (take 100 lines);
          hits = length (filter (MatchString reReadNumbered) nonEmpty)
      in length nonEmpty \<ge> 5 \<and> 10 * hits \<ge> 7 * length nonEmpty)"

section \<open>The choice of a filter\<close>

datatype filter_name =
    Git_log | Git_diff | Git_status | Build_output | Grep | Find | Tree | Ls
  | Search_list | Read_numbered | Dedup_log | Smart_truncate

definition autoDetect :: "string \<Rightarrow> filter_name option" where
  "autoDetect text =
     (let head = take detectWindow text;
          lines = split_nl head;
          nonEmpty = filter (\<lambda>l. trim_space l \<noteq> []) lines
      in if MatchString reGitLog head then Some Git_log
         else if MatchString reGitDiff head \<or> MatchString reGitDiffHunk head then Some Git_diff
         else if MatchString reGitStatus head then Some Git_status
         else if MatchString reBuildOut head then Some Build_output
         else if isMostlyPorcelain head then Some Git_status
         else if length nonEmpty \<ge> 5 \<and> list_ex isGrepLine (take 5 nonEmpty) then Some Grep
         else if length nonEmpty \<ge> 3 \<and> list_all isPathLike nonEmpty then Some Find
         else if MatchString reTreeGlyph head then Some Tree
         else if MatchString reLsTotal head \<or> length (filter (MatchString reLsRow) lines) \<ge> 3 then Some Ls
         else if MatchString reSearchHdr head then Some Search_list
         else if length lines \<ge> smartMinLines \<and> isLineNumbered lines then Some Read_numbered
         else if length nonEmpty \<ge> 5 then Some Dedup_log
         else if length (split_nl text) \<ge> smartMinLines then Some Smart_truncate
         else None)"

section \<open>The filters\<close>

definition newline :: string where "newline = [CHR 10]"

text \<open>Appending to a list that is full does nothing.\<close>

definition append_upto :: "nat \<Rightarrow> 'a \<Rightarrow> 'a list \<Rightarrow> 'a list" where
  "append_upto n x xs = (if length xs < n then xs @ [x] else xs)"

subsection \<open>git status\<close>

record status_lists =
  sl_staged :: "string list"
  sl_modified :: "string list"
  sl_untracked :: "string list"
  sl_seen :: bool

definition status_line :: "string \<Rightarrow> status_lists \<Rightarrow> status_lists" where
  "status_line l st =
     (let name = trim_space (drop 3 l); x = l ! 0; y = l ! 1
      in if has_prefix l ''Untracked files:'' then st\<lparr>sl_seen := True\<rparr>
         else if sl_seen st \<and> trim_space l \<noteq> [] then
           st\<lparr>sl_untracked := append_upto statusMaxUntracked (trim_space l) (sl_untracked st)\<rparr>
         else if length l < 4 then st
         else if x = CHR ''?'' \<and> y = CHR ''?'' then
           st\<lparr>sl_untracked := append_upto statusMaxUntracked name (sl_untracked st)\<rparr>
         else if x \<noteq> CHR '' '' \<and> x \<noteq> CHR ''?'' then
           st\<lparr>sl_staged := append_upto statusMaxFiles name (sl_staged st)\<rparr>
         else if y \<noteq> CHR '' '' \<and> y \<noteq> CHR ''?'' then
           st\<lparr>sl_modified := append_upto statusMaxFiles name (sl_modified st)\<rparr>
         else st)"

definition status_lists :: "string \<Rightarrow> status_lists" where
  "status_lists s =
     fold status_line (split_nl s) \<lparr>sl_staged = [], sl_modified = [], sl_untracked = [], sl_seen = False\<rparr>"

definition writeList :: "string \<Rightarrow> string list \<Rightarrow> string" where
  "writeList label items =
     (if items = [] then [] else ''  '' @ label @ '': '' @ join_with '', '' items @ newline)"

definition gitStatus :: "string \<Rightarrow> string" where
  "gitStatus s =
     (let st = status_lists s;
          body = writeList ''Staged'' (sl_staged st) @ writeList ''Modified'' (sl_modified st) @
                 writeList ''Untracked'' (sl_untracked st)
      in if body = [] then s else ''git status (compressed):'' @ newline @ body)"

subsection \<open>git diff\<close>

definition diff_header :: "string \<Rightarrow> bool" where
  "diff_header l \<longleftrightarrow> has_prefix l ''diff --git '' \<or> has_prefix l ''index '' \<or>
     has_prefix l ''--- '' \<or> has_prefix l ''+++ '' \<or> has_prefix l ''@@ ''"

definition diff_change :: "string \<Rightarrow> bool" where
  "diff_change l \<longleftrightarrow> has_prefix l ''+'' \<or> has_prefix l ''-''"

definition truncated :: string where "truncated = ''...(truncated)...''"

fun diff_lines :: "string list \<Rightarrow> string list \<Rightarrow> nat \<Rightarrow> string list \<Rightarrow> string list" where
  "diff_lines out pending changed [] = out"
| "diff_lines out pending changed (l # ls) =
     (if diff_header l then
        if length out > gitDiffHunkMax then out @ [truncated]
        else diff_lines (out @ [l]) [] changed ls
      else if diff_change l then
        let out' = out @ pending @ [l]
        in if changed + 1 \<ge> gitDiffHunkMax then out' @ [truncated]
           else diff_lines out' [] (changed + 1) ls
      else diff_lines out (if length pending < gitDiffContext then pending @ [l] else pending) changed ls)"

definition gitDiff :: "string \<Rightarrow> string" where
  "gitDiff s = join_lines (diff_lines [] [] 0 (split_nl s))"

subsection \<open>git log and build output\<close>

definition gitLog :: "string \<Rightarrow> string" where
  "gitLog s =
     (let hits = filter (MatchString reGitLog) (split_nl s);
          out = (if length hits > gitLogMaxLines then take gitLogMaxLines hits @ [truncated] else hits)
      in if out = [] then s else join_lines out)"

definition buildOutput :: "string \<Rightarrow> string" where
  "buildOutput s =
     (let hits = filter (MatchString reBuildOut) (split_nl s);
          errs = take 20 (filter (\<lambda>l. str_contains (to_lower l) ''error'') hits);
          warns = take 10 (filter (\<lambda>l. \<not> str_contains (to_lower l) ''error'') hits)
      in if errs = [] \<and> warns = [] then s
         else concat (map (\<lambda>l. l @ newline) (errs @ warns)) @ ''...(build output compressed)'')"

subsection \<open>Grouping: grep, find and search lists\<close>

text \<open>Lines by key in the order in which the keys come, at most so many per key.\<close>

definition group_step :: "nat \<Rightarrow> string \<times> string \<Rightarrow> (string \<times> string list) list \<Rightarrow> (string \<times> string list) list" where
  "group_step n kv g =
     (case kv of (k, v) \<Rightarrow> AList.update k (append_upto n v (case map_of g k of Some vs \<Rightarrow> vs | None \<Rightarrow> [])) g)"

definition group_by_key :: "nat \<Rightarrow> (string \<times> string) list \<Rightarrow> (string \<times> string list) list" where
  "group_by_key n kvs = fold (group_step n) kvs []"

definition grep_line :: "string \<Rightarrow> (string \<times> string) option" where
  "grep_line l =
     (case cut_at (CHR '':'') l of
        None \<Rightarrow> None
      | Some (file, rest) \<Rightarrow> if cut_at (CHR '':'') rest = None then None else Some (file, l))"

definition grep_entry :: "string \<times> string list \<Rightarrow> string" where
  "grep_entry g =
     (case g of (f, ms) \<Rightarrow>
        concat (map (\<lambda>m. m @ newline) ms) @
        (if length ms \<ge> grepPerFileMax
         then ''  ...(+'' @ show_int (int (length ms) - int grepPerFileMax) @ '' more in '' @ f @ '')'' @ newline else []))"

definition grepFilter :: "string \<Rightarrow> string" where
  "grepFilter s =
     (let g = group_by_key grepPerFileMax (List.map_filter grep_line (split_nl s))
      in if g = [] then s else concat (map grep_entry g))"

definition path_parts :: "string \<Rightarrow> string \<times> string" where
  "path_parts t = (case cut_last (CHR ''/'') t of None \<Rightarrow> (''.'', t) | Some dn \<Rightarrow> dn)"

definition dir_listing :: "nat \<Rightarrow> nat \<Rightarrow> string \<Rightarrow> string list \<Rightarrow> string" where
  "dir_listing per_dir max_dirs end_mark paths =
     concat (map (\<lambda>(d, fs). d @ ''/: '' @ join_with '' '' fs @ newline)
       (take max_dirs (group_by_key per_dir (map path_parts paths)))) @ end_mark"

definition findFilter :: "string \<Rightarrow> string" where
  "findFilter s =
     (let paths = filter (\<lambda>t. t \<noteq> []) (map trim_space (split_nl s))
      in if paths = [] then s
         else dir_listing findPerDirMax findTotalDirMax ''...(find output compressed)'' paths)"

definition searchListFilter :: "string \<Rightarrow> string" where
  "searchListFilter s =
     (let paths = map trim_space (filter (\<lambda>l. trim_space l \<noteq> [] \<and> \<not> MatchString reSearchHdr l) (split_nl s))
      in if paths = [] then s
         else dir_listing searchListPerDir searchListTotalDir ''...(search list compressed)'' paths)"

subsection \<open>tree\<close>

definition treeFilter :: "string \<Rightarrow> string" where
  "treeFilter s =
     (let kept = filter (\<lambda>l. trim_space l \<noteq> []) (split_nl s)
      in join_lines (if length kept \<ge> treeMaxLines then take treeMaxLines kept @ [''...(truncated)''] else kept))"

subsection \<open>Numbers\<close>

text \<open>\<open>strconv.FormatFloat\<close> with a fixed number of decimals rounds a tie to the even digit.\<close>

definition round_even :: "rat \<Rightarrow> int" where
  "round_even x =
     (let fl = \<lfloor>x\<rfloor>; d = x - of_int fl
      in if d < 1 / 2 then fl else if d > 1 / 2 then fl + 1 else if even fl then fl else fl + 1)"

definition ftoa :: "rat \<Rightarrow> string" where
  "ftoa f =
     (if f < 10 then let n = round_even (f * 10) in show_int (n div 10) @ ''.'' @ show_int (n mod 10)
      else show_int (round_even f))"

definition humanSize :: "int \<Rightarrow> string" where
  "humanSize b =
     (if b \<ge> 2 ^ 20 then ftoa (of_int b / 2 ^ 20) @ ''M''
      else if b \<ge> 2 ^ 10 then ftoa (of_int b / 2 ^ 10) @ ''K''
      else show_int b @ ''B'')"

definition rtk_atoiSafe :: "string \<Rightarrow> int option" where
  "rtk_atoiSafe s =
     (if isAllDigits s then Some (fold (\<lambda>c n. wrap64 (n * 10 + (of_char c - 48))) s 0) else None)"

subsection \<open>ls\<close>

text \<open>\<open>strings.Fields\<close>: the words between white space; \<open>w\<close> is the word begun.\<close>

function fields_from :: "string \<Rightarrow> string \<Rightarrow> string list" where
  "fields_from w s =
     (case find (\<lambda>e. e \<noteq> [] \<and> has_prefix s e) space_encodings of
        Some e \<Rightarrow> (if w = [] then [] else [w]) @ fields_from [] (drop (length e) s)
      | None \<Rightarrow> (case s of [] \<Rightarrow> (if w = [] then [] else [w]) | c # t \<Rightarrow> fields_from (w @ [c]) t))"
  by pat_completeness auto
termination
  by (relation "measure (\<lambda>(w, s). length s)") (auto simp: find_Some_iff has_prefix_iff)

declare fields_from.simps [simp del]

definition str_fields :: "string \<Rightarrow> string list" where
  "str_fields s = fields_from [] s"

definition parseSize :: "string list \<Rightarrow> int" where
  "parseSize parts = (case List.map_filter rtk_atoiSafe (rev parts) of [] \<Rightarrow> 0 | n # _ \<Rightarrow> n)"

record ls_state =
  ls_dirs :: "string list"
  ls_files :: "(string \<times> string) list"
  ls_byExt :: "(string \<times> int) list"

definition ls_ext :: "string \<Rightarrow> string" where
  "ls_ext name =
     (case cut_last (CHR ''.'') name of
        Some (front, ext) \<Rightarrow> if front \<noteq> [] then ''.'' @ ext else ''no ext''
      | None \<Rightarrow> ''no ext'')"

definition ls_line :: "string \<Rightarrow> ls_state \<Rightarrow> ls_state" where
  "ls_line l st =
     (if has_prefix l ''total '' \<or> trim_space l = [] then st
      else case FindString reLsDate l of
             None \<Rightarrow> st
           | Some (start_pl, end_pl) \<Rightarrow>
             (let name = trim_space (snd end_pl); before = str_fields (rev (fst start_pl));
                  ft = take 1 (hd before)
              in if length before < 4 then st
                 else if name = ''.'' \<or> name = ''..'' then st
                 else if name \<in> set lsNoiseDirs then st
                 else if ft = ''d'' then st\<lparr>ls_dirs := ls_dirs st @ [name]\<rparr>
                 else if ft = ''-'' \<or> ft = ''l'' then
                   let ext = ls_ext name
                   in st\<lparr>ls_byExt := AList.update ext ((case map_of (ls_byExt st) ext of Some n \<Rightarrow> n | None \<Rightarrow> 0) + 1) (ls_byExt st),
                         ls_files := ls_files st @ [(name, humanSize (parseSize before))]\<rparr>
                 else st))"

text \<open>
  The insertion sort of the extensions by count, on the reversed front; \<open>rng\<close> is the order in
  which a loop over the map yields them.
\<close>

fun ext_left :: "string \<times> int \<Rightarrow> (string \<times> int) list \<Rightarrow> (string \<times> int) list" where
  "ext_left e [] = [e]"
| "ext_left e (f # fs) = (if snd e > snd f then f # ext_left e fs else e # f # fs)"

definition sort_exts :: "(string \<times> int) list \<Rightarrow> (string \<times> int) list" where
  "sort_exts es = rev (fold ext_left es [])"

type_synonym ext_order = "(string \<times> int) list \<Rightarrow> (string \<times> int) list"

definition ls_summary :: "ext_order \<Rightarrow> ls_state \<Rightarrow> string" where
  "ls_summary rng st =
     (let exts = sort_exts (rng (ls_byExt st))
      in ''Summary: '' @ show_int (int (length (ls_files st))) @ '' files, '' @
         show_int (int (length (ls_dirs st))) @ '' dirs'' @
         (if ls_byExt st = [] then []
          else '' ('' @ join_with '', '' (map (\<lambda>(k, v). show_int v @ '' '' @ k) (take lsExtSummaryTop exts)) @
               (if length exts > lsExtSummaryTop
                then '', +'' @ show_int (int (length exts - lsExtSummaryTop)) @ '' more'' else []) @ '')''))"

definition lsFilter :: "ext_order \<Rightarrow> string \<Rightarrow> string" where
  "lsFilter rng s =
     (let st = fold ls_line (split_nl s) \<lparr>ls_dirs = [], ls_files = [], ls_byExt = []\<rparr>
      in if ls_dirs st = [] \<and> ls_files st = [] then s
         else concat (map (\<lambda>d. d @ ''/'' @ newline) (ls_dirs st)) @
              concat (map (\<lambda>(n, z). n @ ''  '' @ z @ newline) (ls_files st)) @ ls_summary rng st)"

subsection \<open>Numbered dumps, repeated lines, long texts\<close>

definition keep_ends :: "string \<Rightarrow> string \<Rightarrow> string" where
  "keep_ends what s =
     (let lines = split_nl s; n = length lines
      in if n < smartMinLines then s
         else if n \<le> smartHead + smartTail then s
         else join_lines (take smartHead lines) @ newline @ ''...(RTK: '' @
              show_int (int (n - smartHead - smartTail)) @ '' lines '' @ what @ '')...'' @ newline @
              join_lines (drop (n - smartTail) lines))"

definition readNumberedFilter :: "string \<Rightarrow> string" where
  "readNumberedFilter s = keep_ends ''omitted'' s"

definition smartTruncate :: "string \<Rightarrow> string" where
  "smartTruncate s = keep_ends ''truncated'' s"

text \<open>Each line once, in the order of first occurrence, with its count.\<close>

fun first_seen :: "string list \<Rightarrow> string list \<Rightarrow> string list" where
  "first_seen emitted [] = []"
| "first_seen emitted (l # ls) =
     (if l \<in> set emitted then first_seen emitted ls else l # first_seen (l # emitted) ls)"

definition counted_line :: "string list \<Rightarrow> string \<Rightarrow> string" where
  "counted_line lines l =
     (let c = count_list lines l
      in if c > 1 then l @ '' (x'' @ show_int (int c) @ '')'' else l)"

definition dedupLog :: "string \<Rightarrow> string" where
  "dedupLog s =
     (let lines = take dedupLineMax (split_nl s);
          out = map (counted_line lines) (first_seen [] lines)
      in if length out \<ge> length lines then s else join_lines out)"

definition apply_filter :: "ext_order \<Rightarrow> filter_name \<Rightarrow> string \<Rightarrow> string" where
  "apply_filter rng f s =
     (case f of
        Git_log \<Rightarrow> gitLog s | Git_diff \<Rightarrow> gitDiff s | Git_status \<Rightarrow> gitStatus s
      | Build_output \<Rightarrow> buildOutput s | Grep \<Rightarrow> grepFilter s | Find \<Rightarrow> findFilter s
      | Tree \<Rightarrow> treeFilter s | Ls \<Rightarrow> lsFilter rng s | Search_list \<Rightarrow> searchListFilter s
      | Read_numbered \<Rightarrow> readNumberedFilter s | Dedup_log \<Rightarrow> dedupLog s | Smart_truncate \<Rightarrow> smartTruncate s)"

section \<open>What the filters keep\<close>

abbreviation diff_kept :: "string \<Rightarrow> bool" where
  "diff_kept l \<equiv> diff_header l \<or> diff_change l"

lemma no_kept: "\<not> diff_kept l \<Longrightarrow> list_all (\<lambda>l. \<not> diff_kept l) ps \<Longrightarrow> filter diff_kept (ps @ [l]) = []"
  by (auto simp: list_all_iff)

lemma subseq_front: "subseq (xs @ ys) zs \<Longrightarrow> subseq xs zs"
  by (rule subseq_order.trans [OF subseq_rev_drop_many [OF subseq_order.order_refl]])

text \<open>
  The loop of the diff filter, from any of its states: \<open>seen\<close> are the lines read so far, of which
  \<open>out\<close> and after it the pending context are a part in order.
\<close>

definition diff_result :: "string list \<Rightarrow> string list \<Rightarrow> bool" where
  "diff_result ls res \<longleftrightarrow>
     subseq res ls \<and> filter diff_kept res = filter diff_kept ls \<or>
     (\<exists>cut n. res = cut @ [truncated] \<and> subseq cut ls \<and> gitDiffHunkMax \<le> length cut \<and>
              filter diff_kept cut = take n (filter diff_kept ls))"

lemma diff_result_cut:
  assumes "subseq out seen" "filter diff_kept out = filter diff_kept seen" "gitDiffHunkMax \<le> length out"
  shows "diff_result (seen @ rest) (out @ [truncated])"
proof -
  have "filter diff_kept out = take (length (filter diff_kept seen)) (filter diff_kept (seen @ rest))"
    using assms(2) by simp
  then show ?thesis using assms(1,3) unfolding diff_result_def by (metis subseq_rev_drop_many)
qed

lemma diff_lines_result:
  assumes "subseq (out @ pending) seen" "list_all (\<lambda>l. \<not> diff_kept l) pending"
    and "filter diff_kept out = filter diff_kept seen"
    and "length pending \<le> gitDiffContext" "changed \<le> length (filter diff_change out)" "changed < gitDiffHunkMax"
    and "length out \<le> 101 + 4 * changed"
  shows "diff_result (seen @ ls) (diff_lines out pending changed ls) \<and>
         length (diff_lines out pending changed ls) \<le> 502"
  using assms
proof (induction ls arbitrary: out pending changed seen)
  case Nil
  have "subseq out seen" using Nil.prems(1) by (rule subseq_front)
  with Nil show ?case by (simp add: diff_result_def gitDiffHunkMax_def)
next
  case (Cons l ls)
  have sub: "subseq out seen" using Cons.prems(1) by (rule subseq_front)
  have app: "subseq (xs @ [l]) (seen @ [l])" if "subseq xs seen" for xs using that by simp
  consider (header) "diff_header l" | (change) "\<not> diff_header l" "diff_change l" | (plain) "\<not> diff_kept l" by blast
  then show ?case
  proof cases
    case header
    show ?thesis
    proof (cases "length out > gitDiffHunkMax")
      case True
      have "diff_result (seen @ l # ls) (out @ [truncated])"
        using diff_result_cut [OF sub Cons.prems(3)] True by simp
      with True header Cons.prems(6,7) show ?thesis by (simp add: gitDiffHunkMax_def)
    next
      case False
      have "diff_result ((seen @ [l]) @ ls) (diff_lines (out @ [l]) [] changed ls) \<and>
          length (diff_lines (out @ [l]) [] changed ls) \<le> 502"
        by (rule Cons.IH) (use Cons.prems False header app [OF sub] in \<open>auto simp: gitDiffHunkMax_def gitDiffContext_def\<close>)
      with False header show ?thesis by simp
    qed
  next
    case change
    let ?out = "out @ pending @ [l]"
    have sub': "subseq ?out (seen @ [l])" using app [OF Cons.prems(1)] by simp
    have kept: "filter diff_kept ?out = filter diff_kept (seen @ [l])"
      using Cons.prems(2,3) by (auto simp: list_all_iff filter_empty_conv)
    have more: "changed + 1 \<le> length (filter diff_change ?out)" using Cons.prems(5) change by simp
    show ?thesis
    proof (cases "changed + 1 \<ge> gitDiffHunkMax")
      case True
      have "gitDiffHunkMax \<le> length ?out" using True more length_filter_le [of diff_change ?out] by linarith
      from diff_result_cut [OF sub' kept this, of ls] True change Cons.prems(4,6,7) show ?thesis
        by (simp add: Let_def gitDiffHunkMax_def gitDiffContext_def)
    next
      case False
      have "diff_result ((seen @ [l]) @ ls) (diff_lines ?out [] (changed + 1) ls) \<and>
          length (diff_lines ?out [] (changed + 1) ls) \<le> 502"
        by (rule Cons.IH) (use Cons.prems(4,7) False sub' kept more in \<open>auto simp: gitDiffContext_def\<close>)
      with False change show ?thesis by (simp add: Let_def)
    qed
  next
    case plain
    let ?pending = "if length pending < gitDiffContext then pending @ [l] else pending"
    have "subseq (out @ ?pending) (seen @ [l])"
      using app [OF Cons.prems(1)] Cons.prems(1) by (auto intro: subseq_order.trans)
    then have "diff_result ((seen @ [l]) @ ls) (diff_lines out ?pending changed ls) \<and>
        length (diff_lines out ?pending changed ls) \<le> 502"
      by (intro Cons.IH) (use Cons.prems plain in \<open>auto simp: list_all_iff\<close>)
    with plain show ?thesis by simp
  qed
qed

text \<open>
  What the diff filter loses. Its lines are lines of the diff in their order, at most 502.
  Either all header, added and removed lines are among them, or the text ends with the mark of a
  cut, at least 100 lines were kept, and the kept header and change lines are the first ones.
\<close>

theorem git_diff_marks_loss:
  "\<exists>kept. gitDiff s = join_lines kept \<and> diff_result (split_nl s) kept \<and> length kept \<le> 502"
  using diff_lines_result [of "[]" "[]" "[]" 0 "split_nl s"] by (auto simp: gitDiff_def gitDiffHunkMax_def)

text \<open>
  The repeated-lines filter: its lines with their counts stand for the first 2000 lines, each
  occurrence once. What comes after those leaves no trace at all.
\<close>

lemma first_seen_props:
  "distinct (first_seen em ls) \<and> set (first_seen em ls) = set ls - set em"
  by (induction em ls rule: first_seen.induct) auto

lemma dedup_log_counts:
  "mset (concat (map (\<lambda>l. replicate (count_list lines l) l) (first_seen [] lines))) = mset lines"
proof (rule multiset_eqI)
  fix x
  have "count (mset (concat (map (\<lambda>l. replicate (count_list lines l) l) ds))) x = (if x \<in> set ds then count_list lines x else 0)"
    if "distinct ds" for ds
    using that by (induction ds) auto
  from this [of "first_seen [] lines"] first_seen_props [of "[]" lines]
  show "count (mset (concat (map (\<lambda>l. replicate (count_list lines l) l) (first_seen [] lines)))) x = count (mset lines) x"
    by (simp add: count_mset count_list_0_iff)
qed

lemma dedup_log_forgets_rest:
  assumes "take dedupLineMax (split_nl s) = take dedupLineMax (split_nl t)" "\<not> distinct (take dedupLineMax (split_nl s))"
  shows "dedupLog s = dedupLog t"
proof -
  let ?ls = "take dedupLineMax (split_nl s)"
  have "length (first_seen [] ?ls) = card (set ?ls)"
    using first_seen_props [of "[]" ?ls] by (metis Diff_empty distinct_card list.set(1))
  moreover have "card (set ?ls) < length ?ls"
    using assms(2) card_distinct card_length le_neq_implies_less by blast
  ultimately have "length (first_seen [] ?ls) < length ?ls" by (simp only:)
  then have "\<not> length ?ls \<le> length (map (counted_line ?ls) (first_seen [] ?ls))" by (simp only: length_map not_le)
  then show ?thesis unfolding dedupLog_def Let_def assms(1) by (simp only: if_False)
qed

text \<open>
  The grep filter keeps at most ten matches of a file before it counts, so the number of further
  matches it reports is always zero.
\<close>

lemma group_at_most:
  assumes "\<forall>(k, vs) \<in> set g. length vs \<le> n" "0 < n"
  shows "\<forall>(k, vs) \<in> set (fold (group_step n) kvs g). length vs \<le> n"
  using assms
proof (induction kvs arbitrary: g)
  case (Cons kv kvs)
  have old: "length (case map_of g k of Some vs \<Rightarrow> vs | None \<Rightarrow> []) \<le> n" for k
    using Cons.prems(1) by (auto split: option.split dest!: map_of_SomeD)
  have "set (AList.update k v al) \<subseteq> insert (k, v) (set al)" for k v and al :: "(string \<times> string list) list"
    by (induction al) auto
  note upd = this
  have "\<forall>(k, vs) \<in> set (group_step n kv g). length vs \<le> n"
  proof -
    obtain k v where kv: "kv = (k, v)" by fastforce
    let ?vs = "append_upto n v (case map_of g k of Some vs \<Rightarrow> vs | None \<Rightarrow> [])"
    have "length ?vs \<le> n" using old [of k] by (simp add: append_upto_def)
    moreover have "set (group_step n kv g) \<subseteq> insert (k, ?vs) (set g)"
      using upd [of k ?vs g] by (simp add: group_step_def kv)
    ultimately show ?thesis using Cons.prems(1) by blast
  qed
  with Cons show ?case by simp
qed simp

lemma grep_note_always_zero:
  assumes "(f, ms) \<in> set (group_by_key grepPerFileMax kvs)"
  shows "grep_entry (f, ms) = concat (map (\<lambda>m. m @ newline) ms) @
     (if length ms = 10 then ''  ...(+0 more in '' @ f @ '')'' @ newline else [])"
proof -
  have "length ms \<le> 10"
    using group_at_most [of "[]" grepPerFileMax kvs] assms by (auto simp: group_by_key_def grepPerFileMax_def)
  moreover have "show_int 0 = ''0''" by code_simp
  ultimately show ?thesis by (auto simp: grep_entry_def grepPerFileMax_def)
qed

text \<open>A line that begins with a time of day is taken for a match of grep.\<close>

lemma cut_at_append: "c \<notin> set u \<Longrightarrow> cut_at c (u @ c # v) = Some (u, v)"
  by (simp add: cut_at_def dropWhile_append takeWhile_append)

lemma times_look_like_grep:
  assumes "isAllDigits h" "isAllDigits m"
  shows "isGrepLine (h @ '':'' @ m @ '':'' @ rest)"
proof -
  have "CHR '':'' \<notin> set d" if "isAllDigits d" for d
    using that by (auto simp: isAllDigits_def list_all_iff char_range_def)
  with assms show ?thesis by (simp add: isGrepLine_def cut_at_append)
qed

text \<open>
  In the long format of git a changed file stands behind a tab, as in a line of this form; the
  filter, which expects the short format, reports it as staged and without its first characters.
\<close>

lemma long_status_garbled:
  assumes "\<not> sl_seen st" "trim_space (CHR 9 # ''modified:   '' @ f) \<noteq> []"
  shows "status_line (CHR 9 # ''modified:   '' @ f) st =
     st\<lparr>sl_staged := append_upto statusMaxFiles (trim_space (''dified:   '' @ f)) (sl_staged st)\<rparr>"
  using assms by (simp add: status_line_def has_prefix_Cons)

end
