(* ===== verification/Rtk.thy ===== *)
theory Rtk
  imports RtkFilters Json
begin

text \<open>
  The tool-output compressor on request bodies, \<open>internal/rtk/rtk.go\<close>: which texts of a body are
  compressed, in the four shapes a tool result can have, and the statistics. The code changes the
  decoded body in place; a decoded body shares no parts, so the model returns the changed body.
\<close>

section \<open>One text\<close>

type_synonym hit = "string \<times> string \<times> int"

record rtk_stats =
  rs_BytesBefore :: int
  rs_BytesAfter :: int
  rs_Hits :: "hit list"

definition filter_label :: "filter_name \<Rightarrow> string" where
  "filter_label f =
     (case f of
        Git_log \<Rightarrow> ''git-log'' | Git_diff \<Rightarrow> ''git-diff'' | Git_status \<Rightarrow> ''git-status''
      | Build_output \<Rightarrow> ''build-output'' | Grep \<Rightarrow> ''grep'' | Find \<Rightarrow> ''find'' | Tree \<Rightarrow> ''tree'' | Ls \<Rightarrow> ''ls''
      | Search_list \<Rightarrow> ''search-list'' | Read_numbered \<Rightarrow> ''read-numbered''
      | Dedup_log \<Rightarrow> ''dedup-log'' | Smart_truncate \<Rightarrow> ''smart-truncate'')"

definition safeApply :: "ext_order \<Rightarrow> filter_name \<Rightarrow> string \<Rightarrow> string" where
  "safeApply rng f text = (let out = apply_filter rng f text in if out = [] then text else out)"

definition compressText :: "ext_order \<Rightarrow> string \<Rightarrow> string \<Rightarrow> rtk_stats \<Rightarrow> string \<times> rtk_stats" where
  "compressText rng shape text st0 =
     (let n = int (length text);
          st = st0\<lparr>rs_BytesBefore := rs_BytesBefore st0 + n\<rparr>;
          unchanged = (text, st\<lparr>rs_BytesAfter := rs_BytesAfter st + n\<rparr>)
      in if length text < minCompressSize \<or> length text > rawCap then unchanged
         else case autoDetect text of
                None \<Rightarrow> unchanged
              | Some f \<Rightarrow>
                (let out = safeApply rng f text
                 in if out = [] \<or> length out \<ge> length text then unchanged
                    else (out, st\<lparr>rs_BytesAfter := rs_BytesAfter st + int (length out),
                                   rs_Hits := rs_Hits st @ [(shape, filter_label f, n - int (length out))]\<rparr>)))"

section \<open>A body\<close>

text \<open>
  Editing a value while the statistics are passed along: a text, a field of an object, the
  elements of an array, and only values that pass a test.
\<close>

type_synonym edit = "json \<Rightarrow> rtk_stats \<Rightarrow> json \<times> rtk_stats"

fun thread :: "('a \<Rightarrow> 's \<Rightarrow> 'a \<times> 's) \<Rightarrow> 'a list \<Rightarrow> 's \<Rightarrow> 'a list \<times> 's" where
  "thread f [] st = ([], st)"
| "thread f (x # xs) st = (let (y, st1) = f x st; (ys, st2) = thread f xs st1 in (y # ys, st2))"

definition edit_text :: "ext_order \<Rightarrow> string \<Rightarrow> edit" where
  "edit_text rng shape v st =
     (case v of J_str s \<Rightarrow> map_prod J_str id (compressText rng shape s st) | _ \<Rightarrow> (v, st))"

definition edit_field :: "string \<Rightarrow> edit \<Rightarrow> edit" where
  "edit_field k f v st =
     (case v of
        J_obj kvs \<Rightarrow>
          (case map_of kvs k of
             Some x \<Rightarrow> map_prod (\<lambda>y. J_obj (AList.update k y kvs)) id (f x st)
           | None \<Rightarrow> (v, st))
      | _ \<Rightarrow> (v, st))"

definition edit_each :: "edit \<Rightarrow> edit" where
  "edit_each f v st = (case v of J_arr vs \<Rightarrow> map_prod J_arr id (thread f vs st) | _ \<Rightarrow> (v, st))"

definition edit_if :: "(json \<Rightarrow> bool) \<Rightarrow> edit \<Rightarrow> edit" where
  "edit_if P f v st = (if P v then f v st else (v, st))"

definition field_is :: "string \<Rightarrow> json \<Rightarrow> json \<Rightarrow> bool" where
  "field_is k x v \<longleftrightarrow> (case as_obj v of Some m \<Rightarrow> m k = Some x | None \<Rightarrow> False)"

text \<open>A text, or an array of parts of one type with a text each.\<close>

definition edit_parts :: "ext_order \<Rightarrow> string \<Rightarrow> string \<Rightarrow> string \<Rightarrow> edit" where
  "edit_parts rng shape_string shape_array ty v st =
     (case v of
        J_str _ \<Rightarrow> edit_text rng shape_string v st
      | J_arr _ \<Rightarrow> edit_each (edit_if (field_is ''type'' (J_str ty)) (edit_field ''text'' (edit_text rng shape_array))) v st
      | _ \<Rightarrow> (v, st))"

definition edit_block :: "ext_order \<Rightarrow> edit" where
  "edit_block rng =
     edit_if (\<lambda>b. field_is ''type'' (J_str ''tool_result'') b \<and> \<not> field_is ''is_error'' (J_bool True) b)
       (edit_field ''content'' (edit_parts rng ''claude-string'' ''claude-array'' ''text''))"

definition edit_message :: "ext_order \<Rightarrow> edit" where
  "edit_message rng v st =
     (if field_is ''type'' (J_str ''function_call_output'') v then
        edit_field ''output'' (edit_parts rng ''openai-responses-string'' ''openai-responses-array'' ''input_text'') v st
      else if field_is ''role'' (J_str ''tool'') v then
        edit_field ''content'' (edit_parts rng ''openai-tool'' ''openai-tool-array'' ''text'') v st
      else edit_field ''content'' (edit_each (edit_block rng)) v st)"

definition edit_kiro_message :: "ext_order \<Rightarrow> edit" where
  "edit_kiro_message rng =
     edit_field ''userInputMessage'' (edit_field ''userInputMessageContext'' (edit_field ''toolResults''
       (edit_each (edit_if (\<lambda>t. \<not> field_is ''status'' (J_str ''error'') t)
          (edit_field ''content'' (edit_each (edit_field ''text'' (edit_text rng ''kiro-tool-result''))))))))"

definition no_stats :: rtk_stats where
  "no_stats = \<lparr>rs_BytesBefore = 0, rs_BytesAfter = 0, rs_Hits = []\<rparr>"

definition stats_of :: "json \<times> rtk_stats \<Rightarrow> json \<times> rtk_stats option" where
  "stats_of r = (fst r, if rs_Hits (snd r) = [] then None else Some (snd r))"

definition compressKiro :: "ext_order \<Rightarrow> json \<Rightarrow> json \<times> rtk_stats option" where
  "compressKiro rng body =
     stats_of
       (let (b1, st1) = edit_field ''conversationState'' (edit_field ''history'' (edit_each (edit_kiro_message rng))) body no_stats
        in edit_field ''conversationState'' (edit_field ''currentMessage'' (edit_kiro_message rng)) b1 st1)"

definition CompressMessages :: "ext_order \<Rightarrow> json \<Rightarrow> json \<times> rtk_stats option" where
  "CompressMessages rng body =
     (case as_obj body of
        None \<Rightarrow> (body, None)
      | Some m \<Rightarrow>
        if m ''conversationState'' \<noteq> None then compressKiro rng body
        else
          (case m ''messages'' of
             Some (J_arr _) \<Rightarrow> stats_of (edit_field ''messages'' (edit_each (edit_message rng)) body no_stats)
           | Some J_null \<Rightarrow> stats_of (edit_field ''input'' (edit_each (edit_message rng)) body no_stats)
           | None \<Rightarrow> stats_of (edit_field ''input'' (edit_each (edit_message rng)) body no_stats)
           | _ \<Rightarrow> (body, None)))"

text \<open>The line for the log, with the filters in the order of their first use.\<close>

definition FormatLog :: "rtk_stats option \<Rightarrow> string" where
  "FormatLog st =
     (case st of
        None \<Rightarrow> []
      | Some s \<Rightarrow>
        (let saved = rs_BytesBefore s - rs_BytesAfter s;
             filters = first_seen [] (map (\<lambda>(_, f, _). f) (rs_Hits s))
         in if rs_Hits s = [] \<or> rs_BytesBefore s = 0 then []
            else ''[RTK] saved '' @ show_int saved @ ''B / '' @ show_int (rs_BytesBefore s) @ ''B ('' @
                 ftoa (of_int (saved * 100) / of_int (rs_BytesBefore s)) @ ''%) via ['' @
                 join_with '','' filters @ ''] hits='' @ show_int (int (length (rs_Hits s)))))"

section \<open>What an edit does\<close>

text \<open>
  The length of all texts of a value, and the value with its texts blanked. A sound edit shortens
  the texts by what it adds to the savings, keeps all but the texts, adds hits that account for
  the savings, and changes nothing without a hit.
\<close>

fun text_size :: "json \<Rightarrow> int" where
  "text_size (J_str s) = int (length s)"
| "text_size (J_arr vs) = sum_list (map text_size vs)"
| "text_size (J_obj kvs) = sum_list (map (\<lambda>(k, v). text_size v) kvs)"
| "text_size _ = 0"

fun blank :: "json \<Rightarrow> json" where
  "blank (J_str s) = J_str []"
| "blank (J_arr vs) = J_arr (map blank vs)"
| "blank (J_obj kvs) = J_obj (map (\<lambda>(k, v). (k, blank v)) kvs)"
| "blank v = v"

definition saved_bytes :: "rtk_stats \<Rightarrow> int" where
  "saved_bytes st = rs_BytesBefore st - rs_BytesAfter st"

definition sound_change :: "('a \<Rightarrow> int) \<Rightarrow> ('a \<Rightarrow> 'b) \<Rightarrow> 'a \<Rightarrow> rtk_stats \<Rightarrow> 'a \<times> rtk_stats \<Rightarrow> bool" where
  "sound_change sz bl v st r \<longleftrightarrow>
     sz v - sz (fst r) = saved_bytes (snd r) - saved_bytes st \<and> bl (fst r) = bl v \<and>
     (\<exists>hs. rs_Hits (snd r) = rs_Hits st @ hs \<and>
           saved_bytes (snd r) - saved_bytes st = sum_list (map (\<lambda>(_, _, n). n) hs) \<and>
           (\<forall>(_, _, n) \<in> set hs. 0 < n) \<and> (hs = [] \<longrightarrow> fst r = v))"

abbreviation sound :: "edit \<Rightarrow> bool" where
  "sound f \<equiv> (\<forall>v st. sound_change text_size blank v st (f v st))"

lemma sound_refl [simp]: "sound_change sz bl v st (v, st)"
  by (simp add: sound_change_def)

lemma sound_trans:
  assumes "sound_change sz bl v st (v1, st1)" "sound_change sz bl v1 st1 r"
  shows "sound_change sz bl v st r"
proof -
  obtain hs where hs: "rs_Hits st1 = rs_Hits st @ hs" "saved_bytes st1 - saved_bytes st = sum_list (map (\<lambda>(_, _, n). n) hs)"
      "\<forall>(_, _, n) \<in> set hs. 0 < n" "hs = [] \<longrightarrow> v1 = v"
    using assms(1) by (auto simp: sound_change_def)
  obtain ks where ks: "rs_Hits (snd r) = rs_Hits st1 @ ks" "saved_bytes (snd r) - saved_bytes st1 = sum_list (map (\<lambda>(_, _, n). n) ks)"
      "\<forall>(_, _, n) \<in> set ks. 0 < n" "ks = [] \<longrightarrow> fst r = v1"
    using assms(2) by (auto simp: sound_change_def)
  have "rs_Hits (snd r) = rs_Hits st @ (hs @ ks)" using hs(1) ks(1) by simp
  moreover have "saved_bytes (snd r) - saved_bytes st = sum_list (map (\<lambda>(_, _, n). n) (hs @ ks))"
    using hs(2) ks(2) by simp
  moreover have "\<forall>(_, _, n) \<in> set (hs @ ks). 0 < n" using hs(3) ks(3) by auto
  moreover have "hs @ ks = [] \<longrightarrow> fst r = v" using hs(4) ks(4) by simp
  ultimately show ?thesis using assms unfolding sound_change_def by (intro conjI exI [of _ "hs @ ks"]) auto
qed

lemma compressText_cases:
  obtains (same) "compressText rng shape s st =
             (s, st\<lparr>rs_BytesBefore := rs_BytesBefore st + int (length s), rs_BytesAfter := rs_BytesAfter st + int (length s)\<rparr>)"
  | (shorter) f out where "compressText rng shape s st =
             (out, st\<lparr>rs_BytesBefore := rs_BytesBefore st + int (length s), rs_BytesAfter := rs_BytesAfter st + int (length out),
                      rs_Hits := rs_Hits st @ [(shape, filter_label f, int (length s) - int (length out))]\<rparr>)"
      "out \<noteq> []" "length out < length s" "out = apply_filter rng f s" "autoDetect s = Some f"
      "minCompressSize \<le> length s" "length s \<le> rawCap"
proof (cases "length s < minCompressSize \<or> length s > rawCap \<or> autoDetect s = None \<or>
    (\<exists>f. autoDetect s = Some f \<and> (safeApply rng f s = [] \<or> length (safeApply rng f s) \<ge> length s))")
  case True
  then show ?thesis by (intro same) (auto simp: compressText_def Let_def split: option.split)
next
  case False
  then obtain f where f: "autoDetect s = Some f" "safeApply rng f s \<noteq> []" "length (safeApply rng f s) < length s" by auto
  then have "safeApply rng f s = apply_filter rng f s" by (auto simp: safeApply_def Let_def split: if_splits)
  with f False show ?thesis by (intro shorter [of "safeApply rng f s" f]) (auto simp: compressText_def Let_def)
qed

lemma sound_text: "sound (edit_text rng shape)"
proof (intro allI)
  fix v st
  show "sound_change text_size blank v st (edit_text rng shape v st)"
  proof (cases v)
    case (J_str s)
    show ?thesis
    proof (cases rule: compressText_cases [of rng shape s st])
      case same
      then show ?thesis
        by (auto simp: edit_text_def J_str sound_change_def saved_bytes_def intro: exI [of _ "[]"])
    next
      case (shorter f out)
      then show ?thesis by (auto simp: edit_text_def J_str sound_change_def saved_bytes_def)
    qed
  qed (simp_all add: edit_text_def)
qed

lemma update_first:
  assumes "map_of kvs k = Some x"
  shows "\<exists>as bs. kvs = as @ (k, x) # bs \<and> AList.update k y kvs = as @ (k, y) # bs"
  using assms
proof (induction kvs)
  case (Cons a kvs)
  show ?case
  proof (cases "fst a = k")
    case True
    with Cons.prems have "a = (k, x)" by (cases a) simp
    then show ?thesis by (intro exI [of _ "[]"] exI [of _ kvs]) simp
  next
    case False
    with Cons obtain as bs where "kvs = as @ (k, x) # bs" "AList.update k y kvs = as @ (k, y) # bs"
      by (cases a) auto
    with False show ?thesis by (intro exI [of _ "a # as"] exI [of _ bs]) (cases a, simp)
  qed
qed simp

lemma sound_field:
  assumes "sound f"
  shows "sound (edit_field k f)"
proof (intro allI)
  fix v st
  show "sound_change text_size blank v st (edit_field k f v st)"
  proof (cases "\<exists>kvs x. v = J_obj kvs \<and> map_of kvs k = Some x")
    case True
    then obtain kvs x where v: "v = J_obj kvs" "map_of kvs k = Some x" by blast
    obtain y st' where y: "f x st = (y, st')" by (cases "f x st")
    obtain as bs where ab: "kvs = as @ (k, x) # bs" "AList.update k y kvs = as @ (k, y) # bs"
      using update_first [OF v(2)] by blast
    have "sound_change text_size blank x st (y, st')" using assms y by metis
    moreover have "edit_field k f v st = (J_obj (as @ (k, y) # bs), st')"
      using v(2) by (simp add: edit_field_def v(1) y ab(2))
    moreover have "v = J_obj (as @ (k, x) # bs)" using v(1) ab(1) by simp
    ultimately show ?thesis by (auto simp: sound_change_def)
  qed (auto simp: edit_field_def split: json.split option.split)
qed

lemma sound_thread:
  assumes "sound f"
  shows "sound_change (\<lambda>vs. sum_list (map text_size vs)) (map blank) vs st (thread f vs st)"
proof (induction vs arbitrary: st)
  case (Cons v vs)
  obtain w st1 where w: "f v st = (w, st1)" by (cases "f v st")
  obtain ws st2 where ws: "thread f vs st1 = (ws, st2)" by (cases "thread f vs st1")
  let ?sz = "\<lambda>vs. sum_list (map text_size vs)"
  have "sound_change text_size blank v st (w, st1)" using assms w by metis
  then have "sound_change ?sz (map blank) (v # vs) st (w # vs, st1)" by (auto simp: sound_change_def)
  moreover have "sound_change ?sz (map blank) vs st1 (ws, st2)" using Cons [of st1] ws by simp
  then have "sound_change ?sz (map blank) (w # vs) st1 (w # ws, st2)" by (auto simp: sound_change_def)
  ultimately show ?case by (simp add: w ws sound_trans)
qed simp

lemma sound_each:
  assumes "sound f"
  shows "sound (edit_each f)"
proof (intro allI)
  fix v st
  show "sound_change text_size blank v st (edit_each f v st)"
    using sound_thread [OF assms, of _ st]
    by (cases v) (auto simp: edit_each_def sound_change_def split_beta)
qed

lemma sound_if: "sound f \<Longrightarrow> sound (edit_if P f)"
  by (simp add: edit_if_def)

lemma sound_parts: "sound (edit_parts rng a b ty)"
proof (intro allI)
  fix v st
  show "sound_change text_size blank v st (edit_parts rng a b ty v st)"
    using sound_text [of rng a] sound_each [OF sound_if [OF sound_field [OF sound_text [of rng b]]], of "field_is ''type'' (J_str ty)" "''text''"]
    by (cases v) (simp_all add: edit_parts_def)
qed

lemma sound_message: "sound (edit_message rng)"
proof -
  have "sound (edit_block rng)"
    unfolding edit_block_def by (intro sound_if sound_field sound_parts)
  then have claude: "sound (edit_field ''content'' (edit_each (edit_block rng)))" by (intro sound_field sound_each)
  have field: "sound (edit_field k (edit_parts rng a b ty))" for k a b ty by (intro sound_field sound_parts)
  show ?thesis
  proof (intro allI)
    fix v st
    show "sound_change text_size blank v st (edit_message rng v st)"
      unfolding edit_message_def
      using field [rule_format, of v st] claude [rule_format, of v st] by (simp only: simp_thms split: if_split)
  qed
qed

lemma sound_kiro: "sound (edit_kiro_message rng)"
  unfolding edit_kiro_message_def by (intro sound_field sound_each sound_if sound_text)

lemma compress_sound:
  "\<exists>r. CompressMessages rng body = stats_of r \<and> sound_change text_size blank body no_stats r"
proof -
  let ?k = "edit_field ''conversationState''"
  have kiro: "\<exists>r. compressKiro rng body = stats_of r \<and> sound_change text_size blank body no_stats r"
  proof -
    have h: "sound (?k (edit_field ''history'' (edit_each (edit_kiro_message rng))))"
      and c: "sound (?k (edit_field ''currentMessage'' (edit_kiro_message rng)))"
      by (intro sound_field sound_each sound_kiro)+
    obtain b1 st1 where one: "?k (edit_field ''history'' (edit_each (edit_kiro_message rng))) body no_stats = (b1, st1)"
      by fastforce
    let ?r = "?k (edit_field ''currentMessage'' (edit_kiro_message rng)) b1 st1"
    have "sound_change text_size blank body no_stats (b1, st1)"
      using h [rule_format, of body no_stats] unfolding one .
    then have "sound_change text_size blank body no_stats ?r"
      using c [rule_format, of b1 st1] by (rule sound_trans)
    moreover have "compressKiro rng body = stats_of ?r" by (simp only: compressKiro_def one Let_def prod.case)
    ultimately show ?thesis by blast
  qed
  define ok where "ok R \<longleftrightarrow> (\<exists>r. R = stats_of r \<and> sound_change text_size blank body no_stats r)" for R
  have "sound (edit_field k (edit_each (edit_message rng)))" for k by (intro sound_field sound_each sound_message)
  then have items: "ok (stats_of (edit_field k (edit_each (edit_message rng)) body no_stats))" for k
    unfolding ok_def by blast
  have "(body, None) = stats_of (body, no_stats)" by (simp add: stats_of_def no_stats_def)
  then have none: "ok (body, None)" using sound_refl unfolding ok_def by metis
  have "ok (CompressMessages rng body)"
  proof (cases "as_obj body")
    case None
    then show ?thesis using none by (simp add: CompressMessages_def)
  next
    case (Some m)
    show ?thesis
    proof (cases "m ''conversationState'' = None")
      case False
      then show ?thesis using kiro Some by (simp add: CompressMessages_def ok_def)
    next
      case True
      note step = CompressMessages_def Some option.case True not_not if_False simp_thms
      show ?thesis
      proof (cases "m ''messages''")
        case None
        show ?thesis unfolding step None by (rule items)
      next
        case msgs: (Some v)
        show ?thesis unfolding step msgs by (cases v; simp only: json.case; rule items none)
      qed
    qed
  qed
  then show ?thesis by (simp add: ok_def)
qed

text \<open>
  C25: What the compressor does to a body. Without statistics the body is what it was. With them
  the texts together are shorter by the savings reported, which are those of the hits, each hit saves
  something, and everything but the texts is as before.
\<close>

theorem rtk_accounts_for_savings:
  "case CompressMessages rng body of (body', st) \<Rightarrow>
     blank body' = blank body \<and>
     (case st of
        None \<Rightarrow> body' = body
      | Some s \<Rightarrow> text_size body - text_size body' = rs_BytesBefore s - rs_BytesAfter s \<and>
                 rs_BytesBefore s - rs_BytesAfter s = sum_list (map (\<lambda>(_, _, n). n) (rs_Hits s)) \<and>
                 rs_Hits s \<noteq> [] \<and> list_all (\<lambda>(_, _, n). 0 < n) (rs_Hits s))"
proof -
  obtain r where r: "CompressMessages rng body = stats_of r" "sound_change text_size blank body no_stats r"
    using compress_sound by blast
  then show ?thesis
    by (auto simp: stats_of_def sound_change_def no_stats_def saved_bytes_def list_all_iff split: if_splits)
qed

end
