(* ===== verification/Guardrails.thy ===== *)
theory Guardrails
  imports Regex Json "HOL-Library.AList"
begin

text \<open>
  The safety filters on requests, \<open>internal/guardrails/guardrails.go\<close>: a search for prompt
  injections, which only raises a flag, and the redaction of addresses and numbers.
\<close>

record guardrails =
  gd_enabled :: bool
  gd_redact :: bool

definition default_guardrails :: guardrails where
  "default_guardrails = \<lparr>gd_enabled = True, gd_redact = False\<rparr>"

definition SetGuardrails :: "bool \<Rightarrow> guardrails \<Rightarrow> guardrails" where
  "SetGuardrails v g = g\<lparr>gd_enabled := v\<rparr>"

definition SetRedactPII :: "bool \<Rightarrow> guardrails \<Rightarrow> guardrails" where
  "SetRedactPII v g = g\<lparr>gd_redact := v\<rparr>"

section \<open>Expressions\<close>

definition injectRe :: regex where
  "injectRe = re_alt
     [re_seq [literal_ci ''ignore '', re_opt (literal_ci ''all ''),
        Alt (literal_ci ''previous'') (literal_ci ''prior''), literal_ci '' instructions''],
      literal_ci ''system prompt:'', literal_ci ''you are now DAN'', literal_ci ''jailbreak'',
      literal_ci ''do anything now'',
      re_seq [literal_ci ''reveal '', re_opt (literal_ci ''your ''),
        Alt (literal_ci ''system'') (literal_ci ''hidden''), literal_ci '' prompt'']]"

definition alnum :: "char \<Rightarrow> bool" where
  "alnum c \<longleftrightarrow> is_letter c \<or> char_range (CHR ''0'') (CHR ''9'') c"

definition emailRe :: regex where
  "emailRe = re_seq
     [re_plus (Class (\<lambda>c. alnum c \<or> c \<in> set ''._%+-'')), literal ''@'',
      re_plus (Class (\<lambda>c. alnum c \<or> c \<in> set ''.-'')), literal ''.'',
      Seq (re_times 2 (Class is_letter)) (Star (Class is_letter))]"

definition phone_sep :: regex where
  "phone_sep = re_opt (Class (\<lambda>c. c \<in> set ''-.'' \<or> re_space c))"

definition phoneRe :: regex where
  "phoneRe = re_seq
     [Word_edge,
      re_opt (re_seq [re_opt (literal ''+''), re_between 1 3 digit, phone_sep]),
      re_opt (re_seq [re_opt (literal ''(''), re_between 2 4 digit, re_opt (literal '')''), phone_sep]),
      re_between 3 4 digit, phone_sep, re_between 3 4 digit, Word_edge]"

section \<open>Messages\<close>

definition guard_text :: "json option \<Rightarrow> string" where
  "guard_text v =
     (case v of
        Some (J_str s) \<Rightarrow> s
      | Some (J_arr ps) \<Rightarrow>
          concat (map (\<lambda>p. case as_obj p of
              Some m \<Rightarrow> (case m ''text'' of Some (J_str s) \<Rightarrow> s @ '' '' | _ \<Rightarrow> [])
            | None \<Rightarrow> []) ps)
      | _ \<Rightarrow> [])"

definition body_messages :: "json \<Rightarrow> json list" where
  "body_messages body = (case as_obj body of Some m \<Rightarrow> elems (arr_field m ''messages'') | None \<Rightarrow> [])"

definition suspicious :: "json \<Rightarrow> bool" where
  "suspicious msg =
     (case as_obj msg of
        None \<Rightarrow> False
      | Some m \<Rightarrow> str_field m ''role'' \<noteq> ''system'' \<and> MatchString injectRe (guard_text (m ''content'')))"

definition ScanMessages :: "guardrails \<Rightarrow> json \<Rightarrow> bool \<times> string" where
  "ScanMessages g body =
     (if gd_enabled g \<and> list_ex suspicious (body_messages body)
      then (False, ''prompt_injection_pattern'') else (False, []))"

definition redact_text :: "string \<Rightarrow> string" where
  "redact_text c =
     ReplaceAllString phoneRe (ReplaceAllString emailRe c ''[REDACTED_EMAIL]'') ''[REDACTED_PHONE]''"

definition redact_message :: "json \<Rightarrow> json \<times> nat" where
  "redact_message msg =
     (case msg of
        J_obj kvs \<Rightarrow>
          (case map_of kvs ''content'' of
             Some (J_str c) \<Rightarrow>
               if redact_text c = c then (msg, 0)
               else (J_obj (AList.update ''content'' (J_str (redact_text c)) kvs), 1)
           | _ \<Rightarrow> (msg, 0))
      | _ \<Rightarrow> (msg, 0))"

definition RedactPII :: "guardrails \<Rightarrow> json \<Rightarrow> json \<times> nat" where
  "RedactPII g body =
     (if \<not> (gd_enabled g \<and> gd_redact g) then (body, 0)
      else case body of
             J_obj kvs \<Rightarrow>
               (case map_of kvs ''messages'' of
                  Some (J_arr msgs) \<Rightarrow>
                    (J_obj (AList.update ''messages'' (J_arr (map (fst \<circ> redact_message) msgs)) kvs),
                     sum_list (map (snd \<circ> redact_message) msgs))
                | _ \<Rightarrow> (body, 0))
           | _ \<Rightarrow> (body, 0))"

section \<open>Redaction\<close>

text \<open>An address has an at sign and no brackets, so it avoids both replacements.\<close>

definition email_char :: "char \<Rightarrow> bool" where
  "email_char c \<longleftrightarrow> alnum c \<or> c \<in> set ''._%+-@''"

lemma email_words:
  assumes "word_of emailRe w"
  shows "list_all email_char w" "CHR ''@'' \<in> set w"
proof -
  have "uses_only email_char emailRe"
    by (simp add: emailRe_def re_seq_def re_plus_def literal_def re_times_def email_char_def alnum_def numeral_2_eq_2)
  from uses_only_word [OF assms this] show "list_all email_char w" by (simp add: list_all_iff)
  show "CHR ''@'' \<in> set w"
    using assms by (auto simp: emailRe_def re_seq_def word_of_simps literal_def)
qed

lemma email_avoids:
  assumes "word_of emailRe w" "t \<in> {''[REDACTED_EMAIL]'', ''[REDACTED_PHONE]''}"
  shows "avoids t w"
proof -
  have "\<not> email_char (CHR ''['')" "\<not> email_char (CHR '']'')"
    by (simp_all add: email_char_def alnum_def is_letter_def char_range_def)
  then have "CHR ''['' \<notin> set w" "CHR '']'' \<notin> set w" using email_words(1) [OF assms(1)] by (auto simp: list_all_iff)
  moreover have "t \<noteq> x @ w @ y" for x y
  proof
    assume "t = x @ w @ y"
    with email_words(2) [OF assms(1)] have "CHR ''@'' \<in> set t" by simp
    with assms(2) show False by auto
  qed
  moreover have "w \<noteq> []" using email_words(2) [OF assms(1)] by auto
  ultimately show ?thesis using assms(2) by (auto simp: avoids_def)
qed

lemma plain_email: "plain emailRe"
  by (simp add: emailRe_def re_seq_def re_plus_def literal_def re_times_def numeral_2_eq_2)

lemma no_email_in_redacted: "\<not> MatchString emailRe (redact_text c)"
proof
  assume "MatchString emailRe (redact_text c)"
  then obtain x w y where w: "redact_text c = x @ w @ y" "word_of emailRe w"
    using MatchString_word [OF plain_email] by blast
  have "\<exists>x' y'. replace_from emailRe ''[REDACTED_EMAIL]'' ([], c) = x' @ w @ y'"
    using replace_no_new [of phoneRe "''[REDACTED_PHONE]''" "([], ReplaceAllString emailRe c ''[REDACTED_EMAIL]'')" x w y]
      w email_avoids [OF w(2)]
    by (auto simp: redact_text_def ReplaceAllString_def)
  moreover have "\<not> word_of emailRe []" using email_words(2) by fastforce
  ultimately show False
    using replace_none_left [OF plain_email _ w(2)] email_avoids [OF w(2)] by blast
qed

text \<open>
  C26: Redaction is complete for the texts it looks at. With redaction on no message of the body
  has a plain text content in which an electronic address could still be found, replacing the
  numbers after the addresses included.
\<close>

theorem no_email_survives:
  "list_all (\<lambda>msg. case as_obj msg of
        None \<Rightarrow> True
      | Some m \<Rightarrow> (case m ''content'' of Some (J_str c) \<Rightarrow> \<not> MatchString emailRe c | _ \<Rightarrow> True))
     (body_messages (fst (RedactPII (SetRedactPII True default_guardrails) body)))"
proof -
  have clean: "case as_obj (fst (redact_message msg)) of
        None \<Rightarrow> True
      | Some m \<Rightarrow> (case m ''content'' of Some (J_str c) \<Rightarrow> \<not> MatchString emailRe c | _ \<Rightarrow> True)" for msg
    using no_email_in_redacted
    by (auto simp: redact_message_def as_obj_def AList.update_conv' split: json.splits option.splits) metis
  have "body_messages (fst (RedactPII (SetRedactPII True default_guardrails) body)) =
      map (fst \<circ> redact_message) (body_messages body)"
    by (auto simp: RedactPII_def SetRedactPII_def default_guardrails_def body_messages_def as_obj_def arr_field_def
        AList.update_conv' split: json.splits option.splits)
  with clean show ?thesis by (simp add: list_all_iff)
qed

text \<open>The scan never blocks, and contents in parts are left alone by the redaction.\<close>

lemma scan_never_blocks: "fst (ScanMessages g body) = False"
  by (simp add: ScanMessages_def)

lemma parts_not_redacted:
  "redact_message (J_obj [(''role'', J_str r), (''content'', J_arr ps)]) =
     (J_obj [(''role'', J_str r), (''content'', J_arr ps)], 0)"
  by (simp add: redact_message_def)

end
