(* ===== verification/Quota.thy ===== *)
theory Quota
  imports Complex_Main Prelude
begin

text \<open>
  The live usage counters per upstream family, \<open>internal/quota/quota.go\<close>. Families are strings,
  since the wrapper for handlers takes any. A day is its number since the epoch, of which the
  code's date string is a rendering.
\<close>

record quota_snapshot =
  qs_Family :: string
  qs_Accounts :: int
  qs_Healthy :: int
  qs_Disabled :: int
  qs_CreditsRemain :: rat
  qs_CreditsLimit :: rat
  qs_TokensToday :: int
  qs_RequestsToday :: int
  qs_CostUSDToday :: rat
  qs_CircuitOpen :: bool
  qs_UpdatedAt :: "gotime option"

definition empty_snapshot :: quota_snapshot where
  "empty_snapshot = \<lparr>qs_Family = [], qs_Accounts = 0, qs_Healthy = 0, qs_Disabled = 0, qs_CreditsRemain = 0,
     qs_CreditsLimit = 0, qs_TokensToday = 0, qs_RequestsToday = 0, qs_CostUSDToday = 0,
     qs_CircuitOpen = False, qs_UpdatedAt = None\<rparr>"

record quota_tracker =
  qt_snap :: "string \<rightharpoonup> quota_snapshot"
  qt_day :: int

definition dayKey :: "gotime \<Rightarrow> int" where
  "dayKey now = now div (24 * hour)"

definition quota_New :: "gotime \<Rightarrow> quota_tracker" where
  "quota_New now = \<lparr>qt_snap = Map.empty, qt_day = dayKey now\<rparr>"

definition new_day :: "quota_snapshot \<Rightarrow> quota_snapshot" where
  "new_day s = s\<lparr>qs_TokensToday := 0, qs_RequestsToday := 0, qs_CostUSDToday := 0\<rparr>"

definition rollDay :: "gotime \<Rightarrow> quota_tracker \<Rightarrow> quota_tracker" where
  "rollDay now t =
     (if dayKey now = qt_day t then t
      else t\<lparr>qt_day := dayKey now, qt_snap := map_option new_day \<circ> qt_snap t\<rparr>)"

definition update_family ::
  "gotime \<Rightarrow> string \<Rightarrow> (quota_snapshot \<Rightarrow> quota_snapshot) \<Rightarrow> quota_tracker \<Rightarrow> quota_tracker" where
  "update_family now f g t0 =
     (let t = rollDay now t0;
          s = (case qt_snap t f of Some s \<Rightarrow> s | None \<Rightarrow> empty_snapshot)
      in t\<lparr>qt_snap := (qt_snap t)(f \<mapsto> (g (s\<lparr>qs_Family := f\<rparr>))\<lparr>qs_UpdatedAt := Some now\<rparr>)\<rparr>)"

definition SetPool ::
  "gotime \<Rightarrow> string \<Rightarrow> int \<Rightarrow> int \<Rightarrow> int \<Rightarrow> bool \<Rightarrow> quota_tracker \<Rightarrow> quota_tracker" where
  "SetPool now f accounts healthy disabled circuitOpen =
     update_family now f (\<lambda>s. s\<lparr>qs_Accounts := accounts, qs_Healthy := healthy, qs_Disabled := disabled,
       qs_CircuitOpen := circuitOpen\<rparr>)"

definition SetCredits :: "gotime \<Rightarrow> string \<Rightarrow> rat \<Rightarrow> rat \<Rightarrow> quota_tracker \<Rightarrow> quota_tracker" where
  "SetCredits now f remain limit =
     update_family now f (\<lambda>s. s\<lparr>qs_CreditsRemain := remain, qs_CreditsLimit := limit\<rparr>)"

definition AddUsage :: "gotime \<Rightarrow> string \<Rightarrow> int \<Rightarrow> rat \<Rightarrow> quota_tracker \<Rightarrow> quota_tracker" where
  "AddUsage now f tokens usd =
     update_family now f (\<lambda>s. s\<lparr>qs_TokensToday := wrap64 (qs_TokensToday s + tokens),
       qs_RequestsToday := wrap64 (qs_RequestsToday s + 1), qs_CostUSDToday := qs_CostUSDToday s + usd\<rparr>)"

definition quota_All :: "quota_tracker \<Rightarrow> quota_snapshot list" where
  "quota_All t =
     map (\<lambda>f. case qt_snap t f of Some s \<Rightarrow> s | None \<Rightarrow> empty_snapshot\<lparr>qs_Family := f\<rparr>)
       [''grok'', ''codebuddy'', ''cloudflare'']"

definition Preferable :: "string \<Rightarrow> quota_tracker \<Rightarrow> bool" where
  "Preferable f t =
     (case qt_snap t f of
        None \<Rightarrow> True
      | Some s \<Rightarrow>
        if qs_CircuitOpen s then False
        else if qs_Accounts s > 0 \<and> qs_Healthy s = 0 then False
        else if qs_CreditsLimit s > 0 \<and> qs_CreditsRemain s \<le> 0 then False
        else True)"

section \<open>Histories\<close>

datatype quota_op =
    Set_pool string int int int bool
  | Set_credits string rat rat
  | Add_usage string int rat

fun quota_step :: "gotime \<times> quota_op \<Rightarrow> quota_tracker \<Rightarrow> quota_tracker" where
  "quota_step (now, Set_pool f a h d c) t = SetPool now f a h d c t"
| "quota_step (now, Set_credits f r l) t = SetCredits now f r l t"
| "quota_step (now, Add_usage f n usd) t = AddUsage now f n usd t"

text \<open>
  What the counters should be: of the operations since the day last changed, newest first in
  \<open>ops\<close>, the usages of the family.
\<close>

definition today :: "(gotime \<times> quota_op) list \<Rightarrow> (gotime \<times> quota_op) list" where
  "today ops = (case ops of [] \<Rightarrow> [] | (now, _) # _ \<Rightarrow> takeWhile (\<lambda>(n, _). dayKey n = dayKey now) ops)"

definition usages :: "string \<Rightarrow> (gotime \<times> quota_op) list \<Rightarrow> (int \<times> rat) list" where
  "usages f ops =
     List.map_filter (\<lambda>(_, x). case x of Add_usage g n usd \<Rightarrow> if g = f then Some (n, usd) else None | _ \<Rightarrow> None) ops"

definition counters :: "string \<Rightarrow> quota_tracker \<Rightarrow> int \<times> int \<times> rat" where
  "counters f t =
     (case qt_snap t f of None \<Rightarrow> (0, 0, 0) | Some s \<Rightarrow> (qs_TokensToday s, qs_RequestsToday s, qs_CostUSDToday s))"

definition totals :: "(int \<times> rat) list \<Rightarrow> int \<times> int \<times> rat" where
  "totals us = (wrap64 (sum_list (map fst us)), wrap64 (int (length us)), sum_list (map snd us))"

lemma wrap64_add: "wrap64 (wrap64 a + b) = wrap64 (a + b)"
  unfolding wrap64_def by (simp add: mod_simps algebra_simps)

lemma totals_Cons:
  "totals ((n, u) # us) = (case totals us of (a, b, c) \<Rightarrow> (wrap64 (a + n), wrap64 (b + 1), c + u))"
  using wrap64_add [of _ n] wrap64_add [of _ 1] by (simp add: totals_def add.commute)

lemma totals_Nil [simp]: "totals [] = (0, 0, 0)"
  by (simp add: totals_def wrap64_def)

lemma counters_roll: "counters f (rollDay now t) = (if dayKey now = qt_day t then counters f t else (0, 0, 0))"
  by (auto simp: counters_def rollDay_def new_day_def split: option.split)

lemma counters_step:
  "counters f (quota_step (now, x) t) =
     (case counters f (rollDay now t) of (a, b, c) \<Rightarrow>
        case x of Add_usage g n usd \<Rightarrow> if g = f then (wrap64 (a + n), wrap64 (b + 1), c + usd) else (a, b, c)
                | _ \<Rightarrow> (a, b, c))"
  by (cases x)
     (auto simp: counters_def update_family_def SetPool_def SetCredits_def AddUsage_def empty_snapshot_def Let_def
       split: option.split)

lemma day_step: "qt_day (quota_step (now, x) t) = dayKey now"
  by (cases x) (auto simp: update_family_def SetPool_def SetCredits_def AddUsage_def rollDay_def Let_def)

lemma usages_Cons:
  "usages f ((now, x) # ops) =
     (case x of Add_usage g n usd \<Rightarrow> if g = f then (n, usd) # usages f ops else usages f ops | _ \<Rightarrow> usages f ops)"
  by (auto simp: usages_def List.map_filter_simps split: quota_op.split)

text \<open>
  Usage is counted by the day: after any history the counters of a family are the totals of its
  usages since the last change of the day, whatever the clock did.
\<close>

theorem quota_counts_the_day:
  "counters f (foldr quota_step ops (quota_New now0)) = totals (usages f (today ops))"
proof -
  have "counters f (foldr quota_step ops (quota_New now0)) = totals (usages f (today ops)) \<and>
      (\<forall>now x rest. ops = (now, x) # rest \<longrightarrow> qt_day (foldr quota_step ops (quota_New now0)) = dayKey now)"
  proof (induction ops)
    case Nil
    then show ?case by (simp add: counters_def quota_New_def today_def usages_def List.map_filter_simps)
  next
    case (Cons op ops)
    obtain now x where op: "op = (now, x)" by (cases op)
    let ?t = "foldr quota_step ops (quota_New now0)"
    have "counters f (rollDay now ?t) = totals (usages f (takeWhile (\<lambda>(n, _). dayKey n = dayKey now) ops))"
    proof (cases ops)
      case Nil
      then show ?thesis by (simp add: counters_def rollDay_def quota_New_def usages_def List.map_filter_simps)
    next
      case (Cons a rest)
      obtain n y where "a = (n, y)" by (cases a)
      with Cons Cons.IH show ?thesis
        by (cases "dayKey n = dayKey now") (auto simp: counters_roll today_def usages_def List.map_filter_simps)
    qed
    then show ?case
      by (auto simp: op counters_step day_step today_def usages_Cons totals_Cons split: quota_op.split prod.split)
  qed
  then show ?thesis ..
qed

text \<open>Reading does not look at the clock: until the next change yesterday's counters are shown as today's.\<close>

lemma stale_after_midnight:
  "qs_TokensToday (quota_All (AddUsage now ''grok'' 7 1 (quota_New now)) ! 0) = 7"
  by (simp add: quota_All_def AddUsage_def update_family_def rollDay_def quota_New_def empty_snapshot_def wrap64_def Let_def)

end
