(* ===== verification/BoundedLog.thy ===== *)
theory BoundedLog
  imports Prelude "HOL-Library.Sublist"
begin

text \<open>
  Buffers that keep the last entries: the interface \<open>bounded_log\<close> states what the log ring of the tunnel
  manager, the live console and the session memory have in common, and what follows for whole
  histories of insertions. Each is interpreted in the theory of its component.
\<close>

definition last_n :: "nat \<Rightarrow> 'a list \<Rightarrow> 'a list" where
  "last_n n xs = drop (length xs - n) xs"

lemma last_n_rev: "last_n n xs = rev (take n (rev xs))"
  by (simp add: last_n_def rev_take)

lemma last_n_snoc: "last_n n (last_n n xs @ [x]) = last_n n (xs @ [x])"
  by (cases n) (simp_all add: last_n_rev)

lemma length_last_n [simp]: "length (last_n n xs) = min (length xs) n"
  by (simp add: last_n_def)

lemma last_n_all [simp]: "length xs \<le> n \<Longrightarrow> last_n n xs = xs"
  by (simp add: last_n_def)

lemma last_n_nth: "i < min (length xs) n \<Longrightarrow> last_n n xs ! i = xs ! (length xs - min (length xs) n + i)"
  by (auto simp: last_n_def min_def)

lemma last_n_map: "last_n n (map f xs) = map f (last_n n xs)"
  by (simp add: last_n_def drop_map)

text \<open>A send on a buffered channel in a \<open>select\<close> with a default: dropped when the channel is full.\<close>

definition offer :: "nat \<Rightarrow> 'a \<Rightarrow> 'a list \<Rightarrow> 'a list" where
  "offer n x q = (if length q < n then q @ [x] else q)"

lemma offer_bounded [intro]: "length q \<le> n \<Longrightarrow> length (offer n x q) \<le> n"
  by (simp add: offer_def)

lemma subseq_offer: "subseq q xs \<Longrightarrow> subseq (offer n x q) (xs @ [x])"
  by (auto simp: offer_def intro: list_emb_append_mono)

text \<open>
  \<open>add\<close> takes an input and stores \<open>stored x b\<close>, which may depend on the buffer; \<open>entries\<close> is what a
  reader sees, oldest first, and \<open>cap\<close> the bound the buffer was made with.
\<close>

locale bounded_log =
  fixes add :: "'x \<Rightarrow> 'b \<Rightarrow> 'b"
    and entries :: "'b \<Rightarrow> 'e list"
    and stored :: "'x \<Rightarrow> 'b \<Rightarrow> 'e"
    and cap :: "'b \<Rightarrow> nat"
    and ok :: "'b \<Rightarrow> bool"
  assumes entries_add: "ok b \<Longrightarrow> entries (add x b) = last_n (cap b) (entries b @ [stored x b])"
    and ok_add: "ok b \<Longrightarrow> ok (add x b)"
    and cap_add: "ok b \<Longrightarrow> cap (add x b) = cap b"
begin

text \<open>What would be kept without a bound.\<close>

fun history :: "'x list \<Rightarrow> 'b \<Rightarrow> 'e list" where
  "history [] b = []"
| "history (x # xs) b = stored x b # history xs (add x b)"

lemma length_history [simp]: "length (history xs b) = length xs"
  by (induction xs arbitrary: b) simp_all

lemma history_map: "(\<And>x b. stored x b = f x) \<Longrightarrow> history xs b = map f xs"
  by (induction xs arbitrary: b) simp_all

lemma ok_fold: "ok b \<Longrightarrow> ok (fold add xs b)"
  by (induction xs arbitrary: b) (simp_all add: ok_add)

lemma cap_fold: "ok b \<Longrightarrow> cap (fold add xs b) = cap b"
  by (induction xs arbitrary: b) (simp_all add: ok_add cap_add)

lemma last_n_absorb: "last_n n (last_n n xs @ ys) = last_n n (xs @ ys)"
  by (auto simp: last_n_rev take_append)

lemma entries_fold:
  "ok b \<Longrightarrow> xs \<noteq> [] \<Longrightarrow> entries (fold add xs b) = last_n (cap b) (entries b @ history xs b)"
proof (induction xs arbitrary: b)
  case (Cons x xs)
  show ?case
  proof (cases "xs = []")
    case True
    with Cons.prems show ?thesis by (simp add: entries_add)
  next
    case False
    with Cons show ?thesis
      by (simp add: ok_add cap_add entries_add last_n_absorb)
  qed
qed simp

lemma entries_bounded:
  assumes "ok b" and "length (entries b) \<le> cap b"
  shows "length (entries (fold add xs b)) \<le> cap b"
  using assms by (cases "xs = []") (simp_all add: entries_fold)

lemma entries_fold_bounded:
  assumes "ok b" and "length (entries b) \<le> cap b"
  shows "entries (fold add xs b) = last_n (cap b) (entries b @ history xs b)"
  using assms by (cases "xs = []") (simp_all add: entries_fold)

text \<open>Nothing is lost while the entries fit.\<close>

lemma entries_all:
  assumes "ok b" and "length (entries b) + length xs \<le> cap b"
  shows "entries (fold add xs b) = entries b @ history xs b"
  using assms by (simp add: entries_fold_bounded)

end

end
