(* ===== verification/Memory.thy ===== *)
theory Memory
  imports BoundedLog
begin

text \<open>
  The session memory of agents, \<open>internal/memory/memory.go\<close>: the last so many notes, searched from
  the newest. \<open>date\<close> is the day of the clock as eight digits.
\<close>

record memory_item =
  mi_ID :: string
  mi_Key :: string
  mi_Content :: string
  mi_CreatedAt :: gotime

record memory_store =
  ms_items :: "memory_item list"
  ms_max :: int
  ms_seq :: int

definition memory_New :: "int \<Rightarrow> memory_store" where
  "memory_New m = \<lparr>ms_items = [], ms_max = (if m \<le> 0 then 200 else m), ms_seq = 0\<rparr>"

definition new_item :: "string \<Rightarrow> gotime \<Rightarrow> int \<Rightarrow> string \<Rightarrow> string \<Rightarrow> memory_item" where
  "new_item date now seq key content =
     \<lparr>mi_ID = date @ ''-'' @ show_int seq, mi_Key = trim_space key, mi_Content = trim_space content, mi_CreatedAt = now\<rparr>"

definition memory_Add ::
  "string \<Rightarrow> gotime \<Rightarrow> string \<Rightarrow> string \<Rightarrow> memory_store \<Rightarrow> memory_item \<times> memory_store" where
  "memory_Add date now key content s =
     (let seq = ms_seq s + 1;
          it = new_item date now seq key content;
          items = ms_items s @ [it];
          n = length items
      in (it, s\<lparr>ms_seq := seq, ms_items := (if int n > ms_max s then drop (nat (int n - ms_max s)) items else items)\<rparr>))"

definition item_hit :: "string \<Rightarrow> memory_item \<Rightarrow> bool" where
  "item_hit q it \<longleftrightarrow> q = [] \<or> str_contains (to_lower (mi_Key it @ '' '' @ mi_Content it)) q"

text \<open>The loop from the newest note down, while there are fewer hits than the limit.\<close>

fun search_loop :: "nat \<Rightarrow> string \<Rightarrow> memory_item list \<Rightarrow> memory_item list \<Rightarrow> memory_item list" where
  "search_loop limit q [] out = out"
| "search_loop limit q (it # newer_first) out =
     (if length out < limit then search_loop limit q newer_first (if item_hit q it then out @ [it] else out) else out)"

definition memory_Search :: "string \<Rightarrow> int \<Rightarrow> memory_store \<Rightarrow> memory_item list" where
  "memory_Search q0 limit0 s =
     (let limit = (if limit0 \<le> 0 then 10 else limit0); q = to_lower (trim_space q0)
      in search_loop (nat limit) q (rev (ms_items s)) [])"

definition memory_Stats :: "memory_store \<Rightarrow> int \<times> int" where
  "memory_Stats s = (int (length (ms_items s)), ms_max s)"

section \<open>The store against the list of all notes\<close>

type_synonym memo = "string \<times> gotime \<times> string \<times> string"

definition add_memo :: "memo \<Rightarrow> memory_store \<Rightarrow> memory_store" where
  "add_memo n s = (case n of (date, now, key, content) \<Rightarrow> snd (memory_Add date now key content s))"

definition all_memos :: "memo list \<Rightarrow> memory_item list" where
  "all_memos ns = map (\<lambda>(i, date, now, key, content). new_item date now (int i + 1) key content) (enumerate 0 ns)"

lemma search_loop_spec: "search_loop n q its out = out @ take (n - length out) (filter (item_hit q) its)"
proof (induction n q its out rule: search_loop.induct)
  case (2 n q it its out)
  show ?case
  proof (cases "length out < n")
    case True
    then have "n - length out = Suc (n - Suc (length out))" by simp
    with 2 [OF True] True show ?thesis by simp
  qed simp
qed simp

lemma add_memo_frame [simp]:
  "ms_seq (add_memo n s) = ms_seq s + 1" "ms_max (add_memo n s) = ms_max s"
  by (cases n; simp add: add_memo_def memory_Add_def Let_def)+

lemma add_memo_items:
  assumes "0 \<le> ms_max s"
  shows "ms_items (add_memo (date, now, key, content) s) =
      last_n (nat (ms_max s)) (ms_items s @ [new_item date now (ms_seq s + 1) key content])"
proof -
  obtain k where k: "ms_max s = int k" using assms by (metis nonneg_eq_int)
  have "nat (1 + int n - int k) = Suc n - k" for n by simp
  then show ?thesis by (simp add: add_memo_def memory_Add_def Let_def last_n_def k)
qed

text \<open>
  The memory as a bounded log; a note is stored with the number it is given, which the store keeps.
\<close>

interpretation memory_log: bounded_log add_memo ms_items
  "\<lambda>(date, now, key, content) s. new_item date now (ms_seq s + 1) key content" "\<lambda>s. nat (ms_max s)" "\<lambda>s. 0 \<le> ms_max s"
  by unfold_locales (auto simp: add_memo_items)

lemma memo_history:
  "0 \<le> ms_seq s \<Longrightarrow> memory_log.history ns s =
     map (\<lambda>(i, date, now, key, content). new_item date now (int i + 1) key content) (enumerate (nat (ms_seq s)) ns)"
proof (induction ns arbitrary: s)
  case (Cons n ns)
  obtain k where k: "ms_seq s = int k" using Cons.prems by (metis nonneg_eq_int)
  have "nat (int k + 1) = Suc k" by simp
  with Cons.IH [of "add_memo n s"] k show ?case by (cases n) simp
qed simp

text \<open>
  The store holds the last notes of the whole history, and a search finds the newest of those that
  match, newest first.
\<close>

theorem memory_is_last_notes:
  "ms_items (fold add_memo ns (memory_New m)) = last_n (nat (if m \<le> 0 then 200 else m)) (all_memos ns) \<and>
   memory_Search q l (fold add_memo ns (memory_New m)) =
     take (nat (if l \<le> 0 then 10 else l))
       (filter (item_hit (to_lower (trim_space q))) (rev (last_n (nat (if m \<le> 0 then 200 else m)) (all_memos ns))))"
proof -
  let ?s = "memory_New m"
  have "ms_items (fold add_memo ns ?s) = last_n (nat (ms_max ?s)) (ms_items ?s @ memory_log.history ns ?s)"
    by (rule memory_log.entries_fold_bounded) (simp_all add: memory_New_def)
  moreover have "memory_log.history ns ?s = all_memos ns"
    by (simp add: memo_history all_memos_def memory_New_def)
  ultimately show ?thesis by (simp add: memory_Search_def search_loop_spec Let_def) (simp add: memory_New_def)
qed

end
