(* ===== verification/Csrf.thy ===== *)
theory Csrf
  imports Prelude
begin

text \<open>
  The guard against cross-site requests, \<open>csrf_guard.go\<close>: a middleware that looks at the headers of
  a request that changes state and is authenticated by the session cookie.
\<close>

record csrf_request =
  cq_Method :: string
  cq_has_cookie :: bool
  cq_Authorization :: string
  cq_Host :: string
  cq_Origin :: string
  cq_Referer :: string

definition before :: "string \<Rightarrow> string \<Rightarrow> string" where
  "before s p = (case str_index s p of Some i \<Rightarrow> take i s | None \<Rightarrow> s)"

definition sameOrigin :: "string \<Rightarrow> string \<Rightarrow> bool" where
  "sameOrigin originURL hostPort \<longleftrightarrow>
     (let rest = (case str_index originURL ''://'' of Some i \<Rightarrow> drop (i + 3) originURL | None \<Rightarrow> originURL)
      in before rest ''/'' = hostPort)"

datatype csrf_result = Csrf_next | Csrf_blocked

definition csrfGuard :: "csrf_request \<Rightarrow> csrf_result" where
  "csrfGuard r =
     (if cq_Method r = ''GET'' \<or> cq_Method r = ''HEAD'' \<or> cq_Method r = ''OPTIONS'' then Csrf_next
      else if \<not> cq_has_cookie r then Csrf_next
      else if has_prefix (cq_Authorization r) ''Bearer '' then Csrf_next
      else if cq_Origin r = [] \<and> cq_Referer r = [] then Csrf_next
      else if cq_Origin r \<noteq> [] then
        if sameOrigin (cq_Origin r) (cq_Host r) then Csrf_next else Csrf_blocked
      else if cq_Referer r \<noteq> [] \<and> \<not> sameOrigin (cq_Referer r) (cq_Host r) then Csrf_blocked
      else Csrf_next)"

lemma str_index_skip:
  "hd p \<notin> set u \<Longrightarrow> p \<noteq> [] \<Longrightarrow> str_index (u @ p @ v) p = Some (length u)"
proof (induction u)
  case Nil
  then show ?case using str_index_at [of "p @ v" p] by simp
next
  case (Cons c u)
  then show ?case by (cases p) (auto simp: has_prefix_Cons)
qed

lemma str_index_single: "c \<notin> set u \<Longrightarrow> str_index u [c] = None"
  by (induction u) (auto simp: has_prefix_def)

text \<open>
  The guard compares hosts: for an origin or a page address, whatever its scheme and path, the
  result is whether its host with the port is the one addressed.
\<close>

theorem same_origin_compares_hosts:
  assumes "CHR '':'' \<notin> set scheme" "CHR ''/'' \<notin> set host" "path = [] \<or> hd path = CHR ''/''"
  shows "sameOrigin (scheme @ ''://'' @ host @ path) target \<longleftrightarrow> host = target"
proof -
  have "str_index (scheme @ ''://'' @ host @ path) ''://'' = Some (length scheme)"
    using str_index_skip [of "''://''" scheme "host @ path"] assms(1) by simp
  moreover have "before (host @ path) ''/'' = host"
  proof (cases path)
    case Nil
    then show ?thesis using str_index_single [OF assms(2)] by (simp add: before_def)
  next
    case (Cons c p)
    then show ?thesis using str_index_skip [of "''/''" host p] assms(2,3) by (simp add: before_def)
  qed
  ultimately show ?thesis by (simp add: sameOrigin_def)
qed

theorem same_origin_compares_hosts_witness:
  "sameOrigin ''https://gw.example:20130/keys'' ''gw.example:20130'' \<and> \<not> sameOrigin ''https://evil.example/keys'' ''gw.example:20130''"
  using same_origin_compares_hosts [of "''https''" "''gw.example:20130''" "''/keys''" "''gw.example:20130''"]
    same_origin_compares_hosts [of "''https''" "''evil.example''" "''/keys''" "''gw.example:20130''"] by simp

text \<open>
  A request that changes state with the cookie alone and names a foreign origin never passes.
\<close>

lemma foreign_origin_blocked:
  assumes "cq_has_cookie r" "\<not> has_prefix (cq_Authorization r) ''Bearer ''"
    and "cq_Method r \<notin> {''GET'', ''HEAD'', ''OPTIONS''}" "cq_Origin r \<noteq> []" "\<not> sameOrigin (cq_Origin r) (cq_Host r)"
  shows "csrfGuard r = Csrf_blocked"
  using assms by (simp add: csrfGuard_def)

end
