(* ===== verification/Presets.thy ===== *)
theory Presets
  imports Combo
begin

text \<open>
  The combos installed at the start, \<open>internal/features/presets.go\<close>: each is added to the registry
  unless it is there, and a failure is logged and passed over.
\<close>

definition arrow :: string where "arrow = [CHR '' '', CHR 0xE2, CHR 0x86, CHR 0x92, CHR '' '']"

definition presets :: "combo list" where
  "presets =
     [\<lparr>cb_Name = ''auto'', cb_Strategy = ''auto'',
       cb_Models = [''grok-4.5'', ''cb/claude-sonnet-4.6'', ''cb/gpt-5'', ''@cf/meta/llama-3.3-70b-instruct-fp8-fast'',
         ''@cf/openai/gpt-oss-120b'', ''@cf/meta/llama-3.1-8b-instruct-fp8-fast'',
         ''@cf/google/gemma-4-26b-a4b-it'', ''@cf/meta/llama-3.2-3b-instruct''],
       cb_Description = ''4-tier auto: Grok/CB subscription'' @ arrow @ ''CB paid'' @ arrow @ ''CF cheap'' @ arrow @ ''CF free'',
       cb_CompressionMode = []\<rparr>,
      \<lparr>cb_Name = ''cheap'', cb_Strategy = ''cost'',
       cb_Models = [''@cf/meta/llama-3.2-1b-instruct'', ''@cf/meta/llama-3.2-3b-instruct'',
         ''@cf/ibm-granite/granite-4.0-h-micro'', ''@cf/meta/llama-3.1-8b-instruct-fp8-fast'', ''@cf/zai-org/glm-4.7-flash''],
       cb_Description = ''Cheapest CF-first routing'', cb_CompressionMode = []\<rparr>,
      \<lparr>cb_Name = ''coding'', cb_Strategy = ''priority'',
       cb_Models = [''cb/gpt-5.3-codex'', ''cb/claude-sonnet-4.6'', ''@cf/moonshotai/kimi-k2.7-code'',
         ''@cf/qwen/qwen2.5-coder-32b-instruct'', ''@cf/zai-org/glm-5.2''],
       cb_Description = ''Coding-optimized: CB codex/kimi'' @ arrow @ ''CF coder models'', cb_CompressionMode = []\<rparr>,
      \<lparr>cb_Name = ''cf-free'', cb_Strategy = ''fill_first'',
       cb_Models = [''@cf/meta/llama-3.2-3b-instruct'', ''@cf/meta/llama-3.1-8b-instruct-fp8-fast'',
         ''@cf/google/gemma-4-26b-a4b-it'', ''@cf/qwen/qwen3-30b-a3b-fp8'', ''@cf/openai/gpt-oss-20b''],
       cb_Description = ''Cloudflare Workers AI free/cheap pool only'', cb_CompressionMode = []\<rparr>,
      \<lparr>cb_Name = ''balanced'', cb_Strategy = ''latency'',
       cb_Models = [''@cf/meta/llama-3.1-8b-instruct-fp8-fast'', ''grok-4.5-low'', ''cb/gemini-2.5-flash'',
         ''@cf/zai-org/glm-4.7-flash''],
       cb_Description = ''Latency-optimized across families'', cb_CompressionMode = []\<rparr>]"

definition seed_combo :: "combo \<Rightarrow> store_reply \<Rightarrow> combo_registry \<Rightarrow> combo_registry \<times> combo_call list" where
  "seed_combo c st r = (if GetCombo (cb_Name c) r \<noteq> None then (r, []) else snd (AddCombo st c r))"

definition SeedDefaultCombos :: "(combo \<Rightarrow> store_reply) \<Rightarrow> combo_registry option \<Rightarrow> combo_registry option \<times> combo_call list" where
  "SeedDefaultCombos store reg =
     (case reg of
        None \<Rightarrow> (None, [])
      | Some r \<Rightarrow>
        (case fold (\<lambda>c (r, cs). let (r', cs') = seed_combo c (store c) r in (r', cs @ cs')) presets (r, []) of
           (r', cs) \<Rightarrow> (Some r', cs)))"

section \<open>What the seeding does\<close>

text \<open>An addition stores a combo of this shape as it is.\<close>

definition as_it_is :: "combo \<Rightarrow> bool" where
  "as_it_is c \<longleftrightarrow>
     trim_space (cb_Name c) = cb_Name c \<and> safe_name (cb_Name c) \<and> \<not> has_prefix (cb_Name c) ''combo/'' \<and>
     trim_space (cb_Strategy c) = cb_Strategy c \<and> cb_Strategy c \<in> set known_strategies \<and> cb_Strategy c \<noteq> [] \<and>
     clean_models (cb_Models c) = cb_Models c \<and> cb_Models c \<noteq> [] \<and> length (cb_Models c) \<le> 32 \<and>
     trim_space (cb_Description c) = cb_Description c"

lemma AddCombo_as_it_is: "as_it_is c \<Longrightarrow> AddCombo st c r = write_then st (Save_combo c) r (r(cb_Name c \<mapsto> c))"
  by (simp add: as_it_is_def AddCombo_def Let_def)

lemma presets_as_they_are: "list_all as_it_is presets" "distinct (map cb_Name presets)"
  by code_simp+

definition accepted :: "store_reply \<Rightarrow> bool" where
  "accepted st \<longleftrightarrow> (case st of Store_err _ \<Rightarrow> False | _ \<Rightarrow> True)"

lemma seed_combo_effect:
  "as_it_is c \<Longrightarrow>
   fst (seed_combo c st r) = (if r (cb_Name c) = None \<and> accepted st then r(cb_Name c \<mapsto> c) else r)"
  by (auto simp: seed_combo_def GetCombo_def AddCombo_as_it_is write_then_snd accepted_def split: store_reply.split)

lemma seed_fold:
  assumes "list_all as_it_is ps" "distinct (map cb_Name ps)"
  shows "fst (fold (\<lambda>c (r, cs). let (r', cs') = seed_combo c (store c) r in (r', cs @ cs')) ps (r, cs)) =
    (\<lambda>n. case r n of Some c \<Rightarrow> Some c | None \<Rightarrow> find (\<lambda>c. cb_Name c = n \<and> accepted (store c)) ps)"
  using assms
proof (induction ps arbitrary: r cs)
  case Nil
  then show ?case by (auto split: option.split)
next
  case (Cons p ps)
  have "find (\<lambda>c. cb_Name c = cb_Name p \<and> accepted (store c)) ps = None"
    using Cons.prems(2) by (auto simp: find_None_iff) (metis image_eqI)
  with Cons.prems Cons.IH [of "fst (seed_combo p (store p) r)"] show ?case
    by (auto simp: seed_combo_effect case_prod_beta Let_def fun_eq_iff split: option.split)
qed

text \<open>
  The combos the operator has are kept, and every preset that is missing is installed as written,
  unless the store refuses it.
\<close>

theorem seeding_fills_gaps:
  "fst (SeedDefaultCombos store (Some r)) =
     Some (\<lambda>n. case r n of Some c \<Rightarrow> Some c | None \<Rightarrow> find (\<lambda>c. cb_Name c = n \<and> accepted (store c)) presets)"
  using seed_fold [OF presets_as_they_are, of store r "[]"] by (simp add: SeedDefaultCombos_def case_prod_beta)

end
