(* ===== verification/TokenSaver.thy ===== *)
theory TokenSaver
  imports Json "HOL-Library.AList"
begin

text \<open>
  The token saver, \<open>internal/tokensaver\<close>: its switches, the directive it adds to the system message
  (\<open>tokensaver.go\<close>), and the trimming of old turns (\<open>headroom.go\<close>). Bodies are decoded JSON, changed
  in place by the code and returned here.
\<close>

section \<open>Switches\<close>

record saver_config =
  ts_Mode :: string
  ts_RTK :: bool
  ts_Headroom :: bool
  ts_Caveman :: bool
  ts_CavemanLevel :: int
  ts_CodeStyle :: bool

definition DefaultConfig :: saver_config where
  "DefaultConfig = \<lparr>ts_Mode = ''off'', ts_RTK = True, ts_Headroom = False, ts_Caveman = False,
     ts_CavemanLevel = 2, ts_CodeStyle = False\<rparr>"

definition saver_Set ::
  "string \<Rightarrow> bool \<Rightarrow> bool \<Rightarrow> bool \<Rightarrow> int \<Rightarrow> bool \<Rightarrow> saver_config \<Rightarrow> saver_config" where
  "saver_Set mode r headroom caveman cavemanLevel codeStyle c =
     c\<lparr>ts_Mode := mode, ts_RTK := r, ts_Headroom := headroom, ts_Caveman := caveman,
       ts_CavemanLevel := cavemanLevel, ts_CodeStyle := codeStyle\<rparr>"

definition AnyEnabled :: "saver_config \<Rightarrow> bool" where
  "AnyEnabled c \<longleftrightarrow> ts_RTK c \<or> ts_Headroom c \<or> ts_Caveman c \<or> ts_CodeStyle c"

text \<open>Loading from Redis; \<open>unmarshal\<close> decodes into a configuration with zero fields.\<close>

definition FromJSON :: "(string \<Rightarrow> saver_config option) \<Rightarrow> string \<Rightarrow> saver_config \<Rightarrow> saver_config" where
  "FromJSON unmarshal s c =
     (if s = [] then c
      else case unmarshal s of
             None \<Rightarrow> c
           | Some v \<Rightarrow>
             saver_Set (if ts_Mode v = [] then ''off'' else ts_Mode v) (ts_RTK v) (ts_Headroom v) (ts_Caveman v)
               (if ts_CavemanLevel v = 0 then 2 else ts_CavemanLevel v) (ts_CodeStyle v) c)"

section \<open>Directives\<close>

definition cavemanDirective :: string where
  "cavemanDirective = ''Reply in terse \"caveman speak\": use fewest words, drop articles and polite fluff, keep technical substance. Example: instead of \"I will now create the helper function that validates the input\", say \"make validate() input check\". Never omit code, paths, values, or the actual fix.''"

definition cavemanDirectiveLight :: string where
  "cavemanDirectiveLight = ''Reply tersely: skip greetings, summaries, and \"let me know if you need anything\". Get to the point in 1-2 sentences. Keep code, paths, and values intact.''"

definition cavemanDirectiveAggressive :: string where
  "cavemanDirectiveAggressive = ''MAXIMUM TERSeness. One sentence or less. No articles, no explanations, no sign-offs. Only raw code, commands, paths, or values. If you can't say it in 5 words, it doesn't need saying.''"

definition headroomDirective :: string where
  "headroomDirective = ''[CONTEXT-COMPRESS] Keep prior turns tight: reference established context instead of repeating it, drop redundant restatements, and avoid echoing the user's request back. Reuse shorthand for variables/paths already introduced. This saves context tokens without losing information.''"

definition codeStyleDirective :: string where
  "codeStyleDirective = ''Code like a lazy senior engineer: minimal diff, no speculative abstraction, no unused helpers, reuse existing utilities. Apply YAGNI: implement exactly what's asked, skip frameworks/config not needed. Prefer small, working changes over clever generality.''"

definition blank_line :: string where "blank_line = [CHR 10, CHR 10]"

definition cavemanDirectiveByLevel :: "int \<Rightarrow> string" where
  "cavemanDirectiveByLevel level =
     (if level = 1 then cavemanDirectiveLight
      else if level = 3 then cavemanDirectiveAggressive else cavemanDirective)"

definition Directive :: "saver_config \<Rightarrow> string" where
  "Directive c =
     (let b1 = (if ts_Headroom c then headroomDirective @ blank_line else []);
          b2 = b1 @ (if ts_Caveman c then cavemanDirectiveByLevel (ts_CavemanLevel c) @ blank_line else []);
          b3 = b2 @ (if ts_CodeStyle c then (if length b2 > 0 then [CHR 10] else []) @ codeStyleDirective else [])
      in trim_space b3)"

definition saver_tag :: string where "saver_tag = ''[TOKEN-SAVER]''"

definition is_role :: "string \<Rightarrow> json \<Rightarrow> bool" where
  "is_role r m \<longleftrightarrow> (case as_obj m of Some mm \<Rightarrow> str_field mm ''role'' = r | None \<Rightarrow> False)"

text \<open>The first system message with the directive added, if it is not there.\<close>

definition add_directive :: "string \<Rightarrow> json \<Rightarrow> json option" where
  "add_directive directive m =
     (case m of
        J_obj kvs \<Rightarrow>
          (let existing = str_field (map_of kvs) ''content''
           in if str_contains existing saver_tag then None
              else Some (J_obj (AList.update ''content''
                     (J_str ((if existing \<noteq> [] then existing @ blank_line else []) @ saver_tag @ '' '' @ directive)) kvs)))
      | _ \<Rightarrow> None)"

fun inject :: "string \<Rightarrow> json list \<Rightarrow> json list option" where
  "inject directive [] =
     map_option (\<lambda>m. [m]) (add_directive directive (J_obj [(''role'', J_str ''system''), (''content'', J_str [])]))"
| "inject directive (m # ms) =
     (if is_role ''system'' m then map_option (\<lambda>m'. m' # ms) (add_directive directive m)
      else map_option (\<lambda>ms'. m # ms') (inject directive ms))"

definition InjectDirective :: "json \<Rightarrow> string \<Rightarrow> json \<times> bool" where
  "InjectDirective body directive =
     (case body of
        J_obj kvs \<Rightarrow>
          (case map_of kvs ''messages'' of
             Some (J_arr msgs) \<Rightarrow>
               if directive = [] \<or> msgs = [] then (body, False)
               else (case inject directive msgs of
                       None \<Rightarrow> (body, False)
                     | Some msgs' \<Rightarrow> (J_obj (AList.update ''messages'' (J_arr msgs') kvs), True))
           | _ \<Rightarrow> (body, False))
      | _ \<Rightarrow> (body, False))"

section \<open>Trimming\<close>

definition estimateTokens :: "json_map \<Rightarrow> int" where
  "estimateTokens mm =
     (let content = str_field mm ''content'';
          content' = (if content \<noteq> [] then content
                      else case mm ''content'' of
                             Some (J_arr ps) \<Rightarrow>
                               concat (map (\<lambda>p. case as_obj p of Some m \<Rightarrow> str_field m ''text'' | None \<Rightarrow> []) ps)
                           | _ \<Rightarrow> [])
      in int (length content' div 4))"

text \<open>The message before a tool result, if it is one of the assistant.\<close>

fun call_before :: "json list \<Rightarrow> (json \<times> json_map) option" where
  "call_before [] = None"
| "call_before (m # _) =
     (case as_obj m of
        Some mm \<Rightarrow> if str_field mm ''role'' = ''assistant'' then Some (m, mm) else None
      | None \<Rightarrow> None)"

text \<open>The loop from the last message down; the list is reversed, so what is before comes next.\<close>

fun trim_back :: "int \<Rightarrow> json list \<Rightarrow> json list \<Rightarrow> int \<Rightarrow> int \<Rightarrow> json list \<times> int" where
  "trim_back keepLast [] kept count tokens = (kept, tokens)"
| "trim_back keepLast (m # ms) kept count tokens =
     (if count \<ge> keepLast then (kept, tokens)
      else case as_obj m of
             None \<Rightarrow> trim_back keepLast ms (m # kept) (count + 1) tokens
           | Some mm \<Rightarrow>
             (let tokens1 = tokens + estimateTokens mm in
              if str_field mm ''role'' = ''tool'' then
                (case call_before ms of
                   Some (a, amm) \<Rightarrow>
                     trim_back keepLast ms (a # m # kept) (count + 2) (tokens1 + estimateTokens amm)
                 | None \<Rightarrow> trim_back keepLast ms (m # kept) (count + 1) tokens1)
              else trim_back keepLast ms (m # kept) (count + 1) tokens1))"

definition smartTrim :: "json list \<Rightarrow> int \<Rightarrow> json list \<times> int" where
  "smartTrim rest keepLast = trim_back keepLast (rev rest) [] 0 0"

definition buildHeadroomSummary :: "int \<Rightarrow> int \<Rightarrow> string" where
  "buildHeadroomSummary dropped remainingTokens =
     ''[HEADROOM] Compressed '' @ show_int dropped @ '' older turn(s)'' @ '' to fit context budget. '' @
     ''Continuing from recent messages. '' @ ''~'' @ show_int remainingTokens @ '' tokens in retained history.''"

definition headroom_messages :: "int \<Rightarrow> json list \<Rightarrow> (json list \<times> int) option" where
  "headroom_messages keepLast msgs =
     (let system = filter (is_role ''system'') msgs;
          rest = filter (\<lambda>m. \<not> is_role ''system'' m) msgs;
          dropped = int (length rest) - keepLast;
          (kept, tokens) = smartTrim rest keepLast;
          marker = J_obj [(''role'', J_str ''system''), (''content'', J_str (buildHeadroomSummary dropped tokens))]
      in if int (length msgs) \<le> keepLast + 2 \<or> int (length rest) \<le> keepLast then None
         else Some (system @ [marker] @ kept, dropped))"

definition CompressHeadroom :: "json \<Rightarrow> int \<Rightarrow> json \<times> int" where
  "CompressHeadroom body keepLast0 =
     (let keepLast = (if keepLast0 \<le> 0 then 10 else keepLast0)
      in case body of
           J_obj kvs \<Rightarrow>
             (case map_of kvs ''messages'' of
                Some (J_arr msgs) \<Rightarrow>
                  (case headroom_messages keepLast msgs of
                     None \<Rightarrow> (body, 0)
                   | Some (out, dropped) \<Rightarrow> (J_obj (AList.update ''messages'' (J_arr out) kvs), dropped))
              | _ \<Rightarrow> (body, 0))
         | _ \<Rightarrow> (body, 0))"

section \<open>Injection\<close>

lemma add_directive_twice:
  assumes "is_role ''system'' m" "add_directive d m = Some m'"
  shows "is_role ''system'' m'" "add_directive d' m' = None"
proof -
  obtain kvs where m: "m = J_obj kvs" using assms(2) by (cases m) (auto simp: add_directive_def)
  define c where "c = (if str_field (map_of kvs) ''content'' \<noteq> [] then str_field (map_of kvs) ''content'' @ blank_line else [])"
  have m': "m' = J_obj (AList.update ''content'' (J_str (c @ saver_tag @ '' '' @ d)) kvs)"
    using assms(2) by (auto simp: m add_directive_def c_def Let_def split: if_splits)
  show "is_role ''system'' m'"
    using assms(1) by (simp add: m m' is_role_def as_obj_def AList.update_conv' str_field_def)
  show "add_directive d' m' = None"
    using str_contains_middle [of c saver_tag "'' '' @ d"]
    by (simp add: m' add_directive_def AList.update_conv' str_field_def)
qed

lemma inject_twice: "inject d ms = Some ms' \<Longrightarrow> inject d' ms' = None"
proof (induction d ms arbitrary: ms' rule: inject.induct)
  case (1 d)
  let ?m = "J_obj [(''role'', J_str ''system''), (''content'', J_str [])]"
  obtain m' where m': "add_directive d ?m = Some m'" "ms' = [m']" using 1 by auto
  have "is_role ''system'' ?m" by (simp add: is_role_def as_obj_def str_field_def)
  then show ?case using add_directive_twice [OF _ m'(1)] by (simp add: m'(2))
next
  case (2 d m ms)
  show ?case
  proof (cases "is_role ''system'' m")
    case True
    then obtain m' where "add_directive d m = Some m'" "ms' = m' # ms" using 2 by auto
    with True show ?thesis using add_directive_twice [OF True] by simp
  next
    case False
    then show ?thesis using 2 by auto
  qed
qed

text \<open>
  Injecting a directive again changes nothing and says so.
\<close>

theorem injection_idempotent:
  "InjectDirective (fst (InjectDirective body d)) d = (fst (InjectDirective body d), False)"
proof (cases "snd (InjectDirective body d)")
  case True
  then obtain kvs msgs msgs' where b: "body = J_obj kvs" "map_of kvs ''messages'' = Some (J_arr msgs)" "d \<noteq> []"
      "inject d msgs = Some msgs'"
    by (auto simp: InjectDirective_def split: json.splits option.splits if_splits)
  moreover from b(4) have "msgs' \<noteq> []"
    by (cases msgs) (auto split: if_splits)
  ultimately show ?thesis using inject_twice [OF b(4), of d]
    by (auto simp: InjectDirective_def AList.update_conv' split: if_splits)
next
  case False
  then have "InjectDirective body d = (body, False)"
    by (auto simp: InjectDirective_def split: json.splits option.splits if_splits)
  then show ?thesis by simp
qed

text \<open>
  A system message whose content is a list of parts is replaced by the directive, and a
  conversation without a system message gets one at its end.
\<close>

lemma system_parts_lost:
  "InjectDirective (J_obj [(''messages'', J_arr [J_obj [(''role'', J_str ''system''), (''content'', J_arr ps)], m])]) (x # d) =
     (J_obj [(''messages'', J_arr [J_obj [(''role'', J_str ''system''), (''content'', J_str (saver_tag @ '' '' @ x # d))], m])], True)"
  by (simp add: InjectDirective_def is_role_def as_obj_def str_field_def add_directive_def Let_def str_contains_def saver_tag_def)

lemma new_system_message_last:
  assumes "\<not> list_ex (is_role ''system'') msgs"
  shows "inject d msgs = Some (msgs @ [J_obj [(''role'', J_str ''system''), (''content'', J_str (saver_tag @ '' '' @ d))]])"
  using assms
  by (induction d msgs rule: inject.induct)
    (simp_all add: add_directive_def Let_def str_field_def str_contains_def saver_tag_def)

section \<open>What trimming keeps\<close>

text \<open>
  Each message of a stretch of the conversation, a tool result that has a message of the assistant
  before it with a copy of that message; \<open>prev\<close> is the message before the stretch.
\<close>

definition with_call :: "json option \<Rightarrow> json \<Rightarrow> json list" where
  "with_call prev m =
     (case prev of
        Some a \<Rightarrow> if is_role ''tool'' m \<and> is_role ''assistant'' a then [a, m] else [m]
      | None \<Rightarrow> [m])"

fun with_calls :: "json option \<Rightarrow> json list \<Rightarrow> json list" where
  "with_calls prev [] = []"
| "with_calls prev (m # ms) = with_call prev m @ with_calls (Some m) ms"

definition last_opt :: "'a list \<Rightarrow> 'a option" where
  "last_opt xs = (if xs = [] then None else Some (last xs))"

text \<open>The loop visits a suffix of the messages, the longest that had room before its first message.\<close>

definition trimmed :: "int \<Rightarrow> json list \<Rightarrow> json list \<Rightarrow> bool" where
  "trimmed k rest kept \<longleftrightarrow>
     (\<exists>pre suf. rest = pre @ suf \<and> kept = with_calls (last_opt pre) suf \<and>
        (pre = [] \<or> k \<le> int (length kept)) \<and>
        (suf = [] \<or> int (length (with_calls (Some (hd suf)) (tl suf))) < k))"

lemma call_before_iff:
  "call_before ms =
     (case last_opt (rev ms) of
        Some a \<Rightarrow> if is_role ''assistant'' a then Some (a, the (as_obj a)) else None
      | None \<Rightarrow> None)"
  by (cases ms) (auto simp: last_opt_def is_role_def split: option.splits)

lemma trim_step:
  assumes "n < k"
  shows "\<exists>t'. trim_back k (m # ms) kept n t =
    trim_back k ms (with_call (last_opt (rev ms)) m @ kept) (n + int (length (with_call (last_opt (rev ms)) m))) t'"
proof (cases "is_role ''tool'' m")
  case True
  then obtain mm where "as_obj m = Some mm" "str_field mm ''role'' = ''tool''"
    by (auto simp: is_role_def split: option.splits)
  with True assms show ?thesis
    by (cases "last_opt (rev ms)") (auto simp: call_before_iff with_call_def Let_def)
next
  case False
  then have "with_call (last_opt (rev ms)) m = [m]" by (simp add: with_call_def split: option.split)
  moreover have "str_field mm ''role'' \<noteq> ''tool''" if "as_obj m = Some mm" for mm
    using False that by (simp add: is_role_def)
  ultimately show ?thesis using assms by (cases "as_obj m") (auto simp: Let_def)
qed

lemma trim_back_trimmed:
  assumes "kept = with_calls (last_opt (rev ms)) suf"
    and "suf = [] \<or> int (length (with_calls (Some (hd suf)) (tl suf))) < k"
  shows "trimmed k (rev ms @ suf) (fst (trim_back k ms kept (int (length kept)) t))"
  using assms
proof (induction ms arbitrary: kept suf t)
  case Nil
  then show ?case by (auto simp: trimmed_def last_opt_def)
next
  case (Cons m ms)
  show ?case
  proof (cases "int (length kept) < k")
    case True
    let ?kept = "with_call (last_opt (rev ms)) m @ kept"
    have kept: "?kept = with_calls (last_opt (rev ms)) (m # suf)"
      using Cons.prems(1) by (simp add: last_opt_def)
    obtain t' where step: "trim_back k (m # ms) kept (int (length kept)) t = trim_back k ms ?kept (int (length ?kept)) t'"
      using trim_step [OF True, of m ms kept t] by (auto simp: add.commute)
    have "int (length (with_calls (Some m) suf)) < k"
      using Cons.prems(1) True by (simp add: last_opt_def)
    then have "trimmed k (rev ms @ (m # suf)) (fst (trim_back k ms ?kept (int (length ?kept)) t'))"
      by (intro Cons.IH [OF kept]) simp
    then show ?thesis by (simp only: step rev.simps append_assoc append_Cons append_Nil)
  next
    case False
    then show ?thesis using Cons.prems unfolding trimmed_def
      by (intro exI [of _ "rev (m # ms)"] exI [of _ suf]) simp
  qed
qed

lemma smartTrim_trimmed: "trimmed k rest (fst (smartTrim rest k))"
  using trim_back_trimmed [of "[]" "rev rest" "[]" k 0] by (simp add: smartTrim_def)

text \<open>
  C27: Trimming a long conversation. The system messages stay, in front and with a marker behind them;
  of the others a suffix stays, as long as the limit allows, in which every tool result that comes
  right behind a message of the assistant has a second copy of that message before it.
\<close>

theorem headroom_doubles_calls:
  "case headroom_messages k msgs of
     None \<Rightarrow> int (length msgs) \<le> k + 2 \<or> int (length (filter (\<lambda>m. \<not> is_role ''system'' m) msgs)) \<le> k
   | Some (out, dropped) \<Rightarrow>
       (\<exists>marker kept. out = filter (is_role ''system'') msgs @ [marker] @ kept \<and> is_role ''system'' marker \<and>
          trimmed k (filter (\<lambda>m. \<not> is_role ''system'' m) msgs) kept)"
  using smartTrim_trimmed [of k "filter (\<lambda>m. \<not> is_role ''system'' m) msgs"]
  by (auto simp: headroom_messages_def Let_def case_prod_beta is_role_def as_obj_def str_field_def)

text \<open>A call with its result, sent on with the call in it twice.\<close>

lemma call_and_result_doubled:
  assumes "is_role ''assistant'' a" "is_role ''tool'' t" "\<not> is_role ''tool'' a"
  shows "with_calls prev [a, t] = [a, a, t]"
  using assms by (simp add: with_call_def split: option.split)

text \<open>A tool result in the trimmed conversation has its call right before it, if it had before.\<close>

fun calls_answered :: "json option \<Rightarrow> json list \<Rightarrow> bool" where
  "calls_answered prev [] \<longleftrightarrow> True"
| "calls_answered prev (m # ms) \<longleftrightarrow>
     (is_role ''tool'' m \<longrightarrow> (case prev of Some a \<Rightarrow> is_role ''assistant'' a | None \<Rightarrow> False)) \<and> calls_answered (Some m) ms"

lemma roles_differ: "is_role ''assistant'' a \<Longrightarrow> \<not> is_role ''tool'' a"
  by (auto simp: is_role_def split: option.splits)

lemma with_calls_answered:
  "calls_answered prev suf \<Longrightarrow> calls_answered q (with_calls prev suf)"
  by (induction prev suf arbitrary: q rule: with_calls.induct)
    (auto simp: with_call_def roles_differ split: option.splits)

lemma calls_answered_append:
  "calls_answered prev (xs @ ys) \<longleftrightarrow> calls_answered prev xs \<and> calls_answered (if xs = [] then prev else Some (last xs)) ys"
  by (induction xs arbitrary: prev) auto

lemma trimming_keeps_pairs:
  assumes "calls_answered None rest" "trimmed k rest kept"
  shows "calls_answered None kept"
proof -
  obtain pre suf where "rest = pre @ suf" "kept = with_calls (last_opt pre) suf"
    using assms(2) by (auto simp: trimmed_def)
  with assms(1) show ?thesis
    by (auto simp: calls_answered_append last_opt_def intro: with_calls_answered split: if_splits)
qed

end
