(* ===== verification/Lite.thy ===== *)
theory Lite
  imports Json Lines "HOL-Library.AList"
begin

text \<open>
  What the prompt compressors share, and the lite mode: \<open>internal/compression/lite.go\<close> and
  \<open>vision.go\<close>, and parts of \<open>compression.go\<close>. A body is copied by encoding and decoding before it is
  changed; the copy is the body itself here, since decoded strings are valid UTF-8.
\<close>

section \<open>Bodies and results\<close>

record comp_stats =
  cs_Mode :: string
  cs_OriginalTokens :: int
  cs_CompressedTokens :: int
  cs_SavingsPercent :: rat
  cs_TechniquesUsed :: "string list"
  cs_Timestamp :: int

record comp_result =
  cr_Body :: json
  cr_Compressed :: bool
  cr_Stats :: "comp_stats option"

record comp_options =
  co_Model :: string
  co_Provider :: string
  co_PreserveSystemPrompt :: bool

definition no_options :: comp_options where
  "no_options = \<lparr>co_Model = [], co_Provider = [], co_PreserveSystemPrompt = False\<rparr>"

definition not_compressed :: "json \<Rightarrow> comp_result" where
  "not_compressed body = \<lparr>cr_Body = body, cr_Compressed = False, cr_Stats = None\<rparr>"

definition compressed_by :: "string list \<Rightarrow> json \<Rightarrow> comp_result" where
  "compressed_by techniques body =
     \<lparr>cr_Body = body, cr_Compressed = True,
      cr_Stats = Some \<lparr>cs_Mode = [], cs_OriginalTokens = 0, cs_CompressedTokens = 0, cs_SavingsPercent = 0,
                       cs_TechniquesUsed = techniques, cs_Timestamp = 0\<rparr>\<rparr>"

definition charsPerToken :: nat where "charsPerToken = 4"

definition text_tokens :: "string \<Rightarrow> nat" where
  "text_tokens t = (if t = [] then 0 else (length t + charsPerToken - 1) div charsPerToken)"

definition content_text :: "json option \<Rightarrow> string" where
  "content_text c =
     (case c of
        Some (J_str s) \<Rightarrow> s
      | Some (J_arr ps) \<Rightarrow> concat (map (\<lambda>p. case as_obj p of Some m \<Rightarrow> str_field m ''text'' | None \<Rightarrow> []) ps)
      | _ \<Rightarrow> [])"

definition messagesOf :: "json \<Rightarrow> json list option" where
  "messagesOf body = (case as_obj body of Some m \<Rightarrow> arr_field m ''messages'' | None \<Rightarrow> None)"

definition set_messages :: "json list \<Rightarrow> json \<Rightarrow> json" where
  "set_messages msgs body =
     (case body of J_obj kvs \<Rightarrow> J_obj (AList.update ''messages'' (J_arr msgs) kvs) | _ \<Rightarrow> body)"

definition message_text :: "json \<Rightarrow> string" where
  "message_text m = (case as_obj m of Some mm \<Rightarrow> content_text (mm ''content'') | None \<Rightarrow> [])"

definition snapshotTokens :: "json \<Rightarrow> nat" where
  "snapshotTokens body = sum_list (map (text_tokens \<circ> message_text) (elems (messagesOf body)))"

definition roleOf :: "json \<Rightarrow> string" where
  "roleOf m = (case as_obj m of Some mm \<Rightarrow> str_field mm ''role'' | None \<Rightarrow> [])"

text \<open>The content of a message when it is a string, and the message with another content.\<close>

definition string_content :: "json \<Rightarrow> string option" where
  "string_content m =
     (case as_obj m of
        Some mm \<Rightarrow> (case mm ''content'' of Some (J_str s) \<Rightarrow> Some s | _ \<Rightarrow> None)
      | None \<Rightarrow> None)"

definition with_content :: "json \<Rightarrow> json \<Rightarrow> json" where
  "with_content c m = (case m of J_obj kvs \<Rightarrow> J_obj (AList.update ''content'' c kvs) | _ \<Rightarrow> m)"

definition from_system :: "json \<Rightarrow> bool" where
  "from_system m \<longleftrightarrow> roleOf m = ''system''"

definition kept_system :: "comp_options \<Rightarrow> json \<Rightarrow> bool" where
  "kept_system opts m \<longleftrightarrow> co_PreserveSystemPrompt opts \<and> from_system m"

text \<open>A pass that looks at each message on its own.\<close>

definition each_message :: "(json \<Rightarrow> json option) \<Rightarrow> json list \<Rightarrow> json list \<times> bool" where
  "each_message f msgs = (map (\<lambda>m. case f m of Some m' \<Rightarrow> m' | None \<Rightarrow> m) msgs, list_ex (\<lambda>m. f m \<noteq> None) msgs)"

text \<open>\<open>strings.FieldsFunc\<close>: the words between characters that satisfy \<open>P\<close>; \<open>w\<close> is the word begun.\<close>

fun fields_by :: "(char \<Rightarrow> bool) \<Rightarrow> string \<Rightarrow> string \<Rightarrow> string list" where
  "fields_by P w [] = (if w = [] then [] else [w])"
| "fields_by P w (c # s) =
     (if P c then (if w = [] then [] else [w]) @ fields_by P [] s else fields_by P (w @ [c]) s)"

section \<open>White space\<close>

fun collapse_runs :: "nat \<Rightarrow> string \<Rightarrow> string" where
  "collapse_runs run [] = []"
| "collapse_runs run (c # s) =
     (if c = CHR 10 then (if run + 1 \<le> 2 then c # collapse_runs (run + 1) s else collapse_runs (run + 1) s)
      else c # collapse_runs 0 s)"

definition collapseNewlineRuns :: "string \<Rightarrow> string" where
  "collapseNewlineRuns s = collapse_runs 0 s"

definition trim_right :: "string \<Rightarrow> string \<Rightarrow> string" where
  "trim_right cutset s = rev (dropWhile (\<lambda>c. c \<in> set cutset) (rev s))"

definition normalizeWhitespace :: "string \<Rightarrow> string" where
  "normalizeWhitespace s = join_lines (map (trim_right [CHR '' '', CHR 9]) (split_nl (collapseNewlineRuns s)))"

definition collapseWhitespace :: "comp_options \<Rightarrow> json list \<Rightarrow> json list \<times> bool" where
  "collapseWhitespace opts =
     each_message (\<lambda>m.
       if kept_system opts m then None
       else case string_content m of
              None \<Rightarrow> None
            | Some s \<Rightarrow>
              (let norm = normalizeWhitespace s in if norm = s then None else Some (with_content (J_str norm) m)))"

section \<open>Duplicates\<close>

definition truncKey :: "string \<Rightarrow> nat \<Rightarrow> string" where
  "truncKey s n = (if length s \<le> n then s else take n s)"

fun dedup_loop :: "string list \<Rightarrow> json list \<Rightarrow> json list \<times> bool" where
  "dedup_loop seen [] = ([], False)"
| "dedup_loop seen (m # ms) =
     (case (if from_system m then string_content m else None) of
        None \<Rightarrow> map_prod ((#) m) id (dedup_loop seen ms)
      | Some s \<Rightarrow>
        (let key = truncKey (trim_space s) 200
         in if key \<in> set seen then (fst (dedup_loop seen ms), True)
            else map_prod ((#) m) id (dedup_loop (key # seen) ms)))"

definition dedupSystemPrompt :: "comp_options \<Rightarrow> json list \<Rightarrow> json list \<times> bool" where
  "dedupSystemPrompt opts msgs =
     (if co_PreserveSystemPrompt opts then (msgs, False) else dedup_loop [] msgs)"

text \<open>A message is compared with the one before it in the list, whether or not that was dropped.\<close>

fun redundant_loop :: "comp_options \<Rightarrow> json option \<Rightarrow> json list \<Rightarrow> json list \<times> bool" where
  "redundant_loop opts prev [] = ([], False)"
| "redundant_loop opts prev (m # ms) =
     (let r = redundant_loop opts (Some m) ms;
          same = (case prev of
                    None \<Rightarrow> False
                  | Some p \<Rightarrow> as_obj p \<noteq> None \<and> roleOf p = roleOf m \<and>
                              message_text p = message_text m \<and> message_text m \<noteq> [])
      in if as_obj m \<noteq> None \<and> \<not> kept_system opts m \<and> same then (fst r, True)
         else map_prod ((#) m) id r)"

definition removeRedundantContent :: "comp_options \<Rightarrow> json list \<Rightarrow> json list \<times> bool" where
  "removeRedundantContent opts = redundant_loop opts None"

section \<open>Tool results\<close>

definition maxToolLength :: nat where "maxToolLength = 2000"
definition toolTruncationLookback :: nat where "toolTruncationLookback = 80"

definition isWordChar :: "char \<Rightarrow> bool" where
  "isWordChar b \<longleftrightarrow> b \<noteq> CHR '' '' \<and> b \<noteq> CHR 9 \<and> b \<noteq> CHR 10 \<and> b \<noteq> CHR 13"

definition backOffToWordBoundary :: "string \<Rightarrow> nat \<Rightarrow> nat" where
  "backOffToWordBoundary s pos =
     (if pos \<le> 0 \<or> pos \<ge> length s then pos
      else if \<not> isWordChar (s ! (pos - 1)) \<or> \<not> isWordChar (s ! pos) then pos
      else
        let lo = pos - toolTruncationLookback; hi = min (pos + toolTruncationLookback) (length s)
        in case find (\<lambda>i. \<not> isWordChar (s ! (i - 1))) (rev [lo + 1..<pos + 1]) of
             Some i \<Rightarrow> i - 1
           | None \<Rightarrow>
             (case find (\<lambda>i. \<not> isWordChar (s ! i)) [pos..<hi] of Some i \<Rightarrow> i | None \<Rightarrow> pos))"

definition tool_marker :: string where "tool_marker = CHR 10 # ''...[truncated]''"

definition compressToolResults :: "json list \<Rightarrow> json list \<times> bool" where
  "compressToolResults =
     each_message (\<lambda>m.
       if roleOf m \<noteq> ''tool'' then None
       else case string_content m of
              None \<Rightarrow> None
            | Some s \<Rightarrow>
              if length s \<le> maxToolLength then None
              else Some (with_content (J_str (take (backOffToWordBoundary s maxToolLength) s @ tool_marker)) m))"

section \<open>Images\<close>

definition visionFragments :: "string list" where
  "visionFragments =
     [''vision'', ''gpt-4o'', ''gpt-4-turbo'', ''gpt-4-vision'', ''claude-3'', ''claude-sonnet'',
      ''claude-opus'', ''claude-haiku'', ''gemini'', ''pixtral'', ''llava'', ''qwen-vl'', ''qwen2-vl'',
      ''glm-4v'', ''kimi-vl'', ''mistral-medium-3'', ''minimax-m3'', ''image'', ''vl'', ''4o'']"

definition modelSupportsVision :: "string \<Rightarrow> bool" where
  "modelSupportsVision model \<longleftrightarrow> model = [] \<or> list_ex (str_contains (to_lower model)) visionFragments"

definition image_format :: "string \<Rightarrow> string" where
  "image_format url =
     (case str_index url ''/'' of
        None \<Rightarrow> ''unknown''
      | Some i \<Rightarrow>
        (let rest = drop (i + 1) url
         in case str_index rest '';'' of None \<Rightarrow> ''unknown'' | Some e \<Rightarrow> take e rest))"

definition image_part :: "json \<Rightarrow> json option" where
  "image_part p =
     (case as_obj p of
        None \<Rightarrow> None
      | Some part \<Rightarrow>
        if part ''type'' \<noteq> Some (J_str ''image_url'') then None
        else
          let url = (case obj_field part ''image_url'' of Some iu \<Rightarrow> str_field iu ''url'' | None \<Rightarrow> [])
          in if has_prefix url ''data:image/''
             then Some (J_obj [(''type'', J_str ''text''), (''text'', J_str (''[image: '' @ image_format url @ '']''))])
             else None)"

definition image_message :: "json \<Rightarrow> json option" where
  "image_message m =
     (case as_obj m of
        None \<Rightarrow> None
      | Some mm \<Rightarrow>
        (case mm ''content'' of
           Some (J_arr ps) \<Rightarrow>
             (case each_message image_part ps of (ps', changed) \<Rightarrow>
                if changed then Some (with_content (J_arr ps') m) else None)
         | _ \<Rightarrow> None))"

definition replaceImageURLs :: "comp_options \<Rightarrow> json list \<Rightarrow> json list \<times> bool" where
  "replaceImageURLs opts msgs =
     (if modelSupportsVision (co_Model opts) then (msgs, False) else each_message image_message msgs)"

section \<open>The mode\<close>

fun run_techniques :: "(string \<times> (json list \<Rightarrow> json list \<times> bool)) list \<Rightarrow> json list \<Rightarrow> json list \<times> string list" where
  "run_techniques [] msgs = (msgs, [])"
| "run_techniques ((name, f) # ts) msgs =
     (case f msgs of (msgs', applied) \<Rightarrow>
        map_prod id (if applied then (#) name else id) (run_techniques ts (if applied then msgs' else msgs)))"

definition lite_techniques :: "comp_options \<Rightarrow> (string \<times> (json list \<Rightarrow> json list \<times> bool)) list" where
  "lite_techniques opts =
     [(''whitespace'', collapseWhitespace opts), (''system-dedup'', dedupSystemPrompt opts),
      (''tool-compress'', compressToolResults), (''redundant-remove'', removeRedundantContent opts),
      (''image-placeholder'', replaceImageURLs opts)]"

definition applyLite :: "json \<Rightarrow> comp_options \<Rightarrow> comp_result" where
  "applyLite body opts =
     (case messagesOf body of
        None \<Rightarrow> not_compressed body
      | Some msgs \<Rightarrow>
        (let (msgs', techniques) = run_techniques (lite_techniques opts) msgs
         in if techniques = [] then not_compressed body
            else compressed_by techniques (set_messages msgs' body)))"

section \<open>The safety net\<close>

text \<open>
  What \<open>Apply\<close> does with the result of a mode, with the gate of \<open>fidelity.go\<close>: it is dropped unless it
  has fewer tokens, by at least three in a hundred when the mode is lossy. \<open>now\<close> is the clock.
\<close>

definition fidelityMinSavingsPercent :: rat where "fidelityMinSavingsPercent = 3"

definition fidelityAccept :: "string \<Rightarrow> rat \<Rightarrow> bool" where
  "fidelityAccept mode savingsPercent \<longleftrightarrow>
     (if mode = ''lite'' then True else savingsPercent \<ge> fidelityMinSavingsPercent)"

definition checked :: "int \<Rightarrow> string \<Rightarrow> json \<Rightarrow> comp_result \<Rightarrow> comp_result" where
  "checked now mode body res =
     (let original = int (snapshotTokens body);
          after = int (snapshotTokens (cr_Body res));
          st0 = (case cr_Stats res of
                   Some st \<Rightarrow> st
                 | None \<Rightarrow> \<lparr>cs_Mode = mode, cs_OriginalTokens = 0, cs_CompressedTokens = 0, cs_SavingsPercent = 0,
                            cs_TechniquesUsed = [], cs_Timestamp = now\<rparr>);
          savings = (if original > 0 then of_int ((original - after) * 100) / of_int original else cs_SavingsPercent st0)
      in if \<not> cr_Compressed res then not_compressed body
         else if after \<ge> original then not_compressed body
         else if \<not> fidelityAccept mode savings then not_compressed body
         else res\<lparr>cr_Stats := Some (st0\<lparr>cs_OriginalTokens := original, cs_CompressedTokens := after,
                cs_SavingsPercent := savings, cs_Mode := mode,
                cs_Timestamp := (if cs_Timestamp st0 = 0 then now else cs_Timestamp st0)\<rparr>)\<rparr>)"

section \<open>System prompts\<close>

text \<open>
  The system prompts of a conversation are the contents of its system messages that are strings. A
  pass keeps them when it leaves every message what it is in this respect.
\<close>

definition prompt_of :: "json \<Rightarrow> string option" where
  "prompt_of m = (if from_system m then string_content m else None)"

definition system_prompts :: "json list \<Rightarrow> string list" where
  "system_prompts msgs = List.map_filter prompt_of msgs"

definition body_prompts :: "json \<Rightarrow> string list" where
  "body_prompts body = system_prompts (elems (messagesOf body))"

lemma system_prompts_simps [simp]:
  "system_prompts [] = []"
  "system_prompts (m # ms) = (case prompt_of m of None \<Rightarrow> [] | Some s \<Rightarrow> [s]) @ system_prompts ms"
  by (simp_all add: system_prompts_def List.map_filter_simps split: option.split)

lemma system_prompts_cong:
  "map prompt_of ms = map prompt_of ms' \<Longrightarrow> system_prompts ms = system_prompts ms'"
proof -
  assume same: "map prompt_of ms = map prompt_of ms'"
  then have "length ms = length ms'" by (rule map_eq_imp_length_eq)
  then show ?thesis using same by (induction rule: list_induct2) auto
qed

lemma roleOf_with_content [simp]: "roleOf (with_content c m) = roleOf m"
  by (simp add: roleOf_def with_content_def as_obj_def AList.update_conv' str_field_def split: json.split)

lemma string_content_with:
  "string_content m = Some s \<Longrightarrow>
   string_content (with_content c m) = (case c of J_str t \<Rightarrow> Some t | _ \<Rightarrow> None)"
  by (cases m) (auto simp: string_content_def with_content_def as_obj_def AList.update_conv' split: json.splits)

lemma messagesOf_set: "messagesOf body = Some msgs \<Longrightarrow> messagesOf (set_messages msgs' body) = Some msgs'"
  by (cases body) (auto simp: messagesOf_def set_messages_def as_obj_def arr_field_def AList.update_conv')

lemma each_message_prompts:
  assumes "\<And>m m'. f m = Some m' \<Longrightarrow> prompt_of m' = prompt_of m"
  shows "system_prompts (fst (each_message f msgs)) = system_prompts msgs"
  by (rule system_prompts_cong) (auto simp: each_message_def assms split: option.split)

lemma collapse_prompts:
  "co_PreserveSystemPrompt opts \<Longrightarrow> system_prompts (fst (collapseWhitespace opts msgs)) = system_prompts msgs"
  unfolding collapseWhitespace_def
  by (rule each_message_prompts)
    (auto simp: kept_system_def prompt_of_def from_system_def Let_def split: option.splits if_splits)

lemma tool_prompts: "system_prompts (fst (compressToolResults msgs)) = system_prompts msgs"
  unfolding compressToolResults_def
  by (rule each_message_prompts) (auto simp: prompt_of_def from_system_def split: option.splits if_splits)

lemma image_prompts: "system_prompts (fst (replaceImageURLs opts msgs)) = system_prompts msgs"
proof -
  have "prompt_of m' = prompt_of m" if "image_message m = Some m'" for m m'
    using that by (cases m)
      (auto simp: image_message_def prompt_of_def from_system_def string_content_def with_content_def as_obj_def
        roleOf_def str_field_def AList.update_conv' split: option.splits json.splits if_splits prod.splits)
  then show ?thesis by (simp add: replaceImageURLs_def each_message_prompts)
qed

lemma redundant_prompts:
  assumes "co_PreserveSystemPrompt opts"
  shows "system_prompts (fst (redundant_loop opts prev msgs)) = system_prompts msgs"
  using assms
  by (induction opts prev msgs rule: redundant_loop.induct)
    (auto simp: Let_def kept_system_def prompt_of_def split: option.split)

lemma run_techniques_prompts:
  assumes "\<And>n f msgs. (n, f) \<in> set ts \<Longrightarrow> system_prompts (fst (f msgs)) = system_prompts msgs"
  shows "system_prompts (fst (run_techniques ts msgs)) = system_prompts msgs"
  using assms
proof (induction ts msgs rule: run_techniques.induct)
  case (2 n f ts msgs)
  obtain msgs' b where f: "f msgs = (msgs', b)" by (cases "f msgs")
  have "system_prompts (fst (run_techniques ts (if b then msgs' else msgs))) = system_prompts (if b then msgs' else msgs)"
    using 2(2) by (intro 2(1) [OF f [symmetric]]) auto
  moreover have "system_prompts msgs' = system_prompts msgs" using 2(2) [of n f msgs] f by simp
  ultimately show ?case using f by (cases b) simp_all
qed simp

text \<open>What a compressor promises of the system prompts, and the net around it then promises.\<close>

locale prompt_keeper =
  fixes engine :: "json \<Rightarrow> comp_result"
  assumes keeps_prompts: "body_prompts (cr_Body (engine body)) = body_prompts body"
begin

lemma checked_prompts: "body_prompts (cr_Body (checked now mode body (engine body))) = body_prompts body"
  by (simp add: checked_def Let_def not_compressed_def keeps_prompts)

end

lemma lite_keeps_prompts:
  assumes "co_PreserveSystemPrompt opts"
  shows "body_prompts (cr_Body (applyLite body opts)) = body_prompts body"
proof (cases "messagesOf body")
  case (Some msgs)
  have "system_prompts (fst (run_techniques (lite_techniques opts) msgs)) = system_prompts msgs"
    using assms
    by (intro run_techniques_prompts)
      (auto simp: lite_techniques_def collapse_prompts tool_prompts image_prompts dedupSystemPrompt_def
        removeRedundantContent_def redundant_prompts)
  with Some show ?thesis
    by (auto simp: applyLite_def body_prompts_def not_compressed_def compressed_by_def messagesOf_set split: prod.split)
qed (simp add: applyLite_def not_compressed_def)

interpretation lite: prompt_keeper "\<lambda>body. applyLite body (opts\<lparr>co_PreserveSystemPrompt := True\<rparr>)"
  by unfold_locales (simp add: lite_keeps_prompts)

section \<open>What is lost\<close>

text \<open>
  Two results of the same text in a row, whatever calls they answer: the second is dropped.
\<close>

lemma equal_results_dropped:
  "fst (removeRedundantContent opts
     [J_obj [(''role'', J_str ''tool''), (''tool_call_id'', J_str a), (''content'', J_str (c # s))],
      J_obj [(''role'', J_str ''tool''), (''tool_call_id'', J_str b), (''content'', J_str (c # s))]]) =
   [J_obj [(''role'', J_str ''tool''), (''tool_call_id'', J_str a), (''content'', J_str (c # s))]]"
  by (simp add: removeRedundantContent_def kept_system_def from_system_def roleOf_def message_text_def content_text_def
      as_obj_def str_field_def)

text \<open>The placeholder of an image has tokens, and the image it replaces has none.\<close>

lemma placeholder_costs_tokens:
  "text_tokens (content_text (Some (J_arr [J_obj [(''type'', J_str ''image_url''), (''image_url'', iu)]]))) = 0"
  "0 < text_tokens (content_text (Some (J_arr [J_obj [(''type'', J_str ''text''), (''text'', J_str (''[image: '' @ f))]])))"
  by (simp_all add: text_tokens_def content_text_def as_obj_def str_field_def charsPerToken_def)

end
