(* ===== verification/Segments.thy ===== *)
theory Segments
  imports Lines
begin

text \<open>
  The division of a text into prose and what the compressors must not touch,
  \<open>internal/compression/codeblocks.go\<close>: reasoning between think tags, fenced blocks, inline code.
\<close>

record segment =
  sg_text :: string
  sg_isCode :: bool

definition thinkOpenTag :: string where "thinkOpenTag = ''<think>''"
definition thinkCloseTag :: string where "thinkCloseTag = ''</think>''"

text \<open>A pending piece of text as a segment, if there is any.\<close>

definition flush_segment :: "bool \<Rightarrow> string \<Rightarrow> segment list" where
  "flush_segment isCode t = (if t = [] then [] else [\<lparr>sg_text = t, sg_isCode = isCode\<rparr>])"

lemma str_index_Some:
  "str_index s p = Some i \<Longrightarrow> has_prefix (drop i s) p \<and> i + length p \<le> length s"
proof (induction s p arbitrary: i rule: str_index.induct)
  case (2 c s p)
  then show ?case by (auto simp: has_prefix_length dest: has_prefix_length split: if_splits)
qed (auto split: if_splits)

function splitThinkBlocks :: "string \<Rightarrow> segment list" where
  "splitThinkBlocks rest =
     (case str_index rest thinkOpenTag of
        None \<Rightarrow> flush_segment False rest
      | Some i \<Rightarrow>
        flush_segment False (take i rest) @
        (case str_index (drop i rest) thinkCloseTag of
           None \<Rightarrow> [\<lparr>sg_text = drop i rest, sg_isCode = True\<rparr>]
         | Some j \<Rightarrow>
           \<lparr>sg_text = take (j + length thinkCloseTag) (drop i rest), sg_isCode = True\<rparr> #
           splitThinkBlocks (drop (i + j + length thinkCloseTag) rest)))"
  by pat_completeness auto
termination
  by (relation "measure length") (auto simp: thinkOpenTag_def thinkCloseTag_def dest!: str_index_Some)

declare splitThinkBlocks.simps [simp del]

text \<open>The lines of a prose part; each is taken with its newline, which the last one lacks.\<close>

fun fence_loop :: "string list \<Rightarrow> string \<Rightarrow> bool \<Rightarrow> segment list" where
  "fence_loop [] cur inFence = flush_segment inFence cur"
| "fence_loop (line # ls) cur inFence =
     (let piece = line @ (if ls \<noteq> [] then [CHR 10] else [])
      in if has_prefix (trim_space line) ''```'' then
           flush_segment inFence cur @ flush_segment True piece @ fence_loop ls [] (\<not> inFence)
         else fence_loop ls (cur @ piece) inFence)"

fun inline_loop :: "string \<Rightarrow> string \<Rightarrow> bool \<Rightarrow> segment list" where
  "inline_loop [] cur inCode = flush_segment inCode cur"
| "inline_loop (c # s) cur inCode =
     (if c = CHR ''`'' then flush_segment inCode cur @ inline_loop s [c] (\<not> inCode)
      else inline_loop s (cur @ [c]) inCode)"

definition splitInlineCode :: "string \<Rightarrow> segment list" where
  "splitInlineCode t = inline_loop t [] False"

definition splitFencedAndInline :: "string \<Rightarrow> segment list" where
  "splitFencedAndInline t =
     concat (map (\<lambda>s. if sg_isCode s then [s] else splitInlineCode (sg_text s)) (fence_loop (split_nl t) [] False))"

definition splitCodeBlocks :: "string \<Rightarrow> segment list" where
  "splitCodeBlocks t =
     concat (map (\<lambda>s. if sg_isCode s then [s] else splitFencedAndInline (sg_text s)) (splitThinkBlocks t))"

definition joinSegments :: "segment list \<Rightarrow> string" where
  "joinSegments segs = concat (map sg_text segs)"

section \<open>Nothing is lost\<close>

lemma joinSegments_simps [simp]:
  "joinSegments [] = []" "joinSegments (s # ss) = sg_text s @ joinSegments ss"
  "joinSegments (xs @ ys) = joinSegments xs @ joinSegments ys"
  "joinSegments (flush_segment b t) = t"
  by (simp_all add: joinSegments_def flush_segment_def)

lemma joinSegments_refine:
  assumes "\<And>s. s \<in> set ss \<Longrightarrow> joinSegments (f s) = sg_text s"
  shows "joinSegments (concat (map f ss)) = joinSegments ss"
  using assms by (induction ss) auto

lemma join_think: "joinSegments (splitThinkBlocks t) = t"
proof (induction t rule: splitThinkBlocks.induct)
  case (1 t)
  show ?case
  proof (cases "str_index t thinkOpenTag")
    case None
    then show ?thesis by (simp add: splitThinkBlocks.simps [of t])
  next
    case (Some i)
    note i = this
    show ?thesis
    proof (cases "str_index (drop i t) thinkCloseTag")
      case None
      then show ?thesis using i by (simp add: splitThinkBlocks.simps [of t])
    next
      case (Some j)
      have "take i t @ take (j + length thinkCloseTag) (drop i t) @ drop (i + j + length thinkCloseTag) t = t"
        by (metis add.assoc add.commute append_take_drop_id drop_drop)
      then show ?thesis using 1 [OF i Some] i Some by (simp add: splitThinkBlocks.simps [of t])
    qed
  qed
qed

lemma join_fence: "joinSegments (fence_loop ls cur b) = cur @ join_lines ls"
  by (induction ls cur b rule: fence_loop.induct) (auto simp: join_lines_Cons Let_def)

lemma join_inline: "joinSegments (inline_loop s cur b) = cur @ s"
  by (induction s cur b rule: inline_loop.induct) simp_all

lemma join_fenced_inline: "joinSegments (splitFencedAndInline t) = t"
  unfolding splitFencedAndInline_def
  by (subst joinSegments_refine) (auto simp: splitInlineCode_def join_inline join_fence)

section \<open>What prose is\<close>

text \<open>
  A backtick stands at most at the front of a piece of prose, where it closed a piece of code.
\<close>

lemma inline_prose:
  assumes "CHR ''`'' \<notin> set (tl cur)" "s \<in> set (inline_loop t cur b)"
  shows "CHR ''`'' \<notin> set (tl (sg_text s))"
  using assms
proof (induction t cur b rule: inline_loop.induct)
  case (2 c t cur b)
  then show ?case by (cases cur) (auto simp: flush_segment_def split: if_splits)
qed (auto simp: flush_segment_def split: if_splits)

text \<open>
  C30: The division of a text loses nothing: the segments put together are the text. And no piece that
  may be rewritten has a backtick behind its first byte.
\<close>

theorem code_blocks_round_trip:
  "joinSegments (splitCodeBlocks t) = t \<and>
   \<not> list_ex (\<lambda>s. \<not> sg_isCode s \<and> CHR ''`'' \<in> set (tl (sg_text s))) (splitCodeBlocks t)"
proof
  show "joinSegments (splitCodeBlocks t) = t"
    unfolding splitCodeBlocks_def
    by (subst joinSegments_refine) (auto simp: join_fenced_inline join_think)
  show "\<not> list_ex (\<lambda>s. \<not> sg_isCode s \<and> CHR ''`'' \<in> set (tl (sg_text s))) (splitCodeBlocks t)"
    using inline_prose [of "[]"]
    by (fastforce simp: list_ex_iff splitCodeBlocks_def splitFencedAndInline_def splitInlineCode_def split: if_splits)
qed

text \<open>The backtick that ends inline code is prose.\<close>

lemma closing_backtick_is_prose:
  assumes "CHR ''`'' \<notin> set u" "CHR ''`'' \<notin> set v" "u \<noteq> []"
  shows "splitInlineCode (CHR ''`'' # u @ CHR ''`'' # v) =
    [\<lparr>sg_text = CHR ''`'' # u, sg_isCode = True\<rparr>, \<lparr>sg_text = CHR ''`'' # v, sg_isCode = False\<rparr>]"
proof -
  have plain: "inline_loop (w @ s) cur b = inline_loop s (cur @ w) b" if "CHR ''`'' \<notin> set w" for w s cur b
    using that by (induction w arbitrary: cur) auto
  show ?thesis using plain [OF assms(1), of "CHR ''`'' # v"] plain [OF assms(2), of "[]"]
    by (simp add: splitInlineCode_def flush_segment_def)
qed

end
