(* ===== verification/Caveman.thy ===== *)
theory Caveman
  imports Lite Segments
begin

text \<open>
  The standard mode of the compressors, \<open>internal/compression/caveman.go\<close>: rewrite rules on prose. The
  expressions belong to the package \<open>regexp2\<close>, which is an argument: for a pattern (matched without
  case) it is \<open>None\<close> if the pattern does not compile, or a function that replaces all matches by what a
  given function makes of them and counts them, \<open>None\<close> if it fails. The order in which a loop over
  the map of used rules yields them is an argument too.
\<close>

type_synonym regexp2 = "string \<Rightarrow> ((string \<Rightarrow> string) \<Rightarrow> string \<Rightarrow> (string \<times> nat) option) option"

section \<open>Rules\<close>

definition intLite :: nat where "intLite = 0"
definition intFull :: nat where "intFull = 1"
definition intUltra :: nat where "intUltra = 2"

record rewrite_rule =
  rl_name :: string
  rl_pattern :: string
  rl_repl :: string
  rl_context :: string
  rl_table :: "((string \<times> string) list \<times> bool) option"
  rl_minIntensity :: nat

definition mapRepl :: "(string \<times> string) list \<Rightarrow> bool \<Rightarrow> string \<Rightarrow> string" where
  "mapRepl m fallbackKeep match =
     (case map_of m (to_lower (trim_space match)) of
        Some v \<Rightarrow> v
      | None \<Rightarrow> if fallbackKeep then match else [])"

text \<open>A pattern is written with a tilde for each backslash.\<close>

definition caveman_rule ::
  "string \<Rightarrow> string \<Rightarrow> string \<Rightarrow> string \<Rightarrow> ((string \<times> string) list \<times> bool) option \<Rightarrow> nat \<Rightarrow> rewrite_rule" where
  "caveman_rule n p r c t i =
     \<lparr>rl_name = n, rl_pattern = map (\<lambda>x. if x = CHR ''~'' then CHR 0x5C else x) p, rl_repl = r,
      rl_context = c, rl_table = t, rl_minIntensity = i\<rparr>"

definition caveman_specs :: "rewrite_rule list" where
  "caveman_specs =
    [
     caveman_rule ''redundant_phrasing'' ''~b(?:make sure to|be sure to|due to the fact that|the reason is because|it is important to|you should|remember to)~b~s*''
        [] ''all'' (Some ([(''make sure to'', ''ensure ''), (''be sure to'', ''ensure ''), (''due to the fact that'', ''because ''), (''the reason is because'', ''because ''), (''it is important to'', []), (''you should'', []), (''remember to'', [])], False)) intFull,
     caveman_rule ''pleasantries'' ''~b(?:i'?d be happy to|i would be happy to|i'?d be glad to|i would be glad to|glad to help|happy to|thank you|thanks|no problem|you'?re welcome|absolutely|certainly|of course|sure)~b[,.!?~s]*''
        [] ''all'' (None) intLite,
     caveman_rule ''polite_framing'' ''~b(?:please|kindly|could you please|would you please|can you please|I would like you to|I want you to|I need you to)~b~s*''
        [] ''all'' (None) intLite,
     caveman_rule ''hedging'' ''~b(?:it seems like|it appears that|I think that|I believe that|probably|possibly|maybe it)~b~s*''
        [] ''all'' (None) intLite,
     caveman_rule ''verbose_instructions'' ''~b(?:provide a detailed explanation of|give me a comprehensive explanation of|write an in-depth explanation of|create a thorough explanation of|provide a detailed|give me a comprehensive|write an in-depth|create a thorough|explain in detail)~b''
        [] ''all'' (Some ([(''provide a detailed explanation of'', ''explain ''), (''give me a comprehensive explanation of'', ''explain ''), (''write an in-depth explanation of'', ''explain ''), (''create a thorough explanation of'', ''explain ''), (''provide a detailed'', ''provide ''), (''give me a comprehensive'', ''give ''), (''write an in-depth'', ''write ''), (''create a thorough'', ''create ''), (''explain in detail'', ''explain '')], True)) intLite,
     caveman_rule ''filler_adverbs'' ''~b(?:basically|essentially|actually|literally|simply|currently)~b~s*''
        [] ''all'' (None) intLite,
     caveman_rule ''articles'' ''~b(?:[Aa]n|[Aa]|[Tt]he)~s+(?=[a-z])''
        [] ''all'' (None) intFull,
     caveman_rule ''filler_phrases'' ''^(?:I want to|I need to|I'd like to|I'm looking for)~b~s*''
        [] ''user'' (None) intLite,
     caveman_rule ''redundant_openers'' ''^(?:Hi there|Hello|Good morning|Hey)~s*[,.!?~s]?~s*''
        [] ''user'' (None) intLite,
     caveman_rule ''verbose_requests'' ''~b(?:I was wondering if you could|Would it be possible to)~b~s*''
        [] ''user'' (None) intLite,
     caveman_rule ''leader_phrases'' ''^(?:i'?ll|i will|i can|i'?d|let me|you can|we will|we can|let'?s)~s+(?=[a-z])''
        [] ''all'' (None) intFull,
     caveman_rule ''self_reference'' ''^(?:I am trying to|I am working on|I have been)~b~s*''
        [] ''user'' (None) intLite,
     caveman_rule ''excessive_gratitude'' ''~b(?:Thank you so much|Thanks in advance|I really appreciate)~b[,.!?~s]*''
        [] ''all'' (None) intLite,
     caveman_rule ''qualifier_removal'' ''~b(?:a bit|a little|somewhat|kind of|sort of)~b~s*''
        [] ''all'' (None) intLite,
     caveman_rule ''compound_collapse'' ''~band any potential~b''
        [] ''all'' (None) intFull,
     caveman_rule ''explanatory_prefix'' ''~b(?:The function appears to be handling|The code seems to|The class is|This module is)~b''
        [] ''all'' (Some ([(''the function appears to be handling'', ''Function:''), (''the code seems to'', ''Code:''), (''the class is'', ''Class:''), (''this module is'', ''Module:'')], True)) intLite,
     caveman_rule ''question_to_directive'' ''~b(?:Can you explain why|Could you show me how|Would you tell me|Can you tell me)~b~s*''
        [] ''user'' (Some ([(''can you explain why'', ''Explain why ''), (''could you show me how'', ''Show how ''), (''would you tell me'', ''Tell me ''), (''can you tell me'', ''Tell me '')], True)) intLite,
     caveman_rule ''context_setup'' ''~b(?:I have the following code|Here is my code|Below is the code)~b~s*[:.]?~s*''
        ''Code:'' ''user'' (None) intLite,
     caveman_rule ''intent_clarification'' ''~b(?:What I'm trying to do is|My objective is to|What I need is|I'm aiming to)~b~s*''
        ''Goal:'' ''user'' (None) intLite,
     caveman_rule ''background_removal'' ''~b(?:As you may know,?~s*|As we discussed earlier,?~s*)''
        [] ''all'' (None) intLite,
     caveman_rule ''meta_commentary'' ''^(?:Note that|Keep in mind that|Remember that)~b~s*''
        [] ''all'' (None) intLite,
     caveman_rule ''purpose_statement'' ''~b(?:for the purpose of|with the goal of|in an effort to|for every)~b''
        [] ''all'' (Some ([(''for the purpose of'', ''for''), (''with the goal of'', ''to''), (''in an effort to'', ''to''), (''for every'', ''per'')], True)) intLite,
     caveman_rule ''list_conjunction'' '',~s*and also~s+|,~s*as well as~s+''
        '', '' ''all'' (None) intFull,
     caveman_rule ''purpose_phrases'' ''~b(?:in order to|so as to)~b~s*''
        ''to '' ''all'' (None) intLite,
     caveman_rule ''redundant_quantifiers'' ''~b(?:each and every single|each and every|any and all)~b''
        [] ''all'' (Some ([(''each and every single'', ''each''), (''each and every'', ''each''), (''any and all'', ''all'')], True)) intFull,
     caveman_rule ''verbose_connectors'' ''~b(?:furthermore|additionally|moreover|in addition)~b~s*''
        ''also '' ''all'' (None) intLite,
     caveman_rule ''transition_removal'' ''^(?:On the other hand,?~s*|In contrast,?~s*|However,?~s*)''
        [] ''all'' (None) intLite,
     caveman_rule ''emphasis_removal'' ''~b(?:very|really|extremely|highly|quite)~s+(?=[a-z])''
        [] ''all'' (None) intLite,
     caveman_rule ''passive_voice'' ''~b(?:is being used|is being called|is being generated|was created|was generated|was implemented)~b''
        [] ''all'' (Some ([(''is being used'', ''uses''), (''is being called'', ''calls''), (''is being generated'', ''generated''), (''was created'', ''created''), (''was generated'', ''generated''), (''was implemented'', ''implemented'')], True)) intFull,
     caveman_rule ''repeated_context'' ''~b(?:As we discussed earlier|As mentioned before|As previously stated|As I said before)~b[,.]?~s*''
        ''See above. '' ''all'' (None) intLite,
     caveman_rule ''repeated_question'' ''~b(?:Same question as before|I asked this earlier|This is the same question)~b[,.]?~s*''
        ''[same question] '' ''user'' (None) intLite,
     caveman_rule ''reestablished_context'' ''~b(?:Going back to the code above|Referring back to|Returning to)~b~s*''
        ''Re: '' ''all'' (None) intLite,
     caveman_rule ''summary_replacement'' ''~b(?:To summarize what we've discussed|In summary of our conversation|To recap)~b[,.]?~s*''
        ''Summary: '' ''assistant'' (None) intLite,
     caveman_rule ''ultra_abbreviations'' ''~b(?:database|configuration|function|request|response|implementation|authentication|authorization|application|dependency|dependencies)~b''
        [] ''all'' (Some ([(''database'', ''DB''), (''configuration'', ''config''), (''function'', ''fn''), (''request'', ''req''), (''response'', ''res''), (''implementation'', ''impl''), (''authentication'', ''auth''), (''authorization'', ''authz''), (''application'', ''app''), (''dependency'', ''dep''), (''dependencies'', ''deps'')], True)) intUltra]"

definition buildCavemanRules :: "regexp2 \<Rightarrow> rewrite_rule list" where
  "buildCavemanRules rx = filter (\<lambda>r. rx (rl_pattern r) \<noteq> None) caveman_specs"

section \<open>Rewriting\<close>

definition replaceAllRule :: "regexp2 \<Rightarrow> rewrite_rule \<Rightarrow> string \<Rightarrow> string \<times> nat" where
  "replaceAllRule rx rule s =
     (case rx (rl_pattern rule) of
        None \<Rightarrow> (s, 0)
      | Some replace \<Rightarrow>
        (case replace (case rl_table rule of Some (m, keep) \<Rightarrow> mapRepl m keep | None \<Rightarrow> (\<lambda>_. rl_repl rule)) s of
           None \<Rightarrow> (s, 0)
         | Some r \<Rightarrow> r))"

definition eligible :: "string \<Rightarrow> nat \<Rightarrow> rewrite_rule \<Rightarrow> bool" where
  "eligible role intensity rule \<longleftrightarrow>
     \<not> rl_minIntensity rule > intensity \<and> (rl_context rule = ''all'' \<or> rl_context rule = role)"

text \<open>The text rewritten by the rules in turn, and the names of those that matched.\<close>

fun apply_rules :: "regexp2 \<Rightarrow> rewrite_rule list \<Rightarrow> string \<Rightarrow> string list \<Rightarrow> string \<times> string list" where
  "apply_rules rx [] s used = (s, used)"
| "apply_rules rx (r # rs) s used =
     (case replaceAllRule rx r s of (s', n) \<Rightarrow>
        if n > 0 then apply_rules rx rs s' (List.insert (rl_name r) used) else apply_rules rx rs s used)"

fun rewrite_segments :: "regexp2 \<Rightarrow> rewrite_rule list \<Rightarrow> segment list \<Rightarrow> string list \<Rightarrow> segment list \<times> string list" where
  "rewrite_segments rx rules [] used = ([], used)"
| "rewrite_segments rx rules (s # ss) used =
     (if sg_isCode s then map_prod ((#) s) id (rewrite_segments rx rules ss used)
      else case apply_rules rx rules (sg_text s) used of (t, used') \<Rightarrow>
             map_prod ((#) (s\<lparr>sg_text := t\<rparr>)) id (rewrite_segments rx rules ss used'))"

definition cavemanRewrite :: "regexp2 \<Rightarrow> string \<Rightarrow> string \<Rightarrow> nat \<Rightarrow> string \<times> string list" where
  "cavemanRewrite rx t role intensity =
     map_prod joinSegments id
       (rewrite_segments rx (filter (eligible role intensity) (buildCavemanRules rx)) (splitCodeBlocks t) [])"

definition caveman_message :: "regexp2 \<Rightarrow> comp_options \<Rightarrow> json \<Rightarrow> (json \<times> string list) option" where
  "caveman_message rx opts m =
     (if kept_system opts m then None
      else case string_content m of
             None \<Rightarrow> None
           | Some s \<Rightarrow>
             if length s < 20 then None
             else (case cavemanRewrite rx s (roleOf m) intFull of (newText, used) \<Rightarrow>
                     if newText = s then None else Some (with_content (J_str newText) m, used)))"

definition applyCaveman :: "regexp2 \<Rightarrow> (string list \<Rightarrow> string list) \<Rightarrow> json \<Rightarrow> comp_options \<Rightarrow> comp_result" where
  "applyCaveman rx order body opts =
     (let msgs = elems (messagesOf body);
          (msgs', applied) = each_message (map_option fst \<circ> caveman_message rx opts) msgs;
          rulesUsed = remdups (concat (map snd (List.map_filter (caveman_message rx opts) msgs)))
      in if msgs = [] then not_compressed body
         else if \<not> applied then not_compressed body
         else compressed_by (''caveman'' # order rulesUsed) (set_messages msgs' body))"

section \<open>What the rules leave alone\<close>

text \<open>
  Whatever the expressions match, the rewritten text is put together from the segments of the
  text, in their order, and those of code are unchanged.
\<close>

definition piece_kept :: "segment \<Rightarrow> segment \<Rightarrow> bool" where
  "piece_kept s s' \<longleftrightarrow> (if sg_isCode s then s' = s else \<not> sg_isCode s')"

definition code_kept :: "segment list \<Rightarrow> segment list \<Rightarrow> bool" where
  "code_kept = list_all2 piece_kept"

lemma rewrite_segments_code: "code_kept ss (fst (rewrite_segments rx rules ss used))"
  by (induction rx rules ss used rule: rewrite_segments.induct)
    (auto simp: code_kept_def piece_kept_def split: prod.split)

lemma caveman_keeps_code:
  "\<exists>segs. fst (cavemanRewrite rx t role n) = joinSegments segs \<and> code_kept (splitCodeBlocks t) segs"
  using rewrite_segments_code by (fastforce simp: cavemanRewrite_def)

lemma caveman_keeps_prompts:
  assumes "co_PreserveSystemPrompt opts"
  shows "body_prompts (cr_Body (applyCaveman rx order body opts)) = body_prompts body"
proof (cases "messagesOf body")
  case (Some msgs)
  have "prompt_of m' = prompt_of m" if "(map_option fst \<circ> caveman_message rx opts) m = Some m'" for m m'
    using that assms
    by (auto simp: caveman_message_def kept_system_def prompt_of_def from_system_def split: option.splits if_splits prod.splits)
  then have "system_prompts (fst (each_message (map_option fst \<circ> caveman_message rx opts) msgs)) = system_prompts msgs"
    by (rule each_message_prompts)
  with Some show ?thesis
    by (auto simp: applyCaveman_def Let_def case_prod_beta not_compressed_def compressed_by_def body_prompts_def messagesOf_set elems_def)
qed (simp add: applyCaveman_def Let_def case_prod_beta elems_def not_compressed_def)

interpretation caveman: prompt_keeper "\<lambda>body. applyCaveman rx order body (opts\<lparr>co_PreserveSystemPrompt := True\<rparr>)"
  by unfold_locales (simp add: caveman_keeps_prompts)

text \<open>The abbreviations are never reached: the standard mode runs one level below them.\<close>

lemma abbreviations_never_used:
  "List.find (\<lambda>r. rl_name r = ''ultra_abbreviations'' \<and> eligible role intFull r) caveman_specs = None"
  by (simp add: caveman_specs_def caveman_rule_def eligible_def intFull_def intUltra_def intLite_def)

end
