(* ===== verification/Summarizer.thy ===== *)
theory Summarizer
  imports Lite RtkFilters
begin

text \<open>
  The summary of one message by rules, \<open>internal/compression/summarizer.go\<close>: its first line, the file
  names and errors in it, and the start of its text with long code blocks cut down.
\<close>

definition summarizerFileExts :: "string list" where
  "summarizerFileExts =
     [''ts'', ''tsx'', ''js'', ''jsx'', ''py'', ''md'', ''json'', ''sql'', ''css'', ''html'', ''yaml'', ''yml'',
      ''sh'', ''rb'', ''go'', ''rs'', ''java'', ''c'', ''cpp'', ''h'', ''hpp'']"

definition summarizerIntentTriggers :: "string list" where
  "summarizerIntentTriggers =
     [''request:'', ''fix:'', ''implement:'', ''add:'', ''remove:'', ''update:'', ''refactor:'',
      ''create:'', ''delete:'', ''change:'', ''build:'']"

definition truncStr :: "string \<Rightarrow> nat \<Rightarrow> string" where
  "truncStr s n = (if length s \<le> n then s else take n s)"

text \<open>The loop over the triggers and what follows it return the same.\<close>

definition firstIntentLine :: "string \<Rightarrow> string" where
  "firstIntentLine t =
     (let line = trim_space (hd (split_nl t))
      in if line = [] then []
         else if list_ex (has_prefix (to_lower line)) summarizerIntentTriggers then truncStr line 120
         else truncStr line 120)"

section \<open>File names\<close>

definition leading_punct :: string where "leading_punct = [CHR 0x27, CHR 0x22, CHR ''`'', CHR ''('', CHR ''['', CHR ''{'']"
definition trailing_punct :: string where
  "trailing_punct = [CHR 0x27, CHR 0x22, CHR ''`'', CHR '')'', CHR '']'', CHR '','', CHR '';'', CHR '':'']"

definition stripTokenPunct :: "string \<Rightarrow> string" where
  "stripTokenPunct token = trim_right trailing_punct (dropWhile (\<lambda>c. c \<in> set leading_punct) token)"

definition knownFilePath :: "string \<Rightarrow> string" where
  "knownFilePath token =
     (let clean = stripTokenPunct token
      in case cut_last (CHR ''.'') clean of
           None \<Rightarrow> []
         | Some (base, ext) \<Rightarrow>
           if base = [] \<or> ext = [] then []
           else if to_lower ext \<notin> set summarizerFileExts then []
           else if \<not> str_contains clean ''/'' \<and> \<not> str_contains clean ''.'' then []
           else clean)"

fun file_loop :: "string list \<Rightarrow> string list \<Rightarrow> string list" where
  "file_loop out [] = out"
| "file_loop out (tok # toks) =
     (let fp = knownFilePath tok
      in if fp \<noteq> [] \<and> fp \<notin> set out then
           let out' = out @ [fp] in if length out' \<ge> 20 then out' else file_loop out' toks
         else file_loop out toks)"

definition extractFilePaths :: "string \<Rightarrow> string list" where
  "extractFilePaths t = file_loop [] (str_fields t)"

section \<open>Errors\<close>

definition error_words :: "string list" where
  "error_words = [''TypeError:'', ''ReferenceError:'', ''SyntaxError:'', ''RangeError:'', ''Error:'', ''Exception:'']"

fun error_loop :: "string list \<Rightarrow> string list \<Rightarrow> string list" where
  "error_loop out [] = out"
| "error_loop out (seg # segs) =
     (let trimmed = trim_space seg
      in if trimmed \<noteq> [] \<and> (list_ex (str_contains trimmed) error_words \<or> str_contains (to_lower trimmed) ''error ts'') then
           let out' = out @ [truncStr trimmed 150] in if length out' \<ge> 10 then out' else error_loop out' segs
         else error_loop out segs)"

definition extractErrors :: "string \<Rightarrow> string list" where
  "extractErrors t = error_loop [] (fields_by (\<lambda>c. c = CHR ''.'' \<or> c = CHR 10) [] t)"

section \<open>Code\<close>

definition cut_mark :: string where "cut_mark = [CHR 10, CHR 0xE2, CHR 0x80, CHR 0xA6, CHR 10]"

definition short_fence :: "string \<Rightarrow> string \<Rightarrow> string \<Rightarrow> string" where
  "short_fence whole opening code =
     (let lines = split_nl code
      in if length lines \<le> 4 then whole
         else opening @ [CHR 10] @ join_lines (take 3 lines) @ cut_mark @ last lines @ CHR 10 # ''```'')"

lemma str_index_bound: "str_index s p = Some i \<Longrightarrow> i \<le> length s"
  by (induction s p arbitrary: i rule: str_index.induct) (auto split: if_splits)

function trimCodeFences :: "string \<Rightarrow> string" where
  "trimCodeFences rest =
     (case str_index rest ''```'' of
        None \<Rightarrow> rest
      | Some start \<Rightarrow>
        (case str_index (drop (start + 3) rest) [CHR 10] of
           None \<Rightarrow> rest
         | Some k \<Rightarrow>
           let openLineEnd = start + 3 + k in
           (case str_index (drop (openLineEnd + 1) rest) (CHR 10 # ''```'') of
              None \<Rightarrow> rest
            | Some n \<Rightarrow>
              let closeStart = openLineEnd + 1 + n; closeEnd = closeStart + 4
              in take start rest @
                 short_fence (take (closeEnd - start) (drop start rest)) (take (openLineEnd - start) (drop start rest))
                   (take n (drop (openLineEnd + 1) rest)) @
                 (if closeEnd < length rest then trimCodeFences (drop closeEnd rest) else []))))"
  by pat_completeness auto
termination
  by (relation "measure length") auto

declare trimCodeFences.simps [simp del]

section \<open>The summary\<close>

definition summary_parts :: "bool \<Rightarrow> string \<Rightarrow> string list" where
  "summary_parts preserveCode t =
     (let intent = firstIntentLine t; files = extractFilePaths t; errs = extractErrors t;
          decision = (if preserveCode then trimCodeFences t else t)
      in [''[COMPRESSED:summary]''] @
         (if intent \<noteq> [] then [''Intents: '' @ intent @ ''.''] else []) @
         (if length files > 0 then [''Files touched: '' @ join_with '', '' files @ ''.''] else []) @
         (if length errs > 0 then [''Errors: '' @ join_with ''; '' errs @ ''.''] else []) @
         (if decision \<noteq> [] then [''Last decision: '' @ truncStr decision 200 @ ''.''] else []))"

definition summarizeMessage :: "string \<Rightarrow> nat \<Rightarrow> bool \<Rightarrow> string" where
  "summarizeMessage t maxLen preserveCode =
     (if trim_space t = [] then []
      else let result = join_with '' '' (summary_parts preserveCode t)
           in if maxLen > 0 \<and> length result > maxLen then take (maxLen - 3) result @ ''...'' else result)"

section \<open>What a summary is\<close>

lemma intent_is_first_line: "firstIntentLine t = truncStr (trim_space (hd (split_nl t))) 120"
  by (simp add: firstIntentLine_def Let_def truncStr_def)

lemma summary_bounded: "3 \<le> maxLen \<Longrightarrow> length (summarizeMessage t maxLen p) \<le> maxLen"
  by (auto simp: summarizeMessage_def Let_def)

lemma few_files: "length out < 20 \<Longrightarrow> length (file_loop out toks) \<le> 20"
  by (induction out toks rule: file_loop.induct) (auto simp: Let_def)

lemma few_errors: "length out < 10 \<Longrightarrow> length (error_loop out segs) \<le> 10"
  by (induction out segs rule: error_loop.induct) (auto simp: Let_def)

text \<open>A text without code blocks is called its own last decision: what is quoted is its start.\<close>

lemma decision_is_the_start:
  assumes "\<not> str_contains t ''```''" "t \<noteq> []"
  shows "last (summary_parts True t) = ''Last decision: '' @ truncStr t 200 @ ''.''"
proof -
  have "trimCodeFences t = t" using assms(1) by (simp add: trimCodeFences.simps [of t] str_contains_def)
  with assms(2) show ?thesis by (simp add: summary_parts_def Let_def)
qed

end
