(* ===== verification/Aggressive.thy ===== *)
theory Aggressive
  imports Caveman Summarizer Rtk
begin

text \<open>
  The aggressive mode of the compressors, \<open>internal/compression/aggressive.go\<close> and \<open>rtkbridge.go\<close>: tool
  outputs through the RTK filters, messages aged by their distance from the end, long ones
  summarized, and the milder modes when that saves too little. \<open>valid\<close> is whether a text is JSON.
\<close>

definition agingVerbatim :: nat where "agingVerbatim = 2"
definition agingLight :: nat where "agingLight = 2"
definition agingModerate :: nat where "agingModerate = 3"
definition aggrMaxTokensPerMessage :: nat where "aggrMaxTokensPerMessage = 2048"
definition aggrMinSavings :: rat where "aggrMinSavings = 5 / 100"
definition compressedMarkerPrefix :: string where "compressedMarkerPrefix = ''[COMPRESSED:''"

section \<open>Aging\<close>

definition structuredKind :: "(string \<Rightarrow> bool) \<Rightarrow> string \<Rightarrow> string" where
  "structuredKind valid t =
     (let trimmed = trim_space t
      in if has_prefix trimmed ''```'' \<and> has_suffix trimmed ''```'' then ''fenced''
         else if (has_prefix trimmed ''{'' \<or> has_prefix trimmed ''['') \<and> valid trimmed then ''json''
         else [])"

definition tagAged :: "(string \<Rightarrow> bool) \<Rightarrow> string \<Rightarrow> string \<Rightarrow> string \<Rightarrow> string" where
  "tagAged valid tier originalText compressed =
     (let kind = structuredKind valid originalText
      in if kind = ''json'' then originalText
         else if kind = ''fenced'' then ''[COMPRESSED:aging:'' @ tier @ '']'' @ CHR 10 # originalText
         else ''[COMPRESSED:aging:'' @ tier @ ''] '' @ compressed)"

definition wrapSingle :: "string \<Rightarrow> json" where
  "wrapSingle t = J_obj [(''messages'', J_arr [J_obj [(''role'', J_str ''user''), (''content'', J_str t)]])]"

text \<open>The one text of a body like that after a compressor.\<close>

definition single_text :: "comp_result \<Rightarrow> string \<Rightarrow> string" where
  "single_text r s = (if cr_Compressed r then message_text (hd (elems (messagesOf (cr_Body r)))) else s)"

definition retag :: "(string \<Rightarrow> bool) \<Rightarrow> string \<Rightarrow> string \<Rightarrow> string \<Rightarrow> json \<Rightarrow> json option" where
  "retag valid tier originalText compressed m =
     (let tagged = tagAged valid tier originalText compressed
      in if tagged = originalText then None else Some (with_content (J_str tagged) m))"

definition ageMessage :: "(string \<Rightarrow> bool) \<Rightarrow> string \<Rightarrow> (string \<Rightarrow> string) \<Rightarrow> json \<Rightarrow> json option" where
  "ageMessage valid tier compress m =
     (case string_content m of None \<Rightarrow> None | Some t \<Rightarrow> retag valid tier t (compress t) m)"

definition ageFullSummary :: "(string \<Rightarrow> bool) \<Rightarrow> json \<Rightarrow> json option" where
  "ageFullSummary valid m =
     (case string_content m of
        None \<Rightarrow> None
      | Some t \<Rightarrow>
        if roleOf m = ''assistant'' then retag valid ''fullSummary'' t (summarizeMessage t 0 True) m
        else if roleOf m = ''user'' then retag valid ''fullSummary'' t (truncStr (hd (split_nl t)) 120) m
        else None)"

definition age :: "regexp2 \<Rightarrow> (string list \<Rightarrow> string list) \<Rightarrow> (string \<Rightarrow> bool) \<Rightarrow> comp_options \<Rightarrow> nat \<Rightarrow> json \<Rightarrow> json option" where
  "age rx order valid opts far m =
     (if as_obj m = None then None
      else if kept_system opts m \<or> has_prefix (trim_space (message_text m)) compressedMarkerPrefix then None
      else if far \<le> agingVerbatim then None
      else if far \<le> agingVerbatim + agingLight then
        ageMessage valid ''light'' (\<lambda>s. single_text (applyLite (wrapSingle s) no_options) s) m
      else if far \<le> agingVerbatim + agingLight + agingModerate then
        ageMessage valid ''moderate'' (\<lambda>s. single_text (applyCaveman rx order (wrapSingle s) no_options) s) m
      else ageFullSummary valid m)"

definition applyAging ::
  "regexp2 \<Rightarrow> (string list \<Rightarrow> string list) \<Rightarrow> (string \<Rightarrow> bool) \<Rightarrow> comp_options \<Rightarrow> json list \<Rightarrow> json list option" where
  "applyAging rx order valid opts msgs =
     (let total = length msgs;
          aged = map (\<lambda>(i, m). (m, age rx order valid opts (total - 1 - i) m)) (enumerate 0 msgs)
      in if total = 0 then None
         else if list_ex (\<lambda>(m, r). r \<noteq> None) aged
         then Some (map (\<lambda>(m, r). case r of Some m' \<Rightarrow> m' | None \<Rightarrow> m) aged) else None)"

section \<open>Long messages\<close>

definition summarize_long :: "comp_options \<Rightarrow> json \<Rightarrow> json option" where
  "summarize_long opts m =
     (if kept_system opts m then None
      else case string_content m of
             None \<Rightarrow> None
           | Some t \<Rightarrow>
             if has_prefix (trim_space t) compressedMarkerPrefix then None
             else if length t \<le> aggrMaxTokensPerMessage * charsPerToken then None
             else
               let summary = summarizeMessage t aggrMaxTokensPerMessage True
               in if summary \<noteq> [] \<and> length summary < length t then Some (with_content (J_str summary) m) else None)"

definition applyFallbackSummarizer :: "comp_options \<Rightarrow> json list \<Rightarrow> json list \<times> bool" where
  "applyFallbackSummarizer opts = each_message (summarize_long opts)"

section \<open>The mode\<close>

text \<open>Taking the result of another mode if it is shorter.\<close>

definition if_shorter :: "string \<Rightarrow> comp_result \<Rightarrow> json \<times> string list \<Rightarrow> json \<times> string list" where
  "if_shorter name r s =
     (if cr_Compressed r \<and> snapshotTokens (cr_Body r) < snapshotTokens (fst s)
      then (cr_Body r, snd s @ [name]) else s)"

definition aggressive_steps ::
  "regexp2 \<Rightarrow> (string list \<Rightarrow> string list) \<Rightarrow> ext_order \<Rightarrow> (string \<Rightarrow> bool) \<Rightarrow> comp_options \<Rightarrow> json \<Rightarrow> json \<times> string list" where
  "aggressive_steps rx order rng valid opts body =
     (let (out1, rtkStats) = CompressMessages rng body;
          aged = applyAging rx order valid opts (elems (messagesOf out1));
          out2 = (case aged of Some msgs \<Rightarrow> set_messages msgs out1 | None \<Rightarrow> out1);
          (msgs3, summarized) = applyFallbackSummarizer opts (elems (messagesOf out2));
          out3 = (if summarized then set_messages msgs3 out2 else out2)
      in (out3, (if rtkStats \<noteq> None then [''toolResult''] else []) @ (if aged \<noteq> None then [''aging''] else []) @
                (if summarized then [''summarizer''] else [])))"

definition applyAggressive ::
  "regexp2 \<Rightarrow> (string list \<Rightarrow> string list) \<Rightarrow> ext_order \<Rightarrow> (string \<Rightarrow> bool) \<Rightarrow> json \<Rightarrow> comp_options \<Rightarrow> comp_result" where
  "applyAggressive rx order rng valid body opts =
     (let (out, techniques) = aggressive_steps rx order rng valid opts body;
          original = int (snapshotTokens body); current = int (snapshotTokens out);
          savings = (if original > 0 then of_int (original - current) / of_int original else 0);
          s1 = if_shorter ''caveman-fallback'' (applyCaveman rx order out opts) (out, techniques);
          s2 = if_shorter ''lite-fallback'' (applyLite (fst s1) opts) s1;
          (out', techniques') = (if savings < aggrMinSavings then s2 else (out, techniques))
      in if elems (messagesOf body) = [] then not_compressed body
         else if techniques = [] then not_compressed body
         else compressed_by techniques' out')"

section \<open>System prompts\<close>

definition field :: "json \<Rightarrow> string \<Rightarrow> json option" where
  "field v k = (case as_obj v of Some m \<Rightarrow> m k | None \<Rightarrow> None)"

lemma prompt_of_field:
  "prompt_of m =
     (if field m ''role'' = Some (J_str ''system'') then
        (case field m ''content'' of Some (J_str s) \<Rightarrow> Some s | _ \<Rightarrow> None) else None)"
  by (cases m)
    (auto simp: prompt_of_def from_system_def roleOf_def string_content_def field_def as_obj_def str_field_def
      split: option.splits json.splits)

lemma field_edit:
  "field (fst (edit_field k f v st)) j =
     (if j = k then map_option (\<lambda>x. fst (f x st)) (field v k) else field v j)"
  by (cases v) (auto simp: edit_field_def field_def as_obj_def AList.update_conv' split: option.split)

lemma messagesOf_field: "messagesOf v = (case field v ''messages'' of Some (J_arr vs) \<Rightarrow> Some vs | _ \<Rightarrow> None)"
  by (auto simp: messagesOf_def field_def arr_field_def split: option.split)

lemma edit_each_string: "fst (edit_each f (J_str s) st) = J_str s"
  by (simp add: edit_each_def)

lemma edit_each_array: "\<exists>vs. fst (edit_each f (J_arr us) st) = J_arr vs"
  by (simp add: edit_each_def)

lemma edit_each_prompt:
  "(case fst (edit_each f c st) of J_str s \<Rightarrow> Some s | _ \<Rightarrow> None) = (case c of J_str s \<Rightarrow> Some s | _ \<Rightarrow> None)"
  by (cases c) (simp_all add: edit_each_def)

lemma rtk_message_prompt: "prompt_of (fst (edit_message rng m st)) = prompt_of m"
proof -
  have "field m ''role'' \<noteq> Some (J_str ''system'')" if "field_is ''role'' (J_str ''tool'') m"
    using that by (auto simp: field_is_def field_def split: option.splits)
  then show ?thesis
    by (auto simp: prompt_of_field edit_message_def field_edit edit_each_prompt split: option.split)
qed

lemma thread_prompts:
  assumes "\<And>m st. prompt_of (fst (f m st)) = prompt_of m"
  shows "system_prompts (fst (thread f ms st)) = system_prompts ms"
  by (induction ms arbitrary: st) (simp_all add: assms Let_def case_prod_beta)

lemma rtk_keeps_prompts: "body_prompts (fst (CompressMessages rng body)) = body_prompts body"
proof -
  have other: "body_prompts (fst (edit_field k f v st)) = body_prompts v" if "k \<noteq> ''messages''" for k f v st
    using that by (simp add: body_prompts_def messagesOf_field field_edit)
  have msgs: "body_prompts (fst (edit_field ''messages'' (edit_each (edit_message rng)) v st)) = body_prompts v" for v st
    by (auto simp: body_prompts_def messagesOf_field field_edit edit_each_def thread_prompts rtk_message_prompt
        split: option.split json.split)
  show ?thesis
    by (auto simp: CompressMessages_def compressKiro_def stats_of_def other msgs case_prod_beta Let_def
        split: option.split json.split)
qed

lemma retag_prompt:
  "retag valid tier t c m = Some m' \<Longrightarrow> \<not> from_system m \<Longrightarrow> prompt_of m' = prompt_of m"
  by (auto simp: retag_def prompt_of_def from_system_def Let_def split: if_splits)

lemma age_prompt:
  assumes "age rx order valid opts n m = Some m'" "co_PreserveSystemPrompt opts"
  shows "prompt_of m' = prompt_of m"
proof -
  have "\<not> from_system m" using assms by (auto simp: age_def kept_system_def split: if_splits)
  with assms show ?thesis
    by (auto simp: age_def ageMessage_def ageFullSummary_def elim: retag_prompt split: if_splits option.splits)
qed

lemma aging_prompts:
  assumes "applyAging rx order valid opts msgs = Some msgs'" "co_PreserveSystemPrompt opts"
  shows "system_prompts msgs' = system_prompts msgs"
proof (rule system_prompts_cong, rule nth_equalityI)
  have msgs': "msgs' = map (\<lambda>(i, m). case age rx order valid opts (length msgs - 1 - i) m of Some m' \<Rightarrow> m' | None \<Rightarrow> m) (enumerate 0 msgs)"
    using assms(1) by (auto simp: applyAging_def Let_def case_prod_beta split: if_splits)
  then show "length (map prompt_of msgs') = length (map prompt_of msgs)" by simp
  fix i assume "i < length (map prompt_of msgs')"
  with msgs' show "map prompt_of msgs' ! i = map prompt_of msgs ! i"
    using age_prompt [OF _ assms(2)] by (auto simp: nth_enumerate_eq split: option.split)
qed

lemma set_messages_prompts: "messagesOf body = Some ms \<Longrightarrow> body_prompts (set_messages msgs body) = system_prompts msgs"
  by (simp add: body_prompts_def messagesOf_set)

lemma steps_keep_prompts:
  assumes "co_PreserveSystemPrompt opts"
  shows "body_prompts (fst (aggressive_steps rx order rng valid opts body)) = body_prompts body"
proof -
  let ?out1 = "fst (CompressMessages rng body)"
  let ?aged = "applyAging rx order valid opts (elems (messagesOf ?out1))"
  let ?out2 = "case ?aged of Some msgs \<Rightarrow> set_messages msgs ?out1 | None \<Rightarrow> ?out1"
  let ?long = "applyFallbackSummarizer opts (elems (messagesOf ?out2))"
  have "body_prompts ?out2 = body_prompts ?out1"
  proof (cases ?aged)
    case (Some msgs)
    then obtain ms where "messagesOf ?out1 = Some ms"
      by (cases "messagesOf ?out1") (auto simp: applyAging_def)
    with Some show ?thesis using aging_prompts [OF Some assms]
      by (simp add: set_messages_prompts) (simp add: body_prompts_def)
  qed simp
  moreover have "body_prompts (if snd ?long then set_messages (fst ?long) ?out2 else ?out2) = body_prompts ?out2"
  proof (cases "messagesOf ?out2")
    case (Some ms)
    have "prompt_of m' = prompt_of m" if "summarize_long opts m = Some m'" for m m'
      using that assms
      by (auto simp: summarize_long_def kept_system_def prompt_of_def from_system_def Let_def split: option.splits if_splits)
    then have "system_prompts (fst ?long) = system_prompts ms"
      using Some by (simp add: applyFallbackSummarizer_def each_message_prompts)
    with Some show ?thesis by (simp add: set_messages_prompts) (simp add: body_prompts_def)
  qed (simp add: applyFallbackSummarizer_def each_message_def)
  ultimately show ?thesis
    by (simp add: aggressive_steps_def Let_def case_prod_beta rtk_keeps_prompts)
qed

lemma aggressive_keeps_prompts:
  assumes "co_PreserveSystemPrompt opts"
  shows "body_prompts (cr_Body (applyAggressive rx order rng valid body opts)) = body_prompts body"
proof -
  have shorter: "body_prompts (fst (if_shorter n r s)) = p"
    if "body_prompts (cr_Body r) = p" "body_prompts (fst s) = p" for n r s p
    using that by (simp add: if_shorter_def)
  show ?thesis
    by (auto simp: applyAggressive_def Let_def case_prod_beta not_compressed_def compressed_by_def
        steps_keep_prompts [OF assms] lite_keeps_prompts [OF assms] caveman_keeps_prompts [OF assms]
        intro!: shorter)
qed

interpretation aggressive: prompt_keeper
  "\<lambda>body. applyAggressive rx order rng valid body (opts\<lparr>co_PreserveSystemPrompt := True\<rparr>)"
  by unfold_locales (simp add: aggressive_keeps_prompts)

text \<open>
  An empty message of the assistant, as it stands before its tool calls, is given a mark as its
  content when it grows old.
\<close>

lemma empty_content_marked:
  "age rx order valid opts 8 (J_obj [(''role'', J_str ''assistant''), (''content'', J_str [])]) =
     Some (J_obj [(''role'', J_str ''assistant''), (''content'', J_str ''[COMPRESSED:aging:fullSummary] '')])"
proof -
  have "trim_space [] = []" by code_simp
  then show ?thesis
    by (simp add: age_def as_obj_def kept_system_def from_system_def roleOf_def str_field_def message_text_def
        content_text_def compressedMarkerPrefix_def agingVerbatim_def agingLight_def agingModerate_def
        ageFullSummary_def string_content_def retag_def tagAged_def structuredKind_def summarizeMessage_def
        with_content_def has_prefix_def Let_def)
qed

end
