(* ===== verification/Ultra.thy ===== *)
theory Ultra
  imports Lite Segments "HOL-Library.Sublist"
begin

text \<open>
  The ultra mode of the compressors, \<open>internal/compression/ultra.go\<close>: of the words of prose, those of
  little weight are pruned down to a share of the words.
\<close>

section \<open>Scores\<close>

definition ultraStopwords :: "string list" where
  "ultraStopwords =
     [''a'', ''an'', ''the'', ''is'', ''are'', ''was'', ''were'', ''be'', ''been'', ''being'',
      ''have'', ''has'', ''had'', ''do'', ''does'', ''did'', ''will'', ''would'', ''could'', ''should'',
      ''may'', ''might'', ''shall'', ''can'', ''need'', ''dare'', ''ought'', ''used'', ''i'', ''we'',
      ''you'', ''he'', ''she'', ''it'', ''they'', ''me'', ''us'', ''him'', ''her'', ''them'',
      ''my'', ''our'', ''your'', ''his'', ''its'', ''their'', ''this'', ''that'', ''these'', ''those'',
      ''and'', ''but'', ''or'', ''nor'', ''for'', ''yet'', ''so'', ''as'', ''at'', ''by'',
      ''in'', ''of'', ''on'', ''to'', ''up'', ''via'', ''with'', ''from'', ''into'', ''onto'',
      ''upon'', ''about'', ''just'', ''very'', ''really'', ''quite'', ''rather'', ''also'', ''too'', ''even'',
      ''still'', ''already'', ''always'', ''never'', ''often'', ''usually'', ''sometimes'', ''here'', ''there'']"

definition contains_any :: "string \<Rightarrow> string \<Rightarrow> bool" where
  "contains_any token chars \<longleftrightarrow> list_ex (\<lambda>c. c \<in> set chars) token"

definition forcePreserve :: "string \<Rightarrow> bool" where
  "forcePreserve token \<longleftrightarrow>
     contains_any token ''0123456789'' \<or> str_contains token ''http://'' \<or> str_contains token ''https://'' \<or>
     contains_any token [CHR ''.'', CHR ''_'', CHR ''/'', CHR 0x5C] \<or>
     str_contains token ''Error:'' \<or> str_contains token ''Exception:'' \<or> str_contains token ''```''"

definition scoreToken :: "string \<Rightarrow> rat" where
  "scoreToken token =
     (if forcePreserve token then 1
      else if to_lower token \<in> set ultraStopwords then 1 / 10
      else if length token \<le> 2 then 2 / 10
      else if char_range (CHR ''A'') (CHR ''Z'') (hd token) then 8 / 10
      else if length token \<ge> 6 then 7 / 10
      else 5 / 10)"

section \<open>Pruning\<close>

definition prose_words :: "string \<Rightarrow> string list" where
  "prose_words t = fields_by (\<lambda>c. c = CHR '' '' \<or> c = CHR 9 \<or> c = CHR 10) [] t"

definition target_keep :: "rat \<Rightarrow> nat \<Rightarrow> nat" where
  "target_keep keepRate n = nat \<lfloor>of_nat n * keepRate + 999 / 1000\<rfloor>"

text \<open>The positions to prune: those below the minimum, the lowest scores first.\<close>

definition pruned_positions :: "nat \<Rightarrow> rat \<Rightarrow> string list \<Rightarrow> nat list" where
  "pruned_positions maxPrune minScore toks =
     take maxPrune (map fst (filter (\<lambda>(i, x). x < minScore)
       (sort_key snd (enumerate 0 (map scoreToken toks)))))"

fun join_words :: "string list \<Rightarrow> string" where
  "join_words [] = []"
| "join_words [w] = w"
| "join_words (w # v # ws) = w @ CHR '' '' # join_words (v # ws)"

definition kept_words :: "rat \<Rightarrow> rat \<Rightarrow> string list \<Rightarrow> string list" where
  "kept_words keepRate minScore toks =
     (let pruned = pruned_positions (length toks - target_keep keepRate (length toks)) minScore toks
      in map snd (filter (\<lambda>(i, f). i \<notin> set pruned) (enumerate 0 toks)))"

definition pruneByScore :: "string \<Rightarrow> rat \<Rightarrow> rat \<Rightarrow> string" where
  "pruneByScore t keepRate minScore =
     (let toks = prose_words t
      in if t = [] \<or> keepRate \<ge> 1 then t
         else if toks = [] then t
         else if target_keep keepRate (length toks) \<ge> length toks then t
         else join_words (kept_words keepRate minScore toks))"

definition prune_segment :: "segment \<Rightarrow> segment" where
  "prune_segment s = (if sg_isCode s then s else s\<lparr>sg_text := pruneByScore (sg_text s) (6 / 10) (3 / 10)\<rparr>)"

definition ultra_text :: "string \<Rightarrow> string option" where
  "ultra_text s =
     (let segs = splitCodeBlocks s; pruned = map prune_segment segs; newText = joinSegments pruned
      in if pruned \<noteq> segs \<and> length newText < length s then Some newText else None)"

definition ultra_message :: "comp_options \<Rightarrow> json \<Rightarrow> json option" where
  "ultra_message opts m =
     (if kept_system opts m then None
      else case string_content m of
             None \<Rightarrow> None
           | Some s \<Rightarrow>
             if length s < 40 then None
             else map_option (\<lambda>t. with_content (J_str t) m) (ultra_text s))"

definition applyUltra :: "json \<Rightarrow> comp_options \<Rightarrow> comp_result" where
  "applyUltra body opts =
     (let msgs = elems (messagesOf body);
          (msgs', applied) = each_message (ultra_message opts) msgs
      in if msgs = [] then not_compressed body
         else if \<not> applied then not_compressed body
         else compressed_by [''ultra-prune''] (set_messages msgs' body))"

section \<open>What is kept\<close>

lemma filter_enumerate:
  "map snd (filter (\<lambda>(i, f). P i) (enumerate n xs)) = nths xs {i. P (i + n)}"
proof (induction xs arbitrary: n)
  case (Cons x xs)
  then show ?case by (auto simp: nths_Cons)
qed simp

lemma pruned_low:
  assumes "i \<in> set (pruned_positions k m toks)"
  shows "i < length toks" "scoreToken (toks ! i) < m"
proof -
  have "(i, x) \<in> set (enumerate 0 (map scoreToken toks)) \<Longrightarrow> i < length toks \<and> x = scoreToken (toks ! i)" for x
    by (auto simp: in_set_enumerate_eq)
  then have "i < length toks \<and> scoreToken (toks ! i) < m"
    using assms unfolding pruned_positions_def by (fastforce dest!: in_set_takeD)
  then show "i < length toks" "scoreToken (toks ! i) < m" by simp_all
qed

lemma pruned_few: "length (pruned_positions k m toks) \<le> k"
  by (simp add: pruned_positions_def)

lemma filter_nths:
  assumes "\<And>i. i < length xs \<Longrightarrow> P (xs ! i) \<Longrightarrow> i \<in> A"
  shows "filter P (nths xs A) = filter P xs"
  using assms
proof (induction xs arbitrary: A)
  case (Cons x xs)
  have "filter P (nths xs {j. Suc j \<in> A}) = filter P xs"
    using Cons.prems by (intro Cons.IH) force
  with Cons.prems [of 0] show ?case by (auto simp: nths_Cons)
qed simp

lemma nths_subseq: "subseq (nths xs A) xs"
  by (induction xs arbitrary: A) (auto simp: nths_Cons)

lemma kept_words_nths:
  "kept_words r m toks = nths toks {i. i \<notin> set (pruned_positions (length toks - target_keep r (length toks)) m toks)}"
  using filter_enumerate [of "\<lambda>i. i \<notin> set (pruned_positions (length toks - target_keep r (length toks)) m toks)" 0 toks]
  by (simp add: kept_words_def Let_def)

lemma kept_words_enough:
  assumes "target_keep r (length toks) \<le> length toks"
  shows "target_keep r (length toks) \<le> length (kept_words r m toks)"
proof -
  let ?p = "pruned_positions (length toks - target_keep r (length toks)) m toks"
  have "card {i. i < length toks \<and> i \<notin> set ?p} = length toks - card (set ?p)"
  proof -
    have "{i. i < length toks \<and> i \<notin> set ?p} = {..<length toks} - set ?p" by auto
    moreover have "set ?p \<subseteq> {..<length toks}" using pruned_low(1) by blast
    ultimately show ?thesis by (simp add: card_Diff_subset)
  qed
  moreover have "card (set ?p) \<le> length toks - target_keep r (length toks)"
    using pruned_few card_length le_trans by blast
  ultimately show ?thesis using assms by (simp add: kept_words_nths length_nths)
qed

text \<open>
  What pruning leaves of a piece of prose. Either it is as it was, or it is its words put together
  with single spaces without some: the order stays, every word of a score of at least the minimum
  stays, and at least the share of the words that is to be kept.
\<close>

theorem pruning_keeps_weight:
  "pruneByScore t r m \<in> {t, join_words (kept_words r m (prose_words t))} \<and>
   filter (\<lambda>w. m \<le> scoreToken w) (kept_words r m (prose_words t)) = filter (\<lambda>w. m \<le> scoreToken w) (prose_words t) \<and>
   subseq (kept_words r m (prose_words t)) (prose_words t) \<and>
   min (target_keep r (length (prose_words t))) (length (prose_words t)) \<le> length (kept_words r m (prose_words t))"
proof (intro conjI)
  let ?f = "prose_words t"
  let ?p = "pruned_positions (length ?f - target_keep r (length ?f)) m ?f"
  show "pruneByScore t r m \<in> {t, join_words (kept_words r m ?f)}" by (simp add: pruneByScore_def Let_def)
  show "filter (\<lambda>w. m \<le> scoreToken w) (kept_words r m ?f) = filter (\<lambda>w. m \<le> scoreToken w) ?f"
    unfolding kept_words_nths using pruned_low(2) by (intro filter_nths) (auto simp: not_le [symmetric])
  show "subseq (kept_words r m ?f) ?f" unfolding kept_words_nths by (rule nths_subseq)
  show "min (target_keep r (length ?f)) (length ?f) \<le> length (kept_words r m ?f)"
  proof (cases "target_keep r (length ?f) \<le> length ?f")
    case False
    then have "?p = []" by (simp add: pruned_positions_def)
    then show ?thesis by (simp add: kept_words_nths nths_all)
  qed (use kept_words_enough in force)
qed

text \<open>Words that turn a sentence around have little weight, and so has the end of inline code.\<close>

lemma negations_are_light:
  "scoreToken ''no'' = 2 / 10" "scoreToken ''never'' = 1 / 10" "scoreToken ''nor'' = 1 / 10" "scoreToken ''`'' = 2 / 10"
  by (simp_all add: scoreToken_def forcePreserve_def contains_any_def str_contains_def has_prefix_def
      ultraStopwords_def to_lower_def lower_char_def)

lemma ultra_keeps_prompts:
  assumes "co_PreserveSystemPrompt opts"
  shows "body_prompts (cr_Body (applyUltra body opts)) = body_prompts body"
proof (cases "messagesOf body")
  case (Some msgs)
  have "prompt_of m' = prompt_of m" if "ultra_message opts m = Some m'" for m m'
    using that assms
    by (auto simp: ultra_message_def kept_system_def prompt_of_def from_system_def split: option.splits if_splits)
  then have "system_prompts (fst (each_message (ultra_message opts) msgs)) = system_prompts msgs"
    by (rule each_message_prompts)
  with Some show ?thesis
    by (auto simp: applyUltra_def Let_def case_prod_beta not_compressed_def compressed_by_def body_prompts_def messagesOf_set)
qed (simp add: applyUltra_def Let_def case_prod_beta not_compressed_def)

interpretation ultra: prompt_keeper "\<lambda>body. applyUltra body (opts\<lparr>co_PreserveSystemPrompt := True\<rparr>)"
  by unfold_locales (simp add: ultra_keeps_prompts)

end
