(* ===== verification/Compression.thy ===== *)
theory Compression
  imports Aggressive Ultra
begin

text \<open>
  The pipeline of the prompt compressors: \<open>internal/compression/compression.go\<close>, the adjustment for
  providers that cache prompts (\<open>cacheaware.go\<close>), and the measured savings (\<open>analytics.go\<close>). The
  counters stay far below the range of \<open>int\<close>.
\<close>

section \<open>Modes\<close>

definition mode_valid :: "string \<Rightarrow> bool" where
  "mode_valid m \<longleftrightarrow> m \<in> {''off'', ''lite'', ''standard'', ''aggressive'', ''ultra''}"

definition ParseMode :: "string \<Rightarrow> string" where
  "ParseMode s = (if mode_valid s then s else ''off'')"

section \<open>Caching providers\<close>

definition cachingProviders :: "string list" where
  "cachingProviders =
     [''claude'', ''anthropic'', ''zai'', ''deepseek'', ''kimi-coding'', ''kimi-coding-apikey'', ''xiaomi-mimo'',
      ''openai'', ''codex'', ''azure'', ''dashscope'', ''alicode'', ''alicode-intl'']"

definition CachingProvider :: "string \<Rightarrow> bool" where
  "CachingProvider provider \<longleftrightarrow> to_lower (trim_space provider) \<in> set cachingProviders"

definition inferProvider :: "string \<Rightarrow> string" where
  "inferProvider model =
     (let m = to_lower model
      in if has_prefix m ''@cf/'' then ''cloudflare''
         else if has_prefix m ''grok'' then ''grok''
         else if has_prefix m ''cb/'' then ''codebuddy''
         else if has_prefix m ''gpt-'' \<or> has_prefix m ''o1-'' \<or> has_prefix m ''o3-'' then ''openai''
         else if has_prefix m ''claude'' then ''anthropic''
         else if has_prefix m ''gemini'' then ''google''
         else if has_prefix m ''deepseek'' then ''deepseek''
         else case str_index m ''/'' of
                Some idx \<Rightarrow> if idx > 0 then take idx m else []
              | None \<Rightarrow> [])"

fun scanCacheControl :: "json \<Rightarrow> bool" where
  "scanCacheControl (J_obj kvs) \<longleftrightarrow>
     list_ex (\<lambda>kv. fst kv = ''cache_control'') kvs \<or> list_ex (\<lambda>kv. scanCacheControl (snd kv)) kvs"
| "scanCacheControl (J_arr vs) \<longleftrightarrow> list_ex (\<lambda>v. scanCacheControl v) vs"
| "scanCacheControl _ \<longleftrightarrow> False"

definition cacheAwareAdjust :: "string \<Rightarrow> string \<Rightarrow> json \<Rightarrow> string \<times> bool" where
  "cacheAwareAdjust mode provider body =
     (let isCaching = CachingProvider provider \<or> scanCacheControl body
      in if \<not> isCaching then (mode, False)
         else (if mode = ''aggressive'' \<or> mode = ''ultra'' then ''standard'' else mode, True))"

section \<open>Applying a mode\<close>

text \<open>
  What the pipeline takes from outside: the expressions, the orders of loops over maps, whether a
  text is JSON, and the clock.
\<close>

record comp_env =
  ce_rx :: regexp2
  ce_order :: "string list \<Rightarrow> string list"
  ce_exts :: ext_order
  ce_valid :: "string \<Rightarrow> bool"
  ce_now :: int

definition mode_engine :: "comp_env \<Rightarrow> string \<Rightarrow> comp_options \<Rightarrow> json \<Rightarrow> comp_result" where
  "mode_engine e mode opts body =
     (if mode = ''lite'' then applyLite body opts
      else if mode = ''standard'' then applyCaveman (ce_rx e) (ce_order e) body opts
      else if mode = ''aggressive'' then applyAggressive (ce_rx e) (ce_order e) (ce_exts e) (ce_valid e) body opts
      else if mode = ''ultra'' then applyUltra body opts
      else not_compressed body)"

definition Apply :: "comp_env \<Rightarrow> json \<Rightarrow> string \<Rightarrow> comp_options \<Rightarrow> comp_result" where
  "Apply e body mode0 opts0 =
     (if as_obj body = None \<or> mode0 = ''off'' \<or> \<not> mode_valid mode0 then not_compressed body
      else
        let provider = (if co_Provider opts0 = [] then inferProvider (co_Model opts0) else co_Provider opts0);
            (mode, forcePreserve) = cacheAwareAdjust mode0 provider body;
            opts = (if forcePreserve then opts0\<lparr>co_PreserveSystemPrompt := True\<rparr> else opts0)
        in checked (ce_now e) mode body (mode_engine e mode opts body))"

text \<open>The options of the gateway.\<close>

definition gateway_options :: "string \<Rightarrow> comp_options" where
  "gateway_options model = \<lparr>co_Model = model, co_Provider = [], co_PreserveSystemPrompt = True\<rparr>"

lemma gateway_preserves [simp]:
  "gateway_options model\<lparr>co_PreserveSystemPrompt := True\<rparr> = gateway_options model"
  "co_PreserveSystemPrompt (gateway_options model)"
  by (simp_all add: gateway_options_def)

interpretation engines: prompt_keeper "mode_engine e mode (gateway_options model)"
  by unfold_locales
    (simp add: mode_engine_def not_compressed_def lite_keeps_prompts caveman_keeps_prompts ultra_keeps_prompts
      aggressive_keeps_prompts)

text \<open>
  In every mode, whatever the expressions of the rules match, the gateway's compression leaves the
  text of each system message as it is, in order.
\<close>

theorem compression_keeps_prompts:
  "body_prompts (cr_Body (Apply e body mode (gateway_options model))) = body_prompts body"
  by (simp add: Apply_def Let_def case_prod_beta engines.checked_prompts) (simp add: not_compressed_def)

lemma checked_cases:
  "case cr_Stats (checked now mode body res) of
     None \<Rightarrow> checked now mode body res = not_compressed body
   | Some st \<Rightarrow>
       cr_Compressed res \<and> cr_Body (checked now mode body res) = cr_Body res \<and>
       snapshotTokens (cr_Body res) < snapshotTokens body \<and>
       cs_OriginalTokens st = int (snapshotTokens body) \<and> cs_CompressedTokens st = int (snapshotTokens (cr_Body res)) \<and>
       cs_Mode st = mode \<and>
       cs_SavingsPercent st =
         of_int ((cs_OriginalTokens st - cs_CompressedTokens st) * 100) / of_int (cs_OriginalTokens st) \<and>
       fidelityAccept mode (cs_SavingsPercent st)"
  by (auto simp: checked_def Let_def not_compressed_def)

text \<open>
  C29: Compression pays. Either the body is what it was and nothing is recorded, or it has fewer tokens, as
  many as recorded, and the recorded share is the true one, at least three in a hundred in a mode that
  rewrites.
\<close>

theorem compression_pays:
  "case cr_Stats (Apply e body mode opts) of
     None \<Rightarrow> cr_Body (Apply e body mode opts) = body
   | Some st \<Rightarrow>
       cs_OriginalTokens st = int (snapshotTokens body) \<and>
       cs_CompressedTokens st = int (snapshotTokens (cr_Body (Apply e body mode opts))) \<and>
       cs_CompressedTokens st < cs_OriginalTokens st \<and>
       cs_SavingsPercent st =
         of_int ((cs_OriginalTokens st - cs_CompressedTokens st) * 100) / of_int (cs_OriginalTokens st) \<and>
       (if cs_Mode st = ''lite'' then True else 3 \<le> cs_SavingsPercent st)"
proof (cases "as_obj body = None \<or> mode = ''off'' \<or> \<not> mode_valid mode")
  case False
  then obtain m r where a: "Apply e body mode opts = checked (ce_now e) m body r"
    by (simp add: Apply_def Let_def case_prod_beta)
  show ?thesis
    using checked_cases [of "ce_now e" m body r]
    by (auto simp: a not_compressed_def fidelityAccept_def fidelityMinSavingsPercent_def split: option.splits)
qed (auto simp: Apply_def not_compressed_def)

text \<open>
  A body without text is never compressed. So images that are all there is of it are never replaced
  by placeholders, which cost tokens, as images do not.
\<close>

lemma nothing_to_gain: "snapshotTokens body = 0 \<Longrightarrow> Apply e body mode opts = not_compressed body"
  by (auto simp: Apply_def checked_def Let_def case_prod_beta)

section \<open>Measured savings\<close>

record receipt =
  rp_Timestamp :: int
  rp_Mode :: string
  rp_OriginalTokens :: int
  rp_CompressedTokens :: int
  rp_SavedTokens :: int
  rp_SavingsPercent :: rat
  rp_Techniques :: "string list"

record mode_stat =
  md_Requests :: int
  md_OriginalTokens :: int
  md_SavedTokens :: int
  md_SavingsPercent :: rat

record comp_tracker =
  tr_totalRequests :: int
  tr_totalOriginal :: int
  tr_totalCompressed :: int
  tr_byMode :: "string \<Rightarrow> mode_stat option"
  tr_recent :: "receipt list"

definition maxRecentReceipts :: nat where "maxRecentReceipts = 100"

definition empty_tracker :: comp_tracker where
  "empty_tracker = \<lparr>tr_totalRequests = 0, tr_totalOriginal = 0, tr_totalCompressed = 0, tr_byMode = (\<lambda>_. None), tr_recent = []\<rparr>"

definition receipt_of :: "int \<Rightarrow> comp_stats \<Rightarrow> receipt" where
  "receipt_of now st =
     \<lparr>rp_Timestamp = (if cs_Timestamp st = 0 then now else cs_Timestamp st), rp_Mode = cs_Mode st,
      rp_OriginalTokens = cs_OriginalTokens st, rp_CompressedTokens = cs_CompressedTokens st,
      rp_SavedTokens = max 0 (cs_OriginalTokens st - cs_CompressedTokens st),
      rp_SavingsPercent = cs_SavingsPercent st, rp_Techniques = cs_TechniquesUsed st\<rparr>"

definition add_mode :: "comp_stats \<Rightarrow> int \<Rightarrow> mode_stat option \<Rightarrow> mode_stat" where
  "add_mode st saved ms0 =
     (let ms = (case ms0 of
                  Some ms \<Rightarrow> ms
                | None \<Rightarrow> \<lparr>md_Requests = 0, md_OriginalTokens = 0, md_SavedTokens = 0, md_SavingsPercent = 0\<rparr>);
          ms1 = ms\<lparr>md_Requests := md_Requests ms + 1,
                   md_OriginalTokens := md_OriginalTokens ms + cs_OriginalTokens st,
                   md_SavedTokens := md_SavedTokens ms + saved\<rparr>
      in if md_OriginalTokens ms1 > 0
         then ms1\<lparr>md_SavingsPercent := of_int (md_SavedTokens ms1 * 100) / of_int (md_OriginalTokens ms1)\<rparr> else ms1)"

definition comp_Record :: "int \<Rightarrow> comp_stats option \<Rightarrow> comp_tracker \<Rightarrow> comp_tracker" where
  "comp_Record now stats t =
     (case stats of
        None \<Rightarrow> t
      | Some st \<Rightarrow>
        if cs_OriginalTokens st \<le> 0 then t
        else
          let r = receipt_of now st
          in t\<lparr>tr_totalRequests := tr_totalRequests t + 1,
               tr_totalOriginal := tr_totalOriginal t + cs_OriginalTokens st,
               tr_totalCompressed := tr_totalCompressed t + cs_CompressedTokens st,
               tr_byMode := (tr_byMode t)(cs_Mode st \<mapsto> add_mode st (rp_SavedTokens r) (tr_byMode t (cs_Mode st))),
               tr_recent := (let rs = r # tr_recent t in if length rs > maxRecentReceipts then take maxRecentReceipts rs else rs)\<rparr>)"

record comp_summary =
  sm_TotalRequests :: int
  sm_TotalOriginal :: int
  sm_TotalCompressed :: int
  sm_TotalSaved :: int
  sm_SavingsPercent :: rat
  sm_ByMode :: "string \<Rightarrow> mode_stat option"
  sm_Recent :: "receipt list"

definition Analytics :: "comp_tracker \<Rightarrow> comp_summary" where
  "Analytics t =
     (let saved = max 0 (tr_totalOriginal t - tr_totalCompressed t)
      in \<lparr>sm_TotalRequests = tr_totalRequests t, sm_TotalOriginal = tr_totalOriginal t,
          sm_TotalCompressed = tr_totalCompressed t, sm_TotalSaved = saved,
          sm_SavingsPercent = (if tr_totalOriginal t > 0 then of_int (saved * 100) / of_int (tr_totalOriginal t) else 0),
          sm_ByMode = tr_byMode t, sm_Recent = tr_recent t\<rparr>)"

text \<open>The receipts of a history of calls, oldest first.\<close>

definition receipts :: "(int \<times> comp_stats option) list \<Rightarrow> receipt list" where
  "receipts h = List.map_filter (\<lambda>(now, st). case st of
       Some s \<Rightarrow> if cs_OriginalTokens s \<le> 0 then None else Some (receipt_of now s)
     | None \<Rightarrow> None) h"

definition run_tracker :: "(int \<times> comp_stats option) list \<Rightarrow> comp_tracker" where
  "run_tracker h = fold (\<lambda>(now, st). comp_Record now st) h empty_tracker"

lemma map_filter_snoc:
  "List.map_filter f (xs @ [x]) = List.map_filter f xs @ (case f x of None \<Rightarrow> [] | Some y \<Rightarrow> [y])"
  by (simp add: List.map_filter_def split: option.split)

text \<open>The tracker counts the receipts, adds up their tokens and holds the last hundred, newest first.\<close>

theorem tracker_sums:
  "tr_totalRequests (run_tracker h) = int (length (receipts h)) \<and>
   tr_totalOriginal (run_tracker h) = sum_list (map rp_OriginalTokens (receipts h)) \<and>
   tr_totalCompressed (run_tracker h) = sum_list (map rp_CompressedTokens (receipts h)) \<and>
   tr_recent (run_tracker h) = take 100 (rev (receipts h))"
proof (induction h rule: rev_induct)
  case Nil
  then show ?case by (simp add: run_tracker_def empty_tracker_def receipts_def List.map_filter_def)
next
  case (snoc x h)
  obtain now st where x: "x = (now, st)" by (cases x)
  have run: "run_tracker (h @ [x]) = comp_Record now st (run_tracker h)" by (simp add: run_tracker_def x)
  have rs: "receipts (h @ [x]) = receipts h @
      (case st of Some s \<Rightarrow> if cs_OriginalTokens s \<le> 0 then [] else [receipt_of now s] | None \<Rightarrow> [])"
    by (simp add: receipts_def map_filter_snoc x split: option.split)
  show ?case
  proof (cases "\<exists>s. st = Some s \<and> 0 < cs_OriginalTokens s")
    case False
    then have "receipts (h @ [x]) = receipts h" "run_tracker (h @ [x]) = run_tracker h"
      unfolding rs run by (auto simp: comp_Record_def split: option.split)
    then show ?thesis using snoc by simp
  next
    case True
    then obtain s where s: "st = Some s" "0 < cs_OriginalTokens s" by auto
    have "(if length (r # take 100 rr) > 100 then take 100 (r # take 100 rr) else r # take 100 rr) = take 100 (r # rr)"
      for r :: receipt and rr by (simp add: take_Cons' min_def)
    with snoc s show ?thesis
      unfolding rs run by (simp add: comp_Record_def Let_def maxRecentReceipts_def receipt_of_def)
  qed
qed

end
