(* ===== verification/Prepare.thy ===== *)
theory Prepare
  imports Compression TokenSaver Guardrails Routing
begin

text \<open>
  What the chat handler does to a body before the cache and the routing, in
  \<open>internal/proxy/proxy.go\<close>: the default model, redaction, compression, trimming of old turns, and the
  directive; and the handler with these steps in place. The configuration is read once.
\<close>

record prepare_env =
  pe_saver :: saver_config
  pe_rtkEnabled :: bool
  pe_combos :: "combo_registry option"
  pe_guard :: guardrails
  pe_comp :: comp_env

definition set_field :: "string \<Rightarrow> json \<Rightarrow> json \<Rightarrow> json" where
  "set_field k v body = (case body of J_obj kvs \<Rightarrow> J_obj (AList.update k v kvs) | _ \<Rightarrow> body)"

definition body_model :: "json \<Rightarrow> string" where
  "body_model body = (case as_obj body of Some m \<Rightarrow> str_field m ''model'' | None \<Rightarrow> [])"

definition default_model :: "json \<Rightarrow> json" where
  "default_model body = (if body_model body = [] then set_field ''model'' (J_str ''grok-4.5'') body else body)"

text \<open>The mode of the configuration, or the one a combo has of its own.\<close>

definition request_mode :: "prepare_env \<Rightarrow> string \<Rightarrow> string" where
  "request_mode env model =
     (let m0 = ParseMode (ts_Mode (pe_saver env))
      in case pe_combos env of
           None \<Rightarrow> m0
         | Some r \<Rightarrow>
           if has_prefix model ''combo/'' then
             (case GetCombo (trim_prefix model ''combo/'') r of
                Some c \<Rightarrow> if cb_CompressionMode c \<noteq> [] then ParseMode (cb_CompressionMode c) else m0
              | None \<Rightarrow> m0)
           else m0)"

definition compress_step :: "prepare_env \<Rightarrow> string \<Rightarrow> json \<times> comp_tracker \<Rightarrow> json \<times> comp_tracker" where
  "compress_step env model bt =
     (case bt of (body, t) \<Rightarrow>
        let mode = request_mode env model in
        if mode \<noteq> ''off'' then
          (let res = Apply (pe_comp env) body mode (gateway_options model)
           in if cr_Compressed res \<and> cr_Stats res \<noteq> None
              then (cr_Body res, comp_Record (ce_now (pe_comp env)) (cr_Stats res) t) else (body, t))
        else if ts_RTK (pe_saver env) \<and> pe_rtkEnabled env
        then (fst (CompressMessages (ce_exts (pe_comp env)) body), t)
        else (body, t))"

definition headroom_step :: "prepare_env \<Rightarrow> json \<Rightarrow> json" where
  "headroom_step env body = (if ts_Headroom (pe_saver env) then fst (CompressHeadroom body 10) else body)"

definition directive_step :: "prepare_env \<Rightarrow> json \<Rightarrow> json" where
  "directive_step env body =
     (let dir = Directive (pe_saver env) in if dir \<noteq> [] then fst (InjectDirective body dir) else body)"

definition prepare_body :: "prepare_env \<Rightarrow> json \<Rightarrow> comp_tracker \<Rightarrow> json \<times> comp_tracker" where
  "prepare_body env raw t =
     (let body0 = default_model raw;
          body1 = fst (RedactPII (pe_guard env) body0);
          (body2, t') = compress_step env (body_model body0) (body1, t)
      in (directive_step env (headroom_step env body2), t'))"

text \<open>The handler on a decoded body.\<close>

definition chat_request ::
  "prepare_env \<Rightarrow> json \<Rightarrow> comp_tracker \<Rightarrow> 'w routing_env \<Rightarrow> 'w gateway \<Rightarrow>
   (chat_reply \<times> target list \<times> 'w gateway \<times> routing_call list) \<times> comp_tracker" where
  "chat_request penv raw t env g =
     (case as_obj raw of
        None \<Rightarrow> (ProxyRequest (env\<lparr>re_body := (if raw = J_null then Null_body else Not_json)\<rparr>) g, t)
      | Some m \<Rightarrow>
        (let (body, t') = prepare_body (penv\<lparr>pe_combos := re_combos env\<rparr>) raw t
         in (ProxyRequest (env\<lparr>re_body := Body m, re_stages := (\<lambda>_ _. case as_obj body of Some b \<Rightarrow> b | None \<Rightarrow> Map.empty)\<rparr>) g, t')))"

section \<open>System prompts\<close>

text \<open>Every prompt of the first list is the start of one of the second.\<close>

definition survive :: "string list \<Rightarrow> string list \<Rightarrow> bool" where
  "survive ps qs = list_all (\<lambda>p. list_ex (\<lambda>q. has_prefix q p) qs) ps"

lemma survive_iff: "survive ps qs \<longleftrightarrow> (\<forall>p \<in> set ps. \<exists>q \<in> set qs. has_prefix q p)"
  by (simp add: survive_def list_all_iff list_ex_iff)

lemma survive_subset: "set ps \<subseteq> set qs \<Longrightarrow> survive ps qs"
  unfolding survive_iff by (meson has_prefix_refl subsetD)

lemma survive_refl [simp]: "survive ps ps"
  by (rule survive_subset) simp

lemma survive_Un:
  "survive ps qs \<Longrightarrow> survive (ps @ rs) (qs @ rs)"
  using survive_refl [of rs] unfolding survive_iff by auto

lemma survive_trans: "survive ps qs \<Longrightarrow> survive qs rs \<Longrightarrow> survive ps rs"
  unfolding survive_iff by (meson has_prefix_trans)

lemma prompts_of_update:
  assumes "map_of kvs ''messages'' = Some (J_arr msgs)"
  shows "body_prompts (J_obj (AList.update ''messages'' (J_arr out) kvs)) = system_prompts out"
    "body_prompts (J_obj kvs) = system_prompts msgs"
  using assms by (simp_all add: body_prompts_def messagesOf_def as_obj_def arr_field_def AList.update_conv')

lemma system_prompts_append [simp]: "system_prompts (xs @ ys) = system_prompts xs @ system_prompts ys"
  by (induction xs) auto

lemma is_role_from_system: "is_role ''system'' = from_system"
  by (rule ext) (auto simp: is_role_def from_system_def roleOf_def split: option.split)

lemma system_prompts_filter: "system_prompts (filter from_system ms) = system_prompts ms"
  by (induction ms) (auto simp: prompt_of_def)

lemma headroom_survive: "survive (body_prompts body) (body_prompts (headroom_step env body))"
proof -
  have "survive (system_prompts msgs) (system_prompts out)" if "headroom_messages k msgs = Some (out, d)" for k msgs out d
  proof -
    have "system_prompts (filter from_system msgs) = system_prompts msgs" by (rule system_prompts_filter)
    moreover have "\<exists>rest. out = filter from_system msgs @ rest"
      using that by (auto simp: headroom_messages_def Let_def case_prod_beta is_role_from_system split: if_splits)
    ultimately show ?thesis by (intro survive_subset) auto
  qed
  then show ?thesis
    by (auto simp: headroom_step_def CompressHeadroom_def prompts_of_update Let_def split: json.splits option.splits)
qed

lemma add_directive_survive:
  assumes "add_directive d m = Some m'" "from_system m"
  shows "survive (system_prompts [m]) (system_prompts [m'])"
proof -
  obtain kvs where m: "m = J_obj kvs" using assms(1) by (cases m) (auto simp: add_directive_def)
  obtain u where m': "m' = with_content (J_str (str_field (map_of kvs) ''content'' @ u)) m"
    using assms(1) by (auto simp: m add_directive_def with_content_def Let_def split: if_splits)
  have "prompt_of m' = Some (str_field (map_of kvs) ''content'' @ u)"
    using assms(2)
    by (simp add: m' prompt_of_def from_system_def m string_content_def with_content_def as_obj_def AList.update_conv' roleOf_def str_field_def)
  moreover have "prompt_of m = Some p \<Longrightarrow> p = str_field (map_of kvs) ''content''" for p
    by (auto simp: prompt_of_def string_content_def m as_obj_def str_field_def split: if_splits option.splits json.splits)
  ultimately show ?thesis by (cases "prompt_of m") (auto simp: survive_iff)
qed

lemma inject_survive: "inject d ms = Some ms' \<Longrightarrow> survive (system_prompts ms) (system_prompts ms')"
proof (induction d ms arbitrary: ms' rule: inject.induct)
  case (2 d m ms)
  show ?case
  proof (cases "from_system m")
    case True
    then obtain m' where m': "add_directive d m = Some m'" "ms' = m' # ms" using 2 by (auto simp: is_role_from_system)
    then show ?thesis using survive_Un [OF add_directive_survive [OF m'(1) True], of "system_prompts ms"]
      by (simp add: m'(2))
  next
    case False
    then obtain ms1 where "inject d ms = Some ms1" "ms' = m # ms1" using 2(2) by (auto simp: is_role_from_system)
    with 2(1) False show ?thesis by (auto simp: is_role_from_system prompt_of_def)
  qed
qed (simp add: survive_def)

lemma directive_survive: "survive (body_prompts body) (body_prompts (directive_step env body))"
  by (auto simp: directive_step_def InjectDirective_def prompts_of_update inject_survive Let_def
      split: json.splits option.splits)

lemma compress_survive: "body_prompts (fst (compress_step env model bt)) = body_prompts (fst bt)"
  by (cases bt) (simp add: compress_step_def Let_def compression_keeps_prompts rtk_keeps_prompts)

lemma prepare_survive:
  "survive (body_prompts raw) (body_prompts (fst (prepare_body (env\<lparr>pe_guard := g\<lparr>gd_redact := False\<rparr>\<rparr>) raw t)))"
proof -
  let ?env = "env\<lparr>pe_guard := g\<lparr>gd_redact := False\<rparr>\<rparr>"
  have "body_prompts (default_model raw) = body_prompts raw"
    by (auto simp: default_model_def set_field_def body_prompts_def messagesOf_def as_obj_def arr_field_def
        AList.update_conv' split: json.split)
  moreover have "fst (RedactPII (pe_guard ?env) b) = b" for b by (simp add: RedactPII_def)
  ultimately have "body_prompts (fst (compress_step ?env m (fst (RedactPII (pe_guard ?env) (default_model raw)), t))) =
      body_prompts raw" for m
    by (simp only: compress_survive fst_conv)
  then show ?thesis
    using headroom_survive directive_survive survive_trans
    by (simp add: prepare_body_def Let_def case_prod_beta) metis
qed

section \<open>Up to the upstream\<close>

definition map_prompts :: "json_map \<Rightarrow> string list" where
  "map_prompts bm = system_prompts (elems (arr_field bm ''messages''))"

lemma map_prompts_body:
  "map_prompts (case as_obj body of Some b \<Rightarrow> b | None \<Rightarrow> Map.empty) = body_prompts body"
  by (auto simp: map_prompts_def body_prompts_def messagesOf_def arr_field_def split: option.split)

lemma map_prompts_upd [simp]: "k \<noteq> ''messages'' \<Longrightarrow> map_prompts (bm(k \<mapsto> v)) = map_prompts bm"
  by (simp add: map_prompts_def arr_field_def)

lemma map_prompts_effort: "map_prompts (snd (expand_effort up m bm)) = map_prompts bm"
  by (auto simp: expand_effort_def Let_def split: option.split)

lemma map_prompts_dispatch: "map_prompts (target_body (dispatch up mn m bm)) = map_prompts bm"
  by (simp add: dispatch_def split: option.split)

lemma map_prompts_candidate:
  "map_prompts (target_body (snd (snd (fallback_candidate reg c bm)))) = map_prompts bm"
  "map_prompts (fst (snd (fallback_candidate reg c bm))) = map_prompts bm"
  by (simp_all add: fallback_candidate_def Let_def case_prod_beta map_prompts_dispatch map_prompts_effort)

lemma map_prompts_loop:
  "list_all (\<lambda>tb. map_prompts (target_body (fst tb)) = map_prompts bm) (lr_trace (fallback_loop serve reg cs m bm cx w))"
proof (induction serve reg cs m bm cx w rule: fallback_loop.induct)
  case (2 serve reg c cs m bm cx w)
  obtain m' bm' t where cand: "fallback_candidate reg c bm = (m', bm', t)" by (cases "fallback_candidate reg c bm")
  obtain ops cx' w' where sv: "serve False t cx w = (ops, cx', w')" by (cases "serve False t cx w")
  have p: "map_prompts (target_body t) = map_prompts bm" "map_prompts bm' = map_prompts bm"
    using map_prompts_candidate [of reg c bm] by (simp_all add: cand)
  show ?case
  proof (cases "acceptable (bw_status (buffered ops))")
    case True
    then show ?thesis by (simp add: cand sv p)
  next
    case False
    then show ?thesis using 2 [OF cand [symmetric] refl refl sv [symmetric] refl refl refl] by (simp add: cand sv p Let_def)
  qed
qed simp

lemma map_prompts_served:
  "list_all (\<lambda>t. map_prompts (target_body t) = map_prompts bm) (fst (snd (serve_model env key sr rz bm g)))"
  using map_prompts_loop [of "snd (expand_effort (rz_upstream rz) (rz_model rz) bm)" "re_serve env" "re_registry env"]
  by (auto simp: serve_model_def Let_def case_prod_beta map_prompts_dispatch map_prompts_effort list_all_iff)

lemma map_prompts_requested:
  "list_all (\<lambda>t. map_prompts (target_body t) = map_prompts bm)
     (fst (snd (ProxyRequest (env\<lparr>re_body := Body m, re_stages := (\<lambda>_ _. bm)\<rparr>) g)))"
proof -
  have served: "list_all (\<lambda>t. map_prompts (target_body t) = map_prompts bm) (fst (snd (serve_model e k sr rz bm' g')))"
    if "map_prompts bm' = map_prompts bm" for e :: "'a routing_env" and k sr rz bm' g'
    using map_prompts_served [of bm' e k sr rz g'] that by simp
  show ?thesis
    unfolding ProxyRequest_def Let_def case_prod_beta
    by (auto intro!: served split: option.split)
qed

text \<open>
  C28: From the client to the upstreams. Without redaction, whatever compression, trimming, directives,
  combos and fallbacks do to a request, each upstream call made for it carries, for every system
  prompt that the client gave as a string, a system message that starts with it. (A prompt given
  as an array of parts is overwritten by a directive, \<open>system_parts_lost\<close>.)
\<close>

theorem upstreams_get_prompts:
  "list_all (\<lambda>t. survive (body_prompts raw) (map_prompts (target_body t)))
     (fst (snd (fst (chat_request (penv\<lparr>pe_guard := gd\<lparr>gd_redact := False\<rparr>\<rparr>) raw tr env g))))"
proof (cases "as_obj raw")
  case None
  then show ?thesis by (simp add: chat_request_def ProxyRequest_def)
next
  case (Some m)
  let ?penv = "penv\<lparr>pe_guard := gd\<lparr>gd_redact := False\<rparr>, pe_combos := re_combos env\<rparr>"
  let ?b = "fst (prepare_body ?penv raw tr)"
  let ?bm = "case as_obj ?b of Some b \<Rightarrow> b | None \<Rightarrow> Map.empty"
  have "?penv = penv\<lparr>pe_combos := re_combos env, pe_guard := gd\<lparr>gd_redact := False\<rparr>\<rparr>" by (cases penv) simp
  then have "survive (body_prompts raw) (map_prompts ?bm)"
    using prepare_survive [where env = "penv\<lparr>pe_combos := re_combos env\<rparr>" and g = gd and raw = raw and t = tr] by (simp only: map_prompts_body)
  moreover have "list_all (\<lambda>t. map_prompts (target_body t) = map_prompts ?bm)
      (fst (snd (ProxyRequest (env\<lparr>re_body := Body m, re_stages := (\<lambda>_ _. ?bm)\<rparr>) g)))"
    by (rule map_prompts_requested)
  ultimately show ?thesis
    using Some by (simp add: chat_request_def case_prod_beta Let_def list_all_iff)
qed

text \<open>A combo cannot fall back to the mode of the configuration by saying off: it turns compression off.\<close>

lemma combo_off_overrides:
  assumes "pe_combos env = Some r" "r name = Some c" "cb_CompressionMode c = ''off''"
  shows "request_mode env (''combo/'' @ name) = ''off''"
  using assms by (simp add: request_mode_def GetCombo_def trim_prefix_def has_prefix_def ParseMode_def mode_valid_def Let_def)

end
