(* ===== verification/Studio.thy ===== *)
theory Studio
  imports Compression "HOL-Library.Multiset"
begin

text \<open>
  The preview of the compressors, \<open>internal/compression/studio.go\<close> with its use in
  \<open>features_handlers.go\<close>: single engines, stacks of them, and the word difference of two texts. Two of
  the engines change the body they are given; that is the body of their result, compressed or not.
\<close>

section \<open>Engines\<close>

record step_breakdown =
  sb_Name :: string
  sb_TokensBefore :: int
  sb_TokensAfter :: int
  sb_SavingsPct :: rat

definition safePct :: "int \<Rightarrow> int \<Rightarrow> rat" where
  "safePct before after = (if before \<le> 0 then 0 else of_int (before - after) / of_int before * 100)"

definition engine_result :: "string \<Rightarrow> json \<Rightarrow> json \<Rightarrow> string list \<Rightarrow> comp_result" where
  "engine_result mode old new techniques =
     (let origTokens = int (snapshotTokens old); newTokens = int (snapshotTokens new)
      in if newTokens \<ge> origTokens then \<lparr>cr_Body = new, cr_Compressed = False, cr_Stats = None\<rparr>
         else \<lparr>cr_Body = new, cr_Compressed = True,
               cr_Stats = Some \<lparr>cs_Mode = mode, cs_OriginalTokens = origTokens, cs_CompressedTokens = newTokens,
                 cs_SavingsPercent = of_int (origTokens - newTokens) / of_int origTokens * 100,
                 cs_TechniquesUsed = techniques, cs_Timestamp = 0\<rparr>\<rparr>)"

definition applyRTK :: "comp_env \<Rightarrow> json \<Rightarrow> comp_result" where
  "applyRTK e body =
     (case CompressMessages (ce_exts e) body of
        (body', None) \<Rightarrow> not_compressed body'
      | (body', Some st) \<Rightarrow>
        if rs_BytesAfter st \<ge> rs_BytesBefore st then not_compressed body'
        else engine_result ''rtk'' body body' (map (\<lambda>(_, f, _). f) (rs_Hits st)))"

definition summarize_content :: "comp_options \<Rightarrow> json \<Rightarrow> json option" where
  "summarize_content opts m =
     (if kept_system opts m then None
      else case string_content m of
             None \<Rightarrow> None
           | Some content \<Rightarrow>
             if length content < 200 then None
             else
               let summarized = summarizeMessage content (length content div 3) True
               in if length summarized < length content then Some (with_content (J_str summarized) m) else None)"

definition applySummarizer :: "json \<Rightarrow> comp_options \<Rightarrow> comp_result" where
  "applySummarizer body opts =
     (case messagesOf body of
        None \<Rightarrow> not_compressed body
      | Some msgs \<Rightarrow>
        (case each_message (summarize_content opts) msgs of (msgs', changed) \<Rightarrow>
           if \<not> changed then not_compressed body
           else engine_result ''summarizer'' body (set_messages msgs' body) [''summarizer'']))"

definition ApplyEngine :: "comp_env \<Rightarrow> json \<Rightarrow> string \<Rightarrow> comp_options \<Rightarrow> comp_result" where
  "ApplyEngine e body engine opts =
     (let name = to_lower engine
      in if name = ''lite'' then applyLite body opts
         else if name = ''caveman'' \<or> name = ''standard'' then applyCaveman (ce_rx e) (ce_order e) body opts
         else if name = ''ultra'' then applyUltra body opts
         else if name = ''rtk'' then applyRTK e body
         else if name = ''summarizer'' then applySummarizer body opts
         else not_compressed body)"

section \<open>Stacks\<close>

fun stack_loop ::
  "comp_env \<Rightarrow> comp_options \<Rightarrow> string list \<Rightarrow> json \<Rightarrow> int \<Rightarrow> step_breakdown list \<Rightarrow> json \<times> int \<times> step_breakdown list" where
  "stack_loop e opts [] body prevTokens steps = (body, prevTokens, steps)"
| "stack_loop e opts (eng # engs) body prevTokens steps =
     (let res = ApplyEngine e body eng opts;
          curTokens = (case cr_Stats res of
                         Some st \<Rightarrow> if cr_Compressed res then cs_CompressedTokens st else prevTokens
                       | None \<Rightarrow> prevTokens)
      in stack_loop e opts engs (cr_Body res) curTokens
           (steps @ [\<lparr>sb_Name = eng, sb_TokensBefore = prevTokens, sb_TokensAfter = curTokens,
                      sb_SavingsPct = safePct prevTokens curTokens\<rparr>]))"

definition RunStacked :: "comp_env \<Rightarrow> json \<Rightarrow> string list \<Rightarrow> comp_options \<Rightarrow> comp_result \<times> step_breakdown list" where
  "RunStacked e body engines opts =
     (let (body', finalTokens, steps) = stack_loop e opts engines body (int (snapshotTokens body)) [];
          origTokens = (if length steps > 0 then sb_TokensBefore (hd steps) else int (snapshotTokens body'))
      in (if finalTokens \<ge> origTokens then \<lparr>cr_Body = body', cr_Compressed = False, cr_Stats = None\<rparr>
          else \<lparr>cr_Body = body', cr_Compressed = True,
                cr_Stats = Some \<lparr>cs_Mode = ''stacked'', cs_OriginalTokens = origTokens, cs_CompressedTokens = finalTokens,
                  cs_SavingsPercent = safePct origTokens finalTokens, cs_TechniquesUsed = engines, cs_Timestamp = 0\<rparr>\<rparr>,
          steps))"

definition studio_text :: "json \<Rightarrow> string" where
  "studio_text body =
     (case List.map_filter string_content (elems (messagesOf body)) of [] \<Rightarrow> [] | s # _ \<Rightarrow> s)"

definition BuildBody :: "string \<Rightarrow> json" where "BuildBody t = wrapSingle t"

section \<open>The word difference\<close>

text \<open>
  The entry of the table for two prefixes, which are given reversed, as the way back through the
  table sees them.
\<close>

fun lcs :: "string list \<Rightarrow> string list \<Rightarrow> nat" where
  "lcs [] ys = 0"
| "lcs xs [] = 0"
| "lcs (x # xs) (y # ys) =
     (if x = y then lcs xs ys + 1
      else if lcs xs (y # ys) \<ge> lcs (x # xs) ys then lcs xs (y # ys) else lcs (x # xs) ys)"

datatype diff_kind = Keep | Remove | Add

type_synonym diff_group = "diff_kind \<times> string list"

definition diff_group :: "diff_kind \<Rightarrow> string list \<Rightarrow> diff_group list" where
  "diff_group k ws = (if ws = [] then [] else [(k, ws)])"

definition diff_flush :: "string list \<Rightarrow> string list \<Rightarrow> string list \<Rightarrow> diff_group list" where
  "diff_flush keep remove add = diff_group Remove remove @ diff_group Add add @ diff_group Keep keep"

text \<open>The way back; the segments come in the order in which they are appended.\<close>

fun diff_back :: "string list \<Rightarrow> string list \<Rightarrow> string list \<Rightarrow> string list \<Rightarrow> string list \<Rightarrow> diff_group list" where
  "diff_back [] [] keep remove add = diff_flush keep remove add"
| "diff_back [] (y # ys) keep remove add = diff_back [] ys keep remove (y # add)"
| "diff_back (x # xs) [] keep remove add = diff_back xs [] keep (x # remove) add"
| "diff_back (x # xs) (y # ys) keep remove add =
     (if x = y then diff_flush keep remove add @ diff_back xs ys [x] [] []
      else if lcs (x # xs) ys \<ge> lcs xs (y # ys) then diff_back (x # xs) ys keep remove (y # add)
      else diff_back xs (y # ys) keep (x # remove) add)"

definition diff_groups :: "string list \<Rightarrow> string list \<Rightarrow> diff_group list" where
  "diff_groups xs ys = rev (diff_back (rev (take 2000 xs)) (rev (take 2000 ys)) [] [] [])"

definition WordDiff :: "string \<Rightarrow> string \<Rightarrow> (diff_kind \<times> string) list" where
  "WordDiff original compressed =
     map (\<lambda>(k, ws). (k, join_with '' '' ws)) (diff_groups (str_fields original) (str_fields compressed))"

section \<open>Tokens that are not there\<close>

text \<open>The engines of the gateway leave the counting to \<open>Apply\<close>.\<close>

definition uncounted :: "string \<Rightarrow> bool" where
  "uncounted engine \<longleftrightarrow> to_lower engine \<in> {''lite'', ''caveman'', ''standard'', ''ultra''}"

definition no_counts :: "comp_result \<Rightarrow> bool" where
  "no_counts r \<longleftrightarrow>
     (case cr_Stats r of
        None \<Rightarrow> \<not> cr_Compressed r
      | Some st \<Rightarrow> cr_Compressed r \<and> cs_CompressedTokens st = 0 \<and> cs_OriginalTokens st = 0)"

lemma no_counts_basic [simp]: "no_counts (not_compressed b)" "no_counts (compressed_by ts b)"
  by (simp_all add: no_counts_def not_compressed_def compressed_by_def)

lemma no_counts_engines:
  "no_counts (applyLite body opts)" "no_counts (applyCaveman rx order body opts)" "no_counts (applyUltra body opts)"
  by (simp_all add: applyLite_def applyCaveman_def applyUltra_def Let_def case_prod_beta split: option.split)

lemma uncounted_stats: "uncounted engine \<Longrightarrow> no_counts (ApplyEngine e body engine opts)"
  by (auto simp: uncounted_def ApplyEngine_def no_counts_engines)

text \<open>
  The preview of a stack shows savings that are not there: whenever an engine of the gateway's modes
  changes the text, the stack that ends with it reports no tokens left and a hundred percent saved,
  however much text there still is.
\<close>

theorem stack_reports_all_saved:
  assumes "uncounted engine" "0 < snapshotTokens body" "cr_Compressed (ApplyEngine e body engine opts)"
  shows "RunStacked e body [engine] opts =
    (\<lparr>cr_Body = cr_Body (ApplyEngine e body engine opts), cr_Compressed = True,
      cr_Stats = Some \<lparr>cs_Mode = ''stacked'', cs_OriginalTokens = int (snapshotTokens body), cs_CompressedTokens = 0,
        cs_SavingsPercent = 100, cs_TechniquesUsed = [engine], cs_Timestamp = 0\<rparr>\<rparr>,
     [\<lparr>sb_Name = engine, sb_TokensBefore = int (snapshotTokens body), sb_TokensAfter = 0, sb_SavingsPct = 100\<rparr>])"
  using uncounted_stats [OF assms(1), of e body opts] assms(2,3)
  by (cases "cr_Stats (ApplyEngine e body engine opts)") (auto simp: no_counts_def RunStacked_def Let_def safePct_def)

definition demo_env :: comp_env where
  "demo_env = \<lparr>ce_rx = (\<lambda>_. None), ce_order = id, ce_exts = id, ce_valid = (\<lambda>_. False), ce_now = 0\<rparr>"

theorem stack_reports_all_saved_witness:
  "cs_SavingsPercent (the (cr_Stats (fst (RunStacked demo_env (wrapSingle ''two words  '') [''lite''] no_options)))) = 100"
proof -
  have "uncounted ''lite''" "0 < snapshotTokens (wrapSingle ''two words  '')"
    "cr_Compressed (ApplyEngine demo_env (wrapSingle ''two words  '') ''lite'' no_options)"
    by code_simp+
  from stack_reports_all_saved [OF this] show ?thesis by simp
qed

text \<open>The lane of the RTK filters never does anything: the text is put into a message of the user.\<close>

lemma rtk_lane_idle: "applyRTK e (BuildBody t) = not_compressed (BuildBody t)"
  by (simp add: applyRTK_def BuildBody_def wrapSingle_def CompressMessages_def stats_of_def as_obj_def edit_field_def
      edit_each_def edit_message_def field_is_def no_stats_def Let_def)

section \<open>What the difference accounts for\<close>

definition diff_words :: "diff_kind set \<Rightarrow> diff_group list \<Rightarrow> string list" where
  "diff_words ks gs = concat (map snd (filter (\<lambda>g. fst g \<in> ks) gs))"

lemma diff_words_append [simp]: "diff_words ks (gs @ hs) = diff_words ks gs @ diff_words ks hs"
  by (simp add: diff_words_def)

lemma diff_words_flush:
  "mset (diff_words {Keep, Remove} (diff_flush keep remove add)) = mset keep + mset remove"
  "mset (diff_words {Keep, Add} (diff_flush keep remove add)) = mset keep + mset add"
  by (auto simp: diff_words_def diff_flush_def diff_group_def)

lemma diff_back_words:
  "mset (diff_words {Keep, Remove} (diff_back xs ys keep remove add)) = mset xs + mset keep + mset remove"
  "mset (diff_words {Keep, Add} (diff_back xs ys keep remove add)) = mset ys + mset keep + mset add"
  by (induction xs ys keep remove add rule: diff_back.induct) (auto simp: diff_words_flush)

lemma diff_words_rev: "mset (diff_words ks (rev gs)) = mset (diff_words ks gs)"
  by (induction gs) (auto simp: diff_words_def ac_simps)

text \<open>
  The kept and removed words are those of the first text, the kept and added ones those of the
  second, up to 2000 each. Their order is another matter: what was put in front of a word is shown behind it.
\<close>

theorem word_diff_accounts:
  "mset (diff_words {Keep, Remove} (diff_groups xs ys)) = mset (take 2000 xs) \<and>
   mset (diff_words {Keep, Add} (diff_groups xs ys)) = mset (take 2000 ys)"
  by (simp add: diff_groups_def diff_words_rev diff_back_words)

lemma word_diff_misplaces:
  "diff_groups [''b''] [''a'', ''b''] = [(Keep, [''b'']), (Add, [''a''])]"
  by (simp add: diff_groups_def diff_flush_def diff_group_def)

end
