(* ===== verification/Judge.thy ===== *)
theory Judge
  imports Regex
begin

text \<open>
  The judge of compressed answers, \<open>internal/compression/judge.go\<close>: a model is asked whether two answers
  differ, and is itself tested with a pair of answers before it is trusted. The model is an argument,
  a function to an error or a text. The prompts are written with a tilde for a newline.
\<close>

datatype verdict = Verdict_same | Verdict_differs | Verdict_unparseable

record chat_turn =
  ct_Role :: string
  ct_Content :: string

type_synonym model_client = "string \<Rightarrow> chat_turn list \<Rightarrow> string + string"

definition newlines :: "string \<Rightarrow> string" where
  "newlines s = map (\<lambda>c. if c = CHR ''~'' then CHR 10 else c) s"

definition BuildJudgePrompt :: "string \<Rightarrow> string \<Rightarrow> chat_turn list" where
  "BuildJudgePrompt fullAnswer compressedAnswer =
     [\<lparr>ct_Role = ''system'', ct_Content =
         ''You are a strict evaluation judge. You are given two answers to the same question: '' @
         ''answer A produced from the full context, and answer B produced from a compressed context. '' @
         ''Decide whether B MATERIALLY differs from A (a difference that changes the substance, '' @
         ''correctness, or key facts '' @ [CHR 0xE2, CHR 0x80, CHR 0x94] @
         '' NOT mere wording/format). Reply with exactly one final line: '' @
         ''`VERDICT: SAME` or `VERDICT: MATERIALLY_DIFFERS`.''\<rparr>,
      \<lparr>ct_Role = ''user'', ct_Content =
         newlines ''Answer A (full context):~'' @ fullAnswer @
         newlines ''~~Answer B (compressed context):~'' @ compressedAnswer\<rparr>]"

section \<open>Verdicts\<close>

definition verdictDiffersRe :: regex where
  "verdictDiffersRe = re_alt
     [re_seq [literal_ci ''materially'', Star (Class (\<lambda>c. c = CHR ''_'' \<or> re_space c \<or> c = CHR ''-'')), literal_ci ''differs''],
      re_seq [literal_ci ''differs'', re_plus (Class (\<lambda>c. c = CHR ''_'' \<or> re_space c)), literal_ci ''materially''],
      re_seq [Word_edge, literal_ci ''differs'', Word_edge]]"

definition verdictSameRe :: regex where
  "verdictSameRe = re_alt
     [re_seq [literal_ci ''verdict:'', Star (Class re_space), literal_ci ''same''],
      re_seq [Word_edge, literal_ci ''same'', Word_edge]]"

definition ParseJudgeVerdict :: "string \<Rightarrow> verdict" where
  "ParseJudgeVerdict raw =
     (if MatchString verdictDiffersRe raw then Verdict_differs
      else if MatchString verdictSameRe raw then Verdict_same
      else Verdict_unparseable)"

section \<open>The test of a judge\<close>

definition control_reference :: string where
  "control_reference = ''The function returns 3 because the input is clamped to the upper bound.''"

definition control_good :: string where
  "control_good = ''It returns 3 since the value is clamped to the maximum allowed.''"

definition control_degraded :: string where
  "control_degraded = ''It returns 0 because the value is set to zero.''"

datatype self_test = Judge_failed string | Missed_degraded verdict | Flagged_good verdict | Judge_passed

definition RunSelfTest :: "model_client \<Rightarrow> string \<Rightarrow> self_test" where
  "RunSelfTest client judgeModel =
     (case client judgeModel (BuildJudgePrompt control_reference control_good) of
        Inl err \<Rightarrow> Judge_failed (''judge call (good) failed: '' @ err)
      | Inr goodRaw \<Rightarrow>
        (case client judgeModel (BuildJudgePrompt control_reference control_degraded) of
           Inl err \<Rightarrow> Judge_failed (''judge call (degraded) failed: '' @ err)
         | Inr degradedRaw \<Rightarrow>
           (let goodVerdict = ParseJudgeVerdict goodRaw; degradedVerdict = ParseJudgeVerdict degradedRaw
            in if degradedVerdict \<noteq> Verdict_differs then Missed_degraded degradedVerdict
               else if goodVerdict \<noteq> Verdict_same then Flagged_good goodVerdict
               else Judge_passed)))"

definition JudgeFidelity :: "model_client \<Rightarrow> string \<Rightarrow> string \<Rightarrow> string \<Rightarrow> string + verdict" where
  "JudgeFidelity client judgeModel fullAnswer compressedAnswer =
     (case client judgeModel (BuildJudgePrompt fullAnswer compressedAnswer) of
        Inl err \<Rightarrow> Inl err
      | Inr raw \<Rightarrow> Inr (ParseJudgeVerdict raw))"

lemma judge_passes_iff:
  "RunSelfTest client model = Judge_passed \<longleftrightarrow>
     JudgeFidelity client model control_reference control_good = Inr Verdict_same \<and>
     JudgeFidelity client model control_reference control_degraded = Inr Verdict_differs"
  by (auto simp: RunSelfTest_def JudgeFidelity_def Let_def split: sum.splits)

text \<open>
  A verdict that explains itself is misread: any mention of the word differs outweighs the verdict, and
  what is not the same counts as the same.
\<close>

lemma verdicts_misread:
  "ParseJudgeVerdict ''B differs in wording. VERDICT: SAME'' = Verdict_differs"
  "ParseJudgeVerdict ''B is not the same as A.'' = Verdict_same"
  by code_simp+

end
