(* ===== verification/Console.thy ===== *)
theory Console
  imports BoundedLog Json
begin

text \<open>
  The live console, \<open>internal/console\<close>: the last lines of the gateway's own log and the channels of
  the dashboard's event streams. \<open>parse\<close> is \<open>json.Unmarshal\<close>, \<open>order\<close> the order in which a loop visits
  an object's fields, \<open>show_any\<close> is \<open>%v\<close> and \<open>now\<close> the rendered clock.
\<close>

record console_line =
  ln_TS :: string
  ln_Lvl :: string
  ln_Msg :: string

text \<open>A subscriber is its channel: a number for its identity, the capacity and the lines in it.\<close>

record subscriber =
  sb_id :: nat
  sb_cap :: nat
  sb_queue :: "console_line list"

record console =
  cn_buf :: "console_line list"
  cn_cap :: nat
  cn_subs :: "subscriber list"

definition console_New :: "int \<Rightarrow> console" where
  "console_New capacity = \<lparr>cn_buf = [], cn_cap = nat (if capacity \<le> 0 then 500 else capacity), cn_subs = []\<rparr>"

definition console_append :: "console_line \<Rightarrow> console \<Rightarrow> console" where
  "console_append l c =
     (let buf = cn_buf c @ [l]
      in c\<lparr>cn_buf := (if length buf > cn_cap c then drop (length buf - cn_cap c) buf else buf)\<rparr>)"

definition sub_send :: "console_line \<Rightarrow> subscriber \<Rightarrow> subscriber" where
  "sub_send l s = s\<lparr>sb_queue := offer (sb_cap s) l (sb_queue s)\<rparr>"

definition publish :: "console_line \<Rightarrow> console \<Rightarrow> console" where
  "publish l c = c\<lparr>cn_subs := map (sub_send l) (cn_subs c)\<rparr>"

definition Recent :: "int \<Rightarrow> console \<Rightarrow> console_line list" where
  "Recent n c =
     (if n \<le> 0 \<or> n \<ge> int (length (cn_buf c)) then cn_buf c
      else drop (length (cn_buf c) - nat n) (cn_buf c))"

definition Subscribe :: "subscriber \<Rightarrow> console \<Rightarrow> console" where
  "Subscribe s c = c\<lparr>cn_subs := s # filter (\<lambda>t. sb_id t \<noteq> sb_id s) (cn_subs c)\<rparr>"

definition Unsubscribe :: "nat \<Rightarrow> console \<Rightarrow> console" where
  "Unsubscribe i c = c\<lparr>cn_subs := filter (\<lambda>t. sb_id t \<noteq> i) (cn_subs c)\<rparr>"

fun toStr :: "(json \<Rightarrow> string) \<Rightarrow> json \<Rightarrow> string" where
  "toStr show_any (J_str s) = s"
| "toStr show_any v = show_any v"

fun joinComma :: "string list \<Rightarrow> string" where
  "joinComma [] = []"
| "joinComma [s] = s"
| "joinComma (s # ss) = s @ '', '' @ joinComma ss"

text \<open>The text of a log line that is an object with a message: the message and the other fields.\<close>

definition slog_extras ::
  "(json \<Rightarrow> string) \<Rightarrow> ((string \<times> json) list \<Rightarrow> (string \<times> json) list) \<Rightarrow> (string \<times> json) list \<Rightarrow> string list" where
  "slog_extras show_any order kvs =
     map (\<lambda>(k, v). k @ ''='' @ toStr show_any v)
       (filter (\<lambda>(k, v). k \<noteq> ''time'' \<and> k \<noteq> ''level'' \<and> k \<noteq> ''msg'') (order kvs))"

definition parseSlog ::
  "(string \<Rightarrow> json option) \<Rightarrow> (json \<Rightarrow> string) \<Rightarrow> ((string \<times> json) list \<Rightarrow> (string \<times> json) list) \<Rightarrow>
   string \<Rightarrow> string \<Rightarrow> console_line" where
  "parseSlog parse show_any order now p =
     (let raw = trim_space p; l = \<lparr>ln_TS = now, ln_Lvl = ''INFO'', ln_Msg = []\<rparr> in
      if raw = [] then l
      else
        case parse raw of
          Some (J_obj kvs) \<Rightarrow>
            (let m = map_of kvs;
                 l = (case m ''time'' of Some (J_str ts) \<Rightarrow> l\<lparr>ln_TS := ts\<rparr> | _ \<Rightarrow> l);
                 l = (case m ''level'' of Some (J_str lv) \<Rightarrow> l\<lparr>ln_Lvl := lv\<rparr> | _ \<Rightarrow> l)
             in case m ''msg'' of
                  Some (J_str msg) \<Rightarrow>
                    (let extras = slog_extras show_any order kvs
                     in l\<lparr>ln_Msg := (if extras \<noteq> [] then msg @ ''  '' @ joinComma extras else msg)\<rparr>)
                | _ \<Rightarrow> l\<lparr>ln_Msg := raw\<rparr>)
        | _ \<Rightarrow> l\<lparr>ln_Msg := raw\<rparr>)"

definition add_line :: "console_line \<Rightarrow> console \<Rightarrow> console" where
  "add_line l c = publish l (console_append l c)"

definition console_Write ::
  "(string \<Rightarrow> json option) \<Rightarrow> (json \<Rightarrow> string) \<Rightarrow> ((string \<times> json) list \<Rightarrow> (string \<times> json) list) \<Rightarrow>
   string \<Rightarrow> string \<Rightarrow> console \<Rightarrow> nat \<times> console" where
  "console_Write parse show_any order now p c = (length p, add_line (parseSlog parse show_any order now p) c)"

definition AppendRaw :: "string \<Rightarrow> string \<Rightarrow> string \<Rightarrow> console \<Rightarrow> console" where
  "AppendRaw now level msg c = add_line \<lparr>ln_TS = now, ln_Lvl = level, ln_Msg = msg\<rparr> c"

section \<open>Fan-out to several handlers\<close>

text \<open>
  A handler is the least level it takes and what it has written; \<open>Handle\<close> gives a record to each that
  takes its level.
\<close>

record 'r slog_handler =
  sh_level :: int
  sh_out :: "'r list"

definition handler_enabled :: "int \<Rightarrow> 'r slog_handler \<Rightarrow> bool" where
  "handler_enabled level h \<longleftrightarrow> sh_level h \<le> level"

definition multi_Enabled :: "int \<Rightarrow> 'r slog_handler list \<Rightarrow> bool" where
  "multi_Enabled level hs \<longleftrightarrow> list_ex (handler_enabled level) hs"

definition multi_Handle :: "int \<Rightarrow> 'r \<Rightarrow> 'r slog_handler list \<Rightarrow> 'r slog_handler list" where
  "multi_Handle level r hs =
     map (\<lambda>h. if handler_enabled level h then h\<lparr>sh_out := sh_out h @ [r]\<rparr> else h) hs"

text \<open>\<open>WithAttrs\<close> and \<open>WithGroup\<close> apply the method of the same name to each handler.\<close>

definition multi_With :: "('h \<Rightarrow> 'h) \<Rightarrow> 'h list \<Rightarrow> 'h list" where
  "multi_With f hs = map f hs"

section \<open>The event stream of a dashboard\<close>

definition writeSSE :: "(console_line \<Rightarrow> string) \<Rightarrow> console_line \<Rightarrow> string" where
  "writeSSE marshal l = ''data: '' @ marshal l @ [CHR 0x0A, CHR 0x0A]"

text \<open>
  What a client is sent: the last hundred lines, then each line received on its channel. Other
  goroutines may log between the two (\<open>gap\<close>) and while the client listens (\<open>live\<close>), a line in \<open>live\<close>
  being received as soon as it is published.
\<close>

definition handleConsoleStream ::
  "(console_line \<Rightarrow> string) \<Rightarrow> console_line list \<Rightarrow> console_line list \<Rightarrow> nat \<Rightarrow> console \<Rightarrow> string \<times> console" where
  "handleConsoleStream marshal gap live i c =
     (let first = Recent 100 c;
          c1 = Subscribe \<lparr>sb_id = i, sb_cap = 32, sb_queue = []\<rparr> (fold add_line gap c);
          (received, c2) = fold (\<lambda>l (got, c).
              let c' = add_line l c;
                  q = concat (map sb_queue (filter (\<lambda>s. sb_id s = i) (cn_subs c')))
              in (got @ q, c'\<lparr>cn_subs := map (\<lambda>s. if sb_id s = i then s\<lparr>sb_queue := []\<rparr> else s) (cn_subs c')\<rparr>))
            live ([], c1)
      in (concat (map (writeSSE marshal) (first @ received)), Unsubscribe i c2))"

section \<open>The last lines\<close>

lemma console_frame [simp]:
  "cn_cap (add_line l c) = cn_cap c"
  "cn_subs (add_line l c) = map (sub_send l) (cn_subs c)"
  by (simp_all add: add_line_def publish_def console_append_def Let_def)

lemma add_line_buf: "cn_buf (add_line l c) = last_n (cn_cap c) (cn_buf c @ [l])"
  by (simp add: add_line_def publish_def console_append_def Let_def last_n_def)

interpretation console_log: bounded_log add_line cn_buf "\<lambda>l c. l" cn_cap "\<lambda>c. True"
  by unfold_locales (simp_all add: add_line_buf)

text \<open>After any history of lines, \<open>Recent\<close> returns the last of them, up to its argument and the capacity.\<close>

theorem console_is_last_lines:
  "Recent n (fold add_line ls (console_New k)) =
     last_n (if n \<le> 0 then length ls else nat n) (last_n (nat (if k \<le> 0 then 500 else k)) ls)"
proof -
  have "cn_buf (fold add_line ls (console_New k)) = last_n (nat (if k \<le> 0 then 500 else k)) ls"
    using console_log.entries_fold_bounded [of "console_New k" ls]
    by (simp add: console_New_def console_log.history_map [where f = id])
  moreover have "Recent n c = last_n (if n \<le> 0 then length (cn_buf c) else nat n) (cn_buf c)" for c
    by (auto simp: Recent_def last_n_def)
  ultimately show ?thesis by simp
qed

text \<open>A channel holds lines in the order they were published, and at most its capacity.\<close>

lemma queue_after:
  "sb_queue (fold sub_send ls s) = sb_queue s @ take (sb_cap s - length (sb_queue s)) ls"
proof (induction ls arbitrary: s)
  case (Cons l ls)
  show ?case
  proof (cases "length (sb_queue s) < sb_cap s")
    case True
    then obtain k where "sb_cap s - length (sb_queue s) = Suc k" by (metis Suc_diff_Suc)
    moreover from this have "sb_cap s - Suc (length (sb_queue s)) = k" by simp
    ultimately show ?thesis using True Cons.IH [of "sub_send l s"] by (simp add: sub_send_def offer_def)
  next
    case False
    then show ?thesis using Cons.IH [of "sub_send l s"] by (simp add: sub_send_def offer_def)
  qed
qed simp

lemma subs_after: "cn_subs (fold add_line ls c) = map (fold sub_send ls) (cn_subs c)"
  by (induction ls arbitrary: c) (simp_all add: comp_def)

text \<open>
  A stream misses what is logged between its history and its subscription: the lines of \<open>gap\<close> are in
  nothing it is sent.
\<close>

lemma console_stream_gap:
  "fst (handleConsoleStream marshal gap [] i c) = concat (map (writeSSE marshal) (Recent 100 c))"
  by (simp add: handleConsoleStream_def Let_def)

end
