(* ===== verification/Tunnel.thy ===== *)
theory Tunnel
  imports BoundedLog Decode Regex
begin

text \<open>
  The tunnel manager, \<open>internal/tunnel/manager.go\<close>, with its endpoints in
  \<open>internal/handlers/tunnels.go\<close>: the life of the two \<open>cloudflared\<close> processes, the persisted
  configuration, and the steps by which a named tunnel is set up through the Cloudflare API. Processes
  live in a heap of all that were ever started; \<open>parse\<close> and \<open>marshal\<close> are the text level of
  \<open>encoding/json\<close>; what Redis, the file system, the process table and the API answer is an environment.
\<close>

section \<open>The log ring\<close>

record ringBuffer =
  rb_buf :: "string list"
  rb_size :: nat
  rb_start :: nat
  rb_count :: nat

definition newRingBuffer :: "int \<Rightarrow> ringBuffer" where
  "newRingBuffer size0 =
     (let n = nat (if size0 \<le> 0 then 100 else size0)
      in \<lparr>rb_buf = replicate n [], rb_size = n, rb_start = 0, rb_count = 0\<rparr>)"

text \<open>A long line is cut at 4096 bytes, with an ellipsis.\<close>

definition ring_line :: "string \<Rightarrow> string" where
  "ring_line line =
     (if length line > 4096 then take 4096 line @ [CHR 0xE2, CHR 0x80, CHR 0xA6] else line)"

definition ring_Add :: "string \<Rightarrow> ringBuffer \<Rightarrow> ringBuffer" where
  "ring_Add line0 r =
     (let line = ring_line line0 in
      if rb_count r < rb_size r then
        r\<lparr>rb_buf := (rb_buf r)[(rb_start r + rb_count r) mod rb_size r := line], rb_count := rb_count r + 1\<rparr>
      else
        r\<lparr>rb_buf := (rb_buf r)[rb_start r := line], rb_start := (rb_start r + 1) mod rb_size r\<rparr>)"

definition ring_Snapshot :: "ringBuffer \<Rightarrow> string list" where
  "ring_Snapshot r = map (\<lambda>i. rb_buf r ! ((rb_start r + i) mod rb_size r)) [0..<rb_count r]"

definition ring_Reset :: "ringBuffer \<Rightarrow> ringBuffer" where
  "ring_Reset r = r\<lparr>rb_start := 0, rb_count := 0\<rparr>"

definition ring_ok :: "ringBuffer \<Rightarrow> bool" where
  "ring_ok r \<longleftrightarrow> length (rb_buf r) = rb_size r \<and> 0 < rb_size r \<and> rb_start r < rb_size r \<and> rb_count r \<le> rb_size r"

lemma ring_ok_new [simp]: "ring_ok (newRingBuffer n)"
  by (simp add: ring_ok_def newRingBuffer_def Let_def)

lemma ring_ok_Reset [simp]: "ring_ok r \<Longrightarrow> ring_ok (ring_Reset r)"
  by (simp add: ring_ok_def ring_Reset_def)

lemma ring_ok_Add [simp]: "ring_ok r \<Longrightarrow> ring_ok (ring_Add l r)"
  by (simp add: ring_ok_def ring_Add_def Let_def)

lemma ring_size_Add [simp]: "rb_size (ring_Add l r) = rb_size r"
  by (simp add: ring_Add_def Let_def)

lemma length_Snapshot [simp]: "length (ring_Snapshot r) = rb_count r"
  by (simp add: ring_Snapshot_def)

lemma new_ring [simp]:
  "ring_Snapshot (newRingBuffer n) = []" "rb_count (newRingBuffer n) = 0"
  "rb_size (newRingBuffer n) = nat (if n \<le> 0 then 100 else n)"
  by (simp_all add: newRingBuffer_def ring_Snapshot_def Let_def)

text \<open>Places of the ring that are not the same modulo its size are different cells.\<close>

lemma ring_cells: "i < n \<Longrightarrow> j < n \<Longrightarrow> (k + i) mod n = (k + j) mod n \<longleftrightarrow> i = j" for i j k n :: nat
proof
  assume "i < n" "j < n" "(k + i) mod n = (k + j) mod n"
  then have "(int k + int i) mod int n = (int k + int j) mod int n"
    by (metis of_nat_add of_nat_mod)
  then have "int i mod int n = int j mod int n"
    using mod_diff_cong [of "int k + int i" "int n" "int k + int j" "int k" "int k"] by simp
  then have "i mod n = j mod n" by (metis of_nat_mod of_nat_eq_iff)
  with \<open>i < n\<close> \<open>j < n\<close> show "i = j" by simp
qed simp

lemma ring_Snapshot_Add:
  assumes "ring_ok r"
  shows "ring_Snapshot (ring_Add l r) = last_n (rb_size r) (ring_Snapshot r @ [ring_line l])"
proof (cases "rb_count r < rb_size r")
  case True
  have "ring_Snapshot (ring_Add l r) = ring_Snapshot r @ [ring_line l]"
  proof (rule nth_equalityI)
    fix i assume "i < length (ring_Snapshot (ring_Add l r))"
    then have i: "i < Suc (rb_count r)" using True by (simp add: ring_Add_def Let_def)
    show "ring_Snapshot (ring_Add l r) ! i = (ring_Snapshot r @ [ring_line l]) ! i"
    proof (cases "i = rb_count r")
      case True
      with \<open>rb_count r < rb_size r\<close> assms show ?thesis
        by (simp add: ring_Snapshot_def ring_Add_def Let_def ring_ok_def nth_append del: upt_Suc)
    next
      case False
      with i have "i < rb_count r" by simp
      moreover from this True have "(rb_start r + i) mod rb_size r \<noteq> (rb_start r + rb_count r) mod rb_size r"
        by (simp add: ring_cells)
      ultimately show ?thesis using True assms
        by (simp add: ring_Snapshot_def ring_Add_def Let_def ring_ok_def nth_append del: upt_Suc)
    qed
  qed (use True in \<open>simp add: ring_Add_def Let_def\<close>)
  with True show ?thesis by simp
next
  case False
  then have full: "rb_count r = rb_size r" using assms by (simp add: ring_ok_def)
  define n s where "n = rb_size r" and "s = rb_start r"
  have n: "0 < n" "s < n" "length (rb_buf r) = n" using assms by (simp_all add: ring_ok_def n_def s_def)
  have "ring_Snapshot (ring_Add l r) = tl (ring_Snapshot r) @ [ring_line l]"
  proof (rule nth_equalityI)
    fix i assume "i < length (ring_Snapshot (ring_Add l r))"
    then have i: "i < n" using False full by (simp add: ring_Add_def Let_def n_def)
    have new: "ring_Snapshot (ring_Add l r) ! i = (rb_buf r)[s := ring_line l] ! ((s + Suc i) mod n)"
      using i False full by (simp add: ring_Snapshot_def ring_Add_def Let_def n_def s_def mod_simps)
    show "ring_Snapshot (ring_Add l r) ! i = (tl (ring_Snapshot r) @ [ring_line l]) ! i"
    proof (cases "Suc i = n")
      case True
      then have "n - Suc 0 = i" by simp
      with True show ?thesis using new n full
        by (simp add: nth_append n_def [symmetric] del: add_Suc_right)
    next
      case False
      then have "(s + Suc i) mod n \<noteq> s"
        using ring_cells [of "Suc i" n 0 s] i n by simp
      moreover have "i < n - Suc 0" using i False by linarith
      ultimately show ?thesis using new n full i
        by (simp add: nth_append nth_tl ring_Snapshot_def n_def [symmetric] s_def [symmetric])
    qed
  qed (use False full n in \<open>simp add: ring_Add_def Let_def n_def\<close>)
  moreover have "last_n (rb_size r) (ring_Snapshot r @ [ring_line l]) = tl (ring_Snapshot r) @ [ring_line l]"
    using n full length_Snapshot [of r] by (cases "ring_Snapshot r") (auto simp: last_n_def n_def)
  ultimately show ?thesis by simp
qed

interpretation ring_log: bounded_log ring_Add ring_Snapshot "\<lambda>l r. ring_line l" rb_size ring_ok
  by unfold_locales (simp_all add: ring_Snapshot_Add)

text \<open>
  The ring with its wrapping index refines the list of the last lines: whatever was added since it was
  made or reset, a snapshot is the last lines in order, cut.
\<close>

theorem ring_is_last_lines:
  "ring_Snapshot (fold ring_Add ls (newRingBuffer n)) =
     last_n (nat (if n \<le> 0 then 100 else n)) (map ring_line ls)"
  using ring_log.entries_fold_bounded [of "newRingBuffer n" ls]
  by (simp add: ring_log.history_map [where f = ring_line])

section \<open>Modes and configuration\<close>

abbreviation ModeNone :: string where "ModeNone \<equiv> ''none''"
abbreviation ModeQuick :: string where "ModeQuick \<equiv> ''quick''"
abbreviation ModeNamed :: string where "ModeNamed \<equiv> ''named''"
abbreviation ModeHybrid :: string where "ModeHybrid \<equiv> ''hybrid''"

definition mode_IsValid :: "string \<Rightarrow> bool" where
  "mode_IsValid m \<longleftrightarrow> m = ModeNone \<or> m = ModeQuick \<or> m = ModeNamed \<or> m = ModeHybrid"

record tunnel_config =
  tc_Mode :: string
  tc_CloudflareAPIToken :: string
  tc_CloudflareAccountID :: string
  tc_CloudflareZoneID :: string
  tc_TunnelDomain :: string
  tc_TunnelID :: string
  tc_TunnelToken :: string
  tc_QuickURL :: string
  tc_UpstreamURL :: string
  tc_UpdatedAt :: int

definition no_config :: tunnel_config where
  "no_config =
     \<lparr>tc_Mode = ModeNone, tc_CloudflareAPIToken = [], tc_CloudflareAccountID = [], tc_CloudflareZoneID = [],
      tc_TunnelDomain = [], tc_TunnelID = [], tc_TunnelToken = [], tc_QuickURL = [], tc_UpstreamURL = [],
      tc_UpdatedAt = 0\<rparr>"

text \<open>The struct as it is written, and as it is read back.\<close>

definition config_json :: "tunnel_config \<Rightarrow> json" where
  "config_json c = J_obj
     ([(''mode'', J_str (tc_Mode c))] @
      omit_str ''cloudflare_api_token'' (tc_CloudflareAPIToken c) @
      omit_str ''cloudflare_account_id'' (tc_CloudflareAccountID c) @
      omit_str ''cloudflare_zone_id'' (tc_CloudflareZoneID c) @
      omit_str ''tunnel_domain'' (tc_TunnelDomain c) @
      omit_str ''tunnel_id'' (tc_TunnelID c) @
      omit_str ''tunnel_token'' (tc_TunnelToken c) @
      omit_str ''quick_url'' (tc_QuickURL c) @
      omit_str ''upstream_url'' (tc_UpstreamURL c) @
      omit_int ''updated_at'' (tc_UpdatedAt c))"

definition unmarshal_config :: "json \<Rightarrow> tunnel_config option" where
  "unmarshal_config v = do {
     m \<leftarrow> unmarshal_map v;
     mode \<leftarrow> tag_string m ''mode'';
     token \<leftarrow> tag_string m ''cloudflare_api_token'';
     account \<leftarrow> tag_string m ''cloudflare_account_id'';
     zone \<leftarrow> tag_string m ''cloudflare_zone_id'';
     domain \<leftarrow> tag_string m ''tunnel_domain'';
     i \<leftarrow> tag_string m ''tunnel_id'';
     tt \<leftarrow> tag_string m ''tunnel_token'';
     quick \<leftarrow> tag_string m ''quick_url'';
     up \<leftarrow> tag_string m ''upstream_url'';
     upd \<leftarrow> tag 0 unmarshal_int m ''updated_at'';
     Some \<lparr>tc_Mode = mode, tc_CloudflareAPIToken = token, tc_CloudflareAccountID = account,
           tc_CloudflareZoneID = zone, tc_TunnelDomain = domain, tc_TunnelID = i, tc_TunnelToken = tt,
           tc_QuickURL = quick, tc_UpstreamURL = up, tc_UpdatedAt = upd\<rparr> }"

section \<open>The manager\<close>

record process =
  pr_args :: "string list"
  pr_exited :: bool

text \<open>
  \<open>tn_redis\<close> says whether there is a client, \<open>tn_store\<close> is the value at the configuration's key, and
  a command handle is an address into \<open>tn_procs\<close>.
\<close>

record tunnel =
  tn_redis :: bool
  tn_path :: string
  tn_upstream :: string
  tn_quickCmd :: "nat option"
  tn_quickLog :: ringBuffer
  tn_quickURL :: string
  tn_namedCmd :: "nat option"
  tn_namedLog :: ringBuffer
  tn_procs :: "process list"
  tn_store :: "string option"

definition NewManager :: "bool \<Rightarrow> string \<Rightarrow> string \<Rightarrow> string option \<Rightarrow> tunnel" where
  "NewManager redis path upstream store =
     \<lparr>tn_redis = redis, tn_path = path, tn_upstream = upstream, tn_quickCmd = None,
      tn_quickLog = newRingBuffer 400, tn_quickURL = [], tn_namedCmd = None, tn_namedLog = newRingBuffer 400,
      tn_procs = [], tn_store = store\<rparr>"

datatype tunnel_error =
    Redis_not_initialised | Redis_failed string | Decode_failed
  | Invalid_mode string | Path_not_set | Binary_missing string | Already_running | Exec_failed string
  | Credentials_missing | Api_failed string | Empty_tunnel_id | No_tunnel_token
  | Quick_start tunnel_error | Named_start tunnel_error | Hybrid_start tunnel_error tunnel_error
  | Save_config tunnel_error

text \<open>
  The Cloudflare API: a connector token by account and tunnel, the id of a tunnel just made, the
  outcomes of setting the ingress and of writing a DNS record, and the ids of the records of a name.
  A nil or empty answer is the empty string.
\<close>

record cloudflare_api =
  ca_token :: "string \<Rightarrow> string \<Rightarrow> string + string"
  ca_new :: "string + string"
  ca_ingress :: "string option"
  ca_dns_list :: "string + string list"
  ca_dns_put :: "string option"

datatype cloudflare_call =
    Token_get string string
  | Tunnel_new string string
  | Ingress_put string string "(string \<times> string) list"
  | Dns_list string string
  | Dns_update string string string string
  | Dns_new string string string

record tunnel_env =
  te_get_err :: "string option"
  te_set_err :: "string option"
  te_stat_err :: "string option"
  te_quick_err :: "string option"
  te_named_err :: "string option"
  te_now :: int
  te_api :: cloudflare_api

definition LoadConfig :: "(string \<Rightarrow> json option) \<Rightarrow> tunnel_env \<Rightarrow> tunnel \<Rightarrow> tunnel_error + tunnel_config" where
  "LoadConfig parse e s =
     (if \<not> tn_redis s then Inr no_config
      else case te_get_err e of
        Some m \<Rightarrow> Inl (Redis_failed m)
      | None \<Rightarrow>
        (case tn_store s of
           None \<Rightarrow> Inr no_config
         | Some raw \<Rightarrow>
           (case parse raw \<bind> unmarshal_config of
              None \<Rightarrow> Inl Decode_failed
            | Some cfg \<Rightarrow> Inr (if mode_IsValid (tc_Mode cfg) then cfg else cfg\<lparr>tc_Mode := ModeNone\<rparr>))))"

definition stamped :: "tunnel_env \<Rightarrow> tunnel \<Rightarrow> tunnel_config \<Rightarrow> tunnel_config" where
  "stamped e s cfg =
     cfg\<lparr>tc_UpdatedAt := te_now e, tc_UpstreamURL := (if tc_UpstreamURL cfg = [] then tn_upstream s else tc_UpstreamURL cfg)\<rparr>"

definition SaveConfig :: "(json \<Rightarrow> string) \<Rightarrow> tunnel_env \<Rightarrow> tunnel_config \<Rightarrow> tunnel \<Rightarrow> tunnel_error option \<times> tunnel" where
  "SaveConfig marshal e cfg s =
     (if \<not> tn_redis s then (Some Redis_not_initialised, s)
      else case te_set_err e of
        Some m \<Rightarrow> (Some (Redis_failed m), s)
      | None \<Rightarrow> (None, s\<lparr>tn_store := Some (marshal (config_json (stamped e s cfg)))\<rparr>))"

definition running :: "tunnel \<Rightarrow> nat option \<Rightarrow> bool" where
  "running s h = (case h of None \<Rightarrow> False | Some a \<Rightarrow> \<not> pr_exited (tn_procs s ! a))"

record tunnel_status =
  ts_Mode :: string
  ts_QuickRunning :: bool
  ts_NamedRunning :: bool
  ts_QuickURL :: string
  ts_TunnelDomain :: string
  ts_TunnelID :: string
  ts_UpstreamURL :: string
  ts_HasAPIToken :: bool
  ts_HasAccount :: bool
  ts_HasZone :: bool
  ts_UpdatedAt :: int
  ts_Logs :: "string list"

definition tunnel_Status :: "(string \<Rightarrow> json option) \<Rightarrow> tunnel_env \<Rightarrow> tunnel \<Rightarrow> tunnel_error + tunnel_status" where
  "tunnel_Status parse e s =
     (case LoadConfig parse e s of
        Inl err \<Rightarrow> Inl err
      | Inr cfg \<Rightarrow> Inr
          \<lparr>ts_Mode = tc_Mode cfg, ts_QuickRunning = running s (tn_quickCmd s), ts_NamedRunning = running s (tn_namedCmd s),
           ts_QuickURL = (if tn_quickURL s = [] then tc_QuickURL cfg else tn_quickURL s),
           ts_TunnelDomain = tc_TunnelDomain cfg, ts_TunnelID = tc_TunnelID cfg, ts_UpstreamURL = tc_UpstreamURL cfg,
           ts_HasAPIToken = (tc_CloudflareAPIToken cfg \<noteq> []), ts_HasAccount = (tc_CloudflareAccountID cfg \<noteq> []),
           ts_HasZone = (tc_CloudflareZoneID cfg \<noteq> []), ts_UpdatedAt = tc_UpdatedAt cfg,
           ts_Logs = map ((@) ''[quick] '') (ring_Snapshot (tn_quickLog s)) @
                     map ((@) ''[named] '') (ring_Snapshot (tn_namedLog s))\<rparr>)"

section \<open>Processes\<close>

definition mark_exited :: "nat \<Rightarrow> tunnel \<Rightarrow> tunnel" where
  "mark_exited a s = s\<lparr>tn_procs := (tn_procs s)[a := (tn_procs s ! a)\<lparr>pr_exited := True\<rparr>]\<rparr>"

text \<open>\<open>killGracefully\<close> returns when the process has exited, by itself, by the signal or by force.\<close>

definition killGracefully :: "nat option \<Rightarrow> tunnel \<Rightarrow> tunnel" where
  "killGracefully h s =
     (case h of None \<Rightarrow> s | Some a \<Rightarrow> if pr_exited (tn_procs s ! a) then s else mark_exited a s)"

definition detach :: "tunnel \<Rightarrow> tunnel" where
  "detach s = s\<lparr>tn_quickCmd := None, tn_namedCmd := None, tn_quickURL := []\<rparr>"

definition stopAll :: "tunnel \<Rightarrow> tunnel" where
  "stopAll s = killGracefully (tn_namedCmd s) (killGracefully (tn_quickCmd s) (detach s))"

definition upstream_of :: "tunnel_config \<Rightarrow> tunnel \<Rightarrow> string" where
  "upstream_of cfg s = (if tc_UpstreamURL cfg = [] then tn_upstream s else tc_UpstreamURL cfg)"

definition spawn :: "string list \<Rightarrow> tunnel \<Rightarrow> nat \<times> tunnel" where
  "spawn args s = (length (tn_procs s), s\<lparr>tn_procs := tn_procs s @ [\<lparr>pr_args = args, pr_exited = False\<rparr>]\<rparr>)"

definition startQuick :: "tunnel_env \<Rightarrow> tunnel_config \<Rightarrow> tunnel \<Rightarrow> tunnel_error option \<times> tunnel" where
  "startQuick e cfg s =
     (if tn_path s = [] then (Some Path_not_set, s)
      else case te_stat_err e of
        Some m \<Rightarrow> (Some (Binary_missing m), s)
      | None \<Rightarrow>
        if tn_quickCmd s \<noteq> None then (Some Already_running, s)
        else case te_quick_err e of
          Some m \<Rightarrow> (Some (Exec_failed m), s)
        | None \<Rightarrow>
          (let (a, s) = spawn [tn_path s, ''tunnel'', ''--no-autoupdate'', ''--url'', upstream_of cfg s,
                               ''--metrics'', ''127.0.0.1:0''] s
           in (None, s\<lparr>tn_quickCmd := Some a, tn_quickLog := ring_Reset (tn_quickLog s), tn_quickURL := []\<rparr>)))"

text \<open>One line of a process's output: kept in the ring; the first address in it, if the line has one.\<close>

definition quickURLRe :: regex where
  "quickURLRe = re_seq
     [literal ''https://'',
      re_plus (Class (\<lambda>c. is_letter c \<or> char_range (CHR ''0'') (CHR ''9'') c \<or> c = CHR ''.'' \<or> c = CHR ''-'')),
      literal ''.trycloudflare.com'']"

definition quick_url :: "string \<Rightarrow> string option" where
  "quick_url line =
     (case FindString quickURLRe line of
        None \<Rightarrow> None
      | Some (a, b) \<Rightarrow> Some (take (length (snd a) - length (snd b)) (snd a)))"

text \<open>
  The reader of one stream: the ring with the lines, and what it sends on the channel of the address,
  which it does once, if the other stream's reader was not first (\<open>full\<close> is the channel's state when
  a line is read).
\<close>

fun consume :: "string list \<Rightarrow> bool list \<Rightarrow> bool \<Rightarrow> ringBuffer \<Rightarrow> ringBuffer \<times> string list" where
  "consume (line # rest) (full # fulls) sentURL r =
     (case (if sentURL then None else quick_url line) of
        None \<Rightarrow> consume rest fulls sentURL (ring_Add line r)
      | Some u \<Rightarrow>
          if full then consume rest fulls sentURL (ring_Add line r)
          else (let (r', us) = consume rest fulls True (ring_Add line r) in (r', u # us)))"
| "consume _ _ _ r = (r, [])"

text \<open>What happens when an address arrives: it is shown, then persisted in two steps, a read and a write.\<close>

definition show_url :: "string \<Rightarrow> tunnel \<Rightarrow> tunnel" where
  "show_url u s = s\<lparr>tn_quickURL := u\<rparr>"

definition save_url :: "(json \<Rightarrow> string) \<Rightarrow> tunnel_env \<Rightarrow> string \<Rightarrow> tunnel_error + tunnel_config \<Rightarrow> tunnel \<Rightarrow> tunnel" where
  "save_url marshal e u loaded s =
     (case loaded of Inl _ \<Rightarrow> s | Inr cfg \<Rightarrow> snd (SaveConfig marshal e (cfg\<lparr>tc_QuickURL := u\<rparr>) s))"

definition url_arrives :: "(string \<Rightarrow> json option) \<Rightarrow> (json \<Rightarrow> string) \<Rightarrow> tunnel_env \<Rightarrow> string \<Rightarrow> tunnel \<Rightarrow> tunnel" where
  "url_arrives parse marshal e u s = (let s = show_url u s in save_url marshal e u (LoadConfig parse e s) s)"

section \<open>Named tunnels\<close>

definition tunnelName :: string where "tunnelName = ''foxrouters''"

definition createOrReuseTunnel ::
  "cloudflare_api \<Rightarrow> tunnel_config \<Rightarrow> (tunnel_error + string \<times> string) \<times> cloudflare_call list" where
  "createOrReuseTunnel api cfg =
     (let account = tc_CloudflareAccountID cfg;
          old = tc_TunnelID cfg;
          reuse = (if old = [] then None else case ca_token api account old of Inl _ \<Rightarrow> None | Inr t \<Rightarrow> if t = [] then None else Some t);
          asked = (if old = [] then [] else [Token_get account old])
      in case reuse of
           Some tok \<Rightarrow> (Inr (old, tok), asked)
         | None \<Rightarrow>
           (let asked = asked @ [Tunnel_new account tunnelName] in
            case ca_new api of
              Inl m \<Rightarrow> (Inl (Api_failed m), asked)
            | Inr i \<Rightarrow>
              if i = [] then (Inl Empty_tunnel_id, asked)
              else (case ca_token api account i of
                      Inl m \<Rightarrow> (Inl (Api_failed m), asked @ [Token_get account i])
                    | Inr t \<Rightarrow> (if t = [] then Inl No_tunnel_token else Inr (i, t), asked @ [Token_get account i]))))"

definition configureIngress :: "cloudflare_api \<Rightarrow> tunnel_config \<Rightarrow> string \<Rightarrow> string \<Rightarrow> tunnel_error option \<times> cloudflare_call list" where
  "configureIngress api cfg tunnelID upstream =
     (map_option Api_failed (ca_ingress api),
      [Ingress_put (tc_CloudflareAccountID cfg) tunnelID
         [(tc_TunnelDomain cfg, upstream), ([], ''http_status:404'')]])"

definition routeDNS :: "cloudflare_api \<Rightarrow> tunnel_config \<Rightarrow> string \<Rightarrow> tunnel_error option \<times> cloudflare_call list" where
  "routeDNS api cfg tunnelID =
     (let zone = tc_CloudflareZoneID cfg;
          name = tc_TunnelDomain cfg;
          cnameTarget = tunnelID @ ''.cfargotunnel.com'';
          listed = Dns_list zone name
      in case ca_dns_list api of
           Inl m \<Rightarrow> (Some (Api_failed m), [listed])
         | Inr records \<Rightarrow>
           (let existingID = (case records of [] \<Rightarrow> [] | r # _ \<Rightarrow> r)
            in (map_option Api_failed (ca_dns_put api),
                [listed, if existingID \<noteq> [] then Dns_update zone existingID name cnameTarget
                         else Dns_new zone name cnameTarget])))"

definition has_credentials :: "tunnel_config \<Rightarrow> bool" where
  "has_credentials cfg \<longleftrightarrow>
     tc_CloudflareAPIToken cfg \<noteq> [] \<and> tc_CloudflareAccountID cfg \<noteq> [] \<and> tc_CloudflareZoneID cfg \<noteq> [] \<and>
     tc_TunnelDomain cfg \<noteq> []"

definition exec_named :: "tunnel_env \<Rightarrow> string \<Rightarrow> tunnel \<Rightarrow> tunnel_error option \<times> tunnel" where
  "exec_named e token s =
     (if tn_namedCmd s \<noteq> None then (Some Already_running, s)
      else case te_named_err e of
        Some m \<Rightarrow> (Some (Exec_failed m), s)
      | None \<Rightarrow>
        (let (a, s) = spawn [tn_path s, ''tunnel'', ''--no-autoupdate'', ''run'', ''--token'', token] s
         in (None, s\<lparr>tn_namedCmd := Some a, tn_namedLog := ring_Reset (tn_namedLog s)\<rparr>)))"

text \<open>The configuration is changed through its pointer as soon as there is a tunnel.\<close>

definition startNamed ::
  "tunnel_env \<Rightarrow> tunnel_config \<Rightarrow> tunnel \<Rightarrow> tunnel_error option \<times> tunnel_config \<times> tunnel \<times> cloudflare_call list" where
  "startNamed e cfg s =
     (if \<not> has_credentials cfg then (Some Credentials_missing, cfg, s, [])
      else case te_stat_err e of
        Some m \<Rightarrow> (Some (Binary_missing m), cfg, s, [])
      | None \<Rightarrow>
        (case createOrReuseTunnel (te_api e) cfg of
           (Inl err, cs) \<Rightarrow> (Some err, cfg, s, cs)
         | (Inr (tunnelID, token), cs) \<Rightarrow>
           (let cfg = cfg\<lparr>tc_TunnelID := tunnelID, tc_TunnelToken := token\<rparr>;
                (err, cs') = configureIngress (te_api e) cfg tunnelID (upstream_of cfg s)
            in if err \<noteq> None then (err, cfg, s, cs @ cs')
               else
                 (let (err, cs'') = routeDNS (te_api e) cfg tunnelID
                  in if err \<noteq> None then (err, cfg, s, cs @ cs' @ cs'')
                     else (let (err, s) = exec_named e token s in (err, cfg, s, cs @ cs' @ cs''))))))"

section \<open>Operations\<close>

type_synonym tunnel_result = "tunnel_error option \<times> tunnel \<times> cloudflare_call list"

definition save_and :: "(json \<Rightarrow> string) \<Rightarrow> tunnel_env \<Rightarrow> tunnel_config \<Rightarrow> tunnel \<Rightarrow> cloudflare_call list \<Rightarrow> tunnel_result" where
  "save_and marshal e cfg s cs = (let (err, s) = SaveConfig marshal e cfg s in (map_option Save_config err, s, cs))"

text \<open>The switch on the mode: the error that ends it, the configuration and the state after the starts.\<close>

definition start_mode ::
  "tunnel_env \<Rightarrow> tunnel_config \<Rightarrow> tunnel \<Rightarrow> tunnel_error option \<times> tunnel_config \<times> tunnel \<times> cloudflare_call list" where
  "start_mode e cfg s =
     (if tc_Mode cfg = ModeQuick then
        (let (err, s) = startQuick e cfg s in (map_option Quick_start err, cfg, s, []))
      else if tc_Mode cfg = ModeNamed then
        (let (err, cfg, s, cs) = startNamed e cfg s in (map_option Named_start err, cfg, s, cs))
      else if tc_Mode cfg = ModeHybrid then
        (let (qerr, s) = startQuick e cfg s;
             (nerr, cfg, s, cs) = startNamed e cfg s
         in (case (qerr, nerr) of (Some q, Some n) \<Rightarrow> Some (Hybrid_start q n) | _ \<Rightarrow> None, cfg, s, cs))
      else (None, cfg, s, []))"

definition Enable :: "(json \<Rightarrow> string) \<Rightarrow> tunnel_env \<Rightarrow> tunnel_config \<Rightarrow> tunnel \<Rightarrow> tunnel_result" where
  "Enable marshal e cfg s =
     (if \<not> mode_IsValid (tc_Mode cfg) then (Some (Invalid_mode (tc_Mode cfg)), s, [])
      else
        (let s = stopAll s;
             (err, cfg, s, cs) = start_mode e (cfg\<lparr>tc_UpstreamURL := upstream_of cfg s\<rparr>) s
         in if err \<noteq> None then (err, s, cs) else save_and marshal e cfg s cs))"

definition Disable :: "(string \<Rightarrow> json option) \<Rightarrow> (json \<Rightarrow> string) \<Rightarrow> tunnel_env \<Rightarrow> tunnel \<Rightarrow> tunnel_result" where
  "Disable parse marshal e s0 =
     (let s = stopAll s0 in
      case LoadConfig parse e s of
        Inl err \<Rightarrow> (Some err, s, [])
      | Inr cfg \<Rightarrow>
        (let (err, s) = SaveConfig marshal e (cfg\<lparr>tc_Mode := ModeNone, tc_QuickURL := []\<rparr>) s in (err, s, [])))"

definition Restart :: "(string \<Rightarrow> json option) \<Rightarrow> (json \<Rightarrow> string) \<Rightarrow> tunnel_env \<Rightarrow> tunnel \<Rightarrow> tunnel_result" where
  "Restart parse marshal e s =
     (case LoadConfig parse e s of
        Inl err \<Rightarrow> (Some err, s, [])
      | Inr cfg \<Rightarrow> if tc_Mode cfg = ModeNone then (None, s, []) else Enable marshal e cfg s)"

definition AutoStart :: "(string \<Rightarrow> json option) \<Rightarrow> (json \<Rightarrow> string) \<Rightarrow> tunnel_env \<Rightarrow> tunnel \<Rightarrow> tunnel \<times> cloudflare_call list" where
  "AutoStart parse marshal e s =
     (case LoadConfig parse e s of
        Inl _ \<Rightarrow> (s, [])
      | Inr cfg \<Rightarrow> if tc_Mode cfg = ModeNone then (s, []) else snd (Enable marshal e cfg s))"

definition Shutdown :: "tunnel \<Rightarrow> tunnel" where "Shutdown s = stopAll s"

definition MaskToken :: "string \<Rightarrow> string" where
  "MaskToken tok0 =
     (let tok = trim_space tok0 in
      if tok = [] then []
      else if length tok \<le> 12 then ''***''
      else take 6 tok @ [CHR 0xE2, CHR 0x80, CHR 0xA6] @ drop (length tok - 4) tok)"

section \<open>Endpoints\<close>

record tunnelEnableInput =
  in_Mode :: string
  in_CloudflareAPIToken :: string
  in_CloudflareAccountID :: string
  in_CloudflareZoneID :: string
  in_TunnelDomain :: string

definition unmarshal_enable :: "json \<Rightarrow> tunnelEnableInput option" where
  "unmarshal_enable v = do {
     m \<leftarrow> unmarshal_map v;
     mode \<leftarrow> tag_string m ''mode'';
     token \<leftarrow> tag_string m ''cloudflare_api_token'';
     account \<leftarrow> tag_string m ''cloudflare_account_id'';
     zone \<leftarrow> tag_string m ''cloudflare_zone_id'';
     domain \<leftarrow> tag_string m ''tunnel_domain'';
     Some \<lparr>in_Mode = mode, in_CloudflareAPIToken = token, in_CloudflareAccountID = account,
           in_CloudflareZoneID = zone, in_TunnelDomain = domain\<rparr> }"

definition or_keep :: "string \<Rightarrow> string \<Rightarrow> string" where
  "or_keep new old = (let v = trim_space new in if v \<noteq> [] then v else old)"

definition merged :: "string \<Rightarrow> tunnelEnableInput \<Rightarrow> tunnel_config \<Rightarrow> tunnel_config" where
  "merged mode i cfg =
     cfg\<lparr>tc_Mode := mode,
         tc_CloudflareAPIToken := or_keep (in_CloudflareAPIToken i) (tc_CloudflareAPIToken cfg),
         tc_CloudflareAccountID := or_keep (in_CloudflareAccountID i) (tc_CloudflareAccountID cfg),
         tc_CloudflareZoneID := or_keep (in_CloudflareZoneID i) (tc_CloudflareZoneID cfg),
         tc_TunnelDomain := or_keep (in_TunnelDomain i) (tc_TunnelDomain cfg)\<rparr>"

definition missing_fields :: "tunnel_config \<Rightarrow> string list" where
  "missing_fields cfg =
     (if tc_CloudflareAPIToken cfg = [] then [''cloudflare_api_token''] else []) @
     (if tc_CloudflareAccountID cfg = [] then [''cloudflare_account_id''] else []) @
     (if tc_CloudflareZoneID cfg = [] then [''cloudflare_zone_id''] else []) @
     (if tc_TunnelDomain cfg = [] then [''tunnel_domain''] else [])"

text \<open>A handler on a manager: the status of the reply, the state and the calls. \<open>v\<close> is the decoded body.\<close>

definition HandleTunnelEnable ::
  "(string \<Rightarrow> json option) \<Rightarrow> (json \<Rightarrow> string) \<Rightarrow> tunnel_env \<Rightarrow> json option \<Rightarrow> tunnel \<Rightarrow> int \<times> tunnel \<times> cloudflare_call list" where
  "HandleTunnelEnable parse marshal e v s =
     (case v \<bind> unmarshal_enable of
        None \<Rightarrow> (400, s, [])
      | Some i \<Rightarrow>
        (let mode0 = trim_space (to_lower (in_Mode i));
             mode = (if mode0 = [] then ModeQuick else mode0)
         in if \<not> mode_IsValid mode then (400, s, [])
            else case LoadConfig parse e s of
              Inl _ \<Rightarrow> (500, s, [])
            | Inr cfg0 \<Rightarrow>
              (let cfg = merged mode i cfg0
               in if (mode = ModeNamed \<or> mode = ModeHybrid) \<and> missing_fields cfg \<noteq> [] then (400, s, [])
                  else (let (err, s', cs) = Enable marshal e cfg s
                        in (if err = None then 200 else 500, s', cs)))))"

definition HandleTunnelDisable ::
  "(string \<Rightarrow> json option) \<Rightarrow> (json \<Rightarrow> string) \<Rightarrow> tunnel_env \<Rightarrow> tunnel \<Rightarrow> int \<times> tunnel" where
  "HandleTunnelDisable parse marshal e s =
     (let (err, s', _) = Disable parse marshal e s in (if err = None then 200 else 500, s'))"

definition HandleTunnelRestart ::
  "(string \<Rightarrow> json option) \<Rightarrow> (json \<Rightarrow> string) \<Rightarrow> tunnel_env \<Rightarrow> tunnel \<Rightarrow> int \<times> tunnel \<times> cloudflare_call list" where
  "HandleTunnelRestart parse marshal e s =
     (let (err, s', cs) = Restart parse marshal e s in (if err = None then 200 else 500, s', cs))"

definition HandleTunnelStatus :: "(string \<Rightarrow> json option) \<Rightarrow> tunnel_env \<Rightarrow> tunnel \<Rightarrow> int \<times> tunnel_status option" where
  "HandleTunnelStatus parse e s =
     (case tunnel_Status parse e s of Inl _ \<Rightarrow> (500, None) | Inr st \<Rightarrow> (200, Some st))"

end
