(* ===== verification/TunnelSafety.thy ===== *)
theory TunnelSafety
  imports Tunnel
begin

text \<open>
  What the tunnel manager guarantees. Several requests, the start of the gateway and the background
  goroutines act on it at once; each takes the lock for one of the steps of \<open>tunnel_step\<close>, in any order.
  The operations are paths of such steps, so what holds of all reachable states holds of every
  interleaving. Then: what survives in the persisted configuration, and what a lost update does to it.
\<close>

section \<open>Steps\<close>

definition handles :: "tunnel \<Rightarrow> nat list" where
  "handles s = (case tn_quickCmd s of None \<Rightarrow> [] | Some a \<Rightarrow> [a]) @ (case tn_namedCmd s of None \<Rightarrow> [] | Some a \<Rightarrow> [a])"

text \<open>
  The second component holds the processes that someone has detached and is about to kill. \<open>exited\<close> is
  a process that ends by itself, \<open>quick_line\<close> and \<open>named_line\<close> are the readers of their output.
\<close>

inductive tunnel_step :: "(json \<Rightarrow> string) \<Rightarrow> tunnel \<times> nat list \<Rightarrow> tunnel \<times> nat list \<Rightarrow> bool" for marshal where
  detached: "tunnel_step marshal (s, d) (detach s, handles s @ d)"
| killed: "a \<in> set d \<Longrightarrow> tunnel_step marshal (s, d) (killGracefully (Some a) s, remove1 a d)"
| quick: "startQuick e cfg s = (err, s') \<Longrightarrow> tunnel_step marshal (s, d) (s', d)"
| named: "exec_named e token s = (err, s') \<Longrightarrow> tunnel_step marshal (s, d) (s', d)"
| saved: "SaveConfig marshal e cfg s = (err, s') \<Longrightarrow> tunnel_step marshal (s, d) (s', d)"
| shown: "tunnel_step marshal (s, d) (show_url u s, d)"
| exited: "a < length (tn_procs s) \<Longrightarrow> tunnel_step marshal (s, d) (mark_exited a s, d)"
| quick_line: "tunnel_step marshal (s, d) (s\<lparr>tn_quickLog := ring_Add l (tn_quickLog s)\<rparr>, d)"
| named_line: "tunnel_step marshal (s, d) (s\<lparr>tn_namedLog := ring_Add l (tn_namedLog s)\<rparr>, d)"

abbreviation tunnel_steps :: "(json \<Rightarrow> string) \<Rightarrow> tunnel \<times> nat list \<Rightarrow> tunnel \<times> nat list \<Rightarrow> bool" where
  "tunnel_steps marshal \<equiv> (tunnel_step marshal)\<^sup>*\<^sup>*"

section \<open>No process is lost\<close>

definition alive :: "tunnel \<Rightarrow> nat \<Rightarrow> bool" where
  "alive s a \<longleftrightarrow> a < length (tn_procs s) \<and> \<not> pr_exited (tn_procs s ! a)"

definition tunnel_inv :: "tunnel \<times> nat list \<Rightarrow> bool" where
  "tunnel_inv w =
     (case w of (s, d) \<Rightarrow>
        (\<forall>a. alive s a \<longrightarrow> a \<in> set (handles s) \<union> set d) \<and>
        (\<forall>a \<in> set (handles s) \<union> set d. a < length (tn_procs s)) \<and> distinct (handles s) \<and>
        ring_ok (tn_quickLog s) \<and> ring_ok (tn_namedLog s))"

lemma alive_cong:
  "tn_procs s' = tn_procs s \<Longrightarrow> alive s' = alive s"
  "tn_quickCmd s' = tn_quickCmd s \<Longrightarrow> tn_namedCmd s' = tn_namedCmd s \<Longrightarrow> handles s' = handles s"
  by (simp_all add: alive_def handles_def fun_eq_iff)

lemma alive_mark_exited [simp]: "alive (mark_exited a s) b \<longleftrightarrow> alive s b \<and> b \<noteq> a"
  by (cases "b = a") (auto simp: alive_def mark_exited_def)

lemma killGracefully_alive: "a < length (tn_procs s) \<Longrightarrow> alive (killGracefully (Some a) s) b \<longleftrightarrow> alive s b \<and> b \<noteq> a"
  by (auto simp: killGracefully_def) (auto simp: alive_def)

lemma process_frame [simp]:
  "handles (mark_exited a s) = handles s" "length (tn_procs (mark_exited a s)) = length (tn_procs s)"
  "handles (killGracefully h s) = handles s" "length (tn_procs (killGracefully h s)) = length (tn_procs s)"
  "tn_quickLog (killGracefully h s) = tn_quickLog s" "tn_namedLog (killGracefully h s) = tn_namedLog s"
  "tn_quickLog (mark_exited a s) = tn_quickLog s" "tn_namedLog (mark_exited a s) = tn_namedLog s"
  "handles (detach s) = []" "alive (detach s) = alive s" "tn_procs (detach s) = tn_procs s"
  "tn_quickLog (detach s) = tn_quickLog s" "tn_namedLog (detach s) = tn_namedLog s"
  by (auto simp: handles_def mark_exited_def killGracefully_def detach_def alive_def fun_eq_iff split: option.split)

lemma alive_snoc [simp]:
  assumes "tn_procs s' = tn_procs s @ [\<lparr>pr_args = args, pr_exited = False\<rparr>]"
  shows "alive s' a \<longleftrightarrow> alive s a \<or> a = length (tn_procs s)"
  using assms by (auto simp: alive_def nth_append less_Suc_eq)

lemma startQuick_cases:
  assumes "startQuick e cfg s = (err, s')"
  obtains "s' = s" "err \<noteq> None"
  | args where "err = None" "tn_quickCmd s = None"
      "s' = s\<lparr>tn_procs := tn_procs s @ [\<lparr>pr_args = args, pr_exited = False\<rparr>],
             tn_quickCmd := Some (length (tn_procs s)), tn_quickLog := ring_Reset (tn_quickLog s), tn_quickURL := []\<rparr>"
proof (cases err)
  case None
  with assms have "tn_quickCmd s = None" by (auto simp: startQuick_def spawn_def split: if_splits option.splits)
  moreover have "\<exists>args. s\<lparr>tn_procs := tn_procs s @ [\<lparr>pr_args = args, pr_exited = False\<rparr>],
      tn_quickCmd := Some (length (tn_procs s)), tn_quickLog := ring_Reset (tn_quickLog s), tn_quickURL := []\<rparr> = s'"
    using assms None by (fastforce simp: startQuick_def spawn_def split: if_splits option.splits)
  ultimately show ?thesis using that(2) None by blast
next
  case (Some x)
  with assms have "s' = s" by (simp add: startQuick_def spawn_def split: if_splits option.splits)
  with that(1) Some show ?thesis by simp
qed

lemma exec_named_cases:
  assumes "exec_named e token s = (err, s')"
  obtains "s' = s" "err \<noteq> None"
  | args where "err = None" "tn_namedCmd s = None"
      "s' = s\<lparr>tn_procs := tn_procs s @ [\<lparr>pr_args = args, pr_exited = False\<rparr>],
             tn_namedCmd := Some (length (tn_procs s)), tn_namedLog := ring_Reset (tn_namedLog s)\<rparr>"
proof (cases err)
  case None
  with assms have "tn_namedCmd s = None" by (auto simp: exec_named_def spawn_def split: if_splits option.splits)
  moreover have "\<exists>args. s\<lparr>tn_procs := tn_procs s @ [\<lparr>pr_args = args, pr_exited = False\<rparr>],
      tn_namedCmd := Some (length (tn_procs s)), tn_namedLog := ring_Reset (tn_namedLog s)\<rparr> = s'"
    using assms None by (fastforce simp: exec_named_def spawn_def split: if_splits option.splits)
  ultimately show ?thesis using that(2) None by blast
next
  case (Some x)
  with assms have "s' = s" by (simp add: exec_named_def spawn_def split: if_splits option.splits)
  with that(1) Some show ?thesis by simp
qed

lemma SaveConfig_frame:
  assumes "SaveConfig marshal e cfg s = (err, s')"
  shows "s' = s\<lparr>tn_store := tn_store s'\<rparr>"
  using assms by (auto simp: SaveConfig_def split: if_splits option.splits)

lemma spawned_inv:
  assumes "tunnel_inv (s, d)" "tn_procs s' = tn_procs s @ [\<lparr>pr_args = args, pr_exited = False\<rparr>]"
    "set (handles s') = insert (length (tn_procs s)) (set (handles s))" "distinct (handles s')"
    "ring_ok (tn_quickLog s')" "ring_ok (tn_namedLog s')"
  shows "tunnel_inv (s', d)"
  using assms unfolding tunnel_inv_def by (auto intro: less_SucI)

lemma tunnel_step_inv: "tunnel_step marshal w w' \<Longrightarrow> tunnel_inv w \<Longrightarrow> tunnel_inv w'"
proof (induction rule: tunnel_step.induct)
  case (detached s d)
  then show ?case by (auto simp: tunnel_inv_def)
next
  case (killed a d s)
  then have a: "a < length (tn_procs s)" by (simp add: tunnel_inv_def)
  have "set (remove1 a d) \<subseteq> set d" by (rule set_remove1_subset)
  moreover have "b \<in> set (remove1 a d)" if "b \<in> set d" "b \<noteq> a" for b using that by simp
  ultimately show ?case using killed.prems
    unfolding tunnel_inv_def by (auto simp: killGracefully_alive [OF a])
next
  case (quick e cfg s err s' d)
  from quick.hyps show ?case
  proof (cases rule: startQuick_cases)
    case (2 args)
    have "tn_namedCmd s \<noteq> Some (length (tn_procs s))"
      using quick.prems by (auto simp: tunnel_inv_def handles_def)
    with 2 quick.prems show ?thesis
      by (intro spawned_inv [of s d s' args]) (auto simp: tunnel_inv_def handles_def split: option.splits)
  qed (use quick.prems in simp)
next
  case (named e token s err s' d)
  from named.hyps show ?case
  proof (cases rule: exec_named_cases)
    case (2 args)
    have "tn_quickCmd s \<noteq> Some (length (tn_procs s))"
      using named.prems by (auto simp: tunnel_inv_def handles_def)
    with 2 named.prems show ?thesis
      by (intro spawned_inv [of s d s' args]) (auto simp: tunnel_inv_def handles_def split: option.splits)
  qed (use named.prems in simp)
next
  case (saved e cfg s err s' d)
  have "tunnel_inv (s\<lparr>tn_store := x\<rparr>, d) = tunnel_inv (s, d)" for x
    by (simp add: tunnel_inv_def alive_def handles_def)
  with SaveConfig_frame [OF saved.hyps] saved.prems show ?case by metis
next
  case (exited a s d)
  then show ?case by (auto simp: tunnel_inv_def)
qed (simp_all add: tunnel_inv_def alive_def handles_def show_url_def)

lemma new_manager_inv: "tunnel_inv (NewManager r p u st, [])"
  by (simp add: tunnel_inv_def NewManager_def alive_def handles_def)

lemma reachable_inv:
  assumes "tunnel_steps marshal (NewManager r p u st, []) w"
  shows "tunnel_inv w"
  using assms by (induction rule: rtranclp_induct) (auto intro: new_manager_inv tunnel_step_inv)

section \<open>Operations are paths of steps\<close>

lemmas step_rtrancl = r_into_rtranclp [of "tunnel_step marshal" for marshal]

lemma kill_handle:
  "tunnel_steps marshal (s, (case h of None \<Rightarrow> [] | Some a \<Rightarrow> [a]) @ d) (killGracefully h s, d)"
proof (cases h)
  case (Some a)
  have "tunnel_step marshal (s, a # d) (killGracefully (Some a) s, remove1 a (a # d))"
    by (rule tunnel_step.killed) simp
  with Some show ?thesis by auto
qed (simp add: killGracefully_def)

lemma stopAll_steps: "tunnel_steps marshal (s, d) (stopAll s, d)"
proof -
  have "tunnel_steps marshal (s, d) (detach s, handles s @ d)" by (rule step_rtrancl) (rule tunnel_step.detached)
  also have "tunnel_steps marshal (detach s, handles s @ d)
      (killGracefully (tn_quickCmd s) (detach s), (case tn_namedCmd s of None \<Rightarrow> [] | Some a \<Rightarrow> [a]) @ d)"
    using kill_handle [where h = "tn_quickCmd s"] by (simp add: handles_def)
  also have "tunnel_steps marshal \<dots> (stopAll s, d)"
    unfolding stopAll_def by (rule kill_handle)
  finally show ?thesis .
qed

lemma startNamed_steps:
  assumes "startNamed e cfg s = (err, cfg', s', cs)"
  shows "tunnel_steps marshal (s, d) (s', d)"
proof -
  have "s' = s \<or> (\<exists>err token. exec_named e token s = (err, s'))"
    using assms by (auto simp: startNamed_def Let_def split: if_splits option.splits sum.splits prod.splits)
  then show ?thesis by (auto intro: step_rtrancl tunnel_step.named)
qed

lemma start_mode_steps:
  assumes "start_mode e cfg s = (err, cfg', s', cs)"
  shows "tunnel_steps marshal (s, d) (s', d)"
proof -
  obtain qerr sq where q: "startQuick e cfg s = (qerr, sq)" by fastforce
  have quick: "tunnel_steps marshal (s, d) (sq, d)" by (rule step_rtrancl) (rule tunnel_step.quick [OF q])
  obtain nerr cn sn csn where n: "startNamed e cfg s = (nerr, cn, sn, csn)" by (metis prod_cases4)
  obtain herr ch sh csh where h: "startNamed e cfg sq = (herr, ch, sh, csh)" by (metis prod_cases4)
  have "s' \<in> {s, sq, sn, sh}"
    using assms by (auto simp: start_mode_def q n h split: if_splits)
  with quick startNamed_steps [OF n] rtranclp_trans [OF quick startNamed_steps [OF h]] show ?thesis by auto
qed

lemma SaveConfig_steps: "SaveConfig marshal e cfg s = (err, s') \<Longrightarrow> tunnel_steps marshal (s, d) (s', d)"
  by (rule step_rtrancl) (rule tunnel_step.saved)

lemma Enable_steps:
  assumes "Enable marshal e cfg s = (err, s', cs)"
  shows "tunnel_steps marshal (s, d) (s', d)"
proof (cases "mode_IsValid (tc_Mode cfg)")
  case True
  let ?cfg = "cfg\<lparr>tc_UpstreamURL := upstream_of cfg (stopAll s)\<rparr>"
  obtain err1 cfg1 s1 cs1 where m: "start_mode e ?cfg (stopAll s) = (err1, cfg1, s1, cs1)" by (metis prod_cases4)
  have s1: "tunnel_steps marshal (s, d) (s1, d)"
    using rtranclp_trans [OF stopAll_steps start_mode_steps [OF m]] .
  obtain serr s2 where sv: "SaveConfig marshal e cfg1 s1 = (serr, s2)" by fastforce
  have "s' \<in> {s1, s2}"
    using assms True m sv by (auto simp: Enable_def save_and_def Let_def split: if_splits)
  with s1 rtranclp_trans [OF s1 SaveConfig_steps [OF sv]] show ?thesis by auto
qed (use assms in \<open>simp add: Enable_def\<close>)

lemma Disable_steps:
  assumes "Disable parse marshal e s = (err, s', cs)"
  shows "tunnel_steps marshal (s, d) (s', d)"
proof (cases "LoadConfig parse e (stopAll s)")
  case (Inl x)
  with assms have "s' = stopAll s" by (simp add: Disable_def)
  with stopAll_steps show ?thesis by simp
next
  case (Inr cfg)
  obtain serr s2 where sv: "SaveConfig marshal e (cfg\<lparr>tc_Mode := ModeNone, tc_QuickURL := []\<rparr>) (stopAll s) = (serr, s2)"
    by fastforce
  with assms Inr have "s' = s2" by (simp add: Disable_def)
  with rtranclp_trans [OF stopAll_steps SaveConfig_steps [OF sv]] show ?thesis by simp
qed

lemma Restart_steps:
  "Restart parse marshal e s = (err, s', cs) \<Longrightarrow> tunnel_steps marshal (s, d) (s', d)"
  by (auto simp: Restart_def split: sum.splits if_splits intro: Enable_steps)

lemma AutoStart_steps: "AutoStart parse marshal e s = (s', cs) \<Longrightarrow> tunnel_steps marshal (s, d) (s', d)"
  by (auto simp: AutoStart_def split: sum.splits if_splits intro: Enable_steps [OF prod.collapse [symmetric, THEN trans]])

lemma url_arrives_steps: "tunnel_steps marshal (s, d) (url_arrives parse marshal e u s, d)"
proof -
  have shown: "tunnel_steps marshal (s, d) (show_url u s, d)" by (rule step_rtrancl) (rule tunnel_step.shown)
  show ?thesis
  proof (cases "LoadConfig parse e (show_url u s)")
    case (Inr cfg)
    obtain err s2 where "SaveConfig marshal e (cfg\<lparr>tc_QuickURL := u\<rparr>) (show_url u s) = (err, s2)" by fastforce
    with Inr rtranclp_trans [OF shown SaveConfig_steps [OF this]] show ?thesis
      by (simp add: url_arrives_def save_url_def)
  qed (use shown in \<open>simp add: url_arrives_def save_url_def\<close>)
qed

lemma alive_count: "length (filter (\<lambda>p. \<not> pr_exited p) (tn_procs s)) = card {a. alive s a}"
  by (simp add: length_filter_conv_card alive_def)

lemma alive_few:
  assumes "tunnel_inv (s, d)"
  shows "length (filter (\<lambda>p. \<not> pr_exited p) (tn_procs s)) \<le> 2 + length d"
proof -
  have "{a. alive s a} \<subseteq> set (handles s @ d)" using assms by (auto simp: tunnel_inv_def)
  then have "card {a. alive s a} \<le> card (set (handles s @ d))" by (intro card_mono) auto
  also have "\<dots> \<le> length (handles s @ d)" by (rule card_length)
  also have "\<dots> \<le> 2 + length d" by (simp add: handles_def split: option.split)
  finally show ?thesis by (simp add: alive_count)
qed

lemma alive_stopAll:
  assumes "tunnel_inv (s, d)"
  shows "alive (stopAll s) a \<longrightarrow> a \<in> set d"
proof -
  have "tunnel_steps (\<lambda>_. []) (s, d) (stopAll s, d)" by (rule stopAll_steps)
  then have "tunnel_inv (stopAll s, d)"
    using assms by (induction rule: rtranclp_induct) (auto intro: tunnel_step_inv)
  moreover have "handles (stopAll s) = []" by (simp add: stopAll_def)
  ultimately show ?thesis by (auto simp: tunnel_inv_def)
qed

text \<open>
  C31: However requests, the start of the gateway, address captures and exits of processes interleave, at
  most two \<open>cloudflared\<close> processes run beside those that a stop has already taken hold of, and once
  nobody is stopping anything, a stop leaves none running.
\<close>

theorem at_most_two_cloudflared:
  assumes "tunnel_steps marshal (NewManager redis path upstream store, []) (s, d)"
  shows "length (filter (\<lambda>p. \<not> pr_exited p) (tn_procs s)) \<le> 2 + length d \<and>
    (d \<noteq> [] \<or> list_all pr_exited (tn_procs (Shutdown s)))"
proof -
  have inv: "tunnel_inv (s, d)" using assms by (rule reachable_inv)
  have "list_all pr_exited (tn_procs (Shutdown s))" if "d = []"
    using alive_stopAll [OF inv] that by (auto simp: list_all_length alive_def Shutdown_def)
  with alive_few [OF inv] show ?thesis by blast
qed

definition quiet_env :: "cloudflare_api \<Rightarrow> tunnel_env" where
  "quiet_env api =
     \<lparr>te_get_err = None, te_set_err = None, te_stat_err = None, te_quick_err = None, te_named_err = None,
      te_now = 1000, te_api = api\<rparr>"

theorem at_most_two_cloudflared_witness:
  "length (filter (\<lambda>p. \<not> pr_exited p) (tn_procs (snd (startQuick (quiet_env undefined) no_config
     (NewManager True ''/bin/cloudflared'' ''http://127.0.0.1:20130'' None))))) \<le> 2"
proof -
  let ?s = "NewManager True ''/bin/cloudflared'' ''http://127.0.0.1:20130'' None"
  have "tunnel_steps (\<lambda>_. []) (?s, []) (snd (startQuick (quiet_env undefined) no_config ?s), [])"
    by (rule step_rtrancl) (rule tunnel_step.quick [OF prod.collapse [symmetric]])
  from at_most_two_cloudflared [OF this] show ?thesis by simp
qed

section \<open>The persisted configuration\<close>

lemma config_round_trip:
  "fits64 (tc_UpdatedAt c) \<Longrightarrow> unmarshal_config (config_json c) = Some c"
  by (simp add: unmarshal_config_def config_json_def tag_string_def tag_def decode_simps)

text \<open>The four fields an operator enters, as they are persisted.\<close>

definition creds :: "tunnel_config \<Rightarrow> string \<times> string \<times> string \<times> string" where
  "creds c = (tc_CloudflareAPIToken c, tc_CloudflareAccountID c, tc_CloudflareZoneID c, tc_TunnelDomain c)"

definition stored_creds :: "(string \<Rightarrow> json option) \<Rightarrow> tunnel \<Rightarrow> (string \<times> string \<times> string \<times> string) option" where
  "stored_creds parse s =
     (case tn_store s of None \<Rightarrow> Some (creds no_config) | Some raw \<Rightarrow> map_option creds (parse raw \<bind> unmarshal_config))"

lemma creds_updates [simp]:
  "creds (c\<lparr>tc_Mode := m\<rparr>) = creds c" "creds (c\<lparr>tc_QuickURL := u\<rparr>) = creds c"
  "creds (c\<lparr>tc_UpstreamURL := u\<rparr>) = creds c" "creds (c\<lparr>tc_UpdatedAt := n\<rparr>) = creds c"
  "creds (c\<lparr>tc_TunnelID := i\<rparr>) = creds c" "creds (c\<lparr>tc_TunnelToken := i\<rparr>) = creds c"
  by (simp_all add: creds_def)

lemma creds_loaded:
  "LoadConfig parse e s = Inr cfg \<Longrightarrow> tn_redis s \<Longrightarrow> stored_creds parse s = Some (creds cfg)"
  by (auto simp: LoadConfig_def stored_creds_def split: option.splits)

lemma creds_saved:
  assumes "SaveConfig marshal e cfg s = (err, s')" and "fits64 (te_now e)"
    and "\<forall>c. parse (marshal (config_json c)) = Some (config_json c)"
  shows "stored_creds parse s' = (if err = None then Some (creds cfg) else stored_creds parse s)" and "tn_redis s' = tn_redis s"
  using assms
  by (auto simp: SaveConfig_def stored_creds_def stamped_def config_round_trip split: if_splits option.splits)

lemma store_frame [simp]:
  "tn_store (killGracefully h s) = tn_store s" "tn_redis (killGracefully h s) = tn_redis s"
  "tn_store (stopAll s) = tn_store s" "tn_redis (stopAll s) = tn_redis s"
  by (simp_all add: killGracefully_def mark_exited_def stopAll_def detach_def split: option.split)

lemma startQuick_store: "startQuick e cfg s = (err, s') \<Longrightarrow> tn_store s' = tn_store s \<and> tn_redis s' = tn_redis s"
  by (erule startQuick_cases) auto

lemma startNamed_store:
  assumes "startNamed e cfg s = (err, cfg', s', cs)"
  shows "tn_store s' = tn_store s \<and> tn_redis s' = tn_redis s \<and> creds cfg' = creds cfg"
proof -
  have *: "tn_store s' = tn_store s \<and> tn_redis s' = tn_redis s" if "exec_named e t s = (x, s')" for t x
    using that by (rule exec_named_cases) auto
  show ?thesis
    using assms by (auto simp: startNamed_def Let_def dest: * split: if_splits option.splits sum.splits prod.splits)
qed

lemma start_mode_store:
  assumes "start_mode e cfg s = (err, cfg', s', cs)"
  shows "tn_store s' = tn_store s \<and> tn_redis s' = tn_redis s \<and> creds cfg' = creds cfg"
proof -
  obtain qerr sq where q: "startQuick e cfg s = (qerr, sq)" by fastforce
  obtain nerr cn sn csn where n: "startNamed e cfg s = (nerr, cn, sn, csn)" by (metis prod_cases4)
  obtain herr ch sh csh where h: "startNamed e cfg sq = (herr, ch, sh, csh)" by (metis prod_cases4)
  have "(cfg', s') \<in> {(cfg, s), (cfg, sq), (cn, sn), (ch, sh)}"
    using assms by (auto simp: start_mode_def q n h split: if_splits)
  with startQuick_store [OF q] startNamed_store [OF n] startNamed_store [OF h] show ?thesis by auto
qed

text \<open>The operations on one manager, with the environment each meets.\<close>

datatype tunnel_op = Op_enable "json option" | Op_disable | Op_restart | Op_autostart | Op_shutdown | Op_url string

fun run_op :: "(string \<Rightarrow> json option) \<Rightarrow> (json \<Rightarrow> string) \<Rightarrow> tunnel_env \<times> tunnel_op \<Rightarrow> tunnel \<Rightarrow> tunnel" where
  "run_op parse marshal (e, Op_enable v) s = fst (snd (HandleTunnelEnable parse marshal e v s))"
| "run_op parse marshal (e, Op_disable) s = snd (HandleTunnelDisable parse marshal e s)"
| "run_op parse marshal (e, Op_restart) s = fst (snd (HandleTunnelRestart parse marshal e s))"
| "run_op parse marshal (e, Op_autostart) s = fst (AutoStart parse marshal e s)"
| "run_op parse marshal (e, Op_shutdown) s = Shutdown s"
| "run_op parse marshal (e, Op_url u) s = url_arrives parse marshal e u s"

definition blank_input :: "tunnelEnableInput \<Rightarrow> bool" where
  "blank_input i \<longleftrightarrow>
     list_all (\<lambda>x. trim_space x = [])
       [in_CloudflareAPIToken i, in_CloudflareAccountID i, in_CloudflareZoneID i, in_TunnelDomain i]"

fun enters_nothing :: "tunnel_op \<Rightarrow> bool" where
  "enters_nothing (Op_enable v) \<longleftrightarrow> (case v \<bind> unmarshal_enable of None \<Rightarrow> True | Some i \<Rightarrow> blank_input i)"
| "enters_nothing _ \<longleftrightarrow> True"

lemma creds_merged: "blank_input i \<Longrightarrow> creds (merged m i cfg) = creds cfg"
  by (simp add: blank_input_def merged_def or_keep_def creds_def)

lemma Enable_creds:
  assumes "\<forall>c. parse (marshal (config_json c)) = Some (config_json c)" and "fits64 (te_now e)"
    and "stored_creds parse s = Some (creds cfg)" and "Enable marshal e cfg s = (err, s', cs)"
  shows "stored_creds parse s' = stored_creds parse s \<and> tn_redis s' = tn_redis s"
proof (cases "mode_IsValid (tc_Mode cfg)")
  case True
  obtain err1 cfg1 s1 cs1
    where m: "start_mode e (cfg\<lparr>tc_UpstreamURL := upstream_of cfg (stopAll s)\<rparr>) (stopAll s) = (err1, cfg1, s1, cs1)"
    by (metis prod_cases4)
  obtain serr s2 where sv: "SaveConfig marshal e cfg1 s1 = (serr, s2)" by fastforce
  have "s' \<in> {s1, s2}" using assms(4) True m sv by (auto simp: Enable_def save_and_def Let_def split: if_splits)
  moreover have "stored_creds parse s1 = stored_creds parse s \<and> tn_redis s1 = tn_redis s \<and> creds cfg1 = creds cfg"
    using start_mode_store [OF m] by (simp add: stored_creds_def)
  ultimately show ?thesis using creds_saved [OF sv assms(2,1)] assms(3) by auto
qed (use assms(4) in \<open>simp add: Enable_def\<close>)

lemma HandleTunnelEnable_cases:
  obtains "fst (snd (HandleTunnelEnable parse marshal e v s)) = s"
  | i cfg mode where "v \<bind> unmarshal_enable = Some i" "LoadConfig parse e s = Inr cfg"
      "fst (snd (HandleTunnelEnable parse marshal e v s)) = fst (snd (Enable marshal e (merged mode i cfg) s))"
proof (cases "v \<bind> unmarshal_enable")
  case (Some i)
  show ?thesis
  proof (cases "LoadConfig parse e s")
    case (Inr cfg)
    define mode where
      "mode = (if trim_space (to_lower (in_Mode i)) = [] then ModeQuick else trim_space (to_lower (in_Mode i)))"
    have "HandleTunnelEnable parse marshal e v s =
        (if \<not> mode_IsValid mode then (400, s, [])
         else if (mode = ModeNamed \<or> mode = ModeHybrid) \<and> missing_fields (merged mode i cfg) \<noteq> [] then (400, s, [])
         else (let (err, s', cs) = Enable marshal e (merged mode i cfg) s in (if err = None then 200 else 500, s', cs)))"
      unfolding HandleTunnelEnable_def Some mode_def Let_def by (simp only: option.case Inr sum.case)
    then have "fst (snd (HandleTunnelEnable parse marshal e v s)) = s \<or>
        fst (snd (HandleTunnelEnable parse marshal e v s)) = fst (snd (Enable marshal e (merged mode i cfg) s))"
      by (auto simp: case_prod_unfold Let_def)
    then show ?thesis using that(1) that(2) [OF Some Inr] by blast
  qed (use that(1) Some in \<open>simp add: HandleTunnelEnable_def Let_def split: if_splits\<close>)
qed (use that(1) in \<open>simp add: HandleTunnelEnable_def\<close>)

lemma run_op_creds:
  assumes codec: "\<forall>c. parse (marshal (config_json c)) = Some (config_json c)" and "fits64 (te_now e)"
    and "enters_nothing op" and "tn_redis s"
  shows "stored_creds parse (run_op parse marshal (e, op) s) = stored_creds parse s \<and> tn_redis (run_op parse marshal (e, op) s)"
proof -
  have enable: "stored_creds parse (fst (snd (Enable marshal e cfg' s))) = stored_creds parse s \<and>
      tn_redis (fst (snd (Enable marshal e cfg' s)))"
    if "LoadConfig parse e s = Inr cfg" "creds cfg' = creds cfg" for cfg cfg'
    using Enable_creds [OF codec assms(2), of s cfg'] creds_loaded [OF that(1) assms(4)] that(2) assms(4)
    by (metis prod.collapse)
  have save: "stored_creds parse (snd (SaveConfig marshal e cfg' s')) = stored_creds parse s \<and>
      tn_redis (snd (SaveConfig marshal e cfg' s'))"
    if "LoadConfig parse e s' = Inr cfg" "creds cfg' = creds cfg" "tn_store s' = tn_store s" "tn_redis s' = tn_redis s" for cfg cfg' s'
  proof -
    have "stored_creds parse s' = stored_creds parse s" using that(3) by (simp add: stored_creds_def)
    moreover have "stored_creds parse s' = Some (creds cfg)" using creds_loaded [OF that(1)] that(4) assms(4) by simp
    ultimately show ?thesis
      using creds_saved [OF prod.collapse [symmetric] assms(2) codec, of cfg' s'] that(2,4) assms(4) by simp
  qed
  show ?thesis
  proof (cases op)
    case (Op_enable v)
    show ?thesis
    proof (rule HandleTunnelEnable_cases [of parse marshal e v s])
      fix i cfg mode
      assume i: "v \<bind> unmarshal_enable = Some i" and cfg: "LoadConfig parse e s = Inr cfg"
        and s': "fst (snd (HandleTunnelEnable parse marshal e v s)) = fst (snd (Enable marshal e (merged mode i cfg) s))"
      have "blank_input i" using assms(3) i Op_enable by simp
      from enable [OF cfg creds_merged [OF this]] s' Op_enable show ?thesis by simp
    qed (use assms(4) Op_enable in simp)
  next
    case Op_disable
    then show ?thesis using assms(4) save [of "stopAll s"]
      by (cases "LoadConfig parse e (stopAll s)")
        (simp_all add: HandleTunnelDisable_def Disable_def case_prod_unfold stored_creds_def Let_def)
  next
    case Op_restart
    then show ?thesis using assms(4) enable
      by (cases "LoadConfig parse e s") (simp_all add: HandleTunnelRestart_def Restart_def case_prod_unfold Let_def)
  next
    case Op_autostart
    then show ?thesis using assms(4) enable by (auto simp: AutoStart_def split: sum.splits)
  next
    case Op_shutdown
    then show ?thesis using assms(4) by (simp add: Shutdown_def stored_creds_def)
  next
    case (Op_url u)
    then show ?thesis using assms(4) save [of "show_url u s"]
      by (auto simp: url_arrives_def save_url_def Let_def show_url_def stored_creds_def split: sum.splits)
  qed
qed

text \<open>
  C32: What an operator once entered survives: whatever sequence of requests that leave the credential
  fields blank, of restarts, starts, stops and captured addresses follows, with whatever failures of
  Redis, of the processes and of the API, the API token, the account, the zone and the domain that are
  persisted stay what they were.
\<close>

theorem credentials_survive:
  assumes "\<forall>c. parse (marshal (config_json c)) = Some (config_json c)"
    and "list_all (\<lambda>(e, op). fits64 (te_now e) \<and> enters_nothing op) ops" and "tn_redis s"
  shows "stored_creds parse (fold (run_op parse marshal) ops s) = stored_creds parse s"
  using assms(2,3)
proof (induction ops arbitrary: s)
  case (Cons x ops)
  obtain e op where x: "x = (e, op)" by (cases x)
  have "stored_creds parse (run_op parse marshal x s) = stored_creds parse s \<and> tn_redis (run_op parse marshal x s)"
    using run_op_creds [OF assms(1), of e op s] Cons.prems x by simp
  with Cons.IH [of "run_op parse marshal x s"] Cons.prems show ?case by simp
qed simp

theorem credentials_survive_witness:
  "stored_creds stroke_parse
     (fold (run_op stroke_parse stroke_marshal)
        [(quiet_env undefined, Op_disable), (quiet_env undefined, Op_enable (Some (J_obj [(''mode'', J_str ''QUICK'')]))),
         (quiet_env undefined, Op_url ''https://a.trycloudflare.com''), (quiet_env undefined, Op_restart)]
        (NewManager True ''/bin/cloudflared'' ''http://127.0.0.1:20130'' None)) =
   Some ([], [], [], [])"
proof -
  have "trim_space [] = []" by code_simp
  then have "enters_nothing (Op_enable (Some (J_obj [(''mode'', J_str ''QUICK'')])))"
    by (simp add: unmarshal_enable_def tag_string_def blank_input_def)
  then show ?thesis
    by (subst credentials_survive)
      (simp_all add: stroke_codec quiet_env_def fits64_def NewManager_def stored_creds_def creds_def no_config_def
        del: enters_nothing.simps(1))
qed

section \<open>What does not hold\<close>

text \<open>
  The capture of an address reads the configuration and writes it back. A stop that comes between the
  two is undone: the persisted mode is again the one that was read, so the next start of the gateway
  opens the tunnel again.
\<close>

lemma url_capture_undoes_disable:
  assumes "\<forall>c. parse (marshal (config_json c)) = Some (config_json c)" and "fits64 (te_now e2)"
    and "LoadConfig parse e0 s = Inr cfg" and "tn_redis s" and "te_set_err e2 = None" and "te_get_err e3 = None"
    and "Disable parse marshal e1 s = (None, s1, cs)"
  shows "\<exists>cfg'. LoadConfig parse e3 (save_url marshal e2 u (LoadConfig parse e0 s) s1) = Inr cfg' \<and>
    tc_Mode cfg' = tc_Mode cfg \<and> tc_QuickURL cfg' = u"
proof -
  have valid: "mode_IsValid (tc_Mode cfg)"
    using assms(3) by (auto simp: LoadConfig_def no_config_def mode_IsValid_def split: if_splits option.splits)
  have "tn_redis s1"
    using assms(4,7)
    by (auto simp: Disable_def SaveConfig_def Let_def split: sum.splits if_splits option.splits)
  then show ?thesis
    using assms(1-3,5,6) valid
    by (simp add: save_url_def SaveConfig_def LoadConfig_def [of parse e3] config_round_trip stamped_def)
qed

text \<open>An address that arrives after a stop is shown although nothing runs.\<close>

lemma url_after_stop: "tn_quickURL (show_url u (stopAll s)) = u"
  by (simp add: show_url_def)

text \<open>A failed start has stopped the old processes and leaves the persisted configuration as it was.\<close>

lemma failed_enable_keeps_store:
  assumes "start_mode e (cfg\<lparr>tc_UpstreamURL := upstream_of cfg s\<rparr>) (stopAll s) = (Some err, cfg', s', cs)"
    and "mode_IsValid (tc_Mode cfg)"
  shows "Enable marshal e cfg s = (Some err, s', cs) \<and> tn_store s' = tn_store s"
proof -
  have "upstream_of cfg (stopAll s) = upstream_of cfg s"
    by (simp add: upstream_of_def stopAll_def killGracefully_def mark_exited_def detach_def split: option.split)
  with assms start_mode_store [OF assms(1)] show ?thesis by (simp add: Enable_def)
qed

text \<open>
  So when the ingress of a fresh tunnel cannot be set, its id is not persisted, and the next attempt
  creates another one.
\<close>

lemma failed_ingress_forgets_tunnel:
  assumes "tc_Mode cfg = ModeNamed" "has_credentials cfg" "tc_TunnelID cfg = []" "te_stat_err e = None"
    and "ca_new (te_api e) = Inr i" "i \<noteq> []" "ca_token (te_api e) (tc_CloudflareAccountID cfg) i = Inr t" "t \<noteq> []"
    and "ca_ingress (te_api e) = Some m"
  shows "tn_store (fst (snd (Enable marshal e cfg s))) = tn_store s \<and>
    Tunnel_new (tc_CloudflareAccountID cfg) tunnelName \<in> set (snd (snd (Enable marshal e cfg s)))"
  using assms
  by (simp add: Enable_def mode_IsValid_def start_mode_def startNamed_def has_credentials_def createOrReuseTunnel_def
      configureIngress_def Let_def)

text \<open>The address captured from a log can be that of the service that refused the tunnel.\<close>

lemma service_taken_for_tunnel:
  "quick_url ''failed to request quick Tunnel: Post https://api.trycloudflare.com/tunnel: EOF'' =
     Some ''https://api.trycloudflare.com''"
  by code_simp

end
