(* ===== verification/RequestLogs.thy ===== *)
theory RequestLogs
  imports BoundedLog Json Db "HOL-Library.Multiset"
begin

text \<open>
  The request log: the channels and batches of \<open>internal/db/db.go\<close>, the tables and queries of the SQLite
  store (\<open>internal/db/logstore_sqlite.go\<close>), and the history endpoints of
  \<open>internal/handlers/handlers.go\<close>. A table is its rows in the order of their ids, and a query is what
  its SQL says; the order of groups that \<open>GROUP BY\<close> leaves open is an argument.
\<close>

section \<open>Entries\<close>

record request_log =
  rl_Timestamp :: gotime
  rl_RequestID :: string
  rl_ClientKey :: string
  rl_Model :: string
  rl_Upstream :: string
  rl_AccountID :: string
  rl_StatusCode :: int
  rl_LatencyMs :: int
  rl_TokensIn :: int
  rl_TokensOut :: int
  rl_Neurons :: rat
  rl_CostUsd :: rat
  rl_ErrorMsg :: string
  rl_InputText :: string
  rl_OutputText :: string
  rl_RequestBody :: string
  rl_ResponseBody :: string

record refresh_log =
  rf_Timestamp :: gotime
  rf_AccountEmail :: string
  rf_Provider :: string
  rf_Success :: bool
  rf_ErrorMsg :: string
  rf_LatencyMs :: int

record account_event =
  ae_Timestamp :: gotime
  ae_AccountID :: string
  ae_Provider :: string
  ae_EventType :: string
  ae_EventData :: "json option"

definition bodyString :: "string \<Rightarrow> string" where
  "bodyString raw = (if raw = [] then [] else raw)"

definition max0 :: "int \<Rightarrow> int" where
  "max0 n = (if n < 0 then 0 else n)"

section \<open>Channel and batch\<close>

text \<open>
  One of the three pipelines: the buffered channel, the batch its consumer fills, whether the consumer
  runs, whether there is a log store, and the batches handed to it, the last one last.
\<close>

record 'a log_pipe =
  lp_chan :: "'a list"
  lp_batch :: "'a list"
  lp_running :: bool
  lp_store :: bool
  lp_handed :: "'a list list"

definition LOG_BUFFER_SIZE :: nat where "LOG_BUFFER_SIZE = 10000"

definition new_pipe :: "bool \<Rightarrow> 'a log_pipe" where
  "new_pipe has_store =
     \<lparr>lp_chan = [], lp_batch = [], lp_running = True, lp_store = has_store, lp_handed = []\<rparr>"

text \<open>\<open>LogRequest\<close>, \<open>LogRefresh\<close> and \<open>LogEvent\<close>.\<close>

definition enqueue :: "'a \<Rightarrow> 'a log_pipe \<Rightarrow> 'a log_pipe" where
  "enqueue x p = p\<lparr>lp_chan := offer LOG_BUFFER_SIZE x (lp_chan p)\<rparr>"

definition LogRequest :: "request_log \<Rightarrow> request_log log_pipe \<Rightarrow> request_log log_pipe" where
  "LogRequest r p = enqueue r p"

definition LogRefresh :: "refresh_log \<Rightarrow> refresh_log log_pipe \<Rightarrow> refresh_log log_pipe" where
  "LogRefresh r p = enqueue r p"

definition LogEvent :: "account_event \<Rightarrow> account_event log_pipe \<Rightarrow> account_event log_pipe" where
  "LogEvent e p = enqueue e p"

text \<open>The batch is emptied whether the store takes it or not, and also when there is none.\<close>

definition pipe_flush :: "'a log_pipe \<Rightarrow> 'a log_pipe" where
  "pipe_flush p =
     (if lp_batch p = [] \<or> \<not> lp_store p then p\<lparr>lp_batch := []\<rparr>
      else p\<lparr>lp_handed := lp_handed p @ [lp_batch p], lp_batch := []\<rparr>)"

text \<open>What a consumer's \<open>select\<close> may find ready: an entry, the ticker, the closed \<open>done\<close> channel.\<close>

datatype 'a pipe_event = Logged 'a | Received | Ticked | Stopped

definition pipe_receive :: "nat \<Rightarrow> 'a log_pipe \<Rightarrow> 'a log_pipe" where
  "pipe_receive limit p =
     (case lp_chan p of
        [] \<Rightarrow> p
      | x # rest \<Rightarrow>
        (let p = p\<lparr>lp_chan := rest, lp_batch := lp_batch p @ [x]\<rparr>
         in if length (lp_batch p) \<ge> limit then pipe_flush p else p))"

fun consume_step :: "nat \<Rightarrow> 'a pipe_event \<Rightarrow> 'a log_pipe \<Rightarrow> 'a log_pipe" where
  "consume_step limit (Logged x) p = enqueue x p"
| "consume_step limit Received p = (if lp_running p then pipe_receive limit p else p)"
| "consume_step limit Ticked p = (if lp_running p then pipe_flush p else p)"
| "consume_step limit Stopped p = (if lp_running p then (pipe_flush p)\<lparr>lp_running := False\<rparr> else p)"

definition consumeRequestLogs :: "request_log pipe_event \<Rightarrow> request_log log_pipe \<Rightarrow> request_log log_pipe" where
  "consumeRequestLogs = consume_step 200"

definition consumeRefreshLogs :: "refresh_log pipe_event \<Rightarrow> refresh_log log_pipe \<Rightarrow> refresh_log log_pipe" where
  "consumeRefreshLogs = consume_step 50"

definition consumeAccountEvents :: "account_event pipe_event \<Rightarrow> account_event log_pipe \<Rightarrow> account_event log_pipe" where
  "consumeAccountEvents = consume_step 50"

section \<open>The SQLite store\<close>

record log_row =
  lw_id :: nat
  lw_entry :: request_log

record log_tables =
  lt_rows :: "log_row list"
  lt_next :: nat
  lt_refreshes :: "refresh_log list"
  lt_events :: "(gotime \<times> string \<times> string \<times> string \<times> string) list"
  lt_closed :: bool

definition stamp_or :: "gotime \<Rightarrow> gotime \<Rightarrow> gotime" where
  "stamp_or now ts = (if ts = 0 then now else ts)"

text \<open>The columns of an entry.\<close>

definition row_of :: "gotime \<Rightarrow> request_log \<Rightarrow> request_log" where
  "row_of now r =
     r\<lparr>rl_Timestamp := stamp_or now (rl_Timestamp r), rl_LatencyMs := max0 (rl_LatencyMs r),
       rl_TokensIn := max0 (rl_TokensIn r), rl_TokensOut := max0 (rl_TokensOut r),
       rl_RequestBody := bodyString (rl_RequestBody r), rl_ResponseBody := bodyString (rl_ResponseBody r)\<rparr>"

text \<open>
  A batch is one transaction: \<open>tx\<close> says whether it begins and commits, \<open>takes\<close> whether an insert works;
  one that fails is skipped.
\<close>

definition insert_row :: "gotime \<Rightarrow> request_log \<Rightarrow> log_tables \<Rightarrow> log_tables" where
  "insert_row now r t =
     t\<lparr>lt_rows := lt_rows t @ [\<lparr>lw_id = lt_next t, lw_entry = row_of now r\<rparr>], lt_next := Suc (lt_next t)\<rparr>"

definition InsertRequestBatch ::
  "bool \<Rightarrow> (request_log \<Rightarrow> bool) \<Rightarrow> gotime \<Rightarrow> request_log list \<Rightarrow> log_tables \<Rightarrow> bool \<times> log_tables" where
  "InsertRequestBatch tx takes now batch t =
     (if batch = [] then (True, t)
      else if \<not> tx then (False, t)
      else (True, fold (insert_row now) (filter takes batch) t))"

definition InsertRefreshBatch ::
  "bool \<Rightarrow> (refresh_log \<Rightarrow> bool) \<Rightarrow> gotime \<Rightarrow> refresh_log list \<Rightarrow> log_tables \<Rightarrow> bool \<times> log_tables" where
  "InsertRefreshBatch tx takes now batch t =
     (if batch = [] then (True, t)
      else if \<not> tx then (False, t)
      else (True, t\<lparr>lt_refreshes := lt_refreshes t @
              map (\<lambda>r. r\<lparr>rf_Timestamp := stamp_or now (rf_Timestamp r), rf_LatencyMs := max0 (rf_LatencyMs r)\<rparr>)
                (filter takes batch)\<rparr>))"

definition InsertEventBatch ::
  "(json \<Rightarrow> string) \<Rightarrow> bool \<Rightarrow> (account_event \<Rightarrow> bool) \<Rightarrow> gotime \<Rightarrow> account_event list \<Rightarrow> log_tables \<Rightarrow>
   bool \<times> log_tables" where
  "InsertEventBatch marshal tx takes now batch t =
     (if batch = [] then (True, t)
      else if \<not> tx then (False, t)
      else (True, t\<lparr>lt_events := lt_events t @
              map (\<lambda>e. (stamp_or now (ae_Timestamp e), ae_AccountID e, ae_Provider e, ae_EventType e,
                        case ae_EventData e of None \<Rightarrow> [] | Some d \<Rightarrow> marshal d))
                (filter takes batch)\<rparr>))"

text \<open>One round of the retention loop: rows older than 90 days go.\<close>

definition prune :: "gotime \<Rightarrow> log_tables \<Rightarrow> log_tables" where
  "prune now t =
     (let old = (\<lambda>ts. ts < now - 90 * 24 * hour) in
      t\<lparr>lt_rows := filter (\<lambda>w. \<not> old (rl_Timestamp (lw_entry w))) (lt_rows t),
        lt_refreshes := filter (\<lambda>r. \<not> old (rf_Timestamp r)) (lt_refreshes t),
        lt_events := filter (\<lambda>e. \<not> old (fst e)) (lt_events t)\<rparr>)"

section \<open>Queries\<close>

definition rows_since :: "gotime \<Rightarrow> log_tables \<Rightarrow> request_log list" where
  "rows_since since t = filter (\<lambda>r. since \<le> rl_Timestamp r) (map lw_entry (lt_rows t))"

definition sql_avg :: "rat list \<Rightarrow> rat" where
  "sql_avg xs = (if xs = [] then 0 else sum_list xs / rat_of_nat (length xs))"

record request_stats =
  rs_TotalRequests :: nat
  rs_TotalErrors :: nat
  rs_ErrorRate :: rat
  rs_AvgLatencyMs :: rat
  rs_TotalTokensIn :: int
  rs_TotalTokensOut :: int
  rs_TotalTokens :: int
  rs_TotalCostUsd :: rat

record model_stats =
  mt_Model :: string
  mt_TotalRequests :: nat
  mt_TotalErrors :: nat
  mt_AvgLatencyMs :: rat
  mt_TotalTokensIn :: int
  mt_TotalTokensOut :: int
  mt_TotalTokens :: int
  mt_TotalCostUsd :: rat

definition failed_row :: "request_log \<Rightarrow> bool" where
  "failed_row r \<longleftrightarrow> rl_StatusCode r \<ge> 400"

definition served_latency :: "request_log list \<Rightarrow> rat" where
  "served_latency rs = sql_avg (map (\<lambda>r. rat_of_int (rl_LatencyMs r)) (filter (\<lambda>r. \<not> failed_row r) rs))"

definition stats_of_rows :: "request_log list \<Rightarrow> request_stats" where
  "stats_of_rows rs =
     (let total = length rs; errs = length (filter failed_row rs);
          tin = sum_list (map rl_TokensIn rs); tout = sum_list (map rl_TokensOut rs)
      in \<lparr>rs_TotalRequests = total, rs_TotalErrors = errs,
          rs_ErrorRate = (if total > 0 then rat_of_nat errs / rat_of_nat total * 100 else 0),
          rs_AvgLatencyMs = served_latency rs, rs_TotalTokensIn = tin, rs_TotalTokensOut = tout,
          rs_TotalTokens = tin + tout, rs_TotalCostUsd = sum_list (map rl_CostUsd rs)\<rparr>)"

definition GetRequestStats :: "gotime \<Rightarrow> log_tables \<Rightarrow> request_stats" where
  "GetRequestStats since t = stats_of_rows (rows_since since t)"

definition model_row :: "request_log list \<Rightarrow> string \<Rightarrow> model_stats" where
  "model_row rs model =
     (let g = filter (\<lambda>r. rl_Model r = model) rs;
          tin = sum_list (map rl_TokensIn g); tout = sum_list (map rl_TokensOut g)
      in \<lparr>mt_Model = model, mt_TotalRequests = length g, mt_TotalErrors = length (filter failed_row g),
          mt_AvgLatencyMs = served_latency g, mt_TotalTokensIn = tin, mt_TotalTokensOut = tout,
          mt_TotalTokens = tin + tout, mt_TotalCostUsd = sum_list (map rl_CostUsd g)\<rparr>)"

text \<open>\<open>groups\<close> lists the models of the rows in some order; then the most used come first, up to the limit.\<close>

definition GetModelStats ::
  "(request_log list \<Rightarrow> string list) \<Rightarrow> gotime \<Rightarrow> int \<Rightarrow> log_tables \<Rightarrow> model_stats list" where
  "GetModelStats groups since limit0 t =
     (let limit = (if limit0 \<le> 0 then 20 else limit0);
          rs = rows_since since t
      in take (nat limit) (sort_key (\<lambda>m. - int (mt_TotalRequests m)) (map (model_row rs) (groups rs))))"

text \<open>The previews, newest first, rows of one instant by descending id.\<close>

definition newest_first :: "log_row list \<Rightarrow> log_row list" where
  "newest_first ws = rev (sort_key (\<lambda>w. rl_Timestamp (lw_entry w)) (sort_key lw_id ws))"

definition preview :: "log_row \<Rightarrow> string \<times> request_log" where
  "preview w = (show_nat (lw_id w), (lw_entry w)\<lparr>rl_RequestBody := [], rl_ResponseBody := []\<rparr>)"

definition GetRecentRequests :: "int \<Rightarrow> log_tables \<Rightarrow> (string \<times> request_log) list" where
  "GetRecentRequests limit0 t =
     (let limit1 = (if limit0 \<le> 0 then 50 else limit0);
          limit = (if limit1 > 500 then 500 else limit1)
      in map preview (take (nat limit) (newest_first (lt_rows t))))"

definition GetRequestDetail :: "nat \<Rightarrow> log_tables \<Rightarrow> (string \<times> request_log) option" where
  "GetRequestDetail i t =
     (case filter (\<lambda>w. int (lw_id w) = (if i < 2 ^ 63 then int i else int i - 2 ^ 64)) (lt_rows t) of
        [] \<Rightarrow> None
      | w # _ \<Rightarrow> Some (show_nat (lw_id w), lw_entry w))"

definition Close :: "log_tables \<Rightarrow> log_tables" where
  "Close t = t\<lparr>lt_closed := True\<rparr>"

section \<open>Endpoints\<close>

text \<open>The window of \<open>/history\<close>: hours, and its start by 64-bit arithmetic on durations.\<close>

definition history_hours :: "string \<Rightarrow> int" where
  "history_hours q = (if q = [] then 24 else case parse_int64 q of None \<Rightarrow> 24 | Some v \<Rightarrow> if v > 0 then v else 24)"

definition history_since :: "gotime \<Rightarrow> int \<Rightarrow> gotime" where
  "history_since now hours = now + wrap64 (- hours * hour)"

text \<open>The two queries answer with an error or with a table as it is then.\<close>

definition HandleHistory ::
  "(request_log list \<Rightarrow> string list) \<Rightarrow> gotime \<Rightarrow> string \<Rightarrow> log_tables option \<Rightarrow> log_tables option \<Rightarrow>
   int \<times> (int \<times> request_stats \<times> model_stats list) option" where
  "HandleHistory groups now q t1 t2 =
     (let hours = history_hours q; since = history_since now hours in
      case t1 of
        None \<Rightarrow> (500, None)
      | Some t1 \<Rightarrow>
        (case t2 of
           None \<Rightarrow> (500, None)
         | Some t2 \<Rightarrow> (200, Some (hours, GetRequestStats since t1, GetModelStats groups since 500 t2))))"

definition HandleRecentRequests :: "string \<Rightarrow> log_tables option \<Rightarrow> int \<times> (string \<times> request_log) list" where
  "HandleRecentRequests l t =
     (let limit = (if l = [] then 50
                   else case parse_int64 l of None \<Rightarrow> 50 | Some v \<Rightarrow> if v > 0 \<and> v \<le> 500 then v else 50)
      in case t of None \<Rightarrow> (500, []) | Some t \<Rightarrow> (200, GetRecentRequests limit t))"

text \<open>\<open>strconv.ParseUint(s, 10, 64)\<close>: digits only, in the range.\<close>

definition parse_uint64 :: "string \<Rightarrow> nat option" where
  "parse_uint64 s = (case parse_digits s of None \<Rightarrow> None | Some n \<Rightarrow> if n < 2 ^ 64 then Some n else None)"

definition HandleHistoryDetail :: "string \<Rightarrow> log_tables \<Rightarrow> int \<times> (string \<times> request_log) option" where
  "HandleHistoryDetail idStr t =
     (case parse_uint64 idStr of
        None \<Rightarrow> (400, None)
      | Some i \<Rightarrow>
        if i = 0 then (400, None)
        else case GetRequestDetail i t of None \<Rightarrow> (404, None) | Some d \<Rightarrow> (200, Some d))"

section \<open>The pipeline keeps order\<close>

text \<open>What was logged in a history of events, and what a pipeline has got of it.\<close>

fun logged :: "'a pipe_event list \<Rightarrow> 'a list" where
  "logged [] = []"
| "logged (Logged x # evs) = x # logged evs"
| "logged (_ # evs) = logged evs"

definition kept :: "'a log_pipe \<Rightarrow> 'a list" where
  "kept p = concat (lp_handed p) @ lp_batch p @ lp_chan p"

text \<open>The entries that found fewer than the capacity of the channel waiting in it when they were logged.\<close>

fun admitted :: "nat \<Rightarrow> 'a pipe_event list \<Rightarrow> 'a log_pipe \<Rightarrow> 'a list" where
  "admitted limit [] p = []"
| "admitted limit (ev # evs) p =
     (case ev of Logged x \<Rightarrow> if length (lp_chan p) < LOG_BUFFER_SIZE then [x] else [] | _ \<Rightarrow> []) @
     admitted limit evs (consume_step limit ev p)"

definition pipe_ok :: "nat \<Rightarrow> 'a log_pipe \<Rightarrow> bool" where
  "pipe_ok limit p \<longleftrightarrow>
     list_all (\<lambda>b. b \<noteq> [] \<and> length b \<le> limit) (lp_handed p) \<and> length (lp_batch p) < limit \<and>
     length (lp_chan p) \<le> LOG_BUFFER_SIZE \<and> lp_store p"

lemma pipe_flush_keeps [simp]:
  "lp_store p \<Longrightarrow> kept (pipe_flush p) = kept p" "lp_chan (pipe_flush p) = lp_chan p" "lp_batch (pipe_flush p) = []"
  "lp_store (pipe_flush p) = lp_store p"
  by (simp_all add: pipe_flush_def kept_def)

lemma pipe_flush_ok:
  "list_all (\<lambda>b. b \<noteq> [] \<and> length b \<le> limit) (lp_handed p) \<Longrightarrow> length (lp_batch p) \<le> limit \<Longrightarrow>
   list_all (\<lambda>b. b \<noteq> [] \<and> length b \<le> limit) (lp_handed (pipe_flush p))"
  by (simp add: pipe_flush_def)

lemma kept_running [simp]: "kept (p\<lparr>lp_running := b\<rparr>) = kept p"
  by (simp add: kept_def)

lemma kept_receive [simp]: "lp_store p \<Longrightarrow> kept (pipe_receive limit p) = kept p"
proof (cases "lp_chan p")
  case (Cons x rest)
  assume "lp_store p"
  moreover have "kept (p\<lparr>lp_chan := rest, lp_batch := lp_batch p @ [x]\<rparr>) = kept p" by (simp add: kept_def Cons)
  ultimately show ?thesis by (simp add: pipe_receive_def Cons Let_def)
qed (simp add: pipe_receive_def)

lemma kept_log: "kept (enqueue x p) = (if length (lp_chan p) < LOG_BUFFER_SIZE then kept p @ [x] else kept p)"
  by (simp add: enqueue_def offer_def kept_def)

lemma kept_step:
  "lp_store p \<Longrightarrow> kept (consume_step limit ev p) = kept p @
     (case ev of Logged x \<Rightarrow> if length (lp_chan p) < LOG_BUFFER_SIZE then [x] else [] | _ \<Rightarrow> [])"
  by (cases ev) (simp_all add: kept_log)

lemma pipe_ok_step:
  assumes "pipe_ok limit p" and "0 < limit"
  shows "pipe_ok limit (consume_step limit ev p)"
proof (cases ev)
  case (Logged x)
  with assms show ?thesis by (auto simp: pipe_ok_def enqueue_def)
next
  case Received
  show ?thesis
  proof (cases "lp_chan p")
    case Nil
    with assms Received show ?thesis by (simp add: pipe_receive_def)
  next
    case (Cons x rest)
    with assms Received show ?thesis
      by (auto simp: pipe_ok_def pipe_receive_def Let_def intro: pipe_flush_ok)
  qed
qed (use assms in \<open>auto simp: pipe_ok_def intro: pipe_flush_ok\<close>)

lemma pipe_history:
  assumes "0 < limit" and "pipe_ok limit p"
  shows "kept (fold (consume_step limit) evs p) = kept p @ admitted limit evs p \<and>
    pipe_ok limit (fold (consume_step limit) evs p)"
  using assms(2)
proof (induction evs arbitrary: p)
  case (Cons ev evs)
  then have "lp_store p" by (simp add: pipe_ok_def)
  with Cons.IH [OF pipe_ok_step [OF Cons.prems assms(1), of ev]] kept_step [of p limit ev] show ?case by simp
qed simp

lemma admitted_subseq: "subseq (admitted limit evs p) (logged evs)"
proof (induction evs arbitrary: p)
  case (Cons ev evs)
  then show ?case by (cases ev) auto
qed simp

text \<open>
  C33: However the producers, the ticker and the consumer interleave, the batches handed to the log
  store, what waits in the batch and what waits in the channel are, each once and in the order they
  were logged, exactly the entries that found fewer than ten thousand others waiting in the channel
  when they were logged; batches hold 1 to 200 entries, and the channel never more than ten thousand.
  So an entry is dropped only while ten thousand are waiting.
\<close>

theorem request_log_in_order:
  fixes evs :: "request_log pipe_event list"
  defines "p \<equiv> fold consumeRequestLogs evs (new_pipe True)"
  shows "concat (lp_handed p) @ lp_batch p @ lp_chan p = admitted 200 evs (new_pipe True) \<and>
    subseq (admitted 200 evs (new_pipe True)) (logged evs) \<and>
    list_all (\<lambda>b. b \<noteq> [] \<and> length b \<le> 200) (lp_handed p) \<and> length (lp_chan p) \<le> LOG_BUFFER_SIZE"
proof -
  have "pipe_ok 200 (new_pipe True)" by (simp add: pipe_ok_def new_pipe_def)
  from pipe_history [OF _ this, of evs] admitted_subseq show ?thesis
    by (simp add: p_def consumeRequestLogs_def pipe_ok_def kept_def) (simp add: new_pipe_def)
qed

text \<open>When the consumer is stopped it writes its batch, not what still waits in the channel.\<close>

lemma stop_loses_channel:
  "lp_handed (consumeRequestLogs Stopped \<lparr>lp_chan = [r], lp_batch = [], lp_running = True, lp_store = True, lp_handed = []\<rparr>) = [] \<and>
   lp_handed (fold consumeRequestLogs evs (consumeRequestLogs Stopped
     \<lparr>lp_chan = [r], lp_batch = [], lp_running = True, lp_store = True, lp_handed = []\<rparr>)) = []"
proof -
  have "\<not> lp_running p \<Longrightarrow> lp_handed (fold consumeRequestLogs evs p) = lp_handed p" for p
  proof (induction evs arbitrary: p)
    case (Cons ev evs)
    then show ?case by (cases ev) (simp_all add: consumeRequestLogs_def enqueue_def)
  qed simp
  then show ?thesis by (simp add: consumeRequestLogs_def pipe_flush_def)
qed

section \<open>Statistics add up\<close>

lemma sum_list_by_key:
  fixes f :: "'a \<Rightarrow> 'b::comm_monoid_add"
  assumes "distinct ks" and "g ` set xs \<subseteq> set ks"
  shows "sum_list (map (\<lambda>k. sum_list (map f (filter (\<lambda>x. g x = k) xs))) ks) = sum_list (map f xs)"
  using assms(2)
proof (induction xs)
  case (Cons x xs)
  have "g x \<in> set ks" using Cons.prems by simp
  have "sum_list (map (\<lambda>k. sum_list (map f (filter (\<lambda>y. g y = k) (x # xs)))) ks) =
      sum_list (map (\<lambda>k. (if k = g x then f x else 0) + sum_list (map f (filter (\<lambda>y. g y = k) xs))) ks)"
    by (rule arg_cong [where f = sum_list]) (auto simp: eq_commute)
  also have "\<dots> = sum_list (map (\<lambda>k. if k = g x then f x else 0) ks) + sum_list (map f xs)"
    using Cons by (simp add: sum_list_addf)
  also have "sum_list (map (\<lambda>k. if k = g x then f x else 0) ks) = f x"
    using assms(1) \<open>g x \<in> set ks\<close> by (simp add: sum_list_distinct_conv_sum_set sum.delta)
  finally show ?case by simp
qed simp

lemma sum_list_sort: "sum_list (map f (sort_key k xs)) = (sum_list (map f xs) :: 'b::comm_monoid_add)"
  by (metis mset_map mset_sort sum_mset_sum_list)

lemma length_as_sum: "length (filter P xs) = sum_list (map (\<lambda>x. if P x then 1 else 0) xs)"
  by (induction xs) auto

text \<open>
  The rows of \<open>GetModelStats\<close> sum up to the figures of \<open>GetRequestStats\<close> on the same table, when there are
  at most as many models as rows asked for.
\<close>

lemma model_rows_sum:
  assumes "distinct (groups (rows_since since t))"
    and "set (groups (rows_since since t)) = rl_Model ` set (rows_since since t)"
    and "int (length (groups (rows_since since t))) \<le> limit" and "0 < limit"
  defines "rows \<equiv> GetModelStats groups since limit t"
  shows "sum_list (map mt_TotalRequests rows) = rs_TotalRequests (GetRequestStats since t) \<and>
    sum_list (map mt_TotalErrors rows) = rs_TotalErrors (GetRequestStats since t) \<and>
    sum_list (map mt_TotalTokens rows) = rs_TotalTokens (GetRequestStats since t) \<and>
    sum_list (map mt_TotalCostUsd rows) = rs_TotalCostUsd (GetRequestStats since t)"
proof -
  let ?rs = "rows_since since t"
  have rows: "rows = sort_key (\<lambda>m. - int (mt_TotalRequests m)) (map (model_row ?rs) (groups ?rs))"
    using assms(3,4) by (simp add: rows_def GetModelStats_def Let_def)
  have sums: "sum_list (map f rows) = sum_list (map h ?rs)"
    if "\<And>m. f (model_row ?rs m) = sum_list (map h (filter (\<lambda>r. rl_Model r = m) ?rs))"
    for f :: "model_stats \<Rightarrow> 'b::comm_monoid_add" and h
    unfolding rows using sum_list_by_key [of "groups ?rs" rl_Model ?rs h] assms(1,2) that
    by (simp add: sum_list_sort comp_def)
  have "sum_list (map mt_TotalRequests rows) = sum_list (map (\<lambda>_. 1) ?rs)"
    by (rule sums) (simp add: model_row_def Let_def sum_list_triv)
  moreover have "sum_list (map mt_TotalErrors rows) = sum_list (map (\<lambda>r. if failed_row r then 1 else 0) ?rs)"
    by (rule sums) (simp add: model_row_def Let_def length_as_sum)
  moreover have "sum_list (map mt_TotalTokens rows) = sum_list (map (\<lambda>r. rl_TokensIn r + rl_TokensOut r) ?rs)"
    by (rule sums) (simp add: model_row_def Let_def sum_list_addf)
  moreover have "sum_list (map mt_TotalCostUsd rows) = sum_list (map rl_CostUsd ?rs)"
    by (rule sums) (simp add: model_row_def Let_def)
  ultimately show ?thesis
    by (simp add: GetRequestStats_def stats_of_rows_def Let_def sum_list_triv length_as_sum sum_list_addf)
qed

text \<open>
  C34: The history page adds up. When both of its queries find the table in the same state (they are
  two, and entries may come in between) and it has entries of at most 500 models in the window,
  the page is delivered and the requests, the errors, the tokens and the cost of its per-model
  rows sum up to its totals, whatever order the groups come in.
\<close>

theorem model_stats_add_up:
  assumes "rs = rows_since (history_since now (history_hours q)) t"
    and "distinct (groups rs)" "set (groups rs) = rl_Model ` set rs" "length (groups rs) \<le> 500"
  shows "\<exists>stats rows. HandleHistory groups now q (Some t) (Some t) = (200, Some (history_hours q, stats, rows)) \<and>
    sum_list (map mt_TotalRequests rows) = rs_TotalRequests stats \<and>
    sum_list (map mt_TotalErrors rows) = rs_TotalErrors stats \<and>
    sum_list (map mt_TotalTokens rows) = rs_TotalTokens stats \<and>
    sum_list (map mt_TotalCostUsd rows) = rs_TotalCostUsd stats"
  using model_rows_sum [of groups "history_since now (history_hours q)" t 500] assms
  by (simp add: HandleHistory_def Let_def)

definition sample_log :: "string \<Rightarrow> int \<Rightarrow> request_log" where
  "sample_log model status =
     \<lparr>rl_Timestamp = 5, rl_RequestID = ''r'', rl_ClientKey = ''k'', rl_Model = model, rl_Upstream = ''grok'',
      rl_AccountID = [], rl_StatusCode = status, rl_LatencyMs = 10, rl_TokensIn = 3, rl_TokensOut = 4,
      rl_Neurons = 0, rl_CostUsd = 1, rl_ErrorMsg = [], rl_InputText = [], rl_OutputText = [],
      rl_RequestBody = [], rl_ResponseBody = []\<rparr>"

definition no_logs :: log_tables where
  "no_logs = \<lparr>lt_rows = [], lt_next = 1, lt_refreshes = [], lt_events = [], lt_closed = False\<rparr>"

definition sample_tables :: log_tables where
  "sample_tables = snd (InsertRequestBatch True (\<lambda>_. True) 9
     [sample_log ''grok-4.5'' 200, sample_log ''cb/gpt-5'' 503, sample_log ''grok-4.5'' 200] no_logs)"

theorem model_stats_add_up_witness:
  "\<exists>stats rows. HandleHistory (\<lambda>rs. remdups (map rl_Model rs)) 9 ''24'' (Some sample_tables) (Some sample_tables) =
       (200, Some (24, stats, rows)) \<and> sum_list (map mt_TotalRequests rows) = rs_TotalRequests stats \<and>
     rs_TotalRequests stats = 3"
proof -
  have h: "history_hours ''24'' = 24" by code_simp
  have rows: "rows_since (history_since 9 (history_hours ''24'')) sample_tables =
      [sample_log ''grok-4.5'' 200, sample_log ''cb/gpt-5'' 503, sample_log ''grok-4.5'' 200]"
    by code_simp
  from model_stats_add_up [OF rows [symmetric], of "\<lambda>rs. remdups (map rl_Model rs)"] obtain stats mrows where
    p: "HandleHistory (\<lambda>rs. remdups (map rl_Model rs)) 9 ''24'' (Some sample_tables) (Some sample_tables) =
       (200, Some (24, stats, mrows))" "sum_list (map mt_TotalRequests mrows) = rs_TotalRequests stats"
    by (auto simp: h sample_log_def)
  then have "stats = GetRequestStats (history_since 9 (history_hours ''24'')) sample_tables"
    by (simp add: HandleHistory_def h Let_def)
  then have "rs_TotalRequests stats = 3" by (simp add: GetRequestStats_def rows stats_of_rows_def Let_def)
  with p show ?thesis by blast
qed

text \<open>The share of errors is a percentage.\<close>

lemma error_rate_percent: "0 \<le> rs_ErrorRate (GetRequestStats since t) \<and> rs_ErrorRate (GetRequestStats since t) \<le> 100"
proof -
  have "length (filter failed_row rs) \<le> length rs" for rs by simp
  then have "rat_of_nat (length (filter failed_row rs)) \<le> rat_of_nat (length rs)" for rs
    by (simp only: of_nat_le_iff)
  then show ?thesis by (simp add: GetRequestStats_def stats_of_rows_def Let_def divide_le_eq)
qed

section \<open>Previews open\<close>

definition tables_ok :: "log_tables \<Rightarrow> bool" where
  "tables_ok t \<longleftrightarrow>
     distinct (map lw_id (lt_rows t)) \<and> list_all (\<lambda>w. 0 < lw_id w \<and> lw_id w < lt_next t) (lt_rows t) \<and> 0 < lt_next t"

lemma insert_row_ok: "tables_ok t \<Longrightarrow> tables_ok (insert_row now r t)"
  by (force simp: tables_ok_def insert_row_def list_all_iff)

lemma insert_rows_ok: "tables_ok t \<Longrightarrow> tables_ok (fold (insert_row now) rs t)"
  by (induction rs arbitrary: t) (simp_all add: insert_row_ok)

text \<open>What the log store does to its tables: batches and rounds of the retention loop.\<close>

datatype table_op = Op_requests bool gotime "request_log list" | Op_prune gotime

fun run_table_op :: "(request_log \<Rightarrow> bool) \<Rightarrow> table_op \<Rightarrow> log_tables \<Rightarrow> log_tables" where
  "run_table_op takes (Op_requests tx now batch) t = snd (InsertRequestBatch tx takes now batch t)"
| "run_table_op takes (Op_prune now) t = prune now t"

lemma run_table_op_ok: "tables_ok t \<Longrightarrow> tables_ok (run_table_op takes op t)"
proof (cases op)
  case (Op_prune now)
  moreover assume "tables_ok t"
  ultimately show ?thesis
    by (auto simp: tables_ok_def prune_def list_all_iff distinct_map inj_on_def)
qed (simp add: InsertRequestBatch_def insert_rows_ok)

lemma tables_ok_history: "tables_ok (fold (run_table_op takes) ops no_logs)"
proof -
  have "tables_ok t \<Longrightarrow> tables_ok (fold (run_table_op takes) ops t)" for t
    by (induction ops arbitrary: t) (simp_all add: run_table_op_ok)
  moreover have "tables_ok no_logs" by (simp add: tables_ok_def no_logs_def)
  ultimately show ?thesis by blast
qed

lemma filter_key: "distinct (map f xs) \<Longrightarrow> x \<in> set xs \<Longrightarrow> filter (\<lambda>v. f v = f x) xs = [x]"
proof (induction xs)
  case (Cons y ys)
  show ?case
  proof (cases "x = y")
    case True
    with Cons.prems have "filter (\<lambda>v. f v = f x) ys = []" by (auto simp: filter_empty_conv image_iff)
    with True show ?thesis by simp
  next
    case False
    with Cons show ?thesis by (auto simp: image_iff)
  qed
qed simp

lemma detail_of_row:
  assumes "tables_ok t" and "w \<in> set (lt_rows t)" and "lt_next t \<le> 2 ^ 63"
  shows "HandleHistoryDetail (show_nat (lw_id w)) t = (200, Some (show_nat (lw_id w), lw_entry w))"
proof -
  have small: "lw_id v < 2 ^ 63" if "v \<in> set (lt_rows t)" for v
    using assms(1,3) that by (fastforce simp: tables_ok_def list_all_iff)
  have "filter (\<lambda>v. lw_id v = lw_id w) (lt_rows t) = [w]"
    using assms(1,2) by (intro filter_key) (simp_all add: tables_ok_def)
  then show ?thesis
    using small [OF assms(2)] assms(1,2)
    by (auto simp: HandleHistoryDetail_def parse_uint64_def GetRequestDetail_def tables_ok_def list_all_iff)
qed

text \<open>
  Every preview of the history page can be opened: after any history of batches, failed or partly
  failed ones included, and of clean-ups, the id shown with each recent request is found, and with the
  entry the preview was made of.
\<close>

theorem previews_open:
  assumes "lt_next (fold (run_table_op takes) ops no_logs) \<le> 2 ^ 63"
  defines "t \<equiv> fold (run_table_op takes) ops no_logs"
  shows "list_all (\<lambda>(i, p). \<exists>r. HandleHistoryDetail i t = (200, Some (i, r)) \<and>
      p = r\<lparr>rl_RequestBody := [], rl_ResponseBody := []\<rparr>)
    (snd (HandleRecentRequests l (Some t)))"
proof -
  have ok: "tables_ok t" unfolding t_def by (rule tables_ok_history)
  have "list_all (\<lambda>(i, p). \<exists>r. HandleHistoryDetail i t = (200, Some (i, r)) \<and>
      p = r\<lparr>rl_RequestBody := [], rl_ResponseBody := []\<rparr>) (GetRecentRequests n t)" for n
    using detail_of_row [OF ok] assms(1)
    by (auto simp: GetRecentRequests_def Let_def list_all_iff preview_def newest_first_def t_def dest!: in_set_takeD)
  then show ?thesis by (auto simp: HandleRecentRequests_def Let_def)
qed

theorem previews_open_witness:
  "list_all (\<lambda>(i, p). \<exists>r. HandleHistoryDetail i (fold (run_table_op (\<lambda>_. True))
       [Op_requests True 9 [sample_log ''grok-4.5'' 200], Op_requests False 9 [sample_log ''x'' 200], Op_prune 20] no_logs) =
      (200, Some (i, r)) \<and> p = r\<lparr>rl_RequestBody := [], rl_ResponseBody := []\<rparr>)
    (snd (HandleRecentRequests ''20'' (Some (fold (run_table_op (\<lambda>_. True))
       [Op_requests True 9 [sample_log ''grok-4.5'' 200], Op_requests False 9 [sample_log ''x'' 200], Op_prune 20] no_logs))))"
  by (rule previews_open) (simp add: InsertRequestBatch_def insert_row_def no_logs_def prune_def)

text \<open>A window of more hours than fit in a duration starts in the future, so the page is empty.\<close>

lemma history_window_wraps: "history_since 0 (history_hours ''2562048'') > 0"
proof -
  have "parse_int64 ''2562048'' = Some 2562048"
    by (simp add: parse_int64_def parse_digits_def is_digit_def digit_val_def)
  then show ?thesis by (simp add: history_hours_def history_since_def wrap64_def hour_def minute_def second_def)
qed

end
