(* ===== verification/Gemini.thy ===== *)
theory Gemini
  imports Anthropic
begin

text \<open>
  Translation between the OpenAI and the Gemini formats, \<open>internal/translate/gemini.go\<close>. \<open>unmarshal\<close> and
  \<open>marshal\<close> are the text level of \<open>encoding/json\<close>, where the code uses texts of JSON values. A nil slice
  is the empty list and is written as null; a nil map is None.
\<close>

section \<open>The Gemini request\<close>

type_synonym json_object = "(string \<times> json) list"

record gemini_call =
  gf_Name :: string
  gf_Args :: "json_object option"

record gemini_result =
  gr_Name :: string
  gr_Response :: json

record gemini_data =
  gd_MimeType :: string
  gd_Data :: string

record gemini_part =
  gp_Text :: string
  gp_FunctionCall :: "gemini_call option"
  gp_FunctionResponse :: "gemini_result option"
  gp_InlineData :: "gemini_data option"

record gemini_content =
  gc_Role :: string
  gc_Parts :: "gemini_part list"

record gemini_config =
  gg_Temperature :: "rat option"
  gg_TopP :: "rat option"
  gg_MaxOutputTokens :: int
  gg_StopSequences :: "string list"

record gemini_decl =
  ge_Name :: string
  ge_Description :: string
  ge_Parameters :: "json_object option"

record gemini_tool =
  gt_FunctionDeclarations :: "gemini_decl list"

record gemini_request =
  gq_Contents :: "gemini_content list"
  gq_SystemInstruction :: "gemini_content option"
  gq_GenerationConfig :: "gemini_config option"
  gq_Tools :: "gemini_tool list"

definition text_part :: "string \<Rightarrow> gemini_part" where
  "text_part s = \<lparr>gp_Text = s, gp_FunctionCall = None, gp_FunctionResponse = None, gp_InlineData = None\<rparr>"

definition call_part :: "string \<Rightarrow> json_object option \<Rightarrow> gemini_part" where
  "call_part n args = (text_part [])\<lparr>gp_FunctionCall := Some \<lparr>gf_Name = n, gf_Args = args\<rparr>\<rparr>"

definition result_part :: "string \<Rightarrow> json \<Rightarrow> gemini_part" where
  "result_part n v = (text_part [])\<lparr>gp_FunctionResponse := Some \<lparr>gr_Name = n, gr_Response = v\<rparr>\<rparr>"

section \<open>From OpenAI to Gemini\<close>

text \<open>A checked assertion to an object, whose failure leaves a nil map.\<close>

definition obj_or_nil :: "json \<Rightarrow> json_map" where
  "obj_or_nil v = (case as_obj v of Some m \<Rightarrow> m | None \<Rightarrow> Map.empty)"

definition field_obj :: "json_map \<Rightarrow> string \<Rightarrow> json_map" where
  "field_obj m f = (case obj_field m f of Some m' \<Rightarrow> m' | None \<Rightarrow> Map.empty)"

definition object_field :: "json_map \<Rightarrow> string \<Rightarrow> json_object option" where
  "object_field m f = (case m f of Some (J_obj kvs) \<Rightarrow> Some kvs | _ \<Rightarrow> None)"

definition extractOAText :: "json option \<Rightarrow> string" where
  "extractOAText v =
     (case v of
        Some (J_str t) \<Rightarrow> t
      | Some (J_arr ps) \<Rightarrow> concat (map (\<lambda>p. str_field (obj_or_nil p) ''text'') ps)
      | _ \<Rightarrow> [])"

definition asFloat :: "json option \<Rightarrow> rat option" where
  "asFloat v = (case v of Some (J_num x) \<Rightarrow> Some x | _ \<Rightarrow> None)"

definition asInt :: "json option \<Rightarrow> int option" where
  "asInt v = (case v of Some (J_num x) \<Rightarrow> Some (float_int x) | _ \<Rightarrow> None)"

text \<open>The arguments of a call: what their text decodes to, if it is an object.\<close>

definition call_args :: "(string \<Rightarrow> json option) \<Rightarrow> string \<Rightarrow> json_object option" where
  "call_args unmarshal raw = (case unmarshal raw of Some (J_obj kvs) \<Rightarrow> Some kvs | _ \<Rightarrow> None)"

definition gemini_call_part :: "(string \<Rightarrow> json option) \<Rightarrow> json \<Rightarrow> gemini_part" where
  "gemini_call_part unmarshal tc =
     (let fn = field_obj (obj_or_nil tc) ''function''
      in call_part (str_field fn ''name'') (call_args unmarshal (str_field fn ''arguments'')))"

definition result_value :: "(string \<Rightarrow> json option) \<Rightarrow> string \<Rightarrow> json" where
  "result_value unmarshal text = (case unmarshal text of Some v \<Rightarrow> v | None \<Rightarrow> J_str text)"

definition gemini_text :: "string \<Rightarrow> string \<Rightarrow> gemini_content" where
  "gemini_text role text = \<lparr>gc_Role = role, gc_Parts = [text_part text]\<rparr>"

definition gemini_content_of :: "(string \<Rightarrow> json option) \<Rightarrow> string \<Rightarrow> string \<Rightarrow> json_map \<Rightarrow> gemini_content" where
  "gemini_content_of unmarshal role text mm =
     (if role = ''assistant'' then
        (case arr_field mm ''tool_calls'' of
           Some (tc # tcs) \<Rightarrow>
             \<lparr>gc_Role = ''model'',
              gc_Parts = (if text \<noteq> [] then [text_part text] else []) @ map (gemini_call_part unmarshal) (tc # tcs)\<rparr>
         | _ \<Rightarrow> gemini_text ''model'' text)
      else if role = ''tool'' then
        \<lparr>gc_Role = ''user'',
         gc_Parts = [result_part (if str_field mm ''name'' = [] then ''tool'' else str_field mm ''name'')
                       (result_value unmarshal text)]\<rparr>
      else gemini_text ''user'' text)"

text \<open>One message: the system instruction and the contents so far, and afterwards.\<close>

definition gemini_message ::
  "(string \<Rightarrow> json option) \<Rightarrow> json \<Rightarrow> gemini_content option \<times> gemini_content list \<Rightarrow>
   gemini_content option \<times> gemini_content list" where
  "gemini_message unmarshal m st =
     (case (as_obj m, st) of
        (None, _) \<Rightarrow> st
      | (Some mm, (system, contents)) \<Rightarrow>
        (let role = str_field mm ''role''; text = extractOAText (mm ''content'') in
         if role = ''system'' then
           (if trim_space text \<noteq> [] then Some \<lparr>gc_Role = [], gc_Parts = [text_part text]\<rparr> else system, contents)
         else (system, contents @ [gemini_content_of unmarshal role text mm])))"

definition stop_strings :: "json_map \<Rightarrow> string list" where
  "stop_strings body =
     (case arr_field body ''stop'' of
        None \<Rightarrow> []
      | Some ss \<Rightarrow> concat (map (\<lambda>s. case s of J_str t \<Rightarrow> [t] | _ \<Rightarrow> []) ss))"

definition gemini_config_of :: "json_map \<Rightarrow> gemini_config option" where
  "gemini_config_of body =
     (let n1 = (case asInt (body ''max_tokens'') of Some n \<Rightarrow> n | None \<Rightarrow> 0);
          n2 = (case asInt (body ''max_completion_tokens'') of Some n \<Rightarrow> if n1 = 0 then n else n1 | None \<Rightarrow> n1);
          cfg = \<lparr>gg_Temperature = asFloat (body ''temperature''), gg_TopP = asFloat (body ''top_p''),
                 gg_MaxOutputTokens = n2, gg_StopSequences = stop_strings body\<rparr>
      in if gg_Temperature cfg \<noteq> None \<or> gg_TopP cfg \<noteq> None \<or> gg_MaxOutputTokens cfg > 0 \<or> gg_StopSequences cfg \<noteq> []
         then Some cfg else None)"

definition gemini_decl_of :: "json \<Rightarrow> gemini_decl list" where
  "gemini_decl_of t =
     (let tm = obj_or_nil t in
      if str_field tm ''type'' \<noteq> [] \<and> str_field tm ''type'' \<noteq> ''function'' then []
      else
        (let fn = (case obj_field tm ''function'' of Some fn \<Rightarrow> fn | None \<Rightarrow> tm);
             name = str_field fn ''name''
         in if name = [] then []
            else [\<lparr>ge_Name = name, ge_Description = str_field fn ''description'',
                   ge_Parameters = object_field fn ''parameters''\<rparr>]))"

definition gemini_tools_of :: "json_map \<Rightarrow> gemini_tool list" where
  "gemini_tools_of body =
     (case arr_field body ''tools'' of
        None \<Rightarrow> []
      | Some ts \<Rightarrow>
        (let decls = concat (map gemini_decl_of ts)
         in if decls \<noteq> [] then [\<lparr>gt_FunctionDeclarations = decls\<rparr>] else []))"

definition OpenAIToGemini :: "(string \<Rightarrow> json option) \<Rightarrow> json_map option \<Rightarrow> (gemini_request \<times> string) option" where
  "OpenAIToGemini unmarshal body0 =
     (case body0 of
        None \<Rightarrow> None
      | Some body \<Rightarrow>
        (let model = trim_prefix (trim_prefix (str_field body ''model'') ''models/'') ''gemini/'';
             (system, contents) =
               (case arr_field body ''messages'' of
                  None \<Rightarrow> (None, [])
                | Some msgs \<Rightarrow> fold (gemini_message unmarshal) msgs (None, []))
         in Some (\<lparr>gq_Contents = contents, gq_SystemInstruction = system,
                   gq_GenerationConfig = gemini_config_of body, gq_Tools = gemini_tools_of body\<rparr>, model)))"

section \<open>From Gemini to OpenAI\<close>

definition args_json :: "json_object option \<Rightarrow> json" where
  "args_json args = (case args of None \<Rightarrow> J_null | Some kvs \<Rightarrow> J_obj kvs)"

definition openai_call :: "(json \<Rightarrow> string) \<Rightarrow> nat \<Rightarrow> gemini_call \<Rightarrow> json" where
  "openai_call marshal i f = J_obj
     [(''id'', J_str (''call_'' @ show_nat i)), (''type'', J_str ''function''),
      (''function'', J_obj [(''name'', J_str (gf_Name f)), (''arguments'', J_str (marshal (args_json (gf_Args f))))])]"

text \<open>The calls among parts, numbered by their place.\<close>

definition part_calls :: "(json \<Rightarrow> string) \<Rightarrow> gemini_part list \<Rightarrow> json list" where
  "part_calls marshal ps =
     concat (map (\<lambda>(i, p). case gp_FunctionCall p of None \<Rightarrow> [] | Some f \<Rightarrow> [openai_call marshal i f]) (enumerate 0 ps))"

definition openai_result :: "(json \<Rightarrow> string) \<Rightarrow> gemini_result \<Rightarrow> json" where
  "openai_result marshal r = J_obj
     [(''role'', J_str ''tool''), (''name'', J_str (gr_Name r)), (''content'', J_str (marshal (gr_Response r)))]"

definition part_text :: "gemini_part \<Rightarrow> string" where
  "part_text p = (if gp_FunctionResponse p = None then gp_Text p else [])"

definition content_messages :: "(json \<Rightarrow> string) \<Rightarrow> gemini_content \<Rightarrow> json list" where
  "content_messages marshal c =
     (let role = (if gc_Role c = ''model'' then ''assistant'' else ''user'');
          ps = gc_Parts c;
          toolCalls = part_calls marshal ps;
          results = concat (map (\<lambda>p. case gp_FunctionResponse p of None \<Rightarrow> [] | Some r \<Rightarrow> [openai_result marshal r]) ps);
          text = concat (map part_text ps)
      in results @
         (if toolCalls \<noteq> [] then
            [J_obj [(''role'', J_str ''assistant''), (''content'', J_str text), (''tool_calls'', J_arr toolCalls)]]
          else if text \<noteq> [] \<or> role = ''user'' then [text_message role text]
          else []))"

definition system_messages :: "gemini_content option \<Rightarrow> json list" where
  "system_messages s =
     (case s of
        None \<Rightarrow> []
      | Some c \<Rightarrow> (let t = concat (map gp_Text (gc_Parts c)) in if t \<noteq> [] then [text_message ''system'' t] else []))"

definition openai_decl :: "gemini_decl \<Rightarrow> json" where
  "openai_decl d = J_obj
     [(''type'', J_str ''function''),
      (''function'', J_obj [(''name'', J_str (ge_Name d)), (''description'', J_str (ge_Description d)),
                            (''parameters'', args_json (ge_Parameters d))])]"

definition config_fields :: "gemini_config option \<Rightarrow> (string \<times> json) list" where
  "config_fields g =
     (case g of
        None \<Rightarrow> []
      | Some c \<Rightarrow>
          opt_field ''temperature'' (map_option J_num (gg_Temperature c)) @
          opt_field ''top_p'' (map_option J_num (gg_TopP c)) @
          (if gg_MaxOutputTokens c > 0 then [(''max_tokens'', J_num (of_int (gg_MaxOutputTokens c)))] else []) @
          (if gg_StopSequences c \<noteq> [] then [(''stop'', J_arr (map J_str (gg_StopSequences c)))] else []))"

text \<open>
  The body for a decoded request. A nil list of messages is null when it is marshalled; the chat handler
  reads both alike.
\<close>

definition request_to_openai :: "(json \<Rightarrow> string) \<Rightarrow> string \<Rightarrow> gemini_request \<Rightarrow> (string \<times> json) list" where
  "request_to_openai marshal model g =
     (let msgs = system_messages (gq_SystemInstruction g) @ concat (map (content_messages marshal) (gq_Contents g));
          tools = concat (map (\<lambda>t. map openai_decl (gt_FunctionDeclarations t)) (gq_Tools g))
      in [(''model'', J_str model), (''messages'', if msgs = [] then J_null else J_arr msgs)] @
         config_fields (gq_GenerationConfig g) @
         (if tools \<noteq> [] then [(''tools'', J_arr tools)] else []))"

section \<open>Encoding and decoding of requests\<close>

definition nil_or :: "json list \<Rightarrow> json" where
  "nil_or vs = (if vs = [] then J_null else J_arr vs)"

definition omit_obj :: "string \<Rightarrow> json_object option \<Rightarrow> (string \<times> json) list" where
  "omit_obj f args = (case args of Some (kv # kvs) \<Rightarrow> [(f, J_obj (kv # kvs))] | _ \<Rightarrow> [])"

definition part_json :: "gemini_part \<Rightarrow> json" where
  "part_json p = J_obj
     (omit_str ''text'' (gp_Text p) @
      opt_field ''functionCall'' (map_option (\<lambda>f. J_obj ([(''name'', J_str (gf_Name f))] @ omit_obj ''args'' (gf_Args f)))
        (gp_FunctionCall p)) @
      opt_field ''functionResponse'' (map_option (\<lambda>r. J_obj [(''name'', J_str (gr_Name r)), (''response'', gr_Response r)])
        (gp_FunctionResponse p)) @
      opt_field ''inlineData'' (map_option (\<lambda>d. J_obj [(''mimeType'', J_str (gd_MimeType d)), (''data'', J_str (gd_Data d))])
        (gp_InlineData p)))"

definition content_json :: "gemini_content \<Rightarrow> json" where
  "content_json c = J_obj (omit_str ''role'' (gc_Role c) @ [(''parts'', nil_or (map part_json (gc_Parts c)))])"

definition gen_config_json :: "gemini_config \<Rightarrow> json" where
  "gen_config_json c = J_obj
     (opt_field ''temperature'' (map_option J_num (gg_Temperature c)) @
      opt_field ''topP'' (map_option J_num (gg_TopP c)) @
      omit_int ''maxOutputTokens'' (gg_MaxOutputTokens c) @
      omit_list ''stopSequences'' (map J_str (gg_StopSequences c)))"

definition decl_json :: "gemini_decl \<Rightarrow> json" where
  "decl_json d = J_obj
     ([(''name'', J_str (ge_Name d))] @ omit_str ''description'' (ge_Description d) @
      omit_obj ''parameters'' (ge_Parameters d))"

definition tool_json :: "gemini_tool \<Rightarrow> json" where
  "tool_json t = J_obj (omit_list ''functionDeclarations'' (map decl_json (gt_FunctionDeclarations t)))"

definition gemini_json :: "gemini_request \<Rightarrow> json" where
  "gemini_json g = J_obj
     ([(''contents'', nil_or (map content_json (gq_Contents g)))] @
      opt_field ''systemInstruction'' (map_option content_json (gq_SystemInstruction g)) @
      opt_field ''generationConfig'' (map_option gen_config_json (gq_GenerationConfig g)) @
      omit_list ''tools'' (map tool_json (gq_Tools g)))"

fun unmarshal_object :: "json \<Rightarrow> json_object option option" where
  "unmarshal_object (J_obj kvs) = Some (Some kvs)"
| "unmarshal_object J_null = Some None"
| "unmarshal_object _ = None"

definition unmarshal_call :: "json \<Rightarrow> gemini_call option" where
  "unmarshal_call v = do {
     m \<leftarrow> unmarshal_map v;
     n \<leftarrow> tag_string m ''name'';
     args \<leftarrow> tag None unmarshal_object m ''args'';
     Some \<lparr>gf_Name = n, gf_Args = args\<rparr> }"

definition unmarshal_result :: "json \<Rightarrow> gemini_result option" where
  "unmarshal_result v = do {
     m \<leftarrow> unmarshal_map v;
     n \<leftarrow> tag_string m ''name'';
     Some \<lparr>gr_Name = n, gr_Response = (case m ''response'' of None \<Rightarrow> J_null | Some r \<Rightarrow> r)\<rparr> }"

definition unmarshal_data :: "json \<Rightarrow> gemini_data option" where
  "unmarshal_data v = do {
     m \<leftarrow> unmarshal_map v;
     t \<leftarrow> tag_string m ''mimeType'';
     d \<leftarrow> tag_string m ''data'';
     Some \<lparr>gd_MimeType = t, gd_Data = d\<rparr> }"

definition unmarshal_part :: "json \<Rightarrow> gemini_part option" where
  "unmarshal_part v = do {
     m \<leftarrow> unmarshal_map v;
     t \<leftarrow> tag_string m ''text'';
     f \<leftarrow> tag_ptr unmarshal_call m ''functionCall'';
     r \<leftarrow> tag_ptr unmarshal_result m ''functionResponse'';
     d \<leftarrow> tag_ptr unmarshal_data m ''inlineData'';
     Some \<lparr>gp_Text = t, gp_FunctionCall = f, gp_FunctionResponse = r, gp_InlineData = d\<rparr> }"

definition unmarshal_content :: "json \<Rightarrow> gemini_content option" where
  "unmarshal_content v = do {
     m \<leftarrow> unmarshal_map v;
     role \<leftarrow> tag_string m ''role'';
     ps \<leftarrow> tag [] (unmarshal_slice unmarshal_part) m ''parts'';
     Some \<lparr>gc_Role = role, gc_Parts = ps\<rparr> }"

definition unmarshal_gen_config :: "json \<Rightarrow> gemini_config option" where
  "unmarshal_gen_config v = do {
     m \<leftarrow> unmarshal_map v;
     t \<leftarrow> tag_ptr unmarshal_float m ''temperature'';
     p \<leftarrow> tag_ptr unmarshal_float m ''topP'';
     n \<leftarrow> tag 0 unmarshal_int m ''maxOutputTokens'';
     ss \<leftarrow> tag [] (unmarshal_slice unmarshal_string) m ''stopSequences'';
     Some \<lparr>gg_Temperature = t, gg_TopP = p, gg_MaxOutputTokens = n, gg_StopSequences = ss\<rparr> }"

definition unmarshal_decl :: "json \<Rightarrow> gemini_decl option" where
  "unmarshal_decl v = do {
     m \<leftarrow> unmarshal_map v;
     n \<leftarrow> tag_string m ''name'';
     d \<leftarrow> tag_string m ''description'';
     ps \<leftarrow> tag None unmarshal_object m ''parameters'';
     Some \<lparr>ge_Name = n, ge_Description = d, ge_Parameters = ps\<rparr> }"

definition unmarshal_gtool :: "json \<Rightarrow> gemini_tool option" where
  "unmarshal_gtool v = do {
     m \<leftarrow> unmarshal_map v;
     ds \<leftarrow> tag [] (unmarshal_slice unmarshal_decl) m ''functionDeclarations'';
     Some \<lparr>gt_FunctionDeclarations = ds\<rparr> }"

definition unmarshal_gemini :: "json \<Rightarrow> gemini_request option" where
  "unmarshal_gemini v = do {
     m \<leftarrow> unmarshal_map v;
     cs \<leftarrow> tag [] (unmarshal_slice unmarshal_content) m ''contents'';
     s \<leftarrow> tag_ptr unmarshal_content m ''systemInstruction'';
     g \<leftarrow> tag_ptr unmarshal_gen_config m ''generationConfig'';
     ts \<leftarrow> tag [] (unmarshal_slice unmarshal_gtool) m ''tools'';
     Some \<lparr>gq_Contents = cs, gq_SystemInstruction = s, gq_GenerationConfig = g, gq_Tools = ts\<rparr> }"

definition GeminiRequestToOpenAI ::
  "(string \<Rightarrow> json option) \<Rightarrow> (json \<Rightarrow> string) \<Rightarrow> string \<Rightarrow> string \<Rightarrow> (string \<times> json) list option" where
  "GeminiRequestToOpenAI unmarshal marshal model raw =
     (case unmarshal raw \<bind> unmarshal_gemini of
        None \<Rightarrow> None
      | Some g \<Rightarrow> Some (request_to_openai marshal model g))"

section \<open>Responses\<close>

record gemini_candidate =
  gx_Parts :: "(string \<times> gemini_call option) list"
  gx_Role :: string
  gx_FinishReason :: string

record gemini_response =
  gy_Candidates :: "gemini_candidate list"
  gy_PromptTokenCount :: int
  gy_CandidatesTokenCount :: int
  gy_TotalTokenCount :: int

definition unmarshal_reply_part :: "json \<Rightarrow> (string \<times> gemini_call option) option" where
  "unmarshal_reply_part v = do {
     m \<leftarrow> unmarshal_map v;
     t \<leftarrow> tag_string m ''text'';
     f \<leftarrow> tag_ptr unmarshal_call m ''functionCall'';
     Some (t, f) }"

definition unmarshal_candidate :: "json \<Rightarrow> gemini_candidate option" where
  "unmarshal_candidate v = do {
     m \<leftarrow> unmarshal_map v;
     c \<leftarrow> tag Map.empty unmarshal_map m ''content'';
     ps \<leftarrow> tag [] (unmarshal_slice unmarshal_reply_part) c ''parts'';
     role \<leftarrow> tag_string c ''role'';
     fr \<leftarrow> tag_string m ''finishReason'';
     Some \<lparr>gx_Parts = ps, gx_Role = role, gx_FinishReason = fr\<rparr> }"

definition unmarshal_gemini_reply :: "json \<Rightarrow> gemini_response option" where
  "unmarshal_gemini_reply v = do {
     m \<leftarrow> unmarshal_map v;
     cs \<leftarrow> tag [] (unmarshal_slice unmarshal_candidate) m ''candidates'';
     u \<leftarrow> tag Map.empty unmarshal_map m ''usageMetadata'';
     p \<leftarrow> tag 0 unmarshal_int u ''promptTokenCount'';
     c \<leftarrow> tag 0 unmarshal_int u ''candidatesTokenCount'';
     t \<leftarrow> tag 0 unmarshal_int u ''totalTokenCount'';
     Some \<lparr>gy_Candidates = cs, gy_PromptTokenCount = p, gy_CandidatesTokenCount = c, gy_TotalTokenCount = t\<rparr> }"

text \<open>\<open>strings.ToUpper\<close> on ASCII.\<close>

definition to_upper :: "string \<Rightarrow> string" where
  "to_upper s = map (\<lambda>c. let n = (of_char c :: nat) in if 97 \<le> n \<and> n \<le> 122 then char_of (n - 32) else c) s"

definition finish_of :: "string \<Rightarrow> string" where
  "finish_of reason =
     (let r = to_upper reason in
      if r = ''MAX_TOKENS'' then ''length''
      else if r = ''SAFETY'' \<or> r = ''RECITATION'' then ''content_filter''
      else ''stop'')"

definition GeminiToOpenAI ::
  "(string \<Rightarrow> json option) \<Rightarrow> (json \<Rightarrow> string) \<Rightarrow> string \<Rightarrow> string \<Rightarrow> json option" where
  "GeminiToOpenAI unmarshal marshal model raw =
     (case unmarshal raw \<bind> unmarshal_gemini_reply of
        None \<Rightarrow> None
      | Some gr \<Rightarrow>
        (let ps = (case gy_Candidates gr of [] \<Rightarrow> [] | c # _ \<Rightarrow> gx_Parts c);
             calls = concat (map (\<lambda>(i, t, f). case f of None \<Rightarrow> [] | Some f \<Rightarrow> [openai_call marshal i f]) (enumerate 0 ps));
             text = concat (map fst ps);
             finish = (if calls \<noteq> [] then ''tool_calls''
                       else case gy_Candidates gr of [] \<Rightarrow> ''stop'' | c # _ \<Rightarrow> finish_of (gx_FinishReason c));
             msg = [(''role'', J_str ''assistant''),
                    (''content'', if calls \<noteq> [] \<and> text = [] then J_null else J_str text)] @
                   (if calls \<noteq> [] then [(''tool_calls'', J_arr calls)] else [])
         in Some (J_obj
              [(''id'', J_str ''chatcmpl-gemini''), (''object'', J_str ''chat.completion''), (''created'', J_num 0),
               (''model'', J_str model),
               (''choices'', J_arr [J_obj [(''index'', J_num 0), (''message'', J_obj msg), (''finish_reason'', J_str finish)]]),
               (''usage'', J_obj
                 [(''prompt_tokens'', J_num (of_int (gy_PromptTokenCount gr))),
                  (''completion_tokens'', J_num (of_int (gy_CandidatesTokenCount gr))),
                  (''total_tokens'', J_num (of_int (gy_TotalTokenCount gr)))])])))"

section \<open>A request that is written is read back\<close>

text \<open>Up to maps that are empty but not nil, which \<open>omitempty\<close> drops.\<close>

definition settle_args :: "json_object option \<Rightarrow> json_object option" where
  "settle_args a = (if a = Some [] then None else a)"

definition settle_part :: "gemini_part \<Rightarrow> gemini_part" where
  "settle_part p = p\<lparr>gp_FunctionCall := map_option (\<lambda>f. f\<lparr>gf_Args := settle_args (gf_Args f)\<rparr>) (gp_FunctionCall p)\<rparr>"

definition settle_content :: "gemini_content \<Rightarrow> gemini_content" where
  "settle_content c = c\<lparr>gc_Parts := map settle_part (gc_Parts c)\<rparr>"

definition settle_decl :: "gemini_decl \<Rightarrow> gemini_decl" where
  "settle_decl d = d\<lparr>ge_Parameters := settle_args (ge_Parameters d)\<rparr>"

definition settle_tool :: "gemini_tool \<Rightarrow> gemini_tool" where
  "settle_tool t = t\<lparr>gt_FunctionDeclarations := map settle_decl (gt_FunctionDeclarations t)\<rparr>"

definition settled :: "gemini_request \<Rightarrow> gemini_request" where
  "settled g = g\<lparr>gq_Contents := map settle_content (gq_Contents g),
     gq_SystemInstruction := map_option settle_content (gq_SystemInstruction g), gq_Tools := map settle_tool (gq_Tools g)\<rparr>"

lemma omit_obj_lookup [decode_simps]:
  "f \<noteq> g \<Longrightarrow> map_of (omit_obj f a) g = None"
  "map_of (omit_obj f a) f = (if settle_args a = None then None else map_option J_obj a)"
  by (auto simp: omit_obj_def settle_args_def neq_Nil_conv split: option.split list.split)

lemma tag_omitted_args:
  "(case (if settle_args a = None then None else map_option J_obj a) of None \<Rightarrow> Some None | Some v \<Rightarrow> unmarshal_object v) =
   Some (settle_args a)"
  by (auto simp: settle_args_def split: option.split)

lemma tag_nil_or: "tag [] (unmarshal_slice f) m k = unmarshal_slice f (nil_or vs)" if "m k = Some (nil_or vs)"
  using that by (simp add: tag_def)

lemma unmarshal_nil_or: "(\<And>x. x \<in> set xs \<Longrightarrow> f (g x) = Some (h x)) \<Longrightarrow> unmarshal_slice f (nil_or (map g xs)) = Some (map h xs)"
  using those_map_Some [of xs f g h] by (simp add: nil_or_def comp_def)

lemma tag_omit_list:
  assumes "\<And>x. x \<in> set xs \<Longrightarrow> f (g x) = Some (h x)" and "m k = (if xs = [] then None else Some (J_arr (map g xs)))"
  shows "tag [] (unmarshal_slice f) m k = Some (map h xs)"
  using those_map_Some [of xs f g h] assms by (auto simp: tag_def comp_def)

lemma tag_ptr_opt:
  assumes "m k = map_option g x" and "\<And>y. x = Some y \<Longrightarrow> f (g y) = Some (h y) \<and> g y \<noteq> J_null"
  shows "tag_ptr f m k = Some (map_option h x)"
  using assms by (auto simp: tag_ptr_def split: option.split)

lemma call_round_trip:
  "unmarshal_call (J_obj ([(''name'', J_str (gf_Name f))] @ omit_obj ''args'' (gf_Args f))) =
   Some (f\<lparr>gf_Args := settle_args (gf_Args f)\<rparr>)"
  by (simp add: unmarshal_call_def tag_string_def tag_def decode_simps tag_omitted_args)

lemma part_round_trip: "unmarshal_part (part_json p) = Some (settle_part p)"
proof -
  let ?m = "map_of (omit_str ''text'' (gp_Text p) @
      opt_field ''functionCall'' (map_option (\<lambda>f. J_obj ([(''name'', J_str (gf_Name f))] @ omit_obj ''args'' (gf_Args f)))
        (gp_FunctionCall p)) @
      opt_field ''functionResponse'' (map_option (\<lambda>r. J_obj [(''name'', J_str (gr_Name r)), (''response'', gr_Response r)])
        (gp_FunctionResponse p)) @
      opt_field ''inlineData'' (map_option (\<lambda>d. J_obj [(''mimeType'', J_str (gd_MimeType d)), (''data'', J_str (gd_Data d))])
        (gp_InlineData p)))"
  have "tag_string ?m ''text'' = Some (gp_Text p)"
    by (simp add: tag_string_def decode_simps)
  moreover have "tag_ptr unmarshal_call ?m ''functionCall'' =
      Some (map_option (\<lambda>f. f\<lparr>gf_Args := settle_args (gf_Args f)\<rparr>) (gp_FunctionCall p))"
    by (rule tag_ptr_opt [where g = "\<lambda>f. J_obj ([(''name'', J_str (gf_Name f))] @ omit_obj ''args'' (gf_Args f))"])
      (use call_round_trip in \<open>simp_all add: decode_simps split: option.split\<close>)
  moreover have "tag_ptr unmarshal_result ?m ''functionResponse'' = Some (map_option id (gp_FunctionResponse p))"
    by (rule tag_ptr_opt [where g = "\<lambda>r. J_obj [(''name'', J_str (gr_Name r)), (''response'', gr_Response r)]"])
      (simp_all add: decode_simps unmarshal_result_def tag_string_def split: option.split)
  moreover have "tag_ptr unmarshal_data ?m ''inlineData'' = Some (map_option id (gp_InlineData p))"
    by (rule tag_ptr_opt [where g = "\<lambda>d. J_obj [(''mimeType'', J_str (gd_MimeType d)), (''data'', J_str (gd_Data d))]"])
      (simp_all add: decode_simps unmarshal_data_def tag_string_def split: option.split)
  ultimately show ?thesis
    by (simp add: unmarshal_part_def part_json_def settle_part_def option.map_id0)
qed

lemma content_round_trip: "unmarshal_content (content_json c) = Some (settle_content c)"
  using unmarshal_nil_or [of "gc_Parts c" unmarshal_part part_json settle_part]
  by (simp add: unmarshal_content_def content_json_def tag_string_def tag_def decode_simps part_round_trip settle_content_def)

lemma content_json_object [simp]: "content_json c \<noteq> J_null"
  by (simp add: content_json_def)

lemma gen_config_object [simp]: "gen_config_json c \<noteq> J_null"
  by (simp add: gen_config_json_def)

lemma gen_config_round_trip:
  "fits64 (gg_MaxOutputTokens c) \<Longrightarrow> unmarshal_gen_config (gen_config_json c) = Some c"
  by (cases "gg_Temperature c"; cases "gg_TopP c")
    (simp_all add: unmarshal_gen_config_def gen_config_json_def tag_ptr_def tag_def decode_simps)

lemma decl_round_trip: "unmarshal_decl (decl_json d) = Some (settle_decl d)"
  by (simp add: unmarshal_decl_def decl_json_def tag_string_def tag_def decode_simps tag_omitted_args settle_decl_def)

lemma gtool_round_trip: "unmarshal_gtool (tool_json t) = Some (settle_tool t)"
proof -
  have "tag [] (unmarshal_slice unmarshal_decl) (map_of (omit_list ''functionDeclarations'' (map decl_json (gt_FunctionDeclarations t))))
      ''functionDeclarations'' = Some (map settle_decl (gt_FunctionDeclarations t))"
    by (rule tag_omit_list [where g = decl_json]) (simp_all add: decl_round_trip decode_simps)
  then show ?thesis by (simp add: unmarshal_gtool_def tool_json_def settle_tool_def)
qed

lemma gemini_round_trip:
  assumes "\<And>c. gq_GenerationConfig g = Some c \<Longrightarrow> fits64 (gg_MaxOutputTokens c)"
  shows "unmarshal_gemini (gemini_json g) = Some (settled g)"
proof -
  let ?m = "map_of ([(''contents'', nil_or (map content_json (gq_Contents g)))] @
      opt_field ''systemInstruction'' (map_option content_json (gq_SystemInstruction g)) @
      opt_field ''generationConfig'' (map_option gen_config_json (gq_GenerationConfig g)) @
      omit_list ''tools'' (map tool_json (gq_Tools g)))"
  have "tag [] (unmarshal_slice unmarshal_content) ?m ''contents'' = Some (map settle_content (gq_Contents g))"
    using unmarshal_nil_or [of "gq_Contents g" unmarshal_content content_json settle_content] content_round_trip
    by (simp add: tag_def decode_simps)
  moreover have "tag_ptr unmarshal_content ?m ''systemInstruction'' = Some (map_option settle_content (gq_SystemInstruction g))"
    by (rule tag_ptr_opt [where g = content_json])
      (simp_all add: decode_simps content_round_trip split: option.split)
  moreover have "tag_ptr unmarshal_gen_config ?m ''generationConfig'' = Some (map_option id (gq_GenerationConfig g))"
    by (rule tag_ptr_opt [where g = gen_config_json])
      (use assms gen_config_round_trip in \<open>simp_all add: decode_simps split: option.split\<close>)
  moreover have "tag [] (unmarshal_slice unmarshal_gtool) ?m ''tools'' = Some (map settle_tool (gq_Tools g))"
    by (rule tag_omit_list [where g = tool_json]) (simp_all add: gtool_round_trip decode_simps)
  ultimately show ?thesis
    by (simp add: unmarshal_gemini_def gemini_json_def settled_def option.map_id0)
qed

end
