(* ===== verification/GeminiTrip.thy ===== *)
theory GeminiTrip
  imports Gemini
begin

text \<open>
  What is left of a conversation that goes to Gemini's format and back: \<open>OpenAIToGemini\<close>, the text of
  the request, and \<open>GeminiRequestToOpenAI\<close>.
\<close>

section \<open>Conversations\<close>

text \<open>
  A turn: a text of some role, calls of the assistant (id, name and arguments of each) with the text
  that goes with them, and the result of a call (its id, a name, the text).
\<close>

datatype turn =
    Says string string
  | Calls string "(string \<times> string \<times> string) list"
  | Result string string string

fun turn_json :: "turn \<Rightarrow> json" where
  "turn_json (Says r t) = text_message r t"
| "turn_json (Calls t cs) = J_obj
     [(''role'', J_str ''assistant''), (''content'', J_str t),
      (''tool_calls'', J_arr (map (\<lambda>(i, n, a). J_obj
         [(''id'', J_str i), (''type'', J_str ''function''),
          (''function'', J_obj [(''name'', J_str n), (''arguments'', J_str a)])]) cs))]"
| "turn_json (Result i n t) = J_obj
     [(''role'', J_str ''tool''), (''tool_call_id'', J_str i), (''name'', J_str n), (''content'', J_str t)]"

text \<open>The contents of the Gemini request a turn becomes, and the texts of the system.\<close>

definition result_name :: "string \<Rightarrow> string" where
  "result_name n = (if n = [] then ''tool'' else n)"

fun turn_contents :: "(string \<Rightarrow> json option) \<Rightarrow> turn \<Rightarrow> gemini_content list" where
  "turn_contents u (Says r t) =
     (if r = ''system'' then [] else [gemini_text (if r = ''assistant'' then ''model'' else ''user'') t])"
| "turn_contents u (Calls t cs) =
     [if cs = [] then gemini_text ''model'' t
      else \<lparr>gc_Role = ''model'',
            gc_Parts = (if t \<noteq> [] then [text_part t] else []) @ map (\<lambda>(i, n, a). call_part n (call_args u a)) cs\<rparr>]"
| "turn_contents u (Result i n t) = [\<lparr>gc_Role = ''user'', gc_Parts = [result_part (result_name n) (result_value u t)]\<rparr>]"

fun system_text :: "turn \<Rightarrow> string list" where
  "system_text (Says r t) = (if r = ''system'' \<and> trim_space t \<noteq> [] then [t] else [])"
| "system_text _ = []"

definition system_texts :: "turn list \<Rightarrow> string list" where
  "system_texts ts = concat (map system_text ts)"

text \<open>
  What comes back. Texts survive, but the assistant's empty ones, and of the system only the last
  text that is not blank, in front. Calls survive with ids by their place in the message, a text in
  front being place 0, and with arguments that are written anew, empty or undecodable ones as null.
  A result survives as written anew, without the id of its call, and an empty message of the user
  follows it.
\<close>

fun comes_back :: "(string \<Rightarrow> json option) \<Rightarrow> (json \<Rightarrow> string) \<Rightarrow> turn \<Rightarrow> json list" where
  "comes_back u m (Says r t) =
     (if r = ''system'' then []
      else if r = ''assistant'' then (if t = [] then [] else [text_message ''assistant'' t])
      else [text_message ''user'' t])"
| "comes_back u m (Calls t cs) =
     (if cs = [] then (if t = [] then [] else [text_message ''assistant'' t])
      else [J_obj [(''role'', J_str ''assistant''), (''content'', J_str t),
              (''tool_calls'', J_arr (map (\<lambda>(k, i, n, a). openai_call m k \<lparr>gf_Name = n, gf_Args = settle_args (call_args u a)\<rparr>)
                 (enumerate (if t = [] then 0 else 1) cs)))]])"
| "comes_back u m (Result i n t) =
     [openai_result m \<lparr>gr_Name = result_name n, gr_Response = result_value u t\<rparr>, text_message ''user'' []]"

definition system_back :: "turn list \<Rightarrow> json list" where
  "system_back ts = (if system_texts ts = [] then [] else [text_message ''system'' (last (system_texts ts))])"

definition plain_turn :: "turn \<Rightarrow> bool" where
  "plain_turn t = (case t of Says r _ \<Rightarrow> r \<noteq> ''tool'' | _ \<Rightarrow> True)"

lemma system_text_nonblank: "x \<in> set (system_text t) \<Longrightarrow> trim_space x \<noteq> []"
  by (cases t) (auto split: if_splits)

section \<open>There\<close>

lemma text_message_fields [simp]:
  "as_obj (text_message r t) = Some (map_of [(''role'', J_str r), (''content'', J_str t)])"
  by (simp add: text_message_def as_obj_def)

lemma extract_str [simp]: "extractOAText (Some (J_str t)) = t"
  by (simp add: extractOAText_def)

lemma turn_there:
  assumes "plain_turn t"
  shows "gemini_message u (turn_json t) (s, c) =
    (if system_text t = [] then s else Some \<lparr>gc_Role = [], gc_Parts = [text_part (last (system_text t))]\<rparr>,
     c @ turn_contents u t)"
proof (cases t)
  case (Says r x)
  with assms show ?thesis
    by (auto simp: gemini_message_def Let_def str_field_def gemini_content_of_def arr_field_def plain_turn_def)
next
  case (Calls x cs)
  have "gemini_call_part u (J_obj [(''id'', J_str i), (''type'', J_str ''function''),
      (''function'', J_obj [(''name'', J_str n), (''arguments'', J_str a)])]) = call_part n (call_args u a)" for i n a
    by (simp add: gemini_call_part_def obj_or_nil_def field_obj_def obj_field_def as_obj_def str_field_def)
  with Calls show ?thesis
    by (cases cs)
      (auto simp: gemini_message_def as_obj_def Let_def str_field_def gemini_content_of_def arr_field_def comp_def case_prod_unfold)
next
  case (Result i n x)
  then show ?thesis
    by (simp add: gemini_message_def as_obj_def Let_def str_field_def gemini_content_of_def result_name_def)
qed

lemma turns_there:
  assumes "list_all plain_turn ts"
  shows "fold (gemini_message u) (map turn_json ts) (s, c) =
    (if system_texts ts = [] then s else Some \<lparr>gc_Role = [], gc_Parts = [text_part (last (system_texts ts))]\<rparr>,
     c @ concat (map (turn_contents u) ts))"
  using assms
proof (induction ts arbitrary: s c)
  case (Cons t ts)
  then show ?case by (simp add: turn_there system_texts_def)
qed (simp add: system_texts_def)

section \<open>And back\<close>

lemma part_simps [simp]:
  "gp_FunctionCall (text_part t) = None" "gp_FunctionResponse (text_part t) = None" "gp_Text (text_part t) = t"
  "gp_FunctionCall (call_part n a) = Some \<lparr>gf_Name = n, gf_Args = a\<rparr>" "gp_FunctionResponse (call_part n a) = None"
  "gp_Text (call_part n a) = []" "gp_FunctionCall (result_part n v) = None" "gp_Text (result_part n v) = []"
  "gp_FunctionResponse (result_part n v) = Some \<lparr>gr_Name = n, gr_Response = v\<rparr>"
  by (simp_all add: text_part_def call_part_def result_part_def)

lemma settle_parts [simp]:
  "settle_part (text_part t) = text_part t" "settle_part (call_part n a) = call_part n (settle_args a)"
  "settle_part (result_part n v) = result_part n v"
  by (simp_all add: settle_part_def text_part_def call_part_def result_part_def)

lemma numbered_calls:
  "concat (map (\<lambda>(k, p). case gp_FunctionCall p of None \<Rightarrow> [] | Some f \<Rightarrow> [openai_call m k f])
     (enumerate k (map (\<lambda>(i, n, a). call_part n (g a)) cs))) =
   map (\<lambda>(k, i, n, a). openai_call m k \<lparr>gf_Name = n, gf_Args = g a\<rparr>) (enumerate k cs)"
  by (induction cs arbitrary: k) auto

lemma no_results_in_calls:
  "concat (map (\<lambda>p. case gp_FunctionResponse p of None \<Rightarrow> [] | Some r \<Rightarrow> [openai_result m r])
     (map (\<lambda>(i, n, a). call_part n (g a)) cs)) = []"
  by (auto simp: concat_eq_Nil_conv)

lemma no_texts_in_calls: "concat (map part_text (map (\<lambda>(i, n, a). call_part n (g a)) cs)) = []"
  by (auto simp: concat_eq_Nil_conv part_text_def)

lemma settled_calls:
  "map settle_part (map (\<lambda>(i, n, a). call_part n (call_args u a)) cs) =
   map (\<lambda>(i, n, a). call_part n (settle_args (call_args u a))) cs"
  by (simp add: case_prod_unfold)

lemma calls_back:
  assumes "cs \<noteq> []"
  shows "content_messages m (settle_content \<lparr>gc_Role = ''model'',
      gc_Parts = (if t \<noteq> [] then [text_part t] else []) @ map (\<lambda>(i, n, a). call_part n (call_args u a)) cs\<rparr>) =
    comes_back u m (Calls t cs)"
proof -
  define ps where "ps = map (\<lambda>(i, n, a). call_part n (settle_args (call_args u a))) cs"
  define pre where "pre = (if t \<noteq> [] then [text_part t] else [])"
  define calls where
    "calls = map (\<lambda>(k, i, n, a). openai_call m k \<lparr>gf_Name = n, gf_Args = settle_args (call_args u a)\<rparr>)
       (enumerate (if t = [] then 0 else 1) cs)"
  have settled: "settle_content \<lparr>gc_Role = ''model'', gc_Parts = pre @ map (\<lambda>(i, n, a). call_part n (call_args u a)) cs\<rparr> =
      \<lparr>gc_Role = ''model'', gc_Parts = pre @ ps\<rparr>"
    by (simp add: settle_content_def settled_calls ps_def pre_def del: map_map)
  have 1: "part_calls m (pre @ ps) = calls"
    using numbered_calls [of m 0 "\<lambda>a. settle_args (call_args u a)" cs]
      numbered_calls [of m 1 "\<lambda>a. settle_args (call_args u a)" cs]
    by (simp add: part_calls_def ps_def pre_def calls_def del: map_map)
  have 2: "concat (map (\<lambda>p. case gp_FunctionResponse p of None \<Rightarrow> [] | Some r \<Rightarrow> [openai_result m r]) (pre @ ps)) = []"
    using no_results_in_calls [of m "\<lambda>a. settle_args (call_args u a)" cs]
    by (simp add: ps_def pre_def del: map_map)
  have 3: "concat (map part_text (pre @ ps)) = t"
    using no_texts_in_calls [of "\<lambda>a. settle_args (call_args u a)" cs]
    by (simp add: ps_def pre_def part_text_def del: map_map)
  have "calls \<noteq> []" using assms by (cases cs) (simp_all add: calls_def)
  then show ?thesis
    using assms unfolding pre_def [symmetric] settled content_messages_def Let_def gemini_content.select_convs 1 2 3
    by (simp add: calls_def)
qed

lemma turn_back:
  "concat (map (content_messages m) (map settle_content (turn_contents u t))) = comes_back u m t"
proof (cases t)
  case (Says r x)
  then show ?thesis
    by (auto simp: gemini_text_def content_messages_def settle_content_def Let_def part_calls_def part_text_def)
next
  case (Calls x cs)
  show ?thesis
  proof (cases "cs = []")
    case True
    with Calls show ?thesis
      by (auto simp: gemini_text_def content_messages_def settle_content_def Let_def part_calls_def part_text_def)
  next
    case False
    with Calls calls_back [OF False, of m x u] show ?thesis by simp
  qed
next
  case (Result i n x)
  then show ?thesis
    by (simp add: content_messages_def settle_content_def Let_def part_calls_def part_text_def)
qed

lemma turns_back:
  "concat (map (content_messages m) (map settle_content (concat (map (turn_contents u) ts)))) = concat (map (comes_back u m) ts)"
  by (induction ts) (simp_all add: turn_back del: map_map)

definition small_config :: "json_map \<Rightarrow> bool" where
  "small_config body = (case gemini_config_of body of None \<Rightarrow> True | Some c \<Rightarrow> fits64 (gg_MaxOutputTokens c))"

text \<open>
  C35: A conversation sent through Gemini's format and back keeps its texts in order and its calls, with
  exactly these losses: of several system texts only the last one that is not blank, the assistant's
  empty texts, the ids of calls and the references of results to them, and the spelling of arguments
  and results; and each result gains an empty message of the user.
\<close>

theorem conversation_there_and_back:
  assumes "unmarshal (marshal (gemini_json g)) = Some (gemini_json g)"
    and "OpenAIToGemini unmarshal (Some body) = Some (g, name)"
    and "body ''messages'' = Some (J_arr (map turn_json ts))"
    and "list_all plain_turn ts" and "small_config body"
  shows "\<exists>out. GeminiRequestToOpenAI unmarshal marshal model (marshal (gemini_json g)) = Some out \<and>
    map_of out ''model'' = Some (J_str model) \<and>
    map_of out ''messages'' = Some (nil_or (system_back ts @ concat (map (comes_back unmarshal marshal) ts)))"
proof -
  define system where
    "system = (if system_texts ts = [] then None else Some \<lparr>gc_Role = [], gc_Parts = [text_part (last (system_texts ts))]\<rparr>)"
  have g: "g = \<lparr>gq_Contents = concat (map (turn_contents unmarshal) ts), gq_SystemInstruction = system,
      gq_GenerationConfig = gemini_config_of body, gq_Tools = gemini_tools_of body\<rparr>"
    using assms(2,3) turns_there [OF assms(4), of unmarshal None "[]"]
    by (simp add: OpenAIToGemini_def arr_field_def Let_def system_def)
  have "unmarshal_gemini (gemini_json g) = Some (settled g)"
    by (rule gemini_round_trip) (use assms(5) g in \<open>simp add: small_config_def\<close>)
  then have trip: "GeminiRequestToOpenAI unmarshal marshal model (marshal (gemini_json g)) =
      Some (request_to_openai marshal model (settled g))"
    using assms(1) by (simp add: GeminiRequestToOpenAI_def)
  have nonempty: "trim_space x \<noteq> []" if "x \<in> set (system_texts ts)" for x
    using that by (auto simp: system_texts_def dest: system_text_nonblank)
  have blank: "trim_space [] = []" by code_simp
  have "system_messages (map_option settle_content system) = system_back ts"
  proof (cases "system_texts ts = []")
    case False
    then have "last (system_texts ts) \<noteq> []" using nonempty [of "last (system_texts ts)"] blank by auto
    with False show ?thesis by (simp add: system_messages_def system_def settle_content_def system_back_def)
  qed (simp add: system_messages_def system_def system_back_def)
  then have "map_of (request_to_openai marshal model (settled g)) ''messages'' =
      Some (nil_or (system_back ts @ concat (map (comes_back unmarshal marshal) ts)))"
    using turns_back [of marshal unmarshal ts]
    by (simp add: request_to_openai_def Let_def settled_def g nil_or_def del: map_map)
  with trip show ?thesis by (simp add: request_to_openai_def Let_def)
qed

definition sample_turns :: "turn list" where
  "sample_turns =
     [Says ''system'' ''be brief'', Says ''user'' ''hi'', Calls ''one moment'' [(''id7'', ''clock'', ''{}'')],
      Result ''id7'' [] ''noon'', Says ''system'' ''be polite'', Says ''assistant'' []]"

definition sample_body :: json_map where
  "sample_body = [''messages'' \<mapsto> J_arr (map turn_json sample_turns), ''max_tokens'' \<mapsto> J_num 16]"

theorem conversation_there_and_back_witness:
  "\<exists>out. GeminiRequestToOpenAI stroke_parse stroke_marshal ''cb/gemini-2.5-flash''
      (stroke_marshal (gemini_json (fst (the (OpenAIToGemini stroke_parse (Some sample_body)))))) = Some out \<and>
    map_of out ''model'' = Some (J_str ''cb/gemini-2.5-flash'') \<and>
    map_of out ''messages'' = Some (nil_or (system_back sample_turns @ concat (map (comes_back stroke_parse stroke_marshal) sample_turns)))"
proof (rule conversation_there_and_back)
  show "OpenAIToGemini stroke_parse (Some sample_body) =
      Some (fst (the (OpenAIToGemini stroke_parse (Some sample_body))), snd (the (OpenAIToGemini stroke_parse (Some sample_body))))"
    by (simp add: OpenAIToGemini_def Let_def case_prod_unfold)
qed (simp_all add: stroke_codec sample_body_def sample_turns_def plain_turn_def small_config_def gemini_config_of_def asInt_def
    asFloat_def stop_strings_def arr_field_def float_int_def fits64_def Let_def)

text \<open>So a call without arguments comes back with the text of null for them.\<close>

lemma empty_arguments_become_null:
  "unmarshal ''{}'' = Some (J_obj []) \<Longrightarrow>
   comes_back unmarshal marshal (Calls [] [(i, n, ''{}'')]) =
     [J_obj [(''role'', J_str ''assistant''), (''content'', J_str []),
       (''tool_calls'', J_arr [openai_call marshal 0 \<lparr>gf_Name = n, gf_Args = None\<rparr>])]] \<and>
   args_json (gf_Args \<lparr>gf_Name = n, gf_Args = None\<rparr>) = J_null"
  by (simp add: call_args_def settle_args_def args_json_def)

end
