(* ===== verification/Multimodal.thy ===== *)
theory Multimodal
  imports Gemini CFProxy
begin

text \<open>
  The endpoints beside chat, \<open>internal/multimodal/routes.go\<close>, and the embedding call behind one of them,
  \<open>CFEmbed\<close> of \<open>internal/upstream/cf_run.go\<close>: dispatch by the path, the model a Gemini request is sent
  to, embeddings and images. \<open>unmarshal\<close> and \<open>marshal\<close> are the text level of \<open>encoding/json\<close>.
\<close>

section \<open>Dispatch\<close>

datatype mm_route = Mm_gemini | Mm_embeddings | Mm_images | Mm_not_implemented string

definition fixed_route :: "string \<Rightarrow> mm_route option" where
  "fixed_route path =
     (if path = ''/v1/embeddings'' then Some Mm_embeddings
      else if path = ''/v1/images/generations'' then Some Mm_images
      else if path = ''/v1/audio/speech'' then Some (Mm_not_implemented ''tts'')
      else if path = ''/v1/audio/transcriptions'' then Some (Mm_not_implemented ''stt'')
      else if path = ''/v1/videos/generations'' then Some (Mm_not_implemented ''video'')
      else if path = ''/v1/web/search'' then Some (Mm_not_implemented ''web_search'')
      else if path = ''/v1/web/fetch'' then Some (Mm_not_implemented ''web_fetch'')
      else None)"

lemma trim_slashes_shorter: "has_suffix s ''/'' \<Longrightarrow> length (trim_slashes s) < length s"
  using length_dropWhile_le [of _ "rev s"]
  by (auto simp: has_suffix_iff trim_slashes_def less_Suc_eq_le) (metis length_dropWhile_le length_rev)

text \<open>\<open>Handle\<close>: the route, if the path has one, and the path that is left in the request.\<close>

function mm_Handle :: "string \<Rightarrow> string \<Rightarrow> mm_route option \<times> string" where
  "mm_Handle method path =
     (if method = ''POST'' \<and> (str_contains path '':generateContent'' \<or> str_contains path '':streamGenerateContent'')
      then (Some Mm_gemini, path)
      else if method \<noteq> ''POST'' then (None, path)
      else case fixed_route path of
        Some r \<Rightarrow> (Some r, path)
      | None \<Rightarrow> if has_suffix path ''/'' then mm_Handle method (trim_slashes path) else (None, path))"
  by auto
termination
  by (relation "measure (\<lambda>(method, path). length path)") (auto simp: trim_slashes_shorter)

declare mm_Handle.simps [simp del]

section \<open>Gemini requests\<close>

definition path_model :: "string \<Rightarrow> string" where
  "path_model path =
     (case str_index path ''/models/'' of
        None \<Rightarrow> ''gemini-2.5-flash''
      | Some i \<Rightarrow>
        (let rest = drop (i + 8) path
         in case str_index rest '':'' of Some j \<Rightarrow> take j rest | None \<Rightarrow> rest))"

text \<open>The model of the gateway for a Gemini name, by whether there are Cloudflare accounts.\<close>

definition gemini_model :: "bool \<Rightarrow> string \<Rightarrow> string" where
  "gemini_model has_cf path =
     (let model = trim_prefix (path_model path) ''models/'' in
      if str_contains model ''/'' \<or> has_prefix model ''cb/'' \<or> has_prefix model ''grok'' \<or> has_prefix model ''@cf/''
      then model
      else if str_contains model ''2.5-pro'' \<or> str_contains model ''3.1-pro'' \<or> str_contains model ''3-pro'' then
        (if has_cf then ''@cf/meta/llama-3.3-70b-instruct-fp8-fast'' else ''cb/gemini-2.5-pro'')
      else if str_contains model ''flash'' \<or> str_contains model ''lite'' then
        (if has_cf then ''@cf/google/gemma-4-26b-a4b-it'' else ''cb/gemini-2.5-flash'')
      else if has_cf then ''@cf/meta/llama-3.1-8b-instruct-fp8-fast''
      else ''cb/'' @ model)"

text \<open>
  What a Gemini request becomes: an error, or the body the chat handler is then called with. \<open>raw\<close> is the
  body, None when it could not be read.
\<close>

datatype gemini_outcome = Gemini_bad | Gemini_chat json

definition handleGemini ::
  "(string \<Rightarrow> json option) \<Rightarrow> (json \<Rightarrow> string) \<Rightarrow> bool \<Rightarrow> string \<Rightarrow> string option \<Rightarrow> gemini_outcome" where
  "handleGemini unmarshal marshal has_cf path raw =
     (let model = gemini_model has_cf path in
      case raw of
        None \<Rightarrow> Gemini_bad
      | Some raw \<Rightarrow>
        (let probe = (case unmarshal raw of Some (J_obj kvs) \<Rightarrow> kvs | _ \<Rightarrow> []) in
         if map_of probe ''contents'' \<noteq> None then
           (case GeminiRequestToOpenAI unmarshal marshal model raw of
              None \<Rightarrow> Gemini_bad
            | Some oa \<Rightarrow> Gemini_chat (J_obj oa))
         else Gemini_chat (J_obj ((''model'', J_str model) # filter (\<lambda>(k, _). k \<noteq> ''model'') probe))))"

section \<open>Embeddings\<close>

definition flattenInput :: "json option \<Rightarrow> string list" where
  "flattenInput v =
     (case v of
        Some (J_str t) \<Rightarrow> if t = [] then [] else [t]
      | Some (J_arr xs) \<Rightarrow> concat (map (\<lambda>x. case x of J_str s \<Rightarrow> [s] | _ \<Rightarrow> []) xs)
      | _ \<Rightarrow> [])"

definition embedding_model :: "string \<Rightarrow> string" where
  "embedding_model model0 =
     (let model = (if model0 = [] \<or> model0 = ''text-embedding-3-small'' \<or> model0 = ''text-embedding-ada-002''
                   then ''@cf/baai/bge-base-en-v1.5'' else model0)
      in if model = ''bge-base'' \<or> model = ''bge-base-en'' then ''@cf/baai/bge-base-en-v1.5''
         else if model = ''bge-large'' \<or> model = ''bge-large-en'' then ''@cf/baai/bge-large-en-v1.5''
         else if model = ''bge-small'' then ''@cf/baai/bge-small-en-v1.5''
         else model)"

definition toFloats :: "json list \<Rightarrow> rat list" where
  "toFloats vs = concat (map (\<lambda>v. case v of J_num x \<Rightarrow> [x] | _ \<Rightarrow> []) vs)"

definition embed_payload :: "string list \<Rightarrow> json" where
  "embed_payload texts =
     J_obj [(''text'', case texts of [t] \<Rightarrow> J_str t | _ \<Rightarrow> J_arr (map J_str texts))]"

text \<open>The vectors of an answer, in the shapes it is tried for.\<close>

definition answer_vectors :: "json \<Rightarrow> rat list list" where
  "answer_vectors src =
     (let data = (case as_obj src of None \<Rightarrow> [] | Some m \<Rightarrow> (case arr_field m ''data'' of None \<Rightarrow> [] | Some vs \<Rightarrow> vs));
          rows = concat (map (\<lambda>d. case d of
                     J_arr v \<Rightarrow> [toFloats v]
                   | J_obj kvs \<Rightarrow> (case arr_field (map_of kvs) ''embedding'' of None \<Rightarrow> [] | Some e \<Rightarrow> [toFloats e])
                   | _ \<Rightarrow> []) data)
      in if rows \<noteq> [] then rows
         else case data of
           J_num x # _ \<Rightarrow> [toFloats data]
         | _ \<Rightarrow>
           (case unmarshal_slice unmarshal_float src of
              Some (x # xs) \<Rightarrow> [x # xs]
            | _ \<Rightarrow> []))"

datatype embed_error = Embed_run cf_run_error | Embed_status int | Embed_unparsed

text \<open>\<open>raw\<close> is not JSON, or the result inside it is looked at instead when there is one.\<close>

definition embed_vectors :: "(string \<Rightarrow> json option) \<Rightarrow> string \<Rightarrow> rat list list" where
  "embed_vectors unmarshal raw =
     (case unmarshal raw of
        None \<Rightarrow> []
      | Some v \<Rightarrow>
        (case as_obj v of
           None \<Rightarrow> answer_vectors v
         | Some m \<Rightarrow> (case m ''result'' of None \<Rightarrow> answer_vectors v | Some r \<Rightarrow> answer_vectors r)))"

definition CFEmbed ::
  "(string \<Rightarrow> json option) \<Rightarrow> (nat \<Rightarrow> cf_env) \<Rightarrow> cf_pool option \<Rightarrow>
   (embed_error + rat list list) \<times> cf_pool option \<times> cf_call list" where
  "CFEmbed unmarshal envs km =
     (case CFRun envs km of
        (Inl e, km', cs) \<Rightarrow> (Inl (Embed_run e), km', cs)
      | (Inr (status, raw, _), km', cs) \<Rightarrow>
        (if status \<ge> 400 then Inl (Embed_status status)
         else if embed_vectors unmarshal raw = [] then Inl Embed_unparsed
         else Inr (embed_vectors unmarshal raw), km', cs))"

text \<open>
  The reply: the status, the model and the vectors. Without accounts, or when the call fails, the vector
  is one of eight zeros.
\<close>

definition zero_vector :: "rat list" where
  "zero_vector = replicate 8 0"

definition unmarshal_embed :: "json \<Rightarrow> (string \<times> json option) option" where
  "unmarshal_embed v = do {
     m \<leftarrow> unmarshal_map v;
     model \<leftarrow> tag_string m ''model'';
     Some (model, m ''input'') }"

definition has_accounts :: "cf_pool option \<Rightarrow> bool" where
  "has_accounts km = (case km of None \<Rightarrow> False | Some p \<Rightarrow> kp_keys p \<noteq> [])"

definition embeddings ::
  "(string \<Rightarrow> json option) \<Rightarrow> (nat \<Rightarrow> cf_env) \<Rightarrow> json option \<Rightarrow> cf_pool option \<Rightarrow>
   (int \<times> string \<times> rat list list) \<times> cf_pool option \<times> cf_call list" where
  "embeddings unmarshal envs body km =
     (case body \<bind> unmarshal_embed of
        None \<Rightarrow> ((400, [], []), km, [])
      | Some (model0, input) \<Rightarrow>
        (let texts = flattenInput input in
         if texts = [] then ((400, [], []), km, [])
         else
           (let model = embedding_model model0 in
            if has_accounts km then
              (case CFEmbed unmarshal envs km of
                 (Inr vs, km', cs) \<Rightarrow> ((200, model, vs), km', cs)
               | (Inl _, km', cs) \<Rightarrow> ((200, model, [zero_vector]), km', cs))
            else ((200, model, [zero_vector]), km, []))))"

section \<open>Images\<close>

definition unmarshal_image :: "json \<Rightarrow> (string \<times> string) option" where
  "unmarshal_image v = do {
     m \<leftarrow> unmarshal_map v;
     model \<leftarrow> tag_string m ''model'';
     prompt \<leftarrow> tag_string m ''prompt'';
     n \<leftarrow> tag 0 unmarshal_int m ''n'';
     sz \<leftarrow> tag_string m ''size'';
     Some (model, prompt) }"

definition image_model :: "string \<Rightarrow> string" where
  "image_model m = (if m = [] \<or> has_prefix m ''dall-e'' then ''@cf/black-forest-labs/flux-1-schnell'' else m)"

datatype image_reply = Image_base64 string | Image_raw string | Image_error

definition image_of :: "(string \<Rightarrow> json option) \<Rightarrow> string \<Rightarrow> image_reply" where
  "image_of unmarshal raw =
     (case unmarshal raw \<bind> as_obj of
        None \<Rightarrow> Image_raw raw
      | Some m \<Rightarrow>
        (case obj_field m ''result'' of
           None \<Rightarrow> Image_raw raw
         | Some r \<Rightarrow> (case r ''image'' of Some (J_str img) \<Rightarrow> Image_base64 img | _ \<Rightarrow> Image_raw raw)))"

text \<open>
  The errors of the binding are ignored: \<open>req\<close> is the model and the prompt of what could be decoded.
\<close>

definition images ::
  "(string \<Rightarrow> json option) \<Rightarrow> (nat \<Rightarrow> cf_env) \<Rightarrow> string \<times> string \<Rightarrow> cf_pool option \<Rightarrow>
   (int \<times> image_reply) \<times> cf_pool option \<times> cf_call list" where
  "images unmarshal envs req km =
     (if snd req = [] then ((400, Image_error), km, [])
      else if \<not> has_accounts km then ((501, Image_error), km, [])
      else case CFRun envs km of
        (Inl _, km', cs) \<Rightarrow> ((502, Image_error), km', cs)
      | (Inr (status, raw, _), km', cs) \<Rightarrow>
        (if status \<ge> 400 then (status, Image_raw raw) else (200, image_of unmarshal raw), km', cs))"

definition notImplemented :: "string \<Rightarrow> int" where
  "notImplemented kind = 501"

section \<open>Properties\<close>

text \<open>A request that falls through to the chat handler has lost the slashes at the end of its path.\<close>

lemma fall_through_path:
  "fst (mm_Handle ''POST'' path) = None \<Longrightarrow> \<not> has_suffix (snd (mm_Handle ''POST'' path)) ''/''"
proof (induction "''POST''" path rule: mm_Handle.induct)
  case (1 path)
  show ?case
  proof (cases "has_suffix path ''/''")
    case True
    with 1 show ?thesis by (subst mm_Handle.simps) (auto simp: mm_Handle.simps [of _ path] split: option.splits if_splits)
  qed (use "1.prems" in \<open>auto simp: mm_Handle.simps [of _ path] split: option.splits if_splits\<close>)
qed

text \<open>The model asked for a Gemini request is always one of the gateway's families or has a family's slash.\<close>

lemma gemini_model_routed:
  "str_contains (gemini_model has_cf path) ''/'' \<or> has_prefix (gemini_model has_cf path) ''grok''"
proof -
  have cb: "str_contains (''cb/'' @ m) ''/''" for m by (simp add: str_contains_def has_prefix_def)
  have "has_prefix m ''cb/'' \<Longrightarrow> str_contains m ''/''" "has_prefix m ''@cf/'' \<Longrightarrow> str_contains m ''/''" for m
    using cb by (auto simp: has_prefix_iff str_contains_def has_prefix_def)
  then show ?thesis
    by (auto simp: gemini_model_def Let_def cb) (simp_all add: str_contains_def has_prefix_def)
qed

text \<open>
  Embedding requests that are well formed are never refused: when the accounts or the call fail, the
  answer is a success with one vector of zeros, however many texts there were.
\<close>

lemma embeddings_never_fail:
  assumes "body \<bind> unmarshal_embed = Some (model, input)" and "flattenInput input \<noteq> []"
  shows "fst (fst (embeddings unmarshal envs body km)) = 200 \<and>
    (\<not> (has_accounts km \<and> (\<exists>vs. fst (CFEmbed unmarshal envs km) = Inr vs)) \<longrightarrow>
     snd (snd (fst (embeddings unmarshal envs body km))) = [zero_vector])"
  using assms by (auto simp: embeddings_def Let_def split: sum.splits prod.splits)

text \<open>A served vector list is never empty.\<close>

lemma CFEmbed_some: "fst (CFEmbed unmarshal envs km) = Inr vs \<Longrightarrow> vs \<noteq> []"
  by (auto simp: CFEmbed_def split: sum.splits prod.splits if_splits)

end
