(* ===== verification/BulkImport.thy ===== *)
theory BulkImport
  imports CBPool CFPool GrokPool Decode
begin

text \<open>
  The endpoints of \<open>internal/handlers/handlers.go\<close> that import credentials into the three pools, one at a
  time or many at once, on the operations of the pools. A request body is the JSON value it holds,
  \<open>None\<close> if it holds none; a reply is a status and, on success, the fields of its body. What a bulk import
  promises is stated once, in the locale \<open>importer\<close>, for the pools it is repeated on. The clock does not
  move during a request.
\<close>

section \<open>One loop for all\<close>

text \<open>
  The counters of a bulk import: new entries, those that were there (skipped or updated), those that were
  refused with their positions, and the size of the pool after the last one that was not refused.
\<close>

record tally =
  ta_added :: nat
  ta_again :: nat
  ta_failed :: nat
  ta_total :: nat
  ta_errors :: "nat list"

definition no_tally :: tally where
  "no_tally = \<lparr>ta_added = 0, ta_again = 0, ta_failed = 0, ta_total = 0, ta_errors = []\<rparr>"

text \<open>
  The loop: each entry, \<open>None\<close> if it lacks a field, with its position; \<open>add\<close> imports one and says whether it
  was new and how many there are.
\<close>

fun bulk_loop ::
  "('e \<Rightarrow> 'p \<Rightarrow> (bool \<times> nat) \<times> 'p \<times> 'c list) \<Rightarrow> (nat \<times> 'e option) list \<Rightarrow> tally \<Rightarrow> 'p \<Rightarrow> tally \<times> 'p \<times> 'c list" where
  "bulk_loop add [] t p = (t, p, [])"
| "bulk_loop add ((i, None) # es) t p =
     bulk_loop add es (t\<lparr>ta_failed := ta_failed t + 1, ta_errors := ta_errors t @ [i]\<rparr>) p"
| "bulk_loop add ((i, Some e) # es) t p =
     (let ((new, total), p', cs) = add e p;
          t' = (if new then t\<lparr>ta_added := ta_added t + 1\<rparr> else t\<lparr>ta_again := ta_again t + 1\<rparr>);
          (t'', p'', cs') = bulk_loop add es (t'\<lparr>ta_total := total\<rparr>) p'
      in (t'', p'', cs @ cs'))"

text \<open>A secret as the reply shows it.\<close>

definition display_secret :: "string \<Rightarrow> string" where
  "display_secret s = (if length s > 12 then take 8 s @ ''...'' @ drop (length s - 4) s else s)"

record import_reply =
  ir_added :: bool
  ir_total :: nat
  ir_name :: string
  ir_shown :: string

section \<open>CodeBuddy keys\<close>

definition unmarshal_cb_import :: "json \<Rightarrow> (string \<times> string) option" where
  "unmarshal_cb_import v = do {
     m \<leftarrow> unmarshal_map v;
     a \<leftarrow> tag_string m ''api_key'';
     k \<leftarrow> tag_string m ''key'';
     Some (a, k) }"

definition HandleImportCBKey :: "json option \<Rightarrow> cb_pool \<Rightarrow> (int \<times> import_reply option) \<times> cb_pool \<times> cb_call list" where
  "HandleImportCBKey body p =
     (case body \<bind> unmarshal_cb_import of
        None \<Rightarrow> ((400, None), p, [])
      | Some (api_key, key) \<Rightarrow>
        (let apiKey = (if trim_space api_key = [] then trim_space key else trim_space api_key) in
         if apiKey = [] then ((400, None), p, [])
         else
           let ((added, total), p', cs) = CB_AddKey apiKey p
           in ((200, Some \<lparr>ir_added = added, ir_total = total, ir_name = [], ir_shown = display_secret apiKey\<rparr>), p', cs)))"

definition unmarshal_cb_bulk :: "json \<Rightarrow> (string list \<times> string) option" where
  "unmarshal_cb_bulk v = do {
     m \<leftarrow> unmarshal_map v;
     ks \<leftarrow> tag [] (unmarshal_slice unmarshal_string) m ''api_keys'';
     r \<leftarrow> tag_string m ''raw'';
     Some (ks, r) }"

definition raw_separator :: "char \<Rightarrow> bool" where
  "raw_separator c \<longleftrightarrow> c \<in> {CHR '','', CHR 10, CHR 13, CHR '' '', CHR 9}"

definition raw_parts :: "string \<Rightarrow> string list" where
  "raw_parts raw = filter (\<lambda>k. k \<noteq> []) (map trim_space (fields_func raw_separator [] raw))"

definition HandleImportCBKeyBulk :: "json option \<Rightarrow> cb_pool \<Rightarrow> (int \<times> tally option) \<times> cb_pool \<times> cb_call list" where
  "HandleImportCBKeyBulk body p =
     (case body \<bind> unmarshal_cb_bulk of
        None \<Rightarrow> ((400, None), p, [])
      | Some (api_keys, raw) \<Rightarrow>
        (let keys = (if api_keys = [] \<and> raw \<noteq> [] then raw_parts raw else api_keys) in
         if keys = [] then ((400, None), p, [])
         else
           let (t, p', cs) = bulk_loop CB_AddKey
                 (enumerate 0 (map Some (filter (\<lambda>k. k \<noteq> []) (map trim_space keys)))) no_tally p
           in ((200, Some (t\<lparr>ta_total := length (kp_keys p')\<rparr>)), p', cs)))"

section \<open>CodeBuddy accounts\<close>

record oauth_entry =
  oe_Email :: string
  oe_AccessToken :: string
  oe_RefreshToken :: string
  oe_ExpiresIn :: int

definition unmarshal_oauth :: "json \<Rightarrow> oauth_entry option" where
  "unmarshal_oauth v = do {
     m \<leftarrow> unmarshal_map v;
     e \<leftarrow> tag_string m ''email'';
     a \<leftarrow> tag_string m ''access_token'';
     r \<leftarrow> tag_string m ''refresh_token'';
     x \<leftarrow> tag 0 unmarshal_int m ''expires_in'';
     Some \<lparr>oe_Email = e, oe_AccessToken = a, oe_RefreshToken = r, oe_ExpiresIn = x\<rparr> }"

text \<open>The trimmed fields of an entry, if none is blank.\<close>

definition oauth_fields :: "oauth_entry \<Rightarrow> (string \<times> string \<times> string \<times> int) option" where
  "oauth_fields e =
     (let email = trim_space (oe_Email e); at' = trim_space (oe_AccessToken e); rt = trim_space (oe_RefreshToken e)
      in if email = [] \<or> at' = [] \<or> rt = [] then None else Some (email, at', rt, oe_ExpiresIn e))"

text \<open>\<open>jwt_exp\<close> is \<open>ParseJWTExp\<close>, the zero time for a token without one.\<close>

definition resolveCBOAuthExpiry :: "(string \<Rightarrow> gotime) \<Rightarrow> gotime \<Rightarrow> string \<Rightarrow> int \<Rightarrow> gotime" where
  "resolveCBOAuthExpiry jwt_exp now accessToken expiresIn =
     (if expiresIn > 0 then now + wrap64 (expiresIn * second)
      else if jwt_exp accessToken \<noteq> 0 then jwt_exp accessToken
      else now + 365 * 24 * hour)"

text \<open>\<open>reply\<close> is what the token endpoint answers for an access token that is refreshed at once.\<close>

definition import_oauth ::
  "(string \<Rightarrow> gotime) \<Rightarrow> gotime \<Rightarrow> (string \<Rightarrow> cb_token_reply) \<Rightarrow> string \<times> string \<times> string \<times> int \<Rightarrow> cb_pool \<Rightarrow>
   (bool \<times> nat) \<times> cb_pool \<times> cb_call list" where
  "import_oauth jwt_exp now reply = (\<lambda>(email, at', rt, expiresIn) p.
     AddOAuthAccount now (reply email) email at' rt (resolveCBOAuthExpiry jwt_exp now at' expiresIn) p)"

definition HandleImportCBOAuth ::
  "(string \<Rightarrow> gotime) \<Rightarrow> gotime \<Rightarrow> (string \<Rightarrow> cb_token_reply) \<Rightarrow> json option \<Rightarrow> cb_pool \<Rightarrow>
   (int \<times> (import_reply \<times> gotime) option) \<times> cb_pool \<times> cb_call list" where
  "HandleImportCBOAuth jwt_exp now reply body p =
     (case body \<bind> unmarshal_oauth of
        None \<Rightarrow> ((400, None), p, [])
      | Some e \<Rightarrow>
        (case oauth_fields e of
           None \<Rightarrow> ((400, None), p, [])
         | Some f \<Rightarrow>
           (let ((added, total), p', cs) = import_oauth jwt_exp now reply f p
            in ((200, Some (\<lparr>ir_added = added, ir_total = total, ir_name = fst f, ir_shown = []\<rparr>,
                  resolveCBOAuthExpiry jwt_exp now (fst (snd f)) (oe_ExpiresIn e))), p', cs))))"

definition unmarshal_oauth_bulk :: "json \<Rightarrow> (oauth_entry list \<times> string) option" where
  "unmarshal_oauth_bulk v = do {
     m \<leftarrow> unmarshal_map v;
     es \<leftarrow> tag [] (unmarshal_slice unmarshal_oauth) m ''accounts'';
     r \<leftarrow> tag_string m ''raw'';
     Some (es, r) }"

text \<open>\<open>None\<close> if the raw text is used and is no array of accounts.\<close>

definition oauth_accounts :: "(string \<Rightarrow> json option) \<Rightarrow> oauth_entry list \<times> string \<Rightarrow> oauth_entry list option" where
  "oauth_accounts unmarshal = (\<lambda>(accounts, raw).
     if accounts = [] \<and> trim_space raw \<noteq> [] then unmarshal raw \<bind> unmarshal_slice unmarshal_oauth else Some accounts)"

definition HandleImportCBOAuthBulk ::
  "(string \<Rightarrow> json option) \<Rightarrow> (string \<Rightarrow> gotime) \<Rightarrow> gotime \<Rightarrow> (string \<Rightarrow> cb_token_reply) \<Rightarrow> json option \<Rightarrow> cb_pool \<Rightarrow>
   (int \<times> tally option) \<times> cb_pool \<times> cb_call list" where
  "HandleImportCBOAuthBulk unmarshal jwt_exp now reply body p =
     (case body \<bind> unmarshal_oauth_bulk \<bind> oauth_accounts unmarshal of
        None \<Rightarrow> ((400, None), p, [])
      | Some accounts \<Rightarrow>
        if accounts = [] then ((400, None), p, [])
        else
          let (t, p', cs) = bulk_loop (import_oauth jwt_exp now reply) (enumerate 0 (map oauth_fields accounts)) no_tally p
          in ((200, Some t), p', cs))"

section \<open>Grok accounts\<close>

record grok_entry =
  gn_Email :: string
  gn_AccessToken :: string
  gn_RefreshToken :: string
  gn_IDToken :: string
  gn_ExpiresIn :: int
  gn_Sub :: string

definition unmarshal_grok :: "json \<Rightarrow> grok_entry option" where
  "unmarshal_grok v = do {
     m \<leftarrow> unmarshal_map v;
     e \<leftarrow> tag_string m ''email'';
     a \<leftarrow> tag_string m ''access_token'';
     r \<leftarrow> tag_string m ''refresh_token'';
     i \<leftarrow> tag_string m ''id_token'';
     x \<leftarrow> tag 0 unmarshal_int m ''expires_in'';
     s \<leftarrow> tag_string m ''sub'';
     Some \<lparr>gn_Email = e, gn_AccessToken = a, gn_RefreshToken = r, gn_IDToken = i, gn_ExpiresIn = x, gn_Sub = s\<rparr> }"

definition grok_fields :: "grok_entry \<Rightarrow> grok_entry option" where
  "grok_fields e = (if gn_Email e = [] \<or> gn_AccessToken e = [] \<or> gn_RefreshToken e = [] then None else Some e)"

definition import_grok ::
  "(gotime \<Rightarrow> string) \<Rightarrow> gotime \<Rightarrow> grok_entry \<Rightarrow> grok_pool \<Rightarrow> (bool \<times> nat) \<times> grok_pool \<times> grok_call list" where
  "import_grok rfc now e p =
     (let ((created, total, a), p', cs) = UpsertAccount rfc now (gn_Email e) (gn_AccessToken e) (gn_RefreshToken e)
            (gn_IDToken e) (gn_Sub e) (gn_ExpiresIn e) p
      in ((created, total), p', cs))"

text \<open>The reply holds the account's expiry and the size of the pool.\<close>

definition HandleImportAccount ::
  "(gotime \<Rightarrow> string) \<Rightarrow> gotime \<Rightarrow> json option \<Rightarrow> grok_pool \<Rightarrow>
   (int \<times> (string \<times> string \<times> nat) option) \<times> grok_pool \<times> grok_call list" where
  "HandleImportAccount rfc now body p =
     (case body \<bind> unmarshal_grok \<bind> grok_fields of
        None \<Rightarrow> ((400, None), p, [])
      | Some e \<Rightarrow>
        (let ((_, total, a), p', cs) = UpsertAccount rfc now (gn_Email e) (gn_AccessToken e) (gn_RefreshToken e)
               (gn_IDToken e) (gn_Sub e) (gn_ExpiresIn e) p
         in ((200, Some (gn_Email e, ga_Expired (account_at p' a), total)), p', cs)))"

definition unmarshal_grok_bulk :: "json \<Rightarrow> grok_entry list option" where
  "unmarshal_grok_bulk v = do {
     m \<leftarrow> unmarshal_map v;
     tag [] (unmarshal_slice unmarshal_grok) m ''accounts'' }"

definition HandleImportAccountBulk ::
  "(gotime \<Rightarrow> string) \<Rightarrow> gotime \<Rightarrow> json option \<Rightarrow> grok_pool \<Rightarrow> (int \<times> tally option) \<times> grok_pool \<times> grok_call list" where
  "HandleImportAccountBulk rfc now body p =
     (case body \<bind> unmarshal_grok_bulk of
        None \<Rightarrow> ((400, None), p, [])
      | Some accounts \<Rightarrow>
        if accounts = [] then ((400, None), p, [])
        else
          let (t, p', cs) = bulk_loop (import_grok rfc now) (enumerate 0 (map grok_fields accounts)) no_tally p
          in ((200, Some (t\<lparr>ta_total := length (gp_accounts p'), ta_errors := []\<rparr>)), p', cs))"

section \<open>Cloudflare accounts\<close>

record cf_entry =
  ce_AccountID :: string
  ce_Token :: string
  ce_Key :: string

definition unmarshal_cf :: "json \<Rightarrow> cf_entry option" where
  "unmarshal_cf v = do {
     m \<leftarrow> unmarshal_map v;
     a \<leftarrow> tag_string m ''account_id'';
     t \<leftarrow> tag_string m ''token'';
     k \<leftarrow> tag_string m ''key'';
     Some \<lparr>ce_AccountID = a, ce_Token = t, ce_Key = k\<rparr> }"

text \<open>\<open>account:token\<close>, or a token alone.\<close>

definition split_pair :: "string \<Rightarrow> string \<times> string" where
  "split_pair s =
     (case split_at_char [CHR '':''] s of (l, Some r) \<Rightarrow> (trim_space l, trim_space r) | (l, None) \<Rightarrow> ([], trim_space s))"

definition HandleImportCFKey :: "json option \<Rightarrow> cf_pool \<Rightarrow> (int \<times> import_reply option) \<times> cf_pool \<times> cf_call list" where
  "HandleImportCFKey body p =
     (case body \<bind> unmarshal_cf of
        None \<Rightarrow> ((400, None), p, [])
      | Some e \<Rightarrow>
        (let (accountID, token) = (if ce_Key e \<noteq> [] then split_pair (ce_Key e)
               else (trim_space (ce_AccountID e), trim_space (ce_Token e)))
         in if token = [] then ((400, None), p, [])
            else
              let ((added, total), p', cs) = CF_AddKey accountID token p
              in ((200, Some \<lparr>ir_added = added, ir_total = total, ir_name = accountID, ir_shown = display_secret token\<rparr>),
                  p', cs)))"

definition unmarshal_cf_bulk :: "json \<Rightarrow> (cf_entry list \<times> string) option" where
  "unmarshal_cf_bulk v = do {
     m \<leftarrow> unmarshal_map v;
     es \<leftarrow> tag [] (unmarshal_slice unmarshal_cf) m ''accounts'';
     r \<leftarrow> tag_string m ''raw'';
     Some (es, r) }"

definition line_separator :: "char \<Rightarrow> bool" where
  "line_separator c \<longleftrightarrow> c \<in> {CHR '','', CHR '' '', CHR 9, CHR 13}"

definition raw_cf :: "string \<Rightarrow> cf_entry list" where
  "raw_cf raw =
     map (\<lambda>k. \<lparr>ce_AccountID = [], ce_Token = [], ce_Key = k\<rparr>)
       (concat (map (\<lambda>line. filter (\<lambda>k. k \<noteq> []) (map trim_space (fields_func line_separator [] line)))
         (filter (\<lambda>l. l \<noteq> []) (map trim_space (all_lines raw)))))"

text \<open>Account and token of an entry, if there is a token.\<close>

definition cf_fields :: "cf_entry \<Rightarrow> (string \<times> string) option" where
  "cf_fields e =
     (let (accountID, token) =
        (if ce_Token e \<noteq> [] then (trim_space (ce_AccountID e), trim_space (ce_Token e))
         else if ce_Key e \<noteq> [] then split_pair (ce_Key e)
         else if ce_AccountID e \<noteq> [] then split_pair (ce_AccountID e)
         else ([], []))
      in if token = [] then None else Some (accountID, token))"

definition import_cf :: "string \<times> string \<Rightarrow> cf_pool \<Rightarrow> (bool \<times> nat) \<times> cf_pool \<times> cf_call list" where
  "import_cf = (\<lambda>(accountID, token) p. CF_AddKey accountID token p)"

definition HandleImportCFKeyBulk :: "json option \<Rightarrow> cf_pool \<Rightarrow> (int \<times> tally option) \<times> cf_pool \<times> cf_call list" where
  "HandleImportCFKeyBulk body p =
     (case body \<bind> unmarshal_cf_bulk of
        None \<Rightarrow> ((400, None), p, [])
      | Some (accounts, raw) \<Rightarrow>
        (let es = (if accounts = [] \<and> trim_space raw \<noteq> [] then raw_cf raw else accounts);
             (t, p', cs) = bulk_loop import_cf (enumerate 0 (map cf_fields es)) no_tally p
         in ((200, Some t), p', cs)))"

section \<open>What a bulk import promises\<close>

text \<open>
  The names of the credentials of a pool, and what an import of one entry does to them: a new name comes
  last, one that is there stays where it is.
\<close>

locale importer =
  fixes add :: "'e \<Rightarrow> 'p \<Rightarrow> (bool \<times> nat) \<times> 'p \<times> 'c list"
    and names :: "'p \<Rightarrow> string list"
    and name_of :: "'e \<Rightarrow> string"
    and valid :: "'e \<Rightarrow> bool"
    and ok :: "'p \<Rightarrow> bool"
  assumes add_ok: "ok p \<Longrightarrow> valid e \<Longrightarrow> ok (fst (snd (add e p)))"
    and add_new: "ok p \<Longrightarrow> valid e \<Longrightarrow> name_of e \<notin> set (names p) \<Longrightarrow>
      fst (fst (add e p)) \<and> names (fst (snd (add e p))) = names p @ [name_of e]"
    and add_again: "ok p \<Longrightarrow> valid e \<Longrightarrow> name_of e \<in> set (names p) \<Longrightarrow>
      \<not> fst (fst (add e p)) \<and> names (fst (snd (add e p))) = names p"
begin

text \<open>
  Every entry is counted once; the names that come in are those of the entries, none of them twice, and as
  many as are counted as new.
\<close>

lemma loop_accounts:
  assumes "bulk_loop add es t p = (t', p', cs)" and "ok p" and "list_all (\<lambda>(i, e). pred_option valid e) es"
  shows "ok p' \<and>
    ta_added t' + ta_again t' + ta_failed t' = ta_added t + ta_again t + ta_failed t + length es \<and>
    ta_failed t' = ta_failed t + length (filter (\<lambda>(i, e). e = None) es) \<and>
    length (names p') + ta_added t = length (names p) + ta_added t' \<and>
    set (names p') = set (names p) \<union> {name_of e | i e. (i, Some e) \<in> set es} \<and>
    (distinct (names p) \<longrightarrow> distinct (names p'))"
  using assms
proof (induction es arbitrary: t p t' p' cs)
  case (Cons ie es)
  show ?case
  proof (cases "snd ie")
    case None
    then show ?thesis
      using Cons.IH [of "t\<lparr>ta_failed := ta_failed t + 1, ta_errors := ta_errors t @ [fst ie]\<rparr>" p] Cons.prems
      by (cases ie) auto
  next
    case (Some e)
    obtain new total q ds where a: "add e p = ((new, total), q, ds)" by (metis prod.collapse)
    have v: "valid e" using Cons.prems(3) Some by (cases ie) simp
    have q: "ok q" using add_ok [OF Cons.prems(2) v] a by simp
    have n: "names q = (if new then names p @ [name_of e] else names p)" "new \<longleftrightarrow> name_of e \<notin> set (names p)"
      using add_new [OF Cons.prems(2) v] add_again [OF Cons.prems(2) v] a by auto
    let ?t = "(if new then t\<lparr>ta_added := ta_added t + 1\<rparr> else t\<lparr>ta_again := ta_again t + 1\<rparr>)\<lparr>ta_total := total\<rparr>"
    obtain ds' where l: "bulk_loop add es ?t q = (t', p', ds')"
      using Cons.prems(1) Some a by (cases ie) (auto simp: Let_def split: prod.splits)
    have "list_all (\<lambda>(i, e). pred_option valid e) es" using Cons.prems(3) by simp
    from Cons.IH [OF l q this] Some n show ?thesis by (cases ie) auto
  qed
qed simp

end

text \<open>Where an entry that is there is left alone, importing the same entries again does nothing at all.\<close>

locale idle_importer = importer +
  assumes again_idle: "ok p \<Longrightarrow> valid e \<Longrightarrow> name_of e \<in> set (names p) \<Longrightarrow>
    \<exists>n. add e p = ((False, n), p, [])"
begin

lemma loop_idle:
  assumes "ok p" and "list_all (\<lambda>(i, e). pred_option valid e) es"
    and "{name_of e | i e. (i, Some e) \<in> set es} \<subseteq> set (names p)"
  shows "\<exists>t'. bulk_loop add es t p = (t', p, []) \<and> ta_added t' = ta_added t \<and>
    ta_failed t' = ta_failed t + length (filter (\<lambda>(i, e). e = None) es)"
  using assms(2,3)
proof (induction es arbitrary: t)
  case (Cons ie es)
  have rest: "list_all (\<lambda>(i, e). pred_option valid e) es" "{name_of e | i e. (i, Some e) \<in> set es} \<subseteq> set (names p)"
    using Cons.prems by auto
  show ?case
  proof (cases "snd ie")
    case None
    then show ?thesis
      using Cons.IH [OF rest, of "t\<lparr>ta_failed := ta_failed t + 1, ta_errors := ta_errors t @ [fst ie]\<rparr>"]
      by (cases ie) auto
  next
    case (Some e)
    then have "valid e" "name_of e \<in> set (names p)" using Cons.prems by (cases ie; auto)+
    then obtain n where "add e p = ((False, n), p, [])" using again_idle assms(1) by blast
    then show ?thesis
      using Cons.IH [OF rest, of "t\<lparr>ta_again := ta_again t + 1, ta_total := n\<rparr>"] Some by (cases ie) auto
  qed
qed simp

lemma loop_twice:
  assumes "bulk_loop add es no_tally p = (t, p', cs)" and "ok p" and "list_all (\<lambda>(i, e). pred_option valid e) es"
  shows "\<exists>t'. bulk_loop add es no_tally p' = (t', p', []) \<and> ta_added t' = 0 \<and>
    ta_again t' = ta_added t + ta_again t \<and> ta_failed t' = ta_failed t"
proof -
  have first: "ok p'" "{name_of e | i e. (i, Some e) \<in> set es} \<subseteq> set (names p')"
      "ta_added t + ta_again t + ta_failed t = length es" "ta_failed t = length (filter (\<lambda>(i, e). e = None) es)"
    using loop_accounts [OF assms] by (auto simp: no_tally_def)
  obtain t' where second: "bulk_loop add es no_tally p' = (t', p', [])" "ta_added t' = 0"
      "ta_failed t' = length (filter (\<lambda>(i, e). e = None) es)"
    using loop_idle [OF first(1) assms(3) first(2), of no_tally] by (auto simp: no_tally_def)
  moreover have "ta_added t' + ta_again t' + ta_failed t' = length es"
    using loop_accounts [OF second(1) first(1) assms(3)] by (simp add: no_tally_def)
  ultimately show ?thesis using first(3,4) by simp
qed

end

text \<open>The three pools.\<close>

definition cb_names :: "cb_pool \<Rightarrow> string list" where
  "cb_names p = map (\<lambda>a. ck_Key (key_at p a)) (kp_keys p)"

definition cf_names :: "cf_pool \<Rightarrow> string list" where
  "cf_names p = map (\<lambda>a. fk_AccountID (key_at p a)) (kp_keys p)"

definition grok_names :: "grok_pool \<Rightarrow> string list" where
  "grok_names p = map (\<lambda>a. ga_Email (account_at p a)) (gp_accounts p)"

definition cf_name :: "string \<times> string \<Rightarrow> string" where
  "cf_name = (\<lambda>(accountID, token). if trim_space accountID = [] then derived_id (trim_space token) else trim_space accountID)"

lemma names_new [simp]:
  "refs_ok p \<Longrightarrow> cb_names (new_key k p) = cb_names p @ [ck_Key k]"
  "refs_ok q \<Longrightarrow> cf_names (new_key f q) = cf_names q @ [fk_AccountID f]"
  by (simp_all add: cb_names_def cf_names_def refs_ok_def)

lemma in_names:
  "n \<in> set (cb_names p) \<longleftrightarrow> (\<exists>a \<in> set (kp_keys p). ck_Key (key_at p a) = n)"
  "n \<in> set (cf_names q) \<longleftrightarrow> (\<exists>a \<in> set (kp_keys q). fk_AccountID (key_at q a) = n)"
  by (auto simp: cb_names_def cf_names_def)

lemma AddKey_by_name:
  "trim_space k \<noteq> [] \<Longrightarrow> CB_AddKey k p =
     (if trim_space k \<in> set (cb_names p) then ((False, length (kp_keys p)), p, [])
      else let p' = new_key (fresh_key (trim_space k) CBAuthAPIKey) p
           in ((True, length (kp_keys p')), p', save_cb p' (length (kp_heap p))))"
  "trim_space t \<noteq> [] \<Longrightarrow> CF_AddKey a t q =
     (if cf_name (a, t) \<in> set (cf_names q) then ((False, length (kp_keys q)), q, [])
      else let q' = new_key (fresh_cf (cf_name (a, t)) (trim_space t)) q
           in ((True, length (kp_keys q')), q', save_cf q' (length (kp_heap q))))"
  by (simp_all add: CB_AddKey_def CF_AddKey_def cf_name_def in_names Let_def)

interpretation cb_import: idle_importer CB_AddKey cb_names trim_space "\<lambda>k. trim_space k \<noteq> []" refs_ok
  by unfold_locales (auto simp: AddKey_by_name Let_def fresh_key_def)

interpretation cf_import: idle_importer import_cf cf_names cf_name "\<lambda>(a, t). trim_space t \<noteq> []" refs_ok
  by unfold_locales (auto simp: import_cf_def AddKey_by_name Let_def fresh_cf_def)

lemma grok_names_new:
  "refs_in_heap p \<Longrightarrow> grok_names (new_account acc p) = grok_names p @ [ga_Email acc] \<and> refs_in_heap (new_account acc p)"
  by (auto simp: grok_names_def refs_in_heap_def new_account_def account_at_def nth_append)

lemma grok_names_put:
  "ga_Email acc = ga_Email (account_at p a) \<Longrightarrow> refs_in_heap p \<Longrightarrow>
   grok_names (put_account a acc p) = grok_names p \<and> refs_in_heap (put_account a acc p)"
  by (auto simp: grok_names_def refs_in_heap_def put_account_def account_at_def)
    (metis nth_list_update_eq nth_list_update_neq)

lemma find_by_email:
  "find (\<lambda>a. ga_Email (account_at p a) = e) (gp_accounts p) = None \<longleftrightarrow> e \<notin> set (grok_names p)"
  by (auto simp: grok_names_def find_None_iff)

lemma import_grok_names:
  assumes "refs_in_heap p"
  shows "refs_in_heap (fst (snd (import_grok rfc now e p))) \<and>
    (fst (fst (import_grok rfc now e p)) \<longleftrightarrow> gn_Email e \<notin> set (grok_names p)) \<and>
    grok_names (fst (snd (import_grok rfc now e p))) =
      (if gn_Email e \<in> set (grok_names p) then grok_names p else grok_names p @ [gn_Email e])"
proof (cases "find (\<lambda>a. ga_Email (account_at p a) = gn_Email e) (gp_accounts p)")
  case None
  then have "gn_Email e \<notin> set (grok_names p)" using find_by_email by blast
  with None show ?thesis using grok_names_new [OF assms] by (auto simp: import_grok_def UpsertAccount_def Let_def)
next
  case (Some a)
  then have "gn_Email e \<in> set (grok_names p)" using find_by_email [of p "gn_Email e"] by simp
  moreover have "ga_Email (account_at p a) = gn_Email e" using Some by (auto simp: find_Some_iff)
  ultimately show ?thesis using Some grok_names_put [OF _ assms, of _ a]
    by (simp add: import_grok_def UpsertAccount_def Let_def)
qed

interpretation grok_import: importer "import_grok rfc now" grok_names gn_Email "\<lambda>_. True" refs_in_heap
  by unfold_locales (simp_all add: import_grok_names)

lemma entries_valid:
  "list_all (\<lambda>(i, e). pred_option (\<lambda>(a, t). trim_space t \<noteq> []) e) (enumerate n (map cf_fields es))"
  "list_all (\<lambda>(i, e). pred_option (\<lambda>k. trim_space k \<noteq> []) e)
     (enumerate n (map Some (filter (\<lambda>k. k \<noteq> []) (map trim_space ks))))"
proof -
  show "list_all (\<lambda>(i, e). pred_option (\<lambda>(a, t). trim_space t \<noteq> []) e) (enumerate n (map cf_fields es))"
    by (induction es arbitrary: n)
      (auto simp: cf_fields_def split_pair_def Let_def pred_option_def split: prod.splits option.splits if_splits)
  show "list_all (\<lambda>(i, e). pred_option (\<lambda>k. trim_space k \<noteq> []) e)
     (enumerate n (map Some (filter (\<lambda>k. k \<noteq> []) (map trim_space ks))))"
    by (induction ks arbitrary: n) auto
qed

text \<open>
  C38: Importing the same Cloudflare accounts or CodeBuddy keys a second time changes nothing and stores
  nothing, whatever blank, unusable or repeated entries there are; and the first time every entry is
  counted once, the pool grows by the number of entries reported as new, and no name is in it twice.
\<close>

theorem imports_are_idempotent:
  assumes "HandleImportCFKeyBulk cf_body p = ((200, Some t), p', cs)" and "refs_ok p" and "distinct (cf_names p)"
    and "HandleImportCBKeyBulk cb_body q = ((200, Some u), q', ds)" and "refs_ok q" and "distinct (cb_names q)"
  shows "length (cf_names p') = length (cf_names p) + ta_added t \<and> distinct (cf_names p') \<and>
    length (cb_names q') = length (cb_names q) + ta_added u \<and> distinct (cb_names q') \<and>
    (\<exists>t' u'. HandleImportCFKeyBulk cf_body p' = ((200, Some t'), p', []) \<and> ta_added t' = 0 \<and>
      ta_again t' = ta_added t + ta_again t \<and> ta_failed t' = ta_failed t \<and>
      HandleImportCBKeyBulk cb_body q' = ((200, Some u'), q', []) \<and> ta_added u' = 0 \<and>
      ta_again u' = ta_added u + ta_again u)"
proof -
  obtain ca raw where cf: "cf_body \<bind> unmarshal_cf_bulk = Some (ca, raw)"
    using assms(1) by (auto simp: HandleImportCFKeyBulk_def split: option.splits)
  define es where "es = enumerate 0 (map cf_fields (if ca = [] \<and> trim_space raw \<noteq> [] then raw_cf raw else ca))"
  have cf_run: "HandleImportCFKeyBulk cf_body r =
      (let (t, r', cs) = bulk_loop import_cf es no_tally r in ((200, Some t), r', cs))" for r
    by (simp add: HandleImportCFKeyBulk_def cf es_def Let_def)
  obtain ka kraw where cb: "cb_body \<bind> unmarshal_cb_bulk = Some (ka, kraw)"
    using assms(4) by (auto simp: HandleImportCBKeyBulk_def split: option.splits)
  define ks where "ks = (if ka = [] \<and> kraw \<noteq> [] then raw_parts kraw else ka)"
  have "ks \<noteq> []" using assms(4) by (auto simp: HandleImportCBKeyBulk_def cb ks_def Let_def split: if_splits)
  define fs where "fs = enumerate 0 (map Some (filter (\<lambda>k. k \<noteq> []) (map trim_space ks)))"
  have cb_run: "HandleImportCBKeyBulk cb_body r =
      (let (t, r', cs) = bulk_loop CB_AddKey fs no_tally r in ((200, Some (t\<lparr>ta_total := length (kp_keys r')\<rparr>)), r', cs))" for r
    using \<open>ks \<noteq> []\<close> by (simp add: HandleImportCBKeyBulk_def cb fs_def ks_def [symmetric])
  have l1: "bulk_loop import_cf es no_tally p = (t, p', cs)"
    using assms(1) by (simp add: cf_run split: prod.splits)
  obtain v where l2: "bulk_loop CB_AddKey fs no_tally q = (v, q', ds)" "u = v\<lparr>ta_total := length (kp_keys q')\<rparr>"
    using assms(4) by (auto simp: cb_run split: prod.splits)
  note v1 = entries_valid(1) [of 0 "if ca = [] \<and> trim_space raw \<noteq> [] then raw_cf raw else ca", folded es_def]
  note v2 = entries_valid(2) [of 0 ks, folded fs_def]
  show ?thesis
    using cf_import.loop_accounts [OF l1 assms(2) v1] cf_import.loop_twice [OF l1 assms(2) v1]
      cb_import.loop_accounts [OF l2(1) assms(5) v2] cb_import.loop_twice [OF l2(1) assms(5) v2] assms(3,6)
    by (auto simp: cf_run cb_run no_tally_def l2(2))
qed

text \<open>The same body for a pool of each kind, with a blank entry and a repeated one.\<close>

definition sample_cf_body :: "json option" where
  "sample_cf_body = Some (J_obj [(''raw'', J_str ''a1:t1, a2:t2 a1:t3 :'')])"

definition sample_cb_body :: "json option" where
  "sample_cb_body = Some (J_obj [(''api_keys'', J_arr [J_str ''k1'', J_str [], J_str ''k1'', J_str ''k2''])])"

theorem imports_are_idempotent_witness:
  "length (cf_names (fst (snd (HandleImportCFKeyBulk sample_cf_body (NewCFKeyManager True))))) = 2 \<and>
   length (cb_names (fst (snd (HandleImportCBKeyBulk sample_cb_body (NewCBKeyManager True))))) = 2"
proof -
  have "fst (HandleImportCFKeyBulk sample_cf_body (NewCFKeyManager True)) =
      (200, Some \<lparr>ta_added = 2, ta_again = 1, ta_failed = 1, ta_total = 2, ta_errors = [3]\<rparr>)" by code_simp
  then obtain p' cs where cf: "HandleImportCFKeyBulk sample_cf_body (NewCFKeyManager True) =
      ((200, Some \<lparr>ta_added = 2, ta_again = 1, ta_failed = 1, ta_total = 2, ta_errors = [3]\<rparr>), p', cs)"
    by (metis prod.collapse)
  have "fst (HandleImportCBKeyBulk sample_cb_body (NewCBKeyManager True)) =
      (200, Some \<lparr>ta_added = 2, ta_again = 1, ta_failed = 0, ta_total = 2, ta_errors = []\<rparr>)" by code_simp
  then obtain q' ds where cb: "HandleImportCBKeyBulk sample_cb_body (NewCBKeyManager True) =
      ((200, Some \<lparr>ta_added = 2, ta_again = 1, ta_failed = 0, ta_total = 2, ta_errors = []\<rparr>), q', ds)"
    by (metis prod.collapse)
  have "cf_names (NewCFKeyManager True) = []" "cb_names (NewCBKeyManager True) = []"
    "refs_ok (NewCFKeyManager True)" "refs_ok (NewCBKeyManager True)" by code_simp+
  then show ?thesis using imports_are_idempotent [OF cf _ _ cb] by (simp add: cf cb)
qed

text \<open>
  For the Grok pool a repeated entry updates the account; the counts and the absence of duplicates hold
  for it as well.
\<close>

lemma grok_import_accounts:
  assumes "HandleImportAccountBulk rfc now body p = ((200, Some t), p', cs)" and "refs_in_heap p"
    and "distinct (grok_names p)"
  shows "length (grok_names p') = length (grok_names p) + ta_added t \<and> distinct (grok_names p')"
proof -
  obtain accounts where a: "body \<bind> unmarshal_grok_bulk = Some accounts" "accounts \<noteq> []"
    using assms(1) by (auto simp: HandleImportAccountBulk_def split: option.splits if_splits)
  obtain v where l: "bulk_loop (import_grok rfc now) (enumerate 0 (map grok_fields accounts)) no_tally p = (v, p', cs)"
      "ta_added t = ta_added v"
    using assms(1) a by (auto simp: HandleImportAccountBulk_def split: prod.splits)
  have "list_all (\<lambda>(i, e). pred_option (\<lambda>_. True) e) es" for es :: "(nat \<times> grok_entry option) list"
    by (simp add: list_all_iff pred_option_def)
  from grok_import.loop_accounts [OF l(1) assms(2) this] assms(3) l(2) show ?thesis by (auto simp: no_tally_def)
qed

text \<open>
  Two tokens without an account id are told apart by their first eight bytes only: the second one counts
  as there already and is not taken.
\<close>

lemma tokens_collide:
  "take 8 t1 = take 8 t2 \<Longrightarrow> trim_space t1 = t1 \<Longrightarrow> trim_space t2 = t2 \<Longrightarrow> cf_name ([], t1) = cf_name ([], t2)"
proof -
  have "trim_space [] = []" by code_simp
  moreover have "take (min 8 (length t)) t = take 8 t" for t :: string by (simp add: min_def)
  ultimately show "take 8 t1 = take 8 t2 \<Longrightarrow> trim_space t1 = t1 \<Longrightarrow> trim_space t2 = t2 \<Longrightarrow> ?thesis"
    by (simp add: cf_name_def derived_id_def)
qed

end
