(* ===== verification/Admin.thy ===== *)
theory Admin
  imports CBPool CFPool GrokPool Health Session Decode
begin

text \<open>
  The administration endpoints of \<open>internal/handlers/handlers.go\<close> on the three pools, the gateway keys and
  the sessions: lists, refreshes, deletions, clean-ups, the paged table of Cloudflare accounts, and login.
  A reply is its status with the fields of its body; the clock stands still during a request, and what the
  upstream services answer is an argument.
\<close>

section \<open>Lists\<close>

record grok_row =
  gv_email :: string
  gv_sub :: string
  gv_expires_at :: string
  gv_expires_in :: int
  gv_last_refresh :: string
  gv_disabled :: bool
  gv_disabled_at :: gotime
  gv_token_status :: string

definition grok_row_of :: "gotime \<Rightarrow> grok_account \<Rightarrow> grok_row" where
  "grok_row_of now a =
     \<lparr>gv_email = ga_Email a, gv_sub = ga_Sub a, gv_expires_at = ga_Expired a, gv_expires_in = ga_ExpiresIn a,
      gv_last_refresh = ga_LastRefresh a, gv_disabled = ga_disabled a, gv_disabled_at = ga_disabledAt a,
      gv_token_status = TokenStatus now a\<rparr>"

record cb_row =
  cv_snapshot :: cb_snapshot
  cv_remain :: rat
  cv_meter_synced_at :: "gotime option"
  cv_key :: string
  cv_email :: "string option"
  cv_expires_at :: "gotime option"

text \<open>
  \<open>None\<close> is the panic of slicing an API key of less than eight bytes.
\<close>

definition cb_row_of :: "cb_key \<Rightarrow> cb_row option" where
  "cb_row_of k =
     (let s = CB_Snapshot k;
          remain = (if cs_CreditsRemain s = 0 \<and> cs_MeterSyncedAt s = 0 then cs_CreditLimit s - cs_CreditsUsed s
                    else cs_CreditsRemain s);
          synced = (if cs_MeterSyncedAt s = 0 then None else Some (cs_MeterSyncedAt s))
      in if cs_CredType s = CBAuthOAuth
         then Some \<lparr>cv_snapshot = s, cv_remain = remain, cv_meter_synced_at = synced, cv_key = cs_Email s,
                    cv_email = Some (cs_Email s),
                    cv_expires_at = (if cs_ExpiresAt s = 0 then None else Some (cs_ExpiresAt s))\<rparr>
         else if length (cs_Key s) < 8 then None
         else Some \<lparr>cv_snapshot = s, cv_remain = remain, cv_meter_synced_at = synced,
                    cv_key = take 8 (cs_Key s) @ ''...'' @ drop (length (cs_Key s) - 4) (cs_Key s),
                    cv_email = None, cv_expires_at = None\<rparr>)"

definition HandleAccounts :: "gotime \<Rightarrow> grok_pool \<Rightarrow> cb_pool \<Rightarrow> (grok_row list \<times> cb_row list) option" where
  "HandleAccounts now g c =
     map_option (Pair (map (\<lambda>a. grok_row_of now (account_at g a)) (gp_accounts g)))
       (those (map (\<lambda>a. cb_row_of (key_at c a)) (kp_keys c)))"

text \<open>A gateway key as it is listed, and its usage.\<close>

record key_row =
  kv_masked :: string
  kv_name :: string
  kv_role :: string
  kv_allowed_models :: "string list option"
  kv_rpm :: int
  kv_burst :: int
  kv_token_quota :: int
  kv_tokens_used :: int
  kv_requests :: int
  kv_created_at :: gotime
  kv_disabled :: bool

definition key_row_of :: "key_info \<Rightarrow> key_row" where
  "key_row_of i =
     \<lparr>kv_masked = MaskKey (ki_Key i), kv_name = ki_Name i, kv_role = ki_Role i,
      kv_allowed_models = ki_AllowedModels i, kv_rpm = ki_RPM i, kv_burst = ki_Burst i,
      kv_token_quota = ki_TokenQuota i, kv_tokens_used = ki_TokensUsed i, kv_requests = ki_Requests i,
      kv_created_at = ki_CreatedAt i, kv_disabled = ki_Disabled i\<rparr>"

definition HandleListKeys :: "manager \<Rightarrow> key_row list" where
  "HandleListKeys m = map (\<lambda>(k, i). key_row_of i) m"

text \<open>The row with the tokens left and the share of the quota that is used.\<close>

definition HandleKeyUsage :: "string \<Rightarrow> manager \<Rightarrow> int \<times> (key_row \<times> int \<times> rat) option" where
  "HandleKeyUsage keyParam m =
     (case ResolveKey keyParam m \<bind> map_of m of
        None \<Rightarrow> (404, None)
      | Some i \<Rightarrow>
        (200, Some (key_row_of i,
           if ki_TokenQuota i > 0 then wrap64 (ki_TokenQuota i - ki_TokensUsed i) else -1,
           if ki_TokenQuota i > 0 then of_int (ki_TokensUsed i) / of_int (ki_TokenQuota i) * 100 else 0)))"

section \<open>Health\<close>

record health_reply =
  hl_status :: string
  hl_full :: "(nat \<times> nat \<times> nat \<times> nat \<times> nat) option"

definition overall_status :: "UpstreamHealth list \<Rightarrow> string" where
  "overall_status hs = (if \<exists>h \<in> set hs. CircuitState_String (uh_state h) = ''open'' then ''degraded'' else ''healthy'')"

text \<open>
  Who sees the figures: a bearer token decides alone; else the session cookie. The key need only exist.
\<close>

definition health_authed ::
  "bool \<Rightarrow> manager \<Rightarrow> (string \<Rightarrow> 's \<Rightarrow> string \<times> 's) option \<Rightarrow> http_request \<Rightarrow> 's \<Rightarrow> bool \<times> 's" where
  "health_authed auth_off m sessions req s =
     (if auth_off then (True, s)
      else if has_prefix (rq_authorization req) ''Bearer ''
      then (map_of m (drop 7 (rq_authorization req)) \<noteq> None, s)
      else case rq_cookie req of
             None \<Rightarrow> (False, s)
           | Some ck \<Rightarrow>
             if ck = [] then (False, s)
             else let (key, s') = (case sessions of Some lookup \<Rightarrow> lookup ck s | None \<Rightarrow> (ck, s))
                  in (key \<noteq> [] \<and> map_of m key \<noteq> None, s'))"

definition HandleHealth ::
  "bool \<Rightarrow> manager \<Rightarrow> (string \<Rightarrow> 's \<Rightarrow> string \<times> 's) option \<Rightarrow> http_request \<Rightarrow> UpstreamHealth list \<Rightarrow>
   grok_pool \<Rightarrow> cb_pool \<Rightarrow> cf_pool \<Rightarrow> 's \<Rightarrow> health_reply \<times> 's" where
  "HandleHealth auth_off m sessions req hs g c f s =
     (let (authed, s') = health_authed auth_off m sessions req s in
      (\<lparr>hl_status = overall_status hs,
        hl_full = (if \<not> authed then None
                   else Some (length (gp_accounts g), length (kp_keys c),
                     length (filter (\<lambda>a. \<not> ck_disabled (key_at c a)) (kp_keys c)),
                     length (kp_keys f), length (filter (\<lambda>a. \<not> fk_disabled (key_at f a)) (kp_keys f))))\<rparr>, s'))"

section \<open>Refreshing and syncing\<close>

text \<open>Each account in turn; \<open>reply a\<close> is what the token endpoint answers for the account at \<open>a\<close>.\<close>

fun refresh_each ::
  "(gotime \<Rightarrow> string) \<Rightarrow> gotime \<Rightarrow> (nat \<Rightarrow> token_reply) \<Rightarrow> nat list \<Rightarrow> grok_pool \<Rightarrow>
   (string \<times> string) list \<times> grok_pool \<times> grok_call list" where
  "refresh_each rfc now reply [] p = ([], p, [])"
| "refresh_each rfc now reply (a # rest) p =
     (let (err, p1, cs1) = refreshLocked rfc now (reply a) a p;
          (rs, p2, cs2) = refresh_each rfc now reply rest p1
      in ((ga_Email (account_at p a), if err = None then ''ok'' else ''refresh_failed'') # rs, p2, cs1 @ cs2))"

definition HandleRefresh ::
  "(gotime \<Rightarrow> string) \<Rightarrow> gotime \<Rightarrow> (nat \<Rightarrow> token_reply) \<Rightarrow> grok_pool \<Rightarrow>
   (string \<times> string) list \<times> grok_pool \<times> grok_call list" where
  "HandleRefresh rfc now reply p = refresh_each rfc now reply (gp_accounts p) p"

record sync_row =
  sy_Key :: string
  sy_Used :: rat
  sy_Remain :: rat
  sy_Limit :: rat
  sy_Status :: int
  sy_Error :: "cb_sync_error option"

text \<open>One key: the reply shows what is known of it afterwards, whether the sync worked or not.\<close>

definition sync_key ::
  "gotime \<Rightarrow> cb_token_reply \<Rightarrow> cb_meter_reply \<Rightarrow> nat \<Rightarrow> cb_pool \<Rightarrow> sync_row \<times> cb_pool \<times> cb_call list" where
  "sync_key now tok meter a p =
     (let (err, p', cs) = syncCreditsLocked now tok meter a p; s = CB_Snapshot (key_at p' a) in
      (\<lparr>sy_Key = displayIDLocked (key_at p a), sy_Used = cs_CreditsUsed s, sy_Remain = cs_CreditsRemain s,
        sy_Limit = cs_CreditLimit s, sy_Status = cs_MeterStatus s, sy_Error = err\<rparr>, p', cs))"

fun sync_each ::
  "gotime \<Rightarrow> (nat \<Rightarrow> cb_token_reply) \<Rightarrow> (nat \<Rightarrow> cb_meter_reply) \<Rightarrow> nat list \<Rightarrow> cb_pool \<Rightarrow>
   sync_row list \<times> cb_pool \<times> cb_call list" where
  "sync_each now tok meter [] p = ([], p, [])"
| "sync_each now tok meter (a # rest) p =
     (let (r, p1, cs1) = sync_key now (tok a) (meter a) a p; (rs, p2, cs2) = sync_each now tok meter rest p1
      in (r # rs, p2, cs1 @ cs2))"

text \<open>The body may be missing; its fields are blank then.\<close>

definition sync_target :: "json option \<Rightarrow> string" where
  "sync_target body =
     (let m = (case body \<bind> unmarshal_map of None \<Rightarrow> Map.empty | Some m \<Rightarrow> m);
          key = trim_space (str_field m ''key'')
      in if key = [] then trim_space (str_field m ''email'') else key)"

definition sync_keys :: "string \<Rightarrow> cb_pool \<Rightarrow> nat list option" where
  "sync_keys target p =
     (if target = [] then Some (kp_keys p)
      else let full = CB_ResolveKey target p in
        if full = [] then None
        else map_option (\<lambda>a. [a]) (find (\<lambda>a. ck_Key (key_at p a) = full) (kp_keys p)))"

text \<open>The reply counts the syncs that worked and those that failed.\<close>

definition HandleSyncCBCredits ::
  "gotime \<Rightarrow> (nat \<Rightarrow> cb_token_reply) \<Rightarrow> (nat \<Rightarrow> cb_meter_reply) \<Rightarrow> json option \<Rightarrow> cb_pool \<Rightarrow>
   (int \<times> (nat \<times> nat \<times> sync_row list) option) \<times> cb_pool \<times> cb_call list" where
  "HandleSyncCBCredits now tok meter body p =
     (case sync_keys (sync_target body) p of
        None \<Rightarrow> ((404, None), p, [])
      | Some keys \<Rightarrow>
        (let (rs, p', cs) = sync_each now tok meter keys p
         in ((200, Some (length (filter (\<lambda>r. sy_Error r = None) rs), length (filter (\<lambda>r. sy_Error r \<noteq> None) rs), rs)),
             p', cs)))"

section \<open>Deleting and cleaning up\<close>

definition HandleDeleteAccount :: "string \<Rightarrow> grok_pool \<Rightarrow> (int \<times> nat option) \<times> grok_pool \<times> grok_call list" where
  "HandleDeleteAccount email p =
     (if email = [] then ((400, None), p, [])
      else let (found, p', cs) = DeleteAccount email p in
        if found then ((200, Some (length (gp_accounts p'))), p', cs) else ((404, None), p', cs))"

definition HandleDeleteCBKey :: "string \<Rightarrow> cb_pool \<Rightarrow> (int \<times> nat option) \<times> cb_pool \<times> cb_call list" where
  "HandleDeleteCBKey keyParam p =
     (if keyParam = [] then ((400, None), p, [])
      else let fullKey = CB_ResolveKey keyParam p in
        if fullKey = [] then ((404, None), p, [])
        else let (found, p', cs) = CB_DeleteKey fullKey p in
          if found then ((200, Some (length (kp_keys p'))), p', cs) else ((404, None), p', cs))"

definition HandleDeleteCFKey :: "string \<Rightarrow> cf_pool \<Rightarrow> int \<times> cf_pool \<times> cf_call list" where
  "HandleDeleteCFKey accountID p =
     (if accountID = [] then (400, p, [])
      else let (found, p', cs) = CF_DeleteKey accountID p in (if found then 200 else 404, p', cs))"

record pools =
  pl_grok :: grok_pool
  pl_cb :: cb_pool
  pl_cf :: cf_pool

record pool_calls =
  pc_grok :: "grok_call list"
  pc_cb :: "cb_call list"
  pc_cf :: "cf_call list"

text \<open>For each pool that is named, how many were removed and how many remain.\<close>

definition HandleCleanupDisabled ::
  "string \<Rightarrow> pools \<Rightarrow> ((nat \<times> nat) option \<times> (nat \<times> nat) option \<times> (nat \<times> nat) option) \<times> pools \<times> pool_calls" where
  "HandleCleanupDisabled typ s =
     (let (gr, g, gcs) = (if typ = ''grok'' \<or> typ = ''all''
            then (let (n, g, cs) = Grok_CleanupDisabled (pl_grok s) in (Some (n, length (gp_accounts g)), g, cs))
            else (None, pl_grok s, []));
          (cr, c, ccs) = (if typ = ''cb'' \<or> typ = ''all''
            then (let (n, c, cs) = CB_CleanupDisabled (pl_cb s) in (Some (n, length (kp_keys c)), c, cs))
            else (None, pl_cb s, []));
          (fr, f, fcs) = (if typ = ''cf'' \<or> typ = ''all''
            then (let (n, f, cs) = CF_CleanupDisabled (pl_cf s) in (Some (n, length (kp_keys f)), f, cs))
            else (None, pl_cf s, []))
      in ((gr, cr, fr), \<lparr>pl_grok = g, pl_cb = c, pl_cf = f\<rparr>, \<lparr>pc_grok = gcs, pc_cb = ccs, pc_cf = fcs\<rparr>))"

definition HandleCleanupBanned :: "string \<Rightarrow> grok_pool \<Rightarrow> (nat \<times> nat) option \<times> grok_pool \<times> grok_call list" where
  "HandleCleanupBanned typ g =
     (if typ = ''grok'' \<or> typ = ''all''
      then let (n, g', cs) = CleanupBanned g in (Some (n, length (gp_accounts g')), g', cs)
      else (None, g, []))"

section \<open>The table of Cloudflare accounts\<close>

record cf_summary =
  sm_total :: nat
  sm_active :: nat
  sm_disabled :: nat
  sm_used :: rat
  sm_requests :: int

definition cf_summary_of :: "cf_snapshot list \<Rightarrow> cf_summary" where
  "cf_summary_of ss =
     \<lparr>sm_total = length ss, sm_active = length (filter (\<lambda>s. \<not> fs_Disabled s) ss),
      sm_disabled = length (filter fs_Disabled ss), sm_used = sum_list (map fs_QuotaUsed ss),
      sm_requests = wrap64 (sum_list (map fs_TotalReqs ss))\<rparr>"

definition page_limit :: "string \<Rightarrow> nat" where
  "page_limit v =
     (case parse_int64 v of None \<Rightarrow> 50 | Some n \<Rightarrow> if n > 0 then (if n > 500 then 500 else nat n) else 50)"

definition page_offset :: "string \<Rightarrow> nat" where
  "page_offset v = (case parse_int64 v of None \<Rightarrow> 0 | Some n \<Rightarrow> if n > 0 then nat n else 0)"

text \<open>The filters by status and by a part of the account id.\<close>

definition wanted :: "string \<Rightarrow> string \<Rightarrow> cf_snapshot \<Rightarrow> bool" where
  "wanted q status s \<longleftrightarrow>
     \<not> (status = ''active'' \<and> fs_Disabled s) \<and> \<not> (status = ''disabled'' \<and> \<not> fs_Disabled s) \<and>
     \<not> (q \<noteq> [] \<and> \<not> str_contains (to_lower (fs_AccountID s)) q)"

text \<open>One account of the loop: the rows of the page so far, and the count of matches.\<close>

definition page_step ::
  "string \<Rightarrow> string \<Rightarrow> nat \<Rightarrow> nat \<Rightarrow> cf_snapshot \<Rightarrow> cf_snapshot list \<times> nat \<Rightarrow> cf_snapshot list \<times> nat" where
  "page_step q status offset limit s = (\<lambda>(rows, matched).
     if \<not> wanted q status s then (rows, matched)
     else if matched < offset then (rows, matched + 1)
     else if length rows \<ge> limit then (rows, matched + 1)
     else
       let tok = fs_Token s;
           tok' = (if length tok > 12 then take 6 tok @ ''...'' @ drop (length tok - 4) tok else tok)
       in (rows @ [s\<lparr>fs_Token := tok'\<rparr>], matched + 1))"

record cf_page =
  pg_accounts :: "cf_snapshot list"
  pg_offset :: nat
  pg_limit :: nat
  pg_matched :: nat

definition cf_page_of :: "string \<Rightarrow> string \<Rightarrow> nat \<Rightarrow> nat \<Rightarrow> cf_snapshot list \<Rightarrow> cf_page" where
  "cf_page_of q status offset limit ss =
     (let (rows, counted) = fold (page_step q status offset limit) ss ([], 0);
          matched = (if counted \<le> offset + length rows \<and> (q \<noteq> [] \<or> status \<noteq> []) then length (filter (wanted q status) ss)
                     else if q = [] \<and> status = [] then length ss
                     else counted)
      in \<lparr>pg_accounts = rows, pg_offset = offset, pg_limit = limit, pg_matched = matched\<rparr>)"

text \<open>\<open>query\<close> is the parameters of the request, blank where there are none.\<close>

definition HandleCFStats :: "(string \<Rightarrow> string) \<Rightarrow> cf_pool \<Rightarrow> cf_summary \<times> cf_page option" where
  "HandleCFStats query p =
     (let ss = map (\<lambda>a. CF_Snapshot (key_at p a)) (kp_keys p) in
      (cf_summary_of ss,
       if query ''detail'' = ''1'' \<or> query ''detail'' = ''true''
       then Some (cf_page_of (to_lower (trim_space (query ''q''))) (to_lower (trim_space (query ''status'')))
              (page_offset (query ''offset'')) (page_limit (query ''limit'')) ss)
       else None))"

section \<open>Login and logout\<close>

datatype login_reply = Login_page | Login_error string | Login_redirect string bool

text \<open>
  A \<open>GET\<close> shows the page. \<open>form\<close> is the key in a posted form, \<open>None\<close> if there is none; \<open>redis\<close>, \<open>random\<close>
  and \<open>now\<close> are as for the creation of a session; a success carries the cookie's token and whether the
  cookie is for secure connections only.
\<close>

definition HandleLogin ::
  "bool option \<Rightarrow> string option \<Rightarrow> gotime \<Rightarrow> bool \<Rightarrow> bool \<Rightarrow> string option \<Rightarrow> manager \<Rightarrow> session_map \<Rightarrow>
   login_reply \<times> session_map \<times> session_cmd list" where
  "HandleLogin redis random now secure get form m s =
     (if get then (Login_page, s, [])
      else case form of
        None \<Rightarrow> (Login_error ''Key is required'', s, [])
      | Some key0 \<Rightarrow>
        if key0 = [] then (Login_error ''Key is required'', s, [])
        else
          let key = trim_space key0 in
          if \<not> Valid key m then (Login_error ''Invalid API key'', s, [])
          else if (case map_of m key of None \<Rightarrow> True | Some info \<Rightarrow> ki_Role info \<noteq> RoleAdmin)
          then (Login_error ''This key does not have dashboard access (admin role required)'', s, [])
          else case Session_Create redis random now key s of
                 (None, s', cs) \<Rightarrow> (Login_error ''Session error'', s', cs)
               | (Some token, s', cs) \<Rightarrow> (Login_redirect token secure, s', cs))"

definition HandleLogout :: "bool \<Rightarrow> string option \<Rightarrow> session_map \<Rightarrow> session_map \<times> session_cmd list" where
  "HandleLogout has_redis cookie s = Session_Revoke has_redis (case cookie of None \<Rightarrow> [] | Some t \<Rightarrow> t) s"

section \<open>What holds\<close>

text \<open>The rows of a page are those of a slice of the matching accounts, with their tokens shortened.\<close>

definition shown :: "cf_snapshot \<Rightarrow> cf_snapshot" where
  "shown s = s\<lparr>fs_Token := (let tok = fs_Token s in
     if length tok > 12 then take 6 tok @ ''...'' @ drop (length tok - 4) tok else tok)\<rparr>"

lemma page_step_shown:
  "page_step q status offset limit s (rows, matched) =
     (if \<not> wanted q status s then (rows, matched)
      else if matched < offset \<or> limit \<le> length rows then (rows, matched + 1)
      else (rows @ [shown s], matched + 1))"
  by (simp add: page_step_def shown_def Let_def)

lemma page_loop:
  "fold (page_step q status offset limit) ss (rows, matched) =
     (rows @ map shown (take (limit - length rows) (drop (offset - matched) (filter (wanted q status) ss))),
      matched + length (filter (wanted q status) ss))"
  if "length rows \<le> limit" "rows = [] \<or> offset \<le> matched"
  using that
proof (induction ss arbitrary: rows matched)
  case (Cons s ss)
  show ?case
  proof (cases "wanted q status s \<and> offset \<le> matched \<and> length rows < limit")
    case True
    then have "limit - length rows = Suc (limit - Suc (length rows))" by arith
    with True show ?thesis using Cons.prems Cons.IH [of "rows @ [shown s]" "matched + 1"]
      by (simp add: page_step_shown)
  next
    case False
    then show ?thesis using Cons.prems Cons.IH [of rows "matched + 1"] Cons.IH [of rows matched]
      by (cases "wanted q status s"; cases "matched < offset")
        (auto simp: page_step_shown not_less Suc_diff_Suc [symmetric])
  qed
qed simp

text \<open>
  C39: The paged table of Cloudflare accounts is the reference slice: the accounts that pass the filters, in
  the order of the pool, without the first \<open>offset\<close> and at most \<open>limit\<close> of them, at most five hundred; and
  the count of matches is that of all accounts that pass, whichever of its three ways computes it.
\<close>

theorem cf_page_is_slice:
  "cf_page_of q status offset limit ss =
     \<lparr>pg_accounts = map shown (take limit (drop offset (filter (wanted q status) ss))), pg_offset = offset,
      pg_limit = limit, pg_matched = length (filter (wanted q status) ss)\<rparr> \<and> page_limit v \<le> 500"
proof -
  have "filter (wanted [] []) ss = ss" by (simp add: wanted_def)
  then have "q = [] \<and> status = [] \<Longrightarrow> length (filter (wanted q status) ss) = length ss" by simp
  moreover have "page_limit v \<le> 500" by (auto simp: page_limit_def split: option.split)
  ultimately show ?thesis by (simp add: cf_page_of_def page_loop Let_def)
qed

text \<open>
  C40: What a login is worth. It succeeds with the enabled administration keys and no others (the
  empty key not being registered). Without Redis its cookie alone then passes both access middlewares
  on every path that is not public, with that key, until the session expires, and a login that fails
  leaves the sessions as they were. With Redis, which \<open>main.go\<close> passes to the session store, the
  cookie of a login that succeeded never passes, whatever Redis answers.
\<close>

theorem login_opens_administration:
  fixes u :: unit
  assumes "HandleLogin redis (Some token) now secure False (Some key) m s = (reply, s', cs)" and "token \<noteq> []"
    and "map_of m [] = None" and "time_sub later now \<le> SessionIdleTTL"
    and "rq_path req \<notin> set public_paths" and "\<not> has_prefix (rq_authorization req) ''Bearer ''"
    and "rq_cookie req = Some token"
  shows "(reply = Login_redirect token secure \<longleftrightarrow>
      key \<noteq> [] \<and> (\<exists>info. map_of m (trim_space key) = Some info \<and> \<not> ki_Disabled info \<and> ki_Role info = RoleAdmin)) \<and>
    (case redis of
       None \<Rightarrow>
         if reply = Login_redirect token secure
         then fst (AuthMiddleware False m (Some (local_lookup later)) req s') = Go_next (Some (trim_space key)) \<and>
              AdminMiddleware False m (Some (trim_space key)) = Go_next (Some (trim_space key))
         else s' = s
     | Some set_failed \<Rightarrow>
         fst (AuthMiddleware False m
           (Some (\<lambda>token u. (fst (redis_lookup tok rest later got token), u))) req u) \<noteq> Go_next ck)"
proof -
  define admin where "admin \<longleftrightarrow> key \<noteq> [] \<and>
    (\<exists>info. map_of m (trim_space key) = Some info \<and> \<not> ki_Disabled info \<and> ki_Role info = RoleAdmin)"
  let ?sess = "\<lparr>se_key = trim_space key, se_createdAt = now, se_lastSeen = now\<rparr>"
  have r: "admin \<longleftrightarrow> reply = Login_redirect token secure"
    using assms(1)
    by (auto simp: admin_def HandleLogin_def Session_Create_def Valid_def Let_def split: if_splits option.splits)
  have "if admin then fst (AuthMiddleware False m (Some (local_lookup later)) req s') = Go_next (Some (trim_space key)) \<and>
      AdminMiddleware False m (Some (trim_space key)) = Go_next (Some (trim_space key)) else s' = s" if "redis = None"
  proof -
    have s': "s' = (if admin then s(token \<mapsto> ?sess) else s)"
      using assms(1) that
      by (auto simp: admin_def HandleLogin_def Session_Create_def Valid_def Let_def split: if_splits option.splits)
    show ?thesis
    proof (cases admin)
      case True
      then have "fst (request_key (Some (local_lookup later)) req s') = trim_space key"
        using assms(2,4,6,7) by (simp add: s' request_key_def local_lookup_def)
      moreover have "trim_space key \<noteq> []" using True assms(3) by (auto simp: admin_def)
      ultimately show ?thesis using True assms(5)
        by (auto simp: AuthMiddleware_next admin_def Valid_def AdminMiddleware_def)
    qed (use s' in simp)
  qed
  moreover have "fst (AuthMiddleware False m
      (Some (\<lambda>token u. (fst (redis_lookup tok rest later got token), u))) req u) \<noteq> Go_next ck"
    using redis_sessions.cookie_pass [OF assms(5,6), of m tok rest "(later, got)" u ck] by auto
  ultimately show ?thesis using r unfolding admin_def by (cases redis) auto
qed

text \<open>An administrator's login at time 0 and a request a minute later, without Redis and with it.\<close>

theorem login_opens_administration_witness:
  "fst (AuthMiddleware False [(''gw-1'', bootstrap_info 0 ''gw-1'')] (Some (local_lookup minute))
     \<lparr>rq_path = ''/api/keys'', rq_authorization = [], rq_cookie = Some ''t'', rq_accept = []\<rparr>
     (fst (snd (HandleLogin None (Some ''t'') 0 True False (Some ''gw-1'') [(''gw-1'', bootstrap_info 0 ''gw-1'')] Map.empty)))) =
   Go_next (Some ''gw-1'') \<and>
   fst (HandleLogin (Some False) (Some ''t'') 0 True False (Some ''gw-1'') [(''gw-1'', bootstrap_info 0 ''gw-1'')] Map.empty) =
   Login_redirect ''t'' True"
proof -
  let ?m = "[(''gw-1'', bootstrap_info 0 ''gw-1'')]"
  let ?req = "\<lparr>rq_path = ''/api/keys'', rq_authorization = [], rq_cookie = Some ''t'', rq_accept = []\<rparr>"
  obtain reply s' cs where l: "HandleLogin None (Some ''t'') 0 True False (Some ''gw-1'') ?m Map.empty = (reply, s', cs)"
    by (metis prod.collapse)
  obtain reply2 s2 cs2 where l2:
    "HandleLogin (Some False) (Some ''t'') 0 True False (Some ''gw-1'') ?m Map.empty = (reply2, s2, cs2)"
    by (metis prod.collapse)
  have t: "trim_space ''gw-1'' = ''gw-1''" by code_simp
  have p: "''/api/keys'' \<notin> set public_paths" "\<not> has_prefix [] ''Bearer ''" "time_sub minute 0 \<le> SessionIdleTTL" by code_simp+
  have "reply = Login_redirect ''t'' True" "reply2 = Login_redirect ''t'' True"
    using login_opens_administration [OF l, of minute ?req] login_opens_administration [OF l2, of minute ?req] p
    by (simp_all add: t bootstrap_info_def)
  with login_opens_administration [OF l, of minute ?req] p show ?thesis by (simp add: l l2 t)
qed

section \<open>What does not hold\<close>

text \<open>One stored API key of less than eight bytes makes the list of accounts panic.\<close>

lemma short_key_breaks_accounts:
  assumes "a \<in> set (kp_keys c)" and "GetCredType (key_at c a) \<noteq> CBAuthOAuth" and "length (ck_Key (key_at c a)) < 8"
  shows "HandleAccounts now g c = None"
proof -
  have "cb_row_of (key_at c a) = None"
    using assms(2,3) by (simp add: cb_row_of_def CB_Snapshot_def GetCredType_def Let_def)
  then have "a \<in> set xs \<Longrightarrow> those (map (\<lambda>a. cb_row_of (key_at c a)) xs) = None" for xs
    by (induction xs) (auto split: option.split)
  with assms(1) have "those (map (\<lambda>a. cb_row_of (key_at c a)) (kp_keys c)) = None" by simp
  then show ?thesis by (simp add: HandleAccounts_def)
qed

text \<open>And such a key can be imported.\<close>

lemma short_key_imported: "fst (fst (CB_AddKey ''ck_1'' (NewCBKeyManager True)))"
  by code_simp

text \<open>A disabled key still sees all figures of the health page.\<close>

lemma disabled_key_sees_health:
  "map_of m key = Some info \<Longrightarrow> fst (health_authed False m sl
     \<lparr>rq_path = ''/health'', rq_authorization = ''Bearer '' @ key, rq_cookie = None, rq_accept = []\<rparr> s)"
  by (simp add: health_authed_def has_prefix_def)

end
