(* ===== verification/Stored.thy ===== *)
theory Stored
  imports ProxyPool Decode Db "HOL-Library.AList" "HOL-Library.Multiset"
begin

text \<open>
  The proxy pool in Redis: \<open>SaveProxy\<close>, \<open>LoadProxies\<close> and their companions of \<open>internal/db/db.go\<close>, below the
  operations of \<open>ProxyPool\<close>, which only return the calls they make. A hash is its list of fields; the
  rendering of values by the Redis client, the text of JSON arrays and which keys a scan finds are
  arguments.
\<close>

section \<open>Redis\<close>

record redis_db =
  rd_hashes :: "string \<Rightarrow> (string \<times> string) list"
  rd_enabled :: "string \<Rightarrow> bool"

definition empty_redis :: redis_db where
  "empty_redis = \<lparr>rd_hashes = (\<lambda>_. []), rd_enabled = (\<lambda>_. False)\<rparr>"

definition hset :: "(redis_value \<Rightarrow> string) \<Rightarrow> string \<Rightarrow> (string \<times> redis_value) list \<Rightarrow> redis_db \<Rightarrow> redis_db" where
  "hset enc key fvs r =
     r\<lparr>rd_hashes := (rd_hashes r)(key := fold (\<lambda>(f, v). AList.update f (enc v)) fvs (rd_hashes r key))\<rparr>"

definition RK_PROXY :: string where "RK_PROXY = ''fr:proxy:''"
definition RK_PROXY_ENABLED :: string where "RK_PROXY_ENABLED = ''fr:proxy:enabled''"
definition RK_PROXY_RR :: string where "RK_PROXY_RR = ''fr:proxy:rr''"

section \<open>Writing\<close>

definition upstreams_text :: "(json \<Rightarrow> string) \<Rightarrow> string list \<Rightarrow> string" where
  "upstreams_text marshal us = (if us = [] then ''[]'' else marshal (J_arr (map J_str us)))"

definition proxy_fields :: "(json \<Rightarrow> string) \<Rightarrow> proxy_dto \<Rightarrow> (string \<times> redis_value) list" where
  "proxy_fields marshal d =
     [(''id'', RStr (pd_id d)), (''protocol'', RStr (pd_protocol d)), (''host'', RStr (pd_host d)),
      (''port'', RInt (pd_port d)), (''username'', RStr (pd_username d)), (''password'', RStr (pd_password d)),
      (''enabled'', RBool (pd_enabled d)), (''label'', RStr (pd_label d)),
      (''upstreams'', RStr (upstreams_text marshal (elems (pd_upstreams d)))),
      (''created_at'', RInt (unix_seconds (pd_created_at d))),
      (''last_used_at'', RInt (unix_seconds (pd_last_used_at d))), (''fail_count'', RInt (pd_fail_count d))]"

text \<open>
  Whether it worked; \<open>hset_ok\<close> and \<open>set_ok\<close> say whether Redis takes the hash and the membership, the
  latter failing without an error.
\<close>

definition SaveProxy ::
  "(redis_value \<Rightarrow> string) \<Rightarrow> (json \<Rightarrow> string) \<Rightarrow> bool \<Rightarrow> bool \<Rightarrow> proxy_dto \<Rightarrow> redis_db \<Rightarrow> bool \<times> redis_db" where
  "SaveProxy enc marshal hset_ok set_ok d r =
     (if pd_id d = [] then (False, r)
      else if \<not> hset_ok then (False, r)
      else
        let r1 = hset enc (RK_PROXY @ pd_id d) (proxy_fields marshal d) r
        in (True, if set_ok then r1\<lparr>rd_enabled := (rd_enabled r1)(pd_id d := pd_enabled d)\<rparr> else r1))"

definition UpdateProxyLastUsed :: "(redis_value \<Rightarrow> string) \<Rightarrow> bool \<Rightarrow> string \<Rightarrow> gotime \<Rightarrow> redis_db \<Rightarrow> redis_db" where
  "UpdateProxyLastUsed enc ok i ts r =
     (if i = [] \<or> \<not> ok then r else hset enc (RK_PROXY @ i) [(''last_used_at'', RInt (unix_seconds ts))] r)"

definition UpdateProxyFailCount :: "(redis_value \<Rightarrow> string) \<Rightarrow> bool \<Rightarrow> string \<Rightarrow> int \<Rightarrow> redis_db \<Rightarrow> redis_db" where
  "UpdateProxyFailCount enc ok i n r =
     (if i = [] \<or> \<not> ok then r else hset enc (RK_PROXY @ i) [(''fail_count'', RInt n)] r)"

definition DeleteProxy :: "bool \<Rightarrow> bool \<Rightarrow> string \<Rightarrow> redis_db \<Rightarrow> bool \<times> redis_db" where
  "DeleteProxy del_ok set_ok i r =
     (if i = [] then (False, r)
      else if \<not> del_ok then (False, r)
      else
        let r1 = r\<lparr>rd_hashes := (rd_hashes r)(RK_PROXY @ i := [])\<rparr>
        in (True, if set_ok then r1\<lparr>rd_enabled := (rd_enabled r1)(i := False)\<rparr> else r1))"

section \<open>Reading\<close>

definition upstreams_field :: "(string \<Rightarrow> json option) \<Rightarrow> (string \<Rightarrow> string option) \<Rightarrow> string list option" where
  "upstreams_field unmarshal vals =
     (case vals ''upstreams'' of
        None \<Rightarrow> None
      | Some raw \<Rightarrow>
        if raw = [] \<or> raw = ''null'' then None
        else unmarshal raw \<bind> unmarshal_slice unmarshal_string)"

definition int_field :: "(string \<Rightarrow> string option) \<Rightarrow> string \<Rightarrow> int" where
  "int_field vals f = (case parse_int64 (hash_field vals f) of None \<Rightarrow> 0 | Some v \<Rightarrow> v)"

definition load_proxy :: "(string \<Rightarrow> json option) \<Rightarrow> bool \<Rightarrow> string \<Rightarrow> (string \<Rightarrow> string option) \<Rightarrow> proxy_dto" where
  "load_proxy unmarshal enabled i vals =
     \<lparr>pd_id = i, pd_protocol = hash_field vals ''protocol'', pd_host = hash_field vals ''host'',
      pd_port = int_field vals ''port'', pd_username = hash_field vals ''username'',
      pd_password = hash_field vals ''password'', pd_enabled = enabled, pd_label = hash_field vals ''label'',
      pd_upstreams = upstreams_field unmarshal vals, pd_created_at = time_field vals ''created_at'',
      pd_last_used_at = time_field vals ''last_used_at'', pd_fail_count = int_field vals ''fail_count''\<rparr>"

text \<open>
  \<open>scan\<close> lists the keys found under the prefix, \<open>members_ok\<close> says whether the set of enabled ids could be
  read; when it could not it counts as empty.
\<close>

definition LoadProxies :: "(string \<Rightarrow> json option) \<Rightarrow> bool \<Rightarrow> string list \<Rightarrow> redis_db \<Rightarrow> proxy_dto list" where
  "LoadProxies unmarshal members_ok scan r =
     concat (map (\<lambda>rk.
       if rk = RK_PROXY_ENABLED \<or> rk = RK_PROXY_RR then []
       else
         let i = trim_prefix rk RK_PROXY; vals = rd_hashes r rk in
         if vals = [] then []
         else [load_proxy unmarshal (members_ok \<and> rd_enabled r i) i (map_of vals)]) scan)"

section \<open>The pool above it\<close>

fun apply_store_call :: "(redis_value \<Rightarrow> string) \<Rightarrow> (json \<Rightarrow> string) \<Rightarrow> store_call \<Rightarrow> redis_db \<Rightarrow> redis_db" where
  "apply_store_call enc marshal (Save_proxy d) r = snd (SaveProxy enc marshal True True d r)"
| "apply_store_call enc marshal (Delete_proxy i) r = snd (DeleteProxy True True i r)"
| "apply_store_call enc marshal (Update_fail_count i n) r = UpdateProxyFailCount enc True i n r"
| "apply_store_call enc marshal (Update_last_used i t) r = UpdateProxyLastUsed enc True i t r"

text \<open>The calls of a step, and a step with its calls carried out in order.\<close>

fun op_calls :: "pool_op \<Rightarrow> proxy_pool \<Rightarrow> store_call list" where
  "op_calls (Op_load l) p = []"
| "op_calls (Op_add st newid now e) p = snd (snd (ProxyPool_Add st newid now e p))"
| "op_calls (Op_update st i inp) p = snd (snd (ProxyPool_Update st i inp p))"
| "op_calls (Op_delete st i) p = snd (snd (ProxyPool_Delete st i p))"
| "op_calls (Op_toggle st i) p = snd (snd (ProxyPool_Toggle st i p))"
| "op_calls (Op_next reply now u) p = snd (snd (ProxyPool_Next reply now u p))"
| "op_calls (Op_failed st i) p = snd (ProxyPool_MarkFailed st i p)"
| "op_calls (Op_success st i) p = snd (ProxyPool_MarkSuccess st i p)"
| "op_calls (Op_transport env e) p = []"

definition stored_step ::
  "(redis_value \<Rightarrow> string) \<Rightarrow> (json \<Rightarrow> string) \<Rightarrow> pool_op \<Rightarrow> proxy_pool \<times> redis_db \<Rightarrow> proxy_pool \<times> redis_db" where
  "stored_step enc marshal x = (\<lambda>(p, r). (pool_step x p, fold (apply_store_call enc marshal) (op_calls x p) r))"

text \<open>An operation on a store that works, and the ids it makes.\<close>

fun store_works :: "pool_op \<Rightarrow> bool" where
  "store_works (Op_load l) \<longleftrightarrow> False"
| "store_works (Op_add st newid now e) \<longleftrightarrow> st = Store_ok"
| "store_works (Op_update st i inp) \<longleftrightarrow> st = Store_ok"
| "store_works (Op_delete st i) \<longleftrightarrow> st = Store_ok"
| "store_works (Op_toggle st i) \<longleftrightarrow> st = Store_ok"
| "store_works (Op_next reply now u) \<longleftrightarrow> True"
| "store_works (Op_failed st i) \<longleftrightarrow> st = Store_ok"
| "store_works (Op_success st i) \<longleftrightarrow> st = Store_ok"
| "store_works (Op_transport env e) \<longleftrightarrow> True"

fun new_id :: "pool_op \<Rightarrow> string list" where
  "new_id (Op_add st (Some i) now e) = [i]"
| "new_id _ = []"

section \<open>Redis mirrors the pool\<close>

text \<open>
  What is kept in Redis of an entry: its fields but the time of its last use, which the pool itself never
  learns, and its membership. A pool is mirrored if that holds for each entry, ids are distinct, and there
  are no other hashes.
\<close>

definition kept_of :: "(redis_value \<Rightarrow> string) \<Rightarrow> (json \<Rightarrow> string) \<Rightarrow> redis_db \<Rightarrow> proxy_entry \<Rightarrow> bool" where
  "kept_of enc marshal r e \<longleftrightarrow>
     pe_id e \<noteq> [] \<and> rd_enabled r (pe_id e) = pe_enabled e \<and>
     (\<forall>(f, v) \<in> set (proxy_fields marshal (entryToDTO e)). f \<noteq> ''last_used_at'' \<longrightarrow>
        map_of (rd_hashes r (RK_PROXY @ pe_id e)) f = Some (enc v))"

definition mirrored :: "(redis_value \<Rightarrow> string) \<Rightarrow> (json \<Rightarrow> string) \<Rightarrow> proxy_entry list \<Rightarrow> redis_db \<Rightarrow> bool" where
  "mirrored enc marshal es r \<longleftrightarrow>
     (\<forall>e \<in> set es. kept_of enc marshal r e) \<and> distinct (map pe_id es) \<and>
     (\<forall>k. rd_hashes r k \<noteq> [] \<longrightarrow> k \<in> (@) RK_PROXY ` set (map pe_id es))"

lemma hset_simps [simp]:
  "k \<noteq> key \<Longrightarrow> rd_hashes (hset enc key fvs r) k = rd_hashes r k" "rd_enabled (hset enc key fvs r) = rd_enabled r"
  by (simp_all add: hset_def)

lemma map_of_hset:
  "map_of (rd_hashes (hset enc key fvs r) key) = map_of (rd_hashes r key) ++ map_of (rev (map (map_prod id enc) fvs))"
proof -
  have "map_of (fold (\<lambda>(f, v). AList.update f (enc v)) fvs h) = map_of h ++ map_of (rev (map (map_prod id enc) fvs))" for h
    by (induction fvs arbitrary: h) (auto simp: update_conv' map_add_upd_left simp del: fun_upd_apply)
  then show ?thesis by (simp add: hset_def)
qed

lemma saved_fields:
  "map_of (rd_hashes (hset enc key (proxy_fields marshal d) r) key) =
     map_of (rd_hashes r key) ++ stored enc (proxy_fields marshal d)"
  by (simp add: map_of_hset stored_def proxy_fields_def fun_eq_iff map_add_def)

lemma kept_after_save: "pe_id e \<noteq> [] \<Longrightarrow> kept_of enc marshal (snd (SaveProxy enc marshal True True (entryToDTO e) r)) e"
  by (simp add: kept_of_def SaveProxy_def entryToDTO_def Let_def saved_fields)
    (simp add: proxy_fields_def stored_def)

lemma kept_frame:
  assumes "kept_of enc marshal r e" and "rd_hashes r' (RK_PROXY @ pe_id e) = rd_hashes r (RK_PROXY @ pe_id e)"
    and "rd_enabled r' (pe_id e) = rd_enabled r (pe_id e)"
  shows "kept_of enc marshal r' e"
  using assms by (simp add: kept_of_def)

lemma save_frame:
  "i \<noteq> pd_id d \<Longrightarrow> rd_hashes (snd (SaveProxy enc marshal True True d r)) (RK_PROXY @ i) = rd_hashes r (RK_PROXY @ i)"
  "i \<noteq> pd_id d \<Longrightarrow> rd_enabled (snd (SaveProxy enc marshal True True d r)) i = rd_enabled r i"
  "rd_hashes (snd (SaveProxy enc marshal True True d r)) k \<noteq> [] \<Longrightarrow> rd_hashes r k \<noteq> [] \<or> k = RK_PROXY @ pd_id d"
  by (auto simp: SaveProxy_def Let_def hset_def split: if_splits)

lemma mirrored_kept: "mirrored enc marshal es r \<Longrightarrow> e \<in> set es \<Longrightarrow> kept_of enc marshal r e"
  by (simp add: mirrored_def)

lemma mirrored_id: "mirrored enc marshal es r \<Longrightarrow> e \<in> set es \<Longrightarrow> pe_id e \<noteq> []"
  by (simp add: mirrored_def kept_of_def)

lemma ids_after_update: "j < length es \<Longrightarrow> pe_id v = pe_id (es ! j) \<Longrightarrow> map pe_id (es[j := v]) = map pe_id es"
  by (simp add: map_update list_update_same_conv)

text \<open>A write that concerns one entry only.\<close>

lemma mirrored_update:
  assumes m: "mirrored enc marshal es r" and j: "j < length es" and v: "pe_id v = pe_id (es ! j)"
    and kept: "kept_of enc marshal r' v"
    and frame: "\<And>i. i \<noteq> pe_id v \<Longrightarrow> rd_hashes r' (RK_PROXY @ i) = rd_hashes r (RK_PROXY @ i) \<and> rd_enabled r' i = rd_enabled r i"
    and keys: "\<And>k. rd_hashes r' k \<noteq> [] \<Longrightarrow> rd_hashes r k \<noteq> [] \<or> k = RK_PROXY @ pe_id v"
  shows "mirrored enc marshal (es[j := v]) r'"
proof -
  note ids = ids_after_update [OF j v]
  have mem: "pe_id v \<in> set (map pe_id es)" using j v by simp
  have "kept_of enc marshal r' e" if mem: "e \<in> set (es[j := v])" for e
  proof (cases "e = v")
    case True
    then show ?thesis using kept by simp
  next
    case False
    obtain l where at: "l < length es" "e = es[j := v] ! l" using mem by (auto simp: in_set_conv_nth)
    then have "l \<noteq> j" using False by auto
    with at have l: "l < length es" "l \<noteq> j" "e = es ! l" by simp_all
    have "distinct (map pe_id es)" using m by (simp add: mirrored_def)
    from nth_eq_iff_index_eq [OF this, of l j] have "pe_id (es ! l) \<noteq> pe_id (es ! j)" using l(1,2) j by simp
    then have "pe_id e \<noteq> pe_id v" by (simp only: l(3) v not_False_eq_True)
    note fr = frame [OF this]
    have "kept_of enc marshal r e" using mirrored_kept [OF m nth_mem [OF l(1)]] by (simp only: l(3))
    then show ?thesis by (rule kept_frame) (use fr in blast)+
  qed
  moreover have "k \<in> (@) RK_PROXY ` set (map pe_id es)" if "rd_hashes r' k \<noteq> []" for k
    using keys [OF that] m mem unfolding mirrored_def by blast
  ultimately show ?thesis using m unfolding mirrored_def ids by blast
qed

lemma mirrored_put:
  assumes "mirrored enc marshal es r" and "j < length es" and "pe_id v = pe_id (es ! j)"
  shows "mirrored enc marshal (es[j := v]) (snd (SaveProxy enc marshal True True (entryToDTO v) r))"
proof -
  have id: "pd_id (entryToDTO v) = pe_id v" by (simp add: entryToDTO_def)
  have "pe_id v \<noteq> []" using mirrored_id [OF assms(1)] assms(2,3) by simp
  then show ?thesis
    using assms by (intro mirrored_update [OF assms] kept_after_save) (simp_all add: save_frame id, metis id save_frame(3))
qed

lemma mirrored_append:
  assumes m: "mirrored enc marshal es r" and new: "pe_id v \<notin> set (map pe_id es)" and "pe_id v \<noteq> []"
  shows "mirrored enc marshal (es @ [v]) (snd (SaveProxy enc marshal True True (entryToDTO v) r))"
proof -
  let ?r = "snd (SaveProxy enc marshal True True (entryToDTO v) r)"
  have id: "pd_id (entryToDTO v) = pe_id v" by (simp add: entryToDTO_def)
  have "kept_of enc marshal ?r e" if "e \<in> set es" for e
  proof -
    have "pe_id e \<in> set (map pe_id es)" using that by simp
    then have "pe_id e \<noteq> pe_id v" using new by metis
    then show ?thesis using kept_frame [OF mirrored_kept [OF m that]] by (simp add: save_frame id)
  qed
  moreover have "kept_of enc marshal ?r v" by (rule kept_after_save) (rule assms(3))
  moreover have "k \<in> (@) RK_PROXY ` set (map pe_id (es @ [v]))" if "rd_hashes ?r k \<noteq> []" for k
    using save_frame(3) [OF that] m id unfolding mirrored_def by auto
  moreover have "distinct (map pe_id (es @ [v]))" using m new by (simp add: mirrored_def)
  ultimately show ?thesis unfolding mirrored_def by simp
qed

lemma mirrored_delete:
  assumes m: "mirrored enc marshal es r" and i: "i \<noteq> []"
  shows "mirrored enc marshal (filter (\<lambda>e. pe_id e \<noteq> i) es) (snd (DeleteProxy True True i r))"
proof -
  let ?r = "snd (DeleteProxy True True i r)"
  have r: "?r = r\<lparr>rd_hashes := (rd_hashes r)(RK_PROXY @ i := []), rd_enabled := (rd_enabled r)(i := False)\<rparr>"
    using i by (simp add: DeleteProxy_def Let_def)
  have "kept_of enc marshal ?r e" if "e \<in> set es" "pe_id e \<noteq> i" for e
    using kept_frame [OF mirrored_kept [OF m that(1)]] that(2) by (simp add: r)
  moreover have "k \<in> (@) RK_PROXY ` set (map pe_id (filter (\<lambda>e. pe_id e \<noteq> i) es))" if k: "rd_hashes ?r k \<noteq> []" for k
  proof -
    have "k \<noteq> RK_PROXY @ i" "rd_hashes r k \<noteq> []" using k by (auto simp: r split: if_splits)
    then obtain e where "e \<in> set es" "k = RK_PROXY @ pe_id e" using m by (auto simp: mirrored_def)
    then show ?thesis using \<open>k \<noteq> RK_PROXY @ i\<close> by auto
  qed
  moreover have "distinct (map pe_id (filter (\<lambda>e. pe_id e \<noteq> i) es))" using m by (simp add: mirrored_def distinct_map_filter)
  ultimately show ?thesis unfolding mirrored_def by simp
qed

lemma kept_one_field:
  assumes "kept_of enc marshal r e" and "\<And>v. (f, v) \<in> set (proxy_fields marshal (entryToDTO e')) \<Longrightarrow> f \<noteq> ''last_used_at'' \<Longrightarrow> v = w"
    and "pe_id e' = pe_id e" and "pe_enabled e' = pe_enabled e"
    and "\<And>g v. g \<noteq> f \<Longrightarrow> (g, v) \<in> set (proxy_fields marshal (entryToDTO e')) \<Longrightarrow> (g, v) \<in> set (proxy_fields marshal (entryToDTO e)) \<or> g = ''last_used_at''"
  shows "kept_of enc marshal (hset enc (RK_PROXY @ pe_id e) [(f, w)] r) e'"
proof -
  have "map_of (rd_hashes (hset enc (RK_PROXY @ pe_id e) [(f, w)] r) (RK_PROXY @ pe_id e)) g = Some (enc v)"
    if "(g, v) \<in> set (proxy_fields marshal (entryToDTO e'))" "g \<noteq> ''last_used_at''" for g v
  proof (cases "g = f")
    case True
    then show ?thesis using assms(2) that by (simp add: map_of_hset)
  next
    case False
    then have "(g, v) \<in> set (proxy_fields marshal (entryToDTO e))" using assms(5) that by blast
    then show ?thesis using False that(2) assms(1) by (auto simp: map_of_hset kept_of_def map_add_def)
  qed
  then show ?thesis using assms(1,3,4) by (auto simp: kept_of_def)
qed

lemma mirrored_field:
  assumes m: "mirrored enc marshal es r" and j: "j < length es" and e': "pe_id e' = pe_id (es ! j)"
    and kept: "kept_of enc marshal (hset enc (RK_PROXY @ pe_id (es ! j)) [(f, w)] r) e'"
  shows "mirrored enc marshal (es[j := e']) (hset enc (RK_PROXY @ pe_id (es ! j)) [(f, w)] r)"
  using kept by (intro mirrored_update [OF m j e']) (auto simp: e' hset_def split: if_splits)

lemma mirrored_used:
  assumes m: "mirrored enc marshal es r" and j: "j < length es"
  shows "mirrored enc marshal es (UpdateProxyLastUsed enc True (pe_id (es ! j)) t r)"
proof -
  have e: "es ! j \<in> set es" using j by simp
  have "kept_of enc marshal (hset enc (RK_PROXY @ pe_id (es ! j)) [(''last_used_at'', RInt (unix_seconds t))] r) (es ! j)"
    using mirrored_kept [OF m e] by (rule kept_one_field) auto
  from mirrored_field [OF m j refl this] show ?thesis using mirrored_id [OF m e] by (simp add: UpdateProxyLastUsed_def)
qed

lemma mirrored_failed:
  assumes m: "mirrored enc marshal es r" and j: "j < length es"
  shows "mirrored enc marshal (es[j := (es ! j)\<lparr>pe_fail_count := n\<rparr>]) (UpdateProxyFailCount enc True (pe_id (es ! j)) n r)"
proof -
  have e: "es ! j \<in> set es" using j by simp
  have "kept_of enc marshal (hset enc (RK_PROXY @ pe_id (es ! j)) [(''fail_count'', RInt n)] r) ((es ! j)\<lparr>pe_fail_count := n\<rparr>)"
    using mirrored_kept [OF m e] by (rule kept_one_field) (auto simp: proxy_fields_def entryToDTO_def)
  from mirrored_field [OF m j _ this] show ?thesis using mirrored_id [OF m e] by (simp add: UpdateProxyFailCount_def)
qed


text \<open>One step of the pool, its calls carried out in order.\<close>

definition ids_of :: "proxy_pool \<Rightarrow> string list" where
  "ids_of p = map pe_id (pp_entries p)"

lemma calls_simps [simp]: "save_calls Store_ok c = [c]" by (simp add: save_calls_def)

lemma found_entry:
  "find_idx (\<lambda>e. pe_id e = i) es = Some idx \<Longrightarrow> idx < length es \<and> i = pe_id (es ! idx)"
  using find_idx_SomeD by fastforce

lemma mirrored_add:
  assumes m: "mirrored enc marshal (pp_entries p) r" and new: "set (new_id (Op_add Store_ok newid now e)) \<inter> set (ids_of p) = {}"
    and "[] \<notin> set (new_id (Op_add Store_ok newid now e))"
  shows "case stored_step enc marshal (Op_add Store_ok newid now e) (p, r) of (p', r') \<Rightarrow> mirrored enc marshal (pp_entries p') r'"
proof (cases "validateEntry e")
  case (Inr v)
  show ?thesis
  proof (cases newid)
    case (Some i)
    have "mirrored enc marshal (pp_entries p @ [v\<lparr>pe_id := i, pe_created_at := now, pe_fail_count := 0\<rparr>])
        (snd (SaveProxy enc marshal True True (entryToDTO (v\<lparr>pe_id := i, pe_created_at := now, pe_fail_count := 0\<rparr>)) r))"
      using new assms(3) Some by (intro mirrored_append [OF m]) (simp_all add: ids_of_def)
    then show ?thesis using Inr Some by (simp add: stored_step_def ProxyPool_Add_def Let_def)
  qed (use m Inr in \<open>simp add: stored_step_def ProxyPool_Add_def\<close>)
qed (use m in \<open>simp add: stored_step_def ProxyPool_Add_def\<close>)

lemma mirrored_update_op:
  assumes m: "mirrored enc marshal (pp_entries p) r"
  shows "case stored_step enc marshal (Op_update Store_ok i inp) (p, r) of (p', r') \<Rightarrow> mirrored enc marshal (pp_entries p') r'"
proof (cases "i = [] \<or> find_idx (\<lambda>e. pe_id e = i) (pp_entries p) = None")
  case True
  then show ?thesis using m by (auto simp: stored_step_def ProxyPool_Update_def simp del: find_idx_None)
next
  case False
  then obtain idx where idx: "i \<noteq> []" "find_idx (\<lambda>e. pe_id e = i) (pp_entries p) = Some idx"
    by (auto simp del: find_idx_None)
  show ?thesis
  proof (cases "validateEntry (merge_update inp (pp_entries p ! idx))")
    case (Inl err)
    then show ?thesis using m idx by (simp add: stored_step_def ProxyPool_Update_def)
  next
    case (Inr v)
    have "pe_id v = pe_id (pp_entries p ! idx)" using validateEntry_keeps [OF Inr] by (simp add: merge_update_def)
    then have "mirrored enc marshal ((pp_entries p)[idx := v\<lparr>pe_fail_count := 0\<rparr>])
        (snd (SaveProxy enc marshal True True (entryToDTO (v\<lparr>pe_fail_count := 0\<rparr>)) r))"
      using found_entry [OF idx(2)] by (intro mirrored_put [OF m]) simp_all
    then show ?thesis using idx Inr by (simp add: stored_step_def ProxyPool_Update_def Let_def)
  qed
qed

lemma mirrored_toggle:
  assumes m: "mirrored enc marshal (pp_entries p) r"
  shows "case stored_step enc marshal (Op_toggle Store_ok i) (p, r) of (p', r') \<Rightarrow> mirrored enc marshal (pp_entries p') r'"
proof (cases "find_idx (\<lambda>e. pe_id e = i) (pp_entries p)")
  case None
  then show ?thesis using m by (simp add: stored_step_def ProxyPool_Toggle_def del: find_idx_None)
next
  case (Some idx)
  let ?e = "(pp_entries p ! idx)\<lparr>pe_enabled := \<not> pe_enabled (pp_entries p ! idx)\<rparr>"
  let ?v = "if pe_enabled ?e then ?e\<lparr>pe_fail_count := 0\<rparr> else ?e"
  have "mirrored enc marshal ((pp_entries p)[idx := ?v]) (snd (SaveProxy enc marshal True True (entryToDTO ?v) r))"
    using found_entry [OF Some] by (intro mirrored_put [OF m]) simp_all
  then show ?thesis using Some by (simp add: stored_step_def ProxyPool_Toggle_def Let_def split del: if_split)
qed

lemma mirrored_mark_failed:
  assumes m: "mirrored enc marshal (pp_entries p) r"
  shows "case stored_step enc marshal (Op_failed Store_ok i) (p, r) of (p', r') \<Rightarrow> mirrored enc marshal (pp_entries p') r'"
proof (cases "i = [] \<or> find_idx (\<lambda>e. pe_id e = i) (pp_entries p) = None")
  case True
  then show ?thesis using m by (auto simp: stored_step_def ProxyPool_MarkFailed_def simp del: find_idx_None)
next
  case False
  then obtain idx where idx: "i \<noteq> []" "find_idx (\<lambda>e. pe_id e = i) (pp_entries p) = Some idx"
    by (auto simp del: find_idx_None)
  note at = found_entry [OF idx(2)]
  let ?e = "(pp_entries p ! idx)\<lparr>pe_fail_count := pe_fail_count (pp_entries p ! idx) + 1\<rparr>"
  have "mirrored enc marshal ((pp_entries p)[idx := ?e\<lparr>pe_enabled := False\<rparr>])
      (snd (SaveProxy enc marshal True True (entryToDTO (?e\<lparr>pe_enabled := False\<rparr>)) r))"
    using at by (intro mirrored_put [OF m]) simp_all
  moreover have "mirrored enc marshal ((pp_entries p)[idx := ?e])
      (UpdateProxyFailCount enc True i (pe_fail_count (pp_entries p ! idx) + 1) r)"
    using mirrored_failed [OF m, of idx] at by simp
  ultimately show ?thesis using idx by (simp add: stored_step_def ProxyPool_MarkFailed_def Let_def)
qed

lemma mirrored_mark_success:
  assumes m: "mirrored enc marshal (pp_entries p) r"
  shows "case stored_step enc marshal (Op_success Store_ok i) (p, r) of (p', r') \<Rightarrow> mirrored enc marshal (pp_entries p') r'"
proof (cases "i = [] \<or> find_idx (\<lambda>e. pe_id e = i) (pp_entries p) = None")
  case True
  then show ?thesis using m by (auto simp: stored_step_def ProxyPool_MarkSuccess_def simp del: find_idx_None)
next
  case False
  then obtain idx where idx: "i \<noteq> []" "find_idx (\<lambda>e. pe_id e = i) (pp_entries p) = Some idx"
    by (auto simp del: find_idx_None)
  have "mirrored enc marshal ((pp_entries p)[idx := (pp_entries p ! idx)\<lparr>pe_fail_count := 0\<rparr>]) (UpdateProxyFailCount enc True i 0 r)"
    using mirrored_failed [OF m, of idx] found_entry [OF idx(2)] by simp
  then show ?thesis using idx m by (simp add: stored_step_def ProxyPool_MarkSuccess_def)
qed

lemma mirrored_next:
  assumes m: "mirrored enc marshal (pp_entries p) r" and inv: "pool_inv p"
  shows "case stored_step enc marshal (Op_next reply now u) (p, r) of (p', r') \<Rightarrow> mirrored enc marshal (pp_entries p') r'"
proof (cases "fst (ProxyPool_Next reply now u p)")
  case (Inl err)
  then show ?thesis using m by (auto simp: stored_step_def ProxyPool_Next_def Let_def split: prod.splits if_splits)
next
  case (Inr e)
  from Next_from_entries [OF inv Inr] obtain e' where e': "e' \<in> set (pp_entries p)" "strip_fc e' = strip_fc e" by auto
  then have "pe_id e = pe_id e'" by (metis strip_fc_simps(1))
  moreover obtain j where "j < length (pp_entries p)" "e' = pp_entries p ! j" using e'(1) by (auto simp: in_set_conv_nth)
  ultimately have "mirrored enc marshal (pp_entries p) (UpdateProxyLastUsed enc True (pe_id e) now r)"
    using mirrored_used [OF m] by simp
  then show ?thesis using m Inr
    by (auto simp: stored_step_def ProxyPool_Next_def Let_def split: prod.splits if_splits rr_reply.splits)
qed

lemma mirrored_delete_op:
  assumes m: "mirrored enc marshal (pp_entries p) r"
  shows "case stored_step enc marshal (Op_delete Store_ok i) (p, r) of (p', r') \<Rightarrow> mirrored enc marshal (pp_entries p') r'"
  using m mirrored_delete [OF m, of i] by (auto simp: stored_step_def ProxyPool_Delete_def Let_def)

lemma mirrored_step:
  assumes m: "mirrored enc marshal (pp_entries p) r" and "pool_inv p" and "store_works x"
    and "set (new_id x) \<inter> set (ids_of p) = {}" and "[] \<notin> set (new_id x)"
  shows "case stored_step enc marshal x (p, r) of (p', r') \<Rightarrow> mirrored enc marshal (pp_entries p') r'"
proof (cases x)
  case (Op_transport env e)
  then show ?thesis using m by (auto simp: stored_step_def ProxyPool_Transport_def split: option.splits sum.splits)
qed (use assms in \<open>simp_all add: mirrored_add mirrored_update_op mirrored_delete_op mirrored_toggle mirrored_next
    mirrored_mark_failed mirrored_mark_success\<close>)


lemma ids_update: "ids_of (fst (snd (ProxyPool_Update st i inp p))) = ids_of p"
proof (cases "i = [] \<or> find_idx (\<lambda>e. pe_id e = i) (pp_entries p) = None")
  case True
  then show ?thesis by (auto simp: ProxyPool_Update_def simp del: find_idx_None)
next
  case False
  then obtain idx where idx: "i \<noteq> []" "find_idx (\<lambda>e. pe_id e = i) (pp_entries p) = Some idx"
    by (auto simp del: find_idx_None)
  have "map pe_id ((pp_entries p)[idx := v\<lparr>pe_fail_count := 0\<rparr>]) = map pe_id (pp_entries p)"
    if "validateEntry (merge_update inp (pp_entries p ! idx)) = Inr v" for v
    using found_entry [OF idx(2)] validateEntry_keeps [OF that] by (intro ids_after_update) (simp_all add: merge_update_def)
  then show ?thesis using idx by (auto simp: ids_of_def ProxyPool_Update_def Let_def simp del: map_update split: sum.splits)
qed

lemma new_ids_only: "store_works x \<Longrightarrow> set (ids_of (pool_step x p)) \<subseteq> set (ids_of p) \<union> set (new_id x)"
proof (cases x)
  case (Op_add st newid now e)
  then show ?thesis by (auto simp: ids_of_def ProxyPool_Add_def Let_def split: sum.splits option.splits store_reply.splits)
next
  case (Op_update st i inp)
  then show ?thesis by (simp add: ids_update)
next
  case (Op_delete st i)
  then show ?thesis by (auto simp: ids_of_def ProxyPool_Delete_def Let_def)
next
  case (Op_next reply now u)
  then show ?thesis by (auto simp: ids_of_def ProxyPool_Next_def Let_def split: prod.splits)
next
  case (Op_transport env e)
  then show ?thesis by (auto simp: ids_of_def ProxyPool_Transport_def split: option.splits sum.splits)
qed (auto simp: ids_of_def ProxyPool_Toggle_def ProxyPool_MarkFailed_def ProxyPool_MarkSuccess_def Let_def
    simp del: find_idx_None dest!: find_idx_SomeD subsetD [OF set_update_subset_insert] split: option.splits if_splits)

lemma works_no_load: "store_works x \<Longrightarrow> op_ok x \<and> no_load x"
  by (cases x) simp_all

lemma mirrored_history:
  assumes "mirrored enc marshal (pp_entries p) r" and "pool_inv p" and "list_all store_works xs"
    and "distinct (concat (map new_id xs))" and "set (concat (map new_id xs)) \<inter> set (ids_of p) = {}"
    and "[] \<notin> set (concat (map new_id xs))"
  shows "case fold (stored_step enc marshal) xs (p, r) of (p', r') \<Rightarrow>
    mirrored enc marshal (pp_entries p') r' \<and> p' = fold pool_step xs p"
  using assms
proof (induction xs arbitrary: p r)
  case (Cons x xs)
  obtain r1 where step: "stored_step enc marshal x (p, r) = (pool_step x p, r1)" by (simp add: stored_step_def)
  have "mirrored enc marshal (pp_entries (pool_step x p)) r1"
    using mirrored_step [of enc marshal p r x] Cons.prems by (auto simp: step)
  moreover have "pool_inv (pool_step x p)" using Cons.prems works_no_load [of x] by (intro pool_step_inv) simp_all
  moreover have "set (concat (map new_id xs)) \<inter> set (ids_of (pool_step x p)) = {}"
    using new_ids_only [of x p] Cons.prems(3-5) by (simp add: Int_Un_distrib2) blast
  ultimately have "case fold (stored_step enc marshal) xs (pool_step x p, r1) of (p', r') \<Rightarrow>
      mirrored enc marshal (pp_entries p') r' \<and> p' = fold pool_step xs (pool_step x p)"
    using Cons.prems by (intro Cons.IH) simp_all
  then show ?case by (simp add: step)
qed simp

section \<open>A restart\<close>

text \<open>What a restart keeps of an entry: its creation time to the second, and not its last use.\<close>

definition settle :: "proxy_entry \<Rightarrow> proxy_entry" where
  "settle e =
     e\<lparr>pe_created_at := (if unix_seconds (pe_created_at e) > 0 then from_unix (unix_seconds (pe_created_at e)) else 0),
       pe_last_used_at := 0\<rparr>"

definition json_codec :: "(string \<Rightarrow> json option) \<Rightarrow> (json \<Rightarrow> string) \<Rightarrow> bool" where
  "json_codec unmarshal marshal \<longleftrightarrow>
     (\<forall>us. us \<noteq> [] \<longrightarrow> unmarshal (marshal (J_arr (map J_str us))) = Some (J_arr (map J_str us)) \<and>
        marshal (J_arr (map J_str us)) \<notin> {[], ''null''})"

definition storable :: "proxy_entry \<Rightarrow> bool" where
  "storable e \<longleftrightarrow> fits64 (pe_fail_count e) \<and> fits64 (unix_seconds (pe_created_at e))"

lemma loaded_entry:
  assumes enc: "documented_encoding enc" and codec: "json_codec unmarshal marshal"
    and kept: "kept_of enc marshal r e" and "well_formed e" and "storable e"
  shows "settle (dtoToEntry (load_proxy unmarshal (rd_enabled r (pe_id e)) (pe_id e) (map_of (rd_hashes r (RK_PROXY @ pe_id e))))) = settle e"
proof -
  let ?vals = "map_of (rd_hashes r (RK_PROXY @ pe_id e))"
  from assms(4) obtain us where us: "pe_upstreams e = Some us" "us \<noteq> []"
    by (auto simp: well_formed_def entry_valid_def upstreams_canonical_def)
  have port: "fits64 (pe_port e)" using assms(4) by (simp add: well_formed_def entry_valid_def fits64_def)
  have field: "hash_field ?vals f = (case v of RStr s \<Rightarrow> s | RInt i \<Rightarrow> show_int i | RBool b \<Rightarrow> enc v)"
    if "(f, v) \<in> set (proxy_fields marshal (entryToDTO e))" "f \<noteq> ''last_used_at''" for f v
    using kept that enc by (auto simp: kept_of_def hash_field_def documented_encoding_def split: redis_value.splits)
  have ups: "?vals ''upstreams'' = Some (marshal (J_arr (map J_str us)))"
    using kept enc us by (auto simp: kept_of_def proxy_fields_def entryToDTO_def upstreams_text_def documented_encoding_def)
  have words: "hash_field ?vals ''protocol'' = pe_protocol e" "hash_field ?vals ''host'' = pe_host e"
    "hash_field ?vals ''username'' = pe_username e" "hash_field ?vals ''password'' = pe_password e"
    "hash_field ?vals ''label'' = pe_label e"
    using field [of "''protocol''" "RStr (pe_protocol e)"] field [of "''host''" "RStr (pe_host e)"]
      field [of "''username''" "RStr (pe_username e)"] field [of "''password''" "RStr (pe_password e)"]
      field [of "''label''" "RStr (pe_label e)"]
    by (simp_all add: proxy_fields_def entryToDTO_def)
  have num: "hash_field ?vals ''port'' = show_int (pe_port e)" "hash_field ?vals ''fail_count'' = show_int (pe_fail_count e)"
    "hash_field ?vals ''created_at'' = show_int (unix_seconds (pe_created_at e))"
    using field [of "''port''" "RInt (pe_port e)"] field [of "''fail_count''" "RInt (pe_fail_count e)"]
      field [of "''created_at''" "RInt (unix_seconds (pe_created_at e))"]
    by (simp_all add: proxy_fields_def entryToDTO_def)
  have "upstreams_field unmarshal ?vals = Some us"
    using codec us(2) by (simp add: upstreams_field_def ups json_codec_def)
  moreover have "int_field ?vals ''port'' = pe_port e" "int_field ?vals ''fail_count'' = pe_fail_count e"
    using port \<open>storable e\<close> by (simp_all add: int_field_def num storable_def parse_show_int fits64_def)
  moreover have "time_field ?vals ''created_at'' =
      (if unix_seconds (pe_created_at e) > 0 then from_unix (unix_seconds (pe_created_at e)) else 0)"
    using \<open>storable e\<close> by (simp add: time_field_def num storable_def parse_show_int fits64_def)
  moreover have "rd_enabled r (pe_id e) = pe_enabled e" using kept by (simp add: kept_of_def)
  moreover have "unix_seconds 0 \<le> 0" by (simp add: unix_seconds_def)
  ultimately show ?thesis using us
    by (intro proxy_entry.equality) (simp_all add: settle_def dtoToEntry_def load_proxy_def words Let_def)
qed

lemma loaded_keys:
  assumes m: "mirrored enc marshal es r" and d: "distinct scan" and all: "\<forall>k. rd_hashes r k \<noteq> [] \<longrightarrow> k \<in> set scan"
    and ids: "set (map pe_id es) \<inter> {''enabled'', ''rr''} = {}"
    and full: "\<And>e. e \<in> set es \<Longrightarrow> rd_hashes r (RK_PROXY @ pe_id e) \<noteq> []"
  shows "mset (LoadProxies unmarshal True scan r) =
    mset (map (\<lambda>e. load_proxy unmarshal (rd_enabled r (pe_id e)) (pe_id e) (map_of (rd_hashes r (RK_PROXY @ pe_id e)))) es)"
proof -
  let ?ok = "\<lambda>rk. rk \<noteq> RK_PROXY_ENABLED \<and> rk \<noteq> RK_PROXY_RR \<and> rd_hashes r rk \<noteq> []"
  let ?load = "\<lambda>rk. load_proxy unmarshal (rd_enabled r (trim_prefix rk RK_PROXY)) (trim_prefix rk RK_PROXY) (map_of (rd_hashes r rk))"
  have "LoadProxies unmarshal True ks r = map ?load (filter ?ok ks)" for ks
    by (induction ks) (auto simp: LoadProxies_def Let_def)
  moreover have "mset (filter ?ok scan) = mset (map (\<lambda>e. RK_PROXY @ pe_id e) es)"
  proof (rule iffD1 [OF set_eq_iff_mset_eq_distinct])
    show "distinct (filter ?ok scan)" using d by simp
    show "distinct (map (\<lambda>e. RK_PROXY @ pe_id e) es)" using m by (simp add: mirrored_def distinct_map inj_on_def)
    have "?ok (RK_PROXY @ pe_id e)" if "e \<in> set es" for e
    proof -
      have "pe_id e \<in> set (map pe_id es)" using that by simp
      with ids have "pe_id e \<noteq> ''enabled''" "pe_id e \<noteq> ''rr''" by blast+
      then show ?thesis using full [OF that] by (simp add: RK_PROXY_def RK_PROXY_ENABLED_def RK_PROXY_RR_def)
    qed
    moreover have "k \<in> (\<lambda>e. RK_PROXY @ pe_id e) ` set es" if "?ok k" for k
      using m that by (auto simp: mirrored_def)
    ultimately show "set (filter ?ok scan) = set (map (\<lambda>e. RK_PROXY @ pe_id e) es)" using all by auto
  qed
  ultimately have "mset (LoadProxies unmarshal True scan r) = mset (map ?load (map (\<lambda>e. RK_PROXY @ pe_id e) es))"
    by (simp only: mset_map)
  also have "map ?load (map (\<lambda>e. RK_PROXY @ pe_id e) es) =
      map (\<lambda>e. load_proxy unmarshal (rd_enabled r (pe_id e)) (pe_id e) (map_of (rd_hashes r (RK_PROXY @ pe_id e)))) es"
    by (simp add: trim_prefix_def)
  finally show ?thesis .
qed

lemma kept_nonempty: "kept_of enc marshal r e \<Longrightarrow> rd_hashes r (RK_PROXY @ pe_id e) \<noteq> []"
  by (auto simp: kept_of_def proxy_fields_def)

lemma new_pool_ids [simp]: "ids_of NewProxyPool = []" "pp_entries NewProxyPool = []"
  by (simp_all add: ids_of_def NewProxyPool_def)

lemma mirrored_New: "mirrored enc marshal (pp_entries NewProxyPool) empty_redis"
  by (simp add: mirrored_def empty_redis_def)

lemma history_from_scratch:
  assumes "fold (stored_step enc marshal) xs (NewProxyPool, empty_redis) = (p, r)" and "list_all store_works xs"
    and "distinct (concat (map new_id xs))" and "[] \<notin> set (concat (map new_id xs))"
  shows "mirrored enc marshal (pp_entries p) r" and "p = fold pool_step xs NewProxyPool"
  using mirrored_history [OF mirrored_New pool_inv_New assms(2,3) _ assms(4), of enc marshal] unfolding assms(1) by auto

text \<open>
  C36: A restart restores the proxy pool. Run any history of the pool's operations over a working Redis,
  the calls of each carried out before the next, and start again from what is in Redis: the new pool has
  the entries of the old one, each with every field (credentials, scopes, enabled, fail count) but the
  time of its last use, and its creation time to the second. This needs that the ids made are distinct
  and not \<open>enabled\<close> or \<open>rr\<close>, which name other keys, that numbers fit 64 bits, and that the scan finds
  every key once.
\<close>

theorem restart_restores_pool:
  assumes enc: "documented_encoding enc" and codec: "json_codec unmarshal marshal"
    and works: "list_all store_works xs" and ids: "distinct (concat (map new_id xs))"
      "set (concat (map new_id xs)) \<inter> {[], ''enabled'', ''rr''} = {}"
    and run: "fold (stored_step enc marshal) xs (NewProxyPool, empty_redis) = (p, r)"
    and fits: "list_all storable (pp_entries p)"
    and scan: "distinct scan" "\<forall>k. rd_hashes r k \<noteq> [] \<longrightarrow> k \<in> set scan"
  shows "mset (map settle (pp_entries (snd (ProxyPool_Load (Some (Inr (LoadProxies unmarshal True scan r))) NewProxyPool)))) =
    mset (map settle (pp_entries p))"
proof -
  have "[] \<notin> set (concat (map new_id xs))" using ids(2) by blast
  note hist = history_from_scratch [OF run works ids(1) this]
  have "list_all no_load xs" using works by (auto simp: list_all_iff dest: works_no_load)
  then have wf: "\<forall>e \<in> set (pp_entries p). well_formed e"
    unfolding hist(2) by (intro well_formed_history) simp_all
  have "set (ids_of (fold pool_step ys q)) \<subseteq> set (ids_of q) \<union> set (concat (map new_id ys))" if "list_all store_works ys" for ys q
    using that
  proof (induction ys arbitrary: q)
    case (Cons y ys)
    then show ?case using new_ids_only [of y q] Cons.IH [of "pool_step y q"] by auto
  qed simp
  from this [OF works, of NewProxyPool] have "set (map pe_id (pp_entries p)) \<inter> {''enabled'', ''rr''} = {}"
    using ids(2) unfolding hist(2) [symmetric] ids_of_def by auto
  note keys = loaded_keys [OF hist(1) scan this kept_nonempty [OF mirrored_kept [OF hist(1)]]]
  let ?load = "\<lambda>e. load_proxy unmarshal (rd_enabled r (pe_id e)) (pe_id e) (map_of (rd_hashes r (RK_PROXY @ pe_id e)))"
  have same: "map (settle \<circ> dtoToEntry) (map ?load (pp_entries p)) = map settle (pp_entries p)"
    using wf fits loaded_entry [OF enc codec mirrored_kept [OF hist(1)]] by (simp add: list_all_iff)
  have "mset (map (settle \<circ> dtoToEntry) (LoadProxies unmarshal True scan r)) =
      mset (map (settle \<circ> dtoToEntry) (map ?load (pp_entries p)))"
    using keys by (simp only: mset_map)
  also have "\<dots> = mset (map settle (pp_entries p))" by (simp only: same)
  finally show ?thesis by (simp add: ProxyPool_Load_def del: mset_map)
qed

definition demo_history :: "pool_op list" where
  "demo_history =
     [Op_add Store_ok (Some ''p1'') (from_unix 1700000000) (demo_entry []), Op_failed Store_ok ''p1'',
      Op_add Store_ok (Some ''p2'') (from_unix 1700000060) (demo_entry []), Op_toggle Store_ok ''p2'']"

definition bracket_marshal :: "json \<Rightarrow> string" where
  "bracket_marshal j = CHR ''['' # stroke_marshal j"

definition bracket_parse :: "string \<Rightarrow> json option" where
  "bracket_parse s = stroke_parse (tl s)"

lemma bracket_codec: "json_codec bracket_parse bracket_marshal"
  by (simp add: json_codec_def bracket_parse_def bracket_marshal_def stroke_codec)

lemma demo_pool_state:
  "pp_entries (fold pool_step demo_history NewProxyPool) =
     [(demo_entry ''p1'')\<lparr>pe_created_at := from_unix 1700000000, pe_fail_count := 1\<rparr>,
      (demo_entry ''p2'')\<lparr>pe_created_at := from_unix 1700000060, pe_enabled := False\<rparr>]"
  by (simp add: demo_history_def ProxyPool_Add_def demo_entry_validates Let_def ProxyPool_MarkFailed_def
      ProxyPool_Toggle_def PROXY_FAIL_THRESHOLD_def) (simp add: demo_entry_def)

theorem restart_restores_pool_witness:
  "let (p, r) = fold (stored_step go_redis_enc bracket_marshal) demo_history (NewProxyPool, empty_redis) in
   mset (map settle (pp_entries (snd (ProxyPool_Load
     (Some (Inr (LoadProxies bracket_parse True [RK_PROXY @ ''p2'', RK_PROXY_ENABLED, RK_PROXY @ ''p1''] r))) NewProxyPool)))) =
   mset (map settle (pp_entries p))"
proof -
  obtain p r where run: "fold (stored_step go_redis_enc bracket_marshal) demo_history (NewProxyPool, empty_redis) = (p, r)"
    by (cases "fold (stored_step go_redis_enc bracket_marshal) demo_history (NewProxyPool, empty_redis)")
  have ops: "list_all store_works demo_history" "concat (map new_id demo_history) = [''p1'', ''p2'']"
    by (simp_all add: demo_history_def)
  note hist = history_from_scratch [OF run ops(1)]
  have m: "mirrored go_redis_enc bracket_marshal (pp_entries p) r" and p: "pp_entries p =
     [(demo_entry ''p1'')\<lparr>pe_created_at := from_unix 1700000000, pe_fail_count := 1\<rparr>,
      (demo_entry ''p2'')\<lparr>pe_created_at := from_unix 1700000060, pe_enabled := False\<rparr>]"
    using hist demo_pool_state by (simp_all add: ops(2))
  have "list_all storable (pp_entries p)" by (simp add: p storable_def demo_entry_def fits64_def)
  moreover have "\<forall>k. rd_hashes r k \<noteq> [] \<longrightarrow> k \<in> set [RK_PROXY @ ''p2'', RK_PROXY_ENABLED, RK_PROXY @ ''p1'']"
    using m by (auto simp: mirrored_def p demo_entry_def)
  ultimately show ?thesis
    using restart_restores_pool [OF go_redis_enc bracket_codec ops(1) _ _ run, of "[RK_PROXY @ ''p2'', RK_PROXY_ENABLED, RK_PROXY @ ''p1'']"]
    by (simp add: run ops(2) RK_PROXY_def RK_PROXY_ENABLED_def)
qed

text \<open>
  The pool does not wait for its bookkeeping writes. One that comes after the deletion makes the hash
  anew, and the next start finds a proxy without a host.
\<close>

lemma late_update_leaves_ghost:
  "map (\<lambda>d. (pd_id d, pd_host d, pd_enabled d))
     (LoadProxies unmarshal True [RK_PROXY @ ''p1'']
       (UpdateProxyFailCount enc True ''p1'' n (snd (DeleteProxy True True ''p1'' r)))) = [(''p1'', [], False)]"
  by (simp add: LoadProxies_def UpdateProxyFailCount_def DeleteProxy_def hset_def load_proxy_def hash_field_def
      RK_PROXY_def RK_PROXY_ENABLED_def RK_PROXY_RR_def trim_prefix_def has_prefix_def)

text \<open>A key the scan reports twice is a proxy twice.\<close>

lemma scanned_twice_loaded_twice:
  "LoadProxies unmarshal ok (ks @ ks) r = LoadProxies unmarshal ok ks r @ LoadProxies unmarshal ok ks r"
  by (simp add: LoadProxies_def)

end
