(* ===== verification/StoredJson.thy ===== *)
theory StoredJson
  imports Custom Combo Decode
begin

text \<open>
  The three Redis hashes of JSON values, of \<open>internal/db/db.go\<close>: custom models, combos and hidden models,
  with the hash of aliases and the combo counters. Below the registries of \<open>Custom\<close> and \<open>Combo\<close>, which
  only return the calls they make. The text of JSON is an argument, and so is whether a command works:
  \<open>ready\<close> that there is a connection, \<open>ok\<close> that Redis takes the command.
\<close>

section \<open>The hashes\<close>

type_synonym redis_hash = "string \<Rightarrow> string option"

record json_db =
  jd_models :: redis_hash
  jd_aliases :: redis_hash
  jd_hidden :: redis_hash
  jd_combos :: redis_hash
  jd_counters :: "string \<Rightarrow> int option"

definition empty_json_db :: json_db where
  "empty_json_db =
     \<lparr>jd_models = Map.empty, jd_aliases = Map.empty, jd_hidden = Map.empty, jd_combos = Map.empty, jd_counters = Map.empty\<rparr>"

datatype json_db_error = Redis_not_ready | Field_required string | Redis_failed

text \<open>A command: the error, and the database after it.\<close>

definition redis_command :: "bool \<Rightarrow> bool \<Rightarrow> string list \<Rightarrow> string \<Rightarrow> json_db \<Rightarrow> json_db \<Rightarrow> json_db_error option \<times> json_db" where
  "redis_command ready ok needed field r r' =
     (if \<not> ready then (Some Redis_not_ready, r)
      else if [] \<in> set needed then (Some (Field_required field), r)
      else if \<not> ok then (Some Redis_failed, r)
      else (None, r'))"

text \<open>
  Reading a hash: \<open>reply\<close> is what Redis has, nothing when it cannot be read. A value that is not JSON of
  the right shape is skipped.
\<close>

definition load_hash ::
  "(string \<Rightarrow> json option) \<Rightarrow> (string \<Rightarrow> json \<Rightarrow> 'a option) \<Rightarrow> bool \<Rightarrow> redis_hash option \<Rightarrow> (string \<Rightarrow> 'a option) option" where
  "load_hash unmarshal dec ready reply =
     (if \<not> ready then Some Map.empty
      else map_option (\<lambda>vals i. vals i \<bind> unmarshal \<bind> dec i) reply)"

section \<open>Custom models and aliases\<close>

definition strings_json :: "string list option \<Rightarrow> json" where
  "strings_json ss = (case ss of None \<Rightarrow> J_null | Some xs \<Rightarrow> J_arr (map J_str xs))"

definition custom_model_json :: "custom_model \<Rightarrow> json" where
  "custom_model_json cm =
     J_obj [(''upstream'', J_str (cm_upstream cm)), (''model_name'', J_str (cm_model_name cm)),
            (''owned_by'', J_str (cm_owned_by cm)), (''capabilities'', strings_json (cm_capabilities cm))]"

definition decode_custom_model :: "json \<Rightarrow> custom_model option" where
  "decode_custom_model j =
     do { m \<leftarrow> unmarshal_map j;
          up \<leftarrow> tag_string m ''upstream'';
          name \<leftarrow> tag_string m ''model_name'';
          owner \<leftarrow> tag_string m ''owned_by'';
          caps \<leftarrow> tag_ptr (unmarshal_slice unmarshal_string) m ''capabilities'';
          Some \<lparr>cm_upstream = up, cm_model_name = name, cm_owned_by = owner, cm_capabilities = caps\<rparr> }"

definition LoadCustomModels :: "(string \<Rightarrow> json option) \<Rightarrow> bool \<Rightarrow> redis_hash option \<Rightarrow> (string \<Rightarrow> custom_model option) option" where
  "LoadCustomModels unmarshal = load_hash unmarshal (\<lambda>_. decode_custom_model)"

definition SaveCustomModel ::
  "(json \<Rightarrow> string) \<Rightarrow> bool \<Rightarrow> bool \<Rightarrow> string \<Rightarrow> custom_model \<Rightarrow> json_db \<Rightarrow> json_db_error option \<times> json_db" where
  "SaveCustomModel marshal ready ok i cm r =
     redis_command ready ok [] [] r (r\<lparr>jd_models := (jd_models r)(i \<mapsto> marshal (custom_model_json cm))\<rparr>)"

definition DeleteCustomModel :: "bool \<Rightarrow> bool \<Rightarrow> string \<Rightarrow> json_db \<Rightarrow> json_db_error option \<times> json_db" where
  "DeleteCustomModel ready ok i r = redis_command ready ok [] [] r (r\<lparr>jd_models := (jd_models r)(i := None)\<rparr>)"

definition LoadCustomAliases :: "bool \<Rightarrow> redis_hash option \<Rightarrow> redis_hash option" where
  "LoadCustomAliases ready reply = (if \<not> ready then Some Map.empty else reply)"

definition SaveCustomAlias :: "bool \<Rightarrow> bool \<Rightarrow> string \<Rightarrow> string \<Rightarrow> json_db \<Rightarrow> json_db_error option \<times> json_db" where
  "SaveCustomAlias ready ok alias target r =
     redis_command ready ok [alias, target] ''alias and target'' r (r\<lparr>jd_aliases := (jd_aliases r)(alias \<mapsto> target)\<rparr>)"

definition DeleteCustomAlias :: "bool \<Rightarrow> bool \<Rightarrow> string \<Rightarrow> json_db \<Rightarrow> json_db_error option \<times> json_db" where
  "DeleteCustomAlias ready ok alias r = redis_command ready ok [] [] r (r\<lparr>jd_aliases := (jd_aliases r)(alias := None)\<rparr>)"

section \<open>Hidden models\<close>

record hidden_model =
  hm_ID :: string
  hm_Hidden :: bool
  hm_HiddenAt :: int

definition hidden_model_json :: "hidden_model \<Rightarrow> json" where
  "hidden_model_json h =
     J_obj [(''id'', J_str (hm_ID h)), (''hidden'', J_bool (hm_Hidden h)), (''hidden_at'', J_num (of_int (hm_HiddenAt h)))]"

definition decode_hidden_model :: "string \<Rightarrow> json \<Rightarrow> hidden_model option" where
  "decode_hidden_model i j =
     do { m \<leftarrow> unmarshal_map j;
          name \<leftarrow> tag_string m ''id'';
          hidden \<leftarrow> tag False unmarshal_bool m ''hidden'';
          since \<leftarrow> tag 0 unmarshal_int m ''hidden_at'';
          Some \<lparr>hm_ID = (if name = [] then i else name), hm_Hidden = hidden, hm_HiddenAt = since\<rparr> }"

definition LoadHiddenModels :: "(string \<Rightarrow> json option) \<Rightarrow> bool \<Rightarrow> redis_hash option \<Rightarrow> (string \<Rightarrow> hidden_model option) option" where
  "LoadHiddenModels unmarshal = load_hash unmarshal decode_hidden_model"

definition SaveHiddenModel ::
  "(json \<Rightarrow> string) \<Rightarrow> bool \<Rightarrow> bool \<Rightarrow> int \<Rightarrow> hidden_model \<Rightarrow> json_db \<Rightarrow> json_db_error option \<times> json_db" where
  "SaveHiddenModel marshal ready ok now h r =
     redis_command ready ok [hm_ID h] ''id'' r
       (r\<lparr>jd_hidden := (jd_hidden r)(hm_ID h \<mapsto> marshal (hidden_model_json (h\<lparr>hm_HiddenAt := now\<rparr>)))\<rparr>)"

definition DeleteHiddenModel :: "bool \<Rightarrow> bool \<Rightarrow> string \<Rightarrow> json_db \<Rightarrow> json_db_error option \<times> json_db" where
  "DeleteHiddenModel ready ok i r = redis_command ready ok [i] ''id'' r (r\<lparr>jd_hidden := (jd_hidden r)(i := None)\<rparr>)"

section \<open>Combos\<close>

text \<open>The empty list of models is the nil one.\<close>

definition combo_json :: "combo \<Rightarrow> json" where
  "combo_json c =
     J_obj [(''name'', J_str (cb_Name c)), (''strategy'', J_str (cb_Strategy c)),
            (''models'', if cb_Models c = [] then J_null else J_arr (map J_str (cb_Models c))),
            (''description'', J_str (cb_Description c)), (''compression_mode'', J_str (cb_CompressionMode c))]"

definition decode_combo :: "string \<Rightarrow> json \<Rightarrow> combo option" where
  "decode_combo name j =
     do { m \<leftarrow> unmarshal_map j;
          own \<leftarrow> tag_string m ''name'';
          strategy \<leftarrow> tag_string m ''strategy'';
          models \<leftarrow> tag [] (unmarshal_slice unmarshal_string) m ''models'';
          descr \<leftarrow> tag_string m ''description'';
          mode \<leftarrow> tag_string m ''compression_mode'';
          Some \<lparr>cb_Name = (if own = [] then name else own), cb_Strategy = strategy, cb_Models = models,
                cb_Description = descr, cb_CompressionMode = mode\<rparr> }"

definition LoadCombos :: "(string \<Rightarrow> json option) \<Rightarrow> bool \<Rightarrow> redis_hash option \<Rightarrow> (string \<Rightarrow> combo option) option" where
  "LoadCombos unmarshal = load_hash unmarshal decode_combo"

definition SaveCombo :: "(json \<Rightarrow> string) \<Rightarrow> bool \<Rightarrow> bool \<Rightarrow> combo \<Rightarrow> json_db \<Rightarrow> json_db_error option \<times> json_db" where
  "SaveCombo marshal ready ok c r =
     redis_command ready ok [cb_Name c] ''combo name'' r
       (r\<lparr>jd_combos := (jd_combos r)(cb_Name c \<mapsto> marshal (combo_json c))\<rparr>)"

text \<open>The counter goes with the combo, if that works.\<close>

definition Store_DeleteCombo :: "bool \<Rightarrow> bool \<Rightarrow> bool \<Rightarrow> string \<Rightarrow> json_db \<Rightarrow> json_db_error option \<times> json_db" where
  "Store_DeleteCombo ready ok del_ok name r =
     redis_command ready ok [] [] r
       (r\<lparr>jd_combos := (jd_combos r)(name := None),
          jd_counters := (if del_ok then (jd_counters r)(name := None) else jd_counters r)\<rparr>)"

definition IncrComboCounter :: "bool \<Rightarrow> bool \<Rightarrow> string \<Rightarrow> json_db \<Rightarrow> (json_db_error + int) \<times> json_db" where
  "IncrComboCounter ready ok name r =
     (if \<not> ready then (Inl Redis_not_ready, r)
      else if \<not> ok then (Inl Redis_failed, r)
      else let n = (case jd_counters r name of None \<Rightarrow> 0 | Some k \<Rightarrow> k) + 1
           in (Inr n, r\<lparr>jd_counters := (jd_counters r)(name \<mapsto> n)\<rparr>))"

section \<open>What was saved is loaded\<close>

text \<open>
  A hash of JSON values: the shape of a value and how it is read under its field. What is \<open>good\<close> is read
  as it was written, whatever the text of JSON is, if that keeps the value.
\<close>

locale json_values =
  fixes enc :: "'a \<Rightarrow> json"
    and dec :: "string \<Rightarrow> json \<Rightarrow> 'a option"
    and good :: "string \<Rightarrow> 'a \<Rightarrow> bool"
  assumes dec_enc: "good i x \<Longrightarrow> dec i (enc x) = Some x"
begin

lemma load_saved:
  assumes "good i x" and "unmarshal (marshal (enc x)) = Some (enc x)"
  shows "the (load_hash unmarshal dec True (Some (vals(i \<mapsto> marshal (enc x))))) =
    (the (load_hash unmarshal dec True (Some vals)))(i \<mapsto> x)"
  using assms by (simp add: load_hash_def dec_enc fun_eq_iff)

lemma load_deleted:
  "the (load_hash unmarshal dec True (Some (vals(i := None)))) = (the (load_hash unmarshal dec True (Some vals)))(i := None)"
  by (simp add: load_hash_def fun_eq_iff)

text \<open>One bad value costs only its own field.\<close>

lemma load_bad:
  assumes "unmarshal raw = None"
  shows "the (load_hash unmarshal dec True (Some (vals(i \<mapsto> raw)))) = (the (load_hash unmarshal dec True (Some vals)))(i := None)"
  using assms by (simp add: load_hash_def fun_eq_iff)

end

lemma strings_json_tag [simp]:
  "(if strings_json ss = J_null then Some None
    else map_option Some (unmarshal_slice unmarshal_string (strings_json ss))) = Some ss"
  by (cases ss) (simp_all add: strings_json_def)

interpretation model_values: json_values custom_model_json "\<lambda>_. decode_custom_model" "\<lambda>_ _. True"
  by unfold_locales (simp add: decode_custom_model_def custom_model_json_def tag_string_def tag_ptr_def)

interpretation hidden_values: json_values hidden_model_json decode_hidden_model "\<lambda>_ h. hm_ID h \<noteq> [] \<and> fits64 (hm_HiddenAt h)"
  by unfold_locales (simp add: decode_hidden_model_def hidden_model_json_def tag_string_def tag_def del: unmarshal_int.simps)

interpretation combo_values: json_values combo_json decode_combo "\<lambda>_ c. cb_Name c \<noteq> []"
  by unfold_locales (simp add: decode_combo_def combo_json_def tag_string_def tag_def)

section \<open>The registries above them\<close>

fun apply_custom :: "(json \<Rightarrow> string) \<Rightarrow> custom_call \<Rightarrow> json_db \<Rightarrow> json_db" where
  "apply_custom marshal (Save_model i cm) db = snd (SaveCustomModel marshal True True i cm db)"
| "apply_custom marshal (Delete_model i) db = snd (DeleteCustomModel True True i db)"
| "apply_custom marshal (Save_alias a t) db = snd (SaveCustomAlias True True a t db)"
| "apply_custom marshal (Delete_alias a) db = snd (DeleteCustomAlias True True a db)"

fun apply_combo :: "(json \<Rightarrow> string) \<Rightarrow> combo_call \<Rightarrow> json_db \<Rightarrow> json_db" where
  "apply_combo marshal (Save_combo c) db = snd (SaveCombo marshal True True c db)"
| "apply_combo marshal (Delete_combo name) db = snd (Store_DeleteCombo True True True name db)"

text \<open>An operation on a store that takes the write or fails it, and what a new process loads.\<close>

definition stored_op ::
  "('x \<Rightarrow> store_reply \<Rightarrow> 'r \<Rightarrow> 'r \<times> 'c list) \<Rightarrow> ('c \<Rightarrow> json_db \<Rightarrow> json_db) \<Rightarrow> 'x \<times> store_reply \<Rightarrow> 'r \<times> json_db \<Rightarrow> 'r \<times> json_db" where
  "stored_op step apply_call = (\<lambda>(x, st) (r, db).
     let (r', cs) = step x st r in (r', if st = Store_ok then fold apply_call cs db else db))"

definition custom_restart :: "(string \<Rightarrow> json option) \<Rightarrow> json_db \<Rightarrow> custom_registry" where
  "custom_restart unmarshal db =
     snd (CustomRegistry_Load (map_option Inr (LoadCustomModels unmarshal True (Some (jd_models db))))
       (Inr (the (LoadCustomAliases True (Some (jd_aliases db))))) NewCustomRegistry)"

definition combo_restart :: "(string \<Rightarrow> json option) \<Rightarrow> json_db \<Rightarrow> combo_registry" where
  "combo_restart unmarshal db =
     snd (ComboRegistry_Load (map_option Inr (LoadCombos unmarshal True (Some (jd_combos db)))) NewComboRegistry)"

lemma custom_restart_simps:
  "cr_models (custom_restart unmarshal db) = the (LoadCustomModels unmarshal True (Some (jd_models db)))"
  "cr_aliases (custom_restart unmarshal db) = jd_aliases db"
  by (simp_all add: custom_restart_def CustomRegistry_Load_def LoadCustomModels_def LoadCustomAliases_def load_hash_def)

lemma combo_restart_simps:
  "combo_restart unmarshal db = the (LoadCombos unmarshal True (Some (jd_combos db)))"
  by (simp add: combo_restart_def ComboRegistry_Load_def LoadCombos_def load_hash_def)

text \<open>A call that is carried out does to what would be loaded what it says.\<close>

fun call_named :: "custom_call \<Rightarrow> bool" where
  "call_named (Save_alias a t) \<longleftrightarrow> a \<noteq> [] \<and> t \<noteq> []"
| "call_named c \<longleftrightarrow> True"

lemma apply_custom_view:
  assumes "\<And>cm. unmarshal (marshal (custom_model_json cm)) = Some (custom_model_json cm)" and "call_named c"
  shows "custom_view (custom_restart unmarshal (apply_custom marshal c db)) = custom_write c (custom_view (custom_restart unmarshal db))"
  using assms(2)
  by (cases c) (auto simp: custom_view_def custom_restart_simps fun_eq_iff SaveCustomModel_def DeleteCustomModel_def
      SaveCustomAlias_def DeleteCustomAlias_def redis_command_def LoadCustomModels_def assms(1)
      model_values.load_saved model_values.load_deleted split: sum.split)

fun combo_named :: "combo_call \<Rightarrow> bool" where
  "combo_named (Save_combo c) \<longleftrightarrow> cb_Name c \<noteq> []"
| "combo_named c \<longleftrightarrow> True"

lemma apply_combo_view:
  assumes "\<And>c. unmarshal (marshal (combo_json c)) = Some (combo_json c)" and "combo_named c"
  shows "combo_restart unmarshal (apply_combo marshal c db) = combo_write c (combo_restart unmarshal db)"
  using assms(2)
  by (cases c) (simp_all add: combo_restart_simps SaveCombo_def Store_DeleteCombo_def redis_command_def LoadCombos_def
      combo_values.load_saved combo_values.load_deleted assms(1))

lemma custom_calls_named: "c \<in> set (snd (custom_step x st r)) \<Longrightarrow> call_named c"
  by (cases x) (auto simp: custom_ops write_then_def Let_def safe_name_def split: option.splits store_reply.splits if_splits)

lemma combo_calls_named: "c \<in> set (snd (combo_step x st r)) \<Longrightarrow> combo_named c"
proof (cases x)
  case (Op_add_combo c0)
  assume c: "c \<in> set (snd (combo_step x st r))"
  show ?thesis
    by (rule AddCombo_cases [of st c0 r, OF refl])
      (use c Op_add_combo in \<open>auto simp: write_then_def safe_name_def split: store_reply.splits\<close>)
qed (auto simp: DeleteCombo_def write_then_def Let_def split: store_reply.splits if_splits)

text \<open>
  Below a write-through cache whose calls do what they say, what would be loaded is what is cached.
\<close>

context write_through begin

lemma loaded_is_cached:
  assumes "view s = loaded d" and "\<forall>(x, r) \<in> set ops. r \<noteq> No_store"
    and does: "\<And>x r s c d. c \<in> set (snd (step x r s)) \<Longrightarrow> loaded (apply_call c d) = effect c (loaded d)"
  shows "view (fst (fold (stored_op step apply_call) ops (s, d))) = loaded (snd (fold (stored_op step apply_call) ops (s, d)))"
  using assms(1,2)
proof (induction ops arbitrary: s d)
  case (Cons op ops)
  obtain x r where op: "op = (x, r)" by (cases op)
  obtain s' cs where sc: "step x r s = (s', cs)" by fastforce
  let ?d = "if r = Store_ok then fold apply_call cs d else d"
  have "loaded ?d = snd (serve (x, r) (s, loaded d))"
  proof -
    have "loaded (fold apply_call cs' d) = fold effect cs' (loaded d)" if "set cs' \<subseteq> set cs" for cs'
      using that
    proof (induction cs' arbitrary: d)
      case (Cons c cs')
      then show ?case using does [of c x r s d] sc by simp
    qed simp
    then show ?thesis by (simp add: serve_def sc)
  qed
  moreover have "fst (serve (x, r) (s, loaded d)) = s'" by (simp add: serve_def sc)
  ultimately have "view s' = loaded ?d"
    using serve_agrees [of s "loaded d" r x] Cons.prems(1,2) by (simp add: op)
  then have "view (fst (fold (stored_op step apply_call) ops (s', ?d))) =
      loaded (snd (fold (stored_op step apply_call) ops (s', ?d)))"
    using Cons.prems(2) by (intro Cons.IH) simp_all
  then show ?case by (simp add: op stored_op_def sc)
qed simp

end

lemma custom_view_inj: "custom_view r = custom_view r' \<Longrightarrow> r = r'"
proof -
  assume eq: "custom_view r = custom_view r'"
  have inj: "inj (map_option Model_value)" "inj (map_option Alias_value)" by (rule option.inj_map, simp add: inj_def)+
  have "cr_models r i = cr_models r' i" "cr_aliases r i = cr_aliases r' i" for i
    using fun_cong [OF eq, of "Inl i"] fun_cong [OF eq, of "Inr i"] by (simp_all add: custom_view_def inj [THEN inj_eq])
  then show ?thesis by (simp add: fun_eq_iff)
qed

type_synonym registries = "custom_registry \<times> combo_registry \<times> json_db"

text \<open>An operation on either registry, with what the store answers to its write.\<close>

definition registries_step ::
  "(json \<Rightarrow> string) \<Rightarrow> (custom_op \<times> store_reply) + (combo_op \<times> store_reply) \<Rightarrow> registries \<Rightarrow> registries" where
  "registries_step marshal x = (\<lambda>(r, cs, db).
     case x of
       Inl y \<Rightarrow> (let (r', db') = stored_op custom_step (apply_custom marshal) y (r, db) in (r', cs, db'))
     | Inr y \<Rightarrow> (let (cs', db') = stored_op combo_step (apply_combo marshal) y (cs, db) in (r, cs', db')))"

definition has_store :: "(custom_op \<times> store_reply) + (combo_op \<times> store_reply) \<Rightarrow> bool" where
  "has_store x \<longleftrightarrow> (case x of Inl y \<Rightarrow> snd y \<noteq> No_store | Inr y \<Rightarrow> snd y \<noteq> No_store)"

lemma apply_custom_frame: "combo_restart unmarshal (apply_custom marshal c db) = combo_restart unmarshal db"
  by (cases c) (simp_all add: combo_restart_simps SaveCustomModel_def DeleteCustomModel_def SaveCustomAlias_def
      DeleteCustomAlias_def redis_command_def)

lemma apply_combo_frame: "custom_restart unmarshal (apply_combo marshal c db) = custom_restart unmarshal db"
  by (cases c) (simp_all add: custom_restart_def SaveCombo_def Store_DeleteCombo_def redis_command_def)

lemma fold_frame: "(\<And>c d. f (g c d) = f d) \<Longrightarrow> f (fold g cs d) = f d"
  by (induction cs arbitrary: d) simp_all

text \<open>Both registries are what would be loaded.\<close>

definition in_step :: "(string \<Rightarrow> json option) \<Rightarrow> registries \<Rightarrow> bool" where
  "in_step unmarshal = (\<lambda>(r, cs, db). r = custom_restart unmarshal db \<and> cs = combo_restart unmarshal db)"

lemma in_step_keeps:
  assumes codec: "\<And>cm. unmarshal (marshal (custom_model_json cm)) = Some (custom_model_json cm)"
      "\<And>c. unmarshal (marshal (combo_json c)) = Some (combo_json c)"
    and s: "in_step unmarshal s" and x: "has_store x"
  shows "in_step unmarshal (registries_step marshal x s)"
proof -
  obtain r cs db where seq: "s = (r, cs, db)" by (cases s)
  show ?thesis
  proof (cases x)
    case (Inl y)
    let ?s = "stored_op custom_step (apply_custom marshal) y (r, db)"
    have "custom_view (fst ?s) = custom_view (custom_restart unmarshal (snd ?s))"
      using custom_cache.loaded_is_cached [of r "\<lambda>d. custom_view (custom_restart unmarshal d)" db "[y]" "apply_custom marshal"]
        s x Inl apply_custom_view [of unmarshal marshal, OF codec(1)] custom_calls_named
      by (cases y) (auto simp: in_step_def seq has_store_def)
    then have "fst ?s = custom_restart unmarshal (snd ?s)" by (rule custom_view_inj)
    moreover have "combo_restart unmarshal (snd ?s) = combo_restart unmarshal db"
      by (auto simp: stored_op_def Let_def apply_custom_frame split: prod.split
          intro: fold_frame [of "combo_restart unmarshal"])
    ultimately show ?thesis using s Inl by (simp add: registries_step_def seq in_step_def case_prod_unfold Let_def)
  next
    case (Inr y)
    let ?s = "stored_op combo_step (apply_combo marshal) y (cs, db)"
    have "fst ?s = combo_restart unmarshal (snd ?s)"
      using combo_cache.loaded_is_cached [of cs "combo_restart unmarshal" db "[y]" "apply_combo marshal"]
        s x Inr apply_combo_view [of unmarshal marshal, OF codec(2)] combo_calls_named
      by (cases y) (auto simp: in_step_def seq has_store_def)
    moreover have "custom_restart unmarshal (snd ?s) = custom_restart unmarshal db"
      by (auto simp: stored_op_def Let_def apply_combo_frame split: prod.split
          intro: fold_frame [of "custom_restart unmarshal"])
    ultimately show ?thesis using s Inr by (simp add: registries_step_def seq in_step_def case_prod_unfold Let_def)
  qed
qed

text \<open>
  C37: A restart restores the custom models, aliases and combos. Serve any sequence of additions and
  deletions on the two registries, valid or refused, over a Redis that takes or fails each write, the
  values being written as JSON into the hashes of the store; a process that starts then and loads the
  hashes has the registries of the one that ran. The text of JSON only has to keep the values.
\<close>

theorem registries_survive_restart:
  assumes "\<forall>cm. unmarshal (marshal (custom_model_json cm)) = Some (custom_model_json cm)"
    and "\<forall>c. unmarshal (marshal (combo_json c)) = Some (combo_json c)"
    and "list_all has_store ops"
    and "fold (registries_step marshal) ops (NewCustomRegistry, NewComboRegistry, empty_json_db) = (r, cs, db)"
  shows "custom_restart unmarshal db = r \<and> combo_restart unmarshal db = cs"
proof -
  have "in_step unmarshal (NewCustomRegistry, NewComboRegistry, empty_json_db)"
    by (simp add: in_step_def custom_restart_def combo_restart_simps CustomRegistry_Load_def LoadCustomModels_def
        LoadCustomAliases_def LoadCombos_def load_hash_def NewCustomRegistry_def NewComboRegistry_def empty_json_db_def)
  then have "in_step unmarshal (fold (registries_step marshal) ops (NewCustomRegistry, NewComboRegistry, empty_json_db))"
    using assms(3)
  proof (induction ops rule: rev_induct)
    case (snoc y ys)
    then show ?case using in_step_keeps assms(1,2) by simp
  qed simp
  then show ?thesis by (simp add: assms(4) in_step_def)
qed

lemma stroke_values: "stroke_parse (stroke_marshal (custom_model_json cm)) = Some (custom_model_json cm)"
  "stroke_parse (stroke_marshal (combo_json c)) = Some (combo_json c)"
  by (simp_all add: stroke_codec)

theorem registries_survive_restart_witness:
  "let (r, cs, db) = fold (registries_step stroke_marshal)
       [Inl (Op_add_model ''kimi'' \<lparr>cm_upstream = ''grok'', cm_model_name = ''k'', cm_owned_by = [], cm_capabilities = None\<rparr>, Store_ok),
        Inr (Op_add_combo \<lparr>cb_Name = ''fast'', cb_Strategy = [], cb_Models = [''a''], cb_Description = [], cb_CompressionMode = []\<rparr>, Store_ok),
        Inl (Op_add_alias ''a'' ''b'', Store_err ''down'')]
       (NewCustomRegistry, NewComboRegistry, empty_json_db)
   in custom_restart stroke_parse db = r \<and> combo_restart stroke_parse db = cs"
proof -
  let ?ops = "[Inl (Op_add_model ''kimi'' \<lparr>cm_upstream = ''grok'', cm_model_name = ''k'', cm_owned_by = [], cm_capabilities = None\<rparr>, Store_ok),
     Inr (Op_add_combo \<lparr>cb_Name = ''fast'', cb_Strategy = [], cb_Models = [''a''], cb_Description = [], cb_CompressionMode = []\<rparr>, Store_ok),
     Inl (Op_add_alias ''a'' ''b'', Store_err ''down'')]"
  obtain r cs db where run: "fold (registries_step stroke_marshal) ?ops (NewCustomRegistry, NewComboRegistry, empty_json_db) = (r, cs, db)"
    by (metis prod_cases3)
  have "list_all has_store ?ops" by (simp add: has_store_def)
  from registries_survive_restart [OF _ _ this run, of stroke_parse] stroke_values show ?thesis
    unfolding run by simp
qed

end
