(* ===== verification/AdminRegistry.thy ===== *)
theory AdminRegistry
  imports ProxyPool StoredJson
begin

text \<open>
  The administration endpoints of \<open>internal/handlers/combos.go\<close>, \<open>custom.go\<close> and \<open>proxies.go\<close>: the
  inputs they decode and what they make of the combo registry, the registry of custom models and aliases,
  the hidden models and the proxy pool. A reply is its status with the error or the fields of its body; a
  body that is not JSON is \<open>None\<close>, and so is a component that was not set up.
\<close>

section \<open>Replies\<close>

datatype 'e admin_error =
    Not_initialised
  | Invalid_json
  | Missing string
  | Not_found
  | Refused 'e

type_synonym ('e, 'a) reply = "int \<times> ('e admin_error + 'a)"

text \<open>A handler of a component that may not be there; only the calls and the new state of one that is matter.\<close>

definition on_component ::
  "'r option \<Rightarrow> ('r \<Rightarrow> ('e, 'a) reply \<times> 'r \<times> 'c list) \<Rightarrow> ('e, 'a) reply \<times> 'r option \<times> 'c list" where
  "on_component reg h =
     (case reg of
        None \<Rightarrow> ((500, Inl Not_initialised), None, [])
      | Some r \<Rightarrow> (let (rep, r', cs) = h r in (rep, Some r', cs)))"

definition fail_reply :: "int \<Rightarrow> 'e admin_error \<Rightarrow> 'r \<Rightarrow> ('e, 'a) reply \<times> 'r \<times> 'c list" where
  "fail_reply status err r = ((status, Inl err), r, [])"

text \<open>The reply to an operation: \<open>status\<close> if it failed, and 200 with \<open>out\<close> if not.\<close>

definition op_reply :: "int \<Rightarrow> 'a \<Rightarrow> 'e option \<times> 'r \<times> 'c list \<Rightarrow> ('e, 'a) reply \<times> 'r \<times> 'c list" where
  "op_reply status out res =
     (case res of (err, r, cs) \<Rightarrow>
       ((case err of Some e \<Rightarrow> (status, Inl (Refused e)) | None \<Rightarrow> (200, Inr out)), r, cs))"

section \<open>Combos\<close>

text \<open>The combos are listed in no particular order; the list is the registry here.\<close>

record comboInput =
  ci_Name :: string
  ci_Strategy :: string
  ci_Models :: "string list"
  ci_Description :: string
  ci_CompressionMode :: string

definition decode_comboInput :: "json \<Rightarrow> comboInput option" where
  "decode_comboInput j =
     do { m \<leftarrow> unmarshal_map j;
          name \<leftarrow> tag_string m ''name'';
          strategy \<leftarrow> tag_string m ''strategy'';
          models \<leftarrow> tag [] (unmarshal_slice unmarshal_string) m ''models'';
          descr \<leftarrow> tag_string m ''description'';
          mode \<leftarrow> tag_string m ''compression_mode'';
          Some \<lparr>ci_Name = name, ci_Strategy = strategy, ci_Models = models, ci_Description = descr, ci_CompressionMode = mode\<rparr> }"

definition HandleListCombos :: "combo_registry option \<Rightarrow> ('e, combo_registry) reply" where
  "HandleListCombos reg = (case reg of None \<Rightarrow> (500, Inl Not_initialised) | Some r \<Rightarrow> (200, Inr r))"

definition HandleGetCombo :: "string \<Rightarrow> combo_registry option \<Rightarrow> ('e, combo) reply" where
  "HandleGetCombo param reg =
     (case reg of
        None \<Rightarrow> (500, Inl Not_initialised)
      | Some r \<Rightarrow>
        let name = trim_prefix param ''/'' in
        if name = [] then (400, Inl (Missing ''name''))
        else case GetCombo name r of None \<Rightarrow> (404, Inl Not_found) | Some c \<Rightarrow> (200, Inr c))"

definition HandleAddCombo ::
  "store_reply \<Rightarrow> json option \<Rightarrow> combo_registry option \<Rightarrow>
   (registry_error, string) reply \<times> combo_registry option \<times> combo_call list" where
  "HandleAddCombo st body reg =
     on_component reg (\<lambda>r.
       case body \<bind> decode_comboInput of
         None \<Rightarrow> fail_reply 400 Invalid_json r
       | Some i \<Rightarrow>
         op_reply 400 (ci_Name i)
           (AddCombo st \<lparr>cb_Name = ci_Name i, cb_Strategy = ci_Strategy i, cb_Models = ci_Models i,
              cb_Description = ci_Description i, cb_CompressionMode = ci_CompressionMode i\<rparr> r))"

definition HandleDeleteCombo ::
  "store_reply \<Rightarrow> string \<Rightarrow> combo_registry option \<Rightarrow>
   (registry_error, string) reply \<times> combo_registry option \<times> combo_call list" where
  "HandleDeleteCombo st param reg =
     on_component reg (\<lambda>r.
       let name = trim_prefix param ''/'' in
       if name = [] then fail_reply 400 (Missing ''name'') r
       else op_reply 500 name (DeleteCombo st name r))"

section \<open>Custom models and aliases\<close>

record customModelInput =
  mi_ID :: string
  mi_Upstream :: string
  mi_ModelName :: string
  mi_OwnedBy :: string
  mi_Capabilities :: "string list option"

definition decode_customModelInput :: "json \<Rightarrow> customModelInput option" where
  "decode_customModelInput j =
     do { m \<leftarrow> unmarshal_map j;
          i \<leftarrow> tag_string m ''id'';
          up \<leftarrow> tag_string m ''upstream'';
          name \<leftarrow> tag_string m ''model_name'';
          owner \<leftarrow> tag_string m ''owned_by'';
          caps \<leftarrow> tag_ptr (unmarshal_slice unmarshal_string) m ''capabilities'';
          Some \<lparr>mi_ID = i, mi_Upstream = up, mi_ModelName = name, mi_OwnedBy = owner, mi_Capabilities = caps\<rparr> }"

definition decode_hiddenModelInput :: "json \<Rightarrow> (string \<times> bool) option" where
  "decode_hiddenModelInput j =
     do { m \<leftarrow> unmarshal_map j; i \<leftarrow> tag_string m ''id''; h \<leftarrow> tag False unmarshal_bool m ''hidden''; Some (i, h) }"

definition decode_aliasInput :: "json \<Rightarrow> (string \<times> string) option" where
  "decode_aliasInput j =
     do { m \<leftarrow> unmarshal_map j; a \<leftarrow> tag_string m ''alias''; t \<leftarrow> tag_string m ''target''; Some (a, t) }"

definition HandleListCustomModels :: "custom_registry option \<Rightarrow> ('e, string \<Rightarrow> custom_model option) reply" where
  "HandleListCustomModels reg = (case reg of None \<Rightarrow> (500, Inl Not_initialised) | Some r \<Rightarrow> (200, Inr (cr_models r)))"

definition HandleAddCustomModel ::
  "store_reply \<Rightarrow> json option \<Rightarrow> custom_registry option \<Rightarrow>
   (registry_error, string) reply \<times> custom_registry option \<times> custom_call list" where
  "HandleAddCustomModel st body reg =
     on_component reg (\<lambda>r.
       case body \<bind> decode_customModelInput of
         None \<Rightarrow> fail_reply 400 Invalid_json r
       | Some i \<Rightarrow>
         op_reply 400 (mi_ID i)
           (CustomRegistry_AddModel st (mi_ID i)
              \<lparr>cm_upstream = mi_Upstream i, cm_model_name = mi_ModelName i, cm_owned_by = mi_OwnedBy i,
               cm_capabilities = mi_Capabilities i\<rparr> r))"

definition HandleDeleteCustomModel ::
  "store_reply \<Rightarrow> string \<Rightarrow> custom_registry option \<Rightarrow>
   (registry_error, string) reply \<times> custom_registry option \<times> custom_call list" where
  "HandleDeleteCustomModel st param reg =
     on_component reg (\<lambda>r.
       let i = (case param of c # cs \<Rightarrow> if c = CHR ''/'' then cs else param | [] \<Rightarrow> param) in
       if i = [] then fail_reply 400 (Missing ''id'') r
       else op_reply 500 i (CustomRegistry_DeleteModel st i r))"

definition HandleListAliases :: "custom_registry option \<Rightarrow> ('e, string \<Rightarrow> string option) reply" where
  "HandleListAliases reg = (case reg of None \<Rightarrow> (500, Inl Not_initialised) | Some r \<Rightarrow> (200, Inr (cr_aliases r)))"

definition HandleAddAlias ::
  "store_reply \<Rightarrow> json option \<Rightarrow> custom_registry option \<Rightarrow>
   (registry_error, string \<times> string) reply \<times> custom_registry option \<times> custom_call list" where
  "HandleAddAlias st body reg =
     on_component reg (\<lambda>r.
       case body \<bind> decode_aliasInput of
         None \<Rightarrow> fail_reply 400 Invalid_json r
       | Some (a, t) \<Rightarrow> op_reply 400 (a, t) (CustomRegistry_AddAlias st a t r))"

definition HandleDeleteAlias ::
  "store_reply \<Rightarrow> string \<Rightarrow> custom_registry option \<Rightarrow>
   (registry_error, string) reply \<times> custom_registry option \<times> custom_call list" where
  "HandleDeleteAlias st param reg =
     on_component reg (\<lambda>r.
       let alias = trim_prefix param ''/'' in
       if alias = [] then fail_reply 400 (Missing ''alias'') r
       else op_reply 500 alias (CustomRegistry_DeleteAlias st alias r))"

section \<open>Hidden models\<close>

text \<open>\<open>store\<close> is the database when there is a store, and \<open>readable\<close> says whether the hash can be read.\<close>

definition HandleListHiddenModels ::
  "(string \<Rightarrow> json option) \<Rightarrow> bool \<Rightarrow> bool \<Rightarrow> json_db option \<Rightarrow> (json_db_error, string \<Rightarrow> hidden_model option) reply" where
  "HandleListHiddenModels unmarshal ready readable store =
     (case store of
        None \<Rightarrow> (500, Inl Not_initialised)
      | Some db \<Rightarrow>
        (case LoadHiddenModels unmarshal ready (if readable then Some (jd_hidden db) else None) of
           None \<Rightarrow> (500, Inl (Refused Redis_failed))
         | Some hs \<Rightarrow> (200, Inr (\<lambda>i. case hs i of Some h \<Rightarrow> if hm_Hidden h then Some h else None | None \<Rightarrow> None))))"

definition HandleSetHiddenModel ::
  "(json \<Rightarrow> string) \<Rightarrow> bool \<Rightarrow> bool \<Rightarrow> int \<Rightarrow> json option \<Rightarrow> json_db option \<Rightarrow>
   (json_db_error, string \<times> bool) reply \<times> json_db option" where
  "HandleSetHiddenModel marshal ready ok now body store =
     (let (rep, db, _) = on_component store (\<lambda>db.
        case body \<bind> decode_hiddenModelInput of
          None \<Rightarrow> fail_reply 400 Invalid_json db
        | Some (i, hidden) \<Rightarrow>
          if i = [] then fail_reply 400 (Missing ''id'') db
          else if \<not> hidden then op_reply 500 (i, False) (case DeleteHiddenModel ready ok i db of (e, db') \<Rightarrow> (e, db', [] :: unit list))
          else op_reply 500 (i, True)
            (case SaveHiddenModel marshal ready ok now \<lparr>hm_ID = i, hm_Hidden = True, hm_HiddenAt = 0\<rparr> db of (e, db') \<Rightarrow> (e, db', [])))
      in (rep, db))"

section \<open>Proxies\<close>

record proxyInput =
  pi_Protocol :: string
  pi_Host :: string
  pi_Port :: int
  pi_Username :: string
  pi_Password :: string
  pi_Label :: string
  pi_Upstreams :: "string list option"
  pi_Enabled :: "bool option"

definition decode_proxyInput :: "json \<Rightarrow> proxyInput option" where
  "decode_proxyInput j =
     do { m \<leftarrow> unmarshal_map j;
          protocol \<leftarrow> tag_string m ''protocol'';
          host \<leftarrow> tag_string m ''host'';
          port \<leftarrow> tag 0 unmarshal_int m ''port'';
          user \<leftarrow> tag_string m ''username'';
          password \<leftarrow> tag_string m ''password'';
          label \<leftarrow> tag_string m ''label'';
          ups \<leftarrow> tag_ptr (unmarshal_slice unmarshal_string) m ''upstreams'';
          enabled \<leftarrow> tag_ptr unmarshal_bool m ''enabled'';
          Some \<lparr>pi_Protocol = protocol, pi_Host = host, pi_Port = port, pi_Username = user, pi_Password = password,
                pi_Label = label, pi_Upstreams = ups, pi_Enabled = enabled\<rparr> }"

definition input_entry :: "proxyInput \<Rightarrow> bool \<Rightarrow> proxy_entry" where
  "input_entry i enabled =
     \<lparr>pe_id = [], pe_protocol = pi_Protocol i, pe_host = pi_Host i, pe_port = pi_Port i, pe_username = pi_Username i,
      pe_password = pi_Password i, pe_enabled = enabled, pe_label = pi_Label i, pe_upstreams = pi_Upstreams i,
      pe_created_at = 0, pe_last_used_at = 0, pe_fail_count = 0\<rparr>"

record proxy_stats =
  ps_total :: nat
  ps_enabled :: nat
  ps_disabled :: nat
  ps_active :: nat

definition used_lately :: "gotime \<Rightarrow> proxy_entry \<Rightarrow> bool" where
  "used_lately now e \<longleftrightarrow> pe_last_used_at e \<noteq> 0 \<and> pe_last_used_at e > now - 300 * second"

definition HandleListProxies :: "gotime \<Rightarrow> proxy_pool option \<Rightarrow> ('e, proxy_entry list \<times> proxy_stats) reply" where
  "HandleListProxies now pool =
     (case pool of
        None \<Rightarrow> (500, Inl Not_initialised)
      | Some p \<Rightarrow>
        let entries = ProxyPool_List p in
        (200, Inr (entries,
           \<lparr>ps_total = length entries, ps_enabled = length (filter pe_enabled entries),
            ps_disabled = length (filter (\<lambda>e. \<not> pe_enabled e) entries),
            ps_active = length (filter (used_lately now) entries)\<rparr>)))"

definition HandleAddProxy ::
  "store_reply \<Rightarrow> string option \<Rightarrow> gotime \<Rightarrow> json option \<Rightarrow> proxy_pool option \<Rightarrow>
   (pool_error, proxy_entry) reply \<times> proxy_pool option \<times> store_call list" where
  "HandleAddProxy st newid now body pool =
     on_component pool (\<lambda>p.
       case body \<bind> decode_proxyInput of
         None \<Rightarrow> fail_reply 400 Invalid_json p
       | Some i \<Rightarrow>
         (case ProxyPool_Add st newid now (input_entry i (case pi_Enabled i of None \<Rightarrow> True | Some b \<Rightarrow> b)) p of
            (Inl err, p', cs) \<Rightarrow> ((400, Inl (Refused err)), p', cs)
          | (Inr created, p', cs) \<Rightarrow> ((200, Inr created), p', cs)))"

definition zero_entry :: proxy_entry where
  "zero_entry =
     \<lparr>pe_id = [], pe_protocol = [], pe_host = [], pe_port = 0, pe_username = [], pe_password = [], pe_enabled = False,
      pe_label = [], pe_upstreams = None, pe_created_at = 0, pe_last_used_at = 0, pe_fail_count = 0\<rparr>"

text \<open>
  The update reads the entry first when the input does not say whether it is enabled; nothing is taken to
  happen in between.
\<close>

definition HandleUpdateProxy ::
  "store_reply \<Rightarrow> string \<Rightarrow> json option \<Rightarrow> proxy_pool option \<Rightarrow>
   (pool_error, proxy_entry) reply \<times> proxy_pool option \<times> store_call list" where
  "HandleUpdateProxy st param body pool =
     on_component pool (\<lambda>p.
       let i = trim_space param in
       if i = [] then fail_reply 400 (Missing ''id'') p
       else case body \<bind> decode_proxyInput of
         None \<Rightarrow> fail_reply 400 Invalid_json p
       | Some inp \<Rightarrow>
         (case (case pi_Enabled inp of Some b \<Rightarrow> Some b | None \<Rightarrow> map_option pe_enabled (ProxyPool_Get i p)) of
            None \<Rightarrow> fail_reply 404 Not_found p
          | Some enabled \<Rightarrow>
            (case ProxyPool_Update st i (input_entry inp enabled) p of
               ((updated, Some err), p', cs) \<Rightarrow> ((400, Inl (Refused err)), p', cs)
             | ((updated, None), p', cs) \<Rightarrow>
               ((200, Inr (masked (case updated of Some e \<Rightarrow> e | None \<Rightarrow> zero_entry))), p', cs))))"

definition HandleDeleteProxy ::
  "store_reply \<Rightarrow> string \<Rightarrow> proxy_pool option \<Rightarrow> (pool_error, string) reply \<times> proxy_pool option \<times> store_call list" where
  "HandleDeleteProxy st param pool =
     on_component pool (\<lambda>p.
       let i = trim_space param in
       if i = [] then fail_reply 400 (Missing ''id'') p
       else op_reply 400 i (ProxyPool_Delete st i p))"

definition HandleToggleProxy ::
  "store_reply \<Rightarrow> string \<Rightarrow> proxy_pool option \<Rightarrow> (pool_error, string \<times> bool) reply \<times> proxy_pool option \<times> store_call list" where
  "HandleToggleProxy st param pool =
     on_component pool (\<lambda>p.
       let i = trim_space param in
       if i = [] then fail_reply 400 (Missing ''id'') p
       else case ProxyPool_Toggle st i p of
         ((enabled, err), p', cs) \<Rightarrow> op_reply 400 (i, enabled) (err, p', cs))"

text \<open>Success, the address if there is one, and the error; the latency is left out.\<close>

definition HandleTestProxy ::
  "net_env \<Rightarrow> (transport \<Rightarrow> (int \<times> string) option) \<Rightarrow> string \<Rightarrow> proxy_pool option \<Rightarrow>
   (pool_error, bool \<times> string option \<times> pool_error option) reply" where
  "HandleTestProxy env probe param pool =
     (case pool of
        None \<Rightarrow> (500, Inl Not_initialised)
      | Some p \<Rightarrow>
        let i = trim_space param in
        if i = [] then (400, Inl (Missing ''id''))
        else case ProxyPool_Test env probe i p of
          Inl err \<Rightarrow> (200, Inr (False, None, Some err))
        | Inr ip \<Rightarrow> (200, Inr (True, if ip = [] then None else Some ip, None)))"

section \<open>The dashboard's forms\<close>

text \<open>The fields of an entry that the form of the dashboard sends back.\<close>

definition form_json :: "proxy_entry \<Rightarrow> json" where
  "form_json e =
     J_obj [(''protocol'', J_str (pe_protocol e)), (''host'', J_str (pe_host e)), (''port'', J_num (of_int (pe_port e))),
            (''username'', J_str (pe_username e)), (''password'', J_str (pe_password e)), (''label'', J_str (pe_label e)),
            (''upstreams'', strings_json (pe_upstreams e)), (''enabled'', J_bool (pe_enabled e))]"

lemma decode_form:
  "fits64 (pe_port e) \<Longrightarrow> decode_proxyInput (form_json e) =
     Some \<lparr>pi_Protocol = pe_protocol e, pi_Host = pe_host e, pi_Port = pe_port e, pi_Username = pe_username e,
           pi_Password = pe_password e, pi_Label = pe_label e, pi_Upstreams = pe_upstreams e,
           pi_Enabled = Some (pe_enabled e)\<rparr>"
  by (simp add: decode_proxyInput_def form_json_def tag_string_def tag_def tag_ptr_def del: unmarshal_int.simps)

lemma input_of_shown:
  "merge_update (input_entry \<lparr>pi_Protocol = pe_protocol s, pi_Host = pe_host s, pi_Port = pe_port s, pi_Username = pe_username s,
      pi_Password = pe_password s, pi_Label = pe_label s, pi_Upstreams = pe_upstreams s, pi_Enabled = en\<rparr> (pe_enabled s)) e =
   merge_update s e"
  by (simp add: merge_update_def input_entry_def)

text \<open>
  Posting a form as it was shown changes nothing but the failure count, the password that was not shown
  included, and the reply shows it no more than the list does.
\<close>

theorem form_put_back:
  assumes "trim_space param = i" and "ProxyPool_Get i p = Some shown" and "\<forall>e \<in> set (pp_entries p). well_formed e"
  shows "\<exists>idx p' cs. idx < length (pp_entries p) \<and>
    HandleUpdateProxy Store_ok param (Some (form_json shown)) (Some p) =
      ((200, Inr (masked ((pp_entries p ! idx)\<lparr>pe_fail_count := 0\<rparr>))), Some p', cs) \<and>
    pp_entries p' = (pp_entries p)[idx := (pp_entries p ! idx)\<lparr>pe_fail_count := 0\<rparr>]"
proof -
  from assms(2) obtain idx where idx: "i \<noteq> []" "find_idx (\<lambda>e. pe_id e = i) (pp_entries p) = Some idx"
      "shown = masked (pp_entries p ! idx)"
    by (rule Get_idx)
  let ?e = "pp_entries p ! idx"
  have len: "idx < length (pp_entries p)" using find_idx_SomeD [OF idx(2)] by simp
  then have wf: "well_formed ?e" using assms(3) by simp
  then have "fits64 (pe_port shown)" using idx(3) by (simp add: well_formed_def entry_valid_def fits64_def masked_def)
  moreover have "validateEntry ?e = Inr ?e" using wf by (simp add: well_formed_def validateEntry_fixed)
  ultimately show ?thesis
    using idx len assms(1)
    by (intro exI [of _ idx])
      (simp add: HandleUpdateProxy_def on_component_def decode_form ProxyPool_Update_def input_of_shown
        merge_update_masked save_result_def Let_def)
qed

theorem form_put_back_witness:
  "fst (fst (HandleUpdateProxy Store_ok '' b '' (Some (form_json (masked (demo_entry ''b'')))) (Some (demo_pool [''a'', ''b''])))) = 200"
proof -
  have "trim_space '' b '' = ''b''" by code_simp
  moreover have "ProxyPool_Get ''b'' (demo_pool [''a'', ''b'']) = Some (masked (demo_entry ''b''))"
    by (simp add: ProxyPool_Get_def demo_pool_def demo_entry_def)
  moreover have "\<forall>e \<in> set (pp_entries (demo_pool [''a'', ''b''])). well_formed e"
    using well_formed_validated [OF demo_entry_validates] by (simp add: demo_pool_def)
  ultimately obtain e p' cs where "HandleUpdateProxy Store_ok '' b '' (Some (form_json (masked (demo_entry ''b'')))) (Some (demo_pool [''a'', ''b''])) =
      ((200, Inr e), p', cs)"
    using form_put_back by metis
  then show ?thesis by simp
qed

text \<open>No password is listed, and the numbers add up.\<close>

lemma list_hides_passwords:
  assumes "HandleListProxies now (Some p) = (200, Inr (es, st))"
  shows "\<forall>e \<in> set es. pe_password e \<in> {[], ''***''}" and "ps_enabled st + ps_disabled st = ps_total st"
  using assms sum_length_filter_compl [of pe_enabled "ProxyPool_List p"]
  by (auto simp: HandleListProxies_def ProxyPool_List_def masked_def Let_def simp del: length_filter_map split: if_splits)

text \<open>Serving a proxy changes nothing the list shows: who was active is only known after a restart.\<close>

lemma active_is_stale:
  "HandleListProxies later (Some (fst (snd (ProxyPool_Next reply now u p)))) = HandleListProxies later (Some p)"
  by (simp add: HandleListProxies_def ProxyPool_List_def ProxyPool_Next_def Let_def split: prod.split)

text \<open>A write that Redis fails is answered with an error, and done in memory.\<close>

lemma refused_toggle_is_done:
  "let res = HandleToggleProxy (Store_err ''down'') ''a'' (Some (demo_pool [''a''])) in
   fst (fst res) = 400 \<and> map_option (map pe_enabled \<circ> pp_entries) (fst (snd res)) = Some [False]"
proof -
  have "trim_space ''a'' = ''a''" by code_simp
  then show ?thesis
    by (simp add: HandleToggleProxy_def on_component_def op_reply_def ProxyPool_Toggle_def save_result_def Let_def
        demo_pool_def demo_entry_def)
qed

section \<open>The other endpoints\<close>

text \<open>Hiding a model lists it as hidden since now, showing it again takes it off the list.\<close>

theorem hidden_list_follows:
  assumes "\<forall>h. unmarshal (marshal (hidden_model_json h)) = Some (hidden_model_json h)" and "fits64 now"
    and "HandleListHiddenModels unmarshal True True (Some db) = (200, Inr hs)"
    and "HandleSetHiddenModel marshal True ok now body (Some db) = ((200, Inr (i, hidden)), Some db')"
  shows "HandleListHiddenModels unmarshal True True (Some db') =
    (200, Inr (hs(i := if hidden then Some \<lparr>hm_ID = i, hm_Hidden = True, hm_HiddenAt = now\<rparr> else None)))"
proof -
  from assms(4) have db': "i \<noteq> []" "jd_hidden db' =
      (if hidden then (jd_hidden db)(i \<mapsto> marshal (hidden_model_json \<lparr>hm_ID = i, hm_Hidden = True, hm_HiddenAt = now\<rparr>))
       else (jd_hidden db)(i := None))"
    by (auto simp: HandleSetHiddenModel_def on_component_def op_reply_def fail_reply_def SaveHiddenModel_def
        DeleteHiddenModel_def redis_command_def Let_def split: option.splits prod.splits if_splits)
  have saved: "the (load_hash unmarshal decode_hidden_model True (Some ((jd_hidden db)(i \<mapsto>
        marshal (hidden_model_json \<lparr>hm_ID = i, hm_Hidden = True, hm_HiddenAt = now\<rparr>))))) =
      (the (load_hash unmarshal decode_hidden_model True (Some (jd_hidden db))))(i \<mapsto> \<lparr>hm_ID = i, hm_Hidden = True, hm_HiddenAt = now\<rparr>)"
    using assms(1,2) db'(1) by (intro hidden_values.load_saved) simp_all
  have loaded: "LoadHiddenModels unmarshal True (Some v) = Some (the (load_hash unmarshal decode_hidden_model True (Some v)))" for v
    by (simp add: LoadHiddenModels_def load_hash_def)
  let ?load = "\<lambda>v. the (load_hash unmarshal decode_hidden_model True (Some v))"
  have "hs = (\<lambda>i. case ?load (jd_hidden db) i of Some h \<Rightarrow> if hm_Hidden h then Some h else None | None \<Rightarrow> None)"
    using assms(3) by (simp add: HandleListHiddenModels_def loaded)
  moreover have "?load (jd_hidden db') =
      (?load (jd_hidden db))(i := if hidden then Some \<lparr>hm_ID = i, hm_Hidden = True, hm_HiddenAt = now\<rparr> else None)"
    by (simp only: db'(2) saved hidden_values.load_deleted split: if_split) simp
  ultimately show ?thesis by (auto simp: HandleListHiddenModels_def loaded)
qed

theorem hidden_list_follows_witness:
  "let hide = HandleSetHiddenModel stroke_marshal True True 7 (Some (J_obj [(''id'', J_str ''x''), (''hidden'', J_bool True)])) (Some empty_json_db)
   in HandleListHiddenModels stroke_parse True True (snd hide) =
        (200, Inr [''x'' \<mapsto> \<lparr>hm_ID = ''x'', hm_Hidden = True, hm_HiddenAt = 7\<rparr>])"
proof -
  let ?body = "Some (J_obj [(''id'', J_str ''x''), (''hidden'', J_bool True)])"
  let ?db = "snd (HandleSetHiddenModel stroke_marshal True True 7 ?body (Some empty_json_db))"
  have "HandleSetHiddenModel stroke_marshal True True 7 ?body (Some empty_json_db) = ((200, Inr (''x'', True)), Some (the ?db))"
    "?db = Some (the ?db)"
    by (simp_all add: HandleSetHiddenModel_def on_component_def op_reply_def decode_hiddenModelInput_def tag_string_def
        tag_def SaveHiddenModel_def redis_command_def)
  moreover have "HandleListHiddenModels stroke_parse True True (Some empty_json_db) = (200, Inr Map.empty)"
    by (simp add: HandleListHiddenModels_def LoadHiddenModels_def load_hash_def empty_json_db_def)
  ultimately have "HandleListHiddenModels stroke_parse True True (Some (the ?db)) =
      (200, Inr (Map.empty(''x'' := if True then Some \<lparr>hm_ID = ''x'', hm_Hidden = True, hm_HiddenAt = 7\<rparr> else None)))"
    using stroke_codec by (intro hidden_list_follows) (simp_all add: fits64_def)
  then show ?thesis using \<open>?db = Some (the ?db)\<close> unfolding Let_def by (metis (full_types))
qed

text \<open>The reply to an addition names the combo as it was sent, which may not be how it is found.\<close>

lemma added_under_another_name:
  "let (rep, reg, cs) = HandleAddCombo Store_ok
         (Some (J_obj [(''name'', J_str '' fast ''), (''models'', J_arr [J_str ''a''])])) (Some NewComboRegistry)
   in rep = (200, Inr '' fast '') \<and> HandleGetCombo ''/ fast '' reg = (404 :: int, Inl Not_found :: registry_error admin_error + combo)"
proof -
  have "trim_space '' fast '' = ''fast''" "trim_space ''a'' = ''a''" "trim_space [] = []" "safe_name ''fast''"
    "trim_prefix ''/ fast '' ''/'' = '' fast ''" by code_simp+
  then show ?thesis
    by (simp add: HandleAddCombo_def on_component_def op_reply_def decode_comboInput_def tag_string_def tag_def AddCombo_def
        has_prefix_def NewComboRegistry_def write_then_def clean_models_def HandleGetCombo_def GetCombo_def Let_def)
qed

end
