(* ===== verification/Features.thy ===== *)
theory Features
  imports Studio TokenSaver Auth Decode
begin

text \<open>
  The endpoints of \<open>features_handlers.go\<close>: the settings of the token saver, the preview of the compressors
  (one mode, or several engines beside each other and in a row), and the settings shown for command line
  clients. The live console in the same file is in \<open>Console\<close>.
\<close>

section \<open>The preview of a mode\<close>

record preview_request =
  pq_Text :: string
  pq_Mode :: string
  pq_Model :: string
  pq_Provider :: string

definition decode_preview :: "json \<Rightarrow> preview_request option" where
  "decode_preview j =
     do { m \<leftarrow> unmarshal_map j;
          t \<leftarrow> tag_string m ''text'';
          mode \<leftarrow> tag_string m ''mode'';
          model \<leftarrow> tag_string m ''model'';
          provider \<leftarrow> tag_string m ''provider'';
          Some \<lparr>pq_Text = t, pq_Mode = mode, pq_Model = model, pq_Provider = provider\<rparr> }"

datatype preview_reply =
    Preview_error
  | Preview_same string string
  | Preview_saved string string string int int int rat "string list"

text \<open>The text of the first message, if it is one.\<close>

definition first_text :: "json \<Rightarrow> string \<Rightarrow> string" where
  "first_text body orig =
     (case messagesOf body of
        Some (m # _) \<Rightarrow> (case string_content m of Some s \<Rightarrow> s | None \<Rightarrow> orig)
      | _ \<Rightarrow> orig)"

definition handleCompressionPreview :: "comp_env \<Rightarrow> json option \<Rightarrow> int \<times> preview_reply" where
  "handleCompressionPreview e body =
     (case body \<bind> decode_preview of
        None \<Rightarrow> (400, Preview_error)
      | Some req \<Rightarrow>
        if pq_Text req = [] then (400, Preview_error)
        else
          let mode = ParseMode (pq_Mode req) in
          if mode = ''off'' then (400, Preview_error)
          else
            let b = J_obj [(''messages'', J_arr [J_obj [(''role'', J_str ''user''), (''content'', J_str (pq_Text req))]])];
                res = Apply e b mode \<lparr>co_Model = pq_Model req, co_Provider = pq_Provider req, co_PreserveSystemPrompt = True\<rparr>
            in case cr_Stats res of
                 None \<Rightarrow> (200, Preview_same mode (pq_Text req))
               | Some st \<Rightarrow>
                 if \<not> cr_Compressed res then (200, Preview_same mode (pq_Text req))
                 else (200, Preview_saved mode (pq_Text req) (first_text (cr_Body res) (pq_Text req)) (cs_OriginalTokens st)
                        (cs_CompressedTokens st) (cs_OriginalTokens st - cs_CompressedTokens st) (cs_SavingsPercent st)
                        (cs_TechniquesUsed st)))"

section \<open>The preview of several engines\<close>

record multi_request =
  mq_Text :: string
  mq_Engines :: "string list"
  mq_Stacked :: "string list"
  mq_FidelityGate :: bool

definition decode_multi :: "json \<Rightarrow> multi_request option" where
  "decode_multi j =
     do { m \<leftarrow> unmarshal_map j;
          t \<leftarrow> tag_string m ''text'';
          es \<leftarrow> tag [] (unmarshal_slice unmarshal_string) m ''engines'';
          st \<leftarrow> tag [] (unmarshal_slice unmarshal_string) m ''stacked'';
          g \<leftarrow> tag False unmarshal_bool m ''fidelity_gate'';
          Some \<lparr>mq_Text = t, mq_Engines = es, mq_Stacked = st, mq_FidelityGate = g\<rparr> }"

record lane =
  ln_Engine :: string
  ln_Compressed :: bool
  ln_OriginalTokens :: int
  ln_CompressedTokens :: int
  ln_SavingsPercent :: rat
  ln_Techniques :: "string list"
  ln_Result :: string
  ln_Steps :: "step_breakdown list"
  ln_Diff :: "(diff_kind \<times> string) list"

definition EstimateTokensExported :: "string \<Rightarrow> int" where
  "EstimateTokensExported t = int (text_tokens t)"

definition preview_options :: comp_options where
  "preview_options = \<lparr>co_Model = [], co_Provider = [], co_PreserveSystemPrompt = True\<rparr>"

definition run_lane :: "comp_env \<Rightarrow> string \<Rightarrow> string \<Rightarrow> lane" where
  "run_lane e t eng =
     (let res = ApplyEngine e (BuildBody t) eng preview_options;
          plain = \<lparr>ln_Engine = eng, ln_Compressed = False, ln_OriginalTokens = EstimateTokensExported t,
            ln_CompressedTokens = EstimateTokensExported t, ln_SavingsPercent = 0, ln_Techniques = [], ln_Result = t,
            ln_Steps = [], ln_Diff = []\<rparr>
      in case cr_Stats res of
           None \<Rightarrow> plain
         | Some st \<Rightarrow>
           if \<not> cr_Compressed res then plain
           else
             let out = studio_text (cr_Body res) in
             \<lparr>ln_Engine = eng, ln_Compressed = True, ln_OriginalTokens = cs_OriginalTokens st,
              ln_CompressedTokens = cs_CompressedTokens st, ln_SavingsPercent = cs_SavingsPercent st,
              ln_Techniques = cs_TechniquesUsed st, ln_Result = out,
              ln_Steps = [\<lparr>sb_Name = eng, sb_TokensBefore = cs_OriginalTokens st, sb_TokensAfter = cs_CompressedTokens st,
                          sb_SavingsPct = cs_SavingsPercent st\<rparr>],
              ln_Diff = WordDiff t out\<rparr>)"

record stacked_reply =
  sk_Pipeline :: "string list"
  sk_Compressed :: bool
  sk_Tokens :: "(int \<times> int \<times> rat) option"
  sk_Result :: string
  sk_Steps :: "step_breakdown list"
  sk_Diff :: "(diff_kind \<times> string) list"

definition run_stack :: "comp_env \<Rightarrow> string \<Rightarrow> string list \<Rightarrow> stacked_reply" where
  "run_stack e t engines =
     (let (res, steps) = RunStacked e (BuildBody t) engines preview_options;
          plain = \<lparr>sk_Pipeline = engines, sk_Compressed = False, sk_Tokens = None, sk_Result = t, sk_Steps = steps, sk_Diff = []\<rparr>
      in case cr_Stats res of
           None \<Rightarrow> plain
         | Some st \<Rightarrow>
           if \<not> cr_Compressed res then plain
           else
             let out = studio_text (cr_Body res) in
             \<lparr>sk_Pipeline = engines, sk_Compressed = True,
              sk_Tokens = Some (cs_OriginalTokens st, cs_CompressedTokens st, cs_SavingsPercent st),
              sk_Result = out, sk_Steps = steps, sk_Diff = WordDiff t out\<rparr>)"

definition default_engines :: "string list" where
  "default_engines = [''rtk'', ''caveman'', ''lite'', ''ultra'', ''summarizer'']"

definition handleCompressionPreviewMulti ::
  "comp_env \<Rightarrow> json option \<Rightarrow> int \<times> (lane list \<times> int \<times> stacked_reply option) option" where
  "handleCompressionPreviewMulti e body =
     (case body \<bind> decode_multi of
        None \<Rightarrow> (400, None)
      | Some req \<Rightarrow>
        if mq_Text req = [] then (400, None)
        else
          let engines = (if mq_Engines req = [] then default_engines else mq_Engines req);
              lanes = map (run_lane e (mq_Text req)) engines;
              stacked = (if length (mq_Stacked req) > 1 then Some (run_stack e (mq_Text req) (mq_Stacked req)) else None)
          in (200, Some (lanes, EstimateTokensExported (mq_Text req), stacked)))"

section \<open>The settings of the token saver\<close>

record saver_request =
  sr_Mode :: "string option"
  sr_RTK :: "bool option"
  sr_Headroom :: "bool option"
  sr_Caveman :: "bool option"
  sr_CavemanLevel :: "int option"
  sr_CodeStyle :: "bool option"

definition decode_saver :: "json \<Rightarrow> saver_request option" where
  "decode_saver j =
     do { m \<leftarrow> unmarshal_map j;
          mode \<leftarrow> tag_ptr unmarshal_string m ''mode'';
          r \<leftarrow> tag_ptr unmarshal_bool m ''rtk'';
          h \<leftarrow> tag_ptr unmarshal_bool m ''headroom'';
          c \<leftarrow> tag_ptr unmarshal_bool m ''caveman'';
          l \<leftarrow> tag_ptr unmarshal_int m ''caveman_level'';
          s \<leftarrow> tag_ptr unmarshal_bool m ''code_style'';
          Some \<lparr>sr_Mode = mode, sr_RTK = r, sr_Headroom = h, sr_Caveman = c, sr_CavemanLevel = l, sr_CodeStyle = s\<rparr> }"

text \<open>What is not given stays; the last component is what is written to Redis, when there is one.\<close>

definition given :: "'a option \<Rightarrow> 'a \<Rightarrow> 'a" where
  "given v old = (case v of Some x \<Rightarrow> x | None \<Rightarrow> old)"

definition handleSetTokenSaver ::
  "bool \<Rightarrow> json option \<Rightarrow> saver_config \<Rightarrow> (int \<times> saver_config option) \<times> saver_config \<times> saver_config option" where
  "handleSetTokenSaver redis body c =
     (case body \<bind> decode_saver of
        None \<Rightarrow> ((400, None), c, None)
      | Some req \<Rightarrow>
        (let cur = \<lparr>ts_Mode = given (map_option ParseMode (sr_Mode req)) (ts_Mode c), ts_RTK = given (sr_RTK req) (ts_RTK c),
               ts_Headroom = given (sr_Headroom req) (ts_Headroom c), ts_Caveman = given (sr_Caveman req) (ts_Caveman c),
               ts_CavemanLevel = given (sr_CavemanLevel req) (ts_CavemanLevel c),
               ts_CodeStyle = given (sr_CodeStyle req) (ts_CodeStyle c)\<rparr>;
             c' = saver_Set (ts_Mode cur) (ts_RTK cur) (ts_Headroom cur) (ts_Caveman cur) (ts_CavemanLevel cur)
                    (ts_CodeStyle cur) c
         in ((200, Some cur), c', if redis then Some c' else None)))"

section \<open>Settings for clients\<close>

record client_request =
  rc_Host :: string
  rc_ForwardedHost :: string
  rc_ForwardedProto :: string
  rc_TLS :: bool

definition client_endpoint :: "client_request \<Rightarrow> string" where
  "client_endpoint r =
     (let base = trim_slashes (if rc_ForwardedHost r \<noteq> [] then rc_ForwardedHost r else rc_Host r);
          scheme = (if rc_ForwardedProto r \<noteq> [] then rc_ForwardedProto r
                    else if \<not> rc_TLS r \<and> \<not> str_contains base ''onmi.my.id'' then ''http'' else ''https'')
      in scheme @ ''://'' @ base @ ''/v1'')"

text \<open>The first of the keys, in the order they are given, and nothing to show without any.\<close>

definition gatewayKeySample :: "manager option \<Rightarrow> string" where
  "gatewayKeySample mgr =
     (case mgr of
        None \<Rightarrow> ''YOUR_GATEWAY_KEY''
      | Some m \<Rightarrow> if m = [] then ''YOUR_GATEWAY_KEY'' else ki_Key (snd (hd m)))"

definition client_models :: "string list" where
  "client_models =
     [''grok-4.5'', ''grok-4.5-fast'', ''grok-3'', ''cb/claude-sonnet-4.6'', ''cb/claude-opus-4.6'', ''cb/gpt-5'',
      ''@cf/moonshotai/kimi-k2.6'', ''@cf/moonshotai/kimi-k2.7-code'', ''@cf/zai-org/glm-4.7-flash'',
      ''@cf/openai/gpt-oss-120b'', ''@cf/meta/llama-3.3-70b-instruct-fp8-fast'',
      ''@cf/meta/llama-3.1-8b-instruct-fp8-fast'', ''@cf/google/gemma-4-26b-a4b-it'',
      ''combo/auto'', ''combo/coding'', ''combo/cheap'']"

text \<open>The names under which each client takes the endpoint and the key.\<close>

definition client_fields :: "(string \<times> string \<times> string) list" where
  "client_fields =
     [(''claude-code'', ''ANTHROPIC_BASE_URL'', ''ANTHROPIC_API_KEY''),
      (''codex'', ''OPENAI_BASE_URL'', ''OPENAI_API_KEY''),
      (''cursor'', ''OPENAI_API_BASE'', ''OPENAI_API_KEY''),
      (''cline'', ''openai.baseUrl'', ''openai.apiKey''),
      (''openclaw'', ''OPENAI_BASE_URL'', ''OPENAI_API_KEY''),
      (''continue'', ''requestOptions.baseURL'', ''requestOptions.apiKey''),
      (''roo'', ''openai.baseUrl'', ''openai.apiKey''),
      (''copilot'', ''endpoint'', ''token'')]"

record cli_config =
  cc_endpoint :: string
  cc_apiKey :: string
  cc_models :: "string list"
  cc_clients :: "(string \<times> (string \<times> string) list) list"

definition handleCLIToolsConfig :: "client_request \<Rightarrow> manager option \<Rightarrow> cli_config" where
  "handleCLIToolsConfig r mgr =
     (let endpoint = client_endpoint r; key = gatewayKeySample mgr in
      \<lparr>cc_endpoint = endpoint, cc_apiKey = key, cc_models = client_models,
       cc_clients = map (\<lambda>(name, url, k). (name, [(url, endpoint), (k, key)])) client_fields\<rparr>)"

section \<open>What the endpoints show\<close>

lemma Apply_saves:
  assumes "cr_Stats (Apply e body mode opts) = Some st" and "cr_Compressed (Apply e body mode opts)"
  shows "cs_CompressedTokens st < cs_OriginalTokens st \<and> cs_OriginalTokens st = int (snapshotTokens body)"
proof -
  have checked: "cs_CompressedTokens s < cs_OriginalTokens s \<and> cs_OriginalTokens s = int (snapshotTokens body)"
    if "cr_Stats (checked now m body res) = Some s" "cr_Compressed (checked now m body res)" for now m res s
    using that by (auto simp: checked_def not_compressed_def Let_def split: if_splits)
  show ?thesis
    using assms unfolding Apply_def Let_def case_prod_unfold
    by (auto simp: not_compressed_def dest!: checked split: if_splits)
qed

text \<open>A preview that reports a saving reports a real one, of the tokens it counts.\<close>

definition preview_body :: "string \<Rightarrow> json" where
  "preview_body t = J_obj [(''messages'', J_arr [J_obj [(''role'', J_str ''user''), (''content'', J_str t)]])]"

lemma preview_saves:
  assumes "handleCompressionPreview e body = (200, Preview_saved mode t out before after saved pct techs)"
  shows "saved = before - after \<and> 0 < saved \<and> mode \<noteq> ''off'' \<and> before = int (snapshotTokens (preview_body t))"
proof -
  from assms obtain req where req: "body \<bind> decode_preview = Some req"
    by (auto simp: handleCompressionPreview_def split: option.splits)
  let ?res = "Apply e (preview_body (pq_Text req)) (ParseMode (pq_Mode req))
    \<lparr>co_Model = pq_Model req, co_Provider = pq_Provider req, co_PreserveSystemPrompt = True\<rparr>"
  have "\<exists>st. cr_Stats ?res = Some st \<and> cr_Compressed ?res \<and> t = pq_Text req \<and> mode = ParseMode (pq_Mode req) \<and>
      mode \<noteq> ''off'' \<and> before = cs_OriginalTokens st \<and> after = cs_CompressedTokens st \<and> saved = before - after"
    using assms unfolding handleCompressionPreview_def req option.case Let_def preview_body_def [symmetric]
    by (cases "cr_Stats ?res") (simp_all split: if_splits)
  then obtain st where st: "cr_Stats ?res = Some st" "cr_Compressed ?res" "t = pq_Text req" "mode \<noteq> ''off''"
      "before = cs_OriginalTokens st" "after = cs_CompressedTokens st" "saved = before - after" by blast
  from Apply_saves [OF st(1,2)] st(3-) show ?thesis by simp
qed

text \<open>A lane without a saving shows the text as it is, with its tokens.\<close>

lemma lane_plain:
  "\<not> ln_Compressed (run_lane e t eng) \<Longrightarrow> ln_Result (run_lane e t eng) = t \<and>
     ln_OriginalTokens (run_lane e t eng) = EstimateTokensExported t \<and> ln_CompressedTokens (run_lane e t eng) = EstimateTokensExported t"
  unfolding run_lane_def Let_def by (cases "cr_Stats (ApplyEngine e (BuildBody t) eng preview_options)") (simp_all split: if_splits)

text \<open>The lane of an engine that leaves the counting to \<open>Apply\<close> reports no tokens, whatever it saved.\<close>

lemma lane_without_tokens:
  "run_lane demo_env ''two words  '' ''lite'' =
     \<lparr>ln_Engine = ''lite'', ln_Compressed = True, ln_OriginalTokens = 0, ln_CompressedTokens = 0, ln_SavingsPercent = 0,
      ln_Techniques = cs_TechniquesUsed (the (cr_Stats (ApplyEngine demo_env (BuildBody ''two words  '') ''lite'' preview_options))),
      ln_Result = ''two words'', ln_Steps = [\<lparr>sb_Name = ''lite'', sb_TokensBefore = 0, sb_TokensAfter = 0, sb_SavingsPct = 0\<rparr>],
      ln_Diff = WordDiff ''two words  '' ''two words''\<rparr>"
  by code_simp

text \<open>A mode that does not exist turns the compression off.\<close>

lemma unknown_mode_turns_off:
  "handleSetTokenSaver False (Some (J_obj [(''mode'', J_str ''Ultra'')])) \<lparr>ts_Mode = ''ultra'', ts_RTK = True,
     ts_Headroom = False, ts_Caveman = False, ts_CavemanLevel = 2, ts_CodeStyle = False\<rparr> =
   (let c = \<lparr>ts_Mode = ''off'', ts_RTK = True, ts_Headroom = False, ts_Caveman = False, ts_CavemanLevel = 2, ts_CodeStyle = False\<rparr>
    in ((200, Some c), c, None))"
  by code_simp

text \<open>The settings survive a restart, if the level is not zero, which is read as two.\<close>

lemma settings_survive:
  assumes "handleSetTokenSaver True body c = ((200, Some shown), c', Some kept)" and "ts_Mode c \<noteq> []"
    and "unmarshal (marshal kept) = Some kept" and "marshal kept \<noteq> []"
  shows "shown = c' \<and> FromJSON unmarshal (marshal kept) DefaultConfig =
    c'\<lparr>ts_CavemanLevel := if ts_CavemanLevel c' = 0 then 2 else ts_CavemanLevel c'\<rparr>"
proof -
  from assms(1) obtain req where req: "body \<bind> decode_saver = Some req"
    by (auto simp: handleSetTokenSaver_def split: option.splits)
  have c': "c' = shown" "kept = c'" "ts_Mode c' = given (map_option ParseMode (sr_Mode req)) (ts_Mode c)"
    using assms(1) unfolding handleSetTokenSaver_def req option.case Let_def
    by (auto simp: saver_Set_def)
  have "ts_Mode c' \<noteq> []"
    using assms(2) unfolding c'(3) by (cases "sr_Mode req") (simp_all add: given_def ParseMode_def mode_valid_def)
  then show ?thesis using assms(3,4) c' by (simp add: FromJSON_def saver_Set_def DefaultConfig_def)
qed

text \<open>The key shown is the first one, disabled or not.\<close>

lemma disabled_key_shown:
  "cc_apiKey (handleCLIToolsConfig r (Some [(''gw-old'', (bootstrap_info 0 ''gw-old'')\<lparr>ki_Disabled := True\<rparr>)])) = ''gw-old''"
  by (simp add: handleCLIToolsConfig_def gatewayKeySample_def bootstrap_info_def Let_def)

lemma endpoint_of_proxy:
  "client_endpoint \<lparr>rc_Host = ''127.0.0.1:20130'', rc_ForwardedHost = ''gw.example.org/'', rc_ForwardedProto = [], rc_TLS = False\<rparr> =
     ''http://gw.example.org/v1''"
  by code_simp

end
