(* ===== verification/Mcp.thy ===== *)
theory Mcp
  imports Memory Quota Cache Cost Guardrails RequestLogs Presets Decode
begin

text \<open>
  The agent surface of \<open>internal/mcp/mcp.go\<close> (JSON-RPC tools and the agent-to-agent endpoint) over the notes, the
  quotas, the response cache and the request log, and the self-tests of \<open>internal/evals/evals.go\<close>. The gateway a
  self-test calls is an argument; latencies and the text of times are left out.
\<close>

section \<open>Self-tests\<close>

record eval_case =
  ec_Name :: string
  ec_Model :: string
  ec_Prompt :: string

record eval_result =
  er_Name :: string
  er_Model :: string
  er_OK :: bool
  er_Status :: int
  er_TokensOut :: int
  er_Preview :: string
  er_Error :: string

record eval_report =
  ev_Passed :: nat
  ev_Failed :: nat
  ev_Results :: "eval_result list"

definition DefaultCases :: "eval_case list" where
  "DefaultCases =
     [\<lparr>ec_Name = ''cf-tiny-ping'', ec_Model = ''@cf/meta/llama-3.2-1b-instruct'', ec_Prompt = ''Reply with exactly: pong''\<rparr>,
      \<lparr>ec_Name = ''cf-3b-math'', ec_Model = ''@cf/meta/llama-3.2-3b-instruct'',
       ec_Prompt = ''What is 2+2? Answer with one number only.''\<rparr>,
      \<lparr>ec_Name = ''combo-cheap'', ec_Model = ''combo/cheap'', ec_Prompt = ''Say hi in one word.''\<rparr>,
      \<lparr>ec_Name = ''combo-cf-free'', ec_Model = ''combo/cf-free'', ec_Prompt = ''Reply OK''\<rparr>]"

text \<open>The three bytes of the ellipsis follow what is cut.\<close>

definition eval_trim :: "string \<Rightarrow> nat \<Rightarrow> string" where
  "eval_trim s0 n =
     (let s = trim_space s0 in if length s \<le> n then s else take n s @ [CHR 0xE2, CHR 0x80, CHR 0xA6])"

definition eval_body :: "eval_case \<Rightarrow> json" where
  "eval_body tc =
     J_obj [(''max_tokens'', J_num 32),
            (''messages'', J_arr [J_obj [(''content'', J_str (ec_Prompt tc)), (''role'', J_str ''user'')]]),
            (''model'', J_str (ec_Model tc)), (''stream'', J_bool False)]"

text \<open>The answer to a request: an error, or a status with the body and the value it decodes to.\<close>

type_synonym eval_reply = "string + int \<times> string \<times> json option"

definition reply_preview :: "json option \<Rightarrow> string" where
  "reply_preview v =
     (case v \<bind> as_obj of
        None \<Rightarrow> []
      | Some m \<Rightarrow>
        (case arr_field m ''choices'' of
           Some (c # _) \<Rightarrow>
             (case as_obj c of
                None \<Rightarrow> []
              | Some cm \<Rightarrow> (case obj_field cm ''message'' of None \<Rightarrow> [] | Some mm \<Rightarrow> eval_trim (str_field mm ''content'') 120))
         | _ \<Rightarrow> []))"

definition reply_tokens :: "json option \<Rightarrow> int" where
  "reply_tokens v =
     (case v \<bind> as_obj of
        None \<Rightarrow> 0
      | Some m \<Rightarrow>
        (case obj_field m ''usage'' of
           None \<Rightarrow> 0
         | Some u \<Rightarrow> (case tag 0 unmarshal_int u ''completion_tokens'' of None \<Rightarrow> 0 | Some n \<Rightarrow> n)))"

definition run_case :: "(json \<Rightarrow> eval_reply) \<Rightarrow> eval_case \<Rightarrow> eval_result" where
  "run_case serve tc =
     (let r = \<lparr>er_Name = ec_Name tc, er_Model = ec_Model tc, er_OK = False, er_Status = 0, er_TokensOut = 0,
               er_Preview = [], er_Error = []\<rparr>
      in case serve (eval_body tc) of
           Inl err \<Rightarrow> r\<lparr>er_Error := err\<rparr>
         | Inr (status, raw, v) \<Rightarrow>
           if status = 200
           then r\<lparr>er_Status := status, er_OK := True, er_Preview := reply_preview v, er_TokensOut := reply_tokens v\<rparr>
           else r\<lparr>er_Status := status, er_Error := eval_trim raw 200\<rparr>)"

definition RunAgainst :: "(json \<Rightarrow> eval_reply) \<Rightarrow> eval_case list \<Rightarrow> eval_report" where
  "RunAgainst serve cases0 =
     (let cases = (if cases0 = [] then DefaultCases else cases0) in
      fold (\<lambda>tc rep.
        let r = run_case serve tc in
        rep\<lparr>ev_Passed := ev_Passed rep + (if er_OK r then 1 else 0), ev_Failed := ev_Failed rep + (if er_OK r then 0 else 1),
            ev_Results := ev_Results rep @ [r]\<rparr>) cases \<lparr>ev_Passed = 0, ev_Failed = 0, ev_Results = []\<rparr>)"

section \<open>Tools\<close>

text \<open>The tools that are listed, with the parameters they are said to take.\<close>

definition tools :: "(string \<times> string list) list" where
  "tools =
     [(''list_models'', []), (''health'', []), (''quota'', []), (''cache_stats'', []), (''cache_toggle'', [''enabled'']),
      (''cost_estimate'', [''model'', ''tokens_in'', ''tokens_out'']), (''list_combos'', []),
      (''memory_search'', [''q'', ''limit'']), (''memory_add'', [''key'', ''content'']), (''guardrails_status'', []),
      (''run_evals'', []), (''history_summary'', [''hours''])]"

record cache_stats =
  ct_enabled :: bool
  ct_entries :: nat
  ct_max :: nat
  ct_ttl_sec :: int
  ct_hits :: int
  ct_misses :: int

definition cache_Stats :: "cache_store \<Rightarrow> cache_stats" where
  "cache_Stats s =
     \<lparr>ct_enabled = cs_enabled s, ct_entries = length (cs_items s), ct_max = cs_max s, ct_ttl_sec = cs_ttl s div second,
      ct_hits = cs_hits s, ct_misses = cs_misses s\<rparr>"

definition guardrails_Status :: "guardrails \<Rightarrow> bool \<times> bool" where
  "guardrails_Status g = (gd_enabled g, gd_redact g)"

datatype tool_result =
    T_quota "quota_snapshot list"
  | T_cache cache_stats
  | T_none
  | T_error string
  | T_cost string int int rat
  | T_combos "string list" "string list"
  | T_notes "memory_item list"
  | T_note memory_item
  | T_guards "bool \<times> bool"
  | T_report eval_report
  | T_stats request_stats
  | T_health
  | T_models "string list"
  | T_unknown string

text \<open>What the tools work on; the components that may be missing are optional.\<close>

record agent_state =
  as_notes :: memory_store
  as_cache :: "cache_store option"
  as_quota :: "quota_tracker option"
  as_guards :: guardrails
  as_logs :: "log_tables option option"

text \<open>
  What a call finds: the date, the clock, the keys of the two places where one for the self-tests may be, and
  the gateway as it answers a request with a key.
\<close>

record agent_env =
  ae_date :: string
  ae_now :: gotime
  ae_eval_key :: string
  ae_env_key :: string
  ae_serve :: "string \<Rightarrow> json \<Rightarrow> eval_reply"

text \<open>A number that is not one counts as zero.\<close>

definition asNum :: "json option \<Rightarrow> rat" where
  "asNum v = (case v of Some (J_num x) \<Rightarrow> x | _ \<Rightarrow> 0)"

definition combo_names :: "string list" where
  "combo_names = [''combo/auto'', ''combo/cheap'', ''combo/coding'', ''combo/cf-free'', ''combo/balanced'']"

definition strategy_names :: "string list" where
  "strategy_names =
     [''fallback'', ''round_robin'', ''latency'', ''cost'', ''priority'', ''fill_first'', ''least_used'', ''random'', ''auto'']"

definition callTool :: "agent_env \<Rightarrow> string \<Rightarrow> json_map \<Rightarrow> agent_state \<Rightarrow> tool_result \<times> agent_state" where
  "callTool e name args s =
     (if name = ''quota'' then (T_quota (case as_quota s of Some q \<Rightarrow> quota_All q | None \<Rightarrow> []), s)
      else if name = ''cache_stats'' then (case as_cache s of Some c \<Rightarrow> T_cache (cache_Stats c) | None \<Rightarrow> T_none, s)
      else if name = ''cache_toggle'' then
        (let en = (case args ''enabled'' of Some (J_bool v) \<Rightarrow> v | _ \<Rightarrow> True) in
         case as_cache s of
           Some c \<Rightarrow> (let c' = SetEnabled en c in (T_cache (cache_Stats c'), s\<lparr>as_cache := Some c'\<rparr>))
         | None \<Rightarrow> (T_error ''no cache'', s))
      else if name = ''cost_estimate'' then
        (let model = str_field args ''model'';
             tin0 = float_int (asNum (args ''tokens_in'')); tout0 = float_int (asNum (args ''tokens_out''));
             tin = (if tin0 = 0 then 1000 else tin0); tout = (if tout0 = 0 then 500 else tout0)
         in (T_cost model tin tout (USD price_table model tin tout), s))
      else if name = ''list_combos'' then (T_combos combo_names strategy_names, s)
      else if name = ''memory_search'' then (T_notes (memory_Search (str_field args ''q'') 10 (as_notes s)), s)
      else if name = ''memory_add'' then
        (let (it, ns) = memory_Add (ae_date e) (ae_now e) (str_field args ''key'') (str_field args ''content'') (as_notes s)
         in (T_note it, s\<lparr>as_notes := ns\<rparr>))
      else if name = ''guardrails_status'' then (T_guards (guardrails_Status (as_guards s)), s)
      else if name = ''run_evals'' then
        (let key = (if ae_eval_key e = [] then ae_env_key e else ae_eval_key e) in
         if key = [] then (T_error ''no gateway key for evals'', s)
         else (T_report (RunAgainst (ae_serve e key) []), s))
      else if name = ''history_summary'' then
        (let h = float_int (asNum (args ''hours'')); hours = (if h \<le> 0 then 24 else h) in
         case as_logs s of
           None \<Rightarrow> (T_error ''db not wired'', s)
         | Some None \<Rightarrow> (T_error ''query failed'', s)
         | Some (Some t) \<Rightarrow> (T_stats (GetRequestStats (history_since (ae_now e) hours) t), s))
      else if name = ''health'' then (T_health, s)
      else if name = ''list_models'' then (T_models [''grok-*'', ''cb/*'', ''@cf/*'', ''combo/*''], s)
      else (T_unknown name, s))"

section \<open>JSON-RPC\<close>

datatype rpc_result = R_tools | R_call tool_result

text \<open>\<open>id\<close> is answered as it was sent. The parameters may be of any kind.\<close>

definition rpc_call :: "json option \<Rightarrow> string \<times> json_map" where
  "rpc_call params =
     (let p = (case params \<bind> as_obj of Some m \<Rightarrow> m | None \<Rightarrow> Map.empty);
          name = str_field p ''name''; args = (case obj_field p ''arguments'' of Some a \<Rightarrow> a | None \<Rightarrow> Map.empty)
      in if name = []
         then (let alt = (case params \<bind> as_obj of Some m \<Rightarrow> m | None \<Rightarrow> Map.empty)
               in (case alt ''name'' of Some (J_str n) \<Rightarrow> n | _ \<Rightarrow> name,
                   case obj_field alt ''arguments'' of Some a \<Rightarrow> a | None \<Rightarrow> args))
         else (name, args))"

definition mcp_handle :: "agent_env \<Rightarrow> json option \<Rightarrow> agent_state \<Rightarrow> (int \<times> (json option \<times> rpc_result) option) \<times> agent_state" where
  "mcp_handle e body s =
     (case body \<bind> (\<lambda>j. do { m \<leftarrow> unmarshal_map j; v \<leftarrow> tag_string m ''jsonrpc''; method \<leftarrow> tag_string m ''method'';
                          Some (m ''id'', method, m ''params'') }) of
        None \<Rightarrow> ((400, None), s)
      | Some (i, method, params) \<Rightarrow>
        if method \<in> {''tools/list'', ''list_tools'', ''initialize''} then ((200, Some (i, R_tools)), s)
        else if method \<in> {''tools/call'', ''call''} then
          (let (name, args) = rpc_call params; (res, s') = callTool e name args s in ((200, Some (i, R_call res)), s'))
        else (let (res, s') = callTool e method Map.empty s in ((200, Some (i, R_call res)), s')))"

section \<open>Agents\<close>

datatype a2a_reply =
    A_card
  | A_accepted "quota_snapshot list" cache_stats
  | A_other string

text \<open>The quotas and the cache are there when this endpoint is called.\<close>

definition handleA2A ::
  "agent_env \<Rightarrow> quota_tracker \<Rightarrow> cache_store \<Rightarrow> json option \<Rightarrow> memory_store \<Rightarrow> a2a_reply \<times> memory_store" where
  "handleA2A e q c body ns =
     (let req = (case body \<bind> as_obj of Some m \<Rightarrow> m | None \<Rightarrow> Map.empty);
          method = (if str_field req ''method'' = [] then ''skills/list'' else str_field req ''method'')
      in if method \<in> {''skills/list'', ''agent/card''} then (A_card, ns)
         else if method \<in> {''message/send'', ''tasks/send''} then
           (let t = (if str_field req ''message'' = []
                     then (case obj_field req ''params'' of Some m \<Rightarrow> str_field m ''message'' | None \<Rightarrow> [])
                     else str_field req ''message'');
                ns' = (if trim_space t \<noteq> [] then snd (memory_Add (ae_date e) (ae_now e) ''a2a'' t ns) else ns)
            in (A_accepted (quota_All q) (cache_Stats c), ns'))
         else (A_other method, ns))"

text \<open>The error of this decoding is not looked at: what is of the wrong kind counts as missing.\<close>

definition decode_case :: "json \<Rightarrow> eval_case" where
  "decode_case j =
     (let c = (case as_obj j of Some m \<Rightarrow> m | None \<Rightarrow> Map.empty)
      in \<lparr>ec_Name = str_field c ''name'', ec_Model = str_field c ''model'', ec_Prompt = str_field c ''prompt''\<rparr>)"

definition decode_cases :: "json option \<Rightarrow> eval_case list" where
  "decode_cases body =
     (case body \<bind> as_obj of
        None \<Rightarrow> []
      | Some m \<Rightarrow> (case arr_field m ''cases'' of Some cs \<Rightarrow> map decode_case cs | None \<Rightarrow> []))"

text \<open>\<open>auth\<close> is the authorization header; the key of the caller is used when no other is set.\<close>

definition runEvalsHTTP :: "agent_env \<Rightarrow> string \<Rightarrow> json option \<Rightarrow> int \<times> eval_report option" where
  "runEvalsHTTP e auth body =
     (let key = (if ae_eval_key e \<noteq> [] then ae_eval_key e
                 else if has_prefix auth ''Bearer '' then trim_prefix auth ''Bearer '' else [])
      in if key = [] then (400, None) else (200, Some (RunAgainst (ae_serve e key) (decode_cases body))))"

section \<open>What holds and what does not\<close>

text \<open>Every case is reported once, in order, as passed or failed.\<close>

lemma RunAgainst_fold:
  "fold (\<lambda>tc rep. let r = run_case serve tc in
      rep\<lparr>ev_Passed := ev_Passed rep + (if er_OK r then 1 else 0), ev_Failed := ev_Failed rep + (if er_OK r then 0 else 1),
          ev_Results := ev_Results rep @ [r]\<rparr>) cases \<lparr>ev_Passed = p, ev_Failed = f, ev_Results = rs\<rparr> =
   \<lparr>ev_Passed = p + length (filter (er_OK \<circ> run_case serve) cases),
    ev_Failed = f + length (filter (\<lambda>tc. \<not> er_OK (run_case serve tc)) cases), ev_Results = rs @ map (run_case serve) cases\<rparr>"
  by (induction cases arbitrary: p f rs) (simp_all add: Let_def)

lemma RunAgainst_counts:
  "RunAgainst serve cases =
     (let run = (if cases = [] then DefaultCases else cases) in
      \<lparr>ev_Passed = length (filter (er_OK \<circ> run_case serve) run),
       ev_Failed = length (filter (\<lambda>tc. \<not> er_OK (run_case serve tc)) run), ev_Results = map (run_case serve) run\<rparr>)"
  unfolding RunAgainst_def Let_def by (simp only: RunAgainst_fold [unfolded Let_def] append_Nil add_0)

theorem evals_counted:
  "let rep = RunAgainst serve cases; run = (if cases = [] then DefaultCases else cases) in
   ev_Results rep = map (run_case serve) run \<and> ev_Passed rep + ev_Failed rep = length run \<and>
   ev_Passed rep = length (filter er_OK (ev_Results rep)) \<and> 0 < length run"
proof -
  define run where "run = (if cases = [] then DefaultCases else cases)"
  have "run \<noteq> []" by (simp add: run_def DefaultCases_def)
  with sum_length_filter_compl [of "er_OK \<circ> run_case serve" run]
  show ?thesis by (simp add: RunAgainst_counts filter_map comp_def Let_def flip: run_def)
qed

text \<open>Only two tools change anything, and a tool that is listed is known.\<close>

lemma tools_change:
  "name \<notin> {''cache_toggle'', ''memory_add''} \<Longrightarrow> snd (callTool e name args s) = s"
  by (auto simp: callTool_def Let_def split: option.split)

lemma listed_tools_known: "\<forall>(name, ps) \<in> set tools. fst (callTool e name args s) \<noteq> T_unknown name"
  by (simp add: tools_def callTool_def Let_def split: option.split prod.split)

text \<open>The limit of a search is not read.\<close>

lemma search_ignores_limit:
  "callTool e ''memory_search'' (args(''limit'' := v)) s = callTool e ''memory_search'' args s"
  by (simp add: callTool_def str_field_def)

text \<open>A method that names a tool loses its parameters: switching the cache off switches it on.\<close>

lemma direct_call_drops_parameters:
  assumes "as_cache s = Some c"
  shows "as_cache (snd (mcp_handle e (Some (J_obj [(''method'', J_str ''cache_toggle''),
      (''params'', J_obj [(''enabled'', J_bool False)])])) s)) = Some (c\<lparr>cs_enabled := True\<rparr>)"
  by (simp add: mcp_handle_def tag_string_def callTool_def assms SetEnabled_def Let_def)

text \<open>The second look for the name finds nothing new, and a name beside the parameters is not found.\<close>

lemma second_look_idle:
  "rpc_call params =
     (case params \<bind> as_obj of
        None \<Rightarrow> ([], Map.empty)
      | Some m \<Rightarrow> (str_field m ''name'', case obj_field m ''arguments'' of Some a \<Rightarrow> a | None \<Rightarrow> Map.empty))"
  by (cases "params \<bind> as_obj") (simp_all add: rpc_call_def str_field_def obj_field_def Let_def split: option.split json.split)

lemma top_level_name_ignored:
  "fst (mcp_handle e (Some (J_obj [(''method'', J_str ''tools/call''), (''name'', J_str ''quota'')])) s) =
     (200, Some (None, R_call (T_unknown [])))"
  by (simp add: mcp_handle_def tag_string_def second_look_idle callTool_def Let_def)

text \<open>A strategy that the router knows and the listing leaves out.\<close>

lemma strategies_not_named:
  "''throughput'' \<in> set known_strategies" "''throughput'' \<notin> set strategy_names" "length strategy_names < length known_strategies"
  by code_simp+

end
