(* ===== verification/Gateway.thy ===== *)
theory Gateway
  imports Csrf LoginLimiter Anthropic Multimodal Mcp RateLimit
begin

text \<open>
  The gateway of \<open>main.go\<close> as a whole: the table of its routes with their guards, the chain of middlewares
  in front of them, the dispatch under \<open>/v1/\<close>, the small handlers that are written out there, and the path
  that goes into the access log. Which pattern a path matches is the router's business and an argument.
\<close>

section \<open>The routes\<close>













section \<open>From the request to the handler\<close>










section \<open>Handlers of the table itself\<close>

text \<open>What is under \<open>/v1/\<close>; the chat handler gets the path that is left.\<close>

datatype v1_target = V1_messages | V1_multimodal mm_route | V1_chat string

definition v1_dispatch :: "string \<Rightarrow> string \<Rightarrow> v1_target" where
  "v1_dispatch method path =
     (if path = ''/v1/messages'' \<and> method = ''POST'' then V1_messages
      else
        let again = (\<lambda>p. case mm_Handle method p of (Some r, _) \<Rightarrow> V1_multimodal r | (None, p') \<Rightarrow> V1_chat p')
        in if str_contains path '':generateContent'' \<or> str_contains path '':streamGenerateContent''
           then (case mm_Handle method path of (Some r, _) \<Rightarrow> V1_multimodal r | (None, p') \<Rightarrow> again p')
           else again path)"

text \<open>The pools' sizes are written into the quotas before they are shown.\<close>

definition quota_endpoint :: "gotime \<Rightarrow> int \<Rightarrow> int \<Rightarrow> int \<Rightarrow> quota_tracker \<Rightarrow> quota_snapshot list \<times> quota_tracker" where
  "quota_endpoint now grok cb cf t =
     (let t' = SetPool now ''cloudflare'' cf cf 0 False (SetPool now ''codebuddy'' cb cb 0 False (SetPool now ''grok'' grok grok 0 False t))
      in (quota_All t', t'))"

definition cache_toggle_endpoint :: "json option \<Rightarrow> cache_store \<Rightarrow> cache_stats \<times> cache_store" where
  "cache_toggle_endpoint body c =
     (let en = (case body \<bind> as_obj of None \<Rightarrow> None | Some m \<Rightarrow> (case m ''enabled'' of Some (J_bool v) \<Rightarrow> Some v | _ \<Rightarrow> None));
          c' = (case en of Some v \<Rightarrow> SetEnabled v c | None \<Rightarrow> c)
      in (cache_Stats c', c'))"

definition cost_summary ::
  "gotime \<Rightarrow> log_tables option \<Rightarrow> quota_tracker \<Rightarrow> int \<times> (rat \<times> int \<times> nat \<times> quota_snapshot list) option" where
  "cost_summary now t q =
     (case t of
        None \<Rightarrow> (500, None)
      | Some t \<Rightarrow>
        (let st = GetRequestStats (history_since now 24) t
         in (200, Some (rs_TotalCostUsd st, rs_TotalTokens st, rs_TotalRequests st, quota_All q))))"

text \<open>The path of the access log.\<close>

definition logged_path :: "string \<Rightarrow> string" where
  "logged_path path =
     (case str_index path ''key='' of
        None \<Rightarrow> path
      | Some i \<Rightarrow>
        if i = 0 then path
        else case str_index (drop i path) ''&'' of
               None \<Rightarrow> take i path @ ''key=***''
             | Some e \<Rightarrow> take i path @ ''key=***'' @ drop (i + e) path)"

section \<open>Who reaches what\<close>















section \<open>The small handlers\<close>

text \<open>A second look at the path finds nothing the first did not, and only posts leave the chat handler.\<close>

lemma handle_twice: "mm_Handle mth path = (None, p) \<Longrightarrow> mm_Handle mth p = (None, p)"
proof (induction mth path rule: mm_Handle.induct)
  case (1 mth path)
  from 1(2) have "p = path \<or>
      \<not> (mth = ''POST'' \<and> (str_contains path '':generateContent'' \<or> str_contains path '':streamGenerateContent'')) \<and>
      \<not> mth \<noteq> ''POST'' \<and> fixed_route path = None \<and> has_suffix path ''/'' \<and> mm_Handle mth (trim_slashes path) = (None, p)"
    unfolding mm_Handle.simps [of mth path] by (auto split: if_splits option.splits)
  then show ?case
  proof
    assume "p = path"
    with 1(2) show ?case by simp
  qed (elim conjE, rule 1(1))
qed

lemma v1_targets:
  "v1_dispatch method path =
     (if path = ''/v1/messages'' \<and> method = ''POST'' then V1_messages
      else case mm_Handle method path of (Some r, _) \<Rightarrow> V1_multimodal r | (None, p) \<Rightarrow> V1_chat p)"
  by (auto simp: v1_dispatch_def Let_def handle_twice split: prod.split option.split)

text \<open>Whatever state the accounts are in, the quotas are shown with all of them healthy and the circuit closed.\<close>

lemma quotas_always_healthy:
  assumes "snap \<in> set (fst (quota_endpoint now grok cb cf t))"
  shows "qs_Healthy snap = qs_Accounts snap \<and> qs_Disabled snap = 0 \<and> \<not> qs_CircuitOpen snap"
  using assms by (auto simp: quota_endpoint_def quota_All_def SetPool_def update_family_def Let_def rollDay_def new_day_def
    split: if_splits)

text \<open>The value of the first parameter that contains the word is masked, what follows it is not.\<close>

lemma str_index_extend: "str_index (u @ p) p = Some (length u) \<Longrightarrow> str_index (u @ p @ v) p = Some (length u)"
proof (induction u)
  case Nil
  then show ?case using str_index_at [of "p @ v" p] by simp
next
  case (Cons c u)
  then have "\<not> has_prefix (c # u @ p) p" "str_index (u @ p) p = Some (length u)" by (auto split: if_splits)
  moreover have "has_prefix (c # u @ p @ v) p = has_prefix (c # u @ p) p"
    using take_append [of "length p" "c # u @ p" v] by (simp add: has_prefix_def)
  ultimately show ?case using Cons.IH by simp
qed

lemma masked_key:
  assumes "str_index (u @ ''key='') ''key='' = Some (length u)" and "u \<noteq> []" and "CHR ''&'' \<notin> set k"
  shows "logged_path (u @ ''key='' @ k) = u @ ''key=***''"
proof -
  have "str_index (''key='' @ k) ''&'' = None" using assms(3) by (intro str_index_single) auto
  with str_index_extend [OF assms(1), of k] assms(2) show ?thesis by (simp add: logged_path_def)
qed

lemma key_logged: "logged_path ''/v1/models?monkey=1&key=gw-secret'' = ''/v1/models?monkey=***&key=gw-secret''"
  by code_simp

end
