(* ===== verification/ModelList.thy ===== *)
theory ModelList
  imports Routing
begin

text \<open>
  What clients of the Messages API see of the model list, \<open>internal/proxy/anthropic_models.go\<close>: who counts as
  one and the names that are shown. Also the text of a request that goes into the request log
  (\<open>extractInputText\<close> of \<open>internal/proxy/proxy.go\<close>).
\<close>

section \<open>Clients\<close>

record model_headers =
  mh_x_api_key :: string
  mh_version :: string
  mh_beta :: string
  mh_accept :: string
  mh_user_agent :: string

definition isAnthropicClient :: "model_headers \<Rightarrow> bool" where
  "isAnthropicClient h =
     (if mh_x_api_key h \<noteq> [] then True
      else if mh_version h \<noteq> [] then True
      else if mh_beta h \<noteq> [] then True
      else if str_contains (to_lower (mh_accept h)) ''anthropic'' then True
      else let ua = to_lower (mh_user_agent h) in has_prefix ua ''anthropic'' \<or> has_prefix ua ''claude'')"

section \<open>Names\<close>

definition upper_char :: "char \<Rightarrow> char" where
  "upper_char c = (let n = (of_char c :: nat) in if 97 \<le> n \<and> n \<le> 122 then char_of (n - 32) else c)"

definition titleCase :: "string \<Rightarrow> string" where
  "titleCase s = (case s of [] \<Rightarrow> [] | c # r \<Rightarrow> upper_char c # r)"

fun split_dash :: "string \<Rightarrow> string list" where
  "split_dash [] = [[]]"
| "split_dash (c # s) =
     (if c = CHR ''-'' then [] # split_dash s
      else case split_dash s of [] \<Rightarrow> [[c]] | w # ws \<Rightarrow> (c # w) # ws)"

definition name_segment :: "string \<Rightarrow> string" where
  "name_segment p =
     (let l = to_lower p in
      if l = ''gpt'' then ''GPT'' else if l = ''glm'' then ''GLM'' else if l = ''deepseek'' then ''DeepSeek'' else titleCase p)"

definition prettyCBName :: "string \<Rightarrow> string" where
  "prettyCBName s = join_with '' '' (map name_segment (filter (\<lambda>p. p \<noteq> []) (split_dash s)))"

definition displayNameForModel :: "string \<Rightarrow> string" where
  "displayNameForModel i =
     (if i = [] then []
      else
        let lower = to_lower i in
        if has_prefix lower ''combo/'' then ''Combo: '' @ drop 6 i
        else if has_prefix lower ''grok-'' then
          (let rest = drop 5 i in
           if to_lower rest = ''code-fast-1'' then ''Grok Code Fast 1''
           else case split_at_char [CHR ''-''] rest of
                  (v, None) \<Rightarrow> ''Grok '' @ v
                | (v, Some effort) \<Rightarrow>
                  if effort \<in> {''high'', ''medium'', ''low'', ''xhigh'', ''auto'', ''none''}
                  then ''Grok '' @ v @ '' ('' @ titleCase effort @ '')''
                  else if effort = ''fast-reasoning'' then ''Grok '' @ v @ '' (Fast Reasoning)''
                  else ''Grok '' @ v @ '' '' @ effort)
        else if has_prefix lower ''cb/'' then prettyCBName (drop 3 i) @ '' (CodeBuddy)''
        else titleCase i)"

text \<open>The list as it is answered: for such a client each entry has a name besides.\<close>

definition listed_models ::
  "model_headers \<Rightarrow> (string \<times> string) list \<Rightarrow> string list \<Rightarrow> string set option \<Rightarrow> (string \<times> string \<times> string option) list" where
  "listed_models h customs combos hidden =
     map (\<lambda>(i, owner). (i, owner, if isAnthropicClient h then Some (displayNameForModel i) else None))
       (list_models customs combos hidden)"

section \<open>The text in the request log\<close>

text \<open>The parts of a message that are texts, as strings.\<close>

definition part_texts :: "json list \<Rightarrow> string list" where
  "part_texts ps =
     List.map_filter (\<lambda>p. case as_obj p of
         None \<Rightarrow> None
       | Some pm \<Rightarrow> if str_field pm ''type'' = ''text'' then (case pm ''text'' of Some (J_str t) \<Rightarrow> Some t | _ \<Rightarrow> None) else None) ps"

definition input_of_message :: "json \<Rightarrow> string option" where
  "input_of_message msg =
     (case as_obj msg of
        None \<Rightarrow> None
      | Some m \<Rightarrow>
        if str_field m ''role'' \<noteq> ''user'' then None
        else case m ''content'' of
               Some (J_str v) \<Rightarrow> Some (truncateLog v 500)
             | Some (J_arr ps) \<Rightarrow>
               (let parts = part_texts ps in if parts \<noteq> [] then Some (truncateLog (join_with '' '' parts) 500) else None)
             | _ \<Rightarrow> None)"

text \<open>The last message that has one decides.\<close>

definition extractInputText :: "json_map \<Rightarrow> string" where
  "extractInputText body =
     (case arr_field body ''messages'' of
        None \<Rightarrow> []
      | Some msgs \<Rightarrow> (case first_some (map input_of_message (rev msgs)) of Some t \<Rightarrow> t | None \<Rightarrow> []))"

section \<open>What holds\<close>

text \<open>A hidden model is not listed, under whatever name it is shown, and everything else is.\<close>

lemma listed_ids: "fst ` set (listed_models h customs combos hidden) = fst ` set (list_models customs combos hidden)"
  by (simp add: listed_models_def image_image case_prod_unfold)

lemma filter_ids: "fst ` set (filter (\<lambda>(i, _). i \<notin> h) ms) = fst ` set ms - h"
  by (force simp: image_iff)

lemma listed_iff:
  "i \<in> fst ` set (listed_models h customs combos hidden) \<longleftrightarrow>
   i \<in> fst ` set (local_models @ customs) \<union> (\<lambda>n. ''combo/'' @ n) ` set combos \<and> (case hidden of None \<Rightarrow> True | Some hs \<Rightarrow> i \<notin> hs)"
proof -
  define ms where "ms = local_models @ customs @ map (\<lambda>name. (''combo/'' @ name, ''combo'')) combos"
  have "fst ` set ms = fst ` set (local_models @ customs) \<union> (\<lambda>n. ''combo/'' @ n) ` set combos"
    by (simp only: ms_def set_append set_map image_Un image_image fst_conv Un_assoc)
  then show ?thesis
    unfolding listed_ids list_models_def Let_def ms_def [symmetric]
    by (cases hidden) (simp_all only: option.case filter_ids Diff_iff simp_thms split: if_split, auto)
qed

text \<open>The text that is logged is never longer than 503 bytes.\<close>

lemma first_some_in: "first_some xs = Some v \<Longrightarrow> Some v \<in> set xs"
  by (induction xs rule: first_some.induct) (auto split: option.splits)

lemma logged_text_bounded: "length (extractInputText body) \<le> 503"
proof -
  have "length t \<le> 503" if "input_of_message m = Some t" for m t
    using that by (auto simp: input_of_message_def truncateLog_def Let_def split: option.splits json.splits if_splits)
  then show ?thesis
    by (auto simp: extractInputText_def split: option.split dest!: first_some_in)
qed

text \<open>The comments on the names, where they agree and where not: the version of DeepSeek gets a capital letter.\<close>

lemma display_names:
  "displayNameForModel ''grok-4.5-high'' = ''Grok 4.5 (High)''"
  "displayNameForModel ''cb/claude-sonnet-4.6'' = ''Claude Sonnet 4.6 (CodeBuddy)''"
  "displayNameForModel ''cb/gpt-5.1-codex-mini'' = ''GPT 5.1 Codex Mini (CodeBuddy)''"
  "displayNameForModel ''cb/o4-mini'' = ''O4 Mini (CodeBuddy)''"
  "displayNameForModel ''combo/foo'' = ''Combo: foo''"
  by code_simp+

lemma deepseek_name: "displayNameForModel ''cb/deepseek-v3.2'' = ''DeepSeek V3.2 (CodeBuddy)''"
  by code_simp

end
