(* ===== verification/Loaders.thy ===== *)
theory Loaders
  imports GrokPool CBPool CFPool Db "HOL-Library.AList"
begin

text \<open>
  How the credentials come out of Redis at the start: the loaders of \<open>internal/db/db.go\<close> below those of the pools.
  Which keys a scan reports, in what order and how often, and what a read of a hash answers are arguments. Also
  the masking of credentials in the names of keys, for the log.
\<close>

definition RK_GROK_ACCOUNT :: string where "RK_GROK_ACCOUNT = ''grok:account:''"
definition RK_CB_KEY :: string where "RK_CB_KEY = ''cb:key:''"
definition RK_CF_KEY :: string where "RK_CF_KEY = ''cf:account:''"
definition RK_GATEWAY_KEY :: string where "RK_GATEWAY_KEY = ''gw:key:''"

type_synonym hash_reader = "string \<Rightarrow> (string \<Rightarrow> string option) option"

text \<open>The map the loaders fill: a hash that cannot be read is left out, a key that comes again overwrites.\<close>

definition load_rows :: "string \<Rightarrow> string list \<Rightarrow> hash_reader \<Rightarrow> (string \<times> (string \<Rightarrow> string option)) list" where
  "load_rows pre scan hgetall =
     fold (\<lambda>rk rows. case hgetall rk of None \<Rightarrow> rows | Some vals \<Rightarrow> AList.update (drop (length pre) rk) vals rows) scan []"

text \<open>\<open>err\<close> is how the scan ended.\<close>

definition LoadGrokAccounts ::
  "string option \<Rightarrow> string list \<Rightarrow> hash_reader \<Rightarrow> string + (string \<times> (string \<Rightarrow> string option)) list" where
  "LoadGrokAccounts err scan hgetall =
     (case err of Some e \<Rightarrow> Inl e | None \<Rightarrow> Inr (load_rows RK_GROK_ACCOUNT scan hgetall))"

definition LoadCBKeys ::
  "string option \<Rightarrow> string list \<Rightarrow> hash_reader \<Rightarrow> string + (string \<times> (string \<Rightarrow> string option)) list" where
  "LoadCBKeys err scan hgetall = Inr (load_rows RK_CB_KEY scan hgetall)"

definition LoadCFKeys ::
  "string option \<Rightarrow> string list \<Rightarrow> hash_reader \<Rightarrow> string + (string \<times> (string \<Rightarrow> string option)) list" where
  "LoadCFKeys err scan hgetall =
     (case err of Some e \<Rightarrow> Inl e | None \<Rightarrow> Inr (load_rows RK_CF_KEY scan hgetall))"

definition LoadGatewayKeys :: "string option \<Rightarrow> string list \<Rightarrow> hash_reader \<Rightarrow> string + gateway_key_dto list" where
  "LoadGatewayKeys err scan hgetall =
     (case err of
        Some e \<Rightarrow> Inl e
      | None \<Rightarrow> Inr (List.map_filter (\<lambda>rk. Option.bind (hgetall rk) parseGatewayKeyFromRedis) scan))"

text \<open>\<open>strings.LastIndex\<close> of a colon, as the text up to it and the text behind it.\<close>

definition last_colon :: "string \<Rightarrow> (string \<times> string) option" where
  "last_colon s =
     (if CHR '':'' \<in> set s
      then Some (rev (dropWhile (\<lambda>c. c \<noteq> CHR '':'') (rev s)), rev (takeWhile (\<lambda>c. c \<noteq> CHR '':'') (rev s)))
      else None)"

definition maskRedisKey :: "string \<Rightarrow> string" where
  "maskRedisKey rk =
     (case last_colon rk of
        None \<Rightarrow> rk
      | Some (pre, body) \<Rightarrow>
        if body = [] then rk
        else if length body > 12 then pre @ take 8 body @ ''...'' @ drop (length body - 4) body
        else pre @ ''***'')"

section \<open>What is loaded\<close>

text \<open>However often the scan reports a key, there is one row for it, with what its hash holds.\<close>

lemma load_rows_snoc:
  "load_rows p (scan @ [rk]) h =
     (case h rk of None \<Rightarrow> load_rows p scan h | Some vals \<Rightarrow> AList.update (drop (length p) rk) vals (load_rows p scan h))"
  unfolding load_rows_def by simp

lemma load_rows_distinct: "distinct (map fst (load_rows p scan h))"
  by (induction scan rule: rev_induct) (auto simp: load_rows_snoc distinct_update load_rows_def split: option.split)

lemma load_rows_lookup:
  assumes "list_all (\<lambda>rk. has_prefix rk p) scan"
  shows "map_of (load_rows p scan h) k = (if p @ k \<in> set scan then h (p @ k) else None)"
  using assms
proof (induction scan rule: rev_induct)
  case Nil
  then show ?case by (simp add: load_rows_def)
next
  case (snoc rk scan)
  then obtain r where rk: "rk = p @ r" by (auto simp: has_prefix_iff)
  from snoc show ?case
    by (cases "h rk") (auto simp: load_rows_snoc rk update_conv')
qed

text \<open>The two pools that look at the error of the scan keep what they have, the third takes what came.\<close>

lemma broken_scan:
  "CF_LoadFromRedis getenv readfile (LoadCFKeys (Some e) scan h) p = (Some (if kp_db p then e else ''redis not available''), p, [])"
  "fst (Grok_LoadFromRedis unrfc now (LoadGrokAccounts (Some e) scan h) g) = Some (if gp_db g then e else ''redis not available'')"
  "fst (CB_LoadFromRedis getenv readfile (LoadCBKeys (Some e) scan h) c) = None"
  by (auto simp: LoadCFKeys_def CF_LoadFromRedis_def LoadGrokAccounts_def Grok_LoadFromRedis_def LoadCBKeys_def CB_LoadFromRedis_def)

text \<open>So when the scan breaks off before the first key, the CodeBuddy pool starts from the bootstrap file.\<close>

lemma broken_scan_bootstraps:
  "CB_LoadFromRedis getenv readfile (LoadCBKeys (Some e) [] h) c =
     (None, fold seed_key (bootstrap_keys (cb_bootstrap_text getenv readfile)) (c, []))"
  by (simp add: LoadCBKeys_def CB_LoadFromRedis_def load_rows_def)

section \<open>What is logged\<close>

lemma last_colon_body: "CHR '':'' \<notin> set b \<Longrightarrow> last_colon (p @ CHR '':'' # b) = Some (p @ [CHR '':''], b)"
  by (auto simp: last_colon_def dropWhile_append takeWhile_append)

text \<open>A credential without a colon is shown by twelve bytes at most; one that ends in a colon is shown whole.\<close>

lemma masked_body:
  assumes "CHR '':'' \<notin> set b" and "b \<noteq> []"
  shows "maskRedisKey (p @ CHR '':'' # b) =
    p @ CHR '':'' # (if length b > 12 then take 8 b @ ''...'' @ drop (length b - 4) b else ''***'')"
  using assms by (simp add: maskRedisKey_def last_colon_body)

lemma colon_at_the_end_unmasked: "maskRedisKey (RK_CB_KEY @ ''secret-credential:'') = RK_CB_KEY @ ''secret-credential:''"
  by code_simp

end
