(* ===== verification/Spec2Isabelle.thy ===== *)
theory Spec2Isabelle
  imports ProxyPool Health Upstream ModelNames Cost Custom Combo Db Auth Session RateLimit LoginLimiter Cache GrokPool GrokProxy CBPool CBProxy CFPool CFProxy Routing Anthropic AnthropicStream Rtk Guardrails Quota Memory Csrf Presets TokenSaver Prepare Studio Judge Console TunnelSafety RequestLogs GeminiTrip Multimodal BulkImport Admin Stored
    AdminRegistry Features Gateway ModelList Loaders
begin

text \<open>
  FoxRouters is an LLM gateway in Go: clients speak the OpenAI chat completions API or the
  Anthropic Messages API, and the gateway serves each request from one of three upstreams (Grok,
  CodeBuddy, Cloudflare Workers AI) with credentials out of a pool. This library models the
  gateway's own logic as HOL functions and proves what its parts promise, and where they do not.

  \<^bold>\<open>The parts and how they interact.\<close> A request first passes the rate limiter, the header middleware
  of the Anthropic adapter and the two access middlewares, which resolve a bearer token or a session
  cookie to a gateway key. The chat handler scans and redacts the messages, compresses the prompt or
  the tool outputs in it, trims old turns, adds directives, looks into the response cache, resolves the model name
  through the custom registry and the combos, checks the whitelist of the key, and dispatches to an
  upstream by the name, falling back along a combo's models. Each upstream walks its credential pool
  behind a circuit breaker and sends through an HTTP client over the proxy pool; its token counts
  are charged to the key. The Anthropic adapter wraps the chat handler on both sides. Registries,
  keys, sessions and credentials are written through to Redis and read back at the start.

  \<^bold>\<open>Theories and code.\<close> The theories follow the files under \<open>src/\<close>, one group of definitions per
  component, with the names of the code.
  \<^item> \<open>Prelude\<close>: what is used of Go and its library (package \<open>strings\<close>, 64-bit integers, time and
    durations, slices), and the answers of the store. \<open>Json\<close>: decoded bodies.
  \<^item> \<open>ProxyPool\<close> (\<open>internal/proxy/pool.go\<close>, \<open>proxy_adapter.go\<close>): entries, validation, scoped
    selection by a shared or a local cursor, failure counting, the DTO conversions.
  \<^item> \<open>Health\<close> (\<open>internal/upstream/health.go\<close>): circuit breaker and health checks. \<open>Upstream\<close>,
    \<open>ModelNames\<close> (\<open>internal/upstream/upstream.go\<close>): choice of the HTTP client, model names.
  \<^item> \<open>Registry\<close>, \<open>Custom\<close>, \<open>Combo\<close> (\<open>internal/proxy/custom.go\<close>, \<open>validate.go\<close>, \<open>combo.go\<close>): the
    two registries in front of Redis hashes. \<open>Cost\<close> (\<open>internal/cost/cost.go\<close>): prices.
  \<^item> \<open>Db\<close> (\<open>internal/db/db.go\<close>), \<open>Auth\<close> (\<open>internal/auth/auth.go\<close>, parts of
    \<open>internal/handlers/handlers.go\<close>), \<open>Session\<close> (\<open>internal/auth/session_store.go\<close>): keys, access, sessions.
  \<^item> \<open>RateLimit\<close>, \<open>LoginLimiter\<close>, \<open>Cache\<close> (\<open>internal/ratelimit\<close>, \<open>login_limiter.go\<close>, \<open>internal/cache\<close>).
  \<^item> \<open>CredPool\<close>: what the three pools share. \<open>GrokPool\<close>, \<open>GrokProxy\<close>, \<open>CBPool\<close>, \<open>CBProxy\<close>, \<open>CFPool\<close>,
    \<open>CFProxy\<close> (\<open>internal/upstream/grok.go\<close>, \<open>codebuddy.go\<close>, \<open>cloudflare.go\<close>, \<open>cf_run.go\<close>): pools and
    request loops.
  \<^item> \<open>Routing\<close> (\<open>internal/proxy/proxy.go\<close>, \<open>buffered_writer.go\<close>): the chat handler.
  \<^item> \<open>Anthropic\<close>, \<open>AnthropicStream\<close> (\<open>internal/handlers/anthropic.go\<close>): translation of requests, and
    of answers as event streams or whole.
  \<^item> \<open>Lines\<close>, \<open>Regex\<close>: line readers and Go's regular expressions. \<open>RtkFilters\<close>, \<open>Rtk\<close>
    (\<open>internal/rtk\<close>): the compressor of tool outputs. \<open>Guardrails\<close> (\<open>internal/guardrails\<close>).
  \<^item> \<open>Quota\<close>, \<open>Memory\<close>, \<open>Csrf\<close>, \<open>Presets\<close> (\<open>internal/quota\<close>, \<open>internal/memory\<close>, \<open>csrf_guard.go\<close>,
    \<open>internal/features/presets.go\<close>): day counters, notes of agents, the cross-site check, first combos.
    \<open>TokenSaver\<close> (\<open>internal/tokensaver\<close>): directives and the trimming of old turns.
  \<^item> \<open>Segments\<close>, \<open>Lite\<close>, \<open>Caveman\<close>, \<open>Ultra\<close>, \<open>Summarizer\<close>, \<open>Aggressive\<close>, \<open>Compression\<close>, \<open>Studio\<close>, \<open>Judge\<close>
    (\<open>internal/compression\<close>): the prompt compressors, one theory per mode, the pipeline around them, their
    preview and their judge. \<open>Prepare\<close>: what the chat handler does to a body before the routing, and the
    handler from the decoded body to the upstream calls.
  \<^item> \<open>Decode\<close>: decoding into Go types. \<open>Gemini\<close>, \<open>GeminiTrip\<close> (\<open>internal/translate/gemini.go\<close>): the translation
    to and from Gemini's format, and what a conversation loses on the way there and back.
    \<open>Multimodal\<close> (\<open>internal/multimodal/routes.go\<close>, \<open>cf_run.go\<close>): Gemini paths, embeddings, images.
  \<^item> \<open>BoundedLog\<close>: logs that keep their last entries. \<open>Console\<close> (\<open>internal/console\<close>): the live console.
    \<open>RequestLogs\<close> (\<open>internal/db/db.go\<close>, \<open>logstore.go\<close>, \<open>logstore_sqlite.go\<close>): the channels, batches and
    tables of the request log and the pages read from them.
  \<^item> \<open>Stored\<close>, \<open>StoredJson\<close> (\<open>internal/db/db.go\<close>): the Redis records of the proxy pool and the JSON hashes of the
    registries, and that a restart loads what was in memory. \<open>Loaders\<close>: how keys and accounts are scanned.
  \<^item> \<open>BulkImport\<close>, \<open>Admin\<close> (\<open>internal/handlers/handlers.go\<close>), \<open>AdminRegistry\<close> (\<open>combos.go\<close>, \<open>custom.go\<close>,
    \<open>proxies.go\<close>): the administration endpoints, from the decoded body to the reply.
  \<^item> \<open>Features\<close> (\<open>features_handlers.go\<close>): settings of the token saver, previews of the compressors, settings
    for client tools. \<open>Mcp\<close> (\<open>internal/mcp/mcp.go\<close>, \<open>internal/evals/evals.go\<close>): the tools for agents, self-tests.
    \<open>Gateway\<close> (\<open>main.go\<close>): the table of routes, the chain of middlewares in front of it, and the access log.
    \<open>ModelList\<close> (\<open>internal/proxy/anthropic_models.go\<close>): the names clients of the Messages API are shown.
  \<^item> \<open>Tunnel\<close>, \<open>TunnelSafety\<close> (\<open>internal/tunnel/manager.go\<close>, \<open>internal/handlers/tunnels.go\<close>): the supervision
    of the tunnel processes as a step relation, and their persisted configuration.

  \<^bold>\<open>State and effects.\<close> A struct is a record, state passes through the operations, and calls that leave
  the process (store, log, network) are returned as a list. The clock, random values, replies of the
  store and of upstreams, JSON decoding, the order of a loop over a Go map and the package \<open>regexp2\<close> are
  arguments.
  Counters are integers wrapped to 64 bits or words where overflow shows, \<open>float64\<close> is a rational.
  Pointers to credentials are addresses into a heap kept by the pool, since a request holds on to a
  credential that another one may disable or remove; other goroutines then interfere between the
  steps of a request as arbitrary functions on the pool. A deletion or an update of a gateway key is a job of at most
  four calls on the manager (\<open>Auth\<close>), and the calls of all jobs in flight interleave.
  A case is folded on ASCII letters only: \<open>to_lower\<close> leaves the bytes of other characters as they are.

  \<^bold>\<open>Interfaces.\<close> \<open>rotation\<close> and \<open>credential_pool\<close> (\<open>CredPool\<close>) state once that a cursor serves all in turn,
  that a ban is final and that a cooldown ends, and are interpreted by the three pools;
  \<open>write_through\<close> (\<open>Registry\<close>) states that a cache always equals the store, interpreted by both
  registries; \<open>proxy_pool_api\<close> (\<open>Upstream\<close>) is what upstream calls need of the proxy pool;
  \<open>bounded_log\<close> (\<open>BoundedLog\<close>) states that a log of bounded size holds the last entries offered, interpreted by
  the notes of the agents, the live console and the ring buffer of the tunnel processes;
  \<open>importer\<close> and \<open>idle_importer\<close> (\<open>BulkImport\<close>) are what a bulk import needs of a pool, interpreted by the three
  pools; \<open>json_values\<close> (\<open>StoredJson\<close>) states that a JSON hash gives back what was put in, interpreted by the
  custom models, the hidden models and the combos;
  \<open>prompt_keeper\<close> (\<open>Lite\<close>) is what the net around the compressors needs of a mode, interpreted by each;
  \<open>auth_lookup\<close> and \<open>session_lookup\<close> are what the rate limiter and the access check need.

  \<^bold>\<open>What the lemmas show.\<close> Per component: preservation of its invariant by each operation, the value of
  each operation on its branches, and then the statement about whole histories, by induction on the
  list of operations. The properties, named C1 onwards in the text before them, are collected in the
  theories of their components; those of \<open>Routing\<close> span the dispatch, the keys and the breakers, and the one
  of \<open>Gateway\<close> the limiter, both access checks and the cross-site check over all routes.

  \<^bold>\<open>Bounds.\<close> No definition needs fuel: retry loops recurse over the list of environments of their
  attempts, whose length is the code's own limit, and scanning loops over their input. Trimming
  white space terminates since each round shortens the text.

  \<^bold>\<open>Not modelled.\<close> HTTP transport, TLS, the ClickHouse server, Prometheus metrics and the standard output are
  I/O. The dashboard and the login page are HTML. The offline evaluation of the compressors is no part of
  the gateway. The start and the shutdown in \<open>main.go\<close> and the adapters only call the parts.
\<close>

end
